(* ===== verification/Renvo_Prelude.thy ===== *)
theory Renvo_Prelude
  imports Main "HOL-Library.Word" "HOL-Library.Monad_Syntax"
begin

text \<open>
  Shared vocabulary of the development: bytes and Go strings, the error values of the decoders,
  checked slice accesses (a Go index or slice expression that would panic is \<^const>\<open>None\<close>),
  and the generic lemmas on lists, options, sums and bit operations that the component theories
  rest on.  A Go \<open>int\<close> is the mathematical \<^typ>\<open>int\<close>: the repository's hosts have 64-bit
  \<open>int\<close>, and every value the modelled code computes stays far below \<open>2 ^ 63\<close>.  Values whose
  width matters (bytes, the virtual machine's registers) are words.
\<close>

unbundle bit_operations_syntax

subsection \<open>Types\<close>

type_synonym byte = "8 word"
type_synonym bytes = "byte list"
type_synonym gostring = "byte list"
type_synonym i32 = "32 word"

text \<open>The value of \<open>fmt.Errorf (format, args)\<close>: the format and its numeric arguments.\<close>

datatype go_error = Errorf string "int list"

named_theorems codec_out \<open>a writer appends its encoding\<close>
named_theorems codec_complete \<open>symbolic execution of a reader on encoded input\<close>
named_theorems codec_sound \<open>what a successful reader has seen\<close>

subsection \<open>Checked accesses\<close>

text \<open>\<open>xs[i]\<close>: a Go index expression, which panics out of range.\<close>

definition at :: "'a list \<Rightarrow> int \<Rightarrow> 'a option" where
  "at xs i = (if 0 \<le> i \<and> i < int (length xs) then Some (xs ! nat i) else None)"

text \<open>\<open>xs[i] = v\<close>.\<close>

definition put :: "'a list \<Rightarrow> int \<Rightarrow> 'a \<Rightarrow> 'a list option" where
  "put xs i v = (if 0 \<le> i \<and> i < int (length xs) then Some (xs[nat i := v]) else None)"

text \<open>\<open>xs[a:b]\<close>, for a slice whose capacity is its length.\<close>

definition slice :: "'a list \<Rightarrow> int \<Rightarrow> int \<Rightarrow> 'a list option" where
  "slice xs a b =
     (if 0 \<le> a \<and> a \<le> b \<and> b \<le> int (length xs) then Some (take (nat (b - a)) (drop (nat a) xs)) else None)"

text \<open>\<open>if !ok { return err }\<close> after a fallible read.\<close>

definition need :: "'a option \<Rightarrow> 'e \<Rightarrow> ('a \<Rightarrow> 'e + 'b) \<Rightarrow> 'e + 'b" where
  "need r e k = (case r of None \<Rightarrow> Inl e | Some x \<Rightarrow> k x)"

text \<open>\<open>if err != nil { return err }\<close> after a call that returns an error.\<close>

definition attempt :: "'e + 'a \<Rightarrow> ('a \<Rightarrow> 'e + 'b) \<Rightarrow> 'e + 'b" where
  "attempt r k = (case r of Inl e \<Rightarrow> Inl e | Inr x \<Rightarrow> k x)"

lemma at_eq_Some_iff: "at xs i = Some x \<longleftrightarrow> 0 \<le> i \<and> i < int (length xs) \<and> x = xs ! nat i"
  by (auto simp: at_def)

lemma at_in_range [simp]: "0 \<le> i \<Longrightarrow> i < int (length xs) \<Longrightarrow> at xs i = Some (xs ! nat i)"
  by (simp add: at_def)

lemma put_in_range [simp]:
  "0 \<le> i \<Longrightarrow> i < int (length xs) \<Longrightarrow> put xs i v = Some (xs[nat i := v])"
  by (simp add: put_def)

lemma put_eq_Some_iff:
  "put xs i v = Some ys \<longleftrightarrow> 0 \<le> i \<and> i < int (length xs) \<and> ys = xs[nat i := v]"
  by (auto simp: put_def)

lemma put_length: "put xs i v = Some ys \<Longrightarrow> length ys = length xs"
  by (auto simp: put_eq_Some_iff)

lemma slice_in_range [simp]:
  "0 \<le> a \<Longrightarrow> a \<le> b \<Longrightarrow> b \<le> int (length xs) \<Longrightarrow>
     slice xs a b = Some (take (nat (b - a)) (drop (nat a) xs))"
  by (simp add: slice_def)

lemma slice_eq_Some_iff:
  "slice xs a b = Some ys \<longleftrightarrow>
     0 \<le> a \<and> a \<le> b \<and> b \<le> int (length xs) \<and> ys = take (nat (b - a)) (drop (nat a) xs)"
  by (auto simp: slice_def)

lemma slice_length: "slice xs a b = Some ys \<Longrightarrow> int (length ys) = b - a"
  by (auto simp: slice_eq_Some_iff)

lemma need_simps [simp]:
  "need None e k = Inl e" "need (Some x) e k = k x"
  by (simp_all add: need_def)

lemma need_Inr: "need r e k = Inr y \<longleftrightarrow> (\<exists>x. r = Some x \<and> k x = Inr y)"
  by (simp add: need_def split: option.split)

lemma attempt_simps [simp]:
  "attempt (Inl e) k = Inl e" "attempt (Inr x) k = k x"
  by (simp_all add: attempt_def)

lemma attempt_Inr: "attempt r k = Inr y \<longleftrightarrow> (\<exists>x. r = Inr x \<and> k x = Inr y)"
  by (simp add: attempt_def split: sum.split)

lemma if_Inl_Inr: "(if b then Inl e else r) = Inr y \<longleftrightarrow> \<not> b \<and> r = Inr y"
  by simp

subsection \<open>Lists\<close>

lemma drop_plus: "drop (m + n) xs = drop n (drop m xs)"
  by (simp add: add.commute)

lemma drop_append_length [simp]: "drop (length xs) (xs @ ys) = ys"
  by simp

lemma drop_Cons_nth: "drop n xs = y # ys \<Longrightarrow> n < length xs \<and> xs ! n = y \<and> drop (Suc n) xs = ys"
  by (metis Cons_nth_drop_Suc drop_eq_Nil2 linorder_not_less list.inject list.distinct(1))

lemma drop_eq_ConsI: "n < length xs \<Longrightarrow> drop n xs = xs ! n # drop (Suc n) xs"
  by (simp add: Cons_nth_drop_Suc)

lemma drop_prefix_length: "drop n xs = ys @ zs \<Longrightarrow> n \<le> length xs \<Longrightarrow> n + length ys \<le> length xs"
  by (metis length_append length_drop le_add1 le_diff_conv2 add.commute)

lemma foldl_append_out:
  assumes "\<And>out x. f out x = out @ f [] x"
  shows "foldl f out xs = out @ concat (map (f []) xs)"
proof (induction xs arbitrary: out)
  case Nil
  then show ?case by simp
next
  case (Cons x xs)
  have "foldl f out (x # xs) = (out @ f [] x) @ concat (map (f []) xs)"
    using Cons[of "f out x"] assms[of out x] by simp
  then show ?case by simp
qed

subsection \<open>Bits\<close>

lemma and_not_mask: "(x :: int) AND NOT (mask k) = push_bit k (drop_bit k x)"
  by (rule bit_eqI) (auto simp: bit_simps)

lemma or_push_bit_eq_add:
  fixes a x :: int
  assumes "0 \<le> a" and "a < 2 ^ n"
  shows "a OR push_bit n x = a + x * 2 ^ n"
proof -
  have a: "a = take_bit n a"
    using assms by (simp add: take_bit_int_eq_self)
  have "take_bit n a AND push_bit n x = 0"
    by (rule bit_eqI) (simp add: bit_simps)
  then have "a + push_bit n x = a OR push_bit n x"
    using a disjunctive_add_eq_or[of "take_bit n a" "push_bit n x"] by simp
  then show ?thesis
    by (simp add: push_bit_eq_mult)
qed

lemma uint_byte_range [simp]: "0 \<le> uint (b :: byte)" "uint (b :: byte) < 256" "uint (b :: byte) \<le> 255"
  using unsigned_less[of b, where ?'a = int] by simp_all

lemma uint_word_of_int_byte [simp]: "uint (word_of_int v :: byte) = v mod 256"
  by (simp add: uint_word_of_int)

lemma byte_eq_iff_uint: "(a :: byte) = b \<longleftrightarrow> uint a = uint b"
  by (rule word_uint_eq_iff)

end
