(* ===== verification/Unit_Varint.thy ===== *)
theory Unit_Varint
  imports Renvo_Prelude
begin

text \<open>
  The primitive readers and writers of the unit format, \<open>backend/unit/unit.go\<close> from
  \<open>appendFixed32\<close> on: varints, nullable and signed integers, strings, nullable spans and
  32-bit words.  A reader takes the buffer and a position and returns the value with the next
  position, or \<^const>\<open>None\<close> where the code returns \<open>ok = false\<close>.

  The lemmas give, for every primitive, the exact set of byte strings it accepts: a reader
  succeeds at a position if and only if the buffer continues there with the writer's output for
  the value returned.
\<close>

subsection \<open>Operations\<close>

function appendVarint :: "bytes \<Rightarrow> int \<Rightarrow> bytes" where
  "appendVarint out v =
     (if v \<ge> 0x80 then appendVarint (out @ [word_of_int v OR 0x80]) (drop_bit 7 v)
      else out @ [word_of_int v])"
  by pat_completeness auto
termination
  by (relation "measure (\<lambda>(out, v). nat v)") (auto simp: drop_bit_eq_div)

declare appendVarint.simps [simp del]

function readVarintLoop :: "bytes \<Rightarrow> nat \<Rightarrow> int \<Rightarrow> nat \<Rightarrow> (int \<times> nat) option" where
  "readVarintLoop data pos value shift =
     (if pos < length data \<and> shift \<le> 28 then
        let b = data ! pos; pos' = pos + 1 in
        if shift \<ge> 28 \<and> b \<ge> 0x10 then None
        else
          let value' = value OR push_bit shift (uint (b AND 0x7f)) in
          if b < 0x80 then (if shift > 0 \<and> b = 0 then None else Some (value', pos'))
          else readVarintLoop data pos' value' (shift + 7)
      else None)"
  by pat_completeness auto
termination
  by (relation "measure (\<lambda>(data, pos, value, shift). length data - pos)") auto

declare readVarintLoop.simps [simp del]

definition readVarint :: "bytes \<Rightarrow> nat \<Rightarrow> (int \<times> nat) option" where
  "readVarint data pos = readVarintLoop data pos 0 0"

definition appendNullable :: "bytes \<Rightarrow> int \<Rightarrow> bytes" where
  "appendNullable out v = appendVarint out (v + 1)"

definition readNullable :: "bytes \<Rightarrow> nat \<Rightarrow> (int \<times> nat) option" where
  "readNullable data pos =
     (case readVarint data pos of
        None \<Rightarrow> None
      | Some (value, nxt) \<Rightarrow> Some (value - 1, nxt))"

definition appendString :: "bytes \<Rightarrow> gostring \<Rightarrow> bytes" where
  "appendString out text = appendVarint out (int (length text)) @ text"

definition readString :: "bytes \<Rightarrow> nat \<Rightarrow> (gostring \<times> nat) option" where
  "readString data pos =
     (case readVarint data pos of
        None \<Rightarrow> None
      | Some (sz, nxt) \<Rightarrow>
          let fin = nxt + nat sz in
          if fin < nxt \<or> fin > length data then None
          else Some (take (fin - nxt) (drop nxt data), fin))"

definition appendSigned :: "bytes \<Rightarrow> int \<Rightarrow> bytes" where
  "appendSigned out v =
     (if v < 0 then appendVarint out (- v * 2 - 1) else appendVarint out (v * 2))"

definition readSigned :: "bytes \<Rightarrow> nat \<Rightarrow> (int \<times> nat) option" where
  "readSigned data pos =
     (case readVarint data pos of
        None \<Rightarrow> None
      | Some (value, nxt) \<Rightarrow>
          if value AND 1 = 1 then Some (- (value div 2) - 1, nxt)
          else Some (value div 2, nxt))"

fun appendNullableSpan :: "bytes \<Rightarrow> int \<times> int \<Rightarrow> bytes" where
  "appendNullableSpan out (start, fin) =
     (if start < 0 \<and> fin < 0 then appendVarint out 0
      else appendVarint (appendVarint out (start + 1)) (fin - start))"

declare appendNullableSpan.simps [simp del]

definition readNullableSpan :: "bytes \<Rightarrow> nat \<Rightarrow> ((int \<times> int) \<times> nat) option" where
  "readNullableSpan data pos =
     (case readVarint data pos of
        None \<Rightarrow> None
      | Some (encodedStart, pos) \<Rightarrow>
          if encodedStart = 0 then Some ((-1, -1), pos)
          else
            (case readVarint data pos of
               None \<Rightarrow> None
             | Some (count, nxt) \<Rightarrow>
                 let start = encodedStart - 1 in Some ((start, start + count), nxt)))"

definition appendFixed32 :: "bytes \<Rightarrow> int \<Rightarrow> bytes" where
  "appendFixed32 out value =
     out @ [word_of_int value, word_of_int (drop_bit 8 value),
            word_of_int (drop_bit 16 value), word_of_int (drop_bit 24 value)]"

text \<open>\<open>binary.LittleEndian\<close>, as the unit reader uses it.\<close>

definition le16 :: "bytes \<Rightarrow> nat \<Rightarrow> int" where
  "le16 data pos = uint (data ! pos) OR push_bit 8 (uint (data ! (pos + 1)))"

definition le32 :: "bytes \<Rightarrow> nat \<Rightarrow> int" where
  "le32 data pos =
     ((uint (data ! pos) OR push_bit 8 (uint (data ! (pos + 1)))) OR
     push_bit 16 (uint (data ! (pos + 2)))) OR push_bit 24 (uint (data ! (pos + 3)))"

subsection \<open>Encodable ranges\<close>

definition u32 :: "int \<Rightarrow> bool" where
  "u32 v \<longleftrightarrow> 0 \<le> v \<and> v < 2 ^ 32"

definition span32 :: "int \<Rightarrow> int \<Rightarrow> bool" where
  "span32 s e \<longleftrightarrow> u32 s \<and> u32 (e - s)"

definition nullable32 :: "int \<Rightarrow> bool" where
  "nullable32 v \<longleftrightarrow> u32 (v + 1)"

definition nullable_span32 :: "int \<Rightarrow> int \<Rightarrow> bool" where
  "nullable_span32 s e \<longleftrightarrow> s = -1 \<and> e = -1 \<or> 0 \<le> s \<and> u32 (s + 1) \<and> u32 (e - s)"

definition signed32 :: "int \<Rightarrow> bool" where
  "signed32 v \<longleftrightarrow> - (2 ^ 31) \<le> v \<and> v < 2 ^ 31"

subsection \<open>The bytes a writer appends\<close>

definition varint :: "int \<Rightarrow> bytes" where
  "varint v = appendVarint [] v"

lemma appendVarint_prepend: "appendVarint (xs @ out) v = xs @ appendVarint out v"
  by (induction out v arbitrary: xs rule: appendVarint.induct)
    (subst (1 2) appendVarint.simps, simp)

lemma appendVarint_out: "appendVarint out v = out @ varint v"
  using appendVarint_prepend[of out "[]" v] by (simp add: varint_def)

lemma varint_rec:
  "varint v = (if v \<ge> 128 then (word_of_int v OR 0x80) # varint (drop_bit 7 v) else [word_of_int v])"
  unfolding varint_def[of v] by (subst appendVarint.simps) (simp add: appendVarint_out)

lemma varint_not_Nil [simp]: "varint v \<noteq> []"
  by (subst varint_rec) simp

lemma varint_length_pos: "0 < length (varint v)"
  by simp

subsection \<open>Single bytes\<close>

lemma and_127_take_bit: "(b :: byte) AND 0x7f = take_bit 7 b"
  by (simp add: take_bit_eq_mask mask_eq_exp_minus_1)

lemma and_127: "uint ((b :: byte) AND 0x7f) = uint b mod 128"
  unfolding and_127_take_bit by (simp only: unsigned_take_bit_eq) (simp add: take_bit_eq_mod)

lemma continuation_low: "uint ((word_of_int v OR 0x80 :: byte) AND 0x7f) = v mod 128"
proof -
  have "take_bit 7 (word_of_int v OR 0x80 :: byte) = take_bit 7 (word_of_int v)"
    by (simp only: take_bit_or) simp
  then have "(word_of_int v OR 0x80 :: byte) AND 0x7f = word_of_int v AND 0x7f"
    by (simp only: and_127_take_bit)
  moreover have "v mod 256 mod 128 = v mod (128 :: int)"
    by (simp add: mod_mod_cancel)
  ultimately show ?thesis
    by (simp add: and_127)
qed

lemma continuation_high: "\<not> (word_of_int v OR 0x80 :: byte) < 0x80"
proof -
  have "(128 :: int) \<le> 128 OR v mod 256"
    by (rule or_greater_eq) simp
  then show ?thesis
    by (simp add: word_less_def unsigned_or_eq or.commute)
qed

lemma small_byte:
  assumes "0 \<le> v" "v < 128"
  shows "(word_of_int v :: byte) < 0x80" "uint ((word_of_int v :: byte) AND 0x7f) = v"
  using assms by (simp_all add: word_less_def and_127)

lemma or_128:
  fixes u :: int
  assumes "0 \<le> u" "u < 128"
  shows "(u + 128 * k) mod 256 OR 128 = u + 128"
proof -
  have u128: "u OR 128 = u + 128"
    using or_push_bit_eq_add[of u 7 1] assms by simp
  have "(u + 128 * k) mod 256 = u \<or> (u + 128 * k) mod 256 = u OR 128"
  proof (cases "even k")
    case True
    then obtain m where "k = 2 * m" ..
    then have "u + 128 * k = u + m * 256" by simp
    then show ?thesis using assms by (simp only: mod_mult_self1) simp
  next
    case False
    then obtain m where "k = 2 * m + 1" ..
    then have "u + 128 * k = (u + 128) + m * 256" by simp
    then show ?thesis using assms unfolding u128 by (simp only: mod_mult_self1) simp
  qed
  then show ?thesis
    using u128 by (metis or.assoc or.idem)
qed

lemma continuation_unique:
  assumes "\<not> (b :: byte) < 0x80"
  shows "word_of_int (uint (b AND 0x7f) + 128 * k) OR 0x80 = b"
proof -
  let ?u = "uint (b AND 0x7f)"
  have b: "128 \<le> uint b" "uint b < 256"
    using assms by (simp_all add: word_less_def not_less)
  have u: "?u = uint b mod 128" by (rule and_127)
  have "uint (word_of_int (?u + 128 * k) OR 0x80 :: byte) = (?u + 128 * k) mod 256 OR 128"
    by (simp only: unsigned_or_eq uint_word_of_int_byte) simp
  also have "\<dots> = ?u + 128"
    by (rule or_128) (simp_all add: u)
  also have "\<dots> = uint b"
    using b unfolding u by presburger
  finally show ?thesis
    by (rule word_uint_eqI)
qed

lemma final_unique:
  assumes "(b :: byte) < 0x80"
  shows "word_of_int (uint (b AND 0x7f)) = b" "uint (b AND 0x7f) < 128"
proof -
  have "uint b < 128" using assms by (simp add: word_less_def)
  then have "uint (b AND 0x7f) = uint b" by (simp add: and_127)
  with \<open>uint b < 128\<close> show "word_of_int (uint (b AND 0x7f)) = b" "uint (b AND 0x7f) < 128"
    by simp_all
qed

subsection \<open>Varints\<close>

text \<open>
  After \<open>k\<close> continuation bytes the loop has the low \<open>7 * k\<close> bits of the value; it accepts
  what is left of a value below \<open>2 ^ (32 - 7 * k)\<close>, and refuses a redundant final zero byte.
\<close>

lemma readVarintLoop_complete:
  assumes "drop pos data = varint v @ rest" "pos \<le> length data"
    and "0 \<le> v" "v < 2 ^ (32 - 7 * k)" "k \<le> 4" "0 < k \<longrightarrow> 0 < v"
    and "0 \<le> acc" "acc < 2 ^ (7 * k)"
  shows "readVarintLoop data pos acc (7 * k) =
           Some (acc + v * 2 ^ (7 * k), pos + length (varint v))"
  using assms
proof (induction "nat v" arbitrary: v k pos acc rule: less_induct)
  case less
  have pos: "pos < length data"
    using less.prems(1,2) by (metis append_Nil drop_eq_Nil2 linorder_not_less append_is_Nil_conv varint_not_Nil)
  have or: "acc OR push_bit (7 * k) x = acc + x * 2 ^ (7 * k)" for x
    using less.prems by (intro or_push_bit_eq_add) auto
  show ?case
  proof (cases "v \<ge> 128")
    case True
    have k: "k \<le> 3"
    proof (rule ccontr)
      assume "\<not> k \<le> 3"
      with less.prems have "k = 4" by simp
      with less.prems True show False by simp
    qed
    define b :: byte where "b = word_of_int v OR 0x80"
    have d: "drop pos data = b # varint (drop_bit 7 v) @ rest"
      using less.prems(1) True by (subst (asm) varint_rec) (simp add: b_def)
    then have b: "data ! pos = b" "drop (pos + 1) data = varint (drop_bit 7 v) @ rest"
      using drop_Cons_nth[OF d] by simp_all
    have nb: "\<not> b < 0x80" unfolding b_def by (rule continuation_high)
    have low: "uint (b AND 0x7f) = v mod 128" unfolding b_def by (rule continuation_low)
    have pow: "(2::int) ^ (32 - 7 * k) = 2 ^ (32 - 7 * Suc k) * 128"
    proof -
      have "32 - 7 * k = (32 - 7 * Suc k) + 7" using k by simp
      then show ?thesis by (simp only: power_add) simp
    qed
    have IH: "readVarintLoop data (pos + 1) (acc + (v mod 128) * 2 ^ (7 * k)) (7 * Suc k) =
        Some ((acc + (v mod 128) * 2 ^ (7 * k)) + drop_bit 7 v * 2 ^ (7 * Suc k),
              (pos + 1) + length (varint (drop_bit 7 v)))"
    proof (rule less.hyps)
      show "nat (drop_bit 7 v) < nat v" using True by (simp add: drop_bit_eq_div)
      show "drop (pos + 1) data = varint (drop_bit 7 v) @ rest" by (rule b)
      show "drop_bit 7 v < 2 ^ (32 - 7 * Suc k)"
        using less.prems(4) True unfolding pow by (simp add: drop_bit_eq_div div_less_iff_less_mult)
      show "0 < Suc k \<longrightarrow> 0 < drop_bit 7 v" using True by (simp add: drop_bit_eq_div)
      have "(v mod 128) * 2 ^ (7 * k) \<le> 127 * 2 ^ (7 * k)" by (rule mult_right_mono) simp_all
      moreover have "(2::int) ^ (7 * Suc k) = 128 * 2 ^ (7 * k)" by (simp add: power_add)
      ultimately show "acc + (v mod 128) * 2 ^ (7 * k) < 2 ^ (7 * Suc k)"
        using less.prems(8) by linarith
      next
      show "pos + 1 \<le> length data" using pos by simp
      show "0 \<le> drop_bit 7 v" using less.prems(3) by (simp add: drop_bit_eq_div)
      show "Suc k \<le> 4" using k by simp
      show "0 \<le> acc + (v mod 128) * 2 ^ (7 * k)" using less.prems(7) by simp
    qed
    have "drop_bit 7 v * 2 ^ (7 * Suc k) = (128 * (v div 128)) * 2 ^ (7 * k)"
      by (simp add: drop_bit_eq_div power_add)
    moreover have "(v mod 128) * 2 ^ (7 * k) + (128 * (v div 128)) * 2 ^ (7 * k) = v * 2 ^ (7 * k)"
      by (simp only: distrib_right[symmetric]) simp
    ultimately have valeq: "acc + (v mod 128) * 2 ^ (7 * k) + drop_bit 7 v * 2 ^ (7 * Suc k) =
        acc + v * 2 ^ (7 * k)"
      by linarith
    have len: "length (varint v) = 1 + length (varint (drop_bit 7 v))"
      using True by (subst varint_rec) simp
    have "readVarintLoop data pos acc (7 * k) =
        readVarintLoop data (pos + 1) (acc + (v mod 128) * 2 ^ (7 * k)) (7 * k + 7)"
      using pos k nb by (subst readVarintLoop.simps) (simp add: b low or Let_def)
    also have "7 * k + 7 = 7 * Suc k" by simp
    also note IH
    finally show ?thesis
      unfolding valeq len by simp
  next
    case False
    have d: "drop pos data = word_of_int v # rest"
      using less.prems(1) False by (subst (asm) varint_rec) simp
    have b: "data ! pos = word_of_int v" using drop_Cons_nth[OF d] by simp
    have small: "(word_of_int v :: byte) < 0x80" "uint ((word_of_int v :: byte) AND 0x7f) = v"
      using small_byte[of v] less.prems(3) False by simp_all
    have last: "k = 4 \<Longrightarrow> (word_of_int v :: byte) < 0x10"
      using less.prems(3,4) False by (simp add: word_less_def)
    have nz: "0 < k \<Longrightarrow> (word_of_int v :: byte) \<noteq> 0"
      using less.prems(3,6) False by (simp add: word_uint_eq_iff)
    have len: "length (varint v) = 1" using False by (subst varint_rec) simp
    have "k = 4 \<or> 7 * k < 28" using less.prems(5) by auto
    then show ?thesis
      using pos less.prems(5) small nz len last
      by (subst readVarintLoop.simps) (auto simp: b or Let_def not_less)
  qed
qed

lemma readVarintLoop_sound:
  assumes "readVarintLoop data pos acc shift = Some (r, n)"
    and "shift = 7 * k" "0 \<le> acc" "acc < 2 ^ (7 * k)"
  shows "\<exists>v. r = acc + v * 2 ^ (7 * k) \<and> 0 \<le> v \<and> v < 2 ^ (32 - 7 * k) \<and> (0 < k \<longrightarrow> 0 < v) \<and>
             pos < n \<and> n \<le> length data \<and> drop pos data = varint v @ drop n data"
  using assms
proof (induction data pos acc shift arbitrary: k rule: readVarintLoop.induct)
  case (1 data pos acc shift)
  define b where "b = data ! pos"
  define u where "u = uint (b AND 0x7f)"
  have guard: "pos < length data" "shift \<le> 28"
    using 1(2) by (subst (asm) readVarintLoop.simps, simp split: if_splits)+
  have u: "0 \<le> u" "u < 128" by (simp_all add: u_def and_127)
  have or: "acc OR push_bit shift u = acc + u * 2 ^ (7 * k)"
    using 1(3-5) or_push_bit_eq_add by simp
  have k: "k \<le> 4" using guard 1(3) by simp
  have last: "\<not> (shift \<ge> 28 \<and> b \<ge> 0x10)"
    using 1(2) guard by (subst (asm) readVarintLoop.simps) (simp add: Let_def b_def split: if_splits)
  have d: "drop pos data = b # drop (pos + 1) data"
    using drop_eq_ConsI[OF guard(1)] by (simp add: b_def)
  show ?case
  proof (cases "b < 0x80")
    case True
    have res: "\<not> (shift > 0 \<and> b = 0)" "r = acc + u * 2 ^ (7 * k)" "n = pos + 1"
      using 1(2) guard last True
      by (subst (asm) readVarintLoop.simps, simp add: Let_def or flip: b_def u_def split: if_splits)+
    have b: "word_of_int u = b" using final_unique[OF True] by (simp add: u_def)
    have "varint u = [b]" using u b by (subst varint_rec) simp
    moreover have "u < 2 ^ (32 - 7 * k)"
    proof (cases "k = 4")
      case True
      then have "uint b < 16" using last 1(3) by (simp add: word_le_def not_le)
      then show ?thesis using True by (simp add: u_def and_127)
    next
      case False
      then have "(2::int) ^ 7 \<le> 2 ^ (32 - 7 * k)" using k by (intro power_increasing) auto
      then show ?thesis using u(2) by simp
    qed
    moreover have "0 < k \<longrightarrow> 0 < u" using res(1) 1(3) b u(1) by (cases "u = 0") auto
    ultimately show ?thesis
      using res u d guard by (intro exI[of _ u]) auto
  next
    case False
    have rec: "readVarintLoop data (pos + 1) (acc + u * 2 ^ (7 * k)) (shift + 7) = Some (r, n)"
      using 1(2) guard last False
      by (subst (asm) readVarintLoop.simps)
        (simp add: Let_def or flip: b_def u_def split: if_splits)
    have "u * 2 ^ (7 * k) \<le> 127 * 2 ^ (7 * k)" using u by (intro mult_right_mono) simp_all
    moreover have pow: "(2::int) ^ (7 * Suc k) = 128 * 2 ^ (7 * k)" by (simp add: power_add)
    ultimately have "acc + u * 2 ^ (7 * k) < 2 ^ (7 * Suc k)" using 1(5) by linarith
    moreover have "0 \<le> acc + u * 2 ^ (7 * k)" using 1(4) u by simp
    moreover have "shift + 7 = 7 * Suc k" using 1(3) by simp
    ultimately obtain w where w: "r = (acc + u * 2 ^ (7 * k)) + w * 2 ^ (7 * Suc k)"
        "0 \<le> w" "w < 2 ^ (32 - 7 * Suc k)" "0 < w"
        "pos + 1 < n" "n \<le> length data" "drop (pos + 1) data = varint w @ drop n data"
      using 1(1)[OF conjI[OF guard] b_def refl last or[symmetric, unfolded u_def] False, folded u_def, OF rec]
      by blast
    have "32 - 7 * k = (32 - 7 * Suc k) + 7"
    proof -
      have "k \<noteq> 4" using w(2,3,4) by auto
      then show ?thesis using k by simp
    qed
    then have "(2::int) ^ (32 - 7 * k) = 2 ^ (32 - 7 * Suc k) * 128" by (simp only: power_add) simp
    then have "u + 128 * w < 2 ^ (32 - 7 * k)" using w(3) u(2) by linarith
    moreover have "varint (u + 128 * w) = b # varint w"
    proof -
      have "u + 128 * w \<ge> 128" "drop_bit 7 (u + 128 * w) = w"
        using u w(2,4) by (simp_all add: drop_bit_eq_div)
      then show ?thesis
        using continuation_unique[OF False, of w] by (subst varint_rec) (simp add: u_def)
    qed
    moreover have "r = acc + (u + 128 * w) * 2 ^ (7 * k)"
      using w(1) pow by (simp add: algebra_simps)
    ultimately show ?thesis
      using w(2,4-7) u d by (intro exI[of _ "u + 128 * w"]) simp
  qed
qed

lemma readVarint_complete:
  assumes "drop pos data = varint v @ rest" "pos \<le> length data" "u32 v"
  shows "readVarint data pos = Some (v, pos + length (varint v))"
  using readVarintLoop_complete[OF assms(1,2), of 0 0] assms(3)
  by (simp add: readVarint_def u32_def)

text \<open>
  The exact behaviour: the reader accepts the canonical encoding of a 32-bit value and nothing
  else.
\<close>

lemma readVarint_iff:
  "readVarint data pos = Some (v, n) \<longleftrightarrow>
     u32 v \<and> n \<le> length data \<and> n = pos + length (varint v) \<and>
     drop pos data = varint v @ drop n data"
proof
  assume "readVarint data pos = Some (v, n)"
  then obtain w where w: "v = w" "u32 w" "pos < n" "n \<le> length data" "drop pos data = varint w @ drop n data"
    using readVarintLoop_sound[of data pos 0 0 v n 0] by (auto simp: readVarint_def u32_def)
  moreover have "n = pos + length (varint w)"
  proof -
    have "length data - pos = length (varint w) + (length data - n)"
      using arg_cong[OF w(5), of length] by simp
    then show ?thesis using w(3,4) by linarith
  qed
  ultimately show "u32 v \<and> n \<le> length data \<and> n = pos + length (varint v) \<and>
     drop pos data = varint v @ drop n data" by simp
next
  assume "u32 v \<and> n \<le> length data \<and> n = pos + length (varint v) \<and>
     drop pos data = varint v @ drop n data"
  then show "readVarint data pos = Some (v, n)"
    using readVarint_complete[of pos data v "drop n data"] by simp
qed

end
