(* ===== verification/Codec.thy ===== *)
theory Codec
  imports Unit_Varint
begin

text \<open>
  The contract between a writer and a reader of the unit format, as two locales.

  \<open>codec\<close> is the contract of the primitives (a reader that returns \<open>ok = false\<close> on bad
  input): the reader succeeds exactly on the writer's output for a well-formed value.
  \<open>row_codec\<close> is the contract of one row of a table, whose reader returns an error.  From it
  follow, once for all tables, the loops of \<open>encodeX\<close> and \<open>decodeX\<close>: a table decoder accepts
  a byte string if and only if it is the encoding of the well-formed table it returns.
\<close>

subsection \<open>Loops shared by the tables\<close>

text \<open>The bytes a writer appends for a value.\<close>

definition enc :: "(bytes \<Rightarrow> 'a \<Rightarrow> bytes) \<Rightarrow> 'a \<Rightarrow> bytes" where
  "enc app x = app [] x"

text \<open>A reader at the front of a byte string.\<close>

definition scan :: "(bytes \<Rightarrow> nat \<Rightarrow> 'r) \<Rightarrow> bytes \<Rightarrow> 'r" where
  "scan rd s = rd s 0"

text \<open>The bytes of \<open>data\<close> from \<open>pos\<close> up to \<open>n\<close> are \<open>bs\<close>.\<close>

definition reads :: "bytes \<Rightarrow> nat \<Rightarrow> bytes \<Rightarrow> nat \<Rightarrow> bool" where
  "reads data pos bs n \<longleftrightarrow>
     n \<le> length data \<and> n = pos + length bs \<and> drop pos data = bs @ drop n data"

lemma reads_append: "reads data pos a m \<Longrightarrow> reads data m b n \<Longrightarrow> reads data pos (a @ b) n"
  by (auto simp: reads_def)

definition shift_next :: "nat \<Rightarrow> ('a \<times> nat) option \<Rightarrow> ('a \<times> nat) option" where
  "shift_next pos r = map_option (\<lambda>(x, n). (x, pos + n)) r"

text \<open>\<open>for i := 0; i < count; i++\<close> over the rows of a table.\<close>

function readRows ::
  "(nat \<Rightarrow> bytes \<Rightarrow> nat \<Rightarrow> 'e + ('a \<times> nat)) \<Rightarrow> nat \<Rightarrow> nat \<Rightarrow> bytes \<Rightarrow> nat \<Rightarrow> 'a list \<Rightarrow> 'e + ('a list \<times> nat)" where
  "readRows rd i count data pos out =
     (if i < count then
        attempt (rd i data pos) (\<lambda>(x, n). readRows rd (i + 1) count data n (out @ [x]))
      else Inr (out, pos))"
  by pat_completeness auto
termination
  by (relation "measure (\<lambda>(rd, i, count, data, pos, out). count - i)") auto

declare readRows.simps [simp del]

definition encodeTable :: "(bytes \<Rightarrow> 'a \<Rightarrow> bytes) \<Rightarrow> 'a list \<Rightarrow> bytes" where
  "encodeTable app xs = foldl app (appendVarint [] (int (length xs))) xs"

definition decodeTable ::
  "'e \<Rightarrow> 'e \<Rightarrow> (nat \<Rightarrow> bytes \<Rightarrow> nat \<Rightarrow> 'e + ('a \<times> nat)) \<Rightarrow> bytes \<Rightarrow> 'e + 'a list" where
  "decodeTable countErr trailErr rd data =
     need (readVarint data 0) countErr (\<lambda>(count, pos).
     attempt (readRows rd 0 (nat count) data pos []) (\<lambda>(rows, pos).
     if pos \<noteq> length data then Inl trailErr else Inr rows))"

text \<open>The same loops for the lists inside a row, which answer \<open>ok = false\<close>.\<close>

definition appendList :: "(bytes \<Rightarrow> 'a \<Rightarrow> bytes) \<Rightarrow> bytes \<Rightarrow> 'a list \<Rightarrow> bytes" where
  "appendList app out xs = foldl app (appendVarint out (int (length xs))) xs"

definition readList ::
  "(nat \<Rightarrow> bytes \<Rightarrow> nat \<Rightarrow> 'e + ('a \<times> nat)) \<Rightarrow> bytes \<Rightarrow> nat \<Rightarrow> ('a list \<times> nat) option" where
  "readList rd data pos =
     (case readVarint data pos of
        None \<Rightarrow> None
      | Some (count, n) \<Rightarrow>
          (case readRows rd 0 (nat count) data n [] of Inl _ \<Rightarrow> None | Inr r \<Rightarrow> Some r))"

text \<open>A counted group of rows read in the middle of a row, with the row's own error value.\<close>

definition readCounted ::
  "'e \<Rightarrow> (nat \<Rightarrow> bytes \<Rightarrow> nat \<Rightarrow> 'e + ('a \<times> nat)) \<Rightarrow> bytes \<Rightarrow> nat \<Rightarrow> 'e + ('a list \<times> nat)" where
  "readCounted e rd data pos =
     need (readVarint data pos) e (\<lambda>(count, pos). readRows rd 0 (nat count) data pos [])"

lemma readCounted_readList: "readCounted e rd data pos = Inr r \<longleftrightarrow> readList rd data pos = Some r"
  by (auto simp: readCounted_def readList_def need_Inr split: option.splits sum.splits)

text \<open>The error of a counted group that is not well formed.\<close>

definition countedError ::
  "'e \<Rightarrow> (nat \<Rightarrow> bytes \<Rightarrow> nat \<Rightarrow> 'e + ('a \<times> nat)) \<Rightarrow> bytes \<Rightarrow> nat \<Rightarrow> 'e" where
  "countedError e rd data pos = projl (readCounted e rd data pos)"

lemma readCounted_eq:
  "readCounted e rd data pos = need (readList rd data pos) (countedError e rd data pos) Inr"
  by (cases "readCounted e rd data pos"; cases "readList rd data pos")
    (use readCounted_readList[of e rd data pos] in \<open>auto simp: countedError_def\<close>)

lemma enc_appendVarint: "enc appendVarint v = varint v"
  by (simp add: enc_def varint_def)

lemma shift_next_simps [simp]:
  "shift_next pos None = None" "shift_next pos (Some (x, n)) = Some (x, pos + n)"
  by (simp_all add: shift_next_def)

subsection \<open>The contract of a primitive\<close>

locale codec =
  fixes app :: "bytes \<Rightarrow> 'a \<Rightarrow> bytes"
    and rd :: "bytes \<Rightarrow> nat \<Rightarrow> ('a \<times> nat) option"
    and wf :: "'a \<Rightarrow> bool"
  assumes app_out: "app out x = out @ enc app x"
    and enc_not_Nil: "enc app x \<noteq> []"
    and rd_iff: "rd data pos = Some (x, n) \<longleftrightarrow>
      wf x \<and> n \<le> length data \<and> n = pos + length (enc app x) \<and> drop pos data = enc app x @ drop n data"
begin

lemma rd_complete:
  assumes "drop pos data = enc app x @ rest" "wf x"
  shows "rd data pos = Some (x, pos + length (enc app x))"
proof -
  have pos: "pos \<le> length data"
    using assms(1) enc_not_Nil[of x] by (cases "pos \<le> length data") auto
  have "drop (pos + length (enc app x)) data = rest"
    using assms(1) by (simp add: drop_plus del: drop_drop)
  moreover have "pos + length (enc app x) \<le> length data"
    using drop_prefix_length[OF assms(1) pos] .
  ultimately show ?thesis using assms by (simp add: rd_iff)
qed

lemma rd_sound:
  assumes "rd data pos = Some (x, n)"
  shows "wf x" "n \<le> length data" "n = pos + length (enc app x)" "drop pos data = enc app x @ drop n data"
  using assms rd_iff by blast+

lemma rd_reads: "rd data pos = Some (x, n) \<longleftrightarrow> wf x \<and> reads data pos (enc app x) n"
  by (simp only: rd_iff reads_def)

lemma scan_enc: "wf x \<Longrightarrow> scan rd (enc app x @ rest) = Some (x, length (enc app x))"
  using rd_complete[of 0 "enc app x @ rest" x rest] by (simp add: scan_def)

lemma rd_scan: "rd data pos = shift_next pos (scan rd (drop pos data))"
proof (cases "scan rd (drop pos data)")
  case None
  have "rd data pos \<noteq> Some (x, n)" for x n
  proof
    assume "rd data pos = Some (x, n)"
    from rd_sound[OF this] have "drop pos data = enc app x @ drop n data" "wf x" by auto
    with None scan_enc show False by simp
  qed
  then have "rd data pos = None" by (cases "rd data pos") auto
  with None show ?thesis by (simp add: shift_next_def)
next
  case (Some r)
  obtain x n where r: "r = (x, n)" by (cases r)
  have s: "wf x" "n = length (enc app x)" "drop pos data = enc app x @ drop n (drop pos data)"
    using rd_sound[of "drop pos data" 0 x n] Some r by (simp_all add: scan_def)
  then have "rd data pos = Some (x, pos + n)"
    using rd_complete[OF s(3,1)] by simp
  with Some r show ?thesis by (simp add: shift_next_def)
qed

end

subsection \<open>The contract of a row\<close>

locale row_codec =
  fixes app :: "bytes \<Rightarrow> 'a \<Rightarrow> bytes"
    and rd :: "nat \<Rightarrow> bytes \<Rightarrow> nat \<Rightarrow> 'e + ('a \<times> nat)"
    and wf :: "'a \<Rightarrow> bool"
  assumes row_out: "app out x = out @ enc app x"
    and row_complete: "drop pos data = enc app x @ rest \<Longrightarrow> wf x \<Longrightarrow>
      rd i data pos = Inr (x, pos + length (enc app x))"
    and row_sound: "rd i data pos = Inr (x, n) \<Longrightarrow> wf x \<and> reads data pos (enc app x) n"
begin

abbreviation encs :: "'a list \<Rightarrow> bytes" where
  "encs xs \<equiv> concat (map (enc app) xs)"

lemma fold_out: "foldl app out xs = out @ encs xs"
proof (induction xs arbitrary: out)
  case Nil
  then show ?case by simp
next
  case (Cons x xs)
  then show ?case using row_out[of out x] by simp
qed

lemma rows_complete:
  assumes "drop pos data = encs xs @ rest" "pos \<le> length data" "list_all wf xs"
    and "count = i + length xs"
  shows "readRows rd i count data pos out = Inr (out @ xs, pos + length (encs xs))"
  using assms
proof (induction xs arbitrary: i pos out)
  case Nil
  then show ?case by (subst readRows.simps) simp
next
  case (Cons x xs)
  have d: "drop pos data = enc app x @ encs xs @ rest" using Cons.prems(1) by simp
  have row: "rd i data pos = Inr (x, pos + length (enc app x))"
    using row_complete[OF d] Cons.prems by simp
  have "drop (pos + length (enc app x)) data = encs xs @ rest"
    using d by (simp add: drop_plus del: drop_drop)
  moreover have "pos + length (enc app x) \<le> length data"
    using drop_prefix_length[OF d Cons.prems(2)] .
  ultimately have "readRows rd (i + 1) count data (pos + length (enc app x)) (out @ [x]) =
      Inr ((out @ [x]) @ xs, (pos + length (enc app x)) + length (encs xs))"
    using Cons.prems by (intro Cons.IH) auto
  then show ?case
    using row Cons.prems(4) by (subst readRows.simps) simp
qed

lemma rows_sound:
  assumes "readRows rd i count data pos out = Inr (ys, n)" "pos \<le> length data" "i \<le> count"
  shows "\<exists>xs. ys = out @ xs \<and> list_all wf xs \<and> length xs = count - i \<and> n \<le> length data \<and>
    n = pos + length (encs xs) \<and> drop pos data = encs xs @ drop n data"
  using assms
proof (induction "count - i" arbitrary: i pos out)
  case 0
  then show ?case by (subst (asm) readRows.simps) simp
next
  case (Suc k)
  have "readRows rd i count data pos out =
      attempt (rd i data pos) (\<lambda>(x, n). readRows rd (i + 1) count data n (out @ [x]))"
    using Suc.hyps(2) by (subst readRows.simps) auto
  with Suc.prems(1) obtain x m where x: "rd i data pos = Inr (x, m)"
    and r: "readRows rd (i + 1) count data m (out @ [x]) = Inr (ys, n)"
    by (auto simp: attempt_Inr)
  from row_sound[OF x]
  have row: "wf x" "m \<le> length data" "m = pos + length (enc app x)"
    "drop pos data = enc app x @ drop m data" by (auto simp: reads_def)
  have "k = count - (i + 1)" "i + 1 \<le> count" using Suc.hyps(2) by simp_all
  from Suc.hyps(1)[OF this(1) r row(2) this(2)]
  obtain xs where xs: "ys = (out @ [x]) @ xs" "list_all wf xs" "length xs = count - (i + 1)"
    "n \<le> length data" "n = m + length (encs xs)" "drop m data = encs xs @ drop n data"
    by auto
  with row Suc.hyps(2) show ?case
    by (intro exI[of _ "x # xs"]) simp
qed

lemma encodeTable_eq: "encodeTable app xs = varint (int (length xs)) @ encs xs"
  by (simp add: encodeTable_def fold_out appendVarint_out)

text \<open>A table decoder accepts exactly the encodings of well-formed tables.\<close>

lemma table_iff:
  "decodeTable e1 e2 rd data = Inr xs \<longleftrightarrow>
     list_all wf xs \<and> u32 (int (length xs)) \<and> data = encodeTable app xs"
proof
  assume "decodeTable e1 e2 rd data = Inr xs"
  then obtain count pos where c: "readVarint data 0 = Some (count, pos)"
    and r: "readRows rd 0 (nat count) data pos [] = Inr (xs, length data)"
    by (auto simp: decodeTable_def need_Inr attempt_Inr split: if_splits)
  from c have c': "u32 count" "pos \<le> length data" "data = varint count @ drop pos data"
    unfolding readVarint_iff drop_0 by blast+
  from rows_sound[OF r c'(2)] have "list_all wf xs" "length xs = nat count" "drop pos data = encs xs"
    by auto
  with c' show "list_all wf xs \<and> u32 (int (length xs)) \<and> data = encodeTable app xs"
    by (simp add: encodeTable_eq u32_def)
next
  assume a: "list_all wf xs \<and> u32 (int (length xs)) \<and> data = encodeTable app xs"
  let ?n = "length (varint (int (length xs)))"
  have d: "data = varint (int (length xs)) @ encs xs" using a by (simp add: encodeTable_eq)
  have wf: "list_all wf xs" "u32 (int (length xs))" using a by simp_all
  have "readVarint data 0 = Some (int (length xs), ?n)"
    using wf(2) readVarint_complete[of 0 data "int (length xs)" "encs xs"] d by simp
  moreover have "readRows rd 0 (length xs) data ?n [] = Inr ([] @ xs, ?n + length (encs xs))"
    using wf(1) by (intro rows_complete[where rest = "[]"]) (simp_all add: d)
  ultimately show "decodeTable e1 e2 rd data = Inr xs"
    by (simp add: decodeTable_def d)
qed

lemma list_codec:
  "codec (appendList app) (readList rd) (\<lambda>xs. list_all wf xs \<and> u32 (int (length xs)))"
proof
  have e: "enc (appendList app) xs = varint (int (length xs)) @ encs xs" for xs
    by (simp add: enc_def appendList_def fold_out appendVarint_out)
  show "appendList app out xs = out @ enc (appendList app) xs" for out xs
    by (simp add: appendList_def fold_out appendVarint_out e)
  show "enc (appendList app) xs \<noteq> []" for xs
    by (simp add: e)
  show "readList rd data pos = Some (xs, n) \<longleftrightarrow>
      (list_all wf xs \<and> u32 (int (length xs))) \<and> n \<le> length data \<and>
      n = pos + length (enc (appendList app) xs) \<and> drop pos data = enc (appendList app) xs @ drop n data"
    for data pos xs n
  proof
    assume "readList rd data pos = Some (xs, n)"
    then obtain count m where c: "readVarint data pos = Some (count, m)"
      and r: "readRows rd 0 (nat count) data m [] = Inr (xs, n)"
      by (auto simp: readList_def split: option.splits sum.splits)
    from c have c': "u32 count" "m \<le> length data" "m = pos + length (varint count)"
      "drop pos data = varint count @ drop m data"
      using readVarint_iff[of data pos] by blast+
    from rows_sound[OF r c'(2)] have "list_all wf xs" "length xs = nat count" "n \<le> length data"
      "n = m + length (encs xs)" "drop m data = encs xs @ drop n data"
      by auto
    with c' show "(list_all wf xs \<and> u32 (int (length xs))) \<and> n \<le> length data \<and>
      n = pos + length (enc (appendList app) xs) \<and> drop pos data = enc (appendList app) xs @ drop n data"
      by (simp add: e u32_def)
  next
    assume a: "(list_all wf xs \<and> u32 (int (length xs))) \<and> n \<le> length data \<and>
      n = pos + length (enc (appendList app) xs) \<and> drop pos data = enc (appendList app) xs @ drop n data"
    let ?m = "pos + length (varint (int (length xs)))"
    have d: "drop pos data = varint (int (length xs)) @ encs xs @ drop n data"
      using a by (simp add: e)
    have pos: "pos \<le> length data" using a by simp
    have "readVarint data pos = Some (int (length xs), ?m)"
      using readVarint_complete[OF d pos] a by simp
    moreover have "drop ?m data = encs xs @ drop n data"
      using d by (simp add: drop_plus del: drop_drop)
    then have "readRows rd 0 (length xs) data ?m [] = Inr ([] @ xs, ?m + length (encs xs))"
      using a drop_prefix_length[OF d pos] by (intro rows_complete) auto
    ultimately show "readList rd data pos = Some (xs, n)"
      using a by (simp add: readList_def e)
  qed
qed

end

subsection \<open>The primitives meet the contract\<close>

lemma u32_0 [simp]: "u32 0"
  by (simp add: u32_def)

interpretation varint: codec appendVarint readVarint u32
  by unfold_locales (simp_all add: enc_appendVarint appendVarint_out readVarint_iff)

lemma enc_appendNullable: "enc appendNullable v = varint (v + 1)"
  by (simp add: enc_def appendNullable_def varint_def)

interpretation nullable: codec appendNullable readNullable nullable32
proof
  show "appendNullable out v = out @ enc appendNullable v" for out v
    by (simp add: appendNullable_def enc_appendNullable appendVarint_out)
  show "enc appendNullable v \<noteq> []" for v
    by (simp add: enc_appendNullable)
  show "readNullable data pos = Some (v, n) \<longleftrightarrow> nullable32 v \<and> n \<le> length data \<and>
      n = pos + length (enc appendNullable v) \<and> drop pos data = enc appendNullable v @ drop n data"
    for data pos v n
  proof -
    have "readNullable data pos = Some (v, n) \<longleftrightarrow> readVarint data pos = Some (v + 1, n)"
      by (auto simp: readNullable_def split: option.splits)
    then show ?thesis
      by (simp only: readVarint_iff enc_appendNullable nullable32_def)
  qed
qed

lemma enc_appendSigned: "enc appendSigned v = varint (if v < 0 then - v * 2 - 1 else v * 2)"
  by (simp add: enc_def appendSigned_def varint_def)

interpretation signed: codec appendSigned readSigned signed32
proof
  show "appendSigned out v = out @ enc appendSigned v" for out v
    by (simp add: appendSigned_def enc_appendSigned appendVarint_out)
  show "enc appendSigned v \<noteq> []" for v
    by (simp add: enc_appendSigned)
  show "readSigned data pos = Some (v, n) \<longleftrightarrow> signed32 v \<and> n \<le> length data \<and>
      n = pos + length (enc appendSigned v) \<and> drop pos data = enc appendSigned v @ drop n data"
    for data pos v n
  proof -
    let ?z = "if v < 0 then - v * 2 - 1 else v * 2"
    have dec: "(if w AND 1 = 1 then - (w div 2) - 1 else w div 2) = v \<longleftrightarrow> w = ?z" if "0 \<le> w" for w :: int
      unfolding and_one_eq using that by (cases "w mod 2 = 1"; cases "v < 0"; simp; presburger)
    have "readSigned data pos = Some (v, n) \<longleftrightarrow> readVarint data pos = Some (?z, n)"
    proof (cases "readVarint data pos")
      case None
      then show ?thesis by (simp add: readSigned_def)
    next
      case (Some r)
      obtain w m where r: "r = (w, m)" by (cases r)
      with Some have "0 \<le> w" using readVarint_iff[of data pos w m] by (simp add: u32_def)
      then show ?thesis using Some r dec[of w] by (auto simp: readSigned_def split: if_splits)
    qed
    moreover have "u32 ?z \<longleftrightarrow> signed32 v"
      by (auto simp: u32_def signed32_def)
    ultimately show ?thesis
      by (simp only: readVarint_iff enc_appendSigned)
  qed
qed

lemma enc_appendString: "enc appendString s = varint (int (length s)) @ s"
  by (simp add: enc_def appendString_def varint_def)

interpretation string: codec appendString readString "\<lambda>s. u32 (int (length s))"
proof
  show "appendString out v = out @ enc appendString v" for out v
    by (simp add: appendString_def enc_appendString appendVarint_out)
  show "enc appendString v \<noteq> []" for v
    by (simp add: enc_appendString)
  show "readString data pos = Some (s, n) \<longleftrightarrow> u32 (int (length s)) \<and> n \<le> length data \<and>
      n = pos + length (enc appendString s) \<and> drop pos data = enc appendString s @ drop n data"
    for data pos s n
  proof
    assume "readString data pos = Some (s, n)"
    then obtain k m where k: "readVarint data pos = Some (k, m)" and
      n: "n = m + nat k" "n \<le> length data" "s = take (nat k) (drop m data)"
      by (auto simp: readString_def Let_def split: option.splits if_splits)
    from k have "u32 k" "m = pos + length (varint k)" "drop pos data = varint k @ drop m data"
      unfolding readVarint_iff by blast+
    moreover have "drop m data = s @ drop n data"
      using n by (simp add: drop_plus append_take_drop_id del: drop_drop)
    moreover have "int (length s) = k" using n \<open>u32 k\<close> by (simp add: u32_def)
    ultimately show "u32 (int (length s)) \<and> n \<le> length data \<and>
      n = pos + length (enc appendString s) \<and> drop pos data = enc appendString s @ drop n data"
      using n by (simp add: enc_appendString)
  next
    assume a: "u32 (int (length s)) \<and> n \<le> length data \<and>
      n = pos + length (enc appendString s) \<and> drop pos data = enc appendString s @ drop n data"
    let ?m = "pos + length (varint (int (length s)))"
    have d: "drop pos data = varint (int (length s)) @ s @ drop n data"
      using a by (simp add: enc_appendString)
    have "readVarint data pos = Some (int (length s), ?m)"
      using readVarint_complete[OF d] a by simp
    moreover have "drop ?m data = s @ drop n data"
      using d by (simp add: drop_plus del: drop_drop)
    ultimately show "readString data pos = Some (s, n)"
      using a by (simp add: readString_def enc_appendString Let_def)
  qed
qed

lemma enc_appendNullableSpan:
  "enc appendNullableSpan (s, e) =
     (if s < 0 \<and> e < 0 then varint 0 else varint (s + 1) @ varint (e - s))"
  by (simp add: enc_def appendNullableSpan.simps appendVarint_out)

interpretation nspan: codec appendNullableSpan readNullableSpan
  "\<lambda>(s, e). nullable_span32 s e"
proof
  show "appendNullableSpan out v =
      out @ enc appendNullableSpan v" for out v
    by (cases v) (simp add: appendNullableSpan.simps enc_appendNullableSpan appendVarint_out)
  show "enc appendNullableSpan v \<noteq> []" for v
    by (cases v) (simp add: enc_appendNullableSpan)
  show "readNullableSpan data pos = Some (v, n) \<longleftrightarrow>
      (case v of (s, e) \<Rightarrow> nullable_span32 s e) \<and> n \<le> length data \<and>
      n = pos + length (enc appendNullableSpan v) \<and>
      drop pos data = enc appendNullableSpan v @ drop n data"
    for data pos v n
  proof -
    obtain s e where v: "v = (s, e)" by (cases v)
    show ?thesis
    proof
      assume "readNullableSpan data pos = Some (v, n)"
      then obtain k m where k: "readVarint data pos = Some (k, m)" and
        r: "k = 0 \<and> s = -1 \<and> e = -1 \<and> n = m \<or>
            k \<noteq> 0 \<and> (\<exists>c. readVarint data m = Some (c, n) \<and> s = k - 1 \<and> e = k - 1 + c)"
        by (auto simp: readNullableSpan_def v Let_def split: option.splits if_splits)
      from k have k': "u32 k" "m \<le> length data" "m = pos + length (varint k)"
        "drop pos data = varint k @ drop m data"
        unfolding readVarint_iff by blast+
      from r show "(case v of (s, e) \<Rightarrow> nullable_span32 s e) \<and> n \<le> length data \<and>
          n = pos + length (enc appendNullableSpan v) \<and>
          drop pos data = enc appendNullableSpan v @ drop n data"
      proof (elim disjE conjE exE)
        assume "k = 0" "s = -1" "e = -1" "n = m"
        then show ?thesis using k' by (simp add: v enc_appendNullableSpan nullable_span32_def)
      next
        fix c assume c: "k \<noteq> 0" "readVarint data m = Some (c, n)" "s = k - 1" "e = k - 1 + c"
        from c(2) have "u32 c" "n \<le> length data" "n = m + length (varint c)"
          "drop m data = varint c @ drop n data"
          unfolding readVarint_iff by blast+
        then show ?thesis
          using c k' by (simp add: v enc_appendNullableSpan nullable_span32_def u32_def)
      qed
    next
      assume a: "(case v of (s, e) \<Rightarrow> nullable_span32 s e) \<and> n \<le> length data \<and>
          n = pos + length (enc appendNullableSpan v) \<and>
          drop pos data = enc appendNullableSpan v @ drop n data"
      show "readNullableSpan data pos = Some (v, n)"
      proof (cases "s < 0 \<and> e < 0")
        case True
        then have "s = -1" "e = -1" using a by (auto simp: v nullable_span32_def u32_def)
        then have "readVarint data pos = Some (0, n)"
          using a by (simp add: readVarint_iff v enc_appendNullableSpan)
        then show ?thesis using \<open>s = -1\<close> \<open>e = -1\<close> by (simp add: readNullableSpan_def v)
      next
        case False
        then have s: "0 \<le> s" "u32 (s + 1)" "u32 (e - s)"
          using a by (auto simp: v nullable_span32_def u32_def)
        have d: "drop pos data = varint (s + 1) @ varint (e - s) @ drop n data"
          using a False by (simp add: v enc_appendNullableSpan)
        let ?m = "pos + length (varint (s + 1))"
        have "drop ?m data = varint (e - s) @ drop n data"
          using d by (simp add: drop_plus del: drop_drop)
        moreover have "readVarint data pos = Some (s + 1, ?m)"
          using varint.rd_complete[of pos data "s + 1"] d s by (simp add: enc_appendVarint)
        ultimately have "readVarint data pos = Some (s + 1, ?m)" "readVarint data ?m = Some (e - s, n)"
          using varint.rd_complete[of ?m data "e - s"] s a False
          by (simp_all add: enc_appendVarint v enc_appendNullableSpan)
        then show ?thesis using s by (simp add: readNullableSpan_def v Let_def)
      qed
    qed
  qed
qed

subsection \<open>Flags\<close>

text \<open>The branch \<open>if x { append 1 } else { append 0 }\<close> every boolean column is written with.\<close>

definition appendFlag :: "bytes \<Rightarrow> bool \<Rightarrow> bytes" where
  "appendFlag out b = (if b then appendVarint out 1 else appendVarint out 0)"

lemma appendFlag_out: "appendFlag out b = out @ enc appendVarint (of_bool b)"
  by (simp add: appendFlag_def varint.app_out)

lemma u32_of_bool [simp]: "u32 (of_bool b)"
  by (simp add: u32_def)

lemma flag_zero: "u32 c \<Longrightarrow> \<not> 1 < c \<Longrightarrow> c \<noteq> 1 \<Longrightarrow> c = 0"
  by (auto simp: u32_def)

lemma flag_of_bool [simp]: "u32 c \<Longrightarrow> \<not> 1 < c \<Longrightarrow> of_bool (c = 1) = c"
  by (auto simp: u32_def)

subsection \<open>The collections the tables use\<close>

text \<open>A 32-bit little-endian word, as the unit reader takes four of them from a package row.\<close>

definition readFixed32 :: "bytes \<Rightarrow> nat \<Rightarrow> (int \<times> nat) option" where
  "readFixed32 data pos = (if pos + 4 > length data then None else Some (le32 data pos, pos + 4))"

lemma byte_sums:
  fixes a b c d :: int
  assumes "a \<le> 255" "b \<le> 255" "c \<le> 255" "d \<le> 255"
  shows "a + b * 2 ^ 8 < 2 ^ 16" "a + b * 2 ^ 8 + c * 2 ^ 16 < 2 ^ 24"
    "a + b * 2 ^ 8 + c * 2 ^ 16 + d * 2 ^ 24 < 2 ^ 32"
  using assms by simp_all

lemma le32_sum:
  "le32 data pos = uint (data ! pos) + uint (data ! (pos + 1)) * 2 ^ 8 +
     uint (data ! (pos + 2)) * 2 ^ 16 + uint (data ! (pos + 3)) * 2 ^ 24"
proof -
  let ?b = "\<lambda>i. uint (data ! (pos + i))"
  have s1: "?b 0 OR push_bit 8 (?b 1) = ?b 0 + ?b 1 * 2 ^ 8"
    by (rule or_push_bit_eq_add) simp_all
  note r = byte_sums[OF uint_byte_range(3) uint_byte_range(3) uint_byte_range(3) uint_byte_range(3)]
  have s2: "(?b 0 + ?b 1 * 2 ^ 8) OR push_bit 16 (?b 2) = ?b 0 + ?b 1 * 2 ^ 8 + ?b 2 * 2 ^ 16"
    by (rule or_push_bit_eq_add[OF _ r(1)]) simp_all
  have s3: "(?b 0 + ?b 1 * 2 ^ 8 + ?b 2 * 2 ^ 16) OR push_bit 24 (?b 3) =
      ?b 0 + ?b 1 * 2 ^ 8 + ?b 2 * 2 ^ 16 + ?b 3 * 2 ^ 24"
    by (rule or_push_bit_eq_add[OF _ r(2)]) simp_all
  show ?thesis
    using s1 s2 s3 by (simp add: le32_def)
qed

lemma le32_range: "0 \<le> le32 data pos" "le32 data pos < 2 ^ 32"
proof -
  note r = byte_sums[OF uint_byte_range(3) uint_byte_range(3) uint_byte_range(3) uint_byte_range(3)]
  show "0 \<le> le32 data pos" by (simp add: le32_sum)
  show "le32 data pos < 2 ^ 32" unfolding le32_sum by (rule r)
qed

lemma enc_appendFixed32: "enc appendFixed32 v =
   [word_of_int v, word_of_int (v div 2 ^ 8), word_of_int (v div 2 ^ 16), word_of_int (v div 2 ^ 24)]"
  by (simp add: enc_def appendFixed32_def drop_bit_eq_div)

lemma drop_four:
  assumes "n + 4 \<le> length xs"
  shows "drop n xs = [xs ! (n + 0), xs ! (n + 1), xs ! (n + 2), xs ! (n + 3)] @ drop (n + 4) xs"
proof -
  have "drop n xs = xs ! n # drop (Suc n) xs" "drop (Suc n) xs = xs ! Suc n # drop (Suc (Suc n)) xs"
    "drop (Suc (Suc n)) xs = xs ! Suc (Suc n) # drop (Suc (Suc (Suc n))) xs"
    "drop (Suc (Suc (Suc n))) xs = xs ! Suc (Suc (Suc n)) # drop (Suc (Suc (Suc (Suc n)))) xs"
    using assms by (intro drop_eq_ConsI; simp)+
  moreover have "n + 1 = Suc n" "n + 2 = Suc (Suc n)" "n + 3 = Suc (Suc (Suc n))"
    "n + 4 = Suc (Suc (Suc (Suc n)))" by simp_all
  ultimately show ?thesis by (simp only: add_0_right append.simps)
qed

lemma le32_of_bytes:
  assumes "drop pos data = a # b # c # d # rest"
  shows "le32 data pos = uint a + uint b * 2 ^ 8 + uint c * 2 ^ 16 + uint d * 2 ^ 24"
proof -
  have "data ! (pos + i) = (a # b # c # d # rest) ! i" if "i < 4" for i
  proof -
    have "pos \<le> length data" using assms by (cases "pos \<le> length data") auto
    then have "drop pos data ! i = data ! (pos + i)" by (rule nth_drop)
    then show ?thesis using assms by simp
  qed
  from this[of 0] this[of 1] this[of 2] this[of 3] show ?thesis
    by (simp add: le32_sum)
qed

lemma bytes_of_sum:
  fixes a b c d :: int
  assumes "0 \<le> a" "a < 256" "0 \<le> b" "b < 256" "0 \<le> c" "c < 256" "0 \<le> d" "d < 256"
    and v: "v = a + b * 2 ^ 8 + c * 2 ^ 16 + d * 2 ^ 24"
  shows "v mod 256 = a" "v div 2 ^ 8 mod 256 = b" "v div 2 ^ 16 mod 256 = c" "v div 2 ^ 24 mod 256 = d"
proof -
  have base: "(x + k * 256) mod 256 = x" "(x + k * 256) div 256 = k" if "0 \<le> x" "x < 256" for x k :: int
    using that by (simp_all only: mod_mult_self1 div_mult_self1) simp_all
  have v0: "v = a + (b + (c + d * 256) * 256) * 256" unfolding v by simp
  have v1: "v div 2 ^ 8 = b + (c + d * 256) * 256"
    unfolding v0 using base[OF assms(1,2)] by simp
  have "v div 2 ^ 16 = v div 2 ^ 8 div 256" by (simp add: zdiv_zmult2_eq[symmetric])
  then have v2: "v div 2 ^ 16 = c + d * 256"
    unfolding v1 using base[OF assms(3,4)] by simp
  have "v div 2 ^ 24 = v div 2 ^ 16 div 256" by (simp add: zdiv_zmult2_eq[symmetric])
  then have v3: "v div 2 ^ 24 = d"
    unfolding v2 using base[OF assms(5,6)] by simp
  show "v mod 256 = a" unfolding v0 using base[OF assms(1,2)] by blast
  show "v div 2 ^ 8 mod 256 = b" unfolding v1 using base[OF assms(3,4)] by blast
  show "v div 2 ^ 16 mod 256 = c" unfolding v2 using base[OF assms(5,6)] by blast
  show "v div 2 ^ 24 mod 256 = d" unfolding v3 using assms by simp
qed

lemma sum_of_bytes:
  fixes v :: int
  assumes "0 \<le> v" "v < 2 ^ 32"
  shows "v mod 256 + v div 2 ^ 8 mod 256 * 2 ^ 8 + v div 2 ^ 16 mod 256 * 2 ^ 16 +
     v div 2 ^ 24 mod 256 * 2 ^ 24 = v"
proof -
  have q1: "v div 256 = v div 2 ^ 8" and q2: "v div 2 ^ 8 div 256 = v div 2 ^ 16"
    and q3: "v div 2 ^ 16 div 256 = v div 2 ^ 24"
    by (simp_all add: zdiv_zmult2_eq[symmetric])
  have "v div 2 ^ 24 < 256" using assms by (simp add: div_less_iff_less_mult)
  then have "v div 2 ^ 24 mod 256 = v div 2 ^ 24"
    using assms by (intro mod_pos_pos_trivial) (simp_all add: pos_imp_zdiv_nonneg_iff)
  moreover have "v mod 256 + 256 * (v div 2 ^ 8) = v"
    using mod_mult_div_eq[of v 256] unfolding q1 .
  moreover have "v div 2 ^ 8 mod 256 + 256 * (v div 2 ^ 16) = v div 2 ^ 8"
    using mod_mult_div_eq[of "v div 2 ^ 8" 256] unfolding q2 .
  moreover have "v div 2 ^ 16 mod 256 + 256 * (v div 2 ^ 24) = v div 2 ^ 16"
    using mod_mult_div_eq[of "v div 2 ^ 16" 256] unfolding q3 .
  moreover have "a + b * 2 ^ 8 + c * 2 ^ 16 + d * 2 ^ 24 = x"
    if "d = d'" "a + 256 * y = x" "b + 256 * z = y" "c + 256 * d' = z" for a b c d d' x y z :: int
    using that by (simp add: algebra_simps flip: that)
  ultimately show ?thesis by blast
qed

interpretation fixed32: codec appendFixed32 readFixed32 u32
proof
  show "appendFixed32 out v = out @ enc appendFixed32 v" for out v
    by (simp add: enc_def appendFixed32_def)
  show "enc appendFixed32 v \<noteq> []" for v
    by (simp add: enc_appendFixed32)
  show "readFixed32 data pos = Some (v, n) \<longleftrightarrow> u32 v \<and> n \<le> length data \<and>
      n = pos + length (enc appendFixed32 v) \<and> drop pos data = enc appendFixed32 v @ drop n data"
    for data pos v n
  proof
    assume "readFixed32 data pos = Some (v, n)"
    then have r: "pos + 4 \<le> length data" "v = le32 data pos" "n = pos + 4"
      by (auto simp: readFixed32_def split: if_splits)
    let ?b = "\<lambda>i. data ! (pos + i)"
    have d: "drop pos data = [?b 0, ?b 1, ?b 2, ?b 3] @ drop (pos + 4) data"
      by (rule drop_four) (use r(1) in simp)
    have v: "v = uint (?b 0) + uint (?b 1) * 2 ^ 8 + uint (?b 2) * 2 ^ 16 + uint (?b 3) * 2 ^ 24"
      by (simp add: r(2) le32_sum)
    note m = bytes_of_sum[OF uint_byte_range(1,2) uint_byte_range(1,2) uint_byte_range(1,2) uint_byte_range(1,2) v]
    have "enc appendFixed32 v = [?b 0, ?b 1, ?b 2, ?b 3]"
      unfolding enc_appendFixed32 by (simp only: byte_eq_iff_uint list.inject uint_word_of_int_byte m)
    then show "u32 v \<and> n \<le> length data \<and>
        n = pos + length (enc appendFixed32 v) \<and> drop pos data = enc appendFixed32 v @ drop n data"
      using d r le32_range[of data pos] by (simp add: u32_def)
  next
    assume a: "u32 v \<and> n \<le> length data \<and> n = pos + length (enc appendFixed32 v) \<and>
        drop pos data = enc appendFixed32 v @ drop n data"
    then have d: "drop pos data = word_of_int v # word_of_int (v div 2 ^ 8) #
        word_of_int (v div 2 ^ 16) # word_of_int (v div 2 ^ 24) # drop n data" "n = pos + 4"
      by (simp_all add: enc_appendFixed32)
    have "le32 data pos = v mod 256 + v div 2 ^ 8 mod 256 * 2 ^ 8 + v div 2 ^ 16 mod 256 * 2 ^ 16 +
        v div 2 ^ 24 mod 256 * 2 ^ 24"
      using le32_of_bytes[OF d(1)] by (simp only: uint_word_of_int_byte)
    also have "\<dots> = v" using a by (intro sum_of_bytes) (simp_all add: u32_def)
    finally have "le32 data pos = v" .
    moreover have "n \<le> length data" using a by blast
    ultimately show "readFixed32 data pos = Some (v, n)"
      unfolding readFixed32_def d(2) by simp
  qed
qed

lemma readFixed32_four:
  "need (readFixed32 data pos) e (\<lambda>(a, pos).
   need (readFixed32 data pos) e (\<lambda>(b, pos).
   need (readFixed32 data pos) e (\<lambda>(c, pos).
   need (readFixed32 data pos) e (\<lambda>(d, pos). k a b c d pos)))) =
   (if pos + 16 > length data then Inl e
    else k (le32 data pos) (le32 data (pos + 4)) (le32 data (pos + 8)) (le32 data (pos + 12)) (pos + 16))"
  by (auto simp: readFixed32_def add.assoc)

lemma nspan_scan_enc:
  "nullable_span32 s e \<Longrightarrow>
     scan readNullableSpan (enc appendNullableSpan (s, e) @ rest) =
       Some ((s, e), length (enc appendNullableSpan (s, e)))"
  by (rule nspan.scan_enc) simp

lemmas [codec_out] =
  varint.app_out nullable.app_out signed.app_out string.app_out nspan.app_out fixed32.app_out
  appendFlag_out

lemmas [codec_complete] =
  varint.rd_scan nullable.rd_scan signed.rd_scan string.rd_scan nspan.rd_scan fixed32.rd_scan
  varint.scan_enc nullable.scan_enc signed.scan_enc string.scan_enc nspan_scan_enc fixed32.scan_enc
  drop_plus codec_out

lemmas [codec_sound] =
  need_Inr varint.rd_reads nullable.rd_reads signed.rd_reads string.rd_reads nspan.rd_reads
  fixed32.rd_reads codec_out

end
