(* ===== verification/Unit_Tables.thy ===== *)
theory Unit_Tables
  imports Codec
begin

text \<open>
  The tables of \<open>backend/unit/unit.go\<close> that describe a unit's package: imports, symbols,
  declarations and their metadata, the initialisation order, constants, functions, signatures
  and package ownership.  For each table: its Go struct as a record, the row of its encoder, the
  row of its decoder, the values the format can carry, the proof that the row meets the contract
  \<open>row_codec\<close>, and the characterisation of the decoder that follows from the contract.
\<close>

subsection \<open>Lists inside a row: expression spans and fields\<close>

record ExprSpan =
  span_StartTok :: int
  span_EndTok :: int

definition appendExprSpanRow :: "bytes \<Rightarrow> ExprSpan \<Rightarrow> bytes" where
  "appendExprSpanRow out span =
     (let out = appendVarint out (span_StartTok span);
          out = appendVarint out (span_EndTok span - span_StartTok span)
      in out)"

definition decodeExprSpanRow :: "nat \<Rightarrow> bytes \<Rightarrow> nat \<Rightarrow> unit + (ExprSpan \<times> nat)" where
  "decodeExprSpanRow i data pos =
     need (readVarint data pos) () (\<lambda>(startTok, pos).
     need (readVarint data pos) () (\<lambda>(tokCount, pos).
     Inr (\<lparr>span_StartTok = startTok, span_EndTok = startTok + tokCount\<rparr>, pos)))"

definition wf_ExprSpan :: "ExprSpan \<Rightarrow> bool" where
  "wf_ExprSpan span \<longleftrightarrow>
     u32 (span_StartTok span) \<and>
     u32 (span_EndTok span - span_StartTok span)"

lemmas ExprSpan_row =
  enc_def[of appendExprSpanRow] appendExprSpanRow_def decodeExprSpanRow_def wf_ExprSpan_def Let_def

interpretation exprSpan: row_codec appendExprSpanRow decodeExprSpanRow wf_ExprSpan
proof
  show "appendExprSpanRow out x = out @ enc appendExprSpanRow x" for out x
    by (simp add: ExprSpan_row codec_out)
  show "decodeExprSpanRow i data pos = Inr (x, pos + length (enc appendExprSpanRow x))"
    if "drop pos data = enc appendExprSpanRow x @ rest" "wf_ExprSpan x" for data pos x rest i
    using that by (cases x) (simp add: ExprSpan_row codec_complete del: drop_drop)
  show "wf_ExprSpan x \<and> reads data pos (enc appendExprSpanRow x) n"
    if "decodeExprSpanRow i data pos = Inr (x, n)" for data pos x i n
    using that by (auto simp: ExprSpan_row codec_sound split: if_splits dest: flag_zero intro!: reads_append)
qed

definition appendSpanList :: "bytes \<Rightarrow> ExprSpan list \<Rightarrow> bytes" where
  "appendSpanList = appendList appendExprSpanRow"

definition readSpanList :: "bytes \<Rightarrow> nat \<Rightarrow> (ExprSpan list \<times> nat) option" where
  "readSpanList = readList decodeExprSpanRow"

definition wf_spans :: "ExprSpan list \<Rightarrow> bool" where
  "wf_spans = (\<lambda>xs. list_all wf_ExprSpan xs \<and> u32 (int (length xs)))"

interpretation spans: codec appendSpanList readSpanList wf_spans
  unfolding appendSpanList_def readSpanList_def wf_spans_def by (rule exprSpan.list_codec)

record Field =
  fld_NameTok :: int
  fld_TypeStart :: int
  fld_TypeEnd :: int
  fld_Variadic :: bool

definition appendFieldRow :: "bytes \<Rightarrow> Field \<Rightarrow> bytes" where
  "appendFieldRow out field =
     (let out = appendNullable out (fld_NameTok field);
          out = appendVarint out (fld_TypeStart field);
          out = appendVarint out (fld_TypeEnd field - fld_TypeStart field);
          out = appendFlag out (fld_Variadic field)
      in out)"

definition decodeFieldRow :: "nat \<Rightarrow> bytes \<Rightarrow> nat \<Rightarrow> unit + (Field \<times> nat)" where
  "decodeFieldRow i data pos =
     need (readNullable data pos) () (\<lambda>(nameTok, pos).
     need (readVarint data pos) () (\<lambda>(typeStart, pos).
     need (readVarint data pos) () (\<lambda>(typeCount, pos).
     need (readVarint data pos) () (\<lambda>(variadicValue, pos).
     if variadicValue > 1 then Inl () else
     Inr (\<lparr>fld_NameTok = nameTok, fld_TypeStart = typeStart,
           fld_TypeEnd = typeStart + typeCount, fld_Variadic = (variadicValue = 1)\<rparr>, pos)))))"

definition wf_Field :: "Field \<Rightarrow> bool" where
  "wf_Field field \<longleftrightarrow>
     nullable32 (fld_NameTok field) \<and>
     u32 (fld_TypeStart field) \<and>
     u32 (fld_TypeEnd field - fld_TypeStart field)"

lemmas Field_row =
  enc_def[of appendFieldRow] appendFieldRow_def decodeFieldRow_def wf_Field_def Let_def

interpretation field: row_codec appendFieldRow decodeFieldRow wf_Field
proof
  show "appendFieldRow out x = out @ enc appendFieldRow x" for out x
    by (simp add: Field_row codec_out)
  show "decodeFieldRow i data pos = Inr (x, pos + length (enc appendFieldRow x))"
    if "drop pos data = enc appendFieldRow x @ rest" "wf_Field x" for data pos x rest i
    using that by (cases x) (simp add: Field_row codec_complete del: drop_drop)
  show "wf_Field x \<and> reads data pos (enc appendFieldRow x) n"
    if "decodeFieldRow i data pos = Inr (x, n)" for data pos x i n
    using that by (auto simp: Field_row codec_sound split: if_splits dest: flag_zero intro!: reads_append)
qed

definition appendFieldList :: "bytes \<Rightarrow> Field list \<Rightarrow> bytes" where
  "appendFieldList = appendList appendFieldRow"

definition readFieldList :: "bytes \<Rightarrow> nat \<Rightarrow> (Field list \<times> nat) option" where
  "readFieldList = readList decodeFieldRow"

definition wf_fields :: "Field list \<Rightarrow> bool" where
  "wf_fields = (\<lambda>xs. list_all wf_Field xs \<and> u32 (int (length xs)))"

interpretation flds: codec appendFieldList readFieldList wf_fields
  unfolding appendFieldList_def readFieldList_def wf_fields_def by (rule field.list_codec)

lemmas [codec_out] = spans.app_out flds.app_out
lemmas [codec_complete] = spans.app_out flds.app_out spans.rd_scan flds.rd_scan spans.scan_enc flds.scan_enc
lemmas [codec_sound] = spans.app_out flds.app_out spans.rd_reads flds.rd_reads

subsection \<open>\<open>Decl\<close>\<close>

record Decl =
  decl_Kind :: int
  decl_NameStart :: int
  decl_NameEnd :: int
  decl_StartTok :: int
  decl_EndTok :: int

definition appendDeclRow :: "bytes \<Rightarrow> Decl \<Rightarrow> bytes" where
  "appendDeclRow out decl =
     (let out = appendVarint out (decl_Kind decl);
          out = appendVarint out (decl_NameStart decl);
          out = appendVarint out (decl_NameEnd decl - decl_NameStart decl);
          out = appendVarint out (decl_StartTok decl);
          out = appendVarint out (decl_EndTok decl - decl_StartTok decl)
      in out)"

definition decodeDeclRow :: "nat \<Rightarrow> bytes \<Rightarrow> nat \<Rightarrow> go_error + (Decl \<times> nat)" where
  "decodeDeclRow i data pos =
     need (readVarint data pos) (Errorf ''invalid decl %d kind'' [int i]) (\<lambda>(kind, pos).
     need (readVarint data pos) (Errorf ''invalid decl %d name'' [int i]) (\<lambda>(nameStart, pos).
     need (readVarint data pos) (Errorf ''invalid decl %d name size'' [int i]) (\<lambda>(nameCount, pos).
     need (readVarint data pos) (Errorf ''invalid decl %d start'' [int i]) (\<lambda>(startTok, pos).
     need (readVarint data pos) (Errorf ''invalid decl %d end'' [int i]) (\<lambda>(tokCount, pos).
     Inr (\<lparr>decl_Kind = kind, decl_NameStart = nameStart,
           decl_NameEnd = nameStart + nameCount, decl_StartTok = startTok,
           decl_EndTok = startTok + tokCount\<rparr>, pos))))))"

definition wf_Decl :: "Decl \<Rightarrow> bool" where
  "wf_Decl decl \<longleftrightarrow>
     u32 (decl_Kind decl) \<and>
     u32 (decl_NameStart decl) \<and>
     u32 (decl_NameEnd decl - decl_NameStart decl) \<and>
     u32 (decl_StartTok decl) \<and>
     u32 (decl_EndTok decl - decl_StartTok decl)"

definition encodeDecls :: "Decl list \<Rightarrow> bytes" where
  "encodeDecls = encodeTable appendDeclRow"

definition decodeDecls :: "bytes \<Rightarrow> go_error + Decl list" where
  "decodeDecls =
     decodeTable (Errorf ''invalid decl count'' []) (Errorf ''trailing decl data'' []) decodeDeclRow"

lemmas Decl_row =
  enc_def[of appendDeclRow] appendDeclRow_def decodeDeclRow_def wf_Decl_def Let_def

interpretation decl: row_codec appendDeclRow decodeDeclRow wf_Decl
proof
  show "appendDeclRow out x = out @ enc appendDeclRow x" for out x
    by (simp add: Decl_row codec_out)
  show "decodeDeclRow i data pos = Inr (x, pos + length (enc appendDeclRow x))"
    if "drop pos data = enc appendDeclRow x @ rest" "wf_Decl x" for data pos x rest i
    using that by (cases x) (simp add: Decl_row codec_complete del: drop_drop)
  show "wf_Decl x \<and> reads data pos (enc appendDeclRow x) n"
    if "decodeDeclRow i data pos = Inr (x, n)" for data pos x i n
    using that by (auto simp: Decl_row codec_sound split: if_splits dest: flag_zero intro!: reads_append)
qed

lemma decodeDecls_iff:
  "decodeDecls data = Inr xs \<longleftrightarrow>
     list_all wf_Decl xs \<and> u32 (int (length xs)) \<and> data = encodeDecls xs"
  unfolding decodeDecls_def encodeDecls_def by (rule decl.table_iff)

subsection \<open>\<open>Import\<close>\<close>

record Import =
  imp_Name :: gostring
  imp_ImportPath :: gostring
  imp_Package :: int
  imp_NameTok :: int
  imp_PathTok :: int
  imp_Dot :: bool
  imp_Blank :: bool

definition importFlags :: "Import \<Rightarrow> int" where
  "importFlags imp =
     (let flags = 0;
          flags = (if imp_Dot imp then flags OR 1 else flags);
          flags = (if imp_Blank imp then flags OR 2 else flags)
      in flags)"

definition appendImportRow :: "bytes \<Rightarrow> Import \<Rightarrow> bytes" where
  "appendImportRow out imp =
     (let out = appendString out (imp_Name imp);
          out = appendString out (imp_ImportPath imp);
          out = appendNullable out (imp_Package imp);
          out = appendNullable out (imp_NameTok imp);
          out = appendVarint out (imp_PathTok imp);
          out = appendVarint out (importFlags imp)
      in out)"

definition decodeImportRow :: "nat \<Rightarrow> bytes \<Rightarrow> nat \<Rightarrow> go_error + (Import \<times> nat)" where
  "decodeImportRow i data pos =
     need (readString data pos) (Errorf ''invalid import %d name'' [int i]) (\<lambda>(name, pos).
     need (readString data pos) (Errorf ''invalid import %d path'' [int i]) (\<lambda>(importPath, pos).
     need (readNullable data pos) (Errorf ''invalid import %d package'' [int i]) (\<lambda>(pkg, pos).
     need (readNullable data pos) (Errorf ''invalid import %d name token'' [int i]) (\<lambda>(nameTok, pos).
     need (readVarint data pos) (Errorf ''invalid import %d path token'' [int i]) (\<lambda>(pathTok, pos).
     need (readVarint data pos) (Errorf ''invalid import %d flags'' [int i]) (\<lambda>(flags, pos).
     if flags > 3 then Inl (Errorf ''invalid import %d flags'' [int i]) else
     let imp = \<lparr>imp_Name = name, imp_ImportPath = importPath, imp_Package = pkg, imp_NameTok = nameTok,
                imp_PathTok = pathTok, imp_Dot = flags AND 1 \<noteq> 0, imp_Blank = flags AND 2 \<noteq> 0\<rparr>
     in if imp_Dot imp \<and> imp_Blank imp then Inl (Errorf ''invalid import %d dot blank flags'' [int i])
        else Inr (imp, pos)))))))"

definition wf_Import :: "Import \<Rightarrow> bool" where
  "wf_Import imp \<longleftrightarrow>
     u32 (int (length (imp_Name imp))) \<and> u32 (int (length (imp_ImportPath imp))) \<and>
     nullable32 (imp_Package imp) \<and> nullable32 (imp_NameTok imp) \<and> u32 (imp_PathTok imp) \<and>
     \<not> (imp_Dot imp \<and> imp_Blank imp)"

definition encodeImports :: "Import list \<Rightarrow> bytes" where
  "encodeImports = encodeTable appendImportRow"

definition decodeImports :: "bytes \<Rightarrow> go_error + Import list" where
  "decodeImports =
     decodeTable (Errorf ''invalid import count'' []) (Errorf ''trailing import data'' []) decodeImportRow"

lemma importFlags_bits:
  "\<not> (imp_Dot imp \<and> imp_Blank imp) \<Longrightarrow> u32 (importFlags imp) \<and> \<not> importFlags imp > 3 \<and>
     (importFlags imp AND 1 \<noteq> 0) = imp_Dot imp \<and> (importFlags imp AND 2 \<noteq> 0) = imp_Blank imp"
  by (auto simp: importFlags_def u32_def)

lemma importFlags_decode:
  assumes "u32 flags" "\<not> flags > 3" "flags AND 1 = 0 \<or> flags AND 2 = 0"
  shows "importFlags \<lparr>imp_Name = a, imp_ImportPath = b, imp_Package = c, imp_NameTok = d, imp_PathTok = e,
           imp_Dot = flags AND 1 \<noteq> 0, imp_Blank = flags AND 2 \<noteq> 0\<rparr> = flags"
    "flags AND 1 = 0 \<Longrightarrow> importFlags \<lparr>imp_Name = a, imp_ImportPath = b, imp_Package = c, imp_NameTok = d,
       imp_PathTok = e, imp_Dot = False, imp_Blank = flags AND 2 \<noteq> 0\<rparr> = flags"
    "flags AND 2 = 0 \<Longrightarrow> importFlags \<lparr>imp_Name = a, imp_ImportPath = b, imp_Package = c, imp_NameTok = d,
       imp_PathTok = e, imp_Dot = flags AND 1 \<noteq> 0, imp_Blank = False\<rparr> = flags"
proof -
  have "flags = 0 \<or> flags = 1 \<or> flags = 2 \<or> flags = 3"
    using assms by (auto simp: u32_def)
  then show "importFlags \<lparr>imp_Name = a, imp_ImportPath = b, imp_Package = c, imp_NameTok = d, imp_PathTok = e,
           imp_Dot = flags AND 1 \<noteq> 0, imp_Blank = flags AND 2 \<noteq> 0\<rparr> = flags"
    "flags AND 1 = 0 \<Longrightarrow> importFlags \<lparr>imp_Name = a, imp_ImportPath = b, imp_Package = c, imp_NameTok = d,
       imp_PathTok = e, imp_Dot = False, imp_Blank = flags AND 2 \<noteq> 0\<rparr> = flags"
    "flags AND 2 = 0 \<Longrightarrow> importFlags \<lparr>imp_Name = a, imp_ImportPath = b, imp_Package = c, imp_NameTok = d,
       imp_PathTok = e, imp_Dot = flags AND 1 \<noteq> 0, imp_Blank = False\<rparr> = flags"
    using assms(3) by (auto simp: importFlags_def)
qed

lemmas Import_row =
  enc_def[of appendImportRow] appendImportRow_def decodeImportRow_def wf_Import_def Let_def

interpretation import_: row_codec appendImportRow decodeImportRow wf_Import
proof
  show "appendImportRow out x = out @ enc appendImportRow x" for out x
    by (simp add: Import_row codec_out)
  show "decodeImportRow i data pos = Inr (x, pos + length (enc appendImportRow x))"
    if "drop pos data = enc appendImportRow x @ rest" "wf_Import x" for data pos x rest i
    using that importFlags_bits[of x] by (cases x) (simp add: Import_row codec_complete del: drop_drop)
  show "wf_Import x \<and> reads data pos (enc appendImportRow x) n"
    if "decodeImportRow i data pos = Inr (x, n)" for data pos x i n
    using that by (auto simp: Import_row codec_sound importFlags_decode split: if_splits intro!: reads_append)
qed

lemma decodeImports_iff:
  "decodeImports data = Inr xs \<longleftrightarrow>
     list_all wf_Import xs \<and> u32 (int (length xs)) \<and> data = encodeImports xs"
  unfolding decodeImports_def encodeImports_def by (rule import_.table_iff)

subsection \<open>\<open>Symbol\<close>\<close>

record Symbol =
  sym_Name :: gostring
  sym_Kind :: int
  sym_Package :: int
  sym_Token :: int
  sym_OwnerKind :: int
  sym_OwnerIndex :: int

definition appendSymbolRow :: "bytes \<Rightarrow> Symbol \<Rightarrow> bytes" where
  "appendSymbolRow out symb =
     (let out = appendString out (sym_Name symb);
          out = appendVarint out (sym_Kind symb);
          out = appendNullable out (sym_Package symb);
          out = appendVarint out (sym_Token symb);
          out = appendVarint out (sym_OwnerKind symb);
          out = appendVarint out (sym_OwnerIndex symb)
      in out)"

definition decodeSymbolRow :: "nat \<Rightarrow> bytes \<Rightarrow> nat \<Rightarrow> go_error + (Symbol \<times> nat)" where
  "decodeSymbolRow i data pos =
     need (readString data pos) (Errorf ''invalid symbol %d name'' [int i]) (\<lambda>(name, pos).
     need (readVarint data pos) (Errorf ''invalid symbol %d kind'' [int i]) (\<lambda>(kind, pos).
     need (readNullable data pos) (Errorf ''invalid symbol %d package'' [int i]) (\<lambda>(package, pos).
     need (readVarint data pos) (Errorf ''invalid symbol %d token'' [int i]) (\<lambda>(token, pos).
     need (readVarint data pos) (Errorf ''invalid symbol %d owner kind'' [int i]) (\<lambda>(ownerKind, pos).
     need (readVarint data pos) (Errorf ''invalid symbol %d owner index'' [int i]) (\<lambda>(ownerIndex, pos).
     Inr (\<lparr>sym_Name = name, sym_Kind = kind, sym_Package = package, sym_Token = token,
           sym_OwnerKind = ownerKind, sym_OwnerIndex = ownerIndex\<rparr>, pos)))))))"

definition wf_Symbol :: "Symbol \<Rightarrow> bool" where
  "wf_Symbol symb \<longleftrightarrow>
     u32 (int (length (sym_Name symb))) \<and>
     u32 (sym_Kind symb) \<and>
     nullable32 (sym_Package symb) \<and>
     u32 (sym_Token symb) \<and>
     u32 (sym_OwnerKind symb) \<and>
     u32 (sym_OwnerIndex symb)"

definition encodeSymbols :: "Symbol list \<Rightarrow> bytes" where
  "encodeSymbols = encodeTable appendSymbolRow"

definition decodeSymbols :: "bytes \<Rightarrow> go_error + Symbol list" where
  "decodeSymbols =
     decodeTable (Errorf ''invalid symbol count'' []) (Errorf ''trailing symbol data'' []) decodeSymbolRow"

lemmas Symbol_row =
  enc_def[of appendSymbolRow] appendSymbolRow_def decodeSymbolRow_def wf_Symbol_def Let_def

interpretation symbol: row_codec appendSymbolRow decodeSymbolRow wf_Symbol
proof
  show "appendSymbolRow out x = out @ enc appendSymbolRow x" for out x
    by (simp add: Symbol_row codec_out)
  show "decodeSymbolRow i data pos = Inr (x, pos + length (enc appendSymbolRow x))"
    if "drop pos data = enc appendSymbolRow x @ rest" "wf_Symbol x" for data pos x rest i
    using that by (cases x) (simp add: Symbol_row codec_complete del: drop_drop)
  show "wf_Symbol x \<and> reads data pos (enc appendSymbolRow x) n"
    if "decodeSymbolRow i data pos = Inr (x, n)" for data pos x i n
    using that by (auto simp: Symbol_row codec_sound split: if_splits dest: flag_zero intro!: reads_append)
qed

lemma decodeSymbols_iff:
  "decodeSymbols data = Inr xs \<longleftrightarrow>
     list_all wf_Symbol xs \<and> u32 (int (length xs)) \<and> data = encodeSymbols xs"
  unfolding decodeSymbols_def encodeSymbols_def by (rule symbol.table_iff)

subsection \<open>\<open>DeclMeta\<close>\<close>

record DeclMeta =
  meta_DeclIndex :: int
  meta_Symbol :: int
  meta_ValueIndex :: int
  meta_TypeStart :: int
  meta_TypeEnd :: int
  meta_ValueStart :: int
  meta_ValueEnd :: int
  meta_Values :: "ExprSpan list"
  meta_Alias :: bool

definition appendDeclMetaRow :: "bytes \<Rightarrow> DeclMeta \<Rightarrow> bytes" where
  "appendDeclMetaRow out m =
     (let out = appendVarint out (meta_DeclIndex m);
          out = appendNullable out (meta_Symbol m);
          out = appendVarint out (meta_ValueIndex m);
          out = appendFlag out (meta_Alias m);
          out = appendNullableSpan out (meta_TypeStart m, meta_TypeEnd m);
          out = appendNullableSpan out (meta_ValueStart m, meta_ValueEnd m);
          out = appendSpanList out (meta_Values m)
      in out)"

definition decodeDeclMetaRow :: "nat \<Rightarrow> bytes \<Rightarrow> nat \<Rightarrow> go_error + (DeclMeta \<times> nat)" where
  "decodeDeclMetaRow i data pos =
     need (readVarint data pos) (Errorf ''invalid decl metadata %d decl'' [int i]) (\<lambda>(declIndex, pos).
     need (readNullable data pos) (Errorf ''invalid decl metadata %d symbol'' [int i]) (\<lambda>(symbol, pos).
     need (readVarint data pos) (Errorf ''invalid decl metadata %d value index'' [int i]) (\<lambda>(valueIndex, pos).
     need (readVarint data pos) (Errorf ''invalid decl metadata %d alias'' [int i]) (\<lambda>(aliasValue, pos).
     if aliasValue > 1 then Inl (Errorf ''invalid decl metadata %d alias'' [int i]) else
     need (readNullableSpan data pos) (Errorf ''invalid decl metadata %d type span'' [int i]) (\<lambda>((typeStart, typeEnd), pos).
     need (readNullableSpan data pos) (Errorf ''invalid decl metadata %d value span'' [int i]) (\<lambda>((valueStart, valueEnd), pos).
     need (readSpanList data pos) (Errorf ''invalid decl metadata %d values'' [int i]) (\<lambda>(vals, pos).
     Inr (\<lparr>meta_DeclIndex = declIndex, meta_Symbol = symbol,
           meta_ValueIndex = valueIndex, meta_TypeStart = typeStart,
           meta_TypeEnd = typeEnd, meta_ValueStart = valueStart,
           meta_ValueEnd = valueEnd, meta_Values = vals,
           meta_Alias = (aliasValue = 1)\<rparr>, pos))))))))"

definition wf_DeclMeta :: "DeclMeta \<Rightarrow> bool" where
  "wf_DeclMeta m \<longleftrightarrow>
     u32 (meta_DeclIndex m) \<and>
     nullable32 (meta_Symbol m) \<and>
     u32 (meta_ValueIndex m) \<and>
     nullable_span32 (meta_TypeStart m) (meta_TypeEnd m) \<and>
     nullable_span32 (meta_ValueStart m) (meta_ValueEnd m) \<and>
     wf_spans (meta_Values m)"

definition encodeDeclMeta :: "DeclMeta list \<Rightarrow> bytes" where
  "encodeDeclMeta = encodeTable appendDeclMetaRow"

definition decodeDeclMeta :: "bytes \<Rightarrow> go_error + DeclMeta list" where
  "decodeDeclMeta =
     decodeTable (Errorf ''invalid decl metadata count'' []) (Errorf ''trailing decl metadata'' []) decodeDeclMetaRow"

lemmas DeclMeta_row =
  enc_def[of appendDeclMetaRow] appendDeclMetaRow_def decodeDeclMetaRow_def wf_DeclMeta_def Let_def

interpretation declMeta: row_codec appendDeclMetaRow decodeDeclMetaRow wf_DeclMeta
proof
  show "appendDeclMetaRow out x = out @ enc appendDeclMetaRow x" for out x
    by (simp add: DeclMeta_row codec_out)
  show "decodeDeclMetaRow i data pos = Inr (x, pos + length (enc appendDeclMetaRow x))"
    if "drop pos data = enc appendDeclMetaRow x @ rest" "wf_DeclMeta x" for data pos x rest i
    using that by (cases x) (simp add: DeclMeta_row codec_complete del: drop_drop)
  show "wf_DeclMeta x \<and> reads data pos (enc appendDeclMetaRow x) n"
    if "decodeDeclMetaRow i data pos = Inr (x, n)" for data pos x i n
    using that by (auto simp: DeclMeta_row codec_sound split: if_splits dest: flag_zero intro!: reads_append)
qed

lemma decodeDeclMeta_iff:
  "decodeDeclMeta data = Inr xs \<longleftrightarrow>
     list_all wf_DeclMeta xs \<and> u32 (int (length xs)) \<and> data = encodeDeclMeta xs"
  unfolding decodeDeclMeta_def encodeDeclMeta_def by (rule declMeta.table_iff)

subsection \<open>Initialisation order\<close>

definition decodeInitOrderRow :: "nat \<Rightarrow> bytes \<Rightarrow> nat \<Rightarrow> go_error + (int \<times> nat)" where
  "decodeInitOrderRow i data pos =
     need (readVarint data pos) (Errorf ''invalid init order %d'' [int i]) (\<lambda>(decl, pos).
     Inr (decl, pos))"

definition encodeInitOrder :: "int list \<Rightarrow> bytes" where
  "encodeInitOrder = encodeTable appendVarint"

definition decodeInitOrder :: "bytes \<Rightarrow> go_error + int list" where
  "decodeInitOrder =
     decodeTable (Errorf ''invalid init order count'' []) (Errorf ''trailing init order data'' []) decodeInitOrderRow"

interpretation initOrder: row_codec appendVarint decodeInitOrderRow u32
proof
  show "appendVarint out x = out @ enc appendVarint x" for out x
    by (rule varint.app_out)
  show "decodeInitOrderRow i data pos = Inr (x, pos + length (enc appendVarint x))"
    if "drop pos data = enc appendVarint x @ rest" "u32 x" for data pos x rest i
    using that by (simp add: decodeInitOrderRow_def varint.rd_complete)
  show "u32 x \<and> reads data pos (enc appendVarint x) n"
    if "decodeInitOrderRow i data pos = Inr (x, n)" for data pos x i n
    using that by (auto simp: decodeInitOrderRow_def codec_sound)
qed

lemma decodeInitOrder_iff:
  "decodeInitOrder data = Inr xs \<longleftrightarrow>
     list_all u32 xs \<and> u32 (int (length xs)) \<and> data = encodeInitOrder xs"
  unfolding decodeInitOrder_def encodeInitOrder_def by (rule initOrder.table_iff)

subsection \<open>\<open>ConstValue\<close>\<close>

abbreviation (input) "ConstInt \<equiv> (1 :: int)"
abbreviation (input) "ConstString \<equiv> (2 :: int)"
abbreviation (input) "ConstBool \<equiv> (3 :: int)"

record ConstValue =
  cv_DeclIndex :: int
  cv_Kind :: int
  cv_Int :: int
  cv_String :: gostring
  cv_Bool :: bool

definition appendConstValueRow :: "bytes \<Rightarrow> ConstValue \<Rightarrow> bytes" where
  "appendConstValueRow out cv =
     (let out = appendVarint out (cv_DeclIndex cv);
          out = appendVarint out (cv_Kind cv)
      in if cv_Kind cv = ConstInt then appendSigned out (cv_Int cv)
         else if cv_Kind cv = ConstString then appendString out (cv_String cv)
         else appendFlag out (cv_Bool cv))"

definition decodeConstValueRow :: "nat \<Rightarrow> bytes \<Rightarrow> nat \<Rightarrow> go_error + (ConstValue \<times> nat)" where
  "decodeConstValueRow i data pos =
     need (readVarint data pos) (Errorf ''invalid const %d decl'' [int i]) (\<lambda>(decl, pos).
     need (readVarint data pos) (Errorf ''invalid const %d kind'' [int i]) (\<lambda>(kind, pos).
     let cv = \<lparr>cv_DeclIndex = decl, cv_Kind = kind, cv_Int = 0, cv_String = [], cv_Bool = False\<rparr> in
     if kind = ConstInt then
       need (readSigned data pos) (Errorf ''invalid const %d int'' [int i]) (\<lambda>(n, pos).
       Inr (cv\<lparr>cv_Int := n\<rparr>, pos))
     else if kind = ConstString then
       need (readString data pos) (Errorf ''invalid const %d string'' [int i]) (\<lambda>(str, pos).
       Inr (cv\<lparr>cv_String := str\<rparr>, pos))
     else if kind = ConstBool then
       need (readVarint data pos) (Errorf ''invalid const %d bool'' [int i]) (\<lambda>(boolValue, pos).
       if boolValue > 1 then Inl (Errorf ''invalid const %d bool'' [int i])
       else Inr (cv\<lparr>cv_Bool := (boolValue = 1)\<rparr>, pos))
     else Inl (Errorf ''invalid const %d kind %d'' [int i, kind])))"

definition wf_ConstValue :: "ConstValue \<Rightarrow> bool" where
  "wf_ConstValue cv \<longleftrightarrow>
     u32 (cv_DeclIndex cv) \<and>
     (cv_Kind cv = ConstInt \<and> signed32 (cv_Int cv) \<and> cv_String cv = [] \<and> \<not> cv_Bool cv \<or>
      cv_Kind cv = ConstString \<and> cv_Int cv = 0 \<and> u32 (int (length (cv_String cv))) \<and> \<not> cv_Bool cv \<or>
      cv_Kind cv = ConstBool \<and> cv_Int cv = 0 \<and> cv_String cv = [])"

definition encodeConsts :: "ConstValue list \<Rightarrow> bytes" where
  "encodeConsts = encodeTable appendConstValueRow"

definition decodeConsts :: "bytes \<Rightarrow> go_error + ConstValue list" where
  "decodeConsts =
     decodeTable (Errorf ''invalid const count'' []) (Errorf ''trailing const data'' []) decodeConstValueRow"

lemmas ConstValue_row =
  enc_def[of appendConstValueRow] appendConstValueRow_def decodeConstValueRow_def wf_ConstValue_def Let_def

lemma u32_kinds [simp]: "u32 1" "u32 2" "u32 3"
  by (simp_all add: u32_def)

interpretation constValue: row_codec appendConstValueRow decodeConstValueRow wf_ConstValue
proof
  show "appendConstValueRow out x = out @ enc appendConstValueRow x" for out x
    by (simp add: ConstValue_row codec_out)
  show "decodeConstValueRow i data pos = Inr (x, pos + length (enc appendConstValueRow x))"
    if "drop pos data = enc appendConstValueRow x @ rest" "wf_ConstValue x" for data pos x rest i
  proof -
    obtain d k v s b where x: "x = \<lparr>cv_DeclIndex = d, cv_Kind = k, cv_Int = v, cv_String = s, cv_Bool = b\<rparr>"
      by (cases x)
    have w: "u32 d" "k = 1 \<and> signed32 v \<and> s = [] \<and> \<not> b \<or>
        k = 2 \<and> v = 0 \<and> u32 (int (length s)) \<and> \<not> b \<or> k = 3 \<and> v = 0 \<and> s = []"
      using that(2) unfolding x by (simp_all add: wf_ConstValue_def)
    from w(2) that(1) show ?thesis
      unfolding x using w(1)
      by (elim disjE conjE; simp add: ConstValue_row codec_complete del: drop_drop)
  qed
  show "wf_ConstValue x \<and> reads data pos (enc appendConstValueRow x) n"
    if "decodeConstValueRow i data pos = Inr (x, n)" for data pos x i n
    using that by (auto simp: ConstValue_row codec_sound split: if_splits dest: flag_zero intro!: reads_append)
qed

lemma decodeConsts_iff:
  "decodeConsts data = Inr xs \<longleftrightarrow>
     list_all wf_ConstValue xs \<and> u32 (int (length xs)) \<and> data = encodeConsts xs"
  unfolding decodeConsts_def encodeConsts_def by (rule constValue.table_iff)

subsection \<open>\<open>Func\<close>\<close>

record Func =
  fn_NameStart :: int
  fn_NameEnd :: int
  fn_StartTok :: int
  fn_NameTok :: int
  fn_ReceiverStart :: int
  fn_ReceiverEnd :: int
  fn_BodyStart :: int
  fn_BodyEnd :: int
  fn_EndTok :: int

definition appendFuncRow :: "bytes \<Rightarrow> Func \<Rightarrow> bytes" where
  "appendFuncRow out f =
     (let out = appendVarint out (fn_NameStart f);
          out = appendVarint out (fn_NameEnd f - fn_NameStart f);
          out = appendVarint out (fn_StartTok f);
          out = appendVarint out (fn_NameTok f - fn_StartTok f);
          out = appendVarint out (fn_ReceiverStart f);
          out = appendVarint out (fn_ReceiverEnd f - fn_ReceiverStart f);
          out = appendVarint out (fn_BodyStart f);
          out = appendVarint out (fn_BodyEnd f - fn_BodyStart f);
          out = appendVarint out (fn_EndTok f - fn_BodyEnd f)
      in out)"

definition decodeFuncRow :: "nat \<Rightarrow> bytes \<Rightarrow> nat \<Rightarrow> go_error + (Func \<times> nat)" where
  "decodeFuncRow i data pos =
     need (readVarint data pos) (Errorf ''invalid func %d name'' [int i]) (\<lambda>(nameStart, pos).
     need (readVarint data pos) (Errorf ''invalid func %d name size'' [int i]) (\<lambda>(nameCount, pos).
     need (readVarint data pos) (Errorf ''invalid func %d start'' [int i]) (\<lambda>(startTok, pos).
     need (readVarint data pos) (Errorf ''invalid func %d name token'' [int i]) (\<lambda>(nameTokCount, pos).
     need (readVarint data pos) (Errorf ''invalid func %d receiver'' [int i]) (\<lambda>(receiverStart, pos).
     need (readVarint data pos) (Errorf ''invalid func %d receiver end'' [int i]) (\<lambda>(receiverCount, pos).
     need (readVarint data pos) (Errorf ''invalid func %d body'' [int i]) (\<lambda>(bodyStart, pos).
     need (readVarint data pos) (Errorf ''invalid func %d body end'' [int i]) (\<lambda>(bodyCount, pos).
     need (readVarint data pos) (Errorf ''invalid func %d end'' [int i]) (\<lambda>(tokCount, pos).
     Inr (\<lparr>fn_NameStart = nameStart, fn_NameEnd = nameStart + nameCount,
           fn_StartTok = startTok, fn_NameTok = startTok + nameTokCount,
           fn_ReceiverStart = receiverStart,
           fn_ReceiverEnd = receiverStart + receiverCount, fn_BodyStart = bodyStart,
           fn_BodyEnd = bodyStart + bodyCount,
           fn_EndTok = bodyStart + bodyCount + tokCount\<rparr>, pos))))))))))"

definition wf_Func :: "Func \<Rightarrow> bool" where
  "wf_Func f \<longleftrightarrow>
     u32 (fn_NameStart f) \<and>
     u32 (fn_NameEnd f - fn_NameStart f) \<and>
     u32 (fn_StartTok f) \<and>
     u32 (fn_NameTok f - fn_StartTok f) \<and>
     u32 (fn_ReceiverStart f) \<and>
     u32 (fn_ReceiverEnd f - fn_ReceiverStart f) \<and>
     u32 (fn_BodyStart f) \<and>
     u32 (fn_BodyEnd f - fn_BodyStart f) \<and>
     u32 (fn_EndTok f - fn_BodyEnd f)"

definition encodeFuncs :: "Func list \<Rightarrow> bytes" where
  "encodeFuncs = encodeTable appendFuncRow"

definition decodeFuncs :: "bytes \<Rightarrow> go_error + Func list" where
  "decodeFuncs =
     decodeTable (Errorf ''invalid func count'' []) (Errorf ''trailing func data'' []) decodeFuncRow"

lemmas Func_row =
  enc_def[of appendFuncRow] appendFuncRow_def decodeFuncRow_def wf_Func_def Let_def

interpretation func: row_codec appendFuncRow decodeFuncRow wf_Func
proof
  show "appendFuncRow out x = out @ enc appendFuncRow x" for out x
    by (simp add: Func_row codec_out)
  show "decodeFuncRow i data pos = Inr (x, pos + length (enc appendFuncRow x))"
    if "drop pos data = enc appendFuncRow x @ rest" "wf_Func x" for data pos x rest i
    using that by (cases x) (simp add: Func_row codec_complete del: drop_drop)
  show "wf_Func x \<and> reads data pos (enc appendFuncRow x) n"
    if "decodeFuncRow i data pos = Inr (x, n)" for data pos x i n
    using that by (auto simp: Func_row codec_sound split: if_splits dest: flag_zero intro!: reads_append)
qed

lemma decodeFuncs_iff:
  "decodeFuncs data = Inr xs \<longleftrightarrow>
     list_all wf_Func xs \<and> u32 (int (length xs)) \<and> data = encodeFuncs xs"
  unfolding decodeFuncs_def encodeFuncs_def by (rule func.table_iff)

subsection \<open>\<open>FuncSignature\<close>\<close>

record FuncSignature =
  sig_FuncIndex :: int
  sig_Receiver :: "Field list"
  sig_Params :: "Field list"
  sig_Results :: "Field list"

definition appendFuncSignatureRow :: "bytes \<Rightarrow> FuncSignature \<Rightarrow> bytes" where
  "appendFuncSignatureRow out sig =
     (let out = appendVarint out (sig_FuncIndex sig);
          out = appendFieldList out (sig_Receiver sig);
          out = appendFieldList out (sig_Params sig);
          out = appendFieldList out (sig_Results sig)
      in out)"

definition decodeFuncSignatureRow :: "nat \<Rightarrow> bytes \<Rightarrow> nat \<Rightarrow> go_error + (FuncSignature \<times> nat)" where
  "decodeFuncSignatureRow i data pos =
     need (readVarint data pos) (Errorf ''invalid signature %d func'' [int i]) (\<lambda>(funcIndex, pos).
     need (readFieldList data pos) (Errorf ''invalid signature %d receiver'' [int i]) (\<lambda>(receiver, pos).
     need (readFieldList data pos) (Errorf ''invalid signature %d params'' [int i]) (\<lambda>(params, pos).
     need (readFieldList data pos) (Errorf ''invalid signature %d results'' [int i]) (\<lambda>(results, pos).
     Inr (\<lparr>sig_FuncIndex = funcIndex, sig_Receiver = receiver, sig_Params = params,
           sig_Results = results\<rparr>, pos)))))"

definition wf_FuncSignature :: "FuncSignature \<Rightarrow> bool" where
  "wf_FuncSignature sig \<longleftrightarrow>
     u32 (sig_FuncIndex sig) \<and>
     wf_fields (sig_Receiver sig) \<and>
     wf_fields (sig_Params sig) \<and>
     wf_fields (sig_Results sig)"

definition encodeSignatures :: "FuncSignature list \<Rightarrow> bytes" where
  "encodeSignatures = encodeTable appendFuncSignatureRow"

definition decodeSignatures :: "bytes \<Rightarrow> go_error + FuncSignature list" where
  "decodeSignatures =
     decodeTable (Errorf ''invalid signature count'' []) (Errorf ''trailing signature data'' []) decodeFuncSignatureRow"

lemmas FuncSignature_row =
  enc_def[of appendFuncSignatureRow] appendFuncSignatureRow_def decodeFuncSignatureRow_def wf_FuncSignature_def Let_def

interpretation funcSignature: row_codec appendFuncSignatureRow decodeFuncSignatureRow wf_FuncSignature
proof
  show "appendFuncSignatureRow out x = out @ enc appendFuncSignatureRow x" for out x
    by (simp add: FuncSignature_row codec_out)
  show "decodeFuncSignatureRow i data pos = Inr (x, pos + length (enc appendFuncSignatureRow x))"
    if "drop pos data = enc appendFuncSignatureRow x @ rest" "wf_FuncSignature x" for data pos x rest i
    using that by (cases x) (simp add: FuncSignature_row codec_complete del: drop_drop)
  show "wf_FuncSignature x \<and> reads data pos (enc appendFuncSignatureRow x) n"
    if "decodeFuncSignatureRow i data pos = Inr (x, n)" for data pos x i n
    using that by (auto simp: FuncSignature_row codec_sound split: if_splits dest: flag_zero intro!: reads_append)
qed

lemma decodeSignatures_iff:
  "decodeSignatures data = Inr xs \<longleftrightarrow>
     list_all wf_FuncSignature xs \<and> u32 (int (length xs)) \<and> data = encodeSignatures xs"
  unfolding decodeSignatures_def encodeSignatures_def by (rule funcSignature.table_iff)

subsection \<open>\<open>PackageInfo\<close>\<close>

record PackageInfo =
  pkg_Name :: gostring
  pkg_ImportPath :: gostring
  pkg_GraphKeyA :: int
  pkg_GraphKeyB :: int
  pkg_SourceKeyA :: int
  pkg_SourceKeyB :: int
  pkg_TextStart :: int
  pkg_TextEnd :: int
  pkg_TokenStart :: int
  pkg_TokenEnd :: int
  pkg_DeclStart :: int
  pkg_DeclEnd :: int
  pkg_FuncStart :: int
  pkg_FuncEnd :: int

definition appendPackageInfoRow :: "bytes \<Rightarrow> PackageInfo \<Rightarrow> bytes" where
  "appendPackageInfoRow out item =
     (let out = appendString out (pkg_Name item);
          out = appendString out (pkg_ImportPath item);
          out = appendFixed32 out (pkg_GraphKeyA item);
          out = appendFixed32 out (pkg_GraphKeyB item);
          out = appendFixed32 out (pkg_SourceKeyA item);
          out = appendFixed32 out (pkg_SourceKeyB item);
          out = appendVarint out (pkg_TextStart item);
          out = appendVarint out (pkg_TextEnd item - pkg_TextStart item);
          out = appendVarint out (pkg_TokenStart item);
          out = appendVarint out (pkg_TokenEnd item - pkg_TokenStart item);
          out = appendVarint out (pkg_DeclStart item);
          out = appendVarint out (pkg_DeclEnd item - pkg_DeclStart item);
          out = appendVarint out (pkg_FuncStart item);
          out = appendVarint out (pkg_FuncEnd item - pkg_FuncStart item)
      in out)"

definition decodePackageInfoRow :: "nat \<Rightarrow> bytes \<Rightarrow> nat \<Rightarrow> go_error + (PackageInfo \<times> nat)" where
  "decodePackageInfoRow i data pos =
     need (readString data pos) (Errorf ''invalid package ownership name'' []) (\<lambda>(name, nxt).
     need (readString data nxt) (Errorf ''invalid package ownership path'' []) (\<lambda>(path, nextPath).
     if nextPath + 16 > length data then Inl (Errorf ''invalid package ownership path'' []) else
     let graphKeyA = le32 data nextPath;
         graphKeyB = le32 data (nextPath + 4);
         sourceKeyA = le32 data (nextPath + 8);
         sourceKeyB = le32 data (nextPath + 12);
         pos = nextPath + 16
     in
     need (readVarint data pos) (Errorf ''invalid package ownership range'' []) (\<lambda>(textStart, pos).
     need (readVarint data pos) (Errorf ''invalid package ownership range'' []) (\<lambda>(textLength, pos).
     need (readVarint data pos) (Errorf ''invalid package ownership range'' []) (\<lambda>(tokenStart, pos).
     need (readVarint data pos) (Errorf ''invalid package ownership range'' []) (\<lambda>(tokenLength, pos).
     need (readVarint data pos) (Errorf ''invalid package ownership range'' []) (\<lambda>(declStart, pos).
     need (readVarint data pos) (Errorf ''invalid package ownership range'' []) (\<lambda>(declLength, pos).
     need (readVarint data pos) (Errorf ''invalid package ownership range'' []) (\<lambda>(funcStart, pos).
     need (readVarint data pos) (Errorf ''invalid package ownership range'' []) (\<lambda>(funcLength, pos).
     Inr (\<lparr>pkg_Name = name, pkg_ImportPath = path, pkg_GraphKeyA = graphKeyA, pkg_GraphKeyB = graphKeyB,
            pkg_SourceKeyA = sourceKeyA, pkg_SourceKeyB = sourceKeyB, pkg_TextStart = textStart,
            pkg_TextEnd = textStart + textLength, pkg_TokenStart = tokenStart,
            pkg_TokenEnd = tokenStart + tokenLength, pkg_DeclStart = declStart,
            pkg_DeclEnd = declStart + declLength, pkg_FuncStart = funcStart,
            pkg_FuncEnd = funcStart + funcLength\<rparr>, pos)))))))))))"

definition wf_PackageInfo :: "PackageInfo \<Rightarrow> bool" where
  "wf_PackageInfo item \<longleftrightarrow>
     u32 (int (length (pkg_Name item))) \<and> u32 (int (length (pkg_ImportPath item))) \<and>
     u32 (pkg_GraphKeyA item) \<and> u32 (pkg_GraphKeyB item) \<and> u32 (pkg_SourceKeyA item) \<and> u32 (pkg_SourceKeyB item) \<and>
     u32 (pkg_TextStart item) \<and> u32 (pkg_TextEnd item - pkg_TextStart item) \<and>
     u32 (pkg_TokenStart item) \<and> u32 (pkg_TokenEnd item - pkg_TokenStart item) \<and>
     u32 (pkg_DeclStart item) \<and> u32 (pkg_DeclEnd item - pkg_DeclStart item) \<and>
     u32 (pkg_FuncStart item) \<and> u32 (pkg_FuncEnd item - pkg_FuncStart item)"

definition encodePackages :: "PackageInfo list \<Rightarrow> bytes" where
  "encodePackages = encodeTable appendPackageInfoRow"

definition decodePackages :: "bytes \<Rightarrow> go_error + PackageInfo list" where
  "decodePackages =
     decodeTable (Errorf ''invalid package ownership count'' []) (Errorf ''trailing package ownership data'' []) decodePackageInfoRow"

lemma decodePackageInfoRow_fixed32:
  "decodePackageInfoRow i data pos =
     need (readString data pos) (Errorf ''invalid package ownership name'' []) (\<lambda>(name, pos).
     need (readString data pos) (Errorf ''invalid package ownership path'' []) (\<lambda>(path, pos).
     need (readFixed32 data pos) (Errorf ''invalid package ownership path'' []) (\<lambda>(graphKeyA, pos).
     need (readFixed32 data pos) (Errorf ''invalid package ownership path'' []) (\<lambda>(graphKeyB, pos).
     need (readFixed32 data pos) (Errorf ''invalid package ownership path'' []) (\<lambda>(sourceKeyA, pos).
     need (readFixed32 data pos) (Errorf ''invalid package ownership path'' []) (\<lambda>(sourceKeyB, pos).
     need (readVarint data pos) (Errorf ''invalid package ownership range'' []) (\<lambda>(textStart, pos).
     need (readVarint data pos) (Errorf ''invalid package ownership range'' []) (\<lambda>(textLength, pos).
     need (readVarint data pos) (Errorf ''invalid package ownership range'' []) (\<lambda>(tokenStart, pos).
     need (readVarint data pos) (Errorf ''invalid package ownership range'' []) (\<lambda>(tokenLength, pos).
     need (readVarint data pos) (Errorf ''invalid package ownership range'' []) (\<lambda>(declStart, pos).
     need (readVarint data pos) (Errorf ''invalid package ownership range'' []) (\<lambda>(declLength, pos).
     need (readVarint data pos) (Errorf ''invalid package ownership range'' []) (\<lambda>(funcStart, pos).
     need (readVarint data pos) (Errorf ''invalid package ownership range'' []) (\<lambda>(funcLength, pos).
     Inr (\<lparr>pkg_Name = name, pkg_ImportPath = path, pkg_GraphKeyA = graphKeyA, pkg_GraphKeyB = graphKeyB,
            pkg_SourceKeyA = sourceKeyA, pkg_SourceKeyB = sourceKeyB, pkg_TextStart = textStart,
            pkg_TextEnd = textStart + textLength, pkg_TokenStart = tokenStart,
            pkg_TokenEnd = tokenStart + tokenLength, pkg_DeclStart = declStart,
            pkg_DeclEnd = declStart + declLength, pkg_FuncStart = funcStart,
            pkg_FuncEnd = funcStart + funcLength\<rparr>, pos)))))))))))))))"
  unfolding decodePackageInfoRow_def readFixed32_four Let_def ..

lemmas PackageInfo_row =
  enc_def[of appendPackageInfoRow] appendPackageInfoRow_def decodePackageInfoRow_fixed32 wf_PackageInfo_def Let_def

interpretation packageInfo: row_codec appendPackageInfoRow decodePackageInfoRow wf_PackageInfo
proof
  show "appendPackageInfoRow out x = out @ enc appendPackageInfoRow x" for out x
    by (simp add: PackageInfo_row codec_out)
  show "decodePackageInfoRow i data pos = Inr (x, pos + length (enc appendPackageInfoRow x))"
    if "drop pos data = enc appendPackageInfoRow x @ rest" "wf_PackageInfo x" for data pos x rest i
    using that by (cases x) (simp add: PackageInfo_row codec_complete del: drop_drop)
  show "wf_PackageInfo x \<and> reads data pos (enc appendPackageInfoRow x) n"
    if "decodePackageInfoRow i data pos = Inr (x, n)" for data pos x i n
    using that by (auto simp: PackageInfo_row codec_sound split: if_splits dest: flag_zero intro!: reads_append)
qed

lemma decodePackages_iff:
  "decodePackages data = Inr xs \<longleftrightarrow>
     list_all wf_PackageInfo xs \<and> u32 (int (length xs)) \<and> data = encodePackages xs"
  unfolding decodePackages_def encodePackages_def by (rule packageInfo.table_iff)

end
