(* ===== verification/Unit_Sem_Tables.thy ===== *)
theory Unit_Sem_Tables
  imports Unit_Tables
begin

text \<open>
  The tables of \<open>backend/unit/unit.go\<close> that describe the bodies of a unit: statements, types with
  their fields, interfaces and signatures, methods, type references, locals, index and composite
  expressions, assignments, returns, calls, name references and selectors.
\<close>

subsection \<open>\<open>Statement\<close>\<close>

record Statement =
  stmt_FuncIndex :: int
  stmt_Kind :: int
  stmt_StartTok :: int
  stmt_EndTok :: int
  stmt_ExprStart :: int
  stmt_ExprEnd :: int
  stmt_BodyStart :: int
  stmt_BodyEnd :: int
  stmt_ElseStart :: int
  stmt_ElseEnd :: int

definition appendStatementRow :: "bytes \<Rightarrow> Statement \<Rightarrow> bytes" where
  "appendStatementRow out stmt =
     (let out = appendVarint out (stmt_FuncIndex stmt);
          out = appendVarint out (stmt_Kind stmt);
          out = appendVarint out (stmt_StartTok stmt);
          out = appendVarint out (stmt_EndTok stmt - stmt_StartTok stmt);
          out = appendNullableSpan out (stmt_ExprStart stmt, stmt_ExprEnd stmt);
          out = appendNullableSpan out (stmt_BodyStart stmt, stmt_BodyEnd stmt);
          out = appendNullableSpan out (stmt_ElseStart stmt, stmt_ElseEnd stmt)
      in out)"

definition decodeStatementRow :: "nat \<Rightarrow> bytes \<Rightarrow> nat \<Rightarrow> go_error + (Statement \<times> nat)" where
  "decodeStatementRow i data pos =
     need (readVarint data pos) (Errorf ''invalid statement %d func'' [int i]) (\<lambda>(funcIndex, pos).
     need (readVarint data pos) (Errorf ''invalid statement %d kind'' [int i]) (\<lambda>(kind, pos).
     need (readVarint data pos) (Errorf ''invalid statement %d start'' [int i]) (\<lambda>(startTok, pos).
     need (readVarint data pos) (Errorf ''invalid statement %d end'' [int i]) (\<lambda>(tokCount, pos).
     need (readNullableSpan data pos) (Errorf ''invalid statement %d expr'' [int i]) (\<lambda>((exprStart, exprEnd), pos).
     need (readNullableSpan data pos) (Errorf ''invalid statement %d body'' [int i]) (\<lambda>((bodyStart, bodyEnd), pos).
     need (readNullableSpan data pos) (Errorf ''invalid statement %d else'' [int i]) (\<lambda>((elseStart, elseEnd), pos).
     Inr (\<lparr>stmt_FuncIndex = funcIndex, stmt_Kind = kind, stmt_StartTok = startTok,
           stmt_EndTok = startTok + tokCount, stmt_ExprStart = exprStart,
           stmt_ExprEnd = exprEnd, stmt_BodyStart = bodyStart, stmt_BodyEnd = bodyEnd,
           stmt_ElseStart = elseStart, stmt_ElseEnd = elseEnd\<rparr>, pos))))))))"

definition wf_Statement :: "Statement \<Rightarrow> bool" where
  "wf_Statement stmt \<longleftrightarrow>
     u32 (stmt_FuncIndex stmt) \<and>
     u32 (stmt_Kind stmt) \<and>
     u32 (stmt_StartTok stmt) \<and>
     u32 (stmt_EndTok stmt - stmt_StartTok stmt) \<and>
     nullable_span32 (stmt_ExprStart stmt) (stmt_ExprEnd stmt) \<and>
     nullable_span32 (stmt_BodyStart stmt) (stmt_BodyEnd stmt) \<and>
     nullable_span32 (stmt_ElseStart stmt) (stmt_ElseEnd stmt)"

definition encodeStatements :: "Statement list \<Rightarrow> bytes" where
  "encodeStatements = encodeTable appendStatementRow"

definition decodeStatements :: "bytes \<Rightarrow> go_error + Statement list" where
  "decodeStatements =
     decodeTable (Errorf ''invalid statement count'' []) (Errorf ''trailing statement data'' []) decodeStatementRow"

lemmas Statement_row =
  enc_def[of appendStatementRow] appendStatementRow_def decodeStatementRow_def wf_Statement_def Let_def

interpretation statement: row_codec appendStatementRow decodeStatementRow wf_Statement
proof
  show "appendStatementRow out x = out @ enc appendStatementRow x" for out x
    by (simp add: Statement_row codec_out)
  show "decodeStatementRow i data pos = Inr (x, pos + length (enc appendStatementRow x))"
    if "drop pos data = enc appendStatementRow x @ rest" "wf_Statement x" for data pos x rest i
    using that by (cases x) (simp add: Statement_row codec_complete del: drop_drop)
  show "wf_Statement x \<and> reads data pos (enc appendStatementRow x) n"
    if "decodeStatementRow i data pos = Inr (x, n)" for data pos x i n
    using that by (auto simp: Statement_row codec_sound split: if_splits dest: flag_zero intro!: reads_append)
qed

lemma decodeStatements_iff:
  "decodeStatements data = Inr xs \<longleftrightarrow>
     list_all wf_Statement xs \<and> u32 (int (length xs)) \<and> data = encodeStatements xs"
  unfolding decodeStatements_def encodeStatements_def by (rule statement.table_iff)

subsection \<open>\<open>TypeInfo\<close>\<close>

record TypeInfo =
  typ_NameStart :: int
  typ_NameEnd :: int
  typ_Kind :: int
  typ_Decl :: int
  typ_Symbol :: int
  typ_Alias :: bool
  typ_TypeStart :: int
  typ_TypeEnd :: int
  typ_LenStart :: int
  typ_LenEnd :: int
  typ_KeyStart :: int
  typ_KeyEnd :: int
  typ_ElemStart :: int
  typ_ElemEnd :: int

definition appendTypeInfoRow :: "bytes \<Rightarrow> TypeInfo \<Rightarrow> bytes" where
  "appendTypeInfoRow out t =
     (let out = appendVarint out (typ_Kind t);
          out = appendVarint out (typ_NameStart t);
          out = appendVarint out (typ_NameEnd t - typ_NameStart t);
          out = appendVarint out (typ_Decl t);
          out = appendNullable out (typ_Symbol t);
          out = appendFlag out (typ_Alias t);
          out = appendNullableSpan out (typ_TypeStart t, typ_TypeEnd t);
          out = appendNullableSpan out (typ_LenStart t, typ_LenEnd t);
          out = appendNullableSpan out (typ_KeyStart t, typ_KeyEnd t);
          out = appendNullableSpan out (typ_ElemStart t, typ_ElemEnd t)
      in out)"

definition decodeTypeInfoRow :: "nat \<Rightarrow> bytes \<Rightarrow> nat \<Rightarrow> go_error + (TypeInfo \<times> nat)" where
  "decodeTypeInfoRow i data pos =
     need (readVarint data pos) (Errorf ''invalid type %d kind'' [int i]) (\<lambda>(kind, pos).
     need (readVarint data pos) (Errorf ''invalid type %d name'' [int i]) (\<lambda>(nameStart, pos).
     need (readVarint data pos) (Errorf ''invalid type %d name size'' [int i]) (\<lambda>(nameCount, pos).
     need (readVarint data pos) (Errorf ''invalid type %d decl'' [int i]) (\<lambda>(decl, pos).
     need (readNullable data pos) (Errorf ''invalid type %d symbol'' [int i]) (\<lambda>(symbol, pos).
     need (readVarint data pos) (Errorf ''invalid type %d alias'' [int i]) (\<lambda>(aliasValue, pos).
     if aliasValue > 1 then Inl (Errorf ''invalid type %d alias'' [int i]) else
     need (readNullableSpan data pos) (Errorf ''invalid type %d type span'' [int i]) (\<lambda>((typeStart, typeEnd), pos).
     need (readNullableSpan data pos) (Errorf ''invalid type %d length span'' [int i]) (\<lambda>((lenStart, lenEnd), pos).
     need (readNullableSpan data pos) (Errorf ''invalid type %d key span'' [int i]) (\<lambda>((keyStart, keyEnd), pos).
     need (readNullableSpan data pos) (Errorf ''invalid type %d element span'' [int i]) (\<lambda>((elemStart, elemEnd), pos).
     Inr (\<lparr>typ_NameStart = nameStart, typ_NameEnd = nameStart + nameCount,
           typ_Kind = kind, typ_Decl = decl, typ_Symbol = symbol,
           typ_Alias = (aliasValue = 1), typ_TypeStart = typeStart,
           typ_TypeEnd = typeEnd, typ_LenStart = lenStart, typ_LenEnd = lenEnd,
           typ_KeyStart = keyStart, typ_KeyEnd = keyEnd, typ_ElemStart = elemStart,
           typ_ElemEnd = elemEnd\<rparr>, pos)))))))))))"

definition wf_TypeInfo :: "TypeInfo \<Rightarrow> bool" where
  "wf_TypeInfo t \<longleftrightarrow>
     u32 (typ_Kind t) \<and>
     u32 (typ_NameStart t) \<and>
     u32 (typ_NameEnd t - typ_NameStart t) \<and>
     u32 (typ_Decl t) \<and>
     nullable32 (typ_Symbol t) \<and>
     nullable_span32 (typ_TypeStart t) (typ_TypeEnd t) \<and>
     nullable_span32 (typ_LenStart t) (typ_LenEnd t) \<and>
     nullable_span32 (typ_KeyStart t) (typ_KeyEnd t) \<and>
     nullable_span32 (typ_ElemStart t) (typ_ElemEnd t)"

definition encodeTypes :: "TypeInfo list \<Rightarrow> bytes" where
  "encodeTypes = encodeTable appendTypeInfoRow"

definition decodeTypes :: "bytes \<Rightarrow> go_error + TypeInfo list" where
  "decodeTypes =
     decodeTable (Errorf ''invalid type count'' []) (Errorf ''trailing type data'' []) decodeTypeInfoRow"

lemmas TypeInfo_row =
  enc_def[of appendTypeInfoRow] appendTypeInfoRow_def decodeTypeInfoRow_def wf_TypeInfo_def Let_def

interpretation typeInfo: row_codec appendTypeInfoRow decodeTypeInfoRow wf_TypeInfo
proof
  show "appendTypeInfoRow out x = out @ enc appendTypeInfoRow x" for out x
    by (simp add: TypeInfo_row codec_out)
  show "decodeTypeInfoRow i data pos = Inr (x, pos + length (enc appendTypeInfoRow x))"
    if "drop pos data = enc appendTypeInfoRow x @ rest" "wf_TypeInfo x" for data pos x rest i
    using that by (cases x) (simp add: TypeInfo_row codec_complete del: drop_drop)
  show "wf_TypeInfo x \<and> reads data pos (enc appendTypeInfoRow x) n"
    if "decodeTypeInfoRow i data pos = Inr (x, n)" for data pos x i n
    using that by (auto simp: TypeInfo_row codec_sound split: if_splits dest: flag_zero intro!: reads_append)
qed

lemma decodeTypes_iff:
  "decodeTypes data = Inr xs \<longleftrightarrow>
     list_all wf_TypeInfo xs \<and> u32 (int (length xs)) \<and> data = encodeTypes xs"
  unfolding decodeTypes_def encodeTypes_def by (rule typeInfo.table_iff)

subsection \<open>\<open>TypeFields\<close>\<close>

record TypeFields =
  tf_TypeIndex :: int
  tf_Fields :: "Field list"

definition appendTypeFieldsRow :: "bytes \<Rightarrow> TypeFields \<Rightarrow> bytes" where
  "appendTypeFieldsRow out row =
     (let out = appendVarint out (tf_TypeIndex row);
          out = appendFieldList out (tf_Fields row)
      in out)"

definition decodeTypeFieldsRow :: "nat \<Rightarrow> bytes \<Rightarrow> nat \<Rightarrow> go_error + (TypeFields \<times> nat)" where
  "decodeTypeFieldsRow i data pos =
     need (readVarint data pos) (Errorf ''invalid type field %d type'' [int i]) (\<lambda>(typeIndex, pos).
     need (readFieldList data pos) (Errorf ''invalid type field %d fields'' [int i]) (\<lambda>(fields, pos).
     Inr (\<lparr>tf_TypeIndex = typeIndex, tf_Fields = fields\<rparr>, pos)))"

definition wf_TypeFields :: "TypeFields \<Rightarrow> bool" where
  "wf_TypeFields row \<longleftrightarrow>
     u32 (tf_TypeIndex row) \<and>
     wf_fields (tf_Fields row)"

definition encodeTypeFields :: "TypeFields list \<Rightarrow> bytes" where
  "encodeTypeFields = encodeTable appendTypeFieldsRow"

definition decodeTypeFields :: "bytes \<Rightarrow> go_error + TypeFields list" where
  "decodeTypeFields =
     decodeTable (Errorf ''invalid type field count'' []) (Errorf ''trailing type field data'' []) decodeTypeFieldsRow"

lemmas TypeFields_row =
  enc_def[of appendTypeFieldsRow] appendTypeFieldsRow_def decodeTypeFieldsRow_def wf_TypeFields_def Let_def

interpretation typeFields: row_codec appendTypeFieldsRow decodeTypeFieldsRow wf_TypeFields
proof
  show "appendTypeFieldsRow out x = out @ enc appendTypeFieldsRow x" for out x
    by (simp add: TypeFields_row codec_out)
  show "decodeTypeFieldsRow i data pos = Inr (x, pos + length (enc appendTypeFieldsRow x))"
    if "drop pos data = enc appendTypeFieldsRow x @ rest" "wf_TypeFields x" for data pos x rest i
    using that by (cases x) (simp add: TypeFields_row codec_complete del: drop_drop)
  show "wf_TypeFields x \<and> reads data pos (enc appendTypeFieldsRow x) n"
    if "decodeTypeFieldsRow i data pos = Inr (x, n)" for data pos x i n
    using that by (auto simp: TypeFields_row codec_sound split: if_splits dest: flag_zero intro!: reads_append)
qed

lemma decodeTypeFields_iff:
  "decodeTypeFields data = Inr xs \<longleftrightarrow>
     list_all wf_TypeFields xs \<and> u32 (int (length xs)) \<and> data = encodeTypeFields xs"
  unfolding decodeTypeFields_def encodeTypeFields_def by (rule typeFields.table_iff)

subsection \<open>\<open>TypeIface\<close>\<close>

record InterfaceEmbed =
  emb_TypeStart :: int
  emb_TypeEnd :: int

record InterfaceMethod =
  im_NameTok :: int
  im_Params :: "Field list"
  im_Results :: "Field list"

record TypeIface =
  ti_TypeIndex :: int
  ti_Methods :: "InterfaceMethod list"
  ti_Embeds :: "InterfaceEmbed list"

definition appendInterfaceEmbedRow :: "bytes \<Rightarrow> InterfaceEmbed \<Rightarrow> bytes" where
  "appendInterfaceEmbedRow out emb =
     (let out = appendVarint out (emb_TypeStart emb);
          out = appendVarint out (emb_TypeEnd emb - emb_TypeStart emb)
      in out)"

definition decodeInterfaceEmbedRow ::
  "nat \<Rightarrow> nat \<Rightarrow> bytes \<Rightarrow> nat \<Rightarrow> go_error + (InterfaceEmbed \<times> nat)" where
  "decodeInterfaceEmbedRow i j data pos =
     need (readVarint data pos) (Errorf ''invalid type interface %d embed %d start'' [int i, int j]) (\<lambda>(typeStart, pos).
     need (readVarint data pos) (Errorf ''invalid type interface %d embed %d size'' [int i, int j]) (\<lambda>(typeCount, pos).
     Inr (\<lparr>emb_TypeStart = typeStart, emb_TypeEnd = typeStart + typeCount\<rparr>, pos)))"

definition wf_InterfaceEmbed :: "InterfaceEmbed \<Rightarrow> bool" where
  "wf_InterfaceEmbed emb \<longleftrightarrow>
     u32 (emb_TypeStart emb) \<and> u32 (emb_TypeEnd emb - emb_TypeStart emb)"

definition appendInterfaceMethodRow :: "bytes \<Rightarrow> InterfaceMethod \<Rightarrow> bytes" where
  "appendInterfaceMethodRow out mth =
     (let out = appendVarint out (im_NameTok mth);
          out = appendFieldList out (im_Params mth);
          out = appendFieldList out (im_Results mth)
      in out)"

definition decodeInterfaceMethodRow ::
  "nat \<Rightarrow> nat \<Rightarrow> bytes \<Rightarrow> nat \<Rightarrow> go_error + (InterfaceMethod \<times> nat)" where
  "decodeInterfaceMethodRow i j data pos =
     need (readVarint data pos) (Errorf ''invalid type interface %d method %d name'' [int i, int j]) (\<lambda>(nameTok, pos).
     need (readFieldList data pos) (Errorf ''invalid type interface %d method %d params'' [int i, int j]) (\<lambda>(params, pos).
     need (readFieldList data pos) (Errorf ''invalid type interface %d method %d results'' [int i, int j]) (\<lambda>(results, pos).
     Inr (\<lparr>im_NameTok = nameTok, im_Params = params, im_Results = results\<rparr>, pos))))"

definition wf_InterfaceMethod :: "InterfaceMethod \<Rightarrow> bool" where
  "wf_InterfaceMethod mth \<longleftrightarrow>
     u32 (im_NameTok mth) \<and> wf_fields (im_Params mth) \<and> wf_fields (im_Results mth)"

definition appendTypeIfaceRow :: "bytes \<Rightarrow> TypeIface \<Rightarrow> bytes" where
  "appendTypeIfaceRow out row =
     (let out = appendVarint out (ti_TypeIndex row);
          out = appendList appendInterfaceEmbedRow out (ti_Embeds row);
          out = appendList appendInterfaceMethodRow out (ti_Methods row)
      in out)"

definition decodeTypeIfaceRow :: "nat \<Rightarrow> bytes \<Rightarrow> nat \<Rightarrow> go_error + (TypeIface \<times> nat)" where
  "decodeTypeIfaceRow i data pos =
     need (readVarint data pos) (Errorf ''invalid type interface %d type'' [int i]) (\<lambda>(typeIndex, pos).
     attempt (readCounted (Errorf ''invalid type interface %d embed count'' [int i])
       (decodeInterfaceEmbedRow i) data pos) (\<lambda>(embeds, pos).
     attempt (readCounted (Errorf ''invalid type interface %d method count'' [int i])
       (decodeInterfaceMethodRow i) data pos) (\<lambda>(methods, pos).
     Inr (\<lparr>ti_TypeIndex = typeIndex, ti_Methods = methods, ti_Embeds = embeds\<rparr>, pos))))"

definition wf_TypeIface :: "TypeIface \<Rightarrow> bool" where
  "wf_TypeIface row \<longleftrightarrow>
     u32 (ti_TypeIndex row) \<and>
     (list_all wf_InterfaceEmbed (ti_Embeds row) \<and> u32 (int (length (ti_Embeds row)))) \<and>
     (list_all wf_InterfaceMethod (ti_Methods row) \<and> u32 (int (length (ti_Methods row))))"

definition encodeTypeInterfaces :: "TypeIface list \<Rightarrow> bytes" where
  "encodeTypeInterfaces = encodeTable appendTypeIfaceRow"

definition decodeTypeInterfaces :: "bytes \<Rightarrow> go_error + TypeIface list" where
  "decodeTypeInterfaces =
     decodeTable (Errorf ''invalid type interface count'' []) (Errorf ''trailing type interface data'' []) decodeTypeIfaceRow"

lemmas InterfaceEmbed_row =
  enc_def[of appendInterfaceEmbedRow] appendInterfaceEmbedRow_def decodeInterfaceEmbedRow_def wf_InterfaceEmbed_def Let_def

interpretation interfaceEmbed: row_codec appendInterfaceEmbedRow "decodeInterfaceEmbedRow i" wf_InterfaceEmbed for i
proof
  show "appendInterfaceEmbedRow out x = out @ enc appendInterfaceEmbedRow x" for out x
    by (simp add: InterfaceEmbed_row codec_out)
  show "decodeInterfaceEmbedRow i j data pos = Inr (x, pos + length (enc appendInterfaceEmbedRow x))"
    if "drop pos data = enc appendInterfaceEmbedRow x @ rest" "wf_InterfaceEmbed x" for data pos x rest j
    using that by (cases x) (simp add: InterfaceEmbed_row codec_complete del: drop_drop)
  show "wf_InterfaceEmbed x \<and> reads data pos (enc appendInterfaceEmbedRow x) n"
    if "decodeInterfaceEmbedRow i j data pos = Inr (x, n)" for data pos x j n
    using that by (auto simp: InterfaceEmbed_row codec_sound split: if_splits intro!: reads_append)
qed

interpretation interfaceEmbeds: codec "appendList appendInterfaceEmbedRow" "readList (decodeInterfaceEmbedRow i)"
  "\<lambda>xs. list_all wf_InterfaceEmbed xs \<and> u32 (int (length xs))" for i
  by (rule interfaceEmbed.list_codec)

lemmas InterfaceMethod_row =
  enc_def[of appendInterfaceMethodRow] appendInterfaceMethodRow_def decodeInterfaceMethodRow_def wf_InterfaceMethod_def Let_def

interpretation interfaceMethod: row_codec appendInterfaceMethodRow "decodeInterfaceMethodRow i" wf_InterfaceMethod for i
proof
  show "appendInterfaceMethodRow out x = out @ enc appendInterfaceMethodRow x" for out x
    by (simp add: InterfaceMethod_row codec_out)
  show "decodeInterfaceMethodRow i j data pos = Inr (x, pos + length (enc appendInterfaceMethodRow x))"
    if "drop pos data = enc appendInterfaceMethodRow x @ rest" "wf_InterfaceMethod x" for data pos x rest j
    using that by (cases x) (simp add: InterfaceMethod_row codec_complete del: drop_drop)
  show "wf_InterfaceMethod x \<and> reads data pos (enc appendInterfaceMethodRow x) n"
    if "decodeInterfaceMethodRow i j data pos = Inr (x, n)" for data pos x j n
    using that by (auto simp: InterfaceMethod_row codec_sound split: if_splits intro!: reads_append)
qed

interpretation interfaceMethods: codec "appendList appendInterfaceMethodRow" "readList (decodeInterfaceMethodRow i)"
  "\<lambda>xs. list_all wf_InterfaceMethod xs \<and> u32 (int (length xs))" for i
  by (rule interfaceMethod.list_codec)

lemmas TypeIface_row =
  enc_def[of appendTypeIfaceRow] appendTypeIfaceRow_def decodeTypeIfaceRow_def wf_TypeIface_def Let_def

interpretation typeIface: row_codec appendTypeIfaceRow decodeTypeIfaceRow wf_TypeIface
proof
  show "appendTypeIfaceRow out x = out @ enc appendTypeIfaceRow x" for out x
    by (simp add: TypeIface_row codec_out interfaceEmbeds.app_out interfaceMethods.app_out)
  show "decodeTypeIfaceRow i data pos = Inr (x, pos + length (enc appendTypeIfaceRow x))"
    if "drop pos data = enc appendTypeIfaceRow x @ rest" "wf_TypeIface x" for data pos x rest i
    using that by (cases x) (simp add: TypeIface_row codec_complete readCounted_eq
      interfaceEmbeds.rd_scan interfaceEmbeds.scan_enc[OF conjI] interfaceEmbeds.app_out interfaceMethods.rd_scan interfaceMethods.scan_enc[OF conjI] interfaceMethods.app_out del: drop_drop)
  show "wf_TypeIface x \<and> reads data pos (enc appendTypeIfaceRow x) n"
    if "decodeTypeIfaceRow i data pos = Inr (x, n)" for data pos x i n
    using that by (auto simp: TypeIface_row codec_sound attempt_Inr readCounted_readList
      interfaceEmbeds.rd_reads interfaceEmbeds.app_out interfaceMethods.rd_reads interfaceMethods.app_out split: if_splits dest: flag_zero intro!: reads_append)
qed

lemma decodeTypeInterfaces_iff:
  "decodeTypeInterfaces data = Inr xs \<longleftrightarrow>
     list_all wf_TypeIface xs \<and> u32 (int (length xs)) \<and> data = encodeTypeInterfaces xs"
  unfolding decodeTypeInterfaces_def encodeTypeInterfaces_def by (rule typeIface.table_iff)

subsection \<open>\<open>TypeFuncSig\<close>\<close>

record TypeFuncSig =
  tfs_TypeIndex :: int
  tfs_Params :: "Field list"
  tfs_Results :: "Field list"

definition appendTypeFuncSigRow :: "bytes \<Rightarrow> TypeFuncSig \<Rightarrow> bytes" where
  "appendTypeFuncSigRow out row =
     (let out = appendVarint out (tfs_TypeIndex row);
          out = appendFieldList out (tfs_Params row);
          out = appendFieldList out (tfs_Results row)
      in out)"

definition decodeTypeFuncSigRow :: "nat \<Rightarrow> bytes \<Rightarrow> nat \<Rightarrow> go_error + (TypeFuncSig \<times> nat)" where
  "decodeTypeFuncSigRow i data pos =
     need (readVarint data pos) (Errorf ''invalid type func %d type'' [int i]) (\<lambda>(typeIndex, pos).
     need (readFieldList data pos) (Errorf ''invalid type func %d params'' [int i]) (\<lambda>(params, pos).
     need (readFieldList data pos) (Errorf ''invalid type func %d results'' [int i]) (\<lambda>(results, pos).
     Inr (\<lparr>tfs_TypeIndex = typeIndex, tfs_Params = params, tfs_Results = results\<rparr>, pos))))"

definition wf_TypeFuncSig :: "TypeFuncSig \<Rightarrow> bool" where
  "wf_TypeFuncSig row \<longleftrightarrow>
     u32 (tfs_TypeIndex row) \<and>
     wf_fields (tfs_Params row) \<and>
     wf_fields (tfs_Results row)"

definition encodeTypeFuncs :: "TypeFuncSig list \<Rightarrow> bytes" where
  "encodeTypeFuncs = encodeTable appendTypeFuncSigRow"

definition decodeTypeFuncs :: "bytes \<Rightarrow> go_error + TypeFuncSig list" where
  "decodeTypeFuncs =
     decodeTable (Errorf ''invalid type func count'' []) (Errorf ''trailing type func data'' []) decodeTypeFuncSigRow"

lemmas TypeFuncSig_row =
  enc_def[of appendTypeFuncSigRow] appendTypeFuncSigRow_def decodeTypeFuncSigRow_def wf_TypeFuncSig_def Let_def

interpretation typeFuncSig: row_codec appendTypeFuncSigRow decodeTypeFuncSigRow wf_TypeFuncSig
proof
  show "appendTypeFuncSigRow out x = out @ enc appendTypeFuncSigRow x" for out x
    by (simp add: TypeFuncSig_row codec_out)
  show "decodeTypeFuncSigRow i data pos = Inr (x, pos + length (enc appendTypeFuncSigRow x))"
    if "drop pos data = enc appendTypeFuncSigRow x @ rest" "wf_TypeFuncSig x" for data pos x rest i
    using that by (cases x) (simp add: TypeFuncSig_row codec_complete del: drop_drop)
  show "wf_TypeFuncSig x \<and> reads data pos (enc appendTypeFuncSigRow x) n"
    if "decodeTypeFuncSigRow i data pos = Inr (x, n)" for data pos x i n
    using that by (auto simp: TypeFuncSig_row codec_sound split: if_splits dest: flag_zero intro!: reads_append)
qed

lemma decodeTypeFuncs_iff:
  "decodeTypeFuncs data = Inr xs \<longleftrightarrow>
     list_all wf_TypeFuncSig xs \<and> u32 (int (length xs)) \<and> data = encodeTypeFuncs xs"
  unfolding decodeTypeFuncs_def encodeTypeFuncs_def by (rule typeFuncSig.table_iff)

subsection \<open>\<open>MethodInfo\<close>\<close>

record MethodInfo =
  mth_NameTok :: int
  mth_TypeIndex :: int
  mth_Symbol :: int
  mth_FuncIndex :: int
  mth_Pointer :: bool

definition appendMethodInfoRow :: "bytes \<Rightarrow> MethodInfo \<Rightarrow> bytes" where
  "appendMethodInfoRow out mth =
     (let out = appendVarint out (mth_NameTok mth);
          out = appendVarint out (mth_TypeIndex mth);
          out = appendVarint out (mth_Symbol mth);
          out = appendVarint out (mth_FuncIndex mth);
          out = appendFlag out (mth_Pointer mth)
      in out)"

definition decodeMethodInfoRow :: "nat \<Rightarrow> bytes \<Rightarrow> nat \<Rightarrow> go_error + (MethodInfo \<times> nat)" where
  "decodeMethodInfoRow i data pos =
     need (readVarint data pos) (Errorf ''invalid method %d name'' [int i]) (\<lambda>(nameTok, pos).
     need (readVarint data pos) (Errorf ''invalid method %d type'' [int i]) (\<lambda>(typeIndex, pos).
     need (readVarint data pos) (Errorf ''invalid method %d symbol'' [int i]) (\<lambda>(symbol, pos).
     need (readVarint data pos) (Errorf ''invalid method %d func'' [int i]) (\<lambda>(funcIndex, pos).
     need (readVarint data pos) (Errorf ''invalid method %d pointer'' [int i]) (\<lambda>(pointerValue, pos).
     if pointerValue > 1 then Inl (Errorf ''invalid method %d pointer'' [int i]) else
     Inr (\<lparr>mth_NameTok = nameTok, mth_TypeIndex = typeIndex, mth_Symbol = symbol,
           mth_FuncIndex = funcIndex, mth_Pointer = (pointerValue = 1)\<rparr>, pos))))))"

definition wf_MethodInfo :: "MethodInfo \<Rightarrow> bool" where
  "wf_MethodInfo mth \<longleftrightarrow>
     u32 (mth_NameTok mth) \<and>
     u32 (mth_TypeIndex mth) \<and>
     u32 (mth_Symbol mth) \<and>
     u32 (mth_FuncIndex mth)"

definition encodeMethods :: "MethodInfo list \<Rightarrow> bytes" where
  "encodeMethods = encodeTable appendMethodInfoRow"

definition decodeMethods :: "bytes \<Rightarrow> go_error + MethodInfo list" where
  "decodeMethods =
     decodeTable (Errorf ''invalid method count'' []) (Errorf ''trailing method data'' []) decodeMethodInfoRow"

lemmas MethodInfo_row =
  enc_def[of appendMethodInfoRow] appendMethodInfoRow_def decodeMethodInfoRow_def wf_MethodInfo_def Let_def

interpretation methodInfo: row_codec appendMethodInfoRow decodeMethodInfoRow wf_MethodInfo
proof
  show "appendMethodInfoRow out x = out @ enc appendMethodInfoRow x" for out x
    by (simp add: MethodInfo_row codec_out)
  show "decodeMethodInfoRow i data pos = Inr (x, pos + length (enc appendMethodInfoRow x))"
    if "drop pos data = enc appendMethodInfoRow x @ rest" "wf_MethodInfo x" for data pos x rest i
    using that by (cases x) (simp add: MethodInfo_row codec_complete del: drop_drop)
  show "wf_MethodInfo x \<and> reads data pos (enc appendMethodInfoRow x) n"
    if "decodeMethodInfoRow i data pos = Inr (x, n)" for data pos x i n
    using that by (auto simp: MethodInfo_row codec_sound split: if_splits dest: flag_zero intro!: reads_append)
qed

lemma decodeMethods_iff:
  "decodeMethods data = Inr xs \<longleftrightarrow>
     list_all wf_MethodInfo xs \<and> u32 (int (length xs)) \<and> data = encodeMethods xs"
  unfolding decodeMethods_def encodeMethods_def by (rule methodInfo.table_iff)

subsection \<open>\<open>TypeRef\<close>\<close>

record TypeRef =
  tref_OwnerKind :: int
  tref_OwnerIndex :: int
  tref_Kind :: int
  tref_Token :: int
  tref_BaseTok :: int
  tref_DotTok :: int
  tref_Package :: int
  tref_Symbol :: int

definition appendTypeRefRow :: "bytes \<Rightarrow> TypeRef \<Rightarrow> bytes" where
  "appendTypeRefRow out ref =
     (let out = appendVarint out (tref_OwnerKind ref);
          out = appendVarint out (tref_OwnerIndex ref);
          out = appendVarint out (tref_Kind ref);
          out = appendVarint out (tref_Token ref);
          out = appendVarint out (tref_BaseTok ref);
          out = appendVarint out (tref_DotTok ref);
          out = appendNullable out (tref_Package ref);
          out = appendNullable out (tref_Symbol ref)
      in out)"

definition decodeTypeRefRow :: "nat \<Rightarrow> bytes \<Rightarrow> nat \<Rightarrow> go_error + (TypeRef \<times> nat)" where
  "decodeTypeRefRow i data pos =
     need (readVarint data pos) (Errorf ''invalid type ref %d owner kind'' [int i]) (\<lambda>(ownerKind, pos).
     need (readVarint data pos) (Errorf ''invalid type ref %d owner index'' [int i]) (\<lambda>(ownerIndex, pos).
     need (readVarint data pos) (Errorf ''invalid type ref %d kind'' [int i]) (\<lambda>(kind, pos).
     need (readVarint data pos) (Errorf ''invalid type ref %d token'' [int i]) (\<lambda>(token, pos).
     need (readVarint data pos) (Errorf ''invalid type ref %d base'' [int i]) (\<lambda>(baseTok, pos).
     need (readVarint data pos) (Errorf ''invalid type ref %d dot'' [int i]) (\<lambda>(dotTok, pos).
     need (readNullable data pos) (Errorf ''invalid type ref %d package'' [int i]) (\<lambda>(package, pos).
     need (readNullable data pos) (Errorf ''invalid type ref %d symbol'' [int i]) (\<lambda>(symbol, pos).
     Inr (\<lparr>tref_OwnerKind = ownerKind, tref_OwnerIndex = ownerIndex, tref_Kind = kind,
           tref_Token = token, tref_BaseTok = baseTok, tref_DotTok = dotTok,
           tref_Package = package, tref_Symbol = symbol\<rparr>, pos)))))))))"

definition wf_TypeRef :: "TypeRef \<Rightarrow> bool" where
  "wf_TypeRef ref \<longleftrightarrow>
     u32 (tref_OwnerKind ref) \<and>
     u32 (tref_OwnerIndex ref) \<and>
     u32 (tref_Kind ref) \<and>
     u32 (tref_Token ref) \<and>
     u32 (tref_BaseTok ref) \<and>
     u32 (tref_DotTok ref) \<and>
     nullable32 (tref_Package ref) \<and>
     nullable32 (tref_Symbol ref)"

definition encodeTypeRefs :: "TypeRef list \<Rightarrow> bytes" where
  "encodeTypeRefs = encodeTable appendTypeRefRow"

definition decodeTypeRefs :: "bytes \<Rightarrow> go_error + TypeRef list" where
  "decodeTypeRefs =
     decodeTable (Errorf ''invalid type ref count'' []) (Errorf ''trailing type ref data'' []) decodeTypeRefRow"

lemmas TypeRef_row =
  enc_def[of appendTypeRefRow] appendTypeRefRow_def decodeTypeRefRow_def wf_TypeRef_def Let_def

interpretation typeRef: row_codec appendTypeRefRow decodeTypeRefRow wf_TypeRef
proof
  show "appendTypeRefRow out x = out @ enc appendTypeRefRow x" for out x
    by (simp add: TypeRef_row codec_out)
  show "decodeTypeRefRow i data pos = Inr (x, pos + length (enc appendTypeRefRow x))"
    if "drop pos data = enc appendTypeRefRow x @ rest" "wf_TypeRef x" for data pos x rest i
    using that by (cases x) (simp add: TypeRef_row codec_complete del: drop_drop)
  show "wf_TypeRef x \<and> reads data pos (enc appendTypeRefRow x) n"
    if "decodeTypeRefRow i data pos = Inr (x, n)" for data pos x i n
    using that by (auto simp: TypeRef_row codec_sound split: if_splits dest: flag_zero intro!: reads_append)
qed

lemma decodeTypeRefs_iff:
  "decodeTypeRefs data = Inr xs \<longleftrightarrow>
     list_all wf_TypeRef xs \<and> u32 (int (length xs)) \<and> data = encodeTypeRefs xs"
  unfolding decodeTypeRefs_def encodeTypeRefs_def by (rule typeRef.table_iff)

subsection \<open>\<open>LocalDecl\<close>\<close>

record LocalDecl =
  loc_FuncIndex :: int
  loc_Kind :: int
  loc_NameStart :: int
  loc_NameEnd :: int
  loc_Token :: int
  loc_Scope :: int
  loc_ValueIndex :: int
  loc_TypeStart :: int
  loc_TypeEnd :: int
  loc_ValueStart :: int
  loc_ValueEnd :: int
  loc_Values :: "ExprSpan list"
  loc_Alias :: bool

definition appendLocalDeclRow :: "bytes \<Rightarrow> LocalDecl \<Rightarrow> bytes" where
  "appendLocalDeclRow out loc =
     (let out = appendVarint out (loc_FuncIndex loc);
          out = appendVarint out (loc_Kind loc);
          out = appendVarint out (loc_NameStart loc);
          out = appendVarint out (loc_NameEnd loc - loc_NameStart loc);
          out = appendVarint out (loc_Token loc);
          out = appendNullable out (loc_Scope loc);
          out = appendVarint out (loc_ValueIndex loc);
          out = appendFlag out (loc_Alias loc);
          out = appendNullableSpan out (loc_TypeStart loc, loc_TypeEnd loc);
          out = appendNullableSpan out (loc_ValueStart loc, loc_ValueEnd loc);
          out = appendSpanList out (loc_Values loc)
      in out)"

definition decodeLocalDeclRow :: "nat \<Rightarrow> bytes \<Rightarrow> nat \<Rightarrow> go_error + (LocalDecl \<times> nat)" where
  "decodeLocalDeclRow i data pos =
     need (readVarint data pos) (Errorf ''invalid local %d func'' [int i]) (\<lambda>(funcIndex, pos).
     need (readVarint data pos) (Errorf ''invalid local %d kind'' [int i]) (\<lambda>(kind, pos).
     need (readVarint data pos) (Errorf ''invalid local %d name'' [int i]) (\<lambda>(nameStart, pos).
     need (readVarint data pos) (Errorf ''invalid local %d name size'' [int i]) (\<lambda>(nameCount, pos).
     need (readVarint data pos) (Errorf ''invalid local %d token'' [int i]) (\<lambda>(token, pos).
     need (readNullable data pos) (Errorf ''invalid local %d scope'' [int i]) (\<lambda>(scope, pos).
     need (readVarint data pos) (Errorf ''invalid local %d value index'' [int i]) (\<lambda>(valueIndex, pos).
     need (readVarint data pos) (Errorf ''invalid local %d alias'' [int i]) (\<lambda>(aliasValue, pos).
     if aliasValue > 1 then Inl (Errorf ''invalid local %d alias'' [int i]) else
     need (readNullableSpan data pos) (Errorf ''invalid local %d type span'' [int i]) (\<lambda>((typeStart, typeEnd), pos).
     need (readNullableSpan data pos) (Errorf ''invalid local %d value span'' [int i]) (\<lambda>((valueStart, valueEnd), pos).
     need (readSpanList data pos) (Errorf ''invalid local %d values'' [int i]) (\<lambda>(vals, pos).
     Inr (\<lparr>loc_FuncIndex = funcIndex, loc_Kind = kind, loc_NameStart = nameStart,
           loc_NameEnd = nameStart + nameCount, loc_Token = token, loc_Scope = scope,
           loc_ValueIndex = valueIndex, loc_TypeStart = typeStart,
           loc_TypeEnd = typeEnd, loc_ValueStart = valueStart,
           loc_ValueEnd = valueEnd, loc_Values = vals, loc_Alias = (aliasValue = 1)\<rparr>, pos))))))))))))"

definition wf_LocalDecl :: "LocalDecl \<Rightarrow> bool" where
  "wf_LocalDecl loc \<longleftrightarrow>
     u32 (loc_FuncIndex loc) \<and>
     u32 (loc_Kind loc) \<and>
     u32 (loc_NameStart loc) \<and>
     u32 (loc_NameEnd loc - loc_NameStart loc) \<and>
     u32 (loc_Token loc) \<and>
     nullable32 (loc_Scope loc) \<and>
     u32 (loc_ValueIndex loc) \<and>
     nullable_span32 (loc_TypeStart loc) (loc_TypeEnd loc) \<and>
     nullable_span32 (loc_ValueStart loc) (loc_ValueEnd loc) \<and>
     wf_spans (loc_Values loc)"

definition encodeLocals :: "LocalDecl list \<Rightarrow> bytes" where
  "encodeLocals = encodeTable appendLocalDeclRow"

definition decodeLocals :: "bytes \<Rightarrow> go_error + LocalDecl list" where
  "decodeLocals =
     decodeTable (Errorf ''invalid local count'' []) (Errorf ''trailing local data'' []) decodeLocalDeclRow"

lemmas LocalDecl_row =
  enc_def[of appendLocalDeclRow] appendLocalDeclRow_def decodeLocalDeclRow_def wf_LocalDecl_def Let_def

interpretation localDecl: row_codec appendLocalDeclRow decodeLocalDeclRow wf_LocalDecl
proof
  show "appendLocalDeclRow out x = out @ enc appendLocalDeclRow x" for out x
    by (simp add: LocalDecl_row codec_out)
  show "decodeLocalDeclRow i data pos = Inr (x, pos + length (enc appendLocalDeclRow x))"
    if "drop pos data = enc appendLocalDeclRow x @ rest" "wf_LocalDecl x" for data pos x rest i
    using that by (cases x) (simp add: LocalDecl_row codec_complete del: drop_drop)
  show "wf_LocalDecl x \<and> reads data pos (enc appendLocalDeclRow x) n"
    if "decodeLocalDeclRow i data pos = Inr (x, n)" for data pos x i n
    using that by (auto simp: LocalDecl_row codec_sound split: if_splits dest: flag_zero intro!: reads_append)
qed

lemma decodeLocals_iff:
  "decodeLocals data = Inr xs \<longleftrightarrow>
     list_all wf_LocalDecl xs \<and> u32 (int (length xs)) \<and> data = encodeLocals xs"
  unfolding decodeLocals_def encodeLocals_def by (rule localDecl.table_iff)

subsection \<open>\<open>IndexExpr\<close>\<close>

record IndexExpr =
  idx_OwnerKind :: int
  idx_OwnerIndex :: int
  idx_StartTok :: int
  idx_EndTok :: int
  idx_BaseStart :: int
  idx_BaseEnd :: int
  idx_OpenTok :: int
  idx_CloseTok :: int
  idx_IndexStart :: int
  idx_IndexEnd :: int

definition appendIndexExprRow :: "bytes \<Rightarrow> IndexExpr \<Rightarrow> bytes" where
  "appendIndexExprRow out idx =
     (let out = appendVarint out (idx_OwnerKind idx);
          out = appendVarint out (idx_OwnerIndex idx);
          out = appendVarint out (idx_StartTok idx);
          out = appendVarint out (idx_EndTok idx - idx_StartTok idx);
          out = appendVarint out (idx_BaseStart idx);
          out = appendVarint out (idx_BaseEnd idx - idx_BaseStart idx);
          out = appendVarint out (idx_OpenTok idx);
          out = appendVarint out (idx_CloseTok idx);
          out = appendVarint out (idx_IndexStart idx);
          out = appendVarint out (idx_IndexEnd idx - idx_IndexStart idx)
      in out)"

definition decodeIndexExprRow :: "nat \<Rightarrow> bytes \<Rightarrow> nat \<Rightarrow> go_error + (IndexExpr \<times> nat)" where
  "decodeIndexExprRow i data pos =
     need (readVarint data pos) (Errorf ''invalid index %d owner kind'' [int i]) (\<lambda>(ownerKind, pos).
     need (readVarint data pos) (Errorf ''invalid index %d owner index'' [int i]) (\<lambda>(ownerIndex, pos).
     need (readVarint data pos) (Errorf ''invalid index %d start'' [int i]) (\<lambda>(startTok, pos).
     need (readVarint data pos) (Errorf ''invalid index %d end'' [int i]) (\<lambda>(tokCount, pos).
     need (readVarint data pos) (Errorf ''invalid index %d base start'' [int i]) (\<lambda>(baseStart, pos).
     need (readVarint data pos) (Errorf ''invalid index %d base end'' [int i]) (\<lambda>(baseCount, pos).
     need (readVarint data pos) (Errorf ''invalid index %d open'' [int i]) (\<lambda>(openTok, pos).
     need (readVarint data pos) (Errorf ''invalid index %d close'' [int i]) (\<lambda>(closeTok, pos).
     need (readVarint data pos) (Errorf ''invalid index %d expr start'' [int i]) (\<lambda>(indexStart, pos).
     need (readVarint data pos) (Errorf ''invalid index %d expr end'' [int i]) (\<lambda>(indexCount, pos).
     Inr (\<lparr>idx_OwnerKind = ownerKind, idx_OwnerIndex = ownerIndex,
           idx_StartTok = startTok, idx_EndTok = startTok + tokCount,
           idx_BaseStart = baseStart, idx_BaseEnd = baseStart + baseCount,
           idx_OpenTok = openTok, idx_CloseTok = closeTok,
           idx_IndexStart = indexStart, idx_IndexEnd = indexStart + indexCount\<rparr>, pos)))))))))))"

definition wf_IndexExpr :: "IndexExpr \<Rightarrow> bool" where
  "wf_IndexExpr idx \<longleftrightarrow>
     u32 (idx_OwnerKind idx) \<and>
     u32 (idx_OwnerIndex idx) \<and>
     u32 (idx_StartTok idx) \<and>
     u32 (idx_EndTok idx - idx_StartTok idx) \<and>
     u32 (idx_BaseStart idx) \<and>
     u32 (idx_BaseEnd idx - idx_BaseStart idx) \<and>
     u32 (idx_OpenTok idx) \<and>
     u32 (idx_CloseTok idx) \<and>
     u32 (idx_IndexStart idx) \<and>
     u32 (idx_IndexEnd idx - idx_IndexStart idx)"

definition encodeIndexes :: "IndexExpr list \<Rightarrow> bytes" where
  "encodeIndexes = encodeTable appendIndexExprRow"

definition decodeIndexes :: "bytes \<Rightarrow> go_error + IndexExpr list" where
  "decodeIndexes =
     decodeTable (Errorf ''invalid index count'' []) (Errorf ''trailing index data'' []) decodeIndexExprRow"

lemmas IndexExpr_row =
  enc_def[of appendIndexExprRow] appendIndexExprRow_def decodeIndexExprRow_def wf_IndexExpr_def Let_def

interpretation indexExpr: row_codec appendIndexExprRow decodeIndexExprRow wf_IndexExpr
proof
  show "appendIndexExprRow out x = out @ enc appendIndexExprRow x" for out x
    by (simp add: IndexExpr_row codec_out)
  show "decodeIndexExprRow i data pos = Inr (x, pos + length (enc appendIndexExprRow x))"
    if "drop pos data = enc appendIndexExprRow x @ rest" "wf_IndexExpr x" for data pos x rest i
    using that by (cases x) (simp add: IndexExpr_row codec_complete del: drop_drop)
  show "wf_IndexExpr x \<and> reads data pos (enc appendIndexExprRow x) n"
    if "decodeIndexExprRow i data pos = Inr (x, n)" for data pos x i n
    using that by (auto simp: IndexExpr_row codec_sound split: if_splits dest: flag_zero intro!: reads_append)
qed

lemma decodeIndexes_iff:
  "decodeIndexes data = Inr xs \<longleftrightarrow>
     list_all wf_IndexExpr xs \<and> u32 (int (length xs)) \<and> data = encodeIndexes xs"
  unfolding decodeIndexes_def encodeIndexes_def by (rule indexExpr.table_iff)

subsection \<open>\<open>CompositeExpr\<close>\<close>

record CompositeExpr =
  comp_OwnerKind :: int
  comp_OwnerIndex :: int
  comp_StartTok :: int
  comp_EndTok :: int
  comp_TypeStart :: int
  comp_TypeEnd :: int
  comp_OpenTok :: int
  comp_CloseTok :: int
  comp_Elems :: "ExprSpan list"

text \<open>The inner loop of \<open>decodeComposites\<close>: the spans of one composite, with its own error values.\<close>

definition decodeCompositeElemRow ::
  "nat \<Rightarrow> nat \<Rightarrow> bytes \<Rightarrow> nat \<Rightarrow> go_error + (ExprSpan \<times> nat)" where
  "decodeCompositeElemRow i j data pos =
     need (readVarint data pos) (Errorf ''invalid composite %d elem %d start'' [int i, int j]) (\<lambda>(elemStart, pos).
     need (readVarint data pos) (Errorf ''invalid composite %d elem %d end'' [int i, int j]) (\<lambda>(elemCount, pos).
     Inr (\<lparr>span_StartTok = elemStart, span_EndTok = elemStart + elemCount\<rparr>, pos)))"

interpretation compositeElem: row_codec appendExprSpanRow "decodeCompositeElemRow i" wf_ExprSpan for i
proof
  show "appendExprSpanRow out x = out @ enc appendExprSpanRow x" for out x
    by (simp add: ExprSpan_row decodeCompositeElemRow_def codec_out)
  show "decodeCompositeElemRow i j data pos = Inr (x, pos + length (enc appendExprSpanRow x))"
    if "drop pos data = enc appendExprSpanRow x @ rest" "wf_ExprSpan x" for data pos x rest j
    using that by (cases x) (simp add: ExprSpan_row decodeCompositeElemRow_def codec_complete del: drop_drop)
  show "wf_ExprSpan x \<and> reads data pos (enc appendExprSpanRow x) n"
    if "decodeCompositeElemRow i j data pos = Inr (x, n)" for data pos x j n
    using that by (auto simp: ExprSpan_row decodeCompositeElemRow_def codec_sound split: if_splits intro!: reads_append)
qed

interpretation compositeElems: codec "appendList appendExprSpanRow" "readList (decodeCompositeElemRow i)"
  "\<lambda>xs. list_all wf_ExprSpan xs \<and> u32 (int (length xs))" for i
  by (rule compositeElem.list_codec)

definition appendCompositeExprRow :: "bytes \<Rightarrow> CompositeExpr \<Rightarrow> bytes" where
  "appendCompositeExprRow out composite =
     (let out = appendVarint out (comp_OwnerKind composite);
          out = appendVarint out (comp_OwnerIndex composite);
          out = appendVarint out (comp_StartTok composite);
          out = appendVarint out (comp_EndTok composite - comp_StartTok composite);
          out = appendVarint out (comp_TypeStart composite);
          out = appendVarint out (comp_TypeEnd composite - comp_TypeStart composite);
          out = appendVarint out (comp_OpenTok composite);
          out = appendVarint out (comp_CloseTok composite);
          out = appendList appendExprSpanRow out (comp_Elems composite)
      in out)"

definition decodeCompositeExprRow :: "nat \<Rightarrow> bytes \<Rightarrow> nat \<Rightarrow> go_error + (CompositeExpr \<times> nat)" where
  "decodeCompositeExprRow i data pos =
     need (readVarint data pos) (Errorf ''invalid composite %d owner kind'' [int i]) (\<lambda>(ownerKind, pos).
     need (readVarint data pos) (Errorf ''invalid composite %d owner index'' [int i]) (\<lambda>(ownerIndex, pos).
     need (readVarint data pos) (Errorf ''invalid composite %d start'' [int i]) (\<lambda>(startTok, pos).
     need (readVarint data pos) (Errorf ''invalid composite %d end'' [int i]) (\<lambda>(tokCount, pos).
     need (readVarint data pos) (Errorf ''invalid composite %d type start'' [int i]) (\<lambda>(typeStart, pos).
     need (readVarint data pos) (Errorf ''invalid composite %d type end'' [int i]) (\<lambda>(typeCount, pos).
     need (readVarint data pos) (Errorf ''invalid composite %d open'' [int i]) (\<lambda>(openTok, pos).
     need (readVarint data pos) (Errorf ''invalid composite %d close'' [int i]) (\<lambda>(closeTok, pos).
     attempt (readCounted (Errorf ''invalid composite %d elem count'' [int i])
       (decodeCompositeElemRow i) data pos) (\<lambda>(elems, pos).
     Inr (\<lparr>comp_OwnerKind = ownerKind, comp_OwnerIndex = ownerIndex,
           comp_StartTok = startTok, comp_EndTok = startTok + tokCount,
           comp_TypeStart = typeStart, comp_TypeEnd = typeStart + typeCount,
           comp_OpenTok = openTok, comp_CloseTok = closeTok, comp_Elems = elems\<rparr>, pos))))))))))"

definition wf_CompositeExpr :: "CompositeExpr \<Rightarrow> bool" where
  "wf_CompositeExpr composite \<longleftrightarrow>
     u32 (comp_OwnerKind composite) \<and>
     u32 (comp_OwnerIndex composite) \<and>
     u32 (comp_StartTok composite) \<and>
     u32 (comp_EndTok composite - comp_StartTok composite) \<and>
     u32 (comp_TypeStart composite) \<and>
     u32 (comp_TypeEnd composite - comp_TypeStart composite) \<and>
     u32 (comp_OpenTok composite) \<and>
     u32 (comp_CloseTok composite) \<and>
     (list_all wf_ExprSpan (comp_Elems composite) \<and> u32 (int (length (comp_Elems composite))))"

definition encodeComposites :: "CompositeExpr list \<Rightarrow> bytes" where
  "encodeComposites = encodeTable appendCompositeExprRow"

definition decodeComposites :: "bytes \<Rightarrow> go_error + CompositeExpr list" where
  "decodeComposites =
     decodeTable (Errorf ''invalid composite count'' []) (Errorf ''trailing composite data'' []) decodeCompositeExprRow"

lemmas CompositeExpr_row =
  enc_def[of appendCompositeExprRow] appendCompositeExprRow_def decodeCompositeExprRow_def wf_CompositeExpr_def Let_def

interpretation compositeExpr: row_codec appendCompositeExprRow decodeCompositeExprRow wf_CompositeExpr
proof
  show "appendCompositeExprRow out x = out @ enc appendCompositeExprRow x" for out x
    by (simp add: CompositeExpr_row codec_out compositeElems.app_out)
  show "decodeCompositeExprRow i data pos = Inr (x, pos + length (enc appendCompositeExprRow x))"
    if "drop pos data = enc appendCompositeExprRow x @ rest" "wf_CompositeExpr x" for data pos x rest i
    using that by (cases x) (simp add: CompositeExpr_row codec_complete readCounted_eq
      compositeElems.rd_scan compositeElems.scan_enc[OF conjI] compositeElems.app_out del: drop_drop)
  show "wf_CompositeExpr x \<and> reads data pos (enc appendCompositeExprRow x) n"
    if "decodeCompositeExprRow i data pos = Inr (x, n)" for data pos x i n
    using that by (auto simp: CompositeExpr_row codec_sound attempt_Inr readCounted_readList
      compositeElems.rd_reads compositeElems.app_out split: if_splits dest: flag_zero intro!: reads_append)
qed

lemma decodeComposites_iff:
  "decodeComposites data = Inr xs \<longleftrightarrow>
     list_all wf_CompositeExpr xs \<and> u32 (int (length xs)) \<and> data = encodeComposites xs"
  unfolding decodeComposites_def encodeComposites_def by (rule compositeExpr.table_iff)

subsection \<open>\<open>Assignment\<close>\<close>

record Assignment =
  asg_FuncIndex :: int
  asg_Kind :: int
  asg_StartTok :: int
  asg_EndTok :: int
  asg_OpTok :: int
  asg_LeftStart :: int
  asg_LeftEnd :: int
  asg_RightStart :: int
  asg_RightEnd :: int
  asg_Targets :: "ExprSpan list"
  asg_Values :: "ExprSpan list"

definition appendAssignmentRow :: "bytes \<Rightarrow> Assignment \<Rightarrow> bytes" where
  "appendAssignmentRow out asg =
     (let out = appendVarint out (asg_FuncIndex asg);
          out = appendVarint out (asg_Kind asg);
          out = appendVarint out (asg_StartTok asg);
          out = appendVarint out (asg_EndTok asg - asg_StartTok asg);
          out = appendVarint out (asg_OpTok asg);
          out = appendVarint out (asg_LeftStart asg);
          out = appendVarint out (asg_LeftEnd asg - asg_LeftStart asg);
          out = appendVarint out (asg_RightStart asg);
          out = appendVarint out (asg_RightEnd asg - asg_RightStart asg);
          out = appendSpanList out (asg_Targets asg);
          out = appendSpanList out (asg_Values asg)
      in out)"

definition decodeAssignmentRow :: "nat \<Rightarrow> bytes \<Rightarrow> nat \<Rightarrow> go_error + (Assignment \<times> nat)" where
  "decodeAssignmentRow i data pos =
     need (readVarint data pos) (Errorf ''invalid assignment %d func'' [int i]) (\<lambda>(funcIndex, pos).
     need (readVarint data pos) (Errorf ''invalid assignment %d kind'' [int i]) (\<lambda>(kind, pos).
     need (readVarint data pos) (Errorf ''invalid assignment %d start'' [int i]) (\<lambda>(startTok, pos).
     need (readVarint data pos) (Errorf ''invalid assignment %d end'' [int i]) (\<lambda>(tokCount, pos).
     need (readVarint data pos) (Errorf ''invalid assignment %d op'' [int i]) (\<lambda>(opTok, pos).
     need (readVarint data pos) (Errorf ''invalid assignment %d left start'' [int i]) (\<lambda>(leftStart, pos).
     need (readVarint data pos) (Errorf ''invalid assignment %d left end'' [int i]) (\<lambda>(leftCount, pos).
     need (readVarint data pos) (Errorf ''invalid assignment %d right start'' [int i]) (\<lambda>(rightStart, pos).
     need (readVarint data pos) (Errorf ''invalid assignment %d right end'' [int i]) (\<lambda>(rightCount, pos).
     need (readSpanList data pos) (Errorf ''invalid assignment %d targets'' [int i]) (\<lambda>(targets, pos).
     need (readSpanList data pos) (Errorf ''invalid assignment %d values'' [int i]) (\<lambda>(vals, pos).
     Inr (\<lparr>asg_FuncIndex = funcIndex, asg_Kind = kind, asg_StartTok = startTok,
           asg_EndTok = startTok + tokCount, asg_OpTok = opTok,
           asg_LeftStart = leftStart, asg_LeftEnd = leftStart + leftCount,
           asg_RightStart = rightStart, asg_RightEnd = rightStart + rightCount,
           asg_Targets = targets, asg_Values = vals\<rparr>, pos))))))))))))"

definition wf_Assignment :: "Assignment \<Rightarrow> bool" where
  "wf_Assignment asg \<longleftrightarrow>
     u32 (asg_FuncIndex asg) \<and>
     u32 (asg_Kind asg) \<and>
     u32 (asg_StartTok asg) \<and>
     u32 (asg_EndTok asg - asg_StartTok asg) \<and>
     u32 (asg_OpTok asg) \<and>
     u32 (asg_LeftStart asg) \<and>
     u32 (asg_LeftEnd asg - asg_LeftStart asg) \<and>
     u32 (asg_RightStart asg) \<and>
     u32 (asg_RightEnd asg - asg_RightStart asg) \<and>
     wf_spans (asg_Targets asg) \<and>
     wf_spans (asg_Values asg)"

definition encodeAssignments :: "Assignment list \<Rightarrow> bytes" where
  "encodeAssignments = encodeTable appendAssignmentRow"

definition decodeAssignments :: "bytes \<Rightarrow> go_error + Assignment list" where
  "decodeAssignments =
     decodeTable (Errorf ''invalid assignment count'' []) (Errorf ''trailing assignment data'' []) decodeAssignmentRow"

lemmas Assignment_row =
  enc_def[of appendAssignmentRow] appendAssignmentRow_def decodeAssignmentRow_def wf_Assignment_def Let_def

interpretation assignment: row_codec appendAssignmentRow decodeAssignmentRow wf_Assignment
proof
  show "appendAssignmentRow out x = out @ enc appendAssignmentRow x" for out x
    by (simp add: Assignment_row codec_out)
  show "decodeAssignmentRow i data pos = Inr (x, pos + length (enc appendAssignmentRow x))"
    if "drop pos data = enc appendAssignmentRow x @ rest" "wf_Assignment x" for data pos x rest i
    using that by (cases x) (simp add: Assignment_row codec_complete del: drop_drop)
  show "wf_Assignment x \<and> reads data pos (enc appendAssignmentRow x) n"
    if "decodeAssignmentRow i data pos = Inr (x, n)" for data pos x i n
    using that by (auto simp: Assignment_row codec_sound split: if_splits dest: flag_zero intro!: reads_append)
qed

lemma decodeAssignments_iff:
  "decodeAssignments data = Inr xs \<longleftrightarrow>
     list_all wf_Assignment xs \<and> u32 (int (length xs)) \<and> data = encodeAssignments xs"
  unfolding decodeAssignments_def encodeAssignments_def by (rule assignment.table_iff)

subsection \<open>\<open>Return\<close>\<close>

record Return =
  ret_FuncIndex :: int
  ret_StartTok :: int
  ret_EndTok :: int
  ret_Values :: "ExprSpan list"

definition appendReturnRow :: "bytes \<Rightarrow> Return \<Rightarrow> bytes" where
  "appendReturnRow out ret =
     (let out = appendVarint out (ret_FuncIndex ret);
          out = appendVarint out (ret_StartTok ret);
          out = appendVarint out (ret_EndTok ret - ret_StartTok ret);
          out = appendSpanList out (ret_Values ret)
      in out)"

definition decodeReturnRow :: "nat \<Rightarrow> bytes \<Rightarrow> nat \<Rightarrow> go_error + (Return \<times> nat)" where
  "decodeReturnRow i data pos =
     need (readVarint data pos) (Errorf ''invalid return %d func'' [int i]) (\<lambda>(funcIndex, pos).
     need (readVarint data pos) (Errorf ''invalid return %d start'' [int i]) (\<lambda>(startTok, pos).
     need (readVarint data pos) (Errorf ''invalid return %d end'' [int i]) (\<lambda>(tokCount, pos).
     need (readSpanList data pos) (Errorf ''invalid return %d values'' [int i]) (\<lambda>(vals, pos).
     Inr (\<lparr>ret_FuncIndex = funcIndex, ret_StartTok = startTok,
           ret_EndTok = startTok + tokCount, ret_Values = vals\<rparr>, pos)))))"

definition wf_Return :: "Return \<Rightarrow> bool" where
  "wf_Return ret \<longleftrightarrow>
     u32 (ret_FuncIndex ret) \<and>
     u32 (ret_StartTok ret) \<and>
     u32 (ret_EndTok ret - ret_StartTok ret) \<and>
     wf_spans (ret_Values ret)"

definition encodeReturns :: "Return list \<Rightarrow> bytes" where
  "encodeReturns = encodeTable appendReturnRow"

definition decodeReturns :: "bytes \<Rightarrow> go_error + Return list" where
  "decodeReturns =
     decodeTable (Errorf ''invalid return count'' []) (Errorf ''trailing return data'' []) decodeReturnRow"

lemmas Return_row =
  enc_def[of appendReturnRow] appendReturnRow_def decodeReturnRow_def wf_Return_def Let_def

interpretation return: row_codec appendReturnRow decodeReturnRow wf_Return
proof
  show "appendReturnRow out x = out @ enc appendReturnRow x" for out x
    by (simp add: Return_row codec_out)
  show "decodeReturnRow i data pos = Inr (x, pos + length (enc appendReturnRow x))"
    if "drop pos data = enc appendReturnRow x @ rest" "wf_Return x" for data pos x rest i
    using that by (cases x) (simp add: Return_row codec_complete del: drop_drop)
  show "wf_Return x \<and> reads data pos (enc appendReturnRow x) n"
    if "decodeReturnRow i data pos = Inr (x, n)" for data pos x i n
    using that by (auto simp: Return_row codec_sound split: if_splits dest: flag_zero intro!: reads_append)
qed

lemma decodeReturns_iff:
  "decodeReturns data = Inr xs \<longleftrightarrow>
     list_all wf_Return xs \<and> u32 (int (length xs)) \<and> data = encodeReturns xs"
  unfolding decodeReturns_def encodeReturns_def by (rule return.table_iff)

subsection \<open>\<open>Call\<close>\<close>

record Call =
  call_OwnerKind :: int
  call_OwnerIndex :: int
  call_Kind :: int
  call_CalleeTok :: int
  call_BaseTok :: int
  call_DotTok :: int
  call_ArgsStart :: int
  call_ArgsEnd :: int
  call_Args :: "ExprSpan list"

definition appendCallRow :: "bytes \<Rightarrow> Call \<Rightarrow> bytes" where
  "appendCallRow out call =
     (let out = appendVarint out (call_OwnerKind call);
          out = appendVarint out (call_OwnerIndex call);
          out = appendVarint out (call_Kind call);
          out = appendVarint out (call_CalleeTok call);
          out = appendVarint out (call_BaseTok call);
          out = appendVarint out (call_DotTok call);
          out = appendVarint out (call_ArgsStart call);
          out = appendVarint out (call_ArgsEnd call - call_ArgsStart call);
          out = appendSpanList out (call_Args call)
      in out)"

definition decodeCallRow :: "nat \<Rightarrow> bytes \<Rightarrow> nat \<Rightarrow> go_error + (Call \<times> nat)" where
  "decodeCallRow i data pos =
     need (readVarint data pos) (Errorf ''invalid call %d owner kind'' [int i]) (\<lambda>(ownerKind, pos).
     need (readVarint data pos) (Errorf ''invalid call %d owner index'' [int i]) (\<lambda>(ownerIndex, pos).
     need (readVarint data pos) (Errorf ''invalid call %d kind'' [int i]) (\<lambda>(kind, pos).
     need (readVarint data pos) (Errorf ''invalid call %d callee'' [int i]) (\<lambda>(calleeTok, pos).
     need (readVarint data pos) (Errorf ''invalid call %d base'' [int i]) (\<lambda>(baseTok, pos).
     need (readVarint data pos) (Errorf ''invalid call %d dot'' [int i]) (\<lambda>(dotTok, pos).
     need (readVarint data pos) (Errorf ''invalid call %d args start'' [int i]) (\<lambda>(argsStart, pos).
     need (readVarint data pos) (Errorf ''invalid call %d args end'' [int i]) (\<lambda>(argsCount, pos).
     need (readSpanList data pos) (Errorf ''invalid call %d args'' [int i]) (\<lambda>(args, pos).
     Inr (\<lparr>call_OwnerKind = ownerKind, call_OwnerIndex = ownerIndex, call_Kind = kind,
           call_CalleeTok = calleeTok, call_BaseTok = baseTok, call_DotTok = dotTok,
           call_ArgsStart = argsStart, call_ArgsEnd = argsStart + argsCount,
           call_Args = args\<rparr>, pos))))))))))"

definition wf_Call :: "Call \<Rightarrow> bool" where
  "wf_Call call \<longleftrightarrow>
     u32 (call_OwnerKind call) \<and>
     u32 (call_OwnerIndex call) \<and>
     u32 (call_Kind call) \<and>
     u32 (call_CalleeTok call) \<and>
     u32 (call_BaseTok call) \<and>
     u32 (call_DotTok call) \<and>
     u32 (call_ArgsStart call) \<and>
     u32 (call_ArgsEnd call - call_ArgsStart call) \<and>
     wf_spans (call_Args call)"

definition encodeCalls :: "Call list \<Rightarrow> bytes" where
  "encodeCalls = encodeTable appendCallRow"

definition decodeCalls :: "bytes \<Rightarrow> go_error + Call list" where
  "decodeCalls =
     decodeTable (Errorf ''invalid call count'' []) (Errorf ''trailing call data'' []) decodeCallRow"

lemmas Call_row =
  enc_def[of appendCallRow] appendCallRow_def decodeCallRow_def wf_Call_def Let_def

interpretation call: row_codec appendCallRow decodeCallRow wf_Call
proof
  show "appendCallRow out x = out @ enc appendCallRow x" for out x
    by (simp add: Call_row codec_out)
  show "decodeCallRow i data pos = Inr (x, pos + length (enc appendCallRow x))"
    if "drop pos data = enc appendCallRow x @ rest" "wf_Call x" for data pos x rest i
    using that by (cases x) (simp add: Call_row codec_complete del: drop_drop)
  show "wf_Call x \<and> reads data pos (enc appendCallRow x) n"
    if "decodeCallRow i data pos = Inr (x, n)" for data pos x i n
    using that by (auto simp: Call_row codec_sound split: if_splits dest: flag_zero intro!: reads_append)
qed

lemma decodeCalls_iff:
  "decodeCalls data = Inr xs \<longleftrightarrow>
     list_all wf_Call xs \<and> u32 (int (length xs)) \<and> data = encodeCalls xs"
  unfolding decodeCalls_def encodeCalls_def by (rule call.table_iff)

subsection \<open>\<open>NameRef\<close>\<close>

record NameRef =
  nref_OwnerKind :: int
  nref_OwnerIndex :: int
  nref_Kind :: int
  nref_Token :: int
  nref_Index :: int
  nref_Package :: int

definition appendNameRefRow :: "bytes \<Rightarrow> NameRef \<Rightarrow> bytes" where
  "appendNameRefRow out ref =
     (let out = appendVarint out (nref_OwnerKind ref);
          out = appendVarint out (nref_OwnerIndex ref);
          out = appendVarint out (nref_Kind ref);
          out = appendVarint out (nref_Token ref);
          out = appendNullable out (nref_Index ref);
          out = appendNullable out (nref_Package ref)
      in out)"

definition decodeNameRefRow :: "nat \<Rightarrow> bytes \<Rightarrow> nat \<Rightarrow> go_error + (NameRef \<times> nat)" where
  "decodeNameRefRow i data pos =
     need (readVarint data pos) (Errorf ''invalid ref %d owner kind'' [int i]) (\<lambda>(ownerKind, pos).
     need (readVarint data pos) (Errorf ''invalid ref %d owner index'' [int i]) (\<lambda>(ownerIndex, pos).
     need (readVarint data pos) (Errorf ''invalid ref %d kind'' [int i]) (\<lambda>(kind, pos).
     need (readVarint data pos) (Errorf ''invalid ref %d token'' [int i]) (\<lambda>(token, pos).
     need (readNullable data pos) (Errorf ''invalid ref %d index'' [int i]) (\<lambda>(index, pos).
     need (readNullable data pos) (Errorf ''invalid ref %d package'' [int i]) (\<lambda>(package, pos).
     Inr (\<lparr>nref_OwnerKind = ownerKind, nref_OwnerIndex = ownerIndex, nref_Kind = kind,
           nref_Token = token, nref_Index = index, nref_Package = package\<rparr>, pos)))))))"

definition wf_NameRef :: "NameRef \<Rightarrow> bool" where
  "wf_NameRef ref \<longleftrightarrow>
     u32 (nref_OwnerKind ref) \<and>
     u32 (nref_OwnerIndex ref) \<and>
     u32 (nref_Kind ref) \<and>
     u32 (nref_Token ref) \<and>
     nullable32 (nref_Index ref) \<and>
     nullable32 (nref_Package ref)"

definition encodeRefs :: "NameRef list \<Rightarrow> bytes" where
  "encodeRefs = encodeTable appendNameRefRow"

definition decodeRefs :: "bytes \<Rightarrow> go_error + NameRef list" where
  "decodeRefs =
     decodeTable (Errorf ''invalid ref count'' []) (Errorf ''trailing ref data'' []) decodeNameRefRow"

lemmas NameRef_row =
  enc_def[of appendNameRefRow] appendNameRefRow_def decodeNameRefRow_def wf_NameRef_def Let_def

interpretation nameRef: row_codec appendNameRefRow decodeNameRefRow wf_NameRef
proof
  show "appendNameRefRow out x = out @ enc appendNameRefRow x" for out x
    by (simp add: NameRef_row codec_out)
  show "decodeNameRefRow i data pos = Inr (x, pos + length (enc appendNameRefRow x))"
    if "drop pos data = enc appendNameRefRow x @ rest" "wf_NameRef x" for data pos x rest i
    using that by (cases x) (simp add: NameRef_row codec_complete del: drop_drop)
  show "wf_NameRef x \<and> reads data pos (enc appendNameRefRow x) n"
    if "decodeNameRefRow i data pos = Inr (x, n)" for data pos x i n
    using that by (auto simp: NameRef_row codec_sound split: if_splits dest: flag_zero intro!: reads_append)
qed

lemma decodeRefs_iff:
  "decodeRefs data = Inr xs \<longleftrightarrow>
     list_all wf_NameRef xs \<and> u32 (int (length xs)) \<and> data = encodeRefs xs"
  unfolding decodeRefs_def encodeRefs_def by (rule nameRef.table_iff)

subsection \<open>\<open>Selector\<close>\<close>

record Selector =
  sel_OwnerKind :: int
  sel_OwnerIndex :: int
  sel_Kind :: int
  sel_BaseTok :: int
  sel_DotTok :: int
  sel_NameTok :: int
  sel_BaseKind :: int
  sel_BaseIndex :: int
  sel_BasePackage :: int
  sel_Package :: int
  sel_Symbol :: int

definition appendSelectorRow :: "bytes \<Rightarrow> Selector \<Rightarrow> bytes" where
  "appendSelectorRow out sel =
     (let out = appendVarint out (sel_OwnerKind sel);
          out = appendVarint out (sel_OwnerIndex sel);
          out = appendVarint out (sel_Kind sel);
          out = appendVarint out (sel_BaseTok sel);
          out = appendVarint out (sel_DotTok sel);
          out = appendVarint out (sel_NameTok sel);
          out = appendVarint out (sel_BaseKind sel);
          out = appendNullable out (sel_BaseIndex sel);
          out = appendNullable out (sel_BasePackage sel);
          out = appendNullable out (sel_Package sel);
          out = appendNullable out (sel_Symbol sel)
      in out)"

definition decodeSelectorRow :: "nat \<Rightarrow> bytes \<Rightarrow> nat \<Rightarrow> go_error + (Selector \<times> nat)" where
  "decodeSelectorRow i data pos =
     need (readVarint data pos) (Errorf ''invalid selector %d owner kind'' [int i]) (\<lambda>(ownerKind, pos).
     need (readVarint data pos) (Errorf ''invalid selector %d owner index'' [int i]) (\<lambda>(ownerIndex, pos).
     need (readVarint data pos) (Errorf ''invalid selector %d kind'' [int i]) (\<lambda>(kind, pos).
     need (readVarint data pos) (Errorf ''invalid selector %d base'' [int i]) (\<lambda>(baseTok, pos).
     need (readVarint data pos) (Errorf ''invalid selector %d dot'' [int i]) (\<lambda>(dotTok, pos).
     need (readVarint data pos) (Errorf ''invalid selector %d name'' [int i]) (\<lambda>(nameTok, pos).
     need (readVarint data pos) (Errorf ''invalid selector %d base kind'' [int i]) (\<lambda>(baseKind, pos).
     need (readNullable data pos) (Errorf ''invalid selector %d base index'' [int i]) (\<lambda>(baseIndex, pos).
     need (readNullable data pos) (Errorf ''invalid selector %d base package'' [int i]) (\<lambda>(basePackage, pos).
     need (readNullable data pos) (Errorf ''invalid selector %d package'' [int i]) (\<lambda>(package, pos).
     need (readNullable data pos) (Errorf ''invalid selector %d symbol'' [int i]) (\<lambda>(symbol, pos).
     Inr (\<lparr>sel_OwnerKind = ownerKind, sel_OwnerIndex = ownerIndex, sel_Kind = kind,
           sel_BaseTok = baseTok, sel_DotTok = dotTok, sel_NameTok = nameTok,
           sel_BaseKind = baseKind, sel_BaseIndex = baseIndex,
           sel_BasePackage = basePackage, sel_Package = package, sel_Symbol = symbol\<rparr>, pos))))))))))))"

definition wf_Selector :: "Selector \<Rightarrow> bool" where
  "wf_Selector sel \<longleftrightarrow>
     u32 (sel_OwnerKind sel) \<and>
     u32 (sel_OwnerIndex sel) \<and>
     u32 (sel_Kind sel) \<and>
     u32 (sel_BaseTok sel) \<and>
     u32 (sel_DotTok sel) \<and>
     u32 (sel_NameTok sel) \<and>
     u32 (sel_BaseKind sel) \<and>
     nullable32 (sel_BaseIndex sel) \<and>
     nullable32 (sel_BasePackage sel) \<and>
     nullable32 (sel_Package sel) \<and>
     nullable32 (sel_Symbol sel)"

definition encodeSelectors :: "Selector list \<Rightarrow> bytes" where
  "encodeSelectors = encodeTable appendSelectorRow"

definition decodeSelectors :: "bytes \<Rightarrow> go_error + Selector list" where
  "decodeSelectors =
     decodeTable (Errorf ''invalid selector count'' []) (Errorf ''trailing selector data'' []) decodeSelectorRow"

lemmas Selector_row =
  enc_def[of appendSelectorRow] appendSelectorRow_def decodeSelectorRow_def wf_Selector_def Let_def

interpretation selector: row_codec appendSelectorRow decodeSelectorRow wf_Selector
proof
  show "appendSelectorRow out x = out @ enc appendSelectorRow x" for out x
    by (simp add: Selector_row codec_out)
  show "decodeSelectorRow i data pos = Inr (x, pos + length (enc appendSelectorRow x))"
    if "drop pos data = enc appendSelectorRow x @ rest" "wf_Selector x" for data pos x rest i
    using that by (cases x) (simp add: Selector_row codec_complete del: drop_drop)
  show "wf_Selector x \<and> reads data pos (enc appendSelectorRow x) n"
    if "decodeSelectorRow i data pos = Inr (x, n)" for data pos x i n
    using that by (auto simp: Selector_row codec_sound split: if_splits dest: flag_zero intro!: reads_append)
qed

lemma decodeSelectors_iff:
  "decodeSelectors data = Inr xs \<longleftrightarrow>
     list_all wf_Selector xs \<and> u32 (int (length xs)) \<and> data = encodeSelectors xs"
  unfolding decodeSelectors_def encodeSelectors_def by (rule selector.table_iff)

end
