(* ===== verification/Unit_Tokens.thy ===== *)
theory Unit_Tokens
  imports Codec
begin

text \<open>
  The token table of a unit, \<open>encodeTokens\<close> and \<open>decodeTokens\<close> of \<open>backend/unit/unit.go\<close>.  In
  memory a token is an 8-byte record (kind, 24-bit start, size, the low 16 bits of the line; an
  operator token keeps its first character in the high size byte); on the wire it is four
  varints, start and line relative to the previous token.  Lines above 65535 live in a separate
  table, which the decoder builds when it meets the first such line.

  The lemmas say what the two loops do on a list of token rows, and that every token table the
  decoder accepts is such a list.
\<close>

subsection \<open>Operations\<close>

abbreviation (input) tokenStride :: nat where "tokenStride \<equiv> 8"
abbreviation (input) renvoTokEOF :: int where "renvoTokEOF \<equiv> 0"
abbreviation (input) renvoTokOp :: int where "renvoTokOp \<equiv> 22"

definition readTokenStart :: "bytes \<Rightarrow> nat \<Rightarrow> int" where
  "readTokenStart tokens pos =
     (uint (tokens ! (pos + 1)) OR push_bit 8 (uint (tokens ! (pos + 2)))) OR
     push_bit 16 (uint (tokens ! (pos + 3)))"

text \<open>\<open>int(tokens[pos+6]) | int(tokens[pos+7])<<8\<close>.\<close>

definition tokenLine16 :: "bytes \<Rightarrow> nat \<Rightarrow> int" where
  "tokenLine16 tokens pos = uint (tokens ! (pos + 6)) OR push_bit 8 (uint (tokens ! (pos + 7)))"

text \<open>
  The loop of \<open>encodeTokens\<close>.  \<^const>\<open>None\<close> is the index panic of a token table whose length is
  not a multiple of the stride.
\<close>

function encodeTokensLoop ::
  "bytes \<Rightarrow> bytes \<Rightarrow> int list \<Rightarrow> nat \<Rightarrow> int \<Rightarrow> int \<Rightarrow> bytes \<Rightarrow> (go_error + bytes) option" where
  "encodeTokensLoop text tokens tokenLines pos prevStart prevLine out =
     (if pos < length tokens then
        if pos + tokenStride > length tokens then None
        else
          let kind = uint (tokens ! pos);
              start = readTokenStart tokens pos;
              sz = uint (tokens ! (pos + 4));
              sz = (if kind \<noteq> renvoTokOp then sz OR push_bit 8 (uint (tokens ! (pos + 5))) else sz);
              line = tokenLine16 tokens pos;
              line = (if length tokenLines = length tokens div tokenStride
                      then tokenLines ! (pos div tokenStride) else line);
              k = int (pos div tokenStride)
          in if start < prevStart then Some (Inl (Errorf ''token start moved backwards at token %d'' [k]))
             else if line < prevLine then Some (Inl (Errorf ''token line moved backwards at token %d'' [k]))
             else if start + sz > int (length text) then
               Some (Inl (Errorf ''token %d range %d:%d exceeds text size %d'' [k, start, start + sz, int (length text)]))
             else
               let out = appendVarint out kind;
                   out = appendVarint out (start - prevStart);
                   out = appendVarint out sz;
                   out = appendVarint out (line - prevLine)
               in encodeTokensLoop text tokens tokenLines (pos + tokenStride) start line out
      else Some (Inr out))"
  by pat_completeness auto
termination
  by (relation "measure (\<lambda>(text, tokens, tokenLines, pos, prevStart, prevLine, out). length tokens - pos)") auto

declare encodeTokensLoop.simps [simp del]

definition encodeTokens :: "bytes \<Rightarrow> bytes \<Rightarrow> int list \<Rightarrow> (go_error + bytes) option" where
  "encodeTokens text tokens tokenLines =
     encodeTokensLoop text tokens tokenLines 0 0 0
       (appendVarint [] (int (length tokens div tokenStride)))"

text \<open>The record \<open>rec\<close> of \<open>decodeTokens\<close>.\<close>

definition tokenRecord :: "bytes \<Rightarrow> int \<Rightarrow> int \<Rightarrow> int \<Rightarrow> int \<Rightarrow> bytes" where
  "tokenRecord text kind start sz line =
     [word_of_int kind, word_of_int start, word_of_int (drop_bit 8 start), word_of_int (drop_bit 16 start),
      word_of_int sz,
      (if kind = renvoTokOp then (if sz > 0 then text ! nat start else 0) else word_of_int (drop_bit 8 sz)),
      word_of_int line, word_of_int (drop_bit 8 line)]"

text \<open>The two blocks of \<open>decodeTokens\<close> that maintain \<open>largeLines\<close>.\<close>

definition growLines :: "nat \<Rightarrow> bytes \<Rightarrow> int \<Rightarrow> int list \<Rightarrow> int list" where
  "growLines i out line largeLines =
     (let largeLines =
        (if line > 65535 \<and> largeLines = [] then map (\<lambda>j. tokenLine16 out (j * tokenStride)) [0..<i]
         else largeLines)
      in if largeLines \<noteq> [] then largeLines @ [line] else largeLines)"

function decodeTokensLoop ::
  "bytes \<Rightarrow> bytes \<Rightarrow> nat \<Rightarrow> nat \<Rightarrow> nat \<Rightarrow> int \<Rightarrow> int \<Rightarrow> bytes \<Rightarrow> int list \<Rightarrow>
     go_error + (bytes \<times> int list \<times> nat)" where
  "decodeTokensLoop text data count i pos start line out largeLines =
     (if i < count then
        need (readVarint data pos) (Errorf ''invalid token %d kind'' [int i]) (\<lambda>(kind, pos).
        need (readVarint data pos) (Errorf ''invalid token %d start'' [int i]) (\<lambda>(startDelta, pos).
        need (readVarint data pos) (Errorf ''invalid token %d size'' [int i]) (\<lambda>(sz, pos).
        need (readVarint data pos) (Errorf ''invalid token %d line'' [int i]) (\<lambda>(lineDelta, pos).
        let start = start + startDelta;
            line = line + lineDelta
        in if kind < 0 \<or> kind > 255 \<or> start < 0 \<or> start > 0xffffff \<or> sz < 0 \<or> line < 0 \<or>
              start + sz > int (length text)
           then Inl (Errorf ''invalid token %d'' [int i])
           else
             let largeLines = growLines i out line largeLines
             in if kind = renvoTokOp \<and> sz > 255 then Inl (Errorf ''operator token %d too large'' [int i])
                else if kind \<noteq> renvoTokOp \<and> sz > 0xffff then Inl (Errorf ''token %d too large'' [int i])
                else decodeTokensLoop text data count (i + 1) pos start line
                       (out @ tokenRecord text kind start sz line) largeLines))))
      else Inr (out, largeLines, pos))"
  by pat_completeness auto
termination
  by (relation "measure (\<lambda>(text, data, count, i, pos, start, line, out, largeLines). count - i)") auto

declare decodeTokensLoop.simps [simp del]

definition decodeTokens :: "bytes \<Rightarrow> bytes \<Rightarrow> go_error + (bytes \<times> int list)" where
  "decodeTokens text data =
     need (readVarint data 0) (Errorf ''invalid token count'' []) (\<lambda>(count, pos).
     if count < 0 then Inl (Errorf ''invalid token count %d'' [count]) else
     attempt (decodeTokensLoop text data (nat count) 0 pos 0 0 [] []) (\<lambda>(out, largeLines, pos).
     if pos \<noteq> length data then Inl (Errorf ''trailing token data'' []) else Inr (out, largeLines)))"

subsection \<open>Token rows\<close>

text \<open>Kind, start, size and line of a token.\<close>

type_synonym token_row = "int \<times> int \<times> int \<times> int"

fun row_bytes :: "bytes \<Rightarrow> token_row \<Rightarrow> bytes" where
  "row_bytes text (kind, start, sz, line) = tokenRecord text kind start sz line"

definition rows_bytes :: "bytes \<Rightarrow> token_row list \<Rightarrow> bytes" where
  "rows_bytes text ts = concat (map (row_bytes text) ts)"

fun row_line :: "token_row \<Rightarrow> int" where
  "row_line (kind, start, sz, line) = line"

text \<open>The rows the format can carry, after a token with the given start and line.\<close>

fun row_ok :: "bytes \<Rightarrow> int \<Rightarrow> int \<Rightarrow> token_row \<Rightarrow> bool" where
  "row_ok text prevStart prevLine (kind, start, sz, line) \<longleftrightarrow>
     0 \<le> kind \<and> kind \<le> 255 \<and> prevStart \<le> start \<and> start \<le> 0xffffff \<and> 0 \<le> sz \<and>
     start + sz \<le> int (length text) \<and> (kind = renvoTokOp \<longrightarrow> sz \<le> 255) \<and> sz \<le> 0xffff \<and>
     u32 (line - prevLine)"

fun rows_ok :: "bytes \<Rightarrow> int \<Rightarrow> int \<Rightarrow> token_row list \<Rightarrow> bool" where
  "rows_ok text prevStart prevLine [] \<longleftrightarrow> True"
| "rows_ok text prevStart prevLine ((kind, start, sz, line) # ts) \<longleftrightarrow>
     row_ok text prevStart prevLine (kind, start, sz, line) \<and> rows_ok text start line ts"

fun rows_enc :: "int \<Rightarrow> int \<Rightarrow> token_row list \<Rightarrow> bytes" where
  "rows_enc prevStart prevLine [] = []"
| "rows_enc prevStart prevLine ((kind, start, sz, line) # ts) =
     varint kind @ varint (start - prevStart) @ varint sz @ varint (line - prevLine) @ rows_enc start line ts"

text \<open>What \<^const>\<open>growLines\<close> makes of the lines of a list of rows.\<close>

fun grow_rows :: "int list \<Rightarrow> int list \<Rightarrow> token_row list \<Rightarrow> int list" where
  "grow_rows low largeLines [] = largeLines"
| "grow_rows low largeLines ((kind, start, sz, line) # ts) =
     (let largeLines = (if line > 65535 \<and> largeLines = [] then low else largeLines)
      in grow_rows (low @ [take_bit 16 line]) (if largeLines \<noteq> [] then largeLines @ [line] else largeLines) ts)"

lemma length_tokenRecord [simp]: "length (tokenRecord text kind start sz line) = 8"
  by (simp add: tokenRecord_def)

lemma length_row_bytes [simp]: "length (row_bytes text t) = 8"
  by (cases t) simp

lemma length_rows_bytes [simp]: "length (rows_bytes text ts) = 8 * length ts"
  by (induction ts) (simp_all add: rows_bytes_def)

lemma rows_bytes_simps [simp]:
  "rows_bytes text [] = []" "rows_bytes text (t # ts) = row_bytes text t @ rows_bytes text ts"
  "rows_bytes text (ts @ us) = rows_bytes text ts @ rows_bytes text us"
  by (simp_all add: rows_bytes_def)

lemma nth_of_drop:
  assumes "drop pos xs = ys @ rest" "i < length ys"
  shows "xs ! (pos + i) = ys ! i"
proof -
  have "pos \<le> length xs"
    using assms by (cases "pos \<le> length xs") auto
  then have "xs ! (pos + i) = drop pos xs ! i" by (simp add: nth_drop)
  then show ?thesis using assms by (simp add: nth_append)
qed

lemma uint_of_byte: "uint (word_of_int v :: byte) = take_bit 8 v"
  by (simp add: take_bit_eq_mod)

lemma bytes16: "uint (word_of_int v :: byte) OR push_bit 8 (uint (word_of_int (drop_bit 8 v) :: byte)) = take_bit 16 v"
  unfolding uint_of_byte by (rule bit_eqI) (auto simp: bit_simps)

lemma bytes24:
  "(uint (word_of_int v :: byte) OR push_bit 8 (uint (word_of_int (drop_bit 8 v) :: byte))) OR
     push_bit 16 (uint (word_of_int (drop_bit 16 v) :: byte)) = take_bit 24 v"
  unfolding uint_of_byte
proof (rule bit_eqI)
  fix n
  show "bit ((take_bit 8 v OR push_bit 8 (take_bit 8 (drop_bit 8 v))) OR
      push_bit 16 (take_bit 8 (drop_bit 16 v))) n = bit (take_bit 24 v) n"
    by (cases "n < 16") (auto simp: bit_simps)
qed

text \<open>The fields of a record are read back from the token bytes.\<close>

lemma row_fields:
  assumes "drop pos tokens = tokenRecord text kind start sz line @ rest"
    and "row_ok text ps pl (kind, start, sz, line)" "0 \<le> ps"
  shows "uint (tokens ! pos) = kind" "readTokenStart tokens pos = start"
    "(if kind \<noteq> renvoTokOp then uint (tokens ! (pos + 4)) OR push_bit 8 (uint (tokens ! (pos + 5)))
      else uint (tokens ! (pos + 4))) = sz"
    "tokenLine16 tokens pos = take_bit 16 line"
proof -
  have n: "tokens ! (pos + i) = tokenRecord text kind start sz line ! i" if "i < 8" for i
    using nth_of_drop[OF assms(1)] that by simp
  have n0: "tokens ! pos = word_of_int kind" using n[of 0] by (simp add: tokenRecord_def)
  have n1: "tokens ! (pos + 1) = word_of_int start" using n[of 1] by (simp add: tokenRecord_def)
  have n2: "tokens ! (pos + 2) = word_of_int (drop_bit 8 start)" using n[of 2] by (simp add: tokenRecord_def)
  have n3: "tokens ! (pos + 3) = word_of_int (drop_bit 16 start)" using n[of 3] by (simp add: tokenRecord_def)
  have n4: "tokens ! (pos + 4) = word_of_int sz" using n[of 4] by (simp add: tokenRecord_def)
  have n5: "kind \<noteq> renvoTokOp \<Longrightarrow> tokens ! (pos + 5) = word_of_int (drop_bit 8 sz)"
    using n[of 5] by (simp add: tokenRecord_def)
  have n6: "tokens ! (pos + 6) = word_of_int line" using n[of 6] by (simp add: tokenRecord_def)
  have n7: "tokens ! (pos + 7) = word_of_int (drop_bit 8 line)" using n[of 7] by (simp add: tokenRecord_def)
  show "uint (tokens ! pos) = kind" using assms(2) unfolding n0 by simp
  have "take_bit 24 start = start" using assms(2,3) by (intro take_bit_int_eq_self) auto
  then show "readTokenStart tokens pos = start"
    unfolding readTokenStart_def n1 n2 n3 bytes24 .
  show "tokenLine16 tokens pos = take_bit 16 line"
    unfolding tokenLine16_def n6 n7 by (rule bytes16)
  show "(if kind \<noteq> renvoTokOp then uint (tokens ! (pos + 4)) OR push_bit 8 (uint (tokens ! (pos + 5)))
      else uint (tokens ! (pos + 4))) = sz"
  proof (cases "kind = renvoTokOp")
    case True
    then show ?thesis using assms(2) unfolding n4 by simp
  next
    case False
    have "take_bit 16 sz = sz" using assms(2) by (intro take_bit_int_eq_self) auto
    then show ?thesis using False by (simp only: n4 n5 bytes16 if_True not_False_eq_True)
  qed
qed

subsection \<open>The encoder on token rows\<close>

text \<open>The line column of the rows from index \<open>k\<close> on, as the encoder looks it up.\<close>

definition lines_for :: "int list \<Rightarrow> nat \<Rightarrow> nat \<Rightarrow> token_row list \<Rightarrow> bool" where
  "lines_for tokenLines n k ts \<longleftrightarrow>
     (if length tokenLines = n then drop k tokenLines = map row_line ts
      else list_all (\<lambda>t. 0 \<le> row_line t \<and> row_line t \<le> 65535) ts)"

lemma encodeTokensLoop_rows:
  assumes "drop (8 * k) tokens = rows_bytes text ts" "8 * k \<le> length tokens"
    and "rows_ok text ps pl ts" "0 \<le> ps"
    and "lines_for tokenLines (length tokens div tokenStride) k ts"
  shows "encodeTokensLoop text tokens tokenLines (8 * k) ps pl out = Some (Inr (out @ rows_enc ps pl ts))"
  using assms
proof (induction ts arbitrary: k ps pl out)
  case Nil
  then show ?case by (subst encodeTokensLoop.simps) simp
next
  case (Cons t ts)
  obtain kind start sz line where t: "t = (kind, start, sz, line)" by (cases t)
  have d: "drop (8 * k) tokens = tokenRecord text kind start sz line @ rows_bytes text ts"
    using Cons.prems(1) by (simp add: t)
  have ok: "row_ok text ps pl (kind, start, sz, line)" "rows_ok text start line ts"
    using Cons.prems(3) by (simp_all add: t)
  note f = row_fields[OF d ok(1) Cons.prems(4)]
  have len: "8 * k + 8 \<le> length tokens"
    using drop_prefix_length[OF d Cons.prems(2)] by simp
  have d': "drop (8 * Suc k) tokens = rows_bytes text ts"
    using d drop_plus[of "8 * k" 8 tokens] by (simp add: add.commute)
  have l: "(if length tokenLines = length tokens div tokenStride then tokenLines ! (8 * k div tokenStride)
            else tokenLine16 tokens (8 * k)) = line"
    "lines_for tokenLines (length tokens div tokenStride) (Suc k) ts"
  proof -
    show "(if length tokenLines = length tokens div tokenStride then tokenLines ! (8 * k div tokenStride)
            else tokenLine16 tokens (8 * k)) = line"
      using Cons.prems(5) drop_Cons_nth[of k tokenLines line "map row_line ts"]
      by (auto simp: lines_for_def t f(4) intro!: take_bit_int_eq_self)
    show "lines_for tokenLines (length tokens div tokenStride) (Suc k) ts"
      using Cons.prems(5) drop_Cons_nth[of k tokenLines line "map row_line ts"]
      by (auto simp: lines_for_def t)
  qed
  have IH: "encodeTokensLoop text tokens tokenLines (8 * Suc k) start line out' =
      Some (Inr (out' @ rows_enc start line ts))" for out'
    using ok Cons.prems(4) len by (intro Cons.IH[OF d' _ ok(2) _ l(2)]) auto
  have g: "\<not> start < ps" "\<not> line < pl" "\<not> int (length text) < start + sz"
    using ok(1) by (auto simp: u32_def)
  have c: "8 * k < length tokens" "\<not> 8 * k + 8 > length tokens" "8 * Suc k = 8 * k + 8"
    using len by simp_all
  have "encodeTokensLoop text tokens tokenLines (8 * k) ps pl out =
      encodeTokensLoop text tokens tokenLines (8 * Suc k) start line
        (appendVarint (appendVarint (appendVarint (appendVarint out kind) (start - ps)) sz) (line - pl))"
    by (subst encodeTokensLoop.simps) (simp only: Let_def c f(1-3) l(1) g if_True if_False)
  then show ?case
    unfolding IH by (simp add: t appendVarint_out)
qed

subsection \<open>The decoder on token rows\<close>

lemma tokenLine16_rows:
  "map (\<lambda>j. tokenLine16 (rows_bytes text ts) (j * tokenStride)) [0..<length ts] =
     map (\<lambda>t. take_bit 16 (row_line t)) ts"
proof -
  have "tokenLine16 (rows_bytes text ts) (j * tokenStride) = take_bit 16 (row_line (ts ! j))"
    if "j < length ts" for j
  proof -
    obtain kind start sz line where t: "ts ! j = (kind, start, sz, line)" by (cases "ts ! j")
    have "drop (length (rows_bytes text (take j ts))) (rows_bytes text (take j ts @ drop j ts)) =
        rows_bytes text (drop j ts)"
      unfolding rows_bytes_simps(3) by (rule drop_append_length)
    then have "drop (j * tokenStride) (rows_bytes text ts) = rows_bytes text (drop j ts)"
      using that by (simp add: mult.commute)
    also have "drop j ts = ts ! j # drop (Suc j) ts" using that by (rule drop_eq_ConsI)
    finally have d: "drop (j * tokenStride) (rows_bytes text ts) =
        tokenRecord text kind start sz line @ rows_bytes text (drop (Suc j) ts)"
      by (simp add: t)
    have "rows_bytes text ts ! (j * tokenStride + 6) = word_of_int line"
      "rows_bytes text ts ! (j * tokenStride + 7) = word_of_int (drop_bit 8 line)"
      using nth_of_drop[OF d, of 6] nth_of_drop[OF d, of 7] by (simp_all add: tokenRecord_def)
    then show ?thesis unfolding tokenLine16_def by (simp only: bytes16 t row_line.simps)
  qed
  then show ?thesis by (intro nth_equalityI) simp_all
qed

lemma growLines_rows:
  "growLines (length ts) (rows_bytes text ts) line largeLines =
     (let largeLines = (if line > 65535 \<and> largeLines = []
                        then map (\<lambda>t. take_bit 16 (row_line t)) ts else largeLines)
      in if largeLines \<noteq> [] then largeLines @ [line] else largeLines)"
  by (simp only: growLines_def tokenLine16_rows)

lemma decodeTokensLoop_complete:
  assumes "drop pos data = rows_enc ps pl ts @ rest" "pos \<le> length data"
    and "rows_ok text ps pl ts" "0 \<le> ps" "0 \<le> pl"
    and "i = length ds" "count = i + length ts" "out = rows_bytes text ds"
  shows "decodeTokensLoop text data count i pos ps pl out largeLines =
     Inr (out @ rows_bytes text ts, grow_rows (map (\<lambda>t. take_bit 16 (row_line t)) ds) largeLines ts,
          pos + length (rows_enc ps pl ts))"
  using assms
proof (induction ts arbitrary: i ds pos ps pl out largeLines)
  case Nil
  then show ?case by (subst decodeTokensLoop.simps) simp
next
  case (Cons t ts)
  obtain kind start sz line where t: "t = (kind, start, sz, line)" by (cases t)
  have ok: "row_ok text ps pl (kind, start, sz, line)" "rows_ok text start line ts"
    using Cons.prems(3) by (simp_all add: t)
  have u: "u32 kind" "u32 (start - ps)" "u32 sz" "u32 (line - pl)" "0 \<le> start" "0 \<le> line"
    using ok(1) Cons.prems(4,5) by (auto simp: u32_def)
  let ?p1 = "pos + length (varint kind)"
  let ?p2 = "?p1 + length (varint (start - ps))"
  let ?p3 = "?p2 + length (varint sz)"
  let ?p4 = "?p3 + length (varint (line - pl))"
  have d0: "drop pos data = varint kind @ varint (start - ps) @ varint sz @ varint (line - pl) @ rows_enc start line ts @ rest"
    using Cons.prems(1) by (simp add: t)
  have d1: "drop ?p1 data = varint (start - ps) @ varint sz @ varint (line - pl) @ rows_enc start line ts @ rest"
    using d0 by (simp add: drop_plus del: drop_drop)
  have d2: "drop ?p2 data = varint sz @ varint (line - pl) @ rows_enc start line ts @ rest"
    using d1 by (simp add: drop_plus[of ?p1] del: drop_drop)
  have d3: "drop ?p3 data = varint (line - pl) @ rows_enc start line ts @ rest"
    using d2 by (simp add: drop_plus[of ?p2] del: drop_drop)
  have d4: "drop ?p4 data = rows_enc start line ts @ rest"
    using d3 by (simp add: drop_plus[of ?p3] del: drop_drop)
  note L = drop_prefix_length
  have l1: "?p1 \<le> length data" by (rule L[OF d0 Cons.prems(2)])
  have l2: "?p2 \<le> length data" by (rule L[OF d1 l1])
  have l3: "?p3 \<le> length data" by (rule L[OF d2 l2])
  have l4: "?p4 \<le> length data" by (rule L[OF d3 l3])
  note r = readVarint_complete[OF d0 Cons.prems(2) u(1)] readVarint_complete[OF d1 l1 u(2)]
    readVarint_complete[OF d2 l2 u(3)] readVarint_complete[OF d3 l3 u(4)]
  let ?large = "growLines i out line largeLines"
  have IH: "decodeTokensLoop text data count (i + 1) ?p4 start line (out @ tokenRecord text kind start sz line) ?large =
     Inr ((out @ tokenRecord text kind start sz line) @ rows_bytes text ts,
          grow_rows (map (\<lambda>t. take_bit 16 (row_line t)) (ds @ [t])) ?large ts,
          ?p4 + length (rows_enc start line ts))"
    using Cons.prems(6-8) by (intro Cons.IH[OF d4 l4 ok(2) u(5,6)]) (simp_all add: t)
  have large: "grow_rows (map (\<lambda>t. take_bit 16 (row_line t)) ds) largeLines (t # ts) =
      grow_rows (map (\<lambda>t. take_bit 16 (row_line t)) (ds @ [t])) ?large ts"
    using Cons.prems(6,8) by (simp add: t growLines_rows Let_def)
  have g: "\<not> (kind < 0 \<or> kind > 255 \<or> start < 0 \<or> start > 0xffffff \<or> sz < 0 \<or> line < 0 \<or>
      start + sz > int (length text))"
    "\<not> (kind = renvoTokOp \<and> sz > 255)" "\<not> (kind \<noteq> renvoTokOp \<and> sz > 0xffff)"
    using ok(1) u by auto
  have e: "ps + (start - ps) = start" "pl + (line - pl) = line" by simp_all
  have c: "i < count" using Cons.prems(7) by simp
  have "decodeTokensLoop text data count i pos ps pl out largeLines =
      decodeTokensLoop text data count (i + 1) ?p4 start line (out @ tokenRecord text kind start sz line) ?large"
    by (subst decodeTokensLoop.simps) (simp only: r need_simps prod.case Let_def e g c if_True if_False)
  then show ?case unfolding IH large by (simp add: t)
qed

lemma decodeTokensLoop_sound:
  assumes "decodeTokensLoop text data count i pos ps pl out largeLines = Inr (out', largeLines', n)"
    and "i \<le> count" "pos \<le> length data" "0 \<le> ps" "0 \<le> pl"
  shows "\<exists>ts. rows_ok text ps pl ts \<and> length ts = count - i \<and> reads data pos (rows_enc ps pl ts) n"
  using assms
proof (induction "count - i" arbitrary: i pos ps pl out largeLines)
  case 0
  then show ?case
    by (subst (asm) decodeTokensLoop.simps) (auto simp: reads_def intro!: exI[of _ "[]"])
next
  case (Suc m)
  have i: "i < count" using Suc.hyps(2) by simp
  from Suc.prems(1) i obtain kind p1 sd p2 sz p3 ld p4 where
    r: "readVarint data pos = Some (kind, p1)" "readVarint data p1 = Some (sd, p2)"
      "readVarint data p2 = Some (sz, p3)" "readVarint data p3 = Some (ld, p4)"
    and g: "kind \<le> 255" "ps + sd \<le> 0xffffff" "ps + sd + sz \<le> int (length text)"
      "kind = renvoTokOp \<longrightarrow> sz \<le> 255" "kind \<noteq> renvoTokOp \<longrightarrow> sz \<le> 0xffff"
    and rest: "decodeTokensLoop text data count (i + 1) p4 (ps + sd) (pl + ld)
      (out @ tokenRecord text kind (ps + sd) sz (pl + ld)) (growLines i out (pl + ld) largeLines) =
      Inr (out', largeLines', n)"
    by (subst (asm) decodeTokensLoop.simps) (auto simp: need_Inr Let_def not_less split: if_splits)
  from r have v: "u32 kind" "u32 sd" "u32 sz" "u32 ld"
    "reads data pos (varint kind) p1" "reads data p1 (varint sd) p2"
    "reads data p2 (varint sz) p3" "reads data p3 (varint ld) p4"
    by (simp_all add: varint.rd_reads enc_appendVarint)
  have "m = count - (i + 1)" "i + 1 \<le> count" using Suc.hyps(2) i by simp_all
  moreover have "p4 \<le> length data" using v(8) by (simp add: reads_def)
  moreover have "0 \<le> ps + sd" "0 \<le> pl + ld" using Suc.prems(4,5) v by (simp_all add: u32_def)
  ultimately obtain ts where ts: "rows_ok text (ps + sd) (pl + ld) ts" "length ts = count - (i + 1)"
    "reads data p4 (rows_enc (ps + sd) (pl + ld) ts) n"
    using Suc.hyps(1)[OF _ rest] by blast
  have "rows_ok text ps pl ((kind, ps + sd, sz, pl + ld) # ts)"
    using ts(1) g v Suc.prems(4) by (auto simp: u32_def)
  moreover have "reads data pos (rows_enc ps pl ((kind, ps + sd, sz, pl + ld) # ts)) n"
    using v ts(3) by (auto intro!: reads_append)
  ultimately show ?case
    using ts(2) Suc.hyps(2) i by (intro exI[of _ "(kind, ps + sd, sz, pl + ld) # ts"]) auto
qed

text \<open>The token decoder accepts exactly the encodings of row lists.\<close>

lemma decodeTokens_iff:
  "decodeTokens text data = Inr (tokens, tokenLines) \<longleftrightarrow>
     (\<exists>ts. rows_ok text 0 0 ts \<and> u32 (int (length ts)) \<and>
           data = varint (int (length ts)) @ rows_enc 0 0 ts \<and>
           tokens = rows_bytes text ts \<and> tokenLines = grow_rows [] [] ts)"
proof
  assume "decodeTokens text data = Inr (tokens, tokenLines)"
  then obtain count pos where c: "readVarint data 0 = Some (count, pos)"
    and l: "decodeTokensLoop text data (nat count) 0 pos 0 0 [] [] = Inr (tokens, tokenLines, length data)"
    by (auto simp: decodeTokens_def need_Inr attempt_Inr split: if_splits)
  from c have c': "u32 count" "pos \<le> length data" "data = varint count @ drop pos data"
    unfolding readVarint_iff drop_0 by blast+
  from decodeTokensLoop_sound[OF l _ c'(2)] obtain ts where
    ts: "rows_ok text 0 0 ts" "length ts = nat count" "reads data pos (rows_enc 0 0 ts) (length data)"
    by auto
  have d: "drop pos data = rows_enc 0 0 ts @ []" using ts(3) by (simp add: reads_def)
  have "decodeTokensLoop text data (nat count) 0 pos 0 0 [] [] =
      Inr ([] @ rows_bytes text ts, grow_rows (map (\<lambda>t. take_bit 16 (row_line t)) []) [] ts, pos + length (rows_enc 0 0 ts))"
    using ts(1,2) by (intro decodeTokensLoop_complete[OF d c'(2)]) simp_all
  then show "\<exists>ts. rows_ok text 0 0 ts \<and> u32 (int (length ts)) \<and>
      data = varint (int (length ts)) @ rows_enc 0 0 ts \<and>
      tokens = rows_bytes text ts \<and> tokenLines = grow_rows [] [] ts"
    using l ts c' d by (intro exI[of _ ts]) (simp add: u32_def)
next
  assume "\<exists>ts. rows_ok text 0 0 ts \<and> u32 (int (length ts)) \<and>
      data = varint (int (length ts)) @ rows_enc 0 0 ts \<and>
      tokens = rows_bytes text ts \<and> tokenLines = grow_rows [] [] ts"
  then obtain ts where ts: "rows_ok text 0 0 ts" "u32 (int (length ts))"
    "data = varint (int (length ts)) @ rows_enc 0 0 ts"
    "tokens = rows_bytes text ts" "tokenLines = grow_rows [] [] ts" by blast
  let ?n = "length (varint (int (length ts)))"
  have "readVarint data 0 = Some (int (length ts), ?n)"
    using ts(2) readVarint_complete[of 0 data "int (length ts)" "rows_enc 0 0 ts"] ts(3) by simp
  moreover have "decodeTokensLoop text data (length ts) 0 ?n 0 0 [] [] =
      Inr ([] @ rows_bytes text ts, grow_rows (map (\<lambda>t. take_bit 16 (row_line t)) []) [] ts, ?n + length (rows_enc 0 0 ts))"
    using ts(1) by (intro decodeTokensLoop_complete[where rest = "[]"]) (simp_all add: ts(3))
  ultimately show "decodeTokens text data = Inr (tokens, tokenLines)"
    using ts by (simp add: decodeTokens_def)
qed

lemma encodeTokens_rows:
  assumes "rows_ok text 0 0 ts" "lines_for tokenLines (length ts) 0 ts"
  shows "encodeTokens text (rows_bytes text ts) tokenLines =
    Some (Inr (varint (int (length ts)) @ rows_enc 0 0 ts))"
  using encodeTokensLoop_rows[of 0 "rows_bytes text ts" "text" ts 0 0 tokenLines] assms
  by (simp add: encodeTokens_def varint_def)

subsection \<open>Lines\<close>

lemma grow_rows_nonempty: "largeLines \<noteq> [] \<Longrightarrow> grow_rows low largeLines ts = largeLines @ map row_line ts"
  by (induction low largeLines ts rule: grow_rows.induct) auto

lemma rows_ok_lines: "rows_ok text ps pl ts \<Longrightarrow> list_all (\<lambda>t. pl \<le> row_line t) ts"
proof (induction "text" ps pl ts rule: rows_ok.induct)
  case (2 pool ps pl kind start sz line ts)
  then have "pl \<le> line" "list_all (\<lambda>t. line \<le> row_line t) ts" by (auto simp: u32_def)
  then show ?case by (auto simp: list_all_iff)
qed simp

lemma grow_rows_from:
  assumes "rows_ok text ps pl ts" "0 \<le> pl" "low \<noteq> []"
  shows "grow_rows low [] ts =
    (if list_ex (\<lambda>t. row_line t > 65535) ts then low @ map row_line ts else [])"
  using assms
proof (induction "text" ps pl ts arbitrary: low rule: rows_ok.induct)
  case (2 pool ps pl kind start sz line ts)
  have "0 \<le> line" using 2 by (auto simp: u32_def)
  show ?case
  proof (cases "line > 65535")
    case True
    then show ?thesis using "2.prems"(3) by (simp add: Let_def grow_rows_nonempty)
  next
    case False
    then have "take_bit 16 line = line" using \<open>0 \<le> line\<close> by (intro take_bit_int_eq_self) auto
    then show ?thesis using False 2 \<open>0 \<le> line\<close> by (simp add: Let_def)
  qed
qed simp

text \<open>The decoder keeps every line, provided the first token's line fits in 16 bits.\<close>

lemma grow_rows_lines:
  assumes "rows_ok text 0 0 ts" "ts = [] \<or> row_line (hd ts) \<le> 65535"
  shows "grow_rows [] [] ts = (if list_ex (\<lambda>t. row_line t > 65535) ts then map row_line ts else [])"
proof (cases ts)
  case (Cons t us)
  obtain kind start sz line where t: "t = (kind, start, sz, line)" by (cases t)
  have "0 \<le> line" "line \<le> 65535" "rows_ok text start line us"
    using assms Cons t by (auto simp: u32_def)
  moreover from this have "take_bit 16 line = line" by (intro take_bit_int_eq_self) auto
  ultimately show ?thesis
    using grow_rows_from[of "text" start line us "[line]"] by (simp add: Cons t Let_def)
qed simp

text \<open>The token tables that survive a round trip: the rows read from the token bytes.\<close>

definition token_rows :: "bytes \<Rightarrow> int list \<Rightarrow> token_row list" where
  "token_rows tokens tokenLines =
     map (\<lambda>k. (uint (tokens ! (k * tokenStride)), readTokenStart tokens (k * tokenStride),
               (if uint (tokens ! (k * tokenStride)) \<noteq> renvoTokOp
                then uint (tokens ! (k * tokenStride + 4)) OR push_bit 8 (uint (tokens ! (k * tokenStride + 5)))
                else uint (tokens ! (k * tokenStride + 4))),
               (if length tokenLines = length tokens div tokenStride then tokenLines ! k
                else tokenLine16 tokens (k * tokenStride))))
       [0..<length tokens div tokenStride]"

definition wf_tokens :: "bytes \<Rightarrow> bytes \<Rightarrow> int list \<Rightarrow> bool" where
  "wf_tokens text tokens tokenLines \<longleftrightarrow>
     (let ts = token_rows tokens tokenLines
      in tokens = rows_bytes text ts \<and> u32 (int (length ts)) \<and> rows_ok text 0 0 ts \<and>
         (ts = [] \<or> row_line (hd ts) \<le> 65535) \<and>
         tokenLines = (if list_ex (\<lambda>t. row_line t > 65535) ts then map row_line ts else []))"

lemma lines_for_canonical:
  assumes "rows_ok text 0 0 ts"
    and "tokenLines = (if list_ex (\<lambda>t. row_line t > 65535) ts then map row_line ts else [])"
  shows "lines_for tokenLines (length ts) 0 ts"
  using assms rows_ok_lines[OF assms(1)]
  by (auto simp: lines_for_def list_ex_iff list_all_iff not_less)

lemma tokens_roundtrip:
  assumes "wf_tokens text tokens tokenLines"
  shows "\<exists>bs. encodeTokens text tokens tokenLines = Some (Inr bs) \<and>
    decodeTokens text bs = Inr (tokens, tokenLines)"
proof -
  define ts where "ts = token_rows tokens tokenLines"
  have w: "tokens = rows_bytes text ts" "u32 (int (length ts))" "rows_ok text 0 0 ts"
    "ts = [] \<or> row_line (hd ts) \<le> 65535"
    "tokenLines = (if list_ex (\<lambda>t. row_line t > 65535) ts then map row_line ts else [])"
    using assms by (simp_all only: wf_tokens_def Let_def ts_def)
  have "encodeTokens text tokens tokenLines = Some (Inr (varint (int (length ts)) @ rows_enc 0 0 ts))"
    unfolding w(1) by (rule encodeTokens_rows[OF w(3) lines_for_canonical[OF w(3,5)]])
  moreover have "decodeTokens text (varint (int (length ts)) @ rows_enc 0 0 ts) = Inr (tokens, tokenLines)"
    unfolding decodeTokens_iff using w grow_rows_lines[OF w(3,4)] by (intro exI[of _ ts]) simp
  ultimately show ?thesis by blast
qed

end
