(* ===== verification/Unit_Codec.thy ===== *)
theory Unit_Codec
  imports Unit_Sem_Tables Unit_Tokens
begin

text \<open>
  The container of the unit format: the schema's tags (\<open>schema_generated.go\<close>), nodes, the core
  range checks, \<open>Marshal\<close> and \<open>Unmarshal\<close> of \<open>backend/unit/unit.go\<close>.  \<open>Unmarshal\<close> is split into
  the header checks, the loop over the child nodes with its scan state, and the table phase that
  follows the loop.
\<close>

subsection \<open>Schema\<close>

abbreviation (input) TagUnit :: int where "TagUnit \<equiv> 1"
abbreviation (input) TagPackage :: int where "TagPackage \<equiv> 2"
abbreviation (input) TagImportPath :: int where "TagImportPath \<equiv> 3"
abbreviation (input) TagText :: int where "TagText \<equiv> 7"
abbreviation (input) TagTokens :: int where "TagTokens \<equiv> 8"
abbreviation (input) TagDecls :: int where "TagDecls \<equiv> 9"
abbreviation (input) TagFuncs :: int where "TagFuncs \<equiv> 10"
abbreviation (input) TagIndexes :: int where "TagIndexes \<equiv> 11"
abbreviation (input) TagComps :: int where "TagComps \<equiv> 12"
abbreviation (input) TagAssigns :: int where "TagAssigns \<equiv> 13"
abbreviation (input) TagReturns :: int where "TagReturns \<equiv> 14"
abbreviation (input) TagCalls :: int where "TagCalls \<equiv> 15"
abbreviation (input) TagRefs :: int where "TagRefs \<equiv> 16"
abbreviation (input) TagSels :: int where "TagSels \<equiv> 17"
abbreviation (input) TagTypes :: int where "TagTypes \<equiv> 18"
abbreviation (input) TagTypeRefs :: int where "TagTypeRefs \<equiv> 19"
abbreviation (input) TagLocals :: int where "TagLocals \<equiv> 20"
abbreviation (input) TagSigs :: int where "TagSigs \<equiv> 21"
abbreviation (input) TagDeclMeta :: int where "TagDeclMeta \<equiv> 22"
abbreviation (input) TagImports :: int where "TagImports \<equiv> 23"
abbreviation (input) TagSymbols :: int where "TagSymbols \<equiv> 24"
abbreviation (input) TagInitOrder :: int where "TagInitOrder \<equiv> 25"
abbreviation (input) TagConsts :: int where "TagConsts \<equiv> 26"
abbreviation (input) TagTypeFields :: int where "TagTypeFields \<equiv> 27"
abbreviation (input) TagTypeIfaces :: int where "TagTypeIfaces \<equiv> 28"
abbreviation (input) TagMethods :: int where "TagMethods \<equiv> 29"
abbreviation (input) TagTypeFuncs :: int where "TagTypeFuncs \<equiv> 30"
abbreviation (input) TagStmts :: int where "TagStmts \<equiv> 31"
abbreviation (input) TagPackages :: int where "TagPackages \<equiv> 32"
abbreviation (input) TagRTGAssembly :: int where "TagRTGAssembly \<equiv> 33"
abbreviation (input) TagEntrypoint :: int where "TagEntrypoint \<equiv> 34"
abbreviation (input) TagForeignPrograms :: int where "TagForeignPrograms \<equiv> 35"

definition Magic :: bytes where
  "Magic = [0x52, 0x4e, 0x56, 0x4f]"

abbreviation (input) Version :: int where "Version \<equiv> 1"

definition schemaChildTagIndex :: "int \<Rightarrow> int" where
  "schemaChildTagIndex tag =
     (if tag \<ge> TagPackage \<and> tag \<le> TagImportPath then tag - 2
      else if tag \<ge> TagText \<and> tag \<le> TagForeignPrograms then tag - 5
      else -1)"

abbreviation (input) schemaRequiredChildMaskLow :: int where "schemaRequiredChildMaskLow \<equiv> 63"
abbreviation (input) schemaRequiredChildMaskHigh :: int where "schemaRequiredChildMaskHigh \<equiv> 0"

subsection \<open>The program of a unit\<close>

record Program =
  prog_Package :: gostring
  prog_ImportPath :: gostring
  prog_Text :: bytes
  prog_Tokens :: bytes
  prog_TokenLines :: "int list"
  prog_Imports :: "Import list"
  prog_Symbols :: "Symbol list"
  prog_Decls :: "Decl list"
  prog_DeclMeta :: "DeclMeta list"
  prog_InitOrder :: "int list"
  prog_Consts :: "ConstValue list"
  prog_Funcs :: "Func list"
  prog_Signatures :: "FuncSignature list"
  prog_Stmts :: "Statement list"
  prog_Types :: "TypeInfo list"
  prog_TypeFields :: "TypeFields list"
  prog_TypeIfaces :: "TypeIface list"
  prog_TypeFuncs :: "TypeFuncSig list"
  prog_Methods :: "MethodInfo list"
  prog_TypeRefs :: "TypeRef list"
  prog_Locals :: "LocalDecl list"
  prog_Indexes :: "IndexExpr list"
  prog_Composites :: "CompositeExpr list"
  prog_Assigns :: "Assignment list"
  prog_Returns :: "Return list"
  prog_Calls :: "Call list"
  prog_Refs :: "NameRef list"
  prog_Selectors :: "Selector list"
  prog_Packages :: "PackageInfo list"

definition emptyProgram :: Program where
  "emptyProgram =
     \<lparr>prog_Package = [], prog_ImportPath = [], prog_Text = [], prog_Tokens = [], prog_TokenLines = [],
      prog_Imports = [], prog_Symbols = [], prog_Decls = [], prog_DeclMeta = [], prog_InitOrder = [],
      prog_Consts = [], prog_Funcs = [], prog_Signatures = [], prog_Stmts = [], prog_Types = [],
      prog_TypeFields = [], prog_TypeIfaces = [], prog_TypeFuncs = [], prog_Methods = [], prog_TypeRefs = [],
      prog_Locals = [], prog_Indexes = [], prog_Composites = [], prog_Assigns = [], prog_Returns = [],
      prog_Calls = [], prog_Refs = [], prog_Selectors = [], prog_Packages = []\<rparr>"

subsection \<open>Core range checks\<close>

definition unitRangeValid :: "int \<Rightarrow> int \<Rightarrow> int \<Rightarrow> bool" where
  "unitRangeValid limit start fin \<longleftrightarrow> start \<ge> 0 \<and> fin \<ge> start \<and> fin \<le> limit"

definition declRangesValid :: "Program \<Rightarrow> int \<Rightarrow> Decl \<Rightarrow> bool" where
  "declRangesValid p tokenCount decl \<longleftrightarrow>
     \<not> (\<not> unitRangeValid (int (length (prog_Text p))) (decl_NameStart decl) (decl_NameEnd decl) \<or>
        \<not> unitRangeValid tokenCount (decl_StartTok decl) (decl_EndTok decl))"

definition funcRangesValid :: "Program \<Rightarrow> int \<Rightarrow> Func \<Rightarrow> bool" where
  "funcRangesValid p tokenCount f \<longleftrightarrow>
     \<not> (\<not> unitRangeValid (int (length (prog_Text p))) (fn_NameStart f) (fn_NameEnd f) \<or>
        \<not> unitRangeValid tokenCount (fn_StartTok f) (fn_EndTok f) \<or>
        \<not> unitRangeValid tokenCount (fn_ReceiverStart f) (fn_ReceiverEnd f) \<or>
        \<not> unitRangeValid tokenCount (fn_BodyStart f) (fn_BodyEnd f) \<or>
        fn_NameTok f < fn_StartTok f \<or> fn_NameTok f \<ge> fn_EndTok f)"

definition packageRangesValid :: "Program \<Rightarrow> int \<Rightarrow> PackageInfo \<Rightarrow> bool" where
  "packageRangesValid p tokenCount pkg \<longleftrightarrow>
     \<not> (pkg_Name pkg = [] \<or> pkg_ImportPath pkg = [] \<or>
        \<not> unitRangeValid (int (length (prog_Text p))) (pkg_TextStart pkg) (pkg_TextEnd pkg) \<or>
        \<not> unitRangeValid tokenCount (pkg_TokenStart pkg) (pkg_TokenEnd pkg) \<or>
        \<not> unitRangeValid (int (length (prog_Decls p))) (pkg_DeclStart pkg) (pkg_DeclEnd pkg) \<or>
        \<not> unitRangeValid (int (length (prog_Funcs p))) (pkg_FuncStart pkg) (pkg_FuncEnd pkg))"

text \<open>\<open>for i, x := range xs { if !ok(x) { return fmt.Errorf (msg, i) } }\<close>.\<close>

fun rangeCheck :: "string \<Rightarrow> ('a \<Rightarrow> bool) \<Rightarrow> nat \<Rightarrow> 'a list \<Rightarrow> go_error option" where
  "rangeCheck msg ok i [] = None"
| "rangeCheck msg ok i (x # xs) =
     (if \<not> ok x then Some (Errorf msg [int i]) else rangeCheck msg ok (i + 1) xs)"

definition validateCoreUnitRanges :: "Program \<Rightarrow> go_error option" where
  "validateCoreUnitRanges p =
     (if prog_Package p = [] then Some (Errorf ''unit missing package'' [])
      else if prog_Text p = [] then Some (Errorf ''unit missing text pool'' [])
      else if prog_Tokens p = [] \<or> length (prog_Tokens p) mod tokenStride \<noteq> 0 then
        Some (Errorf ''token data length %d is not a positive multiple of %d''
          [int (length (prog_Tokens p)), int tokenStride])
      else
        let tokenCount = length (prog_Tokens p) div tokenStride in
        if prog_TokenLines p \<noteq> [] \<and> length (prog_TokenLines p) \<noteq> tokenCount then
          Some (Errorf ''token line table has %d entries, want %d'' [int (length (prog_TokenLines p)), int tokenCount])
        else if uint (prog_Tokens p ! ((tokenCount - 1) * tokenStride)) \<noteq> renvoTokEOF then
          Some (Errorf ''token table does not end with EOF'' [])
        else
          case rangeCheck ''declaration %d has an invalid range'' (declRangesValid p (int tokenCount)) 0 (prog_Decls p) of
            Some e \<Rightarrow> Some e
          | None \<Rightarrow>
              (case rangeCheck ''function %d has an invalid range'' (funcRangesValid p (int tokenCount)) 0 (prog_Funcs p) of
                 Some e \<Rightarrow> Some e
               | None \<Rightarrow>
                   rangeCheck ''package ownership %d has an invalid range'' (packageRangesValid p (int tokenCount)) 0
                     (prog_Packages p)))"

subsection \<open>Nodes\<close>

datatype Node = Node (node_Tag: int) (node_Data: bytes) (node_Children: "Node list")

definition NewNode :: "int \<Rightarrow> bytes \<Rightarrow> Node" where
  "NewNode tag data = (if length data = 0 then Node tag [] [] else Node tag data [])"

definition Parent :: "int \<Rightarrow> Node list \<Rightarrow> Node" where
  "Parent tag children = Node tag [] ([] @ children)"

text \<open>\<open>binary.LittleEndian.PutUint16\<close> and \<open>PutUint32\<close>.\<close>

definition putUint16 :: "int \<Rightarrow> bytes" where
  "putUint16 v = [word_of_int v, word_of_int (drop_bit 8 v)]"

definition putUint32 :: "int \<Rightarrow> bytes" where
  "putUint32 v = [word_of_int v, word_of_int (drop_bit 8 v), word_of_int (drop_bit 16 v), word_of_int (drop_bit 24 v)]"

fun writeNode :: "bytes \<Rightarrow> Node \<Rightarrow> go_error + bytes"
  and writeNodes :: "bytes \<Rightarrow> Node list \<Rightarrow> go_error + bytes" where
  "writeNode out (Node tag data children) =
     attempt (if length children > 0 then writeNodes [] children else Inr data) (\<lambda>payload.
     if int (length payload) > 0xffffffff then Inl (Errorf ''node %d payload too large'' [tag])
     else Inr (out @ (putUint16 tag @ putUint32 (int (length payload))) @ payload))"
| "writeNodes out [] = Inr out"
| "writeNodes out (child # children) =
     attempt (writeNode out child) (\<lambda>out. writeNodes out children)"

subsection \<open>\<open>Marshal\<close>\<close>

definition marshalChildren :: "Program \<Rightarrow> bytes \<Rightarrow> Node list" where
  "marshalChildren p tokens =
     [NewNode TagPackage (prog_Package p),
      NewNode TagImportPath (prog_ImportPath p),
      NewNode TagText (prog_Text p),
      NewNode TagTokens tokens,
      NewNode TagImports (encodeImports (prog_Imports p)),
      NewNode TagSymbols (encodeSymbols (prog_Symbols p)),
      NewNode TagDecls (encodeDecls (prog_Decls p)),
      NewNode TagDeclMeta (encodeDeclMeta (prog_DeclMeta p)),
      NewNode TagInitOrder (encodeInitOrder (prog_InitOrder p)),
      NewNode TagConsts (encodeConsts (prog_Consts p)),
      NewNode TagFuncs (encodeFuncs (prog_Funcs p)),
      NewNode TagSigs (encodeSignatures (prog_Signatures p)),
      NewNode TagStmts (encodeStatements (prog_Stmts p)),
      NewNode TagTypes (encodeTypes (prog_Types p)),
      NewNode TagTypeFields (encodeTypeFields (prog_TypeFields p)),
      NewNode TagTypeIfaces (encodeTypeInterfaces (prog_TypeIfaces p)),
      NewNode TagTypeFuncs (encodeTypeFuncs (prog_TypeFuncs p)),
      NewNode TagMethods (encodeMethods (prog_Methods p)),
      NewNode TagTypeRefs (encodeTypeRefs (prog_TypeRefs p)),
      NewNode TagLocals (encodeLocals (prog_Locals p)),
      NewNode TagIndexes (encodeIndexes (prog_Indexes p)),
      NewNode TagComps (encodeComposites (prog_Composites p)),
      NewNode TagAssigns (encodeAssignments (prog_Assigns p)),
      NewNode TagReturns (encodeReturns (prog_Returns p)),
      NewNode TagCalls (encodeCalls (prog_Calls p)),
      NewNode TagRefs (encodeRefs (prog_Refs p)),
      NewNode TagSels (encodeSelectors (prog_Selectors p)),
      NewNode TagPackages (encodePackages (prog_Packages p)),
      NewNode TagRTGAssembly [],
      NewNode TagEntrypoint [],
      NewNode TagForeignPrograms []]"

definition Marshal :: "Program \<Rightarrow> (go_error + bytes) option" where
  "Marshal p =
     (case validateCoreUnitRanges p of
        Some e \<Rightarrow> Some (Inl e)
      | None \<Rightarrow>
          (case encodeTokens (prog_Text p) (prog_Tokens p) (prog_TokenLines p) of
             None \<Rightarrow> None
           | Some r \<Rightarrow>
               Some (attempt r (\<lambda>tokens.
                 writeNode (Magic @ putUint16 Version @ putUint16 0) (Parent TagUnit (marshalChildren p tokens))))))"

subsection \<open>\<open>Unmarshal\<close>: the child loop\<close>

text \<open>
  The locals of \<open>Unmarshal\<close>: the program under construction, the two masks of seen tags, and,
  indexed by the tag of its table, the variables \<open>seenX\<close> and \<open>xData\<close>.
\<close>

record UnitScan =
  scan_program :: Program
  scan_low :: int
  scan_high :: int
  scan_seen :: "int \<Rightarrow> bool"
  scan_data :: "int \<Rightarrow> bytes"

definition initScan :: UnitScan where
  "initScan = \<lparr>scan_program = emptyProgram, scan_low = 0, scan_high = 0,
     scan_seen = (\<lambda>_. False), scan_data = (\<lambda>_. [])\<rparr>"

text \<open>The case labels of the switch with the messages of their \<open>seenX\<close> guards.\<close>

definition duplicateMessage :: "int \<Rightarrow> string option" where
  "duplicateMessage tag =
     (if tag = TagPackage then Some ''duplicate package''
      else if tag = TagImportPath then Some ''duplicate import path''
      else if tag = TagText then Some ''duplicate text pool''
      else if tag = TagTokens then Some ''duplicate token table''
      else if tag = TagImports then Some ''duplicate import table''
      else if tag = TagSymbols then Some ''duplicate symbol table''
      else if tag = TagDecls then Some ''duplicate declaration table''
      else if tag = TagDeclMeta then Some ''duplicate decl metadata table''
      else if tag = TagInitOrder then Some ''duplicate init order table''
      else if tag = TagConsts then Some ''duplicate const table''
      else if tag = TagFuncs then Some ''duplicate function table''
      else if tag = TagSigs then Some ''duplicate signature table''
      else if tag = TagStmts then Some ''duplicate statement table''
      else if tag = TagTypes then Some ''duplicate type table''
      else if tag = TagTypeFields then Some ''duplicate type field table''
      else if tag = TagTypeIfaces then Some ''duplicate type interface table''
      else if tag = TagTypeFuncs then Some ''duplicate type func table''
      else if tag = TagMethods then Some ''duplicate method table''
      else if tag = TagTypeRefs then Some ''duplicate type ref table''
      else if tag = TagLocals then Some ''duplicate local table''
      else if tag = TagIndexes then Some ''duplicate index table''
      else if tag = TagComps then Some ''duplicate composite table''
      else if tag = TagAssigns then Some ''duplicate assignment table''
      else if tag = TagReturns then Some ''duplicate return table''
      else if tag = TagCalls then Some ''duplicate call table''
      else if tag = TagRefs then Some ''duplicate ref table''
      else if tag = TagSels then Some ''duplicate selector table''
      else if tag = TagPackages then Some ''duplicate package ownership table''
      else None)"

definition childSwitch :: "UnitScan \<Rightarrow> int \<Rightarrow> bytes \<Rightarrow> go_error + UnitScan" where
  "childSwitch st tag payload =
     (case duplicateMessage tag of
        None \<Rightarrow> Inr st
      | Some msg \<Rightarrow>
          if scan_seen st tag then Inl (Errorf msg [])
          else
            let st = st\<lparr>scan_seen := (scan_seen st)(tag := True)\<rparr>;
                p = scan_program st
            in if tag = TagPackage then Inr (st\<lparr>scan_program := p\<lparr>prog_Package := payload\<rparr>\<rparr>)
               else if tag = TagImportPath then Inr (st\<lparr>scan_program := p\<lparr>prog_ImportPath := payload\<rparr>\<rparr>)
               else if tag = TagText then Inr (st\<lparr>scan_program := p\<lparr>prog_Text := payload\<rparr>\<rparr>)
               else if tag = TagDecls then
                 attempt (decodeDecls payload) (\<lambda>decls. Inr (st\<lparr>scan_program := p\<lparr>prog_Decls := decls\<rparr>\<rparr>))
               else if tag = TagFuncs then
                 attempt (decodeFuncs payload) (\<lambda>funcs. Inr (st\<lparr>scan_program := p\<lparr>prog_Funcs := funcs\<rparr>\<rparr>))
               else Inr (st\<lparr>scan_data := (scan_data st)(tag := payload)\<rparr>))"

definition markTag :: "UnitScan \<Rightarrow> int \<Rightarrow> go_error + UnitScan" where
  "markTag st tag =
     (let tagIndex = schemaChildTagIndex tag in
      if tagIndex \<ge> 0 then
        if tagIndex < 16 then
          let bit = push_bit (nat tagIndex) 1 in
          if scan_low st AND bit \<noteq> 0 then Inl (Errorf ''duplicate unit child tag %d'' [tag])
          else Inr (st\<lparr>scan_low := scan_low st OR bit\<rparr>)
        else
          let bit = push_bit (nat (tagIndex - 16)) 1 in
          if scan_high st AND bit \<noteq> 0 then Inl (Errorf ''duplicate unit child tag %d'' [tag])
          else Inr (st\<lparr>scan_high := scan_high st OR bit\<rparr>)
      else Inr st)"

definition childStep :: "UnitScan \<Rightarrow> int \<Rightarrow> bytes \<Rightarrow> go_error + UnitScan" where
  "childStep st tag payload =
     (if tag = TagUnit then Inl (Errorf ''unit tag cannot be nested'' [])
      else attempt (markTag st tag) (\<lambda>st. childSwitch st tag payload))"

function childLoop :: "bytes \<Rightarrow> nat \<Rightarrow> nat \<Rightarrow> UnitScan \<Rightarrow> go_error + UnitScan" where
  "childLoop data rootEnd pos st =
     (if pos < rootEnd then
        if pos + 6 > rootEnd then Inl (Errorf ''truncated child node'' [])
        else
          let tag = le16 data pos;
              len = nat (le32 data (pos + 2));
              nxt = pos + 6 + len
          in if nxt < pos + 6 \<or> nxt > rootEnd then Inl (Errorf ''invalid child length'' [])
             else
               let payload = take (nxt - (pos + 6)) (drop (pos + 6) data)
               in attempt (childStep st tag payload) (\<lambda>st. childLoop data rootEnd nxt st)
      else Inr st)"
  by pat_completeness auto
termination
  by (relation "measure (\<lambda>(data, rootEnd, pos, st). rootEnd - pos)") auto

declare childLoop.simps [simp del]

subsection \<open>\<open>Unmarshal\<close>: the table phase\<close>

text \<open>\<open>if seenX { xs, err := decodeX (xData); if err != nil { return err }; program.X = xs }\<close>.\<close>

definition whenSeen ::
  "UnitScan \<Rightarrow> int \<Rightarrow> (bytes \<Rightarrow> go_error + 'a) \<Rightarrow> ('a \<Rightarrow> Program \<Rightarrow> Program) \<Rightarrow> Program \<Rightarrow> go_error + Program" where
  "whenSeen st tag decode upd p =
     (if scan_seen st tag then attempt (decode (scan_data st tag)) (\<lambda>xs. Inr (upd xs p)) else Inr p)"

definition decodePackageTables :: "UnitScan \<Rightarrow> Program \<Rightarrow> go_error + Program" where
  "decodePackageTables st p =
     attempt (whenSeen st TagImports decodeImports (\<lambda>x. prog_Imports_update (\<lambda>_. x)) p) (\<lambda>p.
     attempt (whenSeen st TagSymbols decodeSymbols (\<lambda>x. prog_Symbols_update (\<lambda>_. x)) p) (\<lambda>p.
     attempt (whenSeen st TagDeclMeta decodeDeclMeta (\<lambda>x. prog_DeclMeta_update (\<lambda>_. x)) p) (\<lambda>p.
     attempt (whenSeen st TagInitOrder decodeInitOrder (\<lambda>x. prog_InitOrder_update (\<lambda>_. x)) p) (\<lambda>p.
     attempt (whenSeen st TagConsts decodeConsts (\<lambda>x. prog_Consts_update (\<lambda>_. x)) p) (\<lambda>p.
     attempt (whenSeen st TagSigs decodeSignatures (\<lambda>x. prog_Signatures_update (\<lambda>_. x)) p) (\<lambda>p.
     Inr p))))))"

definition decodeBodyTables :: "UnitScan \<Rightarrow> Program \<Rightarrow> go_error + Program" where
  "decodeBodyTables st p =
     attempt (whenSeen st TagStmts decodeStatements (\<lambda>x. prog_Stmts_update (\<lambda>_. x)) p) (\<lambda>p.
     attempt (whenSeen st TagTypes decodeTypes (\<lambda>x. prog_Types_update (\<lambda>_. x)) p) (\<lambda>p.
     attempt (whenSeen st TagTypeFields decodeTypeFields (\<lambda>x. prog_TypeFields_update (\<lambda>_. x)) p) (\<lambda>p.
     attempt (whenSeen st TagTypeIfaces decodeTypeInterfaces (\<lambda>x. prog_TypeIfaces_update (\<lambda>_. x)) p) (\<lambda>p.
     attempt (whenSeen st TagTypeFuncs decodeTypeFuncs (\<lambda>x. prog_TypeFuncs_update (\<lambda>_. x)) p) (\<lambda>p.
     attempt (whenSeen st TagMethods decodeMethods (\<lambda>x. prog_Methods_update (\<lambda>_. x)) p) (\<lambda>p.
     attempt (whenSeen st TagTypeRefs decodeTypeRefs (\<lambda>x. prog_TypeRefs_update (\<lambda>_. x)) p) (\<lambda>p.
     attempt (whenSeen st TagLocals decodeLocals (\<lambda>x. prog_Locals_update (\<lambda>_. x)) p) (\<lambda>p.
     attempt (whenSeen st TagIndexes decodeIndexes (\<lambda>x. prog_Indexes_update (\<lambda>_. x)) p) (\<lambda>p.
     attempt (whenSeen st TagComps decodeComposites (\<lambda>x. prog_Composites_update (\<lambda>_. x)) p) (\<lambda>p.
     attempt (whenSeen st TagAssigns decodeAssignments (\<lambda>x. prog_Assigns_update (\<lambda>_. x)) p) (\<lambda>p.
     attempt (whenSeen st TagReturns decodeReturns (\<lambda>x. prog_Returns_update (\<lambda>_. x)) p) (\<lambda>p.
     attempt (whenSeen st TagCalls decodeCalls (\<lambda>x. prog_Calls_update (\<lambda>_. x)) p) (\<lambda>p.
     attempt (whenSeen st TagRefs decodeRefs (\<lambda>x. prog_Refs_update (\<lambda>_. x)) p) (\<lambda>p.
     attempt (whenSeen st TagSels decodeSelectors (\<lambda>x. prog_Selectors_update (\<lambda>_. x)) p) (\<lambda>p.
     attempt (whenSeen st TagPackages decodePackages (\<lambda>x. prog_Packages_update (\<lambda>_. x)) p) (\<lambda>p.
     Inr p))))))))))))))))"

definition finishUnmarshal :: "UnitScan \<Rightarrow> go_error + Program" where
  "finishUnmarshal st =
     (let p = scan_program st in
      if scan_low st AND schemaRequiredChildMaskLow \<noteq> schemaRequiredChildMaskLow \<or>
         scan_high st AND schemaRequiredChildMaskHigh \<noteq> schemaRequiredChildMaskHigh then
        Inl (Errorf ''unit missing required table'' [])
      else if prog_Package p = [] then Inl (Errorf ''unit missing package'' [])
      else if prog_Text p = [] then Inl (Errorf ''unit missing text pool'' [])
      else
        attempt (decodeTokens (prog_Text p) (scan_data st TagTokens)) (\<lambda>(tokens, tokenLines).
        let p = p\<lparr>prog_Tokens := tokens, prog_TokenLines := tokenLines\<rparr> in
        attempt (decodePackageTables st p) (\<lambda>p.
        attempt (decodeBodyTables st p) (\<lambda>p.
        if prog_Tokens p = [] then Inl (Errorf ''unit missing token table'' [])
        else case validateCoreUnitRanges p of Some e \<Rightarrow> Inl e | None \<Rightarrow> Inr p))))"

definition Unmarshal :: "bytes \<Rightarrow> go_error + Program" where
  "Unmarshal data =
     (if length data < 14 then Inl (Errorf ''unit too short'' [])
      else if take 4 data \<noteq> Magic then Inl (Errorf ''bad unit magic'' [])
      else if le16 data 4 \<noteq> Version then Inl (Errorf ''unsupported unit version %d'' [le16 data 4])
      else if le16 data 6 \<noteq> 0 then Inl (Errorf ''unsupported unit flags'' [])
      else
        let rootTag = le16 data 8;
            rootLength = nat (le32 data 10)
        in if rootTag \<noteq> TagUnit then Inl (Errorf ''root tag = %d, want %d'' [rootTag, TagUnit])
           else
             let rootStart = 14;
                 rootEnd = rootStart + rootLength
             in if rootEnd < rootStart \<or> rootEnd \<noteq> length data then Inl (Errorf ''invalid root length'' [])
                else attempt (childLoop data rootEnd rootStart initScan) finishUnmarshal)"

end
