(* ===== verification/Unit_Container.thy ===== *)
theory Unit_Container
  imports Unit_Codec
begin

text \<open>
  What the container of a unit is: every accepted unit is the header followed by a list of
  children (tag and payload), and the child loop of \<open>Unmarshal\<close> is a fold over that list.  The
  fold accepts a list when no known tag repeats; its result is read off the list as a map from
  tags to payloads.  Round trip, order independence and the skipping of unknown tables follow.
\<close>

subsection \<open>Children as a list\<close>

definition childBytes :: "int \<times> bytes \<Rightarrow> bytes" where
  "childBytes c = putUint16 (fst c) @ putUint32 (int (length (snd c))) @ snd c"

definition childrenBytes :: "(int \<times> bytes) list \<Rightarrow> bytes" where
  "childrenBytes cs = concat (map childBytes cs)"

definition unitBytes :: "(int \<times> bytes) list \<Rightarrow> bytes" where
  "unitBytes cs =
     Magic @ putUint16 Version @ putUint16 0 @ putUint16 TagUnit @
     putUint32 (int (length (childrenBytes cs))) @ childrenBytes cs"

definition child_ok :: "int \<times> bytes \<Rightarrow> bool" where
  "child_ok c \<longleftrightarrow> 0 \<le> fst c \<and> fst c < 65536 \<and> u32 (int (length (snd c)))"

fun scanChildren :: "UnitScan \<Rightarrow> (int \<times> bytes) list \<Rightarrow> go_error + UnitScan" where
  "scanChildren st [] = Inr st"
| "scanChildren st ((tag, payload) # cs) =
     attempt (childStep st tag payload) (\<lambda>st. scanChildren st cs)"

lemma childrenBytes_simps [simp]:
  "childrenBytes [] = []" "childrenBytes (c # cs) = childBytes c @ childrenBytes cs"
  "childrenBytes (cs @ ds) = childrenBytes cs @ childrenBytes ds"
  by (simp_all add: childrenBytes_def)

lemma length_put [simp]: "length (putUint16 v) = 2" "length (putUint32 v) = 4"
  by (simp_all add: putUint16_def putUint32_def)

lemma putUint32_enc: "putUint32 v = enc appendFixed32 v"
  by (simp add: putUint32_def enc_def appendFixed32_def)

lemma le16_put:
  assumes "drop pos data = putUint16 v @ rest" "0 \<le> v" "v < 65536"
  shows "le16 data pos = v"
proof -
  have "data ! (pos + i) = putUint16 v ! i" if "i < 2" for i
    using nth_of_drop[OF assms(1)] that by simp
  from this[of 0] this[of 1]
  have "data ! pos = word_of_int v" "data ! (pos + 1) = word_of_int (drop_bit 8 v)"
    by (simp_all add: putUint16_def)
  moreover have "take_bit 16 v = v"
    using assms(2,3) by (intro take_bit_int_eq_self) auto
  ultimately show ?thesis unfolding le16_def by (simp only: bytes16)
qed

lemma le32_put:
  assumes "drop pos data = putUint32 v @ rest" "u32 v"
  shows "le32 data pos = v"
  using fixed32.rd_complete[of pos data v rest] assms
  by (auto simp: putUint32_enc readFixed32_def split: if_splits)

lemma put16_le16:
  assumes "pos + 2 \<le> length data"
  shows "drop pos data = putUint16 (le16 data pos) @ drop (pos + 2) data"
    "0 \<le> le16 data pos" "le16 data pos < 65536"
proof -
  let ?a = "data ! pos" and ?b = "data ! Suc pos"
  have v: "le16 data pos = uint ?a + uint ?b * 256"
    unfolding le16_def by (subst or_push_bit_eq_add) simp_all
  note r = uint_byte_range(1,2)[of ?a] uint_byte_range(1,2)[of ?b]
  show "0 \<le> le16 data pos" "le16 data pos < 65536" unfolding v using r by linarith+
  have "putUint16 (le16 data pos) = [?a, ?b]"
    unfolding putUint16_def v byte_eq_iff_uint list.inject
    by (simp only: byte_eq_iff_uint uint_word_of_int_byte drop_bit_eq_div) (use r in simp)
  moreover have "drop pos data = ?a # ?b # drop (Suc (Suc pos)) data"
    using assms by (simp add: drop_eq_ConsI)
  ultimately show "drop pos data = putUint16 (le16 data pos) @ drop (pos + 2) data"
    by (simp add: numeral_2_eq_2)
qed

lemma put32_le32:
  assumes "pos + 4 \<le> length data"
  shows "drop pos data = putUint32 (le32 data pos) @ drop (pos + 4) data" "u32 (le32 data pos)"
  using fixed32.rd_sound[of data pos "le32 data pos" "pos + 4"] assms
  by (simp_all add: readFixed32_def putUint32_enc)

lemma childLoop_children:
  assumes "drop pos data = childrenBytes cs" "pos \<le> length data" "list_all child_ok cs"
  shows "childLoop data (length data) pos st = scanChildren st cs"
  using assms
proof (induction cs arbitrary: pos st)
  case Nil
  then show ?case by (subst childLoop.simps) simp
next
  case (Cons c cs)
  obtain tag payload where c: "c = (tag, payload)" by (cases c)
  have ok: "0 \<le> tag" "tag < 65536" "u32 (int (length payload))" "list_all child_ok cs"
    using Cons.prems(3) by (simp_all add: c child_ok_def[of "(tag, payload)"])
  have d0: "drop pos data = putUint16 tag @ putUint32 (int (length payload)) @ payload @ childrenBytes cs"
    using Cons.prems(1) by (simp add: c childBytes_def)
  have d2: "drop (pos + 2) data = putUint32 (int (length payload)) @ payload @ childrenBytes cs"
    using d0 drop_plus[of pos 2 data] by simp
  have a6: "pos + 6 = pos + 2 + 4" by simp
  have d6: "drop (pos + 6) data = payload @ childrenBytes cs"
    unfolding a6 drop_plus[of "pos + 2"] d2 by simp
  let ?n = "pos + 6 + length payload"
  have dn: "drop ?n data = childrenBytes cs"
    unfolding drop_plus[of "pos + 6"] d6 by simp
  have len: "length (putUint16 tag @ putUint32 (int (length payload)) @ payload) + pos \<le> length data"
    using drop_prefix_length[of pos data "putUint16 tag @ putUint32 (int (length payload)) @ payload"]
      d0 Cons.prems(2) by simp
  have c1: "pos < length data" "\<not> pos + 6 > length data" "\<not> (?n < pos + 6 \<or> ?n > length data)"
    "?n - (pos + 6) = length payload" using len by simp_all
  have pay: "take (length payload) (drop (pos + 6) data) = payload" unfolding d6 by simp
  have IH: "childLoop data (length data) ?n = (\<lambda>st. scanChildren st cs)"
    using Cons.IH[OF dn _ ok(4)] c1(3) by (intro ext) simp
  show ?case
    by (subst childLoop.simps)
      (simp only: c1 if_True if_False Let_def le16_put[OF d0 ok(1,2)] le32_put[OF d2 ok(3)] nat_int
        pay IH c scanChildren.simps)
qed

lemma childLoop_sound:
  assumes "childLoop data (length data) pos st = Inr st'" "pos \<le> length data"
  shows "\<exists>cs. list_all child_ok cs \<and> drop pos data = childrenBytes cs"
  using assms
proof (induction "length data - pos" arbitrary: pos st rule: less_induct)
  case less
  show ?case
  proof (cases "pos < length data")
    case False
    then show ?thesis by (intro exI[of _ "[]"]) simp
  next
    case True
    let ?tag = "le16 data pos" and ?len = "nat (le32 data (pos + 2))"
    let ?n = "pos + 6 + ?len"
    let ?pay = "take ?len (drop (pos + 6) data)"
    have l: "pos + 6 \<le> length data"
      using less.prems(1) True by (subst (asm) childLoop.simps) (simp split: if_splits)
    have n: "?n \<le> length data"
      using less.prems(1) True l by (subst (asm) childLoop.simps) (simp add: Let_def split: if_splits)
    obtain st1 where "childLoop data (length data) ?n st1 = Inr st'"
      using less.prems(1) True l n
      by (subst (asm) childLoop.simps) (auto simp: Let_def attempt_Inr split: if_splits)
    moreover have "length data - ?n < length data - pos" using l True by simp
    ultimately obtain cs where cs: "list_all child_ok cs" "drop ?n data = childrenBytes cs"
      using less.hyps n by blast
    have "pos + 2 \<le> length data" "pos + 2 + 4 \<le> length data" using l by simp_all
    note p16 = put16_le16[OF this(1)] and p32 = put32_le32[OF this(2)]
    have "drop (pos + 6) data = ?pay @ drop ?n data"
      unfolding drop_plus[of "pos + 6"] append_take_drop_id ..
    moreover have "pos + 2 + 4 = pos + 6" by simp
    ultimately have "drop pos data = putUint16 ?tag @ putUint32 (le32 data (pos + 2)) @ ?pay @ drop ?n data"
      using p16(1) p32(1) by metis
    moreover have len: "int (length ?pay) = le32 data (pos + 2)"
      using n p32(2) by (simp add: u32_def)
    ultimately have "drop pos data = childrenBytes ((?tag, ?pay) # cs)"
      by (simp only: childrenBytes_simps childBytes_def fst_conv snd_conv append_assoc cs(2) len)
    moreover have "child_ok (?tag, ?pay)"
      unfolding child_ok_def fst_conv snd_conv len using p16 p32 by simp
    ultimately show ?thesis using cs(1) by (intro exI[of _ "(?tag, ?pay) # cs"]) simp
  qed
qed

subsection \<open>Seen tags\<close>

definition knownTag :: "int \<Rightarrow> bool" where
  "knownTag tag \<longleftrightarrow> schemaChildTagIndex tag \<ge> 0"

definition marked :: "UnitScan \<Rightarrow> int \<Rightarrow> bool" where
  "marked st tag \<longleftrightarrow>
     (let i = schemaChildTagIndex tag in
      if i < 16 then bit (scan_low st) (nat i) else bit (scan_high st) (nat (i - 16)))"

definition mark :: "UnitScan \<Rightarrow> int \<Rightarrow> UnitScan" where
  "mark st tag =
     (let i = schemaChildTagIndex tag in
      if i < 16 then st\<lparr>scan_low := scan_low st OR push_bit (nat i) 1\<rparr>
      else st\<lparr>scan_high := scan_high st OR push_bit (nat (i - 16)) 1\<rparr>)"

lemma and_bit: "(x :: int) AND push_bit n 1 \<noteq> 0 \<longleftrightarrow> bit x n"
  by (simp add: bit_iff_and_push_bit_not_eq_0)

lemma markTag_eq:
  "markTag st tag =
     (if knownTag tag then
        if marked st tag then Inl (Errorf ''duplicate unit child tag %d'' [tag]) else Inr (mark st tag)
      else Inr st)"
  unfolding markTag_def knownTag_def marked_def mark_def Let_def and_bit by simp

lemma knownTag_iff: "knownTag tag \<longleftrightarrow> tag = 2 \<or> tag = 3 \<or> 7 \<le> tag \<and> tag \<le> 35"
  by (auto simp: knownTag_def schemaChildTagIndex_def)

lemma schemaChildTagIndex_inj:
  "knownTag t \<Longrightarrow> knownTag u \<Longrightarrow> schemaChildTagIndex t = schemaChildTagIndex u \<longleftrightarrow> t = u"
  by (auto simp: knownTag_iff schemaChildTagIndex_def)

lemma marked_mark:
  assumes "knownTag t" "knownTag u"
  shows "marked (mark st t) u \<longleftrightarrow> u = t \<or> marked st u"
  using assms schemaChildTagIndex_inj[OF assms]
  by (auto simp: marked_def mark_def Let_def bit_or_iff bit_exp_iff possible_bit_def knownTag_def
      eq_nat_nat_iff)

lemma mark_simps [simp]:
  "scan_program (mark st t) = scan_program st" "scan_seen (mark st t) = scan_seen st"
  "scan_data (mark st t) = scan_data st"
  by (simp_all add: mark_def Let_def)

lemma required_mask:
  "(x :: int) AND 63 = 63 \<longleftrightarrow> bit x 0 \<and> bit x 1 \<and> bit x 2 \<and> bit x 3 \<and> bit x 4 \<and> bit x 5"
proof -
  have "(63 :: int) = mask 6" by (simp add: mask_eq_exp_minus_1)
  then have "x AND 63 = 63 \<longleftrightarrow> (\<forall>n < 6. bit x n)"
    by (auto simp: bit_eq_iff bit_and_iff bit_mask_iff)
  also have "\<dots> \<longleftrightarrow> bit x 0 \<and> bit x 1 \<and> bit x 2 \<and> bit x 3 \<and> bit x 4 \<and> bit x 5"
    by (simp add: eval_nat_numeral All_less_Suc conj_ac)
  finally show ?thesis .
qed

lemma required_marked:
  "scan_low st AND 63 = 63 \<longleftrightarrow>
     marked st 2 \<and> marked st 3 \<and> marked st 7 \<and> marked st 8 \<and> marked st 9 \<and> marked st 10"
  unfolding required_mask by (simp add: marked_def schemaChildTagIndex_def)

subsection \<open>The scan state as a map\<close>

definition payloadOf :: "(int \<times> bytes) list \<Rightarrow> int \<Rightarrow> bytes" where
  "payloadOf cs tag = (case map_of cs tag of None \<Rightarrow> [] | Some pl \<Rightarrow> pl)"

definition tableOf ::
  "(int \<times> bytes) list \<Rightarrow> int \<Rightarrow> (bytes \<Rightarrow> go_error + 'a list) \<Rightarrow> 'a list \<Rightarrow> bool" where
  "tableOf cs tag decode xs \<longleftrightarrow> (case map_of cs tag of None \<Rightarrow> xs = [] | Some pl \<Rightarrow> decode pl = Inr xs)"

text \<open>The tags whose tables are decoded after the loop.\<close>

definition deferredTag :: "int \<Rightarrow> bool" where
  "deferredTag tag \<longleftrightarrow> tag = 8 \<or> 11 \<le> tag \<and> tag \<le> 32"

definition children_ok :: "(int \<times> bytes) list \<Rightarrow> bool" where
  "children_ok cs \<longleftrightarrow> TagUnit \<notin> set (map fst cs) \<and> distinct (filter knownTag (map fst cs))"

definition scan_inv :: "(int \<times> bytes) list \<Rightarrow> UnitScan \<Rightarrow> bool" where
  "scan_inv cs st \<longleftrightarrow>
     children_ok cs \<and>
     (\<forall>t. knownTag t \<longrightarrow> marked st t = (t \<in> set (map fst cs))) \<and>
     (\<forall>t. knownTag t \<longrightarrow> t \<le> 32 \<longrightarrow> scan_seen st t = (t \<in> set (map fst cs))) \<and>
     (\<forall>t. deferredTag t \<longrightarrow> scan_data st t = payloadOf cs t) \<and>
     (\<exists>ds fs. tableOf cs TagDecls decodeDecls ds \<and> tableOf cs TagFuncs decodeFuncs fs \<and>
        scan_program st = emptyProgram\<lparr>prog_Package := payloadOf cs TagPackage,
          prog_ImportPath := payloadOf cs TagImportPath, prog_Text := payloadOf cs TagText,
          prog_Decls := ds, prog_Funcs := fs\<rparr>)"

lemma duplicateMessage_iff: "duplicateMessage tag = None \<longleftrightarrow> \<not> (knownTag tag \<and> tag \<le> 32)"
proof -
  have "duplicateMessage tag \<noteq> None" if "knownTag tag \<and> tag \<le> 32"
  proof -
    note that
    then have "tag = 2 \<or> tag = 3 \<or> tag = 7 \<or> tag = 8 \<or> tag = 9 \<or> tag = 10 \<or> tag = 11 \<or> tag = 12 \<or> tag = 13 \<or> tag = 14 \<or> tag = 15 \<or> tag = 16 \<or> tag = 17 \<or> tag = 18 \<or> tag = 19 \<or>
      tag = 20 \<or> tag = 21 \<or> tag = 22 \<or> tag = 23 \<or> tag = 24 \<or> tag = 25 \<or> tag = 26 \<or> tag = 27 \<or> tag = 28 \<or> tag = 29 \<or> tag = 30 \<or> tag = 31 \<or> tag = 32"
      unfolding knownTag_iff by presburger
    then show ?thesis by (elim disjE) (simp_all add: duplicateMessage_def)
  qed
  moreover have "\<not> (knownTag tag \<and> tag \<le> 32) \<Longrightarrow> duplicateMessage tag = None"
    by (auto simp: duplicateMessage_def knownTag_iff)
  ultimately show ?thesis by blast
qed

lemma map_of_snoc:
  "map_of (cs @ [(t, pl)]) u = (case map_of cs u of Some x \<Rightarrow> Some x | None \<Rightarrow> if u = t then Some pl else None)"
  by (auto simp: map_add_def split: option.splits)

lemma fresh_snoc:
  assumes "t \<notin> set (map fst cs)"
  shows "payloadOf (cs @ [(t, pl)]) u = (if u = t then pl else payloadOf cs u)"
    "tableOf (cs @ [(t, pl)]) u dec xs = (if u = t then dec pl = Inr xs else tableOf cs u dec xs)"
proof -
  have "map_of cs t = None" using assms by (simp add: map_of_eq_None_iff)
  then show "payloadOf (cs @ [(t, pl)]) u = (if u = t then pl else payloadOf cs u)"
    "tableOf (cs @ [(t, pl)]) u dec xs = (if u = t then dec pl = Inr xs else tableOf cs u dec xs)"
    by (auto simp: payloadOf_def tableOf_def map_of_snoc split: option.splits)
qed

lemma other_snoc:
  assumes "u \<noteq> t"
  shows "payloadOf (cs @ [(t, pl)]) u = payloadOf cs u" "tableOf (cs @ [(t, pl)]) u dec xs = tableOf cs u dec xs"
  using assms by (auto simp: payloadOf_def tableOf_def map_of_snoc split: option.splits)

lemma scan_inv_init: "scan_inv [] initScan"
  by (simp add: scan_inv_def children_ok_def initScan_def marked_def payloadOf_def tableOf_def
      emptyProgram_def Let_def)

subsection \<open>One step of the fold\<close>

lemma scan_inv_step:
  assumes inv: "scan_inv cs st" and step: "childStep st tag pl = Inr st'"
  shows "scan_inv (cs @ [(tag, pl)]) st'"
proof -
  from inv obtain ds fs where
    ok: "children_ok cs" and mk: "\<And>t. knownTag t \<Longrightarrow> marked st t = (t \<in> set (map fst cs))"
    and sn: "\<And>t. knownTag t \<Longrightarrow> t \<le> 32 \<Longrightarrow> scan_seen st t = (t \<in> set (map fst cs))"
    and dt: "\<And>t. deferredTag t \<Longrightarrow> scan_data st t = payloadOf cs t"
    and tb: "tableOf cs TagDecls decodeDecls ds" "tableOf cs TagFuncs decodeFuncs fs"
    and pr: "scan_program st = emptyProgram\<lparr>prog_Package := payloadOf cs TagPackage,
          prog_ImportPath := payloadOf cs TagImportPath, prog_Text := payloadOf cs TagText,
          prog_Decls := ds, prog_Funcs := fs\<rparr>"
    by (auto simp: scan_inv_def)
  show ?thesis
  proof (cases "knownTag tag")
    case False
    then have dm: "duplicateMessage tag = None" using duplicateMessage_iff[of tag] by blast
    have "st' = st" and t1: "tag \<noteq> 1"
      using step False by (simp_all add: childStep_def markTag_eq childSwitch_def dm split: if_splits)
    have ne: "\<And>t. knownTag t \<Longrightarrow> t \<noteq> tag" "\<And>t. deferredTag t \<Longrightarrow> t \<noteq> tag"
      using False by (auto simp: deferredTag_def knownTag_iff)
    have "children_ok (cs @ [(tag, pl)])"
      using ok False t1 by (simp add: children_ok_def)
    then show ?thesis
      unfolding scan_inv_def \<open>st' = st\<close>
      using mk sn dt tb pr ne by (auto simp: other_snoc knownTag_iff)
  next
    case True
    have fresh: "tag \<notin> set (map fst cs)" and t1: "tag \<noteq> 1"
      using step mk[OF True] True by (auto simp: childStep_def markTag_eq split: if_splits)
    have sw: "childSwitch (mark st tag) tag pl = Inr st'"
      using step True by (auto simp: childStep_def markTag_eq split: if_splits)
    have ok': "children_ok (cs @ [(tag, pl)])"
      using ok fresh t1 True by (auto simp: children_ok_def)
    have mk': "marked st1 t = (t \<in> set (map fst (cs @ [(tag, pl)])))"
      if "knownTag t" "scan_low st1 = scan_low (mark st tag)" "scan_high st1 = scan_high (mark st tag)" for t st1
    proof -
      have "marked st1 t = marked (mark st tag) t" using that(2,3) by (simp add: marked_def)
      then show ?thesis using marked_mark[OF True that(1)] mk[OF that(1)] by auto
    qed
    note F = fresh_snoc[OF fresh, of pl]
    show ?thesis
    proof (cases "tag \<le> 32")
      case False
      then have dm: "duplicateMessage tag = None" using duplicateMessage_iff[of tag] by blast
      have "st' = mark st tag"
        using sw by (simp add: childSwitch_def dm)
      then show ?thesis
        unfolding scan_inv_def
        using ok' mk' sn dt tb pr False by (auto simp: F deferredTag_def)
    next
      case le: True
      then obtain msg where dm: "duplicateMessage tag = Some msg"
        using True duplicateMessage_iff[of tag] by auto
      have tags: "tag = 2 \<or> tag = 3 \<or> tag = 7 \<or> tag = 9 \<or> tag = 10 \<or> deferredTag tag"
        using True le by (auto simp: knownTag_iff deferredTag_def)
      have nd: "\<not> deferredTag 2" "\<not> deferredTag 3" "\<not> deferredTag 7" "\<not> deferredTag 9" "\<not> deferredTag 10"
        by (simp_all add: deferredTag_def)
      have fields: "scan_low st' = scan_low (mark st tag)" "scan_high st' = scan_high (mark st tag)"
        "scan_seen st' = (scan_seen st)(tag := True)"
        using sw dm by (auto simp: childSwitch_def Let_def attempt_Inr split: if_splits)
      have data: "deferredTag t \<Longrightarrow> scan_data st' t = payloadOf (cs @ [(tag, pl)]) t" for t
        using sw dm dt[of t] nd
        by (auto simp: childSwitch_def Let_def attempt_Inr F deferredTag_def split: if_splits)
      have program: "\<exists>ds fs. tableOf (cs @ [(tag, pl)]) TagDecls decodeDecls ds \<and>
          tableOf (cs @ [(tag, pl)]) TagFuncs decodeFuncs fs \<and>
          scan_program st' = emptyProgram\<lparr>prog_Package := payloadOf (cs @ [(tag, pl)]) TagPackage,
            prog_ImportPath := payloadOf (cs @ [(tag, pl)]) TagImportPath,
            prog_Text := payloadOf (cs @ [(tag, pl)]) TagText, prog_Decls := ds, prog_Funcs := fs\<rparr>"
      proof (cases "deferredTag tag")
        case True
        then have ne: "tag \<noteq> 2" "tag \<noteq> 3" "tag \<noteq> 7" "tag \<noteq> 9" "tag \<noteq> 10"
          by (auto simp: deferredTag_def)
        then have "scan_program st' = scan_program st"
          using sw by (auto simp: childSwitch_def dm Let_def split: if_splits)
        then show ?thesis using tb pr ne by (simp add: F) blast
      next
        case False
        then have "tag = 2 \<or> tag = 3 \<or> tag = 7 \<or> tag = 9 \<or> tag = 10" using tags by blast
        moreover have "payloadOf (cs @ [(tag, pl)]) 2 = (if tag = 2 then pl else payloadOf cs 2)"
          "payloadOf (cs @ [(tag, pl)]) 3 = (if tag = 3 then pl else payloadOf cs 3)"
          "payloadOf (cs @ [(tag, pl)]) 7 = (if tag = 7 then pl else payloadOf cs 7)"
          "\<forall>xs. tableOf (cs @ [(tag, pl)]) 9 decodeDecls xs = (if tag = 9 then decodeDecls pl = Inr xs else tableOf cs 9 decodeDecls xs)"
          "\<forall>xs. tableOf (cs @ [(tag, pl)]) 10 decodeFuncs xs = (if tag = 10 then decodeFuncs pl = Inr xs else tableOf cs 10 decodeFuncs xs)"
          by (simp_all add: F)
        ultimately show ?thesis
          using sw tb pr
          by (elim disjE; simp add: childSwitch_def duplicateMessage_def Let_def attempt_Inr split: if_splits) fastforce+
      qed
      show ?thesis
        unfolding scan_inv_def
        using ok' mk'[OF _ fields(1,2)] data program sn by (auto simp: fields(3))
    qed
  qed
qed

lemma scanChildren_inv:
  "scan_inv ds st \<Longrightarrow> scanChildren st cs = Inr st' \<Longrightarrow> scan_inv (ds @ cs) st'"
proof (induction cs arbitrary: ds st)
  case (Cons c cs)
  obtain tag pl where c: "c = (tag, pl)" by (cases c)
  from Cons.prems(2) obtain st1 where "childStep st tag pl = Inr st1" "scanChildren st1 cs = Inr st'"
    by (auto simp: c attempt_Inr)
  with Cons.IH[OF scan_inv_step[OF Cons.prems(1)]] show ?case by (simp add: c)
qed simp

lemma childStep_accepts:
  assumes "scan_inv cs st" "tag \<noteq> TagUnit" "knownTag tag \<Longrightarrow> tag \<notin> set (map fst cs)"
    and "tag = TagDecls \<Longrightarrow> \<exists>xs. decodeDecls pl = Inr xs" "tag = TagFuncs \<Longrightarrow> \<exists>xs. decodeFuncs pl = Inr xs"
  shows "\<exists>st'. childStep st tag pl = Inr st'"
proof (cases "knownTag tag")
  case False
  then have dm: "duplicateMessage tag = None" using duplicateMessage_iff[of tag] by blast
  show ?thesis
    using assms(2) False by (simp add: childStep_def markTag_eq childSwitch_def dm)
next
  case True
  have "\<not> marked st tag" "tag \<le> 32 \<Longrightarrow> \<not> scan_seen st tag"
    using assms(1) True assms(3)[OF True] by (auto simp: scan_inv_def)
  then show ?thesis
    using True assms(2,4,5) duplicateMessage_iff[of tag]
    by (cases "duplicateMessage tag") (auto simp: childStep_def markTag_eq childSwitch_def Let_def)
qed

lemma scanChildren_accepts:
  assumes "scan_inv ds st" "children_ok (ds @ cs)"
    and "\<And>pl. (TagDecls, pl) \<in> set cs \<Longrightarrow> \<exists>xs. decodeDecls pl = Inr xs"
    and "\<And>pl. (TagFuncs, pl) \<in> set cs \<Longrightarrow> \<exists>xs. decodeFuncs pl = Inr xs"
  shows "\<exists>st'. scanChildren st cs = Inr st'"
  using assms
proof (induction cs arbitrary: ds st)
  case (Cons c cs)
  obtain tag pl where c: "c = (tag, pl)" by (cases c)
  have "\<exists>st1. childStep st tag pl = Inr st1"
    using Cons.prems by (intro childStep_accepts[of ds]) (auto simp: c children_ok_def)
  then obtain st1 where st1: "childStep st tag pl = Inr st1" ..
  have "\<exists>st'. scanChildren st1 cs = Inr st'"
    using Cons.prems(2-4) by (intro Cons.IH[OF scan_inv_step[OF Cons.prems(1) st1]]) (auto simp: c)
  then show ?case by (simp add: c st1)
qed simp

subsection \<open>The table phase on the map\<close>

definition tableRes ::
  "(int \<times> bytes) list \<Rightarrow> int \<Rightarrow> (bytes \<Rightarrow> go_error + 'a list) \<Rightarrow> go_error + 'a list" where
  "tableRes cs tag decode = (case map_of cs tag of None \<Rightarrow> Inr [] | Some pl \<Rightarrow> decode pl)"

lemma whenSeen_eq:
  assumes "scan_inv cs st" "deferredTag tag" "upd [] p = p"
  shows "whenSeen st tag decode upd p = attempt (tableRes cs tag decode) (\<lambda>xs. Inr (upd xs p))"
proof -
  have "knownTag tag" "tag \<le> 32" using assms(2) by (auto simp: deferredTag_def knownTag_iff)
  then have s: "scan_seen st tag = (tag \<in> set (map fst cs))" and d: "scan_data st tag = payloadOf cs tag"
    using assms(1,2) by (auto simp: scan_inv_def)
  show ?thesis
  proof (cases "map_of cs tag")
    case None
    then have "\<not> scan_seen st tag" by (simp add: s map_of_eq_None_iff)
    then show ?thesis using None assms(3) by (simp add: whenSeen_def tableRes_def)
  next
    case (Some pl)
    then have "scan_seen st tag" using map_of_eq_None_iff[of cs tag] by (auto simp: s)
    then show ?thesis using Some by (simp add: whenSeen_def tableRes_def d payloadOf_def)
  qed
qed

lemma tableRes_iff: "tableRes cs tag decode = Inr xs \<longleftrightarrow> tableOf cs tag decode xs"
  by (auto simp: tableRes_def tableOf_def split: option.splits)

lemma attempt_assoc: "attempt (attempt r f) k = attempt r (\<lambda>x. attempt (f x) k)"
  by (cases r) simp_all

lemma decodePackageTables_iff:
  assumes "scan_inv cs st" "prog_Imports p = []" "prog_Symbols p = []" "prog_DeclMeta p = []" "prog_InitOrder p = []" "prog_Consts p = []" "prog_Signatures p = []"
  shows "decodePackageTables st p = Inr q \<longleftrightarrow>
    (\<exists>x0 x1 x2 x3 x4 x5. tableOf cs TagImports decodeImports x0 \<and> tableOf cs TagSymbols decodeSymbols x1 \<and> tableOf cs TagDeclMeta decodeDeclMeta x2 \<and> tableOf cs TagInitOrder decodeInitOrder x3 \<and> tableOf cs TagConsts decodeConsts x4 \<and> tableOf cs TagSigs decodeSignatures x5 \<and>
       q = p\<lparr>prog_Imports := x0, prog_Symbols := x1, prog_DeclMeta := x2, prog_InitOrder := x3, prog_Consts := x4, prog_Signatures := x5\<rparr>)"
proof -
  have "decodePackageTables st p =
    attempt (tableRes cs TagImports decodeImports) (\<lambda>x0. attempt (tableRes cs TagSymbols decodeSymbols) (\<lambda>x1. attempt (tableRes cs TagDeclMeta decodeDeclMeta) (\<lambda>x2. attempt (tableRes cs TagInitOrder decodeInitOrder) (\<lambda>x3. attempt (tableRes cs TagConsts decodeConsts) (\<lambda>x4. attempt (tableRes cs TagSigs decodeSignatures) (\<lambda>x5.
      Inr (p\<lparr>prog_Imports := x0, prog_Symbols := x1, prog_DeclMeta := x2, prog_InitOrder := x3, prog_Consts := x4, prog_Signatures := x5\<rparr>)))))))"
    using assms(2-)
    by (cases p) (simp add: decodePackageTables_def whenSeen_eq[OF assms(1)] deferredTag_def attempt_assoc)
  then show ?thesis by (simp only: attempt_Inr tableRes_iff sum.inject) blast
qed

lemma decodeBodyTables_iff:
  assumes "scan_inv cs st" "prog_Stmts p = []" "prog_Types p = []" "prog_TypeFields p = []" "prog_TypeIfaces p = []" "prog_TypeFuncs p = []" "prog_Methods p = []" "prog_TypeRefs p = []" "prog_Locals p = []" "prog_Indexes p = []" "prog_Composites p = []" "prog_Assigns p = []" "prog_Returns p = []" "prog_Calls p = []" "prog_Refs p = []" "prog_Selectors p = []" "prog_Packages p = []"
  shows "decodeBodyTables st p = Inr q \<longleftrightarrow>
    (\<exists>x0 x1 x2 x3 x4 x5 x6 x7 x8 x9 x10 x11 x12 x13 x14 x15. tableOf cs TagStmts decodeStatements x0 \<and> tableOf cs TagTypes decodeTypes x1 \<and> tableOf cs TagTypeFields decodeTypeFields x2 \<and> tableOf cs TagTypeIfaces decodeTypeInterfaces x3 \<and> tableOf cs TagTypeFuncs decodeTypeFuncs x4 \<and> tableOf cs TagMethods decodeMethods x5 \<and> tableOf cs TagTypeRefs decodeTypeRefs x6 \<and> tableOf cs TagLocals decodeLocals x7 \<and> tableOf cs TagIndexes decodeIndexes x8 \<and> tableOf cs TagComps decodeComposites x9 \<and> tableOf cs TagAssigns decodeAssignments x10 \<and> tableOf cs TagReturns decodeReturns x11 \<and> tableOf cs TagCalls decodeCalls x12 \<and> tableOf cs TagRefs decodeRefs x13 \<and> tableOf cs TagSels decodeSelectors x14 \<and> tableOf cs TagPackages decodePackages x15 \<and>
       q = p\<lparr>prog_Stmts := x0, prog_Types := x1, prog_TypeFields := x2, prog_TypeIfaces := x3, prog_TypeFuncs := x4, prog_Methods := x5, prog_TypeRefs := x6, prog_Locals := x7, prog_Indexes := x8, prog_Composites := x9, prog_Assigns := x10, prog_Returns := x11, prog_Calls := x12, prog_Refs := x13, prog_Selectors := x14, prog_Packages := x15\<rparr>)"
proof -
  have "decodeBodyTables st p =
    attempt (tableRes cs TagStmts decodeStatements) (\<lambda>x0. attempt (tableRes cs TagTypes decodeTypes) (\<lambda>x1. attempt (tableRes cs TagTypeFields decodeTypeFields) (\<lambda>x2. attempt (tableRes cs TagTypeIfaces decodeTypeInterfaces) (\<lambda>x3. attempt (tableRes cs TagTypeFuncs decodeTypeFuncs) (\<lambda>x4. attempt (tableRes cs TagMethods decodeMethods) (\<lambda>x5. attempt (tableRes cs TagTypeRefs decodeTypeRefs) (\<lambda>x6. attempt (tableRes cs TagLocals decodeLocals) (\<lambda>x7. attempt (tableRes cs TagIndexes decodeIndexes) (\<lambda>x8. attempt (tableRes cs TagComps decodeComposites) (\<lambda>x9. attempt (tableRes cs TagAssigns decodeAssignments) (\<lambda>x10. attempt (tableRes cs TagReturns decodeReturns) (\<lambda>x11. attempt (tableRes cs TagCalls decodeCalls) (\<lambda>x12. attempt (tableRes cs TagRefs decodeRefs) (\<lambda>x13. attempt (tableRes cs TagSels decodeSelectors) (\<lambda>x14. attempt (tableRes cs TagPackages decodePackages) (\<lambda>x15.
      Inr (p\<lparr>prog_Stmts := x0, prog_Types := x1, prog_TypeFields := x2, prog_TypeIfaces := x3, prog_TypeFuncs := x4, prog_Methods := x5, prog_TypeRefs := x6, prog_Locals := x7, prog_Indexes := x8, prog_Composites := x9, prog_Assigns := x10, prog_Returns := x11, prog_Calls := x12, prog_Refs := x13, prog_Selectors := x14, prog_Packages := x15\<rparr>)))))))))))))))))"
    using assms(2-)
    by (cases p) (simp add: decodeBodyTables_def whenSeen_eq[OF assms(1)] deferredTag_def attempt_assoc)
  then show ?thesis by (simp only: attempt_Inr tableRes_iff sum.inject) blast
qed

text \<open>A program is what the children say.\<close>

definition reads_as :: "(int \<times> bytes) list \<Rightarrow> Program \<Rightarrow> bool" where
  "reads_as cs p \<longleftrightarrow>
     prog_Package p = payloadOf cs TagPackage \<and> prog_ImportPath p = payloadOf cs TagImportPath \<and>
     prog_Text p = payloadOf cs TagText \<and>
     decodeTokens (prog_Text p) (payloadOf cs TagTokens) = Inr (prog_Tokens p, prog_TokenLines p) \<and>
     tableOf cs TagDecls decodeDecls (prog_Decls p) \<and>
     tableOf cs TagFuncs decodeFuncs (prog_Funcs p) \<and>
     tableOf cs TagImports decodeImports (prog_Imports p) \<and>
     tableOf cs TagSymbols decodeSymbols (prog_Symbols p) \<and>
     tableOf cs TagDeclMeta decodeDeclMeta (prog_DeclMeta p) \<and>
     tableOf cs TagInitOrder decodeInitOrder (prog_InitOrder p) \<and>
     tableOf cs TagConsts decodeConsts (prog_Consts p) \<and>
     tableOf cs TagSigs decodeSignatures (prog_Signatures p) \<and>
     tableOf cs TagStmts decodeStatements (prog_Stmts p) \<and>
     tableOf cs TagTypes decodeTypes (prog_Types p) \<and>
     tableOf cs TagTypeFields decodeTypeFields (prog_TypeFields p) \<and>
     tableOf cs TagTypeIfaces decodeTypeInterfaces (prog_TypeIfaces p) \<and>
     tableOf cs TagTypeFuncs decodeTypeFuncs (prog_TypeFuncs p) \<and>
     tableOf cs TagMethods decodeMethods (prog_Methods p) \<and>
     tableOf cs TagTypeRefs decodeTypeRefs (prog_TypeRefs p) \<and>
     tableOf cs TagLocals decodeLocals (prog_Locals p) \<and>
     tableOf cs TagIndexes decodeIndexes (prog_Indexes p) \<and>
     tableOf cs TagComps decodeComposites (prog_Composites p) \<and>
     tableOf cs TagAssigns decodeAssignments (prog_Assigns p) \<and>
     tableOf cs TagReturns decodeReturns (prog_Returns p) \<and>
     tableOf cs TagCalls decodeCalls (prog_Calls p) \<and>
     tableOf cs TagRefs decodeRefs (prog_Refs p) \<and>
     tableOf cs TagSels decodeSelectors (prog_Selectors p) \<and>
     tableOf cs TagPackages decodePackages (prog_Packages p)"

definition requiredTags :: "int set" where
  "requiredTags = {TagPackage, TagImportPath, TagText, TagTokens, TagDecls, TagFuncs}"

end
