(* ===== verification/Unit_Roundtrip.thy ===== *)
theory Unit_Roundtrip
  imports Unit_Container
begin

text \<open>
  \<open>Unmarshal\<close> characterised: it accepts exactly the byte strings that are a unit of distinct known
  children carrying the tables of the program it returns, and that program passes the core range
  checks.  With the characterisation of each table decoder this gives the round trip with
  \<open>Marshal\<close>.
\<close>

subsection \<open>The table phase\<close>

lemma tableOf_fun: "tableOf cs tag decode xs \<Longrightarrow> tableOf cs tag decode ys \<Longrightarrow> xs = ys"
  by (auto simp: tableOf_def split: option.splits)

lemma validate_nonempty:
  "validateCoreUnitRanges p = None \<Longrightarrow> prog_Package p \<noteq> [] \<and> prog_Text p \<noteq> [] \<and> prog_Tokens p \<noteq> []"
  by (auto simp: validateCoreUnitRanges_def split: if_splits)

lemma required_inv:
  assumes "scan_inv cs st"
  shows "scan_low st AND schemaRequiredChildMaskLow = schemaRequiredChildMaskLow \<longleftrightarrow>
    requiredTags \<subseteq> set (map fst cs)"
  using assms unfolding required_marked requiredTags_def scan_inv_def by (simp add: knownTag_iff)

lemma finishUnmarshal_iff:
  assumes inv: "scan_inv cs st"
  shows "finishUnmarshal st = Inr p \<longleftrightarrow>
    requiredTags \<subseteq> set (map fst cs) \<and> reads_as cs p \<and> validateCoreUnitRanges p = None"
proof -
  from inv obtain ds fs where
    tb: "tableOf cs TagDecls decodeDecls ds" "tableOf cs TagFuncs decodeFuncs fs"
    and pr: "scan_program st = emptyProgram\<lparr>prog_Package := payloadOf cs TagPackage,
          prog_ImportPath := payloadOf cs TagImportPath, prog_Text := payloadOf cs TagText,
          prog_Decls := ds, prog_Funcs := fs\<rparr>"
    and dt: "scan_data st TagTokens = payloadOf cs TagTokens"
    by (auto simp: scan_inv_def deferredTag_def)
  let ?p0 = "scan_program st"
  show ?thesis
  proof
    assume "finishUnmarshal st = Inr p"
    then obtain toks lines p1 where
      rq: "scan_low st AND schemaRequiredChildMaskLow = schemaRequiredChildMaskLow"
      and dtk: "decodeTokens (prog_Text ?p0) (payloadOf cs TagTokens) = Inr (toks, lines)"
      and t1: "decodePackageTables st (?p0\<lparr>prog_Tokens := toks, prog_TokenLines := lines\<rparr>) = Inr p1"
      and t2: "decodeBodyTables st p1 = Inr p" and v: "validateCoreUnitRanges p = None"
      by (auto simp: finishUnmarshal_def Let_def attempt_Inr dt split: if_splits option.splits)
    let ?p = "?p0\<lparr>prog_Tokens := toks, prog_TokenLines := lines\<rparr>"
    have "prog_Imports ?p = []" "prog_Symbols ?p = []" "prog_DeclMeta ?p = []" "prog_InitOrder ?p = []"
      "prog_Consts ?p = []" "prog_Signatures ?p = []"
      unfolding pr by (simp_all add: emptyProgram_def)
    note q1 = t1[unfolded decodePackageTables_iff[OF inv this]]
    have f1: "prog_Stmts p1 = []" "prog_Types p1 = []" "prog_TypeFields p1 = []" "prog_TypeIfaces p1 = []" "prog_TypeFuncs p1 = []" "prog_Methods p1 = []" "prog_TypeRefs p1 = []" "prog_Locals p1 = []" "prog_Indexes p1 = []" "prog_Composites p1 = []" "prog_Assigns p1 = []" "prog_Returns p1 = []" "prog_Calls p1 = []" "prog_Refs p1 = []" "prog_Selectors p1 = []" "prog_Packages p1 = []"
      using q1 unfolding pr by (auto simp: emptyProgram_def)
    note q2 = t2[unfolded decodeBodyTables_iff[OF inv f1]]
    have "reads_as cs p"
      using q1 q2 tb dtk unfolding pr by (auto simp: reads_as_def emptyProgram_def)
    then show "requiredTags \<subseteq> set (map fst cs) \<and> reads_as cs p \<and> validateCoreUnitRanges p = None"
      using rq required_inv[OF inv] v by blast
  next
    assume a: "requiredTags \<subseteq> set (map fst cs) \<and> reads_as cs p \<and> validateCoreUnitRanges p = None"
    then have r: "reads_as cs p" and v: "validateCoreUnitRanges p = None" by blast+
    have fn: "ds = prog_Decls p" "fs = prog_Funcs p"
      using tableOf_fun[OF tb(1)] tableOf_fun[OF tb(2)] r by (simp_all add: reads_as_def)
    let ?p = "?p0\<lparr>prog_Tokens := prog_Tokens p, prog_TokenLines := prog_TokenLines p\<rparr>"
    let ?p1 = "?p\<lparr>prog_Imports := prog_Imports p, prog_Symbols := prog_Symbols p, prog_DeclMeta := prog_DeclMeta p, prog_InitOrder := prog_InitOrder p, prog_Consts := prog_Consts p, prog_Signatures := prog_Signatures p\<rparr>"
    have "prog_Imports ?p = []" "prog_Symbols ?p = []" "prog_DeclMeta ?p = []" "prog_InitOrder ?p = []"
      "prog_Consts ?p = []" "prog_Signatures ?p = []"
      unfolding pr by (simp_all add: emptyProgram_def)
    then have t1: "decodePackageTables st ?p = Inr ?p1"
      using r unfolding decodePackageTables_iff[OF inv \<open>prog_Imports ?p = []\<close> \<open>prog_Symbols ?p = []\<close>
        \<open>prog_DeclMeta ?p = []\<close> \<open>prog_InitOrder ?p = []\<close> \<open>prog_Consts ?p = []\<close> \<open>prog_Signatures ?p = []\<close>] reads_as_def
      by blast
    have f1: "prog_Stmts ?p1 = []" "prog_Types ?p1 = []" "prog_TypeFields ?p1 = []" "prog_TypeIfaces ?p1 = []" "prog_TypeFuncs ?p1 = []" "prog_Methods ?p1 = []" "prog_TypeRefs ?p1 = []" "prog_Locals ?p1 = []" "prog_Indexes ?p1 = []" "prog_Composites ?p1 = []" "prog_Assigns ?p1 = []" "prog_Returns ?p1 = []" "prog_Calls ?p1 = []" "prog_Refs ?p1 = []" "prog_Selectors ?p1 = []" "prog_Packages ?p1 = []"
      unfolding pr by (simp_all add: emptyProgram_def)
    have pe: "p = ?p1\<lparr>prog_Stmts := prog_Stmts p, prog_Types := prog_Types p, prog_TypeFields := prog_TypeFields p, prog_TypeIfaces := prog_TypeIfaces p, prog_TypeFuncs := prog_TypeFuncs p, prog_Methods := prog_Methods p, prog_TypeRefs := prog_TypeRefs p, prog_Locals := prog_Locals p, prog_Indexes := prog_Indexes p, prog_Composites := prog_Composites p, prog_Assigns := prog_Assigns p, prog_Returns := prog_Returns p, prog_Calls := prog_Calls p, prog_Refs := prog_Refs p, prog_Selectors := prog_Selectors p, prog_Packages := prog_Packages p\<rparr>"
      using r unfolding pr reads_as_def fn emptyProgram_def by (cases p) simp
    have t2: "decodeBodyTables st ?p1 = Inr p"
      unfolding decodeBodyTables_iff[OF inv f1] using r pe unfolding reads_as_def by blast
    have p0: "prog_Package ?p0 = prog_Package p" "prog_Text ?p0 = prog_Text p"
      using r unfolding pr reads_as_def by (simp_all add: emptyProgram_def)
    have "decodeTokens (prog_Text ?p0) (scan_data st TagTokens) = Inr (prog_Tokens p, prog_TokenLines p)"
      using r unfolding dt p0 reads_as_def by blast
    then show "finishUnmarshal st = Inr p"
      using a t1 t2 p0 v validate_nonempty[OF v] required_inv[OF inv]
      by (simp add: finishUnmarshal_def Let_def)
  qed
qed

subsection \<open>The header\<close>

lemma length_Magic [simp]: "length Magic = 4"
  by (simp add: Magic_def)

lemma Unmarshal_unitBytes:
  assumes "list_all child_ok cs" "u32 (int (length (childrenBytes cs)))"
  shows "Unmarshal (unitBytes cs) = attempt (scanChildren initScan cs) finishUnmarshal"
proof -
  let ?d = "unitBytes cs" and ?len = "int (length (childrenBytes cs))"
  have d0: "?d = Magic @ putUint16 1 @ putUint16 0 @ putUint16 1 @ putUint32 ?len @ childrenBytes cs"
    by (simp add: unitBytes_def)
  have d4: "drop 4 ?d = putUint16 1 @ putUint16 0 @ putUint16 1 @ putUint32 ?len @ childrenBytes cs"
    unfolding d0 using drop_append_length[of Magic] by simp
  have d6: "drop 6 ?d = putUint16 0 @ putUint16 1 @ putUint32 ?len @ childrenBytes cs"
    using drop_plus[of 4 2 ?d] unfolding d4 by simp
  have d8: "drop 8 ?d = putUint16 1 @ putUint32 ?len @ childrenBytes cs"
    using drop_plus[of 6 2 ?d] unfolding d6 by simp
  have d10: "drop 10 ?d = putUint32 ?len @ childrenBytes cs"
    using drop_plus[of 8 2 ?d] unfolding d8 by simp
  have d14: "drop 14 ?d = childrenBytes cs"
    using drop_plus[of 10 4 ?d] unfolding d10 by simp
  have len: "length ?d = 14 + length (childrenBytes cs)"
    unfolding d0 by simp
  have l: "le16 ?d 4 = 1" "le16 ?d 6 = 0" "le16 ?d 8 = 1" "le32 ?d 10 = ?len"
    using le16_put[OF d4] le16_put[OF d6] le16_put[OF d8] le32_put[OF d10 assms(2)] by simp_all
  have m: "take 4 ?d = Magic" unfolding d0 by simp
  have "childLoop ?d (14 + length (childrenBytes cs)) 14 st = scanChildren st cs" for st
    using childLoop_children[OF d14 _ assms(1)] len by simp
  then show ?thesis
    using len by (simp add: Unmarshal_def l m Let_def)
qed

lemma Unmarshal_header:
  assumes "Unmarshal data = Inr p"
  shows "\<exists>cs. list_all child_ok cs \<and> u32 (int (length (childrenBytes cs))) \<and> data = unitBytes cs"
proof -
  from assms have h: "length data \<ge> 14" "take 4 data = Magic" "le16 data 4 = 1" "le16 data 6 = 0"
    "le16 data 8 = 1" "14 + nat (le32 data 10) = length data"
    and "\<exists>st. childLoop data (length data) 14 initScan = Inr st"
    by (auto simp: Unmarshal_def Let_def attempt_Inr not_less split: if_splits)
  then obtain st where "childLoop data (length data) 14 initScan = Inr st" by blast
  from childLoop_sound[OF this h(1)] obtain cs where
    cs: "list_all child_ok cs" "drop 14 data = childrenBytes cs" by blast
  have le: "4 + 2 \<le> length data" "6 + 2 \<le> length data" "8 + 2 \<le> length data" "10 + 4 \<le> length data"
    using h(1) by simp_all
  note e = put16_le16(1)[OF le(1)] put16_le16(1)[OF le(2)] put16_le16(1)[OF le(3)] put32_le32[OF le(4)]
  have n: "int (length (childrenBytes cs)) = le32 data 10"
    using e(5) by (simp add: cs(2)[symmetric] h(6)[symmetric] u32_def)
  have "data = take 4 data @ drop 4 data" by simp
  also have "\<dots> = unitBytes cs"
    using e(1-4) h cs(2) by (simp add: unitBytes_def n)
  finally show ?thesis using cs(1) e(5) n by (intro exI[of _ cs]) simp
qed

lemma Unmarshal_children_iff:
  assumes "list_all child_ok cs" "u32 (int (length (childrenBytes cs)))"
  shows "Unmarshal (unitBytes cs) = Inr p \<longleftrightarrow>
    children_ok cs \<and> requiredTags \<subseteq> set (map fst cs) \<and> reads_as cs p \<and> validateCoreUnitRanges p = None"
proof
  assume "Unmarshal (unitBytes cs) = Inr p"
  then obtain st where s: "scanChildren initScan cs = Inr st" "finishUnmarshal st = Inr p"
    by (auto simp: Unmarshal_unitBytes[OF assms] attempt_Inr)
  have inv: "scan_inv cs st" using scanChildren_inv[OF scan_inv_init s(1)] by simp
  then have "children_ok cs" by (simp add: scan_inv_def)
  then show "children_ok cs \<and> requiredTags \<subseteq> set (map fst cs) \<and> reads_as cs p \<and> validateCoreUnitRanges p = None"
    using s(2) unfolding finishUnmarshal_iff[OF inv] by blast
next
  assume a: "children_ok cs \<and> requiredTags \<subseteq> set (map fst cs) \<and> reads_as cs p \<and> validateCoreUnitRanges p = None"
  have uniq: "map_of cs tag = Some pl" if "(tag, pl) \<in> set cs" "knownTag tag" for tag pl
  proof -
    have "distinct (filter knownTag (map fst cs))" using a by (simp add: children_ok_def)
    then have "map_of (filter (\<lambda>c. knownTag (fst c)) cs) tag = Some pl"
      using that by (intro map_of_is_SomeI) (simp_all add: filter_map o_def)
    moreover have "map_of (filter (\<lambda>c. knownTag (fst c)) cs) tag = map_of cs tag"
      using that(2) by (induction cs) auto
    ultimately show ?thesis by simp
  qed
  have "\<exists>st. scanChildren initScan cs = Inr st"
  proof (rule scanChildren_accepts[OF scan_inv_init])
    show "children_ok ([] @ cs)" using a by simp
    show "\<exists>xs. decodeDecls pl = Inr xs" if "(TagDecls, pl) \<in> set cs" for pl
      using uniq[OF that] a by (auto simp: knownTag_iff reads_as_def tableOf_def)
    show "\<exists>xs. decodeFuncs pl = Inr xs" if "(TagFuncs, pl) \<in> set cs" for pl
      using uniq[OF that] a by (auto simp: knownTag_iff reads_as_def tableOf_def)
  qed
  then obtain st where st: "scanChildren initScan cs = Inr st" ..
  have "scan_inv cs st" using scanChildren_inv[OF scan_inv_init st] by simp
  then show "Unmarshal (unitBytes cs) = Inr p"
    using a finishUnmarshal_iff by (simp add: Unmarshal_unitBytes[OF assms] st)
qed

subsection \<open>\<open>Marshal\<close> writes a unit\<close>

definition leaf :: "Node \<Rightarrow> int \<times> bytes" where
  "leaf n = (node_Tag n, node_Data n)"

lemma NewNode_simps [simp]:
  "node_Tag (NewNode tag data) = tag" "node_Data (NewNode tag data) = data" "node_Children (NewNode tag data) = []"
  by (simp_all add: NewNode_def)

lemma writeNode_leaf:
  assumes "node_Children n = []"
  shows "writeNode out n = Inr r \<longleftrightarrow> u32 (int (length (node_Data n))) \<and> r = out @ childBytes (leaf n)"
  using assms by (cases n) (auto simp: leaf_def childBytes_def u32_def)

lemma writeNodes_leaves:
  assumes "list_all (\<lambda>n. node_Children n = []) ns"
  shows "writeNodes out ns = Inr r \<longleftrightarrow>
    list_all (\<lambda>n. u32 (int (length (node_Data n)))) ns \<and> r = out @ childrenBytes (map leaf ns)"
  using assms
  by (induction ns arbitrary: out) (auto simp: attempt_Inr writeNode_leaf)

lemma marshalChildren_leaves: "list_all (\<lambda>n. node_Children n = []) (marshalChildren p tokens)"
  by (simp add: marshalChildren_def)

lemma marshalChildren_tags: "list_all (\<lambda>n. 2 \<le> node_Tag n \<and> node_Tag n < 36) (marshalChildren p tokens)"
  by (simp add: marshalChildren_def)

lemma Marshal_iff:
  "Marshal p = Some (Inr bs) \<longleftrightarrow>
     validateCoreUnitRanges p = None \<and>
     (\<exists>tokens. encodeTokens (prog_Text p) (prog_Tokens p) (prog_TokenLines p) = Some (Inr tokens) \<and>
        list_all child_ok (map leaf (marshalChildren p tokens)) \<and>
        u32 (int (length (childrenBytes (map leaf (marshalChildren p tokens))))) \<and>
        bs = unitBytes (map leaf (marshalChildren p tokens)))"
proof -
  have w: "writeNode (Magic @ putUint16 Version @ putUint16 0) (Parent TagUnit (marshalChildren p tokens)) = Inr bs \<longleftrightarrow>
      list_all child_ok (map leaf (marshalChildren p tokens)) \<and>
      u32 (int (length (childrenBytes (map leaf (marshalChildren p tokens))))) \<and>
      bs = unitBytes (map leaf (marshalChildren p tokens))" for tokens
  proof -
    have ne: "0 < length (marshalChildren p tokens)" by (simp add: marshalChildren_def)
    have ok: "list_all child_ok (map leaf (marshalChildren p tokens)) \<longleftrightarrow>
        list_all (\<lambda>n. u32 (int (length (node_Data n)))) (marshalChildren p tokens)"
      using marshalChildren_tags[of p tokens] by (auto simp: list_all_iff child_ok_def leaf_def)
    show ?thesis
      using ne unfolding ok Parent_def
      by (auto simp: attempt_Inr writeNodes_leaves[OF marshalChildren_leaves] unitBytes_def u32_def)
  qed
  show ?thesis
    by (auto simp: Marshal_def attempt_Inr w split: option.splits)
qed

text \<open>The programs the format can carry.\<close>

definition wf_Program :: "Program \<Rightarrow> bool" where
  "wf_Program p \<longleftrightarrow>
     wf_tokens (prog_Text p) (prog_Tokens p) (prog_TokenLines p) \<and>
     list_all wf_Decl (prog_Decls p) \<and> u32 (int (length (prog_Decls p))) \<and>
     list_all wf_Func (prog_Funcs p) \<and> u32 (int (length (prog_Funcs p))) \<and>
     list_all wf_Import (prog_Imports p) \<and> u32 (int (length (prog_Imports p))) \<and>
     list_all wf_Symbol (prog_Symbols p) \<and> u32 (int (length (prog_Symbols p))) \<and>
     list_all wf_DeclMeta (prog_DeclMeta p) \<and> u32 (int (length (prog_DeclMeta p))) \<and>
     list_all u32 (prog_InitOrder p) \<and> u32 (int (length (prog_InitOrder p))) \<and>
     list_all wf_ConstValue (prog_Consts p) \<and> u32 (int (length (prog_Consts p))) \<and>
     list_all wf_FuncSignature (prog_Signatures p) \<and> u32 (int (length (prog_Signatures p))) \<and>
     list_all wf_Statement (prog_Stmts p) \<and> u32 (int (length (prog_Stmts p))) \<and>
     list_all wf_TypeInfo (prog_Types p) \<and> u32 (int (length (prog_Types p))) \<and>
     list_all wf_TypeFields (prog_TypeFields p) \<and> u32 (int (length (prog_TypeFields p))) \<and>
     list_all wf_TypeIface (prog_TypeIfaces p) \<and> u32 (int (length (prog_TypeIfaces p))) \<and>
     list_all wf_TypeFuncSig (prog_TypeFuncs p) \<and> u32 (int (length (prog_TypeFuncs p))) \<and>
     list_all wf_MethodInfo (prog_Methods p) \<and> u32 (int (length (prog_Methods p))) \<and>
     list_all wf_TypeRef (prog_TypeRefs p) \<and> u32 (int (length (prog_TypeRefs p))) \<and>
     list_all wf_LocalDecl (prog_Locals p) \<and> u32 (int (length (prog_Locals p))) \<and>
     list_all wf_IndexExpr (prog_Indexes p) \<and> u32 (int (length (prog_Indexes p))) \<and>
     list_all wf_CompositeExpr (prog_Composites p) \<and> u32 (int (length (prog_Composites p))) \<and>
     list_all wf_Assignment (prog_Assigns p) \<and> u32 (int (length (prog_Assigns p))) \<and>
     list_all wf_Return (prog_Returns p) \<and> u32 (int (length (prog_Returns p))) \<and>
     list_all wf_Call (prog_Calls p) \<and> u32 (int (length (prog_Calls p))) \<and>
     list_all wf_NameRef (prog_Refs p) \<and> u32 (int (length (prog_Refs p))) \<and>
     list_all wf_Selector (prog_Selectors p) \<and> u32 (int (length (prog_Selectors p))) \<and>
     list_all wf_PackageInfo (prog_Packages p) \<and> u32 (int (length (prog_Packages p)))"

lemma marshalChildren_reads_as:
  assumes "wf_Program p" "decodeTokens (prog_Text p) tokens = Inr (prog_Tokens p, prog_TokenLines p)"
  shows "reads_as (map leaf (marshalChildren p tokens)) p"
proof -
  have leaf: "leaf (NewNode t d) = (t, d)" for t d by (simp add: leaf_def)
  show ?thesis
    using assms
    unfolding reads_as_def marshalChildren_def list.map leaf wf_Program_def
    by (simp add: payloadOf_def tableOf_def decodeDecls_iff decodeFuncs_iff decodeImports_iff decodeSymbols_iff decodeDeclMeta_iff decodeInitOrder_iff decodeConsts_iff decodeSignatures_iff decodeStatements_iff decodeTypes_iff decodeTypeFields_iff decodeTypeInterfaces_iff decodeTypeFuncs_iff decodeMethods_iff decodeTypeRefs_iff decodeLocals_iff decodeIndexes_iff decodeComposites_iff decodeAssignments_iff decodeReturns_iff decodeCalls_iff decodeRefs_iff decodeSelectors_iff decodePackages_iff)
qed

lemma marshalChildren_ok:
  "children_ok (map leaf (marshalChildren p tokens))"
  "requiredTags \<subseteq> set (map fst (map leaf (marshalChildren p tokens)))"
  by (simp_all add: children_ok_def marshalChildren_def leaf_def knownTag_iff requiredTags_def)

lemma Marshal_roundtrip:
  assumes "wf_Program p" "Marshal p = Some (Inr bs)"
  shows "Unmarshal bs = Inr p"
proof -
  from assms(2) obtain tokens where v: "validateCoreUnitRanges p = None"
    and e: "encodeTokens (prog_Text p) (prog_Tokens p) (prog_TokenLines p) = Some (Inr tokens)"
    and c: "list_all child_ok (map leaf (marshalChildren p tokens))"
      "u32 (int (length (childrenBytes (map leaf (marshalChildren p tokens)))))"
    and bs: "bs = unitBytes (map leaf (marshalChildren p tokens))"
    unfolding Marshal_iff by blast
  have "wf_tokens (prog_Text p) (prog_Tokens p) (prog_TokenLines p)"
    using assms(1) unfolding wf_Program_def by blast
  from tokens_roundtrip[OF this] e
  have "decodeTokens (prog_Text p) tokens = Inr (prog_Tokens p, prog_TokenLines p)" by auto
  from marshalChildren_reads_as[OF assms(1) this] show ?thesis
    unfolding bs Unmarshal_children_iff[OF c] using v marshalChildren_ok by blast
qed

end
