(* ===== verification/Unit_Properties.thy ===== *)
theory Unit_Properties
  imports Unit_Roundtrip "HOL-Library.Multiset"
begin

text \<open>The properties of the unit format, with a small program as their concrete input.\<close>

definition demoProgram :: Program where
  "demoProgram = emptyProgram\<lparr>prog_Package := [0x70], prog_ImportPath := [0x70], prog_Text := [0x70, 0x78],
     prog_Tokens := [1, 0, 0, 0, 1, 0, 1, 0, 0, 2, 0, 0, 0, 0, 2, 0],
     prog_Imports := [\<lparr>imp_Name = [], imp_ImportPath = [0x71], imp_Package = -1, imp_NameTok = -1, imp_PathTok = 0,
       imp_Dot = True, imp_Blank = False\<rparr>],
     prog_Decls := [\<lparr>decl_Kind = 1, decl_NameStart = 0, decl_NameEnd = 1, decl_StartTok = 0, decl_EndTok = 1\<rparr>]\<rparr>"

lemma demo_wf: "wf_Program demoProgram"
  by code_simp

lemma demo_bytes: "\<exists>bs. Marshal demoProgram = Some (Inr bs)"
proof -
  have "case Marshal demoProgram of Some (Inr bs) \<Rightarrow> True | _ \<Rightarrow> False" by code_simp
  then show ?thesis by (auto split: option.splits sum.splits)
qed

subsection \<open>Round trip\<close>

text \<open>C1. A program whose tables the format can carry survives \<open>Marshal\<close> and \<open>Unmarshal\<close> unchanged:
  whenever \<open>Marshal\<close> produces bytes for it, \<open>Unmarshal\<close> of those bytes returns the same program.\<close>

theorem Unmarshal_Marshal:
  assumes "wf_Program p" "Marshal p = Some (Inr bs)"
  shows "Unmarshal bs = Inr p"
  using assms by (rule Marshal_roundtrip)

theorem Unmarshal_Marshal_witness:
  "\<exists>bs. Marshal demoProgram = Some (Inr bs) \<and> Unmarshal bs = Inr demoProgram"
  using demo_bytes Unmarshal_Marshal[OF demo_wf] by blast

text \<open>C2. \<open>Unmarshal\<close> accepts a byte string, with program \<open>p\<close> as the result, exactly when it is the unit
  header followed by children in which no known tag repeats and the root tag does not occur, all
  required tables are present, every table decodes to the field of \<open>p\<close> (an absent optional table to
  the empty one), and \<open>p\<close> passes the core range checks.\<close>

theorem Unmarshal_accepts:
  "Unmarshal data = Inr p \<longleftrightarrow>
     (\<exists>cs. data = unitBytes cs \<and> list_all child_ok cs \<and> u32 (int (length (childrenBytes cs))) \<and>
           children_ok cs \<and> requiredTags \<subseteq> set (map fst cs) \<and> reads_as cs p \<and>
           validateCoreUnitRanges p = None)"
  using Unmarshal_header[of data p] Unmarshal_children_iff by blast

subsection \<open>What an accepted unit guarantees\<close>

lemma rangeCheck_None: "rangeCheck msg ok i xs = None \<longleftrightarrow> list_all ok xs"
  by (induction msg ok i xs rule: rangeCheck.induct) auto

lemma Unmarshal_validated:
  assumes "Unmarshal data = Inr p"
  shows "validateCoreUnitRanges p = None"
  using Unmarshal_header[OF assms] Unmarshal_children_iff assms by blast

text \<open>C3. What \<open>Unmarshal\<close> guarantees of the tokens, declarations, functions and packages of every unit it
  accepts (the other tables carry ranges it does not check): the token table is a positive number of
  whole records ending with EOF, every declaration and function names a range inside the text pool and token
  ranges inside the token table, a function's name token lies inside the function, and every
  package owns ranges inside the text, the tokens, the declarations and the functions.\<close>

theorem Unmarshal_ranges:
  assumes "Unmarshal data = Inr p"
  defines "n \<equiv> length (prog_Tokens p) div tokenStride"
  shows "prog_Package p \<noteq> [] \<and> prog_Text p \<noteq> [] \<and> 0 < n \<and> length (prog_Tokens p) = n * tokenStride \<and>
    (prog_TokenLines p = [] \<or> length (prog_TokenLines p) = n) \<and>
    uint (prog_Tokens p ! ((n - 1) * tokenStride)) = renvoTokEOF \<and>
    (\<forall>d\<in>set (prog_Decls p).
       0 \<le> decl_NameStart d \<and> decl_NameStart d \<le> decl_NameEnd d \<and> decl_NameEnd d \<le> int (length (prog_Text p)) \<and>
       0 \<le> decl_StartTok d \<and> decl_StartTok d \<le> decl_EndTok d \<and> decl_EndTok d \<le> int n) \<and>
    (\<forall>f\<in>set (prog_Funcs p).
       0 \<le> fn_NameStart f \<and> fn_NameStart f \<le> fn_NameEnd f \<and> fn_NameEnd f \<le> int (length (prog_Text p)) \<and>
       0 \<le> fn_StartTok f \<and> fn_StartTok f \<le> fn_NameTok f \<and> fn_NameTok f < fn_EndTok f \<and> fn_EndTok f \<le> int n \<and>
       0 \<le> fn_ReceiverStart f \<and> fn_ReceiverStart f \<le> fn_ReceiverEnd f \<and> fn_ReceiverEnd f \<le> int n \<and>
       0 \<le> fn_BodyStart f \<and> fn_BodyStart f \<le> fn_BodyEnd f \<and> fn_BodyEnd f \<le> int n) \<and>
    (\<forall>k\<in>set (prog_Packages p).
       pkg_Name k \<noteq> [] \<and> pkg_ImportPath k \<noteq> [] \<and>
       0 \<le> pkg_TextStart k \<and> pkg_TextStart k \<le> pkg_TextEnd k \<and> pkg_TextEnd k \<le> int (length (prog_Text p)) \<and>
       0 \<le> pkg_TokenStart k \<and> pkg_TokenStart k \<le> pkg_TokenEnd k \<and> pkg_TokenEnd k \<le> int n \<and>
       0 \<le> pkg_DeclStart k \<and> pkg_DeclStart k \<le> pkg_DeclEnd k \<and> pkg_DeclEnd k \<le> int (length (prog_Decls p)) \<and>
       0 \<le> pkg_FuncStart k \<and> pkg_FuncStart k \<le> pkg_FuncEnd k \<and> pkg_FuncEnd k \<le> int (length (prog_Funcs p)))"
proof -
  have v: "validateCoreUnitRanges p = None" using assms(1) by (rule Unmarshal_validated)
  have t: "length (prog_Tokens p) mod tokenStride = 0" "prog_Tokens p \<noteq> []"
    using v by (auto simp: validateCoreUnitRanges_def split: if_splits)
  then have n: "length (prog_Tokens p) = n * tokenStride"
    by (auto simp: n_def)
  have "0 < n" using n t(2) by (cases n) simp_all
  have lists: "list_all (declRangesValid p (int n)) (prog_Decls p)" "list_all (funcRangesValid p (int n)) (prog_Funcs p)"
    "list_all (packageRangesValid p (int n)) (prog_Packages p)"
    using v by (auto simp: validateCoreUnitRanges_def rangeCheck_None n_def Let_def split: if_splits option.splits)
  have eof: "prog_TokenLines p = [] \<or> length (prog_TokenLines p) = n"
    "uint (prog_Tokens p ! ((n - 1) * tokenStride)) = renvoTokEOF"
    using v by (auto simp: validateCoreUnitRanges_def n_def Let_def split: if_splits)
  show ?thesis
    using validate_nonempty[OF v] n \<open>0 < n\<close> eof lists
    by (auto simp: list_all_iff declRangesValid_def funcRangesValid_def packageRangesValid_def unitRangeValid_def)
qed

theorem Unmarshal_ranges_witness:
  "\<exists>data. Unmarshal data = Inr demoProgram \<and> prog_Package demoProgram \<noteq> [] \<and>
     uint (prog_Tokens demoProgram ! ((length (prog_Tokens demoProgram) div tokenStride - 1) * tokenStride)) = renvoTokEOF"
proof -
  obtain bs where "Marshal demoProgram = Some (Inr bs)" using demo_bytes ..
  then have "Unmarshal bs = Inr demoProgram" using demo_wf by (intro Marshal_roundtrip)
  with Unmarshal_ranges[OF this] show ?thesis by blast
qed

subsection \<open>Framing and children\<close>

text \<open>Units are self-delimiting: no accepted unit can be extended, the reader answers "invalid root
  length" to any accepted unit followed by further bytes (so a proper prefix of an accepted unit is
  never accepted either).\<close>

theorem Unmarshal_no_extension:
  assumes "Unmarshal data = Inr p" "extra \<noteq> []"
  shows "Unmarshal (data @ extra) = Inl (Errorf ''invalid root length'' [])"
proof -
  from assms(1) have h: "length data \<ge> 14" "take 4 data = Magic" "le16 data 4 = 1" "le16 data 6 = 0"
    "le16 data 8 = 1" "14 + nat (le32 data 10) = length data"
    by (auto simp: Unmarshal_def Let_def attempt_Inr not_less split: if_splits)
  have "le16 (data @ extra) 4 = 1" "le16 (data @ extra) 6 = 0" "le16 (data @ extra) 8 = 1"
    "le32 (data @ extra) 10 = le32 data 10" "take 4 (data @ extra) = Magic"
    using h by (simp_all add: le16_def le32_def nth_append)
  then show ?thesis using h assms(2) by (simp add: Unmarshal_def Let_def)
qed

theorem Unmarshal_no_extension_witness:
  "\<exists>data. Unmarshal data = Inr demoProgram \<and> Unmarshal (data @ [0]) = Inl (Errorf ''invalid root length'' [])"
proof -
  obtain bs where "Marshal demoProgram = Some (Inr bs)" using demo_bytes ..
  then have "Unmarshal bs = Inr demoProgram" using demo_wf by (intro Marshal_roundtrip)
  with Unmarshal_no_extension[OF this, of "[0]"] show ?thesis by blast
qed

lemma scanChildren_append:
  "scanChildren st (cs @ ds) = attempt (scanChildren st cs) (\<lambda>st. scanChildren st ds)"
  by (induction st cs rule: scanChildren.induct) (auto simp: attempt_def split: sum.splits)

lemma childStep_unknown:
  assumes "\<not> knownTag tag" "tag \<noteq> TagUnit"
  shows "childStep st tag pl = Inr st"
proof -
  have "duplicateMessage tag = None" using duplicateMessage_iff[of tag] assms(1) by blast
  then show ?thesis using assms by (simp add: childStep_def markTag_eq childSwitch_def)
qed

text \<open>C4. Forward compatibility: a child with a tag this version does not know is skipped wherever it
  stands; the unit with it and the unit without it have the same result, errors included.\<close>

theorem Unmarshal_skips_unknown:
  assumes "\<not> knownTag tag" "tag \<noteq> TagUnit" "list_all child_ok (cs @ (tag, payload) # ds)"
    and "u32 (int (length (childrenBytes (cs @ (tag, payload) # ds))))"
  shows "Unmarshal (unitBytes (cs @ (tag, payload) # ds)) = Unmarshal (unitBytes (cs @ ds))"
proof -
  have ok: "list_all child_ok (cs @ ds)" "u32 (int (length (childrenBytes (cs @ ds))))"
    using assms(3,4) by (simp_all add: u32_def)
  show ?thesis
    unfolding Unmarshal_unitBytes[OF assms(3,4)] Unmarshal_unitBytes[OF ok]
    by (simp add: scanChildren_append childStep_unknown[OF assms(1,2)])
qed

theorem Unmarshal_skips_unknown_witness:
  "Unmarshal (unitBytes [(2, [0x70]), (99, [1, 2, 3]), (3, [])]) = Unmarshal (unitBytes [(2, [0x70]), (3, [])])"
  using Unmarshal_skips_unknown[of 99 "[(2, [0x70])]" "[1, 2, 3]" "[(3, [])]"]
  by (simp add: knownTag_iff child_ok_def u32_def childBytes_def)

lemma map_of_known:
  assumes "children_ok cs" "knownTag tag"
  shows "map_of cs tag = Some pl \<longleftrightarrow> (tag, pl) \<in> set cs"
proof
  assume "(tag, pl) \<in> set cs"
  have "distinct (filter knownTag (map fst cs))" using assms(1) by (simp add: children_ok_def)
  then have "map_of (filter (\<lambda>c. knownTag (fst c)) cs) tag = Some pl"
    using \<open>(tag, pl) \<in> set cs\<close> assms(2) by (intro map_of_is_SomeI) (simp_all add: filter_map o_def)
  moreover have "map_of (filter (\<lambda>c. knownTag (fst c)) cs) tag = map_of cs tag"
    using assms(2) by (induction cs) auto
  ultimately show "map_of cs tag = Some pl" by simp
qed (rule map_of_SomeD)

lemma reads_as_cong:
  assumes "\<And>t. knownTag t \<Longrightarrow> map_of cs t = map_of ds t"
  shows "reads_as cs p = reads_as ds p"
  unfolding reads_as_def payloadOf_def tableOf_def by (simp add: assms knownTag_iff)

text \<open>The order of the children does not matter: two units with the same children in different orders
  are accepted with the same program.\<close>

theorem Unmarshal_order:
  assumes "mset cs = mset ds" "list_all child_ok cs" "u32 (int (length (childrenBytes cs)))"
  shows "Unmarshal (unitBytes cs) = Inr p \<longleftrightarrow> Unmarshal (unitBytes ds) = Inr p"
proof -
  have s: "set cs = set ds" using assms(1) by (rule mset_eq_setD)
  have ok: "list_all child_ok ds" using assms(2) s by (simp add: list_all_iff)
  have "mset (map length (map childBytes cs)) = mset (map length (map childBytes ds))"
    using assms(1) by (simp flip: map_map add: mset_map)
  then have "sum_mset (mset (map length (map childBytes cs))) = sum_mset (mset (map length (map childBytes ds)))"
    by simp
  then have "length (childrenBytes cs) = length (childrenBytes ds)"
    by (simp only: sum_mset_sum_list childrenBytes_def length_concat)
  then have sz: "u32 (int (length (childrenBytes ds)))" using assms(3) by simp
  have "mset (filter knownTag (map fst cs)) = mset (filter knownTag (map fst ds))"
    using assms(1) by (simp add: mset_map mset_filter)
  then have "distinct (filter knownTag (map fst cs)) = distinct (filter knownTag (map fst ds))"
    by (rule mset_eq_imp_distinct_iff)
  then have c: "children_ok cs = children_ok ds" by (simp add: children_ok_def s)
  have m: "map_of cs t = map_of ds t" if "children_ok cs" "knownTag t" for t
    using map_of_known[OF that] map_of_known[of ds t] that c s
    by (cases "map_of cs t"; cases "map_of ds t") auto
  show ?thesis
    unfolding Unmarshal_children_iff[OF assms(2,3)] Unmarshal_children_iff[OF ok sz]
    using c s reads_as_cong[OF m] by auto
qed

theorem Unmarshal_order_witness:
  "Unmarshal (unitBytes [(2, [0x70]), (3, [])]) = Inr demoProgram \<longleftrightarrow>
     Unmarshal (unitBytes [(3, []), (2, [0x70])]) = Inr demoProgram"
  by (rule Unmarshal_order) (simp_all add: child_ok_def u32_def childBytes_def add_mset_commute)

text \<open>A repeated known child is refused: no unit in which a known tag occurs twice is accepted.\<close>

theorem Unmarshal_duplicate:
  assumes "knownTag tag" "list_all child_ok (as @ (tag, x) # bs @ (tag, y) # cs)"
    and "u32 (int (length (childrenBytes (as @ (tag, x) # bs @ (tag, y) # cs))))"
  shows "\<exists>e. Unmarshal (unitBytes (as @ (tag, x) # bs @ (tag, y) # cs)) = Inl e"
proof (cases "Unmarshal (unitBytes (as @ (tag, x) # bs @ (tag, y) # cs))")
  case (Inr p)
  then show ?thesis
    using assms(1) unfolding Unmarshal_children_iff[OF assms(2,3)] by (simp add: children_ok_def)
qed simp

theorem Unmarshal_duplicate_witness:
  "\<exists>e. Unmarshal (unitBytes [(2, [0x70]), (3, []), (2, [0x71])]) = Inl e"
  using Unmarshal_duplicate[of 2 "[]" "[0x70]" "[(3, [])]" "[0x71]" "[]"]
  by (simp add: knownTag_iff child_ok_def u32_def childBytes_def)

subsection \<open>Marshal\<close>

lemma encodeTokensLoop_whole:
  assumes "length tokens mod 8 = 0" "pos mod 8 = 0"
  shows "encodeTokensLoop text tokens tokenLines pos ps pl out \<noteq> None"
  using assms
proof (induction "text" tokens tokenLines pos ps pl out rule: encodeTokensLoop.induct)
  case (1 pool tokens tokenLines pos ps pl out)
  have "pos + 8 \<le> length tokens" if "pos < length tokens"
    using that "1.prems" by presburger
  then show ?case
    using 1 by (subst encodeTokensLoop.simps) (auto simp: Let_def)
qed

text \<open>\<open>Marshal\<close> never panics: the range checks it makes first exclude the token tables on which the
  loop of \<open>encodeTokens\<close> would index out of range.\<close>

theorem Marshal_no_panic: "Marshal p \<noteq> None"
proof (cases "validateCoreUnitRanges p")
  case None
  then have "length (prog_Tokens p) mod 8 = 0"
    by (auto simp: validateCoreUnitRanges_def split: if_splits)
  then have "encodeTokens (prog_Text p) (prog_Tokens p) (prog_TokenLines p) \<noteq> None"
    unfolding encodeTokens_def by (intro encodeTokensLoop_whole) simp_all
  then show ?thesis by (auto simp: Marshal_def None)
qed (simp add: Marshal_def)

subsection \<open>Primitives and tables\<close>

text \<open>Varints are canonical: the reader succeeds at a position exactly when the buffer continues there
  with the writer's bytes for a value below \<open>2 ^ 32\<close>, and it consumes exactly those bytes (no
  redundant zero bytes, no sixth byte, no bits beyond the 32nd).\<close>

theorem readVarint_exact:
  "readVarint data pos = Some (v, n) \<longleftrightarrow>
     0 \<le> v \<and> v < 2 ^ 32 \<and> n \<le> length data \<and> n = pos + length (appendVarint [] v) \<and>
     drop pos data = appendVarint [] v @ drop n data"
  using readVarint_iff[of data pos v n] by (simp add: u32_def varint_def)

text \<open>C5. The table decoders accept exactly the encodings of well-formed tables: a payload decodes to the
  rows returned if and only if it is the encoder's output for them and each row is in the range the
  format can carry.  This holds for all twenty-four tables beside the tokens.\<close>

theorem tables_exact:
  "(decodeDecls data = Inr x0 \<longleftrightarrow>
       list_all wf_Decl x0 \<and> u32 (int (length x0)) \<and> data = encodeDecls x0) \<and>
   (decodeFuncs data = Inr x1 \<longleftrightarrow>
       list_all wf_Func x1 \<and> u32 (int (length x1)) \<and> data = encodeFuncs x1) \<and>
   (decodeImports data = Inr x2 \<longleftrightarrow>
       list_all wf_Import x2 \<and> u32 (int (length x2)) \<and> data = encodeImports x2) \<and>
   (decodeSymbols data = Inr x3 \<longleftrightarrow>
       list_all wf_Symbol x3 \<and> u32 (int (length x3)) \<and> data = encodeSymbols x3) \<and>
   (decodeDeclMeta data = Inr x4 \<longleftrightarrow>
       list_all wf_DeclMeta x4 \<and> u32 (int (length x4)) \<and> data = encodeDeclMeta x4) \<and>
   (decodeInitOrder data = Inr x5 \<longleftrightarrow>
       list_all u32 x5 \<and> u32 (int (length x5)) \<and> data = encodeInitOrder x5) \<and>
   (decodeConsts data = Inr x6 \<longleftrightarrow>
       list_all wf_ConstValue x6 \<and> u32 (int (length x6)) \<and> data = encodeConsts x6) \<and>
   (decodeSignatures data = Inr x7 \<longleftrightarrow>
       list_all wf_FuncSignature x7 \<and> u32 (int (length x7)) \<and> data = encodeSignatures x7) \<and>
   (decodePackages data = Inr x8 \<longleftrightarrow>
       list_all wf_PackageInfo x8 \<and> u32 (int (length x8)) \<and> data = encodePackages x8) \<and>
   (decodeStatements data = Inr x9 \<longleftrightarrow>
       list_all wf_Statement x9 \<and> u32 (int (length x9)) \<and> data = encodeStatements x9) \<and>
   (decodeTypes data = Inr x10 \<longleftrightarrow>
       list_all wf_TypeInfo x10 \<and> u32 (int (length x10)) \<and> data = encodeTypes x10) \<and>
   (decodeTypeFields data = Inr x11 \<longleftrightarrow>
       list_all wf_TypeFields x11 \<and> u32 (int (length x11)) \<and> data = encodeTypeFields x11) \<and>
   (decodeTypeInterfaces data = Inr x12 \<longleftrightarrow>
       list_all wf_TypeIface x12 \<and> u32 (int (length x12)) \<and> data = encodeTypeInterfaces x12) \<and>
   (decodeTypeFuncs data = Inr x13 \<longleftrightarrow>
       list_all wf_TypeFuncSig x13 \<and> u32 (int (length x13)) \<and> data = encodeTypeFuncs x13) \<and>
   (decodeMethods data = Inr x14 \<longleftrightarrow>
       list_all wf_MethodInfo x14 \<and> u32 (int (length x14)) \<and> data = encodeMethods x14) \<and>
   (decodeTypeRefs data = Inr x15 \<longleftrightarrow>
       list_all wf_TypeRef x15 \<and> u32 (int (length x15)) \<and> data = encodeTypeRefs x15) \<and>
   (decodeLocals data = Inr x16 \<longleftrightarrow>
       list_all wf_LocalDecl x16 \<and> u32 (int (length x16)) \<and> data = encodeLocals x16) \<and>
   (decodeIndexes data = Inr x17 \<longleftrightarrow>
       list_all wf_IndexExpr x17 \<and> u32 (int (length x17)) \<and> data = encodeIndexes x17) \<and>
   (decodeComposites data = Inr x18 \<longleftrightarrow>
       list_all wf_CompositeExpr x18 \<and> u32 (int (length x18)) \<and> data = encodeComposites x18) \<and>
   (decodeAssignments data = Inr x19 \<longleftrightarrow>
       list_all wf_Assignment x19 \<and> u32 (int (length x19)) \<and> data = encodeAssignments x19) \<and>
   (decodeReturns data = Inr x20 \<longleftrightarrow>
       list_all wf_Return x20 \<and> u32 (int (length x20)) \<and> data = encodeReturns x20) \<and>
   (decodeCalls data = Inr x21 \<longleftrightarrow>
       list_all wf_Call x21 \<and> u32 (int (length x21)) \<and> data = encodeCalls x21) \<and>
   (decodeRefs data = Inr x22 \<longleftrightarrow>
       list_all wf_NameRef x22 \<and> u32 (int (length x22)) \<and> data = encodeRefs x22) \<and>
   (decodeSelectors data = Inr x23 \<longleftrightarrow>
       list_all wf_Selector x23 \<and> u32 (int (length x23)) \<and> data = encodeSelectors x23)"
  by (intro conjI; rule decodeDecls_iff decodeFuncs_iff decodeImports_iff decodeSymbols_iff decodeDeclMeta_iff decodeInitOrder_iff decodeConsts_iff decodeSignatures_iff decodePackages_iff decodeStatements_iff decodeTypes_iff decodeTypeFields_iff decodeTypeInterfaces_iff decodeTypeFuncs_iff decodeMethods_iff decodeTypeRefs_iff decodeLocals_iff decodeIndexes_iff decodeComposites_iff decodeAssignments_iff decodeReturns_iff decodeCalls_iff decodeRefs_iff decodeSelectors_iff)

subsection \<open>Tokens\<close>

text \<open>The token table round trip: a token table whose records agree with its line column and whose
  first line fits in 16 bits is encoded without error, and decoding the result gives back the
  records and the large-line column.\<close>

theorem tokens_exact:
  assumes "wf_tokens text tokens tokenLines"
  shows "\<exists>bs. encodeTokens text tokens tokenLines = Some (Inr bs) \<and>
    decodeTokens text bs = Inr (tokens, tokenLines)"
  using assms by (rule tokens_roundtrip)

theorem tokens_exact_witness:
  "\<exists>bs. encodeTokens [0x70, 0x78] [1, 0, 0, 0, 1, 0, 1, 0, 0, 2, 0, 0, 0, 0, 0x72, 0x11] [1, 70002] = Some (Inr bs) \<and>
     decodeTokens [0x70, 0x78] bs = Inr ([1, 0, 0, 0, 1, 0, 1, 0, 0, 2, 0, 0, 0, 0, 0x72, 0x11], [1, 70002])"
proof -
  have "wf_tokens [0x70, 0x78] [1, 0, 0, 0, 1, 0, 1, 0, 0, 2, 0, 0, 0, 0, 0x72, 0x11] [1, 70002]" by code_simp
  then show ?thesis by (rule tokens_exact)
qed

text \<open>C6. The first token's line is lost when it needs the large-line column: \<open>decodeTokens\<close> starts that
  column at the first line above 65535 by copying the 16-bit lines of the tokens before it, and for
  the first token there are none, so the column stays empty.  The encoding of a table whose first
  line is above 65535 never decodes to the lines it was encoded with.\<close>

theorem decodeTokens_loses_first_line:
  assumes "rows_ok text 0 0 ts" "u32 (int (length ts))" "ts \<noteq> []" "row_line (hd ts) > 65535"
  shows "encodeTokens text (rows_bytes text ts) (map row_line ts) =
      Some (Inr (varint (int (length ts)) @ rows_enc 0 0 ts)) \<and>
    (\<exists>tokenLines. decodeTokens text (varint (int (length ts)) @ rows_enc 0 0 ts) =
       Inr (rows_bytes text ts, tokenLines) \<and> tokenLines \<noteq> map row_line ts)"
proof
  show "encodeTokens text (rows_bytes text ts) (map row_line ts) =
      Some (Inr (varint (int (length ts)) @ rows_enc 0 0 ts))"
    by (rule encodeTokens_rows[OF assms(1)]) (simp add: lines_for_def)
  obtain t us where ts: "ts = t # us" using assms(3) by (cases ts) auto
  obtain kind start sz line where t: "t = (kind, start, sz, line)" by (cases t)
  have line: "65535 < line" using assms(4) by (simp add: ts t)
  have "decodeTokens text (varint (int (length ts)) @ rows_enc 0 0 ts) = Inr (rows_bytes text ts, grow_rows [] [] ts)"
    unfolding decodeTokens_iff using assms(1,2) by blast
  moreover have "grow_rows [] [] ts \<noteq> map row_line ts"
  proof -
    have "grow_rows [] [] ts = grow_rows [take_bit 16 line] [] us" by (simp add: ts t Let_def)
    moreover have "rows_ok text start line us" "0 \<le> line"
      using assms(1) line by (simp_all add: ts t)
    ultimately have "grow_rows [] [] ts = (if list_ex (\<lambda>t. row_line t > 65535) us
        then [take_bit 16 line] @ map row_line us else [])"
      using grow_rows_from[of "text" start line us "[take_bit 16 line]"] by simp
    moreover have "take_bit 16 line < 65536" using take_bit_int_less_exp[of 16 line] by simp
    ultimately show ?thesis using line by (auto simp: ts t)
  qed
  ultimately show "\<exists>tokenLines. decodeTokens text (varint (int (length ts)) @ rows_enc 0 0 ts) =
      Inr (rows_bytes text ts, tokenLines) \<and> tokenLines \<noteq> map row_line ts"
    by blast
qed

theorem decodeTokens_loses_first_line_witness:
  "\<exists>tokenLines. decodeTokens [0x70] (varint 1 @ rows_enc 0 0 [(0, 1, 0, 70000)]) =
     Inr (rows_bytes [0x70] [(0, 1, 0, 70000)], tokenLines) \<and> tokenLines \<noteq> [70000]"
  using decodeTokens_loses_first_line[of "[0x70]" "[(0, 1, 0, 70000)]"] by (simp add: u32_def)

end
