(* ===== verification/Front_Unit.thy ===== *)
theory Front_Unit
  imports Unit_Properties
begin

text \<open>
  The frontend's side of the unit format, \<open>internal/unit\<close>: the model that the frontend lowers and
  links (\<open>model_shared.go\<close>) and the encoder of the compact unit that every back end consumes
  (\<open>core_marshal.go\<close>).  \<open>Decl\<close>, \<open>Func\<close> and \<open>PackageInfo\<close> and the varint writer are the same Go code as
  in \<open>backend/unit\<close> and are shared with \<open>Unit_Tables\<close> and \<open>Unit_Varint\<close>; tokens are not, the frontend
  keeps them unpacked.

  The transient encoder gives pages of the text and of the tokens back to the arena while it
  encodes.  What a discarded range holds afterwards is the allocator's business, so the storage after
  a discard is a parameter: \<open>discard a b xs\<close> is the storage \<open>xs\<close> after the release of \<open>xs[a:b]\<close>.
\<close>

subsection \<open>The model\<close>

record Token =
  tok_KindLine :: int
  tok_Start :: int
  tok_Size :: int

definition MakeToken :: "int \<Rightarrow> int \<Rightarrow> int \<Rightarrow> int \<Rightarrow> Token" where
  "MakeToken kind start sz line =
     \<lparr>tok_KindLine = kind OR push_bit 8 line, tok_Start = start, tok_Size = sz\<rparr>"

record RTGAssemblySource =
  asm_Path :: gostring
  asm_Source :: bytes

record RTGAssemblyBinding =
  ab_Func :: int
  ab_Source :: int
  ab_Entry :: int
  ab_Mode :: int
  ab_Inputs :: int
  ab_Outputs :: int
  ab_Code :: bytes

record ForeignProgram =
  fp_Name :: gostring
  fp_Global :: int
  fp_Kind :: int
  fp_Target :: gostring
  fp_InPlace :: bool
  fp_Unit :: bytes
  fp_Artifact :: bytes
  fp_EntryOffset :: int

record CoreProgram =
  core_Package :: gostring
  core_ImportPath :: gostring
  core_Text :: bytes
  core_Tokens :: "Token list"
  core_Decls :: "Decl list"
  core_Funcs :: "Func list"
  core_Packages :: "PackageInfo list"
  core_RTGAssembly :: "RTGAssemblySource list"
  core_RTGAssemblyFuncs :: "RTGAssemblyBinding list"
  core_Entrypoint :: int
  core_ForeignPrograms :: "ForeignProgram list"

subsection \<open>Nodes\<close>

definition appendUint16 :: "bytes \<Rightarrow> int \<Rightarrow> bytes" where
  "appendUint16 out v =
     (let out = out @ [word_of_int v];
          out = out @ [word_of_int (drop_bit 8 v)]
      in out)"

definition appendUint32 :: "bytes \<Rightarrow> int \<Rightarrow> bytes" where
  "appendUint32 out v =
     (let out = out @ [word_of_int v];
          out = out @ [word_of_int (drop_bit 8 v)];
          out = out @ [word_of_int (drop_bit 16 v)];
          out = out @ [word_of_int (drop_bit 24 v)]
      in out)"

definition appendNodeHeader :: "bytes \<Rightarrow> int \<Rightarrow> int \<Rightarrow> bytes" where
  "appendNodeHeader out tag sz =
     (let out = appendUint16 out tag;
          out = appendUint32 out sz
      in out)"

definition appendNode :: "bytes \<Rightarrow> int \<Rightarrow> bytes \<Rightarrow> bytes" where
  "appendNode out tag payload =
     (let out = appendNodeHeader out tag (int (length payload))
      in foldl (\<lambda>out b. out @ [b]) out payload)"

definition appendStringNodeCore :: "bytes \<Rightarrow> int \<Rightarrow> gostring \<Rightarrow> bytes" where
  "appendStringNodeCore out tag payload =
     (let out = appendNodeHeader out tag (int (length payload))
      in foldl (\<lambda>out b. out @ [b]) out payload)"

definition appendCoreStringBytes :: "bytes \<Rightarrow> gostring \<Rightarrow> bytes" where
  "appendCoreStringBytes out s = foldl (\<lambda>out b. out @ [b]) out s"

definition patchUint32Core :: "bytes \<Rightarrow> int \<Rightarrow> int \<Rightarrow> bytes option" where
  "patchUint32Core out pos v =
     do { out \<leftarrow> put out pos (word_of_int v);
          out \<leftarrow> put out (pos + 1) (word_of_int (drop_bit 8 v));
          out \<leftarrow> put out (pos + 2) (word_of_int (drop_bit 16 v));
          put out (pos + 3) (word_of_int (drop_bit 24 v)) }"

subsection \<open>Table encoders\<close>

abbreviation (input) transientMarshalChunk :: nat where "transientMarshalChunk \<equiv> 8192"

type_synonym 'a discard = "nat \<Rightarrow> nat \<Rightarrow> 'a list \<Rightarrow> 'a list"

text \<open>The bytes one token appends, and the chunked loop with its releases.\<close>

definition appendCoreToken :: "bytes \<Rightarrow> int \<Rightarrow> int \<Rightarrow> Token \<Rightarrow> bytes" where
  "appendCoreToken out prevStart prevLine tok =
     (let out = out @ [word_of_int (tok_KindLine tok)];
          v = tok_Start tok - prevStart;
          out = (if v < 128 then out @ [word_of_int v] else appendVarint out v);
          out = (if tok_Size tok < 128 then out @ [word_of_int (tok_Size tok)] else appendVarint out (tok_Size tok));
          line = drop_bit 8 (tok_KindLine tok);
          v = line - prevLine
      in if v < 128 then out @ [word_of_int v] else appendVarint out v)"

function coreTokensLoop ::
  "Token discard \<Rightarrow> bool \<Rightarrow> nat \<Rightarrow> nat \<Rightarrow> int \<Rightarrow> int \<Rightarrow> Token list \<Rightarrow> bytes \<Rightarrow> bytes \<times> Token list" where
  "coreTokensLoop discard transient n i prevStart prevLine tokens out =
     (if i < n then
        let tok = tokens ! i;
            out = appendCoreToken out prevStart prevLine tok;
            tokens = (if transient \<and> (i + 1) mod transientMarshalChunk = 0
                      then discard (i + 1 - transientMarshalChunk) (i + 1) tokens else tokens)
        in coreTokensLoop discard transient n (i + 1) (tok_Start tok) (drop_bit 8 (tok_KindLine tok)) tokens out
      else (out, tokens))"
  by pat_completeness auto
termination
  by (relation "measure (\<lambda>(discard, transient, n, i, prevStart, prevLine, tokens, out). n - i)") auto

declare coreTokensLoop.simps [simp del]

definition appendEncodedTokensCore ::
  "Token discard \<Rightarrow> bool \<Rightarrow> bytes \<Rightarrow> Token list \<Rightarrow> bytes \<times> Token list" where
  "appendEncodedTokensCore discard transient out tokens =
     (let n = length tokens;
          (out, tokens) = coreTokensLoop discard transient n 0 0 0 tokens (appendVarint out (int n));
          tokens = (if transient \<and> n mod transientMarshalChunk \<noteq> 0
                    then discard (n - n mod transientMarshalChunk) n tokens else tokens)
      in (out, tokens))"

function transientTextLoop :: "byte discard \<Rightarrow> nat \<Rightarrow> nat \<Rightarrow> bytes \<Rightarrow> bytes \<Rightarrow> bytes \<times> bytes" where
  "transientTextLoop discard n start text out =
     (if start < n then
        let fin = start + transientMarshalChunk;
            fin = (if fin > n then n else fin);
            out = out @ take (fin - start) (drop start text);
            text = discard start fin text
        in transientTextLoop discard n (start + transientMarshalChunk) text out
      else (out, text))"
  by pat_completeness auto
termination
  by (relation "measure (\<lambda>(discard, n, start, text, out). n - start)") auto

declare transientTextLoop.simps [simp del]

definition appendTransientTextNodeCore :: "byte discard \<Rightarrow> bytes \<Rightarrow> bytes \<Rightarrow> bytes \<times> bytes" where
  "appendTransientTextNodeCore discard out text =
     transientTextLoop discard (length text) 0 text (appendNodeHeader out TagText (int (length text)))"

definition appendEncodedDeclsCore :: "bytes \<Rightarrow> Decl list \<Rightarrow> bytes" where
  "appendEncodedDeclsCore out decls =
     foldl (\<lambda>out decl.
        let out = appendVarint out (decl_Kind decl);
            out = appendVarint out (decl_NameStart decl);
            out = appendVarint out (decl_NameEnd decl - decl_NameStart decl);
            out = appendVarint out (decl_StartTok decl);
            out = appendVarint out (decl_EndTok decl - decl_StartTok decl)
        in out) (appendVarint out (int (length decls))) decls"

definition appendEncodedFuncsCore :: "bytes \<Rightarrow> Func list \<Rightarrow> bytes" where
  "appendEncodedFuncsCore out funcs =
     foldl (\<lambda>out f.
        let out = appendVarint out (fn_NameStart f);
            out = appendVarint out (fn_NameEnd f - fn_NameStart f);
            out = appendVarint out (fn_StartTok f);
            out = appendVarint out (fn_NameTok f - fn_StartTok f);
            out = appendVarint out (fn_ReceiverStart f);
            out = appendVarint out (fn_ReceiverEnd f - fn_ReceiverStart f);
            out = appendVarint out (fn_BodyStart f);
            out = appendVarint out (fn_BodyEnd f - fn_BodyStart f);
            out = appendVarint out (fn_EndTok f - fn_BodyEnd f)
        in out) (appendVarint out (int (length funcs))) funcs"

definition appendEncodedPackagesCore :: "bytes \<Rightarrow> PackageInfo list \<Rightarrow> bytes" where
  "appendEncodedPackagesCore out packages =
     foldl (\<lambda>out item.
        let out = appendVarint out (int (length (pkg_Name item)));
            out = appendCoreStringBytes out (pkg_Name item);
            out = appendVarint out (int (length (pkg_ImportPath item)));
            out = appendCoreStringBytes out (pkg_ImportPath item);
            out = appendUint32 out (pkg_GraphKeyA item);
            out = appendUint32 out (pkg_GraphKeyB item);
            out = appendUint32 out (pkg_SourceKeyA item);
            out = appendUint32 out (pkg_SourceKeyB item);
            out = appendVarint out (pkg_TextStart item);
            out = appendVarint out (pkg_TextEnd item - pkg_TextStart item);
            out = appendVarint out (pkg_TokenStart item);
            out = appendVarint out (pkg_TokenEnd item - pkg_TokenStart item);
            out = appendVarint out (pkg_DeclStart item);
            out = appendVarint out (pkg_DeclEnd item - pkg_DeclStart item);
            out = appendVarint out (pkg_FuncStart item);
            out = appendVarint out (pkg_FuncEnd item - pkg_FuncStart item)
        in out) (appendVarint out (int (length packages))) packages"

definition appendAsmSourceRow :: "bytes \<Rightarrow> RTGAssemblySource \<Rightarrow> bytes" where
  "appendAsmSourceRow out s =
     (let out = appendVarint out (int (length (asm_Path s)));
          out = appendCoreStringBytes out (asm_Path s);
          out = appendVarint out (int (length (asm_Source s)))
      in out @ asm_Source s)"

definition appendAsmBindingRow :: "bytes \<Rightarrow> RTGAssemblyBinding \<Rightarrow> bytes" where
  "appendAsmBindingRow out b =
     (let out = appendVarint out (ab_Func b);
          out = appendVarint out (ab_Source b);
          out = appendVarint out (ab_Entry b);
          out = appendVarint out (ab_Mode b);
          out = appendVarint out (ab_Inputs b);
          out = appendVarint out (ab_Outputs b);
          out = appendVarint out (int (length (ab_Code b)))
      in out @ ab_Code b)"

definition encodeRTGAssemblyCore :: "RTGAssemblySource list \<Rightarrow> RTGAssemblyBinding list \<Rightarrow> bytes" where
  "encodeRTGAssemblyCore sources bindings =
     (let out = appendVarint [] 0;
          out = appendVarint out 2;
          out = appendVarint out (int (length sources));
          out = foldl appendAsmSourceRow out sources;
          out = appendVarint out (int (length bindings));
          out = foldl appendAsmBindingRow out bindings
      in out)"

definition appendForeignRow :: "bytes \<Rightarrow> ForeignProgram \<Rightarrow> bytes" where
  "appendForeignRow out program =
     (let out = appendVarint out (fp_Global program);
          state = fp_Kind program;
          payload = fp_Unit program;
          (state, payload) =
            (if length (fp_Artifact program) > 0 then (state + 2, fp_Artifact program) else (state, payload));
          out = appendVarint out state;
          out = appendVarint out (int (length payload));
          out = out @ payload
      in appendVarint out (fp_EntryOffset program))"

definition encodeForeignProgramsCore :: "ForeignProgram list \<Rightarrow> bytes" where
  "encodeForeignProgramsCore programs =
     foldl appendForeignRow (appendVarint [] (int (length programs))) programs"

subsection \<open>Sizes\<close>

function coreVarintSizeLoop :: "int \<Rightarrow> int \<Rightarrow> int" where
  "coreVarintSizeLoop sz v = (if v \<ge> 128 then coreVarintSizeLoop (sz + 1) (drop_bit 7 v) else sz)"
  by pat_completeness auto
termination
  by (relation "measure (\<lambda>(sz, v). nat v)") (auto simp: drop_bit_eq_div)

declare coreVarintSizeLoop.simps [simp del]

definition coreVarintSize :: "int \<Rightarrow> int" where
  "coreVarintSize v = coreVarintSizeLoop 1 v"

fun tokensCoreSizeLoop :: "int \<Rightarrow> int \<Rightarrow> int \<Rightarrow> Token list \<Rightarrow> int" where
  "tokensCoreSizeLoop sz prevStart prevLine [] = sz"
| "tokensCoreSizeLoop sz prevStart prevLine (tok # toks) =
     (let line = drop_bit 8 (tok_KindLine tok);
          delta = tok_Start tok - prevStart;
          sz = (if delta \<ge> 128 then sz + (coreVarintSize delta - 1) else sz);
          sz = (if tok_Size tok \<ge> 128 then sz + (coreVarintSize (tok_Size tok) - 1) else sz);
          delta = line - prevLine;
          sz = (if delta \<ge> 128 then sz + (coreVarintSize delta - 1) else sz)
      in tokensCoreSizeLoop sz (tok_Start tok) line toks)"

definition encodedTokensCoreSize :: "Token list \<Rightarrow> int" where
  "encodedTokensCoreSize tokens =
     tokensCoreSizeLoop (coreVarintSize (int (length tokens)) + int (length tokens) * 4) 0 0 tokens"

definition encodedDeclsCoreSize :: "Decl list \<Rightarrow> int" where
  "encodedDeclsCoreSize decls =
     foldl (\<lambda>sz d. sz + (coreVarintSize (decl_Kind d) + coreVarintSize (decl_NameStart d) +
         coreVarintSize (decl_NameEnd d - decl_NameStart d) + coreVarintSize (decl_StartTok d) +
         coreVarintSize (decl_EndTok d - decl_StartTok d)))
       (coreVarintSize (int (length decls))) decls"

definition encodedFuncsCoreSize :: "Func list \<Rightarrow> int" where
  "encodedFuncsCoreSize funcs =
     foldl (\<lambda>sz f. sz + (coreVarintSize (fn_NameStart f) + coreVarintSize (fn_NameEnd f - fn_NameStart f) +
         coreVarintSize (fn_StartTok f) + coreVarintSize (fn_NameTok f - fn_StartTok f) +
         coreVarintSize (fn_ReceiverStart f) + coreVarintSize (fn_ReceiverEnd f - fn_ReceiverStart f) +
         coreVarintSize (fn_BodyStart f) + coreVarintSize (fn_BodyEnd f - fn_BodyStart f) +
         coreVarintSize (fn_EndTok f - fn_BodyEnd f)))
       (coreVarintSize (int (length funcs))) funcs"

definition encodedPackagesCoreSize :: "PackageInfo list \<Rightarrow> int" where
  "encodedPackagesCoreSize packages =
     foldl (\<lambda>sz p.
        let sz = sz + (coreVarintSize (int (length (pkg_Name p))) + int (length (pkg_Name p)) +
              coreVarintSize (int (length (pkg_ImportPath p))) + int (length (pkg_ImportPath p)) + 16);
            sz = sz + (coreVarintSize (pkg_TextStart p) + coreVarintSize (pkg_TextEnd p - pkg_TextStart p) +
              coreVarintSize (pkg_TokenStart p) + coreVarintSize (pkg_TokenEnd p - pkg_TokenStart p))
        in sz + (coreVarintSize (pkg_DeclStart p) + coreVarintSize (pkg_DeclEnd p - pkg_DeclStart p) +
              coreVarintSize (pkg_FuncStart p) + coreVarintSize (pkg_FuncEnd p - pkg_FuncStart p)))
       (coreVarintSize (int (length packages))) packages"

subsection \<open>The encoder\<close>

abbreviation (input) unboundTargetBindingReserve :: int where "unboundTargetBindingReserve \<equiv> 80"

text \<open>The capacity \<open>marshalCoreInto\<close> asks for.\<close>

definition marshalCapacity :: "CoreProgram \<Rightarrow> int" where
  "marshalCapacity program =
     (let assemblyCapacity = foldl (\<lambda>c s. c + (int (length (asm_Path s)) + int (length (asm_Source s)) + 4))
            (int (length (core_RTGAssemblyFuncs program)) * 4) (core_RTGAssembly program)
      in 82 + unboundTargetBindingReserve + int (length (core_Package program)) +
         int (length (core_ImportPath program)) + int (length (core_Text program)) +
         encodedTokensCoreSize (core_Tokens program) + encodedDeclsCoreSize (core_Decls program) +
         encodedFuncsCoreSize (core_Funcs program) + encodedPackagesCoreSize (core_Packages program) +
         assemblyCapacity)"

text \<open>A node whose payload is written in place and whose length is patched afterwards.\<close>

definition patchedNode :: "int \<Rightarrow> (bytes \<Rightarrow> bytes) \<Rightarrow> bytes \<Rightarrow> bytes option" where
  "patchedNode tag body out =
     (let header = int (length out);
          out = appendNodeHeader out tag 0;
          start = int (length out);
          out = body out
      in patchUint32Core out (header + 2) (int (length out) - start))"

definition marshalCoreInto ::
  "byte discard \<Rightarrow> Token discard \<Rightarrow> CoreProgram \<Rightarrow> bool \<Rightarrow> bytes option" where
  "marshalCoreInto discardText discardTokens program transient =
     (let out = foldl (\<lambda>out b. out @ [b]) [] Magic;
          out = appendUint16 out Version;
          out = appendUint16 out 0;
          out = appendUint16 out TagUnit;
          rootLength = int (length out);
          out = appendUint32 out 0;
          out = appendStringNodeCore out TagPackage (core_Package program);
          out = appendStringNodeCore out TagImportPath (core_ImportPath program);
          out = (if transient then fst (appendTransientTextNodeCore discardText out (core_Text program))
                 else appendNode out TagText (core_Text program))
      in
      do { out \<leftarrow> patchedNode TagTokens
             (\<lambda>out. fst (appendEncodedTokensCore discardTokens transient out (core_Tokens program))) out;
           out \<leftarrow> patchedNode TagDecls (\<lambda>out. appendEncodedDeclsCore out (core_Decls program)) out;
           out \<leftarrow> patchedNode TagFuncs (\<lambda>out. appendEncodedFuncsCore out (core_Funcs program)) out;
           out \<leftarrow> (if length (core_Packages program) > 0
                   then patchedNode TagPackages (\<lambda>out. appendEncodedPackagesCore out (core_Packages program)) out
                   else Some out);
           let out = (if length (core_RTGAssembly program) > 0 \<or> length (core_RTGAssemblyFuncs program) > 0
                      then appendNode out TagRTGAssembly
                             (encodeRTGAssemblyCore (core_RTGAssembly program) (core_RTGAssemblyFuncs program))
                      else out);
               out = (if core_Entrypoint program > 0
                      then appendNode out TagEntrypoint (appendVarint [] (core_Entrypoint program - 1))
                      else out);
               out = (if length (core_ForeignPrograms program) > 0
                      then appendNode out TagForeignPrograms (encodeForeignProgramsCore (core_ForeignPrograms program))
                      else out)
           in patchUint32Core out rootLength (int (length out) - 14) })"

text \<open>The host build, in which the release functions do nothing, and the self-hosted one.\<close>

definition keepAll :: "'a discard" where
  "keepAll a b xs = xs"

definition MarshalCore :: "CoreProgram \<Rightarrow> bytes option" where
  "MarshalCore program = marshalCoreInto keepAll keepAll program False"

definition MarshalCoreTransient :: "byte discard \<Rightarrow> Token discard \<Rightarrow> CoreProgram \<Rightarrow> bytes option" where
  "MarshalCoreTransient discardText discardTokens program =
     marshalCoreInto discardText discardTokens program True"

text \<open>What the encoder relies on: releasing a range leaves the rest of the storage as it was.\<close>

definition releases_only :: "'a discard \<Rightarrow> bool" where
  "releases_only discard \<longleftrightarrow>
     (\<forall>a b xs. a \<le> b \<longrightarrow> b \<le> length xs \<longrightarrow>
        length (discard a b xs) = length xs \<and> drop b (discard a b xs) = drop b xs)"

subsection \<open>The nodes as children of a unit\<close>

lemma appendUint_out [simp]:
  "appendUint16 out v = out @ putUint16 v" "appendUint32 out v = out @ putUint32 v"
  by (simp_all add: appendUint16_def appendUint32_def putUint16_def putUint32_def)

lemma foldl_snoc [simp]: "foldl (\<lambda>out b. out @ [b]) out xs = out @ xs"
  by (induction xs arbitrary: out) simp_all

lemma appendCoreStringBytes_out [simp]: "appendCoreStringBytes out s = out @ s"
  by (simp add: appendCoreStringBytes_def)

lemma appendNodeHeader_out: "appendNodeHeader out tag sz = out @ putUint16 tag @ putUint32 sz"
  by (simp add: appendNodeHeader_def)

lemma appendNode_out [simp]:
  "appendNode out tag payload = out @ childBytes (tag, payload)"
  "appendStringNodeCore out tag payload = out @ childBytes (tag, payload)"
  by (simp_all add: appendNode_def appendStringNodeCore_def appendNodeHeader_out childBytes_def)

lemma patchUint32Core_mid:
  assumes "length w = 4"
  shows "patchUint32Core (xs @ w @ ys) (int (length xs)) v = Some (xs @ putUint32 v @ ys)"
proof -
  from assms obtain a b c d where w: "w = [a, b, c, d]"
    by (auto simp: length_Suc_conv numeral_eq_Suc)
  have n: "nat (int (length xs) + 1) = length xs + 1" "nat (int (length xs) + 2) = length xs + 2"
    "nat (int (length xs) + 3) = length xs + 3" by simp_all
  show ?thesis
    by (simp add: patchUint32Core_def w n putUint32_def list_update_append eval_nat_numeral)
qed

lemma patchedNode_child:
  assumes "\<And>out. body out = out @ payload"
  shows "patchedNode tag body out = Some (out @ childBytes (tag, payload))"
proof -
  have "patchedNode tag body out =
      patchUint32Core ((out @ putUint16 tag) @ putUint32 0 @ payload) (int (length (out @ putUint16 tag)))
        (int (length payload))"
    by (simp add: patchedNode_def appendNodeHeader_out assms Let_def add.commute)
  also have "\<dots> = Some (out @ childBytes (tag, payload))"
    by (subst patchUint32Core_mid) (simp_all add: childBytes_def)
  finally show ?thesis .
qed

end
