(* ===== verification/Front_Marshal.thy ===== *)
theory Front_Marshal
  imports Front_Unit
begin

text \<open>
  What \<open>marshalCoreInto\<close> of \<open>internal/unit/core_marshal.go\<close> writes: the unit of the program's children,
  whether or not the storage of the text and the tokens is released on the way; how the reader of
  \<open>backend/unit\<close> sees it; and that the bytes fit in the storage reserved for them.
\<close>

subsection \<open>Tables\<close>

lemma small_varint: "v < 128 \<Longrightarrow> varint v = [word_of_int v]"
  by (subst varint_rec) simp

lemma small_or_varint: "(if v < 128 then out @ [word_of_int v] else appendVarint out v) = out @ varint v"
  by (simp add: appendVarint_out small_varint)

text \<open>The row of the wire format that a token of the frontend is.\<close>

definition token_row :: "Token \<Rightarrow> token_row" where
  "token_row tok = (take_bit 8 (tok_KindLine tok), tok_Start tok, tok_Size tok, drop_bit 8 (tok_KindLine tok))"

definition coreTokenBytes :: "int \<Rightarrow> int \<Rightarrow> Token \<Rightarrow> bytes" where
  "coreTokenBytes prevStart prevLine tok =
     word_of_int (tok_KindLine tok) # varint (tok_Start tok - prevStart) @ varint (tok_Size tok) @
     varint (drop_bit 8 (tok_KindLine tok) - prevLine)"

fun coreTokensBytes :: "int \<Rightarrow> int \<Rightarrow> Token list \<Rightarrow> bytes" where
  "coreTokensBytes prevStart prevLine [] = []"
| "coreTokensBytes prevStart prevLine (tok # toks) =
     coreTokenBytes prevStart prevLine tok @ coreTokensBytes (tok_Start tok) (drop_bit 8 (tok_KindLine tok)) toks"

lemma appendCoreToken_out: "appendCoreToken out ps pl tok = out @ coreTokenBytes ps pl tok"
  by (simp add: appendCoreToken_def small_or_varint coreTokenBytes_def Let_def)

lemma releases_only_keepAll: "releases_only keepAll"
  by (simp add: releases_only_def keepAll_def)

text \<open>The token loop reads every token before its range is released.\<close>

lemma coreTokensLoop_out:
  assumes "releases_only discard" "length tokens = n" "i \<le> n" "drop i tokens = toks"
  shows "fst (coreTokensLoop discard transient n i ps pl tokens out) = out @ coreTokensBytes ps pl toks"
  using assms(2-)
proof (induction toks arbitrary: i ps pl tokens out)
  case Nil
  then show ?case by (subst coreTokensLoop.simps) simp
next
  case (Cons tok toks)
  have i: "i < length tokens" "tokens ! i = tok" "drop (Suc i) tokens = toks"
    using drop_Cons_nth[OF Cons.prems(3)] by simp_all
  let ?t = "if transient \<and> (i + 1) mod transientMarshalChunk = 0
    then discard (i + 1 - transientMarshalChunk) (i + 1) tokens else tokens"
  have "length ?t = n" "drop (Suc i) ?t = toks"
    using assms(1) i Cons.prems(1) by (simp_all add: releases_only_def)
  from Cons.IH[OF this(1) _ this(2)] show ?case
    using i Cons.prems(1) by (subst coreTokensLoop.simps) (simp add: Let_def appendCoreToken_out)
qed

lemma appendEncodedTokensCore_out:
  assumes "releases_only discard"
  shows "fst (appendEncodedTokensCore discard transient out tokens) =
    out @ varint (int (length tokens)) @ coreTokensBytes 0 0 tokens"
  using coreTokensLoop_out[OF assms, of tokens "length tokens" 0 tokens transient 0 0 "appendVarint out (int (length tokens))"]
  by (simp add: appendEncodedTokensCore_def appendVarint_out Let_def case_prod_beta)

text \<open>So does the text loop.\<close>

lemma transientTextLoop_out:
  assumes "releases_only discard" "length text = n"
  shows "fst (transientTextLoop discard n start text out) = out @ drop start text"
  using assms(2)
proof (induction "n - start" arbitrary: start "text" out rule: less_induct)
  case less
  show ?case
  proof (cases "start < n")
    case False
    then show ?thesis using less.prems by (subst transientTextLoop.simps) simp
  next
    case True
    define fin where "fin = (if start + 8192 > n then n else start + 8192)"
    have f: "start \<le> fin" "fin \<le> length text" "start < fin" using True less.prems by (auto simp: fin_def)
    let ?t = "discard start fin text"
    have t: "length ?t = n" "drop fin ?t = drop fin text"
      using assms(1) f less.prems by (simp_all add: releases_only_def)
    have "take (fin - start) (drop start text) @ drop fin text = drop start text"
      using f append_take_drop_id[of "fin - start" "drop start text"] by simp
    moreover have "drop (start + 8192) ?t = drop fin ?t"
      using t(1) by (auto simp: fin_def)
    ultimately show ?thesis
      using True t less.hyps[of "start + 8192" ?t "out @ take (fin - start) (drop start text)"]
      by (subst transientTextLoop.simps) (simp add: Let_def fin_def[symmetric])
  qed
qed

lemma appendTransientTextNodeCore_out:
  assumes "releases_only discard"
  shows "fst (appendTransientTextNodeCore discard out text) = out @ childBytes (TagText, text)"
  using transientTextLoop_out[OF assms refl]
  by (simp add: appendTransientTextNodeCore_def appendNodeHeader_out childBytes_def)

text \<open>The other tables are the tables of \<open>backend/unit\<close>.\<close>

lemma appendEncodedDeclsCore_out: "appendEncodedDeclsCore out xs = out @ encodeDecls xs"
proof -
  have "appendEncodedDeclsCore out xs = foldl appendDeclRow (appendVarint out (int (length xs))) xs"
    by (simp add: appendEncodedDeclsCore_def appendDeclRow_def[abs_def])
  then show ?thesis
    by (simp add: decl.fold_out appendVarint_out encodeDecls_def decl.encodeTable_eq)
qed

lemma appendEncodedFuncsCore_out: "appendEncodedFuncsCore out xs = out @ encodeFuncs xs"
proof -
  have "appendEncodedFuncsCore out xs = foldl appendFuncRow (appendVarint out (int (length xs))) xs"
    by (simp add: appendEncodedFuncsCore_def appendFuncRow_def[abs_def])
  then show ?thesis
    by (simp add: func.fold_out appendVarint_out encodeFuncs_def func.encodeTable_eq)
qed

lemma appendEncodedPackagesCore_out: "appendEncodedPackagesCore out xs = out @ encodePackages xs"
proof -
  have "appendEncodedPackagesCore out xs = foldl appendPackageInfoRow (appendVarint out (int (length xs))) xs"
    by (simp add: appendEncodedPackagesCore_def appendPackageInfoRow_def[abs_def] appendString_def
        appendFixed32_def putUint32_def Let_def)
  then show ?thesis
    by (simp add: packageInfo.fold_out appendVarint_out encodePackages_def packageInfo.encodeTable_eq)
qed

subsection \<open>The unit\<close>

definition coreTokensPayload :: "Token list \<Rightarrow> bytes" where
  "coreTokensPayload tokens = varint (int (length tokens)) @ coreTokensBytes 0 0 tokens"

definition coreChildren :: "CoreProgram \<Rightarrow> (int \<times> bytes) list" where
  "coreChildren p =
     [(TagPackage, core_Package p), (TagImportPath, core_ImportPath p), (TagText, core_Text p),
      (TagTokens, coreTokensPayload (core_Tokens p)),
      (TagDecls, encodeDecls (core_Decls p)), (TagFuncs, encodeFuncs (core_Funcs p))] @
     (if core_Packages p = [] then [] else [(TagPackages, encodePackages (core_Packages p))]) @
     (if core_RTGAssembly p = [] \<and> core_RTGAssemblyFuncs p = [] then []
      else [(TagRTGAssembly, encodeRTGAssemblyCore (core_RTGAssembly p) (core_RTGAssemblyFuncs p))]) @
     (if core_Entrypoint p > 0 then [(TagEntrypoint, varint (core_Entrypoint p - 1))] else []) @
     (if core_ForeignPrograms p = [] then []
      else [(TagForeignPrograms, encodeForeignProgramsCore (core_ForeignPrograms p))])"

lemma marshalCoreInto_unit:
  assumes "releases_only discardText" "releases_only discardTokens"
  shows "marshalCoreInto discardText discardTokens p transient = Some (unitBytes (coreChildren p))"
proof -
  have toks: "patchedNode TagTokens
      (\<lambda>out. fst (appendEncodedTokensCore discardTokens transient out (core_Tokens p))) out =
      Some (out @ childBytes (TagTokens, coreTokensPayload (core_Tokens p)))" for out
    by (rule patchedNode_child) (simp add: appendEncodedTokensCore_out[OF assms(2)] coreTokensPayload_def)
  have decls: "patchedNode TagDecls (\<lambda>out. appendEncodedDeclsCore out (core_Decls p)) out =
      Some (out @ childBytes (TagDecls, encodeDecls (core_Decls p)))" for out
    by (rule patchedNode_child) (rule appendEncodedDeclsCore_out)
  have funcs: "patchedNode TagFuncs (\<lambda>out. appendEncodedFuncsCore out (core_Funcs p)) out =
      Some (out @ childBytes (TagFuncs, encodeFuncs (core_Funcs p)))" for out
    by (rule patchedNode_child) (rule appendEncodedFuncsCore_out)
  have pkgs: "patchedNode TagPackages (\<lambda>out. appendEncodedPackagesCore out (core_Packages p)) out =
      Some (out @ childBytes (TagPackages, encodePackages (core_Packages p)))" for out
    by (rule patchedNode_child) (rule appendEncodedPackagesCore_out)
  let ?head = "Magic @ putUint16 Version @ putUint16 0 @ putUint16 TagUnit"
  let ?cs = "childrenBytes (coreChildren p)"
  have h: "int (length ?head) = 10" by (simp add: Magic_def)
  have tx: "(if transient then fst (appendTransientTextNodeCore discardText out (core_Text p))
             else appendNode out TagText (core_Text p)) = out @ childBytes (TagText, core_Text p)" for out
    by (simp add: appendTransientTextNodeCore_out[OF assms(1)])
  have "marshalCoreInto discardText discardTokens p transient =
      patchUint32Core (?head @ putUint32 0 @ ?cs) 10 (int (length (?head @ putUint32 0 @ ?cs)) - 14)"
    unfolding marshalCoreInto_def tx
    by (auto simp: toks decls funcs pkgs coreChildren_def varint_def Magic_def)
  also have "\<dots> = Some (unitBytes (coreChildren p))"
    unfolding h[symmetric] by (subst patchUint32Core_mid) (simp_all add: unitBytes_def Magic_def)
  finally show ?thesis .
qed

lemma MarshalCore_unit: "MarshalCore p = Some (unitBytes (coreChildren p))"
  unfolding MarshalCore_def by (intro marshalCoreInto_unit releases_only_keepAll)

subsection \<open>What a back end reads\<close>

definition tokenKind :: "Token \<Rightarrow> int" where
  "tokenKind tok = take_bit 8 (tok_KindLine tok)"

text \<open>The programs whose fields the wire format carries.  Token kinds are below 128 (the highest is 22):
  the encoder writes them as one raw byte, which the reader takes as a varint.\<close>

definition wf_CoreProgram :: "CoreProgram \<Rightarrow> bool" where
  "wf_CoreProgram p \<longleftrightarrow>
     (let rows = map token_row (core_Tokens p) in
      list_all (\<lambda>t. tokenKind t < 128) (core_Tokens p) \<and>
      rows_ok (core_Text p) 0 0 rows \<and> u32 (int (length rows)) \<and>
      (rows = [] \<or> row_line (hd rows) \<le> 65535) \<and>
      list_all wf_Decl (core_Decls p) \<and> u32 (int (length (core_Decls p))) \<and>
      list_all wf_Func (core_Funcs p) \<and> u32 (int (length (core_Funcs p))) \<and>
      list_all wf_PackageInfo (core_Packages p) \<and> u32 (int (length (core_Packages p))) \<and>
      list_all child_ok (coreChildren p) \<and> u32 (int (length (childrenBytes (coreChildren p)))))"

text \<open>The program of \<open>backend/unit\<close> that a program of the frontend is.\<close>

definition backendView :: "CoreProgram \<Rightarrow> Program" where
  "backendView p =
     (let rows = map token_row (core_Tokens p) in
      emptyProgram\<lparr>prog_Package := core_Package p, prog_ImportPath := core_ImportPath p,
        prog_Text := core_Text p, prog_Tokens := rows_bytes (core_Text p) rows,
        prog_TokenLines := (if list_ex (\<lambda>t. row_line t > 65535) rows then map row_line rows else []),
        prog_Decls := core_Decls p, prog_Funcs := core_Funcs p, prog_Packages := core_Packages p\<rparr>)"

lemma coreTokensBytes_rows:
  "list_all (\<lambda>t. tokenKind t < 128) toks \<Longrightarrow> coreTokensBytes ps pl toks = rows_enc ps pl (map token_row toks)"
proof (induction toks arbitrary: ps pl)
  case (Cons tok toks)
  have "varint (tokenKind tok) = [word_of_int (tok_KindLine tok)]"
    using Cons.prems by (simp add: small_varint tokenKind_def byte_eq_iff_uint take_bit_eq_mod)
  then show ?case
    using Cons by (simp add: coreTokenBytes_def token_row_def tokenKind_def)
qed simp

lemma decodeTokens_core:
  assumes "wf_CoreProgram p"
  shows "decodeTokens (core_Text p) (coreTokensPayload (core_Tokens p)) =
    Inr (prog_Tokens (backendView p), prog_TokenLines (backendView p))"
proof -
  let ?rows = "map token_row (core_Tokens p)"
  have w: "rows_ok (core_Text p) 0 0 ?rows" "u32 (int (length ?rows))" "?rows = [] \<or> row_line (hd ?rows) \<le> 65535"
    and k: "list_all (\<lambda>t. tokenKind t < 128) (core_Tokens p)"
    using assms by (simp_all add: wf_CoreProgram_def Let_def)
  show ?thesis
    unfolding decodeTokens_iff
    using w grow_rows_lines[OF w(1,3)] coreTokensBytes_rows[OF k]
    by (intro exI[of _ ?rows]) (simp add: backendView_def Let_def coreTokensPayload_def)
qed

lemma coreChildren_reads_as:
  assumes "wf_CoreProgram p"
  shows "reads_as (coreChildren p) (backendView p)"
proof -
  have pay: "map_of (coreChildren p) 2 = Some (core_Package p)" "map_of (coreChildren p) 3 = Some (core_ImportPath p)"
    "map_of (coreChildren p) 7 = Some (core_Text p)"
    "map_of (coreChildren p) 8 = Some (coreTokensPayload (core_Tokens p))"
    "map_of (coreChildren p) 9 = Some (encodeDecls (core_Decls p))"
    "map_of (coreChildren p) 10 = Some (encodeFuncs (core_Funcs p))"
    "map_of (coreChildren p) 32 = (if core_Packages p = [] then None else Some (encodePackages (core_Packages p)))"
    by (simp_all add: coreChildren_def)
  have none: "map_of (coreChildren p) t = None" if "10 < t" "t < 32" for t
    using that by (simp add: coreChildren_def)
  show ?thesis
    using assms decodeTokens_core[OF assms]
    unfolding reads_as_def payloadOf_def tableOf_def wf_CoreProgram_def Let_def
    by (simp add: pay none backendView_def Let_def emptyProgram_def decodeDecls_iff decodeFuncs_iff decodePackages_iff)
qed

lemma coreChildren_ok:
  "children_ok (coreChildren p)" "requiredTags \<subseteq> set (map fst (coreChildren p))"
  by (simp_all add: children_ok_def coreChildren_def knownTag_iff requiredTags_def)

lemma reads_as_fun:
  assumes "reads_as cs p" "reads_as cs q"
  shows "p = q"
  using assms unfolding reads_as_def
  by (cases p; cases q) (auto dest: tableOf_fun)

lemma Unmarshal_core:
  assumes "wf_CoreProgram p"
  shows "Unmarshal (unitBytes (coreChildren p)) = Inr q \<longleftrightarrow>
    q = backendView p \<and> validateCoreUnitRanges (backendView p) = None"
proof -
  have ok: "list_all child_ok (coreChildren p)" "u32 (int (length (childrenBytes (coreChildren p))))"
    using assms by (simp_all add: wf_CoreProgram_def Let_def)
  show ?thesis
    unfolding Unmarshal_children_iff[OF ok]
    using coreChildren_ok coreChildren_reads_as[OF assms] reads_as_fun by blast
qed

subsection \<open>The reserved capacity\<close>

lemma coreVarintSizeLoop_eq: "coreVarintSizeLoop sz v = sz - 1 + int (length (varint v))"
proof (induction sz v rule: coreVarintSizeLoop.induct)
  case (1 sz v)
  then show ?case
    by (subst coreVarintSizeLoop.simps, subst varint_rec) simp
qed

lemma coreVarintSize_eq: "coreVarintSize v = int (length (varint v))"
  by (simp add: coreVarintSize_def coreVarintSizeLoop_eq)

lemma foldl_sum: "foldl (\<lambda>c x. c + f x) (c :: int) xs = c + sum_list (map f xs)"
  by (induction xs arbitrary: c) (simp_all add: algebra_simps)

lemma length_encs: "int (length (concat (map f xs))) = sum_list (map (\<lambda>x. int (length (f x))) xs)"
  by (induction xs) simp_all

lemma encodedDeclsCoreSize_eq: "encodedDeclsCoreSize xs = int (length (encodeDecls xs))"
  by (simp add: encodedDeclsCoreSize_def encodeDecls_def decl.encodeTable_eq foldl_sum length_encs
      coreVarintSize_eq Decl_row codec_out enc_appendVarint add.assoc)

lemma encodedFuncsCoreSize_eq: "encodedFuncsCoreSize xs = int (length (encodeFuncs xs))"
  by (simp add: encodedFuncsCoreSize_def encodeFuncs_def func.encodeTable_eq foldl_sum length_encs
      coreVarintSize_eq Func_row codec_out enc_appendVarint add.assoc)

lemma encodedPackagesCoreSize_eq: "encodedPackagesCoreSize xs = int (length (encodePackages xs))"
proof -
  have f4: "length (enc appendFixed32 v) = 4" for v by (simp add: enc_appendFixed32)
  show ?thesis
    by (simp add: encodedPackagesCoreSize_def encodePackages_def packageInfo.encodeTable_eq length_encs
        coreVarintSize_eq enc_def[of appendPackageInfoRow] appendPackageInfoRow_def Let_def
        codec_out enc_appendVarint enc_appendString f4 add.assoc foldl_sum)
qed

lemma coreVarintSize_small: "v < 128 \<Longrightarrow> coreVarintSize v = 1"
  by (simp add: coreVarintSize_eq small_varint)

lemma tokensCoreSizeLoop_eq:
  "tokensCoreSizeLoop sz ps pl toks = sz - 4 * int (length toks) + int (length (coreTokensBytes ps pl toks))"
proof (induction toks arbitrary: sz ps pl)
  case (Cons tok toks)
  have grow: "(if (128 :: int) \<le> v then c + (coreVarintSize v - 1) else c) = c - 1 + int (length (varint v))" for c v
    by (simp add: coreVarintSize_eq small_varint)
  show ?case
    unfolding tokensCoreSizeLoop.simps Let_def grow Cons.IH
    by (simp add: coreTokenBytes_def)
qed simp

lemma encodedTokensCoreSize_eq: "encodedTokensCoreSize toks = int (length (coreTokensPayload toks))"
  by (simp add: encodedTokensCoreSize_def tokensCoreSizeLoop_eq coreTokensPayload_def coreVarintSize_eq)

lemma length_varint_le: "v < 2 ^ (7 * Suc n) \<Longrightarrow> length (varint v) \<le> Suc n"
proof (induction n arbitrary: v)
  case 0
  then show ?case by (simp add: small_varint)
next
  case (Suc n)
  have "(2 :: int) ^ (7 * Suc (Suc n)) = 128 * 2 ^ (7 * Suc n)"
    by (simp add: power_add)
  then have "v div 128 < 2 ^ (7 * Suc n)" using Suc.prems by linarith
  then have "drop_bit 7 v < 2 ^ (7 * Suc n)" by (simp add: drop_bit_eq_div)
  from Suc.IH[OF this] show ?case
    by (subst varint_rec) simp
qed

text \<open>Without assembly and foreign programs, the unit leaves the reserve free.\<close>

lemma marshal_reserve:
  assumes "core_RTGAssembly p = []" "core_RTGAssemblyFuncs p = []" "core_ForeignPrograms p = []"
    and "core_Entrypoint p < 2 ^ 63"
  shows "int (length (unitBytes (coreChildren p))) + unboundTargetBindingReserve \<le> marshalCapacity p"
proof -
  have e: "length (varint (core_Entrypoint p - 1)) \<le> 9"
    using length_varint_le[of "core_Entrypoint p - 1" 8] assms(4) by simp
  show ?thesis
    using e assms(1-3)
    by (simp add: marshalCapacity_def encodedTokensCoreSize_eq encodedDeclsCoreSize_eq encodedFuncsCoreSize_eq
        encodedPackagesCoreSize_eq unitBytes_def coreChildren_def childBytes_def)
qed

end
