(* ===== verification/Front_Children.thy ===== *)
theory Front_Children
  imports Front_Marshal
begin

text \<open>
  Units as the orchestration of \<open>internal/unit\<close> handles them, without decoding their tables:
  \<open>validUnitRoot\<close> of \<open>binding.go\<close> and the loop over the child nodes, which \<open>binding.go\<close> and
  \<open>assembly_fragments.go\<close> repeat with different bodies.  A valid root whose loop ends is the unit of
  a list of children, and the loop is a fold over that list.
\<close>

subsection \<open>Operations\<close>

definition validUnitRoot :: "bytes \<Rightarrow> bool" where
  "validUnitRoot data =
     (if length data < 14 \<or> take 4 data \<noteq> Magic then False
      else le16 data 4 = Version \<and> le16 data 6 = 0 \<and> le16 data 8 = TagUnit \<and>
           le32 data 10 = int (length data) - 14)"

text \<open>The loop over the children from \<open>pos\<close> on.  Its body gets the tag, the payload \<open>data[start:next]\<close> and
  the whole node \<open>data[pos:next]\<close>; \<^const>\<open>None\<close> is a malformed node or a body that gives up.\<close>

function eachChild ::
  "(int \<Rightarrow> bytes \<Rightarrow> bytes \<Rightarrow> 's \<Rightarrow> 's option) \<Rightarrow> bytes \<Rightarrow> nat \<Rightarrow> 's \<Rightarrow> 's option" where
  "eachChild body data pos st =
     (if pos < length data then
        if pos + 6 > length data then None
        else
          let tag = le16 data pos;
              sz = le32 data (pos + 2);
              start = pos + 6;
              nxt = start + nat sz
          in if sz < 0 \<or> nxt < start \<or> nxt > length data then None
             else (case body tag (take (nxt - start) (drop start data)) (take (nxt - pos) (drop pos data)) st of
                     None \<Rightarrow> None
                   | Some st \<Rightarrow> eachChild body data nxt st)
      else Some st)"
  by pat_completeness auto
termination
  by (relation "measure (\<lambda>(body, data, pos, st). length data - pos)") auto

declare eachChild.simps [simp del]

subsection \<open>The loop on a list of children\<close>

fun foldChildren ::
  "(int \<Rightarrow> bytes \<Rightarrow> bytes \<Rightarrow> 's \<Rightarrow> 's option) \<Rightarrow> (int \<times> bytes) list \<Rightarrow> 's \<Rightarrow> 's option" where
  "foldChildren body [] st = Some st"
| "foldChildren body (c # cs) st =
     (case body (fst c) (snd c) (childBytes c) st of None \<Rightarrow> None | Some st \<Rightarrow> foldChildren body cs st)"

lemma foldChildren_append:
  "foldChildren body (cs @ ds) st =
     (case foldChildren body cs st of None \<Rightarrow> None | Some st \<Rightarrow> foldChildren body ds st)"
  by (induction cs arbitrary: st) (auto split: option.split)

text \<open>A node at a position, read back.\<close>

lemma length_childBytes [simp]: "length (childBytes c) = 6 + length (snd c)"
  by (simp add: childBytes_def)

lemma child_at:
  assumes "drop pos data = childBytes c @ rest" "pos \<le> length data" "child_ok c"
  shows "pos + 6 + length (snd c) \<le> length data" "le16 data pos = fst c"
    "le32 data (pos + 2) = int (length (snd c))"
    "take (length (snd c)) (drop (pos + 6) data) = snd c"
    "drop (pos + 6 + length (snd c)) data = rest"
    "take (6 + length (snd c)) (drop pos data) = childBytes c"
proof -
  have ok: "0 \<le> fst c" "fst c < 65536" "u32 (int (length (snd c)))"
    using assms(3) by (simp_all add: child_ok_def)
  show "pos + 6 + length (snd c) \<le> length data"
    using drop_prefix_length[OF assms(1,2)] by simp
  have d0: "drop pos data = putUint16 (fst c) @ putUint32 (int (length (snd c))) @ snd c @ rest"
    using assms(1) by (simp add: childBytes_def)
  show "le16 data pos = fst c" by (rule le16_put[OF d0 ok(1,2)])
  have d2: "drop (pos + 2) data = putUint32 (int (length (snd c))) @ snd c @ rest"
    unfolding drop_plus[of pos 2 data] d0 by simp
  show "le32 data (pos + 2) = int (length (snd c))" by (rule le32_put[OF d2 ok(3)])
  have a6: "pos + 6 = pos + 2 + 4" by simp
  have d6: "drop (pos + 6) data = snd c @ rest"
    unfolding a6 drop_plus[of "pos + 2"] d2 by simp
  show "take (length (snd c)) (drop (pos + 6) data) = snd c" unfolding d6 by simp
  show "drop (pos + 6 + length (snd c)) data = rest" unfolding drop_plus[of "pos + 6"] d6 by simp
  show "take (6 + length (snd c)) (drop pos data) = childBytes c" unfolding assms(1) by simp
qed

lemma child_parse:
  assumes "pos + 6 \<le> length data" "pos + 6 + nat (le32 data (pos + 2)) \<le> length data"
  defines "c \<equiv> (le16 data pos, take (nat (le32 data (pos + 2))) (drop (pos + 6) data))"
  shows "child_ok c" "drop pos data = childBytes c @ drop (pos + 6 + nat (le32 data (pos + 2))) data"
proof -
  let ?n = "nat (le32 data (pos + 2))"
  have l: "pos + 2 \<le> length data" "pos + 2 + 4 \<le> length data" using assms(1) by simp_all
  note p16 = put16_le16[OF l(1)] and p32 = put32_le32[OF l(2)]
  have len: "int (length (snd c)) = le32 data (pos + 2)"
    using assms(2) p32(2) by (simp add: c_def u32_def)
  show "child_ok c"
    unfolding child_ok_def len using p16 p32 by (simp add: c_def)
  have "drop (pos + 6) data = snd c @ drop (pos + 6 + ?n) data"
    unfolding c_def snd_conv drop_plus[of "pos + 6"] append_take_drop_id ..
  moreover have "pos + 2 + 4 = pos + 6" by simp
  ultimately show "drop pos data = childBytes c @ drop (pos + 6 + ?n) data"
    using p16(1) p32(1) unfolding childBytes_def len by (metis append_assoc c_def fst_conv)
qed

lemma eachChild_children:
  assumes "drop pos data = childrenBytes cs" "pos \<le> length data" "list_all child_ok cs"
  shows "eachChild body data pos st = foldChildren body cs st"
  using assms
proof (induction cs arbitrary: pos st)
  case Nil
  then show ?case by (subst eachChild.simps) simp
next
  case (Cons c cs)
  have d: "drop pos data = childBytes c @ childrenBytes cs" and ok: "child_ok c" "list_all child_ok cs"
    using Cons.prems by simp_all
  note f = child_at[OF d Cons.prems(2) ok(1)]
  have IH: "eachChild body data (pos + 6 + length (snd c)) = foldChildren body cs"
    using Cons.IH[OF f(5,1) ok(2)] by (intro ext)
  let ?n = "pos + 6 + length (snd c)"
  have b: "pos < length data" "\<not> pos + 6 > length data"
    "\<not> (int (length (snd c)) < 0 \<or> ?n < pos + 6 \<or> ?n > length data)"
    "?n - (pos + 6) = length (snd c)" "?n - pos = 6 + length (snd c)"
    using f(1) by simp_all
  show ?case
    by (subst eachChild.simps)
      (simp only: b f(2,3,4,6) Let_def if_True if_False nat_int IH foldChildren.simps)
qed

lemma eachChild_sound:
  assumes "eachChild body data pos st = Some st'" "pos \<le> length data"
  shows "\<exists>cs. list_all child_ok cs \<and> drop pos data = childrenBytes cs"
  using assms
proof (induction "length data - pos" arbitrary: pos st rule: less_induct)
  case less
  show ?case
  proof (cases "pos < length data")
    case False
    then show ?thesis by (intro exI[of _ "[]"]) simp
  next
    case True
    let ?n = "pos + 6 + nat (le32 data (pos + 2))"
    have l: "pos + 6 \<le> length data" "?n \<le> length data"
      using less.prems(1) True by (subst (asm) eachChild.simps, simp add: Let_def split: if_splits)+
    obtain st1 where "eachChild body data ?n st1 = Some st'"
      using less.prems(1) True l
      by (subst (asm) eachChild.simps) (auto simp: Let_def split: if_splits option.splits)
    moreover have "length data - ?n < length data - pos" using l True by simp
    ultimately obtain cs where "list_all child_ok cs" "drop ?n data = childrenBytes cs"
      using less.hyps l by blast
    then show ?thesis
      using child_parse[OF l]
      by (intro exI[of _ "(le16 data pos, take (nat (le32 data (pos + 2))) (drop (pos + 6) data)) # cs"]) simp
  qed
qed

subsection \<open>Valid roots\<close>

lemma validUnitRoot_header:
  "validUnitRoot data \<longleftrightarrow>
     data = Magic @ putUint16 Version @ putUint16 0 @ putUint16 TagUnit @
       putUint32 (int (length data) - 14) @ drop 14 data \<and> 14 \<le> length data \<and> u32 (int (length data) - 14)"
proof
  assume v: "validUnitRoot data"
  then have h: "14 \<le> length data" "take 4 data = Magic" "le16 data 4 = 1" "le16 data 6 = 0"
    "le16 data 8 = 1" "le32 data 10 = int (length data) - 14"
    by (auto simp: validUnitRoot_def split: if_splits)
  have le: "4 + 2 \<le> length data" "6 + 2 \<le> length data" "8 + 2 \<le> length data" "10 + 4 \<le> length data"
    using h(1) by simp_all
  note e = put16_le16(1)[OF le(1)] put16_le16(1)[OF le(2)] put16_le16(1)[OF le(3)] put32_le32[OF le(4)]
  have "data = take 4 data @ drop 4 data" by simp
  also have "\<dots> = Magic @ putUint16 Version @ putUint16 0 @ putUint16 TagUnit @
       putUint32 (int (length data) - 14) @ drop 14 data"
    using e(1-4) h by simp
  finally show "data = Magic @ putUint16 Version @ putUint16 0 @ putUint16 TagUnit @
       putUint32 (int (length data) - 14) @ drop 14 data \<and> 14 \<le> length data \<and> u32 (int (length data) - 14)"
    using e(5) h by simp
next
  assume a: "data = Magic @ putUint16 Version @ putUint16 0 @ putUint16 TagUnit @
       putUint32 (int (length data) - 14) @ drop 14 data \<and> 14 \<le> length data \<and> u32 (int (length data) - 14)"
  let ?r = "drop 14 data" and ?n = "int (length data) - 14"
  have d0: "data = Magic @ putUint16 Version @ putUint16 0 @ putUint16 TagUnit @ putUint32 ?n @ ?r"
    using a by blast
  have d4: "drop 4 data = putUint16 1 @ putUint16 0 @ putUint16 1 @ putUint32 ?n @ ?r"
    by (subst d0) simp
  have d6: "drop 6 data = putUint16 0 @ putUint16 1 @ putUint32 ?n @ ?r"
    using drop_plus[of 4 2 data] unfolding d4 by simp
  have d8: "drop 8 data = putUint16 1 @ putUint32 ?n @ ?r"
    using drop_plus[of 6 2 data] unfolding d6 by simp
  have d10: "drop 10 data = putUint32 ?n @ ?r"
    using drop_plus[of 8 2 data] unfolding d8 by simp
  have "take 4 data = Magic" by (subst d0) simp
  moreover have "u32 ?n" using a by blast
  ultimately show "validUnitRoot data"
    using a le16_put[OF d4] le16_put[OF d6] le16_put[OF d8] le32_put[OF d10]
    by (simp add: validUnitRoot_def)
qed

lemma length_unitBytes: "length (unitBytes cs) = 14 + length (childrenBytes cs)"
  by (simp add: unitBytes_def)

lemma drop_unitBytes: "drop 14 (unitBytes cs) = childrenBytes cs"
  by (simp add: unitBytes_def Magic_def putUint16_def putUint32_def)

lemma validUnitRoot_unitBytes: "validUnitRoot (unitBytes cs) \<longleftrightarrow> u32 (int (length (childrenBytes cs)))"
proof -
  have "unitBytes cs = Magic @ putUint16 Version @ putUint16 0 @ putUint16 TagUnit @
      putUint32 (int (length (unitBytes cs)) - 14) @ drop 14 (unitBytes cs)"
    unfolding drop_unitBytes length_unitBytes by (simp add: unitBytes_def)
  then show ?thesis
    unfolding validUnitRoot_header by (simp add: length_unitBytes)
qed

lemma validUnitRoot_children:
  assumes "validUnitRoot data" "eachChild body data 14 st = Some st'"
  shows "\<exists>cs. data = unitBytes cs \<and> list_all child_ok cs \<and> u32 (int (length (childrenBytes cs)))"
proof -
  have v: "data = Magic @ putUint16 Version @ putUint16 0 @ putUint16 TagUnit @
       putUint32 (int (length data) - 14) @ drop 14 data" "14 \<le> length data" "u32 (int (length data) - 14)"
    using assms(1) validUnitRoot_header by blast+
  from eachChild_sound[OF assms(2) v(2)] obtain cs where
    cs: "list_all child_ok cs" "drop 14 data = childrenBytes cs" by blast
  have n: "int (length data) - 14 = int (length (childrenBytes cs))"
    using cs(2)[symmetric] v(2) by simp
  show ?thesis
    using v cs unfolding n by (intro exI[of _ cs]) (simp add: unitBytes_def)
qed

lemma eachChild_unitBytes:
  "list_all child_ok cs \<Longrightarrow> eachChild body (unitBytes cs) 14 st = foldChildren body cs st"
  by (rule eachChild_children[OF drop_unitBytes]) (simp_all add: length_unitBytes)

text \<open>The root's length, patched after nodes were added or removed.\<close>

lemma patch_unitBytes:
  "patchUint32Core (Magic @ putUint16 Version @ putUint16 0 @ putUint16 TagUnit @ putUint32 v @ childrenBytes cs)
     10 (int (length (childrenBytes cs))) = Some (unitBytes cs)"
proof -
  let ?head = "Magic @ putUint16 Version @ putUint16 0 @ putUint16 TagUnit"
  have h: "int (length ?head) = 10" by simp
  have "patchUint32Core (?head @ putUint32 v @ childrenBytes cs) (int (length ?head)) (int (length (childrenBytes cs)))
      = Some (?head @ putUint32 (int (length (childrenBytes cs))) @ childrenBytes cs)"
    by (rule patchUint32Core_mid) simp
  then show ?thesis unfolding h by (simp add: unitBytes_def)
qed

lemma take_unitBytes:
  "take 14 (unitBytes cs) = Magic @ putUint16 Version @ putUint16 0 @ putUint16 TagUnit @
     putUint32 (int (length (childrenBytes cs)))"
  by (simp add: unitBytes_def Magic_def putUint16_def putUint32_def)

end
