(* ===== verification/Front_Binding.thy ===== *)
theory Front_Binding
  imports Front_Children
begin

text \<open>
  The target binding of a unit, \<open>internal/unit/binding.go\<close>: three child nodes with the name of the
  target, the hash of its definition and the version of its descriptor, which orchestration adds to,
  replaces in and reads from an encoded unit.  A result is the pair that the Go function returns
  (\<open>([], False)\<close> for \<open>nil, false\<close>); \<^const>\<open>None\<close> is a panic.

  \<open>BindUnboundTarget\<close> may write into the storage behind the slice.  That storage is the parameter
  \<open>tail\<close>: its length is \<open>cap(*data) - len(*data)\<close>, its contents are whatever was there.
\<close>

subsection \<open>Operations\<close>

abbreviation (input) TagDefinitionTarget :: int where "TagDefinitionTarget \<equiv> 4"
abbreviation (input) TagDefinitionHash :: int where "TagDefinitionHash \<equiv> 5"
abbreviation (input) TagDescriptorVersion :: int where "TagDescriptorVersion \<equiv> 6"
abbreviation (input) targetBindingFixedSize :: nat where "targetBindingFixedSize \<equiv> 52"

record TargetBinding =
  tb_Target :: gostring
  tb_Definition :: gostring
  tb_DescriptorVersion :: int

definition noBinding :: TargetBinding where
  "noBinding = \<lparr>tb_Target = [], tb_Definition = [], tb_DescriptorVersion = 0\<rparr>"

record BindingScan =
  bs_binding :: TargetBinding
  bs_haveTarget :: bool
  bs_haveHash :: bool
  bs_haveVersion :: bool

definition readBindingChild :: "int \<Rightarrow> bytes \<Rightarrow> bytes \<Rightarrow> BindingScan \<Rightarrow> BindingScan option" where
  "readBindingChild tag payload node st =
     (if tag = TagDefinitionTarget then
        if bs_haveTarget st \<or> length payload = 0 then None
        else Some (st\<lparr>bs_binding := (bs_binding st)\<lparr>tb_Target := payload\<rparr>, bs_haveTarget := True\<rparr>)
      else if tag = TagDefinitionHash then
        if bs_haveHash st \<or> length payload \<noteq> 32 then None
        else Some (st\<lparr>bs_binding := (bs_binding st)\<lparr>tb_Definition := payload\<rparr>, bs_haveHash := True\<rparr>)
      else if tag = TagDescriptorVersion then
        if bs_haveVersion st \<or> length payload \<noteq> 2 then None
        else Some (st\<lparr>bs_binding := (bs_binding st)\<lparr>tb_DescriptorVersion := le16 payload 0\<rparr>,
                      bs_haveVersion := True\<rparr>)
      else Some st)"

definition noScan :: BindingScan where
  "noScan = \<lparr>bs_binding = noBinding, bs_haveTarget = False, bs_haveHash = False, bs_haveVersion = False\<rparr>"

definition ReadTargetBinding :: "bytes \<Rightarrow> TargetBinding \<times> bool" where
  "ReadTargetBinding data =
     (if \<not> validUnitRoot data then (noBinding, False)
      else
        (case eachChild readBindingChild data 14 noScan of
           None \<Rightarrow> (noBinding, False)
         | Some st \<Rightarrow>
             if \<not> bs_haveTarget st \<and> \<not> bs_haveHash st \<and> \<not> bs_haveVersion st then (noBinding, False)
             else (bs_binding st, bs_haveTarget st \<and> bs_haveHash st \<and> bs_haveVersion st \<and>
                     tb_DescriptorVersion (bs_binding st) > 0)))"

definition bindingRefused :: "TargetBinding \<Rightarrow> bool" where
  "bindingRefused binding \<longleftrightarrow>
     tb_Target binding = [] \<or> length (tb_Definition binding) \<noteq> 32 \<or> tb_DescriptorVersion binding \<le> 0"

text \<open>The bytes of \<open>version [2]byte\<close>.\<close>

definition versionBytes :: "TargetBinding \<Rightarrow> bytes" where
  "versionBytes binding =
     [word_of_int (tb_DescriptorVersion binding), word_of_int (drop_bit 8 (tb_DescriptorVersion binding))]"

definition appendBinding :: "bytes \<Rightarrow> TargetBinding \<Rightarrow> bytes option" where
  "appendBinding out binding =
     (let out = appendStringNodeCore out TagDefinitionTarget (tb_Target binding);
          out = appendStringNodeCore out TagDefinitionHash (tb_Definition binding);
          out = appendNode out TagDescriptorVersion (versionBytes binding)
      in patchUint32Core out 10 (int (length out) - 14))"

definition bindTargetChild :: "int \<Rightarrow> bytes \<Rightarrow> bytes \<Rightarrow> bytes \<times> bool \<Rightarrow> (bytes \<times> bool) option" where
  "bindTargetChild tag payload node st =
     (case st of (out, hadBinding) \<Rightarrow>
        if tag = TagDefinitionTarget \<or> tag = TagDefinitionHash \<or> tag = TagDescriptorVersion
        then Some (out, True) else Some (out @ node, hadBinding))"

definition BindTarget :: "bytes \<Rightarrow> TargetBinding \<Rightarrow> (bytes \<times> bool) option" where
  "BindTarget data binding =
     (if \<not> validUnitRoot data \<or> bindingRefused binding then Some ([], False)
      else
        (case eachChild bindTargetChild data 14 (take 14 data, False) of
           None \<Rightarrow> Some ([], False)
         | Some (out, hadBinding) \<Rightarrow>
             if hadBinding \<and> \<not> snd (ReadTargetBinding data) then Some ([], False)
             else do { out \<leftarrow> appendBinding out binding; Some (out, True) }))"

definition writeNodeHeaderCore :: "bytes \<Rightarrow> int \<Rightarrow> int \<Rightarrow> int \<Rightarrow> (bytes \<times> int) option" where
  "writeNodeHeaderCore out pos tag sz =
     do { out \<leftarrow> put out pos (word_of_int tag);
          out \<leftarrow> put out (pos + 1) (word_of_int (drop_bit 8 tag));
          out \<leftarrow> put out (pos + 2) (word_of_int sz);
          out \<leftarrow> put out (pos + 3) (word_of_int (drop_bit 8 sz));
          out \<leftarrow> put out (pos + 4) (word_of_int (drop_bit 16 sz));
          out \<leftarrow> put out (pos + 5) (word_of_int (drop_bit 24 sz));
          Some (out, pos + 6) }"

fun writeBytesCore :: "bytes \<Rightarrow> int \<Rightarrow> bytes \<Rightarrow> bytes option" where
  "writeBytesCore out pos [] = Some out"
| "writeBytesCore out pos (b # bs) = do { out \<leftarrow> put out pos b; writeBytesCore out (pos + 1) bs }"

definition writeStringNodeCore :: "bytes \<Rightarrow> int \<Rightarrow> int \<Rightarrow> gostring \<Rightarrow> (bytes \<times> int) option" where
  "writeStringNodeCore out pos tag payload =
     do { (out, pos) \<leftarrow> writeNodeHeaderCore out pos tag (int (length payload));
          out \<leftarrow> writeBytesCore out pos payload;
          Some (out, pos + int (length payload)) }"

text \<open>The result is the slice that \<open>*data\<close> holds afterwards and the boolean.\<close>

definition BindUnboundTarget :: "bytes \<Rightarrow> bytes \<Rightarrow> TargetBinding \<Rightarrow> (bytes \<times> bool) option" where
  "BindUnboundTarget data tail binding =
     (if \<not> validUnitRoot data \<or> bindingRefused binding then Some (data, False)
      else
        let required = targetBindingFixedSize + length (tb_Target binding)
        in if length tail < required then do { out \<leftarrow> appendBinding data binding; Some (out, True) }
           else
             let start = int (length data);
                 out = data @ take required tail
             in do { (out, pos) \<leftarrow> writeStringNodeCore out start TagDefinitionTarget (tb_Target binding);
                     (out, pos) \<leftarrow> writeStringNodeCore out pos TagDefinitionHash (tb_Definition binding);
                     (out, pos) \<leftarrow> writeNodeHeaderCore out pos TagDescriptorVersion 2;
                     out \<leftarrow> put out pos (word_of_int (tb_DescriptorVersion binding));
                     out \<leftarrow> put out (pos + 1) (word_of_int (drop_bit 8 (tb_DescriptorVersion binding)));
                     let pos = pos + 2 in
                     if pos \<noteq> int (length out) then Some (data, False)
                     else do { out \<leftarrow> patchUint32Core out 10 (int (length out) - 14); Some (out, True) } })"

subsection \<open>The binding as children\<close>

definition bindingTag :: "int \<Rightarrow> bool" where
  "bindingTag tag \<longleftrightarrow> tag = TagDefinitionTarget \<or> tag = TagDefinitionHash \<or> tag = TagDescriptorVersion"

definition bindingChildren :: "TargetBinding \<Rightarrow> (int \<times> bytes) list" where
  "bindingChildren b =
     [(TagDefinitionTarget, tb_Target b), (TagDefinitionHash, tb_Definition b),
      (TagDescriptorVersion, versionBytes b)]"

definition unbound :: "(int \<times> bytes) list \<Rightarrow> (int \<times> bytes) list" where
  "unbound cs = filter (\<lambda>c. \<not> bindingTag (fst c)) cs"

lemma unbound_simps [simp]:
  "unbound [] = []" "unbound (c # cs) = (if bindingTag (fst c) then unbound cs else c # unbound cs)"
  "unbound (cs @ ds) = unbound cs @ unbound ds" "unbound (bindingChildren b) = []"
  "unbound (unbound cs) = unbound cs"
  by (simp_all add: unbound_def bindingChildren_def bindingTag_def)

lemma appendBinding_unit:
  "appendBinding (Magic @ putUint16 Version @ putUint16 0 @ putUint16 TagUnit @ putUint32 v @ childrenBytes cs) b =
     Some (unitBytes (cs @ bindingChildren b))"
proof -
  let ?cs = "cs @ bindingChildren b"
  have "appendBinding (Magic @ putUint16 Version @ putUint16 0 @ putUint16 TagUnit @ putUint32 v @ childrenBytes cs) b =
    patchUint32Core (Magic @ putUint16 Version @ putUint16 0 @ putUint16 TagUnit @ putUint32 v @ childrenBytes ?cs)
      10 (int (length (childrenBytes ?cs)))"
    by (simp add: appendBinding_def bindingChildren_def Let_def add_ac)
  then show ?thesis by (simp only: patch_unitBytes)
qed

lemma bindTarget_fold:
  "foldChildren bindTargetChild cs (out, had) =
     Some (out @ childrenBytes (unbound cs), had \<or> list_ex (\<lambda>c. bindingTag (fst c)) cs)"
  by (induction cs arbitrary: out had) (auto simp: bindTargetChild_def bindingTag_def)

text \<open>The exact effect of \<open>BindTarget\<close>.\<close>

lemma BindTarget_iff:
  "BindTarget data b = Some (out, True) \<longleftrightarrow>
     \<not> bindingRefused b \<and>
     (\<exists>cs. data = unitBytes cs \<and> list_all child_ok cs \<and> u32 (int (length (childrenBytes cs))) \<and>
        (list_ex (\<lambda>c. bindingTag (fst c)) cs \<longrightarrow> snd (ReadTargetBinding data)) \<and>
        out = unitBytes (unbound cs @ bindingChildren b))" (is "?l \<longleftrightarrow> ?r")
proof
  assume l: ?l
  then have v: "validUnitRoot data" "\<not> bindingRefused b"
    by (auto simp: BindTarget_def split: if_splits)
  with l obtain st where e: "eachChild bindTargetChild data 14 (take 14 data, False) = Some st"
    by (auto simp: BindTarget_def split: option.splits)
  obtain cs where cs: "data = unitBytes cs" "list_all child_ok cs" "u32 (int (length (childrenBytes cs)))"
    using validUnitRoot_children[OF v(1) e] by blast
  show ?r
    using l v cs
    by (auto simp: BindTarget_def eachChild_unitBytes[OF cs(2)] bindTarget_fold take_unitBytes
        appendBinding_unit split: if_splits)
next
  assume ?r
  then obtain cs where cs: "data = unitBytes cs" "list_all child_ok cs" "u32 (int (length (childrenBytes cs)))"
    "list_ex (\<lambda>c. bindingTag (fst c)) cs \<longrightarrow> snd (ReadTargetBinding data)"
    "out = unitBytes (unbound cs @ bindingChildren b)" and b: "\<not> bindingRefused b" by blast
  then show ?l
    by (auto simp: BindTarget_def validUnitRoot_unitBytes eachChild_unitBytes[OF cs(2)] bindTarget_fold take_unitBytes
        appendBinding_unit)
qed

lemma BindTarget_no_panic: "BindTarget data b \<noteq> None"
proof (cases "validUnitRoot data \<and> \<not> bindingRefused b")
  case True
  show ?thesis
  proof (cases "eachChild bindTargetChild data 14 (take 14 data, False)")
    case (Some st)
    obtain cs where cs: "data = unitBytes cs" "list_all child_ok cs" "u32 (int (length (childrenBytes cs)))"
      using validUnitRoot_children[OF _ Some] True by blast
    then show ?thesis
      using True by (auto simp: BindTarget_def eachChild_unitBytes[OF cs(2)] bindTarget_fold take_unitBytes appendBinding_unit)
  qed (auto simp: BindTarget_def)
qed (auto simp: BindTarget_def)

subsection \<open>Reading a binding back\<close>

lemma readBinding_unbound:
  "foldChildren readBindingChild (unbound cs) st = Some st"
  by (induction cs arbitrary: st) (auto simp: readBindingChild_def bindingTag_def)

lemma le16_version: "le16 (versionBytes b) 0 = tb_DescriptorVersion b mod 65536"
  by (simp add: le16_def versionBytes_def bytes16 take_bit_eq_mod del: uint_word_of_int_byte)

text \<open>The version survives modulo \<open>2 ^ 16\<close>.\<close>

lemma ReadTargetBinding_bound:
  assumes "\<not> bindingRefused b" "list_all child_ok (unbound cs @ bindingChildren b)"
    and "u32 (int (length (childrenBytes (unbound cs @ bindingChildren b))))"
  shows "ReadTargetBinding (unitBytes (unbound cs @ bindingChildren b)) =
    (b\<lparr>tb_DescriptorVersion := tb_DescriptorVersion b mod 65536\<rparr>, tb_DescriptorVersion b mod 65536 > 0)"
proof -
  have "foldChildren readBindingChild (unbound cs @ bindingChildren b) noScan =
      Some \<lparr>bs_binding = b\<lparr>tb_DescriptorVersion := tb_DescriptorVersion b mod 65536\<rparr>,
        bs_haveTarget = True, bs_haveHash = True, bs_haveVersion = True\<rparr>"
    using assms(1)
    by (simp add: foldChildren_append readBinding_unbound bindingChildren_def readBindingChild_def noScan_def
        noBinding_def le16_version bindingRefused_def) (simp add: versionBytes_def)
  then show ?thesis
    using assms(3) by (simp add: ReadTargetBinding_def validUnitRoot_unitBytes eachChild_unitBytes[OF assms(2)])
qed

subsection \<open>Back ends do not see it\<close>

lemma scanChildren_unbound: "scanChildren st (unbound cs) = scanChildren st cs"
proof (induction cs arbitrary: st)
  case (Cons c cs)
  obtain tag pl where c: "c = (tag, pl)" by (cases c)
  have "\<not> knownTag tag \<and> tag \<noteq> TagUnit" if "bindingTag tag"
    using that by (auto simp: bindingTag_def knownTag_iff)
  then show ?case
    using Cons.IH childStep_unknown[of tag st pl] by (auto simp: c attempt_def split: sum.split)
qed simp

lemma Unmarshal_unbound:
  assumes "list_all child_ok cs" "u32 (int (length (childrenBytes cs)))"
    and "list_all child_ok ds" "u32 (int (length (childrenBytes ds)))" "unbound cs = unbound ds"
  shows "Unmarshal (unitBytes cs) = Unmarshal (unitBytes ds)"
  unfolding Unmarshal_unitBytes[OF assms(1,2)] Unmarshal_unitBytes[OF assms(3,4)]
  using scanChildren_unbound[of _ cs] scanChildren_unbound[of _ ds] assms(5) by metis

subsection \<open>Writing in place\<close>

lemma put_mid: "put (xs @ v # ys) (int (length xs)) w = Some (xs @ w # ys)"
  by (simp add: list_update_append)

lemma writeBytesCore_mid:
  "length old = length new \<Longrightarrow>
     writeBytesCore (xs @ old @ ys) (int (length xs)) new = Some (xs @ new @ ys)"
proof (induction new arbitrary: old xs)
  case (Cons b new)
  then obtain o1 os where o: "old = o1 # os" "length os = length new" by (cases old) auto
  show ?case
    using Cons.IH[OF o(2), of "xs @ [b]"] put_mid[of xs o1 "os @ ys" b] by (simp add: o add.commute)
qed simp

lemma writeNodeHeaderCore_mid:
  assumes "length old = 6"
  shows "writeNodeHeaderCore (xs @ old @ ys) (int (length xs)) tag sz =
    Some (xs @ putUint16 tag @ putUint32 sz @ ys, int (length xs) + 6)"
proof -
  from assms obtain a b c d e f where o: "old = [a, b, c, d, e, f]"
    by (auto simp: length_Suc_conv numeral_eq_Suc)
  have n: "nat (int (length xs) + 1) = length xs + 1" "nat (int (length xs) + 2) = length xs + 2"
    "nat (int (length xs) + 3) = length xs + 3" "nat (int (length xs) + 4) = length xs + 4"
    "nat (int (length xs) + 5) = length xs + 5" by simp_all
  show ?thesis
    by (simp add: writeNodeHeaderCore_def o n putUint16_def putUint32_def list_update_append eval_nat_numeral)
qed

lemma writeStringNodeCore_mid:
  assumes "length old = 6 + length payload"
  shows "writeStringNodeCore (xs @ old @ ys) (int (length xs)) tag payload =
    Some (xs @ childBytes (tag, payload) @ ys, int (length xs) + 6 + int (length payload))"
proof -
  let ?h = "xs @ putUint16 tag @ putUint32 (int (length payload))"
  have l: "length (take 6 old) = 6" "length (drop 6 old) = length payload" using assms by simp_all
  have "writeNodeHeaderCore (xs @ take 6 old @ drop 6 old @ ys) (int (length xs)) tag (int (length payload)) =
      Some (?h @ drop 6 old @ ys, int (length ?h))"
    using writeNodeHeaderCore_mid[OF l(1), of xs "drop 6 old @ ys"] by simp
  moreover have "writeBytesCore (?h @ drop 6 old @ ys) (int (length ?h)) payload = Some (?h @ payload @ ys)"
    by (rule writeBytesCore_mid[OF l(2)])
  moreover have "take 6 old @ drop 6 old @ ys = old @ ys"
    by (simp only: append_assoc[symmetric] append_take_drop_id)
  ultimately show ?thesis
    by (simp add: writeStringNodeCore_def childBytes_def)
qed

lemma split_length:
  assumes "length xs = m + n"
  obtains ys zs where "xs = ys @ zs" "length ys = m" "length zs = n"
  using assms that[of "take m xs" "drop m xs"] by simp

lemma writeBinding_mid:
  assumes "length old = 52 + length (tb_Target b)" "length (tb_Definition b) = 32"
  shows "do { (out, pos) \<leftarrow> writeStringNodeCore (xs @ old) (int (length xs)) TagDefinitionTarget (tb_Target b);
              (out, pos) \<leftarrow> writeStringNodeCore out pos TagDefinitionHash (tb_Definition b);
              (out, pos) \<leftarrow> writeNodeHeaderCore out pos TagDescriptorVersion 2;
              out \<leftarrow> put out pos (word_of_int (tb_DescriptorVersion b));
              out \<leftarrow> put out (pos + 1) (word_of_int (drop_bit 8 (tb_DescriptorVersion b)));
              k (out, pos + 2) } =
    k (xs @ childrenBytes (bindingChildren b), int (length xs) + int (length old))"
proof -
  let ?c1 = "childBytes (4, tb_Target b)" and ?c2 = "childBytes (5, tb_Definition b)"
  let ?h = "putUint16 6 @ putUint32 2"
  have "length old = (6 + length (tb_Target b)) + ((6 + length (tb_Definition b)) + (6 + 2))"
    using assms by simp
  then obtain o1 o234 where o1: "old = o1 @ o234" "length o1 = 6 + length (tb_Target b)"
    "length o234 = (6 + length (tb_Definition b)) + (6 + 2)" by (rule split_length)
  obtain o2 o34 where o2: "o234 = o2 @ o34" "length o2 = 6 + length (tb_Definition b)" "length o34 = 6 + 2"
    using o1(3) by (rule split_length)
  obtain o3 o4 where o3: "o34 = o3 @ o4" "length o3 = 6" "length o4 = 2"
    using o2(3) by (rule split_length)
  obtain v w where o4: "o4 = [v, w]" using o3(3) by (auto simp: length_Suc_conv numeral_eq_Suc)
  have s1: "writeStringNodeCore (xs @ old) (int (length xs)) 4 (tb_Target b) =
      Some ((xs @ ?c1) @ o2 @ o34, int (length (xs @ ?c1)))"
    using writeStringNodeCore_mid[OF o1(2), of xs "o2 @ o34" 4] by (simp add: o1(1) o2(1))
  have s2: "writeStringNodeCore ((xs @ ?c1) @ o2 @ o34) (int (length (xs @ ?c1))) 5 (tb_Definition b) =
      Some ((xs @ ?c1 @ ?c2) @ o3 @ o4, int (length (xs @ ?c1 @ ?c2)))"
    using writeStringNodeCore_mid[OF o2(2), of "xs @ ?c1" o34 5] by (simp add: o3(1))
  have s3: "writeNodeHeaderCore ((xs @ ?c1 @ ?c2) @ o3 @ o4) (int (length (xs @ ?c1 @ ?c2))) 6 2 =
      Some ((xs @ ?c1 @ ?c2 @ ?h) @ v # [w], int (length (xs @ ?c1 @ ?c2 @ ?h)))"
    using writeNodeHeaderCore_mid[OF o3(2), of "xs @ ?c1 @ ?c2" o4 6 2] by (simp add: o4)
  let ?v = "word_of_int (tb_DescriptorVersion b)" and ?w = "word_of_int (drop_bit 8 (tb_DescriptorVersion b))"
  let ?p = "xs @ ?c1 @ ?c2 @ ?h"
  have s4: "put (?p @ v # [w]) (int (length ?p)) ?v = Some ((?p @ [?v]) @ w # [])"
    using put_mid[of ?p v "[w]" ?v] by simp
  have s5: "put ((?p @ [?v]) @ w # []) (int (length ?p) + 1) ?w = Some (?p @ [?v, ?w])"
    using put_mid[of "?p @ [?v]" w "[]" ?w] by (simp add: add_ac)
  have e: "?p @ [?v, ?w] = xs @ childrenBytes (bindingChildren b)"
    by (simp add: bindingChildren_def childBytes_def versionBytes_def)
  have l: "int (length ?p) + 2 = int (length xs) + int (length old)"
    using assms by simp
  show ?thesis
    by (simp only: s1 s2 s3 s4 s5 e l Option.bind.simps prod.case)
qed

text \<open>Whatever the storage behind the slice holds, the binding is appended to the unit.\<close>

lemma BindUnboundTarget_unit:
  assumes "u32 (int (length (childrenBytes cs)))" "\<not> bindingRefused b"
  shows "BindUnboundTarget (unitBytes cs) tail b = Some (unitBytes (cs @ bindingChildren b), True)"
proof -
  have u: "unitBytes cs = Magic @ putUint16 Version @ putUint16 0 @ putUint16 TagUnit @
      putUint32 (int (length (childrenBytes cs))) @ childrenBytes cs"
    by (simp add: unitBytes_def)
  have d: "length (tb_Definition b) = 32" using assms(2) by (simp add: bindingRefused_def)
  let ?cs = "cs @ bindingChildren b"
  show ?thesis
  proof (cases "length tail < 52 + length (tb_Target b)")
    case True
    then show ?thesis
      using assms appendBinding_unit[of "int (length (childrenBytes cs))" cs b, folded u]
      by (simp add: BindUnboundTarget_def validUnitRoot_unitBytes)
  next
    case False
    let ?old = "take (52 + length (tb_Target b)) tail"
    have l: "length ?old = 52 + length (tb_Target b)" using False by simp
    have out: "unitBytes cs @ childrenBytes (bindingChildren b) =
        Magic @ putUint16 Version @ putUint16 0 @ putUint16 TagUnit @
          putUint32 (int (length (childrenBytes cs))) @ childrenBytes ?cs"
      by (simp add: u)
    have len: "int (length (unitBytes cs)) + int (length ?old) = int (length (unitBytes cs @ childrenBytes (bindingChildren b)))"
      "int (length (unitBytes cs @ childrenBytes (bindingChildren b))) - 14 = int (length (childrenBytes ?cs))"
      using l d by (simp_all add: bindingChildren_def versionBytes_def length_unitBytes)
    have pt: "patchUint32Core (unitBytes cs @ childrenBytes (bindingChildren b)) 10 (int (length (childrenBytes ?cs))) =
        Some (unitBytes ?cs)"
      unfolding out by (rule patch_unitBytes)
    have lc: "length (childrenBytes (bindingChildren b)) = 52 + length (tb_Target b)"
      using d by (simp add: bindingChildren_def versionBytes_def)
    show ?thesis
      using False assms
      unfolding BindUnboundTarget_def Let_def
      by (simp add: validUnitRoot_unitBytes writeBinding_mid[OF l d, where k = "\<lambda>(out, pos).
          if pos \<noteq> int (length out) then Some (unitBytes cs, False)
          else do { out \<leftarrow> patchUint32Core out 10 (int (length out) - 14); Some (out, True) }", simplified]
          len lc pt[unfolded childrenBytes_simps(3)] del: length_append)
  qed
qed

end
