(* ===== verification/Front_Reader.thy ===== *)
theory Front_Reader
  imports Front_Binding "HOL-Library.State_Monad"
begin

text \<open>
  The readers of the optional payloads of \<open>internal/unit\<close>: \<open>foreignReader\<close> (\<open>foreign.go\<close>),
  \<open>rtgasmUnitReader\<close> (\<open>assembly_fragments.go\<close>) and \<open>frontendCacheReader\<close> (\<open>frontend_cache.go\<close>).  The
  three Go types have the same fields, the data, a position and a sticky \<open>ok\<close>, and are one record here;
  their methods thread it as a state monad.  They differ in the varints they accept.

  The contract between a writer and such a reader is the locale \<open>cursor_codec\<close>: a reader that stands
  in front of what the writer wrote for a value returns the value and stands behind it.
\<close>

record cursor =
  cur_data :: bytes
  cur_pos :: nat
  cur_ok :: bool

subsection \<open>Varints\<close>

text \<open>The methods answer a value whether or not they succeed; the loops return the value, the position and
  the \<open>ok\<close> they leave.\<close>

function foreignVarintLoop :: "bytes \<Rightarrow> nat \<Rightarrow> int \<Rightarrow> nat \<Rightarrow> int \<times> nat \<times> bool" where
  "foreignVarintLoop data pos value shift =
     (if pos < length data \<and> shift \<le> 28 then
        let part = data ! pos; pos = pos + 1 in
        if shift = 28 \<and> part \<ge> 16 then (-1, pos, False)
        else
          let value = value OR push_bit shift (uint (part AND 127)) in
          if part < 128 then (value, pos, \<not> (shift > 0 \<and> part = 0))
          else foreignVarintLoop data pos value (shift + 7)
      else (-1, pos, False))"
  by pat_completeness auto
termination
  by (relation "measure (\<lambda>(data, pos, value, shift). length data - pos)") auto

declare foreignVarintLoop.simps [simp del]

definition foreignVarint :: "(cursor, int) state" where
  "foreignVarint = State (\<lambda>r.
     if \<not> cur_ok r \<or> cur_pos r \<ge> length (cur_data r) then (-1, r\<lparr>cur_ok := False\<rparr>)
     else (case foreignVarintLoop (cur_data r) (cur_pos r) 0 0 of
             (value, pos, ok) \<Rightarrow> (value, r\<lparr>cur_pos := pos, cur_ok := ok\<rparr>)))"

definition foreignBytes :: "(cursor, bytes) state" where
  "foreignBytes = do {
     sz \<leftarrow> foreignVarint;
     r \<leftarrow> State_Monad.get;
     if \<not> cur_ok r \<or> sz < 0 \<or> int (cur_pos r) + sz < int (cur_pos r) \<or>
        int (cur_pos r) + sz > int (length (cur_data r))
     then do { State_Monad.set (r\<lparr>cur_ok := False\<rparr>); State_Monad.return [] }
     else do { State_Monad.set (r\<lparr>cur_pos := cur_pos r + nat sz\<rparr>);
               State_Monad.return (take (nat sz) (drop (cur_pos r) (cur_data r))) } }"

function asmVarintLoop :: "bytes \<Rightarrow> nat \<Rightarrow> int \<Rightarrow> nat \<Rightarrow> int \<times> nat \<times> bool" where
  "asmVarintLoop data pos value shift =
     (if pos < length data \<and> shift \<le> 28 then
        let part = uint (data ! pos); pos = pos + 1 in
        if shift = 28 \<and> part > 7 then (0, pos, False)
        else
          let value = value OR push_bit shift (part AND 127) in
          if part < 128 then (value, pos, True)
          else asmVarintLoop data pos value (shift + 7)
      else (0, pos, False))"
  by pat_completeness auto
termination
  by (relation "measure (\<lambda>(data, pos, value, shift). length data - pos)") auto

declare asmVarintLoop.simps [simp del]

definition asmVarint :: "(cursor, int) state" where
  "asmVarint = State (\<lambda>r.
     case asmVarintLoop (cur_data r) (cur_pos r) 0 0 of
       (value, pos, ok) \<Rightarrow> (value, r\<lparr>cur_pos := pos, cur_ok := cur_ok r \<and> ok\<rparr>))"

definition asmBytes :: "(cursor, bytes) state" where
  "asmBytes = do {
     sz \<leftarrow> asmVarint;
     r \<leftarrow> State_Monad.get;
     if \<not> cur_ok r \<or> sz < 0 \<or> int (cur_pos r) + sz < int (cur_pos r) \<or>
        int (cur_pos r) + sz > int (length (cur_data r))
     then do { State_Monad.set (r\<lparr>cur_ok := False\<rparr>); State_Monad.return [] }
     else do { State_Monad.set (r\<lparr>cur_pos := cur_pos r + nat sz\<rparr>);
               State_Monad.return (take (nat sz) (drop (cur_pos r) (cur_data r))) } }"

function cacheVarintLoop :: "bytes \<Rightarrow> nat \<Rightarrow> int \<Rightarrow> nat \<Rightarrow> int \<times> nat \<times> bool" where
  "cacheVarintLoop data pos value shift =
     (if pos < length data \<and> shift < 63 then
        let part = uint (data ! pos); pos = pos + 1;
            value = value OR push_bit shift (part AND 0x7f)
        in if part < 0x80 then (value, pos, True)
           else cacheVarintLoop data pos value (shift + 7)
      else (0, pos, False))"
  by pat_completeness auto
termination
  by (relation "measure (\<lambda>(data, pos, value, shift). length data - pos)") auto

declare cacheVarintLoop.simps [simp del]

definition rawVarint :: "(cursor, int) state" where
  "rawVarint = State (\<lambda>r.
     if \<not> cur_ok r then (0, r)
     else (case cacheVarintLoop (cur_data r) (cur_pos r) 0 0 of
             (value, pos, ok) \<Rightarrow> (value, r\<lparr>cur_pos := pos, cur_ok := ok\<rparr>)))"

definition intValue :: "(cursor, int) state" where
  "intValue = do { v \<leftarrow> rawVarint; State_Monad.return (v - 1) }"

definition countValue :: "(cursor, int) state" where
  "countValue = do {
     v \<leftarrow> intValue;
     if v < 0 \<or> v > 2 ^ 24
     then do { State_Monad.update (\<lambda>r. r\<lparr>cur_ok := False\<rparr>); State_Monad.return 0 }
     else State_Monad.return v }"

definition byteValue :: "(cursor, bytes) state" where
  "byteValue = do {
     sz \<leftarrow> rawVarint;
     r \<leftarrow> State_Monad.get;
     if \<not> cur_ok r \<or> sz < 0 \<or> sz > int (length (cur_data r)) - int (cur_pos r)
     then do { State_Monad.set (r\<lparr>cur_ok := False\<rparr>); State_Monad.return [] }
     else do { State_Monad.set (r\<lparr>cur_pos := cur_pos r + nat sz\<rparr>);
               State_Monad.return (take (nat sz) (drop (cur_pos r) (cur_data r))) } }"

text \<open>\<open>for i := 0; i < n; i++\<close> over a slice filled by reads.\<close>

fun readTimes :: "nat \<Rightarrow> (cursor, 'a) state \<Rightarrow> (cursor, 'a list) state" where
  "readTimes 0 rd = State_Monad.return []"
| "readTimes (Suc n) rd = do { x \<leftarrow> rd; xs \<leftarrow> readTimes n rd; State_Monad.return (x # xs) }"

subsection \<open>The contract\<close>

text \<open>A reader between what it has consumed and what is left.\<close>

definition cursor_at :: "bytes \<Rightarrow> bytes \<Rightarrow> cursor" where
  "cursor_at before rest = \<lparr>cur_data = before @ rest, cur_pos = length before, cur_ok = True\<rparr>"

locale cursor_codec =
  fixes app :: "bytes \<Rightarrow> 'a \<Rightarrow> bytes"
    and rd :: "(cursor, 'a) state"
    and wf :: "'a \<Rightarrow> bool"
  assumes app_out: "app out x = out @ enc app x"
    and rd_enc: "wf x \<Longrightarrow>
      run_state rd (cursor_at before (enc app x @ rest)) = (x, cursor_at (before @ enc app x) rest)"
begin

lemma fold_out: "foldl app out xs = out @ concat (map (enc app) xs)"
proof (induction xs arbitrary: out)
  case (Cons x xs)
  then show ?case using app_out[of out x] by simp
qed simp

lemma rd_times:
  "list_all wf xs \<Longrightarrow>
     run_state (readTimes (length xs) rd) (cursor_at before (concat (map (enc app) xs) @ rest)) =
       (xs, cursor_at (before @ concat (map (enc app) xs)) rest)"
  by (induction xs arbitrary: before) (simp_all add: rd_enc)

end

subsection \<open>The primitives meet the contract\<close>

lemma varint_cont:
  assumes "v \<ge> 128"
  defines "b \<equiv> word_of_int v OR 0x80 :: byte"
  shows "varint v = b # varint (drop_bit 7 v)" "\<not> uint b < 128" "uint b AND 127 = v mod 128"
    "0 \<le> v mod 128" "v mod 128 < 128"
proof -
  show "varint v = b # varint (drop_bit 7 v)"
    using assms(1) by (subst varint_rec) (simp add: b_def)
  show "\<not> uint b < 128" using continuation_high[of v] by (simp add: b_def word_less_def)
  show "uint b AND 127 = v mod 128"
    using continuation_low[of v] by (simp add: b_def uint_and)
qed simp_all

lemma varint_last:
  assumes "0 \<le> v" "v < 128"
  shows "varint v = [word_of_int v]" "uint (word_of_int v :: byte) = v" "v AND 127 = v"
proof -
  show "varint v = [word_of_int v]" using assms by (simp add: small_varint)
  have "v AND mask 7 = v" using assms by (simp add: take_bit_int_eq_self flip: take_bit_eq_mask)
  then show "v AND 127 = v" by (simp add: mask_eq_exp_minus_1)
qed (use assms in simp)

lemma foreignVarintLoop_iff:
  "shift mod 7 = 0 \<Longrightarrow>
     foreignVarintLoop data pos value shift = (v, n, True) \<longleftrightarrow> readVarintLoop data pos value shift = Some (v, n)"
proof (induction data pos "value" shift rule: foreignVarintLoop.induct)
  case (1 data pos acc shift)
  show ?case
  proof (cases "pos < length data \<and> shift \<le> 28")
    case True
    then have s: "shift \<ge> 28 \<longleftrightarrow> shift = 28" by auto
    have "foreignVarintLoop data (pos + 1) (acc OR push_bit shift (uint (data ! pos AND 127))) (shift + 7) = (v, n, True)
        \<longleftrightarrow> readVarintLoop data (pos + 1) (acc OR push_bit shift (uint (data ! pos AND 127))) (shift + 7) = Some (v, n)"
      if "\<not> (shift = 28 \<and> data ! pos \<ge> 16)" "\<not> data ! pos < 128"
      using 1(1)[OF True refl refl that(1) refl that(2)] 1(2) by (simp add: mod_add_self2)
    then show ?thesis
      using True by (subst foreignVarintLoop.simps, subst readVarintLoop.simps) (auto simp: Let_def s)
  next
    case False
    then show ?thesis
      by (subst foreignVarintLoop.simps, subst readVarintLoop.simps) auto
  qed
qed

lemma foreignVarint_enc:
  assumes "u32 v"
  shows "run_state foreignVarint (cursor_at before (varint v @ rest)) = (v, cursor_at (before @ varint v) rest)"
proof -
  have "readVarintLoop (before @ varint v @ rest) (length before) 0 0 =
      Some (v, length before + length (varint v))"
    using readVarint_complete[of "length before" "before @ varint v @ rest" v rest] assms
    by (simp add: readVarint_def)
  then have "foreignVarintLoop (before @ varint v @ rest) (length before) 0 0 =
      (v, length before + length (varint v), True)"
    using foreignVarintLoop_iff[of 0] by simp
  then show ?thesis
    by (simp add: foreignVarint_def cursor_at_def)
qed

text \<open>One turn of a loop that has read \<open>k\<close> bytes of the encoding of a value below \<open>2 ^ n\<close>.\<close>

lemma varint_turn:
  assumes "128 \<le> v" "v < 2 ^ (n - 7 * k)" "0 \<le> acc" "acc < 2 ^ (7 * k)"
  shows "7 * Suc k < n" "nat (drop_bit 7 v) < nat v" "0 \<le> drop_bit 7 v" "drop_bit 7 v < 2 ^ (n - 7 * Suc k)"
    "0 \<le> acc + v mod 128 * 2 ^ (7 * k)" "acc + v mod 128 * 2 ^ (7 * k) < 2 ^ (7 * Suc k)"
    "acc + v mod 128 * 2 ^ (7 * k) + drop_bit 7 v * 2 ^ (7 * Suc k) = acc + v * 2 ^ (7 * k)"
proof -
  show k: "7 * Suc k < n"
  proof (rule ccontr)
    assume "\<not> 7 * Suc k < n"
    then have "(2::int) ^ (n - 7 * k) \<le> 2 ^ 7" by (intro power_increasing) auto
    then show False using assms(1,2) by simp
  qed
  have p7: "(2::int) ^ (7 * Suc k) = 128 * 2 ^ (7 * k)" by (simp add: power_add)
  have "v mod 128 * 2 ^ (7 * k) \<le> 127 * 2 ^ (7 * k)" by (intro mult_right_mono) simp_all
  then show "acc + v mod 128 * 2 ^ (7 * k) < 2 ^ (7 * Suc k)" using assms(4) unfolding p7 by linarith
  show "0 \<le> acc + v mod 128 * 2 ^ (7 * k)" using assms(3) by simp
  have e: "n - 7 * k = (n - 7 * Suc k) + 7" using k by simp
  have pow: "(2::int) ^ (n - 7 * k) = 2 ^ (n - 7 * Suc k) * 128" by (simp only: e power_add) simp
  show "nat (drop_bit 7 v) < nat v" "0 \<le> drop_bit 7 v" "drop_bit 7 v < 2 ^ (n - 7 * Suc k)"
    using assms(1,2) unfolding pow by (simp_all add: drop_bit_eq_div div_less_iff_less_mult)
  have "v = 128 * drop_bit 7 v + v mod 128" by (simp add: drop_bit_eq_div)
  then have "v * 2 ^ (7 * k) = (128 * drop_bit 7 v + v mod 128) * 2 ^ (7 * k)" by simp
  then show "acc + v mod 128 * 2 ^ (7 * k) + drop_bit 7 v * 2 ^ (7 * Suc k) = acc + v * 2 ^ (7 * k)"
    unfolding p7 by (simp only: distrib_right)
qed

lemma asmVarintLoop_enc:
  assumes "0 \<le> v" "v < 2 ^ (31 - 7 * k)" "k \<le> 4" "0 \<le> acc" "acc < 2 ^ (7 * k)"
  shows "asmVarintLoop (before @ varint v @ rest) (length before) acc (7 * k) =
    (acc + v * 2 ^ (7 * k), length before + length (varint v), True)"
  using assms
proof (induction "nat v" arbitrary: v k acc before rule: less_induct)
  case less
  have or: "acc OR push_bit (7 * k) x = acc + x * 2 ^ (7 * k)" for x
    using less.prems by (intro or_push_bit_eq_add) auto
  show ?case
  proof (cases "v \<ge> 128")
    case True
    note c = varint_cont[OF True] and t = varint_turn[OF True less.prems(2,4,5)]
    have s: "Suc k \<le> 4" using t(1) by simp
    let ?b = "word_of_int v OR 128 :: byte"
    have "asmVarintLoop (before @ varint v @ rest) (length before) acc (7 * k) =
        asmVarintLoop ((before @ [?b]) @ varint (drop_bit 7 v) @ rest) (length (before @ [?b]))
          (acc + v mod 128 * 2 ^ (7 * k)) (7 * Suc k)"
      using s c(2,3) by (subst asmVarintLoop.simps) (simp add: c(1) Let_def or nth_append add.commute del: push_bit_and)
    then show ?thesis
      unfolding less.hyps[OF t(2-4) s t(5,6)] t(7) c(1) by simp
  next
    case False
    then have small: "v < 128" by simp
    note l = varint_last[OF less.prems(1) small]
    have m: "v mod 256 = v" using less.prems(1) small by simp
    have "\<not> (7 * k = 28 \<and> v > 7)" using less.prems(2) by auto
    then show ?thesis
      using False less.prems(3) by (subst asmVarintLoop.simps) (auto simp: l m Let_def or simp del: push_bit_and)
  qed
qed

lemma cacheVarintLoop_enc:
  assumes "0 \<le> v" "v < 2 ^ (63 - 7 * k)" "k \<le> 8" "0 \<le> acc" "acc < 2 ^ (7 * k)"
  shows "cacheVarintLoop (before @ varint v @ rest) (length before) acc (7 * k) =
    (acc + v * 2 ^ (7 * k), length before + length (varint v), True)"
  using assms
proof (induction "nat v" arbitrary: v k acc before rule: less_induct)
  case less
  have or: "acc OR push_bit (7 * k) x = acc + x * 2 ^ (7 * k)" for x
    using less.prems by (intro or_push_bit_eq_add) auto
  show ?case
  proof (cases "v \<ge> 128")
    case True
    note c = varint_cont[OF True] and t = varint_turn[OF True less.prems(2,4,5)]
    have s: "Suc k \<le> 8" using t(1) by simp
    let ?b = "word_of_int v OR 128 :: byte"
    have "cacheVarintLoop (before @ varint v @ rest) (length before) acc (7 * k) =
        cacheVarintLoop ((before @ [?b]) @ varint (drop_bit 7 v) @ rest) (length (before @ [?b]))
          (acc + v mod 128 * 2 ^ (7 * k)) (7 * Suc k)"
      using s c(2,3) by (subst cacheVarintLoop.simps) (simp add: c(1) Let_def or nth_append add.commute del: push_bit_and)
    then show ?thesis
      unfolding less.hyps[OF t(2-4) s t(5,6)] t(7) c(1) by simp
  next
    case False
    then have small: "v < 128" by simp
    note l = varint_last[OF less.prems(1) small]
    have m: "v mod 256 = v" using less.prems(1) small by simp
    show ?thesis
      using False less.prems(3) by (subst cacheVarintLoop.simps) (auto simp: l m Let_def or simp del: push_bit_and)
  qed
qed

lemma asmVarint_enc:
  assumes "0 \<le> v" "v < 2 ^ 31"
  shows "run_state asmVarint (cursor_at before (varint v @ rest)) = (v, cursor_at (before @ varint v) rest)"
  using asmVarintLoop_enc[of v 0 0 before rest] assms by (simp add: asmVarint_def cursor_at_def)

lemma rawVarint_enc:
  assumes "0 \<le> v" "v < 2 ^ 63"
  shows "run_state rawVarint (cursor_at before (varint v @ rest)) = (v, cursor_at (before @ varint v) rest)"
  using cacheVarintLoop_enc[of v 0 0 before rest] assms by (simp add: rawVarint_def cursor_at_def)

interpretation foreign_int: cursor_codec appendVarint foreignVarint u32
  by unfold_locales (simp_all add: appendVarint_out enc_appendVarint foreignVarint_enc)

interpretation asm_int: cursor_codec appendVarint asmVarint "\<lambda>v. 0 \<le> v \<and> v < 2 ^ 31"
  by unfold_locales (simp_all add: appendVarint_out enc_appendVarint asmVarint_enc)

text \<open>Byte strings with their length in front.\<close>

definition appendBytes :: "bytes \<Rightarrow> bytes \<Rightarrow> bytes" where
  "appendBytes out s = appendVarint out (int (length s)) @ s"

lemma enc_appendBytes: "enc appendBytes s = varint (int (length s)) @ s"
  by (simp add: enc_def appendBytes_def varint_def)

interpretation foreign_bytes: cursor_codec appendBytes foreignBytes "\<lambda>s. u32 (int (length s))"
proof
  show "appendBytes out s = out @ enc appendBytes s" for out s
    by (simp add: enc_appendBytes appendBytes_def appendVarint_out)
  show "run_state foreignBytes (cursor_at before (enc appendBytes s @ rest)) = (s, cursor_at (before @ enc appendBytes s) rest)"
    if "u32 (int (length s))" for before s rest
    using foreignVarint_enc[OF that, of before "s @ rest"]
    by (simp add: foreignBytes_def enc_appendBytes) (simp add: cursor_at_def)
qed

interpretation asm_bytes: cursor_codec appendBytes asmBytes "\<lambda>s. int (length s) < 2 ^ 31"
proof
  show "appendBytes out s = out @ enc appendBytes s" for out s
    by (rule foreign_bytes.app_out)
  show "run_state asmBytes (cursor_at before (enc appendBytes s @ rest)) = (s, cursor_at (before @ enc appendBytes s) rest)"
    if "int (length s) < 2 ^ 31" for before s rest
    using asmVarint_enc[of "int (length s)" before "s @ rest"] that
    by (simp add: asmBytes_def enc_appendBytes) (simp add: cursor_at_def)
qed

interpretation cache_bytes: cursor_codec appendBytes byteValue "\<lambda>s. int (length s) < 2 ^ 63"
proof
  show "appendBytes out s = out @ enc appendBytes s" for out s
    by (rule foreign_bytes.app_out)
  show "run_state byteValue (cursor_at before (enc appendBytes s @ rest)) = (s, cursor_at (before @ enc appendBytes s) rest)"
    if "int (length s) < 2 ^ 63" for before s rest
    using rawVarint_enc[of "int (length s)" before "s @ rest"] that
    by (simp add: byteValue_def enc_appendBytes) (simp add: cursor_at_def)
qed

end
