(* ===== verification/Front_Foreign.thy ===== *)
theory Front_Foreign
  imports Front_Reader
begin

text \<open>
  The optional children that orchestration adds to a finished unit, \<open>internal/unit/foreign.go\<close>: the
  entry point, and the programs compiled for another target that a package variable embeds, first as
  units and, once their back end has run, as artifacts.
\<close>

subsection \<open>Operations\<close>

definition readUint32Foreign :: "bytes \<Rightarrow> int \<Rightarrow> int" where
  "readUint32Foreign data pos =
     (if pos < 0 \<or> pos + 4 > int (length data) then -1 else le32 data (nat pos))"

text \<open>Position, payload, \<open>found\<close> and \<open>ok\<close>.\<close>

function findChildLoop :: "bytes \<Rightarrow> int \<Rightarrow> nat \<Rightarrow> nat \<times> bytes \<times> bool \<times> bool" where
  "findChildLoop data wanted pos =
     (if pos < length data then
        if pos + 6 > length data then (0, [], False, False)
        else
          let tag = le16 data pos;
              len = readUint32Foreign data (int pos + 2);
              start = pos + 6;
              nxt = start + nat len
          in if len < 0 \<or> nxt < start \<or> nxt > length data then (0, [], False, False)
             else if tag = wanted then (pos, take (nxt - start) (drop start data), True, True)
             else findChildLoop data wanted nxt
      else (0, [], False, True))"
  by pat_completeness auto
termination
  by (relation "measure (\<lambda>(data, wanted, pos). length data - pos)") auto

declare findChildLoop.simps [simp del]

definition findOptionalChild :: "bytes \<Rightarrow> int \<Rightarrow> nat \<times> bytes \<times> bool \<times> bool" where
  "findOptionalChild data wanted =
     (if \<not> validUnitRoot data then (0, [], False, False) else findChildLoop data wanted 14)"

definition appendOptionalChild :: "bytes \<Rightarrow> int \<Rightarrow> bytes \<Rightarrow> (bytes \<times> bool) option" where
  "appendOptionalChild data tag payload =
     (case findOptionalChild data tag of
        (_, _, found, ok) \<Rightarrow>
          if \<not> ok \<or> found then Some ([], False)
          else
            let out = appendNode data tag payload
            in do { out \<leftarrow> patchUint32Core out 10 (int (length out) - 14); Some (out, True) })"

definition BindEntrypoint :: "bytes \<Rightarrow> int \<Rightarrow> (bytes \<times> bool) option" where
  "BindEntrypoint data f =
     (if f < 0 then Some ([], False)
      else appendOptionalChild data TagEntrypoint (appendVarint [] f))"

definition BindForeignPrograms :: "bytes \<Rightarrow> ForeignProgram list \<Rightarrow> (bytes \<times> bool) option" where
  "BindForeignPrograms data programs =
     (if length programs = 0 then Some (data, True)
      else appendOptionalChild data TagForeignPrograms (encodeForeignProgramsCore programs))"

definition ResolveForeignPrograms :: "bytes \<Rightarrow> ForeignProgram list \<Rightarrow> (bytes \<times> bool) option" where
  "ResolveForeignPrograms data programs =
     (case findOptionalChild data TagForeignPrograms of
        (pos, _, found, ok) \<Rightarrow>
          if \<not> ok \<or> \<not> found \<or> length programs = 0 then Some ([], False)
          else
            let payload = encodeForeignProgramsCore programs;
                oldLength = readUint32Foreign data (int pos + 2);
                oldEnd = int pos + 6 + oldLength
            in do { before \<leftarrow> slice data 0 (int pos);
                    let out = appendNode before TagForeignPrograms payload in
                    do { behind \<leftarrow> slice data oldEnd (int (length data));
                         let out = out @ behind in
                         do { out \<leftarrow> patchUint32Core out 10 (int (length out) - 14); Some (out, True) } } })"

abbreviation (input) ForeignProgramBytes :: int where "ForeignProgramBytes \<equiv> 1"
abbreviation (input) ForeignProgramEntrypoint :: int where "ForeignProgramEntrypoint \<equiv> 2"

definition emptyForeign :: ForeignProgram where
  "emptyForeign = \<lparr>fp_Name = [], fp_Global = 0, fp_Kind = 0, fp_Target = [], fp_InPlace = False,
     fp_Unit = [], fp_Artifact = [], fp_EntryOffset = 0\<rparr>"

text \<open>The record built from the four values read, and the check that follows.\<close>

definition foreignRecord :: "int \<Rightarrow> int \<Rightarrow> bytes \<Rightarrow> int \<Rightarrow> ForeignProgram" where
  "foreignRecord global state payload entry =
     (let p = emptyForeign\<lparr>fp_Global := global, fp_EntryOffset := entry, fp_Kind := state\<rparr>;
          p = (if state > 2 then p\<lparr>fp_Kind := state - 2, fp_Artifact := payload\<rparr>
               else let p = p\<lparr>fp_Unit := payload\<rparr>; (binding, bound) = ReadTargetBinding payload
                    in if bound then p\<lparr>fp_Target := tb_Target binding\<rparr> else p)
      in p\<lparr>fp_InPlace := (fp_Kind p = ForeignProgramEntrypoint)\<rparr>)"

definition foreignRefused :: "ForeignProgram \<Rightarrow> int \<Rightarrow> bytes \<Rightarrow> bool" where
  "foreignRefused p state payload \<longleftrightarrow>
     fp_Global p < 0 \<or> state < 1 \<or> state > 4 \<or> length payload = 0 \<or>
     fp_Kind p < ForeignProgramBytes \<or> fp_Kind p > ForeignProgramEntrypoint \<or>
     length (fp_Unit p) > 0 \<and> fp_Target p = [] \<or> fp_EntryOffset p < 0 \<or>
     fp_Kind p = ForeignProgramBytes \<and> fp_EntryOffset p \<noteq> 0 \<or>
     state = 4 \<and> fp_EntryOffset p \<ge> int (length (fp_Artifact p))"

definition readForeignProgram :: "(cursor, ForeignProgram) state" where
  "readForeignProgram = do {
     global \<leftarrow> foreignVarint;
     state \<leftarrow> foreignVarint;
     payload \<leftarrow> foreignBytes;
     entry \<leftarrow> foreignVarint;
     let p = foreignRecord global state payload entry in
     if foreignRefused p state payload
     then do { State_Monad.update (\<lambda>r. r\<lparr>cur_ok := False\<rparr>); State_Monad.return p }
     else State_Monad.return p }"

text \<open>\<open>for i := 0; i < count && r.ok; i++\<close>.\<close>

fun readForeignLoop :: "nat \<Rightarrow> (cursor, ForeignProgram list) state" where
  "readForeignLoop 0 = State_Monad.return []"
| "readForeignLoop (Suc n) = do {
     r \<leftarrow> State_Monad.get;
     if \<not> cur_ok r then State_Monad.return []
     else do { p \<leftarrow> readForeignProgram; ps \<leftarrow> readForeignLoop n; State_Monad.return (p # ps) } }"

text \<open>\<open>make\<close> with a negative capacity panics.\<close>

definition ReadForeignPrograms :: "bytes \<Rightarrow> (ForeignProgram list \<times> bool) option" where
  "ReadForeignPrograms data =
     (case findOptionalChild data TagForeignPrograms of
        (_, payload, found, ok) \<Rightarrow>
          if \<not> ok \<or> \<not> found then Some ([], ok)
          else
            (case run_state foreignVarint \<lparr>cur_data = payload, cur_pos = 0, cur_ok = True\<rparr> of
               (n, r) \<Rightarrow>
                 if n < 0 then None
                 else
                   (case run_state (readForeignLoop (nat n)) r of
                      (programs, r) \<Rightarrow>
                        if \<not> cur_ok r \<or> cur_pos r \<noteq> length (cur_data r) then Some ([], False)
                        else Some (programs, True))))"

subsection \<open>Finding a child\<close>

lemma findChildLoop_children:
  assumes "drop pos data = childrenBytes cs" "pos \<le> length data" "list_all child_ok cs"
  shows "findChildLoop data wanted pos =
    (if wanted \<in> fst ` set cs
     then (pos + length (childrenBytes (takeWhile (\<lambda>c. fst c \<noteq> wanted) cs)),
           the (map_of cs wanted), True, True)
     else (0, [], False, True))"
  using assms
proof (induction cs arbitrary: pos)
  case Nil
  then show ?case by (subst findChildLoop.simps) simp
next
  case (Cons c cs)
  have d: "drop pos data = childBytes c @ childrenBytes cs" and ok: "child_ok c" "list_all child_ok cs"
    using Cons.prems by simp_all
  note f = child_at[OF d Cons.prems(2) ok(1)]
  have b: "pos < length data" "\<not> pos + 6 > length data" using f(1) by simp_all
  have rd: "readUint32Foreign data (int pos + 2) = int (length (snd c))"
  proof -
    have "nat (int pos + 2) = pos + 2" by simp
    then show ?thesis using f(1,3) by (simp add: readUint32Foreign_def)
  qed
  show ?case
    using b f(1) Cons.IH[OF f(5,1) ok(2)]
    by (subst findChildLoop.simps) (auto simp: Let_def rd f(2,4) add_ac map_of_Cons_code simp del: drop_drop)
qed

lemma findOptionalChild_absent:
  assumes "list_all child_ok cs" "u32 (int (length (childrenBytes cs)))" "tag \<notin> fst ` set cs"
  shows "findOptionalChild (unitBytes cs) tag = (0, [], False, True)"
  using findChildLoop_children[OF drop_unitBytes _ assms(1)] assms(2,3)
  by (simp add: findOptionalChild_def validUnitRoot_unitBytes length_unitBytes)

lemma findOptionalChild_present:
  assumes "list_all child_ok (as @ (tag, pl) # bs)" "u32 (int (length (childrenBytes (as @ (tag, pl) # bs))))"
    and "tag \<notin> fst ` set as"
  shows "findOptionalChild (unitBytes (as @ (tag, pl) # bs)) tag = (14 + length (childrenBytes as), pl, True, True)"
proof -
  let ?cs = "as @ (tag, pl) # bs"
  have "takeWhile (\<lambda>c. fst c \<noteq> tag) ?cs = as"
    using assms(3) by (subst takeWhile_append2) force+
  moreover have "map_of ?cs tag = Some pl"
    using assms(3) by (simp add: map_add_def map_of_eq_None_iff[symmetric])
  ultimately show ?thesis
    using findChildLoop_children[OF drop_unitBytes _ assms(1)] assms(2)
    by (simp add: findOptionalChild_def validUnitRoot_unitBytes length_unitBytes)
qed

subsection \<open>Adding and replacing a child\<close>

lemma slice_prefix: "n \<le> length xs \<Longrightarrow> slice xs 0 (int n) = Some (take n xs)"
  by (simp add: slice_def)

lemma slice_suffix: "n \<le> length xs \<Longrightarrow> slice xs (int n) (int (length xs)) = Some (drop n xs)"
  by (simp add: slice_def)

lemma patch_children:
  "patchUint32Core (Magic @ putUint16 Version @ putUint16 0 @ putUint16 TagUnit @ putUint32 v @ childrenBytes cs) 10
     (int (length (Magic @ putUint16 Version @ putUint16 0 @ putUint16 TagUnit @ putUint32 v @ childrenBytes cs)) - 14) =
   Some (unitBytes cs)"
proof -
  have "int (length (Magic @ putUint16 Version @ putUint16 0 @ putUint16 TagUnit @ putUint32 v @ childrenBytes cs)) - 14 =
      int (length (childrenBytes cs))" by simp
  then show ?thesis by (simp only: patch_unitBytes)
qed

lemma appendOptionalChild_unit:
  assumes "list_all child_ok cs" "u32 (int (length (childrenBytes cs)))"
  shows "appendOptionalChild (unitBytes cs) tag payload =
    Some (if tag \<in> fst ` set cs then ([], False) else (unitBytes (cs @ [(tag, payload)]), True))"
proof (cases "tag \<in> fst ` set cs")
  case True
  have "\<exists>pos pl. findOptionalChild (unitBytes cs) tag = (pos, pl, True, True)"
    using findChildLoop_children[OF drop_unitBytes _ assms(1)] assms(2) True
    by (simp add: findOptionalChild_def validUnitRoot_unitBytes length_unitBytes)
  then show ?thesis using True by (auto simp: appendOptionalChild_def)
next
  case False
  let ?n = "int (length (childrenBytes cs))"
  have "appendNode (unitBytes cs) tag payload =
      Magic @ putUint16 Version @ putUint16 0 @ putUint16 TagUnit @ putUint32 ?n @ childrenBytes (cs @ [(tag, payload)])"
    by (simp add: unitBytes_def)
  then show ?thesis
    using False patch_children[of ?n "cs @ [(tag, payload)]"]
    by (simp only: appendOptionalChild_def findOptionalChild_absent[OF assms False] prod.case Let_def) simp
qed

lemma ResolveForeignPrograms_unit:
  assumes "list_all child_ok (as @ (TagForeignPrograms, pl) # bs)"
    and "u32 (int (length (childrenBytes (as @ (TagForeignPrograms, pl) # bs))))"
    and "TagForeignPrograms \<notin> fst ` set as" "programs \<noteq> []"
  shows "ResolveForeignPrograms (unitBytes (as @ (TagForeignPrograms, pl) # bs)) programs =
    Some (unitBytes (as @ (TagForeignPrograms, encodeForeignProgramsCore programs) # bs), True)"
proof -
  let ?cs = "as @ (35, pl) # bs" and ?ds = "as @ (35, encodeForeignProgramsCore programs) # bs"
  let ?d = "unitBytes ?cs" and ?p = "14 + length (childrenBytes as)"
  let ?head = "Magic @ putUint16 Version @ putUint16 0 @ putUint16 TagUnit"
  let ?n = "int (length (childrenBytes ?cs))"
  have u: "?d = ((?head @ putUint32 ?n) @ childrenBytes as) @ childBytes (35, pl) @ childrenBytes bs"
    by (simp add: unitBytes_def)
  have lh: "length ((?head @ putUint32 ?n) @ childrenBytes as) = ?p" by simp
  have ck: "child_ok (35, pl)" using assms(1) by simp
  have dp: "drop ?p ?d = childBytes (35, pl) @ childrenBytes bs"
    unfolding u lh[symmetric] by (rule drop_append_length)
  have le: "?p \<le> length ?d" by (simp add: length_unitBytes)
  note f = child_at[OF dp le ck]
  have rd: "readUint32Foreign ?d (int ?p + 2) = int (length pl)"
  proof -
    have "nat (int ?p + 2) = ?p + 2" by simp
    then show ?thesis using f(1,3) by (simp add: readUint32Foreign_def)
  qed
  have s1: "slice ?d 0 (int ?p) = Some ((?head @ putUint32 ?n) @ childrenBytes as)"
  proof -
    have "take ?p ?d = (?head @ putUint32 ?n) @ childrenBytes as"
      unfolding u lh[symmetric] append_eq_conv_conj[symmetric] by simp
    then show ?thesis using slice_prefix[OF le] by simp
  qed
  have s2: "slice ?d (int ?p + 6 + int (length pl)) (int (length ?d)) = Some (childrenBytes bs)"
  proof -
    have "int ?p + 6 + int (length pl) = int (?p + 6 + length pl)" by simp
    then show ?thesis using slice_suffix[OF f(1)] f(5) by simp
  qed
  have out: "appendNode ((?head @ putUint32 ?n) @ childrenBytes as) 35 (encodeForeignProgramsCore programs) @ childrenBytes bs =
      ?head @ putUint32 ?n @ childrenBytes ?ds"
    by simp
  have "\<not> length programs = 0" using assms(4) by simp
  then show ?thesis
    unfolding ResolveForeignPrograms_def findOptionalChild_present[OF assms(1-3)] prod.case Let_def rd s1
    unfolding Option.bind.simps s2
    unfolding Option.bind.simps out
    using patch_children[of ?n ?ds] by simp
qed

end
