(* ===== verification/Front_Programs.thy ===== *)
theory Front_Programs
  imports Front_Foreign
begin

text \<open>
  The foreign-program table of \<open>internal/unit/foreign.go\<close>, written and read back.  The reader returns
  a record's own fields except its name, which is not written; the target of an unresolved program
  is taken from the binding of its unit.
\<close>

subsection \<open>The records the table carries\<close>

definition foreignPayload :: "ForeignProgram \<Rightarrow> bytes" where
  "foreignPayload p = (if fp_Artifact p = [] then fp_Unit p else fp_Artifact p)"

definition foreignState :: "ForeignProgram \<Rightarrow> int" where
  "foreignState p = (if fp_Artifact p = [] then fp_Kind p else fp_Kind p + 2)"

definition wf_Foreign :: "ForeignProgram \<Rightarrow> bool" where
  "wf_Foreign p \<longleftrightarrow>
     u32 (fp_Global p) \<and> (fp_Kind p = ForeignProgramBytes \<or> fp_Kind p = ForeignProgramEntrypoint) \<and>
     foreignPayload p \<noteq> [] \<and> u32 (int (length (foreignPayload p))) \<and> u32 (fp_EntryOffset p) \<and>
     (fp_Kind p = ForeignProgramBytes \<longrightarrow> fp_EntryOffset p = 0) \<and>
     (if fp_Artifact p = [] then snd (ReadTargetBinding (fp_Unit p)) \<and> tb_Target (fst (ReadTargetBinding (fp_Unit p))) \<noteq> []
      else fp_Kind p = ForeignProgramEntrypoint \<longrightarrow> fp_EntryOffset p < int (length (fp_Artifact p)))"

text \<open>A record as the reader returns it.\<close>

definition foreignView :: "ForeignProgram \<Rightarrow> ForeignProgram" where
  "foreignView p =
     p\<lparr>fp_Name := [], fp_InPlace := (fp_Kind p = ForeignProgramEntrypoint),
       fp_Unit := (if fp_Artifact p = [] then fp_Unit p else []),
       fp_Target := (if fp_Artifact p = [] then tb_Target (fst (ReadTargetBinding (fp_Unit p))) else [])\<rparr>"

lemma foreignView_simps [simp]:
  "fp_Artifact (foreignView p) = fp_Artifact p" "fp_Global (foreignView p) = fp_Global p"
  "fp_Kind (foreignView p) = fp_Kind p" "fp_EntryOffset (foreignView p) = fp_EntryOffset p"
  "foreignPayload (foreignView p) = foreignPayload p" "foreignState (foreignView p) = foreignState p"
  "foreignView (foreignView p) = foreignView p"
  by (simp_all add: foreignView_def foreignPayload_def foreignState_def)

lemma wf_Foreign_view [simp]: "wf_Foreign (foreignView p) \<longleftrightarrow> wf_Foreign p"
  by (auto simp: wf_Foreign_def) (auto simp: foreignView_def)

lemma enc_appendForeignRow:
  "enc appendForeignRow p =
     enc appendVarint (fp_Global p) @ enc appendVarint (foreignState p) @ enc appendBytes (foreignPayload p) @
     enc appendVarint (fp_EntryOffset p)"
  by (simp add: enc_def[of appendForeignRow] appendForeignRow_def foreignState_def foreignPayload_def
      appendVarint_out enc_appendVarint enc_appendBytes)

lemma foreignRecord_view:
  assumes "wf_Foreign p"
  shows "foreignRecord (fp_Global p) (foreignState p) (foreignPayload p) (fp_EntryOffset p) = foreignView p"
  using assms
  by (cases p) (auto simp: foreignRecord_def foreignView_def foreignState_def foreignPayload_def wf_Foreign_def
      emptyForeign_def case_prod_beta Let_def)

lemma foreignRefused_view:
  assumes "wf_Foreign p"
  shows "\<not> foreignRefused (foreignView p) (foreignState p) (foreignPayload p)"
  using assms
  by (auto simp: foreignRefused_def wf_Foreign_def foreignState_def foreignPayload_def u32_def)
    (auto simp: foreignView_def)

interpretation foreign_row: cursor_codec appendForeignRow readForeignProgram "\<lambda>p. wf_Foreign p \<and> foreignView p = p"
proof
  show "appendForeignRow out p = out @ enc appendForeignRow p" for out p
    by (simp add: enc_appendForeignRow appendForeignRow_def foreignState_def foreignPayload_def
        appendVarint_out enc_appendVarint enc_appendBytes)
  show "run_state readForeignProgram (cursor_at before (enc appendForeignRow p @ rest)) =
      (p, cursor_at (before @ enc appendForeignRow p) rest)"
    if "wf_Foreign p \<and> foreignView p = p" for p before rest
  proof -
    have w: "wf_Foreign p" "foreignView p = p" using that by blast+
    then have "u32 (fp_Global p)" "u32 (foreignState p)" "u32 (int (length (foreignPayload p)))" "u32 (fp_EntryOffset p)"
      by (auto simp: wf_Foreign_def foreignState_def u32_def)
    then show ?thesis
      using foreignRecord_view[OF w(1)] foreignRefused_view[OF w(1)] w(2)
      by (simp add: readForeignProgram_def enc_appendForeignRow foreign_int.rd_enc foreign_bytes.rd_enc)
  qed
qed

lemma enc_view: "enc appendForeignRow (foreignView p) = enc appendForeignRow p"
  by (simp add: enc_appendForeignRow)

text \<open>While the records are well formed the loop is the plain one.\<close>

lemma readForeignLoop_enc:
  assumes "list_all wf_Foreign ps"
  shows "run_state (readForeignLoop (length ps)) (cursor_at before (concat (map (enc appendForeignRow) ps) @ rest)) =
    (map foreignView ps, cursor_at (before @ concat (map (enc appendForeignRow) ps)) rest)"
  using assms
proof (induction ps arbitrary: before)
  case (Cons p ps)
  have "wf_Foreign (foreignView p) \<and> foreignView (foreignView p) = foreignView p" using Cons.prems by simp
  note rd = foreign_row.rd_enc[OF this, unfolded enc_view]
  have "cur_ok (cursor_at x y)" for x y by (simp add: cursor_at_def)
  then show ?case
    using Cons by (simp add: rd)
qed simp

lemma encodeForeignProgramsCore_enc:
  "encodeForeignProgramsCore ps = varint (int (length ps)) @ concat (map (enc appendForeignRow) ps)"
  by (simp add: encodeForeignProgramsCore_def foreign_row.fold_out varint_def)

lemma read_foreign_payload:
  assumes "list_all wf_Foreign ps" "u32 (int (length ps))"
    and "findOptionalChild data TagForeignPrograms = (pos, encodeForeignProgramsCore ps, True, True)"
  shows "ReadForeignPrograms data = Some (map foreignView ps, True)"
proof -
  let ?rows = "concat (map (enc appendForeignRow) ps)"
  have c: "\<lparr>cur_data = varint (int (length ps)) @ ?rows, cur_pos = 0, cur_ok = True\<rparr> =
      cursor_at [] (varint (int (length ps)) @ ?rows)"
    by (simp add: cursor_at_def)
  have e: "cur_ok (cursor_at x [])" "cur_pos (cursor_at x []) = length (cur_data (cursor_at x []))" for x
    by (simp_all add: cursor_at_def)
  show ?thesis
    using foreignVarint_enc[OF assms(2), of "[]" ?rows] readForeignLoop_enc[OF assms(1), of _ "[]"] e
    by (simp add: ReadForeignPrograms_def assms(3) encodeForeignProgramsCore_enc c)
qed

subsection \<open>Round trips\<close>

lemma foreign_roundtrip:
  assumes "list_all child_ok cs" "u32 (int (length (childrenBytes cs)))" "TagForeignPrograms \<notin> fst ` set cs"
    and "ps \<noteq> []" "list_all wf_Foreign ps" "u32 (int (length ps))"
    and "u32 (int (length (childrenBytes (cs @ [(TagForeignPrograms, encodeForeignProgramsCore ps)]))))"
  shows "BindForeignPrograms (unitBytes cs) ps = Some (unitBytes (cs @ [(TagForeignPrograms, encodeForeignProgramsCore ps)]), True)"
    "ReadForeignPrograms (unitBytes (cs @ [(TagForeignPrograms, encodeForeignProgramsCore ps)])) = Some (map foreignView ps, True)"
proof -
  show "BindForeignPrograms (unitBytes cs) ps = Some (unitBytes (cs @ [(TagForeignPrograms, encodeForeignProgramsCore ps)]), True)"
    using assms(3,4) by (simp add: BindForeignPrograms_def appendOptionalChild_unit[OF assms(1,2)])
  have "list_all child_ok (cs @ [(TagForeignPrograms, encodeForeignProgramsCore ps)])"
    using assms(1,7) by (simp add: child_ok_def u32_def)
  from findOptionalChild_present[OF this assms(7,3)]
  show "ReadForeignPrograms (unitBytes (cs @ [(TagForeignPrograms, encodeForeignProgramsCore ps)])) = Some (map foreignView ps, True)"
    by (rule read_foreign_payload[OF assms(5,6)])
qed

subsection \<open>Back ends do not see the table\<close>

text \<open>The children whose payloads \<open>Unmarshal\<close> does not decode: assembly, entry point, foreign programs.\<close>

definition decodedTag :: "int \<times> bytes \<Rightarrow> bool" where
  "decodedTag c \<longleftrightarrow> \<not> (33 \<le> fst c \<and> fst c \<le> 35)"

lemma map_of_decoded: "t < 33 \<Longrightarrow> map_of (filter decodedTag cs) t = map_of cs t"
  by (induction cs) (auto simp: decodedTag_def)

lemma Unmarshal_ignores:
  assumes "list_all child_ok cs" "u32 (int (length (childrenBytes cs)))"
    and "list_all child_ok ds" "u32 (int (length (childrenBytes ds)))"
    and "filter decodedTag cs = filter decodedTag ds" "children_ok cs = children_ok ds"
  shows "Unmarshal (unitBytes cs) = Inr p \<longleftrightarrow> Unmarshal (unitBytes ds) = Inr p"
proof -
  have m: "map_of cs t = map_of ds t" if "t < 33" for t
    using map_of_decoded[OF that, of cs] map_of_decoded[OF that, of ds] assms(5) by simp
  have "t \<in> set (map fst cs) \<longleftrightarrow> t \<in> set (map fst ds)" if "t < 33" for t
    using m[OF that] map_of_eq_None_iff[of cs t] map_of_eq_None_iff[of ds t] by simp
  then have "requiredTags \<subseteq> set (map fst cs) \<longleftrightarrow> requiredTags \<subseteq> set (map fst ds)"
    by (simp add: requiredTags_def)
  moreover have "reads_as cs p = reads_as ds p"
    unfolding reads_as_def payloadOf_def tableOf_def by (simp add: m)
  ultimately show ?thesis
    unfolding Unmarshal_children_iff[OF assms(1,2)] Unmarshal_children_iff[OF assms(3,4)] using assms(6) by simp
qed

lemma children_ok_replace: "children_ok (as @ (tag, x) # bs) = children_ok (as @ (tag, y) # bs)"
  by (simp add: children_ok_def)

lemma children_ok_snoc: "tag \<notin> fst ` set cs \<Longrightarrow> tag \<noteq> TagUnit \<Longrightarrow> children_ok (cs @ [(tag, x)]) = children_ok cs"
  by (auto simp: children_ok_def)

subsection \<open>An unreadable count\<close>

text \<open>A table whose count is not there makes the reader ask for a slice of negative capacity.\<close>

lemma ReadForeignPrograms_empty_table:
  assumes "list_all child_ok (as @ (TagForeignPrograms, []) # bs)"
    and "u32 (int (length (childrenBytes (as @ (TagForeignPrograms, []) # bs))))"
    and "TagForeignPrograms \<notin> fst ` set as"
  shows "ReadForeignPrograms (unitBytes (as @ (TagForeignPrograms, []) # bs)) = None"
  by (simp add: ReadForeignPrograms_def findOptionalChild_present[OF assms] foreignVarint_def)

end
