(* ===== verification/Back_Reader.thy ===== *)
theory Back_Reader
  imports Front_Programs
begin

text \<open>
  The back ends' own readers of units, \<open>backend/compiler_unit_decode_impl.go\<close>: the varints, the check of
  the target binding that every compilation of a unit starts with, and the table of foreign programs.
  They are separate code from \<open>backend/unit\<close> and from the readers of \<open>internal/unit\<close>.  A
  \<open>renvoUnitReader\<close> has the fields of a \<open>cursor\<close>; its \<open>end\<close> is the length of its data.  Go \<open>int\<close>s are
  mathematical: on a host with 64-bit \<open>int\<close>s no sum of positions and lengths wraps around.
\<close>

subsection \<open>Varints\<close>

function renvoVarLoop :: "bytes \<Rightarrow> nat \<Rightarrow> int \<Rightarrow> nat \<Rightarrow> int \<times> nat \<times> bool" where
  "renvoVarLoop src pos value shift =
     (if pos < length src \<and> shift \<le> 28 then
        let b = src ! pos; pos = pos + 1 in
        if shift \<ge> 28 \<and> b \<ge> 0x10 then (0, pos, False)
        else
          let value = value OR push_bit shift (uint (b AND 0x7f)) in
          if b < 0x80 then if shift > 0 \<and> b = 0 then (0, pos, False) else (value, pos, True)
          else renvoVarLoop src pos value (shift + 7)
      else (0, pos, False))"
  by pat_completeness auto
termination
  by (relation "measure (\<lambda>(src, pos, value, shift). length src - pos)") auto

declare renvoVarLoop.simps [simp del]

definition renvoUnitReadVar :: "(cursor, int) state" where
  "renvoUnitReadVar = State (\<lambda>r.
     if \<not> cur_ok r \<or> cur_pos r \<ge> length (cur_data r) then (0, r\<lparr>cur_ok := False\<rparr>)
     else
       let first = cur_data r ! cur_pos r; r = r\<lparr>cur_pos := cur_pos r + 1\<rparr> in
       if first < 0x80 then (uint first, r)
       else (case renvoVarLoop (cur_data r) (cur_pos r) (uint (first AND 0x7f)) 7 of
               (value, pos, ok) \<Rightarrow> (value, r\<lparr>cur_pos := pos, cur_ok := ok\<rparr>)))"

lemma renvoVarLoop_iff:
  "renvoVarLoop src pos value shift = (v, n, True) \<longleftrightarrow> readVarintLoop src pos value shift = Some (v, n)"
proof (induction src pos "value" shift rule: renvoVarLoop.induct)
  case (1 src pos acc shift)
  show ?case
  proof (cases "pos < length src \<and> shift \<le> 28")
    case True
    then show ?thesis
      using 1[OF True refl refl _ refl] by (subst renvoVarLoop.simps, subst readVarintLoop.simps) (auto simp: Let_def)
  next
    case False
    then show ?thesis
      by (subst renvoVarLoop.simps, subst readVarintLoop.simps) auto
  qed
qed

text \<open>The reader of the back ends reads exactly what \<open>readVarint\<close> of \<open>backend/unit\<close> reads.\<close>

lemma renvoUnitReadVar_iff:
  assumes "cur_ok r"
  shows "run_state renvoUnitReadVar r = (v, r') \<and> cur_ok r' \<longleftrightarrow>
    (\<exists>n. readVarint (cur_data r) (cur_pos r) = Some (v, n) \<and> r' = r\<lparr>cur_pos := n\<rparr>)"
proof (cases "cur_pos r < length (cur_data r)")
  case False
  then show ?thesis using assms by (auto simp: renvoUnitReadVar_def readVarint_def readVarintLoop.simps)
next
  case True
  let ?b = "cur_data r ! cur_pos r"
  have small: "uint ?b AND 127 = uint ?b" if "?b < 128"
    using that and_127[of ?b] by (simp add: word_less_def uint_and)
  have e: "readVarint (cur_data r) (cur_pos r) =
      (if ?b < 128 then Some (uint ?b, cur_pos r + 1)
       else readVarintLoop (cur_data r) (cur_pos r + 1) (uint (?b AND 127)) 7)"
    using True small by (subst readVarint_def, subst readVarintLoop.simps) (simp add: Let_def uint_and)
  have same: "r\<lparr>cur_pos := n, cur_ok := True\<rparr> = r\<lparr>cur_pos := n\<rparr>" for n using assms by (cases r) simp
  show ?thesis
  proof (cases "?b < 128")
    case True
    then have "run_state renvoUnitReadVar r = (uint ?b, r\<lparr>cur_pos := cur_pos r + 1\<rparr>)"
      using assms \<open>cur_pos r < length (cur_data r)\<close> by (simp add: renvoUnitReadVar_def Let_def)
    then show ?thesis using True assms unfolding e by auto
  next
    case big: False
    obtain x p ok where l: "renvoVarLoop (cur_data r) (cur_pos r + 1) (uint (?b AND 127)) 7 = (x, p, ok)"
      by (cases "renvoVarLoop (cur_data r) (cur_pos r + 1) (uint (?b AND 127)) 7")
    then have run: "run_state renvoUnitReadVar r = (x, r\<lparr>cur_pos := p, cur_ok := ok\<rparr>)"
      using assms True big by (simp add: renvoUnitReadVar_def Let_def del: uint_and)
    have "readVarint (cur_data r) (cur_pos r) = Some (v, n) \<longleftrightarrow> x = v \<and> p = n \<and> ok" for v n
      using renvoVarLoop_iff[of "cur_data r" "cur_pos r + 1" "uint (?b AND 127)" 7 v n] big unfolding e l by auto
    then show ?thesis unfolding run using assms by (auto simp: same)
  qed
qed

lemma renvoUnitReadVar_enc:
  assumes "u32 v"
  shows "run_state renvoUnitReadVar (cursor_at before (varint v @ rest)) = (v, cursor_at (before @ varint v) rest)"
proof -
  have "readVarint (before @ varint v @ rest) (length before) = Some (v, length before + length (varint v))"
    using readVarint_complete[of "length before" "before @ varint v @ rest" v rest] assms by simp
  then show ?thesis
    using renvoUnitReadVar_iff[of "cursor_at before (varint v @ rest)"] by (auto simp: cursor_at_def)
qed

interpretation back_int: cursor_codec appendVarint renvoUnitReadVar u32
  by unfold_locales (simp_all add: appendVarint_out enc_appendVarint renvoUnitReadVar_enc)

subsection \<open>Foreign programs\<close>

record renvoForeignProgram =
  rf_global :: int
  rf_artifact :: bytes
  rf_entryOffset :: int

text \<open>One round of the loop: the record, or \<open>None\<close> for the refusal.\<close>

definition foreignRound :: "(cursor, renvoForeignProgram option) state" where
  "foreignRound = do {
     global \<leftarrow> renvoUnitReadVar;
     state \<leftarrow> renvoUnitReadVar;
     len \<leftarrow> renvoUnitReadVar;
     r \<leftarrow> State_Monad.get;
     let start = cur_pos r;
     let fin = start + nat len;
     State_Monad.set (r\<lparr>cur_pos := fin\<rparr>);
     entryOffset \<leftarrow> renvoUnitReadVar;
     r \<leftarrow> State_Monad.get;
     if \<not> cur_ok r \<or> len \<le> 0 \<or> cur_pos r < start \<or> cur_pos r > length (cur_data r)
        \<or> state \<noteq> 3 \<and> (state \<noteq> 4 \<or> entryOffset \<ge> len)
     then State_Monad.return None
     else
       let entryOffset = (if state = 3 then -1 else entryOffset)
       in State_Monad.return (Some \<lparr>rf_global = global, rf_artifact = take (nat len) (drop start (cur_data r)),
            rf_entryOffset = entryOffset\<rparr>) }"

text \<open>The list the back end builds has the last record in front.\<close>

fun foreignLoop :: "nat \<Rightarrow> renvoForeignProgram list \<Rightarrow> (cursor, renvoForeignProgram list option) state" where
  "foreignLoop 0 foreign = State_Monad.return (Some foreign)"
| "foreignLoop (Suc n) foreign = do {
     f \<leftarrow> foreignRound;
     (case f of None \<Rightarrow> State_Monad.return None | Some f \<Rightarrow> foreignLoop n (f # foreign)) }"

definition renvoDecodeForeignPrograms :: "bytes \<Rightarrow> renvoForeignProgram list option" where
  "renvoDecodeForeignPrograms data =
     (case run_state renvoUnitReadVar \<lparr>cur_data = data, cur_pos = 0, cur_ok = True\<rparr> of
        (n, r) \<Rightarrow>
          if \<not> cur_ok r then None
          else (case run_state (foreignLoop (nat n) []) r of
                  (None, _) \<Rightarrow> None
                | (Some foreign, r) \<Rightarrow> if cur_ok r \<and> cur_pos r = length (cur_data r) then Some foreign else None))"

text \<open>A record as the back ends see it.\<close>

definition backForeign :: "ForeignProgram \<Rightarrow> renvoForeignProgram" where
  "backForeign p =
     \<lparr>rf_global = fp_Global p, rf_artifact = fp_Artifact p,
      rf_entryOffset = (if fp_Kind p = ForeignProgramBytes then -1 else fp_EntryOffset p)\<rparr>"

lemma foreignRound_enc:
  assumes "wf_Foreign p"
  shows "run_state foreignRound (cursor_at before (enc appendForeignRow p @ rest)) =
    (if fp_Artifact p = [] then None else Some (backForeign p), cursor_at (before @ enc appendForeignRow p) rest)"
proof -
  let ?pl = "foreignPayload p"
  have u: "u32 (fp_Global p)" "u32 (foreignState p)" "u32 (int (length ?pl))" "u32 (fp_EntryOffset p)"
    using assms by (auto simp: wf_Foreign_def foreignState_def u32_def)
  have skip: "cursor_at a (?pl @ tail)\<lparr>cur_pos := n\<rparr> = cursor_at (a @ ?pl) tail" if "n = length a + length ?pl" for n a tail
    using that by (simp add: cursor_at_def)
  have fields: "cur_pos (cursor_at a b) = length a" "cur_ok (cursor_at a b)" "cur_data (cursor_at a b) = a @ b" for a b
    by (simp_all add: cursor_at_def)
  have row: "enc appendForeignRow p = varint (fp_Global p) @ varint (foreignState p) @ varint (int (length ?pl)) @
      ?pl @ varint (fp_EntryOffset p)"
    by (simp add: enc_appendForeignRow enc_appendVarint enc_appendBytes)
  show ?thesis
    using assms
    by (simp add: foreignRound_def row renvoUnitReadVar_enc[OF u(1)] renvoUnitReadVar_enc[OF u(2)]
        renvoUnitReadVar_enc[OF u(3)] renvoUnitReadVar_enc[OF u(4)] skip fields Let_def)
      (auto simp: backForeign_def wf_Foreign_def foreignState_def foreignPayload_def)
qed

text \<open>The back ends decode a table exactly when every program in it is resolved.\<close>

lemma foreignLoop_enc:
  assumes "list_all wf_Foreign ps"
  defines "start \<equiv> \<lambda>before. cursor_at before (concat (map (enc appendForeignRow) ps))"
  shows "list_all (\<lambda>p. fp_Artifact p \<noteq> []) ps \<Longrightarrow> run_state (foreignLoop (length ps) fs) (start before) =
      (Some (rev (map backForeign ps) @ fs), cursor_at (before @ concat (map (enc appendForeignRow) ps)) [])"
    and "\<not> list_all (\<lambda>p. fp_Artifact p \<noteq> []) ps \<Longrightarrow> fst (run_state (foreignLoop (length ps) fs) (start before)) = None"
  using assms(1) unfolding start_def
proof (induction ps arbitrary: before fs)
  case (Cons p ps)
  note step = foreignRound_enc[of p _ "concat (map (enc appendForeignRow) ps)"]
  { case 1 then show ?case using step Cons.IH(1) by simp }
  { case 2 then show ?case using step Cons.IH(2) by (cases "fp_Artifact p = []") simp_all }
qed simp_all

lemma renvoDecodeForeignPrograms_enc:
  assumes "list_all wf_Foreign ps" "u32 (int (length ps))"
  shows "renvoDecodeForeignPrograms (encodeForeignProgramsCore ps) =
    (if list_all (\<lambda>p. fp_Artifact p \<noteq> []) ps then Some (rev (map backForeign ps)) else None)"
proof -
  let ?rows = "concat (map (enc appendForeignRow) ps)"
  have c: "\<lparr>cur_data = varint (int (length ps)) @ ?rows, cur_pos = 0, cur_ok = True\<rparr> =
      cursor_at [] (varint (int (length ps)) @ ?rows)"
    by (simp add: cursor_at_def)
  note loop = foreignLoop_enc[OF assms(1), of _ "varint (int (length ps))"]
  have fields: "cur_pos (cursor_at a []) = length (cur_data (cursor_at a []))" "cur_ok (cursor_at a b)" for a b
    by (simp_all add: cursor_at_def)
  show ?thesis
  proof (cases "list_all (\<lambda>p. fp_Artifact p \<noteq> []) ps")
    case True
    then show ?thesis
      using loop by (simp add: renvoDecodeForeignPrograms_def encodeForeignProgramsCore_enc c
          renvoUnitReadVar_enc[OF assms(2), of "[]", simplified] fields)
  next
    case False
    then obtain r where "run_state (foreignLoop (length ps) []) (cursor_at (varint (int (length ps))) ?rows) = (None, r)"
      using loop(2)[of "[]"] by (metis prod.collapse)
    then show ?thesis
      using False by (simp add: renvoDecodeForeignPrograms_def encodeForeignProgramsCore_enc c
          renvoUnitReadVar_enc[OF assms(2), of "[]", simplified] fields)
  qed
qed

subsection \<open>Target bindings\<close>

definition renvoBytesEqualText :: "bytes \<Rightarrow> int \<Rightarrow> int \<Rightarrow> gostring \<Rightarrow> bool" where
  "renvoBytesEqualText src start fin s \<longleftrightarrow>
     fin - start = int (length s) \<and> list_all (\<lambda>i. at src (start + int i) = Some (s ! i)) (rev [0..<length s])"

text \<open>\<open>registered\<close> is the answer of the target registry: name, definition hash, descriptor version, and
  whether the target is bound at all.  No access is out of range: the last one is to the last byte.\<close>

definition renvoUnitBindingMatchesTarget :: "gostring \<times> gostring \<times> int \<times> bool \<Rightarrow> bytes \<Rightarrow> bool" where
  "renvoUnitBindingMatchesTarget registered src =
     (case registered of (expectedTarget, expectedDefinition, expectedVersion, ok) \<Rightarrow>
      let bindingStart = int (length src) - 52 - int (length expectedTarget) in
      if \<not> ok \<or> length expectedDefinition \<noteq> 32 \<or> bindingStart < 14 \<or> take 4 src \<noteq> Magic then False
      else if le32 src 10 \<noteq> int (length src) - 14 then False
      else
        let targetData = bindingStart + 6;
            hashHeader = targetData + int (length expectedTarget);
            hashData = hashHeader + 6;
            versionHeader = hashData + 32;
            versionData = versionHeader + 6
        in if le16 src (nat bindingStart) \<noteq> 4 then False
           else if le32 src (nat (bindingStart + 2)) \<noteq> int (length expectedTarget) then False
           else if \<not> renvoBytesEqualText src targetData hashHeader expectedTarget then False
           else if le16 src (nat hashHeader) \<noteq> 5 then False
           else if le32 src (nat (hashHeader + 2)) \<noteq> 32 then False
           else if \<not> renvoBytesEqualText src hashData versionHeader expectedDefinition then False
           else if le16 src (nat versionHeader) \<noteq> 6 then False
           else if le32 src (nat (versionHeader + 2)) \<noteq> 2 then False
           else le16 src (nat versionData) = expectedVersion)"

lemma renvoBytesEqualText_iff:
  assumes "drop (nat start) src = xs @ rest" "0 \<le> start" "start \<le> int (length src)" "length xs = length s" "fin = start + int (length s)"
  shows "renvoBytesEqualText src start fin s \<longleftrightarrow> xs = s"
proof -
  have l: "nat start + length s \<le> length src" using drop_prefix_length[OF assms(1)] assms(2-4) by simp
  have "at src (start + int i) = Some (xs ! i)" if "i < length s" for i
  proof -
    have "src ! (nat start + i) = (xs @ rest) ! i" using assms(1) l that by (simp flip: nth_drop)
    then show ?thesis using that assms(2,4) l by (simp add: at_eq_Some_iff nat_add_distrib nth_append)
  qed
  then have "renvoBytesEqualText src start fin s \<longleftrightarrow> (\<forall>i < length s. xs ! i = s ! i)"
    using assms(5) by (auto simp: renvoBytesEqualText_def list_all_iff)
  then show ?thesis using assms(4) by (metis nth_equalityI)
qed

text \<open>The positions of the check, counted from the end.\<close>

lemma matches_iff:
  "renvoUnitBindingMatchesTarget (t, d, v, True) src \<longleftrightarrow>
     length d = 32 \<and> 66 + length t \<le> length src \<and> take 4 src = Magic \<and> le32 src 10 = int (length src) - 14 \<and>
     le16 src (length src - 52 - length t) = 4 \<and> le32 src (length src - 50 - length t) = int (length t) \<and>
     renvoBytesEqualText src (int (length src) - 46 - int (length t)) (int (length src) - 46) t \<and>
     le16 src (length src - 46) = 5 \<and> le32 src (length src - 44) = 32 \<and>
     renvoBytesEqualText src (int (length src) - 40) (int (length src) - 8) d \<and>
     le16 src (length src - 8) = 6 \<and> le32 src (length src - 6) = 2 \<and> le16 src (length src - 2) = v"
proof (cases "66 + length t \<le> length src")
  case True
  define m where "m = length src - 66 - length t"
  have len: "length src = m + 66 + length t" using True by (simp add: m_def)
  show ?thesis
    unfolding renvoUnitBindingMatchesTarget_def len by (auto simp: Let_def nat_add_distrib add_ac)
qed (auto simp: renvoUnitBindingMatchesTarget_def)

text \<open>The check on a unit that ends with a binding: it needs the hash and the version of the binding, and
  among the target names of the same length accepts the name of the binding only.\<close>

lemma matches_bound:
  assumes "\<not> bindingRefused b" "list_all child_ok (us @ bindingChildren b)"
    and "u32 (int (length (childrenBytes (us @ bindingChildren b))))"
  defines "data \<equiv> unitBytes (us @ bindingChildren b)"
  shows "renvoUnitBindingMatchesTarget (target, definition, version, True) data \<Longrightarrow>
      definition = tb_Definition b \<and> version = tb_DescriptorVersion b mod 65536"
    and "length target = length (tb_Target b) \<Longrightarrow>
      renvoUnitBindingMatchesTarget (target, definition, version, True) data \<longleftrightarrow>
        target = tb_Target b \<and> definition = tb_Definition b \<and> version = tb_DescriptorVersion b mod 65536"
proof -
  let ?t = "(TagDefinitionTarget, tb_Target b)" and ?h = "(TagDefinitionHash, tb_Definition b)"
    and ?v = "(TagDescriptorVersion, versionBytes b)"
  define n where "n = length data - 52 - length (tb_Target b)"
  have d32: "length (tb_Definition b) = 32" using assms(1) by (simp add: bindingRefused_def)
  have v2: "length (versionBytes b) = 2" by (simp add: versionBytes_def)
  have len: "length data = n + 52 + length (tb_Target b)" "14 \<le> n" "n = 14 + length (childrenBytes us)"
    using d32 v2 by (simp_all add: n_def data_def length_unitBytes bindingChildren_def)
  have ok: "child_ok ?t" "child_ok ?h" "child_ok ?v" using assms(2) by (simp_all add: bindingChildren_def)
  have dt: "drop n data = childBytes ?t @ childBytes ?h @ childBytes ?v"
  proof -
    have "drop n data = drop (length (childrenBytes us)) (drop 14 data)" by (simp add: len(3) add.commute)
    then show ?thesis by (simp add: data_def drop_unitBytes bindingChildren_def)
  qed
  note t = child_at[OF dt _ ok(1)]
  have nt: "n \<le> length data" using len(1) by simp
  have dh: "drop (n + 6 + length (tb_Target b)) data = childBytes ?h @ childBytes ?v" using t(5)[OF nt] by simp
  have nh: "n + 6 + length (tb_Target b) \<le> length data" using len(1) by simp
  note h = child_at[OF dh nh ok(2)]
  have dv: "drop (length data - 8) data = childBytes ?v @ []"
  proof -
    have "n + 6 + length (tb_Target b) + 6 + length (snd ?h) = length data - 8" using len(1) d32 by simp
    then show ?thesis using h(5) by simp
  qed
  have nv: "length data - 8 \<le> length data" by simp
  note v = child_at[OF dv nv ok(3)]
  have v8: "length data - 8 + 6 = length data - 2" using len(1) by simp
  have dv2: "drop (length data - 2) data = versionBytes b"
    using v(4) v2 len(1) unfolding v8 by simp
  have version: "le16 data (length data - 2) = tb_DescriptorVersion b mod 65536"
  proof -
    have "data ! (length data - 2 + i) = versionBytes b ! i" for i
      using dv2 len(1) by (metis diff_le_self nth_drop)
    from this[of 0] this[of 1] have "le16 data (length data - 2) = le16 (versionBytes b) 0"
      by (simp add: le16_def)
    then show ?thesis by (simp add: le16_version)
  qed
  have "validUnitRoot data" using assms(3) by (simp add: data_def validUnitRoot_unitBytes)
  then have root: "take 4 data = Magic" "le32 data 10 = int (length data) - 14"
    by (auto simp: validUnitRoot_def split: if_splits)
  have d46: "n + 6 + length (tb_Target b) = length data - 46" "length data - 46 + 6 = length data - 40" using len(1) by simp_all
  have text_h: "renvoBytesEqualText data (int (length data) - 40) (int (length data) - 8) definition \<longleftrightarrow> tb_Definition b = definition"
    if "length definition = 32"
  proof (rule renvoBytesEqualText_iff)
    have "drop (length data - 46 + 6) data = tb_Definition b @ drop (length data - 46 + 6 + length (snd ?h)) data"
      using h(4) unfolding d46(1) by (metis append_take_drop_id drop_drop add.commute snd_conv)
    moreover have "length data - 46 + 6 + length (snd ?h) = length data - 8" using d32 len(1) by simp
    moreover have forty: "nat (int (length data) - 40) = length data - 40" using len(1) by simp
    ultimately show "drop (nat (int (length data) - 40)) data = tb_Definition b @ drop (length data - 8) data"
      using d32 unfolding d46(2) forty by simp
  qed (use d32 len(1) that in auto)
  show "definition = tb_Definition b \<and> version = tb_DescriptorVersion b mod 65536"
    if "renvoUnitBindingMatchesTarget (target, definition, version, True) data"
    using that text_h version unfolding matches_iff by auto
  show "renvoUnitBindingMatchesTarget (target, definition, version, True) data \<longleftrightarrow>
      target = tb_Target b \<and> definition = tb_Definition b \<and> version = tb_DescriptorVersion b mod 65536"
    if l: "length target = length (tb_Target b)"
  proof -
    have s: "length data - 52 - length target = n" "length data - 50 - length target = n + 2"
      "int (length data) - 46 - int (length target) = int n + 6" "int (length data) - 46 = int n + 6 + int (length target)"
      "length data - 44 = length data - 46 + 2" "length data - 6 = length data - 8 + 2" "66 + length target \<le> length data"
      using l len by simp_all
    have text_t: "renvoBytesEqualText data (int n + 6) (int n + 6 + int (length target)) target \<longleftrightarrow> tb_Target b = target"
    proof (rule renvoBytesEqualText_iff)
      have "drop (n + 6) data = tb_Target b @ drop (n + 6 + length (snd ?t)) data"
        using t(4)[OF nt] by (metis append_take_drop_id drop_drop add.commute snd_conv)
      then show "drop (nat (int n + 6)) data = tb_Target b @ drop (n + 6 + length (tb_Target b)) data"
        by (simp add: nat_add_distrib)
    qed (use len(1) l in auto)
    have at: "le16 data n = 4" "le32 data (n + 2) = int (length target)" "le16 data (length data - 46) = 5"
      "le32 data (length data - 46 + 2) = 32" "le16 data (length data - 8) = 6" "le32 data (length data - 8 + 2) = 2"
      using t(2,3)[OF nt] h(2,3) v(2,3) d32 v2 l unfolding d46(1) by simp_all
    show ?thesis
      using s(7) at root version text_t text_h d32
      unfolding matches_iff s(1,2,5,6) unfolding s(3) unfolding s(4) by blast
  qed
qed

end
