(* ===== verification/Front_Assembly.thy ===== *)
theory Front_Assembly
  imports Front_Foreign
begin

text \<open>
  The project assembly of a unit, \<open>internal/unit/assembly_fragments.go\<close>: the table of source files and
  of bindings from functions to entries of those files, read without decoding the rest of the unit, and
  replaced once the assembler has produced the code of each binding.
\<close>

subsection \<open>Operations\<close>

abbreviation (input) maxFragment :: int where "maxFragment \<equiv> 16 * 1024 * 1024"

text \<open>The body of the child loop: the payload of the only assembly child.\<close>

definition asmChild :: "int \<Rightarrow> bytes \<Rightarrow> bytes \<Rightarrow> bytes option \<Rightarrow> bytes option option" where
  "asmChild tag payload node st =
     (if tag = TagRTGAssembly then if st \<noteq> None then None else Some (Some payload) else Some st)"

definition readAsmSource :: "(cursor, RTGAssemblySource) state" where
  "readAsmSource = do {
     path \<leftarrow> asmBytes;
     source \<leftarrow> asmBytes;
     State_Monad.return \<lparr>asm_Path = path, asm_Source = source\<rparr> }"

text \<open>The loops; \<^const>\<open>None\<close> is \<open>return nil, nil, false\<close> in the loop.\<close>

fun readAsmSources :: "nat \<Rightarrow> (cursor, RTGAssemblySource list option) state" where
  "readAsmSources 0 = State_Monad.return (Some [])"
| "readAsmSources (Suc n) = do {
     s \<leftarrow> readAsmSource;
     if int (length (asm_Source s)) > maxFragment then State_Monad.return None
     else do { ss \<leftarrow> readAsmSources n; State_Monad.return (map_option ((#) s) ss) } }"

definition readAsmBinding :: "int \<Rightarrow> (cursor, RTGAssemblyBinding) state" where
  "readAsmBinding version = do {
     func \<leftarrow> asmVarint;
     source \<leftarrow> asmVarint;
     entry \<leftarrow> asmVarint;
     (mode, inputs, outputs) \<leftarrow>
       (if version = 2
        then do { mode \<leftarrow> asmVarint; inputs \<leftarrow> asmVarint; outputs \<leftarrow> asmVarint;
                  State_Monad.return (mode, inputs, outputs) }
        else State_Monad.return (0, 0, 0));
     code \<leftarrow> asmBytes;
     State_Monad.return \<lparr>ab_Func = func, ab_Source = source, ab_Entry = entry, ab_Mode = mode,
       ab_Inputs = inputs, ab_Outputs = outputs, ab_Code = code\<rparr> }"

definition asmBindingRefused :: "nat \<Rightarrow> RTGAssemblyBinding \<Rightarrow> bool" where
  "asmBindingRefused sources b \<longleftrightarrow>
     ab_Func b < 0 \<or> ab_Source b < 0 \<or> ab_Source b \<ge> int sources \<or> ab_Entry b < 0 \<or>
     ab_Mode b = 0 \<and> (ab_Inputs b \<noteq> 0 \<or> ab_Outputs b \<noteq> 0) \<or> ab_Mode b < 0 \<or> ab_Mode b > 1 \<or>
     ab_Inputs b < 0 \<or> ab_Inputs b > 6 \<or> ab_Outputs b < 0 \<or> ab_Outputs b > 1"

fun readAsmBindings :: "int \<Rightarrow> nat \<Rightarrow> nat \<Rightarrow> (cursor, RTGAssemblyBinding list option) state" where
  "readAsmBindings version sources 0 = State_Monad.return (Some [])"
| "readAsmBindings version sources (Suc n) = do {
     b \<leftarrow> readAsmBinding version;
     if asmBindingRefused sources b then State_Monad.return None
     else do { bs \<leftarrow> readAsmBindings version sources n; State_Monad.return (map_option ((#) b) bs) } }"

type_synonym asm_tables = "RTGAssemblySource list \<times> RTGAssemblyBinding list \<times> bool"

definition asmCountRefused :: "cursor \<Rightarrow> int \<Rightarrow> bool" where
  "asmCountRefused r n \<longleftrightarrow> \<not> cur_ok r \<or> n < 0 \<or> n > 8192 \<or> n > int (length (cur_data r))"

definition readAsmTables :: "int \<Rightarrow> int \<Rightarrow> (cursor, asm_tables) state" where
  "readAsmTables version n = do {
     r \<leftarrow> State_Monad.get;
     if asmCountRefused r n then State_Monad.return ([], [], False)
     else do {
       sources \<leftarrow> readAsmSources (nat n);
       case sources of
         None \<Rightarrow> State_Monad.return ([], [], False)
       | Some sources \<Rightarrow> do {
           m \<leftarrow> asmVarint;
           r \<leftarrow> State_Monad.get;
           if asmCountRefused r m then State_Monad.return ([], [], False)
           else do {
             bindings \<leftarrow> readAsmBindings version (length sources) (nat m);
             case bindings of
               None \<Rightarrow> State_Monad.return ([], [], False)
             | Some bindings \<Rightarrow> do {
                 r \<leftarrow> State_Monad.get;
                 State_Monad.return (sources, bindings, cur_ok r \<and> cur_pos r = length (cur_data r)) } } } } }"

definition readAsmPayload :: "(cursor, asm_tables) state" where
  "readAsmPayload = do {
     n \<leftarrow> asmVarint;
     if n = 0 then do {
       version \<leftarrow> asmVarint;
       n \<leftarrow> asmVarint;
       if version \<noteq> 2 then State_Monad.return ([], [], False) else readAsmTables version n }
     else readAsmTables 1 n }"

definition ReadRTGAssemblyFragments :: "bytes \<Rightarrow> asm_tables" where
  "ReadRTGAssemblyFragments data =
     (if \<not> validUnitRoot data then ([], [], False)
      else
        (case eachChild asmChild data 14 None of
           None \<Rightarrow> ([], [], False)
         | Some None \<Rightarrow> ([], [], True)
         | Some (Some payload) \<Rightarrow>
             fst (run_state readAsmPayload \<lparr>cur_data = payload, cur_pos = 0, cur_ok = True\<rparr>)))"

text \<open>The rows \<open>AttachRTGAssemblyFragments\<close> writes for the bindings it is given.\<close>

definition attachRefused :: "RTGAssemblyBinding \<Rightarrow> RTGAssemblyBinding \<Rightarrow> bytes \<Rightarrow> bool" where
  "attachRefused b original code \<longleftrightarrow>
     ab_Func b \<noteq> ab_Func original \<or> ab_Source b \<noteq> ab_Source original \<or> ab_Entry b \<noteq> ab_Entry original \<or>
     ab_Mode b < 0 \<or> ab_Mode b > 1 \<or> ab_Inputs b < 0 \<or> ab_Inputs b > 6 \<or> ab_Outputs b < 0 \<or> ab_Outputs b > 1 \<or>
     ab_Mode b = 0 \<and> (ab_Inputs b \<noteq> 0 \<or> ab_Outputs b \<noteq> 0) \<or>
     length code = 0 \<or> int (length code) > maxFragment"

fun attachRows :: "bytes \<Rightarrow> RTGAssemblyBinding list \<Rightarrow> RTGAssemblyBinding list \<Rightarrow> bytes list \<Rightarrow> bytes option" where
  "attachRows payload (b # bs) (original # os) (code # cs) =
     (if attachRefused b original code then None
      else
        let payload = appendVarint payload (ab_Func b);
            payload = appendVarint payload (ab_Source b);
            payload = appendVarint payload (ab_Entry b);
            payload = appendVarint payload (ab_Mode b);
            payload = appendVarint payload (ab_Inputs b);
            payload = appendVarint payload (ab_Outputs b);
            payload = appendBytes payload code
        in attachRows payload bs os cs)"
| "attachRows payload bs os cs = Some payload"

definition appendRTGASMNode :: "bytes \<Rightarrow> int \<Rightarrow> bytes \<Rightarrow> bytes option" where
  "appendRTGASMNode out tag payload =
     (let start = int (length out);
          out = out @ [word_of_int tag, word_of_int (drop_bit 8 tag), 0, 0, 0, 0];
          out = out @ payload
      in patchUint32Core out (start + 2) (int (length payload)))"

text \<open>The loop that replaces the child: \<open>Some None\<close> is \<open>return nil, false\<close>.\<close>

function attachLoop :: "bytes \<Rightarrow> bytes \<Rightarrow> nat \<Rightarrow> bytes \<Rightarrow> bool \<Rightarrow> (bytes \<times> bool) option option" where
  "attachLoop data payload pos out found =
     (if pos + 6 \<le> length data then
        let tag = le16 data pos;
            sz = le32 data (pos + 2);
            nxt = pos + 6 + nat sz
        in if sz < 0 \<or> nxt < pos \<or> nxt > length data \<or> tag = TagRTGAssembly \<and> found then Some None
           else if tag = TagRTGAssembly then
             (case appendRTGASMNode out tag payload of
                None \<Rightarrow> None
              | Some out \<Rightarrow> attachLoop data payload nxt out True)
           else attachLoop data payload nxt (out @ take (nxt - pos) (drop pos data)) found
      else Some (Some (out, found)))"
  by pat_completeness auto
termination
  by (relation "measure (\<lambda>(data, payload, pos, out, found). length data - pos)") auto

declare attachLoop.simps [simp del]

definition AttachRTGAssemblyFragments ::
  "bytes \<Rightarrow> RTGAssemblyBinding list \<Rightarrow> bytes list \<Rightarrow> (bytes \<times> bool) option" where
  "AttachRTGAssemblyFragments data bindings code =
     (case ReadRTGAssemblyFragments data of
        (sources, original, ok) \<Rightarrow>
          if \<not> ok \<or> length bindings \<noteq> length original \<or> length code \<noteq> length bindings then Some ([], False)
          else
            let payload = appendVarint [] 0;
                payload = appendVarint payload 2;
                payload = appendVarint payload (int (length sources));
                payload = foldl (\<lambda>payload s. appendBytes (appendBytes payload (asm_Path s)) (asm_Source s)) payload sources;
                payload = appendVarint payload (int (length bindings))
            in case attachRows payload bindings original code of
                 None \<Rightarrow> Some ([], False)
               | Some payload \<Rightarrow>
                   (case attachLoop data payload 14 (take 14 data) False of
                      None \<Rightarrow> None
                    | Some None \<Rightarrow> Some ([], False)
                    | Some (Some (out, found)) \<Rightarrow>
                        if \<not> found then Some ([], False)
                        else do { out \<leftarrow> patchUint32Core out 10 (int (length out) - 14); Some (out, True) }))"

text \<open>\<open>rtgassembly_presence.go\<close>.\<close>

function hasAssemblyLoop :: "bytes \<Rightarrow> nat \<Rightarrow> bool" where
  "hasAssemblyLoop data pos =
     (if pos + 6 \<le> length data then
        let tag = le16 data pos;
            sz = le32 data (pos + 2);
            pos = pos + 6
        in if sz < 0 \<or> pos + nat sz < pos \<or> pos + nat sz > length data then False
           else if tag = TagRTGAssembly then True
           else hasAssemblyLoop data (pos + nat sz)
      else False)"
  by pat_completeness auto
termination
  by (relation "measure (\<lambda>(data, pos). length data - pos)") auto

declare hasAssemblyLoop.simps [simp del]

definition HasRTGAssembly :: "bytes \<Rightarrow> bool" where
  "HasRTGAssembly data = (if \<not> validUnitRoot data then False else hasAssemblyLoop data 14)"

subsection \<open>The tables, written and read back\<close>

definition wf_AsmSource :: "RTGAssemblySource \<Rightarrow> bool" where
  "wf_AsmSource s \<longleftrightarrow> int (length (asm_Path s)) < 2 ^ 31 \<and> int (length (asm_Source s)) \<le> maxFragment"

definition wf_AsmBinding :: "nat \<Rightarrow> RTGAssemblyBinding \<Rightarrow> bool" where
  "wf_AsmBinding sources b \<longleftrightarrow>
     \<not> asmBindingRefused sources b \<and> ab_Func b < 2 ^ 31 \<and> ab_Source b < 2 ^ 31 \<and> ab_Entry b < 2 ^ 31 \<and>
     int (length (ab_Code b)) < 2 ^ 31"

definition wf_Asm :: "RTGAssemblySource list \<Rightarrow> RTGAssemblyBinding list \<Rightarrow> bool" where
  "wf_Asm sources bindings \<longleftrightarrow>
     list_all wf_AsmSource sources \<and> length sources \<le> 8192 \<and>
     list_all (wf_AsmBinding (length sources)) bindings \<and> length bindings \<le> 8192"

lemma enc_appendAsmSourceRow:
  "enc appendAsmSourceRow s = enc appendBytes (asm_Path s) @ enc appendBytes (asm_Source s)"
  by (simp add: enc_def[of appendAsmSourceRow] appendAsmSourceRow_def appendVarint_out enc_appendBytes)

lemma enc_appendAsmBindingRow:
  "enc appendAsmBindingRow b =
     enc appendVarint (ab_Func b) @ enc appendVarint (ab_Source b) @ enc appendVarint (ab_Entry b) @
     enc appendVarint (ab_Mode b) @ enc appendVarint (ab_Inputs b) @ enc appendVarint (ab_Outputs b) @
     enc appendBytes (ab_Code b)"
  by (simp add: enc_def[of appendAsmBindingRow] appendAsmBindingRow_def appendVarint_out enc_appendVarint enc_appendBytes)

interpretation asm_source: cursor_codec appendAsmSourceRow readAsmSource wf_AsmSource
proof
  show "appendAsmSourceRow out s = out @ enc appendAsmSourceRow s" for out s
    by (simp add: enc_appendAsmSourceRow appendAsmSourceRow_def appendVarint_out enc_appendBytes)
  show "run_state readAsmSource (cursor_at before (enc appendAsmSourceRow s @ rest)) =
      (s, cursor_at (before @ enc appendAsmSourceRow s) rest)"
    if "wf_AsmSource s" for before s rest
    using that by (simp add: readAsmSource_def enc_appendAsmSourceRow asm_bytes.rd_enc wf_AsmSource_def)
qed

interpretation asm_binding: cursor_codec appendAsmBindingRow "readAsmBinding 2" "wf_AsmBinding sources" for sources
proof
  show "appendAsmBindingRow out b = out @ enc appendAsmBindingRow b" for out b
    by (simp add: enc_appendAsmBindingRow appendAsmBindingRow_def appendVarint_out enc_appendVarint enc_appendBytes)
  show "run_state (readAsmBinding 2) (cursor_at before (enc appendAsmBindingRow b @ rest)) =
      (b, cursor_at (before @ enc appendAsmBindingRow b) rest)"
    if "wf_AsmBinding sources b" for before b rest
    using that
    by (simp add: readAsmBinding_def enc_appendAsmBindingRow asm_int.rd_enc asm_bytes.rd_enc wf_AsmBinding_def
        asmBindingRefused_def not_less not_le)
qed

lemma readAsmSources_enc:
  "list_all wf_AsmSource ss \<Longrightarrow>
     run_state (readAsmSources (length ss)) (cursor_at before (concat (map (enc appendAsmSourceRow) ss) @ rest)) =
       (Some ss, cursor_at (before @ concat (map (enc appendAsmSourceRow) ss)) rest)"
  by (induction ss arbitrary: before) (simp_all add: asm_source.rd_enc, auto simp: wf_AsmSource_def)

lemma readAsmBindings_enc:
  "list_all (wf_AsmBinding n) bs \<Longrightarrow>
     run_state (readAsmBindings 2 n (length bs)) (cursor_at before (concat (map (enc appendAsmBindingRow) bs) @ rest)) =
       (Some bs, cursor_at (before @ concat (map (enc appendAsmBindingRow) bs)) rest)"
  by (induction bs arbitrary: before)
    (simp_all add: asm_binding.rd_enc[where sources = n], auto simp: wf_AsmBinding_def)

lemma encodeRTGAssemblyCore_enc:
  "encodeRTGAssemblyCore ss bs =
     varint 0 @ varint 2 @ varint (int (length ss)) @ concat (map (enc appendAsmSourceRow) ss) @
     varint (int (length bs)) @ concat (map (enc appendAsmBindingRow) bs)"
  by (simp add: encodeRTGAssemblyCore_def asm_source.fold_out asm_binding.fold_out appendVarint_out Let_def)

lemma length_encs_ge: "(\<And>x. app_ne x \<noteq> []) \<Longrightarrow> length xs \<le> length (concat (map app_ne xs))"
proof (induction xs)
  case (Cons x xs)
  then have "0 < length (app_ne x)" by simp
  then show ?case
    using Cons.IH[OF Cons.prems] unfolding list.map concat.simps length_append list.size by linarith
qed simp

lemma readAsmPayload_enc:
  assumes "wf_Asm ss bs"
  shows "run_state readAsmPayload (cursor_at [] (encodeRTGAssemblyCore ss bs)) =
    ((ss, bs, True), cursor_at (encodeRTGAssemblyCore ss bs) [])"
proof -
  let ?S = "concat (map (enc appendAsmSourceRow) ss)" and ?B = "concat (map (enc appendAsmBindingRow) bs)"
  have "length ss \<le> length ?S"
    by (rule length_encs_ge) (simp add: enc_appendAsmSourceRow enc_appendBytes)
  moreover have "length bs \<le> length ?B"
    by (rule length_encs_ge) (simp add: enc_appendAsmBindingRow enc_appendBytes)
  ultimately have c1: "\<not> asmCountRefused (cursor_at x (?S @ y)) (int (length ss))"
    and c2: "\<not> asmCountRefused (cursor_at x ?B) (int (length bs))" for x y
    using assms by (simp_all add: asmCountRefused_def cursor_at_def wf_Asm_def)
  have b: "int (length ss) < 2 ^ 31" "int (length bs) < 2 ^ 31" using assms by (simp_all add: wf_Asm_def)
  have f: "cur_ok (cursor_at x [])" "cur_pos (cursor_at x []) = length (cur_data (cursor_at x []))" for x
    by (simp_all add: cursor_at_def)
  have s: "list_all wf_AsmSource ss" "list_all (wf_AsmBinding (length ss)) bs" using assms by (simp_all add: wf_Asm_def)
  show ?thesis
    using b asmVarint_enc readAsmSources_enc[OF s(1)] readAsmBindings_enc[OF s(2), of _ "[]"] c1 c2 f
    by (simp add: readAsmPayload_def readAsmTables_def encodeRTGAssemblyCore_enc)
qed

subsection \<open>In a unit\<close>

lemma asmChild_none:
  "TagRTGAssembly \<notin> fst ` set cs \<Longrightarrow> foldChildren asmChild cs st = Some st"
  by (induction cs) (auto simp: asmChild_def)

lemma ReadRTGAssemblyFragments_unit:
  assumes "list_all child_ok (as @ (TagRTGAssembly, pl) # bs)"
    and "u32 (int (length (childrenBytes (as @ (TagRTGAssembly, pl) # bs))))"
    and "TagRTGAssembly \<notin> fst ` set as" "TagRTGAssembly \<notin> fst ` set bs"
    and "pl = encodeRTGAssemblyCore sources bindings" "wf_Asm sources bindings"
  shows "ReadRTGAssemblyFragments (unitBytes (as @ (TagRTGAssembly, pl) # bs)) = (sources, bindings, True)"
proof -
  have "foldChildren asmChild (as @ (33, pl) # bs) None = Some (Some pl)"
    using assms(3,4) by (simp add: foldChildren_append asmChild_none) (simp add: asmChild_def asmChild_none)
  moreover have "\<lparr>cur_data = pl, cur_pos = 0, cur_ok = True\<rparr> = cursor_at [] pl"
    by (simp add: cursor_at_def)
  ultimately show ?thesis
    using assms(2) readAsmPayload_enc[OF assms(6)]
    by (simp add: ReadRTGAssemblyFragments_def validUnitRoot_unitBytes eachChild_unitBytes[OF assms(1)[unfolded assms(5)]] assms(5))
qed

lemma ReadRTGAssemblyFragments_absent:
  assumes "list_all child_ok cs" "u32 (int (length (childrenBytes cs)))" "TagRTGAssembly \<notin> fst ` set cs"
  shows "ReadRTGAssemblyFragments (unitBytes cs) = ([], [], True)"
  using assms by (simp add: ReadRTGAssemblyFragments_def validUnitRoot_unitBytes eachChild_unitBytes asmChild_none)

subsection \<open>Attaching code\<close>

definition withCode :: "RTGAssemblyBinding list \<Rightarrow> bytes list \<Rightarrow> RTGAssemblyBinding list" where
  "withCode bs cs = map2 (\<lambda>b c. b\<lparr>ab_Code := c\<rparr>) bs cs"

lemma length_withCode [simp]: "length bs = length cs \<Longrightarrow> length (withCode bs cs) = length bs"
  by (simp add: withCode_def)

lemma attachRows_enc:
  assumes "length os = length bs" "length cs = length bs"
  shows "attachRows payload bs os cs =
    (if \<forall>i < length bs. \<not> attachRefused (bs ! i) (os ! i) (cs ! i)
     then Some (payload @ concat (map (enc appendAsmBindingRow) (withCode bs cs))) else None)"
  using assms
proof (induction bs arbitrary: os cs payload)
  case (Cons b bs)
  then obtain o1 os' c cs' where l: "os = o1 # os'" "cs = c # cs'" "length os' = length bs" "length cs' = length bs"
    by (cases os; cases cs) auto
  show ?case
    using Cons.IH[OF l(3,4)]
    by (simp add: l All_less_Suc2 withCode_def enc_appendAsmBindingRow[of "b\<lparr>ab_Code := c\<rparr>"] enc_appendVarint enc_appendBytes
        appendVarint_out appendBytes_def)
qed (simp add: withCode_def)

lemma appendRTGASMNode_child: "appendRTGASMNode out tag payload = Some (out @ childBytes (tag, payload))"
proof -
  have h: "(out @ [word_of_int tag, word_of_int (drop_bit 8 tag), 0, 0, 0, 0]) @ payload =
      (out @ putUint16 tag) @ [0, 0, 0, 0] @ payload"
    "int (length out) + 2 = int (length (out @ putUint16 tag))"
    by (simp_all add: putUint16_def)
  show ?thesis
    unfolding appendRTGASMNode_def Let_def h
    by (subst patchUint32Core_mid) (simp_all add: childBytes_def)
qed

lemma attachLoop_step:
  assumes "drop pos data = childBytes c @ rest" "pos \<le> length data" "child_ok c"
  shows "attachLoop data payload pos out found =
    (if fst c = TagRTGAssembly \<and> found then Some None
     else if fst c = TagRTGAssembly then attachLoop data payload (pos + 6 + length (snd c)) (out @ childBytes (fst c, payload)) True
     else attachLoop data payload (pos + 6 + length (snd c)) (out @ childBytes c) found)"
proof -
  note f = child_at[OF assms]
  have b: "pos + 6 \<le> length data" "\<not> int (length (snd c)) < 0" "\<not> pos + 6 + length (snd c) < pos"
    "\<not> pos + 6 + length (snd c) > length data" "pos + 6 + length (snd c) - pos = 6 + length (snd c)"
    using f(1) by simp_all
  show ?thesis
    by (subst attachLoop.simps)
      (simp only: b f(2,3,6) Let_def nat_int appendRTGASMNode_child option.case if_True if_False simp_thms)
qed

lemma attachLoop_none:
  assumes "drop pos data = childrenBytes cs" "pos \<le> length data" "list_all child_ok cs"
    and "TagRTGAssembly \<notin> fst ` set cs"
  shows "attachLoop data payload pos out found = Some (Some (out @ childrenBytes cs, found))"
  using assms
proof (induction cs arbitrary: pos out)
  case Nil
  then show ?case by (subst attachLoop.simps) simp
next
  case (Cons c cs)
  have d: "drop pos data = childBytes c @ childrenBytes cs" and ok: "child_ok c" "list_all child_ok cs"
    using Cons.prems by simp_all
  note f = child_at[OF d Cons.prems(2) ok(1)]
  show ?case
    using Cons.prems(4) Cons.IH[OF f(5,1) ok(2)] by (simp add: attachLoop_step[OF d Cons.prems(2) ok(1)])
qed

lemma attachLoop_replace:
  assumes "drop pos data = childrenBytes (as @ (TagRTGAssembly, pl) # bs)" "pos \<le> length data"
    and "list_all child_ok (as @ (TagRTGAssembly, pl) # bs)"
    and "TagRTGAssembly \<notin> fst ` set as" "TagRTGAssembly \<notin> fst ` set bs"
  shows "attachLoop data payload pos out False =
    Some (Some (out @ childrenBytes (as @ (TagRTGAssembly, payload) # bs), True))"
  using assms
proof (induction as arbitrary: pos out)
  case Nil
  have d: "drop pos data = childBytes (33, pl) @ childrenBytes bs" and ok: "child_ok (33, pl)" "list_all child_ok bs"
    using Nil.prems by simp_all
  note f = child_at[OF d Nil.prems(2) ok(1)]
  show ?case
    using attachLoop_none[OF f(5,1) ok(2) Nil.prems(5)] by (simp add: attachLoop_step[OF d Nil.prems(2) ok(1)])
next
  case (Cons c as)
  have d: "drop pos data = childBytes c @ childrenBytes (as @ (33, pl) # bs)"
    and ok: "child_ok c" "list_all child_ok (as @ (33, pl) # bs)"
    using Cons.prems by simp_all
  note f = child_at[OF d Cons.prems(2) ok(1)]
  show ?case
    using Cons.prems(4) Cons.IH[OF f(5,1) ok(2) _ Cons.prems(5)]
    by (simp add: attachLoop_step[OF d Cons.prems(2) ok(1)])
qed

lemma fold_appendAsmSource:
  "foldl (\<lambda>payload s. appendBytes (appendBytes payload (asm_Path s)) (asm_Source s)) out ss =
     out @ concat (map (enc appendAsmSourceRow) ss)"
  by (induction ss arbitrary: out)
    (simp_all add: enc_appendAsmSourceRow enc_appendBytes appendBytes_def appendVarint_out)

text \<open>The exact effect on a unit with an assembly child.\<close>

lemma AttachRTGAssemblyFragments_unit:
  assumes "list_all child_ok (as @ (TagRTGAssembly, pl) # bs)"
    and "u32 (int (length (childrenBytes (as @ (TagRTGAssembly, pl) # bs))))"
    and "TagRTGAssembly \<notin> fst ` set as" "TagRTGAssembly \<notin> fst ` set bs"
    and "pl = encodeRTGAssemblyCore sources original" "wf_Asm sources original"
  shows "AttachRTGAssemblyFragments (unitBytes (as @ (TagRTGAssembly, pl) # bs)) bindings code =
    Some (if length bindings = length original \<and> length code = length original \<and>
             (\<forall>i < length bindings. \<not> attachRefused (bindings ! i) (original ! i) (code ! i))
          then (unitBytes (as @ (TagRTGAssembly, encodeRTGAssemblyCore sources (withCode bindings code)) # bs), True)
          else ([], False))"
proof (cases "length bindings = length original \<and> length code = length original")
  case False
  then show ?thesis
    by (auto simp: AttachRTGAssemblyFragments_def ReadRTGAssemblyFragments_unit[OF assms])
next
  case True
  then have l: "length original = length bindings" "length code = length bindings" by simp_all
  let ?cs = "as @ (33, pl) # bs" and ?new = "encodeRTGAssemblyCore sources (withCode bindings code)"
  let ?n = "int (length (childrenBytes ?cs))"
  have loop: "attachLoop (unitBytes ?cs) ?new 14 (take 14 (unitBytes ?cs)) False =
      Some (Some (Magic @ putUint16 Version @ putUint16 0 @ putUint16 TagUnit @ putUint32 ?n @
        childrenBytes (as @ (33, ?new) # bs), True))"
    using attachLoop_replace[OF drop_unitBytes _ assms(1,3,4)]
    by (simp add: length_unitBytes take_unitBytes)
  have pay: "varint 0 @ varint 2 @ varint (int (length sources)) @ concat (map (enc appendAsmSourceRow) sources) @
      varint (int (length original)) @ concat (map (enc appendAsmBindingRow) (withCode bindings code)) = ?new"
    using l by (simp add: encodeRTGAssemblyCore_enc)
  show ?thesis
    using True loop patch_children[of ?n "as @ (33, ?new) # bs"]
    by (auto simp: AttachRTGAssemblyFragments_def ReadRTGAssemblyFragments_unit[OF assms]
        fold_appendAsmSource attachRows_enc[OF l] appendVarint_out pay)
qed

lemma hasAssemblyLoop_children:
  assumes "drop pos data = childrenBytes cs" "pos \<le> length data" "list_all child_ok cs"
  shows "hasAssemblyLoop data pos \<longleftrightarrow> TagRTGAssembly \<in> fst ` set cs"
  using assms
proof (induction cs arbitrary: pos)
  case Nil
  then show ?case by (subst hasAssemblyLoop.simps) simp
next
  case (Cons c cs)
  have d: "drop pos data = childBytes c @ childrenBytes cs" and ok: "child_ok c" "list_all child_ok cs"
    using Cons.prems by simp_all
  note f = child_at[OF d Cons.prems(2) ok(1)]
  have b: "pos + 6 \<le> length data" "\<not> (int (length (snd c)) < 0 \<or> pos + 6 + length (snd c) < pos + 6 \<or>
      pos + 6 + length (snd c) > length data)"
    using f(1) by simp_all
  show ?case
    by (subst hasAssemblyLoop.simps)
      (simp only: b f(2,3) Let_def nat_int if_True if_False Cons.IH[OF f(5,1) ok(2)], auto)
qed

text \<open>Presence agrees with the reader: a unit without the child has empty tables.\<close>

lemma HasRTGAssembly_unit:
  assumes "list_all child_ok cs" "u32 (int (length (childrenBytes cs)))"
  shows "HasRTGAssembly (unitBytes cs) \<longleftrightarrow> TagRTGAssembly \<in> fst ` set cs"
  using hasAssemblyLoop_children[OF drop_unitBytes _ assms(1)] assms(2)
  by (simp add: HasRTGAssembly_def validUnitRoot_unitBytes length_unitBytes)

lemma wf_Asm_withCode:
  assumes "wf_Asm sources original" "length bindings = length original" "length code = length original"
    and "\<forall>i < length bindings. \<not> attachRefused (bindings ! i) (original ! i) (code ! i)"
  shows "wf_Asm sources (withCode bindings code)"
proof -
  have "wf_AsmBinding (length sources) (withCode bindings code ! i)" if "i < length bindings" for i
  proof -
    have "\<not> attachRefused (bindings ! i) (original ! i) (code ! i)" "wf_AsmBinding (length sources) (original ! i)"
      using assms that by (auto simp: wf_Asm_def list_all_length)
    moreover have "withCode bindings code ! i = (bindings ! i)\<lparr>ab_Code := code ! i\<rparr>"
      using assms(2,3) that by (simp add: withCode_def)
    ultimately show ?thesis
      by (auto simp: attachRefused_def wf_AsmBinding_def asmBindingRefused_def)
  qed
  then show ?thesis
    using assms(1-3) by (simp add: wf_Asm_def list_all_length)
qed

end
