(* ===== verification/Front_Cache.thy ===== *)
theory Front_Cache
  imports Front_Foreign
begin

text \<open>
  The model that the frontend lowers and links, \<open>Program\<close> of \<open>internal/unit/model_shared.go\<close>, and the
  in-process cache format of a package, \<open>internal/unit/frontend_cache.go\<close>, which keeps the tables that
  the linker needs and the unit format leaves out.
\<close>

subsection \<open>The linker's program\<close>

record LinkImport =
  li_NameTok :: int
  li_PathTok :: int

record LinkSymbol =
  ls_Name :: gostring
  ls_Package :: int
  ls_Token :: int

record LinkTypeRef =
  lt_Kind :: int
  lt_Token :: int
  lt_BaseTok :: int
  lt_DotTok :: int
  lt_Package :: int
  lt_Symbol :: int

record LinkCall =
  lc_Kind :: int
  lc_CalleeTok :: int
  lc_BaseTok :: int
  lc_DotTok :: int

record LinkNameRef =
  lr_Kind :: int
  lr_Token :: int
  lr_Index :: int
  lr_Package :: int

record LinkSelector =
  lsel_BaseTok :: int
  lsel_DotTok :: int
  lsel_NameTok :: int
  lsel_BaseKind :: int
  lsel_BaseIndex :: int
  lsel_BasePackage :: int
  lsel_Package :: int
  lsel_Symbol :: int

record ConcurrencySite =
  cs_Kind :: int
  cs_Token :: int
  cs_Direction :: int
  cs_ReceiveArity :: int
  cs_ElementType :: gostring

record LinkProgram =
  lp_Package :: gostring
  lp_ImportPath :: gostring
  lp_Text :: bytes
  lp_Tokens :: "Token list"
  lp_Imports :: "LinkImport list"
  lp_Symbols :: "LinkSymbol list"
  lp_Decls :: "Decl list"
  lp_Funcs :: "Func list"
  lp_TypeRefs :: "LinkTypeRef list"
  lp_Calls :: "LinkCall list"
  lp_Refs :: "LinkNameRef list"
  lp_Selectors :: "LinkSelector list"
  lp_ConcurrencySites :: "ConcurrencySite list"
  lp_Packages :: "PackageInfo list"
  lp_RTGAssembly :: "RTGAssemblySource list"
  lp_RTGAssemblyFuncs :: "RTGAssemblyBinding list"
  lp_Entrypoint :: int
  lp_ForeignPrograms :: "ForeignProgram list"
  lp_LexicalFuncs :: "Func list option"

definition emptyLinkProgram :: LinkProgram where
  "emptyLinkProgram =
     \<lparr>lp_Package = [], lp_ImportPath = [], lp_Text = [], lp_Tokens = [], lp_Imports = [], lp_Symbols = [],
      lp_Decls = [], lp_Funcs = [], lp_TypeRefs = [], lp_Calls = [], lp_Refs = [], lp_Selectors = [],
      lp_ConcurrencySites = [], lp_Packages = [], lp_RTGAssembly = [], lp_RTGAssemblyFuncs = [],
      lp_Entrypoint = 0, lp_ForeignPrograms = [], lp_LexicalFuncs = None\<rparr>"

definition CoreProgramFrom :: "LinkProgram \<Rightarrow> CoreProgram" where
  "CoreProgramFrom program =
     \<lparr>core_Package = lp_Package program, core_ImportPath = lp_ImportPath program, core_Text = lp_Text program,
      core_Tokens = lp_Tokens program, core_Decls = lp_Decls program, core_Funcs = lp_Funcs program,
      core_Packages = lp_Packages program, core_RTGAssembly = lp_RTGAssembly program,
      core_RTGAssemblyFuncs = lp_RTGAssemblyFuncs program, core_Entrypoint = lp_Entrypoint program,
      core_ForeignPrograms = lp_ForeignPrograms program\<rparr>"

definition MarshalLinked :: "LinkProgram \<Rightarrow> bytes option" where
  "MarshalLinked program = MarshalCore (CoreProgramFrom program)"

subsection \<open>Writing\<close>

definition appendFrontendCacheInt :: "bytes \<Rightarrow> int \<Rightarrow> bytes" where
  "appendFrontendCacheInt out v = appendVarint out (v + 1)"

definition appendFrontendCacheBytes :: "bytes \<Rightarrow> bytes \<Rightarrow> bytes" where
  "appendFrontendCacheBytes out v = (let out = appendVarint out (int (length v)) in out @ v)"

definition appendFrontendCacheString :: "bytes \<Rightarrow> gostring \<Rightarrow> bytes" where
  "appendFrontendCacheString out v = (let out = appendVarint out (int (length v)) in out @ v)"

definition cacheTokenRow :: "bytes \<Rightarrow> Token \<Rightarrow> bytes" where
  "cacheTokenRow out item =
     (let out = appendFrontendCacheInt out (tok_KindLine item AND 255);
          out = appendFrontendCacheInt out (tok_Start item);
          out = appendFrontendCacheInt out (tok_Size item);
          out = appendFrontendCacheInt out (drop_bit 8 (tok_KindLine item))
      in out)"

definition cacheLinkImportRow :: "bytes \<Rightarrow> LinkImport \<Rightarrow> bytes" where
  "cacheLinkImportRow out item =
     (let out = appendFrontendCacheInt out (li_NameTok item);
          out = appendFrontendCacheInt out (li_PathTok item)
      in out)"

definition cacheLinkSymbolRow :: "bytes \<Rightarrow> LinkSymbol \<Rightarrow> bytes" where
  "cacheLinkSymbolRow out item =
     (let out = appendFrontendCacheString out (ls_Name item);
          out = appendFrontendCacheInt out (ls_Package item);
          out = appendFrontendCacheInt out (ls_Token item)
      in out)"

definition cacheDeclRow :: "bytes \<Rightarrow> Decl \<Rightarrow> bytes" where
  "cacheDeclRow out item =
     (let out = appendFrontendCacheInt out (decl_Kind item);
          out = appendFrontendCacheInt out (decl_NameStart item);
          out = appendFrontendCacheInt out (decl_NameEnd item);
          out = appendFrontendCacheInt out (decl_StartTok item);
          out = appendFrontendCacheInt out (decl_EndTok item)
      in out)"

definition cacheFuncRow :: "bytes \<Rightarrow> Func \<Rightarrow> bytes" where
  "cacheFuncRow out item =
     (let out = appendFrontendCacheInt out (fn_NameStart item);
          out = appendFrontendCacheInt out (fn_NameEnd item);
          out = appendFrontendCacheInt out (fn_StartTok item);
          out = appendFrontendCacheInt out (fn_NameTok item);
          out = appendFrontendCacheInt out (fn_ReceiverStart item);
          out = appendFrontendCacheInt out (fn_ReceiverEnd item);
          out = appendFrontendCacheInt out (fn_BodyStart item);
          out = appendFrontendCacheInt out (fn_BodyEnd item);
          out = appendFrontendCacheInt out (fn_EndTok item)
      in out)"

definition cacheLinkTypeRefRow :: "bytes \<Rightarrow> LinkTypeRef \<Rightarrow> bytes" where
  "cacheLinkTypeRefRow out item =
     (let out = appendFrontendCacheInt out (lt_Kind item);
          out = appendFrontendCacheInt out (lt_Token item);
          out = appendFrontendCacheInt out (lt_BaseTok item);
          out = appendFrontendCacheInt out (lt_DotTok item);
          out = appendFrontendCacheInt out (lt_Package item);
          out = appendFrontendCacheInt out (lt_Symbol item)
      in out)"

definition cacheLinkCallRow :: "bytes \<Rightarrow> LinkCall \<Rightarrow> bytes" where
  "cacheLinkCallRow out item =
     (let out = appendFrontendCacheInt out (lc_Kind item);
          out = appendFrontendCacheInt out (lc_CalleeTok item);
          out = appendFrontendCacheInt out (lc_BaseTok item);
          out = appendFrontendCacheInt out (lc_DotTok item)
      in out)"

definition cacheLinkNameRefRow :: "bytes \<Rightarrow> LinkNameRef \<Rightarrow> bytes" where
  "cacheLinkNameRefRow out item =
     (let out = appendFrontendCacheInt out (lr_Kind item);
          out = appendFrontendCacheInt out (lr_Token item);
          out = appendFrontendCacheInt out (lr_Index item);
          out = appendFrontendCacheInt out (lr_Package item)
      in out)"

definition cacheLinkSelectorRow :: "bytes \<Rightarrow> LinkSelector \<Rightarrow> bytes" where
  "cacheLinkSelectorRow out item =
     (let out = appendFrontendCacheInt out (lsel_BaseTok item);
          out = appendFrontendCacheInt out (lsel_DotTok item);
          out = appendFrontendCacheInt out (lsel_NameTok item);
          out = appendFrontendCacheInt out (lsel_BaseKind item);
          out = appendFrontendCacheInt out (lsel_BaseIndex item);
          out = appendFrontendCacheInt out (lsel_BasePackage item);
          out = appendFrontendCacheInt out (lsel_Package item);
          out = appendFrontendCacheInt out (lsel_Symbol item)
      in out)"

definition cacheConcurrencySiteRow :: "bytes \<Rightarrow> ConcurrencySite \<Rightarrow> bytes" where
  "cacheConcurrencySiteRow out item =
     (let out = appendFrontendCacheInt out (cs_Kind item);
          out = appendFrontendCacheInt out (cs_Token item);
          out = appendFrontendCacheInt out (cs_Direction item);
          out = appendFrontendCacheInt out (cs_ReceiveArity item);
          out = appendFrontendCacheString out (cs_ElementType item)
      in out)"

definition frontendCacheMagic :: bytes where
  "frontendCacheMagic = [0x52, 0x56, 0x46, 0x43, 0x32]"

definition MarshalFrontendCache :: "LinkProgram \<Rightarrow> bytes \<times> bool" where
  "MarshalFrontendCache program =
     (let out = [] @ frontendCacheMagic;
          out = appendFrontendCacheString out (lp_Package program);
          out = appendFrontendCacheString out (lp_ImportPath program);
          out = appendFrontendCacheBytes out (lp_Text program);
          out = appendFrontendCacheInt out (int (length (lp_Tokens program)));
          out = foldl cacheTokenRow out (lp_Tokens program);
          out = appendFrontendCacheInt out (int (length (lp_Imports program)));
          out = foldl cacheLinkImportRow out (lp_Imports program);
          out = appendFrontendCacheInt out (int (length (lp_Symbols program)));
          out = foldl cacheLinkSymbolRow out (lp_Symbols program);
          out = appendFrontendCacheInt out (int (length (lp_Decls program)));
          out = foldl cacheDeclRow out (lp_Decls program);
          out = appendFrontendCacheInt out (int (length (lp_Funcs program)));
          out = foldl cacheFuncRow out (lp_Funcs program);
          out = appendFrontendCacheInt out (int (length (lp_TypeRefs program)));
          out = foldl cacheLinkTypeRefRow out (lp_TypeRefs program);
          out = appendFrontendCacheInt out (int (length (lp_Calls program)));
          out = foldl cacheLinkCallRow out (lp_Calls program);
          out = appendFrontendCacheInt out (int (length (lp_Refs program)));
          out = foldl cacheLinkNameRefRow out (lp_Refs program);
          out = appendFrontendCacheInt out (int (length (lp_Selectors program)));
          out = foldl cacheLinkSelectorRow out (lp_Selectors program);
          out = appendFrontendCacheInt out (int (length (lp_ConcurrencySites program)));
          out = foldl cacheConcurrencySiteRow out (lp_ConcurrencySites program)
      in (out, True))"

subsection \<open>Reading\<close>

definition readTokenRow :: "(cursor, Token) state" where
  "readTokenRow = do {
     kind \<leftarrow> intValue;
     start \<leftarrow> intValue;
     sz \<leftarrow> intValue;
     line \<leftarrow> intValue;
     State_Monad.return (MakeToken kind start sz line) }"

definition readLinkImportRow :: "(cursor, LinkImport) state" where
  "readLinkImportRow = do {
     vNameTok \<leftarrow> intValue;
     vPathTok \<leftarrow> intValue;
     State_Monad.return \<lparr>li_NameTok = vNameTok, li_PathTok = vPathTok\<rparr> }"

definition readLinkSymbolRow :: "(cursor, LinkSymbol) state" where
  "readLinkSymbolRow = do {
     vName \<leftarrow> byteValue;
     vPackage \<leftarrow> intValue;
     vToken \<leftarrow> intValue;
     State_Monad.return \<lparr>ls_Name = vName, ls_Package = vPackage, ls_Token = vToken\<rparr> }"

definition readDeclRow :: "(cursor, Decl) state" where
  "readDeclRow = do {
     vKind \<leftarrow> intValue;
     vNameStart \<leftarrow> intValue;
     vNameEnd \<leftarrow> intValue;
     vStartTok \<leftarrow> intValue;
     vEndTok \<leftarrow> intValue;
     State_Monad.return \<lparr>decl_Kind = vKind, decl_NameStart = vNameStart, decl_NameEnd = vNameEnd, decl_StartTok = vStartTok,
       decl_EndTok = vEndTok\<rparr> }"

definition readFuncRow :: "(cursor, Func) state" where
  "readFuncRow = do {
     vNameStart \<leftarrow> intValue;
     vNameEnd \<leftarrow> intValue;
     vStartTok \<leftarrow> intValue;
     vNameTok \<leftarrow> intValue;
     vReceiverStart \<leftarrow> intValue;
     vReceiverEnd \<leftarrow> intValue;
     vBodyStart \<leftarrow> intValue;
     vBodyEnd \<leftarrow> intValue;
     vEndTok \<leftarrow> intValue;
     State_Monad.return \<lparr>fn_NameStart = vNameStart, fn_NameEnd = vNameEnd, fn_StartTok = vStartTok, fn_NameTok = vNameTok,
       fn_ReceiverStart = vReceiverStart, fn_ReceiverEnd = vReceiverEnd, fn_BodyStart = vBodyStart, fn_BodyEnd = vBodyEnd,
       fn_EndTok = vEndTok\<rparr> }"

definition readLinkTypeRefRow :: "(cursor, LinkTypeRef) state" where
  "readLinkTypeRefRow = do {
     vKind \<leftarrow> intValue;
     vToken \<leftarrow> intValue;
     vBaseTok \<leftarrow> intValue;
     vDotTok \<leftarrow> intValue;
     vPackage \<leftarrow> intValue;
     vSymbol \<leftarrow> intValue;
     State_Monad.return \<lparr>lt_Kind = vKind, lt_Token = vToken, lt_BaseTok = vBaseTok, lt_DotTok = vDotTok,
       lt_Package = vPackage, lt_Symbol = vSymbol\<rparr> }"

definition readLinkCallRow :: "(cursor, LinkCall) state" where
  "readLinkCallRow = do {
     vKind \<leftarrow> intValue;
     vCalleeTok \<leftarrow> intValue;
     vBaseTok \<leftarrow> intValue;
     vDotTok \<leftarrow> intValue;
     State_Monad.return \<lparr>lc_Kind = vKind, lc_CalleeTok = vCalleeTok, lc_BaseTok = vBaseTok, lc_DotTok = vDotTok\<rparr> }"

definition readLinkNameRefRow :: "(cursor, LinkNameRef) state" where
  "readLinkNameRefRow = do {
     vKind \<leftarrow> intValue;
     vToken \<leftarrow> intValue;
     vIndex \<leftarrow> intValue;
     vPackage \<leftarrow> intValue;
     State_Monad.return \<lparr>lr_Kind = vKind, lr_Token = vToken, lr_Index = vIndex, lr_Package = vPackage\<rparr> }"

definition readLinkSelectorRow :: "(cursor, LinkSelector) state" where
  "readLinkSelectorRow = do {
     vBaseTok \<leftarrow> intValue;
     vDotTok \<leftarrow> intValue;
     vNameTok \<leftarrow> intValue;
     vBaseKind \<leftarrow> intValue;
     vBaseIndex \<leftarrow> intValue;
     vBasePackage \<leftarrow> intValue;
     vPackage \<leftarrow> intValue;
     vSymbol \<leftarrow> intValue;
     State_Monad.return \<lparr>lsel_BaseTok = vBaseTok, lsel_DotTok = vDotTok, lsel_NameTok = vNameTok, lsel_BaseKind = vBaseKind,
       lsel_BaseIndex = vBaseIndex, lsel_BasePackage = vBasePackage, lsel_Package = vPackage, lsel_Symbol = vSymbol\<rparr> }"

definition readConcurrencySiteRow :: "(cursor, ConcurrencySite) state" where
  "readConcurrencySiteRow = do {
     vKind \<leftarrow> intValue;
     vToken \<leftarrow> intValue;
     vDirection \<leftarrow> intValue;
     vReceiveArity \<leftarrow> intValue;
     vElementType \<leftarrow> byteValue;
     State_Monad.return \<lparr>cs_Kind = vKind, cs_Token = vToken, cs_Direction = vDirection, cs_ReceiveArity = vReceiveArity,
       cs_ElementType = vElementType\<rparr> }"

text \<open>\<open>make([]T, r.count())\<close> and the loop that fills it.\<close>

definition cacheTable :: "(cursor, 'a) state \<Rightarrow> (cursor, 'a list) state" where
  "cacheTable rd = do { n \<leftarrow> countValue; readTimes (nat n) rd }"

definition readCacheProgram :: "(cursor, LinkProgram) state" where
  "readCacheProgram = do {
     package \<leftarrow> byteValue;
     importPath \<leftarrow> byteValue;
     pool \<leftarrow> byteValue;
     tokens \<leftarrow> cacheTable readTokenRow;
     imports \<leftarrow> cacheTable readLinkImportRow;
     symbols \<leftarrow> cacheTable readLinkSymbolRow;
     decls \<leftarrow> cacheTable readDeclRow;
     funcs \<leftarrow> cacheTable readFuncRow;
     typeRefs \<leftarrow> cacheTable readLinkTypeRefRow;
     calls \<leftarrow> cacheTable readLinkCallRow;
     refs \<leftarrow> cacheTable readLinkNameRefRow;
     selectors \<leftarrow> cacheTable readLinkSelectorRow;
     sites \<leftarrow> cacheTable readConcurrencySiteRow;
     State_Monad.return (emptyLinkProgram\<lparr>lp_Package := package, lp_ImportPath := importPath, lp_Text := pool,
       lp_Tokens := tokens, lp_Imports := imports, lp_Symbols := symbols, lp_Decls := decls, lp_Funcs := funcs,
       lp_TypeRefs := typeRefs, lp_Calls := calls, lp_Refs := refs, lp_Selectors := selectors, lp_ConcurrencySites := sites\<rparr>) }"

definition UnmarshalFrontendCache :: "bytes \<Rightarrow> LinkProgram \<times> bool" where
  "UnmarshalFrontendCache data =
     (if length data < length frontendCacheMagic \<or> take (length frontendCacheMagic) data \<noteq> frontendCacheMagic
      then (emptyLinkProgram, False)
      else
        (case run_state readCacheProgram
                \<lparr>cur_data = data, cur_pos = length frontendCacheMagic, cur_ok = True\<rparr> of
           (out, r) \<Rightarrow> (out, cur_ok r \<and> cur_pos r = length (cur_data r))))"

subsection \<open>The rows meet the contract\<close>

definition cacheInt :: "int \<Rightarrow> bool" where
  "cacheInt v \<longleftrightarrow> -1 \<le> v \<and> v + 1 < 2 ^ 63"

definition cacheString :: "bytes \<Rightarrow> bool" where
  "cacheString s \<longleftrightarrow> int (length s) < 2 ^ 63"

interpretation cache_int: cursor_codec appendFrontendCacheInt intValue cacheInt
proof
  show out: "appendFrontendCacheInt out v = out @ enc appendFrontendCacheInt v" for out v
    by (simp add: enc_def appendFrontendCacheInt_def appendVarint_out)
  have e: "enc appendFrontendCacheInt v = varint (v + 1)" for v
    by (simp add: enc_def appendFrontendCacheInt_def varint_def)
  show "run_state intValue (cursor_at before (enc appendFrontendCacheInt v @ rest)) =
      (v, cursor_at (before @ enc appendFrontendCacheInt v) rest)"
    if "cacheInt v" for before v rest
    using rawVarint_enc[of "v + 1" before rest] that by (simp add: intValue_def e cacheInt_def)
qed

lemma appendFrontendCacheString_bytes:
  "appendFrontendCacheString = appendBytes" "appendFrontendCacheBytes = appendBytes"
  by (simp_all add: fun_eq_iff appendFrontendCacheString_def appendFrontendCacheBytes_def appendBytes_def)

interpretation cache_string: cursor_codec appendBytes byteValue cacheString
  by unfold_locales (simp_all add: foreign_bytes.app_out cache_bytes.rd_enc cacheString_def)

lemmas cache_row_simps =
  appendFrontendCacheString_bytes cache_int.app_out cache_string.app_out cache_int.rd_enc cache_string.rd_enc

definition wf_cacheToken :: "Token \<Rightarrow> bool" where
  "wf_cacheToken t \<longleftrightarrow> cacheInt (tok_Start t) \<and> cacheInt (tok_Size t) \<and> cacheInt (drop_bit 8 (tok_KindLine t))"

lemma and_255: "(x :: int) AND 255 = take_bit 8 x"
  by (simp add: take_bit_eq_mask mask_eq_exp_minus_1)

lemma kind_line: "(x AND 255) OR push_bit 8 (drop_bit 8 x) = (x :: int)"
proof -
  have "0 \<le> take_bit 8 x" "take_bit 8 x < 2 ^ 8" using take_bit_int_less_exp[of 8 x] by simp_all
  then have "take_bit 8 x OR push_bit 8 (drop_bit 8 x) = take_bit 8 x + drop_bit 8 x * 2 ^ 8"
    by (rule or_push_bit_eq_add)
  also have "\<dots> = x" by (simp add: take_bit_eq_mod drop_bit_eq_div)
  finally show ?thesis by (simp only: and_255)
qed

lemma cacheInt_kind: "cacheInt (x AND 255)"
proof -
  have "-1 \<le> take_bit 8 x" by (rule order_trans[of _ 0]) simp_all
  then show ?thesis using take_bit_int_less_exp[of 8 x] by (simp add: and_255 cacheInt_def)
qed

interpretation cache_token: cursor_codec cacheTokenRow readTokenRow wf_cacheToken
proof
  show "cacheTokenRow out x = out @ enc cacheTokenRow x" for out x
    by (simp add: enc_def[of cacheTokenRow] cacheTokenRow_def cache_row_simps Let_def)
  show "run_state readTokenRow (cursor_at before (enc cacheTokenRow x @ rest)) = (x, cursor_at (before @ enc cacheTokenRow x) rest)"
    if "wf_cacheToken x" for before x rest
    using that
    by (cases x) (simp add: enc_def[of cacheTokenRow] cacheTokenRow_def readTokenRow_def wf_cacheToken_def
        cache_row_simps MakeToken_def kind_line cacheInt_kind Let_def)
qed

definition wf_cacheLinkImport :: "LinkImport \<Rightarrow> bool" where
  "wf_cacheLinkImport x \<longleftrightarrow>
     cacheInt (li_NameTok x) \<and> cacheInt (li_PathTok x)"

interpretation cache_LinkImport: cursor_codec cacheLinkImportRow readLinkImportRow wf_cacheLinkImport
proof
  show "cacheLinkImportRow out x = out @ enc cacheLinkImportRow x" for out x
    by (simp add: enc_def[of cacheLinkImportRow] cacheLinkImportRow_def cache_row_simps Let_def)
  show "run_state readLinkImportRow (cursor_at before (enc cacheLinkImportRow x @ rest)) =
      (x, cursor_at (before @ enc cacheLinkImportRow x) rest)"
    if "wf_cacheLinkImport x" for before x rest
    using that
    by (cases x) (simp add: enc_def[of cacheLinkImportRow] cacheLinkImportRow_def readLinkImportRow_def wf_cacheLinkImport_def
        cache_row_simps Let_def)
qed

definition wf_cacheLinkSymbol :: "LinkSymbol \<Rightarrow> bool" where
  "wf_cacheLinkSymbol x \<longleftrightarrow>
     cacheString (ls_Name x) \<and> cacheInt (ls_Package x) \<and> cacheInt (ls_Token x)"

interpretation cache_LinkSymbol: cursor_codec cacheLinkSymbolRow readLinkSymbolRow wf_cacheLinkSymbol
proof
  show "cacheLinkSymbolRow out x = out @ enc cacheLinkSymbolRow x" for out x
    by (simp add: enc_def[of cacheLinkSymbolRow] cacheLinkSymbolRow_def cache_row_simps Let_def)
  show "run_state readLinkSymbolRow (cursor_at before (enc cacheLinkSymbolRow x @ rest)) =
      (x, cursor_at (before @ enc cacheLinkSymbolRow x) rest)"
    if "wf_cacheLinkSymbol x" for before x rest
    using that
    by (cases x) (simp add: enc_def[of cacheLinkSymbolRow] cacheLinkSymbolRow_def readLinkSymbolRow_def wf_cacheLinkSymbol_def
        cache_row_simps Let_def)
qed

definition wf_cacheDecl :: "Decl \<Rightarrow> bool" where
  "wf_cacheDecl x \<longleftrightarrow>
     cacheInt (decl_Kind x) \<and> cacheInt (decl_NameStart x) \<and> cacheInt (decl_NameEnd x) \<and> cacheInt (decl_StartTok x) \<and> cacheInt (decl_EndTok x)"

interpretation cache_Decl: cursor_codec cacheDeclRow readDeclRow wf_cacheDecl
proof
  show "cacheDeclRow out x = out @ enc cacheDeclRow x" for out x
    by (simp add: enc_def[of cacheDeclRow] cacheDeclRow_def cache_row_simps Let_def)
  show "run_state readDeclRow (cursor_at before (enc cacheDeclRow x @ rest)) =
      (x, cursor_at (before @ enc cacheDeclRow x) rest)"
    if "wf_cacheDecl x" for before x rest
    using that
    by (cases x) (simp add: enc_def[of cacheDeclRow] cacheDeclRow_def readDeclRow_def wf_cacheDecl_def
        cache_row_simps Let_def)
qed

definition wf_cacheFunc :: "Func \<Rightarrow> bool" where
  "wf_cacheFunc x \<longleftrightarrow>
     cacheInt (fn_NameStart x) \<and> cacheInt (fn_NameEnd x) \<and> cacheInt (fn_StartTok x) \<and> cacheInt (fn_NameTok x) \<and> cacheInt (fn_ReceiverStart x) \<and> cacheInt (fn_ReceiverEnd x) \<and> cacheInt (fn_BodyStart x) \<and> cacheInt (fn_BodyEnd x) \<and> cacheInt (fn_EndTok x)"

interpretation cache_Func: cursor_codec cacheFuncRow readFuncRow wf_cacheFunc
proof
  show "cacheFuncRow out x = out @ enc cacheFuncRow x" for out x
    by (simp add: enc_def[of cacheFuncRow] cacheFuncRow_def cache_row_simps Let_def)
  show "run_state readFuncRow (cursor_at before (enc cacheFuncRow x @ rest)) =
      (x, cursor_at (before @ enc cacheFuncRow x) rest)"
    if "wf_cacheFunc x" for before x rest
    using that
    by (cases x) (simp add: enc_def[of cacheFuncRow] cacheFuncRow_def readFuncRow_def wf_cacheFunc_def
        cache_row_simps Let_def)
qed

definition wf_cacheLinkTypeRef :: "LinkTypeRef \<Rightarrow> bool" where
  "wf_cacheLinkTypeRef x \<longleftrightarrow>
     cacheInt (lt_Kind x) \<and> cacheInt (lt_Token x) \<and> cacheInt (lt_BaseTok x) \<and> cacheInt (lt_DotTok x) \<and> cacheInt (lt_Package x) \<and> cacheInt (lt_Symbol x)"

interpretation cache_LinkTypeRef: cursor_codec cacheLinkTypeRefRow readLinkTypeRefRow wf_cacheLinkTypeRef
proof
  show "cacheLinkTypeRefRow out x = out @ enc cacheLinkTypeRefRow x" for out x
    by (simp add: enc_def[of cacheLinkTypeRefRow] cacheLinkTypeRefRow_def cache_row_simps Let_def)
  show "run_state readLinkTypeRefRow (cursor_at before (enc cacheLinkTypeRefRow x @ rest)) =
      (x, cursor_at (before @ enc cacheLinkTypeRefRow x) rest)"
    if "wf_cacheLinkTypeRef x" for before x rest
    using that
    by (cases x) (simp add: enc_def[of cacheLinkTypeRefRow] cacheLinkTypeRefRow_def readLinkTypeRefRow_def wf_cacheLinkTypeRef_def
        cache_row_simps Let_def)
qed

definition wf_cacheLinkCall :: "LinkCall \<Rightarrow> bool" where
  "wf_cacheLinkCall x \<longleftrightarrow>
     cacheInt (lc_Kind x) \<and> cacheInt (lc_CalleeTok x) \<and> cacheInt (lc_BaseTok x) \<and> cacheInt (lc_DotTok x)"

interpretation cache_LinkCall: cursor_codec cacheLinkCallRow readLinkCallRow wf_cacheLinkCall
proof
  show "cacheLinkCallRow out x = out @ enc cacheLinkCallRow x" for out x
    by (simp add: enc_def[of cacheLinkCallRow] cacheLinkCallRow_def cache_row_simps Let_def)
  show "run_state readLinkCallRow (cursor_at before (enc cacheLinkCallRow x @ rest)) =
      (x, cursor_at (before @ enc cacheLinkCallRow x) rest)"
    if "wf_cacheLinkCall x" for before x rest
    using that
    by (cases x) (simp add: enc_def[of cacheLinkCallRow] cacheLinkCallRow_def readLinkCallRow_def wf_cacheLinkCall_def
        cache_row_simps Let_def)
qed

definition wf_cacheLinkNameRef :: "LinkNameRef \<Rightarrow> bool" where
  "wf_cacheLinkNameRef x \<longleftrightarrow>
     cacheInt (lr_Kind x) \<and> cacheInt (lr_Token x) \<and> cacheInt (lr_Index x) \<and> cacheInt (lr_Package x)"

interpretation cache_LinkNameRef: cursor_codec cacheLinkNameRefRow readLinkNameRefRow wf_cacheLinkNameRef
proof
  show "cacheLinkNameRefRow out x = out @ enc cacheLinkNameRefRow x" for out x
    by (simp add: enc_def[of cacheLinkNameRefRow] cacheLinkNameRefRow_def cache_row_simps Let_def)
  show "run_state readLinkNameRefRow (cursor_at before (enc cacheLinkNameRefRow x @ rest)) =
      (x, cursor_at (before @ enc cacheLinkNameRefRow x) rest)"
    if "wf_cacheLinkNameRef x" for before x rest
    using that
    by (cases x) (simp add: enc_def[of cacheLinkNameRefRow] cacheLinkNameRefRow_def readLinkNameRefRow_def wf_cacheLinkNameRef_def
        cache_row_simps Let_def)
qed

definition wf_cacheLinkSelector :: "LinkSelector \<Rightarrow> bool" where
  "wf_cacheLinkSelector x \<longleftrightarrow>
     cacheInt (lsel_BaseTok x) \<and> cacheInt (lsel_DotTok x) \<and> cacheInt (lsel_NameTok x) \<and> cacheInt (lsel_BaseKind x) \<and> cacheInt (lsel_BaseIndex x) \<and> cacheInt (lsel_BasePackage x) \<and> cacheInt (lsel_Package x) \<and> cacheInt (lsel_Symbol x)"

interpretation cache_LinkSelector: cursor_codec cacheLinkSelectorRow readLinkSelectorRow wf_cacheLinkSelector
proof
  show "cacheLinkSelectorRow out x = out @ enc cacheLinkSelectorRow x" for out x
    by (simp add: enc_def[of cacheLinkSelectorRow] cacheLinkSelectorRow_def cache_row_simps Let_def)
  show "run_state readLinkSelectorRow (cursor_at before (enc cacheLinkSelectorRow x @ rest)) =
      (x, cursor_at (before @ enc cacheLinkSelectorRow x) rest)"
    if "wf_cacheLinkSelector x" for before x rest
    using that
    by (cases x) (simp add: enc_def[of cacheLinkSelectorRow] cacheLinkSelectorRow_def readLinkSelectorRow_def wf_cacheLinkSelector_def
        cache_row_simps Let_def)
qed

definition wf_cacheConcurrencySite :: "ConcurrencySite \<Rightarrow> bool" where
  "wf_cacheConcurrencySite x \<longleftrightarrow>
     cacheInt (cs_Kind x) \<and> cacheInt (cs_Token x) \<and> cacheInt (cs_Direction x) \<and> cacheInt (cs_ReceiveArity x) \<and> cacheString (cs_ElementType x)"

interpretation cache_ConcurrencySite: cursor_codec cacheConcurrencySiteRow readConcurrencySiteRow wf_cacheConcurrencySite
proof
  show "cacheConcurrencySiteRow out x = out @ enc cacheConcurrencySiteRow x" for out x
    by (simp add: enc_def[of cacheConcurrencySiteRow] cacheConcurrencySiteRow_def cache_row_simps Let_def)
  show "run_state readConcurrencySiteRow (cursor_at before (enc cacheConcurrencySiteRow x @ rest)) =
      (x, cursor_at (before @ enc cacheConcurrencySiteRow x) rest)"
    if "wf_cacheConcurrencySite x" for before x rest
    using that
    by (cases x) (simp add: enc_def[of cacheConcurrencySiteRow] cacheConcurrencySiteRow_def readConcurrencySiteRow_def wf_cacheConcurrencySite_def
        cache_row_simps Let_def)
qed

subsection \<open>Whole programs\<close>

definition cacheTableBytes :: "(bytes \<Rightarrow> 'a \<Rightarrow> bytes) \<Rightarrow> 'a list \<Rightarrow> bytes" where
  "cacheTableBytes app xs = enc appendFrontendCacheInt (int (length xs)) @ concat (map (enc app) xs)"

lemma countValue_enc:
  assumes "length xs \<le> 2 ^ 24"
  shows "run_state countValue (cursor_at before (enc appendFrontendCacheInt (int (length xs)) @ rest)) =
    (int (length xs), cursor_at (before @ enc appendFrontendCacheInt (int (length xs))) rest)"
proof -
  have "cacheInt (int (length xs))" using assms by (simp add: cacheInt_def)
  then show ?thesis using assms by (simp add: countValue_def cache_int.rd_enc)
qed

lemma cacheTable_enc:
  assumes "cursor_codec app rd ok" "list_all ok xs" "length xs \<le> 2 ^ 24"
  shows "run_state (cacheTable rd) (cursor_at before (cacheTableBytes app xs @ rest)) =
    (xs, cursor_at (before @ cacheTableBytes app xs) rest)"
  using countValue_enc[OF assms(3)] cursor_codec.rd_times[OF assms(1,2)]
  by (simp add: cacheTable_def cacheTableBytes_def)

lemma cacheTable_out:
  assumes "cursor_codec app rd ok"
  shows "foldl app (appendFrontendCacheInt out (int (length xs))) xs = out @ cacheTableBytes app xs"
  by (simp add: cursor_codec.fold_out[OF assms] cache_int.app_out[of out] cacheTableBytes_def)

text \<open>The programs the cache keeps whole: integers from -1 on and tables of at most \<open>2 ^ 24\<close> rows.\<close>

definition wf_LinkProgram :: "LinkProgram \<Rightarrow> bool" where
  "wf_LinkProgram p \<longleftrightarrow>
     cacheString (lp_Package p) \<and> cacheString (lp_ImportPath p) \<and> cacheString (lp_Text p) \<and>
     list_all wf_cacheToken (lp_Tokens p) \<and> length (lp_Tokens p) \<le> 2 ^ 24 \<and>
     list_all wf_cacheLinkImport (lp_Imports p) \<and> length (lp_Imports p) \<le> 2 ^ 24 \<and>
     list_all wf_cacheLinkSymbol (lp_Symbols p) \<and> length (lp_Symbols p) \<le> 2 ^ 24 \<and>
     list_all wf_cacheDecl (lp_Decls p) \<and> length (lp_Decls p) \<le> 2 ^ 24 \<and>
     list_all wf_cacheFunc (lp_Funcs p) \<and> length (lp_Funcs p) \<le> 2 ^ 24 \<and>
     list_all wf_cacheLinkTypeRef (lp_TypeRefs p) \<and> length (lp_TypeRefs p) \<le> 2 ^ 24 \<and>
     list_all wf_cacheLinkCall (lp_Calls p) \<and> length (lp_Calls p) \<le> 2 ^ 24 \<and>
     list_all wf_cacheLinkNameRef (lp_Refs p) \<and> length (lp_Refs p) \<le> 2 ^ 24 \<and>
     list_all wf_cacheLinkSelector (lp_Selectors p) \<and> length (lp_Selectors p) \<le> 2 ^ 24 \<and>
     list_all wf_cacheConcurrencySite (lp_ConcurrencySites p) \<and> length (lp_ConcurrencySites p) \<le> 2 ^ 24"

text \<open>What the cache drops.\<close>

definition cachedView :: "LinkProgram \<Rightarrow> LinkProgram" where
  "cachedView p =
     p\<lparr>lp_Packages := [], lp_RTGAssembly := [], lp_RTGAssemblyFuncs := [], lp_Entrypoint := 0,
       lp_ForeignPrograms := [], lp_LexicalFuncs := None\<rparr>"

definition cacheBody :: "LinkProgram \<Rightarrow> bytes" where
  "cacheBody p =
     enc appendBytes (lp_Package p) @ enc appendBytes (lp_ImportPath p) @ enc appendBytes (lp_Text p) @
     cacheTableBytes cacheTokenRow (lp_Tokens p) @
     cacheTableBytes cacheLinkImportRow (lp_Imports p) @
     cacheTableBytes cacheLinkSymbolRow (lp_Symbols p) @
     cacheTableBytes cacheDeclRow (lp_Decls p) @
     cacheTableBytes cacheFuncRow (lp_Funcs p) @
     cacheTableBytes cacheLinkTypeRefRow (lp_TypeRefs p) @
     cacheTableBytes cacheLinkCallRow (lp_Calls p) @
     cacheTableBytes cacheLinkNameRefRow (lp_Refs p) @
     cacheTableBytes cacheLinkSelectorRow (lp_Selectors p) @
     cacheTableBytes cacheConcurrencySiteRow (lp_ConcurrencySites p)"

lemmas cacheTable_outs =
  cacheTable_out[OF cache_token.cursor_codec_axioms]
  cacheTable_out[OF cache_LinkImport.cursor_codec_axioms]
  cacheTable_out[OF cache_LinkSymbol.cursor_codec_axioms]
  cacheTable_out[OF cache_Decl.cursor_codec_axioms]
  cacheTable_out[OF cache_Func.cursor_codec_axioms]
  cacheTable_out[OF cache_LinkTypeRef.cursor_codec_axioms]
  cacheTable_out[OF cache_LinkCall.cursor_codec_axioms]
  cacheTable_out[OF cache_LinkNameRef.cursor_codec_axioms]
  cacheTable_out[OF cache_LinkSelector.cursor_codec_axioms]
  cacheTable_out[OF cache_ConcurrencySite.cursor_codec_axioms]

lemmas cacheTable_encs =
  cacheTable_enc[OF cache_token.cursor_codec_axioms]
  cacheTable_enc[OF cache_LinkImport.cursor_codec_axioms]
  cacheTable_enc[OF cache_LinkSymbol.cursor_codec_axioms]
  cacheTable_enc[OF cache_Decl.cursor_codec_axioms]
  cacheTable_enc[OF cache_Func.cursor_codec_axioms]
  cacheTable_enc[OF cache_LinkTypeRef.cursor_codec_axioms]
  cacheTable_enc[OF cache_LinkCall.cursor_codec_axioms]
  cacheTable_enc[OF cache_LinkNameRef.cursor_codec_axioms]
  cacheTable_enc[OF cache_LinkSelector.cursor_codec_axioms]
  cacheTable_enc[OF cache_ConcurrencySite.cursor_codec_axioms]

lemma MarshalFrontendCache_body: "MarshalFrontendCache p = (frontendCacheMagic @ cacheBody p, True)"
  unfolding MarshalFrontendCache_def Let_def cacheTable_outs
  by (simp add: cacheBody_def appendFrontendCacheString_bytes cache_string.app_out)

lemma readCacheProgram_body:
  assumes "wf_LinkProgram p"
  shows "run_state readCacheProgram (cursor_at before (cacheBody p)) =
    (cachedView p, cursor_at (before @ cacheBody p) [])"
proof -
  have last: "cacheTableBytes cacheConcurrencySiteRow xs = cacheTableBytes cacheConcurrencySiteRow xs @ []" for xs
    by simp
  note w = assms[unfolded wf_LinkProgram_def]
  have "run_state readCacheProgram (cursor_at before (cacheBody p @ [])) =
      (cachedView p, cursor_at (before @ cacheBody p) [])"
    using w unfolding readCacheProgram_def cacheBody_def append_assoc
    by (cases p) (simp add: cache_string.rd_enc cacheTable_encs cachedView_def emptyLinkProgram_def del: append_Nil2)
  then show ?thesis by simp
qed

lemma frontend_cache_roundtrip:
  assumes "wf_LinkProgram p"
  shows "UnmarshalFrontendCache (fst (MarshalFrontendCache p)) = (cachedView p, True)"
proof -
  have c: "\<lparr>cur_data = frontendCacheMagic @ cacheBody p, cur_pos = length frontendCacheMagic, cur_ok = True\<rparr> =
      cursor_at frontendCacheMagic (cacheBody p)"
    by (simp add: cursor_at_def)
  have e: "cur_ok (cursor_at x [])" "cur_pos (cursor_at x []) = length (cur_data (cursor_at x []))" for x
    by (simp_all add: cursor_at_def)
  show ?thesis
    using readCacheProgram_body[OF assms] e
    by (simp add: UnmarshalFrontendCache_def MarshalFrontendCache_body c)
qed

end
