(* ===== verification/Front_Properties.thy ===== *)
theory Front_Properties
  imports Back_Reader Front_Assembly Front_Cache
begin

text \<open>The properties of the frontend's side of the unit format, with small programs as concrete inputs.\<close>

subsection \<open>Concrete inputs\<close>

text \<open>The program of the golden vector \<open>testdata/v1-core.hex\<close>: \<open>package p\<close>, three tokens.\<close>

definition goldenText :: bytes where
  "goldenText = [0x70, 0x61, 0x63, 0x6b, 0x61, 0x67, 0x65, 0x20, 0x70, 0x0a]"

definition goldenCore :: CoreProgram where
  "goldenCore =
     \<lparr>core_Package = [0x70], core_ImportPath = [0x65, 0x78, 0x61, 0x6d, 0x70, 0x6c, 0x65, 0x2f, 0x70],
      core_Text = goldenText, core_Tokens = [MakeToken 6 0 7 1, MakeToken 1 8 1 1, MakeToken 0 10 0 2],
      core_Decls = [], core_Funcs = [], core_Packages = [], core_RTGAssembly = [], core_RTGAssemblyFuncs = [],
      core_Entrypoint = 0, core_ForeignPrograms = []\<rparr>"

definition goldenUnit :: bytes where
  "goldenUnit = unitBytes (coreChildren goldenCore)"

lemma golden_wf: "wf_CoreProgram goldenCore"
  by code_simp

lemma golden_validates: "validateCoreUnitRanges (backendView goldenCore) = None"
  by code_simp

text \<open>The model writes the golden vector byte for byte.\<close>

lemma golden_vector:
  "MarshalCore goldenCore = Some
     [0x52, 0x4e, 0x56, 0x4f, 0x01, 0x00, 0x00, 0x00, 0x01, 0x00, 0x47, 0x00, 0x00, 0x00, 0x02, 0x00,
      0x01, 0x00, 0x00, 0x00, 0x70, 0x03, 0x00, 0x09, 0x00, 0x00, 0x00, 0x65, 0x78, 0x61, 0x6d, 0x70,
      0x6c, 0x65, 0x2f, 0x70, 0x07, 0x00, 0x0a, 0x00, 0x00, 0x00, 0x70, 0x61, 0x63, 0x6b, 0x61, 0x67,
      0x65, 0x20, 0x70, 0x0a, 0x08, 0x00, 0x0d, 0x00, 0x00, 0x00, 0x03, 0x06, 0x00, 0x07, 0x01, 0x01,
      0x08, 0x01, 0x00, 0x00, 0x02, 0x00, 0x01, 0x09, 0x00, 0x01, 0x00, 0x00, 0x00, 0x00, 0x0a, 0x00,
      0x01, 0x00, 0x00, 0x00, 0x00]"
  by code_simp

definition vmBinding :: TargetBinding where
  "vmBinding = \<lparr>tb_Target = [0x76, 0x6d], tb_Definition = replicate 32 7, tb_DescriptorVersion = 3\<rparr>"

lemma child_ok_total:
  assumes "list_all (\<lambda>c. 0 \<le> fst c \<and> fst c < 65536) cs" "u32 (int (length (childrenBytes cs)))"
  shows "list_all child_ok cs"
  using assms by (induction cs) (auto simp: child_ok_def u32_def)

lemma golden_ok: "list_all child_ok (coreChildren goldenCore)" "u32 (int (length (childrenBytes (coreChildren goldenCore))))"
  using golden_wf by (simp_all add: wf_CoreProgram_def Let_def)

subsection \<open>From \<open>internal/unit\<close> to \<open>backend/unit\<close>\<close>

text \<open>C7. What the package \<open>backend/unit\<close> reads from a unit of the frontend: for every program whose fields
  the wire format carries, \<open>MarshalCore\<close> of \<open>internal/unit\<close> produces bytes, and \<open>Unmarshal\<close> of
  \<open>backend/unit\<close> accepts them exactly when the program passes its range checks, with the program's own
  fields (tokens packed into records, lines above 65535 in the column, the optional children skipped)
  as the result.\<close>

theorem Unmarshal_MarshalCore:
  assumes "wf_CoreProgram p"
  shows "\<exists>bs. MarshalCore p = Some bs \<and>
    (\<forall>q. Unmarshal bs = Inr q \<longleftrightarrow> q = backendView p \<and> validateCoreUnitRanges (backendView p) = None)"
  using MarshalCore_unit[of p] Unmarshal_core[OF assms] by blast

theorem Unmarshal_MarshalCore_witness:
  "\<exists>bs. MarshalCore goldenCore = Some bs \<and> Unmarshal bs = Inr (backendView goldenCore)"
  using Unmarshal_MarshalCore[OF golden_wf] golden_validates by blast

text \<open>C8. The transient encoder writes the same unit as the plain one, whatever the storage of a released
  range of the text or of the tokens holds afterwards: it never reads a range again.\<close>

theorem MarshalCoreTransient_same:
  assumes "releases_only discardText" "releases_only discardTokens"
  shows "MarshalCoreTransient discardText discardTokens p = MarshalCore p"
  by (simp add: MarshalCoreTransient_def MarshalCore_unit marshalCoreInto_unit[OF assms])

text \<open>A release that overwrites the range.\<close>

definition wipe :: "'a \<Rightarrow> 'a discard" where
  "wipe x a b xs = take a xs @ replicate (b - a) x @ drop b xs"

lemma releases_only_wipe: "releases_only (wipe x)"
  by (auto simp: releases_only_def wipe_def)

theorem MarshalCoreTransient_same_witness:
  "MarshalCoreTransient (wipe 0xff) (wipe (MakeToken 0 0 0 0)) goldenCore = MarshalCore goldenCore"
  by (rule MarshalCoreTransient_same[OF releases_only_wipe releases_only_wipe])

subsection \<open>Target bindings\<close>

lemma bound_ok:
  assumes "list_all child_ok cs" "u32 (int (length (childrenBytes (unbound cs @ bindingChildren b))))"
  shows "list_all child_ok (unbound cs @ bindingChildren b)"
  using assms(1)
  by (intro child_ok_total[OF _ assms(2)])
    (auto simp: list_all_iff unbound_def bindingChildren_def child_ok_def)

text \<open>C9. What \<open>BindTarget\<close> does: when it succeeds, \<open>ReadTargetBinding\<close> of the new unit answers the
  binding, its version reduced modulo \<open>2 ^ 16\<close>, and answers \<open>ok\<close> exactly when that is positive (so
  a version that is a multiple of 65536 is accepted and leaves a unit whose binding cannot be read);
  \<open>Unmarshal\<close> of \<open>backend/unit\<close>, which skips bindings, reads the new unit exactly as the old one, errors
  included; and the check every compilation of the back ends starts with,
  \<open>renvoUnitBindingMatchesTarget\<close>, passes for a registered target only if the target's definition hash
  is that of the binding and its version that of the binding modulo \<open>2 ^ 16\<close>, and among the targets
  whose name is as long as the bound one it passes exactly for the bound name with that hash and version.\<close>

theorem BindTarget_binds:
  assumes "BindTarget data b = Some (out, True)" "length out < 2 ^ 32"
  shows "ReadTargetBinding out =
      (b\<lparr>tb_DescriptorVersion := tb_DescriptorVersion b mod 65536\<rparr>, tb_DescriptorVersion b mod 65536 > 0) \<and>
    Unmarshal out = Unmarshal data \<and>
    (\<forall>target definition version. renvoUnitBindingMatchesTarget (target, definition, version, True) out \<longrightarrow>
       definition = tb_Definition b \<and> version = tb_DescriptorVersion b mod 65536) \<and>
    (\<forall>target definition version. length target = length (tb_Target b) \<longrightarrow>
       (renvoUnitBindingMatchesTarget (target, definition, version, True) out \<longleftrightarrow>
          target = tb_Target b \<and> definition = tb_Definition b \<and> version = tb_DescriptorVersion b mod 65536))"
proof -
  from assms(1) obtain cs where b: "\<not> bindingRefused b" and cs: "data = unitBytes cs" "list_all child_ok cs"
    "u32 (int (length (childrenBytes cs)))" and out: "out = unitBytes (unbound cs @ bindingChildren b)"
    unfolding BindTarget_iff by blast
  have u: "u32 (int (length (childrenBytes (unbound cs @ bindingChildren b))))"
    using assms(2) unfolding out length_unitBytes by (simp add: u32_def)
  note ok = bound_ok[OF cs(2) u]
  have "Unmarshal out = Unmarshal data"
    unfolding out cs(1) by (rule Unmarshal_unbound[OF ok u cs(2,3)]) simp
  moreover note matches_bound[OF b ok u]
  ultimately show ?thesis using ReadTargetBinding_bound[OF b ok u] unfolding out by blast
qed

lemma coreChildren_unbound: "unbound (coreChildren p) = coreChildren p" "\<not> list_ex (\<lambda>c. bindingTag (fst c)) (coreChildren p)"
  by (simp_all add: coreChildren_def bindingTag_def)

lemma vm_ok: "\<not> bindingRefused vmBinding" "length (tb_Target vmBinding) = 2"
  by (simp_all add: bindingRefused_def vmBinding_def)

lemma golden_bind: "BindTarget goldenUnit vmBinding = Some (unitBytes (coreChildren goldenCore @ bindingChildren vmBinding), True)"
  unfolding BindTarget_iff goldenUnit_def using golden_ok coreChildren_unbound[of goldenCore] vm_ok
  by (intro conjI exI[of _ "coreChildren goldenCore"]) auto

lemma golden_length: "length (childrenBytes (coreChildren goldenCore)) = 71"
  by code_simp

theorem BindTarget_binds_witness:
  "\<exists>out. BindTarget goldenUnit vmBinding = Some (out, True) \<and> ReadTargetBinding out = (vmBinding, True) \<and>
     Unmarshal out = Unmarshal goldenUnit \<and>
     renvoUnitBindingMatchesTarget ([0x76, 0x6d], replicate 32 7, 3, True) out \<and>
     \<not> renvoUnitBindingMatchesTarget ([0x76, 0x6e], replicate 32 7, 3, True) out"
proof -
  have l: "length (unitBytes (coreChildren goldenCore @ bindingChildren vmBinding)) < 2 ^ 32"
    by (simp add: length_unitBytes golden_length bindingChildren_def versionBytes_def vmBinding_def)
  from BindTarget_binds[OF golden_bind l] show ?thesis
    using golden_bind by (intro exI[of _ "unitBytes (coreChildren goldenCore @ bindingChildren vmBinding)"]) (simp add: vmBinding_def)
qed

lemma coreChildren_tags: "list_all (\<lambda>c. 0 \<le> fst c \<and> fst c < 65536) (coreChildren p)"
  by (simp add: coreChildren_def)

text \<open>A freshly marshaled unit has room for its binding: when the program has no assembly and no foreign
  programs, the capacity \<open>marshalCoreInto\<close> reserved leaves at least the space of a binding whose
  target name has up to 28 bytes, and \<open>BindUnboundTarget\<close>, which writes into that space whatever it
  holds, produces the unit that \<open>BindTarget\<close> produces.\<close>

theorem fresh_unit_binding:
  assumes "MarshalCore p = Some bs" "length bs < 2 ^ 32"
    and "core_RTGAssembly p = []" "core_RTGAssemblyFuncs p = []" "core_ForeignPrograms p = []"
    and "core_Entrypoint p < 2 ^ 63" "int (length tail) = marshalCapacity p - int (length bs)"
    and "\<not> bindingRefused b" "length (tb_Target b) \<le> 28"
  shows "targetBindingFixedSize + length (tb_Target b) \<le> length tail \<and>
    (\<exists>out. BindUnboundTarget bs tail b = Some (out, True) \<and> BindTarget bs b = Some (out, True))"
proof -
  have bs: "bs = unitBytes (coreChildren p)" using assms(1) by (simp add: MarshalCore_unit)
  have u: "u32 (int (length (childrenBytes (coreChildren p))))"
    using assms(2) unfolding bs length_unitBytes by (simp add: u32_def)
  note ok = child_ok_total[OF coreChildren_tags u]
  have "BindTarget bs b = Some (unitBytes (coreChildren p @ bindingChildren b), True)"
    unfolding BindTarget_iff bs using assms(8) ok u coreChildren_unbound[of p]
    by (intro conjI exI[of _ "coreChildren p"]) auto
  moreover have "int (length bs) + 80 \<le> marshalCapacity p"
    using marshal_reserve[OF assms(3-6)] by (simp add: bs)
  ultimately show ?thesis
    using BindUnboundTarget_unit[OF u assms(8), of tail] assms(7,9) by (auto simp: bs)
qed

theorem fresh_unit_binding_witness:
  "\<exists>out. BindUnboundTarget goldenUnit (replicate (nat (marshalCapacity goldenCore - int (length goldenUnit))) 0xaa) vmBinding =
     Some (out, True) \<and> BindTarget goldenUnit vmBinding = Some (out, True)"
proof -
  have m: "MarshalCore goldenCore = Some goldenUnit" by (simp add: MarshalCore_unit goldenUnit_def)
  have "85 \<le> marshalCapacity goldenCore" by code_simp
  then have c: "length goldenUnit < 2 ^ 32" "int (length goldenUnit) \<le> marshalCapacity goldenCore"
    by (simp_all add: goldenUnit_def length_unitBytes golden_length)
  then show ?thesis
    using fresh_unit_binding[OF m c(1) _ _ _ _ _ vm_ok(1)] vm_ok(2) by (simp add: goldenCore_def)
qed

subsection \<open>Optional children\<close>

lemma tags_total:
  assumes "list_all child_ok cs" "0 \<le> tag" "tag < 65536" "u32 (int (length (childrenBytes (cs @ [(tag, pl)]))))"
  shows "list_all child_ok (cs @ [(tag, pl)])"
  using assms by (intro child_ok_total) (auto simp: list_all_iff child_ok_def)

lemma replace_total:
  assumes "list_all child_ok (as @ (tag, x) # bs)" "u32 (int (length (childrenBytes (as @ (tag, y) # bs))))"
  shows "list_all child_ok (as @ (tag, y) # bs)"
  using assms(1) by (intro child_ok_total[OF _ assms(2)]) (auto simp: list_all_iff child_ok_def)

text \<open>C10. Foreign programs survive orchestration: for a unit without a foreign-program table, binding the
  unresolved programs adds the table of these programs as the last child and changes nothing else, and
  reading them back returns them (less the name, and with the target taken from each program's own
  unit); resolving replaces that table only, and reading again returns the artifacts; \<open>Unmarshal\<close> of
  \<open>backend/unit\<close>, which skips the table, accepts the resolved unit exactly as the original; and the
  back ends' own reader of the table, \<open>renvoDecodeForeignPrograms\<close>, refuses a table with a program
  that has no artifact and otherwise reads every artifact, the last program first.\<close>

theorem foreign_programs_roundtrip:
  assumes "list_all child_ok cs" "u32 (int (length (childrenBytes cs)))" "TagForeignPrograms \<notin> fst ` set cs"
    and "ps \<noteq> []" "list_all wf_Foreign ps" "u32 (int (length ps))"
    and "rs \<noteq> []" "list_all wf_Foreign rs" "u32 (int (length rs))"
    and "u32 (int (length (childrenBytes (cs @ [(TagForeignPrograms, encodeForeignProgramsCore ps)]))))"
    and "u32 (int (length (childrenBytes (cs @ [(TagForeignPrograms, encodeForeignProgramsCore rs)]))))"
  defines "bound \<equiv> unitBytes (cs @ [(TagForeignPrograms, encodeForeignProgramsCore ps)])"
    and "resolved \<equiv> unitBytes (cs @ [(TagForeignPrograms, encodeForeignProgramsCore rs)])"
  shows "BindForeignPrograms (unitBytes cs) ps = Some (bound, True) \<and>
    ReadForeignPrograms bound = Some (map foreignView ps, True) \<and>
    ResolveForeignPrograms bound rs = Some (resolved, True) \<and>
    ReadForeignPrograms resolved = Some (map foreignView rs, True) \<and>
    (\<forall>p. Unmarshal resolved = Inr p \<longleftrightarrow> Unmarshal (unitBytes cs) = Inr p) \<and>
    (\<forall>xs\<in>{ps, rs}. renvoDecodeForeignPrograms (encodeForeignProgramsCore xs) =
       (if \<forall>p\<in>set xs. fp_Artifact p \<noteq> [] then Some (rev (map backForeign xs)) else None))"
proof -
  let ?c = "\<lambda>ps. cs @ [(TagForeignPrograms, encodeForeignProgramsCore ps)]"
  have ok: "list_all child_ok (?c ps)" "list_all child_ok (?c rs)"
    using tags_total[OF assms(1) _ _ assms(10)] tags_total[OF assms(1) _ _ assms(11)] by simp_all
  have r: "ReadForeignPrograms (unitBytes (?c rs)) = Some (map foreignView rs, True)"
    by (rule foreign_roundtrip(2)[OF assms(1-3,7-9,11)])
  have "Unmarshal (unitBytes (?c rs)) = Inr p \<longleftrightarrow> Unmarshal (unitBytes cs) = Inr p" for p
    using assms(3)
    by (intro Unmarshal_ignores[OF ok(2) assms(11,1,2)] children_ok_snoc) (simp_all add: decodedTag_def)
  moreover have "renvoDecodeForeignPrograms (encodeForeignProgramsCore xs) =
      (if \<forall>p\<in>set xs. fp_Artifact p \<noteq> [] then Some (rev (map backForeign xs)) else None)" if "xs \<in> {ps, rs}" for xs
    using renvoDecodeForeignPrograms_enc[of xs] assms(5,6,8,9) that unfolding list_all_iff by blast
  ultimately show ?thesis
    using foreign_roundtrip[OF assms(1-6,10)] ResolveForeignPrograms_unit[OF ok(1) assms(10,3,7)] r
    unfolding bound_def resolved_def by blast
qed

definition foreignUnit :: ForeignProgram where
  "foreignUnit = \<lparr>fp_Name = [0x6b], fp_Global = 4, fp_Kind = 2, fp_Target = [], fp_InPlace = True,
     fp_Unit = unitBytes (bindingChildren vmBinding), fp_Artifact = [], fp_EntryOffset = 0\<rparr>"

definition foreignArtifact :: ForeignProgram where
  "foreignArtifact = foreignUnit\<lparr>fp_Artifact := [0xc0, 0xde, 0x90], fp_EntryOffset := 2\<rparr>"

lemma foreign_wf: "wf_Foreign foreignUnit" "wf_Foreign foreignArtifact"
  by code_simp+

theorem foreign_programs_roundtrip_witness:
  "\<exists>bound resolved. BindForeignPrograms goldenUnit [foreignUnit] = Some (bound, True) \<and>
     ResolveForeignPrograms bound [foreignArtifact] = Some (resolved, True) \<and>
     ReadForeignPrograms resolved = Some ([foreignView foreignArtifact], True) \<and>
     renvoDecodeForeignPrograms (encodeForeignProgramsCore [foreignUnit]) = None \<and>
     renvoDecodeForeignPrograms (encodeForeignProgramsCore [foreignArtifact]) = Some [backForeign foreignArtifact]"
proof -
  let ?c = "\<lambda>p. coreChildren goldenCore @ [(TagForeignPrograms, encodeForeignProgramsCore [p])]"
  have "TagForeignPrograms \<notin> fst ` set (coreChildren goldenCore)" by (simp add: coreChildren_def goldenCore_def)
  moreover have "u32 (int (length (childrenBytes (?c foreignUnit))))" "u32 (int (length (childrenBytes (?c foreignArtifact))))"
    by code_simp+
  moreover have "u32 1" by (simp add: u32_def)
  ultimately show ?thesis
    using foreign_programs_roundtrip[OF golden_ok, of "[foreignUnit]" "[foreignArtifact]"] foreign_wf
    by (fastforce simp: goldenUnit_def foreignUnit_def foreignArtifact_def)
qed

text \<open>C11. A foreign-program table without a readable count panics the reader instead of being refused: for
  every unit whose first such table is empty, \<open>ReadForeignPrograms\<close> asks for a slice of capacity -1.\<close>

theorem ReadForeignPrograms_panics:
  assumes "list_all child_ok (as @ (TagForeignPrograms, []) # bs)"
    and "u32 (int (length (childrenBytes (as @ (TagForeignPrograms, []) # bs))))"
    and "TagForeignPrograms \<notin> fst ` set as"
  shows "validUnitRoot (unitBytes (as @ (TagForeignPrograms, []) # bs)) \<and>
    ReadForeignPrograms (unitBytes (as @ (TagForeignPrograms, []) # bs)) = None"
  using ReadForeignPrograms_empty_table[OF assms] assms(2) by (simp only: validUnitRoot_unitBytes)

theorem ReadForeignPrograms_panics_witness:
  "ReadForeignPrograms (unitBytes [(TagPackage, [0x70]), (TagForeignPrograms, [])]) = None"
  using ReadForeignPrograms_panics[of "[(TagPackage, [0x70])]" "[]"] by (simp add: child_ok_def u32_def)

text \<open>C12. Attaching assembled code: on a unit with a well-formed assembly table, and bindings that keep the
  function, source and entry of the recorded ones with code of admissible size,
  \<open>AttachRTGAssemblyFragments\<close> answers the unit with the same children in the same order, byte for byte,
  where only the payload of the assembly child is the table of the bindings with their code; reading
  it back gives the same sources and these bindings, and \<open>Unmarshal\<close> of \<open>backend/unit\<close>, which skips the
  assembly, accepts the new unit exactly as the old one.\<close>

theorem AttachRTGAssembly_roundtrip:
  assumes "list_all child_ok (as @ (TagRTGAssembly, encodeRTGAssemblyCore sources original) # bs)"
    and "u32 (int (length (childrenBytes (as @ (TagRTGAssembly, encodeRTGAssemblyCore sources original) # bs))))"
    and "TagRTGAssembly \<notin> fst ` set as" "TagRTGAssembly \<notin> fst ` set bs" "wf_Asm sources original"
    and "length bindings = length original" "length code = length original"
    and "\<forall>i < length bindings. \<not> attachRefused (bindings ! i) (original ! i) (code ! i)"
    and "u32 (int (length (childrenBytes (as @ (TagRTGAssembly, encodeRTGAssemblyCore sources (withCode bindings code)) # bs))))"
  defines "data \<equiv> unitBytes (as @ (TagRTGAssembly, encodeRTGAssemblyCore sources original) # bs)"
    and "out \<equiv> unitBytes (as @ (TagRTGAssembly, encodeRTGAssemblyCore sources (withCode bindings code)) # bs)"
  shows "AttachRTGAssemblyFragments data bindings code = Some (out, True) \<and>
    ReadRTGAssemblyFragments out = (sources, withCode bindings code, True) \<and>
    (\<forall>p. Unmarshal out = Inr p \<longleftrightarrow> Unmarshal data = Inr p)"
proof -
  let ?new = "as @ (TagRTGAssembly, encodeRTGAssemblyCore sources (withCode bindings code)) # bs"
  note ok = replace_total[OF assms(1,9)]
  have a: "AttachRTGAssemblyFragments data bindings code = Some (unitBytes ?new, True)"
    using AttachRTGAssemblyFragments_unit[OF assms(1-4) refl assms(5), of bindings code] assms(6-8)
    by (simp add: data_def)
  have r: "ReadRTGAssemblyFragments (unitBytes ?new) = (sources, withCode bindings code, True)"
    by (rule ReadRTGAssemblyFragments_unit[OF ok assms(9,3,4) refl wf_Asm_withCode[OF assms(5-8)]])
  have "Unmarshal (unitBytes ?new) = Inr p \<longleftrightarrow> Unmarshal data = Inr p" for p
    unfolding data_def
    by (rule Unmarshal_ignores[OF ok assms(9,1,2)]) (simp_all add: decodedTag_def children_ok_def)
  then show ?thesis using a r unfolding out_def by blast
qed

definition asmSources :: "RTGAssemblySource list" where
  "asmSources = [\<lparr>asm_Path = [0x61, 0x2e, 0x73], asm_Source = [0x6e, 0x6f, 0x70]\<rparr>]"

definition asmBindings :: "RTGAssemblyBinding list" where
  "asmBindings = [\<lparr>ab_Func = 2, ab_Source = 0, ab_Entry = 0, ab_Mode = 1, ab_Inputs = 1, ab_Outputs = 1, ab_Code = []\<rparr>]"

theorem AttachRTGAssembly_roundtrip_witness:
  "\<exists>out. AttachRTGAssemblyFragments (unitBytes ([(TagPackage, [0x70])] @ (TagRTGAssembly, encodeRTGAssemblyCore asmSources asmBindings) # []))
       asmBindings [[0x90]] = Some (out, True) \<and>
     out = unitBytes ([(TagPackage, [0x70])] @ (TagRTGAssembly, encodeRTGAssemblyCore asmSources (withCode asmBindings [[0x90]])) # []) \<and>
     ReadRTGAssemblyFragments out = (asmSources, withCode asmBindings [[0x90]], True)"
proof -
  let ?cs = "\<lambda>b. [(TagPackage, [0x70])] @ (TagRTGAssembly, encodeRTGAssemblyCore asmSources b) # []"
  have c: "list_all child_ok (?cs asmBindings)" "u32 (int (length (childrenBytes (?cs asmBindings))))"
    "u32 (int (length (childrenBytes (?cs (withCode asmBindings [[0x90]])))))"
    by code_simp+
  have w: "wf_Asm asmSources asmBindings"
    by (simp add: wf_Asm_def asmSources_def asmBindings_def wf_AsmSource_def wf_AsmBinding_def asmBindingRefused_def)
  have r: "\<forall>i < length asmBindings. \<not> attachRefused (asmBindings ! i) (asmBindings ! i) ([[0x90]] ! i)"
    by (simp add: asmBindings_def attachRefused_def)
  have l: "length asmBindings = length asmBindings" "length [[0x90 :: byte]] = length asmBindings"
    "TagRTGAssembly \<notin> fst ` set [(TagPackage, [0x70 :: byte])]" "TagRTGAssembly \<notin> fst ` set ([] :: (int \<times> bytes) list)"
    by (simp_all add: asmBindings_def)
  show ?thesis
    using AttachRTGAssembly_roundtrip[OF c(1,2) l(3,4) w l(1,2) r c(3)] by blast
qed

subsection \<open>The package cache\<close>

text \<open>C13. The cache keeps a package whole for the linker: \<open>UnmarshalFrontendCache\<close> of what
  \<open>MarshalFrontendCache\<close> wrote returns the program with every table in place, except for the package
  list, the assembly, the entry point, the foreign programs and the lexical index, which it resets.\<close>

theorem UnmarshalFrontendCache_Marshal:
  assumes "wf_LinkProgram p"
  shows "snd (MarshalFrontendCache p) \<and>
    UnmarshalFrontendCache (fst (MarshalFrontendCache p)) = (cachedView p, True)"
  using frontend_cache_roundtrip[OF assms] by (simp add: MarshalFrontendCache_body)

definition linkDemo :: LinkProgram where
  "linkDemo = emptyLinkProgram\<lparr>lp_Package := [0x70], lp_Text := goldenText,
     lp_Tokens := [MakeToken 6 0 7 1, MakeToken 1 8 1 1, MakeToken 0 10 0 2],
     lp_Imports := [\<lparr>li_NameTok = -1, li_PathTok = 3\<rparr>],
     lp_Symbols := [\<lparr>ls_Name = [0x78], ls_Package = 0, ls_Token = 1\<rparr>],
     lp_ConcurrencySites := [\<lparr>cs_Kind = 1, cs_Token = 2, cs_Direction = 0, cs_ReceiveArity = 0, cs_ElementType = [0x69]\<rparr>]\<rparr>"

lemma linkDemo_wf: "wf_LinkProgram linkDemo"
  by (simp add: wf_LinkProgram_def linkDemo_def emptyLinkProgram_def cacheString_def goldenText_def wf_cacheToken_def
      wf_cacheLinkImport_def wf_cacheLinkSymbol_def wf_cacheConcurrencySite_def cacheInt_def MakeToken_def)

theorem UnmarshalFrontendCache_Marshal_witness:
  "UnmarshalFrontendCache (fst (MarshalFrontendCache linkDemo)) = (linkDemo, True)"
  using UnmarshalFrontendCache_Marshal[OF linkDemo_wf]
  by (simp add: linkDemo_def cachedView_def emptyLinkProgram_def)

end
