(* ===== verification/Syn_Token.thy ===== *)
theory Syn_Token
  imports Renvo_Prelude
begin

text \<open>
  Tokens of the Go frontend (\<open>internal/syntax/token.go\<close>): the token kinds, the packed word
  \<open>KindLine\<close> with its readers, the line lookup of linked files, and the records of
  \<open>parse.go\<close> and \<open>generics.go\<close> that hold a parsed file.  Offsets into the source are Go's
  \<open>int32\<close>, so that a conversion is written out where the code has one.
\<close>

subsection \<open>Characters\<close>

text \<open>A Go character or string constant of ASCII text.\<close>

definition ascii :: "string \<Rightarrow> gostring" where
  "ascii s = map of_char s"

abbreviation (input) chr_tab :: byte where "chr_tab \<equiv> 9"
abbreviation (input) chr_newline :: byte where "chr_newline \<equiv> 10"
abbreviation (input) chr_return :: byte where "chr_return \<equiv> 13"
abbreviation (input) chr_space :: byte where "chr_space \<equiv> 32"
abbreviation (input) chr_bang :: byte where "chr_bang \<equiv> 33"
abbreviation (input) chr_quote :: byte where "chr_quote \<equiv> 34"
abbreviation (input) chr_percent :: byte where "chr_percent \<equiv> 37"
abbreviation (input) chr_amp :: byte where "chr_amp \<equiv> 38"
abbreviation (input) chr_apostrophe :: byte where "chr_apostrophe \<equiv> 39"
abbreviation (input) chr_lparen :: byte where "chr_lparen \<equiv> 40"
abbreviation (input) chr_rparen :: byte where "chr_rparen \<equiv> 41"
abbreviation (input) chr_star :: byte where "chr_star \<equiv> 42"
abbreviation (input) chr_plus :: byte where "chr_plus \<equiv> 43"
abbreviation (input) chr_comma :: byte where "chr_comma \<equiv> 44"
abbreviation (input) chr_minus :: byte where "chr_minus \<equiv> 45"
abbreviation (input) chr_dot :: byte where "chr_dot \<equiv> 46"
abbreviation (input) chr_slash :: byte where "chr_slash \<equiv> 47"
abbreviation (input) chr_0 :: byte where "chr_0 \<equiv> 48"
abbreviation (input) chr_7 :: byte where "chr_7 \<equiv> 55"
abbreviation (input) chr_9 :: byte where "chr_9 \<equiv> 57"
abbreviation (input) chr_colon :: byte where "chr_colon \<equiv> 58"
abbreviation (input) chr_semicolon :: byte where "chr_semicolon \<equiv> 59"
abbreviation (input) chr_less :: byte where "chr_less \<equiv> 60"
abbreviation (input) chr_equals :: byte where "chr_equals \<equiv> 61"
abbreviation (input) chr_greater :: byte where "chr_greater \<equiv> 62"
abbreviation (input) chr_B :: byte where "chr_B \<equiv> 66"
abbreviation (input) chr_E :: byte where "chr_E \<equiv> 69"
abbreviation (input) chr_O :: byte where "chr_O \<equiv> 79"
abbreviation (input) chr_P :: byte where "chr_P \<equiv> 80"
abbreviation (input) chr_U :: byte where "chr_U \<equiv> 85"
abbreviation (input) chr_X :: byte where "chr_X \<equiv> 88"
abbreviation (input) chr_lbracket :: byte where "chr_lbracket \<equiv> 91"
abbreviation (input) chr_backslash :: byte where "chr_backslash \<equiv> 92"
abbreviation (input) chr_rbracket :: byte where "chr_rbracket \<equiv> 93"
abbreviation (input) chr_caret :: byte where "chr_caret \<equiv> 94"
abbreviation (input) chr_underscore :: byte where "chr_underscore \<equiv> 95"
abbreviation (input) chr_backquote :: byte where "chr_backquote \<equiv> 96"
abbreviation (input) chr_b :: byte where "chr_b \<equiv> 98"
abbreviation (input) chr_c :: byte where "chr_c \<equiv> 99"
abbreviation (input) chr_e :: byte where "chr_e \<equiv> 101"
abbreviation (input) chr_i :: byte where "chr_i \<equiv> 105"
abbreviation (input) chr_o :: byte where "chr_o \<equiv> 111"
abbreviation (input) chr_p :: byte where "chr_p \<equiv> 112"
abbreviation (input) chr_u :: byte where "chr_u \<equiv> 117"
abbreviation (input) chr_x :: byte where "chr_x \<equiv> 120"
abbreviation (input) chr_lbrace :: byte where "chr_lbrace \<equiv> 123"
abbreviation (input) chr_bar :: byte where "chr_bar \<equiv> 124"
abbreviation (input) chr_rbrace :: byte where "chr_rbrace \<equiv> 125"
abbreviation (input) chr_tilde :: byte where "chr_tilde \<equiv> 126"

subsection \<open>Token kinds\<close>

abbreviation (input) TokenEOF :: int where "TokenEOF \<equiv> 0"
abbreviation (input) TokenIdent :: int where "TokenIdent \<equiv> 1"
abbreviation (input) TokenNumber :: int where "TokenNumber \<equiv> 2"
abbreviation (input) TokenString :: int where "TokenString \<equiv> 3"
abbreviation (input) TokenChar :: int where "TokenChar \<equiv> 4"
abbreviation (input) TokenOperator :: int where "TokenOperator \<equiv> 5"
abbreviation (input) TokenPackage :: int where "TokenPackage \<equiv> 6"
abbreviation (input) TokenImport :: int where "TokenImport \<equiv> 7"
abbreviation (input) TokenConst :: int where "TokenConst \<equiv> 8"
abbreviation (input) TokenVar :: int where "TokenVar \<equiv> 9"
abbreviation (input) TokenType :: int where "TokenType \<equiv> 10"
abbreviation (input) TokenFunc :: int where "TokenFunc \<equiv> 11"
abbreviation (input) TokenStruct :: int where "TokenStruct \<equiv> 12"
abbreviation (input) TokenInterface :: int where "TokenInterface \<equiv> 13"
abbreviation (input) TokenMap :: int where "TokenMap \<equiv> 14"
abbreviation (input) TokenReturn :: int where "TokenReturn \<equiv> 15"
abbreviation (input) TokenIf :: int where "TokenIf \<equiv> 16"
abbreviation (input) TokenElse :: int where "TokenElse \<equiv> 17"
abbreviation (input) TokenFor :: int where "TokenFor \<equiv> 18"
abbreviation (input) TokenRange :: int where "TokenRange \<equiv> 19"
abbreviation (input) TokenSwitch :: int where "TokenSwitch \<equiv> 20"
abbreviation (input) TokenCase :: int where "TokenCase \<equiv> 21"
abbreviation (input) TokenDefault :: int where "TokenDefault \<equiv> 22"
abbreviation (input) TokenBreak :: int where "TokenBreak \<equiv> 23"
abbreviation (input) TokenContinue :: int where "TokenContinue \<equiv> 24"
abbreviation (input) TokenGoto :: int where "TokenGoto \<equiv> 25"
abbreviation (input) TokenDefer :: int where "TokenDefer \<equiv> 26"
abbreviation (input) TokenGo :: int where "TokenGo \<equiv> 27"
abbreviation (input) TokenSelect :: int where "TokenSelect \<equiv> 28"
abbreviation (input) TokenChan :: int where "TokenChan \<equiv> 29"
abbreviation (input) TokenFallthrough :: int where "TokenFallthrough \<equiv> 30"

abbreviation (input) TokenOperatorCharShift :: nat where "TokenOperatorCharShift \<equiv> 8"
abbreviation (input) TokenOperatorCharMask :: int where "TokenOperatorCharMask \<equiv> 127"
abbreviation (input) TokenOperatorLineShift :: nat where "TokenOperatorLineShift \<equiv> 15"
abbreviation (input) TokenLineLimit :: int where "TokenLineLimit \<equiv> 65535"

subsection \<open>Tokens\<close>

text \<open>Go's conversion \<open>int32(x)\<close>.\<close>

definition toInt32 :: "int \<Rightarrow> int" where
  "toInt32 x = signed_take_bit 31 x"

lemma toInt32_id: "- (2 ^ 31) \<le> x \<Longrightarrow> x < 2 ^ 31 \<Longrightarrow> toInt32 x = x"
  by (simp add: toInt32_def signed_take_bit_int_eq_self)

record SynToken =
  st_KindLine :: int
  st_Start :: int
  st_End :: int

definition packKind :: "int \<Rightarrow> int \<Rightarrow> int" where
  "packKind kind line = kind OR push_bit TokenOperatorLineShift line"

definition MakeSynToken :: "int \<Rightarrow> int \<Rightarrow> int \<Rightarrow> int \<Rightarrow> SynToken" where
  "MakeSynToken kind start stop line =
     \<lparr>st_KindLine = packKind kind line, st_Start = toInt32 start, st_End = toInt32 stop\<rparr>"

definition kindOf :: "SynToken \<Rightarrow> int" where
  "kindOf tok = st_KindLine tok AND 255"

definition charOf :: "SynToken \<Rightarrow> int" where
  "charOf tok = drop_bit TokenOperatorCharShift (st_KindLine tok) AND TokenOperatorCharMask"

definition TokenLine :: "SynToken \<Rightarrow> int" where
  "TokenLine tok = drop_bit TokenOperatorLineShift (st_KindLine tok) AND TokenLineLimit"

definition TokenSize :: "SynToken \<Rightarrow> int" where
  "TokenSize tok = st_End tok - st_Start tok"

definition TokenEnd :: "SynToken \<Rightarrow> int" where
  "TokenEnd tok = st_End tok"

definition TokenStart :: "SynToken \<Rightarrow> int" where
  "TokenStart tok = st_Start tok"

text \<open>The text of a token; a Go \<open>nil\<close> slice is the empty list.\<close>

definition TokenText :: "bytes \<Rightarrow> SynToken \<Rightarrow> bytes option" where
  "TokenText src tok =
     (let start = st_Start tok; stop = st_End tok
      in if start < 0 \<or> stop < start \<or> stop > int (length src) then Some []
         else slice src start stop)"

text \<open>\<open>for i := i; i < end; i++ { if p(src[i]) { return true } }\<close>\<close>

function anyByte :: "(byte \<Rightarrow> bool) \<Rightarrow> bytes \<Rightarrow> int \<Rightarrow> int \<Rightarrow> bool option" where
  "anyByte p src i stop =
     (if i < stop then do { c \<leftarrow> at src i; if p c then Some True else anyByte p src (i + 1) stop }
      else Some False)"
  by auto
termination by (relation "measure (\<lambda>(p, src, i, stop). nat (stop - i))") auto

declare anyByte.simps [simp del]

definition NumberTokenIsFloat :: "bytes \<Rightarrow> SynToken \<Rightarrow> bool option" where
  "NumberTokenIsFloat src tok =
     (let start = st_Start tok; stop = st_End tok;
          decimal = anyByte (\<lambda>c. c = chr_dot \<or> c = chr_e \<or> c = chr_E \<or> c = chr_p \<or> c = chr_P) src start stop
      in if kindOf tok \<noteq> TokenNumber \<or> start < 0 \<or> stop < start \<or> stop > int (length src) then Some False
         else if stop - start > 2 \<and> at src start = Some chr_0 then
           do {
             prefix \<leftarrow> at src (start + 1);
             if prefix = chr_x \<or> prefix = chr_X then
               anyByte (\<lambda>c. c = chr_dot \<or> c = chr_p \<or> c = chr_P) src (start + 2) stop
             else if prefix = chr_b \<or> prefix = chr_B \<or> prefix = chr_o \<or> prefix = chr_O then Some False
             else decimal
           }
         else decimal)"

subsection \<open>Parsed files\<close>

record SynImportDecl =
  imp_NameTok :: int
  imp_PathTok :: int
  imp_StartTok :: int
  imp_EndTok :: int

record TopDecl =
  td_Kind :: int
  td_NameTok :: int
  td_StartTok :: int
  td_EndTok :: int

record FuncDecl =
  fd_NameTok :: int
  fd_StartTok :: int
  fd_EndTok :: int
  fd_ReceiverStart :: int
  fd_ReceiverEnd :: int
  fd_ParamsStart :: int
  fd_ParamsEnd :: int
  fd_ResultStart :: int
  fd_ResultEnd :: int
  fd_BodyStart :: int
  fd_BodyEnd :: int

record TypeParameter =
  tp_NameTok :: int
  tp_ConstraintStart :: int
  tp_ConstraintEnd :: int

record TypeParamList =
  tl_Kind :: int
  tl_NameTok :: int
  tl_StartTok :: int
  tl_EndTok :: int
  tl_Parameters :: "TypeParameter list"

text \<open>\<open>Generics\<close> is a pointer to the optional list of type parameter lists.\<close>

record SynFile =
  sf_Src :: bytes
  sf_Tokens :: "SynToken list"
  sf_PackageName :: int
  sf_Imports :: "SynImportDecl list"
  sf_Decls :: "TopDecl list"
  sf_Funcs :: "FuncDecl list"
  sf_Generics :: "TypeParamList list option"
  sf_HasInterfaceCandidates :: bool
  sf_Ok :: bool
  sf_Error :: int
  sf_ErrorTok :: int

text \<open>The search of \<open>TokenLineAt\<close> for the number of line starts at or before an offset.\<close>

function lineSearch :: "int list \<Rightarrow> int \<Rightarrow> int \<Rightarrow> int \<Rightarrow> int option" where
  "lineSearch lineStarts offset lo hi =
     (if lo < hi then
        let mid = lo + (hi - lo) div 2
        in do {
          x \<leftarrow> at lineStarts mid;
          if x \<le> offset then lineSearch lineStarts offset (mid + 1) hi
          else lineSearch lineStarts offset lo mid
        }
      else Some lo)"
  by auto
termination by (relation "measure (\<lambda>(xs, offset, lo, hi). nat (hi - lo))") auto

declare lineSearch.simps [simp del]

definition TokenLineAt :: "SynToken list \<Rightarrow> int \<Rightarrow> int list \<Rightarrow> int option" where
  "TokenLineAt toks i lineStarts =
     (if length lineStarts = 0 then do { tok \<leftarrow> at toks i; Some (TokenLine tok) }
      else do {
        tok \<leftarrow> at toks i;
        lineSearch lineStarts (st_Start tok) 0 (int (length lineStarts))
      })"

subsection \<open>Bytes by enumeration\<close>

lemma all_bytes: "list_all P (map word_of_int [0..255]) \<Longrightarrow> P (b :: byte)"
proof -
  assume "list_all P (map word_of_int [0..255])"
  then have "\<forall>i \<in> {0..255}. P (word_of_int i)" by (simp add: list_all_iff)
  then have "P (word_of_int (uint b))" by (metis atLeastAtMost_iff uint_byte_range(1,3))
  then show "P b" by simp
qed

subsection \<open>Facts about packed tokens\<close>

lemma packKind_eq: "0 \<le> kind \<Longrightarrow> kind < 2 ^ 15 \<Longrightarrow> packKind kind line = kind + line * 2 ^ 15"
  unfolding packKind_def by (rule or_push_bit_eq_add) auto

lemma and_low_mask:
  "(x :: int) AND 255 = x mod 256" "(x :: int) AND 127 = x mod 128" "(x :: int) AND 65535 = x mod 65536"
  using take_bit_eq_mask[of 8 x] take_bit_eq_mask[of 7 x] take_bit_eq_mask[of 16 x]
  by (simp_all add: mask_eq_exp_minus_1 take_bit_eq_mod)

lemma kindOf_mod: "kindOf tok = st_KindLine tok mod 256"
  by (simp add: kindOf_def and_low_mask)

lemma charOf_div: "charOf tok = st_KindLine tok div 256 mod 128"
  by (simp add: charOf_def and_low_mask drop_bit_eq_div)

lemma TokenLine_div: "TokenLine tok = st_KindLine tok div 32768 mod 65536"
  by (simp add: TokenLine_def and_low_mask drop_bit_eq_div)

text \<open>The three fields of a packed word, with the character that operators carry.\<close>

lemma packed_fields:
  assumes "0 \<le> kind" "kind < 256" "0 \<le> c" "c < 128"
  shows "(packKind kind line OR push_bit TokenOperatorCharShift c) = kind + c * 256 + line * 32768"
proof -
  have "packKind kind line OR push_bit 8 c = (kind OR push_bit 8 c) OR push_bit 15 line"
    by (simp add: packKind_def or.assoc or.commute or.left_commute)
  also have "\<dots> = (kind + c * 256) OR push_bit 15 line"
    using or_push_bit_eq_add[of kind 8 c] assms by simp
  also have "\<dots> = kind + c * 256 + line * 32768"
    using or_push_bit_eq_add[of "kind + c * 256" 15 line] assms by simp
  finally show ?thesis .
qed

lemma fields_of_packed:
  assumes "st_KindLine tok = kind + c * 256 + line * 32768"
    and "0 \<le> kind" "kind < 256" "0 \<le> c" "c < 128"
  shows "kindOf tok = kind" "charOf tok = c" "TokenLine tok = line mod 65536"
proof -
  have k: "st_KindLine tok = kind + 256 * (c + 128 * line)"
    using assms(1) by simp
  show "kindOf tok = kind"
    unfolding kindOf_mod k mod_mult_self2 using assms(2,3) by (rule mod_pos_pos_trivial)
  have d: "st_KindLine tok div 256 = c + 128 * line"
    unfolding k using assms(2,3) by (subst div_mult_self2) auto
  then show "charOf tok = c"
    using assms(4,5) by (simp add: charOf_div)
  have "st_KindLine tok div 32768 = st_KindLine tok div 256 div 128"
    using zdiv_zmult2_eq[of 128 "st_KindLine tok" 256] by simp
  also have "\<dots> = line"
    using d assms(4,5) by simp
  finally show "TokenLine tok = line mod 65536"
    by (simp add: TokenLine_div)
qed

lemma MakeSynToken_fields:
  assumes "0 \<le> kind" "kind < 256"
  shows "kindOf (MakeSynToken kind s e line) = kind"
    "charOf (MakeSynToken kind s e line) = 0"
    "TokenLine (MakeSynToken kind s e line) = line mod 65536"
    "st_Start (MakeSynToken kind s e line) = toInt32 s"
    "st_End (MakeSynToken kind s e line) = toInt32 e"
proof -
  have "st_KindLine (MakeSynToken kind s e line) = kind + 0 * 256 + line * 32768"
    using packed_fields[of kind 0 line] assms by (simp add: MakeSynToken_def)
  from fields_of_packed[OF this] assms
  show "kindOf (MakeSynToken kind s e line) = kind"
    "charOf (MakeSynToken kind s e line) = 0"
    "TokenLine (MakeSynToken kind s e line) = line mod 65536"
    by auto
qed (simp_all add: MakeSynToken_def)

text \<open>The binary search of \<open>TokenLineAt\<close> on increasing line starts counts the starts at or before
  the offset.\<close>

lemma lineSearch_correct:
  assumes "sorted xs" "0 \<le> lo" "lo \<le> hi" "hi \<le> int (length xs)"
    and "\<forall>i < nat lo. xs ! i \<le> offset" "\<forall>i. nat hi \<le> i \<and> i < length xs \<longrightarrow> offset < xs ! i"
  shows "lineSearch xs offset lo hi = Some (int (length (filter (\<lambda>x. x \<le> offset) xs)))"
  using assms
proof (induction xs offset lo hi rule: lineSearch.induct)
  case (1 xs offset lo hi)
  show ?case
  proof (cases "lo < hi")
    case False
    then have eq: "lo = hi" using 1 by simp
    have "filter (\<lambda>x. x \<le> offset) xs = take (nat lo) xs"
    proof -
      have "filter (\<lambda>x. x \<le> offset) (take (nat lo) xs @ drop (nat lo) xs) = take (nat lo) xs"
        unfolding filter_append using 1(7,8) eq
        by (subst filter_True) (auto simp: in_set_conv_nth filter_empty_conv linorder_not_le)
      then show ?thesis by simp
    qed
    moreover have "lineSearch xs offset lo hi = Some lo"
      using False by (simp add: lineSearch.simps[of xs offset lo hi])
    ultimately show ?thesis using 1 eq by simp
  next
    case True
    let ?m = "lo + (hi - lo) div 2"
    have m: "0 \<le> ?m" "lo \<le> ?m" "?m < hi" using True 1 by auto
    have at: "at xs ?m = Some (xs ! nat ?m)" using m 1 by simp
    show ?thesis
    proof (cases "xs ! nat ?m \<le> offset")
      case le: True
      have "\<forall>i < nat (?m + 1). xs ! i \<le> offset"
      proof (intro allI impI)
        fix i assume "i < nat (?m + 1)"
        then have "xs ! i \<le> xs ! nat ?m" using m 1 by (intro sorted_nth_mono) auto
        then show "xs ! i \<le> offset" using le by simp
      qed
      then have "lineSearch xs offset (?m + 1) hi = Some (int (length (filter (\<lambda>x. x \<le> offset) xs)))"
        using m 1(4) by (intro 1(1)[OF True refl at le 1(3) _ _ 1(6) _ 1(8)]) auto
      moreover have "lineSearch xs offset lo hi = lineSearch xs offset (?m + 1) hi"
        using True at le by (subst lineSearch.simps) (simp add: Let_def)
      ultimately show ?thesis by simp
    next
      case gt: False
      have "\<forall>i. nat ?m \<le> i \<and> i < length xs \<longrightarrow> offset < xs ! i"
      proof (intro allI impI)
        fix i assume i: "nat ?m \<le> i \<and> i < length xs"
        then have "xs ! nat ?m \<le> xs ! i" using 1(3) by (intro sorted_nth_mono) auto
        then show "offset < xs ! i" using gt by simp
      qed
      then have "lineSearch xs offset lo ?m = Some (int (length (filter (\<lambda>x. x \<le> offset) xs)))"
        using m 1(6) by (intro 1(2)[OF True refl at gt 1(3,4) _ _ 1(7)]) auto
      moreover have "lineSearch xs offset lo hi = lineSearch xs offset lo ?m"
        using True at gt by (subst lineSearch.simps) (simp add: Let_def)
      ultimately show ?thesis by simp
    qed
  qed
qed

end
