(* ===== verification/Syn_Utf8.thy ===== *)
theory Syn_Utf8
  imports Syn_Encoding
begin

text \<open>
  What the encoding check accepts.  The word at a time test is shown sound by induction on the
  bytes of a word, the inner loops of a round by what they leave behind, and one round against the
  encoder: a byte sequence passes the check exactly when it encodes one scalar value.
\<close>

subsection \<open>Words of bytes\<close>

primrec lowOf :: "nat \<Rightarrow> int" where
  "lowOf 0 = 0"
| "lowOf (Suc n) = 1 + 256 * lowOf n"

lemma lowOf_nonneg: "0 \<le> lowOf n"
  by (induction n) auto

lemma and_low_byte:
  fixes a c x y :: int
  assumes "0 \<le> a" "a < 256" "0 \<le> c" "c < 256"
  shows "(a + 256 * x) AND (c + 256 * y) = (a AND c) + 256 * (x AND y)"
proof -
  have ac: "0 \<le> a AND c" "a AND c < 2 ^ 8"
    using assms AND_upper2[of c a] AND_lower[of c a] by auto
  have hi: "\<not> bit a n" "\<not> bit c n" if "8 \<le> n" for n
    using assms that bit_take_bit_iff[of 8 a n] bit_take_bit_iff[of 8 c n]
    by (auto simp: take_bit_int_eq_self)
  have "(a OR push_bit 8 x) AND (c OR push_bit 8 y) = (a AND c) OR push_bit 8 (x AND y)"
    by (rule bit_eqI) (auto simp: bit_simps dest: hi)
  moreover have "a OR push_bit 8 x = a + 256 * x" "c OR push_bit 8 y = c + 256 * y"
    "(a AND c) OR push_bit 8 (x AND y) = (a AND c) + 256 * (x AND y)"
    using or_push_bit_eq_add[of a 8 x] or_push_bit_eq_add[of c 8 y]
      or_push_bit_eq_add[of "a AND c" 8 "x AND y"] assms ac
    by auto
  ultimately show ?thesis by simp
qed

lemma and3_low_byte:
  fixes a c e x y z :: int
  assumes "0 \<le> a" "a < 256" "0 \<le> c" "c < 256" "0 \<le> e" "e < 256"
  shows "(a + 256 * x) AND ((c + 256 * y) AND (e + 256 * z)) = (a AND (c AND e)) + 256 * (x AND (y AND z))"
proof -
  have "0 \<le> c AND e" "c AND e < 256"
    using assms AND_upper1[of c e] AND_lower[of c e] by auto
  from and_low_byte[OF assms(1,2) this] show ?thesis
    by (simp only: and_low_byte[OF assms(3-6)])
qed

lemma sum_low_byte_zero: "0 \<le> (a :: int) \<Longrightarrow> a < 256 \<Longrightarrow> a + 256 * x = 0 \<longleftrightarrow> a = 0 \<and> x = 0"
  by (cases x "0 :: int" rule: linorder_cases) auto

lemma and_byte_range: "0 \<le> (a :: int) \<Longrightarrow> a < 256 \<Longrightarrow> 0 \<le> a AND c \<and> a AND c < 256"
  using AND_upper1[of a c] AND_lower[of a c] by auto

lemma byte_high_bit: "uint c AND 128 = 0 \<longleftrightarrow> (c :: byte) < 0x80"
  by (rule all_bytes) code_simp

lemma high_bits_clear:
  "wordValue bs AND (128 * lowOf (length bs)) = 0 \<Longrightarrow> b \<in> set bs \<Longrightarrow> b < 0x80"
proof (induction bs)
  case Nil
  then show ?case by simp
next
  case (Cons c bs)
  have "wordValue (c # bs) AND (128 * lowOf (length (c # bs))) =
      (uint c AND 128) + 256 * (wordValue bs AND (128 * lowOf (length bs)))"
    using and_low_byte[of "uint c" 128 "wordValue bs" "128 * lowOf (length bs)"]
    by (simp add: algebra_simps)
  then have "uint c AND 128 = 0" and rest: "wordValue bs AND (128 * lowOf (length bs)) = 0"
    using Cons.prems(1) and_byte_range[of "uint c" 128] by (simp_all add: sum_low_byte_zero)
  then have "c < 0x80" using byte_high_bit[of c] by simp
  then show ?case using Cons.IH[OF rest] Cons.prems(2) by auto
qed

lemma no_zero_byte:
  assumes "\<forall>b \<in> set bs. b < 0x80"
    and "(wordValue bs - lowOf (length bs)) AND NOT (wordValue bs) AND (128 * lowOf (length bs)) = 0"
  shows "0 \<notin> set bs"
  using assms
proof (induction bs)
  case Nil
  then show ?case by simp
next
  case (Cons c bs)
  let ?V = "wordValue bs" and ?L = "lowOf (length bs)"
  have neg: "NOT (uint c + 256 * ?V) = (255 - uint c) + 256 * NOT ?V"
    by (simp add: not_int_def)
  have hi: "128 * lowOf (length (c # bs)) = 128 + 256 * (128 * ?L)" by simp
  show ?case
  proof (cases "c = 0")
    case True
    have "wordValue (c # bs) - lowOf (length (c # bs)) = 255 + 256 * (?V - ?L - 1)"
      using True by simp
    moreover have "NOT (wordValue (c # bs)) = 255 + 256 * NOT ?V"
      using neg True by simp
    ultimately have "(255 + 256 * (?V - ?L - 1)) AND ((255 + 256 * NOT ?V) AND (128 + 256 * (128 * ?L))) = 0"
      using Cons.prems(2) by (simp only: hi and.assoc)
    then have "128 + 256 * ((?V - ?L - 1) AND (NOT ?V AND (128 * ?L))) = 0"
      using and3_low_byte[of 255 255 128 "?V - ?L - 1" "NOT ?V" "128 * ?L"] by simp
    then show ?thesis by (subst (asm) sum_low_byte_zero) auto
  next
    case False
    then have "uint c \<noteq> 0" by (simp add: byte_eq_iff_uint)
    then have pos: "1 \<le> uint c" using uint_byte_range(1)[of c] by linarith
    have "wordValue (c # bs) - lowOf (length (c # bs)) = (uint c - 1) + 256 * (?V - ?L)"
      by (simp add: algebra_simps)
    moreover have "NOT (wordValue (c # bs)) = (255 - uint c) + 256 * NOT ?V"
      using neg by simp
    ultimately have "((uint c - 1) + 256 * (?V - ?L)) AND
        (((255 - uint c) + 256 * NOT ?V) AND (128 + 256 * (128 * ?L))) = 0"
      using Cons.prems(2) by (simp only: hi and.assoc)
    then have "((uint c - 1) AND ((255 - uint c) AND 128)) + 256 * ((?V - ?L) AND (NOT ?V AND (128 * ?L))) = 0"
      using and3_low_byte[of "uint c - 1" "255 - uint c" 128 "?V - ?L" "NOT ?V" "128 * ?L"] pos
        uint_byte_range[of c] by simp
    then have "(?V - ?L) AND (NOT ?V AND (128 * ?L)) = 0"
      using pos and_byte_range[of "uint c - 1" "(255 - uint c) AND 128"] uint_byte_range(2)[of c]
      by (subst (asm) sum_low_byte_zero) auto
    then show ?thesis using Cons.IH Cons.prems(1) False by (simp add: and.assoc)
  qed
qed

lemma host_masks:
  "lowBytes h = lowOf (nat (wordSize h))" "highBytes h = 128 * lowOf (nat (wordSize h))"
  "uintBits h = 8 * nat (wordSize h)" "take_bit (uintBits h) (highBytes h) = highBytes h"
proof -
  have "lowBytes h = lowOf (nat (wordSize h)) \<and> highBytes h = 128 * lowOf (nat (wordSize h))
      \<and> uintBits h = 8 * nat (wordSize h) \<and> take_bit (uintBits h) (highBytes h) = highBytes h"
    by (cases "h_wide h")
      (simp_all add: lowBytes_def highBytes_def uintBits_def wordSize_def numeral_eq_Suc mask_eq_exp_minus_1 take_bit_eq_mod)
  then show "lowBytes h = lowOf (nat (wordSize h))" "highBytes h = 128 * lowOf (nat (wordSize h))"
  "uintBits h = 8 * nat (wordSize h)" "take_bit (uintBits h) (highBytes h) = highBytes h" by auto
qed

lemma loadWord_ascii:
  assumes "loadWord h src i = Some w" "0 \<le> i"
    and "w AND highBytes h = 0"
    and "take_bit (uintBits h) (w - lowBytes h) AND NOT w AND highBytes h = 0"
  shows "\<forall>k. i \<le> k \<and> k < i + wordSize h \<longrightarrow> 0 < src ! nat k \<and> src ! nat k < 0x80"
proof -
  obtain xs where xs: "slice src i (i + wordSize h) = Some xs"
    and w: "w = wordValue (if h_big h then rev xs else xs)"
    using assms(1) by (auto simp: loadWord_def bind_eq_Some_conv)
  let ?bs = "if h_big h then rev xs else xs"
  have len: "length ?bs = nat (wordSize h)"
    using slice_length[OF xs] by simp
  have set: "set ?bs = set xs" by simp
  have mask: "take_bit (uintBits h) x AND (y AND highBytes h) = x AND (y AND highBytes h)" for x y
  proof (rule bit_eqI)
    fix m
    have "bit (highBytes h) m \<Longrightarrow> m < uintBits h"
      using host_masks(4)[of h] bit_take_bit_iff[of "uintBits h" "highBytes h" m] by simp
    then show "bit (take_bit (uintBits h) x AND (y AND highBytes h)) m = bit (x AND (y AND highBytes h)) m"
      by (auto simp: bit_simps)
  qed
  have a: "\<forall>b \<in> set ?bs. b < 0x80"
    using high_bits_clear[of ?bs] assms(3) w len by (simp only: host_masks(2) len) blast
  have "0 \<notin> set ?bs"
  proof (rule no_zero_byte[OF a])
    show "(wordValue ?bs - lowOf (length ?bs)) AND NOT (wordValue ?bs) AND 128 * lowOf (length ?bs) = 0"
      unfolding len and.assoc by (rule assms(4)[unfolded and.assoc mask, unfolded host_masks(1,2) w])
  qed
  then have ok: "\<forall>b \<in> set xs. 0 < b \<and> b < 0x80"
    using a set word_gt_0 by metis
  show ?thesis
  proof (intro allI impI)
    fix k assume k: "i \<le> k \<and> k < i + wordSize h"
    have "src ! nat k = xs ! nat (k - i)"
      using xs k assms(2) by (auto simp: slice_eq_Some_iff nat_diff_distrib)
    moreover have "xs ! nat (k - i) \<in> set xs"
      using slice_length[OF xs] k by (intro nth_mem) linarith
    ultimately show "0 < src ! nat k \<and> src ! nat k < 0x80" using ok by simp
  qed
qed

subsection \<open>The fast path\<close>

definition plainAt :: "bytes \<Rightarrow> int \<Rightarrow> bool" where
  "plainAt src k = (0 < src ! nat k \<and> src ! nat k < 0x80)"

definition plainSpan :: "bytes \<Rightarrow> int \<Rightarrow> int \<Rightarrow> bool" where
  "plainSpan src i i' = (i \<le> i' \<and> i' \<le> int (length src) \<and> (\<forall>k. i \<le> k \<and> k < i' \<longrightarrow> plainAt src k))"

lemma plainSpan_refl: "i \<le> int (length src) \<Longrightarrow> plainSpan src i i"
  by (auto simp: plainSpan_def)

lemma plainSpan_trans: "plainSpan src i j \<Longrightarrow> plainSpan src j k \<Longrightarrow> plainSpan src i k"
  unfolding plainSpan_def by (meson linorder_le_less_linear order_trans)

lemma plainSpan_step: "plainAt src i \<Longrightarrow> plainSpan src (i + 1) k \<Longrightarrow> plainSpan src i k"
  unfolding plainSpan_def by (metis add1_zle_eq linorder_not_le order_le_less zle_add1_eq_le)

lemma plainAt_iff: "\<not> (src ! nat k = 0 \<or> src ! nat k \<ge> 0x80) \<longleftrightarrow> plainAt src k"
  by (auto simp: plainAt_def word_gt_0 linorder_not_le)

lemma alignWalk_plain: "0 \<le> i \<Longrightarrow> i \<le> int (length src) \<Longrightarrow> \<exists>i'. alignWalk h src i = Some i' \<and> plainSpan src i i'"
proof (induction h src i rule: alignWalk.induct)
  case (1 h src i)
  show ?case
  proof (cases "i < int (length src) \<and> \<not> wordAligned h i \<and> plainAt src i")
    case True
    then have at: "at src i = Some (src ! nat i)" and c: "\<not> (src ! nat i = 0 \<or> src ! nat i \<ge> 0x80)"
      using 1 plainAt_iff by auto
    obtain i' where "alignWalk h src (i + 1) = Some i'" "plainSpan src (i + 1) i'"
      using 1(1)[OF _ at c] 1(2) True by auto
    then show ?thesis
      using True at c plainSpan_step by (subst alignWalk.simps) auto
  next
    case False
    then have "alignWalk h src i = Some i"
      using 1 plainAt_iff[of src i] by (subst alignWalk.simps) auto
    then show ?thesis using plainSpan_refl 1 by blast
  qed
qed

lemma byteWalk_plain:
  "0 \<le> i \<Longrightarrow> i \<le> int (length src) \<Longrightarrow>
     \<exists>i'. byteWalk src i = Some i' \<and> plainSpan src i i' \<and> (i' < int (length src) \<longrightarrow> \<not> plainAt src i')"
proof (induction src i rule: byteWalk.induct)
  case (1 src i)
  show ?case
  proof (cases "i < int (length src) \<and> plainAt src i")
    case True
    then have at: "at src i = Some (src ! nat i)" and c: "\<not> (src ! nat i = 0 \<or> src ! nat i \<ge> 0x80)"
      using 1 plainAt_iff by auto
    obtain i' where "byteWalk src (i + 1) = Some i'" "plainSpan src (i + 1) i'"
      "i' < int (length src) \<longrightarrow> \<not> plainAt src i'"
      using 1(1)[OF _ at c] 1(2) True by auto
    then show ?thesis
      using True at c plainSpan_step by (subst byteWalk.simps) auto
  next
    case False
    then have "byteWalk src i = Some i"
      using 1 plainAt_iff[of src i] by (subst byteWalk.simps) auto
    then show ?thesis using plainSpan_refl 1 False by auto
  qed
qed

lemma wordWalk_plain: "0 \<le> i \<Longrightarrow> i \<le> int (length src) \<Longrightarrow> \<exists>i'. wordWalk h src i = Some i' \<and> plainSpan src i i'"
proof (induction h src i rule: wordWalk.induct)
  case (1 h src i)
  show ?case
  proof (cases "i + wordSize h \<le> int (length src)")
    case False
    then have "wordWalk h src i = Some i" by (subst wordWalk.simps) simp
    then show ?thesis using plainSpan_refl 1 by blast
  next
    case True
    have pos: "0 < wordSize h" by (simp add: wordSize_def)
    then obtain w where w: "loadWord h src i = Some w"
      using True 1 by (auto simp: loadWord_def)
    let ?stop = "w AND highBytes h \<noteq> 0 \<or> take_bit (uintBits h) (w - lowBytes h) AND NOT w AND highBytes h \<noteq> 0"
    show ?thesis
    proof (cases ?stop)
      case stop: True
      then have "wordWalk h src i = Some i" using True w by (subst wordWalk.simps) simp
      then show ?thesis using plainSpan_refl 1 by blast
    next
      case go: False
      have "plainSpan src i (i + wordSize h)"
        using loadWord_ascii[OF w] go 1(2) True pos by (auto simp: plainSpan_def plainAt_def)
      moreover obtain i' where "wordWalk h src (i + wordSize h) = Some i'" "plainSpan src (i + wordSize h) i'"
        using 1(1)[OF True w go] 1(2) True pos by auto
      moreover have "wordWalk h src i = wordWalk h src (i + wordSize h)"
        using True w go by (subst wordWalk.simps) simp
      ultimately show ?thesis using plainSpan_trans by metis
    qed
  qed
qed

lemma asciiRun_plain:
  assumes "0 \<le> i" "i \<le> int (length src)"
  shows "\<exists>i'. asciiRun h src i = Some i' \<and> plainSpan src i i' \<and> (i' < int (length src) \<longrightarrow> \<not> plainAt src i')"
proof -
  obtain a where a: "alignWalk h src i = Some a" "plainSpan src i a"
    using alignWalk_plain[OF assms] by blast
  then have a0: "0 \<le> a" "a \<le> int (length src)" using assms by (auto simp: plainSpan_def)
  obtain b where b: "(if a < int (length src) \<and> wordAligned h a then wordWalk h src a else Some a) = Some b"
    "plainSpan src a b"
    using wordWalk_plain[OF a0] plainSpan_refl[OF a0(2)] by (cases "a < int (length src) \<and> wordAligned h a") auto
  then have b0: "0 \<le> b" "b \<le> int (length src)" using a0 by (auto simp: plainSpan_def)
  obtain c where c: "byteWalk src b = Some c" "plainSpan src b c" "c < int (length src) \<longrightarrow> \<not> plainAt src c"
    using byteWalk_plain[OF b0] by blast
  have "asciiRun h src i = Some c"
    unfolding asciiRun_def a(1) Option.bind.simps b(1) c(1) ..
  moreover have "plainSpan src i c"
    using a(2) b(2) c(2) by (blast intro: plainSpan_trans)
  ultimately show ?thesis using c(3) by blast
qed

subsection \<open>Runes and their encoding\<close>

definition scalar :: "int \<Rightarrow> bool" where
  "scalar v = (0 \<le> v \<and> v \<le> 0x10ffff \<and> \<not> (0xd800 \<le> v \<and> v \<le> 0xdfff))"

abbreviation encodeRune :: "int \<Rightarrow> bytes" where
  "encodeRune \<equiv> appendStringRune []"

definition encodeRunes :: "int list \<Rightarrow> bytes" where
  "encodeRunes cs = concat (map encodeRune cs)"

lemma appendStringRune_out: "appendStringRune out v = out @ encodeRune v"
  by (simp add: appendStringRune_def)

lemma or_high:
  "0 \<le> d \<Longrightarrow> d < 64 \<Longrightarrow> (0x80 OR d :: int) = 128 + d"
  "0 \<le> d \<Longrightarrow> d < 32 \<Longrightarrow> (0xc0 OR d :: int) = 192 + d"
  "0 \<le> d \<Longrightarrow> d < 16 \<Longrightarrow> (0xe0 OR d :: int) = 224 + d"
  "0 \<le> d \<Longrightarrow> d < 8 \<Longrightarrow> (0xf0 OR d :: int) = 240 + d"
  using or_push_bit_eq_add[of d 6 2] or_push_bit_eq_add[of d 5 6] or_push_bit_eq_add[of d 4 14]
    or_push_bit_eq_add[of d 3 30]
  by (simp_all add: or.commute push_bit_eq_mult)

lemma and_63: "(x :: int) AND 63 = x mod 64"
  using take_bit_eq_mask[of 6 x] by (simp add: mask_eq_exp_minus_1 take_bit_eq_mod)

lemma power_numeral_simps: "(2 :: int) ^ 6 = 64" "(2 :: int) ^ 12 = 4096" "(2 :: int) ^ 18 = 262144"
  by simp_all

lemma digit_64:
  assumes "0 \<le> d" "d < 64"
  shows "(x * 64 + d) div 64 = (x :: int)" "(x * 64 + d) mod 64 = d"
  using assms by auto

definition byteOf :: "int \<Rightarrow> byte" where
  "byteOf v = word_of_int v"

lemma uint_byteOf [simp]: "0 \<le> v \<Longrightarrow> v < 256 \<Longrightarrow> uint (byteOf v) = v"
  by (simp add: byteOf_def)

text \<open>The encoder by base 64 digits.\<close>

lemma encodeRune_1: "v < 0x80 \<Longrightarrow> encodeRune v = [byteOf v]"
  by (simp add: appendStringRune_def byteOf_def)

lemma encodeRune_2:
  assumes "2 \<le> a" "a < 32" "0 \<le> b" "b < 64"
  shows "encodeRune (a * 64 + b) = [byteOf (192 + a), byteOf (128 + b)]"
proof -
  have "(a * 64 + b) div 64 = a" "(a * 64 + b) mod 64 = b" using assms by auto
  then show ?thesis
    using assms by (simp add: appendStringRune_def byteOf_def and_63 or_high drop_bit_eq_div)
qed

lemma encodeRune_3:
  assumes "0 \<le> a" "a < 16" "0 \<le> b" "b < 64" "0 \<le> c" "c < 64" "0x800 \<le> (a * 64 + b) * 64 + c"
  shows "encodeRune ((a * 64 + b) * 64 + c) =
    [byteOf (224 + a), byteOf (128 + b), byteOf (128 + c)]"
proof -
  let ?v = "(a * 64 + b) * 64 + c"
  have 1: "?v div 64 = a * 64 + b" "?v mod 64 = c" by (rule digit_64[OF assms(5,6)])+
  have "?v div 4096 = ?v div 64 div 64" using zdiv_zmult2_eq[of 64 ?v 64] by simp
  also have "\<dots> = a" unfolding 1(1) by (rule digit_64[OF assms(3,4)])+
  finally have 2: "?v div 4096 = a" .
  have 3: "?v < 0x10000" using assms by (simp add: algebra_simps)
  have 4: "(a * 64 + b) mod 64 = b" by (rule digit_64[OF assms(3,4)])+
  show ?thesis
    using assms 3 unfolding appendStringRune_def byteOf_def
    by (simp only: and_63 drop_bit_eq_div power_numeral_simps 1 2 4) (simp add: 1 2 4 or_high)
qed

lemma encodeRune_4:
  assumes "0 \<le> a" "a < 8" "0 \<le> b" "b < 64" "0 \<le> c" "c < 64" "0 \<le> d" "d < 64"
    "0x10000 \<le> ((a * 64 + b) * 64 + c) * 64 + d"
  shows "encodeRune (((a * 64 + b) * 64 + c) * 64 + d) =
    [byteOf (240 + a), byteOf (128 + b), byteOf (128 + c), byteOf (128 + d)]"
proof -
  let ?v = "((a * 64 + b) * 64 + c) * 64 + d"
  have 1: "?v div 64 = (a * 64 + b) * 64 + c" "?v mod 64 = d" by (rule digit_64[OF assms(7,8)])+
  have "?v div 4096 = ?v div 64 div 64" using zdiv_zmult2_eq[of 64 ?v 64] by simp
  also have "\<dots> = a * 64 + b" unfolding 1(1) by (rule digit_64[OF assms(5,6)])+
  finally have 2: "?v div 4096 = a * 64 + b" .
  have "?v div 262144 = ?v div 4096 div 64" using zdiv_zmult2_eq[of 64 ?v 4096] by simp
  also have "\<dots> = a" using 2 assms by simp
  finally have 3: "?v div 262144 = a" .
  have 4: "(a * 64 + b) mod 64 = b" "((a * 64 + b) * 64 + c) mod 64 = c"
    by (rule digit_64[OF assms(3,4)] digit_64[OF assms(5,6)])+
  show ?thesis
    using assms unfolding appendStringRune_def byteOf_def
    by (simp only: and_63 drop_bit_eq_div power_numeral_simps 1 2 3 4) (simp add: or_high)
qed

subsection \<open>One sequence\<close>

lemma leadByte_uint:
  "leadByte c =
     (if 194 \<le> uint c \<and> uint c \<le> 223 then Some (2, uint c - 192, 0x80)
      else if 224 \<le> uint c \<and> uint c \<le> 239 then Some (3, uint c - 224, 0x800)
      else if 240 \<le> uint c \<and> uint c \<le> 244 then Some (4, uint c - 240, 0x10000)
      else None)"
  by (rule all_bytes) code_simp

lemma continuation_byte: "128 \<le> uint c \<Longrightarrow> uint c \<le> 191 \<Longrightarrow> uint (c AND 63 :: byte) = uint c - 128"
  by (rule all_bytes[of "\<lambda>c. 128 \<le> uint c \<longrightarrow> uint c \<le> 191 \<longrightarrow> uint (c AND 63 :: byte) = uint c - 128", rule_format])
    code_simp

lemma continuation_step:
  assumes "j < n" "0 \<le> i + j" "i + j < int (length src)"
  shows "continuation src i n j v =
    (let b = uint (src ! nat (i + j))
     in if 128 \<le> b \<and> b \<le> 191 then continuation src i n (j + 1) (v * 64 + (b - 128)) else Some None)"
proof -
  let ?c = "src ! nat (i + j)"
  have or: "push_bit 6 v OR (uint ?c - 128) = v * 64 + (uint ?c - 128)" if "128 \<le> uint ?c" "uint ?c \<le> 191"
    using or_push_bit_eq_add[of "uint ?c - 128" 6 v] that by (simp add: or.commute)
  show ?thesis
    using assms or by (subst continuation.simps)
      (auto simp: Let_def word_less_def word_le_def continuation_byte)
qed

lemma continuation_stop: "continuation src i n n v = Some (Some v)"
  by (subst continuation.simps) simp

lemma continuation_total:
  "0 \<le> i \<Longrightarrow> 0 \<le> j \<Longrightarrow> i + n \<le> int (length src) \<Longrightarrow> \<exists>r. continuation src i n j v = Some r"
proof (induction src i n j v rule: continuation.induct)
  case (1 src i n j v)
  show ?case
  proof (cases "j < n")
    case True
    then have "at src (i + j) = Some (src ! nat (i + j))" using 1 by simp
    then show ?thesis using 1 True by (subst continuation.simps) (simp split: if_splits)
  qed (use continuation.simps in simp)
qed

lemma drop_split:
  assumes "k + n \<le> length xs"
  shows "drop k xs = map (\<lambda>j. xs ! (k + j)) [0..<n] @ drop (k + n) xs"
  using assms
proof (induction n)
  case 0
  then show ?case by simp
next
  case (Suc n)
  have "drop (k + n) xs = xs ! (k + n) # drop (k + Suc n) xs"
    using Suc.prems by (simp add: Cons_nth_drop_Suc)
  then show ?case using Suc by simp
qed

text \<open>A sequence that passes is the encoding of its value.\<close>

lemma sequence_sound:
  assumes "0 \<le> i" "leadByte (src ! nat i) = Some (n, v0, m)" "i + n \<le> int (length src)"
    and "continuation src i n 1 v0 = Some (Some v)" "m \<le> v"
  shows "drop (nat i) src = encodeRune v @ drop (nat (i + n)) src \<and> n = int (length (encodeRune v)) \<and> 0x80 \<le> v"
proof -
  let ?k = "nat i"
  define b where "b j = uint (src ! (?k + j))" for j
  have orig: "byteOf (b j) = src ! (?k + j)" for j
    by (simp add: b_def byteOf_def)
  have pos: "nat (i + int j) = ?k + j" for j using assms(1) by simp
  have cont: "continuation src i n (int j) v' =
      (if 128 \<le> b j \<and> b j \<le> 191 then continuation src i n (int (Suc j)) (v' * 64 + (b j - 128)) else Some None)"
    if "int j < n" for j v'
    using continuation_step[of "int j" n i src v'] assms(1,3) that
    by (simp add: Let_def b_def pos ac_simps)
  have c1: "continuation src i n 1 w = (if 128 \<le> b 1 \<and> b 1 \<le> 191 then continuation src i n 2 (w * 64 + (b 1 - 128)) else Some None)" if "1 < n" for w
    using cont[of 1] that by simp
  have c2: "continuation src i n 2 w = (if 128 \<le> b 2 \<and> b 2 \<le> 191 then continuation src i n 3 (w * 64 + (b 2 - 128)) else Some None)" if "2 < n" for w
    using cont[of 2] that by simp
  have c3: "continuation src i n 3 w = (if 128 \<le> b 3 \<and> b 3 \<le> 191 then continuation src i n 4 (w * 64 + (b 3 - 128)) else Some None)" if "3 < n" for w
    using cont[of 3] that by simp
  have split: "drop ?k src = map (\<lambda>j. byteOf (b j)) [0..<nat n] @ drop (nat (i + n)) src"
    using drop_split[of ?k "nat n" src] assms(1-3) leadByte_size[OF assms(2)]
    by (simp add: orig nat_add_distrib)
  consider (two) "n = 2" "194 \<le> b 0" "b 0 \<le> 223" "v0 = b 0 - 192" "m = 0x80"
    | (three) "n = 3" "224 \<le> b 0" "b 0 \<le> 239" "v0 = b 0 - 224" "m = 0x800"
    | (four) "n = 4" "240 \<le> b 0" "b 0 \<le> 244" "v0 = b 0 - 240" "m = 0x10000"
    using assms(2) by (auto simp: leadByte_uint b_def split: if_splits)
  then show ?thesis
  proof cases
    case two
    then have v: "128 \<le> b 1" "b 1 \<le> 191" "v = v0 * 64 + (b 1 - 128)"
      using assms(4) c1[of v0] by (auto simp: continuation_stop split: if_splits)
    then show ?thesis
      using two split encodeRune_2[of "b 0 - 192" "b 1 - 128"] assms(5) by (simp add: numeral_eq_Suc)
  next
    case three
    then have v: "128 \<le> b 1" "b 1 \<le> 191" "128 \<le> b 2" "b 2 \<le> 191"
      "v = (v0 * 64 + (b 1 - 128)) * 64 + (b 2 - 128)"
      using assms(4) c1[of v0] c2[of "v0 * 64 + (b 1 - 128)"] by (auto simp: continuation_stop split: if_splits)
    then show ?thesis
      using three split encodeRune_3[of "b 0 - 224" "b 1 - 128" "b 2 - 128"] assms(5)
      by (simp add: numeral_eq_Suc)
  next
    case four
    then have v: "128 \<le> b 1" "b 1 \<le> 191" "128 \<le> b 2" "b 2 \<le> 191" "128 \<le> b 3" "b 3 \<le> 191"
      "v = ((v0 * 64 + (b 1 - 128)) * 64 + (b 2 - 128)) * 64 + (b 3 - 128)"
      using assms(4) c1[of v0] c2[of "v0 * 64 + (b 1 - 128)"]
        c3[of "(v0 * 64 + (b 1 - 128)) * 64 + (b 2 - 128)"]
      by (auto simp: continuation_stop split: if_splits)
    then show ?thesis
      using four split encodeRune_4[of "b 0 - 240" "b 1 - 128" "b 2 - 128" "b 3 - 128"] assms(5)
      by (simp add: numeral_eq_Suc)
  qed
qed

text \<open>The base 64 digits of a value, and that its encoding passes.\<close>

lemma rune_digits:
  fixes v :: int
  assumes "0x80 \<le> v" "v \<le> 0x10ffff"
  obtains (two) a b where "2 \<le> a" "a < 32" "0 \<le> b" "b < 64" "v = a * 64 + b"
  | (three) a b c where "0 \<le> a" "a < 16" "0 \<le> b" "b < 64" "0 \<le> c" "c < 64"
      "v = (a * 64 + b) * 64 + c" "0x800 \<le> v"
  | (four) a b c d where "0 \<le> a" "a \<le> 4" "0 \<le> b" "b < 64" "0 \<le> c" "c < 64" "0 \<le> d" "d < 64"
      "v = ((a * 64 + b) * 64 + c) * 64 + d" "0x10000 \<le> v"
proof -
  have v: "v = v div 64 * 64 + v mod 64" "0 \<le> v mod 64" "v mod 64 < 64" by simp_all
  have w: "v div 64 = v div 64 div 64 * 64 + v div 64 mod 64" by (simp only: div_mult_mod_eq)
  have w': "0 \<le> v div 64 mod 64" "v div 64 mod 64 < 64" by simp_all
  have x: "v div 64 div 64 = v div 64 div 64 div 64 * 64 + v div 64 div 64 mod 64"
    by (simp only: div_mult_mod_eq)
  have x': "0 \<le> v div 64 div 64 mod 64" "v div 64 div 64 mod 64 < 64" by simp_all
  consider "v < 0x800" | "0x800 \<le> v" "v < 0x10000" | "0x10000 \<le> v" by linarith
  then show thesis
  proof cases
    case 1
    then show thesis using two[of "v div 64" "v mod 64"] v assms by auto
  next
    case 2
    have "0 \<le> v div 64 div 64" "v div 64 div 64 < 16" using 2 v w w' by linarith+
    then show thesis using three[OF _ _ w' v(2,3)] v(1) w 2 by metis
  next
    case 3
    have "0 \<le> v div 64 div 64 div 64" "v div 64 div 64 div 64 \<le> 4" using 3 v w w' x x' assms(2) by linarith+
    then show thesis
      using four[OF _ _ x' w' v(2,3)] v(1) w x 3 by metis
  qed
qed

lemma at_of_drop: "drop (nat i) src = xs @ rest \<Longrightarrow> 0 \<le> i \<Longrightarrow> j < length xs \<Longrightarrow>
    i + int j < int (length src) \<and> src ! nat (i + int j) = xs ! j"
proof -
  assume a: "drop (nat i) src = xs @ rest" "0 \<le> i" "j < length xs"
  then have "length src - nat i = length xs + length rest" by (metis length_append length_drop)
  then have len: "nat i + j < length src" using a(3) by linarith
  have "src ! (nat i + j) = drop (nat i) src ! j" using len by simp
  then show ?thesis using a len by (simp add: nat_add_distrib nth_append)
qed

lemma sequence_complete:
  assumes "0 \<le> i" "drop (nat i) src = encodeRune v @ rest" "scalar v" "0x80 \<le> v"
  shows "\<exists>v0 m. leadByte (src ! nat i) = Some (int (length (encodeRune v)), v0, m)
    \<and> i + int (length (encodeRune v)) \<le> int (length src)
    \<and> continuation src i (int (length (encodeRune v))) 1 v0 = Some (Some v) \<and> m \<le> v"
proof -
  let ?n = "int (length (encodeRune v))"
  note at_j = at_of_drop[OF assms(2,1)]
  have cont: "continuation src i ?n (int j) w =
      (let b = uint (encodeRune v ! j)
       in if 128 \<le> b \<and> b \<le> 191 then continuation src i ?n (int j + 1) (w * 64 + (b - 128)) else Some None)"
    if "j < length (encodeRune v)" for j w
    using continuation_step[of "int j" ?n i src w] at_j[OF that] assms(1) that by (simp add: ac_simps)
  have "v \<le> 0x10ffff" using assms(3) by (simp add: scalar_def)
  with assms(4) show ?thesis
  proof (cases rule: rune_digits)
    case (two a b)
    then have enc: "encodeRune v = [byteOf (192 + a), byteOf (128 + b)]"
      using encodeRune_2 by simp
    then show ?thesis
      using at_j[of 0] at_j[of 1] cont[of 1 a] two by (auto simp: leadByte_uint continuation_stop[of _ _ 2])
  next
    case (three a b c)
    then have enc: "encodeRune v = [byteOf (224 + a), byteOf (128 + b), byteOf (128 + c)]"
      using encodeRune_3 by simp
    then show ?thesis
      using at_j[of 0] at_j[of 2] cont[of 1 a] cont[of 2 "a * 64 + b"] three
      by (auto simp: leadByte_uint continuation_stop[of _ _ 3])
  next
    case (four a b c d)
    then have enc: "encodeRune v =
        [byteOf (240 + a), byteOf (128 + b), byteOf (128 + c), byteOf (128 + d)]"
      using encodeRune_4 by simp
    then show ?thesis
      using at_j[of 0] at_j[of 3] cont[of 1 a] cont[of 2 "a * 64 + b"] cont[of 3 "(a * 64 + b) * 64 + c"] four
      by (auto simp: leadByte_uint continuation_stop[of _ _ 4])
  qed
qed

lemma low_bits:
  "192 \<le> uint c \<longrightarrow> uint c < 224 \<longrightarrow> uint (c AND 31 :: byte) = uint c - 192"
  "224 \<le> uint c \<longrightarrow> uint c < 240 \<longrightarrow> uint (c AND 15 :: byte) = uint c - 224"
  "240 \<le> uint c \<longrightarrow> uint c < 248 \<longrightarrow> uint (c AND 7 :: byte) = uint c - 240"
  by (rule all_bytes, code_simp)+

lemma identifierRune_encodeRune:
  assumes "0 \<le> i" "drop (nat i) src = encodeRune v @ rest" "scalar v"
  shows "identifierRune src i = Some (v, int (length (encodeRune v)))"
proof -
  note at_j = at_of_drop[OF assms(2,1)]
  show ?thesis
  proof (cases "v < 0x80")
    case True
    then have enc: "encodeRune v = [byteOf v]" by (rule encodeRune_1)
    have "0 \<le> v" using assms(3) by (simp add: scalar_def)
    then show ?thesis using at_j[of 0] enc True assms(1)
      by (simp add: identifierRune_def word_less_def)
  next
    case False
    have tail: "runeTail src i (int (length (encodeRune v))) (int j) w =
        runeTail src i (int (length (encodeRune v))) (int j + 1) (w * 64 + uint (encodeRune v ! j AND 63))"
      if "j < length (encodeRune v)" for j w
      using at_j[OF that] that assms(1) by (subst runeTail.simps) (simp add: ac_simps)
    have stop: "runeTail src i n n w = Some w" for n w by (subst runeTail.simps) simp
    from False have "0x80 \<le> v" by simp
    moreover have "v \<le> 0x10ffff" using assms(3) by (simp add: scalar_def)
    ultimately show ?thesis
    proof (cases rule: rune_digits)
      case (two a b)
      then have enc: "encodeRune v = [byteOf (192 + a), byteOf (128 + b)]"
        using encodeRune_2 by simp
      then show ?thesis
        using at_j[of 0] at_j[of 1] tail[of 1 a] two assms(1)
        by (auto simp: identifierRune_def word_less_def word_le_def stop[of 2] low_bits continuation_byte)
    next
      case (three a b c)
      then have enc: "encodeRune v = [byteOf (224 + a), byteOf (128 + b), byteOf (128 + c)]"
        using encodeRune_3 by simp
      then show ?thesis
        using at_j[of 0] at_j[of 2] tail[of 1 a] tail[of 2 "a * 64 + b"] three assms(1)
        by (auto simp: identifierRune_def word_less_def word_le_def stop[of 3] low_bits continuation_byte)
    next
      case (four a b c d)
      then have enc: "encodeRune v =
          [byteOf (240 + a), byteOf (128 + b), byteOf (128 + c), byteOf (128 + d)]"
        using encodeRune_4 by simp
      then show ?thesis
        using at_j[of 0] at_j[of 3] tail[of 1 a] tail[of 2 "a * 64 + b"] tail[of 3 "(a * 64 + b) * 64 + c"] four assms(1)
        by (auto simp: identifierRune_def word_less_def word_le_def stop[of 4] low_bits continuation_byte)
    qed
  qed
qed

subsection \<open>Source texts\<close>

text \<open>What the check is for: the text is the encoding of scalar values other than \<open>0\<close>, and a byte
  order mark is at most the first of them.\<close>

definition sourceFrom :: "bool \<Rightarrow> bytes \<Rightarrow> bool" where
  "sourceFrom first src =
     (\<exists>cs. src = encodeRunes cs \<and> (\<forall>c \<in> set cs. scalar c \<and> c \<noteq> 0)
        \<and> 0xfeff \<notin> set (if first then tl cs else cs))"

definition sourceText :: "bytes \<Rightarrow> bool" where
  "sourceText src = sourceFrom True src"

lemma encodeRune_nonempty: "encodeRune v \<noteq> []"
  by (simp add: appendStringRune_def)

lemma sourceFrom_Nil: "sourceFrom first []"
  by (auto simp: sourceFrom_def encodeRunes_def intro!: exI[of _ "[]"])

lemma sourceFrom_rune:
  assumes "xs \<noteq> []"
  shows "sourceFrom first xs \<longleftrightarrow>
    (\<exists>v rest. xs = encodeRune v @ rest \<and> scalar v \<and> v \<noteq> 0 \<and> (v = 0xfeff \<longrightarrow> first) \<and> sourceFrom False rest)"
    (is "?L \<longleftrightarrow> ?R")
proof
  assume ?L
  then obtain cs where cs: "xs = encodeRunes cs" "\<forall>c \<in> set cs. scalar c \<and> c \<noteq> 0"
    "0xfeff \<notin> set (if first then tl cs else cs)"
    by (auto simp: sourceFrom_def)
  from cs(1) assms obtain v vs where "cs = v # vs" by (cases cs) (auto simp: encodeRunes_def)
  then show ?R using cs
    by (intro exI[of _ v] exI[of _ "encodeRunes vs"])
      (auto simp: encodeRunes_def sourceFrom_def split: if_splits)
next
  assume ?R
  then obtain v cs where "xs = encodeRune v @ encodeRunes cs" "scalar v" "v \<noteq> 0" "v = 0xfeff \<longrightarrow> first"
    "\<forall>c \<in> set cs. scalar c \<and> c \<noteq> 0" "0xfeff \<notin> set cs"
    by (auto simp: sourceFrom_def)
  then show ?L unfolding sourceFrom_def
    by (intro exI[of _ "v # cs"]) (auto simp: encodeRunes_def)
qed

text \<open>The first byte tells the encodings of one byte from the longer ones.\<close>

lemma encodeRune_first:
  assumes "scalar v"
  shows "v < 0x80 \<longleftrightarrow> hd (encodeRune v) < 0x80"
proof (cases "v < 0x80")
  case True
  then show ?thesis using assms by (simp add: encodeRune_1 scalar_def word_less_def byteOf_def[symmetric])
next
  case False
  then have "0x80 \<le> v" by simp
  moreover have "v \<le> 0x10ffff" using assms by (simp add: scalar_def)
  ultimately have "\<not> hd (encodeRune v) < 0x80"
  proof (cases rule: rune_digits)
    case (two a b)
    then have "encodeRune v = [byteOf (192 + a), byteOf (128 + b)]" using encodeRune_2 by simp
    then show ?thesis using two by (simp add: word_less_def)
  next
    case (three a b c)
    then have "encodeRune v = [byteOf (224 + a), byteOf (128 + b), byteOf (128 + c)]" using encodeRune_3 by simp
    then show ?thesis using three by (simp add: word_less_def)
  next
    case (four a b c d)
    then have "encodeRune v = [byteOf (240 + a), byteOf (128 + b), byteOf (128 + c), byteOf (128 + d)]"
      using encodeRune_4 by simp
    then show ?thesis using four by (simp add: word_less_def)
  qed
  with False show ?thesis by simp
qed

lemma sourceFrom_plain:
  assumes "0 < c" "c < 0x80"
  shows "sourceFrom first (c # xs) \<longleftrightarrow> sourceFrom False xs"
proof -
  have c: "0 < uint c" "uint c < 128" using assms by (simp_all add: word_less_def)
  have one: "c # xs = encodeRune v @ rest \<longleftrightarrow> v = uint c \<and> rest = xs" if "scalar v" for v rest
  proof
    assume eq: "c # xs = encodeRune v @ rest"
    then have "hd (encodeRune v) = c" using encodeRune_nonempty[of v] by (cases "encodeRune v") auto
    then have "v < 0x80" using encodeRune_first[OF that] assms(2) by simp
    then show "v = uint c \<and> rest = xs"
      using eq that by (auto simp: encodeRune_1 scalar_def byteOf_def[symmetric])
  qed (use c in \<open>auto simp: encodeRune_1 byteOf_def\<close>)
  have sc: "scalar (uint c)" using c by (simp add: scalar_def)
  have "sourceFrom first (c # xs) \<longleftrightarrow> (\<exists>v rest. c # xs = encodeRune v @ rest \<and> scalar v \<and> v \<noteq> 0
      \<and> (v = 0xfeff \<longrightarrow> first) \<and> sourceFrom False rest)"
    by (rule sourceFrom_rune) simp
  also have "\<dots> \<longleftrightarrow> sourceFrom False xs"
  proof
    assume "sourceFrom False xs"
    moreover have "c # xs = encodeRune (uint c) @ xs" using one[OF sc] by blast
    moreover have "uint c \<noteq> 0" "uint c = 0xfeff \<longrightarrow> first" using c by auto
    ultimately show "\<exists>v rest. c # xs = encodeRune v @ rest \<and> scalar v \<and> v \<noteq> 0
      \<and> (v = 0xfeff \<longrightarrow> first) \<and> sourceFrom False rest" using sc by blast
  next
    assume "\<exists>v rest. c # xs = encodeRune v @ rest \<and> scalar v \<and> v \<noteq> 0
      \<and> (v = 0xfeff \<longrightarrow> first) \<and> sourceFrom False rest"
    then obtain v rest where r: "c # xs = encodeRune v @ rest" "scalar v" "sourceFrom False rest" by auto
    then have "rest = xs" using one[OF r(2)] by simp
    then show "sourceFrom False xs" using r(3) by simp
  qed
  finally show ?thesis .
qed

lemma sourceFrom_plainSpan:
  assumes "0 \<le> i" "plainSpan src i i'"
  shows "sourceFrom (i = 0) (drop (nat i) src) \<longleftrightarrow> sourceFrom (i' = 0) (drop (nat i') src)"
  using assms
proof (induction "nat (i' - i)" arbitrary: i)
  case 0
  then have "i' = i" by (simp add: plainSpan_def)
  then show ?case by simp
next
  case (Suc n)
  then have lt: "i < i'" "i' \<le> int (length src)" and p: "plainAt src i" by (auto simp: plainSpan_def)
  then have "drop (nat i) src = src ! nat i # drop (nat (i + 1)) src"
    using Suc.prems(1) by (simp add: Cons_nth_drop_Suc nat_add_distrib)
  then have "sourceFrom (i = 0) (drop (nat i) src) \<longleftrightarrow> sourceFrom (i + 1 = 0) (drop (nat (i + 1)) src)"
    using p Suc.prems(1) sourceFrom_plain by (simp add: plainAt_def)
  moreover have "plainSpan src (i + 1) i'" using Suc.prems lt by (auto simp: plainSpan_def)
  ultimately show ?case using Suc.hyps(1)[of "i + 1"] Suc.hyps(2) Suc.prems(1) by simp
qed

lemma encodingWalk_correct:
  "0 \<le> i \<Longrightarrow> i \<le> int (length src) \<Longrightarrow> encodingWalk h src i = Some (sourceFrom (i = 0) (drop (nat i) src))"
proof (induction h src i rule: encodingWalk.induct)
  case (1 h src i)
  show ?case
  proof (cases "i < int (length src)")
    case False
    then show ?thesis using 1 by (subst encodingWalk.simps) (simp add: sourceFrom_Nil)
  next
    case True
    obtain i' where run: "asciiRun h src i = Some i'" and span: "plainSpan src i i'"
      and stop: "i' < int (length src) \<longrightarrow> \<not> plainAt src i'"
      using asciiRun_plain 1 by blast
    have src: "sourceFrom (i = 0) (drop (nat i) src) \<longleftrightarrow> sourceFrom (i' = 0) (drop (nat i') src)"
      using sourceFrom_plainSpan[OF 1(2) span] .
    have i': "0 \<le> i'" "i' \<le> int (length src)" using span 1 by (auto simp: plainSpan_def)
    show ?thesis
    proof (cases "i' = int (length src)")
      case fin: True
      then show ?thesis using True run src by (subst encodingWalk.simps) (simp add: sourceFrom_Nil)
    next
      case more: False
      let ?c = "src ! nat i'"
      have at: "at src i' = Some ?c" using i' more by simp
      have cons: "drop (nat i') src = ?c # drop (Suc (nat i')) src"
        using i' more by (simp add: Cons_nth_drop_Suc)
      have np: "\<not> (0 < ?c \<and> ?c < 0x80)" using stop i' more by (simp add: plainAt_def)
      have step: "encodingWalk h src i = (if ?c = 0 then Some False
          else case leadByte ?c of None \<Rightarrow> Some False
          | Some (n, v, minimum) \<Rightarrow>
              if i' + n > int (length src) then Some False
              else do {
                r \<leftarrow> continuation src i' n 1 v;
                case r of None \<Rightarrow> Some False
                | Some v \<Rightarrow>
                    if v < minimum \<or> v > 0x10ffff \<or> v \<ge> 0xd800 \<and> v \<le> 0xdfff \<or> v = 0xfeff \<and> i' \<noteq> 0
                    then Some False else encodingWalk h src (i' + n) })"
        using True run more at by (subst encodingWalk.simps) simp
      have any: "?c \<noteq> 0 \<and> (\<exists>v0 m. leadByte ?c = Some (int (length (encodeRune v)), v0, m)
          \<and> i' + int (length (encodeRune v)) \<le> int (length src)
          \<and> continuation src i' (int (length (encodeRune v))) 1 v0 = Some (Some v) \<and> m \<le> v)"
        if d: "drop (nat i') src = encodeRune v @ rest" and v: "scalar v" "v \<noteq> 0" for v rest
      proof -
        have hd: "hd (encodeRune v) = ?c" using d cons encodeRune_nonempty[of v] by (cases "encodeRune v") auto
        have "\<not> v < 0x80"
        proof
          assume "v < 0x80"
          then have "?c < 0x80" using encodeRune_first[OF v(1)] hd by simp
          moreover have "?c \<noteq> 0" using \<open>v < 0x80\<close> v hd by (auto simp: encodeRune_1 scalar_def byte_eq_iff_uint)
          ultimately show False using np by (simp add: word_gt_0)
        qed
        then have ge: "0x80 \<le> v" by simp
        then have "\<not> ?c < 0x80" using encodeRune_first[OF v(1)] hd by simp
        then have "?c \<noteq> 0" by auto
        then show ?thesis using sequence_complete[OF i'(1) d v(1) ge] by blast
      qed
      have spec: "sourceFrom (i' = 0) (drop (nat i') src) \<longleftrightarrow>
          (\<exists>v rest. drop (nat i') src = encodeRune v @ rest \<and> scalar v \<and> v \<noteq> 0
             \<and> (v = 0xfeff \<longrightarrow> i' = 0) \<and> sourceFrom False rest)"
        using cons by (subst sourceFrom_rune) auto
      show ?thesis
      proof (cases "\<exists>n v0 m v. ?c \<noteq> 0 \<and> leadByte ?c = Some (n, v0, m) \<and> i' + n \<le> int (length src)
          \<and> continuation src i' n 1 v0 = Some (Some v) \<and> m \<le> v")
        case False
        then have "\<not> sourceFrom (i' = 0) (drop (nat i') src)" unfolding spec using any by blast
        moreover have "encodingWalk h src i = Some False"
        proof (cases "leadByte ?c")
          case None
          then show ?thesis by (simp add: step)
        next
          case (Some l)
          obtain n v0 m where l: "l = (n, v0, m)" by (cases l)
          have "\<exists>r. continuation src i' n 1 v0 = Some r" if "i' + n \<le> int (length src)"
            using continuation_total[of i' 1 n src] i' that by simp
          then show ?thesis using False Some l unfolding step by (fastforce split: option.split)
        qed
        ultimately show ?thesis using src by simp
      next
        case True
        then obtain n v0 m v where c: "?c \<noteq> 0" and lead: "leadByte ?c = Some (n, v0, m)"
          and n: "i' + n \<le> int (length src)" and cont: "continuation src i' n 1 v0 = Some (Some v)" and m: "m \<le> v"
          by blast
        have d: "drop (nat i') src = encodeRune v @ drop (nat (i' + n)) src"
          and len: "n = int (length (encodeRune v))" and ge: "0x80 \<le> v"
          using sequence_sound[OF i'(1) lead n cont m] by auto
        have uniq: "v' = v \<and> rest' = drop (nat (i' + n)) src"
          if "drop (nat i') src = encodeRune v' @ rest'" "scalar v'" "v' \<noteq> 0" for v' rest'
        proof -
          have "v' = v" using any[OF that] lead cont by auto
          then show ?thesis using that(1) d by simp
        qed
        let ?bad = "v < m \<or> v > 0x10ffff \<or> v \<ge> 0xd800 \<and> v \<le> 0xdfff \<or> v = 0xfeff \<and> i' \<noteq> 0"
        have bad: "?bad \<longleftrightarrow> \<not> (scalar v \<and> (v = 0xfeff \<longrightarrow> i' = 0))"
          using m ge by (auto simp: scalar_def)
        have eq: "encodingWalk h src i = (if ?bad then Some False else encodingWalk h src (i' + n))"
          using c lead n cont unfolding step by simp
        show ?thesis
        proof (cases ?bad)
          case True
          have "\<not> sourceFrom (i' = 0) (drop (nat i') src)"
            unfolding spec using uniq True bad by blast
          then show ?thesis using eq True src by simp
        next
          case False
          have pos: "0 < i' + n" using len encodeRune_nonempty[of v] i' by (cases "encodeRune v") auto
          have "encodingWalk h src (i' + n) = Some (sourceFrom False (drop (nat (i' + n)) src))"
            using 1(1)[OF \<open>i < int (length src)\<close> run more at c lead refl refl _ cont refl False] pos n by simp
          moreover have "sourceFrom (i' = 0) (drop (nat i') src) \<longleftrightarrow> sourceFrom False (drop (nat (i' + n)) src)"
          proof
            assume "sourceFrom (i' = 0) (drop (nat i') src)"
            then show "sourceFrom False (drop (nat (i' + n)) src)" unfolding spec using uniq by blast
          next
            assume "sourceFrom False (drop (nat (i' + n)) src)"
            moreover have "scalar v" "v = 0xfeff \<longrightarrow> i' = 0" "v \<noteq> 0" using False bad ge by auto
            ultimately show "sourceFrom (i' = 0) (drop (nat i') src)" unfolding spec using d by blast
          qed
          ultimately show ?thesis using eq False src by simp
        qed
      qed
    qed
  qed
qed

theorem validSourceEncoding_iff: "validSourceEncoding h src = Some (sourceText src)"
  by (simp add: validSourceEncoding_def sourceText_def encodingWalk_correct)

end
