(* ===== verification/Syn_Unicode_Tables.thy ===== *)
theory Syn_Unicode_Tables
  imports Syn_Token
begin

text \<open>
  The tables of \<open>internal/syntax/unicode_tables.go\<close>, byte for byte: each range is three numbers of
  four characters, the first and the last code point and the stride.  A quotation mark, an apostrophe
  and a backslash stand as \<open>CHR 0x22\<close>, \<open>CHR 0x27\<close> and \<open>CHR 0x5C\<close>.
\<close>

definition unicodeLetterRanges :: gostring where
  "unicodeLetterRanges = ascii (concat [
    ''  !!  !:   !  !A  !Z   !  '', [CHR 0x22], ''J  '', [CHR 0x22], ''U   +  '', [CHR 0x22], ''Z  #    &  #!  #6   !  #8  #V   !  #X  +!   !  +&  +1   !'',
    ''  +@  +D   !  +L  +N   '', [CHR 0x22], ''  -P  -T   !  -V  -W   !  -Z  -]   !  -_  .&   '', [CHR 0x27], ''  .(  .*   !  .,  ..   '', [CHR 0x22],
    ''  ./  .A   !  .C  /U   !  /W  2!   !  2*  4O   !  4Q  56   !  59  5@   '', [CHR 0x27], ''  5A  6(   !  70  7J   !'',
    ''  7O  7R   !  8@  9*   !  9N  9O   !  9Q  ;3   !  ;5  ;E   0  ;F  ;N   (  ;O  ;Z   +  ;[  ;'', [CHR 0x5C], ''   !'',
    ''  ;_  <0   1  <2  <O   !  =-  >E   !  >Q  ?*   9  ?+  ?J   !  ?T  ?U   !  ?Z  @    &  @!  @5   !'',
    ''  @:  @D   *  @H  A    8  A!  A8   !  A@  AJ   !  AP  B'', [CHR 0x27], ''   !  B)  B.   !  B@  C)   !  D$  DY   !'',
    ''  D]  E0   3  E8  EA   !  EQ  F    !  F%  F,   !  F/  F0   !  F3  FH   !  FJ  FP   !  FR  FV   $'',
    ''  FW  FY   !  F]  G.   1  G<  G=   !  G?  GA   !  GP  GQ   !  G'', [CHR 0x5C], ''  H%   )  H&  H*   !  H/  H0   !'',
    ''  H3  HH   !  HJ  HP   !  HR  HS   !  HU  HV   !  HX  HY   !  I9  I<   !  I>  IR   4  IS  IT   !'',
    ''  J%  J-   !  J/  J1   !  J3  JH   !  JJ  JP   !  JR  JS   !  JU  JY   !  J]  K0   3  K@  KA   !'',
    ''  KY  L%   ,  L&  L,   !  L/  L0   !  L3  LH   !  LJ  LP   !  LR  LS   !  LU  LY   !  L]  M<   ?'',
    ''  M=  M?   '', [CHR 0x22], ''  M@  MA   !  MQ  N#   2  N%  N*   !  N.  N0   !  N2  N5   !  N9  N:   !  N<  N>   '', [CHR 0x22],
    ''  N?  NC   $  ND  NH   $  NI  NJ   !  NN  NY   !  O0  P%   U  P&  P,   !  P.  P0   !  P2  PH   !'',
    ''  PJ  PY   !  P]  Q8   ;  Q9  Q:   !  Q=  Q@   #  QA  R    ?  R%  R,   !  R.  R0   !  R2  RH   !'',
    ''  RJ  RS   !  RU  RY   !  R]  S=   @  S>  S@   '', [CHR 0x22], ''  SA  SQ   0  SR  T$   2  T%  T,   !  T.  T0   !'',
    ''  T2  TZ   !  T]  U.   1  U4  U6   !  U?  UA   !  UZ  U_   !  V%  V6   !  V:  VQ   !  VS  V[   !'',
    ''  V]  W    #  W!  W&   !  X!  XP   !  XR  XS   !  Y   Y&   !  Z!  Z'', [CHR 0x22], ''   !  Z$  Z&   '', [CHR 0x22], ''  Z'', [CHR 0x27], ''  Z*   !'',
    ''  Z,  ZC   !  ZE  ZG   '', [CHR 0x22], ''  ZH  ZP   !  ZR  ZS   !  Z]  [    #  [!  [$   !  [&  [<   6  [=  [?   !'',
    ''  '', [CHR 0x5C], ''   ]   !   ]!  ]'', [CHR 0x27], ''   !  ])  ]L   !  ^(  ^,   ! !   ! J   ! ! _ !!0   1 !!1 !!5   ! !!: !!=   !'',
    '' !!A !!E   $ !!F !!N   ( !!O !!P   ! !!U !'', [CHR 0x22], ''!   ! !'', [CHR 0x22], ''. !'', [CHR 0x22], ''@   2 !'', [CHR 0x22], ''A !#%   ! !#'', [CHR 0x27], '' !#-   & !#0 !#Z   !'',
    '' !#'', [CHR 0x5C], '' !)(   ! !)* !)-   ! !)0 !)6   ! !)8 !):   '', [CHR 0x22], '' !); !)=   ! !)@ !*(   ! !** !*-   ! !*0 !*P   !'',
    '' !*R !*U   ! !*X !*^   ! !+  !+'', [CHR 0x22], ''   '', [CHR 0x22], '' !+# !+%   ! !+( !+6   ! !+8 !,0   ! !,2 !,5   ! !,8 !-:   !'',
    '' !.  !./   ! !.@ !/U   ! !/X !/]   ! !0! !9L   ! !9O !9_   ! !:! !::   ! !:@ !;J   ! !;Q !;X   !'',
    '' !<  !<1   ! !<? !<Q   ! !=  !=1   ! !=@ !=L   ! !=N !=P   ! !>  !>S   ! !?7 !?<   % !@@ !AX   !'',
    '' !B  !B$   ! !B'', [CHR 0x27], '' !BH   ! !BJ !BP   & !BQ !CU   ! !D  !D>   ! !E0 !EM   ! !EP !ET   ! !F  !FK   !'',
    '' !FP !G)   ! !H  !H6   ! !H@ !I4   ! !JG !L%  !> !L& !LS   ! !M% !M,   ! !N# !N@   ! !NN !NO   !'',
    '' !NZ !OE   ! !P  !PC   ! !Q- !Q/   ! !Q: !Q]   ! !R  !R(   ! !R0 !RZ   ! !R] !R_   ! !SI !SL   !'',
    '' !SN !SS   ! !SU !SV   ! !SZ !T    & !T! !V_   ! !X  !'', [CHR 0x5C], ''5   ! !'', [CHR 0x5C], ''8 !'', [CHR 0x5C], ''=   ! !'', [CHR 0x5C], ''@ !]%   ! !]( !]-   !'',
    '' !]0 !]7   ! !]9 !]?   '', [CHR 0x22], '' !]@ !]'', '']   ! !^  !^T   ! !^V !^'', [CHR 0x5C], ''   ! !^^ !_'', [CHR 0x22], ''   $ !_# !_$   ! !_& !_,   !'',
    '' !_0 !_3   ! !_6 !_;   ! !_@ !_L   ! !_R !_T   ! !_V !_'', [CHR 0x5C], ''   ! '', [CHR 0x22], ''!Q '', [CHR 0x22], ''!_   . '', [CHR 0x22], [CHR 0x22], ''0 '', [CHR 0x22], [CHR 0x22], ''<   ! '', [CHR 0x22], ''$'', [CHR 0x22], '' '', [CHR 0x22], ''$'', [CHR 0x27], ''   %'',
    '' '', [CHR 0x22], ''$* '', [CHR 0x22], ''$3   ! '', [CHR 0x22], ''$5 '', [CHR 0x22], ''$9   $ '', [CHR 0x22], ''$: '', [CHR 0x22], ''$=   ! '', [CHR 0x22], ''$D '', [CHR 0x22], ''$J   '', [CHR 0x22], '' '', [CHR 0x22], ''$K '', [CHR 0x22], ''$M   ! '', [CHR 0x22], ''$O '', [CHR 0x22], ''$Y   ! '', [CHR 0x22], ''$'', [CHR 0x5C], '' '', [CHR 0x22], ''$_   ! '', [CHR 0x22], ''%% '', [CHR 0x22], ''%)   !'',
    '' '', [CHR 0x22], ''%. '', [CHR 0x22], ''&#   U '', [CHR 0x22], ''&$ '', [CHR 0x22], ''P   I'', [CHR 0x5C], '' '', [CHR 0x22], ''P! '', [CHR 0x22], ''SD   ! '', [CHR 0x22], ''SK '', [CHR 0x22], ''SN   ! '', [CHR 0x22], ''SR '', [CHR 0x22], ''SS   ! '', [CHR 0x22], ''T  '', [CHR 0x22], ''TE   ! '', [CHR 0x22], ''TG '', [CHR 0x22], ''TM   & '', [CHR 0x22], ''TP '', [CHR 0x22], ''UG   !'',
    '' '', [CHR 0x22], ''UO '', [CHR 0x22], ''V    1 '', [CHR 0x22], ''V! '', [CHR 0x22], ''V6   ! '', [CHR 0x22], ''V@ '', [CHR 0x22], ''VF   ! '', [CHR 0x22], ''VH '', [CHR 0x22], ''VN   ! '', [CHR 0x22], ''VP '', [CHR 0x22], ''VV   ! '', [CHR 0x22], ''VX '', [CHR 0x22], ''V^   ! '', [CHR 0x22], ''W  '', [CHR 0x22], ''W&   ! '', [CHR 0x22], ''W( '', [CHR 0x22], ''W.   !'',
    '' '', [CHR 0x22], ''W0 '', [CHR 0x22], ''W6   ! '', [CHR 0x22], ''W8 '', [CHR 0x22], ''W>   ! '', [CHR 0x22], ''XO # %  '', [CHR 0x27], ''6 # & # Q   K # R # U   ! # [ # '', [CHR 0x5C], ''   ! #!! #'', [CHR 0x22], ''6   ! #'', [CHR 0x22], ''= #'', [CHR 0x22], ''?   !'',
    '' #'', [CHR 0x22], ''A ##Z   ! ##'', [CHR 0x5C], '' ##_   ! #$% #$O   ! #$Q #&.   ! #&@ #&_   ! #'', [CHR 0x27], ''P #'', [CHR 0x27], ''_   ! #0  $V_   ! $X  *2,   !'',
    '' *30 *3]   ! *4  *8,   ! *80 *8?   ! *8J *8K   ! *9  *9N   ! *9_ *:=   ! *:@ *;E   ! *<7 *<?   !'',
    '' *<B *>(   ! *>+ *?*   ! *?0 *?1   ! *?3 *?5   '', [CHR 0x22], '' *?6 *?9   ! *?R *@!   ! *@# *@%   ! *@'', [CHR 0x27], '' *@*   !'',
    '' *@, *@B   ! *A  *AS   ! *B'', [CHR 0x22], '' *BS   ! *CR *CW   ! *C[ *C]   '', [CHR 0x22], '' *C^ *D*   , *D+ *DE   ! *DP *E&   !'',
    '' *E@ *E'', [CHR 0x5C], ''   ! *F$ *FR   ! *G/ *G@   1 *GA *GD   ! *GF *GO   ! *GZ *G^   ! *H  *HH   ! *I  *I'', [CHR 0x22], ''   !'',
    '' *I$ *I+   ! *I@ *IV   ! *IZ *I^   $ *I_ *JO   ! *JQ *JU   $ *JV *JY   # *JZ *J]   ! *K  *K'', [CHR 0x22], ''   '', [CHR 0x22],
    '' *K; *K=   ! *K@ *KJ   ! *KR *KT   ! *L! *L&   ! *L) *L.   ! *L1 *L6   ! *L@ *LF   ! *LH *LN   !'',
    '' *LP *M:   ! *M< *MI   ! *MP *OB   ! *P  ->C   ! ->P -?&   ! -?+ -?[   ! /D  /IM   ! /IP /K9   !'',
    '' /L  /L&   ! /L3 /L7   ! /L= /L?   '', [CHR 0x22], '' /L@ /LH   ! /LJ /LV   ! /LX /L'', [CHR 0x5C], ''   ! /L^ /M    '', [CHR 0x22], '' /M! /M#   '', [CHR 0x22],
    '' /M$ /M&   '', [CHR 0x22], '' /M'', [CHR 0x27], '' /NQ   ! /O3 /T]   ! /U0 /V/   ! /V2 /W'', [CHR 0x27], ''   ! /WP /W[   ! /YP /YT   ! /YV /['', [CHR 0x5C], ''   !'',
    '' /'', [CHR 0x5C], ''A /'', [CHR 0x5C], ''Z   ! /]! /]:   ! /]F /^^   ! /_'', [CHR 0x22], '' /_'', [CHR 0x27], ''   ! /_* /_/   ! /_2 /_7   ! /_: /_<   ! 0   0 +   !'',
    '' 0 - 0 F   ! 0 H 0 Z   ! 0 '', [CHR 0x5C], '' 0 ]   ! 0 _ 0!-   ! 0!0 0!=   ! 0'', [CHR 0x22], ''  0#Z   ! 0*  0*<   ! 0*@ 0+0   !'',
    '' 0,  0,?   ! 0,M 0-    ! 0-'', [CHR 0x22], '' 0-)   ! 0-0 0-U   ! 0.  0.=   ! 0.@ 0/#   ! 0/( 0//   ! 00  02=   !'',
    '' 02P 033   ! 038 03[   ! 04  04G   ! 04P 05C   ! 05P 05Z   ! 05'', [CHR 0x5C], '' 06*   ! 06, 062   ! 064 065   !'',
    '' 067 06A   ! 06C 06Q   ! 06S 06Y   ! 06[ 06'', [CHR 0x5C], ''   ! 08  0<V   ! 0=  0=5   ! 0=@ 0=G   ! 0>  0>%   !'',
    '' 0>'', [CHR 0x27], '' 0>P   ! 0>R 0>Z   ! 0@  0@%   ! 0@( 0@*   '', [CHR 0x22], '' 0@+ 0@U   ! 0@W 0@X   ! 0@'', [CHR 0x5C], '' 0@_   # 0A  0A5   !'',
    '' 0A@ 0AV   ! 0B  0B>   ! 0C@ 0CR   ! 0CT 0CU   ! 0D  0D5   ! 0D@ 0DY   ! 0F  0FW   ! 0F^ 0F_   !'',
    '' 0H  0H0   0 0H1 0H3   ! 0H5 0H7   ! 0H9 0HU   ! 0I@ 0I'', [CHR 0x5C], ''   ! 0J  0J<   ! 0K  0K'', [CHR 0x27], ''   ! 0K) 0KD   !'',
    '' 0L  0LU   ! 0M  0M5   ! 0M@ 0MR   ! 0N  0N1   ! 0P  0Q(   ! 0R  0RR   ! 0S  0SR   ! 0T  0TC   !'',
    '' 0Z  0ZI   ! 0ZP 0ZQ   ! 0'', [CHR 0x5C], ''  0'', [CHR 0x5C], ''<   ! 0'', [CHR 0x5C], ''G 0'', [CHR 0x5C], ''P   ) 0'', [CHR 0x5C], ''Q 0]%   ! 0]P 0^!   ! 0^P 0_$   ! 0_@ 0_V   !'',
    '' 1 # 1 W   ! 1!Q 1!R   ! 1!U 1'', [CHR 0x22], ''#   . 1'', [CHR 0x22], ''$ 1'', [CHR 0x22], ''O   ! 1#0 1#H   ! 1$# 1$F   ! 1%$ 1%'', [CHR 0x27], ''   # 1%0 1%R   !'',
    '' 1%V 1&#   - 1&$ 1&R   ! 1'', [CHR 0x27], ''! 1'', [CHR 0x27], ''$   ! 1'', [CHR 0x27], '': 1'', [CHR 0x27], ''<   '', [CHR 0x22], '' 1(  1(1   ! 1(3 1(K   ! 1(_ 1)    ! 1*  1*&   !'',
    '' 1*( 1**   '', [CHR 0x22], '' 1*+ 1*-   ! 1*/ 1*=   ! 1*? 1*H   ! 1*P 1+>   ! 1,% 1,,   ! 1,/ 1,0   ! 1,3 1,H   !'',
    '' 1,J 1,P   ! 1,R 1,S   ! 1,U 1,Y   ! 1,] 1-0   3 1-= 1-A   ! 10  10T   ! 11'', [CHR 0x27], '' 11*   ! 11? 11A   !'',
    '' 12  12O   ! 13$ 13%   ! 13'', [CHR 0x27], '' 16   '', [CHR 0x22], ''Y 16! 16N   ! 178 17;   ! 18  18O   ! 19$ 1:    '', [CHR 0x5C], '' 1:! 1:J   !'',
    '' 1:X 1<   !( 1<! 1<:   ! 1=  1=&   ! 1@  1@K   ! 1B@ 1C?   ! 1C_ 1D&   ! 1D) 1D,   # 1D- 1D3   !'',
    '' 1D5 1D6   ! 1D8 1DO   ! 1D_ 1E!   '', [CHR 0x22], '' 1F@ 1FG   ! 1FJ 1G0   ! 1GA 1GC   '', [CHR 0x22], '' 1H  1H+   + 1H, 1HR   !'',
    '' 1HZ 1I0   6 1I< 1J)   ! 1J= 1JP   3 1JQ 1KX   ! 1P  1P(   ! 1P* 1PN   ! 1Q  1QR   R 1QS 1R/   !'',
    '' 1T  1T&   ! 1T( 1T)   ! 1T+ 1TP   ! 1U& 1U@   : 1UA 1UE   ! 1UG 1UH   ! 1UJ 1V)   ! 1V8 1[@  %('',
    '' 1[A 1[R   ! 1'', [CHR 0x5C], [CHR 0x22], '' 1'', [CHR 0x5C], ''$   '', [CHR 0x22], '' 1'', [CHR 0x5C], ''% 1'', [CHR 0x5C], ''0   ! 1'', [CHR 0x5C], ''2 1'', [CHR 0x5C], ''S   ! 1^P 2    !0 2 ! 2.9   ! 22  25#   ! 2^0 2_P   !'',
    '' 3   30O   ! 31! 31&   ! 40  49&   ! 6@  6HX   ! 6I  6I>   ! 6IP 6J^   ! 6K0 6KM   ! 6L  6LO   !'',
    '' 6M  6M#   ! 6MC 6MW   ! 6M] 6N/   ! 6Y  6Y_   ! 6'', [CHR 0x5C], ''  6]*   ! 6]0 6^3  !# 6^4 6^?   ! 6_@ 6_A   !'',
    '' 6_C 7     = 7 ! 8?W   ! 8@  8S5   ! 8T  8T(   ! :_P :_S   ! :_U :_[   ! :_] :_^   ! ;   ;$B   !'',
    '' ;$R ;%0   > ;%1 ;%2   ! ;%5 ;%D   / ;%E ;%G   ! ;%P ;+[   ! ;P  ;QJ   ! ;QP ;Q'', [CHR 0x5C], ''   ! ;R  ;R(   !'',
    '' ;R0 ;R9   ! =0  =14   ! =16 =2<   ! =2> =2?   ! =2B =2E   # =2F =2I   # =2J =2L   ! =2N =2Y   !'',
    '' =2[ =2]   '', [CHR 0x22], '' =2^ =3#   ! =3% =4%   ! =4'', [CHR 0x27], '' =4*   ! =4- =44   ! =46 =4<   ! =4> =4Y   ! =4[ =4^   !'',
    '' =5  =5$   ! =5& =5*   $ =5+ =50   ! =52 =:E   ! =:H =;    ! =;'', [CHR 0x22], '' =;:   ! =;< =;Z   ! =;'', [CHR 0x5C], '' =<4   !'',
    '' =<6 =<T   ! =<V ==.   ! ==0 ==N   ! ==P =>(   ! =>* =>H   ! =>J =?'', [CHR 0x22], ''   ! =?$ =?+   ! ='', [CHR 0x5C], ''  ='', [CHR 0x5C], ''>   !'',
    '' ='', [CHR 0x5C], ''E ='', [CHR 0x5C], ''J   ! > P >!M   ! >$  >$L   ! >$W >$]   ! >%. >*0  %'', [CHR 0x22], '' >*1 >*M   ! >+  >+K   ! >30 >3K   !'',
    '' >?@ >?F   ! >?H >?K   ! >?M >?N   ! >?P >?^   ! >@  >C$   ! >D  >E#   ! >E+ >X   2U >X! >X#   !'',
    '' >X% >X?   ! >XA >XB   ! >XD >XG   # >XI >XR   ! >XT >XW   ! >XY >X[   '', [CHR 0x22], '' >Y'', [CHR 0x22], '' >Y'', [CHR 0x27], ''   % >Y) >Y-   '', [CHR 0x22],
    '' >Y. >Y/   ! >Y1 >Y2   ! >Y4 >Y7   # >Y9 >YA   '', [CHR 0x22], '' >YB >YD   '', [CHR 0x22], '' >YG >YJ   ! >YL >YR   ! >YT >YW   !'',
    '' >YY >Y'', [CHR 0x5C], ''   ! >Y^ >Z    '', [CHR 0x22], '' >Z! >Z)   ! >Z+ >Z;   ! >ZA >ZC   ! >ZE >ZI   ! >ZK >Z[   ! @   J;?   !'',
    '' J<  K<Y   ! K=  K@=   ! K@@ LZA   ! LZP NO@   ! O@  OH=   ! P   Q-*   ! Q-0 R.O   !''])"

definition unicodeDigitRanges :: gostring where
  "unicodeDigitRanges = ascii (concat [
    ''   P   Y   !  9@  9I   !  ;P  ;Y   !  ?   ?)   !  EF  EO   !  GF  GO   !  IF  IO   !  KF  KO   !'',
    ''  MF  MO   !  OF  OO   !  QF  QO   !  SF  SO   !  UF  UO   !  WF  WO   !  Y0  Y9   !  [0  [9   !'',
    ''  '', [CHR 0x5C], ''@  '', [CHR 0x5C], ''I   ! !!  !!)   ! !'', [CHR 0x22], ''0 !'', [CHR 0x22], ''9   ! !?@ !?I   ! !@0 !@9   ! !E& !E/   ! !G0 !G9   ! !J  !J)   !'',
    '' !J0 !J9   ! !M0 !M9   ! !NP !NY   ! !Q  !Q)   ! !Q0 !Q9   ! *8@ *8I   ! *C0 *C9   ! *D  *D)   !'',
    '' *G0 *G9   ! *GP *GY   ! *I0 *I9   ! *OP *OY   ! /'', [CHR 0x5C], ''0 /'', [CHR 0x5C], ''9   ! 02@ 02I   ! 0TP 0TY   ! 1!F 1!O   !'',
    '' 1#P 1#Y   ! 1$V 1$_   ! 1'', [CHR 0x27], ''0 1'', [CHR 0x27], ''9   ! 1+P 1+Y   ! 110 119   ! 130 139   ! 190 199   ! 1;  1;)   !'',
    '' 1<P 1<Y   ! 1C@ 1CI   ! 1E0 1E9   ! 1Q0 1Q9   ! 1U0 1U9   ! 1V@ 1VI   ! 1]0 1]9   ! 6I@ 6II   !'',
    '' 6K  6K)   ! 6M0 6M9   ! =?. =?_   ! >%  >%)   ! >+P >+Y   ! >3P >3Y   ! >E0 >E9   ! ?OP ?OY   !''])"

definition unicodeUpperRanges :: gostring where
  "unicodeUpperRanges = ascii (concat [
    ''  !!  !:   !  #   #6   !  #8  #>   !  $   $V   '', [CHR 0x22], ''  $Y  %'', [CHR 0x27], ''   '', [CHR 0x22], ''  %*  %X   '', [CHR 0x22], ''  %Y  %]   '', [CHR 0x22], ''  &!  &'', [CHR 0x22], ''   !'',
    ''  &$  &&   '', [CHR 0x22], ''  &'', [CHR 0x27], ''  &)   '', [CHR 0x22], ''  &*  &+   !  &.  &1   !  &3  &4   !  &6  &8   !  &<  &=   !  &?  &@   !'',
    ''  &B  &F   '', [CHR 0x22], ''  &G  &I   '', [CHR 0x22], ''  &L  &N   '', [CHR 0x22], ''  &O  &Q   '', [CHR 0x22], ''  &R  &S   !  &U  &W   '', [CHR 0x22], ''  &X  &'', [CHR 0x5C], ''   $  '', [CHR 0x27], ''$  '', [CHR 0x27], ''-   #'',
    ''  '', [CHR 0x27], ''/  '', [CHR 0x27], '';   '', [CHR 0x22], ''  '', [CHR 0x27], ''>  '', [CHR 0x27], ''N   '', [CHR 0x22], ''  '', [CHR 0x27], ''Q  '', [CHR 0x27], ''T   #  '', [CHR 0x27], ''V  '', [CHR 0x27], ''X   !  '', [CHR 0x27], ''Z  (R   '', [CHR 0x22], ''  (Z  ([   !  (]  (^   !  )!  )#   '', [CHR 0x22],
    ''  )$  )&   !  )(  ).   '', [CHR 0x22], ''  -P  -R   '', [CHR 0x22], ''  -V  -_   )  .&  .(   '', [CHR 0x22], ''  .)  .*   !  .,  ..   '', [CHR 0x22], ''  ./  .1   '', [CHR 0x22],
    ''  .2  .A   !  .C  .K   !  //  /2   #  /3  /4   !  /8  /N   '', [CHR 0x22], ''  /T  /W   #  /Y  /Z   !  /]  0O   !'',
    ''  1@  2    '', [CHR 0x22], ''  2*  3    '', [CHR 0x22], ''  3!  3-   '', [CHR 0x22], ''  30  4N   '', [CHR 0x22], ''  4Q  56   ! !'', [CHR 0x22], ''@ !#%   ! !#'', [CHR 0x27], '' !#-   & !.@ !/U   !'',
    '' !R0 !RZ   ! !R] !R_   ! !X  !Z4   '', [CHR 0x22], '' !Z> ![^   '', [CHR 0x22], '' !'', [CHR 0x5C], ''( !'', [CHR 0x5C], ''/   ! !'', [CHR 0x5C], ''8 !'', [CHR 0x5C], ''=   ! !'', [CHR 0x5C], ''H !'', [CHR 0x5C], ''O   ! !'', [CHR 0x5C], ''X !'', [CHR 0x5C], ''_   !'',
    '' !]( !]-   ! !]9 !]?   '', [CHR 0x22], '' !]H !]O   ! !^X !^[   ! !_( !_+   ! !_8 !_;   ! !_H !_L   ! !_X !_[   !'',
    '' '', [CHR 0x22], ''$'', [CHR 0x22], '' '', [CHR 0x22], ''$'', [CHR 0x27], ''   % '', [CHR 0x22], ''$+ '', [CHR 0x22], ''$-   ! '', [CHR 0x22], ''$0 '', [CHR 0x22], ''$2   ! '', [CHR 0x22], ''$5 '', [CHR 0x22], ''$9   $ '', [CHR 0x22], ''$: '', [CHR 0x22], ''$=   ! '', [CHR 0x22], ''$D '', [CHR 0x22], ''$J   '', [CHR 0x22], '' '', [CHR 0x22], ''$K '', [CHR 0x22], ''$M   ! '', [CHR 0x22], ''$P '', [CHR 0x22], ''$S   !'',
    '' '', [CHR 0x22], ''$^ '', [CHR 0x22], ''$_   ! '', [CHR 0x22], ''%% '', [CHR 0x22], ''&#   ^ '', [CHR 0x22], ''P  '', [CHR 0x22], ''PO   ! '', [CHR 0x22], ''Q@ '', [CHR 0x22], ''QB   '', [CHR 0x22], '' '', [CHR 0x22], ''QC '', [CHR 0x22], ''QD   ! '', [CHR 0x22], ''QG '', [CHR 0x22], ''QM   '', [CHR 0x22], '' '', [CHR 0x22], ''QN '', [CHR 0x22], ''QP   ! '', [CHR 0x22], ''QR '', [CHR 0x22], ''QU   #'',
    '' '', [CHR 0x22], ''Q^ '', [CHR 0x22], ''R    ! '', [CHR 0x22], ''R'', [CHR 0x22], '' '', [CHR 0x22], ''SB   '', [CHR 0x22], '' '', [CHR 0x22], ''SK '', [CHR 0x22], ''SM   '', [CHR 0x22], '' '', [CHR 0x22], ''SR *9  '', [CHR 0x27], ''E. *9'', [CHR 0x22], '' *9L   '', [CHR 0x22], '' *:  *::   '', [CHR 0x22], '' *<B *<N   '', [CHR 0x22], '' *<R *=N   '', [CHR 0x22],
    '' *=Y *=]   '', [CHR 0x22], '' *=^ *>&   '', [CHR 0x22], '' *>+ *>-   '', [CHR 0x22], '' *>0 *>2   '', [CHR 0x22], '' *>6 *>J   '', [CHR 0x22], '' *>K *>N   ! *>P *>T   ! *>V *?$   '', [CHR 0x22],
    '' *?% *?'', [CHR 0x27], ''   ! *?) *?0   '', [CHR 0x27], '' *?6 *?8   '', [CHR 0x22], '' *?U /'', [CHR 0x5C], ''A %<L /'', [CHR 0x5C], ''B /'', [CHR 0x5C], ''Z   ! 00  00G   ! 02P 033   ! 05P 05Z   !'',
    '' 05'', [CHR 0x5C], '' 06*   ! 06, 062   ! 064 065   ! 0R  0RR   ! 1B@ 1B_   ! 6Y  6Y?   ! =0  =09   ! =0T =1-   !'',
    '' =1H =2!   ! =2< =2>   '', [CHR 0x22], '' =2? =2E   # =2F =2I   # =2J =2L   ! =2N =2U   ! =30 =3I   ! =4$ =4%   !'',
    '' =4'', [CHR 0x27], '' =4*   ! =4- =44   ! =46 =4<   ! =4X =4Y   ! =4[ =4^   ! =5  =5$   ! =5& =5*   $ =5+ =50   !'',
    '' =5L =6%   ! =6@ =6Y   ! =74 =7M   ! =8( =8A   ! =8'', [CHR 0x5C], '' =95   ! =9P =:)   ! =:H =;    ! =;B =;Z   !'',
    '' =<< =<T   ! ==6 ==N   ! =>0 =>H   ! =?* >D  !$V >D! >DA   !''])"

end
