(* ===== verification/Syn_Ranges.thy ===== *)
theory Syn_Ranges
  imports Syn_Unicode
begin

text \<open>
  Facts about the range tables: the three tables of \<open>unicode_tables.go\<close> are well formed, checked
  by simplification over their text, and on a well-formed table the binary search of
  \<open>unicodeRangeContains\<close> is membership in one of the ranges.
\<close>

subsection \<open>The tables are well formed\<close>

definition sixBits :: "char \<Rightarrow> int" where
  "sixBits c = of_char c - 32"

lemma sixBits_char:
  "sixBits (CHR '' '') = 0"
  "sixBits (CHR ''!'') = 1"
  "sixBits (CHR 0x22) = 2"
  "sixBits (CHR ''#'') = 3"
  "sixBits (CHR ''$'') = 4"
  "sixBits (CHR ''%'') = 5"
  "sixBits (CHR ''&'') = 6"
  "sixBits (CHR 0x27) = 7"
  "sixBits (CHR ''('') = 8"
  "sixBits (CHR '')'') = 9"
  "sixBits (CHR ''*'') = 10"
  "sixBits (CHR ''+'') = 11"
  "sixBits (CHR '','') = 12"
  "sixBits (CHR ''-'') = 13"
  "sixBits (CHR ''.'') = 14"
  "sixBits (CHR ''/'') = 15"
  "sixBits (CHR ''0'') = 16"
  "sixBits (CHR ''1'') = 17"
  "sixBits (CHR ''2'') = 18"
  "sixBits (CHR ''3'') = 19"
  "sixBits (CHR ''4'') = 20"
  "sixBits (CHR ''5'') = 21"
  "sixBits (CHR ''6'') = 22"
  "sixBits (CHR ''7'') = 23"
  "sixBits (CHR ''8'') = 24"
  "sixBits (CHR ''9'') = 25"
  "sixBits (CHR '':'') = 26"
  "sixBits (CHR '';'') = 27"
  "sixBits (CHR ''<'') = 28"
  "sixBits (CHR ''='') = 29"
  "sixBits (CHR ''>'') = 30"
  "sixBits (CHR ''?'') = 31"
  "sixBits (CHR ''@'') = 32"
  "sixBits (CHR ''A'') = 33"
  "sixBits (CHR ''B'') = 34"
  "sixBits (CHR ''C'') = 35"
  "sixBits (CHR ''D'') = 36"
  "sixBits (CHR ''E'') = 37"
  "sixBits (CHR ''F'') = 38"
  "sixBits (CHR ''G'') = 39"
  "sixBits (CHR ''H'') = 40"
  "sixBits (CHR ''I'') = 41"
  "sixBits (CHR ''J'') = 42"
  "sixBits (CHR ''K'') = 43"
  "sixBits (CHR ''L'') = 44"
  "sixBits (CHR ''M'') = 45"
  "sixBits (CHR ''N'') = 46"
  "sixBits (CHR ''O'') = 47"
  "sixBits (CHR ''P'') = 48"
  "sixBits (CHR ''Q'') = 49"
  "sixBits (CHR ''R'') = 50"
  "sixBits (CHR ''S'') = 51"
  "sixBits (CHR ''T'') = 52"
  "sixBits (CHR ''U'') = 53"
  "sixBits (CHR ''V'') = 54"
  "sixBits (CHR ''W'') = 55"
  "sixBits (CHR ''X'') = 56"
  "sixBits (CHR ''Y'') = 57"
  "sixBits (CHR ''Z'') = 58"
  "sixBits (CHR ''['') = 59"
  "sixBits (CHR 0x5C) = 60"
  "sixBits (CHR '']'') = 61"
  "sixBits (CHR ''^'') = 62"
  "sixBits (CHR ''_'') = 63"
  by (simp_all add: sixBits_def)

definition sixOk :: "char \<Rightarrow> bool" where
  "sixOk c = (0 \<le> sixBits c \<and> sixBits c < 64)"

definition textNumber :: "char \<Rightarrow> char \<Rightarrow> char \<Rightarrow> char \<Rightarrow> int" where
  "textNumber a b c d = ((sixBits a * 64 + sixBits b) * 64 + sixBits c) * 64 + sixBits d"

fun tableOk :: "int \<Rightarrow> string \<Rightarrow> bool" where
  "tableOk below (a # b # c # d # e # f # g # h # i # j # k # l # rest) =
     (sixOk a \<and> sixOk b \<and> sixOk c \<and> sixOk d \<and> sixOk e \<and> sixOk f \<and> sixOk g \<and> sixOk h
      \<and> sixOk i \<and> sixOk j \<and> sixOk k \<and> sixOk l
      \<and> below < textNumber a b c d \<and> textNumber a b c d \<le> textNumber e f g h \<and> 0 < textNumber i j k l
      \<and> tableOk (textNumber e f g h) rest)"
| "tableOk below rest = (rest = [])"

lemmas table_eval = concat.simps append.simps tableOk.simps(1,2) textNumber_def sixOk_def sixBits_char
  arith_simps rel_simps arith_special simp_thms mult_1_left mult_zero_left add_0

lemma unicodeDigitRanges_ok: "\<exists>s. unicodeDigitRanges = ascii s \<and> tableOk 47 s"
  unfolding unicodeDigitRanges_def
  by (rule exI, rule conjI, rule refl) (simp only: table_eval)

lemma unicodeUpperRanges_ok: "\<exists>s. unicodeUpperRanges = ascii s \<and> tableOk 0 s"
  unfolding unicodeUpperRanges_def
  by (rule exI, rule conjI, rule refl) (simp only: table_eval)

lemma unicodeLetterRanges_ok: "\<exists>s. unicodeLetterRanges = ascii s \<and> tableOk 64 s"
  unfolding unicodeLetterRanges_def
  by (rule exI, rule conjI, rule refl) (simp only: table_eval)

lemma uint_of_char: "uint (of_char c :: byte) = of_char c"
  by (simp add: uint_word_of_int_eq of_char_def)

lemma or_six:
  fixes a b :: int
  assumes "0 \<le> b" "b < 64"
  shows "push_bit (6 + n) a OR push_bit n b = push_bit n (a * 64 + b)"
proof -
  have "push_bit 6 a OR b = a * 64 + b"
    using or_push_bit_eq_add[of b 6 a] assms by (simp add: or.commute)
  then have "push_bit n (push_bit 6 a OR b) = push_bit n (a * 64 + b)" by simp
  then show ?thesis by (simp add: push_bit_or ac_simps)
qed

lemma rangeNumber_text:
  assumes "sixOk a" "sixOk b" "sixOk c" "sixOk d"
  shows "rangeNumber (of_char a) (of_char b) (of_char c) (of_char d) = textNumber a b c d"
proof -
  have u: "uint (of_char x :: byte) - 32 = sixBits x" for x
    by (simp add: uint_of_char sixBits_def)
  have "push_bit 18 (sixBits a) OR push_bit 12 (sixBits b) = push_bit 12 (sixBits a * 64 + sixBits b)"
    using or_six[of "sixBits b" 12 "sixBits a"] assms(2) by (simp add: sixOk_def)
  moreover have "push_bit 12 (sixBits a * 64 + sixBits b) OR push_bit 6 (sixBits c) =
      push_bit 6 ((sixBits a * 64 + sixBits b) * 64 + sixBits c)"
    using or_six[of "sixBits c" 6 "sixBits a * 64 + sixBits b"] assms(3) by (simp add: sixOk_def)
  moreover have "push_bit 6 ((sixBits a * 64 + sixBits b) * 64 + sixBits c) OR sixBits d = textNumber a b c d"
    using or_six[of "sixBits d" 0 "(sixBits a * 64 + sixBits b) * 64 + sixBits c"] assms(4)
    by (simp add: sixOk_def textNumber_def)
  ultimately show ?thesis
    by (simp only: rangeNumber_def u or.assoc[symmetric])
qed

definition rangeTable :: "gostring \<Rightarrow> bool" where
  "rangeTable ranges =
     (length ranges = 12 * length (decodeRanges ranges) \<and> rangesOk 0 (decodeRanges ranges))"

lemma tableOk_ranges:
  "tableOk below s \<Longrightarrow> length (ascii s) = 12 * length (decodeRanges (ascii s)) \<and> rangesOk below (decodeRanges (ascii s))"
proof (induction below s rule: tableOk.induct)
  case (1 below a b c d e f g h i j k l rest)
  then show ?case by (simp add: ascii_def rangeNumber_text)
qed (simp_all add: ascii_def)

lemma rangesOk_weaken: "rangesOk b rs \<Longrightarrow> b' \<le> b \<Longrightarrow> rangesOk b' rs"
  by (cases rs) auto

lemma table_ranges:
  "rangesOk 47 (decodeRanges unicodeDigitRanges)" "rangesOk 64 (decodeRanges unicodeLetterRanges)"
  using unicodeDigitRanges_ok unicodeLetterRanges_ok tableOk_ranges by metis+

lemma rangeTable_tables: "rangeTable unicodeDigitRanges" "rangeTable unicodeUpperRanges" "rangeTable unicodeLetterRanges"
  unfolding rangeTable_def
  using unicodeDigitRanges_ok unicodeUpperRanges_ok unicodeLetterRanges_ok tableOk_ranges rangesOk_weaken[of 47 _ 0]
    rangesOk_weaken[of 64 _ 0] by fastforce+

subsection \<open>The search on a well-formed table\<close>

lemma at_Cons: "0 < i \<Longrightarrow> at (x # xs) i = at xs (i - 1)"
  by (auto simp: at_def nth_Cons' nat_diff_distrib)

lemma rangeNumbers:
  assumes "length ranges = 12 * length (decodeRanges ranges)" "n < length (decodeRanges ranges)"
    and "decodeRanges ranges ! n = (lo, hi, stride)"
  shows "unicodeRangeValue ranges (int n * 12) = Some lo"
    "unicodeRangeValue ranges (int n * 12 + 4) = Some hi"
    "unicodeRangeValue ranges (int n * 12 + 8) = Some stride"
proof -
  have "unicodeRangeValue ranges (int n * 12) = Some lo \<and> unicodeRangeValue ranges (int n * 12 + 4) = Some hi
    \<and> unicodeRangeValue ranges (int n * 12 + 8) = Some stride"
    using assms
  proof (induction ranges arbitrary: n rule: decodeRanges.induct)
    case (1 a b c d e f g h i j k l rest)
    let ?r = "a # b # c # d # e # f # g # h # i # j # k # l # rest"
    show ?case
    proof (cases n)
      case 0
      then show ?thesis using 1(2-) by (simp add: unicodeRangeValue_def at_def numeral_eq_Suc)
    next
      case (Suc m)
      have shift: "at ?r (12 + i') = at rest i'" if "0 \<le> i'" for i'
        using that by (simp add: at_Cons)
      have "unicodeRangeValue ?r (12 + i') = unicodeRangeValue rest i'" if "0 \<le> i'" for i'
        using shift[of i'] shift[of "i' + 1"] shift[of "i' + 2"] shift[of "i' + 3"] that
        by (simp add: unicodeRangeValue_def ac_simps)
      from this[of "int m * 12"] this[of "int m * 12 + 4"] this[of "int m * 12 + 8"]
      show ?thesis using 1(1)[of m] 1(2-) Suc by (simp add: ac_simps)
    qed
  qed simp_all
  then show "unicodeRangeValue ranges (int n * 12) = Some lo"
    "unicodeRangeValue ranges (int n * 12 + 4) = Some hi"
    "unicodeRangeValue ranges (int n * 12 + 8) = Some stride" by auto
qed

lemma rangesOk_nth:
  "rangesOk below rs \<Longrightarrow> n < length rs \<Longrightarrow> rs ! n = (lo, hi, stride) \<Longrightarrow>
     below < lo \<and> lo \<le> hi \<and> 0 < stride"
proof (induction below rs arbitrary: n rule: rangesOk.induct)
  case (2 below l h st rs)
  then show ?case by (cases n) fastforce+
qed simp

lemma rangesOk_apart:
  "rangesOk below rs \<Longrightarrow> m < n \<Longrightarrow> n < length rs \<Longrightarrow> rs ! m = (lo, hi, stride) \<Longrightarrow> rs ! n = (lo', hi', stride') \<Longrightarrow> hi < lo'"
proof (induction below rs arbitrary: m n rule: rangesOk.induct)
  case (2 below l h st rs)
  then obtain k where n: "n = Suc k" by (cases n) auto
  show ?case
  proof (cases m)
    case 0
    then show ?thesis using 2(2-) n rangesOk_nth[of h rs k] by auto
  next
    case (Suc j)
    then show ?thesis using 2(1)[of j k] 2(2-) n by auto
  qed
qed simp

definition lastOf :: "range \<Rightarrow> int" where
  "lastOf r = fst (snd r)"

lemma rangeSearch_correct:
  assumes "length ranges = 12 * length rs" "rs = decodeRanges ranges" "rangesOk below rs"
    and "0 \<le> lo" "lo \<le> hi" "hi \<le> int (length rs)"
    and "\<forall>n < nat lo. lastOf (rs ! n) < v" "\<forall>n. nat hi \<le> n \<and> n < length rs \<longrightarrow> v \<le> lastOf (rs ! n)"
  shows "\<exists>k. rangeSearch ranges v lo hi = Some (int k) \<and> k \<le> length rs
    \<and> (\<forall>n < k. lastOf (rs ! n) < v) \<and> (\<forall>n. k \<le> n \<and> n < length rs \<longrightarrow> v \<le> lastOf (rs ! n))"
  using assms
proof (induction ranges v lo hi rule: rangeSearch.induct)
  case (1 ranges v lo hi)
  note le_last = 1(5)
  show ?case
  proof (cases "lo < hi")
    case False
    then have "rangeSearch ranges v lo hi = Some lo" by (subst rangeSearch.simps) simp
    then show ?thesis using 1(3-) False by (intro exI[of _ "nat lo"]) auto
  next
    case True
    let ?m = "lo + (hi - lo) div 2"
    have m: "0 \<le> ?m" "lo \<le> ?m" "?m < hi" using True 1 by auto
    obtain l h st where r: "rs ! nat ?m = (l, h, st)" by (cases "rs ! nat ?m")
    have last: "unicodeRangeValue ranges (?m * 12 + 4) = Some h"
      using rangeNumbers(2)[of ranges "nat ?m" l h st] 1(3,4) m 1(8) r by simp
    have mono: "lastOf (rs ! a) \<le> lastOf (rs ! b)" if "a \<le> b" "b < length rs" for a b
    proof (cases "a = b")
      case False
      then have "a < b" using that by simp
      obtain l1 h1 s1 l2 h2 s2 where "rs ! a = (l1, h1, s1)" "rs ! b = (l2, h2, s2)"
        by (metis prod.collapse)
      then show ?thesis
        using rangesOk_apart[OF le_last \<open>a < b\<close> that(2)] rangesOk_nth[OF le_last that(2)] by (fastforce simp: lastOf_def)
    qed simp
    show ?thesis
    proof (cases "h < v")
      case lt: True
      have "\<forall>n < nat (?m + 1). lastOf (rs ! n) < v"
      proof (intro allI impI)
        fix n assume "n < nat (?m + 1)"
        then have "lastOf (rs ! n) \<le> lastOf (rs ! nat ?m)" using m 1(8) by (intro mono) auto
        then show "lastOf (rs ! n) < v" using lt r by (simp add: lastOf_def)
      qed
      moreover have "rangeSearch ranges v lo hi = rangeSearch ranges v (?m + 1) hi"
        using True last lt by (subst rangeSearch.simps) (simp add: Let_def)
      ultimately show ?thesis
        using 1(1)[OF True refl last lt 1(3,4,5) _ _ 1(8) _ 1(10)] m by auto
    next
      case ge: False
      have "\<forall>n. nat ?m \<le> n \<and> n < length rs \<longrightarrow> v \<le> lastOf (rs ! n)"
      proof (intro allI impI)
        fix n assume "nat ?m \<le> n \<and> n < length rs"
        then have "lastOf (rs ! nat ?m) \<le> lastOf (rs ! n)" by (intro mono) auto
        then show "v \<le> lastOf (rs ! n)" using ge r by (simp add: lastOf_def)
      qed
      moreover have "rangeSearch ranges v lo hi = rangeSearch ranges v lo ?m"
        using True last ge by (subst rangeSearch.simps) (simp add: Let_def)
      ultimately show ?thesis
        using 1(2)[OF True refl last ge 1(3,4,5,6) _ _ 1(9)] m 1(8) by auto
    qed
  qed
qed

lemma unicodeRangeContains_table:
  assumes "rangeTable ranges"
  shows "unicodeRangeContains ranges v = Some (\<exists>r \<in> set (decodeRanges ranges). inRange v r)"
proof -
  let ?rs = "decodeRanges ranges"
  have len: "length ranges = 12 * length ?rs" and ok: "rangesOk 0 ?rs"
    using assms by (auto simp: rangeTable_def)
  obtain k where k: "rangeSearch ranges v 0 (int (length ranges) div 12) = Some (int k)" "k \<le> length ?rs"
    "\<forall>n < k. lastOf (?rs ! n) < v" "\<forall>n. k \<le> n \<and> n < length ?rs \<longrightarrow> v \<le> lastOf (?rs ! n)"
    using rangeSearch_correct[OF len refl ok, of 0 "int (length ranges) div 12" v] len by auto
  have only: "inRange v (?rs ! n) \<longrightarrow> n = k" if "n < length ?rs" for n
  proof
    assume "inRange v (?rs ! n)"
    then obtain lo hi st where n: "?rs ! n = (lo, hi, st)" "lo \<le> v" "v \<le> hi" by (auto simp: inRange_def)
    show "n = k"
    proof (rule linorder_cases[of n k])
      assume "n < k"
      then show ?thesis using k(3) n by (auto simp: lastOf_def)
    next
      assume "k < n"
      obtain lo' hi' st' where "?rs ! k = (lo', hi', st')" by (cases "?rs ! k")
      then show ?thesis
        using rangesOk_apart[OF ok \<open>k < n\<close> that _ n(1)] k(4) n \<open>k < n\<close> that by (fastforce simp: lastOf_def)
    qed
  qed
  show ?thesis
  proof (cases "k < length ?rs")
    case False
    then have "\<not> (\<exists>r \<in> set ?rs. inRange v r)" using only False by (metis in_set_conv_nth)
    then show ?thesis using k False len by (simp add: unicodeRangeContains_def)
  next
    case True
    obtain lo hi st where r: "?rs ! k = (lo, hi, st)" by (cases "?rs ! k")
    have "(\<exists>r \<in> set ?rs. inRange v r) \<longleftrightarrow> inRange v (?rs ! k)"
      using only True by (metis in_set_conv_nth)
    moreover have "v \<le> hi" "0 < st"
      using k(4) True r rangesOk_nth[OF ok True r] by (auto simp: lastOf_def)
    ultimately show ?thesis
      using k(1) True len rangeNumbers(1,3)[OF len True r] r
      by (auto simp: unicodeRangeContains_def inRange_def)
  qed
qed

end
