(* ===== verification/Syn_Lexeme.thy ===== *)
theory Syn_Lexeme
  imports Syn_Ranges
begin

text \<open>
  The lexemes of the scanner: keywords (\<open>keywordKind\<close> of \<open>internal/syntax/scan.go\<close>), number
  literals (\<open>number_literal.go\<close>), string and rune literals (\<open>literal.go\<close>, \<open>rune_literal.go\<close>) and
  the canonical quotation of a string literal (\<open>quoted_append.go\<close>).
\<close>

subsection \<open>Keywords\<close>

text \<open>The loop of \<open>bytesEqualText\<close>.\<close>

primrec sameText :: "bytes \<Rightarrow> int \<Rightarrow> gostring \<Rightarrow> bool option" where
  "sameText src p [] = Some True"
| "sameText src p (t # ts) = do { c \<leftarrow> at src p; if c \<noteq> t then Some False else sameText src (p + 1) ts }"

definition bytesEqualText :: "bytes \<Rightarrow> int \<Rightarrow> int \<Rightarrow> gostring \<Rightarrow> bool option" where
  "bytesEqualText src start stop s =
     (if stop - start \<noteq> int (length s) then Some False else sameText src start s)"

text \<open>\<open>if first == a && last == b && bytesEqualText(src, start, end, text) { return kind }\<close>\<close>

definition keywordIf ::
  "bytes \<Rightarrow> int \<Rightarrow> int \<Rightarrow> byte \<Rightarrow> byte \<Rightarrow> char \<Rightarrow> char \<Rightarrow> string \<Rightarrow> int \<Rightarrow> int option \<Rightarrow> int option" where
  "keywordIf src start stop first final a b s kind otherwise =
     (if first = of_char a \<and> final = of_char b then
        do { same \<leftarrow> bytesEqualText src start stop (ascii s); if same then Some kind else otherwise }
      else otherwise)"

definition keywordKind :: "bytes \<Rightarrow> int \<Rightarrow> int \<Rightarrow> byte \<Rightarrow> int option" where
  "keywordKind src start stop first =
     (let n = stop - start
      in if n > 11 then Some TokenIdent
         else do {
           final \<leftarrow> at src (stop - 1);
           let kw = keywordIf src start stop first final;
           if n = 2 then
             kw CHR ''i'' CHR ''f'' ''if'' TokenIf (kw CHR ''g'' CHR ''o'' ''go'' TokenGo (Some TokenIdent))
           else if n = 3 then
             kw CHR ''v'' CHR ''r'' ''var'' TokenVar (kw CHR ''f'' CHR ''r'' ''for'' TokenFor (kw CHR ''m'' CHR ''p'' ''map'' TokenMap (Some TokenIdent)))
           else if n = 4 then
             kw CHR ''t'' CHR ''e'' ''type'' TokenType (kw CHR ''f'' CHR ''c'' ''func'' TokenFunc (kw CHR ''e'' CHR ''e'' ''else'' TokenElse
               (kw CHR ''g'' CHR ''o'' ''goto'' TokenGoto (kw CHR ''c'' CHR ''e'' ''case'' TokenCase (kw CHR ''c'' CHR ''n'' ''chan'' TokenChan (Some TokenIdent))))))
           else if n = 5 then
             kw CHR ''c'' CHR ''t'' ''const'' TokenConst (kw CHR ''b'' CHR ''k'' ''break'' TokenBreak (kw CHR ''r'' CHR ''e'' ''range'' TokenRange
               (kw CHR ''d'' CHR ''r'' ''defer'' TokenDefer (Some TokenIdent))))
           else if n = 6 then
             kw CHR ''s'' CHR ''t'' ''struct'' TokenStruct (kw CHR ''r'' CHR ''n'' ''return'' TokenReturn (kw CHR ''s'' CHR ''h'' ''switch'' TokenSwitch
               (kw CHR ''i'' CHR ''t'' ''import'' TokenImport (kw CHR ''s'' CHR ''t'' ''select'' TokenSelect (Some TokenIdent)))))
           else if n = 7 then
             kw CHR ''p'' CHR ''e'' ''package'' TokenPackage (kw CHR ''d'' CHR ''t'' ''default'' TokenDefault (Some TokenIdent))
           else if n = 8 then
             kw CHR ''c'' CHR ''e'' ''continue'' TokenContinue (Some TokenIdent)
           else if n = 9 then
             kw CHR ''i'' CHR ''e'' ''interface'' TokenInterface (Some TokenIdent)
           else if n = 11 then
             kw CHR ''f'' CHR ''h'' ''fallthrough'' TokenFallthrough (Some TokenIdent)
           else Some TokenIdent
         })"

subsection \<open>Number literals\<close>

definition hexValue :: "byte \<Rightarrow> int \<times> bool" where
  "hexValue c =
     (if c \<ge> chr_0 \<and> c \<le> chr_9 then (uint (c - chr_0), True)
      else if c \<ge> 97 \<and> c \<le> 102 then (uint (c - 97) + 10, True)
      else if c \<ge> 65 \<and> c \<le> 70 then (uint (c - 65) + 10, True)
      else (0, False))"

text \<open>The loop of \<open>numberDigitRun\<close>: the position, the number of digits, whether the last character
  was a digit, and whether the run was not refused.\<close>

function digitLoop :: "bytes \<Rightarrow> int \<Rightarrow> int \<Rightarrow> int \<Rightarrow> int \<Rightarrow> bool \<Rightarrow> (int \<times> int \<times> bool \<times> bool) option" where
  "digitLoop src pos stop base cnt previousDigit =
     (if pos < stop then
        do {
          c \<leftarrow> at src pos;
          if c = chr_underscore then
            if \<not> previousDigit then Some (pos, cnt, previousDigit, False)
            else digitLoop src (pos + 1) stop base cnt False
          else
            let (digit, ok) = hexValue c
            in if \<not> ok \<or> base \<noteq> 16 \<and> (c < chr_0 \<or> c > chr_9) then Some (pos, cnt, previousDigit, True)
               else if digit \<ge> base then Some (pos, cnt, previousDigit, False)
               else digitLoop src (pos + 1) stop base (cnt + 1) True
        }
      else Some (pos, cnt, previousDigit, True))"
  by auto
termination by (relation "measure (\<lambda>(src, pos, stop, _). nat (stop - pos))") auto

declare digitLoop.simps [simp del]

definition numberDigitRun :: "bytes \<Rightarrow> int \<Rightarrow> int \<Rightarrow> int \<Rightarrow> bool \<Rightarrow> (int \<times> int \<times> bool) option" where
  "numberDigitRun src start stop base prefix =
     do {
       pos \<leftarrow> (if prefix \<and> start < stop then
                 do { c \<leftarrow> at src start; Some (if c = chr_underscore then start + 1 else start) }
               else Some start);
       (pos, cnt, previousDigit, ok) \<leftarrow> digitLoop src pos stop base 0 False;
       if \<not> ok then Some (pos, cnt, False)
       else if pos > start \<and> \<not> previousDigit then Some (pos, cnt, False)
       else Some (pos, cnt, True)
     }"

text \<open>The base a prefix selects, and whether there is one.\<close>

definition numberPrefix :: "bytes \<Rightarrow> int \<Rightarrow> int \<Rightarrow> (int \<times> bool) option" where
  "numberPrefix src start stop =
     (if stop - start \<ge> 2 then
        do {
          c \<leftarrow> at src start;
          if c = chr_0 then do {
            p \<leftarrow> at src (start + 1);
            Some (if p = chr_x \<or> p = chr_X then (16, True)
                  else if p = chr_b \<or> p = chr_B then (2, True)
                  else if p = chr_o \<or> p = chr_O then (8, True)
                  else (10, False))
          }
          else Some (10, False)
        }
      else Some (10, False))"

text \<open>What follows the digits before the point: the fraction, the exponent and the final checks.\<close>

definition numberTail ::
  "bytes \<Rightarrow> int \<Rightarrow> int \<Rightarrow> int \<Rightarrow> bool \<Rightarrow> bool \<Rightarrow> int \<Rightarrow> int \<Rightarrow> bool \<Rightarrow> bool option" where
  "numberTail src start stop base prefix imaginary pos digits dot =
     (if digits = 0 then Some False
      else do {
        exponent \<leftarrow> (if pos < stop then
            do { c \<leftarrow> at src pos;
                 Some (base = 10 \<and> (c = chr_e \<or> c = chr_E) \<or> base = 16 \<and> (c = chr_p \<or> c = chr_P)) }
          else Some False);
        (pos, ok) \<leftarrow> (if exponent then
            do {
              pos \<leftarrow> (if pos + 1 < stop then
                        do { c \<leftarrow> at src (pos + 1); Some (if c = chr_plus \<or> c = chr_minus then pos + 2 else pos + 1) }
                      else Some (pos + 1));
              (pos, digits, ok) \<leftarrow> numberDigitRun src pos stop 10 False;
              Some (pos, ok \<and> digits \<noteq> 0)
            }
          else Some (pos, True));
        if \<not> ok then Some False
        else if pos \<noteq> stop \<or> base = 16 \<and> dot \<and> \<not> exponent then Some False
        else do {
          c \<leftarrow> at src start;
          if \<not> prefix \<and> \<not> dot \<and> \<not> exponent \<and> \<not> imaginary \<and> c = chr_0 then
            do { (_, _, ok) \<leftarrow> numberDigitRun src start stop 8 False; Some ok }
          else Some True
        }
      })"

definition validNumberLiteral :: "bytes \<Rightarrow> int \<Rightarrow> int \<Rightarrow> bool option" where
  "validNumberLiteral src start stop =
     (if start < 0 \<or> start \<ge> stop \<or> stop > int (length src) then Some False
      else do {
        c \<leftarrow> at src (stop - 1);
        let imaginary = (c = chr_i);
        let stop = (if imaginary then stop - 1 else stop);
        if start \<ge> stop then Some False
        else do {
          (base, prefix) \<leftarrow> numberPrefix src start stop;
          let pos = (if prefix then start + 2 else start);
          (pos, digits, ok) \<leftarrow> numberDigitRun src pos stop base prefix;
          if \<not> ok then Some False
          else do {
            dot \<leftarrow> (if pos < stop then do { c \<leftarrow> at src pos; Some (c = chr_dot) } else Some False);
            if dot then
              if base \<noteq> 10 \<and> base \<noteq> 16 then Some False
              else do {
                (pos, after, ok) \<leftarrow> numberDigitRun src (pos + 1) stop base False;
                if \<not> ok then Some False
                else numberTail src start stop base prefix imaginary pos (digits + after) True
              }
            else numberTail src start stop base prefix imaginary pos digits False
          }
        }
      })"

subsection \<open>Escapes and string literals\<close>

text \<open>\<open>uint(c)-'0' < 10 || uint(c|32)-'a' < 6\<close>: the subtraction wraps around.\<close>

definition hexDigitByte :: "byte \<Rightarrow> bool" where
  "hexDigitByte c = ((ucast c :: 64 word) - 48 < 10 \<or> (ucast (c OR 32) :: 64 word) - 97 < 6)"

text \<open>The pairs of the constants \<open>simple\<close> and \<open>values\<close>.\<close>

definition simpleEscapes :: "(byte \<times> byte) list" where
  "simpleEscapes =
     [(97, 7), (98, 8), (102, 12), (110, 10), (114, 13), (116, 9), (118, 11),
      (chr_backslash, chr_backslash), (chr_quote, chr_quote)]"

text \<open>The loop over the digits of an escape; the inner option is the refusal.\<close>

function escapeDigits :: "bytes \<Rightarrow> int \<Rightarrow> int \<Rightarrow> int \<Rightarrow> int \<Rightarrow> int \<Rightarrow> int \<Rightarrow> int option option" where
  "escapeDigits src start i digits base limit v =
     (if i < digits then
        do {
          c \<leftarrow> at src (start + i);
          let (digit, ok) = hexValue c;
          if \<not> ok \<or> digit \<ge> base then Some None
          else if v > (limit - digit) div base then Some None
          else escapeDigits src start (i + 1) digits base limit (v * base + digit)
        }
      else Some (Some v))"
  by auto
termination by (relation "measure (\<lambda>(src, start, i, digits, _). nat (digits - i))") auto

declare escapeDigits.simps [simp del]

definition noEscape :: "int \<times> int \<times> bool \<times> bool" where
  "noEscape = (0, 0, False, False)"

text \<open>The escapes given by digits.  Values are the next position, the value, whether it is a Unicode
  code point, and whether it is valid.\<close>

definition numericEscape :: "bytes \<Rightarrow> int \<Rightarrow> int \<Rightarrow> int \<Rightarrow> bool \<Rightarrow> int \<Rightarrow> (int \<times> int \<times> bool \<times> bool) option" where
  "numericEscape src start digits base unicode stop =
     (if start + digits > stop then Some noEscape
      else do {
        r \<leftarrow> escapeDigits src start 0 digits base (if unicode then 0x10ffff else 255) 0;
        case r of
          None \<Rightarrow> Some noEscape
        | Some v \<Rightarrow>
            if unicode \<and> (v > 0x10ffff \<or> v \<ge> 0xd800 \<and> v \<le> 0xdfff) \<or> \<not> unicode \<and> v > 255
            then Some noEscape
            else Some (start + digits, v, unicode, True)
      })"

definition stringEscapeValue :: "bytes \<Rightarrow> int \<Rightarrow> int \<Rightarrow> (int \<times> int \<times> bool \<times> bool) option" where
  "stringEscapeValue src slash stop =
     (if slash < 0 \<or> slash + 1 \<ge> stop \<or> stop > int (length src) then Some noEscape
      else do {
        esc \<leftarrow> at src (slash + 1);
        if esc = chr_x then
          if slash + 4 > stop then Some noEscape
          else do {
            a \<leftarrow> at src (slash + 2);
            b \<leftarrow> at src (slash + 3);
            if \<not> hexDigitByte a \<or> \<not> hexDigitByte b then Some noEscape
            else
              let high = uint (a AND 15) + (if a > chr_9 then 9 else 0);
                  low = uint (b AND 15) + (if b > chr_9 then 9 else 0)
              in Some (slash + 4, high * 16 + low, False, True)
          }
        else case map_of simpleEscapes esc of
          Some v \<Rightarrow> Some (slash + 2, uint v, False, True)
        | None \<Rightarrow>
            if esc = chr_u then numericEscape src (slash + 2) 4 16 True stop
            else if esc = chr_U then numericEscape src (slash + 2) 8 16 True stop
            else if esc \<ge> chr_0 \<and> esc \<le> chr_7 then numericEscape src (slash + 1) 3 8 False stop
            else Some noEscape
      })"

lemma numericEscape_cases:
  assumes "numericEscape src start digits base unicode stop = Some (nxt, v, u, True)"
  obtains "start + digits \<le> stop" "nxt = start + digits" "u = unicode"
    "escapeDigits src start 0 digits base (if unicode then 0x10ffff else 255) 0 = Some (Some v)"
    "\<not> (unicode \<and> (v > 0x10ffff \<or> v \<ge> 0xd800 \<and> v \<le> 0xdfff) \<or> \<not> unicode \<and> v > 255)"
proof -
  let ?bad = "\<lambda>v. unicode \<and> (v > 0x10ffff \<or> v \<ge> 0xd800 \<and> v \<le> 0xdfff) \<or> \<not> unicode \<and> v > 255"
  have g: "\<not> start + digits > stop" using assms unfolding numericEscape_def noEscape_def by (rule contrapos_pn) simp
  note body = assms[unfolded numericEscape_def if_not_P[OF g]]
  then obtain r where r: "escapeDigits src start 0 digits base (if unicode then 0x10ffff else 255) 0 = Some r"
    by (cases "escapeDigits src start 0 digits base (if unicode then 0x10ffff else 255) 0") auto
  note body = body[unfolded r Option.bind.simps]
  then obtain w where w: "r = Some w" by (cases r) (auto simp: noEscape_def)
  note body = body[unfolded w option.case]
  show thesis
  proof (cases "?bad w")
    case True
    then show thesis using body[unfolded if_P[OF True]] by (simp add: noEscape_def)
  next
    case False
    then have "nxt = start + digits" "w = v" "u = unicode" using body[unfolded if_not_P[OF False]] by auto
    then show thesis using that g r w False by simp
  qed
qed

lemma numericEscape_next:
  "numericEscape src start digits base unicode stop = Some (nxt, v, u, True) \<Longrightarrow> nxt = start + digits \<and> nxt \<le> stop"
  by (elim numericEscape_cases) simp

text \<open>An escape that is accepted moves on, and stays inside.\<close>

lemma stringEscapeValue_cases:
  assumes "stringEscapeValue src s e = Some (n, v, u, True)"
  obtains (hex) a b where "at src (s + 1) = Some chr_x" "n = s + 4" "s + 4 \<le> e"
      "at src (s + 2) = Some a" "at src (s + 3) = Some b" "hexDigitByte a" "hexDigitByte b"
  | (simple) c w where "at src (s + 1) = Some c" "n = s + 2" "s + 2 \<le> e" "map_of simpleEscapes c = Some w"
  | (octal) "numericEscape src (s + 1) 3 8 False e = Some (n, v, u, True)"
  | (code) c m where "at src (s + 1) = Some c" "c = chr_u \<or> c = chr_U" "0 \<le> m"
      "numericEscape src (s + 2) m 16 True e = Some (n, v, u, True)"
proof -
  have guard: "\<not> (s < 0 \<or> s + 1 \<ge> e \<or> e > int (length src))"
    using assms unfolding stringEscapeValue_def noEscape_def by (rule contrapos_pn) simp
  note body = assms[unfolded stringEscapeValue_def if_not_P[OF guard]]
  then obtain c where c: "at src (s + 1) = Some c" by (cases "at src (s + 1)") auto
  note body = body[unfolded c Option.bind.simps]
  show thesis
  proof (cases "c = chr_x")
    case True
    have "\<not> s + 4 > e" using body[unfolded if_P[OF True]] by (auto simp: noEscape_def)
    note body = body[unfolded if_P[OF True] if_not_P[OF this]]
    then obtain a where a: "at src (s + 2) = Some a" by (cases "at src (s + 2)") auto
    note body = body[unfolded a Option.bind.simps]
    then obtain b where b: "at src (s + 3) = Some b" by (cases "at src (s + 3)") auto
    show thesis
      using body[unfolded b Option.bind.simps] hex[OF _ _ _ a b] c True \<open>\<not> s + 4 > e\<close>
      by (auto simp: noEscape_def Let_def split: if_splits)
  next
    case False
    note body = body[unfolded if_not_P[OF False]]
    show thesis
    proof (cases "map_of simpleEscapes c")
      case (Some w)
      then show thesis using body simple[OF c _ _ Some] guard by simp
    next
      case None
      note body = body[unfolded None option.case]
      then show thesis
        using octal code[OF c, of 4] code[OF c, of 8] by (auto simp: noEscape_def split: if_splits)
    qed
  qed
qed

lemma stringEscapeValue_next:
  assumes "stringEscapeValue src slash stop = Some (nxt, v, unicode, True)"
  shows "slash < nxt \<and> nxt \<le> stop"
  using assms by (cases rule: stringEscapeValue_cases) (auto dest: numericEscape_next)

text \<open>The loop of \<open>StringLiteralValue\<close> over an interpreted literal.\<close>

function literalLoop :: "bytes \<Rightarrow> int \<Rightarrow> int \<Rightarrow> bytes \<Rightarrow> (gostring \<times> bool) option" where
  "literalLoop src i stop out =
     (if i < stop then
        do {
          c \<leftarrow> at src i;
          if c \<noteq> chr_backslash then literalLoop src (i + 1) stop (out @ [c])
          else if i + 1 \<ge> stop then Some ([], False)
          else do {
            (nxt, v, unicode, ok) \<leftarrow> stringEscapeValue src i stop;
            if \<not> ok then Some ([], False)
            else literalLoop src nxt stop (if unicode then appendStringRune out v else out @ [word_of_int v])
          }
        }
      else Some (out, True))"
  by auto
termination
  by (relation "measure (\<lambda>(src, i, stop, out). nat (stop - i))") (auto dest!: stringEscapeValue_next)

declare literalLoop.simps [simp del]

definition StringLiteralValue :: "bytes \<Rightarrow> SynToken \<Rightarrow> (gostring \<times> bool) option" where
  "StringLiteralValue src tok =
     (let start = st_Start tok; stop = st_End tok
      in if kindOf tok \<noteq> TokenString \<or> start < 0 \<or> stop - start < 2 \<or> stop > int (length src) then Some ([], False)
         else do {
           quote \<leftarrow> at src start;
           final \<leftarrow> at src (stop - 1);
           if quote = chr_backquote then
             if final \<noteq> chr_backquote then Some ([], False)
             else do { body \<leftarrow> slice src (start + 1) (stop - 1); Some (body, True) }
           else if quote \<noteq> chr_quote \<or> final \<noteq> chr_quote then Some ([], False)
           else literalLoop src (start + 1) (stop - 1) []
         })"

definition RuneLiteralValue :: "host \<Rightarrow> bytes \<Rightarrow> SynToken \<Rightarrow> (int \<times> bool) option" where
  "RuneLiteralValue h src tok =
     (let start = st_Start tok; stop = st_End tok
      in if kindOf tok \<noteq> TokenChar \<or> start < 0 \<or> stop > int (length src) \<or> stop - start < 3
            \<or> at src start \<noteq> Some chr_apostrophe \<or> at src (stop - 1) \<noteq> Some chr_apostrophe
         then Some (0, False)
         else
           let start = start + 1; stop = stop - 1
           in do {
             c \<leftarrow> at src start;
             if c = chr_backslash then
               if start + 1 \<ge> stop \<or> at src (start + 1) = Some chr_quote then Some (0, False)
               else if at src (start + 1) = Some chr_apostrophe then Some (uint chr_apostrophe, start + 2 = stop)
               else do {
                 (nxt, v, _, ok) \<leftarrow> stringEscapeValue src start stop;
                 Some (v, ok \<and> nxt = stop)
               }
             else if c = chr_newline \<or> c = chr_apostrophe then Some (0, False)
             else do {
               body \<leftarrow> slice src start stop;
               valid \<leftarrow> validSourceEncoding (h\<lparr>h_addr := h_addr h + start\<rparr>) body;
               if \<not> valid then Some (0, False)
               else do { (v, width) \<leftarrow> identifierRune src start; Some (v, width > 0 \<and> start + width = stop) }
             }
           })"

subsection \<open>Quotation\<close>

definition hexDigits :: gostring where
  "hexDigits = ascii ''0123456789abcdef''"

definition appendQuotedByte :: "bytes \<Rightarrow> byte \<Rightarrow> bytes option" where
  "appendQuotedByte out ch =
     (if ch = chr_quote \<or> ch = chr_backslash then Some (out @ [chr_backslash, ch])
      else if ch < 32 \<or> ch \<ge> 127 then
        do {
          high \<leftarrow> at hexDigits (uint ch div 16);
          low \<leftarrow> at hexDigits (uint ch mod 16);
          Some (out @ [chr_backslash, chr_x, high, low])
        }
      else Some (out @ [ch]))"

primrec appendQuotedBytes :: "bytes \<Rightarrow> byte list \<Rightarrow> bytes option" where
  "appendQuotedBytes out [] = Some out"
| "appendQuotedBytes out (b # bs) = do { out \<leftarrow> appendQuotedByte out b; appendQuotedBytes out bs }"

text \<open>The bytes a decoded escape contributes.\<close>

definition escapeBytes :: "int \<Rightarrow> bool \<Rightarrow> byte list" where
  "escapeBytes v unicode =
     (if \<not> unicode \<or> v < 0x80 then [word_of_int v]
      else if v < 0x800 then
        [word_of_int (0xc0 OR drop_bit 6 v), word_of_int (0x80 OR (v AND 0x3f))]
      else if v < 0x10000 then
        [word_of_int (0xe0 OR drop_bit 12 v), word_of_int (0x80 OR (drop_bit 6 v AND 0x3f)),
         word_of_int (0x80 OR (v AND 0x3f))]
      else
        [word_of_int (0xf0 OR drop_bit 18 v), word_of_int (0x80 OR (drop_bit 12 v AND 0x3f)),
         word_of_int (0x80 OR (drop_bit 6 v AND 0x3f)), word_of_int (0x80 OR (v AND 0x3f))])"

function quoteLoop :: "bytes \<Rightarrow> bytes \<Rightarrow> int \<Rightarrow> int \<Rightarrow> (bytes \<times> bool) option" where
  "quoteLoop out src i stop =
     (if i < stop then
        do {
          c \<leftarrow> at src i;
          if c \<noteq> chr_backslash then do { out \<leftarrow> appendQuotedByte out c; quoteLoop out src (i + 1) stop }
          else do {
            (nxt, v, unicode, ok) \<leftarrow> stringEscapeValue src i stop;
            if \<not> ok then Some (out, False)
            else do { out \<leftarrow> appendQuotedBytes out (escapeBytes v unicode); quoteLoop out src nxt stop }
          }
        }
      else Some (out @ [chr_quote], True))"
  by auto
termination
  by (relation "measure (\<lambda>(out, src, i, stop). nat (stop - i))") (auto dest!: stringEscapeValue_next)

declare quoteLoop.simps [simp del]

definition AppendQuotedStringLiteral :: "bytes \<Rightarrow> bytes \<Rightarrow> SynToken \<Rightarrow> (bytes \<times> bool) option" where
  "AppendQuotedStringLiteral out src tok =
     (let start = st_Start tok; stop = st_End tok
      in if kindOf tok \<noteq> TokenString \<or> start < 0 \<or> stop - start < 2 \<or> stop > int (length src)
            \<or> at src start \<noteq> Some chr_quote \<or> at src (stop - 1) \<noteq> Some chr_quote
         then Some (out, False)
         else quoteLoop (out @ [chr_quote]) src (start + 1) (stop - 1))"

end
