(* ===== verification/Syn_Loops.thy ===== *)
theory Syn_Loops
  imports Syn_Lexeme
begin

text \<open>
  The inner loops of the scanner (\<open>internal/syntax/scan.go\<close>): white space, comments, identifiers,
  numbers, string and rune literals, as functions on positions, with the lemmas that each of them
  moves forward and stays inside the source.
\<close>

subsection \<open>Character classes\<close>

text \<open>\<open>uint(c|32)-'a' < 26\<close> and \<open>uint(c)-'0' < 10\<close>: the subtractions wrap around.\<close>

definition asciiLetter :: "byte \<Rightarrow> bool" where
  "asciiLetter c = ((ucast (c OR 32) :: 64 word) - 97 < 26)"

definition asciiDigit :: "byte \<Rightarrow> bool" where
  "asciiDigit c = ((ucast c :: 64 word) - 48 < 10)"

definition isIdentStart :: "byte \<Rightarrow> bool" where
  "isIdentStart c = (asciiLetter c \<or> c = chr_underscore)"

definition isIdentPart :: "byte \<Rightarrow> bool" where
  "isIdentPart c = (isIdentStart c \<or> (c \<ge> chr_0 \<and> c \<le> chr_9))"

definition isDigitOrUnderscore :: "byte \<Rightarrow> bool" where
  "isDigitOrUnderscore c = ((c \<ge> chr_0 \<and> c \<le> chr_9) \<or> c = chr_underscore)"

lemma asciiLetter_iff: "asciiLetter c \<longleftrightarrow> 65 \<le> c \<and> c \<le> 90 \<or> 97 \<le> c \<and> c \<le> 122"
  by (rule all_bytes) code_simp

lemma asciiDigit_iff: "asciiDigit c \<longleftrightarrow> chr_0 \<le> c \<and> c \<le> chr_9"
  by (rule all_bytes) code_simp

lemma ascii_classes_low:
  "asciiLetter c \<or> asciiDigit c \<or> c = chr_underscore \<longrightarrow> c < 128"
  by (rule all_bytes) code_simp

text \<open>\<open>i < len(src) && p(src[i])\<close>, for a position that is not negative.\<close>

definition byteIs :: "(byte \<Rightarrow> bool) \<Rightarrow> bytes \<Rightarrow> int \<Rightarrow> bool" where
  "byteIs p src i = (case at src i of None \<Rightarrow> False | Some c \<Rightarrow> p c)"

text \<open>\<open>for i < len(src) && p(src[i]) { i++ }\<close>, the form of most of the inner loops.\<close>

function skipWhile :: "(byte \<Rightarrow> bool) \<Rightarrow> bytes \<Rightarrow> int \<Rightarrow> int" where
  "skipWhile p src i = (if byteIs p src i then skipWhile p src (i + 1) else i)"
  by auto
termination
  by (relation "measure (\<lambda>(p, src, i). nat (int (length src) - i))")
    (auto simp: byteIs_def at_def split: if_splits)

declare skipWhile.simps [simp del]

lemma byteIs_range: "byteIs p src i \<Longrightarrow> 0 \<le> i \<and> i < int (length src)"
  by (auto simp: byteIs_def at_def split: if_splits)

lemma skipWhile_ge: "i \<le> skipWhile p src i"
proof (induction p src i rule: skipWhile.induct)
  case (1 p src i)
  then show ?case by (subst skipWhile.simps) auto
qed

lemma skipWhile_le: "i \<le> int (length src) \<Longrightarrow> skipWhile p src i \<le> int (length src)"
proof (induction p src i rule: skipWhile.induct)
  case (1 p src i)
  then show ?case using byteIs_range[of p src i] by (subst skipWhile.simps) auto
qed

subsection \<open>White space and comments\<close>

abbreviation isSpace :: "byte \<Rightarrow> bool" where
  "isSpace c \<equiv> c = chr_space \<or> c = chr_tab \<or> c = chr_return \<or> c = chr_newline"

function spaceLoop :: "bytes \<Rightarrow> int \<Rightarrow> int \<Rightarrow> int \<times> int" where
  "spaceLoop src i line =
     (case at src i of
        None \<Rightarrow> (i, line)
      | Some space \<Rightarrow>
          if space = chr_newline then spaceLoop src (i + 1) (line + 1)
          else if space \<noteq> chr_space \<and> space \<noteq> chr_tab \<and> space \<noteq> chr_return then (i, line)
          else spaceLoop src (i + 1) line)"
  by auto
termination
  by (relation "measure (\<lambda>(src, i, line). nat (int (length src) - i))") (auto simp: at_def split: if_splits)

text \<open>\<open>for i+1 < len(src) && !(src[i] == '*' && src[i+1] == '/')\<close>\<close>

function blockComment :: "bytes \<Rightarrow> int \<Rightarrow> int \<Rightarrow> int \<times> int" where
  "blockComment src i line =
     (if i + 1 < int (length src) \<and> \<not> (at src i = Some chr_star \<and> at src (i + 1) = Some chr_slash) then
        blockComment src (i + 1) (if at src i = Some chr_newline then line + 1 else line)
      else (i, line))"
  by auto
termination by (relation "measure (\<lambda>(src, i, line). nat (int (length src) - i))") auto

text \<open>The body of a raw string literal.\<close>

function rawLoop :: "bytes \<Rightarrow> int \<Rightarrow> int \<Rightarrow> int \<times> int" where
  "rawLoop src i line =
     (case at src i of
        None \<Rightarrow> (i, line)
      | Some c \<Rightarrow>
          if c = chr_backquote then (i, line)
          else rawLoop src (i + 1) (if c = chr_newline then line + 1 else line))"
  by auto
termination
  by (relation "measure (\<lambda>(src, i, line). nat (int (length src) - i))") (auto simp: at_def split: if_splits)

declare spaceLoop.simps [simp del] blockComment.simps [simp del] rawLoop.simps [simp del]

subsection \<open>Identifiers and numbers\<close>

definition identTail :: "byte \<Rightarrow> bool" where
  "identTail c = (asciiLetter c \<or> asciiDigit c \<or> c = chr_underscore)"

lemma identifierRune_width: "identifierRune src i = Some (v, w) \<Longrightarrow> w = 0 \<or> 0 < w \<and> 0 \<le> i \<and> i + w \<le> int (length src)"
  unfolding identifierRune_def
  by (auto simp: Let_def bind_eq_Some_conv split: if_splits)

lemma unicodeIdentifierWidth_range:
  "unicodeIdentifierWidth src i first = Some w \<Longrightarrow> w = 0 \<or> 0 < w \<and> 0 \<le> i \<and> i + w \<le> int (length src)"
  unfolding unicodeIdentifierWidth_def
  by (auto simp: bind_eq_Some_conv split: if_splits dest!: identifierRune_width)

function identLoop :: "bytes \<Rightarrow> int \<Rightarrow> int option" where
  "identLoop src i =
     (let j = skipWhile identTail src i
      in if byteIs (\<lambda>c. c \<ge> 128) src j then
           do {
             width \<leftarrow> unicodeIdentifierWidth src j False;
             if width = 0 then Some j else identLoop src (j + width)
           }
         else Some j)"
  by auto
termination
proof (relation "measure (\<lambda>(src, i). nat (int (length src) - i))", simp)
  fix src i j w
  assume "j = skipWhile identTail src i" "byteIs (\<lambda>c. 128 \<le> c) src j"
    "unicodeIdentifierWidth src j False = Some w" "w \<noteq> 0"
  then show "((src, j + w), src, i) \<in> measure (\<lambda>(src, i). nat (int (length src) - i))"
    using skipWhile_ge[of i identTail src] unicodeIdentifierWidth_range[of src j False w]
      byteIs_range[of "\<lambda>c. 128 \<le> c" src j] by auto
qed

declare identLoop.simps [simp del]

text \<open>The loop of \<open>scanNumberEnd\<close> behind a base prefix.\<close>

function prefixedLoop :: "bytes \<Rightarrow> bool \<Rightarrow> bool \<Rightarrow> int \<Rightarrow> int" where
  "prefixedLoop src hex dot i =
     (case at src i of
        None \<Rightarrow> i
      | Some c \<Rightarrow>
          if c = chr_dot then if dot then i else prefixedLoop src hex True (i + 1)
          else if hex \<and> (c = chr_p \<or> c = chr_P) then
            let i = i + 1; i = (if byteIs (\<lambda>c. c = chr_plus \<or> c = chr_minus) src i then i + 1 else i)
            in skipWhile isDigitOrUnderscore src i
          else if \<not> isIdentPart c then i
          else prefixedLoop src hex dot (i + 1))"
  by auto
termination
  by (relation "measure (\<lambda>(src, hex, dot, i). nat (int (length src) - i))") (auto simp: at_def split: if_splits)

declare prefixedLoop.simps [simp del]

definition scanNumberEnd :: "bytes \<Rightarrow> int \<Rightarrow> int option" where
  "scanNumberEnd src start =
     do {
       c \<leftarrow> at src start;
       let p = (\<lambda>d. at src (start + 1) = Some d);
       let digits = skipWhile isDigitOrUnderscore src;
       let i = (if c = chr_0 \<and> (p chr_x \<or> p chr_X \<or> p chr_b \<or> p chr_B \<or> p chr_o \<or> p chr_O) then
                  prefixedLoop src (p chr_x \<or> p chr_X) False (start + 2)
                else
                  let i = digits (start + 1);
                      i = (if c \<noteq> chr_dot \<and> byteIs (\<lambda>c. c = chr_dot) src i then digits (i + 1) else i)
                  in if byteIs (\<lambda>c. c = chr_e \<or> c = chr_E) src i then
                       let i = i + 1; i = (if byteIs (\<lambda>c. c = chr_plus \<or> c = chr_minus) src i then i + 1 else i)
                       in digits i
                     else i);
       Some (if byteIs (\<lambda>c. c = chr_i) src i then i + 1 else i)
     }"

subsection \<open>Strings and runes\<close>

text \<open>The body of an interpreted string literal: where the loop stops, and \<open>ok\<close>.\<close>

function stringLoop :: "bytes \<Rightarrow> int \<Rightarrow> (int \<times> bool) option" where
  "stringLoop src i =
     (case at src i of
        None \<Rightarrow> Some (i, True)
      | Some c \<Rightarrow>
          if c = chr_quote then Some (i, True)
          else if c = chr_backslash then
            if i + 3 < int (length src) \<and> at src (i + 1) = Some chr_x then
              do {
                high \<leftarrow> at src (i + 2);
                low \<leftarrow> at src (i + 3);
                if hexDigitByte high \<and> hexDigitByte low then stringLoop src (i + 4) else Some (i, False)
              }
            else do {
              (nxt, _, _, valid) \<leftarrow> stringEscapeValue src i (int (length src));
              if \<not> valid then Some (i, False) else stringLoop src nxt
            }
          else if c = chr_newline then Some (i, True)
          else stringLoop src (i + 1))"
  by auto
termination
  by (relation "measure (\<lambda>(src, i). nat (int (length src) - i))")
    (auto simp: at_def split: if_splits dest!: stringEscapeValue_next)

function runeLoop :: "bytes \<Rightarrow> int \<Rightarrow> int" where
  "runeLoop src i =
     (case at src i of
        None \<Rightarrow> i
      | Some c \<Rightarrow>
          if c = chr_apostrophe then i
          else if c = chr_backslash \<and> i + 1 < int (length src) then runeLoop src (i + 2)
          else if c = chr_newline then i
          else runeLoop src (i + 1))"
  by auto
termination
  by (relation "measure (\<lambda>(src, i). nat (int (length src) - i))") (auto simp: at_def split: if_splits)

declare stringLoop.simps [simp del] runeLoop.simps [simp del]

subsection \<open>The loops move forward and stay inside\<close>

lemma at_range: "at xs i = Some x \<Longrightarrow> 0 \<le> i \<and> i < int (length xs)"
  by (auto simp: at_def split: if_splits)

lemma spaceLoop_range: "i \<le> int (length src) \<Longrightarrow> i \<le> fst (spaceLoop src i line) \<and> fst (spaceLoop src i line) \<le> int (length src)"
proof (induction src i line rule: spaceLoop.induct)
  case (1 src i line)
  show ?case
  proof (cases "at src i")
    case (Some c)
    then show ?thesis
      using 1(1,2)[OF Some] at_range[OF Some] 1(3) by (subst (1 2) spaceLoop.simps) (auto split: if_splits)
  qed (use 1 in \<open>simp add: spaceLoop.simps\<close>)
qed

lemma spaceLoop_gt:
  assumes "at src i = Some c" "isSpace c"
  shows "i < fst (spaceLoop src i line)"
  using assms at_range[OF assms(1)] spaceLoop_range[of "i + 1" src line] spaceLoop_range[of "i + 1" src "line + 1"]
  by (subst spaceLoop.simps) auto

lemma blockComment_range: "i \<le> int (length src) \<Longrightarrow> i \<le> fst (blockComment src i line) \<and> fst (blockComment src i line) \<le> int (length src)"
proof (induction src i line rule: blockComment.induct)
  case (1 src i line)
  then show ?case by (subst (1 2) blockComment.simps) auto
qed

lemma rawLoop_range: "i \<le> int (length src) \<Longrightarrow> i \<le> fst (rawLoop src i line) \<and> fst (rawLoop src i line) \<le> int (length src)"
proof (induction src i line rule: rawLoop.induct)
  case (1 src i line)
  show ?case
  proof (cases "at src i")
    case (Some c)
    then show ?thesis
      using 1(1)[OF Some] at_range[OF Some] 1(2) by (subst (1 2) rawLoop.simps) (auto split: if_splits)
  qed (use 1 in \<open>simp add: rawLoop.simps\<close>)
qed

lemma runeLoop_range: "i \<le> int (length src) \<Longrightarrow> i \<le> runeLoop src i \<and> runeLoop src i \<le> int (length src)"
proof (induction src i rule: runeLoop.induct)
  case (1 src i)
  show ?case
  proof (cases "at src i")
    case (Some c)
    then show ?thesis
      using 1(1,2)[OF Some] at_range[OF Some] 1(3) by (subst (1 2) runeLoop.simps) (auto split: if_splits)
  qed (use 1 in \<open>simp add: runeLoop.simps\<close>)
qed

lemma stringLoop_cases:
  assumes "stringLoop src i = Some (j, ok)" "at src i = Some c"
  obtains (stop) "i = j"
  | (hex) "stringLoop src (i + 4) = Some (j, ok)" "i + 3 < int (length src)"
  | (escape) nxt v u where "stringEscapeValue src i (int (length src)) = Some (nxt, v, u, True)"
      "stringLoop src nxt = Some (j, ok)"
  | (step) "stringLoop src (i + 1) = Some (j, ok)"
  using assms(1)[unfolded stringLoop.simps[of src i] assms(2) option.case]
  by (auto split: if_splits simp: bind_eq_Some_conv simp del: at_in_range)

lemma stringLoop_range:
  "stringLoop src i = Some (j, ok) \<Longrightarrow> i \<le> int (length src) \<Longrightarrow> i \<le> j \<and> j \<le> int (length src)"
proof (induction "nat (int (length src) - i)" arbitrary: i rule: less_induct)
  case less
  show ?case
  proof (cases "at src i")
    case None
    then show ?thesis using less.prems by (simp add: stringLoop.simps)
  next
    case (Some c)
    note range = at_range[OF Some]
    from less.prems(1) Some show ?thesis
    proof (cases rule: stringLoop_cases)
      case (escape nxt v u)
      then show ?thesis using less.hyps[of nxt] stringEscapeValue_next range by fastforce
    qed (use less.hyps[of "i + 4"] less.hyps[of "i + 1"] less.prems(2) range in auto)
  qed
qed

lemma identLoop_range: "identLoop src i = Some j \<Longrightarrow> i \<le> int (length src) \<Longrightarrow> i \<le> j \<and> j \<le> int (length src)"
proof (induction src i rule: identLoop.induct)
  case (1 src i)
  let ?j = "skipWhile identTail src i"
  have j: "i \<le> ?j" "?j \<le> int (length src)" using skipWhile_ge skipWhile_le 1(3) by auto
  show ?case
  proof (cases "byteIs (\<lambda>c. 128 \<le> c) src ?j")
    case True
    then obtain w where w: "unicodeIdentifierWidth src ?j False = Some w"
      "(if w = 0 then Some ?j else identLoop src (?j + w)) = Some j"
      using 1(2)[unfolded identLoop.simps[of src i]] by (auto simp: bind_eq_Some_conv Let_def)
    show ?thesis
    proof (cases "w = 0")
      case False
      then show ?thesis
        using 1(1)[OF refl True w(1)] unicodeIdentifierWidth_range[OF w(1)] w(2) j by auto
    qed (use w j in simp)
  next
    case False
    then have "identLoop src i = Some ?j" by (subst identLoop.simps) simp
    then show ?thesis using 1(2) j by simp
  qed
qed

lemma prefixedLoop_range: "i \<le> int (length src) \<Longrightarrow> i \<le> prefixedLoop src hex dot i \<and> prefixedLoop src hex dot i \<le> int (length src)"
proof (induction "nat (int (length src) - i)" arbitrary: i dot rule: less_induct)
  case less
  show ?case
  proof (cases "at src i")
    case None
    then show ?thesis using less.prems by (simp add: prefixedLoop.simps)
  next
    case (Some c)
    note range = at_range[OF Some]
    let ?k = "if byteIs (\<lambda>c. c = chr_plus \<or> c = chr_minus) src (i + 1) then i + 2 else i + 1"
    have k: "i < ?k" "?k \<le> int (length src)"
      using range byteIs_range[of "\<lambda>c. c = chr_plus \<or> c = chr_minus" src "i + 1"] by auto
    have ih: "i + 1 \<le> prefixedLoop src hex d (i + 1) \<and> prefixedLoop src hex d (i + 1) \<le> int (length src)" for d
      using less.hyps[of "i + 1" d] range by simp
    have "prefixedLoop src hex dot i \<in> {i, prefixedLoop src hex True (i + 1), prefixedLoop src hex dot (i + 1),
        skipWhile isDigitOrUnderscore src ?k}"
      by (simp add: prefixedLoop.simps[of src hex dot i] Some Let_def add.assoc)
    then show ?thesis
      using ih[of True] ih[of dot] skipWhile_ge[of ?k isDigitOrUnderscore src]
        skipWhile_le[OF k(2), of isDigitOrUnderscore] k range less.prems by (elim insertE emptyE) auto
  qed
qed

lemma scanNumberEnd_range:
  assumes "scanNumberEnd src start = Some j"
  shows "start < j \<and> j \<le> int (length src)"
proof -
  obtain c where c: "at src start = Some c" using assms by (auto simp: scanNumberEnd_def bind_eq_Some_conv)
  note range = at_range[OF c]
  define digits where "digits = skipWhile isDigitOrUnderscore src"
  have d: "k \<le> digits k" "k \<le> int (length src) \<Longrightarrow> digits k \<le> int (length src)" for k
    unfolding digits_def by (rule skipWhile_ge, rule skipWhile_le)
  have b: "k < int (length src)" if "byteIs p src k" for p k using byteIs_range[OF that] by simp
  define i1 where "i1 = digits (start + 1)"
  define i2 where "i2 = (if c \<noteq> chr_dot \<and> byteIs (\<lambda>c. c = chr_dot) src i1 then digits (i1 + 1) else i1)"
  define i3 where "i3 = (if byteIs (\<lambda>c. c = chr_plus \<or> c = chr_minus) src (i2 + 1) then i2 + 2 else i2 + 1)"
  define i4 where "i4 = (if byteIs (\<lambda>c. c = chr_e \<or> c = chr_E) src i2 then digits i3 else i2)"
  have i1: "start < i1" "i1 \<le> int (length src)" using d[of "start + 1"] range by (auto simp: i1_def)
  have i2: "start < i2" "i2 \<le> int (length src)"
    using i1 d[of "i1 + 1"] b[of "\<lambda>c. c = chr_dot" i1] by (auto simp: i2_def)
  have i3: "start < i3" using i2 by (auto simp: i3_def)
  have i3': "i3 \<le> int (length src)" if "byteIs (\<lambda>c. c = chr_e \<or> c = chr_E) src i2"
    using b[OF that] b[of "\<lambda>c. c = chr_plus \<or> c = chr_minus" "i2 + 1"] by (auto simp: i3_def)
  have i4: "start < i4" "i4 \<le> int (length src)"
    using i2 i3 i3' d[of i3] by (auto simp: i4_def)
  define i5 where "i5 = (if c = chr_0 \<and> at src (start + 1) \<in> Some ` {chr_x, chr_X, chr_b, chr_B, chr_o, chr_O}
      then prefixedLoop src (at src (start + 1) = Some chr_x \<or> at src (start + 1) = Some chr_X) False (start + 2) else i4)"
  have i5: "start < i5 \<and> i5 \<le> int (length src)"
  proof (cases "c = chr_0 \<and> at src (start + 1) \<in> Some ` {chr_x, chr_X, chr_b, chr_B, chr_o, chr_O}")
    case True
    then have "start + 2 \<le> int (length src)" using at_range[of src "start + 1"] by auto
    then have "start < prefixedLoop src hex dot (start + 2) \<and> prefixedLoop src hex dot (start + 2) \<le> int (length src)" for hex dot
      using prefixedLoop_range[of "start + 2" src hex dot] by linarith
    then show ?thesis using True unfolding i5_def by (simp only: if_True simp_thms)
  qed (use i4 in \<open>auto simp: i5_def\<close>)
  have "j = (if byteIs (\<lambda>c. c = chr_i) src i5 then i5 + 1 else i5)"
    using assms c unfolding scanNumberEnd_def
    by (simp add: i5_def i4_def i3_def i2_def i1_def digits_def Let_def image_iff add.assoc cong: if_cong)
  then show ?thesis using i5 b[of "\<lambda>c. c = chr_i" i5] by auto
qed

end
