(* ===== verification/Syn_Scan.thy ===== *)
theory Syn_Scan
  imports Syn_Loops
begin

text \<open>
  The scanner of \<open>internal/syntax/scan.go\<close>.  A round of the main loop is \<open>scanStep\<close>, whose value
  says whether it moved over white space or a comment, found a token, or refused the source;
  \<open>scanTokensMode\<close> iterates it and appends the token that ends the file.
\<close>

subsection \<open>Operators\<close>

definition isThreeByteOperator :: "byte \<Rightarrow> byte \<Rightarrow> byte \<Rightarrow> bool" where
  "isThreeByteOperator a b c =
     (if a = chr_dot \<and> b = chr_dot \<and> c = chr_dot then True
      else if b = chr_equals then False
      else if a = chr_less \<and> b = chr_less \<and> c = chr_equals then True
      else if a = chr_greater \<and> b = chr_greater \<and> c = chr_equals then True
      else if a = chr_amp \<and> b = chr_caret \<and> c = chr_equals then True
      else False)"

text \<open>Whether the second byte belongs to the operator; \<open>i\<close> is its position.\<close>

definition twoByteOperator :: "bytes \<Rightarrow> int \<Rightarrow> byte \<Rightarrow> byte \<Rightarrow> bool" where
  "twoByteOperator src i c b =
     (b = chr_equals \<and>
        (c = chr_colon \<or> c = chr_equals \<or> c = chr_bang \<or> c = chr_less \<or> c = chr_greater \<or> c = chr_plus
         \<or> c = chr_minus \<or> c = chr_star \<or> c = chr_slash \<or> c = chr_percent \<or> c = chr_amp \<or> c = chr_bar
         \<or> c = chr_caret)
      \<or> c = chr_amp \<and> (b = chr_amp \<or> b = chr_caret)
      \<or> c = chr_bar \<and> b = chr_bar \<or> c = chr_less \<and> (b = chr_less \<or> b = chr_minus) \<or> c = chr_greater \<and> b = chr_greater
      \<or> c = chr_plus \<and> b = chr_plus \<or> c = chr_minus \<and> b = chr_minus
      \<or> c = chr_dot \<and> b = chr_dot \<and> at src (i + 1) = Some chr_dot)"

definition operatorEnd :: "bytes \<Rightarrow> int \<Rightarrow> byte \<Rightarrow> int" where
  "operatorEnd src start c =
     (let i = start + 1
      in case at src i of
           None \<Rightarrow> i
         | Some b \<Rightarrow>
             if twoByteOperator src i c b then
               if byteIs (isThreeByteOperator c b) src (i + 1) then i + 2 else i + 1
             else i)"

definition operatorToken :: "int \<Rightarrow> int \<Rightarrow> byte \<Rightarrow> int \<Rightarrow> SynToken" where
  "operatorToken start i c line =
     (let tok = MakeSynToken TokenOperator start i line
      in if i = start + 1 \<and> uint c \<le> TokenOperatorCharMask then
           tok\<lparr>st_KindLine := st_KindLine tok OR push_bit TokenOperatorCharShift (uint c)\<rparr>
         else tok)"

subsection \<open>A round of the main loop\<close>

text \<open>\<open>continue\<close> without a token at a new position and line; a token, with whether it makes the file
  an interface candidate; \<open>ok = false; break\<close> with the line reached.\<close>

datatype scan_round =
    Moved int int
  | Found SynToken int int bool
  | Refused int

definition identFirst :: "bytes \<Rightarrow> int \<Rightarrow> byte \<Rightarrow> int option" where
  "identFirst src start c =
     (if c \<ge> 128 then do { width \<leftarrow> unicodeIdentifierWidth src start True; Some (start + width) }
      else Some (start + 1))"

definition identKind :: "bytes \<Rightarrow> int \<Rightarrow> int \<Rightarrow> byte \<Rightarrow> int option" where
  "identKind src start i c =
     (let size = i - start
      in if size \<ge> 2 \<and> size \<le> 9 \<or> size = 11 then keywordKind src start i c else Some TokenIdent)"

definition identStep :: "bytes \<Rightarrow> int \<Rightarrow> int \<Rightarrow> byte \<Rightarrow> scan_round option" where
  "identStep src start line c =
     do {
       i \<leftarrow> identFirst src start c;
       i \<leftarrow> identLoop src i;
       kind \<leftarrow> identKind src start i c;
       candidate \<leftarrow> (if kind = TokenInterface then Some True
                     else if c = chr_c \<and> i - start = 10 then bytesEqualText src start i (ascii ''comparable'')
                     else Some False);
       Some (Found (MakeSynToken kind start i line) i line candidate)
     }"

definition numberStep :: "bytes \<Rightarrow> int \<Rightarrow> int \<Rightarrow> scan_round option" where
  "numberStep src start line =
     do {
       i \<leftarrow> scanNumberEnd src start;
       if i - start > 10000 then Some (Refused line)
       else do {
         valid \<leftarrow> validNumberLiteral src start i;
         if \<not> valid then Some (Refused line)
         else Some (Found (MakeSynToken TokenNumber start i line) i line False)
       }
     }"

definition stringStep :: "bytes \<Rightarrow> int \<Rightarrow> int \<Rightarrow> scan_round option" where
  "stringStep src start line =
     do {
       (i, ok) \<leftarrow> stringLoop src (start + 1);
       if \<not> ok \<or> at src i \<noteq> Some chr_quote then Some (Refused line)
       else Some (Found (MakeSynToken TokenString start (i + 1) line) (i + 1) line False)
     }"

definition rawStep :: "bytes \<Rightarrow> int \<Rightarrow> int \<Rightarrow> scan_round option" where
  "rawStep src start line =
     (let tokenLine = line; (i, line) = rawLoop src (start + 1) line
      in if at src i \<noteq> Some chr_backquote then Some (Refused line)
         else Some (Found (MakeSynToken TokenString start (i + 1) tokenLine) (i + 1) line False))"

definition runeStep :: "host \<Rightarrow> bytes \<Rightarrow> int \<Rightarrow> int \<Rightarrow> scan_round option" where
  "runeStep h src start line =
     (let i = runeLoop src (start + 1)
      in if at src i \<noteq> Some chr_apostrophe then Some (Refused line)
         else
           let i = i + 1; tok = MakeSynToken TokenChar start i line
           in do {
             (_, valid) \<leftarrow> RuneLiteralValue h src tok;
             if \<not> valid then Some (Refused line) else Some (Found tok i line False)
           })"

definition identStarts :: "bytes \<Rightarrow> int \<Rightarrow> byte \<Rightarrow> bool option" where
  "identStarts src i c =
     (if asciiLetter c \<or> c = chr_underscore then Some True
      else if c \<ge> 128 then do { width \<leftarrow> unicodeIdentifierWidth src i True; Some (width > 0) }
      else Some False)"

definition scanStep :: "host \<Rightarrow> bytes \<Rightarrow> int \<Rightarrow> int \<Rightarrow> scan_round option" where
  "scanStep h src i line =
     do {
       c \<leftarrow> at src i;
       if isSpace c then let (i, line) = spaceLoop src i line in Some (Moved i line)
       else if c = chr_slash \<and> at src (i + 1) = Some chr_slash then
         Some (Moved (skipWhile (\<lambda>c. c \<noteq> chr_newline) src (i + 2)) line)
       else if c = chr_slash \<and> at src (i + 1) = Some chr_star then
         let (i, line) = blockComment src (i + 2) line
         in if i + 1 \<ge> int (length src) then Some (Refused line) else Some (Moved (i + 2) line)
       else do {
         first \<leftarrow> identStarts src i c;
         if first then identStep src i line c
         else if c \<ge> chr_0 \<and> c \<le> chr_9
            \<or> c = chr_dot \<and> byteIs (\<lambda>d. d \<ge> chr_0 \<and> d \<le> chr_9) src (i + 1) then numberStep src i line
         else if c = chr_quote then stringStep src i line
         else if c = chr_backquote then rawStep src i line
         else if c = chr_apostrophe then runeStep h src i line
         else if c \<ge> 128 then Some (Refused line)
         else
           let e = operatorEnd src i c
           in Some (Found (operatorToken i e c line) e line False)
       }
     }"

subsection \<open>Every round moves on and stays inside\<close>

lemma operatorEnd_range:
  assumes "at src start = Some c"
  shows "start < operatorEnd src start c \<and> operatorEnd src start c \<le> int (length src)"
proof (cases "at src (start + 1)")
  case None
  then show ?thesis using at_range[OF assms] by (simp add: operatorEnd_def)
next
  case (Some b)
  then show ?thesis
    using at_range[OF Some] byteIs_range[of "isThreeByteOperator c b" src "start + 2"]
    by (auto simp: operatorEnd_def Let_def add.assoc simp del: at_in_range)
qed

definition roundEnd :: "scan_round \<Rightarrow> int option" where
  "roundEnd r = (case r of Moved i line \<Rightarrow> Some i | Found tok i line b \<Rightarrow> Some i | Refused line \<Rightarrow> None)"

lemma roundEnd_simps [simp]:
  "roundEnd (Moved i line) = Some i" "roundEnd (Found tok i line b) = Some i" "roundEnd (Refused line) = None"
  by (simp_all add: roundEnd_def)

lemma identStep_cases:
  assumes "identStep src start line c = Some r"
  obtains i k kind b where "identFirst src start c = Some i" "identLoop src i = Some k"
    "identKind src start k c = Some kind" "r = Found (MakeSynToken kind start k line) k line b"
  using assms by (auto simp: identStep_def bind_eq_Some_conv)

lemma scanStep_cases [consumes 1]:
  assumes "scanStep h src i line = Some r"
  obtains (space) c where "at src i = Some c" "isSpace c"
      "r = Moved (fst (spaceLoop src i line)) (snd (spaceLoop src i line))"
  | (lineComment) "at src i = Some chr_slash" "at src (i + 1) = Some chr_slash"
      "r = Moved (skipWhile (\<lambda>c. c \<noteq> chr_newline) src (i + 2)) line"
  | (blockComment) j line' where "at src i = Some chr_slash" "at src (i + 1) = Some chr_star"
      "blockComment src (i + 2) line = (j, line')" "j + 1 < int (length src)" "r = Moved (j + 2) line'"
  | (openComment) j line' where "at src i = Some chr_slash" "at src (i + 1) = Some chr_star"
      "blockComment src (i + 2) line = (j, line')" "j + 1 \<ge> int (length src)" "r = Refused line'"
  | (ident) c where "at src i = Some c" "identStarts src i c = Some True" "identStep src i line c = Some r"
  | (number) c where "at src i = Some c" "numberStep src i line = Some r"
      "c \<ge> chr_0 \<and> c \<le> chr_9 \<or> c = chr_dot \<and> byteIs (\<lambda>d. d \<ge> chr_0 \<and> d \<le> chr_9) src (i + 1)"
  | (str) "at src i = Some chr_quote" "stringStep src i line = Some r"
  | (raw) "at src i = Some chr_backquote" "rawStep src i line = Some r"
  | (rune) "at src i = Some chr_apostrophe" "runeStep h src i line = Some r"
  | (other) c where "at src i = Some c" "c \<ge> 128" "identStarts src i c = Some False" "r = Refused line"
  | (operator) c where "at src i = Some c" "\<not> c \<ge> 128" "\<not> isSpace c" "identStarts src i c = Some False"
      "\<not> (c \<ge> chr_0 \<and> c \<le> chr_9)" "c \<noteq> chr_quote" "c \<noteq> chr_backquote" "c \<noteq> chr_apostrophe"
      "c = chr_slash \<longrightarrow> at src (i + 1) \<noteq> Some chr_slash \<and> at src (i + 1) \<noteq> Some chr_star"
      "c = chr_dot \<longrightarrow> \<not> byteIs (\<lambda>d. d \<ge> chr_0 \<and> d \<le> chr_9) src (i + 1)"
      "r = Found (operatorToken i (operatorEnd src i c) c line) (operatorEnd src i c) line False"
proof -
  obtain c where c: "at src i = Some c" using assms by (auto simp: scanStep_def bind_eq_Some_conv)
  note body = assms[unfolded scanStep_def c Option.bind.simps]
  show thesis
  proof (cases "isSpace c")
    case True
    then show thesis using body space[OF c True] by (auto split: prod.splits)
  next
    case ns: False
    note body = body[unfolded if_not_P[OF ns]]
    show thesis
    proof (cases "c = chr_slash \<and> at src (i + 1) = Some chr_slash")
      case True
      then show thesis using body lineComment c by simp
    next
      case nl: False
      note body = body[unfolded if_not_P[OF nl]]
      show thesis
      proof (cases "c = chr_slash \<and> at src (i + 1) = Some chr_star")
        case True
        obtain j line' where b: "blockComment src (i + 2) line = (j, line')" by (cases "blockComment src (i + 2) line")
        then show thesis using body True c blockComment[OF _ _ b] openComment[OF _ _ b] by (auto split: if_splits)
      next
        case nb: False
        note body = body[unfolded if_not_P[OF nb]]
        then obtain first where first: "identStarts src i c = Some first" by (auto simp: bind_eq_Some_conv)
        note body = body[unfolded first Option.bind.simps]
        show thesis
        proof (cases first)
          case True
          then show thesis using body ident[OF c] first by simp
        next
          case nf: False
          let ?num = "c \<ge> chr_0 \<and> c \<le> chr_9 \<or> c = chr_dot \<and> byteIs (\<lambda>d. d \<ge> chr_0 \<and> d \<le> chr_9) src (i + 1)"
          show thesis
          proof (cases ?num)
            case True
            then show thesis using body nf number[OF c] by simp
          next
            case nn: False
            consider "c = chr_quote" | "c = chr_backquote" | "c = chr_apostrophe" | "128 \<le> c"
              | "\<not> 128 \<le> c" "c \<noteq> chr_quote" "c \<noteq> chr_backquote" "c \<noteq> chr_apostrophe" by blast
            then show thesis
            proof cases
              case 4
              then have "c \<noteq> chr_quote" "c \<noteq> chr_backquote" "c \<noteq> chr_apostrophe" by auto
              then show thesis using body nf nn 4 other[OF c] first by auto
            next
              case 5
              then show thesis using body nf nn ns nl nb first by (intro operator[OF c]) (auto simp: Let_def)
            qed (use body nf nn c str raw rune in auto)
          qed
        qed
      qed
    qed
  qed
qed

lemma identFirst_range:
  assumes "identFirst src i c = Some k" "identStarts src i c = Some True" "at src i = Some c"
  shows "i < k \<and> k \<le> int (length src)"
  using assms(1,2) at_range[OF assms(3)] ascii_classes_low[of c]
  by (auto simp: identFirst_def identStarts_def bind_eq_Some_conv linorder_not_le split: if_splits
      dest!: unicodeIdentifierWidth_range simp del: at_in_range)

lemma scanStep_range:
  assumes "scanStep h src i line = Some r" "roundEnd r = Some j"
  shows "i < j \<and> j \<le> int (length src)"
  using assms(1)
proof (cases rule: scanStep_cases)
  case (space c)
  then show ?thesis using spaceLoop_range[of i src line] spaceLoop_gt[of src i c line] at_range[of src i c] assms(2) by auto
next
  case lineComment
  then show ?thesis
    using skipWhile_ge[of "i + 2" "\<lambda>c. c \<noteq> chr_newline" src] skipWhile_le[of "i + 2" src "\<lambda>c. c \<noteq> chr_newline"]
      at_range[of src "i + 1"] assms(2) by auto
next
  case (blockComment b line')
  then show ?thesis using blockComment_range[of "i + 2" src line] at_range[of src "i + 1"] assms(2) by auto
next
  case (ident c)
  from ident(3) show ?thesis
  proof (cases rule: identStep_cases)
    case (1 a k kind b)
    then show ?thesis using identFirst_range[OF 1(1) ident(2,1)] identLoop_range[OF 1(2)] assms(2) by auto
  qed
next
  case (number c)
  then show ?thesis
    using assms(2) by (auto simp: numberStep_def bind_eq_Some_conv split: if_splits dest!: scanNumberEnd_range)
next
  case str
  then show ?thesis
    using assms(2) at_range[of src i chr_quote]
    by (auto simp: stringStep_def bind_eq_Some_conv split: if_splits simp del: at_in_range
        dest!: stringLoop_range at_range[of src _ chr_quote])
next
  case raw
  then show ?thesis
    using assms(2) at_range[OF raw(1)] rawLoop_range[of "i + 1" src line]
    by (auto simp: rawStep_def split: if_splits prod.splits simp del: at_in_range dest!: at_range[of src _ chr_backquote])
next
  case rune
  then show ?thesis
    using assms(2) at_range[OF rune(1)] runeLoop_range[of "i + 1" src]
    by (auto simp: runeStep_def Let_def bind_eq_Some_conv split: if_splits simp del: at_in_range
        dest!: at_range[of src _ chr_apostrophe])
next
  case (operator c)
  then show ?thesis using operatorEnd_range[OF operator(1)] assms(2) by auto
qed (use assms(2) in auto)

subsection \<open>The main loop\<close>

text \<open>The tokens found, \<open>ok\<close>, the interface candidates and the line when the loop is left.\<close>

function scanLoop ::
  "host \<Rightarrow> bytes \<Rightarrow> bool \<Rightarrow> int \<Rightarrow> int \<Rightarrow> SynToken list \<Rightarrow> bool \<Rightarrow> (SynToken list \<times> bool \<times> bool \<times> int) option"
where
  "scanLoop h src linked i line toks candidates =
     (if i < int (length src) then
        if \<not> linked \<and> line > TokenLineLimit then Some (toks, False, candidates, line)
        else do {
          r \<leftarrow> scanStep h src i line;
          case r of
            Moved i line \<Rightarrow> scanLoop h src linked i line toks candidates
          | Found tok i line c \<Rightarrow> scanLoop h src linked i line (toks @ [tok]) (candidates \<or> c)
          | Refused line \<Rightarrow> Some (toks, False, candidates, line)
        }
      else Some (toks, True, candidates, line))"
  by pat_completeness auto
termination
  by (relation "measure (\<lambda>(h, src, linked, i, _). nat (int (length src) - i))")
    (fastforce dest: scanStep_range[where j = i for i, OF _ roundEnd_simps(1)]
      scanStep_range[where j = i for i, OF _ roundEnd_simps(2)])+

declare scanLoop.simps [simp del]

definition scanTokensMode :: "host \<Rightarrow> bytes \<Rightarrow> bool \<Rightarrow> (SynToken list \<times> bool \<times> bool) option" where
  "scanTokensMode h src linked =
     do {
       valid \<leftarrow> validSourceEncoding h src;
       if \<not> valid then Some ([], False, False)
       else do {
         let i = (if int (length src) \<ge> 3 \<and> at src 0 = Some 0xef \<and> at src 1 = Some 0xbb \<and> at src 2 = Some 0xbf
                  then 3 else 0);
         (toks, ok, candidates, line) \<leftarrow> scanLoop h src linked i 1 [] False;
         let ok = (if \<not> linked \<and> line > TokenLineLimit then False else ok);
         Some (toks @ [MakeSynToken TokenEOF (int (length src)) (int (length src)) line], ok, candidates)
       }
     }"

definition scanTokens :: "host \<Rightarrow> bytes \<Rightarrow> (SynToken list \<times> bool) option" where
  "scanTokens h src = do { (toks, ok, _) \<leftarrow> scanTokensMode h src False; Some (toks, ok) }"

definition Scan :: "host \<Rightarrow> bytes \<Rightarrow> SynToken list option" where
  "Scan h src = do { (toks, _) \<leftarrow> scanTokens h src; Some toks }"

end
