(* ===== verification/Syn_Total.thy ===== *)
theory Syn_Total
  imports Syn_Scan
begin

text \<open>
  The scanner and the literal readers never panic: every function returns on every input its
  callers can give it, every index expression is in range and no remainder is by zero.  And they do
  not depend on the host: word size, byte order and address only choose the path of the encoding
  check.
\<close>

named_theorems syn_total \<open>a function of the scanner returns\<close>

definition returns :: "'a option \<Rightarrow> bool" where
  "returns m \<longleftrightarrow> m \<noteq> None"

lemma returnsE: "returns m \<Longrightarrow> \<exists>x. m = Some x"
  by (auto simp: returns_def)

lemma returnsI: "m = Some x \<Longrightarrow> returns m"
  by (simp add: returns_def)

lemma bind_total: "returns m \<Longrightarrow> (\<And>x. m = Some x \<Longrightarrow> returns (f x)) \<Longrightarrow> returns (m \<bind> f)"
  by (cases m) (auto simp: returns_def)

lemma some_total: "returns (Some x)"
  by (simp add: returns_def)

lemma at_total: "0 \<le> i \<Longrightarrow> i < int (length xs) \<Longrightarrow> returns (at xs i)"
  by (simp add: returns_def)

lemma slice_total: "0 \<le> a \<Longrightarrow> a \<le> b \<Longrightarrow> b \<le> int (length xs) \<Longrightarrow> returns (slice xs a b)"
  by (simp add: returns_def)

lemma if_total: "(P \<Longrightarrow> returns a) \<Longrightarrow> (\<not> P \<Longrightarrow> returns b) \<Longrightarrow> returns (if P then a else b)"
  by simp

lemma prod_total: "(\<And>a b. p = (a, b) \<Longrightarrow> returns (f a b)) \<Longrightarrow> returns (case p of (a, b) \<Rightarrow> f a b)"
  by (cases p) simp

lemma option_total:
  "(m = None \<Longrightarrow> returns a) \<Longrightarrow> (\<And>x. m = Some x \<Longrightarrow> returns (f x)) \<Longrightarrow> returns (case m of None \<Rightarrow> a | Some x \<Rightarrow> f x)"
  by (cases m) simp_all

lemmas total_rules = some_total bind_total if_total prod_total option_total at_total slice_total

lemma validSourceEncoding_source: "validSourceEncoding h src = Some (sourceText src)"
  by (simp add: validSourceEncoding_def sourceText_def encodingWalk_correct)

subsection \<open>Identifiers\<close>

lemma runeTail_total: "0 \<le> start + i \<Longrightarrow> start + w \<le> int (length src) \<Longrightarrow> returns (runeTail src start w i v)"
proof (induction src start w i v rule: runeTail.induct)
  case (1 src start w i v)
  show ?case
    by (subst runeTail.simps) (use 1 in \<open>auto intro!: total_rules simp: add.assoc simp del: at_in_range\<close>)
qed

lemma identifierRune_total [syn_total]: "returns (identifierRune src i)"
  unfolding identifierRune_def Let_def by (auto intro!: total_rules runeTail_total)

lemma unicodeRangeContains_total [syn_total]:
  "returns (unicodeRangeContains unicodeLetterRanges v)"
  "returns (unicodeRangeContains unicodeDigitRanges v)"
  "returns (unicodeRangeContains unicodeUpperRanges v)"
  using unicodeRangeContains_table rangeTable_tables by (auto intro: returnsI)

lemma unicodeIdentifierWidth_total [syn_total]: "returns (unicodeIdentifierWidth src i first)"
  unfolding unicodeIdentifierWidth_def by (intro total_rules syn_total)

lemma IdentifierExported_total [syn_total]: "returns (IdentifierExported src i)"
  unfolding IdentifierExported_def by (intro total_rules syn_total) auto

lemma identLoop_total [syn_total]: "returns (identLoop src i)"
proof (induction src i rule: identLoop.induct)
  case (1 src i)
  then show ?case by (subst identLoop.simps) (auto simp: Let_def intro!: total_rules syn_total)
qed

lemma sameText_total: "0 \<le> p \<Longrightarrow> p + int (length t) \<le> int (length src) \<Longrightarrow> returns (sameText src p t)"
  by (induction t arbitrary: p) (auto intro!: total_rules simp del: at_in_range)

lemma bytesEqualText_total [syn_total]:
  "0 \<le> start \<Longrightarrow> stop \<le> int (length src) \<Longrightarrow> returns (bytesEqualText src start stop t)"
  unfolding bytesEqualText_def by (intro total_rules sameText_total) auto

lemma keywordIf_total:
  "0 \<le> start \<Longrightarrow> stop \<le> int (length src) \<Longrightarrow> returns otherwise \<Longrightarrow>
     returns (keywordIf src start stop c d a b t kind otherwise)"
  unfolding keywordIf_def by (intro total_rules syn_total)

lemma keywordKind_total [syn_total]:
  assumes "0 \<le> start" "start < stop" "stop \<le> int (length src)"
  shows "returns (keywordKind src start stop c)"
  unfolding keywordKind_def Let_def using assms
  by (intro total_rules keywordIf_total) auto

subsection \<open>Escapes and strings\<close>

lemma escapeDigits_total:
  "0 \<le> start + i \<Longrightarrow> start + digits \<le> int (length src) \<Longrightarrow> returns (escapeDigits src start i digits base limit v)"
proof (induction src start i digits base limit v rule: escapeDigits.induct)
  case (1 src start i digits base limit v)
  show ?case
    by (subst escapeDigits.simps)
      (use 1 in \<open>auto intro!: total_rules simp: Let_def add.assoc simp del: at_in_range\<close>)
qed

lemma numericEscape_total:
  "0 \<le> start \<Longrightarrow> stop \<le> int (length src) \<Longrightarrow> returns (numericEscape src start digits base unicode stop)"
  unfolding numericEscape_def by (intro total_rules escapeDigits_total) auto

lemma stringEscapeValue_total [syn_total]: "returns (stringEscapeValue src slash stop)"
  unfolding stringEscapeValue_def Let_def
  by (auto intro!: total_rules numericEscape_total simp del: at_in_range split: if_splits)

lemma stringLoop_total [syn_total]: "0 \<le> i \<Longrightarrow> returns (stringLoop src i)"
proof (induction "nat (int (length src) - i)" arbitrary: i rule: less_induct)
  case less
  have rec: "returns (stringLoop src j)" if "i < j" "i < int (length src)" for j
    using less.hyps[of j] less.prems that by simp
  show ?case
    by (subst stringLoop.simps)
      (use less.prems in \<open>auto intro!: total_rules rec syn_total simp del: at_in_range
        dest: stringEscapeValue_next at_range\<close>)
qed

lemma literalLoop_total [syn_total]: "0 \<le> i \<Longrightarrow> stop \<le> int (length src) \<Longrightarrow> returns (literalLoop src i stop out)"
proof (induction "nat (stop - i)" arbitrary: i out rule: less_induct)
  case less
  have rec: "returns (literalLoop src j stop out')" if "i < j" "i < stop" for j out'
    using less.hyps[of j out'] less.prems that by simp
  show ?case
    by (subst literalLoop.simps)
      (use less.prems in \<open>auto intro!: total_rules syn_total rec simp del: at_in_range dest: stringEscapeValue_next\<close>)
qed

lemma StringLiteralValue_total [syn_total]: "returns (StringLiteralValue src tok)"
  unfolding StringLiteralValue_def Let_def by (intro total_rules syn_total) auto

lemma RuneLiteralValue_total [syn_total]: "returns (RuneLiteralValue h src tok)"
  unfolding RuneLiteralValue_def Let_def
  by (intro total_rules syn_total, auto intro!: total_rules syn_total simp: validSourceEncoding_source simp del: at_in_range)

lemma appendQuotedByte_total [syn_total]: "returns (appendQuotedByte out c)"
proof -
  have "length hexDigits = 16" by (simp add: hexDigits_def ascii_def)
  moreover have "0 \<le> uint c div 16" "uint c div 16 < 16"
    using zdiv_mono1[of "uint c" 255 16] by (auto simp: pos_imp_zdiv_nonneg_iff)
  ultimately show ?thesis
    unfolding appendQuotedByte_def by (auto intro!: total_rules simp del: at_in_range)
qed

lemma appendQuotedBytes_total [syn_total]: "returns (appendQuotedBytes out bs)"
  by (induction bs arbitrary: out) (auto intro!: total_rules syn_total)

lemma quoteLoop_total [syn_total]: "0 \<le> i \<Longrightarrow> stop \<le> int (length src) \<Longrightarrow> returns (quoteLoop out src i stop)"
proof (induction "nat (stop - i)" arbitrary: i out rule: less_induct)
  case less
  have rec: "returns (quoteLoop out' src j stop)" if "i < j" "i < stop" for j out'
    using less.hyps[of j out'] less.prems that by simp
  show ?case
    by (subst quoteLoop.simps)
      (use less.prems in \<open>auto intro!: total_rules syn_total rec simp del: at_in_range dest: stringEscapeValue_next\<close>)
qed

lemma AppendQuotedStringLiteral_total [syn_total]: "returns (AppendQuotedStringLiteral out src tok)"
  unfolding AppendQuotedStringLiteral_def Let_def by (intro total_rules syn_total) auto

subsection \<open>Numbers\<close>

lemma digitLoop_total: "0 \<le> pos \<Longrightarrow> stop \<le> int (length src) \<Longrightarrow> returns (digitLoop src pos stop base cnt prev)"
proof (induction "nat (stop - pos)" arbitrary: pos cnt prev rule: less_induct)
  case less
  have rec: "returns (digitLoop src (pos + 1) stop base cnt' prev')" if "pos < stop" for cnt' prev'
    using less.hyps[of "pos + 1" cnt' prev'] less.prems that by simp
  show ?case
    by (subst digitLoop.simps) (use less.prems in \<open>auto intro!: total_rules rec simp del: at_in_range\<close>)
qed

lemma digitLoop_ge: "digitLoop src pos stop base cnt prev = Some (p, n, d, ok) \<Longrightarrow> pos \<le> p"
proof (induction "nat (stop - pos)" arbitrary: pos cnt prev rule: less_induct)
  case less
  show ?case
  proof (cases "pos < stop")
    case True
    have rec: "pos \<le> p" if "digitLoop src (pos + 1) stop base c' d' = Some (p, n, d, ok)" for c' d'
      using less.hyps[OF _ that] True by simp
    show ?thesis
      using less.prems[unfolded digitLoop.simps[of src pos]] rec True
      by (auto simp: bind_eq_Some_conv split: if_splits prod.splits)
  next
    case False
    then show ?thesis using less.prems by (simp add: digitLoop.simps)
  qed
qed

lemma numberDigitRun_total [syn_total]:
  "0 \<le> start \<Longrightarrow> stop \<le> int (length src) \<Longrightarrow> returns (numberDigitRun src start stop base prefix)"
  unfolding numberDigitRun_def
  by (auto intro!: total_rules digitLoop_total simp: bind_eq_Some_conv simp del: at_in_range split: if_splits)

lemma numberDigitRun_ge: "numberDigitRun src start stop base prefix = Some (p, n, ok) \<Longrightarrow> start \<le> p"
  unfolding numberDigitRun_def
  by (fastforce simp: bind_eq_Some_conv split: if_splits dest: digitLoop_ge)

lemma numberTail_total:
  assumes "0 \<le> start" "start < int (length src)" "0 \<le> pos" "stop \<le> int (length src)"
  shows "returns (numberTail src start stop base prefix imaginary pos digits dot)"
  unfolding numberTail_def using assms
  by (auto intro!: total_rules syn_total simp: bind_eq_Some_conv simp del: at_in_range split: if_splits)

lemma numberPrefix_total: "0 \<le> start \<Longrightarrow> stop \<le> int (length src) \<Longrightarrow> returns (numberPrefix src start stop)"
  unfolding numberPrefix_def by (auto intro!: total_rules simp del: at_in_range)

lemma validNumberLiteral_total [syn_total]: "returns (validNumberLiteral src start stop)"
  unfolding validNumberLiteral_def Let_def
  by (auto intro!: total_rules syn_total numberTail_total numberPrefix_total simp del: at_in_range
      dest!: numberDigitRun_ge split: if_splits)

lemma scanNumberEnd_total [syn_total]: "0 \<le> start \<Longrightarrow> start < int (length src) \<Longrightarrow> returns (scanNumberEnd src start)"
  unfolding scanNumberEnd_def Let_def by (intro total_rules) auto

subsection \<open>The scanner\<close>

lemma identFirst_total: "returns (identFirst src i c)"
  unfolding identFirst_def by (intro total_rules syn_total)

lemma identStarts_total: "returns (identStarts src i c)"
  unfolding identStarts_def by (intro total_rules syn_total)

lemma identStep_total:
  assumes "at src i = Some c" "identStarts src i c = Some True"
  shows "returns (identStep src i line c)"
proof -
  obtain a where a: "identFirst src i c = Some a" using returnsE[OF identFirst_total] by blast
  obtain k where k: "identLoop src a = Some k" using returnsE[OF identLoop_total] by blast
  have "i < a" "a \<le> k" "k \<le> int (length src)"
    using identFirst_range[OF a assms(2,1)] identLoop_range[OF k] by auto
  then show ?thesis
    using at_range[OF assms(1)] unfolding identStep_def identKind_def Let_def a k Option.bind.simps
    by (intro total_rules syn_total) auto
qed

lemma scanStep_total:
  assumes "0 \<le> i" "i < int (length src)"
  shows "returns (scanStep h src i line)"
  unfolding scanStep_def Let_def numberStep_def stringStep_def rawStep_def runeStep_def using assms
  by (auto intro!: total_rules syn_total identStarts_total identStep_total simp del: at_in_range)

lemma scanLoop_total: "0 \<le> i \<Longrightarrow> returns (scanLoop h src linked i line toks candidates)"
proof (induction h src linked i line toks candidates rule: scanLoop.induct)
  case (1 h src linked i line toks candidates)
  show ?case
  proof (cases "i < int (length src) \<and> (linked \<or> line \<le> TokenLineLimit)")
    case True
    then obtain r where r: "scanStep h src i line = Some r"
      using returnsE[OF scanStep_total] 1(3) by blast
    show ?thesis
    proof (cases r)
      case (Moved i' line')
      then show ?thesis
        using 1(1)[OF _ _ r Moved] scanStep_range[OF r, of i'] True r 1(3)
        by (subst scanLoop.simps) auto
    next
      case (Found tok i' line' c)
      then show ?thesis
        using 1(2)[OF _ _ r Found] scanStep_range[OF r, of i'] True r 1(3)
        by (subst scanLoop.simps) auto
    next
      case (Refused line')
      then show ?thesis using True r by (subst scanLoop.simps) (auto simp: returns_def)
    qed
  next
    case False
    then show ?thesis by (subst scanLoop.simps) (auto simp: returns_def)
  qed
qed

lemma scanTokensMode_total [syn_total]: "returns (scanTokensMode h src linked)"
  unfolding scanTokensMode_def Let_def
  by (auto intro!: total_rules scanLoop_total simp: validSourceEncoding_source)

subsection \<open>The host does not matter\<close>

lemma RuneLiteralValue_host: "RuneLiteralValue h src tok = RuneLiteralValue h' src tok"
  by (simp only: RuneLiteralValue_def validSourceEncoding_source)

lemma scanStep_host: "scanStep h src i line = scanStep h' src i line"
  by (simp only: scanStep_def runeStep_def RuneLiteralValue_host[of h _ _ h'])

lemma scanLoop_host: "scanLoop h src linked i line toks candidates = scanLoop h' src linked i line toks candidates"
proof (induction h src linked i line toks candidates rule: scanLoop.induct)
  case (1 h src linked i line toks candidates)
  note step = scanStep_host[of h src i line h']
  show ?case
  proof (cases "i < int (length src) \<and> (linked \<or> line \<le> TokenLineLimit)")
    case True
    show ?thesis
    proof (cases "scanStep h src i line")
      case None
      then show ?thesis using True step by (simp add: scanLoop.simps[of _ src linked i])
    next
      case (Some r)
      then show ?thesis
        using 1(1)[OF _ _ Some] 1(2)[OF _ _ Some] True step
        by (cases r) (auto simp: scanLoop.simps[of _ src linked i])
    qed
  next
    case False
    then show ?thesis by (auto simp: scanLoop.simps[of _ src linked i])
  qed
qed

lemma scanTokensMode_host: "scanTokensMode h src linked = scanTokensMode h' src linked"
  by (simp add: scanTokensMode_def validSourceEncoding_source scanLoop_host[of h _ _ _ _ _ _ h'])

end
