(* ===== verification/Syn_Spec.thy ===== *)
theory Syn_Spec
  imports Syn_Total
begin

text \<open>
  What the scanner promises: the vocabulary of the Go specification over source bytes.  Identifiers
  are sequences of letters and digits in Unicode, keywords and operators are listed, and what may
  stand between two tokens is white space and comments.
\<close>

subsection \<open>Texts\<close>

definition textAt :: "bytes \<Rightarrow> int \<Rightarrow> int \<Rightarrow> bytes" where
  "textAt src s e = take (nat (e - s)) (drop (nat s) src)"

definition letter :: "int \<Rightarrow> bool" where
  "letter v = (v = 0x5f \<or> (\<exists>r \<in> set (decodeRanges unicodeLetterRanges). inRange v r))"

definition digit :: "int \<Rightarrow> bool" where
  "digit v = (\<exists>r \<in> set (decodeRanges unicodeDigitRanges). inRange v r)"

text \<open>An identifier in the sense of the specification: a letter, then letters and digits.\<close>

definition identifierText :: "bytes \<Rightarrow> bool" where
  "identifierText s =
     (\<exists>c cs. s = encodeRunes (c # cs) \<and> scalar c \<and> letter c
        \<and> (\<forall>v \<in> set cs. scalar v \<and> (letter v \<or> digit v)))"

definition goKeywords :: "(gostring \<times> int) list" where
  "goKeywords =
     [(ascii ''break'', TokenBreak), (ascii ''case'', TokenCase), (ascii ''chan'', TokenChan),
      (ascii ''const'', TokenConst), (ascii ''continue'', TokenContinue), (ascii ''default'', TokenDefault),
      (ascii ''defer'', TokenDefer), (ascii ''else'', TokenElse), (ascii ''fallthrough'', TokenFallthrough),
      (ascii ''for'', TokenFor), (ascii ''func'', TokenFunc), (ascii ''go'', TokenGo),
      (ascii ''goto'', TokenGoto), (ascii ''if'', TokenIf), (ascii ''import'', TokenImport),
      (ascii ''interface'', TokenInterface), (ascii ''map'', TokenMap), (ascii ''package'', TokenPackage),
      (ascii ''range'', TokenRange), (ascii ''return'', TokenReturn), (ascii ''select'', TokenSelect),
      (ascii ''struct'', TokenStruct), (ascii ''switch'', TokenSwitch), (ascii ''type'', TokenType),
      (ascii ''var'', TokenVar)]"

definition keywordOf :: "bytes \<Rightarrow> int" where
  "keywordOf s = (case map_of goKeywords s of None \<Rightarrow> TokenIdent | Some k \<Rightarrow> k)"

definition longOperators :: "gostring list" where
  "longOperators =
     map ascii
      [''<<='', ''>>='', ''&^='', ''...'', ''<<'', ''>>'', ''&^'', ''+='', ''-='', ''*='', ''/='', ''%='',
       ''&='', ''|='', ''^='', ''&&'', ''||'', ''<-'', ''++'', ''--'', ''=='', ''!='', ''<='', ''>='', '':='']"

definition isPrefix :: "bytes \<Rightarrow> bytes \<Rightarrow> bool" where
  "isPrefix p xs = (take (length p) xs = p)"

text \<open>The operator at the head of a text is the longest one of the list that is a prefix, and else
  the single character.\<close>

definition operatorText :: "bytes \<Rightarrow> bytes \<Rightarrow> bool" where
  "operatorText s rest =
     ((length s = 1 \<or> s \<in> set longOperators)
      \<and> (\<forall>q \<in> set longOperators. isPrefix q (s @ rest) \<longrightarrow> length q \<le> length s))"

text \<open>White space and comments; only at the end of the file may a line comment lack its newline.\<close>

inductive trivia :: "bool \<Rightarrow> bytes \<Rightarrow> bool" where
  trivia_Nil: "trivia eof []"
| trivia_space: "isSpace c \<Longrightarrow> trivia eof xs \<Longrightarrow> trivia eof (c # xs)"
| trivia_line: "chr_newline \<notin> set c \<Longrightarrow> trivia eof (chr_newline # xs) \<Longrightarrow>
    trivia eof ([chr_slash, chr_slash] @ c @ chr_newline # xs)"
| trivia_last: "chr_newline \<notin> set c \<Longrightarrow> trivia True ([chr_slash, chr_slash] @ c)"
| trivia_block: "(\<forall>k < length c. \<not> ((c @ [chr_star, chr_slash]) ! k = chr_star
      \<and> (c @ [chr_star, chr_slash]) ! (Suc k) = chr_slash)) \<Longrightarrow> trivia eof xs \<Longrightarrow>
    trivia eof ([chr_slash, chr_star] @ c @ [chr_star, chr_slash] @ xs)"

definition newlines :: "bytes \<Rightarrow> int" where
  "newlines s = int (length (filter (\<lambda>c. c = chr_newline) s))"

subsection \<open>Keywords are exact\<close>

lemma sameText_slice:
  "0 \<le> p \<Longrightarrow> p + int (length t) \<le> int (length src) \<Longrightarrow>
     sameText src p t = Some (take (length t) (drop (nat p) src) = t)"
proof (induction t arbitrary: p)
  case (Cons c t)
  then have "drop (nat p) src = src ! nat p # drop (nat (p + 1)) src"
    by (simp add: Cons_nth_drop_Suc nat_add_distrib)
  then show ?case using Cons by simp
qed simp

lemma bytesEqualText_exact:
  assumes "0 \<le> start" "start \<le> stop" "stop \<le> int (length src)"
  shows "bytesEqualText src start stop t = Some (textAt src start stop = t)"
proof (cases "stop - start = int (length t)")
  case True
  then have "nat (stop - start) = length t" by simp
  then show ?thesis using True assms sameText_slice[of start t src]
    by (simp add: bytesEqualText_def textAt_def)
next
  case False
  then have "length (textAt src start stop) \<noteq> length t" using assms by (simp add: textAt_def)
  then show ?thesis using False by (auto simp: bytesEqualText_def)
qed

lemma textAt_length: "0 \<le> s \<Longrightarrow> s \<le> e \<Longrightarrow> e \<le> int (length src) \<Longrightarrow> int (length (textAt src s e)) = e - s"
  by (simp add: textAt_def)

lemma textAt_nth: "0 \<le> s \<Longrightarrow> s \<le> k \<Longrightarrow> k < e \<Longrightarrow> e \<le> int (length src) \<Longrightarrow> textAt src s e ! nat (k - s) = src ! nat k"
  by (simp add: textAt_def nat_diff_distrib)

lemma ascii_lengths: "length (ascii s) = length s"
  by (simp add: ascii_def)

lemma ascii_eq_iff: "ascii s = ascii t \<longleftrightarrow> s = t"
proof -
  have "inj (of_char :: char \<Rightarrow> byte)"
  proof (rule injI)
    fix a b assume "(of_char a :: byte) = of_char b"
    then have "(of_char a :: int) = of_char b" using uint_of_char by metis
    then show "a = b" by simp
  qed
  then show ?thesis by (simp add: ascii_def inj_map_eq_map)
qed

lemma keywordIf_exact:
  assumes "0 \<le> start" "start < stop" "stop \<le> int (length src)"
    and "c = src ! nat start" "d = src ! nat (stop - 1)" "s \<noteq> []" "a = hd s" "b = last s"
  shows "keywordIf src start stop c d a b s kind otherwise =
    (if textAt src start stop = ascii s then Some kind else otherwise)"
proof -
  let ?t = "textAt src start stop"
  have "c = hd ?t" "d = last ?t"
    using assms textAt_nth[of start start stop src] textAt_nth[of start "stop - 1" stop src]
      textAt_length[of start stop src]
    by (simp_all add: hd_conv_nth last_conv_nth nat_diff_distrib flip: length_greater_0_conv)
       (auto simp: nat_diff_distrib' dest!: arg_cong[where f = nat])
  then show ?thesis
    using bytesEqualText_exact[of start stop src "ascii s"] assms
    by (auto simp: keywordIf_def ascii_def hd_map last_map)
qed

lemma keywordKind_exact:
  assumes "0 \<le> start" "start < stop" "stop \<le> int (length src)" "c = src ! nat start"
  shows "keywordKind src start stop c = Some (keywordOf (textAt src start stop))"
proof -
  define t where "t = textAt src start stop"
  define d where "d = src ! nat (stop - 1)"
  define n where "n = length t"
  have len: "stop - start = int n" using textAt_length assms by (simp add: n_def t_def)
  have final: "at src (stop - 1) = Some d" using assms by (simp add: d_def)
  have ne: "n \<noteq> length s \<Longrightarrow> t = ascii s \<longleftrightarrow> False" for s
    using ascii_lengths[of s] unfolding n_def by (metis (full_types))
  have kw: "s \<noteq> [] \<Longrightarrow> a = hd s \<Longrightarrow> b = last s \<Longrightarrow> keywordIf src start stop c d a b s kind otherwise =
      (if t = ascii s then Some kind else otherwise)" for a b s kind otherwise
    unfolding t_def by (rule keywordIf_exact[OF assms d_def])
  consider "n = 2" | "n = 3" | "n = 4" | "n = 5" | "n = 6" | "n = 7"
    | "n = 8" | "n = 9" | "n = 11" | "n \<notin> {2,3,4,5,6,7,8,9,11}" by blast
  then show ?thesis
  proof cases
    case 10
    have "\<forall>s \<in> fst ` set goKeywords. length s \<in> {2,3,4,5,6,7,8,9,11}"
      by (simp add: goKeywords_def ascii_lengths)
    then have "map_of goKeywords t = None"
      using 10 unfolding map_of_eq_None_iff n_def by blast
    then have "keywordOf t = TokenIdent" by (simp add: keywordOf_def)
    moreover have "keywordKind src start stop c = Some TokenIdent"
      using 10 unfolding keywordKind_def Let_def len final by simp
    ultimately show ?thesis by (simp only: t_def)
  qed (unfold keywordKind_def keywordOf_def goKeywords_def Let_def len final t_def[symmetric],
      (simp add: kw ne ascii_eq_iff)+)
qed

subsection \<open>Operators are longest matches\<close>

lemma longOperators_bytes:
  "longOperators =
     [[60, 60, 61], [62, 62, 61], [38, 94, 61], [46, 46, 46], [60, 60], [62, 62], [38, 94], [43, 61], [45, 61],
      [42, 61], [47, 61], [37, 61], [38, 61], [124, 61], [94, 61], [38, 38], [124, 124], [60, 45], [43, 43],
      [45, 45], [61, 61], [33, 61], [60, 61], [62, 61], [58, 61]]"
  by (simp add: longOperators_def ascii_def)

lemma drop_at: "at src i = Some c \<Longrightarrow> drop (nat i) src = c # drop (nat (i + 1)) src"
  by (auto simp: at_def Cons_nth_drop_Suc nat_add_distrib split: if_splits)

lemma drop_end: "at src i = None \<Longrightarrow> 0 \<le> i \<Longrightarrow> drop (nat i) src = []"
  by (auto simp: at_def split: if_splits)

lemma twoByteOperator_pair:
  "twoByteOperator src i c b \<longleftrightarrow>
     [c, b] \<in> set longOperators \<or> c = 46 \<and> b = 46 \<and> at src (i + 1) = Some 46"
proof -
  consider "b = 61" | "b = 38" | "b = 94" | "b = 124" | "b = 60" | "b = 45" | "b = 62" | "b = 43" | "b = 46"
    | "b \<notin> {61, 38, 94, 124, 60, 45, 62, 43, 46}" by blast
  then show ?thesis
  proof cases
    case 1
    have "twoByteOperator src i c 61 \<longleftrightarrow> c \<in> {58, 61, 33, 60, 62, 43, 45, 42, 47, 37, 38, 124, 94}"
      by (simp add: twoByteOperator_def)
    moreover have "[c, 61] \<in> set longOperators \<longleftrightarrow> c \<in> {58, 61, 33, 60, 62, 43, 45, 42, 47, 37, 38, 124, 94}"
      by (simp add: longOperators_bytes) auto
    ultimately show ?thesis using 1 by simp
  qed (simp_all add: twoByteOperator_def longOperators_bytes disj_commute)
qed

lemma longOperators_sizes:
  "\<forall>q \<in> set longOperators. length q = 2 \<or> q \<in> {[60, 60, 61], [62, 62, 61], [38, 94, 61], [46, 46, 46]}"
  by (simp add: longOperators_bytes)

lemma operatorEnd_longest:
  assumes "at src i = Some c"
  shows "operatorText (textAt src i (operatorEnd src i c)) (drop (nat (operatorEnd src i c)) src)"
proof -
  have i: "0 \<le> i" using at_range[OF assms] by simp
  define xs where "xs = drop (nat i) src"
  have shift: "drop (nat (i + int k)) src = drop k xs" for k
    using i by (simp add: xs_def nat_add_distrib add.commute)
  have main: "operatorText (take n xs) (drop n xs)" if "operatorEnd src i c = i + int n"
    "(n = 1 \<or> take n xs \<in> set longOperators)"
    "\<forall>q \<in> set longOperators. isPrefix q xs \<longrightarrow> length q \<le> n" "n \<le> length xs" for n
    using that by (auto simp: operatorText_def min_def)
  show ?thesis
  proof (cases "at src (i + 1)")
    case None
    then have "xs = [c]" using drop_at[OF assms] drop_end[of src "i + 1"] i by (simp add: xs_def)
    moreover from this have "operatorEnd src i c = i + int 1" using None by (simp add: operatorEnd_def)
    ultimately show ?thesis
      using main[of 1] shift[of 1] by (simp add: textAt_def xs_def isPrefix_def longOperators_bytes)
  next
    case (Some b)
    define ys where "ys = drop (nat (i + 2)) src"
    have xs: "xs = c # b # ys"
      using drop_at[OF assms] drop_at[OF Some] by (simp add: xs_def ys_def add.assoc)
    have third: "at src (i + 2) = Some d \<longleftrightarrow> (\<exists>zs. ys = d # zs)" for d
    proof (cases "at src (i + 2)")
      case None
      then have "ys = []" using drop_end[OF None] i by (simp add: ys_def)
      then show ?thesis using None by simp
    next
      case (Some x)
      show ?thesis unfolding ys_def drop_at[OF Some] Some by auto
    qed
    have three: "byteIs (isThreeByteOperator c b) src (i + 2) \<longleftrightarrow> (\<exists>d zs. ys = d # zs \<and> isThreeByteOperator c b d)"
    proof (cases "at src (i + 2)")
      case None
      then show ?thesis using third by (simp add: byteIs_def)
    next
      case (Some d)
      then show ?thesis using third[of d] by (auto simp: byteIs_def simp del: at_in_range)
    qed
    have two: "twoByteOperator src (i + 1) c b \<longleftrightarrow>
        [c, b] \<in> set longOperators \<or> c = 46 \<and> b = 46 \<and> (\<exists>zs. ys = 46 # zs)"
      using twoByteOperator_pair[of src "i + 1" c b] third[of 46] by (simp add: add.assoc)
    have long: "length q = 2 \<or> q \<in> {[60, 60, 61], [62, 62, 61], [38, 94, 61], [46, 46, 46]}"
      if "q \<in> set longOperators" for q
      using longOperators_sizes that by blast
    have pre2: "isPrefix q xs \<longleftrightarrow> q = [c, b]" if "length q = 2" for q
      using that by (auto simp: isPrefix_def xs numeral_2_eq_2)
    have pre3: "isPrefix [u, v, w] xs \<longleftrightarrow> u = c \<and> v = b \<and> (\<exists>zs. ys = w # zs)" for u v w
      by (cases ys) (auto simp: isPrefix_def xs)
    have three': "isThreeByteOperator c b d \<longleftrightarrow> [c, b, d] \<in> {[60, 60, 61], [62, 62, 61], [38, 94, 61], [46, 46, 46]}" for d
      by (auto simp: isThreeByteOperator_def)
    have short: "[60, 60] \<in> set longOperators" "[62, 62] \<in> set longOperators" "[38, 94] \<in> set longOperators"
      "[46, 46] \<notin> set longOperators"
      "{[60, 60, 61], [62, 62, 61], [38, 94, 61], [46, 46, 46]} \<subseteq> set longOperators"
      by (simp_all add: longOperators_bytes)
    show ?thesis
    proof (cases "twoByteOperator src (i + 1) c b")
      case False
      then have e: "operatorEnd src i c = i + int 1" using Some by (simp add: operatorEnd_def del: at_in_range)
      have "\<not> isPrefix q xs" if q: "q \<in> set longOperators" for q
        using long[OF q] False short pre2[of q] pre3 q unfolding two by auto
      then show ?thesis using main[OF e] e shift[of 1] by (simp add: textAt_def xs_def[symmetric] xs)
    next
      case two_true: True
      show ?thesis
      proof (cases "byteIs (isThreeByteOperator c b) src (i + 2)")
        case True
        then have e: "operatorEnd src i c = i + int 3" using Some two_true by (simp add: operatorEnd_def add.assoc del: at_in_range)
        obtain d zs where d: "ys = d # zs" "isThreeByteOperator c b d" using True three by blast
        then have "take 3 xs \<in> set longOperators" using three' short(5) by (auto simp: xs numeral_3_eq_3)
        moreover have "\<forall>q \<in> set longOperators. isPrefix q xs \<longrightarrow> length q \<le> 3" using long by fastforce
        ultimately show ?thesis using main[OF e] e shift[of 3] d by (simp add: textAt_def xs_def[symmetric] xs)
      next
        case no3: False
        then have e: "operatorEnd src i c = i + int 2" using Some two_true by (simp add: operatorEnd_def add.assoc del: at_in_range)
        have "[c, b] \<in> set longOperators" using two_true no3 unfolding two three three' by auto
        then have "take 2 xs \<in> set longOperators" by (simp add: xs numeral_2_eq_2)
        moreover have "length q \<le> 2" if q: "q \<in> set longOperators" "isPrefix q xs" for q
          using long[OF q(1)] q(2) no3 unfolding three three' by (auto simp: pre3)
        ultimately show ?thesis using main[OF e] e shift[of 2] by (simp add: textAt_def xs_def[symmetric] xs)
      qed
    qed
  qed
qed

end
