(* ===== verification/Syn_Boundary.thy ===== *)
theory Syn_Boundary
  imports Syn_Spec
begin

text \<open>
  Positions between runes.  In a valid source every byte that is not a continuation byte starts the
  encoding of a rune, so the scanner, which stops behind ASCII bytes and whole identifier runes,
  always stands at such a position; and what it calls an identifier is one.
\<close>

subsection \<open>Bytes of a range\<close>

definition allBytes :: "(byte \<Rightarrow> bool) \<Rightarrow> bytes \<Rightarrow> int \<Rightarrow> int \<Rightarrow> bool" where
  "allBytes p src i j = (\<forall>k. i \<le> k \<and> k < j \<longrightarrow> p (src ! nat k))"

lemma allBytes_empty: "j \<le> i \<Longrightarrow> allBytes p src i j"
  by (auto simp: allBytes_def)

lemma allBytes_join: "allBytes p src i j \<Longrightarrow> allBytes p src j k \<Longrightarrow> allBytes p src i k"
  unfolding allBytes_def by (meson linorder_le_less_linear)

lemma allBytes_step: "p (src ! nat i) \<Longrightarrow> allBytes p src (i + 1) k \<Longrightarrow> allBytes p src i k"
  unfolding allBytes_def by (metis add1_zle_eq linorder_le_less_linear order_le_less)

lemma allBytes_one: "p (src ! nat i) \<Longrightarrow> allBytes p src i (i + 1)"
  by (rule allBytes_step) (auto intro: allBytes_empty)

lemma allBytes_mono: "allBytes p src i j \<Longrightarrow> (\<And>c. p c \<Longrightarrow> q c) \<Longrightarrow> allBytes q src i j"
  by (auto simp: allBytes_def)

lemma textAt_join:
  assumes "0 \<le> a" "a \<le> b" "b \<le> c"
  shows "textAt src a c = textAt src a b @ textAt src b c"
proof -
  have "nat (c - a) = nat (b - a) + nat (c - b)" using assms by simp
  moreover have "nat b = nat (b - a) + nat a" using assms by simp
  ultimately show ?thesis unfolding textAt_def by (simp only: take_add drop_drop)
qed

lemma textAt_empty: "textAt src i i = []"
  by (simp add: textAt_def)

lemma textAt_Cons: "at src i = Some c \<Longrightarrow> i < j \<Longrightarrow> textAt src i j = c # textAt src (i + 1) j"
proof -
  assume a: "at src i = Some c" "i < j"
  then have "nat (j - i) = Suc (nat (j - (i + 1)))" by simp
  then show ?thesis unfolding textAt_def drop_at[OF a(1)] by simp
qed

lemma allBytes_set:
  assumes "0 \<le> i" "i \<le> j" "j \<le> int (length src)"
  shows "allBytes p src i j \<longleftrightarrow> (\<forall>c \<in> set (textAt src i j). p c)"
proof -
  have "set (textAt src i j) = (\<lambda>k. src ! nat k) ` {i..<j}"
  proof (intro equalityI subsetI)
    fix c assume "c \<in> set (textAt src i j)"
    then obtain n where "n < length (textAt src i j)" "c = textAt src i j ! n" by (auto simp: in_set_conv_nth)
    then show "c \<in> (\<lambda>k. src ! nat k) ` {i..<j}"
      using assms textAt_length[OF assms] by (intro image_eqI[of _ _ "i + int n"]) (auto simp: textAt_def nat_add_distrib)
  next
    fix c assume "c \<in> (\<lambda>k. src ! nat k) ` {i..<j}"
    then obtain k where k: "i \<le> k" "k < j" "c = src ! nat k" by auto
    then have "textAt src i j ! nat (k - i) = c" using textAt_nth assms by simp
    then show "c \<in> set (textAt src i j)"
      using k assms textAt_length[OF assms] by (auto simp: in_set_conv_nth intro!: exI[of _ "nat (k - i)"])
  qed
  then show ?thesis by (auto simp: allBytes_def)
qed

lemma newlines_append: "newlines (xs @ ys) = newlines xs + newlines ys"
  by (simp add: newlines_def)

lemma newlines_none: "0 \<le> i \<Longrightarrow> i \<le> j \<Longrightarrow> j \<le> int (length src) \<Longrightarrow>
    allBytes (\<lambda>c. c \<noteq> chr_newline) src i j \<Longrightarrow> newlines (textAt src i j) = 0"
  by (simp add: allBytes_set newlines_def filter_empty_conv)

lemma skipWhile_all: "allBytes p src i (skipWhile p src i) \<and> \<not> byteIs p src (skipWhile p src i)"
proof (induction p src i rule: skipWhile.induct)
  case (1 p src i)
  show ?case
  proof (cases "byteIs p src i")
    case True
    then have "p (src ! nat i)" by (auto simp: byteIs_def at_def split: if_splits)
    then show ?thesis using 1[OF True] True by (subst (1 2) skipWhile.simps) (auto intro: allBytes_step)
  next
    case False
    then show ?thesis by (subst (1 2) skipWhile.simps) (simp add: allBytes_empty)
  qed
qed

subsection \<open>Rune boundaries\<close>

definition continuationByte :: "byte \<Rightarrow> bool" where
  "continuationByte c = (0x80 \<le> c \<and> c < 0xc0)"

definition boundary :: "bytes \<Rightarrow> int \<Rightarrow> bool" where
  "boundary src i = (i < int (length src) \<longrightarrow> \<not> continuationByte (src ! nat i))"

lemma continuationByte_uint: "continuationByte c \<longleftrightarrow> 128 \<le> uint c \<and> uint c < 192"
  by (simp add: continuationByte_def word_le_def word_less_def)

lemma encodeRune_bytes:
  assumes "scalar v"
  shows "\<not> continuationByte (encodeRune v ! 0)"
    "0 < j \<Longrightarrow> j < length (encodeRune v) \<Longrightarrow> continuationByte (encodeRune v ! j)"
    "0x80 \<le> v \<Longrightarrow> j < length (encodeRune v) \<Longrightarrow> 128 \<le> uint (encodeRune v ! j)"
proof -
  have "\<not> continuationByte (encodeRune v ! 0) \<and> (\<forall>j. 0 < j \<and> j < length (encodeRune v) \<longrightarrow> continuationByte (encodeRune v ! j))
    \<and> (0x80 \<le> v \<longrightarrow> (\<forall>j < length (encodeRune v). 128 \<le> uint (encodeRune v ! j)))"
  proof (cases "v < 0x80")
    case True
    then show ?thesis using assms by (simp add: encodeRune_1 scalar_def continuationByte_uint byteOf_def[symmetric])
  next
    case False
    then have "0x80 \<le> v" "v \<le> 0x10ffff" using assms by (auto simp: scalar_def)
    then show ?thesis
    proof (cases rule: rune_digits)
      case (two a b)
      then have "encodeRune v = [byteOf (192 + a), byteOf (128 + b)]" using encodeRune_2 by simp
      then show ?thesis using two by (auto simp: continuationByte_uint less_Suc_eq)
    next
      case (three a b c)
      then have "encodeRune v = [byteOf (224 + a), byteOf (128 + b), byteOf (128 + c)]" using encodeRune_3 by simp
      then show ?thesis using three by (auto simp: continuationByte_uint less_Suc_eq)
    next
      case (four a b c d)
      then have "encodeRune v = [byteOf (240 + a), byteOf (128 + b), byteOf (128 + c), byteOf (128 + d)]"
        using encodeRune_4 by simp
      then show ?thesis using four by (auto simp: continuationByte_uint less_Suc_eq)
    qed
  qed
  then show "\<not> continuationByte (encodeRune v ! 0)"
    "0 < j \<Longrightarrow> j < length (encodeRune v) \<Longrightarrow> continuationByte (encodeRune v ! j)"
    "0x80 \<le> v \<Longrightarrow> j < length (encodeRune v) \<Longrightarrow> 128 \<le> uint (encodeRune v ! j)" by auto
qed

lemma rune_start:
  assumes "\<forall>c \<in> set cs. scalar c" "i < length (encodeRunes cs)" "\<not> continuationByte (encodeRunes cs ! i)"
  shows "\<exists>us v vs. cs = us @ v # vs \<and> i = length (encodeRunes us)"
  using assms
proof (induction cs arbitrary: i)
  case Nil
  then show ?case by (simp add: encodeRunes_def)
next
  case (Cons c cs)
  show ?case
  proof (cases "i < length (encodeRune c)")
    case True
    then have "i = 0" using Cons.prems encodeRune_bytes(2)[of c i] by (auto simp: encodeRunes_def nth_append)
    then show ?thesis by (intro exI[of _ "[]"]) (simp add: encodeRunes_def)
  next
    case False
    then have "\<exists>us v vs. cs = us @ v # vs \<and> i - length (encodeRune c) = length (encodeRunes us)"
      using Cons.prems by (intro Cons.IH) (auto simp: encodeRunes_def nth_append)
    then obtain us v vs where "cs = us @ v # vs" "i - length (encodeRune c) = length (encodeRunes us)" by blast
    then show ?thesis using False by (intro exI[of _ "c # us"]) (auto simp: encodeRunes_def)
  qed
qed

lemma rune_at_boundary:
  assumes "sourceText src" "0 \<le> i" "i < int (length src)" "boundary src i"
  obtains v rest where "drop (nat i) src = encodeRune v @ rest" "scalar v" "v \<noteq> 0"
    "boundary src (i + int (length (encodeRune v)))"
proof -
  obtain cs where cs: "src = encodeRunes cs" "\<forall>c \<in> set cs. scalar c \<and> c \<noteq> 0"
    using assms(1) by (auto simp: sourceText_def sourceFrom_def)
  obtain us v vs where s: "cs = us @ v # vs" "nat i = length (encodeRunes us)"
  proof -
    have "nat i < length (encodeRunes cs)" using assms(2,3) cs(1) by simp
    moreover have "\<not> continuationByte (encodeRunes cs ! nat i)" using assms(3,4) cs(1) by (simp add: boundary_def)
    ultimately show thesis using rune_start[of cs "nat i"] cs(2) that by blast
  qed
  have src: "src = encodeRunes us @ encodeRune v @ encodeRunes vs" using cs(1) s(1) by (simp add: encodeRunes_def)
  have "boundary src (i + int (length (encodeRune v)))"
  proof (cases vs)
    case Nil
    then show ?thesis using src s(2) assms(2) by (auto simp: boundary_def encodeRunes_def)
  next
    case (Cons w ws)
    have "nat (i + int (length (encodeRune v))) = length (encodeRunes us @ encodeRune v)"
      using s(2) assms(2) by (simp add: nat_add_distrib)
    then have "src ! nat (i + int (length (encodeRune v))) = (encodeRunes vs) ! 0"
      unfolding src by (simp add: nth_append)
    moreover have "encodeRunes vs ! 0 = encodeRune w ! 0"
      using Cons encodeRune_nonempty[of w] by (simp add: encodeRunes_def nth_append)
    moreover have "scalar w" using cs(2) s(1) Cons by simp
    ultimately show ?thesis using encodeRune_bytes(1) by (simp add: boundary_def)
  qed
  moreover have "drop (nat i) src = encodeRune v @ encodeRunes vs"
    using src s(2) by simp
  ultimately show thesis using that cs(2) s(1) by simp
qed

lemma boundary_after_ascii:
  assumes "sourceText src" "0 < j" "j \<le> int (length src)" "src ! nat (j - 1) < 0x80"
  shows "boundary src j"
proof -
  have "boundary src (j - 1)" using assms(4) by (auto simp: boundary_def continuationByte_def)
  then obtain v rest where v: "drop (nat (j - 1)) src = encodeRune v @ rest" "scalar v"
    "boundary src (j - 1 + int (length (encodeRune v)))"
  proof -
    have "0 \<le> j - 1" "j - 1 < int (length src)" using assms(2,3) by auto
    from rune_at_boundary[OF assms(1) this \<open>boundary src (j - 1)\<close>] that show thesis by blast
  qed
  have "src ! nat (j - 1) = hd (encodeRune v)"
  proof -
    have "nat (j - 1) < length src" using assms(2,3) by simp
    then have "src ! nat (j - 1) = hd (drop (nat (j - 1)) src)" by (simp add: hd_drop_conv_nth)
    then show ?thesis unfolding v(1) using encodeRune_nonempty[of v] by simp
  qed
  then have "v < 0x80" using encodeRune_first[OF v(2)] assms(4) by simp
  then show ?thesis using v(3) by (simp add: encodeRune_1)
qed

subsection \<open>Identifiers\<close>

lemma first_ranges:
  "(65, 90, 1) \<in> set (decodeRanges unicodeLetterRanges)" "(97, 122, 1) \<in> set (decodeRanges unicodeLetterRanges)"
  "(48, 57, 1) \<in> set (decodeRanges unicodeDigitRanges)"
proof -
  have "\<exists>r. unicodeLetterRanges = ascii (concat (''  !!  !:   !  !A  !Z   !  '' # r))"
    by (rule exI, rule unicodeLetterRanges_def)
  then obtain xs where l: "unicodeLetterRanges = ascii (''  !!  !:   !  !A  !Z   !  '' @ xs)"
    unfolding concat.simps by blast
  have "\<exists>r. unicodeDigitRanges = ascii (concat (''   P   Y   !  9@  9I   !  ;P  ;Y   !  ?   ?)   !  EF  EO   !  GF  GO   !  IF  IO   !  KF  KO   !'' # r))"
    by (rule exI, rule unicodeDigitRanges_def)
  then obtain ys where d: "unicodeDigitRanges = ascii (''   P   Y   !  9@  9I   !  ;P  ;Y   !  ?   ?)   !  EF  EO   !  GF  GO   !  IF  IO   !  KF  KO   !'' @ ys)"
    unfolding concat.simps by blast
  have n: "rangeNumber 32 32 33 33 = 65" "rangeNumber 32 32 33 58 = 90" "rangeNumber 32 32 32 33 = 1"
    "rangeNumber 32 32 33 65 = 97" "rangeNumber 32 32 33 90 = 122" "rangeNumber 32 32 32 80 = 48"
    "rangeNumber 32 32 32 89 = 57"
    by code_simp+
  show "(65, 90, 1) \<in> set (decodeRanges unicodeLetterRanges)" "(97, 122, 1) \<in> set (decodeRanges unicodeLetterRanges)"
    unfolding l ascii_def by (simp_all add: n)
  show "(48, 57, 1) \<in> set (decodeRanges unicodeDigitRanges)"
    unfolding d ascii_def by (simp add: n)
qed

lemma letter_ascii:
  assumes "asciiLetter c"
  shows "letter (uint c)"
proof -
  have "inRange (uint c) (65, 90, 1) \<or> inRange (uint c) (97, 122, 1)"
    using assms by (auto simp: asciiLetter_iff inRange_def word_le_def)
  then show ?thesis using first_ranges(1,2) unfolding letter_def by blast
qed

lemma digit_ascii:
  assumes "asciiDigit c"
  shows "digit (uint c)"
proof -
  have "inRange (uint c) (48, 57, 1)"
    using assms by (auto simp: asciiDigit_iff inRange_def word_le_def)
  then show ?thesis using first_ranges(3) unfolding digit_def by blast
qed

lemma rangesOk_above: "rangesOk b rs \<Longrightarrow> (lo, hi, st) \<in> set rs \<Longrightarrow> b < lo"
proof (induction b rs rule: rangesOk.induct)
  case (2 b l h s rs)
  then show ?case by fastforce
qed simp

lemma letter_digit_above: "letter v \<or> digit v \<Longrightarrow> 47 < v"
  using rangesOk_above[OF table_ranges(1)] rangesOk_above[OF table_ranges(2)]
  unfolding letter_def digit_def inRange_def by fastforce

lemma encodeRunes_append: "encodeRunes (xs @ ys) = encodeRunes xs @ encodeRunes ys"
  by (simp add: encodeRunes_def)

lemma encodeRunes_ascii: "\<forall>c \<in> set s. c < 0x80 \<Longrightarrow> encodeRunes (map uint s) = s"
  by (induction s) (auto simp: encodeRunes_def encodeRune_1 byteOf_def word_less_def)

lemma textAt_rune: "drop (nat i) src = encodeRune v @ rest \<Longrightarrow> textAt src i (i + int (length (encodeRune v))) = encodeRune v"
  by (simp add: textAt_def)

definition identPart :: "int \<Rightarrow> bool" where
  "identPart v = (scalar v \<and> (letter v \<or> digit v))"

lemma identPart_ascii: "identTail c \<Longrightarrow> identPart (uint c)"
  using letter_ascii digit_ascii ascii_classes_low[of c]
  by (auto simp: identTail_def identPart_def scalar_def word_less_def letter_def)

lemma unicodeIdentifierWidth_rune:
  assumes "unicodeIdentifierWidth src i first = Some w" "w \<noteq> 0" "0 \<le> i"
    and "drop (nat i) src = encodeRune v @ rest" "scalar v"
  shows "w = int (length (encodeRune v)) \<and> (letter v \<or> \<not> first \<and> digit v)"
  using assms(1,2) identifierRune_encodeRune[OF assms(3-5)] unicodeRangeContains_table rangeTable_tables
  by (auto simp: unicodeIdentifierWidth_def letter_def digit_def split: if_splits)

lemma identLoop_text:
  assumes "sourceText src" "0 \<le> i" "i \<le> int (length src)" "boundary src i" "identLoop src i = Some j"
  shows "\<exists>cs. textAt src i j = encodeRunes cs \<and> (\<forall>v \<in> set cs. identPart v) \<and> boundary src j"
  using assms(2-5)
proof (induction "nat (int (length src) - i)" arbitrary: i rule: less_induct)
  case less
  let ?k = "skipWhile identTail src i"
  have k: "i \<le> ?k" "?k \<le> int (length src)" using skipWhile_ge skipWhile_le less.prems(2) by auto
  have ascii: "allBytes identTail src i ?k" using skipWhile_all by blast
  then have low: "\<forall>c \<in> set (textAt src i ?k). identTail c"
    using allBytes_set less.prems(1) k by blast
  then have "\<forall>c \<in> set (textAt src i ?k). c < 0x80"
    using ascii_classes_low unfolding identTail_def by blast
  then have runes: "textAt src i ?k = encodeRunes (map uint (textAt src i ?k))" by (simp add: encodeRunes_ascii)
  have parts: "\<forall>v \<in> set (map uint (textAt src i ?k)). identPart v" using low identPart_ascii by auto
  have bk: "boundary src ?k"
  proof (cases "?k = i")
    case False
    then have "identTail (src ! nat (?k - 1))" using ascii k by (simp add: allBytes_def)
    then have "src ! nat (?k - 1) < 0x80" using ascii_classes_low unfolding identTail_def by blast
    then show ?thesis using boundary_after_ascii[OF assms(1), of ?k] False k less.prems(1) by auto
  qed (use less.prems in simp)
  show ?case
  proof (cases "byteIs (\<lambda>c. 128 \<le> c) src ?k")
    case False
    then have "j = ?k" using less.prems(4) by (subst (asm) identLoop.simps) simp
    then show ?thesis using runes parts bk by blast
  next
    case True
    then obtain w where w: "unicodeIdentifierWidth src ?k False = Some w"
      "(if w = 0 then Some ?k else identLoop src (?k + w)) = Some j"
      using less.prems(4)[unfolded identLoop.simps[of src i]] by (auto simp: bind_eq_Some_conv Let_def)
    show ?thesis
    proof (cases "w = 0")
      case True
      then have "j = ?k" using w by simp
      then show ?thesis using runes parts bk by blast
    next
      case w0: False
      have lt: "0 \<le> ?k" "?k < int (length src)" using True byteIs_range[of "\<lambda>c. 128 \<le> c" src ?k] by auto
      from rune_at_boundary[OF assms(1) lt bk] obtain v rest
        where v: "drop (nat ?k) src = encodeRune v @ rest" "scalar v" "boundary src (?k + int (length (encodeRune v)))"
        by blast
      have w': "w = int (length (encodeRune v))" "letter v \<or> digit v"
        using unicodeIdentifierWidth_rune[OF w(1) w0 lt(1) v(1,2)] by auto
      have in': "?k + w \<le> int (length src)" "0 < w" using unicodeIdentifierWidth_range[OF w(1)] w0 by auto
      obtain cs where cs: "textAt src (?k + w) j = encodeRunes cs" "\<forall>v \<in> set cs. identPart v" "boundary src j"
        using less.hyps[of "?k + w"] w(2) w0 in' k v(3) w'(1) lt less.prems(1) by auto
      have j: "?k + w \<le> j" using identLoop_range[of src "?k + w" j] w(2) w0 in' by auto
      have "textAt src i j = textAt src i ?k @ textAt src ?k (?k + w) @ textAt src (?k + w) j"
        using textAt_join[of i ?k j src] textAt_join[of ?k "?k + w" j src] k j in' less.prems(1) by auto
      also have "\<dots> = encodeRunes (map uint (textAt src i ?k) @ [v] @ cs)"
        using runes cs(1) textAt_rune[OF v(1)] w'(1) by (simp add: encodeRunes_append) (simp add: encodeRunes_def)
      finally show ?thesis
        using parts cs w'(2) v(2) by (intro exI[of _ "map uint (textAt src i ?k) @ [v] @ cs"]) (auto simp: identPart_def)
    qed
  qed
qed

end
