(* ===== verification/Syn_Rounds.thy ===== *)
theory Syn_Rounds
  imports Syn_Boundary
begin

text \<open>
  What one round of the scanner does: the white space and comments it moves over are trivia, a token
  it finds is a lexeme of its kind, the line counter follows the newlines, and the position stays
  between runes.
\<close>

subsection \<open>Lexemes\<close>

definition lexemeOk :: "bytes \<Rightarrow> SynToken \<Rightarrow> bool" where
  "lexemeOk src tok =
     (let k = kindOf tok; s = st_Start tok; e = st_End tok; x = textAt src s e
      in (k = TokenNumber \<and> validNumberLiteral src s e = Some True \<and> e - s \<le> 10000
          \<or> k = TokenString \<and> (\<exists>v. StringLiteralValue src tok = Some (v, True))
          \<or> k = TokenChar \<and> (\<forall>h. \<exists>v. RuneLiteralValue h src tok = Some (v, True))
          \<or> k = TokenOperator \<and> operatorText x (drop (nat e) src)
          \<or> identifierText x \<and> k = keywordOf x)
         \<and> charOf tok = (if k = TokenOperator \<and> e = s + 1 then uint (src ! nat s) else 0))"

lemma keywordOf_range: "keywordOf x \<in> {1} \<union> {6..30}"
proof (cases "map_of goKeywords x")
  case (Some k)
  then have "(x, k) \<in> set goKeywords" by (rule map_of_SomeD)
  moreover have "\<forall>p \<in> set goKeywords. snd p \<in> {6..30}" by (simp add: goKeywords_def)
  ultimately show ?thesis using Some by (auto simp: keywordOf_def)
qed (simp add: keywordOf_def)

abbreviation notNewline :: "byte \<Rightarrow> bool" where
  "notNewline c \<equiv> c \<noteq> chr_newline"

subsection \<open>White space and comments\<close>

lemma spaceLoop_spec:
  assumes "i \<le> int (length src)" "0 \<le> i" "spaceLoop src i line = (j, line')"
  shows "allBytes isSpace src i j \<and> line' = line + newlines (textAt src i j)"
  using assms
proof (induction src i line rule: spaceLoop.induct)
  case (1 src i line)
  show ?case
  proof (cases "at src i")
    case None
    then show ?thesis using 1(5) by (auto simp: spaceLoop.simps allBytes_empty textAt_empty newlines_def)
  next
    case (Some c)
    note range = at_range[OF Some]
    have c: "src ! nat i = c" using Some range by simp
    have cons: "textAt src i j = c # textAt src (i + 1) j" if "i + 1 \<le> j"
      using textAt_Cons[OF Some] that by simp
    have rec: "allBytes isSpace src i j \<and> line' = line + newlines (textAt src i j)"
      if s: "isSpace c" and a: "allBytes isSpace src (i + 1) j" "i + 1 \<le> j"
        "line' = (if c = chr_newline then line + 1 else line) + newlines (textAt src (i + 1) j)"
      using allBytes_step[of isSpace src i j] a s c cons[OF a(2)] by (auto simp: newlines_def)
    consider "c = chr_newline" | "c \<noteq> chr_newline" "isSpace c" | "\<not> isSpace c" by blast
    then show ?thesis
    proof cases
      case nl: 1
      then have e: "spaceLoop src (i + 1) (line + 1) = (j, line')"
        using 1(5) Some by (simp add: spaceLoop.simps[of src i])
      show ?thesis
        using rec nl 1(1)[OF Some nl _ _ e] range spaceLoop_range[of "i + 1" src "line + 1"] e by auto
    next
      case 2
      then have e: "spaceLoop src (i + 1) line = (j, line')"
        using 1(5) Some by (auto simp: spaceLoop.simps[of src i])
      show ?thesis
        using rec 2 1(2)[OF Some _ _ _ _ e] range spaceLoop_range[of "i + 1" src line] e by auto
    next
      case 3
      then have "j = i" "line' = line" using 1(5) Some by (auto simp: spaceLoop.simps[of src i])
      then show ?thesis by (simp add: allBytes_empty textAt_empty newlines_def)
    qed
  qed
qed

lemma blockComment_spec:
  assumes "i \<le> int (length src)" "0 \<le> i" "blockComment src i line = (j, line')"
  shows "(\<forall>k. i \<le> k \<and> k < j \<longrightarrow> \<not> (at src k = Some chr_star \<and> at src (k + 1) = Some chr_slash))
    \<and> (j + 1 < int (length src) \<longrightarrow> at src j = Some chr_star \<and> at src (j + 1) = Some chr_slash)
    \<and> line' = line + newlines (textAt src i j)"
  using assms
proof (induction src i line rule: blockComment.induct)
  case (1 src i line)
  let ?go = "i + 1 < int (length src) \<and> \<not> (at src i = Some chr_star \<and> at src (i + 1) = Some chr_slash)"
  show ?case
  proof (cases ?go)
    case False
    then have "blockComment src i line = (i, line)" by (subst blockComment.simps) auto
    then show ?thesis using 1(4) False by (auto simp: textAt_empty newlines_def)
  next
    case True
    let ?l = "if at src i = Some chr_newline then line + 1 else line"
    have e: "blockComment src (i + 1) ?l = (j, line')"
      using 1(4) True by (subst (asm) blockComment.simps) simp
    obtain c where c: "at src i = Some c" using True 1(3) by (simp add: at_def)
    have j: "i + 1 \<le> j" using blockComment_range[of "i + 1" src ?l] e True by auto
    have "textAt src i j = c # textAt src (i + 1) j" using textAt_Cons[OF c] j by simp
    then have "line' = line + newlines (textAt src i j)"
      using 1(1)[OF True _ _ e] True 1(3) c by (auto simp: newlines_def)
    moreover have "\<not> (at src k = Some chr_star \<and> at src (k + 1) = Some chr_slash)" if "i \<le> k \<and> k < j" for k
      using 1(1)[OF True _ _ e] True 1(3) that by (cases "k = i") auto
    ultimately show ?thesis using 1(1)[OF True _ _ e] True 1(3) by auto
  qed
qed

lemma rawLoop_spec:
  assumes "i \<le> int (length src)" "0 \<le> i" "rawLoop src i line = (j, line')"
  shows "line' = line + newlines (textAt src i j)"
  using assms
proof (induction src i line rule: rawLoop.induct)
  case (1 src i line)
  show ?case
  proof (cases "at src i")
    case None
    then show ?thesis using 1(4) by (auto simp: rawLoop.simps textAt_empty newlines_def)
  next
    case (Some c)
    note range = at_range[OF Some]
    show ?thesis
    proof (cases "c = chr_backquote")
      case True
      then show ?thesis using 1(4) Some by (auto simp: rawLoop.simps[of src i] textAt_empty newlines_def)
    next
      case False
      let ?l = "if c = chr_newline then line + 1 else line"
      have e: "rawLoop src (i + 1) ?l = (j, line')" using 1(4) Some False by (simp add: rawLoop.simps[of src i])
      have "textAt src i j = c # textAt src (i + 1) j"
        using textAt_Cons[OF Some] rawLoop_range[of "i + 1" src ?l] e range by simp
      then show ?thesis using 1(1)[OF Some False _ _ e] range by (auto simp: newlines_def)
    qed
  qed
qed

text \<open>What is moved over extends the trivia that follow it, up to a token or the end of the file.\<close>

definition gapEnd :: "bytes \<Rightarrow> bool \<Rightarrow> int \<Rightarrow> bool" where
  "gapEnd src eof k = (if eof then k = int (length src) else k < int (length src) \<and> src ! nat k \<noteq> chr_newline)"

lemma trivia_spaces: "\<forall>c \<in> set xs. isSpace c \<Longrightarrow> trivia eof ys \<Longrightarrow> trivia eof (xs @ ys)"
  by (induction xs) (auto intro: trivia_space)

lemma trivia_skip_space:
  assumes "allBytes isSpace src i j" "0 \<le> i" "i \<le> j" "j \<le> k" "k \<le> int (length src)" "trivia eof (textAt src j k)"
  shows "trivia eof (textAt src i k)"
  using assms textAt_join[of i j k src] allBytes_set[of i j src isSpace] trivia_spaces by auto

lemma textAt_two:
  assumes "at src i = Some a" "at src (i + 1) = Some b" "i + 2 \<le> j"
  shows "textAt src i j = [a, b] @ textAt src (i + 2) j"
  using textAt_Cons[OF assms(1), of j] textAt_Cons[OF assms(2), of j] assms(3) by (simp add: add.assoc)

lemma trivia_skip_line:
  assumes "at src i = Some chr_slash" "at src (i + 1) = Some chr_slash"
    and "j = skipWhile notNewline src (i + 2)" "j \<le> k" "k \<le> int (length src)" "gapEnd src eof k"
    and "trivia eof (textAt src j k)"
  shows "trivia eof (textAt src i k)"
proof -
  have i: "0 \<le> i" "i + 2 \<le> int (length src)" using at_range[OF assms(1)] at_range[OF assms(2)] by auto
  have j: "i + 2 \<le> j" "j \<le> int (length src)"
    using skipWhile_ge[of "i + 2" notNewline src] skipWhile_le[OF i(2), of notNewline] assms(3) by auto
  have stop: "\<not> byteIs notNewline src j" and all: "allBytes notNewline src (i + 2) j"
    using skipWhile_all[of notNewline src "i + 2"] assms(3) by auto
  let ?c = "textAt src (i + 2) j"
  have c: "chr_newline \<notin> set ?c"
    using allBytes_set[of "i + 2" j src notNewline] all i j by auto
  have whole: "textAt src i k = [chr_slash, chr_slash] @ ?c @ textAt src j k"
  proof -
    have "i + 2 \<le> k" "0 \<le> i + 2" using i j assms(4) by auto
    then have "textAt src i k = [chr_slash, chr_slash] @ textAt src (i + 2) k"
      by (intro textAt_two[OF assms(1,2)])
    moreover have "textAt src (i + 2) k = ?c @ textAt src j k"
      using \<open>0 \<le> i + 2\<close> j(1) assms(4) by (rule textAt_join)
    ultimately show ?thesis by (rule back_subst[of "\<lambda>x. textAt src i k = [chr_slash, chr_slash] @ x"])
  qed
  show ?thesis
  proof (cases "j < int (length src)")
    case True
    then have nl: "at src j = Some chr_newline"
      using stop j i by (simp add: byteIs_def)
    then have "j < k" using assms(4,6) True i j by (cases eof) (auto simp: gapEnd_def order_le_less)
    then have "textAt src j k = chr_newline # textAt src (j + 1) k" using textAt_Cons[OF nl] by simp
    then show ?thesis using whole c assms(7) trivia_line by simp
  next
    case False
    then have "j = int (length src)" using j(2) by linarith
    then have "k = j" "eof" using assms(4,5,6) by (cases eof; simp add: gapEnd_def)+
    have none: "textAt src j k = []" using \<open>k = j\<close> by (simp add: textAt_empty)
    show ?thesis unfolding whole none using \<open>eof\<close> trivia_last[OF c] by simp
  qed
qed

lemma trivia_skip_block:
  assumes "at src i = Some chr_slash" "at src (i + 1) = Some chr_star"
    and "blockComment src (i + 2) line = (j, line')" "j + 1 < int (length src)"
    and "j + 2 \<le> k" "k \<le> int (length src)" "trivia eof (textAt src (j + 2) k)"
  shows "trivia eof (textAt src i k)"
proof -
  have i: "0 \<le> i" "i + 2 \<le> int (length src)" using at_range[OF assms(1)] at_range[OF assms(2)] by auto
  have j: "i + 2 \<le> j" using blockComment_range[of "i + 2" src line] assms(3) i by auto
  have stop: "at src j = Some chr_star" "at src (j + 1) = Some chr_slash"
    and none: "\<forall>k. i + 2 \<le> k \<and> k < j \<longrightarrow> \<not> (at src k = Some chr_star \<and> at src (k + 1) = Some chr_slash)"
    using blockComment_spec[of "i + 2" src line j line'] assms(3,4) i by auto
  let ?c = "textAt src (i + 2) j"
  have whole: "textAt src i k = [chr_slash, chr_star] @ ?c @ [chr_star, chr_slash] @ textAt src (j + 2) k"
    using textAt_two[OF assms(1,2), of k] textAt_two[OF stop, of k] textAt_join[of "i + 2" j k src] i j assms(5) by simp
  have len: "int (length ?c) = j - (i + 2)" using textAt_length[of "i + 2" j src] i j assms(4) by simp
  have body: "?c @ [chr_star, chr_slash] = textAt src (i + 2) (j + 2)"
    using textAt_join[of "i + 2" j "j + 2" src] textAt_two[OF stop, of "j + 2"] i j by (simp add: textAt_empty)
  have nth: "at src (i + 2 + int n) = Some ((?c @ [chr_star, chr_slash]) ! n)" if "n < length ?c + 2" for n
  proof -
    have "i + 2 + int n < j + 2" using that len by linarith
    then show ?thesis
      using textAt_nth[of "i + 2" "i + 2 + int n" "j + 2" src] i assms(4) unfolding body by simp
  qed
  have "\<forall>n < length ?c. \<not> ((?c @ [chr_star, chr_slash]) ! n = chr_star \<and> (?c @ [chr_star, chr_slash]) ! Suc n = chr_slash)"
  proof (intro allI impI)
    fix n assume n: "n < length ?c"
    then have "\<not> (at src (i + 2 + int n) = Some chr_star \<and> at src (i + 2 + int n + 1) = Some chr_slash)"
    proof -
      have "i + 2 \<le> i + 2 + int n" "i + 2 + int n < j" using n len by auto
      then show ?thesis using none by blast
    qed
    then show "\<not> ((?c @ [chr_star, chr_slash]) ! n = chr_star \<and> (?c @ [chr_star, chr_slash]) ! Suc n = chr_slash)"
      using nth[of n] nth[of "Suc n"] n by (simp add: algebra_simps)
  qed
  then show ?thesis unfolding whole by (rule trivia_block) (rule assms(7))
qed

subsection \<open>String literals\<close>

lemma hexDigitByte_newline: "hexDigitByte c \<Longrightarrow> c \<noteq> chr_newline"
  by (rule all_bytes[of "\<lambda>c. hexDigitByte c \<longrightarrow> c \<noteq> chr_newline", rule_format]) code_simp

lemma hexValue_newline: "snd (hexValue c) \<Longrightarrow> c \<noteq> chr_newline"
  by (auto simp: hexValue_def split: if_splits)

lemma escapeDigits_digits:
  "escapeDigits src start i digits base limit v = Some (Some w) \<Longrightarrow> 0 \<le> start \<Longrightarrow> 0 \<le> i \<Longrightarrow>
     allBytes notNewline src (start + i) (start + digits)"
proof (induction src start i digits base limit v rule: escapeDigits.induct)
  case (1 src start i digits base limit v)
  show ?case
  proof (cases "i < digits")
    case False
    then show ?thesis by (simp add: allBytes_empty)
  next
    case True
    obtain c where at_c: "at src (start + i) = Some c"
      using 1(2) True unfolding escapeDigits.simps[of src start i] by (auto simp: bind_eq_Some_conv simp del: at_in_range)
    obtain d ok where h: "hexValue c = (d, ok)" by (cases "hexValue c")
    have c: "at src (start + i) = Some c" "hexValue c = (d, True)" "\<not> base \<le> d" "\<not> (limit - d) div base < v"
      and rest: "escapeDigits src start (i + 1) digits base limit (v * base + d) = Some (Some w)"
      using 1(2) True h unfolding escapeDigits.simps[of src start i] at_c
      by (auto simp: at_c split: if_splits)
    have "allBytes notNewline src (start + (i + 1)) (start + digits)"
      using 1(1)[OF True c(1) c(2)[symmetric]] c rest 1(3,4) by simp
    moreover have "src ! nat (start + i) = c" using c(1) at_range[OF c(1)] by simp
    ultimately show ?thesis
      using hexValue_newline[of c] c(2) allBytes_step[of notNewline src "start + i"] by (simp add: add.assoc)
  qed
qed

lemma numericEscape_digits:
  assumes "numericEscape src start digits base unicode e = Some (n, v, u, True)" "0 \<le> start"
  shows "allBytes notNewline src start n"
  using assms(1)
proof (rule numericEscape_cases)
  assume "n = start + digits" "escapeDigits src start 0 digits base (if unicode then 0x10ffff else 255) 0 = Some (Some v)"
  then show ?thesis using escapeDigits_digits[of src start 0 digits base] assms(2) by simp
qed

lemma numericEscape_bound:
  assumes "numericEscape src start digits base unicode e = Some (n, v, u, True)" "n \<le> e'"
  shows "numericEscape src start digits base unicode e' = Some (n, v, u, True)"
  using assms(1)
proof (rule numericEscape_cases)
  assume c: "n = start + digits" "u = unicode"
    "escapeDigits src start 0 digits base (if unicode then 0x10ffff else 255) 0 = Some (Some v)"
    and ok: "\<not> (unicode \<and> (v > 0x10ffff \<or> v \<ge> 0xd800 \<and> v \<le> 0xdfff) \<or> \<not> unicode \<and> v > 255)"
  have "\<not> start + digits > e'" using c(1) assms(2) by simp
  then show ?thesis
    unfolding numericEscape_def by (simp only: if_not_P c Option.bind.simps option.case ok if_False)
qed

lemma simpleEscapes_newline: "map_of simpleEscapes c = Some w \<Longrightarrow> c \<noteq> chr_newline"
  by (auto simp: simpleEscapes_def split: if_splits)

lemma allBytes_two: "p (src ! nat i) \<Longrightarrow> p (src ! nat (i + 1)) \<Longrightarrow> allBytes p src (i + 2) j \<Longrightarrow> allBytes p src i j"
  using allBytes_step[of p src i j] allBytes_step[of p src "i + 1" j] by (simp add: add.assoc)

lemma stringEscapeValue_newline:
  assumes "stringEscapeValue src s e = Some (n, v, u, True)" "at src s = Some chr_backslash"
  shows "allBytes notNewline src s n"
proof -
  have s: "src ! nat s = chr_backslash" "0 \<le> s" using assms(2) at_range[OF assms(2)] by auto
  have b: "src ! nat k = c" if "at src k = Some c" for k c using that at_range[OF that] by auto
  from assms(1) show ?thesis
  proof (cases rule: stringEscapeValue_cases)
    case (hex a' b')
    have "allBytes notNewline src (s + 2) (s + 2 + 2)"
      using b[OF hex(4)] b[OF hex(5)] hex(6,7) hexDigitByte_newline
      by - (rule allBytes_two, auto intro: allBytes_empty simp: add.assoc)
    then show ?thesis using s b[OF hex(1)] hex(2) by - (rule allBytes_two, simp_all add: add.assoc)
  next
    case (simple c w)
    then show ?thesis using s b[OF simple(1)] simpleEscapes_newline by - (rule allBytes_two, auto intro: allBytes_empty)
  next
    case octal
    have "allBytes notNewline src (s + 1) n" using numericEscape_digits[OF octal] s(2) by simp
    then show ?thesis using s by - (rule allBytes_step, auto)
  next
    case (code c m)
    have "allBytes notNewline src (s + 2) n" using numericEscape_digits[OF code(4)] s(2) by simp
    then show ?thesis using s b[OF code(1)] code(2) by - (rule allBytes_two, auto)
  qed
qed

text \<open>An escape that ends before an earlier bound is accepted under that bound as well.\<close>

lemma stringEscapeValue_bound:
  assumes "stringEscapeValue src s e = Some (n, v, u, True)" "n \<le> e'" "e' \<le> int (length src)"
  shows "stringEscapeValue src s e' = Some (n, v, u, True)"
proof -
  obtain c where c: "at src (s + 1) = Some c" and guard: "\<not> (s < 0 \<or> s + 1 \<ge> e \<or> e > int (length src))"
    using assms by (auto simp: stringEscapeValue_def noEscape_def bind_eq_Some_conv simp del: at_in_range split: if_splits)
  from assms(1) have "s + 2 \<le> n" by (cases rule: stringEscapeValue_cases) (auto dest: numericEscape_next)
  then have guard': "\<not> (s < 0 \<or> s + 1 \<ge> e' \<or> e' > int (length src))" using guard assms(2,3) by auto
  note body = assms(1)[unfolded stringEscapeValue_def if_not_P[OF guard] c Option.bind.simps]
  show ?thesis
    unfolding stringEscapeValue_def if_not_P[OF guard'] c Option.bind.simps
    using body assms(2)
    by (auto simp: noEscape_def bind_eq_Some_conv Let_def simp del: at_in_range split: if_splits option.splits
        dest: numericEscape_bound)
qed

text \<open>Where the scanner sees the end of an interpreted literal, the reader of its value does.\<close>

lemma stringLoop_literal:
  assumes "stringLoop src i = Some (j, True)" "0 \<le> i" "j < int (length src)"
  shows "(\<exists>v. literalLoop src i j out = Some (v, True)) \<and> allBytes notNewline src i j"
  using assms
proof (induction "nat (int (length src) - i)" arbitrary: i out rule: less_induct)
  case less
  show ?case
  proof (cases "i = j")
    case True
    then show ?thesis by (simp add: literalLoop.simps allBytes_empty)
  next
    case ij: False
    have "at src i \<noteq> None"
    proof
      assume n: "at src i = None"
      show False using less.prems(1)[unfolded stringLoop.simps[of src i] n option.case] ij by simp
    qed
    then obtain c where c: "at src i = Some c" by blast
    note range = at_range[OF c]
    have ij: "i < j" using stringLoop_range[OF less.prems(1)] range ij by simp
    have c': "src ! nat i = c" using c range by simp
    note body = less.prems(1)[unfolded stringLoop.simps[of src i] c option.case]
    have ih: "(\<exists>v. literalLoop src k j out' = Some (v, True)) \<and> allBytes notNewline src k j"
      if "stringLoop src k = Some (j, True)" "i < k" for k out'
      using less.hyps[OF _ that(1)] range that(2) less.prems(3) by simp
    have escape: ?thesis if "stringEscapeValue src i j = Some (n, v, u, True)" "stringLoop src n = Some (j, True)" "c = chr_backslash" for n v u
    proof -
      have n: "i < n" "n \<le> j" using stringEscapeValue_next[OF that(1)] by auto
      have "\<not> i + 1 \<ge> j" using that(1) by (auto simp: stringEscapeValue_def noEscape_def)
      then have "literalLoop src i j out = literalLoop src n j (if u then appendStringRune out v else out @ [word_of_int v])"
        using ij c that by (subst literalLoop.simps) (simp del: at_in_range)
      moreover have "allBytes notNewline src i j"
        using stringEscapeValue_newline[OF that(1) c[unfolded that(3)]] ih[OF that(2) n(1), THEN conjunct2]
        by (rule allBytes_join)
      ultimately show ?thesis using ih[OF that(2) n(1)] by simp
    qed
    consider "c \<noteq> chr_quote" "c \<noteq> chr_backslash" "c \<noteq> chr_newline" "stringLoop src (i + 1) = Some (j, True)"
      | "c = chr_backslash" "i + 3 < int (length src)" "at src (i + 1) = Some chr_x"
      | "c = chr_backslash" "\<not> (i + 3 < int (length src) \<and> at src (i + 1) = Some chr_x)"
      using body ij by (cases "c = chr_quote"; cases "c = chr_backslash"; cases "c = chr_newline") auto
    then show ?thesis
    proof cases
      case 1
      then have "literalLoop src i j out = literalLoop src (i + 1) j (out @ [c])"
        using ij c by (subst literalLoop.simps) simp
      then show ?thesis using ih[OF 1(4)] allBytes_step[of notNewline src i j] c' 1 by auto
    next
      case 2
      obtain a b where ab: "at src (i + 2) = Some a" "at src (i + 3) = Some b"
        using 2 range at_in_range[of "i + 2" src] at_in_range[of "i + 3" src] by auto
      have hex: "hexDigitByte a" "hexDigitByte b" and rest: "stringLoop src (i + 4) = Some (j, True)"
        using body 2 ab by (auto split: if_splits simp del: at_in_range)
      have "i + 4 \<le> j" using stringLoop_range[OF rest] 2(2) by simp
      then have "stringEscapeValue src i j = Some (i + 4,
          (uint (a AND 15) + (if a > chr_9 then 9 else 0)) * 16 + (uint (b AND 15) + (if b > chr_9 then 9 else 0)), False, True)"
        using 2 ab hex range less.prems(3) by (simp add: stringEscapeValue_def Let_def del: at_in_range)
      from escape[OF this rest 2(1)] show ?thesis .
    next
      case 3
      obtain n v u where e: "stringEscapeValue src i (int (length src)) = Some (n, v, u, True)"
        and rest: "stringLoop src n = Some (j, True)"
        using body 3 by (auto simp: bind_eq_Some_conv split: if_splits simp del: at_in_range)
      have "n \<le> j" using stringLoop_range[OF rest] stringEscapeValue_next[OF e] by simp
      then have "stringEscapeValue src i j = Some (n, v, u, True)"
        using stringEscapeValue_bound[OF e] less.prems(3) by simp
      from escape[OF this rest 3(1)] show ?thesis .
    qed
  qed
qed

subsection \<open>Rune literals\<close>

lemma RuneLiteralValue_newline:
  assumes "RuneLiteralValue h src tok = Some (v, True)" "sourceText src"
  shows "allBytes notNewline src (st_Start tok) (st_End tok)"
proof -
  define s where "s = st_Start tok + 1"
  define e where "e = st_End tok - 1"
  have guard: "\<not> (kindOf tok \<noteq> TokenChar \<or> st_Start tok < 0 \<or> st_End tok > int (length src) \<or> st_End tok - st_Start tok < 3
      \<or> at src (st_Start tok) \<noteq> Some chr_apostrophe \<or> at src (st_End tok - 1) \<noteq> Some chr_apostrophe)"
    using assms(1) unfolding RuneLiteralValue_def Let_def by (rule contrapos_pn) simp
  note body = assms(1)[unfolded RuneLiteralValue_def Let_def if_not_P[OF guard], folded s_def e_def]
  have se: "1 \<le> s" "s < e" "e < int (length src)" using guard by (auto simp: s_def e_def)
  then have cs: "at src s = Some (src ! nat s)" by simp
  have inner: "allBytes notNewline src s e"
  proof (cases "src ! nat s = chr_backslash")
    case True
    note body = body[unfolded cs Option.bind.simps if_P[OF True]]
    have "\<not> (s + 1 \<ge> e \<or> at src (s + 1) = Some chr_quote)" using body by (rule contrapos_pn) simp
    note body = body[unfolded if_not_P[OF this]]
    show ?thesis
    proof (cases "at src (s + 1) = Some chr_apostrophe")
      case q: True
      then have "e = s + 2" "src ! nat (s + 1) = chr_apostrophe"
        using body[unfolded if_P[OF q]] at_range[OF q] by auto
      then show ?thesis using True by - (rule allBytes_two, auto intro: allBytes_empty)
    next
      case False
      obtain n v' u where "stringEscapeValue src s e = Some (n, v', u, True)" "n = e"
        using body[unfolded if_not_P[OF False]] by (auto simp: bind_eq_Some_conv)
      then show ?thesis using stringEscapeValue_newline[of src s e e] cs True by auto
    qed
  next
    case False
    note body = body[unfolded cs Option.bind.simps if_not_P[OF False]]
    have nl: "\<not> (src ! nat s = chr_newline \<or> src ! nat s = chr_apostrophe)" using body by (rule contrapos_pn) simp
    note body = body[unfolded if_not_P[OF this]]
    obtain w where w: "identifierRune src s = Some (v, w)" "0 < w" "s + w = e"
      using body by (auto simp: bind_eq_Some_conv validSourceEncoding_source split: if_splits)
    have "boundary src s"
    proof (rule boundary_after_ascii[OF assms(2)])
      show "src ! nat (s - 1) < 0x80" using guard at_range[of src "st_Start tok"] by (auto simp: s_def)
    qed (use se in auto)
    moreover have "0 \<le> s" "s < int (length src)" using se by simp_all
    ultimately obtain r rest where r: "drop (nat s) src = encodeRune r @ rest" "scalar r"
      using rune_at_boundary[OF assms(2), of s] by blast
    have wr: "w = int (length (encodeRune r))" using identifierRune_encodeRune[OF _ r] w(1) se by simp
    have bytes: "src ! nat (s + int k) = encodeRune r ! k" if "k < length (encodeRune r)" for k
      using at_of_drop[OF r(1) _ that] se by simp
    show ?thesis
    proof (cases "r < 0x80")
      case True
      then have "w = 1" using wr by (simp add: encodeRune_1)
      then show ?thesis using w(3) nl allBytes_one[of notNewline src s] by simp
    next
      case False
      show ?thesis unfolding allBytes_def
      proof (intro allI impI)
        fix k assume k: "s \<le> k \<and> k < e"
        then have l: "nat (k - s) < length (encodeRune r)" and "k = s + int (nat (k - s))" using w(3) wr by auto
        then have "128 \<le> uint (src ! nat k)"
          using encodeRune_bytes(3)[OF r(2) _ l] bytes[OF l] False by simp
        then show "src ! nat k \<noteq> chr_newline" by auto
      qed
    qed
  qed
  have ends: "src ! nat (s - 1) = chr_apostrophe" "src ! nat e = chr_apostrophe"
    using guard by (auto simp: s_def e_def)
  have "allBytes notNewline src (s - 1) e"
    using inner ends(1) by - (rule allBytes_step, auto)
  moreover have "allBytes notNewline src e (e + 1)" using ends(2) by - (rule allBytes_one, simp)
  ultimately have "allBytes notNewline src (s - 1) (e + 1)" by (rule allBytes_join)
  then show ?thesis by (simp add: s_def e_def)
qed

end
