(* ===== verification/Syn_Tiling.thy ===== *)
theory Syn_Tiling
  imports Syn_Rounds
begin

text \<open>
  The tokens of an accepted source tile it: they are lexemes of their kinds, in order, with trivia
  between them, and each carries the line on which it starts.
\<close>

subsection \<open>Numbers\<close>

abbreviation numberByte :: "byte \<Rightarrow> bool" where
  "numberByte c \<equiv> c < 0x80 \<and> c \<noteq> chr_newline"

lemma number_bytes:
  "isDigitOrUnderscore c \<Longrightarrow> numberByte c" "isIdentPart c \<Longrightarrow> numberByte c"
  using ascii_classes_low[of c]
  by (auto simp: isDigitOrUnderscore_def isIdentPart_def isIdentStart_def asciiDigit_iff asciiLetter_iff)

lemma skipDigits_bytes: "allBytes numberByte src i (skipWhile isDigitOrUnderscore src i)"
  using skipWhile_all[of isDigitOrUnderscore src i] number_bytes(1) by (auto intro: allBytes_mono)

lemma byteIs_byte: "byteIs p src i \<Longrightarrow> p (src ! nat i)"
  by (auto simp: byteIs_def at_def split: if_splits)

lemma at_byte: "at src i = Some c \<Longrightarrow> src ! nat i = c"
  by (auto simp: at_def split: if_splits)

lemma prefixedLoop_bytes: "allBytes numberByte src i (prefixedLoop src hex dot i)"
proof (induction "nat (int (length src) - i)" arbitrary: i dot rule: less_induct)
  case less
  show ?case
  proof (cases "at src i")
    case None
    then show ?thesis by (simp add: prefixedLoop.simps allBytes_empty)
  next
    case (Some c)
    have ih: "allBytes numberByte src (i + 1) (prefixedLoop src hex d (i + 1))" for d
      using less[of "i + 1" d] at_range[OF Some] by simp
    have c: "src ! nat i = c" by (rule at_byte[OF Some])
    let ?sign = "byteIs (\<lambda>c. c = chr_plus \<or> c = chr_minus) src (i + 1)"
    consider "c = chr_dot" | "hex \<and> (c = chr_p \<or> c = chr_P)" "c \<noteq> chr_dot"
      | "c \<noteq> chr_dot" "\<not> (hex \<and> (c = chr_p \<or> c = chr_P))" by blast
    then show ?thesis
    proof cases
      case 1
      then have "prefixedLoop src hex dot i = (if dot then i else prefixedLoop src hex True (i + 1))"
        using Some by (subst prefixedLoop.simps) simp
      then show ?thesis using ih[of True] 1 c by (auto intro: allBytes_step allBytes_empty)
    next
      case 2
      then have e: "prefixedLoop src hex dot i = skipWhile isDigitOrUnderscore src (if ?sign then i + 2 else i + 1)"
        using Some by (subst prefixedLoop.simps) (simp add: Let_def add.assoc)
      have low: "numberByte (src ! nat i)" using 2 c by auto
      show ?thesis
      proof (cases ?sign)
        case True
        then have "numberByte (src ! nat (i + 1))" using byteIs_byte[OF True] by auto
        then show ?thesis unfolding e if_P[OF True] using low skipDigits_bytes by - (rule allBytes_two, auto)
      next
        case False
        then show ?thesis unfolding e if_not_P[OF False] using low skipDigits_bytes by - (rule allBytes_step, auto)
      qed
    next
      case 3
      then have "prefixedLoop src hex dot i = (if \<not> isIdentPart c then i else prefixedLoop src hex dot (i + 1))"
        using Some by (subst prefixedLoop.simps) auto
      then show ?thesis using ih[of dot] number_bytes(2)[of c] c by (auto intro: allBytes_step allBytes_empty)
    qed
  qed
qed

lemma scanNumberEnd_bytes:
  assumes "scanNumberEnd src start = Some j" "at src start = Some c" "c \<ge> chr_0 \<and> c \<le> chr_9 \<or> c = chr_dot"
  shows "allBytes numberByte src start j"
proof -
  define digits where "digits = skipWhile isDigitOrUnderscore src"
  have d: "allBytes numberByte src k (digits k)" for k unfolding digits_def by (rule skipDigits_bytes)
  have opt: "allBytes numberByte src start (if byteIs p src k then k + 1 else k)"
    if "allBytes numberByte src start k" "\<forall>c. p c \<longrightarrow> numberByte c" for p k
    using that allBytes_join[OF that(1) allBytes_one[of numberByte src k]] byteIs_byte[of p src k] by auto
  define i1 where "i1 = digits (start + 1)"
  define i2 where "i2 = (if c \<noteq> chr_dot \<and> byteIs (\<lambda>c. c = chr_dot) src i1 then digits (i1 + 1) else i1)"
  define i3 where "i3 = (if byteIs (\<lambda>c. c = chr_plus \<or> c = chr_minus) src (i2 + 1) then i2 + 1 + 1 else i2 + 1)"
  define i4 where "i4 = (if byteIs (\<lambda>c. c = chr_e \<or> c = chr_E) src i2 then digits i3 else i2)"
  have c: "src ! nat start = c" by (rule at_byte[OF assms(2)])
  have low: "numberByte c" using assms(3) number_bytes(1)[of c] by (auto simp: isDigitOrUnderscore_def)
  have i1: "allBytes numberByte src start i1"
    unfolding i1_def using low d by - (rule allBytes_step, simp_all add: c)
  have i2: "allBytes numberByte src start i2"
    using i1 allBytes_join[OF opt[OF i1, of "\<lambda>c. c = chr_dot"] d[of "if byteIs (\<lambda>c. c = chr_dot) src i1 then i1 + 1 else i1"]]
    by (auto simp: i2_def)
  have i4: "allBytes numberByte src start i4"
  proof (cases "byteIs (\<lambda>c. c = chr_e \<or> c = chr_E) src i2")
    case True
    have "allBytes numberByte src start (if byteIs (\<lambda>c. c = chr_e \<or> c = chr_E) src i2 then i2 + 1 else i2)"
      by (rule opt[OF i2]) auto
    then have "allBytes numberByte src start (i2 + 1)" using True by simp
    then have "allBytes numberByte src start i3" unfolding i3_def by (rule opt) auto
    from allBytes_join[OF this d] show ?thesis using True by (simp add: i4_def)
  qed (use i2 in \<open>simp add: i4_def\<close>)
  define i5 where "i5 = (if c = chr_0 \<and> at src (start + 1) \<in> Some ` {chr_x, chr_X, chr_b, chr_B, chr_o, chr_O}
      then prefixedLoop src (at src (start + 1) = Some chr_x \<or> at src (start + 1) = Some chr_X) False (start + 2) else i4)"
  have i5: "allBytes numberByte src start i5"
  proof (cases "c = chr_0 \<and> at src (start + 1) \<in> Some ` {chr_x, chr_X, chr_b, chr_B, chr_o, chr_O}")
    case True
    then obtain b where b: "at src (start + 1) = Some b" "b \<in> {chr_x, chr_X, chr_b, chr_B, chr_o, chr_O}" by auto
    have "numberByte (src ! nat (start + 1))" using b at_byte[OF b(1)] by auto
    then have "allBytes numberByte src start (prefixedLoop src hex dot (start + 2))" for hex dot
      using low c prefixedLoop_bytes by - (rule allBytes_two, auto)
    then show ?thesis using True unfolding i5_def by (simp only: if_True simp_thms)
  qed (use i4 in \<open>auto simp: i5_def\<close>)
  have "j = (if byteIs (\<lambda>c. c = chr_i) src i5 then i5 + 1 else i5)"
    using assms(1,2) unfolding scanNumberEnd_def
    by (simp add: i5_def i4_def i3_def i2_def i1_def digits_def Let_def image_iff cong: if_cong)
  then show ?thesis using opt[OF i5, of "\<lambda>c. c = chr_i"] by auto
qed

subsection \<open>Identifiers\<close>

lemma keywordOf_other:
  assumes "length t \<notin> {2,3,4,5,6,7,8,9,11}"
  shows "keywordOf t = TokenIdent"
proof -
  have "\<forall>s \<in> fst ` set goKeywords. length s \<in> {2,3,4,5,6,7,8,9,11}"
    by (simp add: goKeywords_def ascii_lengths)
  then have "map_of goKeywords t = None"
    using assms unfolding map_of_eq_None_iff by blast
  then show ?thesis by (simp add: keywordOf_def)
qed

lemma identKind_exact:
  assumes "at src i = Some c" "i < j" "j \<le> int (length src)"
  shows "identKind src i j c = Some (keywordOf (textAt src i j))"
proof -
  have i: "0 \<le> i" "c = src ! nat i" using at_range[OF assms(1)] at_byte[OF assms(1)] by auto
  show ?thesis
  proof (cases "j - i \<ge> 2 \<and> j - i \<le> 9 \<or> j - i = 11")
    case True
    then show ?thesis using keywordKind_exact[OF i(1) assms(2,3) i(2)] by (auto simp: identKind_def)
  next
    case False
    have "int (length (textAt src i j)) = j - i" using textAt_length[of i j src] i assms by simp
    then have "keywordOf (textAt src i j) = TokenIdent" using False by - (rule keywordOf_other, auto)
    then show ?thesis unfolding identKind_def Let_def if_not_P[OF False] by simp
  qed
qed

lemma encodeRune_newline: "47 < v \<Longrightarrow> scalar v \<Longrightarrow> b \<in> set (encodeRune v) \<Longrightarrow> b \<noteq> chr_newline"
proof (cases "v < 0x80")
  case True
  assume "47 < v" "b \<in> set (encodeRune v)"
  then have "uint b = v" using True by (simp add: encodeRune_1 uint_byteOf)
  then show ?thesis using \<open>47 < v\<close> by auto
next
  case False
  assume "scalar v" "b \<in> set (encodeRune v)"
  then obtain j where "j < length (encodeRune v)" "b = encodeRune v ! j" by (auto simp: in_set_conv_nth)
  then have "128 \<le> uint b" using encodeRune_bytes(3)[OF \<open>scalar v\<close>] False by simp
  then show ?thesis by auto
qed

lemma identifierText_newlines: "identifierText s \<Longrightarrow> newlines s = 0"
  using encodeRune_newline letter_digit_above
  by (fastforce simp: identifierText_def newlines_def encodeRunes_def filter_empty_conv)

lemma identStep_lexeme:
  assumes "sourceText src" "boundary src i" "at src i = Some c"
    "identStarts src i c = Some True" "identFirst src i c = Some a" "identLoop src a = Some j"
  shows "identifierText (textAt src i j) \<and> boundary src j"
proof -
  have i: "0 \<le> i" "i < int (length src)" using at_range[OF assms(3)] by auto
  have ij: "i < a" "a \<le> int (length src)" using identFirst_range[OF assms(5,4,3)] by auto
  have aj: "a \<le> j" using identLoop_range[OF assms(6) ij(2)] by simp
  have first: "\<exists>v. textAt src i a = encodeRune v \<and> scalar v \<and> letter v \<and> boundary src a"
  proof (cases "c \<ge> 128")
    case False
    then have a: "a = i + 1" and l: "asciiLetter c \<or> c = chr_underscore"
      using assms(4,5) by (auto simp: identFirst_def identStarts_def split: if_splits)
    have "textAt src i a = [c]" using textAt_Cons[OF assms(3), of a] a by (simp add: textAt_empty)
    moreover have "encodeRune (uint c) = [c]" using False by (simp add: encodeRune_1 word_less_alt linorder_not_le byteOf_def)
    moreover have "scalar (uint c)" using False by (simp add: scalar_def word_less_alt linorder_not_le)
    moreover have "letter (uint c)" using l letter_ascii[of c] by (auto simp: letter_def)
    moreover have "boundary src a"
      using boundary_after_ascii[OF assms(1), of a] a i ij at_byte[OF assms(3)] False by simp
    ultimately show ?thesis by (intro exI[of _ "uint c"]) simp
  next
    case True
    then have "\<not> (asciiLetter c \<or> c = chr_underscore)" using ascii_classes_low[of c] by auto
    then obtain w where w: "unicodeIdentifierWidth src i True = Some w" "w > 0" "a = i + w"
      using True assms(4,5) by (auto simp: identFirst_def identStarts_def bind_eq_Some_conv)
    obtain v rest where v: "drop (nat i) src = encodeRune v @ rest" "scalar v"
      "boundary src (i + int (length (encodeRune v)))"
      using rune_at_boundary[OF assms(1) i assms(2)] by blast
    have "w = int (length (encodeRune v))" "letter v"
      using unicodeIdentifierWidth_rune[OF w(1) _ i(1) v(1,2)] w(2) by auto
    then show ?thesis using v w(3) textAt_rune[OF v(1)] by auto
  qed
  then obtain v where v: "textAt src i a = encodeRune v" "scalar v" "letter v" "boundary src a" by blast
  obtain cs where cs: "textAt src a j = encodeRunes cs" "\<forall>v \<in> set cs. identPart v" "boundary src j"
    using identLoop_text[OF assms(1) _ ij(2) v(4) assms(6)] ij i by auto
  have "textAt src i j = encodeRunes (v # cs)"
    using textAt_join[of i a j src] i ij aj v(1) cs(1) by (simp add: encodeRunes_def)
  then show ?thesis using v cs(2,3) unfolding identifierText_def identPart_def by blast
qed

subsection \<open>A token of a round\<close>

text \<open>What a round that finds a token establishes, for a source shorter than \<open>2^31\<close> bytes.\<close>

definition foundOk :: "bytes \<Rightarrow> int \<Rightarrow> int \<Rightarrow> SynToken \<Rightarrow> int \<Rightarrow> int \<Rightarrow> bool" where
  "foundOk src i line tok j line' =
     (st_Start tok = i \<and> st_End tok = j \<and> i < j \<and> j \<le> int (length src)
      \<and> TokenLine tok = line mod 65536 \<and> line' = line + newlines (textAt src i j)
      \<and> lexemeOk src tok \<and> \<not> isSpace (src ! nat i) \<and> boundary src j)"

lemma operatorToken_fields:
  assumes "c < 0x80"
  shows "kindOf (operatorToken i j c line) = TokenOperator"
    "charOf (operatorToken i j c line) = (if j = i + 1 then uint c else 0)"
    "TokenLine (operatorToken i j c line) = line mod 65536"
    "st_Start (operatorToken i j c line) = toInt32 i"
    "st_End (operatorToken i j c line) = toInt32 j"
proof -
  have c: "0 \<le> uint c" "uint c < 128" using assms by (simp_all add: word_less_alt)
  have k: "st_KindLine (operatorToken i j c line) = TokenOperator + (if j = i + 1 then uint c else 0) * 256 + line * 32768"
  proof (cases "j = i + 1")
    case True
    then show ?thesis
      using packed_fields[of TokenOperator "uint c" line] c by (simp add: operatorToken_def MakeSynToken_def Let_def)
  next
    case False
    then show ?thesis
      using packed_fields[of TokenOperator 0 line] by (simp add: operatorToken_def MakeSynToken_def Let_def)
  qed
  from fields_of_packed[OF k] c
  show "kindOf (operatorToken i j c line) = TokenOperator"
    "charOf (operatorToken i j c line) = (if j = i + 1 then uint c else 0)"
    "TokenLine (operatorToken i j c line) = line mod 65536"
    by (cases "j = i + 1"; simp)+
qed (simp_all add: operatorToken_def MakeSynToken_def Let_def)

lemma foundOk_made:
  assumes "int (length src) < 2 ^ 31" "0 \<le> i" "i < j" "j \<le> int (length src)" "tok = MakeSynToken kind i j line"
    and "0 \<le> kind" "kind < 256" "kind \<noteq> TokenOperator"
    and "line' = line + newlines (textAt src i j)" "boundary src j" "\<not> isSpace (src ! nat i)"
    and "kind = TokenNumber \<and> validNumberLiteral src i j = Some True \<and> j - i \<le> 10000
      \<or> kind = TokenString \<and> (\<exists>v. StringLiteralValue src tok = Some (v, True))
      \<or> kind = TokenChar \<and> (\<forall>h. \<exists>v. RuneLiteralValue h src tok = Some (v, True))
      \<or> identifierText (textAt src i j) \<and> kind = keywordOf (textAt src i j)"
  shows "foundOk src i line tok j line'"
proof -
  have ends: "st_Start tok = i" "st_End tok = j"
    using MakeSynToken_fields(4,5)[OF assms(6,7), of i j line] assms(1-5) by (simp_all add: toInt32_id)
  note f = MakeSynToken_fields(1-3)[OF assms(6,7), of i j line, folded assms(5)]
  have "lexemeOk src tok"
    using assms(8,12) unfolding lexemeOk_def Let_def f ends by (elim disjE conjE) simp_all
  then show ?thesis unfolding foundOk_def ends f using assms(3,4,9-11) by simp
qed

lemma identStep_found:
  assumes "sourceText src" "int (length src) < 2 ^ 31" "boundary src i" "at src i = Some c"
    "identStarts src i c = Some True" "identStep src i line c = Some (Found tok j line' b)" "\<not> isSpace c"
  shows "foundOk src i line tok j line'"
proof -
  obtain a kind b' where a: "identFirst src i c = Some a" "identLoop src a = Some j" "identKind src i j c = Some kind"
    and t: "tok = MakeSynToken kind i j line" "line' = line"
    using assms(6) by (auto elim: identStep_cases)
  have i: "0 \<le> i" "src ! nat i = c" using at_range[OF assms(4)] at_byte[OF assms(4)] by auto
  have ia: "i < a" "a \<le> int (length src)" using identFirst_range[OF a(1) assms(5,4)] by auto
  have j: "i < j" "j \<le> int (length src)" using identLoop_range[OF a(2) ia(2)] ia by auto
  have body: "identifierText (textAt src i j)" "boundary src j"
    using identStep_lexeme[OF assms(1,3-5) a(1,2)] by auto
  have k: "kind = keywordOf (textAt src i j)" using a(3) identKind_exact[OF assms(4) j] by simp
  then have "kind \<in> {1} \<union> {6..30}" using keywordOf_range by simp
  then have r: "0 \<le> kind" "kind < 256" "kind \<noteq> TokenOperator" by auto
  show ?thesis
    using body k identifierText_newlines[OF body(1)] t(2) i(2) assms(7)
    by - (rule foundOk_made[OF assms(2) i(1) j t(1) r], simp_all)
qed

lemma numberStep_found:
  assumes "sourceText src" "int (length src) < 2 ^ 31" "at src i = Some c" "c \<ge> chr_0 \<and> c \<le> chr_9 \<or> c = chr_dot"
    "numberStep src i line = Some (Found tok j line' b)"
  shows "foundOk src i line tok j line'"
proof -
  have s: "scanNumberEnd src i = Some j" "validNumberLiteral src i j = Some True" "j - i \<le> 10000"
    "tok = MakeSynToken TokenNumber i j line" "line' = line"
    using assms(5) by (auto simp: numberStep_def bind_eq_Some_conv split: if_splits)
  have i: "0 \<le> i" "src ! nat i = c" using at_range[OF assms(3)] at_byte[OF assms(3)] by auto
  have j: "i < j" "j \<le> int (length src)" using scanNumberEnd_range[OF s(1)] by auto
  have bytes: "allBytes numberByte src i j" by (rule scanNumberEnd_bytes[OF s(1) assms(3,4)])
  then have "newlines (textAt src i j) = 0"
    using newlines_none[OF i(1) _ j(2)] j(1) allBytes_mono[OF bytes, of notNewline] by simp
  moreover have "boundary src j"
    using boundary_after_ascii[OF assms(1) _ j(2)] bytes i(1) j(1) by (simp add: allBytes_def)
  moreover have "\<not> isSpace c" using assms(4) by auto
  ultimately show ?thesis
    using s i(2) by - (rule foundOk_made[OF assms(2) i(1) j s(4)], simp_all)
qed

lemma quoted_ends:
  assumes "0 \<le> i" "at src i = Some q" "at src j = Some q" "i < j" "q < 0x80" "sourceText src"
  shows "i < j + 1" "j + 1 \<le> int (length src)" "boundary src (j + 1)"
    "newlines (textAt src i (j + 1)) = newlines [q] + newlines (textAt src (i + 1) j) + newlines [q]"
proof -
  have j: "j < int (length src)" using at_range[OF assms(3)] by simp
  show "i < j + 1" "j + 1 \<le> int (length src)" using assms(4) j by auto
  show "boundary src (j + 1)"
    using boundary_after_ascii[OF assms(6), of "j + 1"] at_byte[OF assms(3)] assms(1,4,5) j by simp
  have "textAt src i (j + 1) = [q] @ textAt src (i + 1) j @ [q]"
    using textAt_Cons[OF assms(2), of "j + 1"] textAt_join[of "i + 1" j "j + 1" src]
      textAt_Cons[OF assms(3), of "j + 1"] assms(1,4) by (simp add: textAt_empty)
  then show "newlines (textAt src i (j + 1)) = newlines [q] + newlines (textAt src (i + 1) j) + newlines [q]"
    by (simp only: newlines_append add.assoc)
qed

lemma stringStep_found:
  assumes "sourceText src" "int (length src) < 2 ^ 31" "at src i = Some chr_quote"
    "stringStep src i line = Some (Found tok j line' b)"
  shows "foundOk src i line tok j line'"
proof -
  obtain k where k: "stringLoop src (i + 1) = Some (k, True)" "at src k = Some chr_quote" "j = k + 1"
    and t: "tok = MakeSynToken TokenString i j line" "line' = line"
  proof -
    obtain k ok where k: "stringLoop src (i + 1) = Some (k, ok)"
      using assms(4) unfolding stringStep_def by (cases "stringLoop src (i + 1)") auto
    note body = assms(4)[unfolded stringStep_def k Option.bind.simps prod.case]
    have q: "\<not> (\<not> ok \<or> at src k \<noteq> Some chr_quote)" using body by (rule contrapos_pn) simp
    show thesis by (rule that[of k]) (use k q body[unfolded if_not_P[OF q]] in \<open>auto simp del: at_in_range\<close>)
  qed
  have i: "0 \<le> i" "i < int (length src)" "src ! nat i = chr_quote"
    using at_range[OF assms(3)] at_byte[OF assms(3)] by auto
  have ik: "i < k" "k < int (length src)"
    using stringLoop_range[OF k(1)] i at_range[OF k(2)] by auto
  have low: "chr_quote < (0x80 :: byte)" by simp
  note e = quoted_ends[OF i(1) assms(3) k(2) ik(1) low assms(1), folded k(3)]
  have body: "\<exists>v. literalLoop src (i + 1) k [] = Some (v, True)" "allBytes notNewline src (i + 1) k"
    using stringLoop_literal[OF k(1) _ ik(2), of "[]"] i by auto
  have "newlines (textAt src (i + 1) k) = 0"
    using newlines_none[OF _ _ _ body(2)] i ik by simp
  then have nl: "newlines (textAt src i j) = 0" using e(4) by (simp add: newlines_def)
  have f: "kindOf tok = TokenString" "st_Start tok = i" "st_End tok = j"
    using MakeSynToken_fields[of TokenString i j line] t(1) i e(2) assms(2) ik k(3) by (simp_all add: toInt32_id)
  have "\<exists>v. StringLiteralValue src tok = Some (v, True)"
    using body(1) k(2,3) assms(3) i ik e(2) unfolding StringLiteralValue_def Let_def f
    by (simp del: at_in_range)
  then show ?thesis
    using t nl e(3) i(3) by - (rule foundOk_made[OF assms(2) i(1) e(1,2) t(1)], simp_all)
qed

lemma rawStep_found:
  assumes "sourceText src" "int (length src) < 2 ^ 31" "at src i = Some chr_backquote"
    "rawStep src i line = Some (Found tok j line' b)"
  shows "foundOk src i line tok j line'"
proof -
  obtain k l where k: "rawLoop src (i + 1) line = (k, l)" "at src k = Some chr_backquote" "j = k + 1"
    and t: "tok = MakeSynToken TokenString i j line" "line' = l"
    using assms(4) by (auto simp: rawStep_def split: if_splits prod.splits)
  have i: "0 \<le> i" "i < int (length src)" "src ! nat i = chr_backquote"
    using at_range[OF assms(3)] at_byte[OF assms(3)] by auto
  have ik: "i < k" "k < int (length src)"
    using rawLoop_range[of "i + 1" src line] k(1) i at_range[OF k(2)] by auto
  have low: "chr_backquote < (0x80 :: byte)" by simp
  note e = quoted_ends[OF i(1) assms(3) k(2) ik(1) low assms(1), folded k(3)]
  have nl: "line' = line + newlines (textAt src i j)"
    using rawLoop_spec[OF _ _ k(1)] i t(2) e(4) by (simp add: newlines_def)
  have f: "kindOf tok = TokenString" "st_Start tok = i" "st_End tok = j"
    using MakeSynToken_fields[of TokenString i j line] t(1) i e(2) assms(2) ik k(3) by (simp_all add: toInt32_id)
  have "\<exists>v. StringLiteralValue src tok = Some (v, True)"
    using k(2,3) assms(3) i ik e(2) unfolding StringLiteralValue_def Let_def f
    by (simp del: at_in_range add: slice_def)
  then show ?thesis
    using t nl e(3) i(3) by - (rule foundOk_made[OF assms(2) i(1) e(1,2) t(1)], simp_all)
qed

lemma runeStep_found:
  assumes "sourceText src" "int (length src) < 2 ^ 31" "at src i = Some chr_apostrophe"
    "runeStep h src i line = Some (Found tok j line' b)"
  shows "foundOk src i line tok j line'"
proof -
  obtain k v where k: "k = runeLoop src (i + 1)" "at src k = Some chr_apostrophe" "j = k + 1"
    and t: "tok = MakeSynToken TokenChar i j line" "line' = line"
    and v: "RuneLiteralValue h src tok = Some (v, True)"
  proof -
    define k where "k = runeLoop src (i + 1)"
    note body = assms(4)[unfolded runeStep_def Let_def, folded k_def]
    have q: "\<not> at src k \<noteq> Some chr_apostrophe" using body by (rule contrapos_pn) simp
    note body = body[unfolded if_not_P[OF q]]
    obtain v ok where v: "RuneLiteralValue h src (MakeSynToken TokenChar i (k + 1) line) = Some (v, ok)"
      using body by (cases "RuneLiteralValue h src (MakeSynToken TokenChar i (k + 1) line)") auto
    note body = body[unfolded v Option.bind.simps prod.case]
    have ok using body by (cases ok) simp_all
    show thesis by (rule that[OF k_def, of v]) (use \<open>ok\<close> q v body in \<open>auto simp del: at_in_range\<close>)
  qed
  have i: "0 \<le> i" "i < int (length src)" "src ! nat i = chr_apostrophe"
    using at_range[OF assms(3)] at_byte[OF assms(3)] by auto
  have ik: "i < k" "k < int (length src)"
    using runeLoop_range[of "i + 1" src] k(1) i at_range[OF k(2)] by auto
  have low: "chr_apostrophe < (0x80 :: byte)" by simp
  note e = quoted_ends[OF i(1) assms(3) k(2) ik(1) low assms(1), folded k(3)]
  have f: "st_Start tok = i" "st_End tok = j"
    using MakeSynToken_fields[of TokenChar i j line] t(1) i e(2) assms(2) ik k(3) by (simp_all add: toInt32_id)
  have "allBytes notNewline src i j" using RuneLiteralValue_newline[OF v assms(1)] f by simp
  then have "newlines (textAt src i j) = 0" using newlines_none[OF i(1) _ e(2)] e(1) by simp
  moreover have "\<forall>h. \<exists>v. RuneLiteralValue h src tok = Some (v, True)"
    using v RuneLiteralValue_host[of _ src tok h] by auto
  ultimately show ?thesis
    using t e(3) i(3) by - (rule foundOk_made[OF assms(2) i(1) e(1,2) t(1)], simp_all)
qed

subsection \<open>Rounds\<close>

text \<open>A round that moves on without a token: what it moves over extends the trivia behind it.\<close>

definition movedOk :: "bytes \<Rightarrow> int \<Rightarrow> int \<Rightarrow> int \<Rightarrow> int \<Rightarrow> bool" where
  "movedOk src i line j line' =
     (i < j \<and> j \<le> int (length src) \<and> boundary src j \<and> line' = line + newlines (textAt src i j)
      \<and> (\<forall>eof k. j \<le> k \<and> k \<le> int (length src) \<and> gapEnd src eof k \<and> trivia eof (textAt src j k)
            \<longrightarrow> trivia eof (textAt src i k)))"

lemma scanStep_moved:
  assumes "sourceText src" "scanStep h src i line = Some (Moved j line')"
  shows "movedOk src i line j line'"
proof -
  have ij: "i < j" "j \<le> int (length src)" using scanStep_range[OF assms(2)] by auto
  from assms(2) show ?thesis
  proof (cases rule: scanStep_cases)
    case (space c)
    have i: "0 \<le> i" "i \<le> int (length src)" using at_range[OF space(1)] by auto
    have e: "spaceLoop src i line = (j, line')" using space(3) by (simp add: prod_eq_iff)
    note spec = spaceLoop_spec[OF i(2,1) e]
    have "isSpace (src ! nat (j - 1))" using spec ij i by (simp add: allBytes_def)
    then have "boundary src j"
      using boundary_after_ascii[OF assms(1), of j] ij i by auto
    then show ?thesis
      using spec ij i trivia_skip_space[of src i j] unfolding movedOk_def by simp
  next
    case lineComment
    have i: "0 \<le> i" "i + 2 \<le> int (length src)"
      using at_range[OF lineComment(1)] at_range[OF lineComment(2)] by auto
    have j: "j = skipWhile notNewline src (i + 2)" and l: "line' = line" using lineComment(3) by auto
    have all: "allBytes notNewline src (i + 2) j" "\<not> byteIs notNewline src j"
      using skipWhile_all[of notNewline src "i + 2"] j by auto
    have "allBytes notNewline src i j"
      using all(1) at_byte[OF lineComment(1)] at_byte[OF lineComment(2)] by - (rule allBytes_two, simp_all)
    then have "newlines (textAt src i j) = 0" using newlines_none[OF i(1) _ ij(2)] ij(1) by simp
    moreover have "boundary src j"
      using all(2) ij i by (auto simp: boundary_def byteIs_def continuationByte_def)
    ultimately show ?thesis
      using ij l trivia_skip_line[OF lineComment(1,2) j] unfolding movedOk_def by simp
  next
    case (blockComment b l)
    have i: "0 \<le> i" "i + 2 \<le> int (length src)"
      using at_range[OF blockComment(1)] at_range[OF blockComment(2)] by auto
    have j: "j = b + 2" and l: "line' = l" using blockComment(5) by auto
    have b: "i + 2 \<le> b" using blockComment_range[of "i + 2" src line] blockComment(3) i by auto
    note spec = blockComment_spec[OF i(2) _ blockComment(3)]
    have stop: "at src b = Some chr_star" "at src (b + 1) = Some chr_slash"
      using spec blockComment(4) i by auto
    have 1: "j - 1 = b + 1" using j by simp
    have "src ! nat (j - 1) < 0x80" unfolding 1 at_byte[OF stop(2)] by simp
    then have "boundary src j" by (rule boundary_after_ascii[OF assms(1) _ ij(2), rotated]) (use ij i in simp)
    moreover have "newlines (textAt src i j) = newlines (textAt src (i + 2) b)"
      using textAt_two[OF blockComment(1,2), of j] textAt_two[OF stop, of j] textAt_join[of "i + 2" b j src] i b j
      by (simp add: textAt_empty newlines_def)
    ultimately show ?thesis
      using ij l j spec i trivia_skip_block[OF blockComment(1-4)] unfolding movedOk_def by simp
  next
    case (ident c)
    from ident(3) show ?thesis by (auto elim: identStep_cases)
  qed (auto simp: numberStep_def stringStep_def rawStep_def runeStep_def bind_eq_Some_conv Let_def
      simp del: at_in_range split: if_splits prod.splits)
qed

lemma scanStep_found:
  assumes "sourceText src" "int (length src) < 2 ^ 31" "boundary src i" "scanStep h src i line = Some (Found tok j line' b)"
  shows "foundOk src i line tok j line'"
  using assms(4)
proof (cases rule: scanStep_cases)
  case (ident c)
  have "\<not> isSpace c" 
    using ident(2) asciiLetter_iff[of c] by (auto simp: identStarts_def split: if_splits)
  then show ?thesis using identStep_found[OF assms(1-3) ident] by simp
next
  case (number c)
  then show ?thesis using numberStep_found[OF assms(1,2) number(1) _ number(2)] by blast
next
  case str
  then show ?thesis using stringStep_found[OF assms(1,2)] by simp
next
  case raw
  then show ?thesis using rawStep_found[OF assms(1,2)] by simp
next
  case rune
  then show ?thesis using runeStep_found[OF assms(1,2)] by simp
next
  case (operator c)
  have i: "0 \<le> i" "i < int (length src)" "src ! nat i = c"
    using at_range[OF operator(1)] at_byte[OF operator(1)] by auto
  have t: "tok = operatorToken i j c line" "line' = line" "j = operatorEnd src i c" using operator(11) by auto
  have j: "i < j" "j \<le> int (length src)" using operatorEnd_range[OF operator(1)] t(3) by auto
  have low: "c < 0x80" using operator(2) by simp
  note f = operatorToken_fields[OF low, of i j line, folded t(1)]
  have ends: "st_Start tok = i" "st_End tok = j" using f(4,5) i j assms(2) by (simp_all add: toInt32_id)
  have op: "operatorText (textAt src i j) (drop (nat j) src)"
    using operatorEnd_longest[OF operator(1)] t(3) by simp
  have lex: "lexemeOk src tok" using op i(3) unfolding lexemeOk_def Let_def ends f(1,2) by simp
  have bytes: "set (textAt src i j) \<subseteq> {b. b < 0x80 \<and> b \<noteq> chr_newline}"
  proof -
    have long: "\<forall>q \<in> set longOperators. set q \<subseteq> {b. b < 0x80 \<and> b \<noteq> chr_newline}"
      by (simp add: longOperators_bytes)
    have one: "textAt src i j = [c]" if "length (textAt src i j) = 1"
      using textAt_Cons[OF operator(1) j(1)] that by simp
    from op consider "length (textAt src i j) = 1" | "textAt src i j \<in> set longOperators"
      unfolding operatorText_def by blast
    then show ?thesis
    proof cases
      case 1
      then show ?thesis using one low operator(3) by auto
    qed (use long in blast)
  qed
  have all: "allBytes (\<lambda>b. b < 0x80 \<and> b \<noteq> chr_newline) src i j"
    using allBytes_set[of i j src "\<lambda>b. b < 0x80 \<and> b \<noteq> chr_newline"] bytes i j by auto
  have "newlines (textAt src i j) = 0" using bytes by (auto simp: newlines_def filter_empty_conv)
  moreover have "boundary src j"
    using boundary_after_ascii[OF assms(1) _ j(2)] all i j by (simp add: allBytes_def)
  ultimately show ?thesis
    using f(3) ends lex j t(2) operator(3) i(3) unfolding foundOk_def by simp
qed auto

subsection \<open>The tiling\<close>

definition tokenOk :: "bytes \<Rightarrow> SynToken \<Rightarrow> bool" where
  "tokenOk src tok =
     (0 \<le> st_Start tok \<and> st_Start tok < st_End tok \<and> st_End tok \<le> int (length src)
      \<and> lexemeOk src tok \<and> \<not> isSpace (src ! nat (st_Start tok))
      \<and> TokenLine tok = (1 + newlines (textAt src 0 (st_Start tok))) mod 65536)"

text \<open>The tokens behind position \<open>p\<close>: each begins at or behind the end of the one before, with trivia
  in between, and trivia up to the end of the file behind the last when the scan was accepted.\<close>

primrec tiled :: "bool \<Rightarrow> bytes \<Rightarrow> int \<Rightarrow> SynToken list \<Rightarrow> bool" where
  "tiled ok src p [] = (ok \<longrightarrow> trivia True (textAt src p (int (length src))))"
| "tiled ok src p (tok # toks) =
     (p \<le> st_Start tok \<and> trivia False (textAt src p (st_Start tok)) \<and> tokenOk src tok
      \<and> tiled ok src (st_End tok) toks)"

lemma tiled_moved:
  assumes "tiled ok src j toks" "movedOk src i line j line'"
  shows "tiled ok src i toks"
proof (cases toks)
  case Nil
  then show ?thesis using assms by (auto simp: movedOk_def gapEnd_def)
next
  case (Cons t ts)
  then have t: "j \<le> st_Start t" "trivia False (textAt src j (st_Start t))" "tokenOk src t" "tiled ok src (st_End t) ts"
    using assms(1) by auto
  then have "gapEnd src False (st_Start t)" "st_Start t \<le> int (length src)" by (auto simp: tokenOk_def gapEnd_def)
  then show ?thesis using t assms(2) Cons unfolding movedOk_def by auto
qed

lemma newlines_textAt: "0 \<le> i \<Longrightarrow> i \<le> j \<Longrightarrow> newlines (textAt src 0 j) = newlines (textAt src 0 i) + newlines (textAt src i j)"
  using textAt_join[of 0 i j src] newlines_append by simp

lemma scanLoop_tiled:
  assumes "sourceText src" "int (length src) < 2 ^ 31"
    and "scanLoop h src linked i line toks cand = Some (ts, ok, cand', l)"
    and "0 \<le> i" "i \<le> int (length src)" "boundary src i" "line = 1 + newlines (textAt src 0 i)"
  shows "\<exists>new. ts = toks @ new \<and> tiled ok src i new \<and> (ok \<longrightarrow> l = 1 + newlines src)"
  using assms(3-7)
proof (induction "nat (int (length src) - i)" arbitrary: i line toks cand rule: less_induct)
  case less
  note e = less.prems(1)[unfolded scanLoop.simps[of h src linked i]]
  show ?case
  proof (cases "i < int (length src)")
    case False
    then have i: "i = int (length src)" using less.prems(3) by simp
    have "textAt src 0 (int (length src)) = src" by (simp add: textAt_def)
    then have "l = 1 + newlines src" "ts = toks" using e False less.prems(5) i by auto
    then show ?thesis using i by (simp add: textAt_empty trivia_Nil)
  next
    case True
    note e = e[unfolded if_P[OF True]]
    show ?thesis
    proof (cases "\<not> linked \<and> line > TokenLineLimit")
      case limit: True
      then show ?thesis using e by auto
    next
      case False
      note e = e[unfolded if_not_P[OF False]]
      then obtain r where r: "scanStep h src i line = Some r" by (auto simp: bind_eq_Some_conv)
      note e = e[unfolded r Option.bind.simps]
      show ?thesis
      proof (cases r)
        case (Refused l')
        then show ?thesis using e by auto
      next
        case (Moved j line')
        have m: "movedOk src i line j line'" using scanStep_moved[OF assms(1)] r Moved by simp
        have p: "i < j" "j \<le> int (length src)" "boundary src j" "line' = 1 + newlines (textAt src 0 j)"
          using m newlines_textAt[of i j src] less.prems(2,5) by (auto simp: movedOk_def)
        have "scanLoop h src linked j line' toks cand = Some (ts, ok, cand', l)" using e Moved by simp
        from less.hyps[OF _ this] p less.prems(2) True
        obtain new where "ts = toks @ new" "tiled ok src j new" "ok \<longrightarrow> l = 1 + newlines src" by auto
        then show ?thesis using tiled_moved[OF _ m] by blast
      next
        case (Found tok j line' b)
        have f: "foundOk src i line tok j line'" using scanStep_found[OF assms(1,2) less.prems(4)] r Found by simp
        have p: "i < j" "j \<le> int (length src)" "boundary src j" "line' = 1 + newlines (textAt src 0 j)"
          using f newlines_textAt[of i j src] less.prems(2,5) by (auto simp: foundOk_def)
        have "scanLoop h src linked j line' (toks @ [tok]) (cand \<or> b) = Some (ts, ok, cand', l)" using e Found by simp
        from less.hyps[OF _ this] p less.prems(2) True
        obtain new where n: "ts = (toks @ [tok]) @ new" "tiled ok src j new" "ok \<longrightarrow> l = 1 + newlines src" by auto
        have "tiled ok src i (tok # new)"
          using f n(2) less.prems(2,5) by (auto simp: foundOk_def tokenOk_def textAt_empty trivia_Nil)
        then show ?thesis using n by auto
      qed
    qed
  qed
qed

definition bomWidth :: "bytes \<Rightarrow> int" where
  "bomWidth src = (if isPrefix [0xef, 0xbb, 0xbf] src then 3 else 0)"

text \<open>What a scan promises of its tokens.\<close>

definition scanned :: "bool \<Rightarrow> bytes \<Rightarrow> SynToken list \<Rightarrow> bool" where
  "scanned ok src toks =
     (\<exists>ts eof. toks = ts @ [eof] \<and> tiled ok src (bomWidth src) ts
        \<and> kindOf eof = TokenEOF \<and> st_Start eof = int (length src) \<and> st_End eof = int (length src)
        \<and> (ok \<longrightarrow> TokenLine eof = (1 + newlines src) mod 65536))"

lemma bom_position:
  assumes "sourceText src"
  shows "(if int (length src) \<ge> 3 \<and> at src 0 = Some 0xef \<and> at src 1 = Some 0xbb \<and> at src 2 = Some 0xbf then 3 else 0)
      = bomWidth src"
    "bomWidth src \<le> int (length src)" "newlines (textAt src 0 (bomWidth src)) = 0"
proof -
  have p: "isPrefix [0xef, 0xbb, 0xbf] src \<longleftrightarrow> (\<exists>rest. src = 0xef # 0xbb # 0xbf # rest)"
    by (cases src; cases "tl src"; cases "tl (tl src)") (auto simp: isPrefix_def)
  show "(if int (length src) \<ge> 3 \<and> at src 0 = Some 0xef \<and> at src 1 = Some 0xbb \<and> at src 2 = Some 0xbf then 3 else 0)
      = bomWidth src"
    unfolding bomWidth_def p by (cases src; cases "tl src"; cases "tl (tl src)") (auto simp: at_def)
  show "bomWidth src \<le> int (length src)" unfolding bomWidth_def p by auto
  show "newlines (textAt src 0 (bomWidth src)) = 0"
    unfolding bomWidth_def p by (auto simp: textAt_def newlines_def)
qed

lemma identifierRune_bom: "identifierRune (0xef # 0xbb # 0xbf # rest) 0 = Some (0xfeff, 3)"
  by (simp add: identifierRune_def runeTail.simps at_def)

lemma boundary_bom:
  assumes "sourceText src"
  shows "boundary src (bomWidth src)"
proof (cases "src = []")
  case True
  then show ?thesis by (simp add: boundary_def bomWidth_def)
next
  case False
  have start: "boundary src 0"
  proof -
    obtain cs where cs: "src = encodeRunes cs" "\<forall>c \<in> set cs. scalar c \<and> c \<noteq> 0"
      using assms by (auto simp: sourceText_def sourceFrom_def)
    then obtain v vs where v: "cs = v # vs" using False by (cases cs) (auto simp: encodeRunes_def)
    have "encodeRune v ! 0 = src ! 0"
      using cs(1) v encodeRune_nonempty[of v] by (simp add: encodeRunes_def nth_append)
    then show ?thesis using encodeRune_bytes(1)[of v] cs(2) v by (simp add: boundary_def)
  qed
  show ?thesis
  proof (cases "isPrefix [0xef, 0xbb, 0xbf] src")
    case True
    then obtain rest where s: "src = 0xef # 0xbb # 0xbf # rest"
      by (cases src; cases "tl src"; cases "tl (tl src)") (auto simp: isPrefix_def)
    have "0 < int (length src)" using False by simp
    then obtain v rest' where v: "drop (nat 0) src = encodeRune v @ rest'" "scalar v"
      "boundary src (0 + int (length (encodeRune v)))"
      using rune_at_boundary[OF assms order_refl _ start] by blast
    have "int (length (encodeRune v)) = 3"
      using identifierRune_encodeRune[OF _ v(1,2)] identifierRune_bom[of rest] s by auto
    then show ?thesis using v(3) True by (simp add: bomWidth_def)
  qed (use start in \<open>simp add: bomWidth_def\<close>)
qed

lemma tiled_weaken: "tiled ok src p toks \<Longrightarrow> (ok' \<Longrightarrow> ok) \<Longrightarrow> tiled ok' src p toks"
  by (induction toks arbitrary: p) auto

lemma scanTokensMode_scanned:
  assumes "int (length src) < 2 ^ 31" "scanTokensMode h src linked = Some (toks, ok, cand)"
  shows "if sourceText src then scanned ok src toks else toks = [] \<and> \<not> ok"
proof (cases "sourceText src")
  case False
  then show ?thesis using assms(2) by (simp add: scanTokensMode_def validSourceEncoding_source)
next
  case True
  note bom = bom_position[OF True]
  note body = assms(2)[unfolded scanTokensMode_def validSourceEncoding_source Let_def Option.bind.simps bom(1)]
  obtain ts ok' cand' l where e: "scanLoop h src linked (bomWidth src) 1 [] False = Some (ts, ok', cand', l)"
    using body True by (auto simp: bind_eq_Some_conv)
  have res: "toks = ts @ [MakeSynToken TokenEOF (int (length src)) (int (length src)) l]"
    "ok = (if \<not> linked \<and> l > TokenLineLimit then False else ok')"
    using body True unfolding e by auto
  have "0 \<le> bomWidth src" by (simp add: bomWidth_def)
  from scanLoop_tiled[OF True assms(1) e this bom(2) boundary_bom[OF True]] bom(3)
  have t: "tiled ok' src (bomWidth src) ts" "ok' \<longrightarrow> l = 1 + newlines src" by auto
  have okok: "ok \<Longrightarrow> ok'" using res(2) by (auto split: if_splits)
  show ?thesis
    unfolding if_P[OF True] scanned_def res(1)
    using tiled_weaken[OF t(1) okok] t(2) okok assms(1)
      MakeSynToken_fields[of TokenEOF "int (length src)" "int (length src)" l]
    by (auto simp: toInt32_id)
qed

text \<open>Without the linked mode an accepted source is short enough for exact line numbers.\<close>

lemma scanTokensMode_lines:
  assumes "int (length src) < 2 ^ 31" "scanTokensMode h src False = Some (toks, True, cand)" "tok \<in> set toks"
  shows "TokenLine tok = 1 + newlines (textAt src 0 (st_Start tok))"
proof -
  have True: "sourceText src"
    using scanTokensMode_scanned[OF assms(1,2)] by (auto split: if_splits)
  have scanned: "scanned True src toks" using scanTokensMode_scanned[OF assms(1,2)] True by simp
  note bom = bom_position[OF True]
  note body = assms(2)[unfolded scanTokensMode_def validSourceEncoding_source Let_def Option.bind.simps bom(1)]
  obtain ts ok' cand' l where e: "scanLoop h src False (bomWidth src) 1 [] False = Some (ts, ok', cand', l)"
    using body True by (auto simp: bind_eq_Some_conv)
  have l: "l \<le> TokenLineLimit" ok' using body True unfolding e by (auto split: if_splits)
  have "0 \<le> bomWidth src" by (simp add: bomWidth_def)
  from scanLoop_tiled[OF True assms(1) e this bom(2) boundary_bom[OF True]] bom(3) l
  have n: "1 + newlines src \<le> TokenLineLimit" by auto
  have whole: "textAt src 0 (int (length src)) = src" by (simp add: textAt_def)
  have part: "0 \<le> newlines (textAt src 0 k) \<and> newlines (textAt src 0 k) \<le> newlines src"
    if "0 \<le> k" "k \<le> int (length src)" for k
    using newlines_textAt[of k "int (length src)" src] that whole by (simp add: newlines_def)
  have all: "\<forall>t \<in> set us. tokenOk src t" if "tiled True src p us" for us p
    using that by (induction us arbitrary: p) auto
  obtain us eof where us: "toks = us @ [eof]" "tiled True src (bomWidth src) us"
    "st_Start eof = int (length src)" "TokenLine eof = (1 + newlines src) mod 65536"
    using scanned by (auto simp: scanned_def)
  show ?thesis
  proof (cases "tok = eof")
    case True
    then show ?thesis using us(3,4) n whole part[of "int (length src)"] by simp
  next
    case False
    then have "tokenOk src tok" using assms(3) us all by auto
    then have "0 \<le> st_Start tok" "st_Start tok \<le> int (length src)"
      "TokenLine tok = (1 + newlines (textAt src 0 (st_Start tok))) mod 65536"
      by (auto simp: tokenOk_def)
    then show ?thesis using part[of "st_Start tok"] n by simp
  qed
qed

end
