(* ===== verification/Syn_Brackets.thy ===== *)
theory Syn_Brackets
  imports Syn_Tiling
begin

text \<open>
  The declaration parser: \<open>internal/syntax/parse.go\<close> and \<open>generics.go\<close>.  A function that appends to
  the file takes it and returns it.  Token positions are never negative, so a loop guarded by
  \<open>i < len(file.Tokens)\<close> ends where \<open>at\<close> has no token; an access without a guard is an \<open>at\<close> of the
  option monad.  The marks of the storage arena only release memory and are not modelled.
\<close>

abbreviation (input) ParseOK :: int where "ParseOK \<equiv> 0"
abbreviation (input) ParseErrScan :: int where "ParseErrScan \<equiv> 1"
abbreviation (input) ParseErrPackage :: int where "ParseErrPackage \<equiv> 2"
abbreviation (input) ParseErrImport :: int where "ParseErrImport \<equiv> 3"
abbreviation (input) ParseErrDecl :: int where "ParseErrDecl \<equiv> 4"
abbreviation (input) ParseErrFunc :: int where "ParseErrFunc \<equiv> 5"
abbreviation (input) ParseErrTopLevel :: int where "ParseErrTopLevel \<equiv> 6"
abbreviation (input) ParseErrDot :: int where "ParseErrDot \<equiv> 7"


subsection \<open>Tokens by position\<close>

definition tokCharIs :: "SynToken list \<Rightarrow> int \<Rightarrow> byte \<Rightarrow> bool" where
  "tokCharIs toks i c = (case at toks i of None \<Rightarrow> False | Some tok \<Rightarrow> charOf tok = uint c)"

text \<open>\<open>i < len(toks) && toks[i].KindLine&255 == kind\<close>.\<close>

definition kindIs :: "SynToken list \<Rightarrow> int \<Rightarrow> int \<Rightarrow> bool" where
  "kindIs toks i kind = (case at toks i of None \<Rightarrow> False | Some tok \<Rightarrow> kindOf tok = kind)"

text \<open>\<open>i < len(toks) && toks[i].KindLine&255 != TokenEOF\<close>.\<close>

definition live :: "SynToken list \<Rightarrow> int \<Rightarrow> bool" where
  "live toks i = (case at toks i of None \<Rightarrow> False | Some tok \<Rightarrow> kindOf tok \<noteq> TokenEOF)"

lemma tokCharIs_range: "tokCharIs toks i c \<Longrightarrow> 0 \<le> i \<and> i < int (length toks)"
  by (auto simp: tokCharIs_def at_def split: if_splits)

lemma live_range: "live toks i \<Longrightarrow> 0 \<le> i \<and> i < int (length toks)"
  by (auto simp: live_def at_def split: if_splits)

function skipTopSeparators :: "SynToken list \<Rightarrow> int \<Rightarrow> int" where
  "skipTopSeparators toks start =
     (if tokCharIs toks start chr_semicolon then skipTopSeparators toks (start + 1) else start)"
  by auto
termination
  by (relation "measure (\<lambda>(toks, i). nat (int (length toks) - i))") (auto dest: tokCharIs_range)

declare skipTopSeparators.simps [simp del]

definition skipImportSeparators :: "SynToken list \<Rightarrow> int \<Rightarrow> int" where
  "skipImportSeparators = skipTopSeparators"

definition skipDeclSeparators :: "SynToken list \<Rightarrow> int \<Rightarrow> int" where
  "skipDeclSeparators = skipTopSeparators"

lemma skipTopSeparators_ge: "start \<le> skipTopSeparators toks start"
proof (induction toks start rule: skipTopSeparators.induct)
  case (1 toks start)
  then show ?case by (subst skipTopSeparators.simps) auto
qed

lemmas skipSeparators_ge = skipTopSeparators_ge
  skipTopSeparators_ge[folded skipImportSeparators_def] skipTopSeparators_ge[folded skipDeclSeparators_def]

definition isImportName :: "SynToken list \<Rightarrow> int \<Rightarrow> bool" where
  "isImportName toks i =
     (if i < 0 \<or> i \<ge> int (length toks) then False
      else if kindIs toks i TokenIdent then True
      else tokCharIs toks i chr_dot)"

definition tokenTextIs :: "bytes \<Rightarrow> SynToken \<Rightarrow> gostring \<Rightarrow> bool option" where
  "tokenTextIs src tok text =
     (let start = st_Start tok; stop = st_End tok
      in if stop - start \<noteq> int (length text) \<or> start < 0 \<or> stop > int (length src) then Some False
         else sameText src start text)"

definition insertsSemicolon :: "bytes \<Rightarrow> SynToken list \<Rightarrow> int \<Rightarrow> bool option" where
  "insertsSemicolon src toks i =
     do {
       tok \<leftarrow> at toks i;
       if kindOf tok \<in> {TokenIdent, TokenNumber, TokenString, TokenChar, TokenBreak, TokenContinue, TokenFallthrough, TokenReturn}
       then Some True
       else if kindOf tok = TokenOperator then
         if tokCharIs toks i chr_rparen \<or> tokCharIs toks i chr_rbracket \<or> tokCharIs toks i chr_rbrace then Some True
         else do {
           plus \<leftarrow> tokenTextIs src tok (ascii ''++'');
           if plus then Some True else tokenTextIs src tok (ascii ''--'')
         }
       else Some False
     }"

subsection \<open>Balanced brackets\<close>

function balanceLoop :: "SynToken list \<Rightarrow> byte \<Rightarrow> byte \<Rightarrow> int \<Rightarrow> int \<Rightarrow> int \<Rightarrow> int" where
  "balanceLoop toks opener closer start i depth =
     (case at toks i of
        None \<Rightarrow> start
      | Some tok \<Rightarrow>
          if kindOf tok = TokenEOF then start
          else if charOf tok = uint opener then balanceLoop toks opener closer start (i + 1) (depth + 1)
          else if charOf tok = uint closer then
            if depth - 1 = 0 then i + 1 else balanceLoop toks opener closer start (i + 1) (depth - 1)
          else balanceLoop toks opener closer start (i + 1) depth)"
  by auto
termination
  by (relation "measure (\<lambda>(toks, _, _, _, i, _). nat (int (length toks) - i))") (auto simp: at_def split: if_splits)

declare balanceLoop.simps [simp del]

definition skipBalanced :: "SynToken list \<Rightarrow> int \<Rightarrow> byte \<Rightarrow> byte \<Rightarrow> int" where
  "skipBalanced toks start opener closer =
     (if \<not> tokCharIs toks start opener then start else balanceLoop toks opener closer start (start + 1) 1)"

lemma balanceLoop_range:
  "balanceLoop toks opener closer start i depth = start
    \<or> i < balanceLoop toks opener closer start i depth
      \<and> tokCharIs toks (balanceLoop toks opener closer start i depth - 1) closer
      \<and> live toks (balanceLoop toks opener closer start i depth - 1)"
proof (induction toks opener closer start i depth rule: balanceLoop.induct)
  case (1 toks opener closer start i depth)
  show ?case
  proof (cases "at toks i")
    case None
    then show ?thesis by (simp add: balanceLoop.simps)
  next
    case (Some tok)
    note step = balanceLoop.simps[of toks opener closer start i depth, unfolded Some option.case]
    consider "kindOf tok = TokenEOF" | "kindOf tok \<noteq> TokenEOF" "charOf tok = uint opener"
      | "kindOf tok \<noteq> TokenEOF" "charOf tok \<noteq> uint opener" "charOf tok = uint closer" "depth - 1 = 0"
      | "kindOf tok \<noteq> TokenEOF" "charOf tok \<noteq> uint opener" "charOf tok = uint closer" "depth - 1 \<noteq> 0"
      | "kindOf tok \<noteq> TokenEOF" "charOf tok \<noteq> uint opener" "charOf tok \<noteq> uint closer" by blast
    then show ?thesis
    proof cases
      case 2
      then show ?thesis using 1(1)[OF Some 2] step by auto
    next
      case 3
      then show ?thesis using Some step by (simp add: tokCharIs_def live_def)
    next
      case 4
      then show ?thesis using 1(2)[OF Some 4] step by auto
    next
      case 5
      then show ?thesis using 1(3)[OF Some 5] step by auto
    qed (use step in simp)
  qed
qed

lemma skipBalanced_range:
  assumes "start < skipBalanced toks start opener closer"
  shows "start + 2 \<le> skipBalanced toks start opener closer" "skipBalanced toks start opener closer \<le> int (length toks)"
    "tokCharIs toks (skipBalanced toks start opener closer - 1) closer" "live toks (skipBalanced toks start opener closer - 1)"
    "tokCharIs toks start opener"
proof -
  have opener: "tokCharIs toks start opener" using assms by (auto simp: skipBalanced_def split: if_splits)
  then have e: "skipBalanced toks start opener closer = balanceLoop toks opener closer start (start + 1) 1"
    by (simp add: skipBalanced_def)
  then have "start + 1 < skipBalanced toks start opener closer
      \<and> tokCharIs toks (skipBalanced toks start opener closer - 1) closer
      \<and> live toks (skipBalanced toks start opener closer - 1)"
    using balanceLoop_range[of toks opener closer start "start + 1" 1] assms by auto
  then show "start + 2 \<le> skipBalanced toks start opener closer" "skipBalanced toks start opener closer \<le> int (length toks)"
    "tokCharIs toks (skipBalanced toks start opener closer - 1) closer" "live toks (skipBalanced toks start opener closer - 1)"
    "tokCharIs toks start opener"
    using live_range opener by force+
qed

text \<open>Matching brackets, by counting: the brackets from \<open>a\<close> to \<open>b\<close> cancel, and those from \<open>a\<close> to any
  position before \<open>b\<close> do not.\<close>

definition nesting :: "SynToken list \<Rightarrow> byte \<Rightarrow> byte \<Rightarrow> int \<Rightarrow> int \<Rightarrow> int" where
  "nesting toks opener closer a b =
     (\<Sum>j\<in>{a..<b}. of_bool (tokCharIs toks j opener) - of_bool (tokCharIs toks j closer))"

definition matched :: "SynToken list \<Rightarrow> byte \<Rightarrow> byte \<Rightarrow> int \<Rightarrow> int \<Rightarrow> bool" where
  "matched toks opener closer a b \<longleftrightarrow>
     tokCharIs toks a opener \<and> a + 2 \<le> b \<and> tokCharIs toks (b - 1) closer \<and> b \<le> int (length toks) \<and>
     nesting toks opener closer a b = 0 \<and> (\<forall>k. a < k \<and> k < b \<longrightarrow> 0 < nesting toks opener closer a k)"

lemma nesting_simps:
  "nesting toks opener closer a a = 0"
  "a < b \<Longrightarrow> nesting toks opener closer a b =
     of_bool (tokCharIs toks a opener) - of_bool (tokCharIs toks a closer) + nesting toks opener closer (a + 1) b"
proof -
  assume "a < b"
  then have "{a..<b} = insert a {a + 1..<b}" by auto
  then show "nesting toks opener closer a b =
      of_bool (tokCharIs toks a opener) - of_bool (tokCharIs toks a closer) + nesting toks opener closer (a + 1) b"
    by (simp add: nesting_def)
qed (simp add: nesting_def)

lemma balanceLoop_nesting:
  assumes "opener \<noteq> closer" "start < balanceLoop toks opener closer start i depth" "start < i" "0 < depth"
  defines "e \<equiv> balanceLoop toks opener closer start i depth"
  shows "i < e \<and> depth + nesting toks opener closer i e = 0 \<and> (\<forall>k. i \<le> k \<and> k < e \<longrightarrow> 0 < depth + nesting toks opener closer i k)"
  using assms(1-4) unfolding e_def
proof (induction toks opener closer start i depth rule: balanceLoop.induct)
  case (1 toks opener closer start i depth)
  note step = balanceLoop.simps[of toks opener closer start i depth]
  obtain tok where tok: "at toks i = Some tok" and live: "kindOf tok \<noteq> TokenEOF"
    using 1(5) step by (cases "at toks i") (auto split: if_splits)
  note step = step[unfolded tok option.case if_not_P[OF live]]
  have char: "tokCharIs toks i opener \<longleftrightarrow> charOf tok = uint opener" "tokCharIs toks i closer \<longleftrightarrow> charOf tok = uint closer"
    using tok by (simp_all add: tokCharIs_def)
  have ne: "uint opener \<noteq> uint closer" using 1(4) by (simp add: word_uint_eq_iff)
  have later: ?case
    if e: "balanceLoop toks opener closer start i depth = balanceLoop toks opener closer start (i + 1) d"
      and d: "d = depth + of_bool (tokCharIs toks i opener) - of_bool (tokCharIs toks i closer)"
      and IH: "i + 1 < balanceLoop toks opener closer start (i + 1) d
        \<and> d + nesting toks opener closer (i + 1) (balanceLoop toks opener closer start (i + 1) d) = 0
        \<and> (\<forall>k. i + 1 \<le> k \<and> k < balanceLoop toks opener closer start (i + 1) d \<longrightarrow> 0 < d + nesting toks opener closer (i + 1) k)" for d
  proof -
    let ?e = "balanceLoop toks opener closer start (i + 1) d"
    have n: "depth + nesting toks opener closer i k = d + nesting toks opener closer (i + 1) k" if "i < k" for k
      using nesting_simps(2)[OF that] d by simp
    have "0 < depth + nesting toks opener closer i k" if "i \<le> k" "k < ?e" for k
      using that IH n[of k] 1(7) nesting_simps(1) by (cases "k = i") auto
    then show ?thesis using IH n[of ?e] unfolding e by auto
  qed
  consider "charOf tok = uint opener" | "charOf tok \<noteq> uint opener" "charOf tok = uint closer" "depth - 1 = 0"
    | "charOf tok \<noteq> uint opener" "charOf tok = uint closer" "depth - 1 \<noteq> 0"
    | "charOf tok \<noteq> uint opener" "charOf tok \<noteq> uint closer" by blast
  then show ?case
  proof cases
    case c: 1
    have e: "balanceLoop toks opener closer start i depth = balanceLoop toks opener closer start (i + 1) (depth + 1)"
      using step c by simp
    show ?thesis
      by (rule later[OF e]) (use c char ne 1(1)[OF tok live c] 1(4-7) in \<open>simp_all add: e\<close>)
  next
    case c: 2
    then have e: "balanceLoop toks opener closer start i depth = i + 1" using step ne by simp
    have "nesting toks opener closer i (i + 1) = - 1" using nesting_simps(1) nesting_simps(2)[of i "i + 1"] c char ne by simp
    moreover have "k = i" if "i \<le> k" "k < i + 1" for k using that by simp
    ultimately show ?thesis using c nesting_simps(1) unfolding e by fastforce
  next
    case c: 3
    have e: "balanceLoop toks opener closer start i depth = balanceLoop toks opener closer start (i + 1) (depth - 1)"
      using step c ne by simp
    show ?thesis
      by (rule later[OF e]) (use c char ne 1(2)[OF tok live c] 1(4-7) in \<open>simp_all add: e\<close>)
  next
    case c: 4
    have e: "balanceLoop toks opener closer start i depth = balanceLoop toks opener closer start (i + 1) depth"
      using step c by simp
    show ?thesis
      by (rule later[OF e]) (use c char ne 1(3)[OF tok live c] 1(4-7) in \<open>simp_all add: e\<close>)
  qed
qed

lemma skipBalanced_matched:
  assumes "opener \<noteq> closer" "start < skipBalanced toks start opener closer"
  shows "matched toks opener closer start (skipBalanced toks start opener closer)"
proof -
  let ?e = "skipBalanced toks start opener closer"
  note range = skipBalanced_range[OF assms(2)]
  have e: "?e = balanceLoop toks opener closer start (start + 1) 1" using range(5) by (simp add: skipBalanced_def)
  have "start < balanceLoop toks opener closer start (start + 1) 1" using assms(2) unfolding e .
  note n = balanceLoop_nesting[OF assms(1) this, folded e]
  have "\<not> tokCharIs toks start closer"
    using range(5) assms(1) by (auto simp: tokCharIs_def word_uint_eq_iff split: option.splits)
  then have "nesting toks opener closer start k = 1 + nesting toks opener closer (start + 1) k" if "start < k" for k
    using nesting_simps(2)[OF that] range(5) by simp
  then show ?thesis
    unfolding matched_def using n range assms(2) by simp
qed

subsection \<open>Type parameters\<close>

text \<open>The bracket that closes the one at a token, 0 for none.\<close>

definition closerOf :: "int \<Rightarrow> byte" where
  "closerOf c =
     (if c = uint chr_lbracket then chr_rbracket
      else if c = uint chr_lparen then chr_rparen
      else if c = uint chr_lbrace then chr_rbrace
      else 0)"

text \<open>The end of a constraint; the inner option is the refusal.\<close>

function constraintLoop :: "SynToken list \<Rightarrow> int \<Rightarrow> int \<Rightarrow> int option option" where
  "constraintLoop toks stop i =
     (if i < stop \<and> \<not> tokCharIs toks i chr_comma then
        if tokCharIs toks i chr_semicolon then Some None
        else do {
          tok \<leftarrow> at toks i;
          if closerOf (charOf tok) \<noteq> 0 then
            let nxt = skipBalanced toks i (word_of_int (charOf tok)) (closerOf (charOf tok))
            in if nxt \<le> i \<or> nxt > stop then Some None else constraintLoop toks stop nxt
          else constraintLoop toks stop (i + 1)
        }
      else Some (Some i))"
  by auto
termination by (relation "measure (\<lambda>(toks, stop, i). nat (stop - i))") auto

declare constraintLoop.simps [simp del]

lemma constraintLoop_range: "constraintLoop toks stop i = Some (Some j) \<Longrightarrow> i \<le> j \<and> (j \<le> i \<or> j \<le> stop)"
proof (induction toks stop i rule: constraintLoop.induct)
  case (1 toks stop i)
  show ?case
  proof (cases "i < stop \<and> \<not> tokCharIs toks i chr_comma")
    case False
    then show ?thesis using 1(3) by (subst (asm) constraintLoop.simps) auto
  next
    case go: True
    note body = 1(3)[unfolded constraintLoop.simps[of toks stop i] if_P[OF go]]
    have ns: "\<not> tokCharIs toks i chr_semicolon" using body by (rule contrapos_pn) simp
    note body = body[unfolded if_not_P[OF ns]]
    then obtain tok where tok: "at toks i = Some tok" by (cases "at toks i") auto
    note body = body[unfolded tok Option.bind.simps Let_def]
    show ?thesis
    proof (cases "closerOf (charOf tok) \<noteq> 0")
      case True
      let ?n = "skipBalanced toks i (word_of_int (charOf tok)) (closerOf (charOf tok))"
      note body = body[unfolded if_P[OF True]]
      have n: "\<not> (?n \<le> i \<or> ?n > stop)" using body by (rule contrapos_pn) simp
      show ?thesis using 1(1)[OF go ns tok True refl n] body[unfolded if_not_P[OF n]] n by auto
    next
      case False
      show ?thesis using 1(2)[OF go ns tok False] body[unfolded if_not_P[OF False]] go by auto
    qed
  qed
qed

text \<open>The loop of \<open>parseTypeParamList\<close>: the names that wait for a constraint and the parameters.\<close>

function paramLoop ::
  "SynToken list \<Rightarrow> int \<Rightarrow> int \<Rightarrow> int list \<Rightarrow> TypeParameter list \<Rightarrow> (int list \<times> TypeParameter list) option option"
where
  "paramLoop toks stop i pending params =
     (if i < stop then
        do {
          tok \<leftarrow> at toks i;
          if kindOf tok \<noteq> TokenIdent then Some None
          else
            let pending = pending @ [i]; i = i + 1
            in if tokCharIs toks i chr_comma then paramLoop toks stop (i + 1) pending params
               else do {
                 r \<leftarrow> constraintLoop toks stop i;
                 case r of
                   None \<Rightarrow> Some None
                 | Some e \<Rightarrow>
                     if e = i then Some None
                     else
                       let params = params @ map (\<lambda>name. \<lparr>tp_NameTok = name, tp_ConstraintStart = i, tp_ConstraintEnd = e\<rparr>) pending
                       in paramLoop toks stop (if e < stop then e + 1 else e) [] params
               }
        }
      else Some (Some (pending, params)))"
  by pat_completeness auto
termination
  by (relation "measure (\<lambda>(toks, stop, i, _). nat (stop - i))") (auto dest!: constraintLoop_range split: if_splits)

declare paramLoop.simps [simp del]

definition parseTypeParamList :: "SynFile \<Rightarrow> int \<Rightarrow> int \<Rightarrow> int \<Rightarrow> (SynFile \<times> int \<times> bool) option" where
  "parseTypeParamList file name start kind =
     (let toks = sf_Tokens file; stop = skipBalanced toks start chr_lbracket chr_rbracket
      in if stop \<le> start + 2 then Some (file, start, False)
         else do {
           r \<leftarrow> paramLoop toks (stop - 1) (start + 1) [] [];
           case r of
             None \<Rightarrow> Some (file, start, False)
           | Some (pending, params) \<Rightarrow>
               if length pending \<noteq> 0 \<or> length params = 0 then Some (file, start, False)
               else
                 let list = \<lparr>tl_Kind = kind, tl_NameTok = name, tl_StartTok = start, tl_EndTok = stop, tl_Parameters = params\<rparr>;
                     ls = (case sf_Generics file of None \<Rightarrow> [] | Some ls \<Rightarrow> ls)
                 in Some (file\<lparr>sf_Generics := Some (ls @ [list])\<rparr>, stop, True)
         })"

definition TypeParameterLists :: "SynFile \<Rightarrow> TypeParamList list" where
  "TypeParameterLists file = (case sf_Generics file of None \<Rightarrow> [] | Some ls \<Rightarrow> ls)"

definition noTypeParams :: TypeParamList where
  "noTypeParams = \<lparr>tl_Kind = 0, tl_NameTok = 0, tl_StartTok = 0, tl_EndTok = 0, tl_Parameters = []\<rparr>"

definition TypeParameters :: "SynFile \<Rightarrow> int \<Rightarrow> TypeParamList" where
  "TypeParameters file nameTok =
     (case find (\<lambda>l. tl_NameTok l = nameTok) (TypeParameterLists file) of None \<Rightarrow> noTypeParams | Some l \<Rightarrow> l)"

text \<open>The search for a type element inside the brackets behind a type name.\<close>

function typeElemLoop :: "SynToken list \<Rightarrow> int \<Rightarrow> int \<Rightarrow> int \<Rightarrow> int \<Rightarrow> bool option" where
  "typeElemLoop toks second stop i depth =
     (if i < stop then
        do {
          tok \<leftarrow> at toks i;
          if kindOf tok \<in> {TokenStruct, TokenInterface, TokenMap, TokenChan, TokenFunc} \<or> tokCharIs toks i chr_tilde
          then Some True
          else if depth = 0 \<and> tokCharIs toks i chr_comma then Some True
          else if tokCharIs toks i chr_lbracket
             \<and> (i = second \<or> tokCharIs toks (i - 1) chr_star \<or> tokCharIs toks (i - 1) chr_lparen \<or> tokCharIs toks (i - 1) chr_bar)
          then Some True
          else
            let depth = (if tokCharIs toks i chr_lparen \<or> tokCharIs toks i chr_lbracket \<or> tokCharIs toks i chr_lbrace
                         then depth + 1 else depth);
                depth = (if tokCharIs toks i chr_rparen \<or> tokCharIs toks i chr_rbracket \<or> tokCharIs toks i chr_rbrace
                         then depth - 1 else depth)
            in typeElemLoop toks second stop (i + 1) depth
        }
      else Some False)"
  by auto
termination by (relation "measure (\<lambda>(toks, second, stop, i, depth). nat (stop - i))") auto

declare typeElemLoop.simps [simp del]

definition typeDeclarationHasParameters :: "SynToken list \<Rightarrow> int \<Rightarrow> int \<Rightarrow> bool option" where
  "typeDeclarationHasParameters toks start stop =
     (if \<not> tokCharIs toks start chr_lbracket \<or> start + 2 \<ge> stop then Some False
      else do {
        name \<leftarrow> at toks (start + 1);
        if kindOf name \<noteq> TokenIdent then Some False
        else
          let closer = skipBalanced toks start chr_lbracket chr_rbracket
          in if closer \<le> start + 3 then Some False
             else do {
               second \<leftarrow> at toks (start + 2);
               if kindOf second = TokenIdent then Some True
               else typeElemLoop toks (start + 2) (closer - 1) (start + 2) 0
             }
      })"

lemma parseTypeParamList_cases:
  assumes "parseTypeParamList f name start kind = Some (f', stop, ok)"
  obtains (no) "f' = f" "\<not> ok"
  | (yes) params where ok "stop = skipBalanced (sf_Tokens f) start chr_lbracket chr_rbracket" "start + 2 < stop"
      "paramLoop (sf_Tokens f) (stop - 1) (start + 1) [] [] = Some (Some ([], params))" "params \<noteq> []"
      "f' = f\<lparr>sf_Generics := Some (TypeParameterLists f
        @ [\<lparr>tl_Kind = kind, tl_NameTok = name, tl_StartTok = start, tl_EndTok = stop, tl_Parameters = params\<rparr>])\<rparr>"
proof -
  define e where "e = skipBalanced (sf_Tokens f) start chr_lbracket chr_rbracket"
  note body = assms[unfolded parseTypeParamList_def Let_def, folded e_def, folded TypeParameterLists_def]
  show thesis
  proof (cases "e \<le> start + 2")
    case True
    then show thesis using body no by simp
  next
    case False
    note body = body[unfolded if_not_P[OF False]]
    then obtain r where r: "paramLoop (sf_Tokens f) (e - 1) (start + 1) [] [] = Some r"
      by (cases "paramLoop (sf_Tokens f) (e - 1) (start + 1) [] []") auto
    note body = body[unfolded r Option.bind.simps]
    show thesis
    proof (cases r)
      case None
      then show thesis using body no by simp
    next
      case (Some p)
      obtain pending params where p: "p = (pending, params)" by (cases p)
      note body = body[unfolded Some option.case p prod.case]
      show thesis
      proof (cases "length pending \<noteq> 0 \<or> length params = 0")
        case True
        then show thesis using body no by simp
      next
        case ne: False
        show thesis
          by (rule yes[of params]) (use body[unfolded if_not_P[OF ne]] r Some p ne False e_def in auto)
      qed
    qed
  qed
qed

text \<open>What a recorded type parameter list spans.\<close>

definition paramOk :: "SynToken list \<Rightarrow> int \<Rightarrow> int \<Rightarrow> TypeParameter \<Rightarrow> bool" where
  "paramOk toks lo hi p =
     (lo \<le> tp_NameTok p \<and> kindIs toks (tp_NameTok p) TokenIdent \<and> tp_NameTok p < tp_ConstraintStart p
      \<and> tp_ConstraintStart p < tp_ConstraintEnd p \<and> tp_ConstraintEnd p \<le> hi)"

definition typeParamsOk :: "SynToken list \<Rightarrow> TypeParamList \<Rightarrow> bool" where
  "typeParamsOk toks l =
     (kindIs toks (tl_NameTok l) TokenIdent \<and> tl_StartTok l = tl_NameTok l + 1
      \<and> matched toks chr_lbracket chr_rbracket (tl_StartTok l) (tl_EndTok l)
      \<and> tl_Parameters l \<noteq> [] \<and> (\<forall>p \<in> set (tl_Parameters l). paramOk toks (tl_StartTok l + 1) (tl_EndTok l - 1) p))"

definition listed :: "SynFile \<Rightarrow> SynFile \<Rightarrow> bool" where
  "listed f f' =
     (\<exists>xs. TypeParameterLists f' = TypeParameterLists f @ xs \<and> (\<forall>l \<in> set xs. typeParamsOk (sf_Tokens f) l))"

lemma listed_refl: "listed f f"
  by (simp add: listed_def exI[of _ "[]"])

lemma paramLoop_ok:
  assumes "paramLoop toks stop i pending params = Some (Some (pending', params'))"
    and "lo \<le> i" "\<forall>n \<in> set pending. lo \<le> n \<and> n < i \<and> kindIs toks n TokenIdent" "\<forall>p \<in> set params. paramOk toks lo stop p"
  shows "\<forall>p \<in> set params'. paramOk toks lo stop p"
  using assms
proof (induction "nat (stop - i)" arbitrary: i pending params rule: less_induct)
  case less
  show ?case
  proof (cases "i < stop")
    case False
    then show ?thesis using less.prems by (subst (asm) paramLoop.simps) auto
  next
    case True
    note body = less.prems(1)[unfolded paramLoop.simps[of toks stop i] if_P[OF True] Let_def]
    then obtain tok where tok: "at toks i = Some tok" by (cases "at toks i") auto
    note body = body[unfolded tok Option.bind.simps]
    have k: "\<not> kindOf tok \<noteq> TokenIdent" using body by (rule contrapos_pn) simp
    then have ident: "kindIs toks i TokenIdent" using tok by (simp add: kindIs_def)
    note body = body[unfolded if_not_P[OF k]]
    have pending: "\<forall>n \<in> set (pending @ [i]). lo \<le> n \<and> n < i + 1 \<and> kindIs toks n TokenIdent"
      using less.prems(2,3) ident by auto
    show ?thesis
    proof (cases "tokCharIs toks (i + 1) chr_comma")
      case comma: True
      show ?thesis
        using less.hyps[of "i + 1 + 1" "pending @ [i]" params] body[unfolded if_P[OF comma]] True pending less.prems(2,4)
        by fastforce
    next
      case False
      note body = body[unfolded if_not_P[OF False]]
      then obtain e where e: "constraintLoop toks stop (i + 1) = Some (Some e)"
        by (auto simp: bind_eq_Some_conv split: option.splits)
      note body = body[unfolded e Option.bind.simps option.case]
      have ne: "\<not> e = i + 1" using body by (rule contrapos_pn) simp
      note body = body[unfolded if_not_P[OF ne]]
      have r: "i + 1 < e" "e \<le> stop" using constraintLoop_range[OF e] ne by auto
      show ?thesis
        by (rule less.hyps[OF _ body]) (use r True less.prems(2,4) pending in \<open>auto simp: paramOk_def\<close>)
    qed
  qed
qed

lemma parseTypeParamList_file:
  assumes "parseTypeParamList f name start kind = Some (f', stop, ok)" "start = name + 1" "kindIs (sf_Tokens f) name TokenIdent"
  shows "\<exists>g. f' = f\<lparr>sf_Generics := g\<rparr> \<and> listed f f'"
  using assms(1)
proof (cases rule: parseTypeParamList_cases)
  case no
  then show ?thesis by (auto simp: listed_refl intro: exI[of _ "sf_Generics f"])
next
  case (yes params)
  let ?l = "\<lparr>tl_Kind = kind, tl_NameTok = name, tl_StartTok = start, tl_EndTok = stop, tl_Parameters = params\<rparr>"
  have r: "matched (sf_Tokens f) chr_lbracket chr_rbracket start stop"
    unfolding yes(2) by (rule skipBalanced_matched) (use yes(2,3) in auto)
  have "\<forall>p \<in> set params. paramOk (sf_Tokens f) (start + 1) (stop - 1) p"
    by (rule paramLoop_ok[OF yes(4)]) auto
  then have "typeParamsOk (sf_Tokens f) ?l"
    using r yes assms(2,3) by (simp add: typeParamsOk_def)
  then have "listed f f'"
    unfolding listed_def using yes(6) by (intro exI[of _ "[?l]"]) (simp add: TypeParameterLists_def)
  then show ?thesis using yes(6) by blast
qed

end
