(* ===== verification/Syn_Decls.thy ===== *)
theory Syn_Decls
  imports Syn_Brackets
begin

text \<open>
  The specifications of the declaration parser, \<open>internal/syntax/parse.go\<close>: imports, constants,
  variables and types, and functions, with what each of them adds to the file.
\<close>

subsection \<open>Imports\<close>

text \<open>Where the tokens behind an import path may go on; the inner option is the refusal.  Every way
  through the loop of \<open>parseImportSpec\<close> leaves it in its first round.\<close>

definition importNext :: "SynToken list \<Rightarrow> int list \<Rightarrow> bool \<Rightarrow> int \<Rightarrow> int \<Rightarrow> int option option" where
  "importNext toks lineStarts grouped pathTok nxt =
     (if live toks nxt then
        if tokCharIs toks nxt chr_semicolon then Some (Some (nxt + 1))
        else if grouped \<and> tokCharIs toks nxt chr_rparen then Some (Some nxt)
        else do {
          a \<leftarrow> TokenLineAt toks nxt lineStarts;
          b \<leftarrow> TokenLineAt toks pathTok lineStarts;
          Some (if a \<noteq> b then Some nxt else None)
        }
      else Some (Some nxt))"

definition parseImportSpec :: "SynFile \<Rightarrow> int list \<Rightarrow> int \<Rightarrow> bool \<Rightarrow> (SynFile \<times> int \<times> bool) option" where
  "parseImportSpec file lineStarts start grouped =
     (let toks = sf_Tokens file
      in if start \<ge> int (length toks) then Some (file, start, False)
         else do {
           tok \<leftarrow> at toks start;
           let named = (kindOf tok \<noteq> TokenString \<and> isImportName toks start);
           let nameTok = (if named then start else - 1);
           let pathTok = (if named then start + 1 else start);
           if \<not> kindIs toks pathTok TokenString then Some (file, start, False)
           else do {
             r \<leftarrow> importNext toks lineStarts grouped pathTok (pathTok + 1);
             case r of
               None \<Rightarrow> Some (file, start, False)
             | Some nxt \<Rightarrow>
                 Some (file\<lparr>sf_Imports := sf_Imports file @ [\<lparr>imp_NameTok = nameTok, imp_PathTok = pathTok, imp_StartTok = start,
                         imp_EndTok = pathTok + 1\<rparr>]\<rparr>, nxt, True)
           }
         })"

lemma importNext_ge: "importNext toks lineStarts grouped pathTok i = Some (Some nxt) \<Longrightarrow> i \<le> nxt"
  by (auto simp: importNext_def bind_eq_Some_conv split: if_splits)

lemma parseImportSpec_cases:
  assumes "parseImportSpec f lineStarts start grouped = Some (f', nxt, ok)"
  obtains (no) "f' = f" "nxt = start" "\<not> ok"
  | (yes) nameTok pathTok where ok "nameTok = start \<and> pathTok = start + 1 \<and> isImportName (sf_Tokens f) start \<or> nameTok = - 1 \<and> pathTok = start"
      "kindIs (sf_Tokens f) pathTok TokenString"
      "importNext (sf_Tokens f) lineStarts grouped pathTok (pathTok + 1) = Some (Some nxt)"
      "f' = f\<lparr>sf_Imports := sf_Imports f @ [\<lparr>imp_NameTok = nameTok, imp_PathTok = pathTok, imp_StartTok = start,
          imp_EndTok = pathTok + 1\<rparr>]\<rparr>"
proof (cases "start \<ge> int (length (sf_Tokens f))")
  case True
  then show thesis using assms no by (simp add: parseImportSpec_def Let_def)
next
  case False
  note body = assms[unfolded parseImportSpec_def Let_def if_not_P[OF False]]
  then obtain tok where tok: "at (sf_Tokens f) start = Some tok" by (cases "at (sf_Tokens f) start") auto
  define named where "named = (kindOf tok \<noteq> TokenString \<and> isImportName (sf_Tokens f) start)"
  define nameTok where "nameTok = (if named then start else - 1)"
  define pathTok where "pathTok = (if named then start + 1 else start)"
  note body = body[unfolded tok Option.bind.simps, folded named_def, folded nameTok_def pathTok_def]
  show thesis
  proof (cases "kindIs (sf_Tokens f) pathTok TokenString")
    case notPath: False
    then show thesis using body no by simp
  next
    case True
    then have "\<not> \<not> kindIs (sf_Tokens f) pathTok TokenString" by simp
    note body = body[unfolded if_not_P[OF this]]
    then obtain r where r: "importNext (sf_Tokens f) lineStarts grouped pathTok (pathTok + 1) = Some r"
      by (cases "importNext (sf_Tokens f) lineStarts grouped pathTok (pathTok + 1)") auto
    note body = body[unfolded r Option.bind.simps]
    show thesis
    proof (cases r)
      case None
      then show thesis using body no by simp
    next
      case (Some n)
      have "nameTok = start \<and> pathTok = start + 1 \<and> isImportName (sf_Tokens f) start \<or> nameTok = - 1 \<and> pathTok = start"
        by (auto simp: nameTok_def pathTok_def named_def)
      then show thesis using yes[OF _ _ True] r body Some by simp
    qed
  qed
qed

lemma parseImportSpec_next:
  assumes "parseImportSpec f lineStarts start grouped = Some (f', nxt, ok)"
  shows "sf_Tokens f' = sf_Tokens f \<and> (ok \<longrightarrow> start < nxt)"
  using assms by (cases rule: parseImportSpec_cases) (auto dest: importNext_ge)

function importLoop :: "int list \<Rightarrow> int \<Rightarrow> SynFile \<Rightarrow> int \<Rightarrow> (SynFile \<times> int \<times> bool) option" where
  "importLoop lineStarts start file i =
     (if live (sf_Tokens file) i then
        let i = skipImportSeparators (sf_Tokens file) i
        in if tokCharIs (sf_Tokens file) i chr_rparen then Some (file, i + 1, True)
           else do {
             (file, nxt, ok) \<leftarrow> parseImportSpec file lineStarts i True;
             if \<not> ok then Some (file, start, False) else importLoop lineStarts start file nxt
           }
      else Some (file, start, False))"
  by auto
termination
proof (relation "measure (\<lambda>(lineStarts, start, f, i). nat (int (length (sf_Tokens f)) - i))", simp)
  fix lineStarts start f i f' nxt ok and r :: "SynFile \<times> int \<times> bool" and q :: "int \<times> bool" and j
  show "((lineStarts, start, f', nxt), lineStarts, start, f, i)
      \<in> measure (\<lambda>(lineStarts, start, f, i). nat (int (length (sf_Tokens f)) - i))"
    if "live (sf_Tokens f) i" "j = skipImportSeparators (sf_Tokens f) i" "\<not> tokCharIs (sf_Tokens f) j chr_rparen"
      "parseImportSpec f lineStarts j True = Some r" "(f', q) = r" "(nxt, ok) = q" "\<not> \<not> ok"
    using that parseImportSpec_next[of f lineStarts j True f' nxt ok] live_range[of "sf_Tokens f" i]
      skipSeparators_ge(2)[of i "sf_Tokens f"] by auto
qed

declare importLoop.simps [simp del]

definition parseImportDecl :: "SynFile \<Rightarrow> int list \<Rightarrow> int \<Rightarrow> (SynFile \<times> int \<times> bool) option" where
  "parseImportDecl file lineStarts start =
     (if tokCharIs (sf_Tokens file) (start + 1) chr_lparen then importLoop lineStarts start file (start + 2)
      else do {
        (file, nxt, ok) \<leftarrow> parseImportSpec file lineStarts (start + 1) False;
        if \<not> ok then Some (file, start, False) else Some (file, nxt, True)
      })"

subsection \<open>Constants, variables and types\<close>

text \<open>Whether the automatic semicolon rule ends the specification before token \<open>i\<close>.\<close>

definition newlineEnds :: "bytes \<Rightarrow> SynToken list \<Rightarrow> int list \<Rightarrow> int \<Rightarrow> bool option" where
  "newlineEnds src toks lineStarts i =
     do {
       a \<leftarrow> TokenLineAt toks i lineStarts;
       b \<leftarrow> TokenLineAt toks (i - 1) lineStarts;
       if a = b then Some False
       else do {
         inserts \<leftarrow> insertsSemicolon src toks (i - 1);
         if \<not> inserts then Some False
         else do {
           previous \<leftarrow> at toks (i - 1);
           tok \<leftarrow> at toks i;
           anyByte (\<lambda>c. c = chr_newline) src (st_End previous) (st_Start tok)
         }
       }
     }"

text \<open>The end of the specification, where the next one begins, and \<open>ok\<close>.\<close>

function declLoop ::
  "bytes \<Rightarrow> SynToken list \<Rightarrow> int list \<Rightarrow> bool \<Rightarrow> int \<Rightarrow> int \<Rightarrow> int \<Rightarrow> int \<Rightarrow> int \<Rightarrow> (int \<times> int \<times> bool) option"
where
  "declLoop src toks lineStarts grouped start i parens bracks braces =
     (if live toks i then
        do {
          tok \<leftarrow> at toks i;
          let c = charOf tok;
          let outside = (parens = 0 \<and> bracks = 0 \<and> braces = 0);
          if outside \<and> grouped \<and> c = uint chr_rparen then Some (i, i, True)
          else if outside \<and> c = uint chr_semicolon then Some (i, i + 1, True)
          else do {
            ends \<leftarrow> (if outside \<and> i > start then newlineEnds src toks lineStarts i else Some False);
            if ends then Some (i, i, True)
            else if c = uint chr_lparen then declLoop src toks lineStarts grouped start (i + 1) (parens + 1) bracks braces
            else if c = uint chr_rparen then
              if parens = 0 then
                if grouped \<and> bracks = 0 \<and> braces = 0 then Some (i, i, True) else Some (start, start, False)
              else declLoop src toks lineStarts grouped start (i + 1) (parens - 1) bracks braces
            else if c = uint chr_lbracket then declLoop src toks lineStarts grouped start (i + 1) parens (bracks + 1) braces
            else if c = uint chr_rbracket then
              if bracks = 0 then Some (start, start, False)
              else declLoop src toks lineStarts grouped start (i + 1) parens (bracks - 1) braces
            else if c = uint chr_lbrace then declLoop src toks lineStarts grouped start (i + 1) parens bracks (braces + 1)
            else if c = uint chr_rbrace then
              if braces = 0 then Some (start, start, False)
              else declLoop src toks lineStarts grouped start (i + 1) parens bracks (braces - 1)
            else declLoop src toks lineStarts grouped start (i + 1) parens bracks braces
          }
        }
      else if parens \<noteq> 0 \<or> bracks \<noteq> 0 \<or> braces \<noteq> 0 then Some (start, start, False)
      else Some (i, i, True))"
  by pat_completeness auto
termination
  by (relation "measure (\<lambda>(src, toks, lineStarts, grouped, start, i, _). nat (int (length toks) - i))")
    (auto dest: live_range)

declare declLoop.simps [simp del]

definition skipDeclSpec :: "bytes \<Rightarrow> SynToken list \<Rightarrow> int list \<Rightarrow> int \<Rightarrow> bool \<Rightarrow> (int \<times> int \<times> bool) option" where
  "skipDeclSpec src toks lineStarts start grouped = declLoop src toks lineStarts grouped start start 0 0 0"

definition addDecl :: "SynFile \<Rightarrow> int \<Rightarrow> int \<Rightarrow> int \<Rightarrow> int \<Rightarrow> SynFile" where
  "addDecl file kind name start stop =
     file\<lparr>sf_Decls := sf_Decls file @ [\<lparr>td_Kind = kind, td_NameTok = name, td_StartTok = start, td_EndTok = stop\<rparr>]\<rparr>"

text \<open>The names behind the first one of a constant or variable specification.\<close>

function declNames :: "SynFile \<Rightarrow> int \<Rightarrow> int \<Rightarrow> int \<Rightarrow> int \<Rightarrow> SynFile \<times> bool" where
  "declNames file kind start stop i =
     (if tokCharIs (sf_Tokens file) i chr_comma then
        if \<not> kindIs (sf_Tokens file) (i + 1) TokenIdent \<or> i + 1 \<ge> stop then (file, False)
        else declNames (addDecl file kind (i + 1) start stop) kind start stop (i + 2)
      else (file, True))"
  by auto
termination
  by (relation "measure (\<lambda>(file, kind, start, stop, i). nat (stop - i))") auto

declare declNames.simps [simp del]

definition parseDeclSpec :: "SynFile \<Rightarrow> int list \<Rightarrow> int \<Rightarrow> int \<Rightarrow> bool \<Rightarrow> (SynFile \<times> int \<times> bool) option" where
  "parseDeclSpec file lineStarts kind start grouped =
     (if \<not> kindIs (sf_Tokens file) start TokenIdent then Some (file, start, False)
      else do {
        (stop, nxt, ok) \<leftarrow> skipDeclSpec (sf_Src file) (sf_Tokens file) lineStarts start grouped;
        if \<not> ok \<or> stop \<le> start then Some (file, start, False)
        else if kind = TokenType then do {
          generic \<leftarrow> typeDeclarationHasParameters (sf_Tokens file) (start + 1) stop;
          (file, _, ok) \<leftarrow> (if generic then parseTypeParamList file start (start + 1) TokenType else Some (file, start, True));
          if \<not> ok then Some (file, start, False) else Some (addDecl file kind start start stop, nxt, True)
        }
        else
          let (file, ok) = declNames (addDecl file kind start start stop) kind start stop (start + 1)
          in if \<not> ok then Some (file, start, False) else Some (file, nxt, True)
      })"

lemma declLoop_range:
  assumes "declLoop src toks lineStarts grouped start i parens bracks braces = Some (stop, nxt, True)"
  shows "i \<le> stop \<and> stop \<le> nxt \<and> (nxt \<le> stop \<or> nxt = stop + 1 \<and> live toks stop) \<and> \<not> (\<exists>k. i \<le> k \<and> k < stop \<and> \<not> live toks k)"
  using assms
proof (induction "nat (int (length toks) - i)" arbitrary: i parens bracks braces rule: less_induct)
  case less
  show ?case
  proof (cases "live toks i")
    case False
    then show ?thesis using less.prems by (auto simp: declLoop.simps[of src toks lineStarts grouped start i] split: if_splits)
  next
    case True
    note range = live_range[OF True]
    obtain tok where tok: "at toks i = Some tok" using range by simp
    note body = less.prems[unfolded declLoop.simps[of src toks lineStarts grouped start i] if_P[OF True] tok Option.bind.simps Let_def]
    have stopped: ?thesis if "stop = i \<and> (nxt = i \<or> nxt = i + 1)" using that True by auto
    have step: ?thesis if "declLoop src toks lineStarts grouped start (i + 1) p b c = Some (stop, nxt, True)" for p b c
    proof -
      have "\<not> (\<exists>k. i + 1 \<le> k \<and> k < stop \<and> \<not> live toks k)" "i + 1 \<le> stop" "stop \<le> nxt"
        "nxt \<le> stop \<or> nxt = stop + 1 \<and> live toks stop"
        using less.hyps[OF _ that] range by auto
      moreover have "live toks k" if "i \<le> k" "k < stop" for k
        using that True calculation(1) by (cases "k = i") auto
      ultimately show ?thesis by auto
    qed
    obtain ends where ends: "(if (parens = 0 \<and> bracks = 0 \<and> braces = 0) \<and> i > start then newlineEnds src toks lineStarts i else Some False) = Some ends
        \<or> stop = i \<and> (nxt = i \<or> nxt = i + 1)"
      using body by (auto simp: bind_eq_Some_conv split: if_splits)
    then show ?thesis
    proof
      assume "(if (parens = 0 \<and> bracks = 0 \<and> braces = 0) \<and> i > start then newlineEnds src toks lineStarts i else Some False) = Some ends"
      note body = body[unfolded this Option.bind.simps]
      then have "stop = i \<and> (nxt = i \<or> nxt = i + 1)
          \<or> (\<exists>p b c. declLoop src toks lineStarts grouped start (i + 1) p b c = Some (stop, nxt, True))"
        by (simp split: if_splits) blast+
      then show ?thesis using stopped step by blast
    qed (rule stopped)
  qed
qed

lemma declNames_file:
  "declNames f kind start stop i = (f', ok) \<Longrightarrow> \<exists>ds. f' = f\<lparr>sf_Decls := sf_Decls f @ ds\<rparr>
    \<and> (\<forall>d \<in> set ds. td_Kind d = kind \<and> td_StartTok d = start \<and> td_EndTok d = stop
        \<and> i < td_NameTok d \<and> td_NameTok d < stop \<and> kindIs (sf_Tokens f) (td_NameTok d) TokenIdent)
    \<and> sorted_wrt (\<lambda>x y. td_NameTok x < td_NameTok y) ds"
proof (induction f kind start stop i rule: declNames.induct)
  case (1 f kind start stop i)
  consider "\<not> tokCharIs (sf_Tokens f) i chr_comma"
    | "tokCharIs (sf_Tokens f) i chr_comma" "\<not> kindIs (sf_Tokens f) (i + 1) TokenIdent \<or> i + 1 \<ge> stop"
    | "tokCharIs (sf_Tokens f) i chr_comma" "\<not> (\<not> kindIs (sf_Tokens f) (i + 1) TokenIdent \<or> i + 1 \<ge> stop)" by blast
  then show ?case
  proof cases
    case 3
    let ?d = "\<lparr>td_Kind = kind, td_NameTok = i + 1, td_StartTok = start, td_EndTok = stop\<rparr>"
    have e: "declNames (addDecl f kind (i + 1) start stop) kind start stop (i + 2) = (f', ok)"
      using 1(2) 3 by (subst (asm) declNames.simps) simp
    from 1(1)[OF 3 e] obtain ds where ds: "f' = f\<lparr>sf_Decls := sf_Decls f @ ?d # ds\<rparr>"
      "\<forall>d \<in> set ds. td_Kind d = kind \<and> td_StartTok d = start \<and> td_EndTok d = stop
        \<and> i + 2 < td_NameTok d \<and> td_NameTok d < stop \<and> kindIs (sf_Tokens f) (td_NameTok d) TokenIdent"
      "sorted_wrt (\<lambda>x y. td_NameTok x < td_NameTok y) ds"
      by (auto simp: addDecl_def)
    show ?thesis using ds 3 by (intro exI[of _ "?d # ds"]) fastforce
  qed (use 1(2) in \<open>auto simp: declNames.simps[of f kind start stop i] intro!: exI[of _ "[]"]\<close>)
qed

text \<open>What an accepted specification adds to the file.\<close>

definition declOk :: "SynToken list \<Rightarrow> TopDecl \<Rightarrow> bool" where
  "declOk toks d =
     (td_StartTok d \<le> td_NameTok d \<and> td_NameTok d < td_EndTok d \<and> kindIs toks (td_NameTok d) TokenIdent
      \<and> (\<forall>k. td_StartTok d \<le> k \<and> k < td_EndTok d \<longrightarrow> live toks k))"

lemma parseDeclSpec_cases:
  assumes "parseDeclSpec f lineStarts kind start grouped = Some (f', nxt, ok)"
  shows "\<exists>g ds stop. f' = f\<lparr>sf_Decls := sf_Decls f @ ds, sf_Generics := g\<rparr> \<and> listed f f' \<and> start \<le> stop
    \<and> (\<forall>d \<in> set ds. td_Kind d = kind \<and> td_StartTok d = start \<and> td_EndTok d = stop \<and> declOk (sf_Tokens f) d)
    \<and> sorted_wrt (\<lambda>x y. td_NameTok x < td_NameTok y) ds
    \<and> (ok \<longrightarrow> start < nxt \<and> stop \<le> nxt)"
proof (cases "kindIs (sf_Tokens f) start TokenIdent")
  case False
  then show ?thesis
    using assms by (auto simp: parseDeclSpec_def listed_refl intro!: exI[of _ "sf_Generics f"] exI[of _ "[]"] exI[of _ start])
next
  case name: True
  then have "\<not> \<not> kindIs (sf_Tokens f) start TokenIdent" by simp
  note body = assms[unfolded parseDeclSpec_def if_not_P[OF this]]
  then obtain stop n okS where spec: "skipDeclSpec (sf_Src f) (sf_Tokens f) lineStarts start grouped = Some (stop, n, okS)"
    by (cases "skipDeclSpec (sf_Src f) (sf_Tokens f) lineStarts start grouped") auto
  note body = body[unfolded spec Option.bind.simps prod.case]
  show ?thesis
  proof (cases "\<not> okS \<or> stop \<le> start")
    case True
    then show ?thesis using body by (auto simp: listed_refl intro!: exI[of _ "sf_Generics f"] exI[of _ "[]"] exI[of _ start])
  next
    case False
    note body = body[unfolded if_not_P[OF False]]
    have r: "stop \<le> n" "start < stop" "\<forall>k. start \<le> k \<and> k < stop \<longrightarrow> live (sf_Tokens f) k"
      using declLoop_range[of "sf_Src f" "sf_Tokens f" lineStarts grouped start start 0 0 0 stop n] spec False
      by (auto simp: skipDeclSpec_def)
    let ?d = "\<lparr>td_Kind = kind, td_NameTok = start, td_StartTok = start, td_EndTok = stop\<rparr>"
    have d: "declOk (sf_Tokens f) ?d" using r name by (simp add: declOk_def)
    show ?thesis
    proof (cases "kind = TokenType")
      case True
      note body = body[unfolded if_P[OF True]]
      then obtain generic f1 x ok1 where p: "(if generic then parseTypeParamList f start (start + 1) TokenType else Some (f, start, True)) = Some (f1, x, ok1)"
        "(if \<not> ok1 then Some (f1, start, False) else Some (addDecl f1 kind start start stop, n, True)) = Some (f', nxt, ok)"
        by (auto simp: bind_eq_Some_conv)
      obtain g where g: "f1 = f\<lparr>sf_Generics := g\<rparr>" "listed f f1"
        using p(1) name parseTypeParamList_file[of f start "start + 1" TokenType f1 x ok1]
        by (cases generic) (auto simp: listed_refl intro: that[of "sf_Generics f"])
      show ?thesis
      proof (cases ok1)
        case True
        then show ?thesis
          using p(2) g r d
          by (intro exI[of _ g] exI[of _ "[?d]"] exI[of _ stop]) (auto simp: addDecl_def listed_def TypeParameterLists_def)
      next
        case False
        then show ?thesis using p(2) g by (intro exI[of _ g] exI[of _ "[]"] exI[of _ start]) auto
      qed
    next
      case notType: False
      obtain f1 ok1 where n: "declNames (addDecl f kind start start stop) kind start stop (start + 1) = (f1, ok1)"
        by (cases "declNames (addDecl f kind start start stop) kind start stop (start + 1)")
      from declNames_file[OF n] obtain ds where ds: "f1 = (addDecl f kind start start stop)\<lparr>sf_Decls := sf_Decls f @ ?d # ds\<rparr>"
        "\<forall>d \<in> set ds. td_Kind d = kind \<and> td_StartTok d = start \<and> td_EndTok d = stop
          \<and> start + 1 < td_NameTok d \<and> td_NameTok d < stop \<and> kindIs (sf_Tokens f) (td_NameTok d) TokenIdent"
        "sorted_wrt (\<lambda>x y. td_NameTok x < td_NameTok y) ds"
        by (auto simp: addDecl_def)
      have all: "\<forall>x \<in> set (?d # ds). td_Kind x = kind \<and> td_StartTok x = start \<and> td_EndTok x = stop \<and> declOk (sf_Tokens f) x"
        using ds(2) d r by (auto simp: declOk_def)
      have names: "sorted_wrt (\<lambda>x y. td_NameTok x < td_NameTok y) (?d # ds)" using ds(2,3) by auto
      have f1: "f1 = f\<lparr>sf_Decls := sf_Decls f @ (?d # ds), sf_Generics := sf_Generics f\<rparr>" using ds(1) by (simp add: addDecl_def)
      then have "listed f f1" by (simp add: listed_def TypeParameterLists_def)
      moreover have "f' = f1" "ok \<longrightarrow> nxt = n" using body notType n by (auto split: if_splits)
      ultimately show ?thesis
        using all names f1 r by (intro exI[of _ "sf_Generics f"] exI[of _ "?d # ds"] exI[of _ stop]) auto
    qed
  qed
qed

function declGroup :: "int list \<Rightarrow> int \<Rightarrow> int \<Rightarrow> SynFile \<Rightarrow> int \<Rightarrow> (SynFile \<times> int \<times> bool) option" where
  "declGroup lineStarts kind start file i =
     (if live (sf_Tokens file) i then
        let i = skipDeclSeparators (sf_Tokens file) i
        in if tokCharIs (sf_Tokens file) i chr_rparen then Some (file, i + 1, True)
           else do {
             (file, nxt, ok) \<leftarrow> parseDeclSpec file lineStarts kind i True;
             if \<not> ok then Some (file, start, False) else declGroup lineStarts kind start file nxt
           }
      else Some (file, start, False))"
  by pat_completeness auto
termination
proof (relation "measure (\<lambda>(lineStarts, kind, start, f, i). nat (int (length (sf_Tokens f)) - i))", simp)
  fix lineStarts kind start f i f' nxt ok and r :: "SynFile \<times> int \<times> bool" and q :: "int \<times> bool" and j
  show "((lineStarts, kind, start, f', nxt), lineStarts, kind, start, f, i)
      \<in> measure (\<lambda>(lineStarts, kind, start, f, i). nat (int (length (sf_Tokens f)) - i))"
    if "live (sf_Tokens f) i" "j = skipDeclSeparators (sf_Tokens f) i" "\<not> tokCharIs (sf_Tokens f) j chr_rparen"
      "parseDeclSpec f lineStarts kind j True = Some r" "(f', q) = r" "(nxt, ok) = q" "\<not> \<not> ok"
    using that parseDeclSpec_cases[of f lineStarts kind j True f' nxt ok] live_range[of "sf_Tokens f" i]
      skipSeparators_ge(3)[of i "sf_Tokens f"] by auto
qed

declare declGroup.simps [simp del]

definition parseTopDecl :: "SynFile \<Rightarrow> int list \<Rightarrow> int \<Rightarrow> (SynFile \<times> int \<times> bool) option" where
  "parseTopDecl file lineStarts start =
     do {
       tok \<leftarrow> at (sf_Tokens file) start;
       let kind = kindOf tok;
       if tokCharIs (sf_Tokens file) (start + 1) chr_lparen then declGroup lineStarts kind start file (start + 2)
       else do {
         (file, nxt, ok) \<leftarrow> parseDeclSpec file lineStarts kind (start + 1) False;
         if \<not> ok then Some (file, start, False) else Some (file, nxt, True)
       }
     }"

subsection \<open>Functions\<close>

text \<open>The body of a function, or the end of a declaration without one: the position of the opening
  brace twice, or \<open>-1\<close> and the position behind the declaration, or \<open>-1\<close> twice.\<close>

function bodySearch :: "SynToken list \<Rightarrow> int list \<Rightarrow> int \<Rightarrow> int \<Rightarrow> (int \<times> int) option" where
  "bodySearch toks lineStarts start i =
     (case at toks i of
        None \<Rightarrow> Some (- 1, - 1)
      | Some tok \<Rightarrow>
          if kindOf tok = TokenEOF then Some (- 1, i)
          else if tokCharIs toks i chr_semicolon then Some (- 1, i + 1)
          else if tokCharIs toks i chr_lparen then
            let nxt = skipBalanced toks i chr_lparen chr_rparen
            in if nxt \<le> i then Some (- 1, - 1) else bodySearch toks lineStarts start nxt
          else if tokCharIs toks i chr_lbracket then
            let nxt = skipBalanced toks i chr_lbracket chr_rbracket
            in if nxt \<le> i then Some (- 1, - 1) else bodySearch toks lineStarts start nxt
          else if tokCharIs toks i chr_lbrace then
            if i > 0 \<and> (kindIs toks (i - 1) TokenStruct \<or> kindIs toks (i - 1) TokenInterface) then
              let nxt = skipBalanced toks i chr_lbrace chr_rbrace
              in if nxt \<le> i then Some (- 1, - 1) else bodySearch toks lineStarts start nxt
            else Some (i, i)
          else do {
            a \<leftarrow> TokenLineAt toks i lineStarts;
            b \<leftarrow> TokenLineAt toks (if i > start then i - 1 else start - 1) lineStarts;
            if a > b \<and> (kindOf tok \<in> {TokenConst, TokenVar, TokenType, TokenImport}
                       \<or> kindOf tok = TokenFunc \<and> kindIs toks (i + 1) TokenIdent)
            then Some (- 1, i)
            else bodySearch toks lineStarts start (i + 1)
          })"
  by auto
termination
  by (relation "measure (\<lambda>(toks, lineStarts, start, i). nat (int (length toks) - i))")
    (auto simp: at_def split: if_splits)

declare bodySearch.simps [simp del]

definition findFuncBody :: "SynToken list \<Rightarrow> int list \<Rightarrow> int \<Rightarrow> (int \<times> int) option" where
  "findFuncBody toks lineStarts start = bodySearch toks lineStarts start start"

definition noFunc :: "int \<Rightarrow> FuncDecl" where
  "noFunc start =
     \<lparr>fd_NameTok = - 1, fd_StartTok = start, fd_EndTok = start, fd_ReceiverStart = - 1, fd_ReceiverEnd = - 1,
      fd_ParamsStart = - 1, fd_ParamsEnd = - 1, fd_ResultStart = - 1, fd_ResultEnd = - 1,
      fd_BodyStart = - 1, fd_BodyEnd = - 1\<rparr>"

text \<open>The optional receiver: the declaration, the position behind it, and \<open>ok\<close>.\<close>

definition parseReceiver :: "SynToken list \<Rightarrow> FuncDecl \<Rightarrow> int \<Rightarrow> FuncDecl \<times> int \<times> bool" where
  "parseReceiver toks fn i =
     (if tokCharIs toks i chr_lparen then
        let receiverEnd = skipBalanced toks i chr_lparen chr_rparen
        in if receiverEnd \<le> i then (fn, i, False)
           else (fn\<lparr>fd_ReceiverStart := i + 1, fd_ReceiverEnd := receiverEnd - 1\<rparr>, receiverEnd, True)
      else (fn, i, True))"

text \<open>Parameters, results and body.\<close>

definition parseSignatureBody :: "SynToken list \<Rightarrow> int list \<Rightarrow> FuncDecl \<Rightarrow> int \<Rightarrow> (FuncDecl \<times> bool) option" where
  "parseSignatureBody toks lineStarts fn i =
     (if \<not> tokCharIs toks i chr_lparen then Some (fn, False)
      else
        let fn = fn\<lparr>fd_ParamsStart := i\<rparr>; paramsEnd = skipBalanced toks i chr_lparen chr_rparen
        in if paramsEnd \<le> i then Some (fn, False)
           else
             let fn = fn\<lparr>fd_ParamsEnd := paramsEnd, fd_ResultStart := paramsEnd\<rparr>
             in do {
               (bodyStart, declarationEnd) \<leftarrow> findFuncBody toks lineStarts paramsEnd;
               if bodyStart < 0 then
                 Some (fn\<lparr>fd_ResultEnd := declarationEnd, fd_EndTok := declarationEnd\<rparr>, declarationEnd \<ge> paramsEnd)
               else
                 let fn = fn\<lparr>fd_ResultEnd := bodyStart\<rparr>; bodyEnd = skipBalanced toks bodyStart chr_lbrace chr_rbrace
                 in if bodyEnd \<le> bodyStart then Some (fn, False)
                    else Some (fn\<lparr>fd_BodyStart := bodyStart, fd_BodyEnd := bodyEnd, fd_EndTok := bodyEnd\<rparr>, True)
             })"

definition parseFuncDecl :: "SynFile \<Rightarrow> int list \<Rightarrow> int \<Rightarrow> (SynFile \<times> FuncDecl \<times> bool) option" where
  "parseFuncDecl file lineStarts start =
     (let toks = sf_Tokens file; (fn, i, ok) = parseReceiver toks (noFunc start) (start + 1)
      in if \<not> ok \<or> \<not> kindIs toks i TokenIdent then Some (file, fn, False)
         else
           let fn = fn\<lparr>fd_NameTok := i\<rparr>; i = i + 1
           in if tokCharIs toks i chr_lbracket \<and> fd_ReceiverStart fn \<ge> 0 then Some (file, fn, False)
              else do {
                (file, i, ok) \<leftarrow> (if tokCharIs toks i chr_lbracket then parseTypeParamList file (fd_NameTok fn) i TokenFunc
                                else Some (file, i, True));
                if \<not> ok then Some (file, fn, False)
                else do { (fn, ok) \<leftarrow> parseSignatureBody toks lineStarts fn i; Some (file, fn, ok) }
              })"

text \<open>What an accepted declaration of a function spans.\<close>

definition funcOk :: "SynToken list \<Rightarrow> FuncDecl \<Rightarrow> bool" where
  "funcOk toks fn =
     (fd_StartTok fn < fd_NameTok fn \<and> kindIs toks (fd_NameTok fn) TokenIdent
      \<and> (fd_ReceiverStart fn = - 1 \<and> fd_ReceiverEnd fn = - 1 \<and> fd_NameTok fn = fd_StartTok fn + 1
         \<or> fd_ReceiverStart fn = fd_StartTok fn + 2 \<and> fd_ReceiverEnd fn = fd_NameTok fn - 1
           \<and> matched toks chr_lparen chr_rparen (fd_StartTok fn + 1) (fd_NameTok fn))
      \<and> (fd_ParamsStart fn = fd_NameTok fn + 1
         \<or> fd_ReceiverStart fn = - 1 \<and> matched toks chr_lbracket chr_rbracket (fd_NameTok fn + 1) (fd_ParamsStart fn))
      \<and> matched toks chr_lparen chr_rparen (fd_ParamsStart fn) (fd_ParamsEnd fn)
      \<and> fd_ResultStart fn = fd_ParamsEnd fn \<and> fd_ResultStart fn \<le> fd_ResultEnd fn
      \<and> (fd_BodyStart fn = - 1 \<and> fd_BodyEnd fn = - 1 \<and> fd_EndTok fn = fd_ResultEnd fn
         \<or> fd_BodyStart fn = fd_ResultEnd fn \<and> matched toks chr_lbrace chr_rbrace (fd_BodyStart fn) (fd_BodyEnd fn)
           \<and> fd_EndTok fn = fd_BodyEnd fn)
      \<and> fd_EndTok fn \<le> int (length toks))"

lemma bodySearch_range:
  assumes "bodySearch toks lineStarts start i = Some (b, d)" "0 \<le> i"
  shows "b = - 1 \<and> (d = - 1 \<or> i \<le> d \<and> d \<le> int (length toks)) \<or> b = d \<and> i \<le> b \<and> tokCharIs toks b chr_lbrace"
  using assms
proof (induction "nat (int (length toks) - i)" arbitrary: i rule: less_induct)
  case less
  note body = less.prems(1)[unfolded bodySearch.simps[of toks lineStarts start i]]
  show ?case
  proof (cases "at toks i")
    case None
    then show ?thesis using body by simp
  next
    case (Some tok)
    note range = at_range[OF Some]
    note body = body[unfolded Some option.case]
    have later: ?thesis if "bodySearch toks lineStarts start j = Some (b, d)" "i < j" for j
      using less.hyps[OF _ that(1)] that(2) range by auto
    have "b = - 1 \<and> (d = - 1 \<or> d = i \<or> d = i + 1) \<or> b = i \<and> d = i \<and> tokCharIs toks i chr_lbrace
        \<or> (\<exists>j > i. bodySearch toks lineStarts start j = Some (b, d))"
      using body by (auto simp: bind_eq_Some_conv Let_def linorder_not_le simp del: at_in_range split: if_splits)
    then show ?thesis using later range by auto
  qed
qed

lemma kindIs_range: "kindIs toks i kind \<Longrightarrow> 0 \<le> i \<and> i < int (length toks)"
  by (auto simp: kindIs_def at_def split: if_splits)

lemma parseSignatureBody_ok:
  assumes "parseSignatureBody toks lineStarts fn i = Some (fn', True)"
    and "fd_BodyStart fn = - 1" "fd_BodyEnd fn = - 1"
  shows "\<exists>paramsEnd resultEnd bodyStart bodyEnd stop.
    fn' = fn\<lparr>fd_ParamsStart := i, fd_ParamsEnd := paramsEnd, fd_ResultStart := paramsEnd, fd_ResultEnd := resultEnd,
      fd_BodyStart := bodyStart, fd_BodyEnd := bodyEnd, fd_EndTok := stop\<rparr>
    \<and> matched toks chr_lparen chr_rparen i paramsEnd \<and> paramsEnd \<le> resultEnd
    \<and> (bodyStart = - 1 \<and> bodyEnd = - 1 \<and> stop = resultEnd
       \<or> bodyStart = resultEnd \<and> matched toks chr_lbrace chr_rbrace bodyStart bodyEnd \<and> stop = bodyEnd)
    \<and> stop \<le> int (length toks)"
proof -
  let ?e = "skipBalanced toks i chr_lparen chr_rparen"
  have paren: "tokCharIs toks i chr_lparen" using assms(1) by (auto simp: parseSignatureBody_def split: if_splits)
  then have "\<not> \<not> tokCharIs toks i chr_lparen" by simp
  note body = assms(1)[unfolded parseSignatureBody_def if_not_P[OF this] Let_def]
  have e: "\<not> ?e \<le> i" using body by (rule contrapos_pn) simp
  have range: "matched toks chr_lparen chr_rparen i ?e" by (rule skipBalanced_matched) (use e in auto)
  note body = body[unfolded if_not_P[OF e]]
  then obtain b d where bd: "findFuncBody toks lineStarts ?e = Some (b, d)"
    by (cases "findFuncBody toks lineStarts ?e") auto
  note body = body[unfolded bd Option.bind.simps prod.case]
  have "0 \<le> ?e" using e tokCharIs_range[OF paren] by linarith
  then have r: "b = - 1 \<and> (d = - 1 \<or> ?e \<le> d \<and> d \<le> int (length toks)) \<or> b = d \<and> ?e \<le> b \<and> tokCharIs toks b chr_lbrace"
    using bodySearch_range bd by (auto simp: findFuncBody_def)
  show ?thesis
  proof (cases "b < 0")
    case True
    have "fn' = fn\<lparr>fd_ParamsStart := i, fd_ParamsEnd := ?e, fd_ResultStart := ?e, fd_ResultEnd := d, fd_EndTok := d\<rparr>"
      and d: "?e \<le> d"
      using body[unfolded if_P[OF True]] by simp_all
    then have "fn' = fn\<lparr>fd_ParamsStart := i, fd_ParamsEnd := ?e, fd_ResultStart := ?e, fd_ResultEnd := d,
        fd_BodyStart := - 1, fd_BodyEnd := - 1, fd_EndTok := d\<rparr>" using assms(2,3) by (cases fn) simp
    moreover have "d \<le> int (length toks)" using r True d \<open>0 \<le> ?e\<close> by linarith
    ultimately show ?thesis using range d by blast
  next
    case False
    let ?s = "skipBalanced toks b chr_lbrace chr_rbrace"
    note body = body[unfolded if_not_P[OF False]]
    have s: "\<not> ?s \<le> b" using body by (rule contrapos_pn) simp
    have fn: "fn' = fn\<lparr>fd_ParamsStart := i, fd_ParamsEnd := ?e, fd_ResultStart := ?e, fd_ResultEnd := b,
        fd_BodyStart := b, fd_BodyEnd := ?s, fd_EndTok := ?s\<rparr>" using body[unfolded if_not_P[OF s]] by simp
    have "b < ?s" "?e \<le> b" using s r False by auto
    moreover have "matched toks chr_lbrace chr_rbrace b ?s" by (rule skipBalanced_matched) (use s in auto)
    moreover have "?s \<le> int (length toks)" using skipBalanced_range(2) \<open>b < ?s\<close> by blast
    note facts = calculation this range
    show ?thesis
      by (rule exI[of _ ?e], rule exI[of _ b], rule exI[of _ b], rule exI[of _ ?s], rule exI[of _ ?s])
        (intro conjI disjI2; (rule refl | fact))
  qed
qed

lemma parseFuncDecl_cases:
  assumes "parseFuncDecl f lineStarts start = Some (f', fn, ok)"
  shows "(\<exists>g. f' = f\<lparr>sf_Generics := g\<rparr>) \<and> listed f f'
    \<and> (ok \<longrightarrow> fd_StartTok fn = start \<and> start < fd_EndTok fn \<and> funcOk (sf_Tokens f) fn)"
proof -
  let ?toks = "sf_Tokens f"
  obtain fn0 i ok0 where rec: "parseReceiver ?toks (noFunc start) (start + 1) = (fn0, i, ok0)"
    by (cases "parseReceiver ?toks (noFunc start) (start + 1)")
  note body = assms[unfolded parseFuncDecl_def Let_def rec prod.case]
  have same: "(\<exists>g. f = f\<lparr>sf_Generics := g\<rparr>) \<and> listed f f" by (auto simp: listed_refl intro: exI[of _ "sf_Generics f"])
  show ?thesis
  proof (cases "\<not> ok0 \<or> \<not> kindIs ?toks i TokenIdent")
    case True
    then show ?thesis using body same by auto
  next
    case named: False
    note body = body[unfolded if_not_P[OF named]]
    let ?fn = "fn0\<lparr>fd_NameTok := i\<rparr>"
    show ?thesis
    proof (cases "tokCharIs ?toks (i + 1) chr_lbracket \<and> fd_ReceiverStart ?fn \<ge> 0")
      case True
      then show ?thesis using body same by auto
    next
      case False
      note body = body[unfolded if_not_P[OF False]]
      then obtain f1 j ok1 where g: "(if tokCharIs ?toks (i + 1) chr_lbracket then parseTypeParamList f (fd_NameTok ?fn) (i + 1) TokenFunc
          else Some (f, i + 1, True)) = Some (f1, j, ok1)"
        "(if \<not> ok1 then Some (f1, ?fn, False)
          else do { (fn, ok) \<leftarrow> parseSignatureBody ?toks lineStarts ?fn j; Some (f1, fn, ok) }) = Some (f', fn, ok)"
        by (auto simp: bind_eq_Some_conv)
      have f1: "(\<exists>g. f1 = f\<lparr>sf_Generics := g\<rparr>) \<and> listed f f1" and j: "ok1 \<Longrightarrow> i + 1 \<le> j"
        using g(1) same named parseTypeParamList_file[of f i "i + 1" TokenFunc f1 j ok1]
        by (auto split: if_splits elim: parseTypeParamList_cases)
      show ?thesis
      proof (cases ok1)
        case False
        then show ?thesis using g(2) f1 by auto
      next
        case True
        then obtain fn1 ok2 where sig: "parseSignatureBody ?toks lineStarts ?fn j = Some (fn1, ok2)"
          "f' = f1" "fn = fn1" "ok = ok2" using g(2) by (auto simp: bind_eq_Some_conv)
        show ?thesis
        proof (cases ok)
          case no: False
          then show ?thesis using sig f1 by simp
        next
          case yes: True
          have r: "fn0 = noFunc start \<and> i = start + 1
              \<or> fn0 = (noFunc start)\<lparr>fd_ReceiverStart := start + 2, fd_ReceiverEnd := i - 1\<rparr>
                \<and> i = skipBalanced ?toks (start + 1) chr_lparen chr_rparen \<and> start + 1 < i"
            using rec named by (auto simp: parseReceiver_def Let_def split: if_splits)
          then have "fd_BodyStart ?fn = - 1" "fd_BodyEnd ?fn = - 1" by (auto simp: noFunc_def)
          from parseSignatureBody_ok[OF _ this, of ?toks lineStarts j fn1] sig yes obtain pe re bs be st
            where e: "fn = ?fn\<lparr>fd_ParamsStart := j, fd_ParamsEnd := pe, fd_ResultStart := pe, fd_ResultEnd := re,
                fd_BodyStart := bs, fd_BodyEnd := be, fd_EndTok := st\<rparr>"
              "matched ?toks chr_lparen chr_rparen j pe" "pe \<le> re"
              "bs = - 1 \<and> be = - 1 \<and> st = re \<or> bs = re \<and> matched ?toks chr_lbrace chr_rbrace bs be \<and> st = be"
              "st \<le> int (length ?toks)" by auto
          have j: "i + 1 \<le> j" using j True by simp
          have i: "start < i" "fd_StartTok fn0 = start" using r by (auto simp: noFunc_def)
          have receiver: "fd_ReceiverStart fn0 = - 1 \<and> fd_ReceiverEnd fn0 = - 1 \<and> i = start + 1
             \<or> fd_ReceiverStart fn0 = start + 2 \<and> fd_ReceiverEnd fn0 = i - 1 \<and> matched ?toks chr_lparen chr_rparen (start + 1) i"
          proof (cases "fn0 = noFunc start \<and> i = start + 1")
            case False
            then have "i = skipBalanced ?toks (start + 1) chr_lparen chr_rparen" "start + 1 < i" using r by auto
            then have "matched ?toks chr_lparen chr_rparen (start + 1) i" using skipBalanced_matched by auto
            then show ?thesis using False r by auto
          qed (simp add: noFunc_def)
          have generic: "j = i + 1 \<or> fd_ReceiverStart fn0 = - 1 \<and> matched ?toks chr_lbracket chr_rbracket (i + 1) j"
          proof (cases "tokCharIs ?toks (i + 1) chr_lbracket")
            case bracket: True
            have "fd_ReceiverStart fn0 = - 1"
              using receiver False bracket tokCharIs_range[of ?toks "start + 1" chr_lparen] by (auto simp: matched_def)
            moreover have "j = skipBalanced ?toks (i + 1) chr_lbracket chr_rbracket" "i + 1 < j"
              using g(1) bracket True by (auto elim: parseTypeParamList_cases)
            ultimately show ?thesis using skipBalanced_matched by auto
          qed (use g(1) in simp)
          have name: "kindIs ?toks i TokenIdent" "i < j" using named j by simp_all
          have re: "start < st" using e(2-4) i(1) j by (auto simp: matched_def)
          have fields: "fd_StartTok fn = start" "fd_NameTok fn = i" "fd_ReceiverStart fn = fd_ReceiverStart fn0"
            "fd_ReceiverEnd fn = fd_ReceiverEnd fn0" "fd_ParamsStart fn = j" "fd_ParamsEnd fn = pe" "fd_ResultStart fn = pe"
            "fd_ResultEnd fn = re" "fd_BodyStart fn = bs" "fd_BodyEnd fn = be" "fd_EndTok fn = st"
            using e(1) i(2) by simp_all
          have "funcOk ?toks fn"
            unfolding funcOk_def fields by (intro conjI; (rule refl | fact))
          then have "fd_StartTok fn = start" "start < fd_EndTok fn" "funcOk ?toks fn"
            using fields re by simp_all
          then show ?thesis using sig(2) f1 by simp
        qed
      qed
    qed
  qed
qed

end
