(* ===== verification/Syn_Parse.thy ===== *)
theory Syn_Parse
  imports Syn_Decls
begin

text \<open>
  The loop over the declarations of a file and the entry points of the declaration parser,
  \<open>internal/syntax/parse.go\<close>.
\<close>

definition parseFailInPlace :: "SynFile \<Rightarrow> int \<Rightarrow> int \<Rightarrow> SynFile" where
  "parseFailInPlace file err tok = file\<lparr>sf_Ok := False, sf_Error := err, sf_ErrorTok := tok\<rparr>"

lemma importLoop_next:
  "importLoop lineStarts start f i = Some (f', nxt, ok) \<Longrightarrow> sf_Tokens f' = sf_Tokens f \<and> (ok \<longrightarrow> i < nxt)"
proof (induction lineStarts start f i rule: importLoop.induct)
  case (1 lineStarts start f i)
  let ?j = "skipImportSeparators (sf_Tokens f) i"
  have j: "i \<le> ?j" by (rule skipSeparators_ge)
  show ?case
  proof (cases "live (sf_Tokens f) i")
    case False
    then show ?thesis using 1(2) by (auto simp: importLoop.simps[of _ _ f i])
  next
    case True
    note body = 1(2)[unfolded importLoop.simps[of lineStarts start f i] if_P[OF True] Let_def]
    show ?thesis
    proof (cases "tokCharIs (sf_Tokens f) ?j chr_rparen")
      case True
      then show ?thesis using body j by auto
    next
      case False
      note body = body[unfolded if_not_P[OF False]]
      then obtain f1 n ok1 where p: "parseImportSpec f lineStarts ?j True = Some (f1, n, ok1)"
        by (cases "parseImportSpec f lineStarts ?j True") auto
      note body = body[unfolded p Option.bind.simps prod.case]
      note spec = parseImportSpec_next[OF p]
      show ?thesis
      proof (cases ok1)
        case yes: True
        then have "importLoop lineStarts start f1 n = Some (f', nxt, ok)" using body by simp
        with 1(1)[OF True refl False p refl refl] yes spec j show ?thesis by auto
      qed (use body spec in auto)
    qed
  qed
qed

lemma parseImportDecl_next:
  assumes "parseImportDecl f lineStarts start = Some (f', nxt, ok)"
  shows "sf_Tokens f' = sf_Tokens f \<and> (ok \<longrightarrow> start < nxt)"
proof (cases "tokCharIs (sf_Tokens f) (start + 1) chr_lparen")
  case True
  then show ?thesis using assms importLoop_next[of lineStarts start f "start + 2" f' nxt ok]
    by (auto simp: parseImportDecl_def)
next
  case False
  then obtain f1 n ok1 where "parseImportSpec f lineStarts (start + 1) False = Some (f1, n, ok1)"
    "(if \<not> ok1 then Some (f1, start, False) else Some (f1, n, True)) = Some (f', nxt, ok)"
    using assms by (auto simp: parseImportDecl_def bind_eq_Some_conv)
  then show ?thesis using parseImportSpec_next[of f lineStarts "start + 1" False f1 n ok1] by (auto split: if_splits)
qed

lemma declGroup_next:
  "declGroup lineStarts kind start f i = Some (f', nxt, ok) \<Longrightarrow> sf_Tokens f' = sf_Tokens f \<and> (ok \<longrightarrow> i < nxt)"
proof (induction lineStarts kind start f i rule: declGroup.induct)
  case (1 lineStarts kind start f i)
  let ?j = "skipDeclSeparators (sf_Tokens f) i"
  have j: "i \<le> ?j" by (rule skipSeparators_ge)
  show ?case
  proof (cases "live (sf_Tokens f) i")
    case False
    then show ?thesis using 1(2) by (auto simp: declGroup.simps[of _ _ _ f i])
  next
    case True
    note body = 1(2)[unfolded declGroup.simps[of lineStarts kind start f i] if_P[OF True] Let_def]
    show ?thesis
    proof (cases "tokCharIs (sf_Tokens f) ?j chr_rparen")
      case True
      then show ?thesis using body j by auto
    next
      case False
      note body = body[unfolded if_not_P[OF False]]
      then obtain f1 n ok1 where p: "parseDeclSpec f lineStarts kind ?j True = Some (f1, n, ok1)"
        by (cases "parseDeclSpec f lineStarts kind ?j True") auto
      note body = body[unfolded p Option.bind.simps prod.case]
      have spec: "sf_Tokens f1 = sf_Tokens f \<and> (ok1 \<longrightarrow> ?j < n)" using parseDeclSpec_cases[OF p] by auto
      show ?thesis
      proof (cases ok1)
        case yes: True
        then have "declGroup lineStarts kind start f1 n = Some (f', nxt, ok)" using body by simp
        with 1(1)[OF True refl False p refl refl] yes spec j show ?thesis by auto
      qed (use body spec in auto)
    qed
  qed
qed

lemma parseTopDecl_next:
  assumes "parseTopDecl f lineStarts start = Some (f', nxt, ok)"
  shows "sf_Tokens f' = sf_Tokens f \<and> (ok \<longrightarrow> start < nxt)"
proof -
  obtain tok where tok: "at (sf_Tokens f) start = Some tok" using assms by (auto simp: parseTopDecl_def bind_eq_Some_conv)
  note body = assms[unfolded parseTopDecl_def tok Option.bind.simps Let_def]
  show ?thesis
  proof (cases "tokCharIs (sf_Tokens f) (start + 1) chr_lparen")
    case True
    then show ?thesis using body declGroup_next[of lineStarts "kindOf tok" start f "start + 2" f' nxt ok] by auto
  next
    case False
    then obtain f1 n ok1 where "parseDeclSpec f lineStarts (kindOf tok) (start + 1) False = Some (f1, n, ok1)"
      "(if \<not> ok1 then Some (f1, start, False) else Some (f1, n, True)) = Some (f', nxt, ok)"
      using body by (auto simp: bind_eq_Some_conv)
    then show ?thesis using parseDeclSpec_cases[of f lineStarts "kindOf tok" "start + 1" False f1 n ok1] by (auto split: if_splits)
  qed
qed

text \<open>The loop over the declarations of a file.\<close>

function topLoop :: "int list \<Rightarrow> SynFile \<Rightarrow> int \<Rightarrow> SynFile option" where
  "topLoop lineStarts file i =
     (if live (sf_Tokens file) i then
        let i = skipTopSeparators (sf_Tokens file) i
        in if \<not> live (sf_Tokens file) i then Some file
           else do {
             tok \<leftarrow> at (sf_Tokens file) i;
             if kindOf tok = TokenImport then do {
               (file, nxt, ok) \<leftarrow> parseImportDecl file lineStarts i;
               if \<not> ok then Some (parseFailInPlace file ParseErrImport i) else topLoop lineStarts file nxt
             }
             else if kindOf tok = TokenConst \<or> kindOf tok = TokenVar \<or> kindOf tok = TokenType then do {
               (file, nxt, ok) \<leftarrow> parseTopDecl file lineStarts i;
               if \<not> ok then Some (parseFailInPlace file ParseErrDecl i) else topLoop lineStarts file nxt
             }
             else if kindOf tok = TokenFunc then do {
               (file, fn, ok) \<leftarrow> parseFuncDecl file lineStarts i;
               if \<not> ok then Some (parseFailInPlace file ParseErrFunc i)
               else topLoop lineStarts (file\<lparr>sf_Funcs := sf_Funcs file @ [fn]\<rparr>) (fd_EndTok fn)
             }
             else Some (parseFailInPlace file ParseErrTopLevel i)
           }
      else Some file)"
  by pat_completeness auto
termination
proof (relation "measure (\<lambda>(lineStarts, f, i). nat (int (length (sf_Tokens f)) - i))", simp)
  have less: "((lineStarts, f', nxt), lineStarts, f, i)
      \<in> measure (\<lambda>(lineStarts, f, i). nat (int (length (sf_Tokens f)) - i))"
    if "live (sf_Tokens f) i" "j = skipTopSeparators (sf_Tokens f) i" "sf_Tokens f' = sf_Tokens f" "j < nxt"
    for lineStarts :: "int list" and f f' :: SynFile and i j nxt
    using that live_range[of "sf_Tokens f" i] skipSeparators_ge(1)[of i "sf_Tokens f"] by auto
  fix lineStarts i j nxt ok fn and f f' :: SynFile
    and r :: "SynFile \<times> int \<times> bool" and q :: "int \<times> bool" and r' :: "SynFile \<times> FuncDecl \<times> bool" and q' :: "FuncDecl \<times> bool"
  assume i: "live (sf_Tokens f) i" "j = skipTopSeparators (sf_Tokens f) i"
  show "((lineStarts, f', nxt), lineStarts, f, i) \<in> measure (\<lambda>(lineStarts, f, i). nat (int (length (sf_Tokens f)) - i))"
    if "parseImportDecl f lineStarts j = Some r" "(f', q) = r" "(nxt, ok) = q" "\<not> \<not> ok"
    using that less[OF i] parseImportDecl_next[of f lineStarts j f' nxt ok] by auto
  show "((lineStarts, f', nxt), lineStarts, f, i) \<in> measure (\<lambda>(lineStarts, f, i). nat (int (length (sf_Tokens f)) - i))"
    if "parseTopDecl f lineStarts j = Some r" "(f', q) = r" "(nxt, ok) = q" "\<not> \<not> ok"
    using that less[OF i] parseTopDecl_next[of f lineStarts j f' nxt ok] by auto
  show "((lineStarts, f'\<lparr>sf_Funcs := sf_Funcs f' @ [fn]\<rparr>, fd_EndTok fn), lineStarts, f, i)
      \<in> measure (\<lambda>(lineStarts, f, i). nat (int (length (sf_Tokens f)) - i))"
    if "parseFuncDecl f lineStarts j = Some r'" "(f', q') = r'" "(fn, ok) = q'" "\<not> \<not> ok"
    using that less[OF i] parseFuncDecl_cases[of f lineStarts j f' fn ok] by auto
qed

declare topLoop.simps [simp del]

definition parseTokens :: "SynFile \<Rightarrow> int list \<Rightarrow> SynFile option" where
  "parseTokens file lineStarts =
     (if length (sf_Tokens file) < 3 \<or> \<not> kindIs (sf_Tokens file) 0 TokenPackage \<or> \<not> kindIs (sf_Tokens file) 1 TokenIdent
      then Some (parseFailInPlace file ParseErrPackage 0)
      else topLoop lineStarts (file\<lparr>sf_PackageName := 1\<rparr>) 2)"

function validateDots :: "SynFile \<Rightarrow> int \<Rightarrow> SynFile option" where
  "validateDots file tok =
     (if tok + 1 < int (length (sf_Tokens file)) then
        if tokCharIs (sf_Tokens file) tok chr_dot then do {
          nxt \<leftarrow> at (sf_Tokens file) (tok + 1);
          dots \<leftarrow> (if kindOf nxt = TokenOperator then do { c \<leftarrow> at (sf_Src file) (st_Start nxt); Some (c = chr_dot) }
                  else Some False);
          if dots then Some (parseFailInPlace file ParseErrDot tok) else validateDots file (tok + 1)
        }
        else validateDots file (tok + 1)
      else Some file)"
  by auto
termination by (relation "measure (\<lambda>(f, tok). nat (int (length (sf_Tokens f)) - tok))") auto

declare validateDots.simps [simp del]

text \<open>The offsets of the first bytes of the lines.\<close>

definition lineStartsOf :: "bytes \<Rightarrow> int list" where
  "lineStartsOf src = 0 # map (\<lambda>i. int i + 1) (filter (\<lambda>i. src ! i = chr_newline) [0..<length src])"

definition newFile :: "bytes \<Rightarrow> SynToken list \<Rightarrow> bool \<Rightarrow> SynFile" where
  "newFile src toks candidates =
     \<lparr>sf_Src = src, sf_Tokens = toks, sf_PackageName = - 1, sf_Imports = [], sf_Decls = [], sf_Funcs = [],
      sf_Generics = None, sf_HasInterfaceCandidates = candidates, sf_Ok = True, sf_Error = ParseOK, sf_ErrorTok = - 1\<rparr>"

definition parseFileMode :: "host \<Rightarrow> bytes \<Rightarrow> bool \<Rightarrow> (SynFile \<times> int list) option" where
  "parseFileMode h src linked =
     do {
       (toks, scanOK, candidates) \<leftarrow> scanTokensMode h src linked;
       let file = newFile src toks candidates;
       if \<not> scanOK then Some (parseFailInPlace file ParseErrScan (int (length toks) - 1), [])
       else do {
         let lineStarts = (if linked then lineStartsOf src else []);
         file \<leftarrow> parseTokens file lineStarts;
         file \<leftarrow> (if sf_Ok file then validateDots file 2 else Some file);
         Some (file, lineStarts)
       }
     }"

definition ParseFile :: "host \<Rightarrow> bytes \<Rightarrow> SynFile option" where
  "ParseFile h src = do { (file, _) \<leftarrow> parseFileMode h src False; Some file }"

definition ParseLinkedFile :: "host \<Rightarrow> bytes \<Rightarrow> (SynFile \<times> int list) option" where
  "ParseLinkedFile h src = parseFileMode h src True"

end
