(* ===== verification/Syn_Lines.thy ===== *)
theory Syn_Lines
  imports Syn_Parse
begin

text \<open>
  The declaration parser returns on the tokens of every scanned source, and the line numbers it
  compares are the physical ones: \<open>TokenLineAt\<close> over the line starts of a linked file counts the
  newlines before a token whatever their number, and where the packed line numbers are exact both
  modes parse the same file.
\<close>

subsection \<open>Tokens inside their source\<close>

definition tokensOk :: "bytes \<Rightarrow> SynToken list \<Rightarrow> bool" where
  "tokensOk src toks =
     (\<forall>tok \<in> set toks. 0 \<le> st_Start tok \<and> st_Start tok \<le> st_End tok \<and> st_End tok \<le> int (length src)
        \<and> (kindOf tok \<noteq> TokenEOF \<longrightarrow> st_Start tok < st_End tok))"

lemma tiled_tokens: "tiled ok src p toks \<Longrightarrow> tok \<in> set toks \<Longrightarrow> tokenOk src tok"
  by (induction toks arbitrary: p) auto

lemma scanned_tokensOk: "scanned ok src toks \<Longrightarrow> tokensOk src toks"
  unfolding scanned_def tokensOk_def using tiled_tokens by (fastforce simp: tokenOk_def)

lemma tokensOk_at:
  assumes "tokensOk src toks" "at toks i = Some tok"
  shows "0 \<le> st_Start tok" "st_Start tok \<le> st_End tok" "st_End tok \<le> int (length src)"
    "kindOf tok \<noteq> TokenEOF \<Longrightarrow> st_Start tok < st_End tok"
proof -
  have "tok \<in> set toks" using assms(2) by (auto simp: at_def split: if_splits)
  then show "0 \<le> st_Start tok" "st_Start tok \<le> st_End tok" "st_End tok \<le> int (length src)"
    "kindOf tok \<noteq> TokenEOF \<Longrightarrow> st_Start tok < st_End tok" using assms(1) by (auto simp: tokensOk_def)
qed

lemma tokensOk_ends:
  assumes "tokensOk src toks" "at toks i = Some tok"
  shows "0 \<le> st_End tok" "st_Start tok \<le> int (length src)"
  using tokensOk_at[OF assms] by auto

subsection \<open>Every function returns\<close>

lemma lineSearch_total: "0 \<le> lo \<Longrightarrow> hi \<le> int (length xs) \<Longrightarrow> returns (lineSearch xs offset lo hi)"
proof (induction xs offset lo hi rule: lineSearch.induct)
  case (1 xs offset lo hi)
  show ?case
  proof (cases "lo < hi")
    case True
    let ?mid = "lo + (hi - lo) div 2"
    have mid: "lo \<le> ?mid" "?mid < hi" using True by auto
    then have x: "at xs ?mid = Some (xs ! nat ?mid)" using 1(3,4) by simp
    show ?thesis
      using 1(1)[OF True refl x] 1(2)[OF True refl x] 1(3,4) mid True
      by (subst lineSearch.simps) (simp add: x Let_def)
  qed (simp add: lineSearch.simps some_total)
qed

lemma TokenLineAt_total [syn_total]: "0 \<le> i \<Longrightarrow> i < int (length toks) \<Longrightarrow> returns (TokenLineAt toks i ls)"
  unfolding TokenLineAt_def by (intro total_rules lineSearch_total) auto

lemma tokenTextIs_total [syn_total]: "returns (tokenTextIs src tok text)"
  unfolding tokenTextIs_def Let_def by (intro total_rules sameText_total) auto

lemma insertsSemicolon_total [syn_total]: "0 \<le> i \<Longrightarrow> i < int (length toks) \<Longrightarrow> returns (insertsSemicolon src toks i)"
  unfolding insertsSemicolon_def by (intro total_rules syn_total)

lemma anyByte_total: "0 \<le> i \<Longrightarrow> stop \<le> int (length src) \<Longrightarrow> returns (anyByte p src i stop)"
proof (induction p src i stop rule: anyByte.induct)
  case (1 p src i stop)
  then show ?case by (subst anyByte.simps) (auto intro!: total_rules simp del: at_in_range)
qed

lemma newlineEnds_total:
  assumes "tokensOk src toks" "0 < i" "i < int (length toks)"
  shows "returns (newlineEnds src toks ls i)"
  unfolding newlineEnds_def
  using assms(2,3) tokensOk_ends[OF assms(1)]
  by (intro total_rules syn_total anyByte_total) (auto simp del: at_in_range)

lemma declLoop_total:
  "tokensOk src toks \<Longrightarrow> 0 \<le> start \<Longrightarrow> returns (declLoop src toks ls grouped start i p b c)"
proof (induction "nat (int (length toks) - i)" arbitrary: i p b c rule: less_induct)
  case less
  show ?case
  proof (cases "live toks i")
    case False
    then show ?thesis by (subst declLoop.simps) (auto intro: some_total)
  next
    case True
    note range = live_range[OF True]
    have "returns (declLoop src toks ls grouped start (i + 1) p b c)" for p b c
      using less range by simp
    moreover have "returns (newlineEnds src toks ls i)" if "i > start"
      using newlineEnds_total[OF less.prems(1), of i] range that less.prems(2) by simp
    ultimately show ?thesis
      using range unfolding declLoop.simps[of src toks ls grouped start i] if_P[OF True] Let_def
      by (intro total_rules) auto
  qed
qed

lemma skipDeclSpec_total [syn_total]: "tokensOk src toks \<Longrightarrow> 0 \<le> start \<Longrightarrow> returns (skipDeclSpec src toks ls start grouped)"
  unfolding skipDeclSpec_def by (rule declLoop_total)

lemma constraintLoop_total [syn_total]: "0 \<le> i \<Longrightarrow> stop \<le> int (length toks) \<Longrightarrow> returns (constraintLoop toks stop i)"
proof (induction "nat (stop - i)" arbitrary: i rule: less_induct)
  case less
  show ?case
  proof (cases "i < stop \<and> \<not> tokCharIs toks i chr_comma")
    case False
    then show ?thesis by (subst constraintLoop.simps) (auto intro: some_total)
  next
    case True
    have ih: "returns (constraintLoop toks stop j)" if "i < j" for j using less that True by simp
    show ?thesis
      unfolding constraintLoop.simps[of toks stop i] if_P[OF True] Let_def
      using True less.prems by (intro total_rules ih) auto
  qed
qed

lemma paramLoop_total: "0 \<le> i \<Longrightarrow> stop \<le> int (length toks) \<Longrightarrow> returns (paramLoop toks stop i pending params)"
proof (induction "nat (stop - i)" arbitrary: i pending params rule: less_induct)
  case less
  show ?case
  proof (cases "i < stop")
    case False
    then show ?thesis by (subst paramLoop.simps) (auto intro: some_total)
  next
    case True
    have ih: "returns (paramLoop toks stop j pe pa)" if "i < j" for j pe pa using less that True by simp
    have j: "i < (if e < stop then e + 1 else e)" if "constraintLoop toks stop (i + 1) = Some r" "r = Some e" for r e
      using constraintLoop_range[of toks stop "i + 1" e] that by auto
    show ?thesis
      unfolding paramLoop.simps[of toks stop i] if_P[OF True] Let_def
      using True less.prems by (intro total_rules syn_total ih) (auto dest: j)
  qed
qed

lemma parseTypeParamList_total [syn_total]: "0 \<le> start \<Longrightarrow> returns (parseTypeParamList f name start kind)"
  unfolding parseTypeParamList_def Let_def
  using skipBalanced_range[of start "sf_Tokens f" chr_lbracket chr_rbracket]
  by (intro total_rules paramLoop_total) auto

lemma typeElemLoop_total: "0 \<le> i \<Longrightarrow> stop \<le> int (length toks) \<Longrightarrow> returns (typeElemLoop toks second stop i depth)"
proof (induction toks second stop i depth rule: typeElemLoop.induct)
  case (1 toks second stop i depth)
  show ?case
  proof (cases "i < stop")
    case False
    then show ?thesis by (subst typeElemLoop.simps) (auto intro: some_total)
  next
    case True
    obtain tok where tok: "at toks i = Some tok" using True 1(2,3) by simp
    show ?thesis
      unfolding typeElemLoop.simps[of toks second stop i depth] if_P[OF True] tok Option.bind.simps Let_def
      using 1 True tok by (intro total_rules) auto
  qed
qed

lemma typeDeclarationHasParameters_total [syn_total]:
  assumes "0 \<le> start" "stop \<le> int (length toks)"
  shows "returns (typeDeclarationHasParameters toks start stop)"
  unfolding typeDeclarationHasParameters_def Let_def
  using assms skipBalanced_range[of start toks chr_lbracket chr_rbracket]
  by (intro total_rules typeElemLoop_total) auto

lemma kindIs_at: "kindIs toks i kind \<Longrightarrow> \<exists>tok. at toks i = Some tok \<and> kindOf tok = kind"
  by (auto simp: kindIs_def split: option.splits)

lemma importNext_total [syn_total]:
  "0 \<le> pathTok \<Longrightarrow> pathTok < int (length toks) \<Longrightarrow> returns (importNext toks ls grouped pathTok nxt)"
  unfolding importNext_def using live_range[of toks nxt] by (intro total_rules syn_total) auto

lemma parseImportSpec_total [syn_total]: "0 \<le> start \<Longrightarrow> returns (parseImportSpec f ls start grouped)"
  unfolding parseImportSpec_def Let_def
  using kindIs_range[of "sf_Tokens f"] by (intro total_rules syn_total) auto

lemma importLoop_total: "0 \<le> i \<Longrightarrow> returns (importLoop ls start f i)"
proof (induction ls start f i rule: importLoop.induct)
  case (1 ls start f i)
  let ?j = "skipImportSeparators (sf_Tokens f) i"
  have j: "0 \<le> ?j" using skipSeparators_ge(2)[of i "sf_Tokens f"] 1(2) by simp
  show ?case
  proof (cases "live (sf_Tokens f) i \<and> \<not> tokCharIs (sf_Tokens f) ?j chr_rparen")
    case False
    then show ?thesis by (subst importLoop.simps) (auto simp: Let_def intro: some_total)
  next
    case True
    obtain f1 n ok where p: "parseImportSpec f ls ?j True = Some (f1, n, ok)"
      using parseImportSpec_total[OF j, of f ls True] by (auto simp: returns_def)
    have "returns (importLoop ls start f1 n)" if ok
      using 1(1)[OF _ refl _ p refl refl] True that parseImportSpec_next[OF p] j by auto
    then show ?thesis
      using True by (subst importLoop.simps) (auto simp: p intro: some_total)
  qed
qed

lemma parseImportDecl_total [syn_total]: "0 \<le> start \<Longrightarrow> returns (parseImportDecl f ls start)"
  unfolding parseImportDecl_def by (intro total_rules syn_total importLoop_total) auto

lemma parseDeclSpec_total [syn_total]:
  assumes "tokensOk (sf_Src f) (sf_Tokens f)" "0 \<le> start"
  shows "returns (parseDeclSpec f ls kind start grouped)"
proof -
  have stop: "stop \<le> int (length (sf_Tokens f))"
    if "skipDeclSpec (sf_Src f) (sf_Tokens f) ls start grouped = Some (stop, n, True)" "start < stop" for stop n
  proof -
    have "live (sf_Tokens f) (stop - 1)"
      using declLoop_range[of "sf_Src f" "sf_Tokens f" ls grouped start start 0 0 0 stop n] that
      by (auto simp: skipDeclSpec_def)
    then show ?thesis using live_range by fastforce
  qed
  show ?thesis
    unfolding parseDeclSpec_def Let_def using assms
    by (intro total_rules syn_total) (auto dest: stop)
qed

lemma declGroup_total:
  "tokensOk (sf_Src f) (sf_Tokens f) \<Longrightarrow> 0 \<le> i \<Longrightarrow> returns (declGroup ls kind start f i)"
proof (induction ls kind start f i rule: declGroup.induct)
  case (1 ls kind start f i)
  let ?j = "skipDeclSeparators (sf_Tokens f) i"
  have j: "0 \<le> ?j" using skipSeparators_ge(3)[of i "sf_Tokens f"] 1(3) by simp
  show ?case
  proof (cases "live (sf_Tokens f) i \<and> \<not> tokCharIs (sf_Tokens f) ?j chr_rparen")
    case False
    then show ?thesis by (subst declGroup.simps) (auto simp: Let_def intro: some_total)
  next
    case True
    obtain f1 n ok where p: "parseDeclSpec f ls kind ?j True = Some (f1, n, ok)"
      using parseDeclSpec_total[OF 1(2) j, of ls kind True] by (auto simp: returns_def)
    have "returns (declGroup ls kind start f1 n)" if ok
      using 1(1)[OF _ refl _ p refl refl] True that parseDeclSpec_cases[OF p] j 1(2) by auto
    then show ?thesis
      using True by (subst declGroup.simps) (auto simp: p intro: some_total)
  qed
qed

lemma parseTopDecl_total [syn_total]:
  "tokensOk (sf_Src f) (sf_Tokens f) \<Longrightarrow> 0 \<le> start \<Longrightarrow> start < int (length (sf_Tokens f)) \<Longrightarrow> returns (parseTopDecl f ls start)"
  unfolding parseTopDecl_def Let_def by (intro total_rules syn_total declGroup_total) auto

lemma bodySearch_total: "1 \<le> start \<Longrightarrow> start \<le> i \<Longrightarrow> returns (bodySearch toks ls start i)"
proof (induction "nat (int (length toks) - i)" arbitrary: i rule: less_induct)
  case less
  show ?case
  proof (cases "at toks i")
    case None
    then show ?thesis by (subst bodySearch.simps) (simp add: some_total)
  next
    case (Some tok)
    note range = at_range[OF Some]
    have ih: "returns (bodySearch toks ls start j)" if "i < j" for j using less that range by simp
    show ?thesis
      unfolding bodySearch.simps[of toks ls start i] Some option.case Let_def
      using range less.prems by (intro total_rules syn_total ih) auto
  qed
qed

lemma parseSignatureBody_total [syn_total]: "0 \<le> i \<Longrightarrow> returns (parseSignatureBody toks ls fn i)"
  unfolding parseSignatureBody_def findFuncBody_def Let_def
  by (intro total_rules bodySearch_total) auto

lemma parseFuncDecl_total [syn_total]:
  assumes "0 \<le> start"
  shows "returns (parseFuncDecl f ls start)"
proof -
  have g: "0 \<le> j" if "(if b then parseTypeParamList f name (i + 1) kind else Some (f, i + 1, True)) = Some (f', j, True)"
    "kindIs (sf_Tokens f) i TokenIdent" for b name i kind f' j
    using that kindIs_range[OF that(2)] by (cases b) (auto elim: parseTypeParamList_cases)
  show ?thesis
    unfolding parseFuncDecl_def Let_def
    by (intro total_rules syn_total) (auto dest: g kindIs_range)
qed

text \<open>The source and the tokens do not change.\<close>

lemma importLoop_text: "importLoop ls start f i = Some (f', nxt, ok) \<Longrightarrow> sf_Src f' = sf_Src f \<and> sf_Ok f' = sf_Ok f"
proof (induction ls start f i rule: importLoop.induct)
  case (1 ls start f i)
  let ?j = "skipImportSeparators (sf_Tokens f) i"
  show ?case
  proof (cases "live (sf_Tokens f) i \<and> \<not> tokCharIs (sf_Tokens f) ?j chr_rparen")
    case False
    then show ?thesis using 1(2) by (subst (asm) importLoop.simps) (auto simp: Let_def split: if_splits)
  next
    case True
    then obtain f1 n ok1 where p: "parseImportSpec f ls ?j True = Some (f1, n, ok1)"
      "(if \<not> ok1 then Some (f1, start, False) else importLoop ls start f1 n) = Some (f', nxt, ok)"
      using 1(2) by (subst (asm) importLoop.simps) (auto simp: bind_eq_Some_conv)
    have "sf_Src f1 = sf_Src f \<and> sf_Ok f1 = sf_Ok f" using p(1) by (cases rule: parseImportSpec_cases) auto
    then show ?thesis using 1(1)[OF _ refl _ p(1) refl refl] True p(2) by (cases ok1) auto
  qed
qed

lemma declGroup_text: "declGroup ls kind start f i = Some (f', nxt, ok) \<Longrightarrow> sf_Src f' = sf_Src f \<and> sf_Ok f' = sf_Ok f"
proof (induction ls kind start f i rule: declGroup.induct)
  case (1 ls kind start f i)
  let ?j = "skipDeclSeparators (sf_Tokens f) i"
  show ?case
  proof (cases "live (sf_Tokens f) i \<and> \<not> tokCharIs (sf_Tokens f) ?j chr_rparen")
    case False
    then show ?thesis using 1(2) by (subst (asm) declGroup.simps) (auto simp: Let_def split: if_splits)
  next
    case True
    then obtain f1 n ok1 where p: "parseDeclSpec f ls kind ?j True = Some (f1, n, ok1)"
      "(if \<not> ok1 then Some (f1, start, False) else declGroup ls kind start f1 n) = Some (f', nxt, ok)"
      using 1(2) by (subst (asm) declGroup.simps) (auto simp: bind_eq_Some_conv)
    have "sf_Src f1 = sf_Src f \<and> sf_Ok f1 = sf_Ok f" using parseDeclSpec_cases[OF p(1)] by auto
    then show ?thesis using 1(1)[OF _ refl _ p(1) refl refl] True p(2) by (cases ok1) auto
  qed
qed

lemma parseImportDecl_text: "parseImportDecl f ls start = Some (f', nxt, ok) \<Longrightarrow> sf_Src f' = sf_Src f \<and> sf_Ok f' = sf_Ok f"
  by (auto simp: parseImportDecl_def bind_eq_Some_conv split: if_splits
      dest: importLoop_text elim!: parseImportSpec_cases)

lemma parseTopDecl_text: "parseTopDecl f ls start = Some (f', nxt, ok) \<Longrightarrow> sf_Src f' = sf_Src f \<and> sf_Ok f' = sf_Ok f"
  by (auto simp: parseTopDecl_def bind_eq_Some_conv Let_def simp del: at_in_range split: if_splits
      dest: declGroup_text dest!: parseDeclSpec_cases)

lemma topLoop_total: "tokensOk (sf_Src f) (sf_Tokens f) \<Longrightarrow> 0 \<le> i \<Longrightarrow> returns (topLoop ls f i)"
proof (induction "nat (int (length (sf_Tokens f)) - i)" arbitrary: f i rule: less_induct)
  case less
  let ?j = "skipTopSeparators (sf_Tokens f) i"
  show ?case
  proof (cases "live (sf_Tokens f) i \<and> live (sf_Tokens f) ?j")
    case False
    then show ?thesis by (subst topLoop.simps) (auto simp: Let_def intro: some_total)
  next
    case live: True
    have j: "0 \<le> ?j" "i \<le> ?j" "?j < int (length (sf_Tokens f))"
      using skipSeparators_ge(1)[of i "sf_Tokens f"] less.prems live_range[of "sf_Tokens f" ?j] live by auto
    have ih: "returns (topLoop ls f' nxt)" if "sf_Src f' = sf_Src f" "sf_Tokens f' = sf_Tokens f" "?j < nxt" for f' nxt
      using less.hyps[of f' nxt] that j less.prems by simp
    have a: "returns (topLoop ls f' nxt)" if "parseImportDecl f ls ?j = Some (f', nxt, True)" for f' nxt
      using ih parseImportDecl_next[OF that] parseImportDecl_text[OF that] by blast
    have b: "returns (topLoop ls f' nxt)" if "parseTopDecl f ls ?j = Some (f', nxt, True)" for f' nxt
      using ih parseTopDecl_next[OF that] parseTopDecl_text[OF that] by blast
    have c: "returns (topLoop ls (f'\<lparr>sf_Funcs := sf_Funcs f' @ [fn]\<rparr>) (fd_EndTok fn))"
      if "parseFuncDecl f ls ?j = Some (f', fn, True)" for f' fn
      by (rule ih) (use parseFuncDecl_cases[OF that] in auto)
    have g: "\<not> \<not> live (sf_Tokens f) ?j" "live (sf_Tokens f) i" using live by simp_all
    show ?thesis
      unfolding topLoop.simps[of ls f i] if_P[OF g(2)] Let_def if_not_P[OF g(1)]
      using j less.prems by (intro total_rules syn_total) (auto intro: a b c)
  qed
qed

lemma parseTokens_total [syn_total]:
  "tokensOk (sf_Src f) (sf_Tokens f) \<Longrightarrow> returns (parseTokens f ls)"
  unfolding parseTokens_def by (intro total_rules topLoop_total) auto

lemma topLoop_text:
  "topLoop ls f i = Some f' \<Longrightarrow> 0 \<le> i \<Longrightarrow> sf_Src f' = sf_Src f \<and> sf_Tokens f' = sf_Tokens f"
proof (induction "nat (int (length (sf_Tokens f)) - i)" arbitrary: f i rule: less_induct)
  case less
  let ?j = "skipTopSeparators (sf_Tokens f) i"
  show ?case
  proof (cases "live (sf_Tokens f) i \<and> live (sf_Tokens f) ?j")
    case False
    then show ?thesis using less.prems(1) by (subst (asm) topLoop.simps) (auto simp: Let_def split: if_splits)
  next
    case live: True
    have j: "0 \<le> ?j" "i \<le> ?j" "?j < int (length (sf_Tokens f))"
      using skipSeparators_ge(1)[of i "sf_Tokens f"] less.prems live_range[of "sf_Tokens f" ?j] live by auto
    have ih: "sf_Src f' = sf_Src f \<and> sf_Tokens f' = sf_Tokens f"
      if "topLoop ls f1 nxt = Some f'" "sf_Src f1 = sf_Src f" "sf_Tokens f1 = sf_Tokens f" "?j < nxt" for f1 nxt
      using less.hyps[of f1 nxt] that j by simp
    have g: "\<not> \<not> live (sf_Tokens f) ?j" "live (sf_Tokens f) i" using live by simp_all
    obtain tok where tok: "at (sf_Tokens f) ?j = Some tok" using j by simp
    note body = less.prems(1)[unfolded topLoop.simps[of ls f i] if_P[OF g(2)] Let_def if_not_P[OF g(1)] tok Option.bind.simps]
    consider "kindOf tok = TokenImport" | "kindOf tok \<noteq> TokenImport" "kindOf tok = TokenConst \<or> kindOf tok = TokenVar \<or> kindOf tok = TokenType"
      | "kindOf tok = TokenFunc" | "kindOf tok \<noteq> TokenImport" "\<not> (kindOf tok = TokenConst \<or> kindOf tok = TokenVar \<or> kindOf tok = TokenType)"
        "kindOf tok \<noteq> TokenFunc" by blast
    then show ?thesis
    proof cases
      case 1
      then obtain f1 n ok where p: "parseImportDecl f ls ?j = Some (f1, n, ok)"
        "(if \<not> ok then Some (parseFailInPlace f1 ParseErrImport ?j) else topLoop ls f1 n) = Some f'"
        using body by (auto simp: bind_eq_Some_conv)
      then show ?thesis using ih[of f1 n] parseImportDecl_next[OF p(1)] parseImportDecl_text[OF p(1)]
        by (cases ok) (auto simp: parseFailInPlace_def)
    next
      case 2
      then obtain f1 n ok where p: "parseTopDecl f ls ?j = Some (f1, n, ok)"
        "(if \<not> ok then Some (parseFailInPlace f1 ParseErrDecl ?j) else topLoop ls f1 n) = Some f'"
        using body by (auto simp: bind_eq_Some_conv)
      then show ?thesis using ih[of f1 n] parseTopDecl_next[OF p(1)] parseTopDecl_text[OF p(1)]
        by (cases ok) (auto simp: parseFailInPlace_def)
    next
      case 3
      then obtain f1 fn ok where p: "parseFuncDecl f ls ?j = Some (f1, fn, ok)"
        "(if \<not> ok then Some (parseFailInPlace f1 ParseErrFunc ?j)
          else topLoop ls (f1\<lparr>sf_Funcs := sf_Funcs f1 @ [fn]\<rparr>) (fd_EndTok fn)) = Some f'"
        using body by (auto simp: bind_eq_Some_conv)
      note c = parseFuncDecl_cases[OF p(1)]
      show ?thesis
      proof (cases ok)
        case True
        then show ?thesis using p(2) c ih[of "f1\<lparr>sf_Funcs := sf_Funcs f1 @ [fn]\<rparr>" "fd_EndTok fn"] by auto
      next
        case False
        then show ?thesis using p(2) c by (auto simp: parseFailInPlace_def)
      qed
    qed (use body in \<open>auto simp: parseFailInPlace_def\<close>)
  qed
qed

lemma parseTokens_text: "parseTokens f ls = Some f' \<Longrightarrow> sf_Src f' = sf_Src f \<and> sf_Tokens f' = sf_Tokens f"
  by (auto simp: parseTokens_def parseFailInPlace_def split: if_splits dest: topLoop_text)

lemma validateDots_total: "tokensOk (sf_Src f) (sf_Tokens f) \<Longrightarrow> 0 \<le> tok \<Longrightarrow> returns (validateDots f tok)"
proof (induction f tok rule: validateDots.induct)
  case (1 f tok)
  show ?case
  proof (cases "tok + 1 < int (length (sf_Tokens f))")
    case True
    then obtain nxt where nxt: "at (sf_Tokens f) (tok + 1) = Some nxt" using 1(4) by simp
    have c: "returns (at (sf_Src f) (st_Start nxt))" if "kindOf nxt = TokenOperator"
      using tokensOk_at[OF 1(3) nxt] that by (intro total_rules) auto
    show ?thesis
      unfolding validateDots.simps[of f tok] if_P[OF True] nxt Option.bind.simps
      using 1(1)[OF True _ nxt] 1(2)[OF True] 1(3,4) by (intro total_rules c) auto
  qed (simp add: validateDots.simps some_total)
qed

lemma newFile_simps [simp]:
  "sf_Src (newFile src toks cand) = src" "sf_Tokens (newFile src toks cand) = toks" "sf_Ok (newFile src toks cand)"
  by (simp_all add: newFile_def)

lemma parseFileMode_total: "int (length src) < 2 ^ 31 \<Longrightarrow> returns (parseFileMode h src linked)"
proof -
  assume len: "int (length src) < 2 ^ 31"
  have toks: "tokensOk src toks" if "scanTokensMode h src linked = Some (toks, True, cand)" for toks cand
    using scanTokensMode_scanned[OF len that] scanned_tokensOk by (auto split: if_splits)
  have dots: "returns (validateDots f 2)"
    if "parseTokens (newFile src toks cand) ls = Some f" "scanTokensMode h src linked = Some (toks, True, cand)" for f toks cand ls
    using validateDots_total[of f 2] parseTokens_text[OF that(1)] toks[OF that(2)] by simp
  show ?thesis
    unfolding parseFileMode_def Let_def
    by (intro total_rules scanTokensMode_total parseTokens_total) (auto intro: toks dots)
qed

subsection \<open>Physical lines\<close>

lemma lineStartsOf_sorted: "sorted (lineStartsOf src)"
proof -
  have "sorted (filter (\<lambda>i. src ! i = chr_newline) [0..<length src])" by (rule sorted_wrt_filter) simp
  then have "sorted (map (\<lambda>i. int i + 1) (filter (\<lambda>i. src ! i = chr_newline) [0..<length src]))"
    unfolding sorted_wrt_map by (rule sorted_wrt_mono_rel[rotated]) simp
  then show ?thesis by (auto simp: lineStartsOf_def)
qed

lemma lineStartsOf_count:
  assumes "0 \<le> k" "k \<le> int (length src)"
  shows "int (length (filter (\<lambda>x. x \<le> k) (lineStartsOf src))) = 1 + newlines (textAt src 0 k)"
proof -
  have eq: "filter (\<lambda>i. int i + 1 \<le> k \<and> src ! i = chr_newline) [0..<length src] = filter (\<lambda>i. src ! i = chr_newline) [0..<nat k]"
  proof -
    have "[0..<length src] = [0..<nat k] @ [nat k..<length src]"
      using assms upt_add_eq_append[of 0 "nat k" "length src - nat k"] by simp
    moreover have "filter (\<lambda>i. int i + 1 \<le> k \<and> src ! i = chr_newline) [nat k..<length src] = []"
      by (auto simp: filter_empty_conv)
    moreover have "filter (\<lambda>i. int i + 1 \<le> k \<and> src ! i = chr_newline) [0..<nat k] = filter (\<lambda>i. src ! i = chr_newline) [0..<nat k]"
      by (rule filter_cong) auto
    ultimately show ?thesis by simp
  qed
  have "length (filter (\<lambda>i. src ! i = chr_newline) [0..<nat k]) = length (filter (\<lambda>c. c = chr_newline) (take (nat k) src))"
  proof -
    have "take (nat k) src = map (\<lambda>i. src ! i) [0..<nat k]"
      using assms by (intro nth_equalityI) auto
    then show ?thesis by (simp add: filter_map comp_def)
  qed
  then show ?thesis
    using assms eq by (simp add: lineStartsOf_def filter_map comp_def newlines_def textAt_def conj_commute)
qed

lemma TokenLineAt_physical:
  assumes "at toks i = Some tok" "0 \<le> st_Start tok" "st_Start tok \<le> int (length src)"
  shows "TokenLineAt toks i (lineStartsOf src) = Some (1 + newlines (textAt src 0 (st_Start tok)))"
proof -
  have "length (lineStartsOf src) \<noteq> 0" by (simp add: lineStartsOf_def)
  moreover have "lineSearch (lineStartsOf src) (st_Start tok) 0 (int (length (lineStartsOf src)))
      = Some (int (length (filter (\<lambda>x. x \<le> st_Start tok) (lineStartsOf src))))"
    by (rule lineSearch_correct[OF lineStartsOf_sorted]) auto
  ultimately show ?thesis using assms lineStartsOf_count[OF assms(2,3)] by (simp add: TokenLineAt_def del: at_in_range)
qed

subsection \<open>Both modes parse the same file\<close>

definition sameLines :: "SynToken list \<Rightarrow> int list \<Rightarrow> int list \<Rightarrow> bool" where
  "sameLines toks a b = (\<forall>i. TokenLineAt toks i a = TokenLineAt toks i b)"

lemma importNext_same: "sameLines toks a b \<Longrightarrow> importNext toks a grouped pathTok nxt = importNext toks b grouped pathTok nxt"
  by (simp add: importNext_def sameLines_def)

lemma parseImportSpec_same:
  "sameLines (sf_Tokens f) a b \<Longrightarrow> parseImportSpec f a start grouped = parseImportSpec f b start grouped"
  by (simp only: parseImportSpec_def importNext_same Let_def)

lemma importLoop_same: "sameLines (sf_Tokens f) a b \<Longrightarrow> importLoop a start f i = importLoop b start f i"
proof (induction a start f i rule: importLoop.induct)
  case (1 a start f i)
  let ?j = "skipImportSeparators (sf_Tokens f) i"
  show ?case
  proof (cases "live (sf_Tokens f) i \<and> \<not> tokCharIs (sf_Tokens f) ?j chr_rparen")
    case False
    then show ?thesis by (subst (1 2) importLoop.simps) (auto simp: Let_def)
  next
    case True
    note same = parseImportSpec_same[OF 1(2)]
    show ?thesis
    proof (cases "parseImportSpec f a ?j True")
      case None
      then show ?thesis using True same[of ?j True] by (subst (1 2) importLoop.simps) simp
    next
      case (Some r)
      obtain f1 n ok where r: "r = (f1, n, ok)" by (cases r)
      have "importLoop a start f1 n = importLoop b start f1 n" if ok
        using 1(1)[OF _ refl _ Some r[symmetric] refl] True that parseImportSpec_next[OF Some[unfolded r]] 1(2) by auto
      then show ?thesis using True Some r same[of ?j True] by (subst (1 2) importLoop.simps) simp
    qed
  qed
qed

lemma parseImportDecl_same: "sameLines (sf_Tokens f) a b \<Longrightarrow> parseImportDecl f a start = parseImportDecl f b start"
  by (simp add: parseImportDecl_def parseImportSpec_same importLoop_same)

lemma declLoop_same:
  "sameLines toks a b \<Longrightarrow> declLoop src toks a grouped start i p q r = declLoop src toks b grouped start i p q r"
proof (induction "nat (int (length toks) - i)" arbitrary: i p q r rule: less_induct)
  case less
  show ?case
  proof (cases "live toks i")
    case False
    then show ?thesis by (subst (1 2) declLoop.simps) simp
  next
    case True
    have "declLoop src toks a grouped start (i + 1) p q r = declLoop src toks b grouped start (i + 1) p q r" for p q r
      using less live_range[OF True] by simp
    moreover have "newlineEnds src toks a i = newlineEnds src toks b i"
      using less.prems by (simp add: newlineEnds_def sameLines_def)
    ultimately show ?thesis by (subst (1 2) declLoop.simps) (simp only:)
  qed
qed

lemma parseDeclSpec_same:
  "sameLines (sf_Tokens f) a b \<Longrightarrow> parseDeclSpec f a kind start grouped = parseDeclSpec f b kind start grouped"
  by (simp only: parseDeclSpec_def skipDeclSpec_def declLoop_same)

lemma declGroup_same: "sameLines (sf_Tokens f) a b \<Longrightarrow> declGroup a kind start f i = declGroup b kind start f i"
proof (induction a kind start f i rule: declGroup.induct)
  case (1 a kind start f i)
  let ?j = "skipDeclSeparators (sf_Tokens f) i"
  show ?case
  proof (cases "live (sf_Tokens f) i \<and> \<not> tokCharIs (sf_Tokens f) ?j chr_rparen")
    case False
    then show ?thesis by (subst (1 2) declGroup.simps) (auto simp: Let_def)
  next
    case True
    note same = parseDeclSpec_same[OF 1(2)]
    show ?thesis
    proof (cases "parseDeclSpec f a kind ?j True")
      case None
      then show ?thesis using True same[of kind ?j True] by (subst (1 2) declGroup.simps) simp
    next
      case (Some r)
      obtain f1 n ok where r: "r = (f1, n, ok)" by (cases r)
      have "declGroup a kind start f1 n = declGroup b kind start f1 n" if ok
        using 1(1)[OF _ refl _ Some r[symmetric] refl] True that parseDeclSpec_cases[OF Some[unfolded r]] 1(2) by auto
      then show ?thesis using True Some r same[of kind ?j True] by (subst (1 2) declGroup.simps) simp
    qed
  qed
qed

lemma parseTopDecl_same: "sameLines (sf_Tokens f) a b \<Longrightarrow> parseTopDecl f a start = parseTopDecl f b start"
  by (simp only: parseTopDecl_def parseDeclSpec_same declGroup_same)

lemma bodySearch_same: "sameLines toks a b \<Longrightarrow> bodySearch toks a start i = bodySearch toks b start i"
proof (induction "nat (int (length toks) - i)" arbitrary: i rule: less_induct)
  case less
  show ?case
  proof (cases "at toks i")
    case None
    then show ?thesis by (subst (1 2) bodySearch.simps) simp
  next
    case (Some tok)
    have ih: "bodySearch toks a start j = bodySearch toks b start j" if "\<not> j \<le> i" for j
      using less that at_range[OF Some] by simp
    have jump: "(if nxt \<le> i then x else bodySearch toks a start nxt) = (if nxt \<le> i then x else bodySearch toks b start nxt)" for nxt x
      by (cases "nxt \<le> i") (simp_all add: ih)
    have "TokenLineAt toks k a = TokenLineAt toks k b" for k using less.prems by (simp add: sameLines_def)
    then show ?thesis
      using ih[of "i + 1"] by (subst (1 2) bodySearch.simps) (simp only: Some option.case Let_def jump)
  qed
qed

lemma parseSignatureBody_same: "sameLines toks a b \<Longrightarrow> parseSignatureBody toks a fn i = parseSignatureBody toks b fn i"
  by (simp only: parseSignatureBody_def findFuncBody_def bodySearch_same Let_def)

lemma parseFuncDecl_same: "sameLines (sf_Tokens f) a b \<Longrightarrow> parseFuncDecl f a start = parseFuncDecl f b start"
  by (simp only: parseFuncDecl_def parseSignatureBody_same Let_def)

lemma topLoop_same: "sameLines (sf_Tokens f) a b \<Longrightarrow> 0 \<le> i \<Longrightarrow> topLoop a f i = topLoop b f i"
proof (induction "nat (int (length (sf_Tokens f)) - i)" arbitrary: f i rule: less_induct)
  case less
  let ?j = "skipTopSeparators (sf_Tokens f) i"
  show ?case
  proof (cases "live (sf_Tokens f) i \<and> live (sf_Tokens f) ?j")
    case False
    then show ?thesis by (subst (1 2) topLoop.simps) (auto simp: Let_def)
  next
    case live: True
    have j: "0 \<le> ?j" "i \<le> ?j" "?j < int (length (sf_Tokens f))"
      using skipSeparators_ge(1)[of i "sf_Tokens f"] less.prems live_range[of "sf_Tokens f" ?j] live by auto
    have ih: "topLoop a f1 nxt = topLoop b f1 nxt" if "sf_Tokens f1 = sf_Tokens f" "?j < nxt" for f1 nxt
      using less.hyps[of f1 nxt] that j less.prems by simp
    have g: "\<not> \<not> live (sf_Tokens f) ?j" "live (sf_Tokens f) i" using live by simp_all
    obtain tok where tok: "at (sf_Tokens f) ?j = Some tok" using j by simp
    have x: "do { (f1, nxt, ok) \<leftarrow> parseImportDecl f a ?j;
          if \<not> ok then Some (parseFailInPlace f1 ParseErrImport ?j) else topLoop a f1 nxt }
        = do { (f1, nxt, ok) \<leftarrow> parseImportDecl f b ?j;
          if \<not> ok then Some (parseFailInPlace f1 ParseErrImport ?j) else topLoop b f1 nxt }"
      unfolding parseImportDecl_same[OF less.prems(1)]
      by (rule Option.bind_cong[OF refl]) (use parseImportDecl_next ih in \<open>fastforce split: prod.splits\<close>)
    have y: "do { (f1, nxt, ok) \<leftarrow> parseTopDecl f a ?j;
          if \<not> ok then Some (parseFailInPlace f1 ParseErrDecl ?j) else topLoop a f1 nxt }
        = do { (f1, nxt, ok) \<leftarrow> parseTopDecl f b ?j;
          if \<not> ok then Some (parseFailInPlace f1 ParseErrDecl ?j) else topLoop b f1 nxt }"
      unfolding parseTopDecl_same[OF less.prems(1)]
      by (rule Option.bind_cong[OF refl]) (use parseTopDecl_next ih in \<open>fastforce split: prod.splits\<close>)
    have func: "topLoop a (f1\<lparr>sf_Funcs := sf_Funcs f1 @ [fn]\<rparr>) (fd_EndTok fn)
        = topLoop b (f1\<lparr>sf_Funcs := sf_Funcs f1 @ [fn]\<rparr>) (fd_EndTok fn)"
      if "parseFuncDecl f b ?j = Some (f1, fn, True)" for f1 fn
      by (rule ih) (use parseFuncDecl_cases[OF that] in auto)
    have z: "do { (f1, fn, ok) \<leftarrow> parseFuncDecl f a ?j;
          if \<not> ok then Some (parseFailInPlace f1 ParseErrFunc ?j)
          else topLoop a (f1\<lparr>sf_Funcs := sf_Funcs f1 @ [fn]\<rparr>) (fd_EndTok fn) }
        = do { (f1, fn, ok) \<leftarrow> parseFuncDecl f b ?j;
          if \<not> ok then Some (parseFailInPlace f1 ParseErrFunc ?j)
          else topLoop b (f1\<lparr>sf_Funcs := sf_Funcs f1 @ [fn]\<rparr>) (fd_EndTok fn) }"
      unfolding parseFuncDecl_same[OF less.prems(1)]
      by (rule Option.bind_cong[OF refl]) (auto simp: func split: prod.splits)
    show ?thesis
      unfolding topLoop.simps[of a f i] topLoop.simps[of b f i] if_P[OF g(2)] Let_def if_not_P[OF g(1)] tok Option.bind.simps
        x y z by (rule refl)
  qed
qed

lemma parseTokens_same: "sameLines (sf_Tokens f) a b \<Longrightarrow> parseTokens f a = parseTokens f b"
  by (simp add: parseTokens_def topLoop_same)

lemma scanLoop_modes:
  assumes "sourceText src" "int (length src) < 2 ^ 31" "1 + newlines src \<le> TokenLineLimit"
    and "0 \<le> i" "i \<le> int (length src)" "boundary src i" "line = 1 + newlines (textAt src 0 i)"
  shows "scanLoop h src True i line toks cand = scanLoop h src False i line toks cand"
  using assms(4-7)
proof (induction "nat (int (length src) - i)" arbitrary: i line toks cand rule: less_induct)
  case less
  show ?case
  proof (cases "i < int (length src)")
    case False
    then show ?thesis by (subst (1 2) scanLoop.simps) simp
  next
    case True
    have "textAt src 0 (int (length src)) = src" by (simp add: textAt_def)
    then have "newlines (textAt src 0 i) \<le> newlines src"
      using newlines_textAt[of i "int (length src)" src] less.prems(1,2) by (simp add: newlines_def)
    then have small: "\<not> line > TokenLineLimit" using less.prems(4) assms(3) by simp
    have next_ok: "scanLoop h src True j line' ts c = scanLoop h src False j line' ts c"
      if "i < j" "j \<le> int (length src)" "boundary src j" "line' = line + newlines (textAt src i j)" for j line' ts c
      using less.hyps[of j line' ts c] that newlines_textAt[of i j src] less.prems(1,4) True by simp
    show ?thesis
    proof (cases "scanStep h src i line")
      case None
      then show ?thesis using True small by (subst (1 2) scanLoop.simps) simp
    next
      case (Some r)
      have "(case r of Moved i line \<Rightarrow> scanLoop h src True i line toks cand
            | Found tok i line c \<Rightarrow> scanLoop h src True i line (toks @ [tok]) (cand \<or> c)
            | Refused line \<Rightarrow> Some (toks, False, cand, line))
          = (case r of Moved i line \<Rightarrow> scanLoop h src False i line toks cand
            | Found tok i line c \<Rightarrow> scanLoop h src False i line (toks @ [tok]) (cand \<or> c)
            | Refused line \<Rightarrow> Some (toks, False, cand, line))"
      proof (cases r)
        case (Moved j line')
        then show ?thesis
          using next_ok[of j line'] scanStep_moved[OF assms(1)] Some by (auto simp: movedOk_def)
      next
        case (Found tok j line' b)
        then show ?thesis
          using next_ok[of j line'] scanStep_found[OF assms(1,2) less.prems(3)] Some by (auto simp: foundOk_def)
      qed simp
      then show ?thesis
        using True small Some by (subst (1 2) scanLoop.simps) (simp only: if_True simp_thms if_False Option.bind.simps)
    qed
  qed
qed

lemma scanTokensMode_modes:
  assumes "int (length src) < 2 ^ 31" "1 + newlines src \<le> TokenLineLimit"
  shows "scanTokensMode h src True = scanTokensMode h src False"
proof (cases "sourceText src")
  case False
  then show ?thesis by (simp add: scanTokensMode_def validSourceEncoding_source)
next
  case True
  note bom = bom_position[OF True]
  have b: "0 \<le> bomWidth src" by (simp add: bomWidth_def)
  have loop: "scanLoop h src True (bomWidth src) 1 [] False = scanLoop h src False (bomWidth src) 1 [] False"
    using scanLoop_modes[OF True assms b bom(2) boundary_bom[OF True]] bom(3) by simp
  have line: "ok \<longrightarrow> l \<le> TokenLineLimit"
    if "scanLoop h src False (bomWidth src) 1 [] False = Some (ts, ok, cand, l)" for ts ok cand l
    using scanLoop_tiled[OF True assms(1) that b bom(2) boundary_bom[OF True]] bom(3) assms(2) by auto
  show ?thesis
    unfolding scanTokensMode_def Let_def validSourceEncoding_source bom(1) loop
    by (cases "scanLoop h src False (bomWidth src) 1 [] False") (auto dest: line split: if_splits)
qed

lemma parseFileMode_modes:
  assumes "int (length src) < 2 ^ 31" "1 + newlines src \<le> TokenLineLimit"
  shows "map_option fst (parseFileMode h src True) = map_option fst (parseFileMode h src False)"
proof -
  note modes = scanTokensMode_modes[OF assms]
  obtain toks ok cand where scan: "scanTokensMode h src False = Some (toks, ok, cand)"
    using scanTokensMode_total[of h src False] by (auto simp: returns_def)
  show ?thesis
  proof (cases ok)
    case False
    then show ?thesis by (simp add: parseFileMode_def modes scan)
  next
    case True
    have ends: "tokensOk src toks"
      using scanTokensMode_scanned[OF assms(1) scan] scanned_tokensOk by (auto simp: tokensOk_def split: if_splits)
    have "TokenLineAt toks i [] = TokenLineAt toks i (lineStartsOf src)" for i
    proof (cases "at toks i")
      case None
      then show ?thesis by (simp add: TokenLineAt_def)
    next
      case (Some tok)
      then have "tok \<in> set toks" by (auto simp: at_def split: if_splits)
      then have "TokenLine tok = 1 + newlines (textAt src 0 (st_Start tok))"
        using scanTokensMode_lines[OF assms(1)] scan True by simp
      then show ?thesis
        using TokenLineAt_physical[OF Some] tokensOk_at(1)[OF ends Some] tokensOk_ends(2)[OF ends Some] Some
        by (simp add: TokenLineAt_def)
    qed
    then have "parseTokens (newFile src toks cand) (lineStartsOf src) = parseTokens (newFile src toks cand) []"
      by (intro parseTokens_same) (simp add: sameLines_def)
    then show ?thesis
      using True by (cases "parseTokens (newFile src toks cand) []")
        (simp_all add: parseFileMode_def modes scan Option.map_conv_bind_option comp_def)
  qed
qed

end
