(* ===== verification/Syn_Spans.thy ===== *)
theory Syn_Spans
  imports Syn_Lines
begin

text \<open>
  What the declaration parser records: every import, declaration, function and type parameter list
  spans tokens of the file with the right delimiters and names, and the spans of each list follow
  one another, whether the file is accepted or not.
\<close>

subsection \<open>Lists of spans\<close>

definition inOrder ::
  "('a \<Rightarrow> bool) \<Rightarrow> ('a \<Rightarrow> int) \<Rightarrow> ('a \<Rightarrow> int) \<Rightarrow> ('a \<Rightarrow> 'a \<Rightarrow> bool) \<Rightarrow> int \<Rightarrow> int \<Rightarrow> 'a list \<Rightarrow> bool"
where
  "inOrder good start stop joined lo hi xs =
     ((\<forall>x \<in> set xs. good x \<and> lo \<le> start x \<and> start x \<le> stop x \<and> stop x \<le> hi)
      \<and> sorted_wrt (\<lambda>x y. stop x \<le> start y \<or> joined x y) xs)"

lemma inOrder_Nil: "inOrder good start stop joined lo hi []"
  by (simp add: inOrder_def)

lemma inOrder_append:
  assumes "inOrder good start stop joined lo mid xs" "inOrder good start stop joined mid hi ys" "lo \<le> mid" "mid \<le> hi"
  shows "inOrder good start stop joined lo hi (xs @ ys)"
proof -
  have "stop x \<le> start y" if "x \<in> set xs" "y \<in> set ys" for x y
  proof -
    have "stop x \<le> mid" "mid \<le> start y" using assms(1,2) that by (auto simp: inOrder_def)
    then show ?thesis by (rule order_trans)
  qed
  then show ?thesis using assms by (auto simp: inOrder_def sorted_wrt_append)
qed

lemma inOrder_mono: "inOrder good start stop joined lo hi xs \<Longrightarrow> lo' \<le> lo \<Longrightarrow> hi \<le> hi' \<Longrightarrow> inOrder good start stop joined lo' hi' xs"
  by (auto simp: inOrder_def)

subsection \<open>What may be recorded\<close>

definition importOk :: "SynToken list \<Rightarrow> SynImportDecl \<Rightarrow> bool" where
  "importOk toks d =
     (kindIs toks (imp_PathTok d) TokenString \<and> imp_EndTok d = imp_PathTok d + 1
      \<and> (imp_NameTok d = - 1 \<and> imp_PathTok d = imp_StartTok d
         \<or> imp_NameTok d = imp_StartTok d \<and> imp_PathTok d = imp_StartTok d + 1
           \<and> (kindIs toks (imp_NameTok d) TokenIdent \<or> tokCharIs toks (imp_NameTok d) chr_dot)))"

definition topOk :: "SynToken list \<Rightarrow> TopDecl \<Rightarrow> bool" where
  "topOk toks d = (declOk toks d \<and> td_Kind d \<in> {TokenConst, TokenVar, TokenType})"

text \<open>Two names of one specification.\<close>

definition sameSpec :: "TopDecl \<Rightarrow> TopDecl \<Rightarrow> bool" where
  "sameSpec a b = (td_StartTok a = td_StartTok b \<and> td_EndTok a = td_EndTok b \<and> td_NameTok a < td_NameTok b)"

definition functionOk :: "SynToken list \<Rightarrow> FuncDecl \<Rightarrow> bool" where
  "functionOk toks fn = (funcOk toks fn \<and> kindIs toks (fd_StartTok fn) TokenFunc)"

abbreviation importsIn :: "SynToken list \<Rightarrow> int \<Rightarrow> int \<Rightarrow> SynImportDecl list \<Rightarrow> bool" where
  "importsIn toks \<equiv> inOrder (importOk toks) imp_StartTok imp_EndTok (\<lambda>_ _. False)"

abbreviation declsIn :: "SynToken list \<Rightarrow> int \<Rightarrow> int \<Rightarrow> TopDecl list \<Rightarrow> bool" where
  "declsIn toks \<equiv> inOrder (topOk toks) td_StartTok td_EndTok sameSpec"

abbreviation funcsIn :: "SynToken list \<Rightarrow> int \<Rightarrow> int \<Rightarrow> FuncDecl list \<Rightarrow> bool" where
  "funcsIn toks \<equiv> inOrder (functionOk toks) fd_StartTok fd_EndTok (\<lambda>_ _. False)"

text \<open>\<open>f'\<close> is \<open>f\<close> with well-formed entries of the tokens from \<open>lo\<close> to \<open>hi\<close> behind its own.\<close>

definition extends :: "int \<Rightarrow> int \<Rightarrow> SynFile \<Rightarrow> SynFile \<Rightarrow> bool" where
  "extends lo hi f f' =
     (lo \<le> hi \<and> sf_Src f' = sf_Src f \<and> sf_Tokens f' = sf_Tokens f \<and> listed f f'
      \<and> (\<exists>xs. sf_Imports f' = sf_Imports f @ xs \<and> importsIn (sf_Tokens f) lo hi xs)
      \<and> (\<exists>xs. sf_Decls f' = sf_Decls f @ xs \<and> declsIn (sf_Tokens f) lo hi xs)
      \<and> (\<exists>xs. sf_Funcs f' = sf_Funcs f @ xs \<and> funcsIn (sf_Tokens f) lo hi xs))"

lemma extends_listed:
  assumes "f' = f\<lparr>sf_Generics := g\<rparr>" "listed f f'" "lo \<le> hi"
  shows "extends lo hi f f'"
  using assms by (simp add: extends_def inOrder_Nil)

lemma extends_refl: "lo \<le> hi \<Longrightarrow> extends lo hi f f"
  by (rule extends_listed[where g = "sf_Generics f"]) (simp_all add: listed_refl)

lemma listed_trans: "listed f f1 \<Longrightarrow> listed f1 f2 \<Longrightarrow> sf_Tokens f1 = sf_Tokens f \<Longrightarrow> listed f f2"
  by (fastforce simp: listed_def)

lemma extends_trans:
  assumes "extends lo mid f f1" "extends mid hi f1 f2"
  shows "extends lo hi f f2"
proof -
  obtain xi xd xf where x: "sf_Imports f1 = sf_Imports f @ xi" "sf_Decls f1 = sf_Decls f @ xd" "sf_Funcs f1 = sf_Funcs f @ xf"
    "sf_Tokens f1 = sf_Tokens f" "sf_Src f1 = sf_Src f" "listed f f1" "lo \<le> mid"
    "importsIn (sf_Tokens f) lo mid xi" "declsIn (sf_Tokens f) lo mid xd" "funcsIn (sf_Tokens f) lo mid xf"
    using assms(1) unfolding extends_def by blast
  obtain yi yd yf where y: "sf_Imports f2 = sf_Imports f1 @ yi" "sf_Decls f2 = sf_Decls f1 @ yd" "sf_Funcs f2 = sf_Funcs f1 @ yf"
    "sf_Tokens f2 = sf_Tokens f1" "sf_Src f2 = sf_Src f1" "listed f1 f2" "mid \<le> hi"
    "importsIn (sf_Tokens f) mid hi yi" "declsIn (sf_Tokens f) mid hi yd" "funcsIn (sf_Tokens f) mid hi yf"
    using assms(2) x(4) unfolding extends_def by auto
  note app = inOrder_append[OF _ _ x(7) y(7)]
  have "listed f f2" by (rule listed_trans[OF x(6) y(6) x(4)])
  moreover have "lo \<le> hi" using x(7) y(7) by (rule order_trans)
  ultimately show ?thesis
    unfolding extends_def using x(1-5) y(1-5) app[OF x(8) y(8)] app[OF x(9) y(9)] app[OF x(10) y(10)]
    by simp
qed

lemma extends_mono:
  assumes "extends lo hi f f'" "lo' \<le> lo" "hi \<le> hi'"
  shows "extends lo' hi' f f'"
proof -
  obtain xi xd xf where "sf_Imports f' = sf_Imports f @ xi" "sf_Decls f' = sf_Decls f @ xd" "sf_Funcs f' = sf_Funcs f @ xf"
    "sf_Tokens f' = sf_Tokens f" "sf_Src f' = sf_Src f" "listed f f'" "lo \<le> hi"
    "importsIn (sf_Tokens f) lo hi xi" "declsIn (sf_Tokens f) lo hi xd" "funcsIn (sf_Tokens f) lo hi xf"
    using assms(1) unfolding extends_def by blast
  then show ?thesis
    unfolding extends_def using assms(2,3) by (auto intro: inOrder_mono[OF _ assms(2,3)])
qed

text \<open>An operation that leaves the parser behind \<open>nxt\<close> when it succeeds.\<close>

definition grows :: "int \<Rightarrow> int \<Rightarrow> bool \<Rightarrow> SynFile \<Rightarrow> SynFile \<Rightarrow> bool" where
  "grows lo nxt ok f f' = (\<exists>hi. extends lo hi f f' \<and> (ok \<longrightarrow> hi \<le> nxt))"

lemma grows_refl: "ok \<longrightarrow> lo \<le> nxt \<Longrightarrow> grows lo nxt ok f f"
  by (auto simp: grows_def intro!: exI[of _ lo] extends_refl)

lemma grows_trans:
  assumes "grows lo n True f f1" "grows n' nxt ok f1 f2" "n \<le> n'"
  shows "grows lo nxt ok f f2"
  using assms extends_mono[of lo _ f f1 lo n'] extends_trans[of lo n' f f1 _ f2] unfolding grows_def
  by (metis order_refl order_trans)

lemma grows_fail: "grows lo nxt ok f f' \<Longrightarrow> grows lo nxt' False f f'"
  by (auto simp: grows_def)

lemma grows_lower: "grows lo nxt ok f f' \<Longrightarrow> lo' \<le> lo \<Longrightarrow> grows lo' nxt ok f f'"
  using extends_mono[OF _ _ order_refl] unfolding grows_def by blast

subsection \<open>Specifications\<close>

lemma parseImportSpec_grows:
  assumes "parseImportSpec f lineStarts start grouped = Some (f', nxt, ok)"
  shows "grows start nxt ok f f'"
  using assms
proof (cases rule: parseImportSpec_cases)
  case (yes nameTok pathTok)
  let ?d = "\<lparr>imp_NameTok = nameTok, imp_PathTok = pathTok, imp_StartTok = start, imp_EndTok = pathTok + 1\<rparr>"
  have "importsIn (sf_Tokens f) start (pathTok + 1) [?d]"
    using yes(2,3) by (auto simp: inOrder_def importOk_def isImportName_def split: if_splits)
  then have "extends start (pathTok + 1) f f'"
    using yes(2,5) by (auto simp: extends_def inOrder_Nil listed_def TypeParameterLists_def)
  then show ?thesis using importNext_ge[OF yes(4)] by (auto simp: grows_def)
qed (simp add: grows_refl)

lemma importLoop_grows:
  "importLoop lineStarts start f i = Some (f', nxt, ok) \<Longrightarrow> grows i nxt ok f f'"
proof (induction lineStarts start f i rule: importLoop.induct)
  case (1 lineStarts start f i)
  let ?j = "skipImportSeparators (sf_Tokens f) i"
  have j: "i \<le> ?j" by (rule skipSeparators_ge)
  show ?case
  proof (cases "live (sf_Tokens f) i")
    case False
    then show ?thesis using 1(2) by (auto simp: importLoop.simps[of _ _ f i] intro: grows_refl)
  next
    case True
    note body = 1(2)[unfolded importLoop.simps[of lineStarts start f i] if_P[OF True] Let_def]
    show ?thesis
    proof (cases "tokCharIs (sf_Tokens f) ?j chr_rparen")
      case True
      then show ?thesis using body j by (auto intro!: grows_refl)
    next
      case False
      note body = body[unfolded if_not_P[OF False]]
      then obtain f1 n ok1 where p: "parseImportSpec f lineStarts ?j True = Some (f1, n, ok1)"
        by (cases "parseImportSpec f lineStarts ?j True") auto
      note body = body[unfolded p Option.bind.simps prod.case]
      note spec = grows_lower[OF parseImportSpec_grows[OF p] j]
      show ?thesis
      proof (cases ok1)
        case yes: True
        then have "importLoop lineStarts start f1 n = Some (f', nxt, ok)" using body by simp
        with 1(1)[OF True refl False p refl refl] yes have "grows n nxt ok f1 f'" by simp
        then show ?thesis using spec yes by (auto intro: grows_trans[of _ n])
      qed (use body grows_fail[OF spec] in auto)
    qed
  qed
qed

lemma parseImportDecl_grows:
  assumes "parseImportDecl f lineStarts start = Some (f', nxt, ok)"
  shows "grows start nxt ok f f'"
proof (cases "tokCharIs (sf_Tokens f) (start + 1) chr_lparen")
  case True
  then show ?thesis using assms grows_lower[OF importLoop_grows[of lineStarts start f "start + 2" f' nxt ok], of start]
    by (auto simp: parseImportDecl_def)
next
  case False
  then obtain f1 n ok1 where p: "parseImportSpec f lineStarts (start + 1) False = Some (f1, n, ok1)"
    "(if \<not> ok1 then Some (f1, start, False) else Some (f1, n, True)) = Some (f', nxt, ok)"
    using assms by (auto simp: parseImportDecl_def bind_eq_Some_conv)
  have "grows start n ok1 f f1" by (rule grows_lower[OF parseImportSpec_grows[OF p(1)]]) simp
  then show ?thesis using p(2) by (auto split: if_splits intro: grows_fail)
qed

lemma parseDeclSpec_grows:
  assumes "parseDeclSpec f lineStarts kind start grouped = Some (f', nxt, ok)" "kind \<in> {TokenConst, TokenVar, TokenType}"
  shows "grows start nxt ok f f'"
proof -
  from parseDeclSpec_cases[OF assms(1)] obtain g ds stop where ds: "f' = f\<lparr>sf_Decls := sf_Decls f @ ds, sf_Generics := g\<rparr>"
    "listed f f'" "start \<le> stop"
    "\<forall>d \<in> set ds. td_Kind d = kind \<and> td_StartTok d = start \<and> td_EndTok d = stop \<and> declOk (sf_Tokens f) d"
    "sorted_wrt (\<lambda>x y. td_NameTok x < td_NameTok y) ds" "ok \<longrightarrow> stop \<le> nxt" by blast
  have "sorted_wrt (\<lambda>x y. td_EndTok x \<le> td_StartTok y \<or> sameSpec x y) ds"
    by (rule sorted_wrt_mono_rel[OF _ ds(5)]) (use ds(4) in \<open>auto simp: sameSpec_def\<close>)
  then have "declsIn (sf_Tokens f) start stop ds"
    using ds(3,4) assms(2) by (auto simp: inOrder_def topOk_def)
  then have "extends start stop f f'"
    unfolding extends_def using ds(1-3) by (simp add: inOrder_Nil)
  then show ?thesis using ds(6) by (auto simp: grows_def)
qed

lemma declGroup_grows:
  "declGroup lineStarts kind start f i = Some (f', nxt, ok) \<Longrightarrow> kind \<in> {TokenConst, TokenVar, TokenType} \<Longrightarrow> grows i nxt ok f f'"
proof (induction lineStarts kind start f i rule: declGroup.induct)
  case (1 lineStarts kind start f i)
  let ?j = "skipDeclSeparators (sf_Tokens f) i"
  have j: "i \<le> ?j" by (rule skipSeparators_ge)
  show ?case
  proof (cases "live (sf_Tokens f) i")
    case False
    then show ?thesis using 1(2) by (auto simp: declGroup.simps[of _ _ _ f i] intro: grows_refl)
  next
    case True
    note body = 1(2)[unfolded declGroup.simps[of lineStarts kind start f i] if_P[OF True] Let_def]
    show ?thesis
    proof (cases "tokCharIs (sf_Tokens f) ?j chr_rparen")
      case True
      then show ?thesis using body j by (auto intro!: grows_refl)
    next
      case False
      note body = body[unfolded if_not_P[OF False]]
      then obtain f1 n ok1 where p: "parseDeclSpec f lineStarts kind ?j True = Some (f1, n, ok1)"
        by (cases "parseDeclSpec f lineStarts kind ?j True") auto
      note body = body[unfolded p Option.bind.simps prod.case]
      note spec = grows_lower[OF parseDeclSpec_grows[OF p 1(3)] j]
      show ?thesis
      proof (cases ok1)
        case yes: True
        then have "declGroup lineStarts kind start f1 n = Some (f', nxt, ok)" using body by simp
        with 1(1)[OF True refl False p refl refl _ _ 1(3)] yes have "grows n nxt ok f1 f'" by simp
        then show ?thesis using spec yes by (auto intro: grows_trans[of _ n])
      qed (use body grows_fail[OF spec] in auto)
    qed
  qed
qed

lemma parseTopDecl_grows:
  assumes "parseTopDecl f lineStarts start = Some (f', nxt, ok)" "at (sf_Tokens f) start = Some tok"
    "kindOf tok \<in> {TokenConst, TokenVar, TokenType}"
  shows "grows start nxt ok f f'"
proof -
  note body = assms(1)[unfolded parseTopDecl_def assms(2) Option.bind.simps Let_def]
  show ?thesis
  proof (cases "tokCharIs (sf_Tokens f) (start + 1) chr_lparen")
    case True
    then show ?thesis using body assms(3) grows_lower[OF declGroup_grows[of lineStarts "kindOf tok" start f "start + 2" f' nxt ok], of start]
      by auto
  next
    case False
    then obtain f1 n ok1 where p: "parseDeclSpec f lineStarts (kindOf tok) (start + 1) False = Some (f1, n, ok1)"
      "(if \<not> ok1 then Some (f1, start, False) else Some (f1, n, True)) = Some (f', nxt, ok)"
      using body by (auto simp: bind_eq_Some_conv)
    have "grows start n ok1 f f1" by (rule grows_lower[OF parseDeclSpec_grows[OF p(1) assms(3)]]) simp
    then show ?thesis using p(2) by (auto split: if_splits intro: grows_fail)
  qed
qed

lemma parseFuncDecl_grows:
  assumes "parseFuncDecl f lineStarts start = Some (f', fn, ok)" "kindIs (sf_Tokens f) start TokenFunc"
  shows "extends start start f f'"
    and "ok \<Longrightarrow> grows start (fd_EndTok fn) True f (f'\<lparr>sf_Funcs := sf_Funcs f' @ [fn]\<rparr>) \<and> start < fd_EndTok fn"
proof -
  from parseFuncDecl_cases[OF assms(1)] obtain g where g: "f' = f\<lparr>sf_Generics := g\<rparr>" "listed f f'"
    "ok \<longrightarrow> fd_StartTok fn = start \<and> start < fd_EndTok fn \<and> funcOk (sf_Tokens f) fn" by blast
  show "extends start start f f'" using g(1,2) order_refl by (rule extends_listed)
  show "grows start (fd_EndTok fn) True f (f'\<lparr>sf_Funcs := sf_Funcs f' @ [fn]\<rparr>) \<and> start < fd_EndTok fn" if ok
  proof -
    have fn: "fd_StartTok fn = start" "start < fd_EndTok fn" "funcOk (sf_Tokens f) fn" using g(3) that by simp_all
    have "funcsIn (sf_Tokens f) start (fd_EndTok fn) [fn]"
      using fn assms(2) by (simp add: inOrder_def functionOk_def)
    then have "extends start (fd_EndTok fn) f (f'\<lparr>sf_Funcs := sf_Funcs f' @ [fn]\<rparr>)"
      unfolding extends_def using g(1,2) fn(2) by (simp add: inOrder_Nil listed_def TypeParameterLists_def)
    then show ?thesis using fn(2) by (auto simp: grows_def)
  qed
qed

subsection \<open>Files\<close>

lemma grows_parseFailInPlace: "grows lo nxt ok f (parseFailInPlace f' err tok) = grows lo nxt ok f f'"
  by (simp add: grows_def extends_def parseFailInPlace_def listed_def TypeParameterLists_def)

lemma topLoop_grows:
  "topLoop lineStarts f i = Some f' \<Longrightarrow> grows i 0 False f f'"
proof (induction lineStarts f i rule: topLoop.induct)
  case (1 lineStarts f i)
  let ?j = "skipTopSeparators (sf_Tokens f) i"
  have j: "i \<le> ?j" by (rule skipSeparators_ge)
  show ?case
  proof (cases "live (sf_Tokens f) i \<and> live (sf_Tokens f) ?j")
    case False
    then show ?thesis using 1(4) by (auto simp: topLoop.simps[of _ f i] Let_def intro: grows_refl split: if_splits)
  next
    case True
    then have t: "live (sf_Tokens f) i" "\<not> \<not> live (sf_Tokens f) ?j" by simp_all
    then obtain tok where tok: "at (sf_Tokens f) ?j = Some tok" by (auto simp: live_def split: option.splits)
    note body = 1(4)[unfolded topLoop.simps[of lineStarts f i] if_P[OF t(1)] Let_def if_not_P[OF t(2)] tok Option.bind.simps]
    have cont: ?thesis if "grows ?j nxt ok f f1" "if \<not> ok then f' = parseFailInPlace f1 err ?j else grows nxt 0 False f1 f'"
      for nxt ok err f1
    proof (cases ok)
      case True
      then have "grows ?j 0 False f f'" using that by (auto intro: grows_trans[of _ nxt])
      then show ?thesis using j by (rule grows_lower)
    next
      case False
      then show ?thesis using that grows_lower[OF that(1) j] by (auto simp: grows_parseFailInPlace intro: grows_fail)
    qed
    show ?thesis
    proof (cases "kindOf tok = TokenImport")
      case imp: True
      note body = body[unfolded if_P[OF imp]]
      then obtain f1 n ok1 where p: "parseImportDecl f lineStarts ?j = Some (f1, n, ok1)"
        by (cases "parseImportDecl f lineStarts ?j") auto
      note body = body[unfolded p Option.bind.simps prod.case]
      show ?thesis
        by (rule cont[OF parseImportDecl_grows[OF p], of ParseErrImport])
          (use body 1(1)[OF t(1) refl t(2) tok imp p refl refl] in \<open>auto split: if_splits\<close>)
    next
      case notImp: False
      note body = body[unfolded if_not_P[OF notImp]]
      show ?thesis
      proof (cases "kindOf tok = TokenConst \<or> kindOf tok = TokenVar \<or> kindOf tok = TokenType")
        case dec: True
        note body = body[unfolded if_P[OF dec]]
        then obtain f1 n ok1 where p: "parseTopDecl f lineStarts ?j = Some (f1, n, ok1)"
          by (cases "parseTopDecl f lineStarts ?j") auto
        note body = body[unfolded p Option.bind.simps prod.case]
        have "kindOf tok \<in> {TokenConst, TokenVar, TokenType}" using dec by blast
        from cont[OF parseTopDecl_grows[OF p tok this], of ParseErrDecl] show ?thesis
          using body 1(2)[OF t(1) refl t(2) tok notImp dec p refl refl] by (auto split: if_splits)
      next
        case notDec: False
        note body = body[unfolded if_not_P[OF notDec]]
        show ?thesis
        proof (cases "kindOf tok = TokenFunc")
          case func: True
          note body = body[unfolded if_P[OF func]]
          then obtain f1 fn ok1 where p: "parseFuncDecl f lineStarts ?j = Some (f1, fn, ok1)"
            by (cases "parseFuncDecl f lineStarts ?j") auto
          note body = body[unfolded p Option.bind.simps prod.case]
          have k: "kindIs (sf_Tokens f) ?j TokenFunc" using tok func by (simp add: kindIs_def)
          note spec = parseFuncDecl_grows[OF p k]
          show ?thesis
          proof (cases ok1)
            case True
            then show ?thesis
              using cont[of "fd_EndTok fn" True] spec(2) body 1(3)[OF t(1) refl t(2) tok notImp notDec func p refl refl]
              by auto
          next
            case False
            have "grows ?j ?j False f f1" using spec(1) by (auto simp: grows_def)
            then show ?thesis using cont[of ?j False f1 ParseErrFunc] False body by auto
          qed
        next
          case False
          then show ?thesis using cont[of ?j False f ParseErrTopLevel] body by (auto simp: grows_refl)
        qed
      qed
    qed
  qed
qed

lemma validateDots_cases: "validateDots f tok = Some f' \<Longrightarrow> f' = f \<or> (\<exists>err t. f' = parseFailInPlace f err t)"
proof (induction f tok rule: validateDots.induct)
  case (1 f tok)
  show ?case
    using 1(3) 1(1,2) by (subst (asm) validateDots.simps) (auto simp: bind_eq_Some_conv split: if_splits)
qed

lemma parseFailInPlace_fields:
  "sf_Tokens (parseFailInPlace f err tok) = sf_Tokens f" "sf_Src (parseFailInPlace f err tok) = sf_Src f"
  "sf_Imports (parseFailInPlace f err tok) = sf_Imports f" "sf_Decls (parseFailInPlace f err tok) = sf_Decls f"
  "sf_Funcs (parseFailInPlace f err tok) = sf_Funcs f" "TypeParameterLists (parseFailInPlace f err tok) = TypeParameterLists f"
  by (simp_all add: parseFailInPlace_def TypeParameterLists_def)

lemma parseTokens_grows:
  assumes "parseTokens f lineStarts = Some f'"
  shows "grows 2 0 False f f'"
proof (cases "length (sf_Tokens f) < 3 \<or> \<not> kindIs (sf_Tokens f) 0 TokenPackage \<or> \<not> kindIs (sf_Tokens f) 1 TokenIdent")
  case True
  then show ?thesis using assms by (auto simp: parseTokens_def grows_parseFailInPlace grows_refl)
next
  case False
  then have "grows 2 0 False (f\<lparr>sf_PackageName := 1\<rparr>) f'"
    using assms topLoop_grows by (auto simp: parseTokens_def)
  then show ?thesis by (simp add: grows_def extends_def listed_def TypeParameterLists_def)
qed

lemma parseFileMode_grows:
  assumes "parseFileMode h src linked = Some (f, lineStarts)"
  obtains toks ok candidates where "scanTokensMode h src linked = Some (toks, ok, candidates)"
    "grows 2 0 False (newFile src toks candidates) f"
proof -
  obtain toks ok candidates where scan: "scanTokensMode h src linked = Some (toks, ok, candidates)"
    using assms by (cases "scanTokensMode h src linked") (auto simp: parseFileMode_def)
  let ?f = "newFile src toks candidates"
  note body = assms[unfolded parseFileMode_def scan Option.bind.simps prod.case Let_def]
  have "grows 2 0 False ?f f"
  proof (cases ok)
    case False
    then show ?thesis using body by (auto simp: grows_parseFailInPlace grows_refl)
  next
    case True
    then obtain f1 where f1: "parseTokens ?f lineStarts = Some f1" "(if sf_Ok f1 then validateDots f1 2 else Some f1) = Some f"
      using body by (auto simp: bind_eq_Some_conv)
    have "f = f1 \<or> (\<exists>err t. f = parseFailInPlace f1 err t)" using f1(2) validateDots_cases[of f1 2 f] by (auto split: if_splits)
    then show ?thesis using parseTokens_grows[OF f1(1)] by (auto simp: grows_parseFailInPlace)
  qed
  with scan show thesis by (rule that)
qed

lemma inOrder_bound:
  assumes "inOrder good start stop joined lo hi xs" "\<And>x. good x \<Longrightarrow> stop x \<le> hi'"
  shows "inOrder good start stop joined lo hi' xs"
  using assms by (auto simp: inOrder_def)

lemma importOk_stop: "importOk toks d \<Longrightarrow> imp_EndTok d \<le> int (length toks)"
  using kindIs_range[of toks "imp_PathTok d" TokenString] by (auto simp: importOk_def)

lemma topOk_stop: "topOk toks d \<Longrightarrow> td_EndTok d \<le> int (length toks)"
  using live_range[of toks "td_EndTok d - 1"] by (auto simp: topOk_def declOk_def)

lemma functionOk_stop: "functionOk toks d \<Longrightarrow> fd_EndTok d \<le> int (length toks)"
  by (simp add: functionOk_def funcOk_def)

text \<open>What the parser promises of a file, accepted or not.\<close>

definition fileOk :: "SynFile \<Rightarrow> bool" where
  "fileOk f =
     (importsIn (sf_Tokens f) 2 (int (length (sf_Tokens f))) (sf_Imports f)
      \<and> declsIn (sf_Tokens f) 2 (int (length (sf_Tokens f))) (sf_Decls f)
      \<and> funcsIn (sf_Tokens f) 2 (int (length (sf_Tokens f))) (sf_Funcs f)
      \<and> (\<forall>l \<in> set (TypeParameterLists f). typeParamsOk (sf_Tokens f) l))"

lemma grows_fileOk:
  assumes "grows 2 0 False (newFile src toks candidates) f"
  shows "sf_Src f = src \<and> sf_Tokens f = toks \<and> fileOk f"
proof -
  obtain hi where "extends 2 hi (newFile src toks candidates) f" using assms by (auto simp: grows_def)
  then have f: "sf_Src f = src" "sf_Tokens f = toks" "\<forall>l \<in> set (TypeParameterLists f). typeParamsOk toks l"
    "importsIn toks 2 hi (sf_Imports f)" "declsIn toks 2 hi (sf_Decls f)" "funcsIn toks 2 hi (sf_Funcs f)"
    by (auto simp: extends_def newFile_def listed_def TypeParameterLists_def)
  show ?thesis
    unfolding fileOk_def f(1,2)
    using f(3) inOrder_bound[OF f(4) importOk_stop] inOrder_bound[OF f(5) topOk_stop] inOrder_bound[OF f(6) functionOk_stop]
    by simp
qed

lemma parseFileMode_fileOk:
  assumes "parseFileMode h src linked = Some (f, lineStarts)"
  shows "\<exists>ok candidates. scanTokensMode h src linked = Some (sf_Tokens f, ok, candidates) \<and> sf_Src f = src \<and> fileOk f"
  using assms by (rule parseFileMode_grows) (use grows_fileOk in blast)

end
