(* ===== verification/Syn_Quote.thy ===== *)
theory Syn_Quote
  imports Syn_Tiling
begin

text \<open>
  \<open>AppendQuotedStringLiteral\<close> (\<open>internal/syntax/quoted_append.go\<close>) writes the canonical form of an
  interpreted string literal: what it writes is printable ASCII, and reading it back gives the value
  of the literal it was written from.
\<close>

subsection \<open>The canonical form of a byte\<close>

definition quotedByte :: "byte \<Rightarrow> bytes" where
  "quotedByte ch =
     (if ch = chr_quote \<or> ch = chr_backslash then [chr_backslash, ch]
      else if ch < 32 \<or> ch \<ge> 127 then
        [chr_backslash, chr_x, hexDigits ! nat (uint ch div 16), hexDigits ! nat (uint ch mod 16)]
      else [ch])"

definition quoted :: "gostring \<Rightarrow> bytes" where
  "quoted v = concat (map quotedByte v)"

lemma quoted_simps [simp]:
  "quoted [] = []" "quoted (c # v) = quotedByte c @ quoted v" "quoted (v @ w) = quoted v @ quoted w"
  by (simp_all add: quoted_def)

lemma hexDigits_length: "length hexDigits = 16"
  by (simp add: hexDigits_def ascii_def)

lemma byte_digits:
  "0 \<le> uint ch div 16" "uint ch div 16 < 16" "0 \<le> uint ch mod 16" "uint ch mod 16 < 16" for ch :: byte
proof -
  have "uint ch < 256" "0 \<le> uint ch" using uint_lt2p[of ch] by simp_all
  moreover have "0 \<le> x div 16 \<and> x div 16 < 16" if "x < 256" "0 \<le> x" for x :: int using that by presburger
  ultimately show "0 \<le> uint ch div 16" "uint ch div 16 < 16" by blast+
qed simp_all

lemma appendQuotedByte_quoted: "appendQuotedByte out ch = Some (out @ quotedByte ch)"
  using byte_digits[of ch] by (simp add: appendQuotedByte_def quotedByte_def at_def hexDigits_length)

lemma appendQuotedBytes_quoted: "appendQuotedBytes out bs = Some (out @ quoted bs)"
  by (induction bs arbitrary: out) (simp_all add: appendQuotedByte_quoted)

lemma hexDigits_bytes:
  "hexDigits = [48, 49, 50, 51, 52, 53, 54, 55, 56, 57, 97, 98, 99, 100, 101, 102]"
  by (simp add: hexDigits_def ascii_def)

definition digitRead :: "nat \<Rightarrow> byte \<Rightarrow> bool" where
  "digitRead d a =
     (hexDigitByte a \<and> uint (a AND 15) + (if a > chr_9 then 9 else 0) = int d \<and> 32 \<le> a \<and> a < 127)"

lemma digitRead_all: "d < 16 \<Longrightarrow> digitRead d (hexDigits ! d)"
proof -
  have "list_all2 digitRead [0, 1, 2, 3, 4, 5, 6, 7, 8, 9, 10, 11, 12, 13, 14, 15]
      [48, 49, 50, 51, 52, 53, 54, 55, 56, 57, 97, 98, 99, 100, 101, 102]"
    by (simp add: digitRead_def hexDigitByte_def)
  moreover have "[0, 1, 2, 3, 4, 5, 6, 7, 8, 9, 10, 11, 12, 13, 14, 15] = [0..<16]" by (simp add: upt_rec)
  ultimately have "list_all2 digitRead [0..<16] hexDigits" by (simp only: hexDigits_bytes)
  then show "d < 16 \<Longrightarrow> digitRead d (hexDigits ! d)"
    by (auto simp: list_all2_conv_all_nth)
qed

abbreviation (input) highDigit :: "byte \<Rightarrow> byte" where
  "highDigit ch \<equiv> hexDigits ! nat (uint ch div 16)"

abbreviation (input) lowDigit :: "byte \<Rightarrow> byte" where
  "lowDigit ch \<equiv> hexDigits ! nat (uint ch mod 16)"

lemma digits_read:
  "digitRead (nat (uint ch div 16)) (highDigit ch)" "digitRead (nat (uint ch mod 16)) (lowDigit ch)"
  using byte_digits[of ch] by (auto intro!: digitRead_all)

lemma escape_value:
  "(uint (highDigit ch AND 15) + (if highDigit ch > chr_9 then 9 else 0)) * 16
     + (uint (lowDigit ch AND 15) + (if lowDigit ch > chr_9 then 9 else 0)) = uint ch"
proof -
  note h = digits_read[of ch, unfolded digitRead_def, THEN conjunct2, THEN conjunct1]
  have "int (nat (uint ch div 16)) * 16 + int (nat (uint ch mod 16)) = uint ch"
    unfolding nat_0_le[OF byte_digits(1)] nat_0_le[OF byte_digits(3)] by (rule div_mult_mod_eq)
  then show ?thesis unfolding h .
qed

lemma quotedByte_ascii: "b \<in> set (quotedByte ch) \<Longrightarrow> 32 \<le> b \<and> b < 127"
proof -
  have "32 \<le> highDigit ch \<and> highDigit ch < 127" "32 \<le> lowDigit ch \<and> lowDigit ch < 127"
    using digits_read[of ch] unfolding digitRead_def by blast+
  moreover have "set (quotedByte ch) \<subseteq> (if 32 \<le> ch \<and> ch < 127 then {ch} else {}) \<union> {chr_backslash, chr_quote, chr_x, highDigit ch, lowDigit ch}"
    by (simp add: quotedByte_def linorder_not_le)
  moreover assume "b \<in> set (quotedByte ch)"
  ultimately show ?thesis by (auto split: if_splits)
qed

lemma quoted_ascii: "b \<in> set (quoted v) \<Longrightarrow> 32 \<le> b \<and> b < 127"
  using quotedByte_ascii by (auto simp: quoted_def)

subsection \<open>Reading it back\<close>

lemma literalLoop_quotedByte:
  assumes "0 \<le> i" "drop (nat i) src = quotedByte ch @ rest" "i + int (length (quotedByte ch)) \<le> stop"
    "stop \<le> int (length src)"
  shows "literalLoop src i stop out = literalLoop src (i + int (length (quotedByte ch))) stop (out @ [ch])"
proof -
  have at: "at src (i + int k) = Some (quotedByte ch ! k)" if "k < length (quotedByte ch)" for k
    using at_of_drop[OF assms(2,1) that] assms(1) by simp
  have ne: "0 < length (quotedByte ch)" by (simp add: quotedByte_def)
  have lt: "i < stop" using assms(3) ne by linarith
  consider (esc) "ch = chr_quote \<or> ch = chr_backslash" | (hex) "ch \<noteq> chr_quote" "ch \<noteq> chr_backslash" "ch < 32 \<or> ch \<ge> 127"
    | (plain) "ch \<noteq> chr_quote" "ch \<noteq> chr_backslash" "\<not> (ch < 32 \<or> ch \<ge> 127)" by blast
  then show ?thesis
  proof cases
    case esc
    then have q: "quotedByte ch = [chr_backslash, ch]" by (simp add: quotedByte_def)
    have e: "stringEscapeValue src i stop = Some (i + 2, uint ch, False, True)"
      using at[of 1] esc assms(1,3,4) q by (auto simp: stringEscapeValue_def simpleEscapes_def simp del: at_in_range)
    show ?thesis
      using at[of 0] e lt assms(3) q by (subst literalLoop.simps) (simp del: at_in_range)
  next
    case hex
    then have q: "quotedByte ch = [chr_backslash, chr_x, hexDigits ! nat (uint ch div 16), hexDigits ! nat (uint ch mod 16)]"
      by (simp add: quotedByte_def)
    have e: "stringEscapeValue src i stop = Some (i + 4, uint ch, False, True)"
      using at[of 1] at[of 2] at[of 3] digits_read[of ch] escape_value[of ch] assms(1,3,4) q
      by (simp add: stringEscapeValue_def digitRead_def Let_def del: at_in_range)
    show ?thesis
      using at[of 0] e lt assms(3) q by (subst literalLoop.simps) (simp del: at_in_range)
  next
    case plain
    then have q: "quotedByte ch = [ch]" by (simp add: quotedByte_def)
    show ?thesis using at[of 0] plain lt q by (subst literalLoop.simps) (simp del: at_in_range)
  qed
qed

lemma literalLoop_quoted:
  assumes "0 \<le> i" "drop (nat i) src = quoted v @ rest" "stop = i + int (length (quoted v))" "stop \<le> int (length src)"
  shows "literalLoop src i stop out = Some (out @ v, True)"
  using assms
proof (induction v arbitrary: i out)
  case Nil
  then show ?case by (simp add: literalLoop.simps)
next
  case (Cons c v)
  have "literalLoop src i stop out = literalLoop src (i + int (length (quotedByte c))) stop (out @ [c])"
    using Cons.prems by (intro literalLoop_quotedByte[of i src c "quoted v @ rest"]) auto
  also have "\<dots> = Some ((out @ [c]) @ v, True)"
  proof (rule Cons.IH)
    have "drop (nat (i + int (length (quotedByte c)))) src = drop (length (quotedByte c)) (drop (nat i) src)"
      using Cons.prems(1) by (simp add: nat_add_distrib add.commute)
    then show "drop (nat (i + int (length (quotedByte c)))) src = quoted v @ rest"
      using Cons.prems(2) by simp
  qed (use Cons.prems in auto)
  finally show ?case by simp
qed

subsection \<open>Writing\<close>

lemma escapeBytes_rune: "escapeBytes v unicode = (if unicode then encodeRune v else [word_of_int v])"
  by (simp add: escapeBytes_def appendStringRune_def)

lemma quoteLoop_literal:
  assumes "literalLoop src i stop acc = Some (v, ok)"
  shows "\<exists>w q. (ok \<longrightarrow> v = acc @ w \<and> q = out @ quoted w @ [chr_quote]) \<and> quoteLoop out src i stop = Some (q, ok)"
  using assms
proof (induction "nat (stop - i)" arbitrary: i acc out rule: less_induct)
  case less
  note lit = less.prems[unfolded literalLoop.simps[of src i]]
  show ?case
  proof (cases "i < stop")
    case False
    then show ?thesis using lit by (auto simp: quoteLoop.simps[of _ src i])
  next
    case lt: True
    note lit = lit[unfolded if_P[OF lt]]
    then obtain c where c: "at src i = Some c" by (cases "at src i") auto
    note lit = lit[unfolded c Option.bind.simps]
    note quote = if_P[OF lt] c Option.bind.simps
    show ?thesis
    proof (cases "c \<noteq> chr_backslash")
      case True
      note lit = lit[unfolded if_P[OF True]]
      from less.hyps[OF _ lit, of "out @ quotedByte c"] lt
      obtain w q where w: "ok \<longrightarrow> v = (acc @ [c]) @ w \<and> q = (out @ quotedByte c) @ quoted w @ [chr_quote]"
        "quoteLoop (out @ quotedByte c) src (i + 1) stop = Some (q, ok)" by auto
      then have "quoteLoop out src i stop = Some (q, ok)"
        unfolding quoteLoop.simps[of out src i] quote if_P[OF True] appendQuotedByte_quoted by simp
      moreover have "ok \<longrightarrow> v = acc @ (c # w) \<and> q = out @ quoted (c # w) @ [chr_quote]" using w(1) by simp
      ultimately show ?thesis by blast
    next
      case esc: False
      note lit = lit[unfolded if_not_P[OF esc]]
      show ?thesis
      proof (cases "i + 1 \<ge> stop")
        case True
        then have "\<not> ok" using lit by simp
        moreover have "stringEscapeValue src i stop = Some noEscape" using True by (simp add: stringEscapeValue_def)
        then have "quoteLoop out src i stop = Some (out, False)"
          unfolding quoteLoop.simps[of out src i] quote if_not_P[OF esc] by (simp add: noEscape_def)
        ultimately show ?thesis by auto
      next
        case False
        note lit = lit[unfolded if_not_P[OF False]]
        then obtain n x u ok' where e: "stringEscapeValue src i stop = Some (n, x, u, ok')"
          by (cases "stringEscapeValue src i stop") auto
        note lit = lit[unfolded e Option.bind.simps prod.case]
        show ?thesis
        proof (cases ok')
          case bad: False
          then have "\<not> ok" using lit by simp
          moreover have "quoteLoop out src i stop = Some (out, False)"
            unfolding quoteLoop.simps[of out src i] quote if_not_P[OF esc] e using bad by simp
          ultimately show ?thesis by auto
        next
          case good: True
          let ?b = "escapeBytes x u"
          have lit: "literalLoop src n stop (acc @ ?b) = Some (v, ok)"
            using lit good by (simp add: escapeBytes_rune appendStringRune_out[of acc] split: if_splits)
          have n: "i < n" using stringEscapeValue_next[of src i stop n x u] e good by simp
          from less.hyps[OF _ lit, of "out @ quoted ?b"] lt n
          obtain w q where w: "ok \<longrightarrow> v = (acc @ ?b) @ w \<and> q = (out @ quoted ?b) @ quoted w @ [chr_quote]"
            "quoteLoop (out @ quoted ?b) src n stop = Some (q, ok)" by auto
          then have "quoteLoop out src i stop = Some (q, ok)"
            unfolding quoteLoop.simps[of out src i] quote if_not_P[OF esc] e using good
            by (simp add: appendQuotedBytes_quoted)
          moreover have "ok \<longrightarrow> v = acc @ (?b @ w) \<and> q = out @ quoted (?b @ w) @ [chr_quote]" using w(1) by simp
          ultimately show ?thesis by blast
        qed
      qed
    qed
  qed
qed

text \<open>The canonical literal of a value.\<close>

definition quotedLiteral :: "gostring \<Rightarrow> bytes" where
  "quotedLiteral v = [chr_quote] @ quoted v @ [chr_quote]"

lemma quotedLiteral_ascii: "b \<in> set (quotedLiteral v) \<Longrightarrow> 32 \<le> b \<and> b < 127"
  using quoted_ascii by (auto simp: quotedLiteral_def)

lemma StringLiteralValue_quotedLiteral:
  assumes "int (length (quotedLiteral v)) < 2 ^ 31"
  shows "StringLiteralValue (quotedLiteral v) (MakeSynToken TokenString 0 (int (length (quotedLiteral v))) line)
    = Some (v, True)"
proof -
  let ?t = "quotedLiteral v"
  have len: "length ?t = length (quoted v) + 2" by (simp add: quotedLiteral_def)
  have f: "kindOf (MakeSynToken TokenString 0 (int (length ?t)) line) = TokenString"
    "st_Start (MakeSynToken TokenString 0 (int (length ?t)) line) = 0"
    "st_End (MakeSynToken TokenString 0 (int (length ?t)) line) = int (length ?t)"
    using MakeSynToken_fields[of TokenString 0 "int (length ?t)" line] assms by (simp_all add: toInt32_id)
  have a: "at ?t 0 = Some chr_quote" by (simp add: at_def quotedLiteral_def)
  have b: "at ?t (int (length ?t) - 1) = Some chr_quote" unfolding len by (simp add: at_def quotedLiteral_def nat_add_distrib nth_append)
  have l: "literalLoop ?t 1 (int (length ?t) - 1) [] = Some (v, True)"
    using literalLoop_quoted[of 1 ?t v "[chr_quote]" "int (length ?t) - 1" "[]"] len by (simp add: quotedLiteral_def)
  show ?thesis
    using a b l len unfolding StringLiteralValue_def Let_def f by (simp del: at_in_range)
qed

lemma AppendQuotedStringLiteral_value:
  assumes "StringLiteralValue src tok = Some (v, ok)" "at src (st_Start tok) = Some chr_quote"
  shows "if ok then AppendQuotedStringLiteral out src tok = Some (out @ quotedLiteral v, True)
    else \<exists>q. AppendQuotedStringLiteral out src tok = Some (q, False)"
proof -
  let ?s = "st_Start tok" and ?e = "st_End tok"
  let ?bad = "kindOf tok \<noteq> TokenString \<or> ?s < 0 \<or> ?e - ?s < 2 \<or> ?e > int (length src)"
  note body = assms(1)[unfolded StringLiteralValue_def Let_def]
  show ?thesis
  proof (cases ?bad)
    case True
    then have "\<not> ok" using body by auto
    moreover have "AppendQuotedStringLiteral out src tok = Some (out, False)"
      using True unfolding AppendQuotedStringLiteral_def Let_def by auto
    ultimately show ?thesis by simp
  next
    case ok: False
    note body = body[unfolded if_not_P[OF ok] assms(2) Option.bind.simps]
    then obtain f where f: "at src (?e - 1) = Some f" by (cases "at src (?e - 1)") auto
    note body = body[unfolded f Option.bind.simps]
    show ?thesis
    proof (cases "f = chr_quote")
      case False
      then have "\<not> ok" using body by simp
      moreover have "AppendQuotedStringLiteral out src tok = Some (out, False)"
        using False f unfolding AppendQuotedStringLiteral_def Let_def by simp
      ultimately show ?thesis by simp
    next
      case True
      then have lit: "literalLoop src (?s + 1) (?e - 1) [] = Some (v, ok)" using body by simp
      have app: "AppendQuotedStringLiteral out src tok = quoteLoop (out @ [chr_quote]) src (?s + 1) (?e - 1)"
        using ok assms(2) f True unfolding AppendQuotedStringLiteral_def Let_def by simp
      obtain w q where w: "ok \<longrightarrow> v = [] @ w \<and> q = (out @ [chr_quote]) @ quoted w @ [chr_quote]"
        "quoteLoop (out @ [chr_quote]) src (?s + 1) (?e - 1) = Some (q, ok)"
        using quoteLoop_literal[OF lit, of "out @ [chr_quote]"] by blast
      show ?thesis
      proof (cases ok)
        case True
        then show ?thesis unfolding app w(2) using w(1) by (simp add: quotedLiteral_def)
      next
        case False
        then show ?thesis unfolding app w(2) by simp
      qed
    qed
  qed
qed

end
