(* ===== verification/Syn_Properties.thy ===== *)
theory Syn_Properties
  imports Syn_Quote
begin

text \<open>The properties of the scanner and of literals, with small sources as concrete inputs.\<close>

subsection \<open>Concrete inputs\<close>

text \<open>\<open>// a\<close>, a newline, \<open>x := 10 << "\x41"\<close>, a newline.\<close>

definition sampleSource :: bytes where
  "sampleSource =
     ascii ''// a'' @ [chr_newline] @ ascii ''x := 10 << '' @ [chr_quote, chr_backslash] @ ascii ''x41'' @ [chr_quote, chr_newline]"

definition smallHost :: host where
  "smallHost = \<lparr>h_wide = True, h_big = False, h_addr = 0\<rparr>"

lemma sample_length: "int (length sampleSource) < 2 ^ 31"
  by (simp add: sampleSource_def ascii_def)

subsection \<open>The scanner\<close>

text \<open>C32. The encoding check accepts exactly the byte strings that are the UTF-8 encoding of a sequence
  of Unicode scalar values other than NUL, with a byte order mark at most at the front, whatever the
  word size, byte order and address that choose its path.\<close>

theorem validSourceEncoding_utf8: "validSourceEncoding h src = Some (sourceText src)"
  by (rule validSourceEncoding_source)

text \<open>C31. The scanner returns on every input: no index is out of range, the loops end, and
  the answer does not depend on the host.\<close>

theorem scanTokensMode_returns: "\<exists>r. \<forall>h. scanTokensMode h src linked = Some r"
proof -
  obtain r where "scanTokensMode smallHost src linked = Some r"
    using scanTokensMode_total[of smallHost src linked] by (auto simp: returns_def)
  then show ?thesis using scanTokensMode_host by metis
qed

text \<open>C30. What the scanner answers on a source of less than \<open>2 ^ 31\<close> bytes.  A source that is not Unicode
  text is refused without a token.  Otherwise the tokens stand in order: every token is a lexeme of its
  kind (an identifier that is not a keyword, the keyword it names, a valid number of at most 10000
  bytes, a string or rune literal that has a value, the longest operator at its place), what stands
  between two tokens is white space and comments, every token carries the line it starts on modulo
  65536, and an EOF token comes last; when the scan is accepted nothing but white space and comments
  follows the last token.\<close>

theorem scanTokensMode_tokens:
  assumes "int (length src) < 2 ^ 31"
  shows "\<exists>toks ok candidates. scanTokensMode h src linked = Some (toks, ok, candidates)
    \<and> (if sourceText src then scanned ok src toks else toks = [] \<and> \<not> ok)"
proof -
  obtain toks ok candidates where r: "scanTokensMode h src linked = Some (toks, ok, candidates)"
    using scanTokensMode_total[of h src linked] by (auto simp: returns_def)
  then show ?thesis using scanTokensMode_scanned[OF assms r] by blast
qed

theorem scanTokensMode_tokens_witness:
  "int (length sampleSource) < 2 ^ 31
    \<and> (\<exists>toks ok candidates. scanTokensMode smallHost sampleSource False = Some (toks, ok, candidates)
      \<and> (if sourceText sampleSource then scanned ok sampleSource toks else toks = [] \<and> \<not> ok))"
  using sample_length scanTokensMode_tokens[OF sample_length] by blast

text \<open>The tokens of the sample, with their kinds, places and lines.\<close>

lemma sample_scanned:
  "scanTokensMode smallHost sampleSource False =
    Some ([MakeSynToken TokenIdent 5 6 2, MakeSynToken TokenOperator 7 9 2, MakeSynToken TokenNumber 10 12 2,
      MakeSynToken TokenOperator 13 15 2, MakeSynToken TokenString 16 22 2, MakeSynToken TokenEOF 23 23 3], True, False)"
  by code_simp

text \<open>C33. A source accepted outside the linked mode is short enough that the line of every token, the EOF
  token included, is exact: one more than the number of newlines before the token.\<close>

theorem scanTokensMode_exact_lines:
  assumes "int (length src) < 2 ^ 31" "scanTokensMode h src False = Some (toks, True, candidates)" "tok \<in> set toks"
  shows "TokenLine tok = 1 + newlines (textAt src 0 (st_Start tok))"
  using assms by (rule scanTokensMode_lines)

theorem scanTokensMode_exact_lines_witness:
  "TokenLine (MakeSynToken TokenString 16 22 2)
    = 1 + newlines (textAt sampleSource 0 (st_Start (MakeSynToken TokenString 16 22 2)))"
  using scanTokensMode_exact_lines[OF sample_length sample_scanned] by simp

subsection \<open>Keywords and identifiers\<close>

text \<open>C34. The keyword tests by first and last byte and length recognise exactly the 25 keywords of Go.\<close>

theorem keywordKind_keywords:
  assumes "0 \<le> start" "start < stop" "stop \<le> int (length src)" "at src start = Some c"
  shows "keywordKind src start stop c = Some (keywordOf (textAt src start stop))"
  using keywordKind_exact[OF assms(1-3)] at_byte[OF assms(4)] by simp

theorem keywordKind_keywords_witness:
  "keywordKind (ascii ''fallthrough'') 0 11 102 = Some (keywordOf (textAt (ascii ''fallthrough'') 0 11))
    \<and> keywordOf (ascii ''fallthrough'') = TokenFallthrough"
proof -
  have "at (ascii ''fallthrough'') 0 = Some 102" "length (ascii ''fallthrough'') = 11"
    by (simp_all add: at_def ascii_def)
  moreover have "keywordOf (ascii ''fallthrough'') = TokenFallthrough" by code_simp
  ultimately show ?thesis using keywordKind_keywords[of 0 11 "ascii ''fallthrough''" 102] by simp
qed

text \<open>C35. On each of the packed tables of Unicode letters, digits and upper-case letters of the repository the binary search
  over 12-byte rows decides membership in the union of the ranges, strides included, for every value.\<close>

theorem unicodeRangeContains_member:
  assumes "ranges \<in> {unicodeLetterRanges, unicodeDigitRanges, unicodeUpperRanges}"
  shows "unicodeRangeContains ranges v = Some (\<exists>r \<in> set (decodeRanges ranges). inRange v r)"
  using assms rangeTable_tables by (auto intro: unicodeRangeContains_table)

theorem unicodeRangeContains_member_witness:
  "unicodeRangeContains unicodeDigitRanges 0x664 = Some (\<exists>r \<in> set (decodeRanges unicodeDigitRanges). inRange 0x664 r)"
  using unicodeRangeContains_member[of unicodeDigitRanges "0x664"] by simp

text \<open>C36. The reader of one rune inverts the writer of one rune, anywhere in a source.\<close>

theorem identifierRune_appendStringRune:
  assumes "scalar v"
  shows "identifierRune (appendStringRune before v @ rest) (int (length before))
    = Some (v, int (length (appendStringRune before v)) - int (length before))"
  using identifierRune_encodeRune[OF _ _ assms, of "int (length before)" "appendStringRune before v @ rest" rest]
  by (simp add: appendStringRune_out[of before])

theorem identifierRune_appendStringRune_witness:
  "scalar 0x20ac \<and> identifierRune (appendStringRune [0x24] 0x20ac @ [0x0a]) (int (length [0x24 :: byte]))
    = Some (0x20ac, int (length (appendStringRune [0x24] 0x20ac)) - int (length [0x24 :: byte]))"
  using identifierRune_appendStringRune[of "0x20ac" "[0x24]" "[0x0a]"] by (simp add: scalar_def)

subsection \<open>Literals\<close>

text \<open>C37. Every interpreted literal that has a value is rewritten as the canonical literal of that value,
  behind what is already written; a literal without a value is refused.\<close>

theorem AppendQuotedStringLiteral_canonical:
  assumes "StringLiteralValue src tok = Some (v, ok)" "at src (st_Start tok) = Some chr_quote"
  shows "if ok then AppendQuotedStringLiteral out src tok = Some (out @ quotedLiteral v, True)
    else \<exists>q. AppendQuotedStringLiteral out src tok = Some (q, False)"
  using assms by (rule AppendQuotedStringLiteral_value)

theorem AppendQuotedStringLiteral_canonical_witness:
  "AppendQuotedStringLiteral [] sampleSource (MakeSynToken TokenString 16 22 2) = Some ([] @ quotedLiteral [0x41], True)"
proof -
  have "StringLiteralValue sampleSource (MakeSynToken TokenString 16 22 2) = Some ([0x41], True)" by code_simp
  moreover have "at sampleSource (st_Start (MakeSynToken TokenString 16 22 2)) = Some chr_quote" by code_simp
  ultimately show ?thesis
    using AppendQuotedStringLiteral_canonical[of sampleSource "MakeSynToken TokenString 16 22 2" "[0x41]" True "[]"] by simp
qed

text \<open>C38. The canonical literal of any value is printable ASCII and has that value again.\<close>

theorem quotedLiteral_roundtrip:
  assumes "int (length (quotedLiteral v)) < 2 ^ 31"
  shows "StringLiteralValue (quotedLiteral v) (MakeSynToken TokenString 0 (int (length (quotedLiteral v))) line)
      = Some (v, True)
    \<and> (\<forall>b \<in> set (quotedLiteral v). 32 \<le> b \<and> b < 127)"
  using StringLiteralValue_quotedLiteral[OF assms] quotedLiteral_ascii by blast

theorem quotedLiteral_roundtrip_witness:
  "int (length (quotedLiteral [0, 0x22, 0xff])) < 2 ^ 31
    \<and> StringLiteralValue (quotedLiteral [0, 0x22, 0xff])
        (MakeSynToken TokenString 0 (int (length (quotedLiteral [0, 0x22, 0xff]))) 1) = Some ([0, 0x22, 0xff], True)"
proof -
  have "int (length (quotedLiteral [0, 0x22, 0xff])) < 2 ^ 31" by code_simp
  then show ?thesis using quotedLiteral_roundtrip[of "[0, 0x22, 0xff]" 1] by blast
qed

text \<open>C39. The value of a raw string literal is every byte between its back quotes, carriage returns
  included.\<close>

theorem StringLiteralValue_raw:
  assumes "int (length body) + 2 < 2 ^ 31"
  shows "StringLiteralValue ([chr_backquote] @ body @ [chr_backquote])
      (MakeSynToken TokenString 0 (int (length body) + 2) line) = Some (body, True)"
proof -
  let ?s = "[chr_backquote] @ body @ [chr_backquote]"
  note f = MakeSynToken_fields[of TokenString 0 "int (length body) + 2" line]
  have "st_Start (MakeSynToken TokenString 0 (int (length body) + 2) line) = 0"
    "st_End (MakeSynToken TokenString 0 (int (length body) + 2) line) = int (length body) + 2"
    using f assms by (simp_all add: toInt32_id)
  moreover have "at ?s 0 = Some chr_backquote" "at ?s (int (length body) + 1) = Some chr_backquote"
    by (simp_all add: at_def nat_add_distrib nth_append)
  moreover have "slice ?s 1 (int (length body) + 1) = Some body"
    by (simp add: slice_def nat_add_distrib)
  ultimately show ?thesis
    using f(1) unfolding StringLiteralValue_def Let_def by (simp add: add.commute del: at_in_range)
qed

theorem StringLiteralValue_raw_witness:
  "StringLiteralValue ([chr_backquote] @ [chr_return, chr_newline] @ [chr_backquote])
      (MakeSynToken TokenString 0 (int (length [chr_return, chr_newline :: byte]) + 2) 1)
    = Some ([chr_return, chr_newline], True)"
  by (rule StringLiteralValue_raw) simp

end
