(* ===== verification/Syn_Parse_Properties.thy ===== *)
theory Syn_Parse_Properties
  imports Syn_Spans Syn_Properties
begin

text \<open>The properties of the declaration parser, with small files as concrete inputs.\<close>

subsection \<open>Concrete inputs\<close>

text \<open>A file with an import, a group of constants, a generic type and a method.\<close>

definition parseSample :: bytes where
  "parseSample =
     ascii ''package p;import q '' @ [chr_quote] @ ascii ''r'' @ [chr_quote, chr_newline]
       @ ascii ''const(a,b=1,2;c=3)'' @ [chr_newline] @ ascii ''type T[K any]struct{k K}'' @ [chr_newline]
       @ ascii ''func(t T)m()K{}''"

text \<open>\<open>package p\<close>, \<open>func A()\<close>, \<open>func (t T) B() {}\<close> on three lines.\<close>

definition bodylessSample :: bytes where
  "bodylessSample = ascii ''package p'' @ [chr_newline] @ ascii ''func A()'' @ [chr_newline] @ ascii ''func (t T) B() {}''"

lemma parseSample_length: "int (length parseSample) < 2 ^ 31"
  by (simp add: parseSample_def ascii_def)

text \<open>The names and spans recorded for the sample, in token positions.\<close>

lemma parseSample_file:
  "map_option (\<lambda>f. (sf_Ok f, sf_Imports f, sf_Decls f, sf_Funcs f)) (ParseFile smallHost parseSample) =
    Some (True, [\<lparr>imp_NameTok = 4, imp_PathTok = 5, imp_StartTok = 4, imp_EndTok = 6\<rparr>],
      [\<lparr>td_Kind = TokenConst, td_NameTok = 8, td_StartTok = 8, td_EndTok = 15\<rparr>,
       \<lparr>td_Kind = TokenConst, td_NameTok = 10, td_StartTok = 8, td_EndTok = 15\<rparr>,
       \<lparr>td_Kind = TokenConst, td_NameTok = 16, td_StartTok = 16, td_EndTok = 19\<rparr>,
       \<lparr>td_Kind = TokenType, td_NameTok = 21, td_StartTok = 21, td_EndTok = 31\<rparr>],
      [\<lparr>fd_NameTok = 36, fd_StartTok = 31, fd_EndTok = 42, fd_ReceiverStart = 33, fd_ReceiverEnd = 35,
        fd_ParamsStart = 37, fd_ParamsEnd = 39, fd_ResultStart = 39, fd_ResultEnd = 40, fd_BodyStart = 40,
        fd_BodyEnd = 42\<rparr>])"
  by code_simp

subsection \<open>The declaration parser\<close>

text \<open>The declaration parser answers on every source of less than \<open>2 ^ 31\<close> bytes: no index is out of
  range and every loop ends, on refused and broken sources too.\<close>

lemma parseFileMode_returns:
  assumes "int (length src) < 2 ^ 31"
  shows "\<exists>f lineStarts. parseFileMode h src linked = Some (f, lineStarts)"
  using parseFileMode_total[OF assms, of h linked] by (auto simp: returns_def)

text \<open>In the linked mode the parser takes the lines from the source: the line of a token is one more
  than the number of newlines before it, beyond the 65535 lines a token can carry too.\<close>

lemma TokenLineAt_physical_lines:
  assumes "int (length src) < 2 ^ 31" "parseFileMode h src True = Some (f, lineStarts)" "sf_Error f \<noteq> ParseErrScan"
    and "at (sf_Tokens f) i = Some tok"
  shows "TokenLineAt (sf_Tokens f) i lineStarts = Some (1 + newlines (textAt src 0 (st_Start tok)))"
proof -
  obtain toks ok candidates where scan: "scanTokensMode h src True = Some (toks, ok, candidates)"
    "grows 2 0 False (newFile src toks candidates) f" using assms(2) by (rule parseFileMode_grows)
  have toks: "sf_Tokens f = toks" using grows_fileOk[OF scan(2)] by simp
  have ok using assms(2,3) scan(1) by (auto simp: parseFileMode_def parseFailInPlace_def Let_def split: if_splits)
  then have lines: "lineStarts = lineStartsOf src" and ends: "tokensOk src toks"
    using assms(1,2) scan(1) scanTokensMode_scanned[OF assms(1) scan(1)] scanned_tokensOk
    by (auto simp: parseFileMode_def bind_eq_Some_conv Let_def split: if_splits)
  show ?thesis
    unfolding lines by (rule TokenLineAt_physical[OF assms(4)]) (use tokensOk_at[OF ends assms(4)[unfolded toks]] in linarith)+
qed

text \<open>C40. What the declaration parser answers on every source of less than \<open>2 ^ 31\<close> bytes.  It returns: no
  index is out of range and every loop ends.  The file it returns, accepted or not, has the tokens of the
  scanner.  Every import has a string token for its path and an identifier or \<open>.\<close> for its name, or no name;
  every constant, variable and type has an identifier inside its span of tokens; every function begins
  with \<open>func\<close>, an optional receiver in matching parentheses and an identifier, then come type parameters
  in matching brackets (only without a receiver) or none, parameters in matching parentheses, the
  results, and a body in matching braces or none; every type parameter list stands in matching
  brackets behind its name, each parameter with a constraint behind it.  Brackets match when counting
  them cancels there and not before.  All spans lie behind the package clause and
  inside the tokens, and those of one list follow one another without overlap, except that the names of
  one specification share its span and ascend.  In the linked mode, unless the scanner refused the
  source, the line of every token is one more than the number of newlines before it, beyond the 65535
  lines a token can carry too.\<close>

theorem parseFileMode_spans:
  assumes "int (length src) < 2 ^ 31"
  shows "\<exists>f lineStarts. parseFileMode h src linked = Some (f, lineStarts)
    \<and> sf_Src f = src \<and> (\<exists>ok candidates. scanTokensMode h src linked = Some (sf_Tokens f, ok, candidates))
    \<and> importsIn (sf_Tokens f) 2 (int (length (sf_Tokens f))) (sf_Imports f)
    \<and> declsIn (sf_Tokens f) 2 (int (length (sf_Tokens f))) (sf_Decls f)
    \<and> funcsIn (sf_Tokens f) 2 (int (length (sf_Tokens f))) (sf_Funcs f)
    \<and> (\<forall>l \<in> set (TypeParameterLists f). typeParamsOk (sf_Tokens f) l)
    \<and> (linked \<and> sf_Error f \<noteq> ParseErrScan \<longrightarrow>
        (\<forall>i tok. at (sf_Tokens f) i = Some tok \<longrightarrow>
           TokenLineAt (sf_Tokens f) i lineStarts = Some (1 + newlines (textAt src 0 (st_Start tok)))))"
proof -
  obtain f lineStarts where f: "parseFileMode h src linked = Some (f, lineStarts)"
    using parseFileMode_returns[OF assms] by blast
  then have "linked \<and> sf_Error f \<noteq> ParseErrScan \<longrightarrow> (\<forall>i tok. at (sf_Tokens f) i = Some tok \<longrightarrow>
      TokenLineAt (sf_Tokens f) i lineStarts = Some (1 + newlines (textAt src 0 (st_Start tok))))"
    using TokenLineAt_physical_lines[OF assms] by auto
  then show ?thesis using f parseFileMode_fileOk[OF f] unfolding fileOk_def by blast
qed

theorem parseFileMode_spans_witness:
  "\<exists>f lineStarts. parseFileMode smallHost parseSample True = Some (f, lineStarts) \<and> length (sf_Decls f) = 4
    \<and> declsIn (sf_Tokens f) 2 (int (length (sf_Tokens f))) (sf_Decls f)
    \<and> (\<exists>tok. at (sf_Tokens f) 31 = Some tok
        \<and> TokenLineAt (sf_Tokens f) 31 lineStarts = Some (1 + newlines (textAt parseSample 0 (st_Start tok))))"
proof -
  have "case parseFileMode smallHost parseSample True of None \<Rightarrow> False
    | Some (f, lineStarts) \<Rightarrow> sf_Error f \<noteq> ParseErrScan \<and> length (sf_Decls f) = 4 \<and> at (sf_Tokens f) 31 \<noteq> None" by code_simp
  then obtain f lineStarts tok where "parseFileMode smallHost parseSample True = Some (f, lineStarts)"
    "sf_Error f \<noteq> ParseErrScan" "length (sf_Decls f) = 4" "at (sf_Tokens f) 31 = Some tok" by (auto split: option.splits)
  then show ?thesis using parseFileMode_spans[OF parseSample_length, of smallHost True] by auto
qed

text \<open>A source of at most 65535 lines is parsed to the same file for a generated, linked source as for a
  physical one.\<close>

lemma ParseLinkedFile_same:
  assumes "int (length src) < 2 ^ 31" "1 + newlines src \<le> TokenLineLimit"
  shows "map_option fst (ParseLinkedFile h src) = ParseFile h src"
proof -
  have "ParseFile h src = map_option fst (parseFileMode h src False)"
    unfolding ParseFile_def by (cases "parseFileMode h src False") auto
  then show ?thesis using parseFileMode_modes[OF assms] by (simp add: ParseLinkedFile_def)
qed

text \<open>A function without a body that is followed by a method is not ended at the method: the file is
  accepted with one function, whose results span the header of the method, its \<open>func\<close> at
  token 6, and whose body is the method's.\<close>

lemma ParseFile_bodyless_method:
  "map_option (\<lambda>f. (sf_Ok f, kindIs (sf_Tokens f) 6 TokenFunc, sf_Funcs f)) (ParseFile smallHost bodylessSample) =
    Some (True, True, [\<lparr>fd_NameTok = 3, fd_StartTok = 2, fd_EndTok = 16, fd_ReceiverStart = - 1, fd_ReceiverEnd = - 1,
      fd_ParamsStart = 4, fd_ParamsEnd = 6, fd_ResultStart = 6, fd_ResultEnd = 14, fd_BodyStart = 14, fd_BodyEnd = 16\<rparr>])"
  by code_simp

end
