(* ===== verification/VM_Image.thy ===== *)
theory VM_Image
  imports Renvo_Prelude
begin

text \<open>
  The bytecode image of \<open>std/vm/vm.go\<close>: opcodes, the header and routine table read by
  \<open>decodeImage\<close>, the checksum, the instruction length table \<open>nextInstruction\<close>, the operand and
  code validators, and the binary search \<open>findRoutine\<close>.  A definition of type \<open>_ option\<close> answers
  \<^const>\<open>None\<close> where the Go code panics; \<open>decodeImage\<close> therefore answers an \<open>image option option\<close>,
  whose inner \<^const>\<open>None\<close> is \<open>ok = false\<close>.
\<close>

subsection \<open>Constants\<close>

abbreviation (input) headerSize :: int where "headerSize \<equiv> 40"
abbreviation (input) routineSize :: int where "routineSize \<equiv> 12"
abbreviation (input) routineFramed :: int where "routineFramed \<equiv> 1"
abbreviation (input) vmVersion :: int where "vmVersion \<equiv> 1"
abbreviation (input) minAddress :: int where "minAddress \<equiv> 256"
abbreviation (input) regCount :: int where "regCount \<equiv> 8"

abbreviation (input) opExit :: int where "opExit \<equiv> 1"
abbreviation (input) opBuildArgsEnv :: int where "opBuildArgsEnv \<equiv> 2"
abbreviation (input) opMovRegImm :: int where "opMovRegImm \<equiv> 3"
abbreviation (input) opMovRegReg :: int where "opMovRegReg \<equiv> 4"
abbreviation (input) opPushReg :: int where "opPushReg \<equiv> 5"
abbreviation (input) opPushImm :: int where "opPushImm \<equiv> 6"
abbreviation (input) opPopReg :: int where "opPopReg \<equiv> 7"
abbreviation (input) opLoadStack :: int where "opLoadStack \<equiv> 8"
abbreviation (input) opStoreStack :: int where "opStoreStack \<equiv> 9"
abbreviation (input) opLeaStack :: int where "opLeaStack \<equiv> 10"
abbreviation (input) opLoadMem :: int where "opLoadMem \<equiv> 11"
abbreviation (input) opStoreMem :: int where "opStoreMem \<equiv> 12"
abbreviation (input) opLoadIndex :: int where "opLoadIndex \<equiv> 13"
abbreviation (input) opStoreIndex :: int where "opStoreIndex \<equiv> 14"
abbreviation (input) opAddRegReg :: int where "opAddRegReg \<equiv> 15"
abbreviation (input) opSubRegReg :: int where "opSubRegReg \<equiv> 16"
abbreviation (input) opMulRegReg :: int where "opMulRegReg \<equiv> 17"
abbreviation (input) opDivRegReg :: int where "opDivRegReg \<equiv> 18"
abbreviation (input) opModRegReg :: int where "opModRegReg \<equiv> 19"
abbreviation (input) opAndRegReg :: int where "opAndRegReg \<equiv> 20"
abbreviation (input) opOrRegReg :: int where "opOrRegReg \<equiv> 21"
abbreviation (input) opXorRegReg :: int where "opXorRegReg \<equiv> 22"
abbreviation (input) opAndNotRegReg :: int where "opAndNotRegReg \<equiv> 23"
abbreviation (input) opShlRegReg :: int where "opShlRegReg \<equiv> 24"
abbreviation (input) opShrRegReg :: int where "opShrRegReg \<equiv> 25"
abbreviation (input) opAddRegImm :: int where "opAddRegImm \<equiv> 26"
abbreviation (input) opMulRegImm :: int where "opMulRegImm \<equiv> 27"
abbreviation (input) opIncReg :: int where "opIncReg \<equiv> 28"
abbreviation (input) opIncMem :: int where "opIncMem \<equiv> 29"
abbreviation (input) opDecMem :: int where "opDecMem \<equiv> 30"
abbreviation (input) opBoolNot :: int where "opBoolNot \<equiv> 31"
abbreviation (input) opNegReg :: int where "opNegReg \<equiv> 32"
abbreviation (input) opCmpRegImm :: int where "opCmpRegImm \<equiv> 33"
abbreviation (input) opCmpRegReg :: int where "opCmpRegReg \<equiv> 34"
abbreviation (input) opSetCond :: int where "opSetCond \<equiv> 35"
abbreviation (input) opJmp :: int where "opJmp \<equiv> 36"
abbreviation (input) opJz :: int where "opJz \<equiv> 37"
abbreviation (input) opJnz :: int where "opJnz \<equiv> 38"
abbreviation (input) opJCond :: int where "opJCond \<equiv> 39"
abbreviation (input) opCall :: int where "opCall \<equiv> 40"
abbreviation (input) opRet :: int where "opRet \<equiv> 41"
abbreviation (input) opSyscall :: int where "opSyscall \<equiv> 42"
abbreviation (input) opNop :: int where "opNop \<equiv> 43"
abbreviation (input) opShrUnsignedRegReg :: int where "opShrUnsignedRegReg \<equiv> 44"
abbreviation (input) opBinaryRegImm :: int where "opBinaryRegImm \<equiv> 47"
abbreviation (input) opPushRegLoadStack :: int where "opPushRegLoadStack \<equiv> 48"
abbreviation (input) opLoadStackPushReg :: int where "opLoadStackPushReg \<equiv> 49"
abbreviation (input) opPushRegMovImm :: int where "opPushRegMovImm \<equiv> 50"
abbreviation (input) opLoadMemPushReg :: int where "opLoadMemPushReg \<equiv> 51"
abbreviation (input) opLoadStackPop :: int where "opLoadStackPop \<equiv> 52"
abbreviation (input) opMovRegImmPop :: int where "opMovRegImmPop \<equiv> 53"
abbreviation (input) opMovRegRegPop :: int where "opMovRegRegPop \<equiv> 54"

abbreviation (input) condEq :: int where "condEq \<equiv> 0"
abbreviation (input) condNe :: int where "condNe \<equiv> 1"
abbreviation (input) condLt :: int where "condLt \<equiv> 2"
abbreviation (input) condLe :: int where "condLe \<equiv> 3"
abbreviation (input) condGt :: int where "condGt \<equiv> 4"
abbreviation (input) condGe :: int where "condGe \<equiv> 5"

abbreviation (input) regRax :: int where "regRax \<equiv> 0"
abbreviation (input) regRdx :: int where "regRdx \<equiv> 1"
abbreviation (input) regRcx :: int where "regRcx \<equiv> 2"
abbreviation (input) regRdi :: int where "regRdi \<equiv> 3"
abbreviation (input) regRsi :: int where "regRsi \<equiv> 4"
abbreviation (input) regR8 :: int where "regR8 \<equiv> 5"
abbreviation (input) regR9 :: int where "regR9 \<equiv> 6"
abbreviation (input) regR10 :: int where "regR10 \<equiv> 7"

subsection \<open>Reading bytes\<close>

text \<open>\<open>int(data[i])\<close>.\<close>

definition byteAt :: "bytes \<Rightarrow> int \<Rightarrow> int option" where
  "byteAt data i = map_option uint (at data i)"

definition read16 :: "bytes \<Rightarrow> int \<Rightarrow> int option" where
  "read16 data i = do {
     lo \<leftarrow> byteAt data i;
     hi \<leftarrow> byteAt data (i + 1);
     Some (lo OR push_bit 8 hi) }"

definition read32 :: "bytes \<Rightarrow> int \<Rightarrow> int option" where
  "read32 data i = do {
     lo \<leftarrow> read16 data i;
     hi \<leftarrow> read16 data (i + 2);
     Some (lo OR push_bit 16 hi) }"

definition write32 :: "bytes \<Rightarrow> int \<Rightarrow> int \<Rightarrow> bytes option" where
  "write32 data i v = do {
     data \<leftarrow> put data i (word_of_int v);
     data \<leftarrow> put data (i + 1) (word_of_int (drop_bit 8 v));
     data \<leftarrow> put data (i + 2) (word_of_int (drop_bit 16 v));
     put data (i + 3) (word_of_int (drop_bit 24 v)) }"

fun checksumLoop :: "bytes \<Rightarrow> int \<Rightarrow> int \<Rightarrow> int \<times> int" where
  "checksumLoop [] a b = (a, b)"
| "checksumLoop (x # xs) a b =
     (let a = (a + uint x) mod 65521; b = (b + a) mod 65521 in checksumLoop xs a b)"

definition checksum :: "bytes \<Rightarrow> int" where
  "checksum data = (case checksumLoop data 1 0 of (a, b) \<Rightarrow> a OR push_bit 16 b)"

subsection \<open>Images\<close>

record routine =
  rt_pc :: int
  rt_frameSize :: int
  rt_framed :: bool

record image =
  img_code :: bytes
  img_data :: bytes
  img_dataBase :: int
  img_bssBase :: int
  img_bssSize :: int
  img_routines :: "routine list"

text \<open>The binary search over the routine table.\<close>

function findRoutineLoop :: "routine list \<Rightarrow> int \<Rightarrow> nat \<Rightarrow> nat \<Rightarrow> nat" where
  "findRoutineLoop routines pc lo hi =
     (if lo < hi then
        let mid = (lo + hi) div 2 in
        if rt_pc (routines ! mid) < pc then findRoutineLoop routines pc (mid + 1) hi
        else findRoutineLoop routines pc lo mid
      else lo)"
  by pat_completeness auto
termination
  by (relation "measure (\<lambda>(routines, pc, lo, hi). hi - lo)") auto

declare findRoutineLoop.simps [simp del]

definition findRoutine :: "routine list \<Rightarrow> int \<Rightarrow> int" where
  "findRoutine routines pc =
     (let lo = findRoutineLoop routines pc 0 (length routines) in
      if lo < length routines \<and> rt_pc (routines ! lo) = pc then int lo else -1)"

subsection \<open>Instructions\<close>

definition instructionSize :: "int \<Rightarrow> int" where
  "instructionSize op =
     (if op = opBinaryRegImm then 7
      else if op = opPushRegLoadStack \<or> op = opLoadStackPushReg \<or> op = opPushRegMovImm \<or>
              op = opLoadStackPop \<or> op = opMovRegImmPop then 7
      else if op = opLoadMemPushReg then 9
      else if op = opMovRegRegPop then 5
      else if op = opMovRegImm \<or> op = opLoadStack \<or> op = opStoreStack \<or> op = opLeaStack \<or>
              op = opAddRegImm \<or> op = opMulRegImm \<or> op = opCmpRegImm \<or> op = opJCond then 6
      else if op = opMovRegReg \<or> op \<ge> opAddRegReg \<and> op \<le> opShrRegReg \<or>
              op = opCmpRegReg \<or> op = opShrUnsignedRegReg then 3
      else if op = opPushReg \<or> op = opPopReg \<or> op = opIncReg \<or> op = opIncMem \<or>
              op = opDecMem \<or> op = opBoolNot \<or> op = opNegReg \<or> op = opSetCond then 2
      else if op = opPushImm \<or> op = opJmp \<or> op = opJz \<or> op = opJnz then 5
      else if op = opLoadMem \<or> op = opStoreMem then 8
      else if op = opLoadIndex \<or> op = opStoreIndex then 10
      else if op = opCall then 9
      else if op = opBuildArgsEnv then 13
      else 1)"

definition nextInstruction :: "bytes \<Rightarrow> int \<Rightarrow> int" where
  "nextInstruction code pc =
     (if pc < 0 \<or> pc \<ge> int (length code) then -1
      else pc + instructionSize (uint (code ! nat pc)))"

definition validSize :: "int \<Rightarrow> bool" where
  "validSize sz \<longleftrightarrow> sz \<ge> 1 \<and> sz \<le> 4"

definition validLoadSize :: "int \<Rightarrow> bool" where
  "validLoadSize sz \<longleftrightarrow> validSize sz \<or> sz = 66 \<or> sz = 129"

definition validImmediateBinaryOpcode :: "int \<Rightarrow> bool" where
  "validImmediateBinaryOpcode op \<longleftrightarrow>
     op \<ge> opAddRegReg \<and> op \<le> opMulRegReg \<or>
     op \<ge> opAndRegReg \<and> op \<le> opShrRegReg \<or> op = opShrUnsignedRegReg"

text \<open>\<open>a && b\<close> where both operands may panic.\<close>

definition andAlso :: "bool option \<Rightarrow> bool option \<Rightarrow> bool option" where
  "andAlso a b = (case a of None \<Rightarrow> None | Some False \<Rightarrow> Some False | Some True \<Rightarrow> b)"

text \<open>\<open>P (int(code[i]))\<close>.\<close>

definition operand :: "bytes \<Rightarrow> int \<Rightarrow> (int \<Rightarrow> bool) \<Rightarrow> bool option" where
  "operand code i P = map_option P (byteAt code i)"

definition register :: "bytes \<Rightarrow> int \<Rightarrow> bool option" where
  "register code i = operand code i (\<lambda>r. r < regCount)"

definition validOperands :: "bytes \<Rightarrow> int \<Rightarrow> bool option" where
  "validOperands code pc = do {
     op \<leftarrow> byteAt code pc;
     if op < opExit \<or> op > opShrUnsignedRegReg \<and> (op < opBinaryRegImm \<or> op > opMovRegRegPop) then Some False
     else if op = opBinaryRegImm then
       andAlso (register code (pc + 1)) (operand code (pc + 6) validImmediateBinaryOpcode)
     else if op = opPushRegLoadStack then
       andAlso (register code (pc + 1)) (register code (pc + 2))
     else if op = opLoadStackPushReg \<or> op = opLoadStackPop \<or> op = opMovRegImmPop then
       andAlso (register code (pc + 1)) (register code (pc + 6))
     else if op = opMovRegRegPop then
       andAlso (register code (pc + 1)) (andAlso (register code (pc + 2)) (register code (pc + 3)))
     else if op = opPushRegMovImm then
       andAlso (register code (pc + 1)) (register code (pc + 2))
     else if op = opLoadMemPushReg then
       andAlso (register code (pc + 1)) (andAlso (register code (pc + 2))
         (andAlso (register code (pc + 8)) (operand code (pc + 7) validLoadSize)))
     else if op = opMovRegImm \<or> op = opLoadStack \<or> op = opStoreStack \<or> op = opLeaStack \<or>
             op = opAddRegImm \<or> op = opMulRegImm \<or> op = opCmpRegImm then
       register code (pc + 1)
     else if op = opMovRegReg \<or> op \<ge> opAddRegReg \<and> op \<le> opShrRegReg \<or>
             op = opCmpRegReg \<or> op = opShrUnsignedRegReg then
       andAlso (register code (pc + 1)) (register code (pc + 2))
     else if op = opPushReg \<or> op = opPopReg \<or> op = opIncReg \<or> op = opIncMem \<or>
             op = opDecMem \<or> op = opBoolNot \<or> op = opNegReg then
       register code (pc + 1)
     else if op = opSetCond then operand code (pc + 1) (\<lambda>c. c \<le> condGe)
     else if op = opJCond then operand code (pc + 1) (\<lambda>c. c \<le> condGe)
     else if op = opLoadMem \<or> op = opStoreMem then do {
       sz \<leftarrow> byteAt code (pc + 7);
       andAlso (register code (pc + 1)) (andAlso (register code (pc + 2))
         (Some (op = opLoadMem \<and> validLoadSize sz \<or> op = opStoreMem \<and> validSize sz))) }
     else if op = opLoadIndex \<or> op = opStoreIndex then do {
       sz \<leftarrow> byteAt code (pc + 9);
       andAlso (register code (pc + 1)) (andAlso (register code (pc + 2)) (andAlso (register code (pc + 3))
         (Some (op = opLoadIndex \<and> validLoadSize sz \<or> op = opStoreIndex \<and> validSize sz)))) }
     else Some True }"

subsection \<open>Code validation\<close>

text \<open>
  The first loop of \<open>validateCode\<close>: \<open>Some (Some starts)\<close> when the code is a sequence of valid
  instructions, \<open>Some None\<close> for the early \<open>return false\<close>.
\<close>

function markStarts :: "bytes \<Rightarrow> int \<Rightarrow> bool list \<Rightarrow> bool list option option" where
  "markStarts code pc starts =
     (if pc < int (length code) then do {
        starts \<leftarrow> put starts pc True;
        if nextInstruction code pc \<le> pc \<or> nextInstruction code pc > int (length code) then Some None
        else do {
          ok \<leftarrow> validOperands code pc;
          if \<not> ok then Some None else markStarts code (nextInstruction code pc) starts } }
      else if pc \<noteq> int (length code) then Some None
      else map_option Some (put starts (int (length code)) True))"
  by pat_completeness auto
termination
  by (relation "measure (\<lambda>(code, pc, starts). nat (int (length code) - pc))") auto

declare markStarts.simps [simp del]

text \<open>The jump target of the instruction at \<open>pc\<close>, or -1.\<close>

definition jumpTarget :: "bytes \<Rightarrow> int \<Rightarrow> int \<Rightarrow> int option" where
  "jumpTarget code pc op =
     (if op = opJmp \<or> op = opJz \<or> op = opJnz \<or> op = opCall then read32 code (pc + 1)
      else if op = opJCond then read32 code (pc + 2)
      else Some (-1))"

function checkTargets :: "bytes \<Rightarrow> routine list \<Rightarrow> bool list \<Rightarrow> int \<Rightarrow> bool option" where
  "checkTargets code routines starts pc =
     (if pc < int (length code) then do {
        op \<leftarrow> byteAt code pc;
        target \<leftarrow> jumpTarget code pc op;
        bad \<leftarrow> (if target \<ge> 0 then
                  if target \<ge> int (length code) then Some True else map_option Not (at starts target)
                else Some False);
        if bad then Some False
        else if op = opCall \<and> findRoutine routines target < 0 then Some False
        else checkTargets code routines starts (nextInstruction code pc) }
      else Some True)"
  by pat_completeness auto

lemma instructionSize_pos: "1 \<le> instructionSize op"
  by (simp add: instructionSize_def)

lemma byteAt_range: "byteAt code pc = Some op \<Longrightarrow> 0 \<le> pc \<and> pc < int (length code)"
  by (auto simp: byteAt_def at_def split: if_splits)

lemma nextInstruction_greater:
  "0 \<le> pc \<Longrightarrow> pc < int (length code) \<Longrightarrow> pc < nextInstruction code pc"
  using instructionSize_pos[of "uint (code ! nat pc)"] by (simp add: nextInstruction_def)

termination checkTargets
  by (relation "measure (\<lambda>(code, routines, starts, pc). nat (int (length code) - pc))")
    (auto dest!: byteAt_range intro: nextInstruction_greater)

declare checkTargets.simps [simp del]

fun routineStarts :: "bool list \<Rightarrow> routine list \<Rightarrow> bool option" where
  "routineStarts starts [] = Some True"
| "routineStarts starts (r # rs) = do {
     s \<leftarrow> at starts (rt_pc r);
     if \<not> s then Some False else routineStarts starts rs }"

definition validateCode :: "bytes \<Rightarrow> routine list \<Rightarrow> bool option" where
  "validateCode code routines = do {
     scanned \<leftarrow> markStarts code 0 (replicate (length code + 1) False);
     (case scanned of
        None \<Rightarrow> Some False
      | Some starts \<Rightarrow> do {
          ok \<leftarrow> routineStarts starts routines;
          if \<not> ok then Some False else checkTargets code routines starts 0 }) }"

subsection \<open>Decoding\<close>

text \<open>The loop over the routine table; the inner \<^const>\<open>None\<close> is \<open>return image{}, false\<close>.\<close>

function decodeRoutines :: "bytes \<Rightarrow> int \<Rightarrow> nat \<Rightarrow> nat \<Rightarrow> routine list \<Rightarrow> routine list option option" where
  "decodeRoutines program codeSize count i routines =
     (if i < count then
        let off = headerSize + int i * routineSize in do {
        flags \<leftarrow> read32 program (off + 8);
        pc \<leftarrow> read32 program off;
        frameSize \<leftarrow> read32 program (off + 4);
        if pc < 0 \<or> pc \<ge> codeSize \<or> frameSize < 0 \<or> frameSize AND 3 \<noteq> 0 \<or>
           flags \<noteq> 0 \<and> flags \<noteq> routineFramed \<or>
           i = 0 \<and> pc \<noteq> 0 \<or>
           i > 0 \<and> rt_pc (routines ! (i - 1)) \<ge> pc
        then Some None
        else decodeRoutines program codeSize count (i + 1)
               (routines @ [\<lparr>rt_pc = pc, rt_frameSize = frameSize, rt_framed = flags AND routineFramed \<noteq> 0\<rparr>]) }
      else Some (Some routines))"
  by pat_completeness auto
termination
  by (relation "measure (\<lambda>(program, codeSize, count, i, routines). count - i)") auto

declare decodeRoutines.simps [simp del]

definition decodeImage :: "bytes \<Rightarrow> image option option" where
  "decodeImage program =
     (if int (length program) < headerSize \<or> take 4 program \<noteq> [0x52, 0x4e, 0x56, 0x42] then Some None
      else do {
        v \<leftarrow> read16 program 4;
        h \<leftarrow> read16 program 6;
        if v \<noteq> vmVersion \<or> h \<noteq> headerSize then Some None
        else do {
          codeSize \<leftarrow> read32 program 8;
          dataSize \<leftarrow> read32 program 12;
          dataBase \<leftarrow> read32 program 16;
          bssBase \<leftarrow> read32 program 20;
          bssSize \<leftarrow> read32 program 24;
          routineCount \<leftarrow> read32 program 28;
          wantChecksum \<leftarrow> read32 program 32;
          if codeSize \<le> 0 \<or> dataSize < 0 \<or> routineCount \<le> 0 \<or>
             dataBase < minAddress \<or> bssBase < dataBase + dataSize \<or> bssSize < 0 then Some None
          else
            let tableSize = routineCount * routineSize;
                codeAt = headerSize + tableSize;
                dataAt = codeAt + codeSize
            in if tableSize < 0 \<or> codeAt < headerSize \<or> dataAt < codeAt \<or>
                  dataAt + dataSize < dataAt \<or> dataAt + dataSize \<noteq> int (length program) then Some None
               else do {
                 body \<leftarrow> slice program headerSize (int (length program));
                 if checksum body \<noteq> wantChecksum then Some None
                 else do {
                   table \<leftarrow> decodeRoutines program codeSize (nat routineCount) 0 [];
                   (case table of
                      None \<Rightarrow> Some None
                    | Some routines \<Rightarrow> do {
                        code \<leftarrow> slice program codeAt dataAt;
                        data \<leftarrow> slice program dataAt (int (length program));
                        valid \<leftarrow> validateCode code routines;
                        if \<not> valid then Some None
                        else Some (Some \<lparr>img_code = code, img_data = data, img_dataBase = dataBase,
                               img_bssBase = bssBase, img_bssSize = bssSize, img_routines = routines\<rparr>) }) } } } })"

end
