(* ===== verification/VM_Machine.thy ===== *)
theory VM_Machine
  imports VM_Image "HOL-Library.Signed_Division"
begin

text \<open>
  The machine of \<open>std/vm/vm.go\<close> and its operations below the instruction dispatch: memory and
  stack accesses, the cost and memory meters, arithmetic and conditions.  Registers are
  32-bit words; memory addresses, the program counter and the stack pointers are Go \<open>int\<close>s.  An
  operation of the code that returns \<open>ok\<close> and mutates \<open>m\<close> is a function from a machine to
  \<open>(ok, m)\<close>, inside an \<^typ>\<open>'a option\<close> (\<^const>\<open>None\<close>: the code panics) when it indexes
  a slice.
\<close>

subsection \<open>Machines\<close>

datatype Trap = TrapNone | TrapInvalidLimits | TrapInvalidProgram | TrapStepLimit | TrapMemoryLimit
  | TrapInvalidInstruction | TrapDivisionByZero | TrapOutputLimit

record Limits =
  lim_Steps :: int
  lim_Memory :: int

record VFile =
  file_Name :: gostring
  file_Data :: bytes
  file_Mode :: int

record callFrame =
  fr_pc :: int
  fr_fp :: int
  fr_sp :: int
  fr_routine :: int
  fr_drop :: int

text \<open>A slice has a capacity, which slice expressions may use beyond its length.  The room of a slice is
  its capacity less its length: of a directory listing in the descriptor, of the standard input and of
  the files in the machine.  Only \<open>append\<close> leaves room; how much it leaves behind a listing is
  \<open>m_listRoom\<close>, a parameter of the run.\<close>

record descriptor =
  fd_file :: int
  fd_offset :: int
  fd_open :: bool
  fd_data :: bytes
  fd_room :: nat

record machine =
  m_image :: image
  m_limits :: Limits
  m_memory :: bytes
  m_regs :: "i32 list"
  m_pc :: int
  m_currentPC :: int
  m_sp :: int
  m_stackBase :: int
  m_fp :: int
  m_routine :: int
  m_flag :: i32
  m_calls :: "callFrame list"
  m_steps :: int
  m_peak :: int
  m_output :: bytes
  m_stderr :: bytes
  m_trap :: Trap
  m_args :: "gostring list"
  m_env :: "gostring list"
  m_stdin :: bytes
  m_stdinAt :: int
  m_files :: "VFile list"
  m_fds :: "descriptor list"
  m_stdinRoom :: nat
  m_fileRoom :: "int \<Rightarrow> nat"
  m_listRoom :: "bytes \<Rightarrow> nat"

type_synonym 'a outcome = "('a \<times> machine) option"

subsection \<open>Registers\<close>

text \<open>\<open>m.regs[i]\<close> and \<open>m.regs[i] = v\<close>; \<open>int(m.regs[i])\<close>.\<close>

definition reg :: "machine \<Rightarrow> int \<Rightarrow> i32 option" where
  "reg m i = at (m_regs m) i"

definition setReg :: "machine \<Rightarrow> int \<Rightarrow> i32 \<Rightarrow> machine option" where
  "setReg m i v = map_option (\<lambda>rs. m\<lparr>m_regs := rs\<rparr>) (put (m_regs m) i v)"

definition regInt :: "machine \<Rightarrow> int \<Rightarrow> int option" where
  "regInt m i = map_option sint (reg m i)"

text \<open>\<open>m.regs[i] = v; return true\<close>.\<close>

definition setRegOk :: "machine \<Rightarrow> int \<Rightarrow> i32 \<Rightarrow> bool outcome" where
  "setRegOk m i v = map_option (Pair True) (setReg m i v)"

text \<open>\<open>int32(read32(code, i))\<close>.\<close>

definition imm32 :: "bytes \<Rightarrow> int \<Rightarrow> i32 option" where
  "imm32 code i = map_option word_of_int (read32 code i)"

text \<open>\<open>m.trap = t; return false\<close>.\<close>

definition trapWith :: "machine \<Rightarrow> Trap \<Rightarrow> bool \<times> machine" where
  "trapWith m t = (False, m\<lparr>m_trap := t\<rparr>)"

subsection \<open>Meters\<close>

definition charge :: "machine \<Rightarrow> int \<Rightarrow> bool \<times> machine" where
  "charge m cost =
     (if cost < 0 \<or> m_steps m > lim_Steps (m_limits m) - cost then trapWith m TrapStepLimit
      else (True, m\<lparr>m_steps := m_steps m + cost\<rparr>))"

definition updatePeak :: "machine \<Rightarrow> bool \<times> machine" where
  "updatePeak m =
     (let frameBytes = lim_Memory (m_limits m) - m_fp m;
          callBytes = int (length (m_calls m)) * 20;
          used = m_sp m + frameBytes + callBytes
      in if used > lim_Memory (m_limits m) then trapWith m TrapMemoryLimit
         else if used > m_peak m then (True, m\<lparr>m_peak := used\<rparr>)
         else (True, m))"

definition align8 :: "int \<Rightarrow> int" where
  "align8 v = (v + 7) AND NOT 7"

subsection \<open>Memory\<close>

definition address :: "machine \<Rightarrow> int \<Rightarrow> int \<Rightarrow> bool \<times> machine" where
  "address m addr sz =
     (if addr < minAddress \<or> sz < 0 \<or> addr > int (length (m_memory m)) \<or> sz > int (length (m_memory m)) - addr
      then trapWith m TrapMemoryLimit else (True, m))"

definition buffer :: "machine \<Rightarrow> int \<Rightarrow> int \<Rightarrow> bool \<times> machine" where
  "buffer m addr sz = (if sz = 0 then (True, m) else address m addr sz)"

definition load :: "machine \<Rightarrow> int \<Rightarrow> int \<Rightarrow> (i32 \<times> bool \<times> machine) option" where
  "load m addr sz =
     (let accessSize = (if sz = 3 then 4 else sz) in
      case address m addr accessSize of (ok, m) \<Rightarrow>
      if \<not> ok then Some (0, False, m)
      else if sz = 1 then do {
        b \<leftarrow> byteAt (m_memory m) addr;
        Some (word_of_int b, True, m) }
      else if sz = 2 then do {
        v \<leftarrow> read16 (m_memory m) addr;
        Some (word_of_int v, True, m) }
      else do {
        v \<leftarrow> read32 (m_memory m) addr;
        Some (word_of_int v, True, m) })"

definition store :: "machine \<Rightarrow> int \<Rightarrow> int \<Rightarrow> i32 \<Rightarrow> bool outcome" where
  "store m addr sz v =
     (let accessSize = (if sz = 3 then 4 else sz) in
      case address m addr accessSize of (ok, m) \<Rightarrow>
      if \<not> ok then Some (False, m)
      else do {
        mem \<leftarrow> put (m_memory m) addr (ucast v);
        mem \<leftarrow> (if sz > 1 then put mem (addr + 1) (ucast (drop_bit 8 v)) else Some mem);
        mem \<leftarrow> (if sz > 2 then do {
                   mem \<leftarrow> put mem (addr + 2) (ucast (drop_bit 16 v));
                   put mem (addr + 3) (ucast (drop_bit 24 v)) }
                else Some mem);
        Some (True, m\<lparr>m_memory := mem\<rparr>) })"

text \<open>\<open>uint32(int32(int8(value)))\<close> and \<open>uint32(int32(int16(value)))\<close>.\<close>

definition signExtend8 :: "i32 \<Rightarrow> i32" where
  "signExtend8 v = scast (ucast v :: 8 word)"

definition signExtend16 :: "i32 \<Rightarrow> i32" where
  "signExtend16 v = scast (ucast v :: 16 word)"

definition loadSized :: "machine \<Rightarrow> int \<Rightarrow> int \<Rightarrow> (i32 \<times> bool \<times> machine) option" where
  "loadSized m addr sz =
     (if sz = 129 then map_option (\<lambda>(v, ok, m). (signExtend8 v, ok, m)) (load m addr 1)
      else if sz = 66 then load m addr 2
      else if sz = 2 then map_option (\<lambda>(v, ok, m). (signExtend16 v, ok, m)) (load m addr 2)
      else load m addr sz)"

text \<open>\<open>if ok { m.regs[reg] = int32(value) }; return ok\<close>.\<close>

definition assignIf :: "int \<Rightarrow> i32 \<times> bool \<times> machine \<Rightarrow> bool outcome" where
  "assignIf r res =
     (case res of (v, ok, m) \<Rightarrow> if ok then setRegOk m r v else Some (ok, m))"

definition loadStack :: "machine \<Rightarrow> int \<Rightarrow> i32 \<Rightarrow> bool outcome" where
  "loadStack m r offset = load m (m_fp m - sint offset) 4 \<bind> assignIf r"

definition loadMem :: "machine \<Rightarrow> int \<Rightarrow> int \<Rightarrow> i32 \<Rightarrow> int \<Rightarrow> bool outcome" where
  "loadMem m r base disp sz = do {
     b \<leftarrow> regInt m base;
     loadSized m (b + sint disp) sz \<bind> assignIf r }"

subsection \<open>The operand stack\<close>

definition push :: "machine \<Rightarrow> i32 \<Rightarrow> bool outcome" where
  "push m v =
     (case address m (m_sp m) 4 of (ok, m) \<Rightarrow>
      if \<not> ok \<or> m_sp m + 4 > m_fp m then Some (trapWith m TrapMemoryLimit)
      else do {
        mem \<leftarrow> write32 (m_memory m) (m_sp m) (sint v);
        Some (updatePeak (m\<lparr>m_memory := mem, m_sp := m_sp m + 4\<rparr>)) })"

definition pop :: "machine \<Rightarrow> (i32 \<times> bool \<times> machine) option" where
  "pop m =
     (if m_sp m - 4 < m_stackBase m then
        (case trapWith m TrapInvalidInstruction of (ok, m) \<Rightarrow> Some (0, ok, m))
      else
        let m = m\<lparr>m_sp := m_sp m - 4\<rparr> in do {
        v \<leftarrow> read32 (m_memory m) (m_sp m);
        Some (word_of_int v, True, m) })"

definition popReg :: "machine \<Rightarrow> int \<Rightarrow> bool outcome" where
  "popReg m r = pop m \<bind> assignIf r"

subsection \<open>Argument strings\<close>

text \<open>The first loop of \<open>buildStrings\<close>: the end of the string data, or \<open>None\<close> for the trap.\<close>

fun stringsEnd :: "int \<Rightarrow> gostring list \<Rightarrow> int \<Rightarrow> int option" where
  "stringsEnd limit [] fin = Some fin"
| "stringsEnd limit (v # vs) fin =
     (if fin > limit \<or> int (length v) > limit - fin then None
      else stringsEnd limit vs (fin + int (length v)))"

fun writeBytes :: "bytes \<Rightarrow> int \<Rightarrow> bytes \<Rightarrow> bytes option" where
  "writeBytes mem at' [] = Some mem"
| "writeBytes mem at' (b # bs) = do {
     mem \<leftarrow> put mem at' b;
     writeBytes mem (at' + 1) bs }"

fun writeStrings :: "bytes \<Rightarrow> int \<Rightarrow> int \<Rightarrow> gostring list \<Rightarrow> bytes option" where
  "writeStrings mem row cursor [] = Some mem"
| "writeStrings mem row cursor (v # vs) = do {
     mem \<leftarrow> write32 mem row cursor;
     mem \<leftarrow> write32 mem (row + 4) 0;
     mem \<leftarrow> write32 mem (row + 8) (int (length v));
     mem \<leftarrow> write32 mem (row + 12) 0;
     mem \<leftarrow> writeBytes mem cursor v;
     writeStrings mem (row + 16) (cursor + int (length v)) vs }"

definition buildStrings :: "machine \<Rightarrow> gostring list \<Rightarrow> (int \<times> bool \<times> machine) option" where
  "buildStrings m vs =
     (let start = m_sp m;
          dataAt = align8 (start + int (length vs) * 16)
      in case stringsEnd (lim_Memory (m_limits m)) vs dataAt of
           None \<Rightarrow> (case trapWith m TrapMemoryLimit of (ok, m) \<Rightarrow> Some (0, ok, m))
         | Some fin \<Rightarrow>
             let fin = align8 fin in
             if start < minAddress \<or> fin < start \<or> fin > m_fp m then
               (case trapWith m TrapMemoryLimit of (ok, m) \<Rightarrow> Some (0, ok, m))
             else do {
               mem \<leftarrow> writeStrings (m_memory m) start dataAt vs;
               (case updatePeak (m\<lparr>m_memory := mem, m_sp := fin\<rparr>) of (ok, m) \<Rightarrow>
                  Some (if ok then (start, True, m) else (0, False, m))) })"

subsection \<open>Arithmetic\<close>

abbreviation (input) minInt32 :: i32 where "minInt32 \<equiv> - 2147483647 - 1"

definition binaryValue :: "machine \<Rightarrow> int \<Rightarrow> int \<Rightarrow> i32 \<Rightarrow> bool outcome" where
  "binaryValue m op dst right = do {
     left \<leftarrow> reg m dst;
     if op = opAddRegReg then setRegOk m dst (left + right)
     else if op = opSubRegReg then setRegOk m dst (left - right)
     else if op = opMulRegReg then setRegOk m dst (left * right)
     else if op = opDivRegReg then
       if right = 0 then Some (trapWith m TrapDivisionByZero)
       else if left = minInt32 \<and> right = -1 then setRegOk m dst left
       else setRegOk m dst (word_of_int (sint left sdiv sint right))
     else if op = opModRegReg then
       if right = 0 then Some (trapWith m TrapDivisionByZero)
       else if left = minInt32 \<and> right = -1 then setRegOk m dst 0
       else setRegOk m dst (word_of_int (sint left smod sint right))
     else if op = opAndRegReg then setRegOk m dst (left AND right)
     else if op = opOrRegReg then setRegOk m dst (left OR right)
     else if op = opXorRegReg then setRegOk m dst (left XOR right)
     else if op = opAndNotRegReg then setRegOk m dst (left AND NOT right)
     else if op = opShlRegReg then setRegOk m dst (push_bit (unat right) left)
     else if op = opShrRegReg then setRegOk m dst (signed_drop_bit (unat right) left)
     else if op = opShrUnsignedRegReg then setRegOk m dst (drop_bit (unat right) left)
     else Some (trapWith m TrapInvalidInstruction) }"

definition binary :: "machine \<Rightarrow> int \<Rightarrow> int \<Rightarrow> int \<Rightarrow> bool outcome" where
  "binary m op dst src = do {
     right \<leftarrow> reg m src;
     binaryValue m op dst right }"

definition condition :: "i32 \<Rightarrow> int \<Rightarrow> bool" where
  "condition flag c =
     (if c = condEq then sint flag = 0
      else if c = condNe then sint flag \<noteq> 0
      else if c = condLt then sint flag < 0
      else if c = condLe then sint flag \<le> 0
      else if c = condGt then sint flag > 0
      else sint flag \<ge> 0)"

definition currentOpcode :: "machine \<Rightarrow> int" where
  "currentOpcode m =
     (if m_currentPC m < 0 \<or> m_currentPC m \<ge> int (length (img_code (m_image m))) then 0
      else uint (img_code (m_image m) ! nat (m_currentPC m)))"

end
