(* ===== verification/VM_Syscall.thy ===== *)
theory VM_Syscall
  imports VM_Machine
begin

text \<open>
  The system calls of \<open>std/vm/vm.go\<close>: reading, writing, opening and closing descriptors of the
  isolated in-memory filesystem, and the synthesised directory listings.  A slice expression of
  the code panics beyond the capacity (\<^const>\<open>None\<close>); the memory has the capacity of its length.
\<close>

subsection \<open>Directories\<close>

record directoryEntry =
  de_name :: gostring
  de_isDir :: bool

text \<open>Go's string comparison.\<close>

fun bytesLess :: "bytes \<Rightarrow> bytes \<Rightarrow> bool" where
  "bytesLess xs [] \<longleftrightarrow> False"
| "bytesLess [] (y # ys) \<longleftrightarrow> True"
| "bytesLess (x # xs) (y # ys) \<longleftrightarrow> x < y \<or> x = y \<and> bytesLess xs ys"

definition stringPrefix :: "gostring \<Rightarrow> gostring \<Rightarrow> bool" where
  "stringPrefix s p \<longleftrightarrow> length p \<le> length s \<and> take (length p) s = p"

text \<open>The child's name up to the first slash, and whether there was one.\<close>

fun splitSlash :: "gostring \<Rightarrow> gostring \<times> bool" where
  "splitSlash [] = ([], False)"
| "splitSlash (c # cs) =
     (if c = 0x2f then ([], True) else (case splitSlash cs of (name, isDir) \<Rightarrow> (c # name, isDir)))"

text \<open>The sorted insertion of one entry.\<close>

fun insertEntry :: "directoryEntry list \<Rightarrow> gostring \<Rightarrow> bool \<Rightarrow> directoryEntry list" where
  "insertEntry [] child isDir = [\<lparr>de_name = child, de_isDir = isDir\<rparr>]"
| "insertEntry (e # es) child isDir =
     (if bytesLess (de_name e) child then e # insertEntry es child isDir
      else if de_name e = child then (if isDir then e\<lparr>de_isDir := True\<rparr> else e) # es
      else \<lparr>de_name = child, de_isDir = isDir\<rparr> # e # es)"

fun collectEntries :: "gostring \<Rightarrow> VFile list \<Rightarrow> directoryEntry list \<Rightarrow> directoryEntry list" where
  "collectEntries prefix [] entries = entries"
| "collectEntries prefix (f # fs) entries =
     (let path = file_Name f in
      if length path \<le> length prefix \<or> \<not> stringPrefix path prefix then collectEntries prefix fs entries
      else
        case splitSlash (drop (length prefix) path) of (child, isDir) \<Rightarrow>
        if child = [] then collectEntries prefix fs entries
        else collectEntries prefix fs (insertEntry entries child isDir))"

definition entryRecord :: "nat \<Rightarrow> directoryEntry \<Rightarrow> bytes" where
  "entryRecord i e =
     (let recordSize = (20 + int (length (de_name e)) + 7) AND NOT 7;
          data = replicate (nat recordSize) 0;
          data = data[0 := word_of_int (int i + 1)];
          data = data[16 := word_of_int recordSize];
          data = data[17 := word_of_int (drop_bit 8 recordSize)];
          data = data[18 := 8];
          data = (if de_isDir e then data[18 := 4] else data)
      in take 19 data @ de_name e @ drop (19 + length (de_name e)) data)"

fun entryRecords :: "nat \<Rightarrow> directoryEntry list \<Rightarrow> bytes" where
  "entryRecords i [] = []"
| "entryRecords i (e # es) = entryRecord i e @ entryRecords (i + 1) es"

definition directoryData :: "machine \<Rightarrow> gostring \<Rightarrow> bytes option" where
  "directoryData m name =
     (let prefix = (if name = [] \<or> last name \<noteq> 0x2f then name @ [0x2f] else name);
          entries = collectEntries prefix (m_files m) []
      in if entries = [] then None else Some (entryRecords 0 entries))"

subsection \<open>Descriptors\<close>

text \<open>\<open>fd < 3 || fd >= len(m.fds) || !m.fds[fd].open\<close>, negated.\<close>

definition fdOpen :: "machine \<Rightarrow> int \<Rightarrow> bool" where
  "fdOpen m fd \<longleftrightarrow>
     \<not> (fd < 3 \<or> fd \<ge> int (length (m_fds m)) \<or> \<not> fd_open (m_fds m ! nat fd))"

abbreviation (input) fdAt :: "machine \<Rightarrow> int \<Rightarrow> descriptor" where
  "fdAt m fd \<equiv> m_fds m ! nat fd"

definition setFd :: "machine \<Rightarrow> int \<Rightarrow> descriptor \<Rightarrow> machine" where
  "setFd m fd d = m\<lparr>m_fds := (m_fds m)[nat fd := d]\<rparr>"

text \<open>\<open>m.regs[regRax] = v; return true\<close>.\<close>

abbreviation (input) answer :: "machine \<Rightarrow> i32 \<Rightarrow> bool outcome" where
  "answer m v \<equiv> setRegOk m regRax v"

text \<open>\<open>copy(dst[at:at+n], src)\<close> with \<open>n\<close> the length of \<open>src\<close>.\<close>

definition splice :: "bytes \<Rightarrow> int \<Rightarrow> bytes \<Rightarrow> bytes option" where
  "splice dst pos src = do {
     _ \<leftarrow> slice dst pos (pos + int (length src));
     Some (take (nat pos) dst @ src @ drop (nat pos + length src) dst) }"

text \<open>\<open>data[a:b]\<close> of a slice with \<open>room\<close> bytes of capacity behind its length.  The code slices beyond the
  length only with \<open>a = b\<close>.\<close>

definition capSlice :: "bytes \<Rightarrow> nat \<Rightarrow> int \<Rightarrow> int \<Rightarrow> bytes option" where
  "capSlice xs room a b =
     (if a = b then if 0 \<le> a \<and> a \<le> int (length xs) + int room then Some [] else None
      else slice xs a b)"

definition readAt :: "machine \<Rightarrow> int \<Rightarrow> int \<Rightarrow> int \<Rightarrow> int \<Rightarrow> bool outcome" where
  "readAt m fd addr sz offset =
     (case buffer m addr sz of (ok, m) \<Rightarrow>
      if \<not> ok then Some (False, m)
      else if fd \<noteq> 0 \<and> \<not> fdOpen m fd then answer m (-1)
      else do {
        (data, room) \<leftarrow>
          (if fd = 0 then Some (m_stdin m, m_stdinRoom m)
           else if fd_file (fdAt m fd) < 0 then Some (fd_data (fdAt m fd), fd_room (fdAt m fd))
           else map_option (\<lambda>f. (file_Data f, m_fileRoom m (fd_file (fdAt m fd)))) (at (m_files m) (fd_file (fdAt m fd))));
        let pos = (if offset < 0 then (if fd = 0 then m_stdinAt m else fd_offset (fdAt m fd)) else offset) in
        if pos < 0 then answer m (-1)
        else
          let count = (if pos > int (length data) then 0
                       else if sz > int (length data) - pos then int (length data) - pos
                       else sz)
          in case charge m count of (ok, m) \<Rightarrow>
             if \<not> ok then Some (False, m)
             else do {
               chunk \<leftarrow> capSlice data room pos (pos + count);
               mem \<leftarrow> splice (m_memory m) addr chunk;
               let m = m\<lparr>m_memory := mem\<rparr>;
                   m = (if offset < 0 then
                          (if fd = 0 then m\<lparr>m_stdinAt := pos + count\<rparr>
                           else setFd m fd ((fdAt m fd)\<lparr>fd_offset := pos + count\<rparr>))
                        else m)
               in answer m (word_of_int count) } })"

text \<open>The branch of \<open>writeAt\<close> for the standard output and error.\<close>

definition writeStd :: "machine \<Rightarrow> int \<Rightarrow> int \<Rightarrow> int \<Rightarrow> bool outcome" where
  "writeStd m fd addr sz =
     (let output = (if fd = 1 then m_output m else m_stderr m) in
      if int (length output) + sz > lim_Memory (m_limits m) then Some (trapWith m TrapOutputLimit)
      else do {
        chunk \<leftarrow> slice (m_memory m) addr (addr + sz);
        answer (if fd = 1 then m\<lparr>m_output := output @ chunk\<rparr> else m\<lparr>m_stderr := output @ chunk\<rparr>)
          (word_of_int sz) })"

text \<open>The branch for a file descriptor.\<close>

definition writeFile :: "machine \<Rightarrow> int \<Rightarrow> int \<Rightarrow> int \<Rightarrow> int \<Rightarrow> bool outcome" where
  "writeFile m fd addr sz offset =
     (let pos = (if offset < 0 then fd_offset (fdAt m fd) else offset) in
      if pos < 0 \<or> pos > lim_Memory (m_limits m) \<or> sz > lim_Memory (m_limits m) - pos then answer m (-1)
      else do {
        file \<leftarrow> at (m_files m) (fd_file (fdAt m fd));
        let grows = (pos + sz > int (length (file_Data file)));
            data = (if grows then file_Data file @ replicate (nat (pos + sz) - length (file_Data file)) 0
                    else file_Data file);
            room = (if grows then (m_fileRoom m)(fd_file (fdAt m fd) := 0) else m_fileRoom m)
        in do {
          chunk \<leftarrow> slice (m_memory m) addr (addr + sz);
          data \<leftarrow> splice data pos chunk;
          files \<leftarrow> put (m_files m) (fd_file (fdAt m fd)) (file\<lparr>file_Data := data\<rparr>);
          let m = m\<lparr>m_files := files, m_fileRoom := room\<rparr>;
              m = (if offset < 0 then setFd m fd ((fdAt m fd)\<lparr>fd_offset := pos + sz\<rparr>) else m)
          in answer m (word_of_int sz) } })"

definition writeAt :: "machine \<Rightarrow> int \<Rightarrow> int \<Rightarrow> int \<Rightarrow> int \<Rightarrow> bool outcome" where
  "writeAt m fd addr sz offset =
     (case buffer m addr sz of (ok, m) \<Rightarrow>
      if \<not> ok then Some (False, m)
      else case charge m sz of (ok, m) \<Rightarrow>
      if \<not> ok then Some (False, m)
      else if fd = 1 \<or> fd = 2 then writeStd m fd addr sz
      else if \<not> fdOpen m fd \<or> fd_file (fdAt m fd) < 0 then answer m (-1)
      else writeFile m fd addr sz offset)"

fun findFile :: "VFile list \<Rightarrow> gostring \<Rightarrow> int \<Rightarrow> int" where
  "findFile [] name i = -1"
| "findFile (f # fs) name i = (if file_Name f = name then i else findFile fs name (i + 1))"

text \<open>\<open>m.fds = append(m.fds, d); m.regs[regRax] = int32(fd)\<close>.\<close>

definition appendFd :: "machine \<Rightarrow> descriptor \<Rightarrow> bool outcome" where
  "appendFd m d =
     (let fd = int (length (m_fds m)) in answer (m\<lparr>m_fds := m_fds m @ [d]\<rparr>) (word_of_int fd))"

abbreviation (input) flagCreate :: int where "flagCreate \<equiv> 64"
abbreviation (input) flagExclusive :: int where "flagExclusive \<equiv> 128"
abbreviation (input) flagTruncate :: int where "flagTruncate \<equiv> 512"

text \<open>The tail of \<open>open\<close>, once the name has been looked up: \<open>file\<close> is its index or -1.\<close>

definition openFile :: "machine \<Rightarrow> gostring \<Rightarrow> int \<Rightarrow> int \<Rightarrow> bool outcome" where
  "openFile m name file flags =
     (if file \<ge> 0 \<and> flags AND flagCreate \<noteq> 0 \<and> flags AND flagExclusive \<noteq> 0 then answer m (-1)
      else if file < 0 \<and> flags AND flagCreate = 0 then answer m (-1)
      else
        let (m, file) =
          (if file < 0 then
             (m\<lparr>m_files := m_files m @ [\<lparr>file_Name = name, file_Data = [], file_Mode = 493\<rparr>],
                m_fileRoom := (m_fileRoom m)(int (length (m_files m)) := 0)\<rparr>,
              int (length (m_files m)))
           else (m, file))
        in do {
          m \<leftarrow> (if flags AND flagTruncate \<noteq> 0 then do {
                  f \<leftarrow> at (m_files m) file;
                  map_option (\<lambda>fs. m\<lparr>m_files := fs, m_fileRoom := (m_fileRoom m)(file := 0)\<rparr>) (put (m_files m) file (f\<lparr>file_Data := []\<rparr>)) }
                else Some m);
          appendFd m \<lparr>fd_file = file, fd_offset = 0, fd_open = True, fd_data = [], fd_room = 0\<rparr> })"

definition vmOpen :: "machine \<Rightarrow> bool outcome" where
  "vmOpen m = do {
     addr \<leftarrow> regInt m regRdi;
     sz \<leftarrow> regInt m regRdx;
     flags \<leftarrow> regInt m regRsi;
     (case buffer m addr sz of (ok, m) \<Rightarrow>
      if \<not> ok then Some (False, m)
      else do {
        sz \<leftarrow> (if sz > 0 then map_option (\<lambda>b. if b = 0 then sz - 1 else sz) (at (m_memory m) (addr + sz - 1))
               else Some sz);
        name \<leftarrow> slice (m_memory m) addr (addr + sz);
        let file = findFile (m_files m) name 0 in
        (case (if file < 0 then directoryData m name else None) of
           Some data \<Rightarrow>
             if flags AND (flagCreate OR flagTruncate) \<noteq> 0 then answer m (-1)
             else appendFd m \<lparr>fd_file = -1, fd_offset = 0, fd_open = True, fd_data = data, fd_room = m_listRoom m data\<rparr>
         | None \<Rightarrow> openFile m name file flags) }) }"

abbreviation (input) sysGetdents64 :: int where "sysGetdents64 \<equiv> 217"

definition vmSyscall :: "machine \<Rightarrow> bool outcome" where
  "vmSyscall m = do {
     number \<leftarrow> regInt m regRax;
     rdi \<leftarrow> regInt m regRdi;
     rsi \<leftarrow> regInt m regRsi;
     rdx \<leftarrow> regInt m regRdx;
     r10 \<leftarrow> regInt m regR10;
     if number = 0 \<or> number = 1 then
       (case buffer m rsi rdx of (ok, m) \<Rightarrow>
        if \<not> ok then Some (False, m)
        else if number = 0 then readAt m rdi rsi rdx (-1)
        else writeAt m rdi rsi rdx (-1))
     else if number = 3 then
       if \<not> fdOpen m rdi then answer m (-1)
       else answer (setFd m rdi ((fdAt m rdi)\<lparr>fd_open := False\<rparr>)) 0
     else if number = 17 then readAt m rdi rsi rdx r10
     else if number = 18 then writeAt m rdi rsi rdx r10
     else if number = sysGetdents64 then
       if \<not> fdOpen m rdi \<or> fd_file (fdAt m rdi) \<ge> 0 then answer m (-1)
       else readAt m rdi rsi rdx (-1)
     else if number = 2 then vmOpen m
     else if number = 91 then
       if \<not> fdOpen m rdi \<or> fd_file (fdAt m rdi) < 0 then answer m (-1)
       else do {
         f \<leftarrow> at (m_files m) (fd_file (fdAt m rdi));
         files \<leftarrow> put (m_files m) (fd_file (fdAt m rdi)) (f\<lparr>file_Mode := rsi\<rparr>);
         answer (m\<lparr>m_files := files\<rparr>) 0 }
     else answer m (-1) }"

end
