(* ===== verification/VM_Step.thy ===== *)
theory VM_Step
  imports VM_Syscall
begin

text \<open>
  One instruction (\<open>step\<close>) and a whole run (\<open>RunConfig\<close>) of \<open>std/vm/vm.go\<close>.  The dispatch of
  \<open>step\<close> is split by groups of opcodes; the groups are disjoint, so the order of the groups is that
  of the code without changing which branch is taken.  \<open>next\<close> is the code's \<open>next\<close>.
\<close>

subsection \<open>Instruction groups\<close>

definition execBuildArgsEnv :: "machine \<Rightarrow> bool outcome" where
  "execBuildArgsEnv m = do {
     (args, ok, m) \<leftarrow> buildStrings m (m_args m);
     if \<not> ok then Some (False, m)
     else do {
       (env, ok, m) \<leftarrow> buildStrings m (m_env m);
       if \<not> ok then Some (False, m)
       else do {
         m \<leftarrow> setReg m regRdi (word_of_int args);
         m \<leftarrow> setReg m regRsi (word_of_int (int (length (m_args m))));
         m \<leftarrow> setReg m regRdx (word_of_int (int (length (m_args m))));
         m \<leftarrow> setReg m regRcx (word_of_int env);
         m \<leftarrow> setReg m regR8 (word_of_int (int (length (m_env m))));
         m \<leftarrow> setReg m regR9 (word_of_int (int (length (m_env m))));
         Some (True, m\<lparr>m_stackBase := m_sp m\<rparr>) } } }"

text \<open>Moves, pushes and pops.\<close>

definition execMove :: "bytes \<Rightarrow> int \<Rightarrow> int \<Rightarrow> machine \<Rightarrow> bool outcome" where
  "execMove code pc op m =
     (if op = opMovRegImm then do {
        r \<leftarrow> byteAt code (pc + 1); v \<leftarrow> imm32 code (pc + 2);
        setRegOk m r v }
      else if op = opMovRegReg then do {
        r \<leftarrow> byteAt code (pc + 1); s \<leftarrow> byteAt code (pc + 2);
        v \<leftarrow> reg m s;
        setRegOk m r v }
      else if op = opPushReg then do {
        r \<leftarrow> byteAt code (pc + 1); v \<leftarrow> reg m r;
        push m v }
      else if op = opPushImm then do {
        v \<leftarrow> imm32 code (pc + 1);
        push m v }
      else do {
        r \<leftarrow> byteAt code (pc + 1);
        popReg m r })"

text \<open>Run the second half of a fused instruction when the first succeeded.\<close>

definition andThen :: "bool outcome \<Rightarrow> (machine \<Rightarrow> bool outcome) \<Rightarrow> bool outcome" where
  "andThen first second = do {
     (ok, m) \<leftarrow> first;
     if \<not> ok then Some (False, m) else second m }"

definition pushReg :: "bytes \<Rightarrow> int \<Rightarrow> machine \<Rightarrow> bool outcome" where
  "pushReg code i m = do { r \<leftarrow> byteAt code i; v \<leftarrow> reg m r; push m v }"

definition execFused :: "bytes \<Rightarrow> int \<Rightarrow> int \<Rightarrow> machine \<Rightarrow> bool outcome" where
  "execFused code pc op m =
     (if op = opPushRegLoadStack then
        andThen (pushReg code (pc + 1) m) (\<lambda>m. do {
          r \<leftarrow> byteAt code (pc + 2); d \<leftarrow> imm32 code (pc + 3);
          loadStack m r d })
      else if op = opLoadStackPushReg then
        andThen (do { r \<leftarrow> byteAt code (pc + 1); d \<leftarrow> imm32 code (pc + 2); loadStack m r d })
          (pushReg code (pc + 6))
      else if op = opPushRegMovImm then
        andThen (pushReg code (pc + 1) m) (\<lambda>m. do {
          r \<leftarrow> byteAt code (pc + 2); v \<leftarrow> imm32 code (pc + 3);
          setRegOk m r v })
      else if op = opLoadMemPushReg then
        andThen (do {
          r \<leftarrow> byteAt code (pc + 1); b \<leftarrow> byteAt code (pc + 2);
          d \<leftarrow> imm32 code (pc + 3); sz \<leftarrow> byteAt code (pc + 7);
          loadMem m r b d sz })
          (pushReg code (pc + 8))
      else if op = opLoadStackPop then
        andThen (do { r \<leftarrow> byteAt code (pc + 1); d \<leftarrow> imm32 code (pc + 2); loadStack m r d })
          (\<lambda>m. do { r \<leftarrow> byteAt code (pc + 6); popReg m r })
      else if op = opMovRegImmPop then
        andThen (do { r \<leftarrow> byteAt code (pc + 1); v \<leftarrow> imm32 code (pc + 2); setRegOk m r v })
          (\<lambda>m. do { r \<leftarrow> byteAt code (pc + 6); popReg m r })
      else
        andThen (do {
          r \<leftarrow> byteAt code (pc + 1); s \<leftarrow> byteAt code (pc + 2);
          v \<leftarrow> reg m s;
          setRegOk m r v })
          (\<lambda>m. do { r \<leftarrow> byteAt code (pc + 3); popReg m r }))"

text \<open>Stack, memory and indexed accesses.\<close>

definition execStack :: "bytes \<Rightarrow> int \<Rightarrow> int \<Rightarrow> machine \<Rightarrow> bool outcome" where
  "execStack code pc op m = do {
     r \<leftarrow> byteAt code (pc + 1);
     off \<leftarrow> imm32 code (pc + 2);
     let addr = m_fp m - sint off in
     if op = opLeaStack then
       (case address m addr 0 of (ok, m) \<Rightarrow>
        if \<not> ok then Some (False, m) else setRegOk m r (word_of_int addr))
     else if op = opLoadStack then loadStack m r off
     else do {
       v \<leftarrow> reg m r;
       store m addr 4 v } }"

definition execMem :: "bytes \<Rightarrow> int \<Rightarrow> int \<Rightarrow> machine \<Rightarrow> bool outcome" where
  "execMem code pc op m = do {
     r \<leftarrow> byteAt code (pc + 1);
     base \<leftarrow> byteAt code (pc + 2);
     b \<leftarrow> regInt m base;
     disp \<leftarrow> imm32 code (pc + 3);
     let addr = b + sint disp in do {
     sz \<leftarrow> byteAt code (pc + 7);
     if op = opLoadMem then loadMem m r base disp sz
     else do {
       v \<leftarrow> reg m r;
       store m addr sz v } } }"

definition execIndex :: "bytes \<Rightarrow> int \<Rightarrow> int \<Rightarrow> machine \<Rightarrow> bool outcome" where
  "execIndex code pc op m = do {
     r \<leftarrow> byteAt code (pc + 1);
     base \<leftarrow> byteAt code (pc + 2);
     index \<leftarrow> byteAt code (pc + 3);
     scale \<leftarrow> byteAt code (pc + 4);
     b \<leftarrow> regInt m base;
     x \<leftarrow> regInt m index;
     disp \<leftarrow> imm32 code (pc + 5);
     let addr = b + x * scale + sint disp in do {
     sz \<leftarrow> byteAt code (pc + 9);
     if op = opLoadIndex then loadSized m addr sz \<bind> assignIf r
     else do {
       v \<leftarrow> reg m r;
       store m addr sz v } } }"

text \<open>Arithmetic, comparisons and memory increments.\<close>

definition execArith :: "bytes \<Rightarrow> int \<Rightarrow> int \<Rightarrow> machine \<Rightarrow> bool outcome" where
  "execArith code pc op m = do {
     r \<leftarrow> byteAt code (pc + 1);
     if op \<ge> opAddRegReg \<and> op \<le> opShrRegReg \<or> op = opShrUnsignedRegReg then do {
       s \<leftarrow> byteAt code (pc + 2);
       binary m op r s }
     else if op = opBinaryRegImm then do {
       op' \<leftarrow> byteAt code (pc + 6);
       v \<leftarrow> imm32 code (pc + 2);
       binaryValue m op' r v }
     else if op = opAddRegImm \<or> op = opMulRegImm then do {
       v \<leftarrow> imm32 code (pc + 2);
       x \<leftarrow> reg m r;
       setRegOk m r (if op = opAddRegImm then x + v else x * v) }
     else if op = opIncReg then do {
       x \<leftarrow> reg m r;
       setRegOk m r (x + 1) }
     else if op = opBoolNot then do {
       x \<leftarrow> reg m r;
       setRegOk m r (if x = 0 then 1 else 0) }
     else do {
       x \<leftarrow> reg m r;
       setRegOk m r (- x) } }"

definition execIncMem :: "bytes \<Rightarrow> int \<Rightarrow> int \<Rightarrow> machine \<Rightarrow> bool outcome" where
  "execIncMem code pc op m = do {
     r \<leftarrow> byteAt code (pc + 1);
     addr \<leftarrow> regInt m r;
     (v, ok, m) \<leftarrow> load m addr 4;
     if \<not> ok then Some (False, m)
     else store m addr 4 (if op = opIncMem then v + 1 else v - 1) }"

definition execCompare :: "bytes \<Rightarrow> int \<Rightarrow> int \<Rightarrow> machine \<Rightarrow> bool outcome" where
  "execCompare code pc op m =
     (if op = opCmpRegImm then do {
        r \<leftarrow> byteAt code (pc + 1); x \<leftarrow> reg m r; v \<leftarrow> imm32 code (pc + 2);
        Some (True, m\<lparr>m_flag := x - v\<rparr>) }
      else if op = opCmpRegReg then do {
        r \<leftarrow> byteAt code (pc + 1); x \<leftarrow> reg m r;
        s \<leftarrow> byteAt code (pc + 2); y \<leftarrow> reg m s;
        Some (True, m\<lparr>m_flag := x - y\<rparr>) }
      else do {
        c \<leftarrow> byteAt code (pc + 1);
        setRegOk m regRax (if condition (m_flag m) c then 1 else 0) })"

text \<open>Jumps.\<close>

definition execJump :: "bytes \<Rightarrow> int \<Rightarrow> int \<Rightarrow> machine \<Rightarrow> bool outcome" where
  "execJump code pc op m =
     (if op = opJmp then do {
        target \<leftarrow> read32 code (pc + 1);
        Some (True, m\<lparr>m_pc := target\<rparr>) }
      else if op = opJz \<or> op = opJnz then
        (let zero = (m_flag m = 0) in
         if op = opJz \<and> zero \<or> op = opJnz \<and> \<not> zero then do {
           target \<leftarrow> read32 code (pc + 1);
           Some (True, m\<lparr>m_pc := target\<rparr>) }
         else Some (True, m))
      else do {
        c \<leftarrow> byteAt code (pc + 1);
        if condition (m_flag m) c then do {
          target \<leftarrow> read32 code (pc + 2);
          Some (True, m\<lparr>m_pc := target\<rparr>) }
        else Some (True, m) })"

text \<open>Calls and returns.\<close>

definition execCall :: "bytes \<Rightarrow> int \<Rightarrow> int \<Rightarrow> machine \<Rightarrow> bool outcome" where
  "execCall code pc nxt m = do {
     target \<leftarrow> read32 code (pc + 1);
     let targetRoutine = findRoutine (img_routines (m_image m)) target in
     if targetRoutine < 0 then Some (trapWith m TrapInvalidInstruction)
     else do {
       callee \<leftarrow> at (img_routines (m_image m)) targetRoutine;
       frameSize \<leftarrow> (if rt_framed callee then map_option rt_frameSize (at (img_routines (m_image m)) (m_routine m))
                    else Some 0);
       let newFP = m_fp m - frameSize in
       if newFP < m_sp m \<or> newFP < 0 then Some (trapWith m TrapMemoryLimit)
       else do {
         wordCount \<leftarrow> read32 code (pc + 5);
         let drop' = (if wordCount > 6 then (wordCount - 6) * 4 else 0) in
         Some (updatePeak (m\<lparr>m_calls := m_calls m @
             [\<lparr>fr_pc = nxt, fr_fp = m_fp m, fr_sp = m_sp m, fr_routine = m_routine m, fr_drop = drop'\<rparr>],
           m_fp := newFP, m_routine := targetRoutine, m_pc := target\<rparr>)) } } }"

definition execRet :: "machine \<Rightarrow> bool \<times> machine" where
  "execRet m =
     (if m_calls m = [] then (False, m)
      else
        let frame = last (m_calls m);
            m = m\<lparr>m_calls := butlast (m_calls m)\<rparr>
        in if fr_drop frame > fr_sp frame - m_stackBase m then trapWith m TrapInvalidInstruction
           else (True, m\<lparr>m_sp := fr_sp frame - fr_drop frame, m_pc := fr_pc frame, m_fp := fr_fp frame,
                   m_routine := fr_routine frame\<rparr>))"

subsection \<open>The dispatch\<close>

definition execute :: "bytes \<Rightarrow> int \<Rightarrow> int \<Rightarrow> machine \<Rightarrow> bool outcome" where
  "execute code pc op m =
     (if op = opExit then Some (False, m)
      else if op = opBuildArgsEnv then execBuildArgsEnv m
      else if op = opMovRegImm \<or> op = opMovRegReg \<or> op = opPushReg \<or> op = opPushImm \<or> op = opPopReg then
        execMove code pc op m
      else if op = opPushRegLoadStack \<or> op = opLoadStackPushReg \<or> op = opPushRegMovImm \<or>
              op = opLoadMemPushReg \<or> op = opLoadStackPop \<or> op = opMovRegImmPop \<or> op = opMovRegRegPop then
        execFused code pc op m
      else if op = opLoadStack \<or> op = opStoreStack \<or> op = opLeaStack then execStack code pc op m
      else if op = opLoadMem \<or> op = opStoreMem then execMem code pc op m
      else if op = opLoadIndex \<or> op = opStoreIndex then execIndex code pc op m
      else if op \<ge> opAddRegReg \<and> op \<le> opShrRegReg \<or> op = opShrUnsignedRegReg \<or> op = opBinaryRegImm \<or>
              op = opAddRegImm \<or> op = opMulRegImm \<or> op = opIncReg \<or> op = opBoolNot \<or> op = opNegReg then
        execArith code pc op m
      else if op = opIncMem \<or> op = opDecMem then execIncMem code pc op m
      else if op = opCmpRegImm \<or> op = opCmpRegReg \<or> op = opSetCond then execCompare code pc op m
      else if op = opJmp \<or> op = opJz \<or> op = opJnz \<or> op = opJCond then execJump code pc op m
      else if op = opCall then execCall code pc (nextInstruction code pc) m
      else if op = opRet then Some (execRet m)
      else if op = opSyscall then vmSyscall m
      else if op = opNop then Some (True, m)
      else Some (trapWith m TrapInvalidInstruction))"

definition vmStep :: "machine \<Rightarrow> bool outcome" where
  "vmStep m =
     (let code = img_code (m_image m) in
      if m_pc m < 0 \<or> m_pc m \<ge> int (length code) then Some (trapWith m TrapInvalidInstruction)
      else
        case charge (m\<lparr>m_currentPC := m_pc m\<rparr>) 1 of (ok, m) \<Rightarrow>
        if \<not> ok then Some (False, m)
        else do {
          let pc = m_pc m in do {
          op \<leftarrow> byteAt code pc;
          execute code pc op (m\<lparr>m_pc := nextInstruction code pc\<rparr>) } })"

subsection \<open>Runs\<close>

text \<open>The configuration of a run.  The last three fields are not of the code: the room of the caller's
  input slice, and the rooms that \<open>append\<close> of the Go runtime leaves behind the copy of a file and
  behind a directory listing, by their contents.\<close>

record Config =
  cfg_Limits :: Limits
  cfg_Args :: "gostring list"
  cfg_Env :: "gostring list"
  cfg_Stdin :: bytes
  cfg_Files :: "VFile list"
  cfg_StdinRoom :: nat
  cfg_FileRoom :: "bytes \<Rightarrow> nat"
  cfg_ListRoom :: "bytes \<Rightarrow> nat"

record Result =
  res_ExitCode :: int
  res_Steps :: int
  res_PeakMemory :: int
  res_Output :: bytes
  res_Stderr :: bytes
  res_Files :: "VFile list"
  res_Trap :: Trap
  res_TrapPC :: int
  res_TrapOpcode :: int

text \<open>\<open>Result{Trap: t}\<close>.\<close>

definition trapResult :: "Trap \<Rightarrow> Result" where
  "trapResult t = \<lparr>res_ExitCode = 0, res_Steps = 0, res_PeakMemory = 0, res_Output = [], res_Stderr = [],
     res_Files = [], res_Trap = t, res_TrapPC = 0, res_TrapOpcode = 0\<rparr>"

definition initialMachine :: "image \<Rightarrow> Config \<Rightarrow> machine" where
  "initialMachine img config =
     (let staticEnd = img_bssBase img + img_bssSize img; limits = cfg_Limits config in
      \<lparr>m_image = img, m_limits = limits, m_memory = replicate (nat (lim_Memory limits)) 0,
       m_regs = replicate 8 0, m_pc = 0, m_currentPC = 0, m_sp = staticEnd, m_stackBase = staticEnd,
       m_fp = lim_Memory limits, m_routine = 0, m_flag = 0, m_calls = [], m_steps = 0, m_peak = staticEnd,
       m_output = [], m_stderr = [], m_trap = TrapNone, m_args = cfg_Args config, m_env = cfg_Env config,
       m_stdin = cfg_Stdin config, m_stdinAt = 0, m_files = cfg_Files config,
       m_fds = replicate 3 \<lparr>fd_file = 0, fd_offset = 0, fd_open = False, fd_data = [], fd_room = 0\<rparr>,
       m_stdinRoom = cfg_StdinRoom config,
       m_fileRoom = (\<lambda>i. case at (cfg_Files config) i of None \<Rightarrow> 0 | Some f \<Rightarrow> cfg_FileRoom config (file_Data f)),
       m_listRoom = cfg_ListRoom config\<rparr>)"

text \<open>
  \<open>for m.trap == TrapNone { if !m.step() { break } }\<close> with fuel; \<^const>\<open>None\<close> is a panic, and
  \<open>Some (False, m)\<close> that the fuel ran out.
\<close>

fun runLoop :: "nat \<Rightarrow> machine \<Rightarrow> bool outcome" where
  "runLoop 0 m = Some (m_trap m \<noteq> TrapNone, m)"
| "runLoop (Suc n) m =
     (if m_trap m = TrapNone then do {
        (ok, m) \<leftarrow> vmStep m;
        if \<not> ok then Some (True, m) else runLoop n m }
      else Some (True, m))"

definition machineResult :: "machine \<Rightarrow> Result option" where
  "machineResult m = do {
     exit \<leftarrow> regInt m regRax;
     Some \<lparr>res_ExitCode = exit, res_Steps = m_steps m, res_PeakMemory = m_peak m, res_Output = m_output m,
       res_Stderr = m_stderr m, res_Files = m_files m, res_Trap = m_trap m, res_TrapPC = m_currentPC m,
       res_TrapOpcode = currentOpcode m\<rparr> }"

text \<open>
  \<open>RunConfig\<close>.  Every instruction is charged at least one step, so that \<open>limits.Steps + 1\<close>
  iterations of the loop are enough; the theory \<open>VM_Properties\<close> proves that the fuel never runs out.
\<close>

definition RunConfig :: "bytes \<Rightarrow> Config \<Rightarrow> Result option" where
  "RunConfig program config =
     (let limits = cfg_Limits config in
      if lim_Steps limits \<le> 0 \<or> lim_Memory limits < minAddress then Some (trapResult TrapInvalidLimits)
      else do {
        decoded \<leftarrow> decodeImage program;
        (case decoded of
           None \<Rightarrow> Some (trapResult TrapInvalidProgram)
         | Some img \<Rightarrow>
             let staticEnd = img_bssBase img + img_bssSize img in
             if staticEnd < img_bssBase img \<or> staticEnd > lim_Memory limits then Some (trapResult TrapMemoryLimit)
             else do {
               let m = initialMachine img config in do {
               mem \<leftarrow> splice (m_memory m) (img_dataBase img) (img_data img);
               (_, m) \<leftarrow> runLoop (nat (lim_Steps limits) + 1) (m\<lparr>m_memory := mem\<rparr>);
               machineResult m } }) })"

text \<open>\<open>Run\<close>: empty process inputs.\<close>

definition Run :: "(bytes \<Rightarrow> nat) \<Rightarrow> bytes \<Rightarrow> Limits \<Rightarrow> Result option" where
  "Run listRoom program limits = RunConfig program
     \<lparr>cfg_Limits = limits, cfg_Args = [], cfg_Env = [], cfg_Stdin = [], cfg_Files = [],
      cfg_StdinRoom = 0, cfg_FileRoom = (\<lambda>_. 0), cfg_ListRoom = listRoom\<rparr>"

end
