(* ===== verification/VM_Code.thy ===== *)
theory VM_Code
  imports VM_Image
begin

text \<open>
  What \<open>validateCode\<close> establishes: the positions reached from 0 by \<open>nextInstruction\<close> are exactly
  the instruction starts it marks; at each of them the operands are valid and the instruction lies
  inside the code, every jump leads to such a position, every call to a routine.  And the validator
  itself never indexes out of range.
\<close>

named_theorems vm_code \<open>facts about operand reads\<close>

subsection \<open>Reads inside the code\<close>

lemma byteAt_Some: "0 \<le> i \<Longrightarrow> i < int (length data) \<Longrightarrow> byteAt data i = Some (uint (data ! nat i))"
  by (simp add: byteAt_def)

lemma byteAt_bounds: "byteAt data i = Some v \<Longrightarrow> 0 \<le> v \<and> v < 256"
  by (auto simp: byteAt_def at_eq_Some_iff)

lemma byteAt_defined [vm_code]: "0 \<le> i \<Longrightarrow> i < int (length data) \<Longrightarrow> \<exists>v. byteAt data i = Some v \<and> 0 \<le> v \<and> v < 256"
  by (simp add: byteAt_Some)

lemma read16_defined: "0 \<le> i \<Longrightarrow> i + 1 < int (length data) \<Longrightarrow> \<exists>v. read16 data i = Some v \<and> 0 \<le> v \<and> v < 2 ^ 16"
proof -
  assume i: "0 \<le> i" "i + 1 < int (length data)"
  let ?a = "uint (data ! nat i)" and ?b = "uint (data ! nat (i + 1))"
  have "read16 data i = Some (?a OR push_bit 8 ?b)"
    using i by (simp add: read16_def byteAt_Some)
  moreover have "?a OR push_bit 8 ?b = ?a + ?b * 2 ^ 8"
    by (rule or_push_bit_eq_add) simp_all
  moreover have "?a + ?b * 256 < 65536"
    using uint_byte_range(3)[of "data ! nat i"] uint_byte_range(3)[of "data ! nat (i + 1)"] by linarith
  ultimately show ?thesis by simp
qed

lemma read32_defined [vm_code]:
  assumes "0 \<le> i" "i + 3 < int (length data)"
  shows "\<exists>v. read32 data i = Some v \<and> 0 \<le> v \<and> v < 2 ^ 32"
proof -
  obtain a where a: "read16 data i = Some a" "0 \<le> a" "a < 2 ^ 16"
    using read16_defined[of i data] assms by auto
  obtain b where b: "read16 data (i + 2) = Some b" "0 \<le> b" "b < 2 ^ 16"
    using read16_defined[of "i + 2" data] assms by auto
  have "a OR push_bit 16 b = a + b * 2 ^ 16" using a by (intro or_push_bit_eq_add) simp_all
  then show ?thesis using a b by (simp add: read32_def)
qed

lemma read32_range: "read32 data i = Some v \<Longrightarrow> 0 \<le> v \<and> v < 2 ^ 32"
proof -
  assume r: "read32 data i = Some v"
  then obtain a b where "byteAt data i = Some a" "byteAt data (i + 2 + 1) = Some b"
    by (auto simp: read32_def read16_def split: bind_splits)
  then have "0 \<le> i" "i + 3 < int (length data)"
    by (auto dest!: byteAt_range)
  with read32_defined r show ?thesis by fastforce
qed

subsection \<open>Validated operands\<close>

lemma andAlso_True: "andAlso a b = Some True \<longleftrightarrow> a = Some True \<and> b = Some True"
  by (auto simp: andAlso_def split: option.splits bool.splits)

lemma andAlso_None: "andAlso a b = None \<longleftrightarrow> a = None \<or> a = Some True \<and> b = None"
  by (auto simp: andAlso_def split: option.splits bool.splits)

lemma operand_True: "operand code i P = Some True \<longleftrightarrow> (\<exists>v. byteAt code i = Some v \<and> P v)"
  by (auto simp: operand_def)

lemma register_True: "register code i = Some True \<longleftrightarrow> (\<exists>r. byteAt code i = Some r \<and> 0 \<le> r \<and> r < regCount)"
  using byteAt_bounds[of code i] by (auto simp: register_def operand_True)

lemma operand_None: "operand code i P = None \<longleftrightarrow> byteAt code i = None"
  by (auto simp: operand_def)

lemma register_None: "register code i = None \<longleftrightarrow> byteAt code i = None"
  by (simp add: register_def operand_None)

lemma byteAt_None: "byteAt code i = None \<longleftrightarrow> i < 0 \<or> i \<ge> int (length code)"
  by (auto simp: byteAt_def at_def)

text \<open>An instruction that lies inside the code is validated without a panic.\<close>

lemma validOperands_defined:
  assumes "0 \<le> pc" "pc < int (length code)" "nextInstruction code pc \<le> int (length code)"
  shows "validOperands code pc \<noteq> None"
proof -
  obtain op where b: "byteAt code pc = Some op" and o: "op = uint (code ! nat pc)"
    using assms by (simp add: byteAt_Some)
  have n: "pc + instructionSize op \<le> int (length code)"
    using assms by (simp add: nextInstruction_def o)
  have r: "byteAt code (pc + k) \<noteq> None" if "0 \<le> k" "k < instructionSize op" for k
    using assms(1) n that by (simp add: byteAt_None)
  show ?thesis
  proof (cases "op < 1 \<or> 44 < op \<and> op < 47 \<or> 54 < op")
    case True
    then show ?thesis by (elim disjE conjE; simp add: validOperands_def b)
  next
    case False
    then have "op = 1 \<or> op = 2 \<or> op = 3 \<or> op = 4 \<or> op = 5 \<or> op = 6 \<or> op = 7 \<or> op = 8
      \<or> op = 9 \<or> op = 10 \<or> op = 11 \<or> op = 12 \<or> op = 13 \<or> op = 14 \<or> op = 15
      \<or> op = 16 \<or> op = 17 \<or> op = 18 \<or> op = 19 \<or> op = 20 \<or> op = 21 \<or> op = 22
      \<or> op = 23 \<or> op = 24 \<or> op = 25 \<or> op = 26 \<or> op = 27 \<or> op = 28 \<or> op = 29
      \<or> op = 30 \<or> op = 31 \<or> op = 32 \<or> op = 33 \<or> op = 34 \<or> op = 35 \<or> op = 36
      \<or> op = 37 \<or> op = 38 \<or> op = 39 \<or> op = 40 \<or> op = 41 \<or> op = 42 \<or> op = 43
      \<or> op = 44 \<or> op = 47 \<or> op = 48 \<or> op = 49 \<or> op = 50 \<or> op = 51 \<or> op = 52
      \<or> op = 53 \<or> op = 54"
      by presburger
    then show ?thesis
      using r[of 1] r[of 2] r[of 3] r[of 6] r[of 7] r[of 8] r[of 9] b
      by (elim disjE; simp add: validOperands_def instructionSize_def andAlso_None register_None operand_None
          bind_eq_None_conv)
  qed
qed

subsection \<open>Instruction starts\<close>

inductive reaches :: "bytes \<Rightarrow> int \<Rightarrow> int \<Rightarrow> bool" for code where
  here: "reaches code pc pc"
| next_instruction: "0 \<le> pc \<Longrightarrow> pc < int (length code) \<Longrightarrow> reaches code (nextInstruction code pc) q \<Longrightarrow> reaches code pc q"

inductive_cases reachesE: "reaches code pc q"

definition instruction_start :: "bytes \<Rightarrow> int \<Rightarrow> bool" where
  "instruction_start code pc \<longleftrightarrow> reaches code 0 pc"

lemma reaches_snoc:
  "reaches code pc q \<Longrightarrow> 0 \<le> q \<Longrightarrow> q < int (length code) \<Longrightarrow> reaches code pc (nextInstruction code q)"
  by (induction rule: reaches.induct) (auto intro: reaches.intros)

lemma reaches_iff:
  "reaches code pc q \<longleftrightarrow> q = pc \<or> 0 \<le> pc \<and> pc < int (length code) \<and> reaches code (nextInstruction code pc) q"
  by (auto elim: reachesE intro: reaches.intros)

text \<open>The instruction at \<open>q\<close> is complete and its operands are valid.\<close>

definition instruction_ok :: "bytes \<Rightarrow> int \<Rightarrow> bool" where
  "instruction_ok code q \<longleftrightarrow>
     nextInstruction code q \<le> int (length code) \<and> validOperands code q = Some True"

lemma markStarts_sound:
  assumes "markStarts code pc st = Some (Some S)" "0 \<le> pc" "length st = length code + 1"
  shows "length S = length code + 1 \<and>
    (\<forall>q. reaches code pc q \<longrightarrow> 0 \<le> q \<and> q \<le> int (length code) \<and> (q < int (length code) \<longrightarrow> instruction_ok code q)) \<and>
    (\<forall>i \<le> length code. S ! i \<longleftrightarrow> st ! i \<or> reaches code pc (int i))"
  using assms
proof (induction code pc st rule: markStarts.induct)
  case (1 code pc st)
  show ?case
  proof (cases "pc < int (length code)")
    case True
    let ?n = "nextInstruction code pc"
    have p: "put st pc True = Some (st[nat pc := True])"
      using True "1.prems"(2,3) by simp
    have n: "pc < ?n" "?n \<le> int (length code)" "validOperands code pc = Some True"
      "markStarts code ?n (st[nat pc := True]) = Some (Some S)"
      using "1.prems"(1) True
      by (subst (asm) markStarts.simps; auto simp: p split: if_splits bind_splits)+
    have "length S = length code + 1 \<and>
      (\<forall>q. reaches code ?n q \<longrightarrow> 0 \<le> q \<and> q \<le> int (length code) \<and> (q < int (length code) \<longrightarrow> instruction_ok code q)) \<and>
      (\<forall>i \<le> length code. S ! i \<longleftrightarrow> st[nat pc := True] ! i \<or> reaches code ?n (int i))"
      using "1.IH"[OF True p _ n(3)] n "1.prems"(2,3) by simp
    then show ?thesis
      using n True "1.prems"(2,3) unfolding reaches_iff[of code pc]
      by (auto simp: instruction_ok_def nth_list_update nat_eq_iff)
  next
    case False
    have pc: "pc = int (length code)" and S: "S = st[length code := True]"
      using "1.prems" False by (subst (asm) markStarts.simps; auto split: if_splits)+
    then show ?thesis
      using "1.prems"(3) unfolding reaches_iff[of code pc] by (auto simp: nth_list_update)
  qed
qed

lemma checkTargets_sound:
  assumes "checkTargets code routines S pc = Some True" "reaches code pc q" "q < int (length code)"
    and "0 \<le> pc" "\<And>q. reaches code pc q \<Longrightarrow> 0 \<le> q"
  shows "\<exists>op t. byteAt code q = Some op \<and> jumpTarget code q op = Some t \<and>
    (t \<ge> 0 \<longrightarrow> t < int (length code) \<and> at S t = Some True) \<and> (op = opCall \<longrightarrow> findRoutine routines t \<ge> 0)"
  using assms(2,1,3-)
proof (induction pc q rule: reaches.induct)
  case (here pc)
  then show ?case
    by (subst (asm) checkTargets.simps) (auto split: if_splits bind_splits)
next
  case (next_instruction pc q)
  have "checkTargets code routines S (nextInstruction code pc) = Some True"
    using next_instruction.prems(1) next_instruction.hyps
    by (subst (asm) checkTargets.simps) (auto split: if_splits bind_splits)
  moreover have "0 \<le> nextInstruction code pc"
    using nextInstruction_greater[OF next_instruction.hyps(1,2)] next_instruction.hyps(1) by simp
  ultimately show ?case
    using next_instruction by (intro next_instruction.IH) (auto intro: reaches.intros)
qed

lemma routineStarts_sound: "routineStarts S rs = Some True \<Longrightarrow> \<forall>r\<in>set rs. at S (rt_pc r) = Some True"
  by (induction S rs rule: routineStarts.induct) (auto split: if_splits bind_splits)

definition code_valid :: "bytes \<Rightarrow> routine list \<Rightarrow> bool" where
  "code_valid code routines \<longleftrightarrow>
     (\<forall>q. instruction_start code q \<longrightarrow> 0 \<le> q \<and> q \<le> int (length code) \<and>
        (q < int (length code) \<longrightarrow> instruction_ok code q \<and>
          (\<exists>op t. byteAt code q = Some op \<and> jumpTarget code q op = Some t \<and>
             (t \<ge> 0 \<longrightarrow> t < int (length code) \<and> instruction_start code t) \<and>
             (op = opCall \<longrightarrow> findRoutine routines t \<ge> 0)))) \<and>
     (\<forall>r\<in>set routines. instruction_start code (rt_pc r))"

lemma validateCode_sound:
  assumes "validateCode code routines = Some True"
  shows "code_valid code routines"
proof -
  from assms obtain S where S: "markStarts code 0 (replicate (length code + 1) False) = Some (Some S)"
    and r: "routineStarts S routines = Some True" and c: "checkTargets code routines S 0 = Some True"
    by (auto simp: validateCode_def split: bind_splits option.splits if_splits)
  from markStarts_sound[OF S] have len: "length S = length code + 1"
    and q: "\<And>q. reaches code 0 q \<Longrightarrow> 0 \<le> q \<and> q \<le> int (length code) \<and> (q < int (length code) \<longrightarrow> instruction_ok code q)"
    and i: "\<And>i. i \<le> length code \<Longrightarrow> S ! i \<longleftrightarrow> reaches code 0 (int i)"
    by (auto simp: less_Suc_eq_le simp del: replicate.simps)
  have start: "instruction_start code t" if "at S t = Some True" for t
    using that i[of "nat t"] by (auto simp: at_eq_Some_iff len instruction_start_def)
  show ?thesis
    unfolding code_valid_def
    using q checkTargets_sound[OF c] routineStarts_sound[OF r] start
    by (fastforce simp: instruction_start_def)
qed

subsection \<open>The validator does not panic\<close>

lemma markStarts_defined:
  assumes "0 \<le> pc" "length st = length code + 1"
  shows "markStarts code pc st \<noteq> None"
  using assms
proof (induction code pc st rule: markStarts.induct)
  case (1 code pc st)
  show ?case
  proof (cases "pc < int (length code)")
    case True
    have p: "put st pc True = Some (st[nat pc := True])" using True "1.prems" by simp
    show ?thesis
    proof (cases "nextInstruction code pc \<le> pc \<or> nextInstruction code pc > int (length code)")
      case True
      then show ?thesis using \<open>pc < int (length code)\<close> by (subst markStarts.simps) (auto simp: p)
    next
      case False
      obtain ok where ok: "validOperands code pc = Some ok"
        using validOperands_defined[of pc code] True "1.prems"(1) False by (cases "validOperands code pc") auto
      have "ok \<Longrightarrow> markStarts code (nextInstruction code pc) (st[nat pc := True]) \<noteq> None"
        using "1.IH"[OF True p False ok] False "1.prems" by simp
      then show ?thesis using True False by (subst markStarts.simps) (simp add: p ok)
    qed
  next
    case False
    then show ?thesis using "1.prems" by (subst markStarts.simps) simp
  qed
qed

lemma jumpTarget_defined:
  assumes "0 \<le> q" "q < int (length code)" "nextInstruction code q \<le> int (length code)" "byteAt code q = Some op"
  shows "\<exists>t. jumpTarget code q op = Some t"
proof -
  have o: "op = uint (code ! nat q)" using assms by (simp add: byteAt_Some)
  have n: "q + instructionSize op \<le> int (length code)"
    using assms by (simp add: nextInstruction_def o)
  show ?thesis
    using assms(1) n read32_defined[of "q + 1" code] read32_defined[of "q + 2" code]
    by (auto simp: jumpTarget_def instructionSize_def split: if_splits)
qed

lemma checkTargets_defined:
  assumes "0 \<le> pc" "length S = length code + 1"
    and "\<And>q. reaches code pc q \<Longrightarrow> 0 \<le> q \<and> (q < int (length code) \<longrightarrow> nextInstruction code q \<le> int (length code))"
  shows "checkTargets code routines S pc \<noteq> None"
  using assms
proof (induction "nat (int (length code) - pc)" arbitrary: pc rule: less_induct)
  case less
  show ?case
  proof (cases "pc < int (length code)")
    case True
    have n: "nextInstruction code pc \<le> int (length code)" "pc < nextInstruction code pc"
      using less.prems(3)[OF reaches.here] True nextInstruction_greater[OF less.prems(1) True] by auto
    obtain op where op: "byteAt code pc = Some op" using less.prems(1) True by (auto simp: byteAt_Some)
    obtain t where t: "jumpTarget code pc op = Some t"
      using jumpTarget_defined[OF less.prems(1) True n(1) op] by blast
    have "checkTargets code routines S (nextInstruction code pc) \<noteq> None"
      using less.prems(1,2) n True less.prems(3)[OF reaches.next_instruction[OF less.prems(1) True]]
      by (intro less.hyps) auto
    then show ?thesis
      using True less.prems(2)
      by (subst checkTargets.simps) (auto simp: op t at_def)
  next
    case False
    then show ?thesis by (subst checkTargets.simps) simp
  qed
qed

lemma routineStarts_defined:
  "list_all (\<lambda>r. 0 \<le> rt_pc r \<and> rt_pc r < int (length S)) rs \<Longrightarrow> routineStarts S rs \<noteq> None"
  by (induction S rs rule: routineStarts.induct) auto

lemma validateCode_defined:
  assumes "list_all (\<lambda>r. 0 \<le> rt_pc r \<and> rt_pc r < int (length code)) routines"
  shows "validateCode code routines \<noteq> None"
proof -
  let ?st = "replicate (length code + 1) False"
  obtain r where r: "markStarts code 0 ?st = Some r"
    using markStarts_defined[of 0 ?st code] by (cases "markStarts code 0 ?st") auto
  show ?thesis
  proof (cases r)
    case None
    then show ?thesis unfolding validateCode_def r by simp
  next
    case (Some S)
    with markStarts_sound[of code 0 ?st S] r have len: "length S = length code + 1"
      and q: "\<And>q. reaches code 0 q \<Longrightarrow> 0 \<le> q \<and> (q < int (length code) \<longrightarrow> nextInstruction code q \<le> int (length code))"
      by (auto simp: instruction_ok_def simp del: replicate.simps)
    have "list_all (\<lambda>r. 0 \<le> rt_pc r \<and> rt_pc r < int (length S)) routines"
      using assms len by (auto simp: list_all_iff)
    then obtain ok where "routineStarts S routines = Some ok"
      using routineStarts_defined[of S routines] by auto
    moreover have "checkTargets code routines S 0 \<noteq> None"
      by (rule checkTargets_defined[OF _ len q]) simp_all
    ultimately show ?thesis unfolding validateCode_def r Some by auto
  qed
qed

subsection \<open>The routine table\<close>

text \<open>The binary search finds the first routine at or after \<open>pc\<close>.\<close>

lemma findRoutineLoop_bounds:
  assumes "sorted_wrt (\<lambda>r s. rt_pc r < rt_pc s) routines" "lo \<le> hi" "hi \<le> length routines"
    and "\<forall>i < lo. rt_pc (routines ! i) < pc" "\<forall>i. hi \<le> i \<longrightarrow> i < length routines \<longrightarrow> pc \<le> rt_pc (routines ! i)"
  shows "findRoutineLoop routines pc lo hi \<le> length routines \<and>
    (\<forall>i < findRoutineLoop routines pc lo hi. rt_pc (routines ! i) < pc) \<and>
    (\<forall>i. findRoutineLoop routines pc lo hi \<le> i \<longrightarrow> i < length routines \<longrightarrow> pc \<le> rt_pc (routines ! i))"
  using assms
proof (induction routines pc lo hi rule: findRoutineLoop.induct)
  case (1 routines pc lo hi)
  show ?case
  proof (cases "lo < hi")
    case True
    let ?mid = "(lo + hi) div 2"
    have mid: "lo \<le> ?mid" "?mid < hi" using True by auto
    have mono: "rt_pc (routines ! i) < rt_pc (routines ! j)" if "i < j" "j < length routines" for i j
      using "1.prems"(1) that by (auto simp: sorted_wrt_iff_nth_less)
    show ?thesis
    proof (cases "rt_pc (routines ! ?mid) < pc")
      case lt: True
      have low: "\<forall>i < ?mid + 1. rt_pc (routines ! i) < pc"
      proof (intro allI impI)
        fix i assume "i < ?mid + 1"
        then have "i = ?mid \<or> i < ?mid" by auto
        then show "rt_pc (routines ! i) < pc" using lt mono[of i ?mid] mid "1.prems"(3) by auto
      qed
      have e: "findRoutineLoop routines pc lo hi = findRoutineLoop routines pc (?mid + 1) hi"
        using True lt by (subst findRoutineLoop.simps) (simp add: Let_def)
      show ?thesis
        unfolding e
        by (rule "1.IH"(1)[OF True refl lt "1.prems"(1) _ "1.prems"(3) low "1.prems"(5)]) (use mid in simp)
    next
      case ge: False
      have high: "\<forall>i. ?mid \<le> i \<longrightarrow> i < length routines \<longrightarrow> pc \<le> rt_pc (routines ! i)"
      proof (intro allI impI)
        fix i assume "?mid \<le> i" "i < length routines"
        then have "i = ?mid \<or> ?mid < i" by auto
        then show "pc \<le> rt_pc (routines ! i)" using ge mono[of ?mid i] \<open>i < length routines\<close> by auto
      qed
      have e: "findRoutineLoop routines pc lo hi = findRoutineLoop routines pc lo ?mid"
        using True ge by (subst findRoutineLoop.simps) (simp add: Let_def)
      show ?thesis
        unfolding e
        by (rule "1.IH"(2)[OF True refl ge "1.prems"(1) mid(1) _ "1.prems"(4) high]) (use mid "1.prems"(3) in simp)
    qed
  next
    case False
    then have "findRoutineLoop routines pc lo hi = lo" by (subst findRoutineLoop.simps) simp
    then show ?thesis using "1.prems" False by auto
  qed
qed

lemma findRoutine_sorted:
  assumes "sorted_wrt (\<lambda>r s. rt_pc r < rt_pc s) routines"
  shows "findRoutine routines pc =
    (if \<exists>r\<in>set routines. rt_pc r = pc then int (LEAST i. i < length routines \<and> rt_pc (routines ! i) = pc) else -1)"
proof -
  let ?lo = "findRoutineLoop routines pc 0 (length routines)"
  have b: "\<forall>i < ?lo. rt_pc (routines ! i) < pc"
    "\<forall>i. ?lo \<le> i \<longrightarrow> i < length routines \<longrightarrow> pc \<le> rt_pc (routines ! i)"
    using findRoutineLoop_bounds[OF assms, of 0 "length routines" pc] by auto
  have mono: "rt_pc (routines ! i) < rt_pc (routines ! j)" if "i < j" "j < length routines" for i j
    using assms that by (auto simp: sorted_wrt_iff_nth_less)
  show ?thesis
  proof (cases "?lo < length routines \<and> rt_pc (routines ! ?lo) = pc")
    case True
    have "(LEAST i. i < length routines \<and> rt_pc (routines ! i) = pc) = ?lo"
    proof (rule Least_equality)
      fix y assume "y < length routines \<and> rt_pc (routines ! y) = pc"
      then show "?lo \<le> y" using b(1) by (metis less_irrefl not_less)
    qed (rule True)
    moreover have "\<exists>r\<in>set routines. rt_pc r = pc" using True by (metis nth_mem)
    ultimately show ?thesis using True by (simp add: findRoutine_def)
  next
    case False
    have "\<not> (\<exists>r\<in>set routines. rt_pc r = pc)"
    proof
      assume "\<exists>r\<in>set routines. rt_pc r = pc"
      then obtain j where j: "j < length routines" "rt_pc (routines ! j) = pc"
        by (metis in_set_conv_nth)
      then have "?lo \<le> j" using b(1) by (metis less_irrefl not_less)
      then have lo: "?lo < length routines" using j(1) by simp
      then have "pc \<le> rt_pc (routines ! ?lo)" using b(2) by simp
      moreover have "rt_pc (routines ! ?lo) \<le> pc"
        using mono[of ?lo j] j \<open>?lo \<le> j\<close> by (cases "?lo = j") auto
      ultimately show False using False lo by simp
    qed
    then show ?thesis using False by (auto simp: findRoutine_def Let_def)
  qed
qed

lemma findRoutine_range:
  "findRoutine routines pc \<ge> 0 \<Longrightarrow> findRoutine routines pc < int (length routines) \<and>
     rt_pc (routines ! nat (findRoutine routines pc)) = pc"
  by (auto simp: findRoutine_def Let_def split: if_splits)

subsection \<open>Decoded images\<close>

lemma decodeRoutines_sound:
  assumes "decodeRoutines program codeSize count i rs = Some (Some routines)" "length rs = i" "i \<le> count"
    and "sorted_wrt (\<lambda>r s. rt_pc r < rt_pc s) rs" "\<forall>r\<in>set rs. 0 \<le> rt_pc r \<and> rt_pc r < codeSize \<and> 0 \<le> rt_frameSize r"
    and "i = 0 \<or> rt_pc (hd rs) = 0"
  shows "length routines = count \<and> sorted_wrt (\<lambda>r s. rt_pc r < rt_pc s) routines \<and>
    (\<forall>r\<in>set routines. 0 \<le> rt_pc r \<and> rt_pc r < codeSize \<and> 0 \<le> rt_frameSize r) \<and>
    (count = 0 \<or> rt_pc (hd routines) = 0)"
  using assms
proof (induction "count - i" arbitrary: i rs)
  case 0
  then show ?case by (subst (asm) decodeRoutines.simps) auto
next
  case (Suc k)
  have i: "i < count" using Suc.hyps(2) by simp
  from Suc.prems(1) i obtain flags pc frameSize where
    g: "0 \<le> pc" "pc < codeSize" "0 \<le> frameSize" "i = 0 \<longrightarrow> pc = 0" "i > 0 \<longrightarrow> rt_pc (rs ! (i - 1)) < pc"
    and rest: "decodeRoutines program codeSize count (i + 1)
      (rs @ [\<lparr>rt_pc = pc, rt_frameSize = frameSize, rt_framed = flags AND routineFramed \<noteq> 0\<rparr>]) = Some (Some routines)"
    by (subst (asm) decodeRoutines.simps) (auto simp: Let_def not_le not_less split: if_splits bind_splits)
  have last: "rt_pc r < pc" if mem: "r \<in> set rs" for r
  proof -
    obtain j where j: "j < length rs" "r = rs ! j" using mem unfolding in_set_conv_nth by blast
    have "rt_pc (rs ! j) \<le> rt_pc (rs ! (i - 1))"
      using Suc.prems(2,4) j by (cases "j = i - 1") (auto simp: sorted_wrt_iff_nth_less intro: less_imp_le)
    then show ?thesis using g(5) j Suc.prems(2) by auto
  qed
  show ?case
  proof (rule Suc.hyps(1)[OF _ rest])
    show "k = count - (i + 1)" "i + 1 \<le> count" using Suc.hyps(2) by simp_all
    show "sorted_wrt (\<lambda>r s. rt_pc r < rt_pc s)
      (rs @ [\<lparr>rt_pc = pc, rt_frameSize = frameSize, rt_framed = flags AND routineFramed \<noteq> 0\<rparr>])"
      using Suc.prems(4) last by (simp add: sorted_wrt_append)
  qed (use Suc.prems g in \<open>auto simp: hd_append\<close>)
qed

text \<open>A decoded image: valid code, a sorted routine table that starts at 0, and static data in range.\<close>

definition image_ok :: "image \<Rightarrow> bool" where
  "image_ok img \<longleftrightarrow>
     code_valid (img_code img) (img_routines img) \<and>
     sorted_wrt (\<lambda>r s. rt_pc r < rt_pc s) (img_routines img) \<and>
     img_routines img \<noteq> [] \<and> rt_pc (hd (img_routines img)) = 0 \<and>
     (\<forall>r\<in>set (img_routines img). 0 \<le> rt_pc r \<and> rt_pc r < int (length (img_code img)) \<and> 0 \<le> rt_frameSize r) \<and>
     minAddress \<le> img_dataBase img \<and> img_dataBase img + int (length (img_data img)) \<le> img_bssBase img \<and>
     0 \<le> img_bssSize img"

lemma decodeRoutines_defined:
  assumes "headerSize + int count * routineSize \<le> int (length program)"
  shows "decodeRoutines program codeSize count i rs \<noteq> None"
  using assms
proof (induction "count - i" arbitrary: i rs)
  case 0
  then show ?case by (subst decodeRoutines.simps) simp
next
  case (Suc k)
  have i: "i < count" using Suc.hyps(2) by simp
  let ?off = "headerSize + int i * routineSize"
  have b: "0 \<le> ?off" "?off + 11 < int (length program)"
    using Suc.prems i by auto
  obtain flags where f: "read32 program (?off + 8) = Some flags" using read32_defined[of "?off + 8" program] b by auto
  obtain pc where p: "read32 program ?off = Some pc" using read32_defined[of ?off program] b by auto
  obtain frameSize where fs: "read32 program (?off + 4) = Some frameSize"
    using read32_defined[of "?off + 4" program] b by auto
  have "decodeRoutines program codeSize count (i + 1) rs' \<noteq> None" for rs'
    using Suc.hyps Suc.prems by simp
  then show ?case
    unfolding decodeRoutines.simps[of program codeSize count i rs] Let_def f p fs by simp
qed

lemma decodeImage_sound:
  assumes "decodeImage program = Some (Some img)"
  shows "image_ok img"
proof -
  from assms obtain codeSize dataSize routineCount routines code data where
    r: "0 \<le> routineCount" "0 < codeSize" "0 < routineCount" "0 \<le> dataSize"
    and t: "decodeRoutines program codeSize (nat routineCount) 0 [] = Some (Some routines)"
    and c: "slice program (headerSize + routineCount * routineSize) (headerSize + routineCount * routineSize + codeSize) = Some code"
    and d: "slice program (headerSize + routineCount * routineSize + codeSize) (int (length program)) = Some data"
    and l: "headerSize + routineCount * routineSize + codeSize + dataSize = int (length program)"
    and v: "validateCode code routines = Some True"
    and i: "img_code img = code" "img_data img = data" "img_routines img = routines"
      "minAddress \<le> img_dataBase img" "img_dataBase img + dataSize \<le> img_bssBase img" "0 \<le> img_bssSize img"
    by (auto simp: decodeImage_def Let_def not_le not_less split: if_splits bind_splits option.splits)
  have "int (length code) = codeSize" using slice_length[OF c] by simp
  moreover have "int (length data) = dataSize" using slice_length[OF d] l by simp
  moreover have "length routines = nat routineCount"
    "sorted_wrt (\<lambda>r s. rt_pc r < rt_pc s) routines" "rt_pc (hd routines) = 0"
    "\<forall>r\<in>set routines. 0 \<le> rt_pc r \<and> rt_pc r < codeSize \<and> 0 \<le> rt_frameSize r"
    using decodeRoutines_sound[OF t] r(3) by auto
  moreover from this(1) r(3) have "routines \<noteq> []" by auto
  ultimately show ?thesis
    using i validateCode_sound[OF v] by (simp add: image_ok_def)
qed

lemma read16_header: "0 \<le> i \<Longrightarrow> i + 1 < headerSize \<Longrightarrow> headerSize \<le> int (length program) \<Longrightarrow> \<exists>v. read16 program i = Some v"
  using read16_defined[of i program] by auto

lemma read32_header: "0 \<le> i \<Longrightarrow> i + 3 < headerSize \<Longrightarrow> headerSize \<le> int (length program) \<Longrightarrow> \<exists>v. read32 program i = Some v \<and> 0 \<le> v"
  using read32_defined[of i program] by auto

lemma decodeImage_defined: "decodeImage program \<noteq> None"
proof (cases "headerSize \<le> int (length program)")
  case False
  then show ?thesis by (simp add: decodeImage_def)
next
  case len: True
  obtain v h where vh: "read16 program 4 = Some v" "read16 program 6 = Some h"
    using read16_header[of 4 program] read16_header[of 6 program] len by auto
  obtain codeSize dataSize where cd: "read32 program 8 = Some codeSize" "read32 program 12 = Some dataSize"
    using read32_header[of 8 program] read32_header[of 12 program] len by auto
  obtain dataBase bssBase bssSize where bb: "read32 program 16 = Some dataBase" "read32 program 20 = Some bssBase"
      "read32 program 24 = Some bssSize"
    using read32_header[of 16 program] read32_header[of 20 program] read32_header[of 24 program] len by auto
  obtain routineCount want where rw: "read32 program 28 = Some routineCount" "read32 program 32 = Some want"
    using read32_header[of 28 program] read32_header[of 32 program] len by auto
  let ?codeAt = "headerSize + routineCount * routineSize"
  let ?dataAt = "?codeAt + codeSize"
  obtain body where body: "slice program headerSize (int (length program)) = Some body"
    using len by (simp add: slice_def)
  show ?thesis
  proof (cases "codeSize \<le> 0 \<or> dataSize < 0 \<or> routineCount \<le> 0 \<or> dataBase < minAddress \<or>
      bssBase < dataBase + dataSize \<or> bssSize < 0 \<or> ?dataAt + dataSize \<noteq> int (length program)")
    case True
    then show ?thesis by (auto simp: decodeImage_def vh cd bb rw Let_def)
  next
    case False
    then have g: "0 < codeSize" "0 \<le> dataSize" "0 < routineCount" "?dataAt + dataSize = int (length program)" by auto
    obtain table where table: "decodeRoutines program codeSize (nat routineCount) 0 [] = Some table"
      using decodeRoutines_defined[of "nat routineCount" program codeSize 0 "[]"] g by auto
    obtain code data where sl: "slice program ?codeAt ?dataAt = Some code"
      "slice program ?dataAt (int (length program)) = Some data"
      using g by (auto simp: slice_def)
    have code: "int (length code) = codeSize" using slice_length[OF sl(1)] by simp
    have "validateCode code routines \<noteq> None" if "table = Some routines" for routines
      using decodeRoutines_sound[of program codeSize "nat routineCount" 0 "[]" routines] table that
      by (intro validateCode_defined) (auto simp: list_all_iff code)
    then show ?thesis
      by (auto simp: decodeImage_def vh cd bb rw Let_def body table sl split: option.splits)
  qed
qed

end
