(* ===== verification/VM_Invariant.thy ===== *)
theory VM_Invariant
  imports VM_Step VM_Code
begin

text \<open>
  The invariant of the machine of \<open>std/vm/vm.go\<close> during a run of a decoded image, and its
  preservation by every operation below the system calls.  \<open>safe r\<close> says that the outcome \<open>r\<close> is
  not a panic and that its machine satisfies the invariant again, whether the operation succeeded
  or trapped.
\<close>

subsection \<open>The invariant\<close>

definition frame_ok :: "machine \<Rightarrow> callFrame \<Rightarrow> bool" where
  "frame_ok m f \<longleftrightarrow>
     instruction_start (img_code (m_image m)) (fr_pc f) \<and> fr_sp f \<le> fr_fp f \<and>
     fr_fp f \<le> lim_Memory (m_limits m) \<and> 0 \<le> fr_routine f \<and>
     fr_routine f < int (length (img_routines (m_image m))) \<and> 0 \<le> fr_drop f"

definition fd_ok :: "machine \<Rightarrow> descriptor \<Rightarrow> bool" where
  "fd_ok m d \<longleftrightarrow> fd_file d < int (length (m_files m)) \<and> 0 \<le> fd_offset d"

definition vm_inv :: "machine \<Rightarrow> bool" where
  "vm_inv m \<longleftrightarrow>
     image_ok (m_image m) \<and>
     instruction_start (img_code (m_image m)) (m_pc m) \<and>
     length (m_regs m) = 8 \<and>
     int (length (m_memory m)) = lim_Memory (m_limits m) \<and>
     minAddress \<le> m_stackBase m \<and> m_stackBase m \<le> m_sp m \<and> m_sp m \<le> m_fp m \<and>
     m_fp m \<le> lim_Memory (m_limits m) \<and>
     0 \<le> m_routine m \<and> m_routine m < int (length (img_routines (m_image m))) \<and>
     list_all (frame_ok m) (m_calls m) \<and>
     0 \<le> m_steps m \<and> m_steps m \<le> lim_Steps (m_limits m) \<and>
     m_peak m \<le> lim_Memory (m_limits m) \<and>
     int (length (m_output m)) \<le> lim_Memory (m_limits m) \<and>
     int (length (m_stderr m)) \<le> lim_Memory (m_limits m) \<and>
     3 \<le> length (m_fds m) \<and> list_all (fd_ok m) (drop 3 (m_fds m)) \<and> 0 \<le> m_stdinAt m"

text \<open>The invariant does not look at the register values, the flag, the trap and the like.\<close>

lemma frame_ok_simps [simp]:
  "frame_ok (m_fileRoom_update r m) = frame_ok m"
  "frame_ok (m_regs_update f m) = frame_ok m" "frame_ok (m_trap_update g m) = frame_ok m"
  "frame_ok (m_memory_update h m) = frame_ok m" "frame_ok (m_sp_update k m) = frame_ok m"
  "frame_ok (m_peak_update k m) = frame_ok m" "frame_ok (m_flag_update l m) = frame_ok m"
  "frame_ok (m_pc_update k m) = frame_ok m" "frame_ok (m_currentPC_update k m) = frame_ok m"
  "frame_ok (m_steps_update k m) = frame_ok m" "frame_ok (m_stackBase_update k m) = frame_ok m"
  "frame_ok (m_fp_update k m) = frame_ok m" "frame_ok (m_routine_update k m) = frame_ok m"
  "frame_ok (m_calls_update c m) = frame_ok m" "frame_ok (m_output_update b m) = frame_ok m"
  "frame_ok (m_stderr_update b m) = frame_ok m" "frame_ok (m_stdinAt_update k m) = frame_ok m"
  "frame_ok (m_files_update e m) = frame_ok m" "frame_ok (m_fds_update d m) = frame_ok m"
  by (rule ext, simp add: frame_ok_def)+

lemma fd_ok_simps [simp]:
  "fd_ok (m_regs_update f m) = fd_ok m" "fd_ok (m_trap_update g m) = fd_ok m"
  "fd_ok (m_memory_update h m) = fd_ok m" "fd_ok (m_sp_update k m) = fd_ok m"
  "fd_ok (m_peak_update k m) = fd_ok m" "fd_ok (m_flag_update l m) = fd_ok m"
  "fd_ok (m_pc_update k m) = fd_ok m" "fd_ok (m_currentPC_update k m) = fd_ok m"
  "fd_ok (m_steps_update k m) = fd_ok m" "fd_ok (m_stackBase_update k m) = fd_ok m"
  "fd_ok (m_fp_update k m) = fd_ok m" "fd_ok (m_routine_update k m) = fd_ok m"
  "fd_ok (m_calls_update c m) = fd_ok m" "fd_ok (m_output_update b m) = fd_ok m"
  "fd_ok (m_stderr_update b m) = fd_ok m" "fd_ok (m_stdinAt_update k m) = fd_ok m"
  "fd_ok (m_fds_update d m) = fd_ok m"
  by (rule ext, simp add: fd_ok_def)+

lemma vm_inv_simps [simp]:
  "vm_inv (m\<lparr>m_trap := t\<rparr>) = vm_inv m" "vm_inv (m\<lparr>m_flag := w\<rparr>) = vm_inv m"
  "vm_inv (m\<lparr>m_currentPC := c\<rparr>) = vm_inv m"
  by (simp_all add: vm_inv_def)

definition safe :: "bool outcome \<Rightarrow> bool" where
  "safe r \<longleftrightarrow> (\<exists>ok m. r = Some (ok, m) \<and> vm_inv m)"

lemma safe_Some [simp]: "safe (Some (ok, m)) \<longleftrightarrow> vm_inv m"
  by (simp add: safe_def)

lemma safe_None [simp]: "\<not> safe None"
  by (simp add: safe_def)

lemma safe_if: "(b \<Longrightarrow> safe x) \<Longrightarrow> (\<not> b \<Longrightarrow> safe y) \<Longrightarrow> safe (if b then x else y)"
  by simp

lemma safe_bind: "r = Some x \<Longrightarrow> safe (f x) \<Longrightarrow> safe (r \<bind> f)"
  by simp

subsection \<open>Registers and meters\<close>

lemma reg_defined: "vm_inv m \<Longrightarrow> 0 \<le> r \<Longrightarrow> r < regCount \<Longrightarrow> \<exists>v. reg m r = Some v"
  by (simp add: reg_def vm_inv_def)

lemma regInt_defined: "vm_inv m \<Longrightarrow> 0 \<le> r \<Longrightarrow> r < regCount \<Longrightarrow> \<exists>v. regInt m r = Some v"
  using reg_defined by (fastforce simp: regInt_def)

lemma setReg_inv:
  assumes "vm_inv m" "0 \<le> r" "r < regCount"
  shows "\<exists>m'. setReg m r v = Some m' \<and> vm_inv m'"
  using assms by (simp add: setReg_def vm_inv_def)

lemma setRegOk_safe: "vm_inv m \<Longrightarrow> 0 \<le> r \<Longrightarrow> r < regCount \<Longrightarrow> safe (setRegOk m r v)"
  using setReg_inv[of m r v] by (auto simp: setRegOk_def)

lemma trapWith_inv [simp]: "vm_inv m \<Longrightarrow> vm_inv (snd (trapWith m t))"
  by (simp add: trapWith_def)

lemma trapWith_safe: "vm_inv m \<Longrightarrow> safe (Some (trapWith m t))"
  by (simp add: trapWith_def)

lemma charge_inv: "vm_inv m \<Longrightarrow> charge m cost = (ok, m') \<Longrightarrow> vm_inv m'"
  by (auto simp: charge_def trapWith_def vm_inv_def split: if_splits)

lemma updatePeak_inv: "vm_inv m \<Longrightarrow> updatePeak m = (ok, m') \<Longrightarrow> vm_inv m'"
  by (auto simp: updatePeak_def trapWith_def vm_inv_def Let_def split: if_splits)

lemma updatePeak_safe: "vm_inv m \<Longrightarrow> safe (Some (updatePeak m))"
  using updatePeak_inv by (cases "updatePeak m") auto

lemma address_cases:
  "address m addr sz = (ok, m') \<Longrightarrow>
     (ok \<and> m' = m \<and> minAddress \<le> addr \<and> 0 \<le> sz \<and> addr + sz \<le> int (length (m_memory m))) \<or>
     (\<not> ok \<and> m' = m\<lparr>m_trap := TrapMemoryLimit\<rparr>)"
  by (auto simp: address_def trapWith_def split: if_splits)

subsection \<open>Memory\<close>

lemma load_defined:
  assumes "vm_inv m" "1 \<le> sz" "sz \<le> 4"
  shows "\<exists>v ok m'. load m addr sz = Some (v, ok, m') \<and> vm_inv m'"
proof -
  let ?acc = "if sz = 3 then 4 else sz"
  obtain ok m' where a: "address m addr ?acc = (ok, m')" by (cases "address m addr ?acc")
  have acc: "?acc = 1 \<and> sz = 1 \<or> ?acc = 2 \<and> sz = 2 \<or> ?acc = 4 \<and> sz \<noteq> 1 \<and> sz \<noteq> 2"
    using assms(2,3) by auto
  from address_cases[OF a] show ?thesis
  proof
    assume h: "ok \<and> m' = m \<and> minAddress \<le> addr \<and> 0 \<le> ?acc \<and> addr + ?acc \<le> int (length (m_memory m))"
    then have "0 \<le> addr" by simp
    with h acc assms(1) show ?thesis
      using byteAt_defined[of addr "m_memory m"] read16_defined[of addr "m_memory m"]
        read32_defined[of addr "m_memory m"]
      unfolding load_def Let_def a by (elim disjE) fastforce+
  next
    assume "\<not> ok \<and> m' = m\<lparr>m_trap := TrapMemoryLimit\<rparr>"
    then show ?thesis using assms(1) unfolding load_def Let_def a by auto
  qed
qed

lemma store_safe:
  assumes "vm_inv m" "1 \<le> sz" "sz \<le> 4"
  shows "safe (store m addr sz v)"
proof -
  let ?acc = "if sz = 3 then 4 else sz"
  obtain ok m' where a: "address m addr ?acc = (ok, m')" by (cases "address m addr ?acc")
  have acc: "sz \<le> ?acc" "sz > 2 \<Longrightarrow> ?acc = 4" "sz > 1 \<Longrightarrow> 2 \<le> ?acc" "1 \<le> ?acc"
    using assms(2,3) by auto
  from address_cases[OF a] show ?thesis
  proof
    assume h: "ok \<and> m' = m \<and> minAddress \<le> addr \<and> 0 \<le> ?acc \<and> addr + ?acc \<le> int (length (m_memory m))"
    then have "0 \<le> addr" "addr < int (length (m_memory m))" using acc by auto
    moreover have "sz > 1 \<Longrightarrow> addr + 1 < int (length (m_memory m))" using h acc(3) by auto
    moreover have "sz > 2 \<Longrightarrow> addr + 3 < int (length (m_memory m))" using h acc(2) by auto
    ultimately show ?thesis
      using assms(1) h unfolding store_def Let_def a by (auto simp: vm_inv_def)
  next
    assume "\<not> ok \<and> m' = m\<lparr>m_trap := TrapMemoryLimit\<rparr>"
    then show ?thesis using assms(1) unfolding store_def Let_def a by simp
  qed
qed

lemma loadSized_defined:
  assumes "vm_inv m" "validLoadSize sz"
  shows "\<exists>v ok m'. loadSized m addr sz = Some (v, ok, m') \<and> vm_inv m'"
proof -
  have l: "\<exists>v ok m'. load m addr s = Some (v, ok, m') \<and> vm_inv m'" if "1 \<le> s" "s \<le> 4" for s
    using load_defined[OF assms(1) that] .
  show ?thesis
    using assms(2) l[of 1] l[of 2] l[of sz]
    by (auto simp: loadSized_def validLoadSize_def validSize_def)
qed

lemma assignIf_safe: "vm_inv m \<Longrightarrow> 0 \<le> r \<Longrightarrow> r < regCount \<Longrightarrow> safe (assignIf r (v, ok, m))"
  by (simp add: assignIf_def setRegOk_safe)

lemma loadStack_safe: "vm_inv m \<Longrightarrow> 0 \<le> r \<Longrightarrow> r < regCount \<Longrightarrow> safe (loadStack m r off)"
  using load_defined[of m 4 "m_fp m - sint off"] by (auto simp: loadStack_def assignIf_safe)

lemma loadMem_safe:
  assumes "vm_inv m" "0 \<le> r" "r < regCount" "0 \<le> base" "base < regCount" "validLoadSize sz"
  shows "safe (loadMem m r base disp sz)"
proof -
  obtain b where "regInt m base = Some b" using regInt_defined[OF assms(1,4,5)] by blast
  then show ?thesis
    using loadSized_defined[OF assms(1,6), of "b + sint disp"] assms(2,3)
    by (auto simp: loadMem_def assignIf_safe)
qed

subsection \<open>The stack\<close>

lemma write32_defined:
  assumes "0 \<le> i" "i + 3 < int (length data)"
  shows "\<exists>data'. write32 data i v = Some data' \<and> length data' = length data"
  using assms by (simp add: write32_def)

lemma push_safe:
  assumes "vm_inv m"
  shows "safe (push m v)"
proof -
  obtain ok m' where a: "address m (m_sp m) 4 = (ok, m')" by (cases "address m (m_sp m) 4")
  from address_cases[OF a] show ?thesis
  proof
    assume h: "ok \<and> m' = m \<and> minAddress \<le> m_sp m \<and> (0::int) \<le> 4 \<and> m_sp m + 4 \<le> int (length (m_memory m))"
    show ?thesis
    proof (cases "m_sp m + 4 > m_fp m")
      case True
      then show ?thesis using h assms unfolding push_def a by (simp add: trapWith_safe)
    next
      case False
      obtain mem where mem: "write32 (m_memory m) (m_sp m) (sint v) = Some mem" "length mem = length (m_memory m)"
        using write32_defined[of "m_sp m" "m_memory m" "sint v"] h by auto
      have "vm_inv (m\<lparr>m_memory := mem, m_sp := m_sp m + 4\<rparr>)"
        using assms False mem(2) by (auto simp: vm_inv_def)
      then show ?thesis using h False mem(1) unfolding push_def a by (simp add: updatePeak_safe)
    qed
  next
    assume "\<not> ok \<and> m' = m\<lparr>m_trap := TrapMemoryLimit\<rparr>"
    then show ?thesis using assms unfolding push_def a by (simp add: trapWith_safe)
  qed
qed

lemma pop_defined:
  assumes "vm_inv m"
  shows "\<exists>v ok m'. pop m = Some (v, ok, m') \<and> vm_inv m'"
proof (cases "m_sp m - 4 < m_stackBase m")
  case True
  then show ?thesis using assms by (auto simp: pop_def trapWith_def)
next
  case False
  then have "0 \<le> m_sp m - 4" "m_sp m - 4 + 3 < int (length (m_memory m))"
    using assms by (auto simp: vm_inv_def)
  from read32_defined[OF this] show ?thesis
    using assms False by (auto simp: pop_def vm_inv_def)
qed

lemma popReg_safe: "vm_inv m \<Longrightarrow> 0 \<le> r \<Longrightarrow> r < regCount \<Longrightarrow> safe (popReg m r)"
  using pop_defined[of m] by (auto simp: popReg_def assignIf_safe)

subsection \<open>Argument strings\<close>

lemma and_not_7: "(x :: int) AND NOT 7 = x div 8 * 8"
  using and_not_mask[of x 3] by (simp add: mask_eq_exp_minus_1 push_bit_eq_mult drop_bit_eq_div)

lemma align8_bounds: "v \<le> align8 v" "align8 v < v + 8"
  unfolding align8_def and_not_7 by presburger+

lemma stringsEnd_ge: "stringsEnd limit vs fin = Some e \<Longrightarrow> e = fin + int (length (concat vs))"
  by (induction limit vs fin rule: stringsEnd.induct) (auto split: if_splits)

lemma writeBytes_defined:
  "0 \<le> a \<Longrightarrow> a + int (length bs) \<le> int (length mem) \<Longrightarrow>
     \<exists>mem'. writeBytes mem a bs = Some mem' \<and> length mem' = length mem"
  by (induction mem a bs rule: writeBytes.induct) auto

lemma writeStrings_defined:
  "0 \<le> row \<Longrightarrow> 0 \<le> cursor \<Longrightarrow> row + 16 * int (length vs) \<le> int (length mem) \<Longrightarrow>
     cursor + int (length (concat vs)) \<le> int (length mem) \<Longrightarrow>
     \<exists>mem'. writeStrings mem row cursor vs = Some mem' \<and> length mem' = length mem"
proof (induction vs arbitrary: mem row cursor)
  case (Cons v vs)
  let ?n = "length mem"
  have r: "row + 12 + 3 < int ?n" using Cons.prems(3) by simp
  obtain m1 where m1: "write32 mem row cursor = Some m1" "length m1 = ?n"
    using write32_defined[of row mem cursor] Cons.prems(1) r by auto
  obtain m2 where m2: "write32 m1 (row + 4) 0 = Some m2" "length m2 = ?n"
    using write32_defined[of "row + 4" m1 0] Cons.prems(1) r m1 by auto
  obtain m3 where m3: "write32 m2 (row + 8) (int (length v)) = Some m3" "length m3 = ?n"
    using write32_defined[of "row + 8" m2 "int (length v)"] Cons.prems(1) r m2 by auto
  obtain m4 where m4: "write32 m3 (row + 12) 0 = Some m4" "length m4 = ?n"
    using write32_defined[of "row + 12" m3 0] Cons.prems(1) r m3 by auto
  obtain m5 where m5: "writeBytes m4 cursor v = Some m5" "length m5 = ?n"
    using writeBytes_defined[of cursor v m4] Cons.prems(2,4) m4 by auto
  have "\<exists>mem'. writeStrings m5 (row + 16) (cursor + int (length v)) vs = Some mem' \<and> length mem' = length m5"
    using Cons.prems m5 by (intro Cons.IH) auto
  then show ?case by (simp add: m1 m2 m3 m4 m5)
qed simp

lemma buildStrings_defined:
  assumes "vm_inv m"
  shows "\<exists>a ok m'. buildStrings m vs = Some (a, ok, m') \<and> vm_inv m'"
proof -
  let ?start = "m_sp m" and ?dataAt = "align8 (m_sp m + int (length vs) * 16)"
  show ?thesis
  proof (cases "stringsEnd (lim_Memory (m_limits m)) vs ?dataAt")
    case None
    then show ?thesis using assms by (auto simp: buildStrings_def Let_def trapWith_def)
  next
    case (Some e)
    show ?thesis
    proof (cases "?start < minAddress \<or> align8 e < ?start \<or> align8 e > m_fp m")
      case True
      then show ?thesis using assms by (auto simp: buildStrings_def Let_def Some trapWith_def)
    next
      case False
      have e: "e = ?dataAt + int (length (concat vs))" using stringsEnd_ge[OF Some] .
      have g: "m_sp m + int (length vs) * 16 \<le> ?dataAt" "e \<le> align8 e" using align8_bounds by auto
      have b: "0 \<le> m_sp m" "m_fp m \<le> int (length (m_memory m))" "align8 e \<le> m_fp m"
        using assms False by (auto simp: vm_inv_def)
      obtain mem where mem: "writeStrings (m_memory m) ?start ?dataAt vs = Some mem" "length mem = length (m_memory m)"
        using writeStrings_defined[of ?start ?dataAt vs "m_memory m"] e g b by auto
      have inv: "vm_inv (m\<lparr>m_memory := mem, m_sp := align8 e\<rparr>)"
        using assms False mem(2) by (auto simp: vm_inv_def)
      obtain ok m' where u: "updatePeak (m\<lparr>m_memory := mem, m_sp := align8 e\<rparr>) = (ok, m')"
        by (cases "updatePeak (m\<lparr>m_memory := mem, m_sp := align8 e\<rparr>)")
      have "vm_inv m'" by (rule updatePeak_inv[OF inv u])
      then show ?thesis using False by (auto simp: buildStrings_def Let_def Some mem(1) u)
    qed
  qed
qed

lemma execBuildArgsEnv_safe:
  assumes "vm_inv m"
  shows "safe (execBuildArgsEnv m)"
proof -
  obtain a ok m1 where b1: "buildStrings m (m_args m) = Some (a, ok, m1)" "vm_inv m1"
    using buildStrings_defined[OF assms] by blast
  obtain e ok2 m2 where b2: "buildStrings m1 (m_env m1) = Some (e, ok2, m2)" "vm_inv m2"
    using buildStrings_defined[OF b1(2)] by blast
  have r: "\<exists>m'. setReg n r v = Some m' \<and> vm_inv m'" if "vm_inv n" "0 \<le> r" "r < regCount" for n r v
    using setReg_inv[OF that] .
  obtain n1 where n1: "setReg m2 regRdi (word_of_int a) = Some n1" "vm_inv n1" using r[OF b2(2), of regRdi] by auto
  obtain n2 where n2: "setReg n1 regRsi (word_of_int (int (length (m_args n1)))) = Some n2" "vm_inv n2"
    using r[OF n1(2), of regRsi] by auto
  obtain n3 where n3: "setReg n2 regRdx (word_of_int (int (length (m_args n2)))) = Some n3" "vm_inv n3"
    using r[OF n2(2), of regRdx] by auto
  obtain n4 where n4: "setReg n3 regRcx (word_of_int e) = Some n4" "vm_inv n4" using r[OF n3(2), of regRcx] by auto
  obtain n5 where n5: "setReg n4 regR8 (word_of_int (int (length (m_env n4)))) = Some n5" "vm_inv n5"
    using r[OF n4(2), of regR8] by auto
  obtain n6 where n6: "setReg n5 regR9 (word_of_int (int (length (m_env n5)))) = Some n6" "vm_inv n6"
    using r[OF n5(2), of regR9] by auto
  have "vm_inv (n6\<lparr>m_stackBase := m_sp n6\<rparr>)" using n6(2) by (auto simp: vm_inv_def)
  then show ?thesis using b1 b2 n1 n2 n3 n4 n5 n6 by (simp add: execBuildArgsEnv_def)
qed

subsection \<open>Arithmetic\<close>

lemma binaryValue_safe:
  assumes "vm_inv m" "0 \<le> dst" "dst < regCount"
  shows "safe (binaryValue m op dst right)"
proof -
  obtain left where "reg m dst = Some left" using reg_defined[OF assms] by blast
  then show ?thesis
    using setRegOk_safe[OF assms] trapWith_safe[OF assms(1)] by (simp add: binaryValue_def)
qed

lemma binary_safe:
  assumes "vm_inv m" "0 \<le> dst" "dst < regCount" "0 \<le> src" "src < regCount"
  shows "safe (binary m op dst src)"
  using reg_defined[OF assms(1,4,5)] binaryValue_safe[OF assms(1-3)] by (auto simp: binary_def)

subsection \<open>Instructions\<close>

text \<open>The instruction \<open>op\<close> at \<open>pc\<close> is one that \<open>validateCode\<close> has accepted.\<close>

definition fetched :: "bytes \<Rightarrow> int \<Rightarrow> int \<Rightarrow> bool" where
  "fetched code pc op \<longleftrightarrow>
     0 \<le> pc \<and> byteAt code pc = Some op \<and> pc + instructionSize op \<le> int (length code) \<and>
     validOperands code pc = Some True"

definition immOf :: "bytes \<Rightarrow> int \<Rightarrow> i32" where
  "immOf code i = the (imm32 code i)"

lemma imm32_eq: "0 \<le> i \<Longrightarrow> i + 3 < int (length code) \<Longrightarrow> imm32 code i = Some (immOf code i)"
  using read32_defined[of i code] by (auto simp: imm32_def immOf_def)

lemma reg_eq: "vm_inv m \<Longrightarrow> 0 \<le> r \<Longrightarrow> r < regCount \<Longrightarrow> reg m r = Some (m_regs m ! nat r)"
  by (simp add: reg_def vm_inv_def)

lemma regInt_eq: "vm_inv m \<Longrightarrow> 0 \<le> r \<Longrightarrow> r < regCount \<Longrightarrow> regInt m r = Some (sint (m_regs m ! nat r))"
  by (simp add: regInt_def reg_eq)

lemmas operands = andAlso_True register_True operand_True

lemma andThen_safe:
  assumes "safe first" "\<And>m. vm_inv m \<Longrightarrow> safe (second m)"
  shows "safe (andThen first second)"
  using assms by (auto simp: andThen_def safe_def)

lemma pushReg_safe: "vm_inv m \<Longrightarrow> byteAt code i = Some r \<Longrightarrow> 0 \<le> r \<Longrightarrow> r < regCount \<Longrightarrow> safe (pushReg code i m)"
  by (simp add: pushReg_def reg_eq push_safe)

lemmas exec_safe = reg_eq regInt_eq imm32_eq setRegOk_safe push_safe popReg_safe loadStack_safe loadMem_safe
  store_safe binary_safe binaryValue_safe pushReg_safe

lemma fetched_facts:
  assumes "fetched code pc op"
  shows "0 \<le> pc" "byteAt code pc = Some op" "pc + instructionSize op \<le> int (length code)"
    "validOperands code pc = Some True"
  using assms by (simp_all add: fetched_def)

lemma execMove_safe:
  assumes "vm_inv m" "fetched code pc op"
    and "op = opMovRegImm \<or> op = opMovRegReg \<or> op = opPushReg \<or> op = opPushImm \<or> op = opPopReg"
  shows "safe (execMove code pc op m)"
  using assms(3) fetched_facts[OF assms(2)] assms(1)
  by (elim disjE; clarsimp simp: validOperands_def instructionSize_def operands execMove_def exec_safe)

lemma execFused_safe:
  assumes "vm_inv m" "fetched code pc op"
    and "op = opPushRegLoadStack \<or> op = opLoadStackPushReg \<or> op = opPushRegMovImm \<or>
      op = opLoadMemPushReg \<or> op = opLoadStackPop \<or> op = opMovRegImmPop \<or> op = opMovRegRegPop"
  shows "safe (execFused code pc op m)"
  by (insert assms(3) fetched_facts[OF assms(2)] assms(1), elim disjE;
      clarsimp simp: validOperands_def instructionSize_def operands execFused_def exec_safe;
      rule andThen_safe; simp add: exec_safe)

lemma execStack_safe:
  assumes "vm_inv m" "fetched code pc op" "op = opLoadStack \<or> op = opStoreStack \<or> op = opLeaStack"
  shows "safe (execStack code pc op m)"
  using assms(3) fetched_facts[OF assms(2)] assms(1)
  by (elim disjE; clarsimp simp: validOperands_def instructionSize_def operands execStack_def exec_safe
      Let_def address_def trapWith_def)

lemma execMem_safe:
  assumes "vm_inv m" "fetched code pc op" "op = opLoadMem \<or> op = opStoreMem"
  shows "safe (execMem code pc op m)"
  using assms(3) fetched_facts[OF assms(2)] assms(1)
  by (elim disjE; clarsimp simp: validOperands_def instructionSize_def operands execMem_def exec_safe
      Let_def validSize_def byteAt_Some split: bind_splits)

lemma execIndex_safe:
  assumes "vm_inv m" "fetched code pc op" "op = opLoadIndex \<or> op = opStoreIndex"
  shows "safe (execIndex code pc op m)"
proof -
  note f = fetched_facts[OF assms(2)]
  have sz: "instructionSize op = 10" using assms(3) by (auto simp: instructionSize_def)
  have b: "\<exists>v. byteAt code (pc + 4) = Some v" "\<exists>v. byteAt code (pc + 9) = Some v"
    using byteAt_defined[of "pc + 4" code] byteAt_defined[of "pc + 9" code] f sz by auto
  from b obtain scale size where bb: "byteAt code (pc + 4) = Some scale" "byteAt code (pc + 9) = Some size" by blast
  from assms(3) f obtain r base index where rr: "byteAt code (pc + 1) = Some r" "0 \<le> r" "r < regCount"
    "byteAt code (pc + 2) = Some base" "0 \<le> base" "base < regCount"
    "byteAt code (pc + 3) = Some index" "0 \<le> index" "index < regCount"
    and sizes: "op = opLoadIndex \<longrightarrow> validLoadSize size" "op = opStoreIndex \<longrightarrow> validSize size"
    by (elim disjE; clarsimp simp: validOperands_def operands bb)
  have i: "imm32 code (pc + 5) = Some (immOf code (pc + 5))"
    using f sz by (intro imm32_eq) auto
  have loadIndexed: "safe (loadSized m addr size \<bind> assignIf r)" if "validLoadSize size" for addr
    using loadSized_defined[OF assms(1) that, of addr] rr by (auto simp: assignIf_safe)
  show ?thesis
  proof (cases "op = opLoadIndex")
    case True
    then show ?thesis
      using loadIndexed sizes rr assms(1) i bb by (simp add: execIndex_def Let_def regInt_eq)
  next
    case False
    then have "op = opStoreIndex" using assms(3) by simp
    then show ?thesis
      using sizes rr assms(1) i bb
      by (simp add: execIndex_def Let_def regInt_eq reg_eq store_safe validSize_def)
  qed
qed


lemma execArith_safe:
  assumes "vm_inv m" "fetched code pc op"
    and "op \<ge> opAddRegReg \<and> op \<le> opShrRegReg \<or> op = opShrUnsignedRegReg \<or> op = opBinaryRegImm \<or>
      op = opAddRegImm \<or> op = opMulRegImm \<or> op = opIncReg \<or> op = opBoolNot \<or> op = opNegReg"
  shows "safe (execArith code pc op m)"
proof (cases "op \<ge> opAddRegReg \<and> op \<le> opShrRegReg \<or> op = opShrUnsignedRegReg")
  case True
  then obtain r s where "byteAt code (pc + 1) = Some r" "0 \<le> r" "r < regCount"
    "byteAt code (pc + 2) = Some s" "0 \<le> s" "s < regCount"
    using fetched_facts[OF assms(2)]
    by (elim disjE conjE; clarsimp simp: validOperands_def operands split: if_splits)
  then show ?thesis using True assms(1) by (simp add: execArith_def binary_safe)
next
  case False
  with assms(3) have "op = opBinaryRegImm \<or> op = opAddRegImm \<or> op = opMulRegImm \<or> op = opIncReg \<or>
      op = opBoolNot \<or> op = opNegReg" by blast
  then show ?thesis
    using fetched_facts[OF assms(2)] assms(1)
    by (elim disjE; clarsimp simp: validOperands_def instructionSize_def operands execArith_def exec_safe)
qed

lemma execIncMem_safe:
  assumes "vm_inv m" "fetched code pc op" "op = opIncMem \<or> op = opDecMem"
  shows "safe (execIncMem code pc op m)"
proof -
  obtain r where r: "byteAt code (pc + 1) = Some r" "0 \<le> r" "r < regCount"
    using assms(3) fetched_facts[OF assms(2)]
    by (elim disjE; clarsimp simp: validOperands_def operands)
  obtain v ok m' where "load m (sint (m_regs m ! nat r)) 4 = Some (v, ok, m')" "vm_inv m'"
    using load_defined[OF assms(1), of 4] by fastforce
  then show ?thesis using r assms(1) by (auto simp: execIncMem_def regInt_eq intro: store_safe)
qed

lemma execCompare_safe:
  assumes "vm_inv m" "fetched code pc op" "op = opCmpRegImm \<or> op = opCmpRegReg \<or> op = opSetCond"
  shows "safe (execCompare code pc op m)"
  using assms(3) fetched_facts[OF assms(2)] assms(1)
  by (elim disjE; clarsimp simp: validOperands_def instructionSize_def operands execCompare_def exec_safe)

text \<open>A jump lands on an instruction start: that is what the second loop of \<open>validateCode\<close> checks.\<close>

lemma setPC_inv: "vm_inv m \<Longrightarrow> instruction_start (img_code (m_image m)) t \<Longrightarrow> vm_inv (m\<lparr>m_pc := t\<rparr>)"
  by (simp add: vm_inv_def)

lemma jump_target_start:
  assumes "image_ok img" "instruction_start (img_code img) pc" "byteAt (img_code img) pc = Some op"
    and "jumpTarget (img_code img) pc op = Some t" "0 \<le> t"
  shows "instruction_start (img_code img) t" "t < int (length (img_code img))"
    "op = opCall \<Longrightarrow> 0 \<le> findRoutine (img_routines img) t"
proof -
  have "pc < int (length (img_code img))" using byteAt_range[OF assms(3)] by simp
  then have "\<exists>op' t'. byteAt (img_code img) pc = Some op' \<and> jumpTarget (img_code img) pc op' = Some t' \<and>
      (t' \<ge> 0 \<longrightarrow> t' < int (length (img_code img)) \<and> instruction_start (img_code img) t') \<and>
      (op' = opCall \<longrightarrow> findRoutine (img_routines img) t' \<ge> 0)"
    using assms(1,2) unfolding image_ok_def code_valid_def by blast
  then show "instruction_start (img_code img) t" "t < int (length (img_code img))"
    "op = opCall \<Longrightarrow> 0 \<le> findRoutine (img_routines img) t"
    using assms(3,4,5) by auto
qed

lemma execJump_safe:
  assumes "vm_inv m" "fetched code pc op" "code = img_code (m_image m)" "instruction_start code pc"
    and "op = opJmp \<or> op = opJz \<or> op = opJnz \<or> op = opJCond"
  shows "safe (execJump code pc op m)"
proof -
  note f = fetched_facts[OF assms(2)]
  have ok: "image_ok (m_image m)" using assms(1) by (simp add: vm_inv_def)
  define i where "i = (if op = opJCond then pc + 2 else pc + 1)"
  have "i + 3 < int (length code)" "0 \<le> i"
    using assms(5) f(1,3) unfolding i_def by (auto simp: instructionSize_def)
  then obtain t where t: "read32 code i = Some t" "0 \<le> t" using read32_defined[of i code] by blast
  have "jumpTarget code pc op = Some t"
    using assms(5) t(1) unfolding i_def by (auto simp: jumpTarget_def)
  then have "instruction_start code t"
    using jump_target_start(1)[OF ok, of pc op t] assms(3,4) f(2) t(2) by simp
  then have j: "vm_inv (m\<lparr>m_pc := t\<rparr>)" using setPC_inv[OF assms(1)] assms(3) by simp
  have c: "\<exists>c. byteAt code (pc + 1) = Some c" if "op = opJCond"
    using byteAt_defined[of "pc + 1" code] f(1,3) that by (auto simp: instructionSize_def)
  show ?thesis
    using assms(5) t(1) j assms(1) c unfolding i_def
    by (elim disjE; auto simp: execJump_def Let_def)
qed

text \<open>
  A call saves a frame whose return address is the next instruction; the callee exists because the
  target of every validated call is in the routine table.
\<close>

lemma pushFrame_inv:
  assumes "vm_inv m" "frame_ok m f" "m_sp m \<le> newFP" "newFP \<le> m_fp m"
    and "0 \<le> r" "r < int (length (img_routines (m_image m)))" "instruction_start (img_code (m_image m)) t"
  shows "vm_inv (m\<lparr>m_calls := m_calls m @ [f], m_fp := newFP, m_routine := r, m_pc := t\<rparr>)"
  using assms by (auto simp: vm_inv_def)

lemma nextInstruction_eq: "byteAt code pc = Some op \<Longrightarrow> nextInstruction code pc = pc + instructionSize op"
  by (auto simp: nextInstruction_def byteAt_def at_eq_Some_iff)

lemma nextInstruction_start:
  "instruction_start code pc \<Longrightarrow> byteAt code pc = Some op \<Longrightarrow> instruction_start code (nextInstruction code pc)"
  using byteAt_range unfolding instruction_start_def by (blast intro: reaches_snoc)

lemma execCall_safe:
  assumes "vm_inv m" "fetched code pc opCall" "code = img_code (m_image m)" "instruction_start code pc"
  shows "safe (execCall code pc (nextInstruction code pc) m)"
proof -
  note f = fetched_facts[OF assms(2)]
  let ?rs = "img_routines (m_image m)"
  have ok: "image_ok (m_image m)" using assms(1) by (simp add: vm_inv_def)
  have sz: "pc + 9 \<le> int (length code)" using f(3) by (simp add: instructionSize_def)
  obtain t where t: "read32 code (pc + 1) = Some t" "0 \<le> t"
    using read32_defined[of "pc + 1" code] f(1) sz by auto
  obtain w where w: "read32 code (pc + 5) = Some w" "0 \<le> w"
    using read32_defined[of "pc + 5" code] f(1) sz by auto
  have j: "jumpTarget code pc opCall = Some t" using t(1) by (simp add: jumpTarget_def)
  have start: "instruction_start code t" and found: "0 \<le> findRoutine ?rs t"
    using jump_target_start[OF ok, of pc opCall t] assms(3,4) f(2) t(2) j by auto
  have r: "findRoutine ?rs t < int (length ?rs)" using findRoutine_range[OF found] by simp
  have cur: "0 \<le> m_routine m" "m_routine m < int (length ?rs)" using assms(1) by (simp_all add: vm_inv_def)
  define frameSize where "frameSize =
    (if rt_framed (?rs ! nat (findRoutine ?rs t)) then rt_frameSize (?rs ! nat (m_routine m)) else 0)"
  have "?rs ! nat (m_routine m) \<in> set ?rs" using cur by (intro nth_mem) linarith
  then have fs: "0 \<le> frameSize" using ok by (auto simp: frameSize_def image_ok_def)
  define callee where "callee = ?rs ! nat (findRoutine ?rs t)"
  have c: "at ?rs (findRoutine ?rs t) = Some callee" using found r by (simp add: callee_def)
  have fs': "(if rt_framed callee then map_option rt_frameSize (at ?rs (m_routine m)) else Some 0) = Some frameSize"
    using cur by (simp add: callee_def frameSize_def)
  define frame where "frame = \<lparr>fr_pc = nextInstruction code pc, fr_fp = m_fp m, fr_sp = m_sp m,
    fr_routine = m_routine m, fr_drop = if w > 6 then (w - 6) * 4 else 0\<rparr>"
  have fr: "frame_ok m frame"
    using assms cur nextInstruction_start[OF assms(4) f(2)]
    by (auto simp: frame_ok_def frame_def vm_inv_def)
  show ?thesis
  proof (cases "m_fp m - frameSize < m_sp m \<or> m_fp m - frameSize < 0")
    case True
    have "execCall code pc (nextInstruction code pc) m = Some (trapWith m TrapMemoryLimit)"
      using True found unfolding execCall_def by (simp add: t(1) c fs' Let_def)
    then show ?thesis using assms(1) by (simp add: trapWith_safe)
  next
    case False
    have "execCall code pc (nextInstruction code pc) m = Some (updatePeak (m\<lparr>m_calls := m_calls m @ [frame],
        m_fp := m_fp m - frameSize, m_routine := findRoutine ?rs t, m_pc := t\<rparr>))"
      using False found unfolding execCall_def by (simp add: t(1) c fs' w(1) Let_def frame_def)
    moreover have "vm_inv (m\<lparr>m_calls := m_calls m @ [frame],
        m_fp := m_fp m - frameSize, m_routine := findRoutine ?rs t, m_pc := t\<rparr>)"
      using False fs found r start fr assms(1,3) by (intro pushFrame_inv) auto
    ultimately show ?thesis by (simp add: updatePeak_safe)
  qed
qed

lemma execRet_inv:
  assumes "vm_inv m"
  shows "vm_inv (snd (execRet m))"
proof (cases "m_calls m = []")
  case True
  then show ?thesis using assms by (simp add: execRet_def)
next
  case False
  have all: "list_all (frame_ok m) (m_calls m)" using assms by (simp add: vm_inv_def)
  then have fr: "frame_ok m (last (m_calls m))" using False by (simp add: list_all_iff)
  have bl: "list_all (frame_ok m) (butlast (m_calls m))"
    using all by (auto simp: list_all_iff dest: in_set_butlastD)
  show ?thesis
    using False assms fr bl by (auto simp: execRet_def Let_def trapWith_def vm_inv_def frame_ok_def)
qed

subsection \<open>The dispatch\<close>

lemma fetched_at:
  assumes "vm_inv m" "byteAt (img_code (m_image m)) (m_pc m) = Some op"
  shows "fetched (img_code (m_image m)) (m_pc m) op"
proof -
  let ?code = "img_code (m_image m)"
  have "instruction_start ?code (m_pc m)" "code_valid ?code (img_routines (m_image m))"
    using assms(1) by (simp_all add: vm_inv_def image_ok_def)
  moreover have "m_pc m < int (length ?code)" using byteAt_range[OF assms(2)] by simp
  ultimately show ?thesis
    using nextInstruction_eq[OF assms(2)] assms(2) byteAt_range[OF assms(2)]
    by (auto simp: fetched_def code_valid_def instruction_ok_def)
qed

lemma execute_safe:
  assumes "vm_inv m" "fetched code pc op" "code = img_code (m_image m)" "instruction_start code pc"
    and "op \<noteq> opSyscall"
  shows "safe (execute code pc op m)"
proof -
  have ret: "safe (Some (execRet m))"
    using execRet_inv[OF assms(1)] by (cases "execRet m") simp
  note parts = execBuildArgsEnv_safe[OF assms(1)] execMove_safe[OF assms(1,2)] execFused_safe[OF assms(1,2)]
    execStack_safe[OF assms(1,2)] execMem_safe[OF assms(1,2)] execIndex_safe[OF assms(1,2)]
    execArith_safe[OF assms(1,2)] execIncMem_safe[OF assms(1,2)] execCompare_safe[OF assms(1,2)]
    execJump_safe[OF assms(1-4)] ret trapWith_safe[OF assms(1)]
  have call: "safe (execCall code pc (nextInstruction code pc) m)" if "op = opCall"
    using execCall_safe[OF assms(1) _ assms(3,4)] assms(2) that by simp
  show ?thesis
    unfolding execute_def
    by (intro safe_if; (rule parts call; assumption)?; (simp add: assms)?)
qed

end
