(* ===== verification/VM_Isolation.thy ===== *)
theory VM_Isolation
  imports VM_Step
begin

text \<open>
  What an instruction of \<open>std/vm/vm.go\<close> leaves alone.  The \<open>world\<close> of a machine is everything
  outside the registers, the memory and the control state: the image, the limits, the step meter,
  the inputs, the outputs, the files and the descriptors.  Only the system call instruction
  touches it; every other instruction costs exactly the one step that \<open>step\<close> has charged.
\<close>

definition world where
  "world m = ((m_image m, m_limits m, m_steps m), (m_output m, m_stderr m, m_files m, m_fds m),
     (m_stdin m, m_stdinAt m, m_args m, m_env m))"

lemma world_simps [simp]:
  "world (m\<lparr>m_regs := rs\<rparr>) = world m" "world (m\<lparr>m_memory := mem\<rparr>) = world m"
  "world (m\<lparr>m_sp := i\<rparr>) = world m" "world (m\<lparr>m_pc := i\<rparr>) = world m"
  "world (m\<lparr>m_currentPC := i\<rparr>) = world m" "world (m\<lparr>m_stackBase := i\<rparr>) = world m"
  "world (m\<lparr>m_fp := i\<rparr>) = world m" "world (m\<lparr>m_routine := i\<rparr>) = world m"
  "world (m\<lparr>m_flag := w\<rparr>) = world m" "world (m\<lparr>m_calls := cs\<rparr>) = world m"
  "world (m\<lparr>m_peak := i\<rparr>) = world m" "world (m\<lparr>m_trap := t\<rparr>) = world m"
  by (simp_all add: world_def)

lemma world_facts:
  assumes "world m' = world m"
  shows "m_image m' = m_image m" "m_limits m' = m_limits m" "m_steps m' = m_steps m"
    "m_output m' = m_output m" "m_stderr m' = m_stderr m" "m_files m' = m_files m" "m_fds m' = m_fds m"
    "m_stdin m' = m_stdin m" "m_stdinAt m' = m_stdinAt m" "m_args m' = m_args m" "m_env m' = m_env m"
  using assms by (simp_all add: world_def)

definition isolated :: "machine \<Rightarrow> bool outcome \<Rightarrow> bool" where
  "isolated m r \<longleftrightarrow> (\<forall>ok m'. r = Some (ok, m') \<longrightarrow> world m' = world m)"

named_theorems isolation \<open>outcomes that leave the world of the machine alone\<close>

lemma isolated_bind: "(\<And>x. r = Some x \<Longrightarrow> isolated m (f x)) \<Longrightarrow> isolated m (r \<bind> f)"
  by (cases r) (simp_all add: isolated_def)

lemma isolated_if: "(b \<Longrightarrow> isolated m x) \<Longrightarrow> (\<not> b \<Longrightarrow> isolated m y) \<Longrightarrow> isolated m (if b then x else y)"
  by simp

lemma isolated_case:
  "(\<And>a b. p = (a, b) \<Longrightarrow> isolated m (f a b)) \<Longrightarrow> isolated m (case p of (a, b) \<Rightarrow> f a b)"
  by (cases p) simp

lemma isolated_Let: "(\<And>x. isolated m (f x)) \<Longrightarrow> isolated m (let x = t in f x)"
  by simp

lemmas isolated_rules = isolated_bind isolated_if isolated_case isolated_Let

lemma isolated_Some [simp]: "isolated m (Some (ok, m')) \<longleftrightarrow> world m' = world m"
  by (simp add: isolated_def)

lemma isolated_trapWith [isolation]: "world m' = world m \<Longrightarrow> isolated m (Some (trapWith m' t))"
  by (simp add: trapWith_def)

lemma setReg_world: "setReg m r v = Some m' \<Longrightarrow> world m' = world m"
  by (auto simp: setReg_def)

lemma isolated_setRegOk [isolation]: "world m' = world m \<Longrightarrow> isolated m (setRegOk m' r v)"
  by (auto simp: setRegOk_def isolated_def dest: setReg_world)

lemma address_world: "address m addr sz = (ok, m') \<Longrightarrow> world m' = world m"
  by (auto simp: address_def trapWith_def split: if_splits)

lemma updatePeak_world: "updatePeak m = (ok, m') \<Longrightarrow> world m' = world m"
  by (auto simp: updatePeak_def trapWith_def Let_def split: if_splits)

lemma isolated_updatePeak [isolation]: "world m' = world m \<Longrightarrow> isolated m (Some (updatePeak m'))"
  using updatePeak_world[of m'] by (cases "updatePeak m'") simp

lemma load_world: "load m addr sz = Some (v, ok, m') \<Longrightarrow> world m' = world m"
  by (auto simp: load_def Let_def dest: address_world split: if_splits bind_splits prod.splits)

lemma loadSized_world: "loadSized m addr sz = Some (v, ok, m') \<Longrightarrow> world m' = world m"
  by (auto simp: loadSized_def dest: load_world split: if_splits)

lemma isolated_assignIf [isolation]: "world m' = world m \<Longrightarrow> isolated m (assignIf r (v, ok, m'))"
  by (simp add: assignIf_def isolated_setRegOk)

lemma isolated_loadSized [isolation]: "isolated m (loadSized m addr sz \<bind> assignIf r)"
  by (rule isolated_bind) (auto intro: isolated_assignIf dest: loadSized_world)

lemma isolated_loadStack [isolation]: "isolated m (loadStack m r off)"
  unfolding loadStack_def by (rule isolated_bind) (auto intro: isolated_assignIf dest: load_world)

lemma isolated_loadMem [isolation]: "isolated m (loadMem m r base disp sz)"
  unfolding loadMem_def by (intro isolated_rules isolation)

lemma isolated_store [isolation]:
  assumes "world m' = world m"
  shows "isolated m (store m' addr sz v)"
  unfolding store_def
  by (intro isolated_rules) (use assms in \<open>auto dest: address_world\<close>)

lemma isolated_push [isolation]: "isolated m (push m v)"
  unfolding push_def
  by (intro isolated_rules isolation) (auto dest: address_world)

lemma pop_world: "pop m = Some (v, ok, m') \<Longrightarrow> world m' = world m"
  by (auto simp: pop_def trapWith_def split: if_splits bind_splits)

lemma isolated_popReg [isolation]: "isolated m (popReg m r)"
  unfolding popReg_def by (rule isolated_bind) (auto intro: isolated_assignIf dest: pop_world)

lemma buildStrings_world:
  assumes "buildStrings m vs = Some (a, ok, m')"
  shows "world m' = world m"
proof (cases "stringsEnd (lim_Memory (m_limits m)) vs (align8 (m_sp m + int (length vs) * 16))")
  case None
  then show ?thesis using assms by (auto simp: buildStrings_def Let_def trapWith_def)
next
  case (Some e)
  then show ?thesis
    using assms
    by (auto simp: buildStrings_def Let_def trapWith_def dest!: updatePeak_world
        split: if_splits bind_splits prod.splits)
qed

lemma isolated_buildArgsEnv: "isolated m (execBuildArgsEnv m)"
  by (auto simp: isolated_def execBuildArgsEnv_def dest!: buildStrings_world setReg_world
      split: bind_splits if_splits)

lemma isolated_binaryValue [isolation]: "isolated m (binaryValue m op dst right)"
  unfolding binaryValue_def by (intro isolated_rules isolation refl)

lemma isolated_binary [isolation]: "isolated m (binary m op dst src)"
  unfolding binary_def by (intro isolated_rules isolation)

lemma isolated_pushReg [isolation]: "isolated m (pushReg code i m)"
  unfolding pushReg_def by (intro isolated_rules isolation)

lemma isolated_andThen:
  assumes "isolated m first" "\<And>m. isolated m (second m)"
  shows "isolated m (andThen first second)"
proof (cases first)
  case None
  then show ?thesis by (simp add: andThen_def isolated_def)
next
  case (Some x)
  then show ?thesis using assms by (cases x) (simp add: andThen_def isolated_def)
qed

lemma isolated_move: "isolated m (execMove code pc op m)"
  unfolding execMove_def by (intro isolation isolated_rules refl)

lemma isolated_fused: "isolated m (execFused code pc op m)"
  unfolding execFused_def by (intro isolated_if isolated_andThen isolation isolated_bind refl)

lemma isolated_stack: "isolated m (execStack code pc op m)"
  unfolding execStack_def by (intro isolation isolated_rules refl) (auto dest: address_world)

lemma isolated_mem: "isolated m (execMem code pc op m)"
  unfolding execMem_def by (intro isolation isolated_rules refl)

lemma isolated_index: "isolated m (execIndex code pc op m)"
  unfolding execIndex_def by (intro isolation isolated_rules refl)

lemma isolated_arith: "isolated m (execArith code pc op m)"
  unfolding execArith_def by (intro isolation isolated_rules refl)

lemmas isolated_groups = isolated_move isolated_fused isolated_stack isolated_mem isolated_index isolated_arith

lemma isolated_incMem: "isolated m (execIncMem code pc op m)"
  unfolding execIncMem_def
  by (intro isolated_rules isolation) (auto dest: load_world)

lemma isolated_compare: "isolated m (execCompare code pc op m)"
  unfolding execCompare_def by (intro isolated_rules isolation refl) auto

lemma isolated_jump: "isolated m (execJump code pc op m)"
  unfolding execJump_def by (intro isolated_rules) auto

lemma isolated_call: "isolated m (execCall code pc nxt m)"
  unfolding execCall_def by (intro isolated_rules isolation) auto

lemma isolated_ret: "isolated m (Some (execRet m))"
  by (simp add: execRet_def trapWith_def Let_def)

lemmas isolated_control = isolated_compare isolated_jump isolated_call isolated_ret

lemma execute_world:
  assumes "execute code pc op m = Some (ok, m')" "op \<noteq> opSyscall"
  shows "world m' = world m"
proof -
  have "isolated m (execute code pc op m)"
    unfolding execute_def
    by (intro isolated_if isolated_buildArgsEnv isolated_groups isolated_incMem isolated_control
        isolated_trapWith refl; simp add: assms)
  then show ?thesis using assms(1) by (simp add: isolated_def)
qed

end
