(* ===== verification/VM_Calls.thy ===== *)
theory VM_Calls
  imports VM_Invariant VM_Isolation
begin

text \<open>
  The system calls of \<open>std/vm/vm.go\<close>: each keeps the machine's invariant, never gives steps back,
  and panics exactly in the situations \<open>readPanics\<close>, \<open>writePanics\<close> and \<open>zeroBuffer\<close> describe: a
  zero-size access at an address outside the memory, which \<open>buffer\<close> lets through, and a read at a
  position beyond the end of the data.
\<close>

subsection \<open>Preserved by every call\<close>

definition calls_ok :: "machine \<Rightarrow> bool outcome \<Rightarrow> bool" where
  "calls_ok m r \<longleftrightarrow> (\<forall>ok m'. r = Some (ok, m') \<longrightarrow>
     vm_inv m' \<and> m_image m' = m_image m \<and> m_limits m' = m_limits m \<and> m_steps m \<le> m_steps m')"

definition later :: "machine \<Rightarrow> machine \<Rightarrow> bool" where
  "later m m' \<longleftrightarrow> vm_inv m' \<and> m_image m' = m_image m \<and> m_limits m' = m_limits m \<and> m_steps m \<le> m_steps m'"

lemma calls_ok_iff: "calls_ok m r \<longleftrightarrow> (\<forall>ok m'. r = Some (ok, m') \<longrightarrow> later m m')"
  by (simp add: calls_ok_def later_def)

lemma calls_ok_Some [simp]: "calls_ok m (Some (ok, m')) \<longleftrightarrow> later m m'"
  by (simp add: calls_ok_iff)

lemma calls_ok_bind: "(\<And>x. r = Some x \<Longrightarrow> calls_ok m (f x)) \<Longrightarrow> calls_ok m (r \<bind> f)"
  by (cases r) (simp_all add: calls_ok_iff)

lemma calls_ok_if:
  "(b \<Longrightarrow> calls_ok m x) \<Longrightarrow> (\<not> b \<Longrightarrow> calls_ok m y) \<Longrightarrow> calls_ok m (if b then x else y)"
  by simp

lemma calls_ok_case:
  "(\<And>a b. p = (a, b) \<Longrightarrow> calls_ok m (f a b)) \<Longrightarrow> calls_ok m (case p of (a, b) \<Rightarrow> f a b)"
  by (cases p) simp

lemma bind_defined: "r \<noteq> None \<Longrightarrow> (\<And>x. r = Some x \<Longrightarrow> f x \<noteq> None) \<Longrightarrow> r \<bind> f \<noteq> None"
  by (cases r) simp_all

lemma later_refl: "vm_inv m \<Longrightarrow> later m m"
  by (simp add: later_def)

lemma later_trans: "later m m' \<Longrightarrow> later m' m'' \<Longrightarrow> later m m''"
  by (simp add: later_def)

lemma calls_ok_later: "later m m' \<Longrightarrow> calls_ok m' r \<Longrightarrow> calls_ok m r"
  by (auto simp: calls_ok_iff intro: later_trans)

lemma setRegOk_calls: "later m m' \<Longrightarrow> calls_ok m (setRegOk m' regRax v)"
proof -
  assume l: "later m m'"
  then have "vm_inv m'" by (simp add: later_def)
  then obtain m'' where "setReg m' regRax v = Some m''" "vm_inv m''"
    using setReg_inv[of m' regRax v] by auto
  moreover have "world m'' = world m'" using setReg_world[OF calculation(1)] .
  ultimately show ?thesis
    using l world_facts[of m'' m'] by (simp add: setRegOk_def later_def)
qed

lemma trapWith_calls: "later m m' \<Longrightarrow> calls_ok m (Some (trapWith m' t))"
  by (simp add: trapWith_def later_def)

lemma trap_later: "later m m' \<Longrightarrow> later m (m'\<lparr>m_trap := t\<rparr>)"
  by (simp add: later_def)

lemma buffer_later: "vm_inv m \<Longrightarrow> buffer m addr sz = (ok, m') \<Longrightarrow> later m m'"
  by (auto simp: buffer_def address_def trapWith_def later_def split: if_splits)

lemma charge_later:
  assumes "later m m'" "charge m' cost = (ok, m'')"
  shows "later m m''"
  using charge_inv[OF _ assms(2)] assms by (auto simp: later_def charge_def trapWith_def split: if_splits)

text \<open>Updates of the outside world that keep the invariant.\<close>

lemma memory_later: "later m m' \<Longrightarrow> length mem = length (m_memory m') \<Longrightarrow> later m (m'\<lparr>m_memory := mem\<rparr>)"
  by (auto simp: later_def vm_inv_def)

lemma stdinAt_later: "later m m' \<Longrightarrow> 0 \<le> i \<Longrightarrow> later m (m'\<lparr>m_stdinAt := i\<rparr>)"
  by (auto simp: later_def vm_inv_def)

lemma output_later:
  "later m m' \<Longrightarrow> int (length out) \<le> lim_Memory (m_limits m') \<Longrightarrow> later m (m'\<lparr>m_output := out\<rparr>)"
  "later m m' \<Longrightarrow> int (length out) \<le> lim_Memory (m_limits m') \<Longrightarrow> later m (m'\<lparr>m_stderr := out\<rparr>)"
  by (auto simp: later_def vm_inv_def)

lemma files_later:
  "later m m' \<Longrightarrow> length (m_files m') \<le> length files \<Longrightarrow> later m (m'\<lparr>m_files := files\<rparr>)"
  by (fastforce simp: later_def vm_inv_def list_all_iff fd_ok_def)

lemma room_later: "later m m' \<Longrightarrow> later m (m'\<lparr>m_fileRoom := room\<rparr>)"
  by (auto simp: later_def vm_inv_def list_all_iff fd_ok_def)

lemma fds_later:
  assumes "later m m'" "3 \<le> length fds" "list_all (fd_ok m') (drop 3 fds)"
  shows "later m (m'\<lparr>m_fds := fds\<rparr>)"
  using assms by (auto simp: later_def vm_inv_def)

lemma fdOpen_ok:
  assumes "vm_inv m" "fdOpen m fd"
  shows "3 \<le> fd" "fd < int (length (m_fds m))" "fd_ok m (fdAt m fd)"
proof -
  show b: "3 \<le> fd" "fd < int (length (m_fds m))" using assms(2) by (simp_all add: fdOpen_def)
  have "drop 3 (m_fds m) ! (nat fd - 3) = fdAt m fd" using b by simp
  moreover have "nat fd - 3 < length (drop 3 (m_fds m))" using b by simp
  ultimately have "fdAt m fd \<in> set (drop 3 (m_fds m))" by (metis nth_mem)
  then show "fd_ok m (fdAt m fd)" using assms(1) by (simp add: vm_inv_def list_all_iff)
qed

lemma setFd_later:
  assumes "later m m'" "3 \<le> fd" "fd_ok m' d"
  shows "later m (setFd m' fd d)"
proof -
  have i: "3 \<le> length (m_fds m')" "list_all (fd_ok m') (drop 3 (m_fds m'))"
    using assms(1) by (simp_all add: later_def vm_inv_def)
  have "drop 3 ((m_fds m')[nat fd := d]) = (drop 3 (m_fds m'))[nat fd - 3 := d]"
    using assms(2) by (simp add: drop_update_swap)
  moreover have "list_all (fd_ok m') ((drop 3 (m_fds m'))[nat fd - 3 := d])"
    using i(2) assms(3) set_update_subset_insert by (fastforce simp: list_all_iff)
  ultimately show ?thesis
    unfolding setFd_def using assms(1) i(1) by (intro fds_later) simp_all
qed

lemma appendFd_calls:
  assumes "later m m'" "fd_ok m' d"
  shows "calls_ok m (appendFd m' d)"
  unfolding appendFd_def Let_def
  using assms by (intro setRegOk_calls fds_later) (auto simp: later_def vm_inv_def)

subsection \<open>Reading\<close>

lemma splice_length: "splice dst pos src = Some dst' \<Longrightarrow> length dst' = length dst"
  by (auto simp: splice_def slice_eq_Some_iff split: bind_splits)

lemma splice_None: "splice dst pos src = None \<longleftrightarrow> pos < 0 \<or> pos + int (length src) > int (length dst)"
  by (auto simp: splice_def slice_def split: bind_splits if_splits)

lemma slice_None: "slice xs a b = None \<longleftrightarrow> \<not> (0 \<le> a \<and> a \<le> b \<and> b \<le> int (length xs))"
  by (simp add: slice_def)

definition readData :: "machine \<Rightarrow> int \<Rightarrow> bytes" where
  "readData m fd =
     (if fd = 0 then m_stdin m
      else if fd_file (fdAt m fd) < 0 then fd_data (fdAt m fd)
      else file_Data (m_files m ! nat (fd_file (fdAt m fd))))"

definition readRoom :: "machine \<Rightarrow> int \<Rightarrow> nat" where
  "readRoom m fd =
     (if fd = 0 then m_stdinRoom m
      else if fd_file (fdAt m fd) < 0 then fd_room (fdAt m fd)
      else m_fileRoom m (fd_file (fdAt m fd)))"

definition readPos :: "machine \<Rightarrow> int \<Rightarrow> int \<Rightarrow> int" where
  "readPos m fd offset =
     (if offset < 0 then (if fd = 0 then m_stdinAt m else fd_offset (fdAt m fd)) else offset)"

definition readCount :: "machine \<Rightarrow> int \<Rightarrow> int \<Rightarrow> int \<Rightarrow> int" where
  "readCount m fd sz offset =
     (let len = int (length (readData m fd)); pos = readPos m fd offset in
      if pos > len then 0 else if sz > len - pos then len - pos else sz)"

text \<open>The steps of \<open>readAt\<close> after the descriptor has been resolved.\<close>

lemma readAt_eq:
  assumes "vm_inv m" "buffer m addr sz = (True, m)" "fd = 0 \<or> fdOpen m fd"
    and p: "p = readPos m fd offset" and n: "n = readCount m fd sz offset" and d: "d = readData m fd"
    and r: "r = readRoom m fd"
  shows "readAt m fd addr sz offset =
    (case charge m n of (ok, m) \<Rightarrow>
     if \<not> ok then Some (False, m)
     else do {
       chunk \<leftarrow> capSlice d r p (p + n);
       mem \<leftarrow> splice (m_memory m) addr chunk;
       let m = m\<lparr>m_memory := mem\<rparr>;
           m = (if offset < 0 then
                  (if fd = 0 then m\<lparr>m_stdinAt := p + n\<rparr>
                   else setFd m fd ((fdAt m fd)\<lparr>fd_offset := p + n\<rparr>))
                else m)
       in setRegOk m regRax (word_of_int n) })"
proof -
  have data: "(if fd = 0 then Some (m_stdin m, m_stdinRoom m)
      else if fd_file (fdAt m fd) < 0 then Some (fd_data (fdAt m fd), fd_room (fdAt m fd))
      else map_option (\<lambda>f. (file_Data f, m_fileRoom m (fd_file (fdAt m fd)))) (at (m_files m) (fd_file (fdAt m fd))))
        = Some (d, r)"
    using assms(3) fdOpen_ok[OF assms(1), of fd] by (auto simp: readData_def readRoom_def fd_ok_def d r)
  have pos: "\<not> p < 0"
    using assms(1,3) fdOpen_ok[OF assms(1), of fd] by (auto simp: p readPos_def fd_ok_def vm_inv_def)
  have fd: "\<not> (fd \<noteq> 0 \<and> \<not> fdOpen m fd)" using assms(3) by blast
  have at': "(if offset < 0 then (if fd = 0 then m_stdinAt m else fd_offset (fdAt m fd)) else offset) = p"
    by (simp add: p readPos_def)
  have count: "(if p > int (length d) then 0
      else if sz > int (length d) - p then int (length d) - p else sz) = n"
    by (simp add: p n d readCount_def Let_def)
  show ?thesis
    by (simp only: readAt_def assms(2) prod.case not_True_eq_False if_False fd data bind.bind_lunit Let_def
        at' pos count)
qed

text \<open>A buffer that \<open>m.buffer\<close> accepts, and one it accepts although it lies outside the memory.\<close>

definition bufferOk :: "machine \<Rightarrow> int \<Rightarrow> int \<Rightarrow> bool" where
  "bufferOk m addr sz \<longleftrightarrow> sz = 0 \<or> minAddress \<le> addr \<and> 0 \<le> sz \<and> addr + sz \<le> int (length (m_memory m))"

definition zeroBuffer :: "machine \<Rightarrow> int \<Rightarrow> int \<Rightarrow> bool" where
  "zeroBuffer m addr sz \<longleftrightarrow> sz = 0 \<and> (addr < 0 \<or> addr > int (length (m_memory m)))"

definition readPanics :: "machine \<Rightarrow> int \<Rightarrow> int \<Rightarrow> int \<Rightarrow> int \<Rightarrow> bool" where
  "readPanics m fd addr sz offset \<longleftrightarrow>
     bufferOk m addr sz \<and> (fd = 0 \<or> fdOpen m fd) \<and>
     (zeroBuffer m addr sz \<or> readPos m fd offset > int (length (readData m fd)) + int (readRoom m fd))"

lemma buffer_eq:
  "buffer m addr sz = (if bufferOk m addr sz then (True, m) else (False, m\<lparr>m_trap := TrapMemoryLimit\<rparr>))"
  by (auto simp: buffer_def address_def bufferOk_def trapWith_def)

lemma charge_nothing: "vm_inv m \<Longrightarrow> charge m 0 = (True, m)"
  by (simp add: charge_def vm_inv_def)

lemma bufferOk_nonneg: "bufferOk m addr sz \<Longrightarrow> 0 \<le> sz"
  by (auto simp: bufferOk_def)

lemma readCount_bounds:
  "0 \<le> sz \<Longrightarrow> 0 \<le> readCount m fd sz offset \<and> readCount m fd sz offset \<le> sz"
  "readPos m fd offset \<le> int (length (readData m fd)) \<Longrightarrow>
     readPos m fd offset + readCount m fd sz offset \<le> int (length (readData m fd))"
  "readPos m fd offset > int (length (readData m fd)) \<Longrightarrow> readCount m fd sz offset = 0"
  "readPos m fd offset \<le> int (length (readData m fd)) \<Longrightarrow> sz = 0 \<Longrightarrow> readCount m fd sz offset = 0"
  by (auto simp: readCount_def Let_def)

lemma readPos_nonneg:
  assumes "vm_inv m" "fd = 0 \<or> fdOpen m fd"
  shows "0 \<le> readPos m fd offset"
  using assms fdOpen_ok[OF assms(1), of fd] by (auto simp: readPos_def fd_ok_def vm_inv_def)

lemma charge_memory: "charge m cost = (ok, m') \<Longrightarrow> m_memory m' = m_memory m"
  by (auto simp: charge_def trapWith_def split: if_splits)

lemma readAt_outside: "\<not> bufferOk m addr sz \<or> \<not> (fd = 0 \<or> fdOpen m fd) \<Longrightarrow>
    readAt m fd addr sz offset =
      (if bufferOk m addr sz then setRegOk m regRax (-1) else Some (False, m\<lparr>m_trap := TrapMemoryLimit\<rparr>))"
  by (auto simp: readAt_def buffer_eq)

lemma setRegOk_Rax: "vm_inv m \<Longrightarrow> setRegOk m regRax v \<noteq> None"
  using setReg_inv[of m regRax v] by (auto simp: setRegOk_def)

lemma readAt_None:
  assumes "vm_inv m"
  shows "readAt m fd addr sz offset = None \<longleftrightarrow> readPanics m fd addr sz offset"
proof (cases "bufferOk m addr sz \<and> (fd = 0 \<or> fdOpen m fd)")
  case False
  then show ?thesis
    using readAt_outside[of m addr sz fd offset] setRegOk_Rax[OF assms] by (auto simp: readPanics_def)
next
  case True
  let ?p = "readPos m fd offset" and ?n = "readCount m fd sz offset" and ?d = "readData m fd"
  have buf: "buffer m addr sz = (True, m)" "fd = 0 \<or> fdOpen m fd" using True by (simp_all add: buffer_eq)
  note eq = readAt_eq[OF assms buf refl refl refl refl, of offset]
  note sz = bufferOk_nonneg[of m addr sz] readCount_bounds[where m = m and fd = fd and offset = offset and sz = sz]
  have pos: "0 \<le> ?p" using readPos_nonneg[OF assms] True by blast
  obtain ok m1 where c: "charge m ?n = (ok, m1)" by (cases "charge m ?n")
  have mem: "m_memory m1 = m_memory m" using charge_memory[OF c] .
  have regs: "length (m_regs m1) = 8"
    using charge_inv[OF assms c] by (simp add: vm_inv_def)
  have tail: "setRegOk (if offset < 0 then
                  (if fd = 0 then m1\<lparr>m_memory := mem, m_stdinAt := i\<rparr> else setFd (m1\<lparr>m_memory := mem\<rparr>) fd d)
                else m1\<lparr>m_memory := mem\<rparr>) regRax v \<noteq> None" for mem i d v
    using regs by (simp add: setRegOk_def setReg_def setFd_def)
  show ?thesis
  proof (cases "?p > int (length ?d)")
    case past: True
    have inside: "capSlice ?d (readRoom m fd) ?p ?p = (if ?p > int (length ?d) + int (readRoom m fd) then None else Some [])"
      using pos by (simp add: capSlice_def)
    have "readAt m fd addr sz offset = None \<longleftrightarrow> ?p > int (length ?d) + int (readRoom m fd) \<or> zeroBuffer m addr sz"
    proof (cases "?p > int (length ?d) + int (readRoom m fd)")
      case True
      then show ?thesis using eq sz(4) past inside charge_nothing[OF assms] by simp
    next
      case room: False
      have "splice (m_memory m) addr [] = None \<longleftrightarrow> zeroBuffer m addr sz"
        using True by (auto simp: splice_None zeroBuffer_def bufferOk_def)
      then show ?thesis
        using eq sz(4) past inside room charge_nothing[OF assms] c tail
        by (cases "splice (m_memory m) addr []") (auto simp: Let_def)
    qed
    then show ?thesis using True by (auto simp: readPanics_def)
  next
    case inside: False
    then have n: "0 \<le> ?n" "?n \<le> sz" "?p + ?n \<le> int (length ?d)" using sz True by auto
    show ?thesis
    proof (cases "zeroBuffer m addr sz")
      case True
      then have "?n = 0" using sz(5) inside by (simp add: zeroBuffer_def)
      then show ?thesis
        using eq charge_nothing[OF assms] pos inside True \<open>bufferOk m addr sz \<and> (fd = 0 \<or> fdOpen m fd)\<close>
        by (auto simp: readPanics_def splice_def capSlice_def slice_def zeroBuffer_def)
    next
      case False
      then have "0 \<le> addr" "addr + ?n \<le> int (length (m_memory m))"
        using True n by (auto simp: bufferOk_def zeroBuffer_def)
      then have "readAt m fd addr sz offset \<noteq> None"
        using eq c n pos tail by (auto simp: mem splice_def capSlice_def Let_def)
      then show ?thesis using False inside by (simp add: readPanics_def)
    qed
  qed
qed

lemma readAt_calls:
  assumes "vm_inv m"
  shows "calls_ok m (readAt m fd addr sz offset)"
proof (cases "bufferOk m addr sz \<and> (fd = 0 \<or> fdOpen m fd)")
  case False
  then show ?thesis
    using readAt_outside[of m addr sz fd offset] assms
    by (auto simp: setRegOk_calls later_refl trap_later)
next
  case True
  let ?p = "readPos m fd offset" and ?n = "readCount m fd sz offset" and ?d = "readData m fd"
  have buf: "buffer m addr sz = (True, m)" "fd = 0 \<or> fdOpen m fd" using True by (simp_all add: buffer_eq)
  note eq = readAt_eq[OF assms buf refl refl refl refl, of offset]
  have pos: "0 \<le> ?p + ?n"
    using readPos_nonneg[OF assms] readCount_bounds(1)[OF bufferOk_nonneg] True by (metis add_nonneg_nonneg)
  obtain ok m1 where c: "charge m ?n = (ok, m1)" by (cases "charge m ?n")
  have l1: "later m m1" using charge_later[OF later_refl[OF assms] c] .
  have l2: "later m (if offset < 0 then
                  (if fd = 0 then m1\<lparr>m_memory := mem, m_stdinAt := ?p + ?n\<rparr>
                   else setFd (m1\<lparr>m_memory := mem\<rparr>) fd ((fdAt m1 fd)\<lparr>fd_offset := ?p + ?n\<rparr>))
                else m1\<lparr>m_memory := mem\<rparr>)" if "length mem = length (m_memory m1)" for mem
  proof -
    have l: "later m (m1\<lparr>m_memory := mem\<rparr>)" using memory_later[OF l1 that] .
    have f: "3 \<le> fd" "fd_ok (m1\<lparr>m_memory := mem\<rparr>) ((fdAt m1 fd)\<lparr>fd_offset := ?p + ?n\<rparr>)" if "fd \<noteq> 0"
    proof -
      have "fdOpen m1 fd" "vm_inv m1"
        using True that c l1 by (auto simp: charge_def trapWith_def fdOpen_def later_def split: if_splits)
      from fdOpen_ok[OF this(2,1)] show "3 \<le> fd" "fd_ok (m1\<lparr>m_memory := mem\<rparr>) ((fdAt m1 fd)\<lparr>fd_offset := ?p + ?n\<rparr>)"
        using pos by (simp_all add: fd_ok_def)
    qed
    show ?thesis
      using stdinAt_later[OF l pos] setFd_later[OF l f] l by auto
  qed
  show ?thesis
    unfolding eq
    by (intro calls_ok_case calls_ok_if calls_ok_bind)
      (use c l1 l2 in \<open>auto simp: Let_def intro!: setRegOk_calls dest: splice_length\<close>)
qed

subsection \<open>Writing\<close>

definition writePanics :: "machine \<Rightarrow> int \<Rightarrow> int \<Rightarrow> int \<Rightarrow> int \<Rightarrow> bool" where
  "writePanics m fd addr sz offset \<longleftrightarrow>
     zeroBuffer m addr sz \<and>
     (fd = 1 \<or> fd = 2 \<or>
      fdOpen m fd \<and> 0 \<le> fd_file (fdAt m fd) \<and>
        (if offset < 0 then fd_offset (fdAt m fd) else offset) \<le> lim_Memory (m_limits m))"

lemma writeStd_None:
  assumes "vm_inv m" "bufferOk m addr sz"
  shows "writeStd m fd addr sz = None \<longleftrightarrow> zeroBuffer m addr sz"
proof -
  have len: "int (length (m_output m)) \<le> lim_Memory (m_limits m)" "int (length (m_stderr m)) \<le> lim_Memory (m_limits m)"
    and regs: "length (m_regs m) = 8"
    using assms(1) by (simp_all add: vm_inv_def)
  have set': "setRegOk (if fd = 1 then m\<lparr>m_output := a\<rparr> else m\<lparr>m_stderr := a\<rparr>) regRax v \<noteq> None" for a v
    using regs by (simp add: setRegOk_def setReg_def)
  have sl: "slice (m_memory m) addr (addr + sz) = None \<longleftrightarrow> zeroBuffer m addr sz"
    using assms(2) by (auto simp: slice_None bufferOk_def zeroBuffer_def)
  show ?thesis
  proof (cases "int (length (if fd = 1 then m_output m else m_stderr m)) + sz > lim_Memory (m_limits m)")
    case True
    then have "sz \<noteq> 0" using len by (auto split: if_splits)
    then show ?thesis using True by (simp add: writeStd_def Let_def zeroBuffer_def)
  next
    case False
    then show ?thesis
      using sl set' by (cases "slice (m_memory m) addr (addr + sz)") (simp_all add: writeStd_def Let_def)
  qed
qed

lemma writeStd_calls:
  assumes "vm_inv m"
  shows "calls_ok m (writeStd m fd addr sz)"
proof -
  have "calls_ok m (setRegOk (if fd = 1 then m\<lparr>m_output := m_output m @ chunk\<rparr>
      else m\<lparr>m_stderr := m_stderr m @ chunk\<rparr>) regRax v)"
    if "int (length (if fd = 1 then m_output m else m_stderr m)) + sz \<le> lim_Memory (m_limits m)"
      "slice (m_memory m) addr (addr + sz) = Some chunk" for chunk v
    using that(1) slice_length[OF that(2)] output_later[OF later_refl[OF assms]]
    by (intro setRegOk_calls) (auto split: if_splits)
  then show ?thesis
    unfolding writeStd_def Let_def
    by (intro calls_ok_if calls_ok_bind)
      (use assms in \<open>auto simp: trapWith_calls later_refl split: if_splits\<close>)
qed

text \<open>The branch of \<open>writeAt\<close> for a file.\<close>

lemma writeFile_None:
  assumes "vm_inv m" "bufferOk m addr sz" "fdOpen m fd" "0 \<le> fd_file (fdAt m fd)"
  shows "writeFile m fd addr sz offset = None \<longleftrightarrow> zeroBuffer m addr sz \<and>
    (if offset < 0 then fd_offset (fdAt m fd) else offset) \<le> lim_Memory (m_limits m)"
proof -
  note fd = fdOpen_ok[OF assms(1,3)]
  define p where p: "p = (if offset < 0 then fd_offset (fdAt m fd) else offset)"
  have p0: "0 \<le> p" using fd by (simp add: p fd_ok_def)
  have i: "fd_file (fdAt m fd) < int (length (m_files m))" using fd by (simp add: fd_ok_def)
  have sz: "0 \<le> sz" using bufferOk_nonneg[OF assms(2)] .
  have regs: "length (m_regs m) = 8" using assms(1) by (simp add: vm_inv_def)
  have sl: "slice (m_memory m) addr (addr + sz) = None \<longleftrightarrow> zeroBuffer m addr sz"
    using assms(2) by (auto simp: slice_None bufferOk_def zeroBuffer_def)
  show ?thesis
  proof (cases "p > lim_Memory (m_limits m) \<or> sz > lim_Memory (m_limits m) - p")
    case True
    then have "writeFile m fd addr sz offset \<noteq> None"
      using setRegOk_Rax[OF assms(1), of "-1"] by (simp add: writeFile_def flip: p)
    then show ?thesis using True p0 unfolding p[symmetric] zeroBuffer_def by auto
  next
    case False
    then have nt: "\<not> (p < 0 \<or> p > lim_Memory (m_limits m) \<or> sz > lim_Memory (m_limits m) - p)"
      using p0 by simp
    show ?thesis
    proof (cases "zeroBuffer m addr sz")
      case True
      then show ?thesis using sl i nt assms(4) by (simp add: writeFile_def Let_def flip: p)
    next
      case z: False
      then obtain chunk where ch: "slice (m_memory m) addr (addr + sz) = Some chunk" using sl by blast
      have len: "int (length chunk) = sz" using slice_length[OF ch] by simp
      have sp: "splice data p chunk \<noteq> None" if "p + sz \<le> int (length data)" for data
        using that p0 len by (simp add: splice_None)
      have set': "setRegOk (if offset < 0 then setFd n fd d else n) regRax v \<noteq> None" if "m_regs n = m_regs m" for n d v
        using regs that by (simp add: setRegOk_def setReg_def setFd_def)
      have "writeFile m fd addr sz offset \<noteq> None"
        unfolding writeFile_def p[symmetric] Let_def if_not_P[OF nt] ch bind.bind_lunit
        by (intro bind_defined sp set') (use assms(4) i sz p0 in auto)
      then show ?thesis using z by simp
    qed
  qed
qed

lemma writeFile_calls:
  assumes "vm_inv m" "bufferOk m addr sz" "fdOpen m fd"
  shows "calls_ok m (writeFile m fd addr sz offset)"
proof -
  note fd = fdOpen_ok[OF assms(1,3)]
  define p where p: "p = (if offset < 0 then fd_offset (fdAt m fd) else offset)"
  have p0: "0 \<le> p" using fd by (simp add: p fd_ok_def)
  have sz: "0 \<le> sz" using bufferOk_nonneg[OF assms(2)] .
  have tail: "later m (if offset < 0
      then setFd (m\<lparr>m_files := fs, m_fileRoom := room\<rparr>) fd
        ((fdAt (m\<lparr>m_files := fs, m_fileRoom := room\<rparr>) fd)\<lparr>fd_offset := p + sz\<rparr>)
      else m\<lparr>m_files := fs, m_fileRoom := room\<rparr>)" if "put (m_files m) i f = Some fs" for i f fs room
  proof -
    have "later m (m\<lparr>m_files := fs, m_fileRoom := room\<rparr>)"
      using room_later[OF files_later[OF later_refl[OF assms(1)]]] put_length[OF that] by simp
    moreover have "fd_ok (m\<lparr>m_files := fs, m_fileRoom := room\<rparr>)
        ((fdAt (m\<lparr>m_files := fs, m_fileRoom := room\<rparr>) fd)\<lparr>fd_offset := p + sz\<rparr>)"
      using fd p0 sz put_length[OF that] by (simp add: fd_ok_def)
    ultimately show ?thesis using setFd_later fd(1) by simp
  qed
  show ?thesis
    unfolding writeFile_def p[symmetric] Let_def
    by (intro calls_ok_if calls_ok_bind setRegOk_calls tail later_refl assms(1))
qed

lemma charge_eq: "charge m cost = (True, m') \<Longrightarrow> m' = m\<lparr>m_steps := m_steps m + cost\<rparr>"
  by (auto simp: charge_def trapWith_def split: if_splits)

lemma charge_views [simp]:
  "fdOpen (m\<lparr>m_steps := s\<rparr>) fd = fdOpen m fd" "bufferOk (m\<lparr>m_steps := s\<rparr>) addr sz = bufferOk m addr sz"
  "zeroBuffer (m\<lparr>m_steps := s\<rparr>) addr sz = zeroBuffer m addr sz"
  by (simp_all add: fdOpen_def bufferOk_def zeroBuffer_def)

lemma writeAt_outside:
  "\<not> bufferOk m addr sz \<Longrightarrow> writeAt m fd addr sz offset = Some (False, m\<lparr>m_trap := TrapMemoryLimit\<rparr>)"
  by (simp add: writeAt_def buffer_eq)

lemma writeAt_uncharged:
  "bufferOk m addr sz \<Longrightarrow> charge m sz = (False, m1) \<Longrightarrow> writeAt m fd addr sz offset = Some (False, m1)"
  by (simp add: writeAt_def buffer_eq)

lemma writeAt_charged:
  "bufferOk m addr sz \<Longrightarrow> charge m sz = (True, m1) \<Longrightarrow> writeAt m fd addr sz offset =
     (if fd = 1 \<or> fd = 2 then writeStd m1 fd addr sz
      else if \<not> fdOpen m1 fd \<or> fd_file (fdAt m1 fd) < 0 then setRegOk m1 regRax (-1)
      else writeFile m1 fd addr sz offset)"
  by (simp add: writeAt_def buffer_eq)

lemma zeroBuffer_ok: "zeroBuffer m addr sz \<Longrightarrow> bufferOk m addr sz \<and> sz = 0"
  by (simp add: zeroBuffer_def bufferOk_def)

lemma writeAt_None:
  assumes "vm_inv m"
  shows "writeAt m fd addr sz offset = None \<longleftrightarrow> writePanics m fd addr sz offset"
proof (cases "bufferOk m addr sz")
  case False
  then show ?thesis using writeAt_outside[OF False] zeroBuffer_ok[of m addr sz] by (auto simp: writePanics_def)
next
  case buf: True
  obtain ok m1 where c: "charge m sz = (ok, m1)" by (cases "charge m sz")
  show ?thesis
  proof (cases ok)
    case False
    then have "sz \<noteq> 0" using c charge_nothing[OF assms] by auto
    then show ?thesis
      using False c writeAt_uncharged[OF buf] zeroBuffer_ok[of m addr sz] by (auto simp: writePanics_def)
  next
    case True
    then have c': "charge m sz = (True, m1)" using c by simp
    have inv1: "vm_inv m1" using charge_inv[OF assms c] .
    have m1: "fdOpen m1 fd = fdOpen m fd" "bufferOk m1 addr sz" "zeroBuffer m1 addr sz = zeroBuffer m addr sz"
      "m_fds m1 = m_fds m" "m_limits m1 = m_limits m"
      using buf charge_eq[OF c'] by simp_all
    have a: "setRegOk m1 regRax (-1) \<noteq> None" by (rule setRegOk_Rax[OF inv1])
    show ?thesis
      unfolding writeAt_charged[OF buf c'] writePanics_def
      using writeStd_None[OF inv1 m1(2), of fd] writeFile_None[OF inv1 m1(2), of fd offset] a
      by (simp add: m1 not_le split del: if_split cong: if_cong) (auto simp: m1 not_less)
  qed
qed

lemma writeAt_calls:
  assumes "vm_inv m"
  shows "calls_ok m (writeAt m fd addr sz offset)"
proof (cases "bufferOk m addr sz")
  case False
  then show ?thesis using writeAt_outside assms by (simp add: trap_later later_refl)
next
  case buf: True
  obtain ok m1 where c: "charge m sz = (ok, m1)" by (cases "charge m sz")
  have l1: "later m m1" using charge_later[OF later_refl[OF assms] c] .
  then have inv1: "vm_inv m1" by (simp add: later_def)
  show ?thesis
  proof (cases ok)
    case False
    then show ?thesis using c writeAt_uncharged[OF buf] l1 by simp
  next
    case True
    then have c': "charge m sz = (True, m1)" using c by simp
    then have buf1: "bufferOk m1 addr sz" using buf charge_eq[OF c'] by simp
    show ?thesis
      unfolding writeAt_charged[OF buf c']
      by (rule calls_ok_later[OF l1], intro calls_ok_if)
        (auto intro!: setRegOk_calls writeStd_calls writeFile_calls inv1 buf1 later_refl)
  qed
qed

subsection \<open>Opening\<close>

lemma findFile_range: "findFile fs name i \<noteq> -1 \<Longrightarrow> i \<le> findFile fs name i \<and> findFile fs name i < i + int (length fs)"
  by (induction fs name i rule: findFile.induct) (fastforce split: if_splits)+

lemma openFile_ok:
  assumes "vm_inv m" "file < int (length (m_files m))"
  shows "calls_ok m (openFile m name file flags) \<and> openFile m name file flags \<noteq> None"
proof -
  define m0 where "m0 = (if file < 0 then m\<lparr>m_files := m_files m @ [\<lparr>file_Name = name, file_Data = [], file_Mode = 493\<rparr>],
      m_fileRoom := (m_fileRoom m)(int (length (m_files m)) := 0)\<rparr> else m)"
  define i where "i = (if file < 0 then int (length (m_files m)) else file)"
  have pair: "(if file < 0 then
        (m\<lparr>m_files := m_files m @ [\<lparr>file_Name = name, file_Data = [], file_Mode = 493\<rparr>],
      m_fileRoom := (m_fileRoom m)(int (length (m_files m)) := 0)\<rparr>, int (length (m_files m)))
      else (m, file)) = (m0, i)"
    by (simp add: m0_def i_def)
  have l0: "later m m0" using room_later[OF files_later[OF later_refl[OF assms(1)]]] later_refl[OF assms(1)] by (simp add: m0_def)
  have i: "0 \<le> i" "i < int (length (m_files m0))" using assms(2) by (auto simp: i_def m0_def)
  define m1 where "m1 = (if flags AND flagTruncate \<noteq> 0
    then m0\<lparr>m_files := (m_files m0)[nat i := (m_files m0 ! nat i)\<lparr>file_Data := []\<rparr>], m_fileRoom := (m_fileRoom m0)(i := 0)\<rparr> else m0)"
  have trunc: "(if flags AND flagTruncate \<noteq> 0 then do {
        f \<leftarrow> at (m_files m0) i;
        map_option (\<lambda>fs. m0\<lparr>m_files := fs, m_fileRoom := (m_fileRoom m0)(i := 0)\<rparr>) (put (m_files m0) i (f\<lparr>file_Data := []\<rparr>)) }
      else Some m0) = Some m1"
    using i by (simp add: m1_def)
  have l1: "later m m1" using room_later[OF files_later[OF l0]] l0 by (simp add: m1_def)
  have d: "fd_ok m1 \<lparr>fd_file = i, fd_offset = 0, fd_open = True, fd_data = [], fd_room = 0\<rparr>"
    using i by (simp add: fd_ok_def m1_def)
  have answer: "setRegOk m regRax (-1) \<noteq> None" "calls_ok m (setRegOk m regRax (-1))"
    using setRegOk_Rax[OF assms(1)] setRegOk_calls[OF later_refl[OF assms(1)]] by blast+
  have last: "appendFd m1 \<lparr>fd_file = i, fd_offset = 0, fd_open = True, fd_data = [], fd_room = 0\<rparr> \<noteq> None"
    using l1 by (simp add: appendFd_def setRegOk_def setReg_def later_def vm_inv_def)
  show ?thesis
    unfolding openFile_def pair Let_def prod.case trunc bind.bind_lunit
    using answer last appendFd_calls[OF l1 d] by simp
qed

lemma directoryFd_ok:
  assumes "vm_inv m" "fd_file d = -1" "fd_offset d = 0"
  shows "calls_ok m (appendFd m d) \<and> appendFd m d \<noteq> None"
  using appendFd_calls[OF later_refl[OF assms(1)], of d] assms
  by (simp add: fd_ok_def appendFd_def setRegOk_def setReg_def vm_inv_def)

text \<open>The part of \<open>open\<close> after the name has been read.\<close>

lemma vmOpen_eq:
  assumes "vm_inv m" "addr = sint (m_regs m ! nat regRdi)" "sz = sint (m_regs m ! nat regRdx)"
    and "flags = sint (m_regs m ! nat regRsi)" "bufferOk m addr sz"
  shows "vmOpen m = do {
     sz \<leftarrow> (if sz > 0 then map_option (\<lambda>b. if b = 0 then sz - 1 else sz) (at (m_memory m) (addr + sz - 1))
            else Some sz);
     name \<leftarrow> slice (m_memory m) addr (addr + sz);
     let file = findFile (m_files m) name 0 in
     (case (if file < 0 then directoryData m name else None) of
        Some data \<Rightarrow>
          if flags AND (flagCreate OR flagTruncate) \<noteq> 0 then setRegOk m regRax (-1)
          else appendFd m \<lparr>fd_file = -1, fd_offset = 0, fd_open = True, fd_data = data, fd_room = m_listRoom m data\<rparr>
      | None \<Rightarrow> openFile m name file flags) }"
proof -
  have r: "regInt m regRdi = Some addr" "regInt m regRdx = Some sz" "regInt m regRsi = Some flags"
    using assms(1) by (simp_all add: regInt_eq assms(2-4))
  show ?thesis
    by (simp only: vmOpen_def r buffer_eq assms(5) bind.bind_lunit if_True if_False prod.case not_True_eq_False)
qed

lemma vmOpen_tail:
  assumes "vm_inv m"
  shows "(case (if findFile (m_files m) name 0 < 0 then directoryData m name else None) of
        Some data \<Rightarrow>
          if flags AND (flagCreate OR flagTruncate) \<noteq> 0 then setRegOk m regRax (-1)
          else appendFd m \<lparr>fd_file = -1, fd_offset = 0, fd_open = True, fd_data = data, fd_room = m_listRoom m data\<rparr>
      | None \<Rightarrow> openFile m name (findFile (m_files m) name 0) flags) = r \<Longrightarrow> calls_ok m r \<and> r \<noteq> None"
proof -
  have f: "findFile (m_files m) name 0 < int (length (m_files m))"
    using findFile_range[of "m_files m" name 0] by fastforce
  assume "(case (if findFile (m_files m) name 0 < 0 then directoryData m name else None) of
        Some data \<Rightarrow>
          if flags AND (flagCreate OR flagTruncate) \<noteq> 0 then setRegOk m regRax (-1)
          else appendFd m \<lparr>fd_file = -1, fd_offset = 0, fd_open = True, fd_data = data, fd_room = m_listRoom m data\<rparr>
      | None \<Rightarrow> openFile m name (findFile (m_files m) name 0) flags) = r"
  then show ?thesis
    using openFile_ok[OF assms f, of name flags] directoryFd_ok[OF assms]
      setRegOk_Rax[OF assms, of "-1"] setRegOk_calls[OF later_refl[OF assms], of "-1"]
    by (auto split: option.splits if_splits)
qed

lemma vmOpen_ok:
  assumes "vm_inv m"
  shows "calls_ok m (vmOpen m) \<and> (vmOpen m = None \<longleftrightarrow>
    zeroBuffer m (sint (m_regs m ! nat regRdi)) (sint (m_regs m ! nat regRdx)))"
proof -
  define addr size' where as: "addr = sint (m_regs m ! nat regRdi)" "size' = sint (m_regs m ! nat regRdx)"
  have "calls_ok m (vmOpen m) \<and> (vmOpen m = None \<longleftrightarrow> zeroBuffer m addr size')" (is ?goal)
  proof (cases "bufferOk m addr size'")
    case False
    then have "vmOpen m = Some (False, m\<lparr>m_trap := TrapMemoryLimit\<rparr>)"
      using assms by (simp add: vmOpen_def regInt_eq buffer_eq as)
    then show ?goal using False zeroBuffer_ok assms by (auto simp: trap_later later_refl)
  next
    case True
    note eq = vmOpen_eq[OF assms as refl True]
    note tail = vmOpen_tail[OF assms refl, where flags = "sint (m_regs m ! nat regRsi)"]
    show ?goal
    proof (cases "zeroBuffer m addr size'")
      case z: True
      then have "slice (m_memory m) addr (addr + size') = None" by (auto simp: slice_None zeroBuffer_def)
      then show ?goal using eq z by (simp add: zeroBuffer_def calls_ok_iff)
    next
      case z: False
      define sz where "sz = (if size' > 0 \<and> m_memory m ! nat (addr + size' - 1) = 0 then size' - 1 else size')"
      have "size' > 0 \<Longrightarrow> 0 \<le> addr + size' - 1 \<and> addr + size' - 1 < int (length (m_memory m))"
        using True by (auto simp: bufferOk_def)
      then have a: "size' > 0 \<Longrightarrow> at (m_memory m) (addr + size' - 1) = Some (m_memory m ! nat (addr + size' - 1))"
        by simp
      have sz: "(if size' > 0 then map_option (\<lambda>b. if b = 0 then size' - 1 else size')
          (at (m_memory m) (addr + size' - 1)) else Some size') = Some sz" "0 \<le> sz" "sz \<le> size'"
        using a bufferOk_nonneg[OF True] by (simp_all add: sz_def)
      obtain name where name: "slice (m_memory m) addr (addr + sz) = Some name"
      proof -
        have "0 \<le> addr" "addr + sz \<le> int (length (m_memory m))"
          using z True sz(2,3) by (auto simp: zeroBuffer_def bufferOk_def)
        then show ?thesis using that sz(2) by simp
      qed
      show ?goal
        unfolding eq sz(1) bind.bind_lunit name Let_def using tail[of name] z by blast
    qed
  qed
  then show ?thesis by (simp only: as)
qed

subsection \<open>The dispatch of system calls\<close>

text \<open>The register contents a system call looks at.\<close>

abbreviation (input) argRax :: "machine \<Rightarrow> int" where "argRax m \<equiv> sint (m_regs m ! nat regRax)"
abbreviation (input) argRdi :: "machine \<Rightarrow> int" where "argRdi m \<equiv> sint (m_regs m ! nat regRdi)"
abbreviation (input) argRsi :: "machine \<Rightarrow> int" where "argRsi m \<equiv> sint (m_regs m ! nat regRsi)"
abbreviation (input) argRdx :: "machine \<Rightarrow> int" where "argRdx m \<equiv> sint (m_regs m ! nat regRdx)"
abbreviation (input) argR10 :: "machine \<Rightarrow> int" where "argR10 m \<equiv> sint (m_regs m ! nat regR10)"

definition syscallPanics :: "machine \<Rightarrow> bool" where
  "syscallPanics m \<longleftrightarrow>
     (if argRax m = 0 \<or> argRax m = 1 then
        if argRax m = 0 then readPanics m (argRdi m) (argRsi m) (argRdx m) (-1)
        else writePanics m (argRdi m) (argRsi m) (argRdx m) (-1)
      else if argRax m = 3 then False
      else if argRax m = 17 then readPanics m (argRdi m) (argRsi m) (argRdx m) (argR10 m)
      else if argRax m = 18 then writePanics m (argRdi m) (argRsi m) (argRdx m) (argR10 m)
      else if argRax m = sysGetdents64 then
        fdOpen m (argRdi m) \<and> fd_file (fdAt m (argRdi m)) < 0 \<and>
        readPanics m (argRdi m) (argRsi m) (argRdx m) (-1)
      else if argRax m = 2 then zeroBuffer m (argRdi m) (argRdx m)
      else False)"

text \<open>The call keeps the invariant and panics exactly when \<open>P\<close>.\<close>

definition exact :: "machine \<Rightarrow> bool \<Rightarrow> bool outcome \<Rightarrow> bool" where
  "exact m P r \<longleftrightarrow> calls_ok m r \<and> (r = None \<longleftrightarrow> P)"

lemma exact_if: "exact m P x \<Longrightarrow> exact m Q y \<Longrightarrow> exact m (if b then P else Q) (if b then x else y)"
  by simp

lemma exact_same: "exact m P x \<Longrightarrow> exact m P y \<Longrightarrow> exact m P (if b then x else y)"
  by simp

lemma exact_and: "exact m P y \<Longrightarrow> exact m False x \<Longrightarrow> exact m (\<not> b \<and> P) (if b then x else y)"
  by simp

lemma close_ok:
  assumes "vm_inv m"
    and r: "r = (if \<not> fdOpen m fd then setRegOk m regRax (-1)
      else setRegOk (setFd m fd ((fdAt m fd)\<lparr>fd_open := False\<rparr>)) regRax 0)"
  shows "calls_ok m r" "r \<noteq> None"
proof -
  have l: "later m (setFd m fd ((fdAt m fd)\<lparr>fd_open := False\<rparr>))" if "fdOpen m fd"
    using fdOpen_ok[OF assms(1) that] by (intro setFd_later later_refl assms) (simp_all add: fd_ok_def)
  then show "calls_ok m r" using assms(1) by (simp add: r setRegOk_calls later_refl)
  have "setRegOk (setFd m fd ((fdAt m fd)\<lparr>fd_open := False\<rparr>)) regRax 0 \<noteq> None" if "fdOpen m fd"
    using l[OF that] by (intro setRegOk_Rax) (simp add: later_def)
  then show "r \<noteq> None" using setRegOk_Rax[OF assms(1)] by (simp add: r)
qed

lemma chmod_ok:
  assumes "vm_inv m"
    and r: "r = (if \<not> fdOpen m fd \<or> fd_file (fdAt m fd) < 0 then setRegOk m regRax (-1)
     else do {
       f \<leftarrow> at (m_files m) (fd_file (fdAt m fd));
       files \<leftarrow> put (m_files m) (fd_file (fdAt m fd)) (f\<lparr>file_Mode := mode\<rparr>);
       setRegOk (m\<lparr>m_files := files\<rparr>) regRax 0 })"
  shows "calls_ok m r" "r \<noteq> None"
proof -
  have f: "fd_file (fdAt m fd) < int (length (m_files m))" if "fdOpen m fd"
    using fdOpen_ok[OF assms(1) that] by (simp add: fd_ok_def)
  have l: "later m (m\<lparr>m_files := files\<rparr>)" if "put (m_files m) i f = Some files" for i f files
    using files_later[OF later_refl[OF assms(1)]] put_length[OF that] by simp
  have d: "setRegOk (m\<lparr>m_files := files\<rparr>) regRax 0 \<noteq> None" if "put (m_files m) i f = Some files" for i f files
    using l[OF that] by (intro setRegOk_Rax) (simp add: later_def)
  show "calls_ok m r"
    unfolding r by (intro calls_ok_if calls_ok_bind setRegOk_calls later_refl assms(1) l)
  show "r \<noteq> None"
  proof (cases "\<not> fdOpen m fd \<or> fd_file (fdAt m fd) < 0")
    case True
    then show ?thesis using setRegOk_Rax[OF assms(1), of "-1"] by (simp add: r)
  next
    case False
    show ?thesis
      unfolding r if_not_P[OF False]
    proof (intro bind_defined)
      show "at (m_files m) (fd_file (fdAt m fd)) \<noteq> None" using False f by auto
      show "put (m_files m) (fd_file (fdAt m fd)) (x\<lparr>file_Mode := mode\<rparr>) \<noteq> None" for x using False f by auto
    qed (rule d)
  qed
qed

lemma exact_buffer:
  assumes "vm_inv m" "exact m P r" "P \<Longrightarrow> bufferOk m addr sz"
  shows "exact m P (case buffer m addr sz of (ok, m) \<Rightarrow> if \<not> ok then Some (False, m) else r)"
  using assms by (auto simp: buffer_eq exact_def trap_later later_refl)

lemma panics_buffer:
  "readPanics m fd addr sz off \<Longrightarrow> bufferOk m addr sz" "writePanics m fd addr sz off \<Longrightarrow> bufferOk m addr sz"
  using zeroBuffer_ok by (auto simp: readPanics_def writePanics_def)

lemma exact_calls:
  assumes "vm_inv m"
  shows "exact m (readPanics m fd addr sz off) (readAt m fd addr sz off)"
    "exact m (writePanics m fd addr sz off) (writeAt m fd addr sz off)"
    "exact m False (setRegOk m regRax (-1))"
  using readAt_None[OF assms] readAt_calls[OF assms] writeAt_None[OF assms] writeAt_calls[OF assms]
    setRegOk_Rax[OF assms, of "-1"] setRegOk_calls[OF later_refl[OF assms], of "-1"]
  by (simp_all add: exact_def)

lemma readWrite_exact:
  assumes "vm_inv m"
  shows "exact m (if n = 0 then readPanics m fd addr sz (-1) else writePanics m fd addr sz (-1))
    (case buffer m addr sz of (ok, m) \<Rightarrow>
        if \<not> ok then Some (False, m)
        else if n = 0 then readAt m fd addr sz (-1)
        else writeAt m fd addr sz (-1))"
  using exact_calls(1,2)[OF assms, of fd addr sz "-1"] panics_buffer[of m fd addr sz "-1"] assms
  by (auto simp: buffer_eq exact_def trap_later later_refl)

lemma vmSyscall_exact:
  assumes "vm_inv m"
  shows "exact m (syscallPanics m) (vmSyscall m)"
proof -
  have r: "regInt m regRax = Some (argRax m)" "regInt m regRdi = Some (argRdi m)"
    "regInt m regRsi = Some (argRsi m)" "regInt m regRdx = Some (argRdx m)" "regInt m regR10 = Some (argR10 m)"
    using assms by (simp_all add: regInt_eq)
  have getdents: "exact m (fdOpen m fd \<and> fd_file (fdAt m fd) < 0 \<and> P)
      (if \<not> fdOpen m fd \<or> fd_file (fdAt m fd) \<ge> 0 then setRegOk m regRax (-1) else x)" if "exact m P x" for fd P x
    using that exact_calls(3)[OF assms] by (auto simp: exact_def)
  have total: "exact m False x" if "calls_ok m x" "x \<noteq> None" for x
    using that by (simp add: exact_def)
  note close = total[OF close_ok[OF assms refl, of "argRdi m"]]
  note chmod = total[OF chmod_ok[OF assms refl, of "argRdi m" "argRsi m"]]
  have "exact m (zeroBuffer m (argRdi m) (argRdx m)) (vmOpen m)"
    using vmOpen_ok[OF assms] by (simp add: exact_def)
  then show ?thesis
    unfolding vmSyscall_def r bind.bind_lunit syscallPanics_def
    by (intro exact_if readWrite_exact getdents exact_calls assms)
      (assumption | rule close | rule exact_same [OF chmod exact_calls(3) [OF assms]])+
qed

end
