(* ===== verification/VM_Run.thy ===== *)
theory VM_Run
  imports VM_Calls
begin

text \<open>
  Whole runs of \<open>std/vm/vm.go\<close>: one \<open>step\<close> keeps the invariant and spends a step, the machine
  \<open>RunConfig\<close> builds satisfies the invariant, and the loop of \<open>RunConfig\<close> is an instance of a
  loop whose iterations spend a bounded budget.
\<close>

subsection \<open>One step\<close>

lemma syscallPanics_simps [simp]:
  "syscallPanics (m\<lparr>m_pc := i\<rparr>) = syscallPanics m" "syscallPanics (m\<lparr>m_currentPC := i\<rparr>) = syscallPanics m"
  "syscallPanics (m\<lparr>m_steps := i\<rparr>) = syscallPanics m"
  by (simp_all add: syscallPanics_def readPanics_def writePanics_def bufferOk_def zeroBuffer_def fdOpen_def
      readPos_def readData_def readRoom_def)

lemma pc_start: "vm_inv m \<Longrightarrow> instruction_start (img_code (m_image m)) (m_pc m)"
  by (simp add: vm_inv_def)

lemma pc_byte:
  assumes "vm_inv m" "m_pc m < int (length (img_code (m_image m)))"
  shows "\<exists>op. byteAt (img_code (m_image m)) (m_pc m) = Some op"
  using assms byteAt_defined[of "m_pc m" "img_code (m_image m)"]
  by (auto simp: vm_inv_def image_ok_def code_valid_def)

lemma nextPC_inv:
  assumes "vm_inv m" "byteAt (img_code (m_image m)) (m_pc m) = Some op"
  shows "vm_inv (m\<lparr>m_pc := nextInstruction (img_code (m_image m)) (m_pc m)\<rparr>)"
  using setPC_inv[OF assms(1)] nextInstruction_start[OF pc_start[OF assms(1)] assms(2)] .

text \<open>The machine on which \<open>step\<close> executes the instruction at \<open>m.pc\<close>.\<close>

definition dispatched :: "machine \<Rightarrow> machine" where
  "dispatched m = m\<lparr>m_currentPC := m_pc m, m_steps := m_steps m + 1,
     m_pc := nextInstruction (img_code (m_image m)) (m_pc m)\<rparr>"

lemma dispatched_simps [simp]:
  "m_image (dispatched m) = m_image m" "m_limits (dispatched m) = m_limits m"
  "m_steps (dispatched m) = m_steps m + 1" "syscallPanics (dispatched m) = syscallPanics m"
  "m_trap (dispatched m) = m_trap m" "m_regs (dispatched m) = m_regs m" "m_memory (dispatched m) = m_memory m"
  "m_currentPC (dispatched m) = m_pc m" "m_calls (dispatched m) = m_calls m"
  by (simp_all add: dispatched_def)

lemma vmStep_cases:
  assumes "vm_inv m"
  shows "vmStep m =
    (if m_pc m = int (length (img_code (m_image m))) then Some (trapWith m TrapInvalidInstruction)
     else if m_steps m = lim_Steps (m_limits m) then Some (trapWith (m\<lparr>m_currentPC := m_pc m\<rparr>) TrapStepLimit)
     else execute (img_code (m_image m)) (m_pc m) (the (byteAt (img_code (m_image m)) (m_pc m))) (dispatched m))"
proof -
  have pc: "0 \<le> m_pc m" "m_pc m \<le> int (length (img_code (m_image m)))"
    and st: "m_steps m \<le> lim_Steps (m_limits m)"
    using assms by (auto simp: vm_inv_def image_ok_def code_valid_def)
  show ?thesis
  proof (cases "m_pc m < int (length (img_code (m_image m)))")
    case True
    then obtain op where "byteAt (img_code (m_image m)) (m_pc m) = Some op" using pc_byte[OF assms] by blast
    then show ?thesis
      using True pc st by (simp add: vmStep_def charge_def trapWith_def dispatched_def Let_def)
  next
    case False
    then show ?thesis using pc by (simp add: vmStep_def Let_def)
  qed
qed

lemma dispatched_inv:
  assumes "vm_inv m" "m_pc m \<noteq> int (length (img_code (m_image m)))" "m_steps m \<noteq> lim_Steps (m_limits m)"
  obtains op where "byteAt (img_code (m_image m)) (m_pc m) = Some op" "vm_inv (dispatched m)"
    "fetched (img_code (m_image m)) (m_pc m) op" "m_pc m < int (length (img_code (m_image m)))"
proof -
  have "m_pc m < int (length (img_code (m_image m)))"
    using assms(1,2) by (fastforce simp: vm_inv_def image_ok_def code_valid_def)
  then obtain op where op: "byteAt (img_code (m_image m)) (m_pc m) = Some op" using pc_byte[OF assms(1)] by blast
  have "vm_inv (m\<lparr>m_pc := nextInstruction (img_code (m_image m)) (m_pc m)\<rparr>)" by (rule nextPC_inv[OF assms(1) op])
  then have "vm_inv (dispatched m)" using assms(3) by (auto simp: dispatched_def vm_inv_def)
  with op show ?thesis using that fetched_at[OF assms(1) op] byteAt_range[OF op] by blast
qed

lemma execute_later:
  assumes "vm_inv m" "fetched code pc op" "code = img_code (m_image m)" "instruction_start code pc"
  shows "exact m (op = opSyscall \<and> syscallPanics m) (execute code pc op m)"
proof (cases "op = opSyscall")
  case True
  then show ?thesis using vmSyscall_exact[OF assms(1)] by (simp add: execute_def)
next
  case False
  obtain ok m' where r: "execute code pc op m = Some (ok, m')" "vm_inv m'"
    using execute_safe[OF assms False] by (auto simp: safe_def)
  then show ?thesis
    using False world_facts[OF execute_world[OF r(1) False]] by (simp add: exact_def later_def)
qed

lemma vmStep_later:
  assumes "vm_inv m" "vmStep m = Some (ok, m')"
  shows "later m m'" "ok \<Longrightarrow> m_steps m < m_steps m'"
proof -
  consider "m_pc m = int (length (img_code (m_image m)))"
    | "m_pc m \<noteq> int (length (img_code (m_image m)))" "m_steps m = lim_Steps (m_limits m)"
    | "m_pc m \<noteq> int (length (img_code (m_image m)))" "m_steps m \<noteq> lim_Steps (m_limits m)" by blast
  then have "later m m' \<and> (ok \<longrightarrow> m_steps m < m_steps m')"
  proof cases
    case 3
    then obtain op where op: "byteAt (img_code (m_image m)) (m_pc m) = Some op" "vm_inv (dispatched m)"
      "fetched (img_code (m_image m)) (m_pc m) op" using dispatched_inv[OF assms(1)] by blast
    have "exact (dispatched m) (op = opSyscall \<and> syscallPanics m) (execute (img_code (m_image m)) (m_pc m) op (dispatched m))"
      using execute_later[OF op(2,3)] pc_start[OF assms(1)] by simp
    then have "later (dispatched m) m'"
      using assms 3 op(1) by (simp add: vmStep_cases exact_def calls_ok_iff)
    then show ?thesis by (simp add: later_def)
  qed (use assms vmStep_cases[OF assms(1)] in \<open>auto simp: trapWith_def later_def\<close>)
  then show "later m m'" "ok \<Longrightarrow> m_steps m < m_steps m'" by simp_all
qed

lemma vmStep_None:
  assumes "vm_inv m"
  shows "vmStep m = None \<longleftrightarrow>
    byteAt (img_code (m_image m)) (m_pc m) = Some opSyscall \<and> m_steps m < lim_Steps (m_limits m) \<and> syscallPanics m"
proof (cases "m_pc m = int (length (img_code (m_image m))) \<or> m_steps m = lim_Steps (m_limits m)")
  case True
  then have "vmStep m \<noteq> None" using vmStep_cases[OF assms] by (auto simp: trapWith_def)
  then show ?thesis using True by (auto dest: byteAt_range)
next
  case False
  then obtain op where op: "byteAt (img_code (m_image m)) (m_pc m) = Some op" "vm_inv (dispatched m)"
      "fetched (img_code (m_image m)) (m_pc m) op" using dispatched_inv[OF assms] by blast
  have "exact (dispatched m) (op = opSyscall \<and> syscallPanics m) (execute (img_code (m_image m)) (m_pc m) op (dispatched m))"
    using execute_later[OF op(2,3)] pc_start[OF assms] by simp
  moreover have "m_steps m < lim_Steps (m_limits m)" using assms False by (simp add: vm_inv_def)
  ultimately show ?thesis using False op(1) by (simp add: vmStep_cases[OF assms] exact_def)
qed

subsection \<open>Loops that spend a budget\<close>

text \<open>
  The contract of a fuelled loop over a step that may panic: the loop's two equations, an invariant
  the step keeps, and a budget every continuing step lowers.
\<close>

locale metered_loop =
  fixes step :: "'m \<Rightarrow> (bool \<times> 'm) option" and halted :: "'m \<Rightarrow> bool"
    and loop :: "nat \<Rightarrow> 'm \<Rightarrow> (bool \<times> 'm) option" and inv :: "'m \<Rightarrow> bool" and budget :: "'m \<Rightarrow> nat"
  assumes loop_0: "loop 0 m = Some (halted m, m)"
    and loop_Suc: "loop (Suc n) m =
      (if halted m then Some (True, m)
       else step m \<bind> (\<lambda>(ok, m'). if ok then loop n m' else Some (True, m')))"
    and step_inv: "inv m \<Longrightarrow> step m = Some (ok, m') \<Longrightarrow> inv m'"
    and step_budget: "inv m \<Longrightarrow> step m = Some (True, m') \<Longrightarrow> budget m' < budget m"
begin

abbreviation (input) continues :: "'m \<Rightarrow> 'm \<Rightarrow> bool" where
  "continues m m' \<equiv> \<not> halted m \<and> step m = Some (True, m')"

lemma continues_first:
  "\<not> halted m \<Longrightarrow> step m = Some (True, m1) \<Longrightarrow> continues\<^sup>*\<^sup>* m1 m2 \<Longrightarrow> continues\<^sup>*\<^sup>* m m2"
  by (rule converse_rtranclp_into_rtranclp) simp

lemma loop_inv: "inv m \<Longrightarrow> loop n m = Some (fin, m') \<Longrightarrow> inv m'"
  by (induction n arbitrary: m) (auto simp: loop_0 loop_Suc split: if_splits bind_splits dest: step_inv)

lemma loop_terminates: "inv m \<Longrightarrow> budget m < n \<Longrightarrow> loop n m = Some (fin, m') \<Longrightarrow> fin"
proof (induction n arbitrary: m)
  case (Suc n)
  show ?case
  proof (cases "halted m")
    case True
    then show ?thesis using Suc.prems by (simp add: loop_Suc)
  next
    case False
    then obtain ok m1 where s: "step m = Some (ok, m1)" "(if ok then loop n m1 else Some (True, m1)) = Some (fin, m')"
      using Suc.prems(3) by (auto simp: loop_Suc split: bind_splits)
    show ?thesis
    proof (cases ok)
      case True
      then have "budget m1 < n" "inv m1" using step_budget[of m m1] step_inv[of m ok m1] Suc.prems s by auto
      then show ?thesis using Suc.IH s(2) True by simp
    qed (use s in simp)
  qed
qed simp

lemma loop_more: "loop n m = Some (True, m') \<Longrightarrow> loop (n + k) m = Some (True, m')"
proof (induction n arbitrary: m)
  case 0
  then show ?case by (cases k) (auto simp: loop_0 loop_Suc)
next
  case (Suc n)
  then show ?case by (auto simp: loop_Suc split: if_splits bind_splits)
qed

lemma loop_more_None: "loop n m = None \<Longrightarrow> loop (n + k) m = None"
  by (induction n arbitrary: m) (auto simp: loop_0 loop_Suc split: if_splits bind_splits)

text \<open>A panic of the loop is the panic of a step from a state the run reaches.\<close>

lemma loop_panics: "loop n m = None \<Longrightarrow> \<exists>m'. continues\<^sup>*\<^sup>* m m' \<and> \<not> halted m' \<and> step m' = None"
proof (induction n arbitrary: m)
  case (Suc n)
  then have h: "\<not> halted m" by (auto simp: loop_Suc split: if_splits)
  show ?case
  proof (cases "step m")
    case None
    then show ?thesis using h by blast
  next
    case (Some x)
    then obtain m1 where "step m = Some (True, m1)" "loop n m1 = None"
      using Suc.prems h by (cases x) (auto simp: loop_Suc split: if_splits)
    then show ?thesis using Suc.IH[of m1] continues_first[OF h] by blast
  qed
qed (simp add: loop_0)

text \<open>The final state is reached by continuing steps and at most one last step.\<close>

lemma loop_result:
  "loop n m = Some (fin, m') \<Longrightarrow>
     \<exists>m1. continues\<^sup>*\<^sup>* m m1 \<and> (m' = m1 \<and> (fin \<longrightarrow> halted m1) \<or> \<not> halted m1 \<and> step m1 = Some (False, m'))"
proof (induction n arbitrary: m)
  case 0
  then show ?case by (auto simp: loop_0)
next
  case (Suc n)
  show ?case
  proof (cases "halted m")
    case True
    then show ?thesis using Suc.prems by (auto simp: loop_Suc)
  next
    case False
    then obtain ok m1 where s: "step m = Some (ok, m1)" "(if ok then loop n m1 else Some (True, m1)) = Some (fin, m')"
      using Suc.prems by (auto simp: loop_Suc split: bind_splits)
    show ?thesis
    proof (cases ok)
      case True
      then show ?thesis
        using Suc.IH[of m1] s continues_first[OF False] by fastforce
    next
      case stop: False
      then show ?thesis using s False by auto
    qed
  qed
qed

lemma continues_inv: "continues\<^sup>*\<^sup>* m m' \<Longrightarrow> inv m \<Longrightarrow> inv m'"
  by (induction rule: rtranclp_induct) (auto dest: step_inv)

end

text \<open>The unspent part of the step limit is the budget of a run.\<close>

definition unspent :: "machine \<Rightarrow> nat" where
  "unspent m = nat (lim_Steps (m_limits m) - m_steps m)"

interpretation vm_loop: metered_loop vmStep "\<lambda>m. m_trap m \<noteq> TrapNone" runLoop vm_inv unspent
proof
  show "runLoop 0 m = Some (m_trap m \<noteq> TrapNone, m)" for m by simp
  show "runLoop (Suc n) m = (if m_trap m \<noteq> TrapNone then Some (True, m)
      else vmStep m \<bind> (\<lambda>(ok, m'). if ok then runLoop n m' else Some (True, m')))" for n m
    by (cases "vmStep m") auto
  show "vm_inv m'" if "vm_inv m" "vmStep m = Some (ok, m')" for m ok m'
    using vmStep_later(1)[OF that] by (simp add: later_def)
  show "unspent m' < unspent m" if "vm_inv m" "vmStep m = Some (True, m')" for m m'
    using vmStep_later[OF that] by (auto simp: later_def vm_inv_def unspent_def)
qed

subsection \<open>The initial machine\<close>

text \<open>The limits that \<open>RunConfig\<close> accepts for an image.\<close>

definition fits :: "image \<Rightarrow> Limits \<Rightarrow> bool" where
  "fits img limits \<longleftrightarrow> 0 < lim_Steps limits \<and> minAddress \<le> lim_Memory limits \<and>
     img_bssBase img + img_bssSize img \<le> lim_Memory limits"

lemma initialMachine_inv:
  assumes "image_ok img" "fits img (cfg_Limits config)" "length mem = nat (lim_Memory (cfg_Limits config))"
  shows "vm_inv (initialMachine img config\<lparr>m_memory := mem\<rparr>)"
proof -
  have "instruction_start (img_code img) 0" by (simp add: instruction_start_def reaches.here)
  then show ?thesis
    using assms by (auto simp: vm_inv_def initialMachine_def Let_def fits_def image_ok_def)
qed

text \<open>The machine on which the loop of \<open>RunConfig\<close> starts.\<close>

definition loadedMachine :: "image \<Rightarrow> Config \<Rightarrow> machine" where
  "loadedMachine img config = initialMachine img config\<lparr>m_memory :=
     the (splice (replicate (nat (lim_Memory (cfg_Limits config))) 0) (img_dataBase img) (img_data img))\<rparr>"

lemma loaded_splice:
  assumes "image_ok img" "fits img (cfg_Limits config)"
  shows "splice (m_memory (initialMachine img config)) (img_dataBase img) (img_data img) =
    Some (m_memory (loadedMachine img config))"
proof -
  have "splice (replicate (nat (lim_Memory (cfg_Limits config))) 0) (img_dataBase img) (img_data img) \<noteq> None"
    using assms by (auto simp: splice_None image_ok_def fits_def)
  then show ?thesis by (auto simp: loadedMachine_def initialMachine_def Let_def)
qed

lemma loadedMachine_inv:
  assumes "image_ok img" "fits img (cfg_Limits config)"
  shows "vm_inv (loadedMachine img config)"
proof -
  have "length (m_memory (loadedMachine img config)) = nat (lim_Memory (cfg_Limits config))"
    using splice_length[OF loaded_splice[OF assms]] by (simp add: initialMachine_def Let_def)
  then show ?thesis
    using initialMachine_inv[OF assms] by (simp add: loadedMachine_def)
qed

lemma loadedMachine_simps [simp]:
  "m_image (loadedMachine img config) = img" "m_limits (loadedMachine img config) = cfg_Limits config"
  "m_steps (loadedMachine img config) = 0" "m_trap (loadedMachine img config) = TrapNone"
  "m_output (loadedMachine img config) = []" "m_stderr (loadedMachine img config) = []"
  "m_files (loadedMachine img config) = cfg_Files config"
  by (simp_all add: loadedMachine_def initialMachine_def Let_def)

subsection \<open>Runs\<close>

lemma RunConfig_rejects:
  "lim_Steps (cfg_Limits config) \<le> 0 \<or> lim_Memory (cfg_Limits config) < minAddress \<Longrightarrow>
     RunConfig program config = Some (trapResult TrapInvalidLimits)"
  by (auto simp: RunConfig_def Let_def)

lemma RunConfig_invalid:
  assumes "0 < lim_Steps (cfg_Limits config)" "minAddress \<le> lim_Memory (cfg_Limits config)"
    and "decodeImage program = Some None"
  shows "RunConfig program config = Some (trapResult TrapInvalidProgram)"
  using assms by (simp add: RunConfig_def Let_def)

lemma RunConfig_unfit:
  assumes "0 < lim_Steps (cfg_Limits config)" "minAddress \<le> lim_Memory (cfg_Limits config)"
    and "decodeImage program = Some (Some img)" "\<not> fits img (cfg_Limits config)"
  shows "RunConfig program config = Some (trapResult TrapMemoryLimit)"
  using assms by (simp add: RunConfig_def Let_def fits_def)

lemma RunConfig_runs:
  assumes "decodeImage program = Some (Some img)" "fits img (cfg_Limits config)"
  shows "RunConfig program config =
    runLoop (nat (lim_Steps (cfg_Limits config)) + 1) (loadedMachine img config) \<bind> (\<lambda>(fin, m). machineResult m)"
proof -
  have "image_ok img" using decodeImage_sound[OF assms(1)] .
  then have st: "\<not> (img_bssBase img + img_bssSize img < img_bssBase img \<or>
      img_bssBase img + img_bssSize img > lim_Memory (cfg_Limits config))"
    and l: "\<not> (lim_Steps (cfg_Limits config) \<le> 0 \<or> lim_Memory (cfg_Limits config) < minAddress)"
    using assms(2) by (auto simp: image_ok_def fits_def)
  have m: "initialMachine img config\<lparr>m_memory := m_memory (loadedMachine img config)\<rparr> = loadedMachine img config"
    by (simp add: loadedMachine_def)
  show ?thesis
    using loaded_splice[OF \<open>image_ok img\<close> assms(2)] st l
    by (simp only: RunConfig_def Let_def if_not_P[OF l] assms(1) bind.bind_lunit option.case if_not_P[OF st] if_False m)
qed

lemma machineResult_defined:
  assumes "vm_inv m"
  shows "machineResult m = Some \<lparr>res_ExitCode = sint (m_regs m ! nat regRax), res_Steps = m_steps m,
    res_PeakMemory = m_peak m, res_Output = m_output m, res_Stderr = m_stderr m, res_Files = m_files m,
    res_Trap = m_trap m, res_TrapPC = m_currentPC m, res_TrapOpcode = currentOpcode m\<rparr>"
  using assms by (simp add: machineResult_def regInt_eq)

text \<open>The states a run goes through.\<close>

inductive run_reaches :: "machine \<Rightarrow> machine \<Rightarrow> bool" for start where
  run_start: "run_reaches start start"
| run_step: "run_reaches start m \<Longrightarrow> m_trap m = TrapNone \<Longrightarrow> vmStep m = Some (True, m') \<Longrightarrow> run_reaches start m'"

lemma run_reaches_iff:
  "run_reaches start m \<longleftrightarrow> (\<lambda>m m'. \<not> m_trap m \<noteq> TrapNone \<and> vmStep m = Some (True, m'))\<^sup>*\<^sup>* start m"
proof
  assume "run_reaches start m"
  then show "(\<lambda>m m'. \<not> m_trap m \<noteq> TrapNone \<and> vmStep m = Some (True, m'))\<^sup>*\<^sup>* start m"
    by induction (auto intro: rtranclp.rtrancl_into_rtrancl)
next
  assume "(\<lambda>m m'. \<not> m_trap m \<noteq> TrapNone \<and> vmStep m = Some (True, m'))\<^sup>*\<^sup>* start m"
  then show "run_reaches start m"
    by (induction rule: rtranclp_induct) (auto intro: run_reaches.intros)
qed

lemma run_reaches_inv: "run_reaches start m \<Longrightarrow> vm_inv start \<Longrightarrow> vm_inv m"
  unfolding run_reaches_iff by (rule vm_loop.continues_inv)

lemma run_reaches_later:
  assumes "run_reaches start m" "vm_inv start"
  shows "later start m"
  using assms(1)
proof induction
  case run_start
  then show ?case using assms(2) by (simp add: later_refl)
next
  case (run_step m m')
  then show ?case using vmStep_later(1)[of m True m'] later_trans by (auto simp: later_def)
qed

text \<open>The loop of \<open>RunConfig\<close> never runs out of fuel.\<close>

lemma runLoop_finishes:
  assumes "image_ok img" "fits img (cfg_Limits config)"
    and "runLoop (nat (lim_Steps (cfg_Limits config)) + 1) (loadedMachine img config) = Some (fin, m)"
  shows "fin" "vm_inv m" "later (loadedMachine img config) m"
proof -
  note inv = loadedMachine_inv[OF assms(1,2)]
  show fin by (rule vm_loop.loop_terminates[OF inv _ assms(3)]) (simp add: unspent_def)
  show "vm_inv m" by (rule vm_loop.loop_inv[OF inv assms(3)])
  obtain m1 where "run_reaches (loadedMachine img config) m1"
    "m = m1 \<or> vmStep m1 = Some (False, m)"
    using vm_loop.loop_result[OF assms(3)] unfolding run_reaches_iff by blast
  then show "later (loadedMachine img config) m"
    using run_reaches_later[OF _ inv, of m1] vmStep_later(1)[of m1 False m] later_trans by (auto simp: later_def)
qed

end
