(* ===== verification/VM_Traps.thy ===== *)
theory VM_Traps
  imports VM_Calls
begin

text \<open>
  The meaning of the boolean that the operations of \<open>std/vm/vm.go\<close> return: an operation started
  without a trap answers \<open>true\<close> exactly when it has set none.  Only the exit instruction and the
  return from the outermost routine answer \<open>false\<close> without a trap; they end a run normally.
\<close>

definition honest :: "bool outcome \<Rightarrow> bool" where
  "honest r \<longleftrightarrow> (\<forall>ok m'. r = Some (ok, m') \<longrightarrow> (ok \<longleftrightarrow> m_trap m' = TrapNone))"

named_theorems honesty \<open>operations that answer false exactly when they trap\<close>

lemma honest_bind: "(\<And>x. r = Some x \<Longrightarrow> honest (f x)) \<Longrightarrow> honest (r \<bind> f)"
  by (cases r) (simp_all add: honest_def)

lemma honest_if: "(b \<Longrightarrow> honest x) \<Longrightarrow> (\<not> b \<Longrightarrow> honest y) \<Longrightarrow> honest (if b then x else y)"
  by simp

lemma honest_case: "(\<And>a b. p = (a, b) \<Longrightarrow> honest (f a b)) \<Longrightarrow> honest (case p of (a, b) \<Rightarrow> f a b)"
  by (cases p) simp

lemma honest_Let: "(\<And>x. x = t \<Longrightarrow> honest (f x)) \<Longrightarrow> honest (let x = t in f x)"
  by simp

lemmas honest_rules = honest_bind honest_if honest_case honest_Let

lemma honest_Some [simp]: "honest (Some (ok, m)) \<longleftrightarrow> (ok \<longleftrightarrow> m_trap m = TrapNone)"
  by (simp add: honest_def)

lemma honest_trap [honesty]: "t \<noteq> TrapNone \<Longrightarrow> honest (Some (trapWith m t))"
  by (simp add: trapWith_def)

lemma honest_setRegOk [honesty]: "m_trap m = TrapNone \<Longrightarrow> honest (setRegOk m r v)"
  by (auto simp: honest_def setRegOk_def setReg_def)

lemma address_honest: "m_trap m = TrapNone \<Longrightarrow> address m addr sz = (ok, m') \<Longrightarrow> ok \<longleftrightarrow> m_trap m' = TrapNone"
  by (auto simp: address_def trapWith_def split: if_splits)

lemma buffer_honest: "m_trap m = TrapNone \<Longrightarrow> buffer m addr sz = (ok, m') \<Longrightarrow> ok \<longleftrightarrow> m_trap m' = TrapNone"
  by (auto simp: buffer_def address_def trapWith_def split: if_splits)

lemma charge_honest: "m_trap m = TrapNone \<Longrightarrow> charge m c = (ok, m') \<Longrightarrow> ok \<longleftrightarrow> m_trap m' = TrapNone"
  by (auto simp: charge_def trapWith_def split: if_splits)

lemma honest_updatePeak [honesty]: "m_trap m = TrapNone \<Longrightarrow> honest (Some (updatePeak m))"
  by (simp add: updatePeak_def trapWith_def Let_def)

lemma load_honest: "m_trap m = TrapNone \<Longrightarrow> load m addr sz = Some (v, ok, m') \<Longrightarrow> ok \<longleftrightarrow> m_trap m' = TrapNone"
  by (auto simp: load_def Let_def dest: address_honest split: if_splits bind_splits prod.splits)

lemma loadSized_honest:
  "m_trap m = TrapNone \<Longrightarrow> loadSized m addr sz = Some (v, ok, m') \<Longrightarrow> ok \<longleftrightarrow> m_trap m' = TrapNone"
  by (auto simp: loadSized_def dest: load_honest split: if_splits)

lemma honest_assignIf: "(ok \<longleftrightarrow> m_trap m = TrapNone) \<Longrightarrow> honest (assignIf r (v, ok, m))"
  by (simp add: assignIf_def honest_setRegOk)

lemma honest_loadSized [honesty]: "m_trap m = TrapNone \<Longrightarrow> honest (loadSized m addr sz \<bind> assignIf r)"
  by (rule honest_bind) (metis honest_assignIf loadSized_honest prod_cases3)

lemma honest_loadStack [honesty]: "m_trap m = TrapNone \<Longrightarrow> honest (loadStack m r off)"
  unfolding loadStack_def by (rule honest_bind) (metis honest_assignIf load_honest prod_cases3)

lemma honest_loadMem [honesty]: "m_trap m = TrapNone \<Longrightarrow> honest (loadMem m r base disp sz)"
  unfolding loadMem_def by (rule honest_bind) (rule honest_loadSized)

lemma honest_store [honesty]: "m_trap m = TrapNone \<Longrightarrow> honest (store m addr sz v)"
  unfolding store_def by (intro honest_Let honest_case honest_if honest_bind) (auto dest: address_honest)

lemma honest_push [honesty]: "m_trap m = TrapNone \<Longrightarrow> honest (push m v)"
  unfolding push_def by (intro honest_case honest_if honest_bind honesty) (auto dest: address_honest)

lemma pop_honest: "m_trap m = TrapNone \<Longrightarrow> pop m = Some (v, ok, m') \<Longrightarrow> ok \<longleftrightarrow> m_trap m' = TrapNone"
  by (auto simp: pop_def trapWith_def split: if_splits bind_splits)

lemma honest_popReg [honesty]: "m_trap m = TrapNone \<Longrightarrow> honest (popReg m r)"
  unfolding popReg_def by (rule honest_bind) (metis honest_assignIf pop_honest prod_cases3)

lemma buildStrings_honest:
  assumes "m_trap m = TrapNone" "buildStrings m vs = Some (a, ok, m')"
  shows "ok \<longleftrightarrow> m_trap m' = TrapNone"
proof (cases "stringsEnd (lim_Memory (m_limits m)) vs (align8 (m_sp m + int (length vs) * 16))")
  case None
  then show ?thesis using assms by (auto simp: buildStrings_def Let_def trapWith_def)
next
  case (Some e)
  have "ok' \<longleftrightarrow> m_trap n = TrapNone" if "updatePeak p = (ok', n)" "m_trap p = TrapNone" for p ok' n
    using honest_updatePeak[of p] that by simp
  then show ?thesis
    using assms Some
    by (fastforce simp: buildStrings_def Let_def trapWith_def split: if_splits bind_splits prod.splits)
qed

lemma setReg_trap: "setReg m r v = Some m' \<Longrightarrow> m_trap m' = m_trap m"
  by (auto simp: setReg_def)

lemma honest_buildArgsEnv:
  assumes "m_trap m = TrapNone"
  shows "honest (execBuildArgsEnv m)"
proof (cases "execBuildArgsEnv m")
  case None
  then show ?thesis by (simp add: honest_def)
next
  case (Some x)
  then obtain a ok1 m1 where b1: "buildStrings m (m_args m) = Some (a, ok1, m1)"
    by (auto simp: execBuildArgsEnv_def split: bind_splits)
  note h1 = buildStrings_honest[OF assms b1]
  show ?thesis
  proof (cases ok1)
    case False
    then show ?thesis using b1 h1 by (simp add: execBuildArgsEnv_def)
  next
    case True
    then obtain e ok2 m2 where b2: "buildStrings m1 (m_env m1) = Some (e, ok2, m2)"
      using Some b1 by (auto simp: execBuildArgsEnv_def split: bind_splits)
    have h2: "ok2 \<longleftrightarrow> m_trap m2 = TrapNone" using buildStrings_honest[OF _ b2] h1 True by simp
    show ?thesis
    proof (cases ok2)
      case False
      then show ?thesis using True b1 b2 h2 by (simp add: execBuildArgsEnv_def)
    next
      case ok: True
      show ?thesis
        unfolding honest_def using True ok b1 b2 h2
        by (auto simp: execBuildArgsEnv_def dest!: setReg_trap split: bind_splits)
    qed
  qed
qed

lemma honest_binaryValue [honesty]: "m_trap m = TrapNone \<Longrightarrow> honest (binaryValue m op dst right)"
  unfolding binaryValue_def by (intro honest_rules honesty; simp)

lemma honest_binary [honesty]: "m_trap m = TrapNone \<Longrightarrow> honest (binary m op dst src)"
  unfolding binary_def by (intro honest_bind honesty)

lemma honest_pushReg [honesty]: "m_trap m = TrapNone \<Longrightarrow> honest (pushReg code i m)"
  unfolding pushReg_def by (intro honest_bind honesty)

lemma honest_andThen:
  assumes "honest first" "\<And>m. m_trap m = TrapNone \<Longrightarrow> honest (second m)"
  shows "honest (andThen first second)"
proof (cases first)
  case None
  then show ?thesis by (simp add: andThen_def honest_def)
next
  case (Some x)
  then show ?thesis using assms by (cases x) (simp add: andThen_def)
qed

lemma honest_move: "m_trap m = TrapNone \<Longrightarrow> honest (execMove code pc op m)"
  unfolding execMove_def by (intro honest_if honest_bind honesty)

lemma honest_fused: "m_trap m = TrapNone \<Longrightarrow> honest (execFused code pc op m)"
  unfolding execFused_def by (intro honest_if honest_andThen honesty honest_bind)

lemma honest_stack: "m_trap m = TrapNone \<Longrightarrow> honest (execStack code pc op m)"
  unfolding execStack_def
  by (intro honest_if honest_bind honest_Let honest_case honesty) (auto dest: address_honest)

lemma honest_mem: "m_trap m = TrapNone \<Longrightarrow> honest (execMem code pc op m)"
  unfolding execMem_def by (intro honest_if honest_bind honest_Let honesty)

lemma honest_index: "m_trap m = TrapNone \<Longrightarrow> honest (execIndex code pc op m)"
  unfolding execIndex_def by (intro honest_loadSized honest_if honest_bind honest_Let honest_store)

lemma honest_arith: "m_trap m = TrapNone \<Longrightarrow> honest (execArith code pc op m)"
  unfolding execArith_def by (intro honest_if honest_bind honesty)

lemma honest_incMem: "m_trap m = TrapNone \<Longrightarrow> honest (execIncMem code pc op m)"
  unfolding execIncMem_def by (intro honest_if honest_bind honest_case honest_store) (auto dest: load_honest)

lemma honest_compare: "m_trap m = TrapNone \<Longrightarrow> honest (execCompare code pc op m)"
  unfolding execCompare_def by (intro honest_if honest_bind honesty) simp_all

lemma honest_jump: "m_trap m = TrapNone \<Longrightarrow> honest (execJump code pc op m)"
  unfolding execJump_def by (intro honest_if honest_bind honest_Let) simp_all

lemma honest_call: "m_trap m = TrapNone \<Longrightarrow> honest (execCall code pc nxt m)"
  unfolding execCall_def by (intro honest_if honest_bind honest_Let honesty) simp_all

lemma honest_ret: "m_trap m = TrapNone \<Longrightarrow> m_calls m \<noteq> [] \<Longrightarrow> honest (Some (execRet m))"
  by (simp add: execRet_def trapWith_def Let_def)

subsection \<open>System calls\<close>

lemma honest_readAt: "m_trap m = TrapNone \<Longrightarrow> honest (readAt m fd addr sz offset)"
  unfolding readAt_def
  by (intro honest_rules honesty) (auto simp: setFd_def dest: buffer_honest charge_honest)

lemma honest_writeStd: "m_trap m = TrapNone \<Longrightarrow> honest (writeStd m fd addr sz)"
  unfolding writeStd_def by (intro honest_rules honesty) auto

lemma honest_writeFile: "m_trap m = TrapNone \<Longrightarrow> honest (writeFile m fd addr sz offset)"
  unfolding writeFile_def by (intro honest_rules honesty) (auto simp: setFd_def)

lemma honest_writeAt: "m_trap m = TrapNone \<Longrightarrow> honest (writeAt m fd addr sz offset)"
  unfolding writeAt_def
  by (intro honest_rules honesty honest_writeStd honest_writeFile) (auto dest: buffer_honest charge_honest)

lemma honest_appendFd [honesty]: "m_trap m = TrapNone \<Longrightarrow> honest (appendFd m d)"
  unfolding appendFd_def by (intro honest_Let honesty) simp

lemma honest_openFile: "m_trap m = TrapNone \<Longrightarrow> honest (openFile m name file flags)"
  unfolding openFile_def by (intro honest_rules honesty) (auto split: if_splits bind_splits)

lemma honest_vmOpen: "m_trap m = TrapNone \<Longrightarrow> honest (vmOpen m)"
  unfolding vmOpen_def
  by (intro honest_rules)
    (auto split: option.split dest: buffer_honest intro!: honesty honest_openFile)

lemma honest_vmSyscall: "m_trap m = TrapNone \<Longrightarrow> honest (vmSyscall m)"
  unfolding vmSyscall_def
  by (intro honest_rules honesty honest_readAt honest_writeAt honest_vmOpen)
    (auto simp: setFd_def dest: buffer_honest)

lemma execute_honest:
  assumes "m_trap m = TrapNone" "op \<noteq> opExit" "op = opRet \<longrightarrow> m_calls m \<noteq> []"
  shows "honest (execute code pc op m)"
  unfolding execute_def
  by (intro honest_if honest_buildArgsEnv honest_move honest_fused honest_stack honest_mem honest_index
      honest_arith honest_incMem honest_compare honest_jump honest_call honest_ret honest_vmSyscall honest_trap)
    (use assms in simp_all)

end
