(* ===== verification/VM_Outcome.thy ===== *)
theory VM_Outcome
  imports VM_Run VM_Traps
begin

text \<open>
  What the result of \<open>RunConfig\<close> tells about the run: how it ended, what it consumed, and that code
  without system calls runs without touching the outside.
\<close>

subsection \<open>How a run ends\<close>

lemma vmStep_normal_end:
  assumes "vm_inv m" "m_trap m = TrapNone" "vmStep m = Some (False, m')" "m_trap m' = TrapNone"
  shows "m_currentPC m' = m_pc m \<and> m_image m' = m_image m \<and>
    (byteAt (img_code (m_image m)) (m_pc m) = Some opExit \<or>
     byteAt (img_code (m_image m)) (m_pc m) = Some opRet \<and> m_calls m = [])"
proof -
  note c = vmStep_cases[OF assms(1)]
  have ne: "m_pc m \<noteq> int (length (img_code (m_image m)))" "m_steps m \<noteq> lim_Steps (m_limits m)"
    using assms(3,4) c by (auto simp: trapWith_def split: if_splits)
  then obtain op where op: "byteAt (img_code (m_image m)) (m_pc m) = Some op"
    using dispatched_inv[OF assms(1)] by blast
  then have e: "execute (img_code (m_image m)) (m_pc m) op (dispatched m) = Some (False, m')"
    using assms(3) c ne by simp
  then have "op = opExit \<or> op = opRet \<and> m_calls m = []"
    using execute_honest[of "dispatched m" op "img_code (m_image m)" "m_pc m"] assms(2,4)
    by (auto simp: honest_def)
  then have "m' = dispatched m"
    using e by (auto simp: execute_def execRet_def)
  then show ?thesis using \<open>op = opExit \<or> op = opRet \<and> m_calls m = []\<close> op by auto
qed

lemma runLoop_normal_end:
  assumes "image_ok img" "fits img (cfg_Limits config)"
    and "runLoop (nat (lim_Steps (cfg_Limits config)) + 1) (loadedMachine img config) = Some (fin, m)"
    and "m_trap m = TrapNone"
  shows "currentOpcode m = opExit \<or> currentOpcode m = opRet"
proof -
  note inv = loadedMachine_inv[OF assms(1,2)]
  have "fin" by (rule runLoop_finishes(1)[OF assms(1,2,3)])
  then obtain m1 where m1: "run_reaches (loadedMachine img config) m1" "m_trap m1 = TrapNone" "vmStep m1 = Some (False, m)"
    using vm_loop.loop_result[OF assms(3)] assms(4) unfolding run_reaches_iff by blast
  have inv1: "vm_inv m1" by (rule run_reaches_inv[OF m1(1) inv])
  note e = vmStep_normal_end[OF inv1 m1(2,3) assms(4)]
  then obtain op where b: "byteAt (img_code (m_image m)) (m_currentPC m) = Some op" "op = opExit \<or> op = opRet"
    by auto
  then have "currentOpcode m = op"
    using byteAt_range[OF b(1)] by (auto simp: currentOpcode_def byteAt_def)
  then show ?thesis using b(2) by simp
qed

subsection \<open>Code without system calls\<close>

function noSyscall :: "bytes \<Rightarrow> int \<Rightarrow> bool" where
  "noSyscall code pc =
     (if 0 \<le> pc \<and> pc < int (length code)
      then uint (code ! nat pc) \<noteq> opSyscall \<and> noSyscall code (nextInstruction code pc)
      else True)"
  by pat_completeness auto
termination
  by (relation "measure (\<lambda>(code, pc). nat (int (length code) - pc))")
    (auto intro: nextInstruction_greater)

declare noSyscall.simps [simp del]

lemma noSyscall_reaches: "reaches code pc q \<Longrightarrow> noSyscall code pc \<Longrightarrow> noSyscall code q"
proof (induction rule: reaches.induct)
  case (next_instruction pc q)
  then show ?case by (subst (asm) (2) noSyscall.simps) simp
qed

lemma noSyscall_start:
  assumes "noSyscall code 0" "instruction_start code q"
  shows "byteAt code q \<noteq> Some opSyscall"
proof
  assume b: "byteAt code q = Some opSyscall"
  have "noSyscall code q" using noSyscall_reaches assms unfolding instruction_start_def by blast
  then show False
    using b byteAt_range[OF b] by (subst (asm) noSyscall.simps) (simp add: byteAt_def)
qed

text \<open>The part of the world that only system calls change.\<close>

definition outside where
  "outside m = (m_output m, m_stderr m, m_files m, m_fds m, m_stdinAt m)"

lemma vmStep_outside:
  assumes "vm_inv m" "noSyscall (img_code (m_image m)) 0"
  shows "vmStep m \<noteq> None" "vmStep m = Some (ok, m') \<Longrightarrow> outside m' = outside m"
proof -
  have ns: "byteAt (img_code (m_image m)) (m_pc m) \<noteq> Some opSyscall"
    using noSyscall_start[OF assms(2) pc_start[OF assms(1)]] .
  then show "vmStep m \<noteq> None" using vmStep_None[OF assms(1)] by blast
  assume s: "vmStep m = Some (ok, m')"
  show "outside m' = outside m"
  proof (cases "m_pc m = int (length (img_code (m_image m))) \<or> m_steps m = lim_Steps (m_limits m)")
    case True
    then show ?thesis
      using s vmStep_cases[OF assms(1)] by (auto simp: trapWith_def outside_def split: if_splits)
  next
    case False
    then obtain op where op: "byteAt (img_code (m_image m)) (m_pc m) = Some op"
      using dispatched_inv[OF assms(1)] by blast
    then have "execute (img_code (m_image m)) (m_pc m) op (dispatched m) = Some (ok, m')"
      using s vmStep_cases[OF assms(1)] False by simp
    then have "world m' = world (dispatched m)" using execute_world ns op by auto
    from world_facts[OF this] show ?thesis by (simp add: outside_def dispatched_def)
  qed
qed

lemma run_outside:
  assumes "run_reaches start m" "vm_inv start" "noSyscall (img_code (m_image start)) 0"
  shows "outside m = outside start"
  using assms(1)
proof induction
  case (run_step m m')
  have "m_image m = m_image start"
    using run_reaches_later[OF run_step.hyps(1) assms(2)] by (simp add: later_def)
  then show ?case
    using vmStep_outside(2)[OF run_reaches_inv[OF run_step.hyps(1) assms(2)]] run_step assms(3) by simp
qed simp

lemma runLoop_outside:
  assumes "image_ok img" "fits img (cfg_Limits config)" "noSyscall (img_code img) 0"
  shows "\<exists>m. runLoop n (loadedMachine img config) = Some m \<and> outside (snd m) = outside (loadedMachine img config)"
proof -
  note inv = loadedMachine_inv[OF assms(1,2)]
  have reach: "vm_inv m" "noSyscall (img_code (m_image m)) 0" "outside m = outside (loadedMachine img config)"
    if r: "run_reaches (loadedMachine img config) m" for m
  proof -
    show "vm_inv m" by (rule run_reaches_inv[OF r inv])
    have "m_image m = img" using run_reaches_later[OF r inv] by (simp add: later_def)
    then show "noSyscall (img_code (m_image m)) 0" using assms(3) by simp
    show "outside m = outside (loadedMachine img config)" using run_outside[OF r inv] assms(3) by simp
  qed
  have "runLoop n (loadedMachine img config) \<noteq> None"
  proof
    assume "runLoop n (loadedMachine img config) = None"
    then obtain m where "run_reaches (loadedMachine img config) m" "vmStep m = None"
      using vm_loop.loop_panics unfolding run_reaches_iff by blast
    then show False using reach vmStep_outside(1) by blast
  qed
  then obtain fin m where r: "runLoop n (loadedMachine img config) = Some (fin, m)" by auto
  then obtain m1 where m1: "run_reaches (loadedMachine img config) m1" "m = m1 \<or> vmStep m1 = Some (False, m)"
    using vm_loop.loop_result[OF r] unfolding run_reaches_iff by blast
  then have "outside m = outside (loadedMachine img config)"
    using reach[OF m1(1)] vmStep_outside(2)[of m1 False m] by auto
  then show ?thesis using r by auto
qed

subsection \<open>Panics of a run\<close>

lemma RunConfig_None:
  assumes "RunConfig program config = None"
  obtains img m where "decodeImage program = Some (Some img)" "fits img (cfg_Limits config)"
    "run_reaches (loadedMachine img config) m" "vm_inv m"
    "byteAt (img_code img) (m_pc m) = Some opSyscall" "syscallPanics m"
proof -
  have l: "0 < lim_Steps (cfg_Limits config)" "minAddress \<le> lim_Memory (cfg_Limits config)"
    using assms RunConfig_rejects[of config program] by force+
  have "decodeImage program \<noteq> None" by (rule decodeImage_defined)
  moreover have "decodeImage program \<noteq> Some None" using RunConfig_invalid[OF l] assms by auto
  ultimately obtain img where d: "decodeImage program = Some (Some img)" by auto
  have f: "fits img (cfg_Limits config)" using RunConfig_unfit[OF l d] assms by force
  have ok: "image_ok img" using decodeImage_sound[OF d] .
  note inv = loadedMachine_inv[OF ok f]
  have "runLoop (nat (lim_Steps (cfg_Limits config)) + 1) (loadedMachine img config) = None"
  proof (rule ccontr)
    assume "\<not> ?thesis"
    then obtain fin m where r: "runLoop (nat (lim_Steps (cfg_Limits config)) + 1) (loadedMachine img config) = Some (fin, m)"
      by auto
    then show False
      using assms RunConfig_runs[OF d f] machineResult_defined[OF runLoop_finishes(2)[OF ok f r]] by simp
  qed
  then obtain m where m: "run_reaches (loadedMachine img config) m" "vmStep m = None"
    using vm_loop.loop_panics unfolding run_reaches_iff by blast
  have "vm_inv m" by (rule run_reaches_inv[OF m(1) inv])
  moreover have "m_image m = img" using run_reaches_later[OF m(1) inv] by (simp add: later_def)
  ultimately show thesis using that[OF d f m(1)] vmStep_None[of m] m(2) by blast
qed

subsection \<open>Consumption\<close>

lemma RunConfig_bounds:
  assumes "RunConfig program config = Some r" "0 < lim_Steps (cfg_Limits config)"
    "minAddress \<le> lim_Memory (cfg_Limits config)"
  shows "0 \<le> res_Steps r \<and> res_Steps r \<le> lim_Steps (cfg_Limits config) \<and>
    res_PeakMemory r \<le> lim_Memory (cfg_Limits config) \<and>
    int (length (res_Output r)) \<le> lim_Memory (cfg_Limits config) \<and>
    int (length (res_Stderr r)) \<le> lim_Memory (cfg_Limits config)"
proof -
  have t: "?thesis" if "r = trapResult t" for t using that assms(2,3) by (simp add: trapResult_def)
  consider "decodeImage program = Some None" | img where "decodeImage program = Some (Some img)"
    using decodeImage_defined[of program] by (cases "decodeImage program"; cases "the (decodeImage program)") auto
  then show ?thesis
  proof cases
    case 1
    then show ?thesis using RunConfig_invalid[OF assms(2,3)] assms(1) t by auto
  next
    case (2 img)
    show ?thesis
    proof (cases "fits img (cfg_Limits config)")
      case False
      then show ?thesis using RunConfig_unfit[OF assms(2,3) 2] assms(1) t by auto
    next
      case True
      have ok: "image_ok img" using decodeImage_sound[OF 2] .
      obtain fin m where r: "runLoop (nat (lim_Steps (cfg_Limits config)) + 1) (loadedMachine img config) = Some (fin, m)"
        using assms(1) RunConfig_runs[OF 2 True] by (auto split: bind_splits)
      note f = runLoop_finishes[OF ok True r]
      have "machineResult m = Some r" using assms(1) [unfolded RunConfig_runs[OF 2 True] r] by simp
      moreover have "m_limits m = cfg_Limits config" using f(3) by (simp add: later_def)
      ultimately show ?thesis
        using machineResult_defined[OF f(2)] f(2) by (auto simp: vm_inv_def)
    qed
  qed
qed

end
