(* ===== verification/VM_Semantics.thy ===== *)
theory VM_Semantics
  imports VM_Calls
begin

text \<open>
  What the operations of \<open>std/vm/vm.go\<close> compute: reading back what was stored or pushed, division,
  the flag and its conditions, the frame a call saves and a return restores, the fused
  instructions as the sequences they replace, the checksum, and the directory listings.
\<close>

subsection \<open>Little-endian words in memory\<close>

lemma word32_bytes:
  "(word_of_int (uint (ucast w :: byte) OR push_bit 8 (uint (ucast (drop_bit 8 w) :: byte)) OR
     push_bit 16 (uint (ucast (drop_bit 16 w) :: byte) OR push_bit 8 (uint (ucast (drop_bit 24 w) :: byte)))) :: i32) = w"
proof (rule bit_word_eqI)
  fix n
  assume "n < LENGTH(32)"
  then show "bit (word_of_int (uint (ucast w :: byte) OR push_bit 8 (uint (ucast (drop_bit 8 w) :: byte)) OR
     push_bit 16 (uint (ucast (drop_bit 16 w) :: byte) OR push_bit 8 (uint (ucast (drop_bit 24 w) :: byte)))) :: i32) n
     \<longleftrightarrow> bit w n"
    by (cases "24 \<le> n"; cases "16 \<le> n"; auto simp: bit_simps)
qed

lemma word16_bytes:
  "(word_of_int (uint (ucast w :: byte) OR push_bit 8 (uint (ucast (drop_bit 8 w) :: byte))) :: i32) = take_bit 16 w"
  by (rule bit_word_eqI) (auto simp: bit_simps)

lemma word8_bytes: "(word_of_int (uint (ucast (w :: i32) :: byte)) :: i32) = take_bit 8 w"
  by (rule bit_word_eqI) (auto simp: bit_simps)

lemma ucast_ucast_byte: "(ucast (ucast (v :: i32) :: byte) :: i32) = take_bit 8 v"
  by (rule bit_word_eqI) (auto simp: bit_simps)

lemma ucast_bytes: "(word_of_int (drop_bit n (sint (w :: i32))) :: byte) = ucast (drop_bit n w)" if "n \<le> 24"
  by (rule bit_word_eqI) (use that in \<open>auto simp: bit_simps\<close>)

lemma byteAt_nth: "0 \<le> i \<Longrightarrow> i < int (length data) \<Longrightarrow> byteAt data i = Some (uint (data ! nat i))"
  by (rule byteAt_Some)

text \<open>\<open>data\<close> holds the four little-endian bytes of \<open>w\<close> at \<open>i\<close>.\<close>

definition holds32 :: "bytes \<Rightarrow> int \<Rightarrow> i32 \<Rightarrow> bool" where
  "holds32 data i w \<longleftrightarrow> 0 \<le> i \<and> i + 3 < int (length data) \<and>
     data ! nat i = ucast w \<and> data ! nat (i + 1) = ucast (drop_bit 8 w) \<and>
     data ! nat (i + 2) = ucast (drop_bit 16 w) \<and> data ! nat (i + 3) = ucast (drop_bit 24 w)"

lemma read32_holds: "holds32 data i w \<Longrightarrow> \<exists>v. read32 data i = Some v \<and> (word_of_int v :: i32) = w"
proof -
  assume h: "holds32 data i w"
  have "read32 data i = Some (uint (ucast w :: byte) OR push_bit 8 (uint (ucast (drop_bit 8 w) :: byte)) OR
     push_bit 16 (uint (ucast (drop_bit 16 w) :: byte) OR push_bit 8 (uint (ucast (drop_bit 24 w) :: byte))))"
    using h by (simp add: holds32_def read32_def read16_def byteAt_Some or.assoc add.commute [of 3 i])
  then show "\<exists>v. read32 data i = Some v \<and> (word_of_int v :: i32) = w" using word32_bytes[of w] by blast
qed

lemma write32_holds:
  assumes "0 \<le> i" "i + 3 < int (length data)"
  shows "\<exists>data'. write32 data i (sint w) = Some data' \<and> holds32 data' i w \<and> length data' = length data \<and>
    (\<forall>j < length data. int j < i \<or> i + 4 \<le> int j \<longrightarrow> data' ! j = data ! j)"
proof -
  define data' where "data' = data[nat i := ucast w, nat (i + 1) := ucast (drop_bit 8 w),
    nat (i + 2) := ucast (drop_bit 16 w), nat (i + 3) := ucast (drop_bit 24 w)]"
  have w0: "(scast w :: byte) = ucast w" by (rule bit_word_eqI) (auto simp: bit_simps)
  have "write32 data i (sint w) = Some data'"
    using assms by (simp add: write32_def data'_def ucast_bytes w0)
  moreover have "holds32 data' i w"
    using assms unfolding holds32_def data'_def by (auto simp: nth_list_update nat_add_distrib)
  moreover have "\<forall>j < length data. int j < i \<or> i + 4 \<le> int j \<longrightarrow> data' ! j = data ! j"
    using assms by (auto simp: data'_def nth_list_update)
  ultimately show ?thesis by (auto simp: data'_def)
qed

subsection \<open>Store and load\<close>

definition loaded :: "int \<Rightarrow> i32 \<Rightarrow> i32" where
  "loaded sz v = (if sz = 1 then take_bit 8 v else if sz = 2 then take_bit 16 v else v)"

lemma store_load:
  assumes "store m addr sz v = Some (True, m')" "1 \<le> sz" "sz \<le> 4"
  shows "load m' addr sz = Some (loaded sz v, True, m')"
proof -
  let ?acc = "if sz = 3 then 4 else sz"
  have a: "address m addr ?acc = (True, m)"
    using assms by (cases "address m addr ?acc") (auto simp: store_def Let_def dest: address_cases split: if_splits bind_splits)
  then have r: "minAddress \<le> addr" "addr + ?acc \<le> int (length (m_memory m))"
    using address_cases[OF a] by auto
  have "sz = 1 \<or> sz = 2 \<or> sz = 3 \<or> sz = 4" using assms(2,3) by presburger
  then consider "sz = 1" | "sz = 2" | "?acc = 4" "sz > 2" by fastforce
  then show ?thesis
  proof cases
    case 1
    then have "m' = m\<lparr>m_memory := (m_memory m)[nat addr := ucast v]\<rparr>"
      using assms(1) a r by (simp add: store_def)
    then show ?thesis
      using 1 a r by (simp add: load_def address_def byteAt_Some loaded_def word8_bytes ucast_ucast_byte)
  next
    case 2
    then have "m' = m\<lparr>m_memory := (m_memory m)[nat addr := ucast v, nat (addr + 1) := ucast (drop_bit 8 v)]\<rparr>"
      using assms(1) a r by (simp add: store_def)
    then show ?thesis
      using 2 a r word16_bytes[of v]
      by (simp add: load_def address_def read16_def byteAt_Some loaded_def nth_list_update nat_add_distrib)
  next
    case 3
    have m': "m' = m\<lparr>m_memory := (m_memory m)[nat addr := ucast v, nat (addr + 1) := ucast (drop_bit 8 v),
        nat (addr + 2) := ucast (drop_bit 16 v), nat (addr + 3) := ucast (drop_bit 24 v)]\<rparr>"
      using assms(1) a r 3 by (simp add: store_def Let_def)
    have "holds32 (m_memory m') addr v"
      using r 3 unfolding m' holds32_def by (auto simp: nth_list_update nat_add_distrib)
    then obtain w where "read32 (m_memory m') addr = Some w" "(word_of_int w :: i32) = v"
      using read32_holds by blast
    moreover have "address m' addr 4 = (True, m')"
      using r(1) r(2)[unfolded 3(1)] by (simp add: m' address_def)
    ultimately show ?thesis using 3(2) by (simp add: load_def Let_def 3(1) loaded_def)
  qed
qed

text \<open>A store leaves every other byte alone.\<close>

lemma store_frame:
  assumes "store m addr sz v = Some (ok, m')" "1 \<le> sz" "sz \<le> 4"
  shows "\<exists>mem t. m' = m\<lparr>m_memory := mem, m_trap := t\<rparr> \<and> length mem = length (m_memory m) \<and>
    (\<forall>j < length mem. int j < addr \<or> addr + (if sz = 3 then 4 else sz) \<le> int j \<longrightarrow> mem ! j = m_memory m ! j)"
proof -
  let ?acc = "if sz = 3 then 4 else sz"
  obtain ok0 m0 where a: "address m addr ?acc = (ok0, m0)" by (cases "address m addr ?acc")
  from address_cases[OF a] show ?thesis
  proof
    assume "\<not> ok0 \<and> m0 = m\<lparr>m_trap := TrapMemoryLimit\<rparr>"
    then have "m' = m\<lparr>m_memory := m_memory m, m_trap := TrapMemoryLimit\<rparr>"
      using assms(1) by (simp add: store_def a)
    then show ?thesis by blast
  next
    assume h: "ok0 \<and> m0 = m \<and> minAddress \<le> addr \<and> 0 \<le> ?acc \<and> addr + ?acc \<le> int (length (m_memory m))"
    define mem where "mem = m_memory m'"
    have "m' = m\<lparr>m_memory := mem, m_trap := m_trap m\<rparr>"
      using assms(1) h by (auto simp: store_def a Let_def mem_def split: if_splits bind_splits)
    moreover have "length mem = length (m_memory m)"
      using assms(1) h by (auto simp: store_def a Let_def mem_def dest!: put_length split: if_splits bind_splits)
    moreover have "\<forall>j < length mem. int j < addr \<or> addr + ?acc \<le> int j \<longrightarrow> mem ! j = m_memory m ! j"
      using assms h
      by (auto simp: store_def a Let_def mem_def put_eq_Some_iff nth_list_update split: if_splits bind_splits)
    ultimately show ?thesis by blast
  qed
qed

subsection \<open>Push and pop\<close>

lemma push_pop:
  assumes "vm_inv m" "push m v = Some (True, m')"
  shows "m_sp m' = m_sp m + 4" "pop m' = Some (v, True, m'\<lparr>m_sp := m_sp m\<rparr>)"
proof -
  have a: "address m (m_sp m) 4 = (True, m)" "m_sp m + 4 \<le> m_fp m"
    using assms(2) by (cases "address m (m_sp m) 4"; auto simp: push_def trapWith_def dest: address_cases split: if_splits bind_splits)+
  have r: "0 \<le> m_sp m" "m_sp m + 3 < int (length (m_memory m))"
    using address_cases[OF a(1)] by auto
  obtain mem where w: "write32 (m_memory m) (m_sp m) (sint v) = Some mem" "holds32 mem (m_sp m) v"
    using write32_holds[OF r] by blast
  then have u: "updatePeak (m\<lparr>m_memory := mem, m_sp := m_sp m + 4\<rparr>) = (True, m')"
    using assms(2) a by (simp add: push_def)
  then have m': "m_sp m' = m_sp m + 4" "m_memory m' = mem" "m_stackBase m' = m_stackBase m"
    by (auto simp: updatePeak_def trapWith_def Let_def split: if_splits)
  show "m_sp m' = m_sp m + 4" by (rule m'(1))
  obtain x where "read32 mem (m_sp m) = Some x" "(word_of_int x :: i32) = v" using read32_holds[OF w(2)] by blast
  moreover have "m_stackBase m \<le> m_sp m" using assms(1) by (simp add: vm_inv_def)
  ultimately show "pop m' = Some (v, True, m'\<lparr>m_sp := m_sp m\<rparr>)" by (simp add: pop_def m')
qed

subsection \<open>Division\<close>

lemma sint_i32_range: "- 2147483648 \<le> sint (w :: i32) \<and> sint w \<le> 2147483647"
  using sint_range_size[of w] by (simp add: word_size)

lemma sint_word_of_int_i32: "- 2147483648 \<le> x \<Longrightarrow> x \<le> 2147483647 \<Longrightarrow> sint (word_of_int x :: i32) = x"
  by (simp add: signed_of_int signed_take_bit_int_eq_self)

lemma sdiv_range:
  fixes a b :: int
  assumes "- 2147483648 \<le> a" "a \<le> 2147483647" "\<not> (a = - 2147483648 \<and> b = -1)"
  shows "- 2147483648 \<le> a sdiv b \<and> a sdiv b \<le> 2147483647"
proof -
  have r: "- \<bar>a\<bar> \<le> a sdiv b" "a sdiv b \<le> \<bar>a\<bar>" using sdiv_int_range[of a b] by auto
  show ?thesis
  proof (cases "a = - 2147483648")
    case True
    then have "a sdiv b \<noteq> - a" using int_sdiv_negated_is_minus1[of a b] assms(3) by simp
    then show ?thesis using r True by simp
  qed (use r assms in linarith)
qed

lemma smod_range:
  fixes a b :: int
  assumes "b \<noteq> 0"
  shows "\<bar>a smod b\<bar> < \<bar>b\<bar>" "a smod b = 0 \<or> sgn (a smod b) = sgn a"
proof -
  show "\<bar>a smod b\<bar> < \<bar>b\<bar>" using smod_int_range[OF assms, of a] by auto
  have "0 \<le> \<bar>a\<bar> mod \<bar>b\<bar>" using assms by simp
  then show "a smod b = 0 \<or> sgn (a smod b) = sgn a"
    by (cases "\<bar>a\<bar> mod \<bar>b\<bar> = 0") (auto simp: smod_int_alt_def sgn_mult)
qed

lemma min_eq: "sint (w :: i32) = - 2147483648 \<longleftrightarrow> w = minInt32" "sint w = -1 \<longleftrightarrow> w = -1"
proof -
  have "sint (minInt32 :: i32) = - 2147483648" by (simp add: signed_of_int sint_word_ariths)
  then show "sint w = - 2147483648 \<longleftrightarrow> w = minInt32" by (metis signed_word_eqI)
  show "sint w = -1 \<longleftrightarrow> w = -1" by (metis signed_word_eqI signed_minus_1)
qed

text \<open>Quotient and remainder of the two division opcodes.\<close>

definition quotient :: "i32 \<Rightarrow> i32 \<Rightarrow> i32" where
  "quotient l r = (if l = minInt32 \<and> r = -1 then l else word_of_int (sint l sdiv sint r))"

definition remainder :: "i32 \<Rightarrow> i32 \<Rightarrow> i32" where
  "remainder l r = (if l = minInt32 \<and> r = -1 then 0 else word_of_int (sint l smod sint r))"

lemma division_semantics:
  assumes "r \<noteq> 0"
  shows "quotient l r * r + remainder l r = l"
    and "\<bar>sint (remainder l r)\<bar> < \<bar>sint r\<bar>" "remainder l r = 0 \<or> sgn (sint (remainder l r)) = sgn (sint l)"
    and "\<not> (l = minInt32 \<and> r = -1) \<Longrightarrow> sint (quotient l r) = sint l sdiv sint r"
proof -
  have r0: "sint r \<noteq> 0" using assms by (simp add: signed_eq_0_iff)
  note lr = sint_i32_range[of l] and rr = sint_i32_range[of r]
  have s: "sint (remainder l r) = sint l smod sint r" if "\<not> (l = minInt32 \<and> r = -1)"
    unfolding remainder_def if_not_P[OF that]
    by (rule sint_word_of_int_i32) (use smod_range(1)[OF r0, of "sint l"] rr in linarith)+
  show "quotient l r * r + remainder l r = l"
  proof (cases "l = minInt32 \<and> r = -1")
    case True
    then show ?thesis by (simp add: quotient_def remainder_def)
  next
    case False
    have "(word_of_int (sint l sdiv sint r) :: i32) * word_of_int (sint r) + word_of_int (sint l smod sint r) = word_of_int (sint l)"
      by (simp only: wi_homs sdiv_mult_smod_eq)
    then show ?thesis unfolding quotient_def remainder_def if_not_P[OF False] by simp
  qed
  show "\<bar>sint (remainder l r)\<bar> < \<bar>sint r\<bar>"
    using s smod_range(1)[OF r0, of "sint l"] r0 by (cases "l = minInt32 \<and> r = -1") (auto simp: remainder_def)
  show "remainder l r = 0 \<or> sgn (sint (remainder l r)) = sgn (sint l)"
    using s smod_range(2)[OF r0, of "sint l"] by (cases "l = minInt32 \<and> r = -1") (auto simp: remainder_def)
  show "sint (quotient l r) = sint l sdiv sint r" if n: "\<not> (l = minInt32 \<and> r = -1)"
  proof -
    have "\<not> (sint l = - 2147483648 \<and> sint r = -1)" using n min_eq by metis
    then show ?thesis
      using sdiv_range[of "sint l" "sint r"] lr n by (simp add: quotient_def sint_word_of_int_i32)
  qed
qed

subsection \<open>Comparisons\<close>

text \<open>What the six condition codes ask of the operands of the comparison before.\<close>

definition compares :: "int \<Rightarrow> int \<Rightarrow> int \<Rightarrow> bool" where
  "compares c x y =
     (if c = condEq then x = y else if c = condNe then x \<noteq> y
      else if c = condLt then x < y else if c = condLe then x \<le> y
      else if c = condGt then x > y else x \<ge> y)"

lemma condition_sub:
  fixes x y :: i32
  assumes "- 2147483648 \<le> sint x - sint y" "sint x - sint y \<le> 2147483647"
  shows "condition (x - y) c = compares c (sint x) (sint y)"
proof -
  have "sint (x - y) = sint (word_of_int (sint x - sint y) :: i32)" by simp
  also have "\<dots> = sint x - sint y" by (rule sint_word_of_int_i32[OF assms])
  finally show ?thesis by (auto simp: condition_def compares_def)
qed

lemma condition_overflow:
  fixes x y :: i32
  assumes "\<not> (- 2147483648 \<le> sint x - sint y \<and> sint x - sint y \<le> 2147483647)"
  shows "condition (x - y) condLt \<noteq> (sint x < sint y)"
proof -
  note r = sint_i32_range[of x] sint_i32_range[of y]
  define d where "d = sint x - sint y"
  have e: "sint (x - y) = (d + 2 ^ 31) mod 2 ^ 32 - 2 ^ 31"
    by (simp add: sint_word_diff d_def signed_take_bit_eq_take_bit_shift take_bit_eq_mod)
  consider "2147483647 < d" | "d < - 2147483648" using assms unfolding d_def by linarith
  then show ?thesis
  proof cases
    case 1
    have "(d + 2 ^ 31) mod 2 ^ 32 = (d + 2 ^ 31 - 2 ^ 32) mod 2 ^ 32" by (rule minus_mod_self2 [symmetric])
    also have "\<dots> = d + 2 ^ 31 - 2 ^ 32"
      by (rule mod_pos_pos_trivial) (use 1 r in \<open>simp_all add: d_def\<close>)
    finally show ?thesis using 1 r unfolding condition_def e by (simp add: d_def)
  next
    case 2
    have "(d + 2 ^ 31) mod 2 ^ 32 = (d + 2 ^ 31 + 2 ^ 32) mod 2 ^ 32" by (rule mod_add_self2 [symmetric])
    also have "\<dots> = d + 2 ^ 31 + 2 ^ 32"
      by (rule mod_pos_pos_trivial) (use 2 r in \<open>simp_all add: d_def\<close>)
    finally show ?thesis using 2 r unfolding condition_def e by (simp add: d_def)
  qed
qed

subsection \<open>Calls\<close>

text \<open>The operand words of a call beyond the six register arguments are dropped at the return.\<close>

definition argumentBytes :: "int \<Rightarrow> int" where
  "argumentBytes words = (if words > 6 then (words - 6) * 4 else 0)"

lemma execCall_True:
  assumes "execCall code pc nxt m = Some (True, m')"
  obtains target words newFP where "read32 code (pc + 1) = Some target" "read32 code (pc + 5) = Some words"
    "0 \<le> findRoutine (img_routines (m_image m)) target" "m_sp m \<le> newFP" "0 \<le> newFP"
    "m_calls m' = m_calls m @ [\<lparr>fr_pc = nxt, fr_fp = m_fp m, fr_sp = m_sp m, fr_routine = m_routine m,
       fr_drop = argumentBytes words\<rparr>]"
    "m_pc m' = target" "m_fp m' = newFP" "m_routine m' = findRoutine (img_routines (m_image m)) target"
    "m_sp m' = m_sp m" "m_regs m' = m_regs m" "m_memory m' = m_memory m" "m_stackBase m' = m_stackBase m"
proof -
  obtain target where t: "read32 code (pc + 1) = Some target"
    using assms by (auto simp: execCall_def split: bind_splits)
  have f: "0 \<le> findRoutine (img_routines (m_image m)) target"
    using assms by (auto simp: execCall_def t Let_def trapWith_def split: if_splits)
  then have nf: "\<not> findRoutine (img_routines (m_image m)) target < 0" by simp
  obtain callee where c: "at (img_routines (m_image m)) (findRoutine (img_routines (m_image m)) target) = Some callee"
    using assms by (auto simp: execCall_def t Let_def trapWith_def split: bind_splits if_splits)
  obtain frameSize where fs: "(if rt_framed callee then map_option rt_frameSize (at (img_routines (m_image m)) (m_routine m))
      else Some 0) = Some frameSize"
    using assms nf by (cases "if rt_framed callee then map_option rt_frameSize (at (img_routines (m_image m)) (m_routine m))
      else Some 0") (simp_all only: execCall_def t Let_def c bind.bind_lunit if_False bind.bind_lzero option.distinct)
  have fp: "m_sp m \<le> m_fp m - frameSize" "0 \<le> m_fp m - frameSize"
    using assms unfolding execCall_def t Let_def bind.bind_lunit if_not_P[OF nf] c fs
    by (auto simp: trapWith_def split: if_splits)
  then have nt: "\<not> (m_fp m - frameSize < m_sp m \<or> m_fp m - frameSize < 0)" by simp
  obtain words where w: "read32 code (pc + 5) = Some words"
    using assms unfolding execCall_def t Let_def bind.bind_lunit if_not_P[OF nf] c fs if_not_P[OF nt]
    by (auto split: bind_splits)
  have u: "updatePeak (m\<lparr>m_calls := m_calls m @ [\<lparr>fr_pc = nxt, fr_fp = m_fp m, fr_sp = m_sp m,
       fr_routine = m_routine m, fr_drop = argumentBytes words\<rparr>], m_fp := m_fp m - frameSize,
       m_routine := findRoutine (img_routines (m_image m)) target, m_pc := target\<rparr>) = (True, m')"
    using assms unfolding execCall_def t Let_def bind.bind_lunit if_not_P[OF nf] c fs if_not_P[OF nt] w
      argumentBytes_def by simp
  show thesis
    by (rule that[OF t w f fp]) (use u in \<open>auto simp: updatePeak_def Let_def trapWith_def split: if_splits\<close>)
qed

lemma execRet_last:
  assumes "m_calls m = cs @ [\<lparr>fr_pc = nxt, fr_fp = fp, fr_sp = sp, fr_routine = r, fr_drop = d\<rparr>]"
  shows "execRet m =
    (if d > sp - m_stackBase m then (False, m\<lparr>m_calls := cs, m_trap := TrapInvalidInstruction\<rparr>)
     else (True, m\<lparr>m_calls := cs, m_sp := sp - d, m_pc := nxt, m_fp := fp, m_routine := r\<rparr>))"
  using assms by (simp add: execRet_def Let_def trapWith_def)

subsection \<open>Fused instructions\<close>

text \<open>
  The two instructions a fused opcode stands for, with the operand bytes of each: the first reads
  the bytes after the opcode, the second the bytes from the given offset on.
\<close>

definition fusedParts :: "int \<Rightarrow> (int \<times> int \<times> int) option" where
  "fusedParts op =
     (if op = opPushRegLoadStack then Some (opPushReg, opLoadStack, 2)
      else if op = opLoadStackPushReg then Some (opLoadStack, opPushReg, 6)
      else if op = opPushRegMovImm then Some (opPushReg, opMovRegImm, 2)
      else if op = opLoadMemPushReg then Some (opLoadMem, opPushReg, 8)
      else if op = opLoadStackPop then Some (opLoadStack, opPopReg, 6)
      else if op = opMovRegImmPop then Some (opMovRegImm, opPopReg, 6)
      else if op = opMovRegRegPop then Some (opMovRegReg, opPopReg, 3)
      else None)"

definition sameBytes :: "bytes \<Rightarrow> int \<Rightarrow> bytes \<Rightarrow> int \<Rightarrow> int \<Rightarrow> bool" where
  "sameBytes code i code' j n \<longleftrightarrow> list_all (\<lambda>k. byteAt code (i + int k) = byteAt code' (j + int k)) [0..<nat n]"

lemma sameBytes_byte: "sameBytes code i code' j n \<Longrightarrow> 0 \<le> k \<Longrightarrow> k < n \<Longrightarrow> byteAt code (i + k) = byteAt code' (j + k)"
  using bspec[of "set [0..<nat n]" "\<lambda>k. byteAt code (i + int k) = byteAt code' (j + int k)" "nat k"]
  by (simp add: sameBytes_def list_all_iff)

lemma sameBytes_imm32:
  assumes "sameBytes code i code' j n" "0 \<le> k" "k + 3 < n"
  shows "imm32 code (i + k) = imm32 code' (j + k)"
  using sameBytes_byte[OF assms(1), of k] sameBytes_byte[OF assms(1), of "k + 1"]
    sameBytes_byte[OF assms(1), of "k + 2"] sameBytes_byte[OF assms(1), of "k + 3"] assms(2,3)
  by (simp add: imm32_def read32_def read16_def add.assoc)

lemma execFused_parts:
  assumes "fusedParts op = Some (op1, op2, at2)" "byteAt c1 p1 = Some op1" "byteAt c2 p2 = Some op2"
    and b1: "sameBytes code (pc + 1) c1 (p1 + 1) (instructionSize op1 - 1)"
    and b2: "sameBytes code (pc + at2) c2 (p2 + 1) (instructionSize op2 - 1)"
  shows "execute code pc op m = andThen (execute c1 p1 op1 m) (execute c2 p2 op2)"
proof -
  note y1 = sameBytes_byte[OF b1] and i1 = sameBytes_imm32[OF b1]
    and y2 = sameBytes_byte[OF b2] and i2 = sameBytes_imm32[OF b2]
  note parts = execute_def [of c1] execute_def [of code] execFused_def execMove_def instructionSize_def
  have load2: "execute c2 p2 opLoadStack =
      (\<lambda>m. do { r \<leftarrow> byteAt c2 (p2 + 1); d \<leftarrow> imm32 c2 (p2 + 2); loadStack m r d })"
    and mov2: "execute c2 p2 opMovRegImm =
      (\<lambda>m. do { r \<leftarrow> byteAt c2 (p2 + 1); v \<leftarrow> imm32 c2 (p2 + 2); setRegOk m r v })"
    and push2: "execute c2 p2 opPushReg = pushReg c2 (p2 + 1)"
    and pop2: "execute c2 p2 opPopReg = (\<lambda>m. do { r \<leftarrow> byteAt c2 (p2 + 1); popReg m r })"
    by (rule ext, simp add: execute_def execMove_def execStack_def pushReg_def Let_def)+
  have push': "pushReg code i = pushReg c2 (p2 + 1)" if "byteAt code i = byteAt c2 (p2 + 1)" for i
    by (rule ext) (simp add: pushReg_def that)
  have mem: "execMem c1 p1 opLoadMem m = do {
      r \<leftarrow> byteAt c1 (p1 + 1); b \<leftarrow> byteAt c1 (p1 + 2); d \<leftarrow> imm32 c1 (p1 + 3); sz \<leftarrow> byteAt c1 (p1 + 7);
      loadMem m r b d sz }"
    by (auto simp: execMem_def loadMem_def Let_def split: bind_splits)
  consider "op = opPushRegLoadStack" "op1 = opPushReg" "op2 = opLoadStack" "at2 = 2"
    | "op = opLoadStackPushReg" "op1 = opLoadStack" "op2 = opPushReg" "at2 = 6"
    | "op = opPushRegMovImm" "op1 = opPushReg" "op2 = opMovRegImm" "at2 = 2"
    | "op = opLoadMemPushReg" "op1 = opLoadMem" "op2 = opPushReg" "at2 = 8"
    | "op = opLoadStackPop" "op1 = opLoadStack" "op2 = opPopReg" "at2 = 6"
    | "op = opMovRegImmPop" "op1 = opMovRegImm" "op2 = opPopReg" "at2 = 6"
    | "op = opMovRegRegPop" "op1 = opMovRegReg" "op2 = opPopReg" "at2 = 3"
    using assms(1) by (auto simp: fusedParts_def split: if_splits)
  then show ?thesis
  proof cases
    case 1
    then show ?thesis
      using y1[of 0] y2[of 0] i2[of 1] by (simp add: parts load2 pushReg_def add.assoc)
  next
    case 2
    then show ?thesis
      using y1[of 0] i1[of 1] y2[of 0] push'[of "pc + 6"]
      by (simp add: parts push2 execStack_def Let_def add.assoc)
  next
    case 3
    then show ?thesis
      using y1[of 0] y2[of 0] i2[of 1] by (simp add: parts mov2 pushReg_def add.assoc)
  next
    case 4
    then show ?thesis
      using y1[of 0] y1[of 1] i1[of 2] y1[of 6] y2[of 0] push'[of "pc + 8"]
      by (simp add: parts push2 mem add.assoc)
  next
    case 5
    then show ?thesis
      using y1[of 0] i1[of 1] y2[of 0] by (simp add: parts pop2 execStack_def Let_def add.assoc)
  next
    case 6
    then show ?thesis
      using y1[of 0] i1[of 1] y2[of 0] by (simp add: parts pop2 add.assoc)
  next
    case 7
    then show ?thesis
      using y1[of 0] y1[of 1] y2[of 0] by (simp add: parts pop2 add.assoc)
  qed
qed

subsection \<open>The checksum\<close>

lemma checksumLoop_range:
  "0 \<le> a \<Longrightarrow> a < 65521 \<Longrightarrow> 0 \<le> b \<Longrightarrow> b < 65521 \<Longrightarrow>
     0 \<le> fst (checksumLoop xs a b) \<and> fst (checksumLoop xs a b) < 65521 \<and>
     0 \<le> snd (checksumLoop xs a b) \<and> snd (checksumLoop xs a b) < 65521"
  by (induction xs a b rule: checksumLoop.induct) (simp_all add: Let_def)

lemma checksumLoop_sum:
  "fst (checksumLoop xs a b) mod 65521 = (a + sum_list (map uint xs)) mod 65521"
  by (induction xs a b rule: checksumLoop.induct) (simp_all add: Let_def mod_simps add.assoc)

lemma checksum_mod: "checksum xs mod 65536 = (1 + sum_list (map uint xs)) mod 65521"
proof -
  obtain a b where ab: "checksumLoop xs 1 0 = (a, b)" by (cases "checksumLoop xs 1 0")
  have r: "0 \<le> a" "a < 65521" using checksumLoop_range[of 1 0 xs] ab by simp_all
  have "checksum xs = a + b * 2 ^ 16"
    using or_push_bit_eq_add[of a 16 b] r by (simp add: checksum_def ab)
  then have "checksum xs mod 65536 = a" using r by simp
  moreover have "a = (1 + sum_list (map uint xs)) mod 65521"
    using checksumLoop_sum[of xs 1 0] r ab by simp
  ultimately show ?thesis by simp
qed

text \<open>Changing one byte changes the checksum.\<close>

lemma checksum_one_byte:
  assumes "i < length xs" "b \<noteq> xs ! i"
  shows "checksum (xs[i := b]) \<noteq> checksum xs"
proof
  assume "checksum (xs[i := b]) = checksum xs"
  then have "(1 + sum_list (map uint (xs[i := b]))) mod 65521 = (1 + sum_list (map uint xs)) mod 65521"
    by (metis checksum_mod)
  moreover have "sum_list (map uint (xs[i := b])) = sum_list (map uint xs) - uint (xs ! i) + uint b"
  proof -
    have "xs = take i xs @ xs ! i # drop (Suc i) xs" using assms(1) by (simp add: id_take_nth_drop)
    then have "sum_list (map uint xs) = sum_list (map uint (take i xs)) + uint (xs ! i) + sum_list (map uint (drop (Suc i) xs))"
      by (metis add.assoc list.simps(9) map_append sum_list.Cons sum_list_append)
    then show ?thesis using assms(1) by (simp add: upd_conv_take_nth_drop)
  qed
  ultimately have "(65521 :: int) dvd uint b - uint (xs ! i)"
    by (simp add: mod_eq_dvd_iff algebra_simps)
  moreover have "\<bar>uint b - uint (xs ! i)\<bar> < 65521"
    using uint_byte_range[of b] uint_byte_range[of "xs ! i"] by linarith
  ultimately have "uint b - uint (xs ! i) = 0" using dvd_imp_le_int[of "uint b - uint (xs ! i)" 65521] by linarith
  then show False using assms(2) by (simp add: byte_eq_iff_uint)
qed

lemma byteAt_update: "i \<noteq> j \<Longrightarrow> byteAt (xs[nat i := b]) j = byteAt xs j" if "0 \<le> i"
  using that by (auto simp: byteAt_def at_def nth_list_update)

lemma read_update:
  assumes "0 \<le> j" "j + 3 < int i"
  shows "read16 (xs[i := b]) j = read16 xs j" "read32 (xs[i := b]) j = read32 xs j"
  using assms byteAt_update[of "int i" _ xs b] by (simp_all add: read32_def read16_def)

text \<open>An image with one byte of its body changed does not decode.\<close>

lemma decodeImage_checksum:
  assumes "decodeImage program = Some (Some img)"
  shows "headerSize \<le> int (length program)"
    "\<exists>body w. slice program headerSize (int (length program)) = Some body \<and> read32 program 32 = Some w \<and> checksum body = w"
  using assms by (auto simp: decodeImage_def Let_def split: if_splits bind_splits option.splits)

lemma decodeImage_corrupt:
  assumes "decodeImage program = Some (Some img)" "40 \<le> i" "i < length program" "b \<noteq> program ! i"
  shows "decodeImage (program[i := b]) = Some None"
proof -
  let ?p = "program[i := b]"
  have "decodeImage ?p \<noteq> Some (Some img')" for img'
  proof
    assume "decodeImage ?p = Some (Some img')"
    then obtain body' w' where n: "slice ?p headerSize (int (length ?p)) = Some body'"
      "read32 ?p 32 = Some w'" "checksum body' = w'"
      using decodeImage_checksum(2) by blast
    obtain body w where o: "slice program headerSize (int (length program)) = Some body"
      "read32 program 32 = Some w" "checksum body = w"
      using decodeImage_checksum(2)[OF assms(1)] by blast
    have "w' = w" using n(2) o(2) read_update(2)[of 32 i program b] assms(2) by simp
    moreover have "body' = body[i - 40 := b]"
      using n(1) o(1) assms(2,3) by (auto simp: slice_eq_Some_iff drop_update_swap)
    moreover have "i - 40 < length body" "body ! (i - 40) = program ! i"
      using o(1) assms(2,3) by (auto simp: slice_eq_Some_iff)
    ultimately show False using checksum_one_byte[of "i - 40" body b] assms(4) n(3) o(3) by simp
  qed
  moreover have "decodeImage ?p \<noteq> None" by (rule decodeImage_defined)
  ultimately show ?thesis by (cases "decodeImage ?p"; cases "the (decodeImage ?p)") auto
qed

end
