(* ===== verification/Os_Dirent.thy ===== *)
theory Os_Dirent
  imports VM_Syscall
begin

text \<open>
  Reading a directory in the guest: \<open>std/os\<close> parses the records that the virtual machine's
  \<open>getdents64\<close> delivers (\<open>dirent_vm_vm32_renvo.go\<close>, \<open>readdir_posix_renvo.go\<close>) and sorts the
  entries (\<open>os_non_msdos_renvo.go\<close>).  \<^const>\<open>None\<close> is a panic of the parser.
\<close>

record DirEntry =
  ent_name :: gostring
  ent_isDir :: bool

definition renvoDirentMinimum :: int where
  "renvoDirentMinimum = 19"

definition renvoDirentRecordLength :: "bytes \<Rightarrow> int \<Rightarrow> int option" where
  "renvoDirentRecordLength buf pos = do {
     lo \<leftarrow> at buf (pos + 16);
     hi \<leftarrow> at buf (pos + 17);
     Some (uint lo OR push_bit 8 (uint hi)) }"

definition renvoDirentTypeOffset :: "int \<Rightarrow> int" where
  "renvoDirentTypeOffset pos = pos + 18"

definition renvoDirentNameStart :: "int \<Rightarrow> int" where
  "renvoDirentNameStart pos = pos + 19"

definition renvoDirentIsDirectory :: "byte \<Rightarrow> bool" where
  "renvoDirentIsDirectory typ \<longleftrightarrow> typ = 4"

definition dirNameIsDot :: "bytes \<Rightarrow> int \<Rightarrow> int \<Rightarrow> bool option" where
  "dirNameIsDot buf a b = do {
     one \<leftarrow> (if b - a = 1 then map_option (\<lambda>c. c = 0x2e) (at buf a) else Some False);
     if one then Some True
     else if b - a = 2 then do {
       c \<leftarrow> at buf a;
       if c = 0x2e then map_option (\<lambda>c. c = 0x2e) (at buf (a + 1)) else Some False }
     else Some False }"

text \<open>\<open>for nameEnd < pos+reclen && buf[nameEnd] != 0 { nameEnd++ }\<close>.\<close>

function nameEndLoop :: "bytes \<Rightarrow> int \<Rightarrow> int \<Rightarrow> int option" where
  "nameEndLoop buf stop i =
     (if i < stop then
        (case at buf i of
           None \<Rightarrow> None
         | Some c \<Rightarrow> if c \<noteq> 0 then nameEndLoop buf stop (i + 1) else Some i)
      else Some i)"
  by pat_completeness auto
termination
  by (relation "measure (\<lambda>(buf, stop, i). nat (stop - i))") auto

declare nameEndLoop.simps [simp del]

text \<open>The loop of \<open>renvoAppendDirentBuffer\<close>, and its early \<open>return out, false\<close>.\<close>

function direntLoop :: "DirEntry list \<Rightarrow> bytes \<Rightarrow> int \<Rightarrow> int \<Rightarrow> (DirEntry list \<times> bool) option" where
  "direntLoop out buf n pos =
     (if pos + renvoDirentMinimum \<le> n then
        (case renvoDirentRecordLength buf pos of
           None \<Rightarrow> None
         | Some reclen \<Rightarrow>
             if reclen \<le> renvoDirentMinimum \<or> pos + reclen > n then Some (out, False)
             else do {
               nameEnd \<leftarrow> nameEndLoop buf (pos + reclen) (renvoDirentNameStart pos);
               out \<leftarrow> (if nameEnd > renvoDirentNameStart pos then do {
                         dot \<leftarrow> dirNameIsDot buf (renvoDirentNameStart pos) nameEnd;
                         if \<not> dot then do {
                           name \<leftarrow> slice buf (renvoDirentNameStart pos) nameEnd;
                           typ \<leftarrow> at buf (renvoDirentTypeOffset pos);
                           Some (out @ [\<lparr>ent_name = name, ent_isDir = renvoDirentIsDirectory typ\<rparr>]) }
                         else Some out }
                       else Some out);
               direntLoop out buf n (pos + reclen) })
      else Some (out, True))"
  by pat_completeness auto
termination
  by (relation "measure (\<lambda>(out, buf, n, pos). nat (n - pos))") (auto simp: renvoDirentMinimum_def)

declare direntLoop.simps [simp del]

definition renvoAppendDirentBuffer :: "DirEntry list \<Rightarrow> bytes \<Rightarrow> int \<Rightarrow> (DirEntry list \<times> bool) option" where
  "renvoAppendDirentBuffer out buf n = direntLoop out buf n 0"

text \<open>The inner loop of \<open>sortDirEntries\<close>, with \<open>k = j + 1\<close>.\<close>

fun sortShift :: "DirEntry list \<Rightarrow> DirEntry \<Rightarrow> nat \<Rightarrow> DirEntry list" where
  "sortShift entries item 0 = entries[0 := item]"
| "sortShift entries item (Suc j) =
     (if bytesLess (ent_name item) (ent_name (entries ! j))
      then sortShift (entries[Suc j := entries ! j]) item j
      else entries[Suc j := item])"

function sortLoop :: "DirEntry list \<Rightarrow> nat \<Rightarrow> DirEntry list" where
  "sortLoop entries i =
     (if i < length entries then sortLoop (sortShift entries (entries ! i) i) (i + 1) else entries)"
  by pat_completeness auto

lemma length_sortShift [simp]: "length (sortShift entries item k) = length entries"
  by (induction entries item k rule: sortShift.induct) auto

termination sortLoop
  by (relation "measure (\<lambda>(entries, i). length entries - i)") auto

declare sortLoop.simps [simp del]

definition sortDirEntries :: "DirEntry list \<Rightarrow> DirEntry list" where
  "sortDirEntries entries = sortLoop entries 1"

text \<open>
  The loop of \<open>ReadDir\<close> over the answers of \<open>renvoReadDirChunk\<close>: the number of bytes and the buffer
  after each call.  The outer \<^const>\<open>None\<close> is a panic, the inner one the I/O error; the list ends
  the loop like an answer of 0.
\<close>

fun readDirChunks :: "DirEntry list \<Rightarrow> (int \<times> bytes) list \<Rightarrow> DirEntry list option option" where
  "readDirChunks out [] = Some (Some out)"
| "readDirChunks out ((n, buf) # answers) =
     (if n < 0 then Some None
      else if n = 0 then Some (Some out)
      else
        (case renvoAppendDirentBuffer out buf n of
           None \<Rightarrow> None
         | Some (out, ok) \<Rightarrow> if \<not> ok then Some None else readDirChunks out answers))"

definition ReadDir :: "(int \<times> bytes) list \<Rightarrow> DirEntry list option option" where
  "ReadDir answers = map_option (map_option sortDirEntries) (readDirChunks [] answers)"

end
