(* ===== verification/VM_Listing.thy ===== *)
theory VM_Listing
  imports VM_Calls Os_Dirent "HOL-Library.Multiset"
begin

text \<open>
  Directory listings end to end: the entries \<open>directoryData\<close> collects, the records it writes, what
  the guest's \<open>ReadDir\<close> reads back from them, and the order \<open>sortDirEntries\<close> gives.
\<close>

subsection \<open>Go's string order\<close>

lemma bytesLess_irrefl: "\<not> bytesLess xs xs"
  by (induction xs) auto

lemma bytesLess_trans: "bytesLess xs ys \<Longrightarrow> bytesLess ys zs \<Longrightarrow> bytesLess xs zs"
proof (induction xs ys arbitrary: zs rule: bytesLess.induct)
  case (2 y ys)
  then show ?case by (cases zs) auto
next
  case (3 x xs y ys)
  then show ?case by (cases zs) auto
qed simp

lemma bytesLess_total: "bytesLess xs ys \<or> xs = ys \<or> bytesLess ys xs"
  by (induction xs ys rule: bytesLess.induct) (auto, metis bytesLess.elims(3) neq_Nil_conv)

lemma bytesLess_asym: "bytesLess xs ys \<Longrightarrow> \<not> bytesLess ys xs"
  using bytesLess_irrefl bytesLess_trans by blast

subsection \<open>Collecting the entries\<close>

abbreviation (input) entriesSorted :: "directoryEntry list \<Rightarrow> bool" where
  "entriesSorted \<equiv> sorted_wrt (\<lambda>a b. bytesLess (de_name a) (de_name b))"

definition entryNames :: "directoryEntry list \<Rightarrow> gostring set" where
  "entryNames es = de_name ` set es"

definition entryDirs :: "directoryEntry list \<Rightarrow> gostring set" where
  "entryDirs es = {n. \<exists>e\<in>set es. de_name e = n \<and> de_isDir e}"

lemma entryDirs_Cons:
  "entryDirs (e # es) = (if de_isDir e then insert (de_name e) (entryDirs es) else entryDirs es)"
  "entryDirs [] = {}"
  by (auto simp: entryDirs_def)

lemma insertEntry_names: "entryNames (insertEntry es child isDir) = insert child (entryNames es)"
  by (induction es child isDir rule: insertEntry.induct) (auto simp: entryNames_def)

lemma insertEntry_dirs:
  "entryDirs (insertEntry es child isDir) = (if isDir then insert child (entryDirs es) else entryDirs es)"
  by (induction es child isDir rule: insertEntry.induct) (auto simp: entryDirs_Cons split: if_splits)

lemma insertEntry_sorted:
  assumes "entriesSorted es"
  shows "entriesSorted (insertEntry es child isDir)"
  using assms
proof (induction es child isDir rule: insertEntry.induct)
  case (2 e es child isDir)
  have n: "de_name x \<in> insert child (entryNames es)" if "x \<in> set (insertEntry es child isDir)" for x
    using that insertEntry_names[of es child isDir] by (auto simp: entryNames_def)
  show ?case
  proof (cases "bytesLess (de_name e) child")
    case True
    have "bytesLess (de_name e) (de_name x)" if "x \<in> set (insertEntry es child isDir)" for x
      using n[OF that] True 2(2) by (auto simp: entryNames_def)
    then show ?thesis using 2 True by simp
  next
    case False
    then show ?thesis
      using 2(2) bytesLess_total[of "de_name e" child] bytesLess_trans by (auto intro: bytesLess_trans)
  qed
qed simp

text \<open>
  The child of a directory that a file's path names: the first component below the prefix, and
  whether further components follow.
\<close>

definition childOf :: "gostring \<Rightarrow> gostring \<Rightarrow> (gostring \<times> bool) option" where
  "childOf prefix path =
     (if length prefix < length path \<and> take (length prefix) path = prefix \<and>
         fst (splitSlash (drop (length prefix) path)) \<noteq> []
      then Some (splitSlash (drop (length prefix) path)) else None)"

lemma collectEntries_step:
  "collectEntries prefix (f # fs) es =
     (case childOf prefix (file_Name f) of
        None \<Rightarrow> collectEntries prefix fs es
      | Some (child, isDir) \<Rightarrow> collectEntries prefix fs (insertEntry es child isDir))"
  by (auto simp: childOf_def stringPrefix_def Let_def split: prod.splits)

lemma collectEntries_spec:
  "entriesSorted es \<Longrightarrow>
     entriesSorted (collectEntries prefix fs es) \<and>
     entryNames (collectEntries prefix fs es) =
       entryNames es \<union> {c. \<exists>f\<in>set fs. \<exists>d. childOf prefix (file_Name f) = Some (c, d)} \<and>
     entryDirs (collectEntries prefix fs es) =
       entryDirs es \<union> {c. \<exists>f\<in>set fs. childOf prefix (file_Name f) = Some (c, True)}"
proof (induction fs arbitrary: es)
  case (Cons f fs)
  show ?case
  proof (cases "childOf prefix (file_Name f)")
    case None
    then show ?thesis using Cons unfolding collectEntries_step by auto
  next
    case (Some x)
    obtain c d where x: "x = (c, d)" by fastforce
    have "entriesSorted (insertEntry es c d)" using insertEntry_sorted Cons.prems by blast
    from Cons.IH[OF this] show ?thesis
      unfolding collectEntries_step by (auto simp: Some x insertEntry_names insertEntry_dirs)
  qed
qed simp

text \<open>The first component of a path and what follows it, without the splitting loop.\<close>

lemma splitSlash_iff:
  "splitSlash s = (c, d) \<longleftrightarrow> 0x2f \<notin> set c \<and> (if d then \<exists>rest. s = c @ 0x2f # rest else s = c)"
proof (induction s arbitrary: c)
  case Nil
  then show ?case by auto
next
  case (Cons x s)
  obtain name isDir where s: "splitSlash s = (name, isDir)" by fastforce
  show ?case
  proof (cases "x = 0x2f")
    case True
    then show ?thesis by (cases c) auto
  next
    case False
    then show ?thesis using Cons.IH[of "tl c"] s by (cases c) auto
  qed
qed

lemma childOf_iff:
  "childOf prefix path = Some (c, d) \<longleftrightarrow> c \<noteq> [] \<and> 0x2f \<notin> set c \<and>
     (if d then \<exists>rest. path = prefix @ c @ 0x2f # rest else path = prefix @ c)"
proof (cases "\<exists>s. path = prefix @ s")
  case True
  then obtain s where s: "path = prefix @ s" ..
  have "childOf prefix path = Some (c, d) \<longleftrightarrow> splitSlash s = (c, d) \<and> c \<noteq> [] \<and> s \<noteq> []"
    by (auto simp: childOf_def s)
  also have "\<dots> \<longleftrightarrow> splitSlash s = (c, d) \<and> c \<noteq> []" by auto
  finally show ?thesis unfolding splitSlash_iff s by auto
next
  case False
  then have "take (length prefix) path \<noteq> prefix" by (metis append_take_drop_id)
  then show ?thesis using False by (auto simp: childOf_def)
qed

text \<open>An entry is marked as a directory exactly when some file lies below it.\<close>

lemma entryDirs_sorted: "entriesSorted es \<Longrightarrow> e \<in> set es \<Longrightarrow> de_isDir e \<longleftrightarrow> de_name e \<in> entryDirs es"
proof (induction es)
  case (Cons x xs)
  have irr: "\<not> bytesLess (de_name y) (de_name y)" for y :: directoryEntry by (rule bytesLess_irrefl)
  have d: "de_name y \<noteq> de_name x" if "y \<in> set xs" for y using Cons.prems(1) irr[of x] that by auto
  then have "de_name x \<notin> entryDirs xs" by (auto simp: entryDirs_def)
  then show ?case using Cons d[of e] by (auto simp: entryDirs_Cons)
qed simp

subsection \<open>The records\<close>

lemma recordSize_bounds:
  fixes v :: int
  shows "(v + 7) AND NOT 7 = (v + 7) div 8 * 8" "v \<le> (v + 7) AND NOT 7" "(v + 7) AND NOT 7 < v + 8"
  unfolding and_not_7 by (rule refl, presburger+)

abbreviation (input) recordSize :: "directoryEntry \<Rightarrow> int" where
  "recordSize e \<equiv> (20 + int (length (de_name e)) + 7) AND NOT 7"

lemma length_entryRecord: "int (length (entryRecord i e)) = recordSize e"
  using recordSize_bounds(2)[of "20 + int (length (de_name e))"]
  by (auto simp: entryRecord_def Let_def)

lemma entryRecord_nth:
  assumes "recordSize e < 65536"
  shows "uint (entryRecord i e ! 16) OR push_bit 8 (uint (entryRecord i e ! 17)) = recordSize e"
    and "entryRecord i e ! 18 = (if de_isDir e then 4 else 8)"
    and "j < length (de_name e) \<Longrightarrow> entryRecord i e ! (19 + j) = de_name e ! j"
    and "19 + length (de_name e) \<le> j \<Longrightarrow> int j < recordSize e \<Longrightarrow> entryRecord i e ! j = 0"
proof -
  have sz: "20 + int (length (de_name e)) \<le> recordSize e" using recordSize_bounds(2) by blast
  let ?z = "replicate (nat (recordSize e)) (0 :: byte)"
  have low: "entryRecord i e ! k = (?z[0 := word_of_int (int i + 1), 16 := word_of_int (recordSize e),
      17 := word_of_int (drop_bit 8 (recordSize e)), 18 := (if de_isDir e then 4 else 8)]) ! k" if "k < 19" for k
    using that sz by (auto simp: entryRecord_def Let_def nth_append nth_list_update)
  show "entryRecord i e ! 18 = (if de_isDir e then 4 else 8)"
    using low[of 18] sz by simp
  have b: "entryRecord i e ! 16 = word_of_int (recordSize e)"
    "entryRecord i e ! 17 = word_of_int (drop_bit 8 (recordSize e))"
    using low[of 16] low[of 17] sz by simp_all
  have "recordSize e mod 256 OR push_bit 8 (recordSize e div 256 mod 256) = recordSize e"
    using or_push_bit_eq_add[of "recordSize e mod 256" 8 "recordSize e div 256 mod 256"] assms sz
    by simp
  then show "uint (entryRecord i e ! 16) OR push_bit 8 (uint (entryRecord i e ! 17)) = recordSize e"
    by (simp add: b drop_bit_eq_div)
  show "entryRecord i e ! (19 + j) = de_name e ! j" if "j < length (de_name e)"
    using that sz by (simp add: entryRecord_def Let_def nth_append)
  show "entryRecord i e ! j = 0" if "19 + length (de_name e) \<le> j" "int j < recordSize e"
    using that sz by (auto simp: entryRecord_def Let_def nth_append nth_list_update)
qed

subsection \<open>Parsing one record\<close>

lemma nameEndLoop_run:
  assumes "\<forall>j < k. \<exists>c. at buf (i + int j) = Some c \<and> c \<noteq> 0" "at buf (i + int k) = Some 0" "i + int k < stop"
  shows "nameEndLoop buf stop i = Some (i + int k)"
  using assms
proof (induction k arbitrary: i)
  case 0
  then show ?case by (subst nameEndLoop.simps) simp
next
  case (Suc k)
  have tail: "\<forall>j < k. \<exists>c. at buf (i + 1 + int j) = Some c \<and> c \<noteq> 0"
  proof (intro allI impI)
    fix j
    assume "j < k"
    then have "\<exists>c. at buf (i + int (Suc j)) = Some c \<and> c \<noteq> 0" using Suc.prems(1) by blast
    then show "\<exists>c. at buf (i + 1 + int j) = Some c \<and> c \<noteq> 0" by (simp add: algebra_simps)
  qed
  have "nameEndLoop buf stop (i + 1) = Some (i + 1 + int k)"
    using Suc.IH[OF tail] Suc.prems(2,3) by (simp add: algebra_simps)
  moreover obtain c where "at buf i = Some c" "c \<noteq> 0" using Suc.prems(1) by force
  ultimately show ?case using Suc.prems(3) by (subst nameEndLoop.simps) simp
qed

lemma dirNameIsDot_slice:
  assumes "0 \<le> a" "a \<le> b" "b \<le> int (length buf)"
  shows "dirNameIsDot buf a b = Some (take (nat (b - a)) (drop (nat a) buf) \<in> {[0x2e], [0x2e, 0x2e]})"
proof -
  let ?name = "take (nat (b - a)) (drop (nat a) buf)"
  have len: "int (length ?name) = b - a" using assms by auto
  consider "b - a = 1" | "b - a = 2" | "b - a \<noteq> 1" "b - a \<noteq> 2" by blast
  then show ?thesis
  proof cases
    case 1
    then have "nat a < length buf" "b = a + 1" using assms by auto
    then show ?thesis using 1 assms
      by (simp add: dirNameIsDot_def take_Suc_conv_app_nth hd_drop_conv_nth take_Suc)
  next
    case 2
    then have "nat a < length buf" "nat a + 1 < length buf" "b = a + 2" using assms by auto
    moreover have "drop (nat a) buf = buf ! nat a # buf ! (nat a + 1) # drop (nat a + 2) buf"
      using \<open>nat a + 1 < length buf\<close> by (simp add: Cons_nth_drop_Suc)
    moreover have "nat (a + 1) = nat a + 1" using assms(1) by simp
    ultimately show ?thesis using 2 assms by (auto simp: dirNameIsDot_def)
  next
    case 3
    then have "length ?name \<noteq> 1" "length ?name \<noteq> 2" using len by linarith+
    then have "?name \<notin> {[0x2e], [0x2e, 0x2e]}" by (metis One_nat_def Suc_1 empty_iff insert_iff length_Cons list.size(3))
    then show ?thesis using 3 by (simp add: dirNameIsDot_def)
  qed
qed

text \<open>What a parsed record adds to the entries of the guest.\<close>

definition guestEntry :: "directoryEntry \<Rightarrow> DirEntry list" where
  "guestEntry e =
     (if de_name e \<in> {[], [0x2e], [0x2e, 0x2e]} then []
      else [\<lparr>ent_name = de_name e, ent_isDir = de_isDir e\<rparr>])"

definition plainEntry :: "directoryEntry \<Rightarrow> bool" where
  "plainEntry e \<longleftrightarrow> 0 \<notin> set (de_name e) \<and> int (length (de_name e)) < 65500"

lemma recordSize_small: "plainEntry e \<Longrightarrow> recordSize e < 65536"
  using recordSize_bounds(3)[of "20 + int (length (de_name e))"] by (simp add: plainEntry_def)

lemma direntLoop_step:
  assumes "renvoDirentRecordLength buf pos = Some r" "19 < r" "pos + r \<le> n"
    and "nameEndLoop buf (pos + r) (pos + 19) = Some b" "dirNameIsDot buf (pos + 19) b = Some dot"
    and "slice buf (pos + 19) b = Some name" "at buf (pos + 18) = Some ty"
  shows "direntLoop out buf n pos =
    direntLoop (if pos + 19 < b \<and> \<not> dot
      then out @ [\<lparr>ent_name = name, ent_isDir = renvoDirentIsDirectory ty\<rparr>] else out) buf n (pos + r)"
  using assms by (subst direntLoop.simps)
    (simp add: renvoDirentMinimum_def renvoDirentNameStart_def renvoDirentTypeOffset_def)

lemma direntLoop_record:
  assumes "plainEntry e" "0 \<le> pos" "drop (nat pos) buf = entryRecord i e @ rest"
    and "pos + recordSize e \<le> n" "n \<le> int (length buf)"
  shows "direntLoop out buf n pos = direntLoop (out @ guestEntry e) buf n (pos + recordSize e)"
proof -
  let ?rec = "entryRecord i e" and ?len = "length (de_name e)"
  have sz: "20 + int ?len \<le> recordSize e" using recordSize_bounds(2) by blast
  have rlen: "int (length ?rec) = recordSize e" by (rule length_entryRecord)
  have at': "at buf (pos + int k) = Some (?rec ! k)" if "k < length ?rec" for k
  proof -
    have "k < length (drop (nat pos) buf)" using that assms(3) by simp
    then have "nat pos + k < length buf" by simp
    moreover have "buf ! (nat pos + k) = drop (nat pos) buf ! k" using calculation by simp
    moreover have "nat (pos + int k) = nat pos + k" using assms(2) by simp
    ultimately show ?thesis using assms(2,3) that by (simp add: nth_append)
  qed
  note nth = entryRecord_nth[OF recordSize_small[OF assms(1)], where i = i]
  have l: "renvoDirentRecordLength buf pos = Some (recordSize e)"
    using at'[of 16] at'[of 17] rlen sz nth(1) by (simp add: renvoDirentRecordLength_def)
  have ty: "at buf (pos + 18) = Some (if de_isDir e then 4 else 8)"
    using at'[of 18] rlen sz nth(2) by simp
  have c: "at buf (pos + 19 + int j) = Some (de_name e ! j)" if "j < ?len" for j
    using at'[of "19 + j"] rlen sz that nth(3)[of j] by (simp add: add.assoc)
  have z: "at buf (pos + 19 + int ?len) = Some 0"
    using at'[of "19 + ?len"] rlen sz nth(4)[of "19 + ?len"] by (simp add: add.assoc)
  have fin: "nameEndLoop buf (pos + recordSize e) (pos + 19) = Some (pos + 19 + int ?len)"
  proof (rule nameEndLoop_run[OF _ z])
    show "\<forall>j < ?len. \<exists>c. at buf (pos + 19 + int j) = Some c \<and> c \<noteq> 0"
      using c assms(1) by (auto simp: plainEntry_def in_set_conv_nth)
  qed (use sz in simp)
  have b: "0 \<le> pos + 19" "pos + 19 + int ?len \<le> int (length buf)" using assms(2,4,5) sz by auto
  have name: "take (nat (pos + 19 + int ?len - (pos + 19))) (drop (nat (pos + 19)) buf) = de_name e"
  proof (rule nth_equalityI)
    show "length (take (nat (pos + 19 + int ?len - (pos + 19))) (drop (nat (pos + 19)) buf)) = length (de_name e)"
      using b by auto
    fix j
    assume "j < length (take (nat (pos + 19 + int ?len - (pos + 19))) (drop (nat (pos + 19)) buf))"
    then have j: "j < ?len" by simp
    then have "at buf (pos + 19 + int j) = Some (de_name e ! j)" using c by simp
    moreover have "nat (pos + 19 + int j) = nat (pos + 19) + j" using b(1) by simp
    ultimately show "take (nat (pos + 19 + int ?len - (pos + 19))) (drop (nat (pos + 19)) buf) ! j = de_name e ! j"
      using j b by (simp add: at_eq_Some_iff)
  qed
  have dot: "dirNameIsDot buf (pos + 19) (pos + 19 + int ?len) = Some (de_name e \<in> {[0x2e], [0x2e, 0x2e]})"
    using dirNameIsDot_slice[OF b(1) _ b(2)] unfolding name by simp
  have sl: "slice buf (pos + 19) (pos + 19 + int ?len) = Some (de_name e)"
    using b name by (simp add: slice_def)
  have r: "19 < recordSize e" using sz by simp
  have "(if pos + 19 < pos + 19 + int ?len \<and> \<not> de_name e \<in> {[0x2e], [0x2e, 0x2e]}
      then out @ [\<lparr>ent_name = de_name e, ent_isDir = renvoDirentIsDirectory (if de_isDir e then 4 else 8)\<rparr>]
      else out) = out @ guestEntry e"
    by (simp add: guestEntry_def renvoDirentIsDirectory_def)
  then show ?thesis
    using direntLoop_step[OF l r assms(4) fin dot sl ty, of out] by (simp only:)
qed

lemma direntLoop_records:
  "list_all plainEntry es \<Longrightarrow> 0 \<le> pos \<Longrightarrow> drop (nat pos) buf = entryRecords i es @ rest \<Longrightarrow>
     pos + int (length (entryRecords i es)) \<le> n \<Longrightarrow> n \<le> int (length buf) \<Longrightarrow>
     direntLoop out buf n pos =
       direntLoop (out @ concat (map guestEntry es)) buf n (pos + int (length (entryRecords i es)))"
proof (induction es arbitrary: i pos out)
  case (Cons e es)
  have len: "int (length (entryRecord i e)) = recordSize e" by (rule length_entryRecord)
  have d: "drop (nat pos) buf = entryRecord i e @ (entryRecords (i + 1) es @ rest)"
    using Cons.prems(3) by simp
  have "nat (pos + recordSize e) = length (entryRecord i e) + nat pos" using Cons.prems(2) len by linarith
  then have "drop (nat (pos + recordSize e)) buf = drop (length (entryRecord i e)) (drop (nat pos) buf)" by simp
  then have d2: "drop (nat (pos + recordSize e)) buf = entryRecords (i + 1) es @ rest" using d by simp
  have "direntLoop out buf n pos = direntLoop (out @ guestEntry e) buf n (pos + recordSize e)"
    using Cons.prems len by (intro direntLoop_record[OF _ _ d]) auto
  also have "\<dots> = direntLoop ((out @ guestEntry e) @ concat (map guestEntry es)) buf n
      (pos + recordSize e + int (length (entryRecords (i + 1) es)))"
    using Cons.prems len by (intro Cons.IH[OF _ _ d2]) (auto simp flip: len)
  finally show ?case using len by (simp add: add.assoc)
qed simp

text \<open>A buffer of whole records is read back entry by entry.\<close>

lemma appendDirent_records:
  assumes "list_all plainEntry es"
  shows "renvoAppendDirentBuffer out (entryRecords i es @ rest) (int (length (entryRecords i es))) =
    Some (out @ concat (map guestEntry es), True)"
proof -
  have "renvoAppendDirentBuffer out (entryRecords i es @ rest) (int (length (entryRecords i es))) =
    direntLoop (out @ concat (map guestEntry es)) (entryRecords i es @ rest) (int (length (entryRecords i es)))
      (0 + int (length (entryRecords i es)))"
    unfolding renvoAppendDirentBuffer_def using assms by (intro direntLoop_records) simp_all
  then show ?thesis by (subst (asm) direntLoop.simps) (simp add: renvoDirentMinimum_def)
qed

text \<open>A buffer that ends inside a record, after its header, is refused.\<close>

lemma entryRecords_append: "entryRecords i (es @ fs) = entryRecords i es @ entryRecords (i + length es) fs"
  by (induction es arbitrary: i) simp_all

lemma appendDirent_split:
  assumes "list_all plainEntry (es @ [e])" "renvoDirentMinimum \<le> k" "k < recordSize e"
    and n: "n = int (length (entryRecords i es)) + k"
    and buf: "take (nat n) buf = take (nat n) (entryRecords i (es @ [e]))" "n \<le> int (length buf)"
  shows "renvoAppendDirentBuffer out buf n = Some (out @ concat (map guestEntry es), False)"
proof -
  let ?pre = "entryRecords i es" and ?rec = "entryRecord (i + length es) e"
  let ?len = "int (length ?pre)"
  have k: "19 \<le> k" using assms(2) by (simp add: renvoDirentMinimum_def)
  have rlen: "int (length ?rec) = recordSize e" by (rule length_entryRecord)
  have all: "entryRecords i (es @ [e]) = ?pre @ ?rec" by (simp add: entryRecords_append)
  have b: "buf ! j = (?pre @ ?rec) ! j" if "j < nat n" for j
    using buf(1) that unfolding all by (metis nth_take)
  have "take (length ?pre) buf = take (length ?pre) (take (nat n) buf)" using n k by simp
  also have "\<dots> = ?pre" unfolding buf(1) all using n k by simp
  finally have pre: "buf = ?pre @ drop (length ?pre) buf" by (metis append_take_drop_id)
  have "renvoAppendDirentBuffer out buf n = direntLoop (out @ concat (map guestEntry es)) buf n (0 + ?len)"
    unfolding renvoAppendDirentBuffer_def
    using assms(1) n k buf(2) pre by (intro direntLoop_records[where i = i and rest = "drop (length ?pre) buf"]) auto
  moreover have r: "at buf (?len + int j) = Some (?rec ! j)" if "int j < k" for j
  proof -
    have "nat (?len + int j) = length ?pre + j" by simp
    moreover have "length ?pre + j < nat n" using that n by simp
    ultimately show ?thesis using b[of "length ?pre + j"] buf(2) n that by simp
  qed
  have small: "recordSize e < 65536" using assms(1) by (intro recordSize_small) simp
  have "renvoDirentRecordLength buf ?len = Some (recordSize e)"
    using r[of 16] r[of 17] k entryRecord_nth(1)[OF small, of "i + length es"]
    by (simp add: renvoDirentRecordLength_def)
  moreover have "?len + renvoDirentMinimum \<le> n" "?len + recordSize e > n" using n assms(2,3) by simp_all
  ultimately show ?thesis by (subst (asm) direntLoop.simps) simp
qed

subsection \<open>Sorting\<close>

definition nameLeq :: "DirEntry \<Rightarrow> DirEntry \<Rightarrow> bool" where
  "nameLeq a b \<longleftrightarrow> \<not> bytesLess (ent_name b) (ent_name a)"

lemma nameLeq_refl [simp]: "nameLeq a a"
  by (simp add: nameLeq_def bytesLess_irrefl)

lemma nameLeq_trans: "nameLeq a b \<Longrightarrow> nameLeq b c \<Longrightarrow> nameLeq a c"
  unfolding nameLeq_def using bytesLess_trans bytesLess_total by metis

text \<open>The inner loop inserts the item into the sorted prefix, behind the entries it is not less than.\<close>

fun insertName :: "DirEntry \<Rightarrow> DirEntry list \<Rightarrow> DirEntry list" where
  "insertName x [] = [x]"
| "insertName x (y # ys) = (if nameLeq y x then y # insertName x ys else x # y # ys)"

lemma insertName_snoc:
  "sorted_wrt nameLeq (ys @ [y]) \<Longrightarrow>
     insertName x (ys @ [y]) = (if nameLeq y x then ys @ [y, x] else insertName x ys @ [y])"
proof (induction ys)
  case (Cons z ys)
  then have "nameLeq z y" by simp
  then have "nameLeq y x \<Longrightarrow> nameLeq z x" using nameLeq_trans by blast
  then show ?case using Cons by auto
qed simp

lemma sortShift_insert:
  "k < length es \<Longrightarrow> sorted_wrt nameLeq (take k es) \<Longrightarrow>
     sortShift es item k = insertName item (take k es) @ drop (Suc k) es"
proof (induction es item k rule: sortShift.induct)
  case (1 entries item)
  then show ?case by (cases entries) simp_all
next
  case (2 entries item j)
  have j: "j < length entries" using 2(2) by simp
  have t: "take (Suc j) entries = take j entries @ [entries ! j]" using j by (simp add: take_Suc_conv_app_nth)
  have srt: "sorted_wrt nameLeq (take j entries @ [entries ! j])" using 2(3) t by simp
  show ?case
  proof (cases "bytesLess (ent_name item) (ent_name (entries ! j))")
    case True
    let ?es = "entries[Suc j := entries ! j]"
    have "sortShift ?es item j = insertName item (take j ?es) @ drop (Suc j) ?es"
      using 2(1)[OF True] j srt by (simp add: sorted_wrt_append)
    moreover have "take j ?es = take j entries" by simp
    moreover have "drop (Suc j) ?es = entries ! j # drop (Suc (Suc j)) entries"
      using 2(2) by (simp add: drop_eq_ConsI)
    ultimately show ?thesis
      using True insertName_snoc[OF srt, of item] t by (simp add: nameLeq_def)
  next
    case False
    have "entries[Suc j := item] = take (Suc j) entries @ item # drop (Suc (Suc j)) entries"
      using 2(2) by (simp add: upd_conv_take_nth_drop)
    then show ?thesis
      using False insertName_snoc[OF srt, of item] t by (simp add: nameLeq_def)
  qed
qed

lemma insertName_sorted: "sorted_wrt nameLeq ys \<Longrightarrow> sorted_wrt nameLeq (insertName x ys) \<and> mset (insertName x ys) = add_mset x (mset ys)"
proof (induction ys)
  case (Cons y ys)
  have m: "set (insertName x ys) = insert x (set ys)" using Cons by (metis list.simps(15) mset.simps(2) set_mset_add_mset_insert set_mset_mset sorted_wrt.simps(2))
  have "\<not> nameLeq y x \<Longrightarrow> nameLeq x y" unfolding nameLeq_def using bytesLess_asym by blast
  then show ?case using Cons m by (auto intro: nameLeq_trans)
qed simp

lemma sortLoop_sorted:
  "sorted_wrt nameLeq (take i es) \<Longrightarrow>
     sorted_wrt nameLeq (sortLoop es i) \<and> mset (sortLoop es i) = mset es"
proof (induction es i rule: sortLoop.induct)
  case (1 es i)
  show ?case
  proof (cases "i < length es")
    case True
    have e: "sortShift es (es ! i) i = insertName (es ! i) (take i es) @ drop (Suc i) es"
      by (rule sortShift_insert[OF True 1(2)])
    note ins = insertName_sorted[OF 1(2), of "es ! i"]
    have len: "length (insertName (es ! i) (take i es)) = Suc i"
      using ins True by (metis length_take min.absorb2 less_imp_le size_add_mset size_mset)
    have "sorted_wrt nameLeq (take (i + 1) (sortShift es (es ! i) i))" using ins len by (simp add: e)
    moreover have "mset (sortShift es (es ! i) i) = mset es"
    proof -
      have "mset es = mset (take i es @ es ! i # drop (Suc i) es)" using True by (simp add: id_take_nth_drop[symmetric])
      then show ?thesis using ins by (simp add: e)
    qed
    ultimately show ?thesis using 1(1)[OF True] True by (subst (1 2) sortLoop.simps) simp
  next
    case False
    then show ?thesis using 1(2) by (subst (1 2) sortLoop.simps) simp
  qed
qed

lemma sortDirEntries_sorted:
  "sorted_wrt nameLeq (sortDirEntries es)" "mset (sortDirEntries es) = mset es"
proof -
  have "sorted_wrt nameLeq (take 1 es)" by (cases es) simp_all
  then show "sorted_wrt nameLeq (sortDirEntries es)" "mset (sortDirEntries es) = mset es"
    using sortLoop_sorted[of 1 es] by (simp_all add: sortDirEntries_def)
qed

text \<open>Sorting leaves a sorted list alone.\<close>

lemma insertName_last: "\<forall>y\<in>set ys. nameLeq y x \<Longrightarrow> insertName x ys = ys @ [x]"
  by (induction ys) simp_all

lemma sortLoop_id: "sorted_wrt nameLeq es \<Longrightarrow> sortLoop es i = es"
proof (induction es i rule: sortLoop.induct)
  case (1 es i)
  show ?case
  proof (cases "i < length es")
    case True
    have "sorted_wrt nameLeq (take i es)" using 1(2) by (rule sorted_wrt_take)
    moreover have "insertName (es ! i) (take i es) = take i es @ [es ! i]"
    proof (rule insertName_last, rule ballI)
      fix y
      assume "y \<in> set (take i es)"
      then obtain j where "j < i" "y = es ! j" using True by (auto simp: in_set_conv_nth)
      then show "nameLeq y (es ! i)" using 1(2) True by (simp add: sorted_wrt_nth_less)
    qed
    ultimately have "sortShift es (es ! i) i = es"
      using True by (simp add: sortShift_insert id_take_nth_drop[symmetric])
    then show ?thesis using 1 True by (subst sortLoop.simps) simp
  qed (subst sortLoop.simps, simp)
qed

lemma sortDirEntries_id: "sorted_wrt nameLeq es \<Longrightarrow> sortDirEntries es = es"
  by (simp add: sortDirEntries_def sortLoop_id)

lemma guestEntries_sorted:
  assumes "entriesSorted es"
  shows "sorted_wrt nameLeq (concat (map guestEntry es))"
  using assms
proof (induction es)
  case (Cons e es)
  have "nameLeq a b" if a: "a \<in> set (guestEntry e)" and b: "b \<in> set (concat (map guestEntry es))" for a b
  proof -
    obtain e' where "e' \<in> set es" "b \<in> set (guestEntry e')" using b by auto
    moreover then have "bytesLess (de_name e) (de_name e')" using Cons.prems by simp
    ultimately show ?thesis
      using a by (auto simp: guestEntry_def nameLeq_def dest: bytesLess_asym split: if_splits)
  qed
  moreover have "sorted_wrt nameLeq (guestEntry e)" by (simp add: guestEntry_def)
  ultimately show ?case using Cons by (simp add: sorted_wrt_append)
qed simp

text \<open>A listing delivered in one answer is read back completely.\<close>

lemma ReadDir_records:
  assumes "list_all plainEntry es" "entriesSorted es" "es \<noteq> []"
  shows "ReadDir [(int (length (entryRecords 0 es)), entryRecords 0 es @ rest), (0, buf)] =
    Some (Some (concat (map guestEntry es)))"
proof -
  obtain e es' where es: "es = e # es'" using assms(3) by (cases es) simp_all
  have "20 \<le> int (length (entryRecord 0 e))"
    using recordSize_bounds(2)[of "20 + int (length (de_name e))"] length_entryRecord[of 0 e] by linarith
  then have "0 < int (length (entryRecords 0 es))" by (simp add: es)
  then show ?thesis
    using appendDirent_records[OF assms(1), of "[]" 0 rest] sortDirEntries_id[OF guestEntries_sorted[OF assms(2)]]
    by (simp add: ReadDir_def)
qed

end
