(* ===== verification/VM_Properties.thy ===== *)
theory VM_Properties
  imports VM_Outcome VM_Semantics VM_Listing
begin

text \<open>The properties of the virtual machine and of directory listings, with small images as concrete inputs.\<close>

subsection \<open>Concrete inputs\<close>

text \<open>An image that puts 7 into the result register and exits.\<close>

definition sevenProgram :: bytes where
  "sevenProgram = [82, 78, 86, 66, 1, 0, 40, 0, 7, 0, 0, 0, 0, 0, 0, 0, 0, 1, 0, 0, 0, 1, 0, 0, 0, 0, 0, 0, 1, 0, 0, 0, 12,
     0, 76, 0, 0, 0, 0, 0, 0, 0, 0, 0, 0, 0, 0, 0, 0, 0, 0, 0, 3, 0, 7, 0, 0, 0, 1]"

text \<open>An image that writes no bytes, from an address before the memory, to the standard output.\<close>

definition zeroWriteProgram :: bytes where
  "zeroWriteProgram = [82, 78, 86, 66, 1, 0, 40, 0, 20, 0, 0, 0, 0, 0, 0, 0, 0, 1, 0, 0, 0, 1, 0, 0, 0, 0, 0, 0, 1, 0, 0, 0,
     58, 4, 66, 19, 0, 0, 0, 0, 0, 0, 0, 0, 0, 0, 0, 0, 0, 0, 0, 0, 3, 0, 1, 0, 0, 0, 3, 3, 1, 0, 0, 0, 3, 4,
     255, 255, 255, 255, 42, 1]"

text \<open>An image that reads no bytes at position 1 of an empty standard input.\<close>

definition pastEndProgram :: bytes where
  "pastEndProgram = [82, 78, 86, 66, 1, 0, 40, 0, 14, 0, 0, 0, 0, 0, 0, 0, 0, 1, 0, 0, 0, 1, 0, 0, 0, 0, 0, 0, 1, 0, 0, 0,
     75, 0, 180, 1, 0, 0, 0, 0, 0, 0, 0, 0, 0, 0, 0, 0, 0, 0, 0, 0, 3, 0, 17, 0, 0, 0, 3, 7, 1, 0, 0, 0, 42, 1]"

definition demoConfig :: Config where
  "demoConfig = \<lparr>cfg_Limits = \<lparr>lim_Steps = 10, lim_Memory = 300\<rparr>, cfg_Args = [], cfg_Env = [],
     cfg_Stdin = [], cfg_Files = [], cfg_StdinRoom = 0, cfg_FileRoom = (\<lambda>_. 0), cfg_ListRoom = (\<lambda>_. 0)\<rparr>"

definition sevenImage :: image where
  "sevenImage = (case decodeImage sevenProgram of Some (Some img) \<Rightarrow> img | _ \<Rightarrow>
     \<lparr>img_code = [], img_data = [], img_dataBase = 0, img_bssBase = 0, img_bssSize = 0, img_routines = []\<rparr>)"

lemma sevenImage_decoded: "decodeImage sevenProgram = Some (Some sevenImage)"
proof -
  have "case decodeImage sevenProgram of Some (Some img) \<Rightarrow> True | _ \<Rightarrow> False" by code_simp
  then show ?thesis by (auto simp: sevenImage_def split: option.splits)
qed

lemma sevenImage_ok: "image_ok sevenImage"
  by (rule decodeImage_sound[OF sevenImage_decoded])

lemma sevenImage_fits: "fits sevenImage (cfg_Limits demoConfig)"
  by code_simp

text \<open>The machine on which the loop of \<open>RunConfig\<close> starts for the demonstration image.\<close>

definition demoMachine :: machine where
  "demoMachine = loadedMachine sevenImage demoConfig"

lemma demoMachine_inv: "vm_inv demoMachine"
  unfolding demoMachine_def by (rule loadedMachine_inv[OF sevenImage_ok sevenImage_fits])

subsection \<open>Images\<close>

text \<open>C14. \<open>decodeImage\<close> never panics, whatever the bytes; and every image it accepts is well
  formed: the code is a sequence of complete instructions with valid operands, every jump and call
  lands on an instruction start, every call on a routine, the routine table is strictly sorted and
  starts at 0, and the data and the zeroed region do not overlap.\<close>

theorem decodeImage_safe:
  "case decodeImage program of None \<Rightarrow> False | Some None \<Rightarrow> True | Some (Some img) \<Rightarrow> image_ok img"
proof (cases "decodeImage program")
  case None
  then show ?thesis using decodeImage_defined by blast
next
  case (Some r)
  then show ?thesis using decodeImage_sound by (cases r) simp_all
qed

text \<open>C15. The checksum protects the body: when an image is accepted, the same bytes with any
  single byte behind the header changed to another value are refused as an invalid program.\<close>

theorem decodeImage_detects_corruption:
  assumes "decodeImage program = Some (Some img)" "40 \<le> i" "i < length program" "b \<noteq> program ! i"
  shows "decodeImage (program[i := b]) = Some None"
  using assms by (rule decodeImage_corrupt)

theorem decodeImage_detects_corruption_witness:
  "decodeImage (sevenProgram[52 := 4]) = Some None"
  by (rule decodeImage_detects_corruption[OF sevenImage_decoded]) code_simp+

text \<open>\<open>findRoutine\<close> on a strictly sorted routine table answers the index of the routine that
  starts at \<open>pc\<close>, and -1 when there is none.\<close>

theorem findRoutine_correct:
  assumes "sorted_wrt (\<lambda>r s. rt_pc r < rt_pc s) routines"
  shows "findRoutine routines pc =
    (if \<exists>r\<in>set routines. rt_pc r = pc then int (LEAST i. i < length routines \<and> rt_pc (routines ! i) = pc) else -1)"
  using assms by (rule findRoutine_sorted)

definition demoRoutines :: "routine list" where
  "demoRoutines = map (\<lambda>pc. \<lparr>rt_pc = pc, rt_frameSize = 0, rt_framed = False\<rparr>) [0, 7, 12]"

theorem findRoutine_correct_witness:
  "findRoutine demoRoutines 8 = -1"
proof -
  have "sorted_wrt (\<lambda>r s. rt_pc r < rt_pc s) demoRoutines" by code_simp
  from findRoutine_correct[OF this, of 8] show ?thesis by (simp add: demoRoutines_def)
qed

subsection \<open>Steps\<close>

text \<open>C16. A step of the machine panics in exactly one situation: the instruction is a system call,
  there is a step left to pay for it, and the call is a zero-size access outside the memory or a
  read at a position beyond the capacity of the data, which is its length and the room behind it.
  Every other instruction on every machine that satisfies the invariant completes or traps.\<close>

theorem vmStep_panics_iff:
  assumes "vm_inv m"
  shows "vmStep m = None \<longleftrightarrow>
    byteAt (img_code (m_image m)) (m_pc m) = Some opSyscall \<and> m_steps m < lim_Steps (m_limits m) \<and> syscallPanics m"
  using assms by (rule vmStep_None)

theorem vmStep_panics_iff_witness: "vmStep demoMachine \<noteq> None"
proof -
  have "byteAt (img_code (m_image demoMachine)) (m_pc demoMachine) \<noteq> Some opSyscall" by code_simp
  then show ?thesis using vmStep_panics_iff[OF demoMachine_inv] by blast
qed

text \<open>C17. Every state of a run of an accepted image satisfies the machine's invariant: the program
  counter is at an instruction start, there are eight registers, the memory has the size of the
  limit, the stack lies between its base and the frame pointer, the saved frames can be returned
  to, the meters are within the limits and the open descriptors refer to existing files.\<close>

theorem run_invariant:
  assumes "decodeImage program = Some (Some img)" "fits img (cfg_Limits config)"
    and "run_reaches (loadedMachine img config) m"
  shows "vm_inv m \<and> m_image m = img \<and> m_limits m = cfg_Limits config"
proof -
  note inv = loadedMachine_inv[OF decodeImage_sound[OF assms(1)] assms(2)]
  show ?thesis using run_reaches_inv[OF assms(3) inv] run_reaches_later[OF assms(3) inv] by (simp add: later_def)
qed

theorem run_invariant_witness: "\<exists>m. run_reaches demoMachine m \<and> m_steps m = 1 \<and> vm_inv m"
proof -
  have "case vmStep demoMachine of Some (ok, m) \<Rightarrow> ok \<and> m_steps m = 1 | None \<Rightarrow> False" by code_simp
  then obtain m where m: "vmStep demoMachine = Some (True, m)" "m_steps m = 1" by (auto split: option.splits)
  have "m_trap demoMachine = TrapNone" by (simp add: demoMachine_def)
  then have r: "run_reaches demoMachine m" using m(1) run_reaches.intros by blast
  from run_invariant[OF sevenImage_decoded sevenImage_fits r[unfolded demoMachine_def]] show ?thesis using r m(2) by blast
qed

text \<open>An operation that starts without a trap answers \<open>true\<close> exactly when it set none; the
  only instructions that stop the machine without a trap are the exit and the return from the
  outermost routine.\<close>

theorem execute_stops:
  assumes "m_trap m = TrapNone" "execute code pc op m = Some (ok, m')"
  shows "(ok \<longleftrightarrow> m_trap m' = TrapNone) \<or> op = opExit \<or> op = opRet \<and> m_calls m = []"
proof (cases "op = opExit \<or> op = opRet \<and> m_calls m = []")
  case False
  then show ?thesis using execute_honest[OF assms(1), of op code pc] assms(2) by (auto simp: honest_def)
qed blast

theorem execute_stops_witness:
  "\<exists>m'. execute [28, 0] 0 28 demoMachine = Some (True, m') \<and> m_trap m' = TrapNone"
proof -
  have "case execute [28, 0] 0 28 demoMachine of Some (ok, m) \<Rightarrow> ok | None \<Rightarrow> False" by code_simp
  then obtain m' where m': "execute [28, 0] 0 28 demoMachine = Some (True, m')" by (auto split: option.splits)
  have "m_trap demoMachine = TrapNone" by (simp add: demoMachine_def)
  from execute_stops[OF this m'] show ?thesis using m' by auto
qed

subsection \<open>Runs\<close>

text \<open>C18. The loop of \<open>RunConfig\<close> ends: every instruction costs at least one step, so
  \<open>limits.Steps + 1\<close> iterations always suffice, and a larger bound changes nothing.\<close>

theorem runLoop_terminates:
  assumes "decodeImage program = Some (Some img)" "fits img (cfg_Limits config)"
  shows "runLoop (nat (lim_Steps (cfg_Limits config)) + 1) (loadedMachine img config) \<noteq> Some (False, m) \<and>
    runLoop (nat (lim_Steps (cfg_Limits config)) + 1 + k) (loadedMachine img config) =
      runLoop (nat (lim_Steps (cfg_Limits config)) + 1) (loadedMachine img config)"
proof -
  define n where "n = nat (lim_Steps (cfg_Limits config)) + 1"
  note f = runLoop_finishes(1)[OF decodeImage_sound[OF assms(1)] assms(2), folded n_def]
  show ?thesis
    unfolding n_def [symmetric]
  proof (cases "runLoop n (loadedMachine img config)")
    case None
    then show "runLoop n (loadedMachine img config) \<noteq> Some (False, m) \<and>
        runLoop (n + k) (loadedMachine img config) = runLoop n (loadedMachine img config)"
      using vm_loop.loop_more_None[of n "loadedMachine img config" k] by simp
  next
    case (Some x)
    then obtain m' where "runLoop n (loadedMachine img config) = Some (True, m')" using f by (cases x) auto
    then show "runLoop n (loadedMachine img config) \<noteq> Some (False, m) \<and>
        runLoop (n + k) (loadedMachine img config) = runLoop n (loadedMachine img config)"
      using vm_loop.loop_more[of n "loadedMachine img config" m' k] by simp
  qed
qed

theorem runLoop_terminates_witness:
  "runLoop (nat (lim_Steps (cfg_Limits demoConfig)) + 1 + 5) (loadedMachine sevenImage demoConfig) =
     runLoop (nat (lim_Steps (cfg_Limits demoConfig)) + 1) (loadedMachine sevenImage demoConfig)"
  using runLoop_terminates[OF sevenImage_decoded sevenImage_fits] by blast

text \<open>C19. The limits bind: whatever the program and the inputs, a result of \<open>RunConfig\<close> reports at
  most \<open>limits.Steps\<close> steps, and a peak memory, output and error output of at most
  \<open>limits.Memory\<close> bytes.\<close>

theorem RunConfig_within_limits:
  assumes "RunConfig program config = Some r" "0 < lim_Steps (cfg_Limits config)"
    "minAddress \<le> lim_Memory (cfg_Limits config)"
  shows "0 \<le> res_Steps r \<and> res_Steps r \<le> lim_Steps (cfg_Limits config) \<and>
    res_PeakMemory r \<le> lim_Memory (cfg_Limits config) \<and>
    int (length (res_Output r)) \<le> lim_Memory (cfg_Limits config) \<and>
    int (length (res_Stderr r)) \<le> lim_Memory (cfg_Limits config)"
  using assms by (rule RunConfig_bounds)

lemma sevenProgram_runs: "\<exists>r. RunConfig sevenProgram demoConfig = Some r \<and> res_ExitCode r = 7 \<and> res_Trap r = TrapNone"
proof -
  have "case RunConfig sevenProgram demoConfig of Some r \<Rightarrow> res_ExitCode r = 7 \<and> res_Trap r = TrapNone | None \<Rightarrow> False"
    by code_simp
  then show ?thesis by (auto split: option.splits)
qed

theorem RunConfig_within_limits_witness:
  "\<exists>r. RunConfig sevenProgram demoConfig = Some r \<and> res_Steps r \<le> 10"
proof -
  obtain r where r: "RunConfig sevenProgram demoConfig = Some r" using sevenProgram_runs by blast
  have "0 < lim_Steps (cfg_Limits demoConfig)" "minAddress \<le> lim_Memory (cfg_Limits demoConfig)" by code_simp+
  from RunConfig_within_limits[OF r this] show ?thesis using r by (simp add: demoConfig_def)
qed

text \<open>A result without a trap, of an image that fits the limits, ended at an exit instruction
  or at a return: the opcode it reports is one of the two.\<close>

theorem RunConfig_normal_end:
  assumes "decodeImage program = Some (Some img)" "fits img (cfg_Limits config)"
    and "RunConfig program config = Some r" "res_Trap r = TrapNone"
  shows "res_TrapOpcode r = opExit \<or> res_TrapOpcode r = opRet"
proof -
  have ok: "image_ok img" using decodeImage_sound[OF assms(1)] .
  obtain fin m where l: "runLoop (nat (lim_Steps (cfg_Limits config)) + 1) (loadedMachine img config) = Some (fin, m)"
    and r: "machineResult m = Some r"
    using assms(3) unfolding RunConfig_runs[OF assms(1,2)] by (auto split: bind_splits)
  have e: "res_Trap r = m_trap m" "res_TrapOpcode r = currentOpcode m"
    using machineResult_defined[OF runLoop_finishes(2)[OF ok assms(2) l]] r by auto
  then show ?thesis using runLoop_normal_end[OF ok assms(2) l] assms(4) by simp
qed

theorem RunConfig_normal_end_witness:
  "\<exists>r. RunConfig sevenProgram demoConfig = Some r \<and> (res_TrapOpcode r = opExit \<or> res_TrapOpcode r = opRet)"
  using sevenProgram_runs RunConfig_normal_end[OF sevenImage_decoded sevenImage_fits] by blast

text \<open>C20. Code without a system call instruction runs in isolation: \<open>RunConfig\<close> returns a result,
  with no output, no error output and the files it was given.\<close>

theorem RunConfig_isolated:
  assumes "decodeImage program = Some (Some img)" "fits img (cfg_Limits config)" "noSyscall (img_code img) 0"
  shows "\<exists>r. RunConfig program config = Some r \<and> res_Output r = [] \<and> res_Stderr r = [] \<and> res_Files r = cfg_Files config"
proof -
  have ok: "image_ok img" using decodeImage_sound[OF assms(1)] .
  obtain fin m where r: "runLoop (nat (lim_Steps (cfg_Limits config)) + 1) (loadedMachine img config) = Some (fin, m)"
    and o: "outside m = outside (loadedMachine img config)"
    using runLoop_outside[OF ok assms(2,3)] by fastforce
  show ?thesis
    unfolding RunConfig_runs[OF assms(1,2)] r bind.bind_lunit prod.case
      machineResult_defined[OF runLoop_finishes(2)[OF ok assms(2) r]]
    using o by (simp add: outside_def)
qed

theorem RunConfig_isolated_witness: "\<exists>r. RunConfig sevenProgram demoConfig = Some r \<and> res_Files r = []"
proof -
  have "noSyscall (img_code sevenImage) 0" by code_simp
  from RunConfig_isolated[OF sevenImage_decoded sevenImage_fits this] show ?thesis by (auto simp: demoConfig_def)
qed

text \<open>A guest can crash its host, in two ways.  \<open>buffer\<close> accepts a size of 0 at any address and
  \<open>writeAt\<close> then slices the memory at that address; and \<open>readAt\<close> computes a count of 0 for a position
  beyond the end of the data and then slices the data at the position.  Two programs of four instructions
  make \<open>RunConfig\<close> panic instead of returning a result, the second one on an empty standard input
  without capacity.\<close>

theorem RunConfig_panics:
  "RunConfig zeroWriteProgram demoConfig = None \<and> RunConfig pastEndProgram demoConfig = None"
  by (rule conjI; code_simp)

subsection \<open>Instructions\<close>

text \<open>What a store of one, two or four bytes writes, a load of the same size at the same
  address reads back, truncated to that size and extended by zeros.\<close>

theorem load_after_store:
  assumes "store m addr sz v = Some (True, m')" "1 \<le> sz" "sz \<le> 4"
  shows "load m' addr sz = Some (loaded sz v, True, m')"
  using assms by (rule store_load)

theorem load_after_store_witness:
  "\<exists>m'. store demoMachine 260 2 (-2) = Some (True, m') \<and> load m' 260 2 = Some (65534, True, m')"
proof -
  have "case store demoMachine 260 2 (-2) of Some (ok, m') \<Rightarrow> ok | None \<Rightarrow> False" by code_simp
  then obtain m' where m': "store demoMachine 260 2 (-2) = Some (True, m')" by (auto split: option.splits)
  have "loaded 2 (-2) = 65534" by code_simp
  then show ?thesis using load_after_store[OF m'] m' by simp
qed

text \<open>A pop undoes a push: after a push that succeeded, the stack has grown by one word, and the
  pop returns the word pushed and gives the stack pointer back.\<close>

theorem pop_after_push:
  assumes "vm_inv m" "push m v = Some (True, m')"
  shows "m_sp m' = m_sp m + 4 \<and> pop m' = Some (v, True, m'\<lparr>m_sp := m_sp m\<rparr>)"
  using push_pop[OF assms] by blast

theorem pop_after_push_witness:
  "\<exists>m'. push demoMachine (-5) = Some (True, m') \<and> pop m' = Some (-5, True, m'\<lparr>m_sp := m_sp demoMachine\<rparr>)"
proof -
  have "case push demoMachine (-5) of Some (ok, m') \<Rightarrow> ok | None \<Rightarrow> False" by code_simp
  then obtain m' where "push demoMachine (-5) = Some (True, m')" by (auto split: option.splits)
  then show ?thesis using pop_after_push[OF demoMachine_inv] by blast
qed

text \<open>Division truncates towards zero and never overflows into a fault: for every non-zero
  divisor the two division opcodes store a quotient and a remainder with \<open>q * r + rem = l\<close> in
  32 bits, a remainder smaller than the divisor with the dividend's sign, and the mathematical
  quotient except for the smallest integer divided by -1.  A zero divisor traps.\<close>

theorem division_correct:
  assumes "reg m dst = Some l"
  shows "if r = 0 then binaryValue m opDivRegReg dst r = Some (trapWith m TrapDivisionByZero) \<and>
      binaryValue m opModRegReg dst r = Some (trapWith m TrapDivisionByZero)
    else binaryValue m opDivRegReg dst r = setRegOk m dst (quotient l r) \<and>
      binaryValue m opModRegReg dst r = setRegOk m dst (remainder l r) \<and>
      quotient l r * r + remainder l r = l \<and> \<bar>sint (remainder l r)\<bar> < \<bar>sint r\<bar> \<and>
      (remainder l r = 0 \<or> sgn (sint (remainder l r)) = sgn (sint l)) \<and>
      (l = minInt32 \<and> r = -1 \<or> sint (quotient l r) = sint l sdiv sint r)"
  using assms division_semantics[of r l]
  by (auto simp: binaryValue_def quotient_def remainder_def simp del: minus_numeral_eq_not_sub_one)

theorem division_correct_witness: "sint (quotient (-7) 2) = -3 \<and> sint (remainder (-7) 2) = -1"
proof -
  have "reg (demoMachine\<lparr>m_regs := [-7, 0, 0, 0, 0, 0, 0, 0]\<rparr>) 0 = Some (-7)" by code_simp
  from division_correct[OF this, of 2] have "quotient (-7) 2 * 2 + remainder (-7) 2 = (-7 :: i32)" by simp
  moreover have "quotient (-7) 2 = -3" "remainder (-7) 2 = -1" by code_simp+
  ultimately show ?thesis by simp
qed

text \<open>A conditional after a comparison decides the relation of the compared registers when
  their difference fits 32 bits; for less-than it decides it only then, so that a compiler has to
  guard comparisons of operands of different sign.\<close>

theorem comparison_exact:
  fixes x y :: i32
  shows "if - 2147483648 \<le> sint x - sint y \<and> sint x - sint y \<le> 2147483647
    then condition (x - y) c = compares c (sint x) (sint y)
    else condition (x - y) condLt \<noteq> (sint x < sint y)"
  using condition_sub[of x y c] condition_overflow[of x y] by simp

text \<open>A return undoes a call: once the callee has emptied the call stack down to its own frame,
  the return restores the caller's frame pointer and routine, continues after the call, and
  leaves the operand stack as it was at the call without the words passed beyond the first six;
  it traps when those words are not there.\<close>

theorem return_after_call:
  assumes "execCall code pc nxt m = Some (True, m1)" "m_calls m2 = m_calls m1"
  shows "\<exists>words. read32 code (pc + 5) = Some words \<and>
    execRet m2 =
      (if argumentBytes words > m_sp m - m_stackBase m2
       then (False, m2\<lparr>m_calls := m_calls m, m_trap := TrapInvalidInstruction\<rparr>)
       else (True, m2\<lparr>m_calls := m_calls m, m_sp := m_sp m - argumentBytes words, m_pc := nxt, m_fp := m_fp m,
               m_routine := m_routine m\<rparr>))"
  using execCall_True[OF assms(1)] execRet_last[of m2] assms(2) by metis

definition callCode :: bytes where
  "callCode = [40, 0, 0, 0, 0, 0, 0, 0, 0]"

theorem return_after_call_witness:
  "\<exists>m1. execCall callCode 0 9 demoMachine = Some (True, m1) \<and>
     execRet m1 = (True, m1\<lparr>m_calls := [], m_sp := m_sp demoMachine, m_pc := 9, m_fp := m_fp demoMachine,
       m_routine := 0\<rparr>)"
proof -
  have "case execCall callCode 0 9 demoMachine of Some (ok, m1) \<Rightarrow> ok \<and> m_stackBase m1 = m_sp demoMachine | None \<Rightarrow> False"
    by code_simp
  then obtain m1 where m1: "execCall callCode 0 9 demoMachine = Some (True, m1)" "m_stackBase m1 = m_sp demoMachine"
    by (auto split: option.splits)
  have v: "read32 callCode (0 + 5) = Some 0" "m_calls demoMachine = []" "m_routine demoMachine = 0" by code_simp+
  show ?thesis using return_after_call[OF m1(1) refl] m1 v by (auto simp: argumentBytes_def)
qed

text \<open>C21. A fused instruction does what the two instructions it replaces do in sequence, with the
  same operand bytes: the second runs only when the first succeeded, on the machine it left.\<close>

theorem fused_equivalent:
  assumes "fusedParts op = Some (op1, op2, at2)" "byteAt c1 p1 = Some op1" "byteAt c2 p2 = Some op2"
    and "sameBytes code (pc + 1) c1 (p1 + 1) (instructionSize op1 - 1)"
    and "sameBytes code (pc + at2) c2 (p2 + 1) (instructionSize op2 - 1)"
  shows "execute code pc op m = andThen (execute c1 p1 op1 m) (execute c2 p2 op2)"
  using assms by (rule execFused_parts)

theorem fused_equivalent_witness:
  "execute [53, 1, 9, 0, 0, 0, 2] 0 53 demoMachine =
     andThen (execute [3, 1, 9, 0, 0, 0, 7, 2] 0 3 demoMachine) (execute [3, 1, 9, 0, 0, 0, 7, 2] 6 7)"
  by (rule fused_equivalent[where ?at2.0 = 6]) code_simp+

subsection \<open>Directory listings\<close>

text \<open>C22. The entries of a synthesised directory are strictly sorted by name and without duplicates.  A
  name is an entry exactly when it is not empty, has no slash, and some file's path is the prefix,
  the name, and nothing or a slash and more behind it; it is marked as a directory exactly when some
  file's path goes on with a slash behind it.\<close>

theorem directory_entries:
  "sorted_wrt (\<lambda>a b. bytesLess (de_name a) (de_name b)) (collectEntries prefix files []) \<and>
   (\<forall>c. (\<exists>e\<in>set (collectEntries prefix files []). de_name e = c) \<longleftrightarrow>
      c \<noteq> [] \<and> 0x2f \<notin> set c \<and>
      (\<exists>f\<in>set files. file_Name f = prefix @ c \<or> (\<exists>rest. file_Name f = prefix @ c @ [0x2f] @ rest))) \<and>
   (\<forall>c. (\<exists>e\<in>set (collectEntries prefix files []). de_name e = c \<and> de_isDir e) \<longleftrightarrow>
      c \<noteq> [] \<and> 0x2f \<notin> set c \<and> (\<exists>f\<in>set files. \<exists>rest. file_Name f = prefix @ c @ [0x2f] @ rest))"
proof -
  note spec = collectEntries_spec[of "[]" prefix files, unfolded childOf_iff]
  have names: "(\<exists>e\<in>set es. de_name e = c) \<longleftrightarrow> c \<in> entryNames es"
    "(\<exists>e\<in>set es. de_name e = c \<and> de_isDir e) \<longleftrightarrow> c \<in> entryDirs es" for es c
    by (auto simp: entryNames_def entryDirs_def)
  have empty: "entryNames [] = {}" "entryDirs [] = {}" by (simp_all add: entryNames_def entryDirs_def)
  have split: "(\<exists>d. c \<noteq> [] \<and> 0x2f \<notin> set c \<and> (if d then \<exists>rest. p = prefix @ c @ 0x2f # rest else p = prefix @ c)) \<longleftrightarrow>
      c \<noteq> [] \<and> 0x2f \<notin> set c \<and> (p = prefix @ c \<or> (\<exists>rest. p = prefix @ c @ [0x2f] @ rest))" for p and c :: bytes
    by (auto simp: ex_bool_eq)
  show ?thesis unfolding names using spec unfolding empty split by auto
qed

text \<open>C23. The guest reads a directory back: when the virtual machine's listing of sorted entries is
  delivered in one answer, \<open>ReadDir\<close> parses its records and returns the same names and kinds in
  the same order, without the dot entries.\<close>

theorem ReadDir_listing:
  assumes "list_all plainEntry es" "sorted_wrt (\<lambda>a b. bytesLess (de_name a) (de_name b)) es" "es \<noteq> []"
  shows "ReadDir [(int (length (entryRecords 0 es)), entryRecords 0 es @ rest), (0, buf)] =
    Some (Some (concat (map guestEntry es)))"
  using assms by (rule ReadDir_records)

definition demoEntries :: "directoryEntry list" where
  "demoEntries = [\<lparr>de_name = [0x61, 0x2e, 0x67, 0x6f], de_isDir = False\<rparr>, \<lparr>de_name = [0x63], de_isDir = True\<rparr>]"

theorem ReadDir_listing_witness:
  "ReadDir [(48, entryRecords 0 demoEntries @ [0, 0]), (0, [])] =
     Some (Some [\<lparr>ent_name = [0x61, 0x2e, 0x67, 0x6f], ent_isDir = False\<rparr>, \<lparr>ent_name = [0x63], ent_isDir = True\<rparr>])"
proof -
  have h: "list_all plainEntry demoEntries" "sorted_wrt (\<lambda>a b. bytesLess (de_name a) (de_name b)) demoEntries"
    "demoEntries \<noteq> []" by code_simp+
  have "int (length (entryRecords 0 demoEntries)) = 48"
    "concat (map guestEntry demoEntries) =
      [\<lparr>ent_name = [0x61, 0x2e, 0x67, 0x6f], ent_isDir = False\<rparr>, \<lparr>ent_name = [0x63], ent_isDir = True\<rparr>]"
    by code_simp+
  then show ?thesis using ReadDir_listing[OF h, of "[0, 0]" "[]"] by simp
qed

text \<open>C24. A listing longer than the guest's buffer of 32768 bytes is not read back: the virtual
  machine answers with the first 32768 bytes of the data, and when that boundary falls inside a
  record, behind its header, \<open>ReadDir\<close> gives up with an error although the directory is there.\<close>

theorem ReadDir_fails_on_split:
  assumes "list_all plainEntry (es @ [e])" "19 \<le> k" "k < int (length (entryRecord (length es) e))"
    and "int (length (entryRecords 0 es)) + k = 32768"
  shows "ReadDir ((32768, take 32768 (entryRecords 0 (es @ e # fs))) # answers) = Some None"
proof -
  let ?buf = "take 32768 (entryRecords 0 (es @ e # fs))"
  have k: "k < (20 + int (length (de_name e)) + 7) AND NOT 7"
    using assms(3) length_entryRecord[of "length es" e] by linarith
  have all: "entryRecords 0 (es @ e # fs) = entryRecords 0 (es @ [e]) @ entryRecords (Suc (length es)) fs"
    using entryRecords_append[of 0 "es @ [e]" fs] by simp
  have len: "32768 < length (entryRecords 0 (es @ [e]))"
    using assms(3,4) by (simp add: entryRecords_append)
  have "renvoAppendDirentBuffer [] ?buf 32768 = Some ([] @ concat (map guestEntry es), False)"
    by (rule appendDirent_split[OF assms(1) _ k, where i = 0])
      (use assms(2,4) len in \<open>simp_all add: all renvoDirentMinimum_def\<close>)
  then show ?thesis by (simp add: ReadDir_def)
qed

definition longEntry :: directoryEntry where
  "longEntry = \<lparr>de_name = replicate 1010 0x61, de_isDir = False\<rparr>"

lemma longEntry_size: "length (entryRecord i longEntry) = 1032"
proof -
  have "int (length (entryRecord i longEntry)) = (20 + int (length (de_name longEntry)) + 7) AND NOT 7"
    by (rule length_entryRecord)
  also have "\<dots> = 1032" by (simp add: longEntry_def)
  finally show ?thesis by simp
qed

lemma longEntries_size: "length (entryRecords i (replicate n longEntry)) = n * 1032"
  by (induction n arbitrary: i) (simp_all add: longEntry_size)

theorem ReadDir_fails_on_split_witness:
  "ReadDir [(32768, take 32768 (entryRecords 0 (replicate 31 longEntry @ longEntry # []))), (0, [])] = Some None"
proof (rule ReadDir_fails_on_split[where k = 776])
  have "plainEntry longEntry" by (simp add: plainEntry_def longEntry_def)
  then show "list_all plainEntry (replicate 31 longEntry @ [longEntry])" by (simp add: list_all_iff)
qed (simp_all add: longEntry_size longEntries_size)

end
