(* ===== verification/MHeap_Model.thy ===== *)
theory MHeap_Model
  imports Renvo_Prelude
begin

text \<open>
  The managed heap of \<open>internal/managedheap/heap.go\<close>: a growable, nonmoving, conservative mark and
  sweep collector, on a 64-bit host.  Sizes and addresses are \<open>uintptr\<close>s, held as integers; \<open>u64\<close>
  is the wrap-around of an operation that the code does not guard.

  A segment is the list of the blocks that its headers chain together (\<open>offset += b.span\<close>), each
  with the words of its payload, so that a header that is written into a payload (a split) or that
  becomes part of one (coalescing) is written out.  The list \<open>h_first\<close> is the chain of segments
  from \<open>h.first\<close>.  The provider of storage is a parameter: \<open>acquire size\<close> is the address
  \<open>Memory.Acquire\<close> answers for a size during the call, and the released segments are returned.
  The root enumerator is a parameter, too: the pointers it passes to \<open>Mark\<close> and its answer.
\<close>

type_synonym u64 = "64 word"

definition u64 :: "int \<Rightarrow> int" where
  "u64 x = x mod 2 ^ 64"

abbreviation (input) maxUintptr :: int where "maxUintptr \<equiv> 18446744073709551615"

subsection \<open>Layout\<close>

abbreviation (input) allocated :: int where "allocated \<equiv> 1"
abbreviation (input) marked :: int where "marked \<equiv> 2"
abbreviation (input) scanned :: int where "scanned \<equiv> 4"
abbreviation (input) wordSize :: int where "wordSize \<equiv> 8"
abbreviation (input) alignment :: int where "alignment \<equiv> 16"
abbreviation (input) segmentSize :: int where "segmentSize \<equiv> 16"
abbreviation (input) blockSize :: int where "blockSize \<equiv> 16"

text \<open>\<open>unsafe.Sizeof(Heap{})\<close>: two interfaces, a pointer, four words and a padded boolean.\<close>

abbreviation (input) heapSize :: int where "heapSize \<equiv> 80"

record block =
  blk_span :: int
  blk_flags :: int
  blk_words :: "u64 list"

record segment =
  seg_base :: int
  seg_size :: int
  seg_blocks :: "block list"

record Heap =
  h_ready :: bool
  h_first :: "segment list"
  h_limit :: int
  h_reserved :: int
  h_granule :: int
  h_nextSize :: int
  h_busy :: bool

record HeapConfig =
  hc_Limit :: int
  hc_Granule :: int
  hc_Initial :: int
  hc_Overhead :: int

definition emptyHeap :: Heap where
  "emptyHeap = \<lparr>h_ready = False, h_first = [], h_limit = 0, h_reserved = 0, h_granule = 0, h_nextSize = 0,
     h_busy = False\<rparr>"

text \<open>\<open>(x + granule - 1) &^ (granule - 1)\<close> and \<open>x &^ (granule - 1)\<close>.\<close>

definition alignDown :: "int \<Rightarrow> int \<Rightarrow> int" where
  "alignDown x granule = x AND NOT (granule - 1)"

definition heapInit :: "Heap \<Rightarrow> bool \<Rightarrow> bool \<Rightarrow> HeapConfig \<Rightarrow> bool \<times> Heap" where
  "heapInit h memory roots config =
     (if h_ready h \<or> \<not> memory \<or> \<not> roots then (False, h)
      else
        let granule = hc_Granule config in
        if granule < segmentSize + blockSize + alignment \<or> granule AND (granule - 1) \<noteq> 0 then (False, h)
        else if hc_Limit config \<noteq> 0 \<and> hc_Limit config > maxUintptr then (False, h)
        else
          let limit = (if hc_Limit config \<noteq> 0 then hc_Limit config else maxUintptr) in
          if hc_Overhead config > maxUintptr - heapSize then (False, h)
          else
            let reserved = heapSize + hc_Overhead config in
            if reserved > limit then (False, h)
            else
              let initial = (if hc_Initial config = 0 then granule else hc_Initial config) in
              if initial > maxUintptr - (granule - 1) then (False, h)
              else (True, \<lparr>h_ready = True, h_first = [], h_limit = limit, h_reserved = reserved,
                     h_granule = granule, h_nextSize = alignDown (initial + granule - 1) granule,
                     h_busy = False\<rparr>))"

definition Reserved :: "Heap \<Rightarrow> int" where
  "Reserved h = h_reserved h"

subsection \<open>First fit\<close>

definition zeroWords :: "int \<Rightarrow> u64 list" where
  "zeroWords span = replicate (nat ((span - blockSize) div wordSize)) 0"

text \<open>The loop over the blocks of one segment; \<open>addr\<close> is the address of the first block.\<close>

fun takeBlocks :: "int \<Rightarrow> int \<Rightarrow> block list \<Rightarrow> (int \<times> block list) option" where
  "takeBlocks span addr [] = None"
| "takeBlocks span addr (b # bs) =
     (if blk_flags b = 0 \<and> blk_span b \<ge> span then
        if blk_span b - span \<ge> blockSize + alignment then
          Some (addr + blockSize,
            \<lparr>blk_span = span, blk_flags = allocated, blk_words = zeroWords span\<rparr> #
            \<lparr>blk_span = blk_span b - span, blk_flags = 0,
              blk_words = drop (nat (span div wordSize)) (blk_words b)\<rparr> # bs)
        else
          Some (addr + blockSize, b\<lparr>blk_flags := allocated, blk_words := zeroWords (blk_span b)\<rparr> # bs)
      else map_option (\<lambda>(p, bs). (p, b # bs)) (takeBlocks span (addr + blk_span b) bs))"

fun takeSegments :: "int \<Rightarrow> segment list \<Rightarrow> (int \<times> segment list) option" where
  "takeSegments span [] = None"
| "takeSegments span (s # ss) =
     (case takeBlocks span (seg_base s + segmentSize) (seg_blocks s) of
        Some (p, bs) \<Rightarrow> Some (p, s\<lparr>seg_blocks := bs\<rparr> # ss)
      | None \<Rightarrow> map_option (\<lambda>(p, ss). (p, s # ss)) (takeSegments span ss))"

definition heapTake :: "Heap \<Rightarrow> int \<Rightarrow> int option \<times> Heap" where
  "heapTake h span =
     (case takeSegments span (h_first h) of
        Some (p, ss) \<Rightarrow> (Some p, h\<lparr>h_first := ss\<rparr>)
      | None \<Rightarrow> (None, h))"

subsection \<open>Marking\<close>

text \<open>The loop of \<open>Mark\<close> over the blocks of the segment that contains the pointer, \<open>rel\<close> bytes
  behind its base.\<close>

fun markBlocks :: "int \<Rightarrow> int \<Rightarrow> block list \<Rightarrow> block list" where
  "markBlocks rel offset [] = []"
| "markBlocks rel offset (b # bs) =
     (if rel \<ge> offset + blockSize \<and> rel < offset + blk_span b then
        (if blk_flags b AND allocated \<noteq> 0 then b\<lparr>blk_flags := blk_flags b OR marked\<rparr> else b) # bs
      else b # markBlocks rel (offset + blk_span b) bs)"

fun markSegments :: "int \<Rightarrow> segment list \<Rightarrow> segment list" where
  "markSegments p [] = []"
| "markSegments p (s # ss) =
     (if p < seg_base s \<or> p - seg_base s \<ge> seg_size s then s # markSegments p ss
      else s\<lparr>seg_blocks := markBlocks (p - seg_base s) segmentSize (seg_blocks s)\<rparr> # ss)"

definition Mark :: "Heap \<Rightarrow> u64 \<Rightarrow> Heap" where
  "Mark h pointer =
     (if \<not> h_busy h then h else h\<lparr>h_first := markSegments (uint pointer) (h_first h)\<rparr>)"

text \<open>\<open>h.Mark\<close> of the words of a block while the collector runs.\<close>

definition markWords :: "u64 list \<Rightarrow> segment list \<Rightarrow> segment list" where
  "markWords ws ss = foldl (\<lambda>ss w. markSegments (uint w) ss) ss ws"

end
