(* ===== verification/MHeap_Trace.thy ===== *)
theory MHeap_Trace
  imports MHeap_Model
begin

text \<open>
  The fixed-point tracing loop of \<open>Collect\<close> in \<open>internal/managedheap/heap.go\<close>.  Marking changes
  flags only, never the \<open>shape\<close> of the heap (its segments, spans and payload words), so the state of
  the loop is the flag of each block position.  The theory shows that the loop ends (every pass with
  progress scans another block) and that it ends with exactly the blocks marked that are
  reachable, through interior pointers too, from the blocks that the roots marked.
\<close>

subsection \<open>The loop\<close>

definition blockAt :: "segment list \<Rightarrow> nat \<times> nat \<Rightarrow> block" where
  "blockAt ss ij = seg_blocks (ss ! fst ij) ! snd ij"

definition setFlag :: "segment list \<Rightarrow> nat \<times> nat \<Rightarrow> int \<Rightarrow> segment list" where
  "setFlag ss ij f = ss[fst ij := (ss ! fst ij)\<lparr>seg_blocks :=
     (seg_blocks (ss ! fst ij))[snd ij := (blockAt ss ij)\<lparr>blk_flags := f\<rparr>]\<rparr>]"

text \<open>The body of the two inner loops at the block with segment and block index \<open>ij\<close>.\<close>

definition scanBlock :: "bool \<times> segment list \<Rightarrow> nat \<times> nat \<Rightarrow> bool \<times> segment list" where
  "scanBlock st ij =
     (case st of (progress, ss) \<Rightarrow>
        let b = blockAt ss ij in
        if blk_flags b = allocated OR marked then
          (True, markWords (blk_words b) (setFlag ss ij (blk_flags b OR scanned)))
        else (progress, ss))"

text \<open>The blocks in the order in which the two loops visit them.\<close>

definition positions :: "segment list \<Rightarrow> (nat \<times> nat) list" where
  "positions ss = concat (map (\<lambda>i. map (Pair i) [0..<length (seg_blocks (ss ! i))]) [0..<length ss])"

definition scanPass :: "segment list \<Rightarrow> bool \<times> segment list" where
  "scanPass ss = foldl scanBlock (False, ss) (positions ss)"

subsection \<open>Shape and flags\<close>

definition shape :: "segment list \<Rightarrow> (int \<times> int \<times> (int \<times> u64 list) list) list" where
  "shape ss = map (\<lambda>s. (seg_base s, seg_size s, map (\<lambda>b. (blk_span b, blk_words b)) (seg_blocks s))) ss"

definition flagAt :: "segment list \<Rightarrow> nat \<times> nat \<Rightarrow> int" where
  "flagAt ss ij = blk_flags (blockAt ss ij)"

definition wordsAt :: "segment list \<Rightarrow> nat \<times> nat \<Rightarrow> u64 list" where
  "wordsAt ss ij = blk_words (blockAt ss ij)"

lemma positions_iff:
  "ij \<in> set (positions ss) \<longleftrightarrow> fst ij < length ss \<and> snd ij < length (seg_blocks (ss ! fst ij))"
proof (cases ij)
  case (Pair i j)
  have "(i, j) \<in> set (positions ss) \<longleftrightarrow> (\<exists>k < length ss. (i, j) \<in> Pair k ` {0..<length (seg_blocks (ss ! k))})"
    unfolding positions_def by (simp add: Bex_def)
  also have "\<dots> \<longleftrightarrow> i < length ss \<and> j < length (seg_blocks (ss ! i))" by auto
  finally show ?thesis by (simp add: Pair)
qed

lemma map_update_same: "j < length xs \<Longrightarrow> f y = f (xs ! j) \<Longrightarrow> map f (xs[j := y]) = map f xs"
  by (simp add: map_update list_update_same_conv)

lemma setFlag_shape [simp]: "ij \<in> set (positions ss) \<Longrightarrow> shape (setFlag ss ij f) = shape ss"
  unfolding shape_def setFlag_def positions_iff blockAt_def
  by (rule map_update_same) (simp_all add: map_update_same)

lemma setFlag_flagAt:
  "ij \<in> set (positions ss) \<Longrightarrow> kl \<in> set (positions ss) \<Longrightarrow>
     flagAt (setFlag ss ij f) kl = (if kl = ij then f else flagAt ss kl)"
  unfolding positions_iff flagAt_def blockAt_def setFlag_def
  by (cases "fst kl = fst ij"; cases "snd kl = snd ij") (simp_all add: prod_eq_iff)

lemma shape_length: "shape ss = shape ts \<Longrightarrow> length ss = length ts"
  by (drule arg_cong[where f = length]) (simp add: shape_def)

lemma shape_nth:
  assumes "shape ss = shape ts" "i < length ss"
  shows "seg_base (ss ! i) = seg_base (ts ! i)" "seg_size (ss ! i) = seg_size (ts ! i)"
    "map (\<lambda>b. (blk_span b, blk_words b)) (seg_blocks (ss ! i)) =
     map (\<lambda>b. (blk_span b, blk_words b)) (seg_blocks (ts ! i))"
proof -
  have "shape ss ! i = shape ts ! i" using assms(1) by simp
  then show "seg_base (ss ! i) = seg_base (ts ! i)" "seg_size (ss ! i) = seg_size (ts ! i)"
    "map (\<lambda>b. (blk_span b, blk_words b)) (seg_blocks (ss ! i)) =
     map (\<lambda>b. (blk_span b, blk_words b)) (seg_blocks (ts ! i))"
    using assms shape_length[OF assms(1)] by (simp_all add: shape_def)
qed

lemma shape_positions:
  assumes "shape ss = shape ts" shows "positions ss = positions ts"
proof -
  have "length (seg_blocks (ss ! i)) = length (seg_blocks (ts ! i))" if "i < length ss" for i
    using arg_cong[where f = length, OF shape_nth(3)[OF assms that]] by simp
  then show ?thesis
    unfolding positions_def using shape_length[OF assms] by (intro arg_cong[where f = concat] map_cong) auto
qed

lemma shape_words:
  assumes "shape ss = shape ts" "ij \<in> set (positions ss)"
  shows "wordsAt ss ij = wordsAt ts ij" "blk_span (blockAt ss ij) = blk_span (blockAt ts ij)"
proof -
  have ij: "fst ij < length ss" "snd ij < length (seg_blocks (ss ! fst ij))"
    "snd ij < length (seg_blocks (ts ! fst ij))"
    using assms(2) shape_positions[OF assms(1)] positions_iff by (metis)+
  have "map (\<lambda>b. (blk_span b, blk_words b)) (seg_blocks (ss ! fst ij)) ! snd ij =
     map (\<lambda>b. (blk_span b, blk_words b)) (seg_blocks (ts ! fst ij)) ! snd ij"
    using shape_nth(3)[OF assms(1) ij(1)] by simp
  then show "wordsAt ss ij = wordsAt ts ij" "blk_span (blockAt ss ij) = blk_span (blockAt ts ij)"
    using ij by (simp_all add: wordsAt_def blockAt_def)
qed

subsection \<open>The block that a pointer keeps\<close>

fun ownerBlocks :: "int \<Rightarrow> int \<Rightarrow> block list \<Rightarrow> nat option" where
  "ownerBlocks rel offset [] = None"
| "ownerBlocks rel offset (b # bs) =
     (if rel \<ge> offset + blockSize \<and> rel < offset + blk_span b then Some 0
      else map_option Suc (ownerBlocks rel (offset + blk_span b) bs))"

fun owner :: "int \<Rightarrow> segment list \<Rightarrow> (nat \<times> nat) option" where
  "owner p [] = None"
| "owner p (s # ss) =
     (if p < seg_base s \<or> p - seg_base s \<ge> seg_size s then map_option (apfst Suc) (owner p ss)
      else map_option (Pair 0) (ownerBlocks (p - seg_base s) segmentSize (seg_blocks s)))"

lemma ownerBlocks_less: "ownerBlocks rel off bs = Some j \<Longrightarrow> j < length bs"
  by (induction bs arbitrary: off j) (auto split: if_splits)

lemma owner_position: "owner p ss = Some ij \<Longrightarrow> ij \<in> set (positions ss)"
proof (induction ss arbitrary: ij)
  case (Cons s ss)
  show ?case
  proof (cases "p < seg_base s \<or> p - seg_base s \<ge> seg_size s")
    case True
    then obtain kl where "owner p ss = Some kl" "ij = apfst Suc kl" using Cons.prems by auto
    then show ?thesis using Cons.IH[of kl] by (cases kl) (simp add: positions_iff)
  next
    case False
    then show ?thesis using Cons.prems by (auto simp: positions_iff dest: ownerBlocks_less)
  qed
qed simp

lemma ownerBlocks_shape:
  "map (\<lambda>b. (blk_span b, blk_words b)) bs = map (\<lambda>b. (blk_span b, blk_words b)) cs \<Longrightarrow>
     ownerBlocks rel off bs = ownerBlocks rel off cs"
proof (induction bs arbitrary: cs off)
  case (Cons b bs)
  then show ?case by (cases cs) auto
qed simp

lemma owner_shape: "shape ss = shape ts \<Longrightarrow> owner p ss = owner p ts"
proof (induction ss arbitrary: ts)
  case Nil
  then show ?case by (simp add: shape_def)
next
  case (Cons s ss)
  then obtain t us where ts: "ts = t # us" by (cases ts) (auto simp: shape_def)
  have "shape ss = shape us" using Cons.prems by (simp add: ts shape_def)
  then show ?case
    using Cons.IH Cons.prems ownerBlocks_shape[of "seg_blocks s" "seg_blocks t"] by (simp add: ts shape_def)
qed

lemma markBlocks_owner:
  "markBlocks rel off bs =
     (case ownerBlocks rel off bs of None \<Rightarrow> bs
      | Some j \<Rightarrow> if blk_flags (bs ! j) AND allocated \<noteq> 0
          then bs[j := (bs ! j)\<lparr>blk_flags := blk_flags (bs ! j) OR marked\<rparr>] else bs)"
  by (induction bs arbitrary: off) (auto split: option.splits)

lemma setFlag_Cons:
  "setFlag (s # ss) (0, j) f = s\<lparr>seg_blocks := (seg_blocks s)[j := (seg_blocks s ! j)\<lparr>blk_flags := f\<rparr>]\<rparr> # ss"
  "setFlag (s # ss) (Suc i, j) f = s # setFlag ss (i, j) f"
  "flagAt (s # ss) (0, j) = blk_flags (seg_blocks s ! j)"
  "flagAt (s # ss) (Suc i, j) = flagAt ss (i, j)"
  by (simp_all add: setFlag_def blockAt_def flagAt_def)

lemma markSegments_owner:
  "markSegments p ss =
     (case owner p ss of None \<Rightarrow> ss
      | Some ij \<Rightarrow> if flagAt ss ij AND allocated \<noteq> 0 then setFlag ss ij (flagAt ss ij OR marked) else ss)"
  by (induction ss) (auto simp: markBlocks_owner setFlag_Cons split: option.splits prod.splits)

lemma markSegments_shape [simp]: "shape (markSegments p ss) = shape ss"
  by (auto simp: markSegments_owner owner_position split: option.splits)

lemma markSegments_positions [simp]: "positions (markSegments p ss) = positions ss"
  by (rule shape_positions) simp


subsection \<open>Flags under marking\<close>

text \<open>Heaps of the same shape whose flags are those of a collection in progress.\<close>

definition flagsOk :: "segment list \<Rightarrow> bool" where
  "flagsOk ss \<longleftrightarrow> (\<forall>ij \<in> set (positions ss). flagAt ss ij \<in> {0, 1, 3, 7})"

definition isAlloc :: "segment list \<Rightarrow> nat \<times> nat \<Rightarrow> bool" where
  "isAlloc ss ij \<longleftrightarrow> flagAt ss ij AND allocated \<noteq> 0"

definition isMarked :: "segment list \<Rightarrow> nat \<times> nat \<Rightarrow> bool" where
  "isMarked ss ij \<longleftrightarrow> flagAt ss ij AND marked \<noteq> 0"

definition isScanned :: "segment list \<Rightarrow> nat \<times> nat \<Rightarrow> bool" where
  "isScanned ss ij \<longleftrightarrow> flagAt ss ij AND scanned \<noteq> 0"

lemmas flag_kinds = isAlloc_def isMarked_def isScanned_def

lemma flagsOk_D: "flagsOk ss \<Longrightarrow> ij \<in> set (positions ss) \<Longrightarrow> flagAt ss ij \<in> {0, 1, 3, 7}"
  by (auto simp: flagsOk_def)

text \<open>\<open>evolves ss ts\<close>: what marking and scanning may do to the flags.\<close>

definition evolves :: "segment list \<Rightarrow> segment list \<Rightarrow> bool" where
  "evolves ss ts \<longleftrightarrow> shape ts = shape ss \<and> flagsOk ts \<and>
     (\<forall>ij \<in> set (positions ss). isAlloc ts ij = isAlloc ss ij \<and> (isMarked ss ij \<longrightarrow> isMarked ts ij) \<and>
        (isScanned ss ij \<longrightarrow> isScanned ts ij))"

lemma evolves_refl: "flagsOk ss \<Longrightarrow> evolves ss ss"
  by (simp add: evolves_def)

lemma evolves_trans: "evolves ss ts \<Longrightarrow> evolves ts us \<Longrightarrow> evolves ss us"
proof -
  assume a: "evolves ss ts" and b: "evolves ts us"
  have p: "positions ts = positions ss" using a by (intro shape_positions) (simp add: evolves_def)
  have "shape us = shape ss" using a b by (simp add: evolves_def)
  then show ?thesis using a b unfolding evolves_def p by blast
qed

lemma evolves_positions: "evolves ss ts \<Longrightarrow> positions ts = positions ss"
  by (rule shape_positions) (simp add: evolves_def)

lemma setFlag_evolves:
  assumes "flagsOk ss" "ij \<in> set (positions ss)" "flagAt ss ij AND allocated \<noteq> 0"
    and "f = flagAt ss ij OR marked \<or> f = flagAt ss ij OR scanned \<and> isMarked ss ij"
  shows "evolves ss (setFlag ss ij f)"
proof -
  have pos: "positions (setFlag ss ij f) = positions ss"
    using assms(2) by (intro shape_positions) simp
  have F: "flagAt (setFlag ss ij f) kl = (if kl = ij then f else flagAt ss kl)"
    if "kl \<in> set (positions ss)" for kl
    using setFlag_flagAt[OF assms(2) that] .
  have "flagAt ss ij \<in> {0, 1, 3, 7}" using assms(1,2) by (rule flagsOk_D)
  then have f: "f \<in> {3, 7}" "isScanned ss ij \<longrightarrow> f = 7" "isAlloc ss ij"
    using assms(3,4) by (auto simp: flag_kinds)
  have "flagsOk (setFlag ss ij f)"
    unfolding flagsOk_def pos using F f(1) flagsOk_D[OF assms(1)] by auto
  moreover have "isAlloc (setFlag ss ij f) kl = isAlloc ss kl \<and> (isMarked ss kl \<longrightarrow> isMarked (setFlag ss ij f) kl) \<and>
      (isScanned ss kl \<longrightarrow> isScanned (setFlag ss ij f) kl)" if "kl \<in> set (positions ss)" for kl
  proof (cases "kl = ij")
    case True
    then have "flagAt (setFlag ss ij f) kl = f" using F[OF that] by simp
    then show ?thesis using f True by (auto simp: flag_kinds)
  next
    case False
    then show ?thesis using F[OF that] by (simp add: flag_kinds)
  qed
  ultimately show ?thesis using assms(2) by (simp add: evolves_def)
qed

lemma markSegments_evolves: "flagsOk ss \<Longrightarrow> evolves ss (markSegments p ss)"
  by (auto simp: markSegments_owner evolves_refl intro!: setFlag_evolves dest: owner_position split: option.splits)

lemma markWords_evolves: "flagsOk ss \<Longrightarrow> evolves ss (markWords ws ss)"
proof (induction ws arbitrary: ss)
  case Nil
  then show ?case by (simp add: markWords_def evolves_refl)
next
  case (Cons w ws)
  have 1: "evolves ss (markSegments (uint w) ss)" using Cons.prems by (rule markSegments_evolves)
  then have "evolves (markSegments (uint w) ss) (markWords ws (markSegments (uint w) ss))"
    by (intro Cons.IH) (simp add: evolves_def)
  with 1 show ?case by (simp add: markWords_def evolves_trans)
qed

text \<open>A pointer marks the allocated block that owns it, and nothing else.\<close>

lemma isMarked_markSegments:
  assumes "flagsOk ss" "kl \<in> set (positions ss)"
  shows "isMarked (markSegments p ss) kl \<longleftrightarrow> isMarked ss kl \<or> owner p ss = Some kl \<and> isAlloc ss kl"
proof (cases "owner p ss")
  case (Some ij)
  then have ij: "ij \<in> set (positions ss)" by (rule owner_position)
  then have "flagAt ss ij \<in> {0, 1, 3, 7}" using assms(1) flagsOk_D by blast
  then show ?thesis using Some assms(2) ij
    by (auto simp: markSegments_owner flag_kinds setFlag_flagAt)
qed (simp add: markSegments_owner)

lemma isMarked_markWords:
  assumes "flagsOk ss" "kl \<in> set (positions ss)"
  shows "isMarked (markWords ws ss) kl \<longleftrightarrow>
     isMarked ss kl \<or> (\<exists>w \<in> set ws. owner (uint w) ss = Some kl) \<and> isAlloc ss kl"
  using assms
proof (induction ws arbitrary: ss)
  case (Cons w ws)
  have 1: "evolves ss (markSegments (uint w) ss)" using Cons.prems(1) by (rule markSegments_evolves)
  have "markWords (w # ws) ss = markWords ws (markSegments (uint w) ss)" by (simp add: markWords_def)
  moreover have "isAlloc (markSegments (uint w) ss) kl = isAlloc ss kl"
    using 1 Cons.prems(2) by (simp add: evolves_def)
  moreover have "owner q (markSegments (uint w) ss) = owner q ss" for q
    by (rule owner_shape) simp
  ultimately show ?case
    using Cons.IH[of "markSegments (uint w) ss"] 1 Cons.prems isMarked_markSegments[OF Cons.prems, of "uint w"]
    by (auto simp: evolves_def)
qed (simp add: markWords_def)

text \<open>Marking never changes what is scanned.\<close>

lemma or_marked_and_scanned: "(x OR 2) AND 4 = x AND (4 :: int)"
  by (simp add: bit.conj_disj_distrib2)

lemma isScanned_markSegments:
  assumes "kl \<in> set (positions ss)"
  shows "isScanned (markSegments p ss) kl = isScanned ss kl"
  using assms
  by (auto simp: markSegments_owner isScanned_def setFlag_flagAt owner_position or_marked_and_scanned
      split: option.splits)

lemma markWords_shape [simp]: "shape (markWords ws ss) = shape ss"
  by (induction ws arbitrary: ss) (simp_all add: markWords_def)

lemma markWords_positions [simp]: "positions (markWords ws ss) = positions ss"
  by (rule shape_positions) simp

lemma isScanned_markWords:
  "kl \<in> set (positions ss) \<Longrightarrow> isScanned (markWords ws ss) kl = isScanned ss kl"
proof (induction ws arbitrary: ss)
  case (Cons w ws)
  then show ?case
    using isScanned_markSegments[OF Cons.prems, of "uint w"] by (simp add: markWords_def)
qed (simp add: markWords_def)

subsection \<open>Termination\<close>

lemma setFlag_positions: "ij \<in> set (positions ss) \<Longrightarrow> positions (setFlag ss ij f) = positions ss"
  by (rule shape_positions) simp

lemma scanBlock_scan:
  assumes "flagAt ss ij = 3" "ij \<in> set (positions ss)"
  shows "scanBlock (progress, ss) ij = (True, markWords (wordsAt ss ij) (setFlag ss ij 7))"
  using assms by (simp add: scanBlock_def wordsAt_def flagAt_def)

lemma scanBlock_skip: "flagAt ss ij \<noteq> 3 \<Longrightarrow> scanBlock (progress, ss) ij = (progress, ss)"
  by (simp add: scanBlock_def flagAt_def)

lemma scanBlock_shape:
  assumes "ij \<in> set (positions ss)"
  shows "shape (snd (scanBlock (progress, ss) ij)) = shape ss"
    "positions (snd (scanBlock (progress, ss) ij)) = positions ss"
proof -
  show "shape (snd (scanBlock (progress, ss) ij)) = shape ss"
    using assms by (cases "flagAt ss ij = 3") (simp_all add: scanBlock_scan scanBlock_skip)
  then show "positions (snd (scanBlock (progress, ss) ij)) = positions ss" by (rule shape_positions)
qed

lemma scanBlock_scanned:
  assumes "ij \<in> set (positions ss)" "kl \<in> set (positions ss)"
  shows "isScanned (snd (scanBlock (progress, ss) ij)) kl \<longleftrightarrow>
     isScanned ss kl \<or> kl = ij \<and> flagAt ss ij = 3"
proof (cases "flagAt ss ij = 3")
  case True
  have "isScanned (snd (scanBlock (progress, ss) ij)) kl = isScanned (setFlag ss ij 7) kl"
    using assms by (simp add: scanBlock_scan[OF True] isScanned_markWords setFlag_positions)
  then show ?thesis using assms True by (simp add: isScanned_def setFlag_flagAt)
qed (simp add: scanBlock_skip)

text \<open>What a pass over some positions achieves: it only scans more, and a pass without progress
  changes nothing.\<close>

definition passed :: "(nat \<times> nat) list \<Rightarrow> bool \<times> segment list \<Rightarrow> bool \<times> segment list \<Rightarrow> bool" where
  "passed ijs st st' \<longleftrightarrow>
     shape (snd st') = shape (snd st) \<and>
     (\<forall>kl \<in> set (positions (snd st)). isScanned (snd st) kl \<longrightarrow> isScanned (snd st') kl) \<and>
     (fst st' \<and> \<not> fst st \<longrightarrow> (\<exists>kl \<in> set (positions (snd st)). \<not> isScanned (snd st) kl \<and> isScanned (snd st') kl)) \<and>
     (\<not> fst st' \<longrightarrow> \<not> fst st \<and> snd st' = snd st \<and> (\<forall>ij \<in> set ijs. flagAt (snd st) ij \<noteq> 3))"

lemma scanBlock_passed:
  assumes "ij \<in> set (positions (snd st))" shows "passed [ij] st (scanBlock st ij)"
proof (cases "flagAt (snd st) ij = 3")
  case True
  moreover have "\<not> isScanned (snd st) ij" using True by (simp add: isScanned_def)
  ultimately show ?thesis
    using assms scanBlock_shape(1)[of ij "snd st" "fst st"] scanBlock_scanned[of ij "snd st" _ "fst st"]
    by (auto simp: passed_def scanBlock_scan[of "snd st" ij "fst st", simplified])
next
  case False
  then show ?thesis by (cases st) (simp add: passed_def scanBlock_skip)
qed

lemma passed_append:
  assumes "passed xs st st1" "passed ys st1 st2" shows "passed (xs @ ys) st st2"
proof -
  have "positions (snd st1) = positions (snd st)" using assms(1) by (intro shape_positions) (simp add: passed_def)
  then show ?thesis using assms unfolding passed_def by auto
qed

lemma foldl_passed:
  "set ijs \<subseteq> set (positions (snd st)) \<Longrightarrow> passed ijs st (foldl scanBlock st ijs)"
proof (induction ijs arbitrary: st)
  case Nil
  then show ?case by (simp add: passed_def)
next
  case (Cons ij ijs)
  have 1: "passed [ij] st (scanBlock st ij)" using Cons.prems by (intro scanBlock_passed) simp
  then have "positions (snd (scanBlock st ij)) = positions (snd st)" by (intro shape_positions) (simp add: passed_def)
  then have "passed ijs (scanBlock st ij) (foldl scanBlock (scanBlock st ij) ijs)"
    using Cons by simp
  with 1 show ?case using passed_append[of "[ij]"] by simp
qed

lemma scanPass_passed: "passed (positions ss) (False, ss) (scanPass ss)"
  unfolding scanPass_def by (rule foldl_passed) simp

text \<open>The blocks a pass has not scanned yet.\<close>

definition unscanned :: "segment list \<Rightarrow> nat" where
  "unscanned ss = length (filter (\<lambda>ij. \<not> isScanned ss ij) (positions ss))"

lemma filter_length_mono: "\<forall>x \<in> set xs. P x \<longrightarrow> Q x \<Longrightarrow> length (filter P xs) \<le> length (filter Q xs)"
  by (induction xs) auto

lemma filter_length_less:
  "\<forall>x \<in> set xs. P x \<longrightarrow> Q x \<Longrightarrow> \<exists>x \<in> set xs. Q x \<and> \<not> P x \<Longrightarrow>
     length (filter P xs) < length (filter Q xs)"
proof (induction xs)
  case (Cons x xs)
  have "length (filter P xs) \<le> length (filter Q xs)" using Cons.prems(1) by (simp add: filter_length_mono)
  then show ?case using Cons by (auto split: if_splits)
qed simp

lemma scanPass_unscanned:
  assumes "scanPass ss = (True, ss')" shows "unscanned ss' < unscanned ss"
proof -
  note S = scanPass_passed[of ss, unfolded assms passed_def fst_conv snd_conv]
  have "positions ss' = positions ss" using S by (intro shape_positions) simp
  moreover have "length (filter (\<lambda>ij. \<not> isScanned ss' ij) (positions ss)) <
      length (filter (\<lambda>ij. \<not> isScanned ss ij) (positions ss))"
    by (rule filter_length_less) (use S in blast)+
  ultimately show ?thesis unfolding unscanned_def by simp
qed

function traceLoop :: "segment list \<Rightarrow> segment list" where
  "traceLoop ss = (case scanPass ss of (progress, ss') \<Rightarrow> if progress then traceLoop ss' else ss')"
  by pat_completeness auto
termination
  by (relation "measure unscanned") (auto simp: scanPass_unscanned)

declare traceLoop.simps [simp del]

subsection \<open>Tracing marks the reachable blocks\<close>

text \<open>The blocks reachable from a set of blocks: the allocated owner of any word in the payload of a
  reachable block is reachable.\<close>

inductive reaches :: "segment list \<Rightarrow> (nat \<times> nat \<Rightarrow> bool) \<Rightarrow> nat \<times> nat \<Rightarrow> bool"
  for ss :: "segment list" and S :: "nat \<times> nat \<Rightarrow> bool" where
  reaches_start: "ij \<in> set (positions ss) \<Longrightarrow> S ij \<Longrightarrow> reaches ss S ij"
| reaches_word: "reaches ss S ij \<Longrightarrow> w \<in> set (wordsAt ss ij) \<Longrightarrow> owner (uint w) ss = Some kl \<Longrightarrow>
    isAlloc ss kl \<Longrightarrow> reaches ss S kl"

lemma reaches_position: "reaches ss S ij \<Longrightarrow> ij \<in> set (positions ss)"
  by (induction rule: reaches.induct) (auto dest: owner_position)

text \<open>Every word of a scanned block has marked what it points to.\<close>

definition scannedClosed :: "segment list \<Rightarrow> bool" where
  "scannedClosed ss \<longleftrightarrow> (\<forall>ij \<in> set (positions ss). isScanned ss ij \<longrightarrow>
     (\<forall>w \<in> set (wordsAt ss ij). \<forall>kl. owner (uint w) ss = Some kl \<and> isAlloc ss kl \<longrightarrow> isMarked ss kl))"

definition traceInv :: "segment list \<Rightarrow> segment list \<Rightarrow> bool" where
  "traceInv ss0 ss \<longleftrightarrow> evolves ss0 ss \<and> scannedClosed ss \<and>
     (\<forall>ij \<in> set (positions ss0). isMarked ss ij \<longrightarrow> reaches ss0 (isMarked ss0) ij)"

lemma evolves_same:
  assumes "evolves ss ts"
  shows "owner p ts = owner p ss" "ij \<in> set (positions ss) \<Longrightarrow> wordsAt ts ij = wordsAt ss ij"
    "ij \<in> set (positions ss) \<Longrightarrow> isAlloc ts ij = isAlloc ss ij"
proof -
  have sh: "shape ts = shape ss" using assms by (simp add: evolves_def)
  show "owner p ts = owner p ss" using sh by (rule owner_shape)
  show "ij \<in> set (positions ss) \<Longrightarrow> wordsAt ts ij = wordsAt ss ij"
    using shape_words(1)[OF sh] evolves_positions[OF assms] by simp
  show "ij \<in> set (positions ss) \<Longrightarrow> isAlloc ts ij = isAlloc ss ij" using assms by (simp add: evolves_def)
qed

lemma scan_step:
  assumes "flagsOk ss" "ij \<in> set (positions ss)" "flagAt ss ij = 3"
  defines "ts \<equiv> markWords (wordsAt ss ij) (setFlag ss ij 7)"
  shows "evolves ss ts"
    and "kl \<in> set (positions ss) \<Longrightarrow> isMarked ts kl \<longleftrightarrow>
      isMarked ss kl \<or> (\<exists>w \<in> set (wordsAt ss ij). owner (uint w) ss = Some kl) \<and> isAlloc ss kl"
    and "kl \<in> set (positions ss) \<Longrightarrow> isScanned ts kl \<longleftrightarrow> isScanned ss kl \<or> kl = ij"
proof -
  have e1: "evolves ss (setFlag ss ij 7)"
    using assms(1-3) by (intro setFlag_evolves) (simp_all add: flag_kinds)
  then have ok1: "flagsOk (setFlag ss ij 7)" by (simp add: evolves_def)
  show "evolves ss ts"
    unfolding ts_def using e1 markWords_evolves[OF ok1] by (rule evolves_trans)
  have p: "positions (setFlag ss ij 7) = positions ss" using assms(2) by (rule setFlag_positions)
  show "isMarked ts kl \<longleftrightarrow> isMarked ss kl \<or>
      (\<exists>w \<in> set (wordsAt ss ij). owner (uint w) ss = Some kl) \<and> isAlloc ss kl"
    if "kl \<in> set (positions ss)"
  proof -
    have "isMarked (setFlag ss ij 7) kl = isMarked ss kl" "isAlloc (setFlag ss ij 7) kl = isAlloc ss kl"
      using assms(2,3) that by (simp_all add: flag_kinds setFlag_flagAt)
    then show ?thesis
      unfolding ts_def using isMarked_markWords[OF ok1, of kl] that p evolves_same(1)[OF e1] by simp
  qed
  show "isScanned ts kl \<longleftrightarrow> isScanned ss kl \<or> kl = ij" if "kl \<in> set (positions ss)"
  proof -
    have "isScanned ts kl = isScanned (setFlag ss ij 7) kl"
      unfolding ts_def using that p by (simp add: isScanned_markWords)
    then show ?thesis using assms(2) that by (simp add: isScanned_def setFlag_flagAt)
  qed
qed

lemma scanBlock_inv:
  assumes inv: "traceInv ss0 (snd st)" and ij: "ij \<in> set (positions ss0)"
  shows "traceInv ss0 (snd (scanBlock st ij))"
proof (cases "flagAt (snd st) ij = 3")
  case False
  then show ?thesis using inv by (cases st) (simp add: scanBlock_skip)
next
  case True
  obtain progress ss where st: "st = (progress, ss)" by (cases st)
  have ev: "evolves ss0 ss" and cl: "scannedClosed ss"
    and rc: "\<And>ij. ij \<in> set (positions ss0) \<Longrightarrow> isMarked ss ij \<Longrightarrow> reaches ss0 (isMarked ss0) ij"
    using inv by (auto simp: traceInv_def st)
  have ok: "flagsOk ss" using ev by (simp add: evolves_def)
  note p = evolves_positions[OF ev] and same = evolves_same[OF ev]
  have ij': "ij \<in> set (positions ss)" and f3: "flagAt ss ij = 3" using ij True by (simp_all add: p st)
  define ts where "ts = markWords (wordsAt ss ij) (setFlag ss ij 7)"
  note S = scan_step[OF ok ij' f3, folded ts_def]
  have ts: "snd (scanBlock st ij) = ts" using scanBlock_scan[OF f3 ij'] by (simp add: st ts_def)
  note pt = evolves_positions[OF S(1)] and samet = evolves_same[OF S(1)]
  have "scannedClosed ts"
    unfolding scannedClosed_def pt
  proof (intro ballI impI allI, elim conjE)
    fix kl w mn
    assume k: "kl \<in> set (positions ss)" "isScanned ts kl" and w: "w \<in> set (wordsAt ts kl)"
      and o: "owner (uint w) ts = Some mn" and al: "isAlloc ts mn"
    have mn: "mn \<in> set (positions ss)" using owner_position[OF o] pt by simp
    have o': "owner (uint w) ss = Some mn" and al': "isAlloc ss mn" and w': "w \<in> set (wordsAt ss kl)"
      using o al w k(1) mn by (simp_all add: samet)
    from S(3)[OF k(1)] k(2) consider "isScanned ss kl" | "kl = ij" by blast
    then show "isMarked ts mn"
    proof cases
      case 1
      then have "isMarked ss mn" using cl k(1) w' o' al' unfolding scannedClosed_def by blast
      then show ?thesis using S(2)[OF mn] by simp
    next
      case 2
      then show ?thesis using S(2)[OF mn] w' o' al' by blast
    qed
  qed
  moreover have "reaches ss0 (isMarked ss0) kl" if kl: "kl \<in> set (positions ss0)" "isMarked ts kl" for kl
  proof (cases "isMarked ss kl")
    case True
    then show ?thesis using rc kl(1) by blast
  next
    case False
    then obtain w where "w \<in> set (wordsAt ss ij)" "owner (uint w) ss = Some kl" "isAlloc ss kl"
      using S(2)[of kl] kl by (auto simp: p)
    then have w: "w \<in> set (wordsAt ss0 ij)" "owner (uint w) ss0 = Some kl" "isAlloc ss0 kl"
      using same ij kl(1) by simp_all
    have "isMarked ss ij" using f3 by (simp add: isMarked_def)
    then have "reaches ss0 (isMarked ss0) ij" using rc ij by blast
    then show ?thesis using w by (rule reaches_word)
  qed
  ultimately show ?thesis
    unfolding ts traceInv_def using evolves_trans[OF ev S(1)] by blast
qed

lemma foldl_inv:
  "traceInv ss0 (snd st) \<Longrightarrow> set ijs \<subseteq> set (positions ss0) \<Longrightarrow> traceInv ss0 (snd (foldl scanBlock st ijs))"
  by (induction ijs arbitrary: st) (simp_all add: scanBlock_inv)

lemma scanPass_inv:
  assumes "traceInv ss0 ss" shows "traceInv ss0 (snd (scanPass ss))"
proof -
  have "positions ss = positions ss0" using assms by (simp add: traceInv_def evolves_positions)
  then show ?thesis unfolding scanPass_def using assms by (intro foldl_inv) simp_all
qed

text \<open>The loop ends in a heap in which no marked block is left to scan.\<close>

lemma traceLoop_ends:
  "traceInv ss0 ss \<Longrightarrow> traceInv ss0 (traceLoop ss) \<and> (\<forall>ij \<in> set (positions ss0). flagAt (traceLoop ss) ij \<noteq> 3)"
proof (induction ss rule: traceLoop.induct)
  case (1 ss)
  obtain progress ss' where sp: "scanPass ss = (progress, ss')" by (cases "scanPass ss")
  have inv': "traceInv ss0 ss'" using scanPass_inv[OF 1(2)] by (simp add: sp)
  show ?case
  proof (cases progress)
    case True
    then show ?thesis
      using 1(1)[OF sp[symmetric]] inv' by (subst (1 2) traceLoop.simps) (simp add: sp)
  next
    case False
    have "positions ss = positions ss0" using 1(2) by (simp add: traceInv_def evolves_positions)
    then have "\<forall>ij \<in> set (positions ss0). flagAt ss ij \<noteq> 3" "ss' = ss"
      using scanPass_passed[of ss] False by (simp_all add: passed_def sp)
    then show ?thesis using inv' False by (subst (1 2) traceLoop.simps) (simp add: sp)
  qed
qed

theorem traceLoop_correct:
  assumes ok: "flagsOk ss" and fresh: "\<forall>ij \<in> set (positions ss). \<not> isScanned ss ij"
  shows "evolves ss (traceLoop ss)"
    and "ij \<in> set (positions ss) \<Longrightarrow> isMarked (traceLoop ss) ij \<longleftrightarrow> reaches ss (isMarked ss) ij"
proof -
  let ?ts = "traceLoop ss"
  have "traceInv ss ss"
    using assms by (simp add: traceInv_def evolves_refl scannedClosed_def reaches_start)
  note E = traceLoop_ends[OF this]
  then have ev: "evolves ss ?ts" and cl: "scannedClosed ?ts" by (simp_all add: traceInv_def)
  show "evolves ss ?ts" by (rule ev)
  note same = evolves_same[OF ev] and p = evolves_positions[OF ev]
  show "isMarked ?ts ij \<longleftrightarrow> reaches ss (isMarked ss) ij" if ij: "ij \<in> set (positions ss)"
  proof
    assume "isMarked ?ts ij"
    then show "reaches ss (isMarked ss) ij" using E ij by (simp add: traceInv_def)
  next
    assume "reaches ss (isMarked ss) ij"
    then show "isMarked ?ts ij"
    proof (induction rule: reaches.induct)
      case (reaches_start ij)
      then show ?case using ev by (simp add: evolves_def)
    next
      case (reaches_word ij w kl)
      have ij: "ij \<in> set (positions ss)" using reaches_word.hyps(1) by (rule reaches_position)
      have kl: "kl \<in> set (positions ss)" using reaches_word.hyps(3) by (rule owner_position)
      have "flagsOk ?ts" using ev by (simp add: evolves_def)
      then have "flagAt ?ts ij \<in> {0, 1, 3, 7}" using ij p flagsOk_D[of ?ts ij] by simp
      moreover have "flagAt ?ts ij \<noteq> 3" using E ij by blast
      moreover have "flagAt ?ts ij AND 2 \<noteq> 0" using reaches_word.IH by (simp add: isMarked_def)
      ultimately have "flagAt ?ts ij = 7" by auto
      then have "isScanned ?ts ij" by (simp add: isScanned_def)
      moreover have "w \<in> set (wordsAt ?ts ij)" "owner (uint w) ?ts = Some kl" "isAlloc ?ts kl"
        using reaches_word.hyps(2-4) by (simp_all add: same ij kl)
      ultimately show ?case using cl ij unfolding scannedClosed_def p by blast
    qed
  qed
qed

end
