(* ===== verification/MHeap_Store.thy ===== *)
theory MHeap_Store
  imports MHeap_Trace
begin

text \<open>
  What the heap of \<open>internal/managedheap/heap.go\<close> is: the well-formedness of its segments (the
  headers tile a segment, payloads have the length their span says, segments do not overlap) and
  the abstract store it implements, a map from the addresses of objects to their words.  On the
  abstract store, a pointer keeps the object that contains it, and the reachable objects are those
  that the roots keep, directly or through words of reachable objects.
\<close>

subsection \<open>Well-formed segments\<close>

definition blockOk :: "block \<Rightarrow> bool" where
  "blockOk b \<longleftrightarrow> blk_span b \<ge> blockSize + alignment \<and> blk_span b mod alignment = 0 \<and>
     int (length (blk_words b)) * wordSize = blk_span b - blockSize"

definition spans :: "block list \<Rightarrow> int" where
  "spans bs = sum_list (map blk_span bs)"

lemma spans_simps [simp]:
  "spans [] = 0" "spans (b # bs) = blk_span b + spans bs" "spans (bs @ cs) = spans bs + spans cs"
  by (simp_all add: spans_def)

definition segOk :: "segment \<Rightarrow> bool" where
  "segOk s \<longleftrightarrow> seg_base s > 0 \<and> seg_base s mod alignment = 0 \<and> seg_base s + seg_size s \<le> 2 ^ 64 \<and>
     list_all blockOk (seg_blocks s) \<and> segmentSize + spans (seg_blocks s) = seg_size s"

definition apart :: "segment \<Rightarrow> segment \<Rightarrow> bool" where
  "apart s t \<longleftrightarrow> seg_base s + seg_size s \<le> seg_base t \<or> seg_base t + seg_size t \<le> seg_base s"

definition segsOk :: "segment list \<Rightarrow> bool" where
  "segsOk ss \<longleftrightarrow> list_all segOk ss \<and> sorted_wrt apart ss"

lemma blockOk_pos: "blockOk b \<Longrightarrow> blk_span b \<ge> 32"
  by (simp add: blockOk_def)

lemma spans_nonneg: "list_all blockOk bs \<Longrightarrow> spans bs \<ge> 0"
  by (induction bs) (auto dest: blockOk_pos)

subsection \<open>Cells\<close>

text \<open>The blocks of a segment with the addresses of their payloads.\<close>

fun cells :: "int \<Rightarrow> block list \<Rightarrow> (int \<times> block) list" where
  "cells addr [] = []"
| "cells addr (b # bs) = (addr + blockSize, b) # cells (addr + blk_span b) bs"

definition segCells :: "segment \<Rightarrow> (int \<times> block) list" where
  "segCells s = cells (seg_base s + segmentSize) (seg_blocks s)"

definition heapCells :: "segment list \<Rightarrow> (int \<times> block) list" where
  "heapCells ss = concat (map segCells ss)"

definition clear :: "int \<times> block \<Rightarrow> int \<times> block \<Rightarrow> bool" where
  "clear x y \<longleftrightarrow> fst x + blk_span (snd x) \<le> fst y \<or> fst y + blk_span (snd y) \<le> fst x"

lemma heapCells_simps [simp]:
  "heapCells [] = []" "heapCells (s # ss) = segCells s @ heapCells ss"
  "heapCells (ss @ ts) = heapCells ss @ heapCells ts"
  by (simp_all add: heapCells_def)

lemma cells_append: "cells addr (bs @ cs) = cells addr bs @ cells (addr + spans bs) cs"
  by (induction bs arbitrary: addr) (simp_all add: add.assoc)

lemma cells_range:
  "list_all blockOk bs \<Longrightarrow> (a, b) \<in> set (cells addr bs) \<Longrightarrow>
     addr + blockSize \<le> a \<and> a - blockSize + blk_span b \<le> addr + spans bs \<and> blockOk b"
proof (induction bs arbitrary: addr)
  case (Cons c bs)
  have "spans bs \<ge> 0" "blk_span c \<ge> 32" using Cons.prems(1) by (simp_all add: spans_nonneg blockOk_pos)
  then show ?case using Cons.IH[of "addr + blk_span c"] Cons.prems by auto
qed simp

lemma cells_clear: "list_all blockOk bs \<Longrightarrow> sorted_wrt clear (cells addr bs)"
proof (induction bs arbitrary: addr)
  case (Cons c bs)
  have "clear (addr + 16, c) y" if "y \<in> set (cells (addr + blk_span c) bs)" for y
    using that cells_range[of bs "fst y" "snd y" "addr + blk_span c"] Cons.prems by (simp add: clear_def)
  then show ?case using Cons by simp
qed simp

lemma segCells_range:
  assumes "segOk s" "(a, b) \<in> set (segCells s)"
  shows "seg_base s + 32 \<le> a" "a - blockSize + blk_span b \<le> seg_base s + seg_size s" "blockOk b"
  using assms cells_range[of "seg_blocks s" a b "seg_base s + segmentSize"]
  by (auto simp: segCells_def segOk_def)

lemma heapCells_clear: "segsOk ss \<Longrightarrow> sorted_wrt clear (heapCells ss)"
proof (induction ss)
  case (Cons s ss)
  have s: "segOk s" and ss: "segsOk ss" and ap: "\<And>t. t \<in> set ss \<Longrightarrow> segOk t \<and> apart s t"
    using Cons.prems by (auto simp: segsOk_def list_all_iff)
  have "clear x y" if x: "x \<in> set (segCells s)" and y: "y \<in> set (heapCells ss)" for x y
  proof -
    obtain t where t: "t \<in> set ss" "y \<in> set (segCells t)" using y by (auto simp: heapCells_def)
    then show ?thesis
      using segCells_range[OF s, of "fst x" "snd x"] x segCells_range[of t "fst y" "snd y"] ap[OF t(1)]
      by (auto simp: clear_def apart_def)
  qed
  then show ?case using Cons.IH[OF ss] s by (auto simp: sorted_wrt_append segCells_def segOk_def cells_clear)
qed simp

lemma heapCells_blockOk: "segsOk ss \<Longrightarrow> (a, b) \<in> set (heapCells ss) \<Longrightarrow> blockOk b \<and> a > 0"
proof -
  assume ss: "segsOk ss" and "(a, b) \<in> set (heapCells ss)"
  then obtain s where s: "s \<in> set ss" "(a, b) \<in> set (segCells s)" by (auto simp: heapCells_def)
  then have "segOk s" using ss by (simp add: segsOk_def list_all_iff)
  then show ?thesis using segCells_range[of s a b] s(2) by (simp add: segOk_def)
qed

lemma clear_distinct:
  "sorted_wrt clear xs \<Longrightarrow> \<forall>x \<in> set xs. blk_span (snd x) > 0 \<Longrightarrow> distinct (map fst xs)"
proof (induction xs)
  case (Cons x xs)
  have "fst y \<noteq> fst x" if "y \<in> set xs" for y
  proof -
    have "clear x y" "blk_span (snd x) > 0" "blk_span (snd y) > 0" using Cons.prems that by simp_all
    then show ?thesis by (auto simp: clear_def)
  qed
  then have "fst x \<notin> set (map fst xs)" by force
  then show ?case using Cons by simp
qed simp

lemma heapCells_distinct: "segsOk ss \<Longrightarrow> distinct (map fst (heapCells ss))"
proof (rule clear_distinct)
  assume ss: "segsOk ss"
  then show "sorted_wrt clear (heapCells ss)" by (rule heapCells_clear)
  show "\<forall>x \<in> set (heapCells ss). blk_span (snd x) > 0"
    using heapCells_blockOk[OF ss] blockOk_pos by fastforce
qed

subsection \<open>The abstract store\<close>

type_synonym store = "int \<rightharpoonup> u64 list"

definition objectList :: "(int \<times> block) list \<Rightarrow> (int \<times> u64 list) list" where
  "objectList xs = map (apsnd blk_words) (filter (\<lambda>x. blk_flags (snd x) AND allocated \<noteq> 0) xs)"

definition objects :: "segment list \<Rightarrow> store" where
  "objects ss = map_of (objectList (heapCells ss))"

lemma objectList_simps [simp]:
  "objectList [] = []" "objectList (xs @ ys) = objectList xs @ objectList ys"
  "objectList ((a, b) # xs) = (if blk_flags b AND allocated \<noteq> 0 then (a, blk_words b) # objectList xs else objectList xs)"
  by (simp_all add: objectList_def)

lemma objectList_fst: "map fst (objectList xs) = map fst (filter (\<lambda>x. blk_flags (snd x) AND allocated \<noteq> 0) xs)"
  by (simp add: objectList_def)

lemma objects_Some_iff:
  assumes "segsOk ss"
  shows "objects ss a = Some ws \<longleftrightarrow>
     (\<exists>b. (a, b) \<in> set (heapCells ss) \<and> blk_flags b AND allocated \<noteq> 0 \<and> blk_words b = ws)"
proof -
  have "distinct (map fst (objectList (heapCells ss)))"
    unfolding objectList_fst using heapCells_distinct[OF assms] by (simp add: distinct_map_filter)
  then show ?thesis by (auto simp: objects_def map_of_eq_Some_iff objectList_def image_iff)
qed

text \<open>The object that contains the address \<open>p\<close>.\<close>

definition keeps :: "store \<Rightarrow> int \<Rightarrow> int \<Rightarrow> bool" where
  "keeps \<sigma> p a \<longleftrightarrow> (\<exists>ws. \<sigma> a = Some ws \<and> a \<le> p \<and> p < a + int (length ws) * wordSize)"

inductive reachable :: "store \<Rightarrow> u64 list \<Rightarrow> int \<Rightarrow> bool" for \<sigma> :: store and roots :: "u64 list" where
  reachable_root: "p \<in> set roots \<Longrightarrow> keeps \<sigma> (uint p) a \<Longrightarrow> reachable \<sigma> roots a"
| reachable_word: "reachable \<sigma> roots a \<Longrightarrow> \<sigma> a = Some ws \<Longrightarrow> w \<in> set ws \<Longrightarrow> keeps \<sigma> (uint w) c \<Longrightarrow>
    reachable \<sigma> roots c"

subsection \<open>Positions and cells\<close>

definition addrAt :: "segment list \<Rightarrow> nat \<times> nat \<Rightarrow> int" where
  "addrAt ss ij = seg_base (ss ! fst ij) + 32 + spans (take (snd ij) (seg_blocks (ss ! fst ij)))"

lemma cells_nth:
  "(a, b) \<in> set (cells addr bs) \<longleftrightarrow> (\<exists>j < length bs. a = addr + 16 + spans (take j bs) \<and> b = bs ! j)"
proof (induction bs arbitrary: addr)
  case (Cons c bs)
  have "(a, b) \<in> set (cells addr (c # bs)) \<longleftrightarrow> a = addr + 16 \<and> b = c \<or>
      (\<exists>j < length bs. a = addr + blk_span c + 16 + spans (take j bs) \<and> b = bs ! j)"
    using Cons.IH by auto
  also have "\<dots> \<longleftrightarrow> (\<exists>j < length (c # bs). a = addr + 16 + spans (take j (c # bs)) \<and> b = (c # bs) ! j)"
    unfolding length_Cons Ex_less_Suc2 by (auto simp: algebra_simps)
  finally show ?case .
qed simp

lemma heapCells_positions:
  "(a, b) \<in> set (heapCells ss) \<longleftrightarrow> (\<exists>ij \<in> set (positions ss). a = addrAt ss ij \<and> b = blockAt ss ij)"
proof -
  have "(a, b) \<in> set (heapCells ss) \<longleftrightarrow> (\<exists>i < length ss. (a, b) \<in> set (segCells (ss ! i)))"
    by (simp add: heapCells_def set_conv_nth[of ss] Bex_def) blast
  also have "\<dots> \<longleftrightarrow> (\<exists>i < length ss. \<exists>j < length (seg_blocks (ss ! i)). a = addrAt ss (i, j) \<and> b = blockAt ss (i, j))"
    by (simp add: segCells_def cells_nth addrAt_def blockAt_def add.assoc)
  also have "\<dots> \<longleftrightarrow> (\<exists>ij \<in> set (positions ss). a = addrAt ss ij \<and> b = blockAt ss ij)"
    by (auto simp: Bex_def positions_iff)
  finally show ?thesis .
qed

lemma ownerBlocks_iff:
  "list_all blockOk bs \<Longrightarrow> ownerBlocks rel off bs = Some j \<longleftrightarrow>
     j < length bs \<and> off + 16 + spans (take j bs) \<le> rel \<and> rel < off + spans (take j bs) + blk_span (bs ! j)"
proof (induction bs arbitrary: off j)
  case (Cons c bs)
  note IH = Cons.IH[of "off + blk_span c"]
  have c: "blk_span c \<ge> 32" and bs: "list_all blockOk bs" using Cons.prems by (simp_all add: blockOk_pos)
  have nonneg: "spans (take j bs) \<ge> 0" for j
    using bs by (intro spans_nonneg) (auto simp: list_all_iff dest: in_set_takeD)
  show ?case
  proof (cases j)
    case 0
    then show ?thesis using IH[OF bs] by auto
  next
    case (Suc k)
    then show ?thesis using IH[OF bs, of k] nonneg[of k] c by (auto simp: algebra_simps)
  qed
qed simp

lemma owner_iff:
  "segsOk ss \<Longrightarrow> owner p ss = Some ij \<longleftrightarrow>
     ij \<in> set (positions ss) \<and> addrAt ss ij \<le> p \<and> p < addrAt ss ij - 16 + blk_span (blockAt ss ij)"
proof (induction ss arbitrary: ij)
  case Nil
  then show ?case by (simp add: positions_def)
next
  case (Cons s ss)
  obtain i j where ij: "ij = (i, j)" by (cases ij)
  have s: "segOk s" and ss: "segsOk ss" and ap: "\<And>t. t \<in> set ss \<Longrightarrow> segOk t \<and> apart s t"
    using Cons.prems by (auto simp: segsOk_def list_all_iff)
  have range: "seg_base t + 32 \<le> addrAt us kl" "addrAt us kl - 16 + blk_span (blockAt us kl) \<le> seg_base t + seg_size t"
    if "kl \<in> set (positions us)" "us ! fst kl = t" "segOk t" for us kl t
  proof -
    have "(addrAt us kl, blockAt us kl) \<in> set (segCells t)"
      using that by (auto simp: segCells_def cells_nth addrAt_def blockAt_def positions_iff)
    then show "seg_base t + 32 \<le> addrAt us kl" "addrAt us kl - 16 + blk_span (blockAt us kl) \<le> seg_base t + seg_size t"
      using segCells_range[OF that(3)] by blast+
  qed
  have here: "ownerBlocks (p - seg_base s) segmentSize (seg_blocks s) = Some j \<longleftrightarrow>
      (0, j) \<in> set (positions (s # ss)) \<and> addrAt (s # ss) (0, j) \<le> p \<and>
      p < addrAt (s # ss) (0, j) - 16 + blk_span (blockAt (s # ss) (0, j))"
    using s by (auto simp: ownerBlocks_iff segOk_def positions_iff addrAt_def blockAt_def)
  show ?case
  proof (cases "p < seg_base s \<or> p - seg_base s \<ge> seg_size s")
    case out: True
    show ?thesis
    proof (cases i)
      case 0
      then show ?thesis using out range[of "(0, j)" "s # ss" s] s by (auto simp: ij)
    next
      case (Suc k)
      have "owner p (s # ss) = Some ij \<longleftrightarrow> owner p ss = Some (k, j)"
        using out by (auto simp: ij Suc apfst_def map_prod_def split: prod.splits)
      then show ?thesis using Cons.IH[OF ss, of "(k, j)"] by (simp add: ij Suc positions_iff addrAt_def blockAt_def)
    qed
  next
    case inn: False
    show ?thesis
    proof (cases i)
      case 0
      then show ?thesis using inn here by (simp add: ij)
    next
      case (Suc k)
      have "\<not> (addrAt (s # ss) ij \<le> p \<and> p < addrAt (s # ss) ij - 16 + blk_span (blockAt (s # ss) ij))"
        if pos: "ij \<in> set (positions (s # ss))"
      proof -
        have k: "k < length ss" using pos by (simp add: ij Suc positions_iff)
        then have "segOk (ss ! k)" "apart s (ss ! k)" using ap by auto
        then show ?thesis
          using range[of ij "s # ss" "ss ! k"] pos inn by (auto simp: ij Suc apart_def)
      qed
      then show ?thesis using inn by (auto simp: ij Suc)
    qed
  qed
qed

end
