(* ===== verification/MHeap_Collect.thy ===== *)
theory MHeap_Collect
  imports MHeap_Store
begin

text \<open>
  \<open>Collect\<close>, \<open>clearMarks\<close> and \<open>Close\<close> of \<open>internal/managedheap/heap.go\<close>.  The answer of the root
  enumerator is a parameter: the pointers it passes to \<open>Mark\<close> and whether it finished.  The
  arguments of the calls of \<open>Memory.Release\<close> are returned.  The lemmas lead to what a collection
  does to the abstract store: it keeps exactly the reachable objects.
\<close>

type_synonym rootAnswer = "u64 list \<times> bool"

subsection \<open>Operations\<close>

definition clearBlock :: "block \<Rightarrow> block" where
  "clearBlock b = b\<lparr>blk_flags := blk_flags b AND allocated\<rparr>"

definition clearMarks :: "segment list \<Rightarrow> segment list" where
  "clearMarks ss = map (\<lambda>s. s\<lparr>seg_blocks := map clearBlock (seg_blocks s)\<rparr>) ss"

text \<open>\<open>free.span += span\<close>: the absorbed header and payload become words of the free block.\<close>

definition absorb :: "block \<Rightarrow> block \<Rightarrow> block" where
  "absorb f b = f\<lparr>blk_span := blk_span f + blk_span b,
     blk_words := blk_words f @ [word_of_int (blk_span b), 0] @ blk_words b\<rparr>"

text \<open>The sweep of the blocks of one segment; \<open>free\<close> is the free block that ends where the rest of
  the list starts, if \<open>free \<noteq> nil\<close>.\<close>

fun sweepBlocks :: "block option \<Rightarrow> block list \<Rightarrow> block list \<times> bool" where
  "sweepBlocks free [] = (case free of None \<Rightarrow> [] | Some f \<Rightarrow> [f], False)"
| "sweepBlocks free (b # bs) =
     (if blk_flags b AND marked \<noteq> 0 then
        (case sweepBlocks None bs of (out, live) \<Rightarrow>
          ((case free of None \<Rightarrow> [] | Some f \<Rightarrow> [f]) @ b\<lparr>blk_flags := allocated\<rparr> # out, True))
      else
        case free of
          Some f \<Rightarrow> sweepBlocks (Some (absorb f b)) bs
        | None \<Rightarrow> sweepBlocks (Some (b\<lparr>blk_flags := 0\<rparr>)) bs)"

fun sweepSegments :: "int \<Rightarrow> segment list \<Rightarrow> segment list \<times> (int \<times> int) list \<times> int" where
  "sweepSegments reserved [] = ([], [], reserved)"
| "sweepSegments reserved (s # ss) =
     (case sweepBlocks None (seg_blocks s) of (bs, live) \<Rightarrow>
        if \<not> live then
          (case sweepSegments (u64 (reserved - seg_size s)) ss of (kept, released, reserved) \<Rightarrow>
            (kept, (seg_base s, seg_size s) # released, reserved))
        else
          (case sweepSegments reserved ss of (kept, released, reserved) \<Rightarrow>
            (s\<lparr>seg_blocks := bs\<rparr> # kept, released, reserved)))"

definition Collect :: "rootAnswer \<Rightarrow> Heap \<Rightarrow> bool \<times> (int \<times> int) list \<times> Heap" where
  "Collect roots h =
     (if \<not> h_ready h \<or> h_busy h then (False, [], h)
      else
        let h = foldl Mark (h\<lparr>h_busy := True\<rparr>) (fst roots) in
        if \<not> snd roots then (False, [], h\<lparr>h_first := clearMarks (h_first h), h_busy := False\<rparr>)
        else
          case sweepSegments (h_reserved h) (traceLoop (h_first h)) of (kept, released, reserved) \<Rightarrow>
            (True, released, h\<lparr>h_first := kept, h_reserved := reserved, h_busy := False\<rparr>))"

definition heapClose :: "Heap \<Rightarrow> (int \<times> int) list \<times> Heap" where
  "heapClose h =
     (if \<not> h_ready h \<or> h_busy h then ([], h)
      else (map (\<lambda>s. (seg_base s, seg_size s)) (h_first h), emptyHeap))"

subsection \<open>The invariant of a heap between operations\<close>

definition atRest :: "segment list \<Rightarrow> bool" where
  "atRest ss \<longleftrightarrow> list_all (\<lambda>s. list_all (\<lambda>b. blk_flags b \<in> {0, 1}) (seg_blocks s)) ss"

definition sizes :: "segment list \<Rightarrow> int" where
  "sizes ss = sum_list (map seg_size ss)"

definition heapOk :: "int \<Rightarrow> Heap \<Rightarrow> bool" where
  "heapOk fixed h \<longleftrightarrow> \<not> h_busy h \<and>
     (if h_ready h then
        h_granule h \<ge> 48 \<and> h_granule h AND (h_granule h - 1) = 0 \<and>
        0 < h_nextSize h \<and> h_nextSize h < 2 ^ 64 \<and> h_nextSize h mod h_granule h = 0 \<and>
        segsOk (h_first h) \<and> atRest (h_first h) \<and>
        0 \<le> fixed \<and> h_reserved h = fixed + sizes (h_first h) \<and> h_reserved h \<le> h_limit h \<and> h_limit h < 2 ^ 64
      else h = emptyHeap)"

lemma sizes_simps [simp]: "sizes [] = 0" "sizes (s # ss) = seg_size s + sizes ss"
  by (simp_all add: sizes_def)

lemma segOk_size: "segOk s \<Longrightarrow> seg_size s \<ge> 16"
  using spans_nonneg[of "seg_blocks s"] by (simp add: segOk_def)

lemma sizes_nonneg: "segsOk ss \<Longrightarrow> sizes ss \<ge> 0"
  by (induction ss) (auto simp: segsOk_def dest: segOk_size)

lemma u64_small [simp]: "0 \<le> x \<Longrightarrow> x < 18446744073709551616 \<Longrightarrow> u64 x = x"
  by (simp add: u64_def)

subsection \<open>Root enumeration\<close>

lemma foldl_Mark:
  "h_busy h \<Longrightarrow> foldl Mark h ps = h\<lparr>h_first := markWords ps (h_first h)\<rparr>"
  by (induction ps arbitrary: h) (simp_all add: Mark_def markWords_def)

text \<open>A failing enumeration leaves the heap as it was.\<close>

lemma or_marked_and_allocated: "(x OR 2) AND 1 = x AND (1 :: int)"
  by (simp add: bit.conj_disj_distrib2)

lemma clearMarks_markBlocks: "map clearBlock (markBlocks rel off bs) = map clearBlock bs"
  by (induction bs arbitrary: off) (simp_all add: clearBlock_def or_marked_and_allocated)

lemma clearMarks_markSegments: "clearMarks (markSegments p ss) = clearMarks ss"
  by (induction ss) (simp_all add: clearMarks_def clearMarks_markBlocks)

lemma clearMarks_markWords: "clearMarks (markWords ws ss) = clearMarks ss"
  by (induction ws arbitrary: ss) (simp_all add: markWords_def clearMarks_markSegments)

lemma clearMarks_atRest: "atRest ss \<Longrightarrow> clearMarks ss = ss"
proof -
  have b: "clearBlock b = b" if "blk_flags b \<in> {0, 1}" for b using that by (cases b) (auto simp: clearBlock_def)
  have "map clearBlock bs = bs" if "list_all (\<lambda>b. blk_flags b \<in> {0, 1}) bs" for bs
    using that by (intro map_idI b) (simp add: list_all_iff)
  then show "atRest ss \<Longrightarrow> clearMarks ss = ss"
    unfolding clearMarks_def atRest_def by (intro map_idI) (simp add: list_all_iff)
qed

lemma Collect_incomplete:
  assumes "heapOk fixed h" shows "Collect (ps, False) h = (False, [], h)"
  using assms by (auto simp: Collect_def heapOk_def foldl_Mark clearMarks_markWords clearMarks_atRest)

subsection \<open>Tracing, on the abstract store\<close>

lemma atRest_flags: "atRest ss \<Longrightarrow> ij \<in> set (positions ss) \<Longrightarrow> flagAt ss ij \<in> {0, 1}"
  unfolding atRest_def list_all_iff flagAt_def blockAt_def positions_iff by (meson nth_mem)

lemma addrAt_owner:
  assumes "segsOk ss" "ij \<in> set (positions ss)" shows "owner (addrAt ss ij) ss = Some ij"
proof -
  have "(addrAt ss ij, blockAt ss ij) \<in> set (heapCells ss)" using assms(2) heapCells_positions by blast
  then have "blk_span (blockAt ss ij) \<ge> 32" using heapCells_blockOk[OF assms(1)] blockOk_pos by blast
  then show ?thesis using owner_iff[OF assms(1)] assms(2) by simp
qed

lemma addrAt_inj:
  assumes "segsOk ss" "ij \<in> set (positions ss)" "kl \<in> set (positions ss)" "addrAt ss ij = addrAt ss kl"
  shows "ij = kl"
proof -
  have "Some ij = owner (addrAt ss ij) ss" using addrAt_owner[OF assms(1,2)] ..
  also have "\<dots> = Some kl" unfolding assms(4) using assms(1,3) by (rule addrAt_owner)
  finally show ?thesis by simp
qed

lemma objects_position:
  "segsOk ss \<Longrightarrow> objects ss a = Some ws \<longleftrightarrow>
     (\<exists>ij \<in> set (positions ss). isAlloc ss ij \<and> addrAt ss ij = a \<and> wordsAt ss ij = ws)"
  unfolding objects_Some_iff heapCells_positions isAlloc_def flagAt_def wordsAt_def by blast

lemma objects_at:
  assumes "segsOk ss" "ij \<in> set (positions ss)"
  shows "objects ss (addrAt ss ij) = (if isAlloc ss ij then Some (wordsAt ss ij) else None)"
proof (cases "isAlloc ss ij")
  case True
  then show ?thesis using assms objects_position by auto
next
  case False
  have "objects ss (addrAt ss ij) \<noteq> Some ws" for ws
    using False assms addrAt_inj[OF assms(1,2)] objects_position[OF assms(1)] by metis
  then show ?thesis using False by (cases "objects ss (addrAt ss ij)") auto
qed

lemma keeps_owner:
  assumes "segsOk ss"
  shows "keeps (objects ss) p a \<longleftrightarrow> (\<exists>ij. owner p ss = Some ij \<and> isAlloc ss ij \<and> addrAt ss ij = a)"
proof -
  have len: "addrAt ss ij + int (length (wordsAt ss ij)) * 8 = addrAt ss ij - 16 + blk_span (blockAt ss ij)"
    if "ij \<in> set (positions ss)" for ij
  proof -
    have "(addrAt ss ij, blockAt ss ij) \<in> set (heapCells ss)" using that heapCells_positions by blast
    then have "blockOk (blockAt ss ij)" using heapCells_blockOk[OF assms] by blast
    then show ?thesis by (simp add: blockOk_def wordsAt_def)
  qed
  have "keeps (objects ss) p a \<longleftrightarrow> (\<exists>ij \<in> set (positions ss). isAlloc ss ij \<and> addrAt ss ij = a \<and>
      addrAt ss ij \<le> p \<and> p < addrAt ss ij + int (length (wordsAt ss ij)) * 8)"
    unfolding keeps_def objects_position[OF assms] by auto
  also have "\<dots> \<longleftrightarrow> (\<exists>ij \<in> set (positions ss). isAlloc ss ij \<and> addrAt ss ij = a \<and>
      addrAt ss ij \<le> p \<and> p < addrAt ss ij - 16 + blk_span (blockAt ss ij))"
    using len by (intro bex_cong refl) auto
  also have "\<dots> \<longleftrightarrow> (\<exists>ij. owner p ss = Some ij \<and> isAlloc ss ij \<and> addrAt ss ij = a)"
    using owner_iff[OF assms, of p] by blast
  finally show ?thesis .
qed

lemma reaches_mono:
  assumes "reaches ts S ij" and p: "positions ts = positions ss" and o: "\<And>p. owner p ts = owner p ss"
    and "\<And>ij. ij \<in> set (positions ss) \<Longrightarrow> wordsAt ts ij = wordsAt ss ij \<and> isAlloc ts ij = isAlloc ss ij"
  shows "reaches ss S ij"
  using assms(1)
proof (induction rule: reaches.induct)
  case (reaches_start ij)
  then show ?case by (intro reaches.reaches_start) (simp_all add: p)
next
  case (reaches_word ij w kl)
  have "ij \<in> set (positions ss)" "kl \<in> set (positions ss)"
    using reaches_position[OF reaches_word.hyps(1)] owner_position[OF reaches_word.hyps(3)] by (simp_all add: p)
  then show ?case
    using reaches.reaches_word[OF reaches_word.IH, of w kl] reaches_word.hyps assms(4) by (simp add: o)
qed

lemma reaches_evolves:
  assumes ev: "evolves ss ts" shows "reaches ts S ij \<longleftrightarrow> reaches ss S ij"
proof -
  note same = evolves_same[OF ev] and p = evolves_positions[OF ev]
  show ?thesis
    using reaches_mono[of ts S ij ss] reaches_mono[of ss S ij ts] by (auto simp: same p)
qed

lemma reaches_reachable:
  assumes ss: "segsOk ss"
    and S: "\<And>ij. ij \<in> set (positions ss) \<Longrightarrow> S ij \<longleftrightarrow> (\<exists>p \<in> set ps. owner (uint p) ss = Some ij) \<and> isAlloc ss ij"
    and ij: "ij \<in> set (positions ss)"
  shows "reaches ss S ij \<longleftrightarrow> isAlloc ss ij \<and> reachable (objects ss) ps (addrAt ss ij)"
proof
  assume "reaches ss S ij"
  then show "isAlloc ss ij \<and> reachable (objects ss) ps (addrAt ss ij)"
  proof (induction rule: reaches.induct)
    case (reaches_start ij)
    then show ?case using S[of ij] keeps_owner[OF ss] by (blast intro: reachable_root)
  next
    case (reaches_word ij w kl)
    have "objects ss (addrAt ss ij) = Some (wordsAt ss ij)"
      using objects_at[OF ss reaches_position[OF reaches_word.hyps(1)]] reaches_word.IH by simp
    moreover have "keeps (objects ss) (uint w) (addrAt ss kl)"
      using reaches_word.hyps(3,4) keeps_owner[OF ss] by blast
    ultimately show ?case using reaches_word by (blast intro: reachable.reachable_word)
  qed
next
  have "reachable (objects ss) ps a \<Longrightarrow> \<exists>ij. reaches ss S ij \<and> addrAt ss ij = a" for a
  proof (induction rule: reachable.induct)
    case (reachable_root p a)
    then obtain ij where o: "owner (uint p) ss = Some ij" "isAlloc ss ij" "addrAt ss ij = a"
      using keeps_owner[OF ss] by blast
    then have "S ij" using S[of ij] owner_position reachable_root.hyps(1) by blast
    then show ?case using o owner_position by (blast intro: reaches.reaches_start)
  next
    case (reachable_word a ws w c)
    then obtain ij where ij: "reaches ss S ij" "addrAt ss ij = a" by blast
    then have "wordsAt ss ij = ws"
      using objects_at[OF ss reaches_position[OF ij(1)]] reachable_word.hyps(2) by (simp split: if_splits)
    moreover obtain kl where "owner (uint w) ss = Some kl" "isAlloc ss kl" "addrAt ss kl = c"
      using reachable_word.hyps(4) keeps_owner[OF ss] by blast
    ultimately show ?case using ij(1) reachable_word.hyps(3) by (blast intro: reaches.reaches_word)
  qed
  then show "isAlloc ss ij \<and> reachable (objects ss) ps (addrAt ss ij) \<Longrightarrow> reaches ss S ij"
    using addrAt_inj[OF ss _ ij] reaches_position by blast
qed

text \<open>The marks after the tracing of a heap at rest.\<close>

lemma trace_marks:
  fixes ps :: "u64 list"
  assumes ss: "segsOk ss" "atRest ss"
  defines "ts \<equiv> traceLoop (markWords ps ss)"
  shows "evolves ss ts"
    and "ij \<in> set (positions ss) \<Longrightarrow>
      isMarked ts ij \<longleftrightarrow> isAlloc ss ij \<and> reachable (objects ss) ps (addrAt ss ij)"
proof -
  let ?ms = "markWords ps ss"
  have rest: "flagAt ss ij \<in> {0, 1}" if "ij \<in> set (positions ss)" for ij using atRest_flags[OF ss(2) that] .
  then have ok: "flagsOk ss" by (auto simp: flagsOk_def)
  have unm: "\<not> isMarked ss ij" "\<not> isScanned ss ij" if "ij \<in> set (positions ss)" for ij
    using rest[OF that] by (auto simp: flag_kinds)
  have ev: "evolves ss ?ms" using ok by (rule markWords_evolves)
  have p: "positions ?ms = positions ss" by simp
  have ok': "flagsOk ?ms" and sc: "\<forall>ij \<in> set (positions ?ms). \<not> isScanned ?ms ij"
    using ev unm by (simp_all add: evolves_def isScanned_markWords)
  note T = traceLoop_correct[OF ok' sc, folded ts_def]
  show "evolves ss ts" using ev T(1) by (rule evolves_trans)
  show "isMarked ts ij \<longleftrightarrow> isAlloc ss ij \<and> reachable (objects ss) ps (addrAt ss ij)"
    if ij: "ij \<in> set (positions ss)"
  proof -
    have "isMarked ?ms kl \<longleftrightarrow> (\<exists>p \<in> set ps. owner (uint p) ss = Some kl) \<and> isAlloc ss kl"
      if "kl \<in> set (positions ss)" for kl
      using isMarked_markWords[OF ok that] unm(1)[OF that] by simp
    from reaches_reachable[OF ss(1) this ij] show ?thesis
      using T(2) ij reaches_evolves[OF ev] by simp
  qed
qed

subsection \<open>Sweeping\<close>

definition freeSpan :: "block option \<Rightarrow> int" where
  "freeSpan free = (case free of None \<Rightarrow> 0 | Some f \<Rightarrow> blk_span f)"

definition freeOk :: "block option \<Rightarrow> bool" where
  "freeOk free \<longleftrightarrow> (\<forall>f. free = Some f \<longrightarrow> blockOk f \<and> blk_flags f = 0)"

lemma freeSpan_simps [simp]: "freeSpan None = 0" "freeSpan (Some f) = blk_span f"
  by (simp_all add: freeSpan_def)

lemma freeOk_simps [simp]: "freeOk None" "freeOk (Some f) \<longleftrightarrow> blockOk f \<and> blk_flags f = 0"
  by (simp_all add: freeOk_def)

lemma absorb_ok:
  "blockOk f \<Longrightarrow> blockOk b \<Longrightarrow> blockOk (absorb f b)"
  "blk_span (absorb f b) = blk_span f + blk_span b" "blk_flags (absorb f b) = blk_flags f"
  by (auto simp: blockOk_def absorb_def mod_add_eq[symmetric, of "blk_span f"])

lemma blockOk_flags [simp]: "blockOk (b\<lparr>blk_flags := f\<rparr>) \<longleftrightarrow> blockOk b"
  by (simp add: blockOk_def)

text \<open>The swept segment is tiled by well-formed blocks again, free ones or allocated ones.\<close>

lemma sweepBlocks_ok:
  assumes "list_all blockOk bs" "freeOk free"
  shows "spans (fst (sweepBlocks free bs)) = freeSpan free + spans bs \<and>
    list_all blockOk (fst (sweepBlocks free bs)) \<and>
    list_all (\<lambda>b. blk_flags b \<in> {0, 1}) (fst (sweepBlocks free bs))"
  using assms
proof (induction free bs rule: sweepBlocks.induct)
  case (1 free)
  then show ?case by (cases free) auto
next
  case (2 free b bs)
  show ?case
  proof (cases "blk_flags b AND marked \<noteq> 0")
    case True
    then show ?thesis using 2(1)[OF True] 2(4,5) by (cases free) (auto split: prod.splits)
  next
    case False
    then show ?thesis using 2(2,3)[OF False] 2(4,5) by (cases free) (auto simp: absorb_ok)
  qed
qed

lemma sweepBlocks_live: "snd (sweepBlocks free bs) \<longleftrightarrow> (\<exists>b \<in> set bs. blk_flags b AND marked \<noteq> 0)"
  by (induction free bs rule: sweepBlocks.induct) (auto split: option.splits prod.splits)

text \<open>No two free blocks are adjacent after a sweep.\<close>

lemma sweepBlocks_coalesced:
  "freeOk free \<Longrightarrow> list_all blockOk bs \<Longrightarrow>
     successively (\<lambda>b c. blk_flags b \<noteq> 0 \<or> blk_flags c \<noteq> 0) (fst (sweepBlocks free bs)) \<and>
     (free = None \<and> bs \<noteq> [] \<and> blk_flags (hd bs) AND marked \<noteq> 0 \<longrightarrow> blk_flags (hd (fst (sweepBlocks free bs))) \<noteq> 0)"
proof (induction free bs rule: sweepBlocks.induct)
  case (1 free)
  then show ?case by (cases free) auto
next
  case (2 free b bs)
  show ?case
  proof (cases "blk_flags b AND marked \<noteq> 0")
    case True
    then show ?thesis
      using 2(1)[OF True] 2(4,5) by (cases free) (auto simp: successively_Cons split: prod.splits)
  next
    case False
    then show ?thesis using 2(2,3)[OF False] 2(4,5) by (cases free) (auto simp: absorb_ok)
  qed
qed

text \<open>The objects of the swept segment are the marked ones, in place and with their contents.\<close>

definition markedList :: "(int \<times> block) list \<Rightarrow> (int \<times> u64 list) list" where
  "markedList xs = map (apsnd blk_words) (filter (\<lambda>x. blk_flags (snd x) AND marked \<noteq> 0) xs)"

lemma markedList_simps [simp]:
  "markedList [] = []" "markedList (xs @ ys) = markedList xs @ markedList ys"
  "markedList ((a, b) # xs) = (if blk_flags b AND marked \<noteq> 0 then (a, blk_words b) # markedList xs else markedList xs)"
  by (simp_all add: markedList_def)

lemma markedList_iff:
  "(a, ws) \<in> set (markedList xs) \<longleftrightarrow> (\<exists>b. (a, b) \<in> set xs \<and> blk_flags b AND marked \<noteq> 0 \<and> blk_words b = ws)"
  by (auto simp: markedList_def image_iff)

lemma sweepBlocks_objects:
  "freeOk free \<Longrightarrow> list_all blockOk bs \<Longrightarrow>
     objectList (cells addr (fst (sweepBlocks free bs))) = markedList (cells (addr + freeSpan free) bs)"
proof (induction free bs arbitrary: addr rule: sweepBlocks.induct)
  case (1 free)
  then show ?case by (cases free) auto
next
  case (2 free b bs)
  show ?case
  proof (cases "blk_flags b AND marked \<noteq> 0")
    case True
    then show ?thesis
      using 2(1)[OF True] 2(4,5) by (cases free) (auto simp: add.assoc split: prod.splits)
  next
    case False
    then show ?thesis using 2(2,3)[OF False] 2(4,5) by (cases free) (auto simp: absorb_ok add.assoc)
  qed
qed

definition liveSeg :: "segment \<Rightarrow> bool" where
  "liveSeg s = snd (sweepBlocks None (seg_blocks s))"

definition sweptSeg :: "segment \<Rightarrow> segment" where
  "sweptSeg s = s\<lparr>seg_blocks := fst (sweepBlocks None (seg_blocks s))\<rparr>"

lemma sweepSegments_eq:
  "segsOk ss \<Longrightarrow> sizes ss \<le> r \<Longrightarrow> r < 2 ^ 64 \<Longrightarrow>
     sweepSegments r ss = (map sweptSeg (filter liveSeg ss),
       map (\<lambda>s. (seg_base s, seg_size s)) (filter (Not \<circ> liveSeg) ss), r - sizes (filter (Not \<circ> liveSeg) ss))"
proof (induction ss arbitrary: r)
  case (Cons s ss)
  have ss: "segsOk ss" and s: "seg_size s \<ge> 16" using Cons.prems(1) by (simp_all add: segsOk_def segOk_size)
  then have "sizes ss \<ge> 0" by (simp add: sizes_nonneg)
  then show ?case
    using Cons.IH[OF ss, of r] Cons.IH[OF ss, of "r - seg_size s"] Cons.prems s
    by (simp add: liveSeg_def sweptSeg_def split: prod.splits)
qed simp

subsection \<open>A collection\<close>

lemma sweptSeg_ok: "segOk s \<Longrightarrow> segOk (sweptSeg s)"
  using sweepBlocks_ok[of "seg_blocks s" None] by (simp add: segOk_def sweptSeg_def)

lemma sweptSeg_objects: "segOk s \<Longrightarrow> objectList (segCells (sweptSeg s)) = markedList (segCells s)"
  using sweepBlocks_objects[of None "seg_blocks s" "seg_base s + 16"]
  by (simp add: segOk_def sweptSeg_def segCells_def)

lemma cells_snd: "snd ` set (cells addr bs) = set bs"
  by (induction bs arbitrary: addr) auto

lemma dead_unmarked: "\<not> liveSeg s \<Longrightarrow> markedList (segCells s) = []"
proof -
  assume "\<not> liveSeg s"
  then have "\<forall>b \<in> set (seg_blocks s). blk_flags b AND marked = 0" by (simp add: liveSeg_def sweepBlocks_live)
  then have "\<forall>x \<in> set (segCells s). blk_flags (snd x) AND marked = 0"
    unfolding segCells_def using cells_snd by blast
  then show ?thesis by (simp add: markedList_def filter_empty_conv)
qed

lemma kept_objects:
  "segsOk ss \<Longrightarrow> objectList (heapCells (map sweptSeg (filter liveSeg ss))) = markedList (heapCells ss)"
  by (induction ss) (auto simp: segsOk_def sweptSeg_objects dead_unmarked)

lemma apart_swept: "apart (sweptSeg s) (sweptSeg t) = apart s t"
  by (simp add: apart_def sweptSeg_def)

lemma kept_segsOk: "segsOk ss \<Longrightarrow> segsOk (map sweptSeg (filter liveSeg ss))"
  unfolding segsOk_def sorted_wrt_map apart_swept
  by (auto simp: list_all_iff sweptSeg_ok intro: sorted_wrt_filter)

lemma kept_atRest: "segsOk ss \<Longrightarrow> atRest (map sweptSeg (filter liveSeg ss))"
  using sweepBlocks_ok[of _ None] by (auto simp: segsOk_def atRest_def list_all_iff sweptSeg_def segOk_def)

lemma sizes_filter: "sizes (filter P ss) + sizes (filter (Not \<circ> P) ss) = sizes ss"
  by (induction ss) auto

lemma sizes_swept: "sizes (map sweptSeg ss) = sizes ss"
  by (induction ss) (simp_all add: sweptSeg_def)

text \<open>Well-formedness depends on the shape only.\<close>

lemma blockOk_shape:
  "map (\<lambda>b. (blk_span b, blk_words b)) bs = map (\<lambda>b. (blk_span b, blk_words b)) cs \<Longrightarrow>
     list_all blockOk bs = list_all blockOk cs \<and> spans bs = spans cs"
proof (induction bs arbitrary: cs)
  case (Cons b bs)
  obtain c ds where cs: "cs = c # ds" using Cons.prems by (cases cs) simp_all
  have bc: "blk_span b = blk_span c" "blk_words b = blk_words c" using Cons.prems by (simp_all add: cs)
  have "list_all blockOk bs = list_all blockOk ds \<and> spans bs = spans ds"
    using Cons.prems by (intro Cons.IH) (simp add: cs)
  moreover have "blockOk b = blockOk c" by (simp add: blockOk_def bc)
  ultimately show ?case using bc by (simp add: cs)
qed simp

lemma segsOk_shape:
  "shape ss = shape ts \<Longrightarrow> segsOk ss \<Longrightarrow> segsOk ts \<and> sizes ts = sizes ss"
proof (induction ss arbitrary: ts)
  case Nil
  then show ?case by (simp add: shape_def)
next
  case (Cons s ss)
  obtain t us where ts: "ts = t # us" using Cons.prems(1) by (cases ts) (simp_all add: shape_def)
  have sh: "shape ss = shape us" and st: "seg_base s = seg_base t" "seg_size s = seg_size t"
      "map (\<lambda>b. (blk_span b, blk_words b)) (seg_blocks s) = map (\<lambda>b. (blk_span b, blk_words b)) (seg_blocks t)"
    using Cons.prems(1) by (simp_all add: ts shape_def)
  have us: "segsOk us \<and> sizes us = sizes ss" using Cons.IH[OF sh] Cons.prems(2) by (simp add: segsOk_def)
  have "segOk t" using Cons.prems(2) st blockOk_shape[OF st(3)] by (simp add: segsOk_def segOk_def)
  moreover have "\<forall>u \<in> set us. apart t u"
  proof
    fix u assume "u \<in> set us"
    then obtain i where i: "i < length us" "u = us ! i" by (auto simp: in_set_conv_nth)
    have "apart s (ss ! i)" using Cons.prems(2) i shape_length[OF sh] by (simp add: segsOk_def)
    then show "apart t u" using shape_nth(1,2)[OF sh, of i] i shape_length[OF sh] st by (simp add: apart_def)
  qed
  ultimately show ?case using us st by (simp add: ts segsOk_def)
qed

lemma addrAt_shape:
  assumes "shape ts = shape ss" "ij \<in> set (positions ss)" shows "addrAt ts ij = addrAt ss ij"
proof -
  have i: "fst ij < length ts" using assms(2) shape_length[OF assms(1)] by (simp add: positions_iff)
  note S = shape_nth[OF assms(1) i]
  have sp: "map blk_span (seg_blocks (ts ! fst ij)) = map blk_span (seg_blocks (ss ! fst ij))"
    using arg_cong[where f = "map fst", OF S(3)] by (simp add: comp_def)
  then show ?thesis by (simp add: addrAt_def spans_def S(1) flip: take_map) 
qed

lemma option_eqI: "(\<And>w. x = Some w \<longleftrightarrow> y = Some w) \<Longrightarrow> x = y"
  by (cases x; cases y) auto

text \<open>The store after a sweep of a traced heap.\<close>

lemma swept_objects:
  assumes ss: "segsOk ss" and ev: "evolves ss ts"
    and mk: "\<And>ij. ij \<in> set (positions ss) \<Longrightarrow> isMarked ts ij \<longleftrightarrow> isAlloc ss ij \<and> R (addrAt ss ij)"
  shows "objects (map sweptSeg (filter liveSeg ts)) = objects ss |` {a. R a}"
proof (rule ext)
  fix a
  have sh: "shape ts = shape ss" using ev by (simp add: evolves_def)
  then have ts: "segsOk ts" using segsOk_shape[OF sh[symmetric] ss] by simp
  let ?kept = "map sweptSeg (filter liveSeg ts)"
  note k = kept_segsOk[OF ts]
  have "distinct (map fst (objectList (heapCells ?kept)))"
    unfolding objectList_fst using heapCells_distinct[OF k] by (simp add: distinct_map_filter)
  then have "objects ?kept a = Some ws \<longleftrightarrow> (a, ws) \<in> set (markedList (heapCells ts))" for ws
    unfolding objects_def kept_objects[OF ts] by (rule map_of_eq_Some_iff)
  also have "\<dots> ws \<longleftrightarrow> (\<exists>ij \<in> set (positions ts). isMarked ts ij \<and> addrAt ts ij = a \<and> wordsAt ts ij = ws)" for ws
    unfolding markedList_iff heapCells_positions isMarked_def flagAt_def wordsAt_def by blast
  also have "\<dots> ws \<longleftrightarrow> (\<exists>ij \<in> set (positions ss). isAlloc ss ij \<and> R (addrAt ss ij) \<and> addrAt ss ij = a \<and> wordsAt ss ij = ws)" for ws
    unfolding evolves_positions[OF ev] using mk addrAt_shape[OF sh] evolves_same(2)[OF ev] by auto
  also have "\<dots> ws \<longleftrightarrow> objects ss a = Some ws \<and> R a" for ws
    unfolding objects_position[OF ss] by blast
  finally have *: "objects ?kept a = Some ws \<longleftrightarrow> objects ss a = Some ws \<and> R a" for ws .
  show "objects ?kept a = (objects ss |` {a. R a}) a"
    by (rule option_eqI, unfold *) (auto simp: restrict_map_def)
qed

text \<open>Every segment that is kept holds an object; the others are released.\<close>

lemma kept_segment_used:
  assumes ss: "segsOk ss" and s: "s \<in> set (map sweptSeg (filter liveSeg ss))"
  shows "\<exists>a ws. objects (map sweptSeg (filter liveSeg ss)) a = Some ws \<and> seg_base s \<le> a \<and> a < seg_base s + seg_size s"
proof -
  obtain t where t: "t \<in> set ss" "liveSeg t" "s = sweptSeg t" using s by auto
  have "segOk t" using ss t(1) by (simp add: segsOk_def list_all_iff)
  obtain b where b: "b \<in> set (seg_blocks t)" "blk_flags b AND marked \<noteq> 0"
    using t(2) by (auto simp: liveSeg_def sweepBlocks_live)
  then obtain a where "(a, b) \<in> set (segCells t)" unfolding segCells_def using cells_snd by (metis imageE prod.collapse)
  then have "(a, blk_words b) \<in> set (objectList (segCells s))"
    using b(2) by (auto simp: t(3) sweptSeg_objects[OF \<open>segOk t\<close>] markedList_iff)
  then obtain c where c: "(a, c) \<in> set (segCells s)" "blk_flags c AND allocated \<noteq> 0"
    by (auto simp: objectList_def)
  have "(a, c) \<in> set (heapCells (map sweptSeg (filter liveSeg ss)))" using c(1) s by (auto simp: heapCells_def)
  then have "objects (map sweptSeg (filter liveSeg ss)) a = Some (blk_words c)"
    using objects_Some_iff[OF kept_segsOk[OF ss]] c(2) by blast
  moreover have "seg_base s \<le> a \<and> a < seg_base s + seg_size s"
    using segCells_range[OF sweptSeg_ok[OF \<open>segOk t\<close>], of a c] c(1) blockOk_pos[of c] by (auto simp: t(3))
  ultimately show ?thesis by blast
qed

lemma Collect_ok:
  assumes ok: "heapOk fixed h" and ready: "h_ready h"
    and run: "Collect (ps, True) h = (done, released, h')"
  shows "done" "heapOk fixed h'"
    "objects (h_first h') = objects (h_first h) |` {a. reachable (objects (h_first h)) ps a}"
    "h_reserved h' = h_reserved h - sum_list (map snd released)"
    "h_granule h' = h_granule h" "h_ready h'"
    "\<forall>s \<in> set (h_first h'). \<exists>a ws. objects (h_first h') a = Some ws \<and> seg_base s \<le> a \<and> a < seg_base s + seg_size s"
proof -
  have ss: "segsOk (h_first h)" "atRest (h_first h)" and busy: "\<not> h_busy h"
    and res: "h_reserved h = fixed + sizes (h_first h)" "h_reserved h < 2 ^ 64" "fixed \<ge> 0"
    using ok ready by (auto simp: heapOk_def)
  define ts where "ts = traceLoop (markWords ps (h_first h))"
  note T = trace_marks[OF ss, where ps = ps, folded ts_def]
  have "segsOk ts \<and> sizes ts = sizes (h_first h)"
    using T(1) ss(1) by (intro segsOk_shape[of "h_first h"]) (simp_all add: evolves_def)
  then have ts: "segsOk ts" and sz: "sizes ts = sizes (h_first h)" by simp_all
  have "sizes ts \<le> h_reserved h" using res sz by simp
  note W = sweepSegments_eq[OF ts this res(2)]
  have h': "done" "released = map (\<lambda>s. (seg_base s, seg_size s)) (filter (Not \<circ> liveSeg) ts)"
    "h' = h\<lparr>h_first := map sweptSeg (filter liveSeg ts), h_reserved := h_reserved h - sizes (filter (Not \<circ> liveSeg) ts)\<rparr>"
    using run busy ready by (auto simp: Collect_def foldl_Mark W ts_def[symmetric])
  show "done" by (rule h'(1))
  show "h_granule h' = h_granule h" "h_ready h'" using ready by (simp_all add: h'(3))
  show "\<forall>s \<in> set (h_first h'). \<exists>a ws. objects (h_first h') a = Some ws \<and> seg_base s \<le> a \<and> a < seg_base s + seg_size s"
    using kept_segment_used[OF ts] by (simp add: h'(3))
  show "h_reserved h' = h_reserved h - sum_list (map snd released)"
    by (simp add: h'(2,3) sizes_def comp_def)
  show "objects (h_first h') = objects (h_first h) |` {a. reachable (objects (h_first h)) ps a}"
    using swept_objects[OF ss(1) T(1), of "reachable (objects (h_first h)) ps"] T(2) by (simp add: h'(3))
  have "sizes (filter (Not \<circ> liveSeg) ts) \<ge> 0"
    using ts by (intro sizes_nonneg) (auto simp: segsOk_def list_all_iff intro: sorted_wrt_filter)
  then show "heapOk fixed h'"
    using ok ready kept_segsOk[OF ts] kept_atRest[OF ts] sizes_filter[of liveSeg ts] res sz
    by (auto simp: heapOk_def h'(3) sizes_swept)
qed

lemma heapClose_ok: "heapOk fixed h \<Longrightarrow> heapOk fixed (snd (heapClose h)) \<and> snd (heapClose h) = emptyHeap"
  by (auto simp: heapClose_def heapOk_def emptyHeap_def)

end
