(* ===== verification/MHeap_Alloc.thy ===== *)
theory MHeap_Alloc
  imports MHeap_Collect
begin

text \<open>
  \<open>Alloc\<close> of \<open>internal/managedheap/heap.go\<close>: reuse, collection and retry, bounded growth.  The
  provider of storage is the parameter \<open>acquire\<close>, the addresses \<open>Memory.Acquire\<close> answers during the
  call; \<open>supplies\<close> is its documented contract.  The lemmas show that an allocation adds one fresh
  zeroed object to the abstract store, and what the store loses if a collection ran.
\<close>

subsection \<open>Operations\<close>

definition newSegment :: "int \<Rightarrow> int \<Rightarrow> segment" where
  "newSegment base growth = \<lparr>seg_base = base, seg_size = growth,
     seg_blocks = [\<lparr>blk_span = u64 (growth - segmentSize), blk_flags = 0,
       blk_words = zeroWords (u64 (growth - segmentSize))\<rparr>]\<rparr>"

text \<open>\<open>growth\<close> and \<open>base\<close> after the one or two calls of \<open>Acquire\<close>.\<close>

definition acquireSegment :: "(int \<Rightarrow> int option) \<Rightarrow> int \<Rightarrow> int \<Rightarrow> int \<times> int option" where
  "acquireSegment acquire growth minimum =
     (let base = acquire growth in
      if base = None \<and> growth \<noteq> minimum then (minimum, acquire minimum) else (growth, base))"

definition heapGrow :: "(int \<Rightarrow> int option) \<Rightarrow> Heap \<Rightarrow> int \<Rightarrow> int option \<times> Heap" where
  "heapGrow acquire h span =
     (if span > maxUintptr - segmentSize - (h_granule h - 1) then (None, h)
      else
        let minimum = alignDown (span + segmentSize + h_granule h - 1) (h_granule h);
            available = alignDown (u64 (h_limit h - h_reserved h)) (h_granule h)
        in if minimum > available then (None, h)
           else
             let growth = (if h_nextSize h < minimum then minimum else h_nextSize h);
                 growth = (if growth > available then available else growth)
             in case acquireSegment acquire growth minimum of
                  (growth, None) \<Rightarrow> (None, h)
                | (growth, Some base) \<Rightarrow>
                    heapTake (h\<lparr>h_first := newSegment base growth # h_first h,
                      h_reserved := u64 (h_reserved h + growth),
                      h_nextSize := (if growth \<le> maxUintptr div 2 then growth * 2 else growth)\<rparr>) span)"

definition spanOf :: "int \<Rightarrow> int" where
  "spanOf sz = alignDown (sz + alignment - 1) alignment + blockSize"

definition Alloc :: "(int \<Rightarrow> int option) \<Rightarrow> rootAnswer \<Rightarrow> Heap \<Rightarrow> int \<Rightarrow> int option \<times> (int \<times> int) list \<times> Heap" where
  "Alloc acquire roots h sz =
     (if \<not> h_ready h \<or> h_busy h then (None, [], h)
      else
        let sz = (if sz = 0 then alignment else sz) in
        if sz > maxUintptr - (alignment - 1) - blockSize then (None, [], h)
        else
          let span = spanOf sz in
          case heapTake h span of
            (Some p, h) \<Rightarrow> (Some p, [], h)
          | (None, h) \<Rightarrow>
              if h_first h \<noteq> [] then
                (case Collect roots h of (done, released, h) \<Rightarrow>
                   if \<not> done then (None, released, h)
                   else
                     case heapTake h span of
                       (Some p, h) \<Rightarrow> (Some p, released, h)
                     | (None, h) \<Rightarrow> (case heapGrow acquire h span of (p, h) \<Rightarrow> (p, released, h)))
              else (case heapGrow acquire h span of (p, h) \<Rightarrow> (p, [], h)))"

text \<open>What \<open>Acquire\<close> promises: storage aligned to the granule and apart from all that it supplied
  before.\<close>

definition supplies :: "(int \<Rightarrow> int option) \<Rightarrow> Heap \<Rightarrow> bool" where
  "supplies acquire h \<longleftrightarrow> (\<forall>sz base. acquire sz = Some base \<longrightarrow>
     0 < base \<and> base mod h_granule h = 0 \<and> base + sz \<le> 2 ^ 64 \<and>
     (\<forall>s \<in> set (h_first h). base + sz \<le> seg_base s \<or> seg_base s + seg_size s \<le> base))"

subsection \<open>Powers of two\<close>

lemma pow2_nat: "(g :: nat) > 0 \<Longrightarrow> int g AND (int g - 1) = 0 \<Longrightarrow> \<exists>k. g = 2 ^ k"
proof (induction g rule: less_induct)
  case (less g)
  show ?case
  proof (cases "even g")
    case True
    then obtain h where h: "g = 2 * h" by blast
    have half: "(2 * int h - 1) div 2 = int h - 1" by presburger
    have "int g AND (int g - 1) = 2 * (int h AND (int h - 1))"
      by (subst and_int_rec) (simp add: h half)
    then obtain k where "h = 2 ^ k" using less.IH[of h] less.prems h by auto
    then have "g = 2 ^ Suc k" by (simp add: h)
    then show ?thesis by blast
  next
    case False
    then obtain h where h: "g = 2 * h + 1" by (auto elim: oddE)
    have "int g AND (int g - 1) = 2 * int h" by (subst and_int_rec) (simp add: h)
    then have "g = 2 ^ 0" using less.prems h by simp
    then show ?thesis by blast
  qed
qed

lemma pow2_int:
  assumes "0 < g" "g AND (g - 1) = (0 :: int)" obtains k where "g = 2 ^ k"
proof -
  have "\<exists>k. nat g = 2 ^ k" using assms by (intro pow2_nat) simp_all
  then obtain k where "nat g = 2 ^ k" ..
  then have "int (nat g) = 2 ^ k" by simp
  then show ?thesis using that assms(1) by simp
qed

lemma alignDown_pow2: "alignDown x (2 ^ k) = x - x mod 2 ^ k"
  using and_not_mask[of x k]
  by (simp add: alignDown_def mask_eq_exp_minus_1 push_bit_eq_mult drop_bit_eq_div minus_mod_eq_div_mult)

lemma alignDown_bounds:
  assumes "0 < g" "g AND (g - 1) = 0"
  shows "alignDown x g \<le> x" "x < alignDown x g + g" "alignDown x g mod g = 0"
proof -
  obtain k where g: "g = 2 ^ k" using assms by (rule pow2_int)
  have x: "0 \<le> x mod 2 ^ k" "x mod 2 ^ k < 2 ^ k" by simp_all
  then show "alignDown x g \<le> x" "x < alignDown x g + g" unfolding g alignDown_pow2 by linarith+
  show "alignDown x g mod g = 0" unfolding g alignDown_pow2 by (simp add: minus_mod_eq_mult_div)
qed

subsection \<open>First fit on the abstract store\<close>

lemma zeroWords_ok: "span \<ge> 32 \<Longrightarrow> span mod 16 = 0 \<Longrightarrow> int (length (zeroWords span)) * 8 = span - 16"
proof -
  assume a: "span \<ge> 32" "span mod 16 = 0"
  then have "(span - 16) div 8 * 8 = span - 16" by presburger
  then show ?thesis using a by (simp add: zeroWords_def)
qed

lemma zero_block_ok:
  "span \<ge> 32 \<Longrightarrow> span mod 16 = 0 \<Longrightarrow> blockOk \<lparr>blk_span = span, blk_flags = f, blk_words = zeroWords span\<rparr>"
  by (simp add: blockOk_def zeroWords_ok)

lemma split_rest_ok:
  assumes "blockOk b" "span \<ge> 32" "span mod 16 = 0" "blk_span b - span \<ge> 32"
  shows "blockOk \<lparr>blk_span = blk_span b - span, blk_flags = f, blk_words = drop (nat (span div 8)) (blk_words b)\<rparr>"
proof -
  have "span div 8 * 8 = span" using assms(3) by presburger
  then have "int (nat (span div 8)) * 8 = span" using assms(2) by simp
  then show ?thesis using assms by (simp add: blockOk_def of_nat_diff mod_diff_eq[symmetric] algebra_simps) presburger
qed

text \<open>What a successful first fit does to the blocks of a segment: one free block is replaced by a
  zeroed allocated block of at least the wanted span, and a free rest.\<close>

definition fits :: "int \<Rightarrow> int \<Rightarrow> block list \<Rightarrow> block list \<Rightarrow> int \<Rightarrow> bool" where
  "fits span addr bs bs' p \<longleftrightarrow> (\<exists>xs b c ys rest. bs = xs @ b # ys \<and> bs' = xs @ c # rest @ ys \<and> p = addr + spans xs + 16 \<and>
     blk_flags b = 0 \<and> blockOk c \<and> span \<le> blk_span c \<and> blk_span c < span + 32 \<and> blk_flags c = 1 \<and>
     blk_words c = zeroWords (blk_span c) \<and> blk_span c + spans rest = blk_span b \<and>
     list_all blockOk rest \<and> (\<forall>r \<in> set rest. blk_flags r = 0))"

lemma takeBlocks_fits:
  assumes "list_all blockOk bs" "span \<ge> 32" "span mod 16 = 0" "takeBlocks span addr bs = Some (p, bs')"
  shows "fits span addr bs bs' p"
  using assms(1,4)
proof (induction bs arbitrary: addr bs')
  case (Cons b bs)
  show ?case
  proof (cases "blk_flags b = 0 \<and> blk_span b \<ge> span")
    case True
    note b = Cons.prems(1)[simplified]
    show ?thesis
    proof (cases "blk_span b - span \<ge> 32")
      case split: True
      then show ?thesis
        using True Cons.prems assms(2,3) zero_block_ok[OF assms(2,3)] split_rest_ok[of b span]
        unfolding fits_def
        by (intro exI[of _ "[]"] exI[of _ b] exI[of _ bs] exI[of _ "\<lparr>blk_span = span, blk_flags = 1, blk_words = zeroWords span\<rparr>"]
            exI[of _ "[\<lparr>blk_span = blk_span b - span, blk_flags = 0, blk_words = drop (nat (span div 8)) (blk_words b)\<rparr>]"]) auto
    next
      case False
      have "blockOk (b\<lparr>blk_flags := 1, blk_words := zeroWords (blk_span b)\<rparr>)"
        using b by (auto simp: blockOk_def zeroWords_ok)
      then show ?thesis
        using True False Cons.prems unfolding fits_def
        by (intro exI[of _ "[]"] exI[of _ b] exI[of _ bs]
            exI[of _ "b\<lparr>blk_flags := 1, blk_words := zeroWords (blk_span b)\<rparr>"]) auto
    qed
  next
    case False
    then obtain cs where cs: "takeBlocks span (addr + blk_span b) bs = Some (p, cs)" "bs' = b # cs"
      using Cons.prems(2) by auto
    then have "fits span (addr + blk_span b) bs cs p" using Cons by simp
    then obtain xs b' c ys rest where F: "bs = xs @ b' # ys" "cs = xs @ c # rest @ ys"
      "p = addr + blk_span b + spans xs + 16"
      "blk_flags b' = 0 \<and> blockOk c \<and> span \<le> blk_span c \<and> blk_span c < span + 32 \<and> blk_flags c = 1 \<and>
       blk_words c = zeroWords (blk_span c) \<and> blk_span c + spans rest = blk_span b' \<and>
       list_all blockOk rest \<and> (\<forall>r \<in> set rest. blk_flags r = 0)"
      unfolding fits_def by blast
    show ?thesis
      unfolding fits_def
      by (rule exI[of _ "b # xs"], rule exI[of _ b'], rule exI[of _ c], rule exI[of _ ys], rule exI[of _ rest])
        (use F cs(2) in simp)
  qed
qed simp

lemma takeBlocks_None:
  "takeBlocks span addr bs = None \<longleftrightarrow> (\<forall>b \<in> set bs. blk_flags b = 0 \<longrightarrow> blk_span b < span)"
  by (induction bs arbitrary: addr) auto

lemma objectList_free: "\<forall>b \<in> set bs. blk_flags b = 0 \<Longrightarrow> objectList (cells addr bs) = []"
  by (induction bs arbitrary: addr) auto

text \<open>One zeroed object at \<open>p\<close>, large enough for \<open>span\<close>, is added to a list of objects.\<close>

definition adds :: "int \<Rightarrow> int \<Rightarrow> (int \<times> u64 list) list \<Rightarrow> (int \<times> u64 list) list \<Rightarrow> bool" where
  "adds span p xs ys \<longleftrightarrow> (\<exists>us vs n. xs = us @ vs \<and> ys = us @ (p, replicate n 0) # vs \<and>
     span - 16 \<le> int n * 8 \<and> int n * 8 < span + 16)"

lemma adds_left: "adds span p xs ys \<Longrightarrow> adds span p (zs @ xs) (zs @ ys)"
  unfolding adds_def by (metis append_assoc)

lemma adds_right: "adds span p xs ys \<Longrightarrow> adds span p (xs @ zs) (ys @ zs)"
  unfolding adds_def by (metis append_assoc append_Cons)

lemma fits_ok:
  assumes "fits span addr bs bs' p" "list_all blockOk bs" "list_all (\<lambda>b. blk_flags b \<in> {0, 1}) bs"
  shows "list_all blockOk bs'" "list_all (\<lambda>b. blk_flags b \<in> {0, 1}) bs'" "spans bs' = spans bs"
    "adds span p (objectList (cells addr bs)) (objectList (cells addr bs'))"
proof -
  obtain xs b c ys rest where F: "bs = xs @ b # ys" "bs' = xs @ c # rest @ ys" "p = addr + spans xs + 16"
      "blk_flags b = 0" "blockOk c" "span \<le> blk_span c" "blk_span c < span + 32" "blk_flags c = 1"
      "blk_words c = zeroWords (blk_span c)" "blk_span c + spans rest = blk_span b"
      "list_all blockOk rest" "\<forall>r \<in> set rest. blk_flags r = 0"
    using assms(1) unfolding fits_def by blast
  show "list_all blockOk bs'" "list_all (\<lambda>b. blk_flags b \<in> {0, 1}) bs'" "spans bs' = spans bs"
    using assms(2,3) F by (auto simp: list_all_iff)
  have e: "addr + spans xs + blk_span c + spans rest = addr + spans xs + blk_span b" using F(10) by simp
  have "int (length (zeroWords (blk_span c))) * 8 = blk_span c - 16"
    using F(5) F(9) by (simp add: blockOk_def)
  then show "adds span p (objectList (cells addr bs)) (objectList (cells addr bs'))"
    unfolding adds_def using F(6,7)
    by (intro exI[of _ "objectList (cells addr xs)"] exI[of _ "objectList (cells (addr + spans xs + blk_span b) ys)"]
        exI[of _ "length (zeroWords (blk_span c))"])
      (simp add: F(1-4,8,9) cells_append objectList_free[OF F(12)] e, simp add: zeroWords_def)
qed

lemma cells_aligned:
  "list_all blockOk bs \<Longrightarrow> addr mod 16 = 0 \<Longrightarrow> (a, b) \<in> set (cells addr bs) \<Longrightarrow> a mod 16 = 0"
proof (induction bs arbitrary: addr)
  case (Cons c bs)
  have "(addr + blk_span c) mod 16 = 0" using Cons.prems(1,2) by (auto simp: blockOk_def mod_add_eq[symmetric, of addr])
  then show ?case
    using Cons.IH[of "addr + blk_span c"] Cons.prems by (simp del: dvd_imp_mod_0, elim disjE) (simp_all add: mod_add_eq[symmetric, of addr])
qed simp

lemma heapCells_aligned: "segsOk ss \<Longrightarrow> (a, b) \<in> set (heapCells ss) \<Longrightarrow> a mod 16 = 0"
proof -
  assume ss: "segsOk ss" and "(a, b) \<in> set (heapCells ss)"
  then obtain s where s: "s \<in> set ss" "(a, b) \<in> set (segCells s)" by (auto simp: heapCells_def)
  then have "segOk s" using ss by (simp add: segsOk_def list_all_iff)
  then show ?thesis using s(2) cells_aligned[of "seg_blocks s" "seg_base s + 16" a b]
    by (auto simp: segCells_def segOk_def mod_add_eq[symmetric, of "seg_base s"])
qed

text \<open>The same for the list of segments.\<close>

lemma takeSegments_ok:
  assumes "segsOk ss" "atRest ss" "span \<ge> 32" "span mod 16 = 0" "takeSegments span ss = Some (p, ss')"
  shows "list_all2 (\<lambda>s t. seg_base s = seg_base t \<and> seg_size s = seg_size t) ss ss' \<and>
    list_all segOk ss' \<and> atRest ss' \<and> adds span p (objectList (heapCells ss)) (objectList (heapCells ss'))"
  using assms(1,2,5)
proof (induction ss arbitrary: ss')
  case (Cons s ss)
  have s: "segOk s" "list_all (\<lambda>b. blk_flags b \<in> {0, 1}) (seg_blocks s)" and ss: "segsOk ss" "atRest ss"
    using Cons.prems(1,2) by (simp_all add: segsOk_def atRest_def)
  show ?case
  proof (cases "takeBlocks span (seg_base s + segmentSize) (seg_blocks s)")
    case None
    then obtain ts where ts: "takeSegments span ss = Some (p, ts)" "ss' = s # ts" using Cons.prems(3) by auto
    then show ?thesis using Cons.IH[OF ss ts(1)] s by (simp add: atRest_def adds_left)
  next
    case (Some r)
    then obtain bs where bs: "takeBlocks span (seg_base s + segmentSize) (seg_blocks s) = Some (p, bs)"
      "ss' = s\<lparr>seg_blocks := bs\<rparr> # ss" using Cons.prems(3) by (cases r) auto
    have ok: "list_all blockOk (seg_blocks s)" using s(1) by (simp add: segOk_def)
    note F = fits_ok[OF takeBlocks_fits[OF ok assms(3,4) bs(1)] ok s(2)]
    have "segOk (s\<lparr>seg_blocks := bs\<rparr>)" using s(1) F(1,3) by (simp add: segOk_def)
    moreover have "list_all2 (\<lambda>s t. seg_base s = seg_base t \<and> seg_size s = seg_size t) ss ss" by (simp add: list.rel_refl)
    ultimately show ?thesis
      using F(2,4) ss by (simp add: bs(2) atRest_def segsOk_def adds_right segCells_def)
  qed
qed simp

lemma apart_frame:
  "list_all2 (\<lambda>s t. seg_base s = seg_base t \<and> seg_size s = seg_size t) ss ts \<Longrightarrow>
     sorted_wrt apart ss \<Longrightarrow> sorted_wrt apart ts \<and> sizes ts = sizes ss"
proof (induction rule: list_all2_induct)
  case (Cons s ss t ts)
  have "apart t u" if u: "u \<in> set ts" for u
  proof -
    obtain i where i: "i < length ts" "u = ts ! i" using u by (auto simp: in_set_conv_nth)
    then have "apart s (ss ! i)" "seg_base (ss ! i) = seg_base u \<and> seg_size (ss ! i) = seg_size u"
      using Cons.prems Cons.hyps(2) by (auto simp: list_all2_conv_all_nth)
    then show ?thesis using Cons.hyps(1) by (simp add: apart_def)
  qed
  then show ?case using Cons by simp
qed simp

lemma map_of_adds:
  assumes "distinct (map fst ys)" "adds span p xs ys"
  shows "\<exists>n. map_of ys = (map_of xs)(p \<mapsto> replicate n 0) \<and> map_of xs p = None \<and>
    span - 16 \<le> int n * 8 \<and> int n * 8 < span + 16"
proof -
  obtain us vs n where A: "xs = us @ vs" "ys = us @ (p, replicate n 0) # vs"
    "span - 16 \<le> int n * 8" "int n * 8 < span + 16" using assms(2) unfolding adds_def by blast
  have p: "p \<notin> fst ` set us" "p \<notin> fst ` set vs" using assms(1) by (auto simp: A(2))
  then have none: "map_of us p = None" "map_of vs p = None" by (simp_all add: map_of_eq_None_iff)
  have "map_of ys a = ((map_of xs)(p \<mapsto> replicate n 0)) a" for a
    using none by (simp add: A(1,2) map_add_def split: option.splits)
  then show ?thesis using none A(3,4) by (intro exI[of _ n]) (auto simp: A(1) map_add_def)
qed

text \<open>Allocation from the free blocks: one fresh zeroed object in the store.\<close>

definition allocated_at :: "int \<Rightarrow> store \<Rightarrow> store \<Rightarrow> int \<Rightarrow> bool" where
  "allocated_at sz \<sigma> \<sigma>' p \<longleftrightarrow> (\<exists>n. \<sigma>' = \<sigma>(p \<mapsto> replicate n 0) \<and> \<sigma> p = None \<and> sz \<le> int n * 8 \<and> int n * 8 < sz + 47 \<and>
     0 < p \<and> p mod 16 = 0 \<and> p + int n * 8 \<le> 2 ^ 64 \<and>
     (\<forall>a ws. \<sigma> a = Some ws \<longrightarrow> a + int (length ws) * 8 \<le> p \<or> p + int n * 8 \<le> a))"

lemma sorted_wrt_either: "sorted_wrt P xs \<Longrightarrow> x \<in> set xs \<Longrightarrow> y \<in> set xs \<Longrightarrow> x \<noteq> y \<Longrightarrow> P x y \<or> P y x"
  by (induction xs) auto

lemma objects_range:
  assumes "segsOk ss" "objects ss a = Some ws"
  shows "0 < a" "a mod 16 = 0" "a + int (length ws) * 8 \<le> 2 ^ 64"
    "objects ss c = Some vs \<Longrightarrow> c \<noteq> a \<Longrightarrow> a + int (length ws) * 8 \<le> c \<or> c + int (length vs) * 8 \<le> a"
proof -
  obtain b where b: "(a, b) \<in> set (heapCells ss)" "blk_words b = ws" using assms objects_Some_iff by blast
  then obtain s where s: "s \<in> set ss" "(a, b) \<in> set (segCells s)" by (auto simp: heapCells_def)
  then have "segOk s" using assms(1) by (simp add: segsOk_def list_all_iff)
  note R = segCells_range[OF this s(2)]
  have "0 < seg_base s" "seg_base s + seg_size s \<le> 2 ^ 64" using \<open>segOk s\<close> by (simp_all add: segOk_def)
  moreover have "int (length ws) * 8 = blk_span b - 16" using R(3) b(2) by (simp add: blockOk_def)
  ultimately show "0 < a" "a + int (length ws) * 8 \<le> 2 ^ 64" using R(1,2) by linarith+
  show "a mod 16 = 0" using heapCells_aligned[OF assms(1) b(1)] .
  show "a + int (length ws) * 8 \<le> c \<or> c + int (length vs) * 8 \<le> a" if o: "objects ss c = Some vs" and ne: "c \<noteq> a"
  proof -
    obtain d where d: "(c, d) \<in> set (heapCells ss)" "blk_words d = vs" using o unfolding objects_Some_iff[OF assms(1)] by blast
    have "clear (a, b) (c, d) \<or> clear (c, d) (a, b)"
      using sorted_wrt_either[OF heapCells_clear[OF assms(1)] b(1) d(1)] ne by auto
    moreover have "blockOk b" "blockOk d" using heapCells_blockOk[OF assms(1)] b(1) d(1) by blast+
    ultimately show ?thesis using b(2) d(2) by (auto simp: clear_def blockOk_def)
  qed
qed

lemma allocated_atI:
  assumes ss: "segsOk ss" and ss': "segsOk ss'" and "adds span p (objectList (heapCells ss)) (objectList (heapCells ss'))"
    and sz: "sz \<le> span - 16" "span - 16 < sz + 16"
  shows "allocated_at sz (objects ss) (objects ss') p"
proof -
  have "distinct (map fst (objectList (heapCells ss')))"
    unfolding objectList_fst using heapCells_distinct[OF ss'] by (simp add: distinct_map_filter)
  from map_of_adds[OF this assms(3)] obtain n where n:
    "objects ss' = (objects ss)(p \<mapsto> replicate n 0)" "objects ss p = None" "span - 16 \<le> int n * 8" "int n * 8 < span + 16"
    unfolding objects_def by blast
  have p: "objects ss' p = Some (replicate n 0)" by (simp add: n(1))
  have "a + int (length ws) * 8 \<le> p \<or> p + int n * 8 \<le> a" if "objects ss a = Some ws" for a ws
  proof -
    have "a \<noteq> p" using that n(2) by auto
    then show ?thesis using objects_range(4)[OF ss' p, of a ws] that n(1) by auto
  qed
  then show ?thesis
    unfolding allocated_at_def using objects_range(1-3)[OF ss' p] n sz by (intro exI[of _ n]) auto
qed

text \<open>Two heaps with the same accounts; only the blocks differ.\<close>

lemma heapTake_ok:
  assumes "heapOk fixed h" "h_ready h" "span \<ge> 32" "span mod 16 = 0" "sz \<le> span - 16" "span - 16 < sz + 16"
    and "heapTake h span = (Some p, h')"
  shows "heapOk fixed h'" "allocated_at sz (objects (h_first h)) (objects (h_first h')) p" "h_ready h'"
proof -
  obtain ss' where ss': "takeSegments span (h_first h) = Some (p, ss')" "h' = h\<lparr>h_first := ss'\<rparr>"
    using assms(7) by (auto simp: heapTake_def split: option.splits)
  have ss: "segsOk (h_first h)" "atRest (h_first h)" using assms(1,2) by (simp_all add: heapOk_def)
  note T = takeSegments_ok[OF ss assms(3,4) ss'(1)]
  then have "sorted_wrt apart ss' \<and> sizes ss' = sizes (h_first h)"
    using ss(1) by (intro apart_frame) (simp_all add: segsOk_def)
  then have ok: "segsOk ss'" "sizes ss' = sizes (h_first h)" using T by (simp_all add: segsOk_def)
  then show "heapOk fixed h'" using assms(1,2) T by (simp add: heapOk_def ss'(2))
  show "h_ready h'" using assms(2) by (simp add: ss'(2))
  show "allocated_at sz (objects (h_first h)) (objects (h_first h')) p"
    using allocated_atI[OF ss(1) ok(1) _ assms(5,6)] T by (simp add: ss'(2))
qed

lemma heapTake_None:
  "heapTake h span = (None, h') \<longleftrightarrow>
     h' = h \<and> (\<forall>s \<in> set (h_first h). \<forall>b \<in> set (seg_blocks s). blk_flags b = 0 \<longrightarrow> blk_span b < span)"
proof -
  have "takeSegments span ss = None \<longleftrightarrow> (\<forall>s \<in> set ss. \<forall>b \<in> set (seg_blocks s). blk_flags b = 0 \<longrightarrow> blk_span b < span)" for ss
  proof (induction ss)
    case (Cons s ss)
    then show ?case
      using takeBlocks_None[of span "seg_base s + 16" "seg_blocks s"]
      by (cases "takeBlocks span (seg_base s + 16) (seg_blocks s)") auto
  qed simp
  from this[of "h_first h"] show ?thesis
    by (cases "takeSegments span (h_first h)") (auto simp: heapTake_def)
qed

lemma spanOf_bounds:
  "sz > 0 \<Longrightarrow> spanOf sz \<ge> 32 \<and> spanOf sz mod 16 = 0 \<and> sz \<le> spanOf sz - 16 \<and> spanOf sz - 16 < sz + 16"
proof -
  assume sz: "sz > 0"
  have "(16 :: int) AND (16 - 1) = 0" by simp
  note A = alignDown_bounds[OF _ this, of "sz + 15", simplified]
  have "spanOf sz = alignDown (sz + 15) 16 + 16" by (simp add: spanOf_def add.commute)
  then show ?thesis using A sz by presburger
qed

subsection \<open>Growth\<close>

lemma newSegment_ok:
  assumes "0 < base" "base mod 16 = 0" "base + growth \<le> 2 ^ 64" "growth mod 16 = 0" "growth \<ge> 48"
  shows "segOk (newSegment base growth)" "objectList (segCells (newSegment base growth)) = []"
    "list_all (\<lambda>b. blk_flags b \<in> {0, 1}) (seg_blocks (newSegment base growth))"
proof -
  have u: "u64 (growth - 16) = growth - 16" using assms by simp
  have "(growth - 16) mod 16 = 0" using assms(4) by presburger
  then have "blockOk \<lparr>blk_span = growth - 16, blk_flags = 0, blk_words = zeroWords (growth - 16)\<rparr>"
    using assms(5) by (intro zero_block_ok) simp_all
  then show "segOk (newSegment base growth)" "objectList (segCells (newSegment base growth)) = []"
    "list_all (\<lambda>b. blk_flags b \<in> {0, 1}) (seg_blocks (newSegment base growth))"
    using assms by (simp_all add: newSegment_def segOk_def segCells_def u)
qed

lemma granule_16:
  assumes "48 \<le> g" "g AND (g - 1) = (0 :: int)" shows "16 dvd g"
proof -
  obtain k where k: "g = 2 ^ k" using pow2_int[of g] assms by auto
  have "4 \<le> k"
  proof (rule ccontr)
    assume "\<not> 4 \<le> k"
    then have "(2 :: int) ^ k \<le> 2 ^ 4" by (intro power_increasing) simp_all
    then show False using assms(1) k by simp
  qed
  then have "(2 :: int) ^ 4 dvd 2 ^ k" by (rule le_imp_power_dvd)
  then show ?thesis by (simp add: k)
qed

lemma acquireSegment_cases:
  "acquireSegment acquire growth minimum = (g, b) \<Longrightarrow> (g = growth \<or> g = minimum) \<and> b = acquire g"
  by (auto simp: acquireSegment_def Let_def split: if_splits)

text \<open>The accounts of a growth: what is acquired fits the segment that is needed and the budget.\<close>

lemma growth_bounds:
  assumes ok: "heapOk fixed h" "h_ready h" and span: "span \<ge> 32" "span \<le> maxUintptr - segmentSize - (h_granule h - 1)"
  defines "minimum \<equiv> alignDown (span + segmentSize + h_granule h - 1) (h_granule h)"
    and "available \<equiv> alignDown (u64 (h_limit h - h_reserved h)) (h_granule h)"
  assumes g: "minimum \<le> available" "g = minimum \<or> g = (let g = max (h_nextSize h) minimum in min g available)"
  shows "span + 16 \<le> g" "g \<le> h_limit h - h_reserved h" "g mod h_granule h = 0" "g mod 16 = 0"
proof -
  have gr: "48 \<le> h_granule h" "h_granule h AND (h_granule h - 1) = 0" "h_nextSize h mod h_granule h = 0"
    and lim: "h_reserved h \<le> h_limit h" "h_limit h < 2 ^ 64" "0 \<le> h_reserved h"
    using ok sizes_nonneg[of "h_first h"] by (auto simp: heapOk_def)
  then have g0: "0 < h_granule h" by simp
  note A = alignDown_bounds[OF g0 gr(2)]
  have u: "u64 (h_limit h - h_reserved h) = h_limit h - h_reserved h" using lim by simp
  have m: "span + 16 \<le> minimum" "minimum mod h_granule h = 0"
    and av: "available \<le> h_limit h - h_reserved h" "available mod h_granule h = 0"
    using A[of "span + 16 + h_granule h - 1"] A[of "h_limit h - h_reserved h"]
    by (simp_all add: minimum_def available_def u)
  show "span + 16 \<le> g" "g \<le> h_limit h - h_reserved h"
    using g m av by (auto simp: Let_def)
  show gm: "g mod h_granule h = 0" using g m(2) av(2) gr(3) by (auto simp: Let_def min_def max_def)
  have "16 dvd h_granule h" using gr(1,2) by (rule granule_16)
  then show "g mod 16 = 0" using gm by (metis dvd_trans mod_0_imp_dvd dvd_imp_mod_0)
qed

definition grown :: "Heap \<Rightarrow> int \<Rightarrow> int \<Rightarrow> Heap" where
  "grown h base g = h\<lparr>h_first := newSegment base g # h_first h, h_reserved := u64 (h_reserved h + g),
     h_nextSize := (if g \<le> maxUintptr div 2 then g * 2 else g)\<rparr>"

lemma heapGrow_cases:
  "heapGrow acquire h span = (None, h) \<or>
   (\<exists>g base. span \<le> maxUintptr - segmentSize - (h_granule h - 1) \<and>
      (let minimum = alignDown (span + segmentSize + h_granule h - 1) (h_granule h);
           available = alignDown (u64 (h_limit h - h_reserved h)) (h_granule h)
       in minimum \<le> available \<and> (g = minimum \<or> g = (let g = max (h_nextSize h) minimum in min g available))) \<and>
      acquire g = Some base \<and> heapGrow acquire h span = heapTake (grown h base g) span)"
proof (cases "span > maxUintptr - segmentSize - (h_granule h - 1)")
  case True
  then show ?thesis by (simp add: heapGrow_def)
next
  case False
  define minimum where "minimum = alignDown (span + segmentSize + h_granule h - 1) (h_granule h)"
  define available where "available = alignDown (u64 (h_limit h - h_reserved h)) (h_granule h)"
  define growth where "growth = min (max (h_nextSize h) minimum) available"
  have gr: "(let growth = (if h_nextSize h < minimum then minimum else h_nextSize h) in
      if growth > available then available else growth) = growth"
    by (simp add: growth_def max_def min_def Let_def)
  obtain g b where gb: "acquireSegment acquire growth minimum = (g, b)" by fastforce
  have eq: "heapGrow acquire h span = (if minimum > available then (None, h)
      else case b of None \<Rightarrow> (None, h) | Some base \<Rightarrow> heapTake (grown h base g) span)"
    using False gr gb unfolding heapGrow_def Let_def minimum_def[symmetric] available_def[symmetric]
    by (auto simp: grown_def split: option.splits)
  show ?thesis
  proof (cases "minimum > available \<or> b = None")
    case True
    then show ?thesis by (auto simp: eq)
  next
    case nf: False
    then obtain base where "b = Some base" by auto
    then show ?thesis
      using False nf acquireSegment_cases[OF gb] unfolding Let_def minimum_def[symmetric] available_def[symmetric]
      by (intro disjI2 exI[of _ g] exI[of _ base]) (auto simp: eq growth_def)
  qed
qed

lemma grown_ok:
  assumes ok: "heapOk fixed h" "h_ready h" and sup: "supplies acquire h" "acquire g = Some base"
    and g: "48 \<le> g" "g \<le> h_limit h - h_reserved h" "g mod h_granule h = 0" "g mod 16 = 0"
  shows "heapOk fixed (grown h base g)" "objectList (heapCells (h_first (grown h base g))) = objectList (heapCells (h_first h))"
proof -
  have h: "48 \<le> h_granule h" "h_granule h AND (h_granule h - 1) = 0" "h_reserved h \<le> h_limit h" "h_limit h < 2 ^ 64"
      "0 \<le> h_reserved h" "segsOk (h_first h)"
    using ok sizes_nonneg[of "h_first h"] by (auto simp: heapOk_def)
  have b: "0 < base" "base mod h_granule h = 0" "base + g \<le> 2 ^ 64"
      "\<forall>s \<in> set (h_first h). base + g \<le> seg_base s \<or> seg_base s + seg_size s \<le> base"
    using sup by (auto simp: supplies_def)
  have "16 dvd h_granule h" using h(1,2) by (rule granule_16)
  then have "base mod 16 = 0" using b(2) by (metis dvd_trans mod_0_imp_dvd dvd_imp_mod_0)
  note N = newSegment_ok[OF b(1) this b(3) g(4,1)]
  have "u64 (h_reserved h + g) = h_reserved h + g" using h g by simp
  moreover have "(if g \<le> maxUintptr div 2 then g * 2 else g) mod h_granule h = 0"
    using g(3) by (simp add: mod_mult_left_eq[symmetric])
  moreover have "0 < (if g \<le> maxUintptr div 2 then g * 2 else g) \<and> (if g \<le> maxUintptr div 2 then g * 2 else g) < 2 ^ 64"
    using g(1,2) h(3-5) by auto
  moreover have "segsOk (newSegment base g # h_first h)"
    using h(6) N(1) b(4) by (auto simp: segsOk_def apart_def newSegment_def)
  moreover have "atRest (newSegment base g # h_first h)" using ok N(3) by (simp add: atRest_def heapOk_def)
  moreover have "sizes (newSegment base g # h_first h) = sizes (h_first h) + g" by (simp add: newSegment_def)
  ultimately show "heapOk fixed (grown h base g)"
    using ok g(2) by (simp add: heapOk_def grown_def)
  show "objectList (heapCells (h_first (grown h base g))) = objectList (heapCells (h_first h))"
    by (simp add: grown_def N(2))
qed

lemma heapTake_grown:
  assumes "48 \<le> g" "g < 2 ^ 64" "span + 16 \<le> g" shows "fst (heapTake (grown h base g) span) \<noteq> None"
proof
  assume "fst (heapTake (grown h base g) span) = None"
  then have "heapTake (grown h base g) span = (None, snd (heapTake (grown h base g) span))" by (simp add: prod_eq_iff)
  moreover have "u64 (g - 16) = g - 16" using assms by simp
  ultimately show False
    unfolding heapTake_None using assms by (simp add: grown_def newSegment_def)
qed

text \<open>An allocation request: the span of \<open>sz\<close> bytes.\<close>

definition request :: "int \<Rightarrow> int \<Rightarrow> bool" where
  "request sz span \<longleftrightarrow> span \<ge> 32 \<and> span mod 16 = 0 \<and> sz \<le> span - 16 \<and> span - 16 < sz + 16"

lemma request_spanOf: "sz > 0 \<Longrightarrow> request sz (spanOf sz)"
  using spanOf_bounds by (simp add: request_def)

lemma take_request:
  "heapOk fixed h \<Longrightarrow> h_ready h \<Longrightarrow> request sz span \<Longrightarrow> heapTake h span = (Some p, h') \<Longrightarrow>
     heapOk fixed h' \<and> allocated_at sz (objects (h_first h)) (objects (h_first h')) p"
  using heapTake_ok[of fixed h span sz p h'] by (simp add: request_def)

lemma heapGrow_ok:
  assumes ok: "heapOk fixed h" "h_ready h" and sup: "supplies acquire h" and req: "request sz span"
    and run: "heapGrow acquire h span = (res, h')"
  shows "heapOk fixed h' \<and> (case res of None \<Rightarrow> h' = h
    | Some p \<Rightarrow> allocated_at sz (objects (h_first h)) (objects (h_first h')) p)"
proof (cases "heapGrow acquire h span = (None, h)")
  case True
  then show ?thesis using run ok by simp
next
  case False
  then obtain g base where
    sp: "span \<le> maxUintptr - segmentSize - (h_granule h - 1)" and
    g: "let minimum = alignDown (span + segmentSize + h_granule h - 1) (h_granule h);
           available = alignDown (u64 (h_limit h - h_reserved h)) (h_granule h)
       in minimum \<le> available \<and> (g = minimum \<or> g = (let g = max (h_nextSize h) minimum in min g available))" and
    acq: "acquire g = Some base" and eq: "heapGrow acquire h span = heapTake (grown h base g) span"
    using heapGrow_cases[of acquire h span] by blast
  have s32: "span \<ge> 32" using req by (simp add: request_def)
  note B = growth_bounds[OF ok s32 sp, of g] 
  have G: "span + 16 \<le> g" "g \<le> h_limit h - h_reserved h" "g mod h_granule h = 0" "g mod 16 = 0"
    using g B unfolding Let_def by blast+
  have g48: "48 \<le> g" using G(1) s32 by simp
  note N = grown_ok[OF ok sup acq g48 G(2-4)]
  have lim: "g < 2 ^ 64" using G(2) ok sizes_nonneg[of "h_first h"] by (auto simp: heapOk_def)
  obtain p where res: "res = Some p"
    using heapTake_grown[OF g48 lim G(1), of h base] run eq by (cases res) auto
  have "h_ready (grown h base g)" using ok(2) by (simp add: grown_def)
  moreover have "objects (h_first (grown h base g)) = objects (h_first h)" using N(2) by (simp add: objects_def)
  ultimately show ?thesis
    using take_request[OF N(1) _ req, of p h'] run eq res by simp
qed

text \<open>A request that the budget allows is served if the provider has the storage.\<close>

lemma heapGrow_serves:
  assumes ok: "heapOk fixed h" "h_ready h" and req: "request sz span"
    and sp: "span \<le> maxUintptr - segmentSize - (h_granule h - 1)"
    and fits: "alignDown (span + segmentSize + h_granule h - 1) (h_granule h) \<le>
      alignDown (h_limit h - h_reserved h) (h_granule h)"
    and acq: "acquire (alignDown (span + segmentSize + h_granule h - 1) (h_granule h)) \<noteq> None"
  shows "fst (heapGrow acquire h span) \<noteq> None"
proof -
  define minimum where "minimum = alignDown (span + segmentSize + h_granule h - 1) (h_granule h)"
  define available where "available = alignDown (u64 (h_limit h - h_reserved h)) (h_granule h)"
  have h: "h_reserved h \<le> h_limit h" "h_limit h < 2 ^ 64" "0 \<le> h_reserved h"
    using ok sizes_nonneg[of "h_first h"] by (auto simp: heapOk_def)
  have u: "u64 (h_limit h - h_reserved h) = h_limit h - h_reserved h" using h by simp
  have le: "minimum \<le> available" using fits by (simp add: minimum_def available_def u)
  define growth where "growth = min (max (h_nextSize h) minimum) available"
  have gr: "(let growth = (if h_nextSize h < minimum then minimum else h_nextSize h) in
      if growth > available then available else growth) = growth"
    by (simp add: growth_def max_def min_def Let_def)
  obtain g b where gb: "acquireSegment acquire growth minimum = (g, b)" by fastforce
  then obtain base where b: "b = Some base"
    using acq by (cases b) (auto simp: acquireSegment_def Let_def minimum_def split: if_splits)
  have "g = growth \<or> g = minimum" using acquireSegment_cases[OF gb] by blast
  then have g: "minimum \<le> available" "g = minimum \<or> g = (let g = max (h_nextSize h) minimum in min g available)"
    using le by (auto simp: growth_def)
  have s32: "span \<ge> 32" using req by (simp add: request_def)
  note B = growth_bounds[OF ok s32 sp, of g, folded minimum_def available_def, OF g]
  have "heapGrow acquire h span = heapTake (grown h base g) span"
    using sp gr gb le b unfolding heapGrow_def Let_def minimum_def[symmetric] available_def[symmetric]
    by (simp add: grown_def)
  then show ?thesis
    using heapTake_grown[of g span h base] B(1,2) s32 h by simp
qed

subsection \<open>Allocation\<close>

text \<open>What an allocation may do to a heap whose store is \<open>\<sigma>\<close>.\<close>

definition outcome :: "int \<Rightarrow> int \<Rightarrow> store \<Rightarrow> int option \<Rightarrow> Heap \<Rightarrow> bool" where
  "outcome fixed sz \<sigma> res h \<longleftrightarrow> heapOk fixed h \<and>
     (case res of None \<Rightarrow> objects (h_first h) = \<sigma> | Some p \<Rightarrow> allocated_at sz \<sigma> (objects (h_first h)) p)"

lemma outcome_None: "heapOk fixed h \<Longrightarrow> outcome fixed sz (objects (h_first h)) None h"
  by (simp add: outcome_def)

lemma outcome_take:
  "heapOk fixed h \<Longrightarrow> h_ready h \<Longrightarrow> request sz span \<Longrightarrow> heapTake h span = (Some p, h') \<Longrightarrow>
     outcome fixed sz (objects (h_first h)) (Some p) h'"
  using take_request by (simp add: outcome_def)

lemma outcome_grow:
  "heapOk fixed h \<Longrightarrow> h_ready h \<Longrightarrow> supplies acquire h \<Longrightarrow> request sz span \<Longrightarrow>
     heapGrow acquire h span = (res, h') \<Longrightarrow> outcome fixed sz (objects (h_first h)) res h'"
  using heapGrow_ok[of fixed h acquire sz span res h'] by (auto simp: outcome_def split: option.splits)

text \<open>\<open>take\<close> and, if it fails, growth.\<close>

definition takeOrGrow :: "(int \<Rightarrow> int option) \<Rightarrow> Heap \<Rightarrow> int \<Rightarrow> int option \<times> Heap" where
  "takeOrGrow acquire h span =
     (case heapTake h span of (Some p, h) \<Rightarrow> (Some p, h) | (None, h) \<Rightarrow> heapGrow acquire h span)"

lemma takeOrGrow_ok:
  assumes "heapOk fixed h" "h_ready h" "supplies acquire h" "request sz span" "takeOrGrow acquire h span = (res, h')"
  shows "outcome fixed sz (objects (h_first h)) res h'"
proof (cases "fst (heapTake h span)")
  case None
  then have "heapTake h span = (None, h)" using heapTake_None[of h span] by (metis prod.collapse)
  then have "heapGrow acquire h span = (res, h')" using assms(5) by (simp add: takeOrGrow_def)
  then show ?thesis using assms by (intro outcome_grow)
next
  case (Some p)
  then have "heapTake h span = (Some p, h')" "res = Some p"
    using assms(5) by (auto simp: takeOrGrow_def split: prod.splits)
  then show ?thesis using assms outcome_take by simp
qed

lemma Alloc_unfold:
  assumes "h_ready h" "\<not> h_busy h" and sz: "sz' = (if sz = 0 then 16 else sz)" "sz' \<le> maxUintptr - 31"
  shows "Alloc acquire roots h sz =
    (case Collect roots h of (done, released, hc) \<Rightarrow>
       if fst (heapTake h (spanOf sz')) = None \<and> h_first h \<noteq> [] then
         if \<not> done then (None, released, hc)
         else (case takeOrGrow acquire hc (spanOf sz') of (res, h') \<Rightarrow> (res, released, h'))
       else (case takeOrGrow acquire h (spanOf sz') of (res, h') \<Rightarrow> (res, [], h')))"
proof -
  have run: "Alloc acquire roots h sz = (case heapTake h (spanOf sz') of
      (Some p, h) \<Rightarrow> (Some p, [], h)
    | (None, h) \<Rightarrow>
        if h_first h \<noteq> [] then
          (case Collect roots h of (fin, released, h) \<Rightarrow>
             if \<not> fin then (None, released, h)
             else case heapTake h (spanOf sz') of
                 (Some p, h) \<Rightarrow> (Some p, released, h)
               | (None, h) \<Rightarrow> (case heapGrow acquire h (spanOf sz') of (p, h) \<Rightarrow> (p, released, h)))
        else (case heapGrow acquire h (spanOf sz') of (p, h) \<Rightarrow> (p, [], h)))"
    using assms(1,2) sz(2) unfolding Alloc_def Let_def sz(1)[symmetric] by simp
  obtain t1 h1 where t1: "heapTake h (spanOf sz') = (t1, h1)" by fastforce
  obtain fin rel hc where col: "Collect roots h = (fin, rel, hc)" by (metis prod_cases3)
  obtain t2 h2 where t2: "heapTake hc (spanOf sz') = (t2, h2)" by fastforce
  obtain p1 k1 where g1: "heapGrow acquire h (spanOf sz') = (p1, k1)" by fastforce
  obtain p2 k2 where g2: "heapGrow acquire h2 (spanOf sz') = (p2, k2)" by fastforce
  show ?thesis
  proof (cases t1)
    case None
    then have "h1 = h" using t1 heapTake_None by auto
    then show ?thesis
      by (cases t2) (simp_all add: run takeOrGrow_def t1 t2 col None g1 g2)
  qed (simp add: run takeOrGrow_def t1 col)
qed

lemma Collect_frame:
  assumes "heapOk fixed h" "h_ready h"
  shows "h_granule (snd (snd (Collect roots h))) = h_granule h" "h_ready (snd (snd (Collect roots h)))"
proof -
  obtain ps complete where roots: "roots = (ps, complete)" by (cases roots)
  obtain fin rel hc where col: "Collect roots h = (fin, rel, hc)" by (metis prod_cases3)
  have "h_granule hc = h_granule h \<and> h_ready hc"
  proof (cases complete)
    case True
    then have "Collect (ps, True) h = (fin, rel, hc)" using col roots by simp
    then show ?thesis using Collect_ok(5,6)[OF assms] by blast
  next
    case False
    then show ?thesis using Collect_incomplete[OF assms(1), of ps] col roots assms(2) by simp
  qed
  then show "h_granule (snd (snd (Collect roots h))) = h_granule h" "h_ready (snd (snd (Collect roots h)))"
    by (simp_all add: col)
qed

theorem Alloc_ok:
  assumes ok: "heapOk fixed h" and sz: "0 \<le> sz" and sup: "supplies acquire (snd (snd (Collect roots h)))"
    and run: "Alloc acquire roots h sz = (res, released, h')"
  shows "\<exists>\<sigma>. (\<sigma> = objects (h_first h) \<or>
        snd roots \<and> \<sigma> = objects (h_first h) |` {a. reachable (objects (h_first h)) (fst roots) a}) \<and>
      outcome fixed (if sz = 0 then 16 else sz) \<sigma> res h'"
proof -
  define sz' where "sz' = (if sz = 0 then 16 else sz)"
  define span where "span = spanOf sz'"
  have req: "request sz' span" unfolding span_def using sz by (intro request_spanOf) (simp add: sz'_def)
  have busy: "\<not> h_busy h" using ok by (simp add: heapOk_def)
  obtain fin rel hc where col: "Collect roots h = (fin, rel, hc)" by (metis prod_cases3)
  consider (refused) "\<not> h_ready h \<or> sz' > maxUintptr - 31"
    | (direct) "h_ready h" "sz' \<le> maxUintptr - 31" "\<not> (fst (heapTake h span) = None \<and> h_first h \<noteq> [])"
    | (failed) "h_ready h" "sz' \<le> maxUintptr - 31" "fst (heapTake h span) = None" "h_first h \<noteq> []" "\<not> snd roots"
    | (collected) "h_ready h" "sz' \<le> maxUintptr - 31" "fst (heapTake h span) = None" "h_first h \<noteq> []" "snd roots"
    by linarith
  then show ?thesis
  proof cases
    case refused
    then have "res = None" "h' = h" using run busy by (auto simp: Alloc_def Let_def sz'_def split: if_splits)
    then show ?thesis using outcome_None[OF ok] by blast
  next
    case direct
    note U = Alloc_unfold[OF direct(1) busy sz'_def direct(2), of acquire roots, folded span_def]
    have eq: "(res, h') = (case takeOrGrow acquire h span of (res, h') \<Rightarrow> (res, h'))"
      using run U direct(3) col by (auto split: prod.splits if_splits)
    show ?thesis
    proof (cases "h_first h = []")
      case True
      then have "supplies acquire h"
        using sup Collect_frame[OF ok direct(1), of roots] by (simp add: supplies_def)
      then show ?thesis using takeOrGrow_ok[OF ok direct(1) _ req] eq by (auto simp: sz'_def)
    next
      case False
      then obtain p h1 where "heapTake h span = (Some p, h1)" using direct(3) by (cases "heapTake h span") auto
      then show ?thesis using outcome_take[OF ok direct(1) req] eq by (auto simp: takeOrGrow_def sz'_def)
    qed
  next
    case failed
    note U = Alloc_unfold[OF failed(1) busy sz'_def failed(2), of acquire roots, folded span_def]
    have "Collect roots h = (False, [], h)" using Collect_incomplete[OF ok] failed(5) by (cases roots) simp
    then have "res = None" "h' = h" using run U failed(3,4) by simp_all
    then show ?thesis using outcome_None[OF ok] by blast
  next
    case collected
    note U = Alloc_unfold[OF collected(1) busy sz'_def collected(2), of acquire roots, folded span_def]
    have col': "Collect (fst roots, True) h = (fin, rel, hc)" using col collected(5) by (cases roots) simp
    note C = Collect_ok[OF ok collected(1) col']
    have "h_ready hc" using Collect_frame(2)[OF ok collected(1), of roots] col by simp
    moreover have "takeOrGrow acquire hc span = (res, h')"
      using run U collected(3,4) col C(1) by (auto split: prod.splits)
    ultimately show ?thesis
      using takeOrGrow_ok[OF C(2) _ _ req] sup col C(3) collected(5) by (auto simp: sz'_def)
  qed
qed

end
