(* ===== verification/MHeap_Client.thy ===== *)
theory MHeap_Client
  imports MHeap_Alloc
begin

text \<open>
  The contract between the managed heap of \<open>internal/managedheap/heap.go\<close> and a program that uses
  it: a locale of collectors, whose operations keep an invariant and every object that is reachable
  from the live roots, and its interpretation on the operations of the model.
\<close>

subsection \<open>Initialisation\<close>

lemma heapInit_ok:
  assumes "heapOk fixed h" "0 \<le> hc_Limit config" "hc_Limit config < 2 ^ 64" "0 \<le> hc_Granule config"
    "0 \<le> hc_Initial config" "0 \<le> hc_Overhead config" "heapInit h memory roots config = (fin, h')"
  shows "if fin then \<not> h_ready h \<and> heapOk (heapSize + hc_Overhead config) h' \<and> h_ready h' \<and> h_first h' = [] \<and>
      h_limit h' = (if hc_Limit config = 0 then maxUintptr else hc_Limit config)
    else h' = h"
proof (cases fin)
  case True
  define initial where "initial = (if hc_Initial config = 0 then hc_Granule config else hc_Initial config)"
  have g: "48 \<le> hc_Granule config" "hc_Granule config AND (hc_Granule config - 1) = 0"
    and i: "initial \<le> maxUintptr - (hc_Granule config - 1)" and nr: "\<not> h_ready h"
    and h': "h' = \<lparr>h_ready = True, h_first = [],
      h_limit = (if hc_Limit config = 0 then maxUintptr else hc_Limit config),
      h_reserved = heapSize + hc_Overhead config, h_granule = hc_Granule config,
      h_nextSize = alignDown (initial + hc_Granule config - 1) (hc_Granule config), h_busy = False\<rparr>"
    and r: "heapSize + hc_Overhead config \<le> (if hc_Limit config = 0 then maxUintptr else hc_Limit config)"
    using assms(7) True unfolding heapInit_def Let_def initial_def by (auto split: if_splits)
  have g0: "0 < hc_Granule config" using g(1) by simp
  note A = alignDown_bounds[OF g0 g(2), of "initial + hc_Granule config - 1"]
  have "0 < initial" using assms(5) g0 by (simp add: initial_def)
  then have "0 < h_nextSize h'" "h_nextSize h' < 2 ^ 64" "h_nextSize h' mod hc_Granule config = 0"
    using A i by (simp_all add: h')
  then show ?thesis
    using True nr g r assms(3,6) by (simp add: heapOk_def h' segsOk_def atRest_def)
next
  case False
  then show ?thesis using assms(7) unfolding heapInit_def Let_def by (auto split: if_splits)
qed

lemma emptyHeap_ok: "heapOk fixed emptyHeap"
  by (simp add: heapOk_def emptyHeap_def)

subsection \<open>Collectors\<close>

lemma reachable_mono: "reachable \<sigma> ps a \<Longrightarrow> set ps \<subseteq> set qs \<Longrightarrow> reachable \<sigma> qs a"
  by (induction rule: reachable.induct) (auto intro: reachable.intros)

lemma reachable_dom: "reachable \<sigma> ps a \<Longrightarrow> \<exists>ws. \<sigma> a = Some ws"
  by (cases rule: reachable.cases) (auto simp: keeps_def)

locale collector =
  fixes inv :: "'h \<Rightarrow> bool" and view :: "'h \<Rightarrow> store" and op :: "u64 list \<Rightarrow> 'h \<Rightarrow> 'h \<Rightarrow> bool"
  assumes op_inv: "inv h \<Longrightarrow> op live h h' \<Longrightarrow> inv h'"
    and op_keeps: "inv h \<Longrightarrow> op live h h' \<Longrightarrow> reachable (view h) live a \<Longrightarrow> view h' a = view h a"
begin

lemma op_reachable:
  assumes "inv h" "op live h h'" "reachable (view h) live a" shows "reachable (view h') live a"
  using assms(3)
proof (induction rule: reachable.induct)
  case (reachable_root p a)
  then have "view h' a = view h a" using op_keeps[OF assms(1,2)] reachable.reachable_root by blast
  then have "keeps (view h') (uint p) a" using reachable_root.hyps(2) by (simp add: keeps_def)
  with reachable_root.hyps(1) show ?case by (rule reachable.reachable_root)
next
  case (reachable_word a ws w c)
  have "view h' a = Some ws" using op_keeps[OF assms(1,2) reachable_word.hyps(1)] reachable_word.hyps(2) by simp
  moreover have "reachable (view h) live c" using reachable_word.hyps by (rule reachable.reachable_word)
  then have "keeps (view h') (uint w) c"
    using op_keeps[OF assms(1,2)] reachable_word.hyps(4) by (simp add: keeps_def)
  ultimately show ?case using reachable_word.IH reachable_word.hyps(3) by (blast intro: reachable.reachable_word)
qed

theorem ops_keep:
  assumes "(op live)\<^sup>*\<^sup>* h h'" "inv h"
  shows "inv h' \<and> (reachable (view h) live a \<longrightarrow> reachable (view h') live a \<and> view h' a = view h a)"
  using assms
proof (induction rule: rtranclp_induct)
  case (step h1 h2)
  then show ?case using op_inv[of h1 live h2] op_keeps[of h1 live h2 a] op_reachable[of h1 live h2 a] by auto
qed simp

end

subsection \<open>The operations of the heap\<close>

text \<open>The operations between which the program runs; while \<open>live\<close> are the live roots, every root
  enumeration reports at least these.\<close>

inductive heapOp :: "u64 list \<Rightarrow> Heap \<Rightarrow> Heap \<Rightarrow> bool" for live :: "u64 list" where
  op_alloc: "0 \<le> sz \<Longrightarrow> set live \<subseteq> set (fst roots) \<Longrightarrow> supplies acquire (snd (snd (Collect roots h))) \<Longrightarrow>
    Alloc acquire roots h sz = (res, released, h') \<Longrightarrow> heapOp live h h'"
| op_collect: "set live \<subseteq> set (fst roots) \<Longrightarrow> Collect roots h = (fin, released, h') \<Longrightarrow> heapOp live h h'"
| op_mark: "heapOp live h (Mark h p)"

lemma Collect_not_ready: "\<not> h_ready h \<Longrightarrow> Collect roots h = (False, [], h)"
  by (simp add: Collect_def)

lemma Collect_store:
  assumes "heapOk fixed h" "Collect roots h = (fin, released, h')"
  shows "heapOk fixed h' \<and> (objects (h_first h') = objects (h_first h) \<or>
    objects (h_first h') = objects (h_first h) |` {a. reachable (objects (h_first h)) (fst roots) a})"
proof -
  obtain ps complete where roots: "roots = (ps, complete)" by (cases roots)
  show ?thesis
  proof (cases "h_ready h \<and> complete")
    case True
    then show ?thesis using Collect_ok[OF assms(1), of ps fin released h'] assms(2) by (simp add: roots)
  next
    case False
    then have "h' = h"
      using assms(2) Collect_incomplete[OF assms(1), of ps] Collect_not_ready[of h roots] by (auto simp: roots)
    then show ?thesis using assms(1) by simp
  qed
qed

lemma outcome_keeps:
  assumes "outcome fixed sz \<sigma> res h" "\<sigma> a = Some ws" shows "objects (h_first h) a = Some ws"
  using assms by (auto simp: outcome_def allocated_at_def split: option.splits)

lemma heapOp_ok:
  assumes ok: "heapOk fixed h" and op: "heapOp live h h'"
  shows "heapOk fixed h'" "reachable (objects (h_first h)) live a \<Longrightarrow> objects (h_first h') a = objects (h_first h) a"
proof -
  let ?R = "\<lambda>roots. {a. reachable (objects (h_first h)) (fst roots) a}"
  have 1: "heapOk fixed h' \<and>
    (reachable (objects (h_first h)) live a \<longrightarrow> objects (h_first h') a = objects (h_first h) a)"
    using op
  proof (cases rule: heapOp.cases)
    case 1: (op_alloc sz roots acquire res released)
    obtain \<sigma> where \<sigma>: "\<sigma> = objects (h_first h) \<or> \<sigma> = objects (h_first h) |` ?R roots"
      and out: "outcome fixed (if sz = 0 then 16 else sz) \<sigma> res h'"
      using Alloc_ok[OF ok 1(1,3,4)] by blast
    have "objects (h_first h') a = objects (h_first h) a" if r: "reachable (objects (h_first h)) live a"
    proof -
      obtain ws where ws: "objects (h_first h) a = Some ws" using reachable_dom[OF r] by blast
      have "reachable (objects (h_first h)) (fst roots) a" using reachable_mono[OF r 1(2)] .
      then have "\<sigma> a = Some ws" using \<sigma> ws by auto
      then show ?thesis using outcome_keeps[OF out] ws by simp
    qed
    then show ?thesis using out by (simp add: outcome_def)
  next
    case 2: (op_collect roots fin released)
    then show ?thesis
      using Collect_store[OF ok 2(2)] reachable_mono[of "objects (h_first h)" live a "fst roots"] by auto
  next
    case 3: (op_mark p)
    have "\<not> h_busy h" using ok by (simp add: heapOk_def)
    then show ?thesis using 3 ok by (simp add: Mark_def)
  qed
  then show "heapOk fixed h'" "reachable (objects (h_first h)) live a \<Longrightarrow> objects (h_first h') a = objects (h_first h) a"
    by blast+
qed

definition heapInv :: "Heap \<Rightarrow> bool" where
  "heapInv h \<longleftrightarrow> (\<exists>fixed. heapOk fixed h)"

definition heapStore :: "Heap \<Rightarrow> store" where
  "heapStore h = objects (h_first h)"

interpretation heap: collector heapInv heapStore heapOp
  by unfold_locales (auto simp: heapInv_def heapStore_def intro: heapOp_ok)

text \<open>The accounts under a sequence of operations.\<close>

lemma heapOps_ok:
  assumes "(heapOp live)\<^sup>*\<^sup>* h h'" "heapOk fixed h" shows "heapOk fixed h'"
  using assms by (induction rule: rtranclp_induct) (auto intro: heapOp_ok(1))

text \<open>What no operation changes.\<close>

definition sameConfig :: "Heap \<Rightarrow> Heap \<Rightarrow> bool" where
  "sameConfig h h' \<longleftrightarrow> h_limit h' = h_limit h \<and> h_ready h' = h_ready h"

lemma sameConfig_simps [simp]: "sameConfig h h"
  by (simp add: sameConfig_def)

lemma heapTake_config: "heapTake h span = (res, h') \<Longrightarrow> sameConfig h h'"
  by (auto simp: heapTake_def sameConfig_def split: option.splits)

lemma heapGrow_config: "heapGrow acquire h span = (res, h') \<Longrightarrow> sameConfig h h'"
  using heapGrow_cases[of acquire h span] heapTake_config by (fastforce simp: grown_def sameConfig_def)

lemma Mark_config: "h_limit (foldl Mark h ps) = h_limit h" "h_ready (foldl Mark h ps) = h_ready h"
  by (induction ps arbitrary: h) (simp_all add: Mark_def)

lemma Collect_config: "Collect roots h = (fin, released, h') \<Longrightarrow> sameConfig h h'"
  by (auto simp: Collect_def Let_def sameConfig_def Mark_config split: prod.splits if_splits)

lemma Alloc_config: "Alloc acquire roots h sz = (res, released, h') \<Longrightarrow> sameConfig h h'"
  unfolding Alloc_def Let_def
  by (auto simp: sameConfig_def split: prod.splits option.splits if_splits
      dest!: heapTake_config heapGrow_config Collect_config)

lemma heapOps_config: "(heapOp live)\<^sup>*\<^sup>* h h' \<Longrightarrow> sameConfig h h'"
proof (induction rule: rtranclp_induct)
  case (step h1 h2)
  have "sameConfig h1 h2"
    using step.hyps(2) by (cases rule: heapOp.cases) (auto dest: Alloc_config Collect_config simp: Mark_def sameConfig_def)
  then show ?case using step.IH by (simp add: sameConfig_def)
qed simp

lemma Collect_empty:
  assumes "\<not> h_busy h" "h_ready h" "h_first h = []" "Collect roots h = (fin, released, hc)"
  shows "h_reserved hc = h_reserved h"
proof -
  have m: "markWords ps [] = []" for ps by (induction ps) (simp_all add: markWords_def)
  have "scanPass [] = (False, [])" by (simp add: scanPass_def positions_def)
  then have "traceLoop [] = []" by (subst traceLoop.simps) simp
  then show ?thesis using assms by (auto simp: Collect_def Let_def foldl_Mark m split: if_splits)
qed

text \<open>Service: an allocation that the budget allows after a collection succeeds.\<close>

lemma Alloc_serves:
  assumes ok: "heapOk fixed h" "h_ready h" and sz: "0 < sz" "sz \<le> maxUintptr - 31"
    and col: "Collect roots h = (True, released, hc)"
    and sp: "spanOf sz \<le> maxUintptr - segmentSize - (h_granule h - 1)"
    and fits: "alignDown (spanOf sz + segmentSize + h_granule h - 1) (h_granule h) \<le>
      alignDown (h_limit h - h_reserved hc) (h_granule h)"
    and acq: "acquire (alignDown (spanOf sz + segmentSize + h_granule h - 1) (h_granule h)) \<noteq> None"
  shows "fst (Alloc acquire roots h sz) \<noteq> None"
proof -
  have busy: "\<not> h_busy h" using ok by (simp add: heapOk_def)
  note U = Alloc_unfold[OF ok(2) busy _ sz(2), of sz acquire roots, simplified col prod.case]
  have serve: "fst (takeOrGrow acquire k (spanOf sz)) \<noteq> None"
    if k: "heapOk fixed k" "h_ready k" "h_granule k = h_granule h" "h_limit k = h_limit h"
      "h_reserved k = h_reserved hc" for k
  proof (cases "fst (heapTake k (spanOf sz))")
    case None
    then have "heapTake k (spanOf sz) = (None, k)" using heapTake_None[of k "spanOf sz"] by (metis prod.collapse)
    then have "takeOrGrow acquire k (spanOf sz) = heapGrow acquire k (spanOf sz)" by (simp add: takeOrGrow_def)
    then show ?thesis
      using heapGrow_serves[OF k(1,2) request_spanOf[OF sz(1)]] sp fits acq by (simp add: k(3-5))
  next
    case (Some p)
    then show ?thesis by (cases "heapTake k (spanOf sz)") (simp add: takeOrGrow_def)
  qed
  have hc: "heapOk fixed hc" "h_ready hc" "h_granule hc = h_granule h" "h_limit hc = h_limit h"
    using Collect_store[OF ok(1) col] Collect_frame[OF ok, of roots] Collect_config[OF col]
    by (simp_all add: col sameConfig_def)
  show ?thesis
  proof (cases "fst (heapTake h (spanOf sz)) = None \<and> h_first h \<noteq> []")
    case True
    then show ?thesis using U serve[OF hc refl] sz(1) by (auto split: prod.splits)
  next
    case False
    have "fst (takeOrGrow acquire h (spanOf sz)) \<noteq> None"
    proof (cases "h_first h = []")
      case True
      then have "h_reserved h = h_reserved hc" using Collect_empty[OF busy ok(2)] col by auto
      then show ?thesis using serve[OF ok refl refl] by simp
    next
      case ne: False
      then show ?thesis using False by (cases "heapTake h (spanOf sz)") (auto simp: takeOrGrow_def)
    qed
    then show ?thesis using U False sz(1) by (auto split: prod.splits)
  qed
qed

end
