(* ===== verification/MHeap_Limit.thy ===== *)
theory MHeap_Limit
  imports Renvo_Prelude
begin

text \<open>
  The byte budgets of \<open>internal/managedheap/limit.go\<close>: \<open>ParseLimit\<close> and \<open>ResolveLimit\<close>, on
  \<open>uint64\<close>s that wrap around.  The lemmas show that the parser never wraps: it accepts exactly the
  positive decimal numbers, with one of four binary suffixes, whose value fits 64 bits.
\<close>

type_synonym uint64 = "64 word"

subsection \<open>Operations\<close>

text \<open>\<open>"KiB"\<close>, \<open>"MiB"\<close>, \<open>"GiB"\<close> and \<open>"TiB"\<close>.\<close>

definition limitUnit :: "gostring \<Rightarrow> uint64" where
  "limitUnit suffix =
     (if suffix = [75, 105, 66] then push_bit 10 1
      else if suffix = [77, 105, 66] then push_bit 20 1
      else if suffix = [71, 105, 66] then push_bit 30 1
      else if suffix = [84, 105, 66] then push_bit 40 1
      else 1)"

text \<open>The loop over the digits; \<^const>\<open>None\<close> is \<open>return 0, false\<close>.\<close>

fun parseDigits :: "uint64 \<Rightarrow> uint64 \<Rightarrow> gostring \<Rightarrow> uint64 option" where
  "parseDigits maximum v [] = Some v"
| "parseDigits maximum v (c # cs) =
     (if c < 48 \<or> c > 57 then None
      else
        let digit = ucast (c - 48) in
        if v > maximum div 10 \<or> v = maximum div 10 \<and> digit > maximum mod 10 then None
        else parseDigits maximum (v * 10 + digit) cs)"

definition ParseLimit :: "gostring \<Rightarrow> uint64 \<times> bool" where
  "ParseLimit txt =
     (let multiplier = (if length txt \<ge> 3 then limitUnit (drop (length txt - 3) txt) else 1);
          fin = (if multiplier \<noteq> 1 then length txt - 3 else length txt)
      in if fin = 0 then (0, False)
         else
           let maximum = (- 1) div multiplier in
           case parseDigits maximum 0 (take fin txt) of
             None \<Rightarrow> (0, False)
           | Some v \<Rightarrow> (v * multiplier, v \<noteq> 0))"

definition ResolveLimit :: "uint64 \<Rightarrow> uint64 \<Rightarrow> gostring \<Rightarrow> bool \<Rightarrow> uint64 \<times> bool" where
  "ResolveLimit target compiled environment present =
     (if present then ParseLimit environment
      else if compiled \<noteq> 0 then (compiled, True)
      else (target, True))"

subsection \<open>Decimal numbers\<close>

definition isDigit :: "byte \<Rightarrow> bool" where
  "isDigit c \<longleftrightarrow> 48 \<le> c \<and> c \<le> 57"

fun number :: "int \<Rightarrow> gostring \<Rightarrow> int" where
  "number v [] = v"
| "number v (c # cs) = number (v * 10 + (uint c - 48)) cs"

lemma number_ge: "list_all isDigit cs \<Longrightarrow> 0 \<le> v \<Longrightarrow> v \<le> number v cs"
proof (induction cs arbitrary: v)
  case (Cons c cs)
  have "48 \<le> uint c" using Cons.prems(1) by (simp add: isDigit_def word_le_def)
  then show ?case using Cons.IH[of "v * 10 + (uint c - 48)"] Cons.prems by simp
qed simp

lemma digit_uint: "isDigit c \<Longrightarrow> uint (ucast (c - 48) :: uint64) = uint c - 48"
proof -
  assume "isDigit c"
  then have c: "48 \<le> uint c" "uint c \<le> 57" by (simp_all add: isDigit_def word_le_def)
  have "uint (c - 48) = uint c - 48" using c by (simp add: uint_word_ariths)
  then show ?thesis using c by (simp add: unsigned_ucast_eq take_bit_eq_mod)
qed

text \<open>The guard of the loop is exact: it refuses a digit if and only if the value would exceed the
  maximum.\<close>

lemma decimal_guard:
  "(0 :: int) \<le> d \<Longrightarrow> d < 10 \<Longrightarrow> v > m div 10 \<or> v = m div 10 \<and> d > m mod 10 \<longleftrightarrow> v * 10 + d > m"
proof -
  assume d: "0 \<le> d" "d < 10"
  have "m = 10 * (m div 10) + m mod 10" "0 \<le> m mod 10" "m mod 10 < 10" by simp_all
  then obtain q r where m: "m div 10 = q" "m mod 10 = r" "m = 10 * q + r" "0 \<le> r" "r < 10" by blast
  show ?thesis unfolding m(1,2) using d m(3-5) by presburger
qed

lemma digit_guard:
  fixes maximum v d :: uint64
  assumes "uint d < 10"
  shows "v > maximum div 10 \<or> v = maximum div 10 \<and> d > maximum mod 10 \<longleftrightarrow>
     uint v * 10 + uint d > uint maximum"
proof -
  have "uint (maximum div 10) = uint maximum div 10" "uint (maximum mod 10) = uint maximum mod 10"
    by (simp_all add: uint_div_distrib uint_mod_distrib)
  then have "v > maximum div 10 \<longleftrightarrow> uint v > uint maximum div 10"
    "v = maximum div 10 \<longleftrightarrow> uint v = uint maximum div 10" "d > maximum mod 10 \<longleftrightarrow> uint d > uint maximum mod 10"
    by (simp_all only: word_less_def word_uint_eq_iff)
  then show ?thesis using decimal_guard[where d = "uint d" and v = "uint v" and m = "uint maximum"] assms by simp
qed

lemma parseDigits_correct:
  "parseDigits maximum v cs = (if list_all isDigit cs \<and> number (uint v) cs \<le> uint maximum \<or> cs = []
     then Some (word_of_int (number (uint v) cs)) else None)"
proof (induction cs arbitrary: v)
  case (Cons c cs)
  show ?case
  proof (cases "isDigit c")
    case False
    then show ?thesis by (auto simp: isDigit_def not_le)
  next
    case True
    let ?d = "ucast (c - 48) :: uint64"
    note d = digit_uint[OF True]
    have r: "0 \<le> uint c - 48" "uint c - 48 < 10" using True by (simp_all add: isDigit_def word_le_def)
    have c: "\<not> (c < 48 \<or> c > 57)" using True by (auto simp: isDigit_def)
    show ?thesis
    proof (cases "uint v * 10 + (uint c - 48) > uint maximum")
      case big: True
      then have "parseDigits maximum v (c # cs) = None"
        using digit_guard[where d = ?d and v = v and maximum = maximum] c d r by (simp add: Let_def)
      moreover have "\<not> (list_all isDigit (c # cs) \<and> number (uint v) (c # cs) \<le> uint maximum)"
        using big number_ge[of cs "uint v * 10 + (uint c - 48)"] r by auto
      ultimately show ?thesis by (simp del: parseDigits.simps)
    next
      case small: False
      have "uint (v * 10 + ?d) = uint v * 10 + (uint c - 48)"
        using small d r uint_lt2p[of maximum] uint_ge_0[of v] by (simp add: uint_word_ariths)
      moreover have "parseDigits maximum v (c # cs) = parseDigits maximum (v * 10 + ?d) cs"
        using digit_guard[where d = ?d and v = v and maximum = maximum] c d r small
        unfolding parseDigits.simps(2) Let_def by (simp only: if_False)
      ultimately show ?thesis using Cons.IH[of "v * 10 + ?d"] small True by (cases cs) (simp_all del: parseDigits.simps(2))
    qed
  qed
qed simp

subsection \<open>Budgets\<close>

text \<open>The suffixes, with their multipliers.\<close>

definition limitUnits :: "(gostring \<times> int) list" where
  "limitUnits = [([75, 105, 66], 2 ^ 10), ([77, 105, 66], 2 ^ 20), ([71, 105, 66], 2 ^ 30), ([84, 105, 66], 2 ^ 40)]"

text \<open>What a text denotes: the digits, and the multiplier of its suffix.\<close>

definition budget :: "gostring \<Rightarrow> gostring \<Rightarrow> int \<Rightarrow> bool" where
  "budget txt digits k \<longleftrightarrow> digits \<noteq> [] \<and> list_all isDigit digits \<and>
     (k = 1 \<and> txt = digits \<or> (\<exists>u. (u, k) \<in> set limitUnits \<and> txt = digits @ u))"

lemma limitUnit_cases:
  "limitUnit u = 1 \<and> u \<notin> fst ` set limitUnits \<or> (\<exists>k. (u, k) \<in> set limitUnits \<and> limitUnit u = word_of_int k \<and> uint (limitUnit u) = k \<and> limitUnit u \<noteq> 1)"
  by (auto simp: limitUnit_def limitUnits_def)

lemma limitUnits_facts: "(u, k) \<in> set limitUnits \<Longrightarrow> length u = 3 \<and> last u = 66 \<and> 1 < k \<and> k < 2 ^ 64"
  by (auto simp: limitUnits_def)

lemma limitUnit_Some: "(u, k) \<in> set limitUnits \<Longrightarrow> uint (limitUnit u) = k \<and> limitUnit u \<noteq> 1"
  by (auto simp: limitUnit_def limitUnits_def)

text \<open>Where \<open>ParseLimit\<close> splits the text.\<close>

definition limitSplit :: "gostring \<Rightarrow> gostring \<times> uint64" where
  "limitSplit txt =
     (let multiplier = (if length txt \<ge> 3 then limitUnit (drop (length txt - 3) txt) else 1)
      in (take (if multiplier \<noteq> 1 then length txt - 3 else length txt) txt, multiplier))"

lemma limitSplit_budget:
  "budget txt ds k \<longleftrightarrow> (\<exists>m. limitSplit txt = (ds, m) \<and> uint m = k) \<and> ds \<noteq> [] \<and> list_all isDigit ds"
proof (cases "length txt \<ge> 3 \<and> limitUnit (drop (length txt - 3) txt) \<noteq> 1")
  case True
  let ?u = "drop (length txt - 3) txt"
  obtain k' where k': "(?u, k') \<in> set limitUnits" "uint (limitUnit ?u) = k'"
    using limitUnit_cases[of ?u] True by auto
  have fin: "txt \<noteq> [] \<and> last txt = 66"
    using limitUnits_facts[OF k'(1)] True by (auto simp: last_drop)
  have split: "limitSplit txt = (take (length txt - 3) txt, limitUnit ?u)" using True by (simp add: limitSplit_def)
  have "\<not> list_all isDigit txt" using last_in_set[of "txt"] fin by (auto simp: list_all_iff isDigit_def intro!: bexI[of _ 66])
  moreover have "txt = ds @ u \<and> (u, k) \<in> set limitUnits \<longleftrightarrow> ds = take (length txt - 3) txt \<and> u = ?u \<and> k = k'" for u
  proof
    assume u: "txt = ds @ u \<and> (u, k) \<in> set limitUnits"
    then have "length u = 3" "uint (limitUnit u) = k" using limitUnits_facts limitUnit_Some by blast+
    then show "ds = take (length txt - 3) txt \<and> u = ?u \<and> k = k'" using u k'(2) by simp
  next
    assume "ds = take (length txt - 3) txt \<and> u = ?u \<and> k = k'"
    then show "txt = ds @ u \<and> (u, k) \<in> set limitUnits" using k'(1) by simp
  qed
  ultimately have "budget txt ds k \<longleftrightarrow> ds \<noteq> [] \<and> list_all isDigit ds \<and> ds = take (length txt - 3) txt \<and> k = k'"
    unfolding budget_def by blast
  moreover have "(\<exists>m. limitSplit txt = (ds, m) \<and> uint m = k) \<longleftrightarrow> ds = take (length txt - 3) txt \<and> k = k'"
    unfolding split k'(2)[symmetric] by auto
  ultimately show ?thesis by blast
next
  case False
  then have split: "limitSplit txt = (txt, 1)" by (auto simp: limitSplit_def)
  have "\<not> (\<exists>u. (u, k) \<in> set limitUnits \<and> txt = ds @ u)"
    using False limitUnits_facts limitUnit_Some by fastforce
  then show ?thesis unfolding budget_def split by auto
qed

lemma ParseLimit_split:
  "ParseLimit txt = (case limitSplit txt of (ds, m) \<Rightarrow>
     if ds = [] then (0, False)
     else case parseDigits ((- 1) div m) 0 ds of None \<Rightarrow> (0, False) | Some v \<Rightarrow> (v * m, v \<noteq> 0))"
  by (auto simp: ParseLimit_def limitSplit_def Let_def)

lemma le_div_iff_mult: "0 < (m :: int) \<Longrightarrow> n \<le> x div m \<longleftrightarrow> n * m \<le> x"
proof
  assume m: "0 < m"
  { assume "n \<le> x div m"
    then have "n * m \<le> x div m * m" using m by (intro mult_right_mono) simp_all
    also have "\<dots> \<le> x" using m by (simp add: minus_mod_eq_div_mult[symmetric])
    finally show "n * m \<le> x" . }
  { assume "n * m \<le> x"
    then have "(n * m) div m \<le> x div m" using m by (rule zdiv_mono1)
    then show "n \<le> x div m" using m by simp }
qed

lemma limitSplit_pos: "limitSplit txt = (ds, m) \<Longrightarrow> 0 < uint m"
  using limitUnit_cases[of "drop (length txt - 3) txt"] limitUnits_facts
  by (fastforce simp: limitSplit_def Let_def split: if_splits)

text \<open>The parse of the digits against the largest value that the multiplier allows.\<close>

lemma parseDigits_scaled:
  fixes m :: uint64
  assumes m: "0 < uint m" and ds: "ds \<noteq> []"
  shows "parseDigits ((- 1) div m) 0 ds =
     (if list_all isDigit ds \<and> number 0 ds * uint m < 2 ^ 64 then Some (word_of_int (number 0 ds)) else None)"
proof -
  have "uint (- 1 :: uint64) = 2 ^ 64 - 1" by (simp add: unsigned_minus_1_eq_mask mask_eq_exp_minus_1)
  then have mx: "uint ((- 1) div m) = (2 ^ 64 - 1) div uint m" by (simp add: uint_div_distrib)
  have "number 0 ds \<le> (2 ^ 64 - 1) div uint m \<longleftrightarrow> number 0 ds * uint m \<le> 2 ^ 64 - 1"
    using m by (rule le_div_iff_mult)
  then show ?thesis unfolding parseDigits_correct mx using ds by auto
qed

lemma ParseLimit_exact:
  "ParseLimit txt = (w, True) \<longleftrightarrow>
     (\<exists>ds k. budget txt ds k \<and> 0 < number 0 ds \<and> number 0 ds * k = uint w)"
proof -
  obtain ds m where sp: "limitSplit txt = (ds, m)" by fastforce
  have m: "0 < uint m" using sp by (rule limitSplit_pos)
  note P = parseDigits_scaled[OF m]
  have ok: "uint (word_of_int (number 0 ds) :: uint64) = number 0 ds \<and> number 0 ds \<ge> 0"
    if "list_all isDigit ds" "number 0 ds * uint m < 2 ^ 64"
  proof -
    have "number 0 ds \<ge> 0" using number_ge[OF that(1), of 0] by simp
    moreover have "number 0 ds * 1 \<le> number 0 ds * uint m" using m calculation by (intro mult_left_mono) simp_all
    ultimately show ?thesis using that(2) by (simp add: unsigned_of_int take_bit_eq_mod)
  qed
  have "ParseLimit txt = (w, True) \<longleftrightarrow> ds \<noteq> [] \<and> list_all isDigit ds \<and> number 0 ds * uint m < 2 ^ 64 \<and>
      (word_of_int (number 0 ds) :: uint64) \<noteq> 0 \<and> w = word_of_int (number 0 ds) * m"
    unfolding ParseLimit_split sp by (cases "ds = []") (auto simp: P)
  also have "\<dots> \<longleftrightarrow> ds \<noteq> [] \<and> list_all isDigit ds \<and> 0 < number 0 ds \<and> number 0 ds * uint m = uint w"
  proof (rule conj_cong[OF refl], rule conj_cong[OF refl])
    assume ds: "list_all isDigit ds"
    show "number 0 ds * uint m < 2 ^ 64 \<and> (word_of_int (number 0 ds) :: uint64) \<noteq> 0 \<and> w = word_of_int (number 0 ds) * m \<longleftrightarrow>
        0 < number 0 ds \<and> number 0 ds * uint m = uint w"
    proof (cases "number 0 ds * uint m < 2 ^ 64")
      case True
      note o = ok[OF ds True]
      have "uint (word_of_int (number 0 ds) * m) = number 0 ds * uint m"
        using o True m by (simp add: uint_word_ariths)
      then show ?thesis using True o by (auto simp: word_uint_eq_iff)
    next
      case False
      then show ?thesis using uint_lt2p[of w] by simp
    qed
  qed
  also have "\<dots> \<longleftrightarrow> (\<exists>ds k. budget txt ds k \<and> 0 < number 0 ds \<and> number 0 ds * k = uint w)"
    unfolding limitSplit_budget sp by auto
  finally show ?thesis .
qed

lemma ParseLimit_refused: "ParseLimit txt = (w, False) \<Longrightarrow> w = 0"
  by (auto simp: ParseLimit_def Let_def split: if_splits option.splits)

lemma ResolveLimit_ok:
  "ResolveLimit target compiled environment present = (w, True) \<Longrightarrow> \<not> present \<or> w \<noteq> 0"
  using ParseLimit_exact[of environment w] by (auto simp: ResolveLimit_def limitUnits_def budget_def)

end
