(* ===== verification/MHeap_Properties.thy ===== *)
theory MHeap_Properties
  imports MHeap_Client MHeap_Limit
begin

text \<open>
  The properties of the managed heap of \<open>internal/managedheap\<close> (\<open>heap.go\<close> and \<open>limit.go\<close>).
\<close>

text \<open>Small configurations and providers on which the properties are instantiated.\<close>

definition smallConfig :: HeapConfig where
  "smallConfig = \<lparr>hc_Limit = 400, hc_Granule = 64, hc_Initial = 0, hc_Overhead = 0\<rparr>"

definition smallHeap :: Heap where
  "smallHeap = snd (heapInit emptyHeap True True smallConfig)"

definition provider :: "int \<Rightarrow> int option" where
  "provider sz = (if sz \<le> 512 then Some 4096 else None)"

text \<open>A heap after one allocation of 8 bytes.\<close>

definition usedHeap :: Heap where
  "usedHeap = snd (snd (Alloc provider ([], True) smallHeap 8))"

lemma smallHeap_eval:
  "heapInit emptyHeap True True smallConfig = (True, smallHeap)" "h_ready smallHeap" "h_granule smallHeap = 64"
  "h_first smallHeap = []"
  "h_limit smallHeap = 400"
  by code_simp+

lemma usedHeap_eval:
  "Alloc provider ([], True) smallHeap 8 = (Some 4128, [], usedHeap)" "objects (h_first usedHeap) 4128 = Some [0, 0, 0, 0]"
  by code_simp+

lemma smallHeap_ok: "heapOk 80 smallHeap"
  using heapInit_ok[OF emptyHeap_ok _ _ _ _ _ smallHeap_eval(1)]
  by (simp add: smallConfig_def)

lemma provider_supplies: "h_granule h = 64 \<Longrightarrow> h_first h = [] \<Longrightarrow> supplies provider h"
  by (auto simp: supplies_def provider_def split: if_splits)

lemma smallHeap_op: "heapOp [] smallHeap usedHeap"
proof (rule op_alloc[OF _ _ _ usedHeap_eval(1)])
  have "h_granule (snd (snd (Collect ([], True) smallHeap))) = 64" "h_first (snd (snd (Collect ([], True) smallHeap))) = []"
    by code_simp+
  then show "supplies provider (snd (snd (Collect ([], True) smallHeap)))" by (rule provider_supplies)
qed simp_all

lemma usedHeap_ok: "heapOk 80 usedHeap"
  using smallHeap_op smallHeap_ok by (rule heapOp_ok(1)[rotated])

text \<open>C25. In every state that a heap reaches from Init through allocations, collections and
  stray calls of Mark, the headers tile the segments, no marks are left, and the reserved size is
  the fixed overhead plus the sizes of the segments and never exceeds the limit.\<close>

theorem managed_heap_accounts:
  assumes "heapInit emptyHeap True True config = (True, h0)" "(heapOp live)\<^sup>*\<^sup>* h0 h"
    and "0 \<le> hc_Limit config" "hc_Limit config < 2 ^ 64" "0 \<le> hc_Granule config" "0 \<le> hc_Initial config" "0 \<le> hc_Overhead config"
  shows "segsOk (h_first h) \<and> atRest (h_first h) \<and> \<not> h_busy h \<and>
    Reserved h = heapSize + hc_Overhead config + sizes (h_first h) \<and>
    Reserved h \<le> (if hc_Limit config = 0 then maxUintptr else hc_Limit config)"
proof -
  have I: "heapOk (heapSize + hc_Overhead config) h0" "h_ready h0"
    "h_limit h0 = (if hc_Limit config = 0 then maxUintptr else hc_Limit config)"
    using heapInit_ok[OF emptyHeap_ok assms(3-7,1)] by simp_all
  have "heapOk (heapSize + hc_Overhead config) h" "sameConfig h0 h"
    using heapOps_ok[OF assms(2) I(1)] heapOps_config[OF assms(2)] by simp_all
  then have "h_ready h" "heapOk (heapSize + hc_Overhead config) h" "h_limit h = h_limit h0"
    using I(2) by (simp_all add: sameConfig_def)
  then show ?thesis using I(3) by (simp add: heapOk_def Reserved_def)
qed

lemma managed_heap_accounts_witness:
  "Reserved usedHeap = 80 + sizes (h_first usedHeap) \<and> Reserved usedHeap \<le> 400"
  using managed_heap_accounts[OF smallHeap_eval(1) r_into_rtranclp[of "heapOp []", OF smallHeap_op]]
  by (simp add: smallConfig_def)

text \<open>C26. Alloc implements the allocation of the abstract store: it answers nil and the store stays,
  or it adds one object at a fresh, aligned address, zeroed, with at least the requested size (an
  alignment unit for a request of zero bytes), apart from every other object; the objects that
  were there keep their contents, except that a collection, if one ran, drops the unreachable.\<close>

theorem Alloc_refines:
  assumes "heapOk fixed h" "0 \<le> sz" "supplies acquire (snd (snd (Collect roots h)))"
    and "Alloc acquire roots h sz = (res, released, h')"
  shows "heapOk fixed h' \<and>
    (\<exists>\<sigma>. (\<sigma> = objects (h_first h) \<or>
          snd roots \<and> \<sigma> = objects (h_first h) |` {a. reachable (objects (h_first h)) (fst roots) a}) \<and>
       (case res of None \<Rightarrow> objects (h_first h') = \<sigma>
        | Some p \<Rightarrow> allocated_at (if sz = 0 then 16 else sz) \<sigma> (objects (h_first h')) p))"
  using Alloc_ok[OF assms] unfolding outcome_def by blast

lemma Alloc_refines_witness:
  "heapOk 80 usedHeap \<and> (\<exists>\<sigma>. allocated_at 8 \<sigma> (objects (h_first usedHeap)) 4128)"
proof -
  have "h_granule (snd (snd (Collect ([], True) smallHeap))) = 64" "h_first (snd (snd (Collect ([], True) smallHeap))) = []"
    by code_simp+
  then have "supplies provider (snd (snd (Collect ([], True) smallHeap)))" by (rule provider_supplies)
  from Alloc_refines[OF smallHeap_ok _ this usedHeap_eval(1)] show ?thesis by auto
qed

text \<open>C27. A collection whose root enumeration is complete keeps exactly the objects that are
  reachable, conservatively and through interior pointers, from the reported roots, in place and
  with their contents, and releases every segment without one; after an incomplete enumeration
  the heap is exactly what it was.\<close>

theorem Collect_refines:
  assumes "heapOk fixed h" "h_ready h" "Collect (ps, complete) h = (fin, released, h')"
  shows "fin = complete \<and> heapOk fixed h' \<and>
    (if complete then
       objects (h_first h') = objects (h_first h) |` {a. reachable (objects (h_first h)) ps a} \<and>
       Reserved h' = Reserved h - sum_list (map snd released) \<and>
       (\<forall>s \<in> set (h_first h'). \<exists>a ws. objects (h_first h') a = Some ws \<and> seg_base s \<le> a \<and> a < seg_base s + seg_size s)
     else h' = h \<and> released = [])"
proof (cases complete)
  case True
  then show ?thesis using Collect_ok[OF assms(1,2), of ps fin released h'] assms(3) by (simp add: Reserved_def)
next
  case False
  then show ?thesis using Collect_incomplete[OF assms(1), of ps] assms(1,3) by simp
qed

lemma Collect_refines_witness:
  "objects (h_first (snd (snd (Collect ([4130], True) usedHeap)))) =
     objects (h_first usedHeap) |` {a. reachable (objects (h_first usedHeap)) [4130] a}"
proof -
  have "h_ready usedHeap" by code_simp
  from Collect_refines[OF usedHeap_ok this, of "[4130]" True] show ?thesis
    by (cases "Collect ([4130], True) usedHeap") auto
qed

text \<open>C28. An object that is reachable from the live roots is never freed, moved, overwritten or
  handed out again: through any sequence of operations whose root enumerations report at least
  the live roots, it stays at its address with its contents, and stays reachable.\<close>

theorem reachable_survives:
  assumes "heapOk fixed h" "(heapOp live)\<^sup>*\<^sup>* h h'" "reachable (objects (h_first h)) live a"
  shows "objects (h_first h') a = objects (h_first h) a \<and> reachable (objects (h_first h')) live a"
  using heap.ops_keep[OF assms(2), of a] assms(1,3) by (auto simp: heapInv_def heapStore_def)

lemma reachable_survives_witness:
  "objects (h_first (snd (snd (Collect ([4130, 7], True) usedHeap)))) 4128 = Some [0, 0, 0, 0]"
proof -
  have r: "reachable (objects (h_first usedHeap)) [4130] 4128"
    by (rule reachable_root[of 4130]) (simp_all add: keeps_def usedHeap_eval(2))
  have "heapOp [4130] usedHeap (snd (snd (Collect ([4130, 7], True) usedHeap)))"
    by (rule op_collect[of _ "([4130, 7], True)"]) (simp_all add: prod_eq_iff)
  from reachable_survives[OF usedHeap_ok r_into_rtranclp[of "heapOp [4130]", OF this] r]
  show ?thesis by (simp add: usedHeap_eval(2))
qed

text \<open>C29. Alloc does not answer nil while the budget allows the request: when the smallest segment
  for it fits what a collection leaves of the limit and the provider has storage of that size,
  the allocation succeeds.\<close>

theorem Alloc_available:
  assumes "heapOk fixed h" "h_ready h" "0 < sz" "sz \<le> maxUintptr - 31" "Collect roots h = (True, released, hc)"
    and "spanOf sz \<le> maxUintptr - segmentSize - (h_granule h - 1)"
    and "alignDown (spanOf sz + segmentSize + h_granule h - 1) (h_granule h) \<le>
      alignDown (h_limit h - h_reserved hc) (h_granule h)"
    and "acquire (alignDown (spanOf sz + segmentSize + h_granule h - 1) (h_granule h)) \<noteq> None"
  shows "\<exists>p released h'. Alloc acquire roots h sz = (Some p, released, h')"
  using Alloc_serves[where acquire = acquire, OF assms] by (cases "Alloc acquire roots h sz") auto

lemma Alloc_available_witness:
  "\<exists>p released h'. Alloc provider ([], True) smallHeap 100 = (Some p, released, h')"
proof -
  have c: "Collect ([], True) smallHeap = (True, [], smallHeap)" by code_simp
  have s: "spanOf 100 \<le> maxUintptr - segmentSize - (h_granule smallHeap - 1)"
    "alignDown (spanOf 100 + segmentSize + h_granule smallHeap - 1) (h_granule smallHeap) \<le>
      alignDown (h_limit smallHeap - h_reserved smallHeap) (h_granule smallHeap)"
    "provider (alignDown (spanOf 100 + segmentSize + h_granule smallHeap - 1) (h_granule smallHeap)) \<noteq> None"
    by code_simp+
  show ?thesis
    by (rule Alloc_available[where acquire = provider, OF smallHeap_ok smallHeap_eval(2) _ _ c s]) simp_all
qed

text \<open>ParseLimit accepts a text exactly when it is a decimal number, not empty, optionally followed
  by KiB, MiB, GiB or TiB, whose value in bytes is positive and fits 64 bits, and then answers that
  value; it never wraps.\<close>

theorem ParseLimit_budgets:
  "ParseLimit txt = (w, True) \<longleftrightarrow>
     (\<exists>ds k. budget txt ds k \<and> 0 < number 0 ds \<and> number 0 ds * k = uint w)"
  by (rule ParseLimit_exact)

end
