(* ===== verification/Spec2Isabelle.thy ===== *)
theory Spec2Isabelle
  imports Unit_Properties Front_Properties Syn_Parse_Properties VM_Properties MHeap_Properties
begin

text \<open>
  A verification development for renvo, a Go compiler that compiles itself: a frontend turns Go
  source into a unit, a back end turns a unit into a program of a target, and one of the targets is
  a bytecode virtual machine of the repository's own library.  The development models the parts
  of the program whose contract is a precise data format or state machine, each from its Go source:

    \<^item> the scanner and the declaration parser of the frontend, \<open>src/internal/syntax\<close> (\<open>token.go\<close>,
      \<open>scan.go\<close>, \<open>unicode.go\<close>, \<open>literal.go\<close>, \<open>number_literal.go\<close>, \<open>rune_literal.go\<close>, \<open>quoted_append.go\<close>,
      \<open>parse.go\<close>, \<open>generics.go\<close>);
    \<^item> the unit format, in three places: the frontend's side, \<open>src/internal/unit\<close>; the package of the
      back ends with both directions, \<open>src/backend/unit/unit.go\<close> and \<open>schema_generated.go\<close>; and of the
      back ends' own decoder, \<open>src/backend/compiler_unit_decode_impl.go\<close>, the check of the target
      binding and the foreign programs;
    \<^item> the bytecode virtual machine, \<open>src/std/vm/vm.go\<close>, with the directory reader of the programs
      that run in it, \<open>src/std/os/dirent_vm_vm32_renvo.go\<close>, \<open>readdir_posix_renvo.go\<close> and
      \<open>os_non_msdos_renvo.go\<close>;
    \<^item> the managed heap of compiled programs, \<open>src/internal/managedheap/heap.go\<close> and \<open>limit.go\<close>.

  The parts meet at data: a source file is what the scanner and the parser turn into tokens and spans of
  tokens; a unit is what the frontend writes (\<open>MarshalCore\<close>, with bindings and optional tables added
  to its bytes) and what \<open>backend/unit\<close> and the back ends read; an image is what the vm32 back end hands to the virtual machine (the bytes that
  \<open>decodeImage\<close> reads); a listing is what the virtual machine's directory system call hands to
  \<open>std/os\<close>; the heap is what a compiled program calls through \<open>Alloc\<close> and \<open>Collect\<close>.
\<close>

section \<open>How the model corresponds to the code\<close>

text \<open>
  A Go function is a definition of the same name (\<open>vm\<close>, \<open>heap\<close> or the like is put in front where
  the name clashes), a struct a \<open>record\<close> with the fields of the struct under a prefix, a method a
  function from the state to the state, and a loop a recursive function with its termination proof.
  A \<open>byte\<close> is a word of 8 bits, a register of the virtual machine one of 32, a string the list of its
  bytes, a slice a list.  A Go \<open>int\<close> is the mathematical integer: the hosts of these parts have 64-bit
  \<open>int\<close> and every value computed from a buffer stays far below \<open>2 ^ 63\<close>; where the code reduces a
  value to 32 bits or a byte the reduction is written out.  The capacity of a slice is modelled where the
  code depends on it: the room behind a marshaled unit, into which its binding is written, and the room
  behind the files, listings and standard input of the virtual machine, where an empty read beyond the
  length panics only beyond the capacity.  Elsewhere it plays no part, and preallocation is not
  modelled.

  Errors are values.  A decoder of the unit format returns a sum, \<open>Inl\<close> the \<open>fmt.Errorf\<close> value (its
  format and numeric arguments), a reader that answers \<open>ok = false\<close> returns \<open>None\<close>, a trap of the
  virtual machine is a field of the machine, as in the code.  A panic of the host (an index or slice
  expression out of range) is \<open>None\<close> in an option around the result: \<open>at\<close>, \<open>put\<close> and \<open>slice\<close> of
  \<open>Renvo_Prelude\<close> are Go's index, assignment and slice expressions.
\<close>

section \<open>Source files\<close>

text \<open>
  \<open>Syn_Token\<close> has the packed tokens, \<open>Syn_Unicode_Tables\<close> and \<open>Syn_Unicode\<close> the identifier tables and
  their binary search, \<open>Syn_Ranges\<close> its correctness, \<open>Syn_Lexeme\<close> and \<open>Syn_Loops\<close> the readers of the single lexemes,
  \<open>Syn_Encoding\<close> the check of the encoding, by words where the host allows it, \<open>Syn_Scan\<close> the scanner.
  \<open>Syn_Spec\<close> states the lexical grammar independently of the scanner and \<open>Syn_Utf8\<close> that of UTF-8;
  \<open>Syn_Boundary\<close>, \<open>Syn_Rounds\<close>, \<open>Syn_Total\<close> and \<open>Syn_Tiling\<close> relate the rounds of the scanner to it, and
  \<open>Syn_Quote\<close> the string literals to their values.  \<open>Syn_Properties\<close> holds the properties: the tokens tile the source, the scanner
  returns on every source, the encoding check is UTF-8, lines are exact, keywords, Unicode classes and
  literals.

  \<open>Syn_Brackets\<close> has the file the declaration parser fills, balanced brackets and type parameters,
  \<open>Syn_Decls\<close> imports, constants, variables, types and functions, \<open>Syn_Parse\<close> the loop over the file and
  its entry points, with the proof that no index is out of range and every loop ends.  \<open>Syn_Lines\<close>
  shows that linked and physical files have the same lines, \<open>Syn_Spans\<close> what the parser records, against
  matching brackets defined by counting.  \<open>Syn_Parse_Properties\<close> holds the property, and a function without
  a body that swallows the method behind it.
\<close>

section \<open>The unit format\<close>

text \<open>
  \<open>Unit_Varint\<close> has the primitive readers and writers (\<open>appendVarint\<close>, \<open>readVarint\<close>, nullable and
  signed integers, strings, spans, fixed 32-bit words).  \<open>Codec\<close> states what a writer and a reader
  promise each other, as two locales: \<open>codec\<close> for a primitive and \<open>row_codec\<close> for one row of a table;
  from the contract of the row follow the loops of every table encoder and decoder, once.
  \<open>Unit_Tables\<close> and \<open>Unit_Sem_Tables\<close> have the struct, the row writer, the row reader, the encoder
  and the decoder of each of the tables, and interpret \<open>row_codec\<close> on each.  \<open>Unit_Tokens\<close> has the
  token table with its 8-byte in-memory records, relative starts and lines, and the column of
  lines above 65535.  \<open>Unit_Codec\<close> has the schema tags, nodes, the core range checks, \<open>Marshal\<close>, and
  \<open>Unmarshal\<close> with its scan state \<open>UnitScan\<close>.  \<open>Unit_Container\<close> shows that the child loop is a fold
  over a list of children and that its state is a map from tags to payloads; \<open>Unit_Roundtrip\<close>
  characterises \<open>Marshal\<close> and \<open>Unmarshal\<close> by that list.  \<open>Unit_Properties\<close> holds the properties: round trip, the
  exact language of \<open>Unmarshal\<close>, the index ranges of the tokens, declarations, functions and packages of
  an accepted unit (the other tables carry ranges \<open>Unmarshal\<close> does not check), framing,
  unknown and repeated children, the exactness of varints and tables, and the loss of a
  first token line above 65535.

  \<open>Front_Unit\<close> has the frontend's program and the encoders of \<open>core_marshal.go\<close>, \<open>Front_Marshal\<close>
  \<open>MarshalCore\<close> and its transient form, the children of the unit it writes and the capacity it reserves,
  \<open>Front_Children\<close> the loop over the children of a unit that the passes behind it share, \<open>Front_Binding\<close> the target
  binding, \<open>Front_Reader\<close> the readers of payloads as a locale \<open>cursor_codec\<close>, \<open>Front_Foreign\<close> and
  \<open>Front_Programs\<close> entry points and foreign programs, \<open>Front_Assembly\<close> the project assembly, \<open>Front_Cache\<close>
  the package cache.  \<open>Back_Reader\<close> has the varints, the check of the target binding and the reader of
  foreign programs of the back ends.  \<open>Front_Properties\<close> holds the properties: what \<open>backend/unit\<close> reads of a
  marshaled program, the transient encoder, what binding, foreign programs and assembly do to a unit and
  what the back ends make of them, and the round trip of the cache.
\<close>

section \<open>The virtual machine\<close>

text \<open>
  \<open>VM_Image\<close> has the image decoder (header, checksum, routine table, constants) and
  \<open>validateCode\<close>; \<open>VM_Code\<close> shows what validation establishes: the positions reached by
  instruction lengths are the instruction boundaries and every jump ends on one.  \<open>VM_Machine\<close> has
  the record of the machine (registers, memory, call stack, descriptors, files, meters, trap) and its
  memory, stack and arithmetic operations; \<open>VM_Syscall\<close> the system calls, descriptors and
  synthesised directories; \<open>VM_Step\<close> the dispatch of one instruction, the fused ones included, and
  \<open>RunConfig\<close>.  The iterations of \<open>runLoop\<close> are counted: \<open>limits.Steps + 1\<close> of them are always enough,
  since every iteration that goes on spends a step (\<open>runLoop_terminates\<close> also shows that more of
  them change nothing).

  \<open>VM_Invariant\<close> and \<open>VM_Calls\<close> prove that every operation and system call keeps the invariant
  \<open>vm_inv\<close> and never panics outside the situations \<open>vmStep_panics_iff\<close> lists; \<open>VM_Run\<close> states a metered
  loop as a locale, interprets it on the machine, and concludes termination and limits;
  \<open>VM_Isolation\<close> shows what an instruction other than a system call leaves alone, \<open>VM_Traps\<close> what the
  boolean of each operation means, \<open>VM_Semantics\<close> what loads, stores, pushes, division, comparison, calls
  and fused instructions compute, \<open>VM_Outcome\<close> what a result tells about its run.  \<open>Os_Dirent\<close> and
  \<open>VM_Listing\<close> follow a directory from the file map of the machine to the entries of \<open>ReadDir\<close> in
  the guest.  \<open>VM_Properties\<close> holds the properties.
\<close>

section \<open>The managed heap\<close>

text \<open>
  \<open>MHeap_Model\<close> has segments and their metadata words, the layout of a new segment, first fit and marking;
  \<open>MHeap_Trace\<close> the tracing loop, whose termination measure is the number of cells marked but not
  yet scanned together with the unmarked ones, and shows that its marks are the cells reachable from the roots; \<open>MHeap_Store\<close> the
  well-formedness of a heap and its abstraction, a set of objects with their contents;
  \<open>MHeap_Collect\<close> collection, sweep and closing; \<open>MHeap_Alloc\<close> allocation, growth and the budget;
  \<open>MHeap_Client\<close> the contract with the program that uses the heap, as the locale \<open>collector\<close>,
  interpreted on the heap; \<open>MHeap_Limit\<close> the parsing of budgets.  The memory provider and the root
  enumerator are Go interfaces that each target implements: their answers are parameters, and what the
  heap relies on (a segment is zeroed, aligned, disjoint from the others) is the hypothesis \<open>supplies\<close>.
  The host is a 64-bit one.  \<open>MHeap_Properties\<close> holds the properties: accounting, refinement of
  allocation and collection, survival of reachable objects, availability within the budget, budgets.
\<close>

section \<open>What is not modelled\<close>

text \<open>
  The source converter of \<open>backend/unit\<close> is a bootstrap tokenizer with file access.  Of the back ends'
  decoder, the body with its token, declaration, function and package tables is not modelled, so what
  the properties say of a whole program is what \<open>Unmarshal\<close> of \<open>backend/unit\<close> reads.  The parser of statements, exports and directives
  (\<open>internal/syntax/body.go\<close> and its neighbours), the import order of \<open>internal/load\<close>, the scheduler and
  serial protocol of \<open>x/runtime\<close>, and the text packages of \<open>std\<close> are not modelled.  The type checker, the lowering and linking
  passes and the code generators are rewriting programs of tens of thousands of lines over one
  shared state, without a contract smaller than the semantics of Go and of the target.  The C
  frontend, the emulators, the definition language of targets, drivers, devices, user interface,
  examples and generated code are outside the core.
\<close>

end
